(* ===== verification/Prelude.thy ===== *)
theory Prelude
  imports Main "HOL-Library.Word"
begin

text \<open>
  Shared vocabulary of the development: the machine types of the Rust sources, faults as values,
  big-endian and little-endian byte encodings, byte readers, and the codec interfaces (locales)
  every wire format of the repository is an instance of.

  \<^item> Machine integers are words of the source's width; signed types (\<open>i16\<close>, \<open>i32\<close>) are read with
    \<open>sint\<close>. Release builds have \<^verbatim>\<open>overflow-checks = false\<close> (Cargo.toml), so arithmetic wraps.
  \<^item> \<open>usize\<close> lengths and indices are \<open>nat\<close>: no object of the program reaches 2^64 bytes.
  \<^item> A fallible operation returns \<open>fault + 'a\<close>; a Rust panic is the fault \<open>Panicked\<close>.
  \<^item> A \<open>String\<close> or \<open>Vec<u8>\<close> that goes to the wire is its list of bytes; where the code walks over
    \<open>chars\<close>, a string is the list of its Unicode scalar values.
\<close>

unbundle bit_operations_syntax

section \<open>Machine types and theorem collections\<close>

type_synonym byte = "8 word"
type_synonym u8 = "8 word"
type_synonym u16 = "16 word"
type_synonym u32 = "32 word"
type_synonym u64 = "64 word"
type_synonym i16 = "16 word"
type_synonym i32 = "32 word"
type_synonym ustr = "nat list"

named_theorems layout "byte-level expansions of the encoders"
named_theorems decode_simps "a decoder applied to what its encoder wrote"
named_theorems frame_rules "fields an operation leaves alone"

section \<open>Base-256 digits\<close>

fun be_nat :: "nat \<Rightarrow> nat \<Rightarrow> byte list" where
  "be_nat 0 m = []"
| "be_nat (Suc n) m = be_nat n (m div 256) @ [word_of_nat m]"

definition nat_be :: "byte list \<Rightarrow> nat" where
  "nat_be bs = foldl (\<lambda>a b. a * 256 + unat b) 0 bs"

text \<open>\<open>uN::to_be_bytes\<close>, \<open>uN::from_be_bytes\<close> and \<open>uN::to_le_bytes\<close>, at every width that is a multiple
  of 8.\<close>

definition to_be_bytes :: "'a::len word \<Rightarrow> byte list" where
  "to_be_bytes v = be_nat (LENGTH('a) div 8) (unat v)"

definition from_be_bytes :: "byte list \<Rightarrow> 'a::len word" where
  "from_be_bytes bs = word_of_nat (nat_be bs)"

definition to_le_bytes :: "'a::len word \<Rightarrow> byte list" where
  "to_le_bytes v = rev (to_be_bytes v)"

lemma length_be_nat [simp]: "length (be_nat n m) = n"
  by (induction n arbitrary: m) auto

lemma nat_be_Nil [simp]: "nat_be [] = 0"
  by (simp add: nat_be_def)

lemma nat_be_snoc [simp]: "nat_be (bs @ [b]) = nat_be bs * 256 + unat b"
  by (simp add: nat_be_def)

lemma nat_be_be_nat: "nat_be (be_nat n m) = m mod 256 ^ n"
proof (induction n arbitrary: m)
  case (Suc n)
  have "m mod (256 * 256 ^ n) = (m div 256 mod 256 ^ n) * 256 + m mod 256"
    by (simp add: mod_mult2_eq)
  then show ?case
    using Suc by (simp add: unat_of_nat)
qed simp

lemma nat_be_less: "nat_be bs < 256 ^ length bs"
proof (induction bs rule: rev_induct)
  case (snoc b bs)
  have "unat b < 256"
    using unsigned_less [of b] by simp
  then show ?case
    using snoc by simp
qed simp

lemma be_nat_nat_be: "be_nat (length bs) (nat_be bs) = bs"
proof (induction bs rule: rev_induct)
  case (snoc b bs)
  have b: "unat b < 256"
    using unsigned_less [of b] by simp
  then have "(nat_be bs * 256 + unat b) div 256 = nat_be bs"
    by simp
  moreover have "word_of_nat (nat_be bs * 256 + unat b) = b"
  proof -
    have z: "(256 :: byte) = 0"
      by simp
    have "word_of_nat (nat_be bs * 256 + unat b) = word_of_nat (nat_be bs) * 256 + b"
      by simp
    also have "\<dots> = b"
      by (simp only: z mult_zero_right add_0_left)
    finally show ?thesis .
  qed
  ultimately show ?case
    using snoc by simp
qed simp

lemma power_256: "(256::nat) ^ k = 2 ^ (8 * k)"
  by (simp add: power_mult)

lemma unat_mod_width: "8 * k = LENGTH('a) \<Longrightarrow> unat (v :: 'a::len word) mod 256 ^ k = unat v"
  by (simp add: power_256)

lemma from_be_bytes_to_be_bytes:
  assumes "8 * (LENGTH('a) div 8) = LENGTH('a)"
  shows "from_be_bytes (to_be_bytes (v :: 'a::len word)) = v"
  using unat_mod_width [OF assms, of v]
  by (simp add: from_be_bytes_def to_be_bytes_def nat_be_be_nat)

lemma to_be_bytes_from_be_bytes:
  assumes "8 * length bs = LENGTH('a)"
  shows "to_be_bytes (from_be_bytes bs :: 'a::len word) = bs"
proof -
  have "nat_be bs < 2 ^ LENGTH('a)"
    using nat_be_less [of bs] assms by (simp add: power_256)
  then have "unat (word_of_nat (nat_be bs) :: 'a word) = nat_be bs"
    by (simp add: unat_of_nat)
  moreover have "LENGTH('a) div 8 = length bs"
    using assms by simp
  ultimately show ?thesis
    by (simp add: to_be_bytes_def from_be_bytes_def be_nat_nat_be)
qed

lemma from_be_bytes_u8 [simp]: "from_be_bytes (to_be_bytes (v :: u8)) = v"
  by (rule from_be_bytes_to_be_bytes) simp

lemma from_be_bytes_u16 [simp]: "from_be_bytes (to_be_bytes (v :: u16)) = v"
  by (rule from_be_bytes_to_be_bytes) simp

lemma from_be_bytes_u32 [simp]: "from_be_bytes (to_be_bytes (v :: u32)) = v"
  by (rule from_be_bytes_to_be_bytes) simp

lemma from_be_bytes_u64 [simp]: "from_be_bytes (to_be_bytes (v :: u64)) = v"
  by (rule from_be_bytes_to_be_bytes) simp

lemma length_to_be_bytes [simp]: "length (to_be_bytes (v :: 'a::len word)) = LENGTH('a) div 8"
  by (simp add: to_be_bytes_def)

lemma length_to_le_bytes [simp]: "length (to_le_bytes (v :: 'a::len word)) = LENGTH('a) div 8"
  by (simp add: to_le_bytes_def)

lemma to_be_bytes_u8 [layout]: "to_be_bytes (v :: u8) = [v]"
  by (simp add: to_be_bytes_def)

lemma to_be_bytes_u16 [layout]:
  "to_be_bytes (v :: u16) = [word_of_nat (unat v div 256), word_of_nat (unat v)]"
  by (simp add: to_be_bytes_def numeral_2_eq_2)

lemma to_le_bytes_u16 [layout]:
  "to_le_bytes (v :: u16) = [word_of_nat (unat v), word_of_nat (unat v div 256)]"
  by (simp add: to_le_bytes_def to_be_bytes_u16)

lemma be_nat_numerals:
  "be_nat 2 m = [word_of_nat (m div 256), word_of_nat m]"
  "be_nat 4 m = be_nat 2 (m div 65536) @ be_nat 2 m"
  "be_nat 8 m = be_nat 4 (m div 4294967296) @ be_nat 4 m"
proof -
  have split: "be_nat (k + n) m = be_nat k (m div 256 ^ n) @ be_nat n m" for k n m
    by (induction n arbitrary: m) (simp_all add: div_mult2_eq)
  show "be_nat 2 m = [word_of_nat (m div 256), word_of_nat m]"
    by (simp add: numeral_2_eq_2)
  show "be_nat 4 m = be_nat 2 (m div 65536) @ be_nat 2 m"
    using split [of 2 2 m] by simp
  show "be_nat 8 m = be_nat 4 (m div 4294967296) @ be_nat 4 m"
    using split [of 4 4 m] by simp
qed

lemma to_be_bytes_u32 [layout]:
  "to_be_bytes (v :: u32) = be_nat 2 (unat v div 65536) @ be_nat 2 (unat v)"
  by (simp add: to_be_bytes_def be_nat_numerals(2))

lemma from_le_bytes_u16: "from_be_bytes (rev (to_le_bytes (v :: u16))) = v"
  by (simp add: to_le_bytes_def)

lemma to_le_bytes_inject: "to_le_bytes (v :: u16) = to_le_bytes w \<longleftrightarrow> v = w"
  by (metis from_le_bytes_u16)

section \<open>Faults\<close>

text \<open>Case rules for results: an operation either returns or stops with a fault.\<close>

lemma sum_cases: "(\<And>e. r = Inl e \<Longrightarrow> P) \<Longrightarrow> (\<And>x. r = Inr x \<Longrightarrow> P) \<Longrightarrow> P"
  by (cases r) auto

definition is_ok :: "'e + 'a \<Rightarrow> bool" where
  "is_ok r = (case r of Inl _ \<Rightarrow> False | Inr _ \<Rightarrow> True)"

lemma is_ok_simps [simp]: "is_ok (Inr x)" "\<not> is_ok (Inl e)"
  by (simp_all add: is_ok_def)

lemma is_ok_ex: "is_ok r \<longleftrightarrow> (\<exists>x. r = Inr x)"
  by (cases r) auto

section \<open>Lists\<close>

lemma append_eq_take_drop: "length xs = n \<Longrightarrow> take n (xs @ ys) = xs \<and> drop n (xs @ ys) = ys"
  by simp

definition position :: "('a \<Rightarrow> bool) \<Rightarrow> 'a list \<Rightarrow> nat option" where
  \<comment> \<open>\<open>Iterator::position\<close>: the index of the first element that satisfies the predicate\<close>
  "position P xs = (let n = length (takeWhile (\<lambda>x. \<not> P x) xs) in if n < length xs then Some n else None)"

lemma position_Some_iff:
  "position P xs = Some i \<longleftrightarrow> i < length xs \<and> P (xs ! i) \<and> (\<forall>j<i. \<not> P (xs ! j))"
proof
  assume "position P xs = Some i"
  then have i: "i = length (takeWhile (\<lambda>x. \<not> P x) xs)" "i < length xs"
    by (auto simp: position_def Let_def split: if_splits)
  then show "i < length xs \<and> P (xs ! i) \<and> (\<forall>j<i. \<not> P (xs ! j))"
    using nth_length_takeWhile [of "\<lambda>x. \<not> P x" xs]
    by (metis nth_mem set_takeWhileD takeWhile_nth)
next
  assume r: "i < length xs \<and> P (xs ! i) \<and> (\<forall>j<i. \<not> P (xs ! j))"
  have "takeWhile (\<lambda>x. \<not> P x) xs = take i xs"
    using r by (intro takeWhile_eq_take_P_nth) auto
  then have "length (takeWhile (\<lambda>x. \<not> P x) xs) = i"
    using r by simp
  with r show "position P xs = Some i"
    by (simp add: position_def)
qed

end
