(* ===== verification/Types.thy ===== *)
theory Types
  imports Prelude
begin

text \<open>
  The vocabulary of \<^verbatim>\<open>src/src/types.rs\<close> and \<^verbatim>\<open>src/src/error.rs\<close>: the error enum, the HID constants,
  keyboard scancodes with their tables, modifier bitmaps, the Android and scrcpy constants, mouse and
  gamepad enums, and the hat-switch table. The flat \<open>Scancode\<close> enum is split along the groups its
  own comments name, which keeps the enumeration checkable; the discriminants are those of the source.
\<close>

section \<open>Errors\<close>

datatype error =
    ScancodeOutOfRange u16
  | ControlMessageTooLarge nat nat
  | NameTooLong nat
  | ReportDescTooLong nat
  | UnknownGamepad u32
  | NoGamepadSlot
  | Transport string
  | BufferFullCritical
  | SessionLifecycle string
  | PointerIdOutOfRange u64 u64
  | PointerNotActive u64
  | PointerAlreadyDown u64
  | DispatcherDown string
  | AgentTimeout string

text \<open>What stops an operation: an \<open>Err\<close> value, or a panic.\<close>

datatype fault = Err error | Panicked

type_synonym 'a res = "fault + 'a"

section \<open>HID constants\<close>

definition HID_MAX_SIZE :: nat where [simp]: "HID_MAX_SIZE = 15"
definition MAX_GAMEPADS :: nat where [simp]: "MAX_GAMEPADS = 8"
definition GAMEPAD_ID_INVALID :: u32 where [simp]: "GAMEPAD_ID_INVALID = 0"
definition HID_ID_KEYBOARD :: u16 where [simp]: "HID_ID_KEYBOARD = 1"
definition HID_ID_MOUSE :: u16 where [simp]: "HID_ID_MOUSE = 2"
definition HID_ID_GAMEPAD_FIRST :: u16 where [simp]: "HID_ID_GAMEPAD_FIRST = 3"
definition HID_ID_GAMEPAD_LAST :: u16 where
  [simp]: "HID_ID_GAMEPAD_LAST = HID_ID_GAMEPAD_FIRST + word_of_nat MAX_GAMEPADS - 1"

section \<open>Modifiers\<close>

type_synonym modifiers = u8

definition mod_empty :: modifiers where [simp]: "mod_empty = 0"
definition LCTRL :: modifiers where [simp]: "LCTRL = push_bit 0 1"
definition LSHIFT :: modifiers where [simp]: "LSHIFT = push_bit 1 1"
definition LALT :: modifiers where [simp]: "LALT = push_bit 2 1"
definition LGUI :: modifiers where [simp]: "LGUI = push_bit 3 1"
definition RCTRL :: modifiers where [simp]: "RCTRL = push_bit 4 1"
definition RSHIFT :: modifiers where [simp]: "RSHIFT = push_bit 5 1"
definition RALT :: modifiers where [simp]: "RALT = push_bit 6 1"
definition RGUI :: modifiers where [simp]: "RGUI = push_bit 7 1"

definition mod_contains :: "modifiers \<Rightarrow> modifiers \<Rightarrow> bool" where
  "mod_contains m other = (m AND other = other)"

section \<open>Scancodes\<close>

datatype letter_key =
    SC_A | SC_B | SC_C | SC_D | SC_E | SC_F | SC_G
  | SC_H | SC_I | SC_J | SC_K | SC_L | SC_M | SC_N
  | SC_O | SC_P | SC_Q | SC_R | SC_S | SC_T | SC_U
  | SC_V | SC_W | SC_X | SC_Y | SC_Z

datatype digit_key =
    SC_D1 | SC_D2 | SC_D3 | SC_D4 | SC_D5 | SC_D6 | SC_D7
  | SC_D8 | SC_D9 | SC_D0

datatype control_key =
    SC_Enter | SC_Escape | SC_Backspace | SC_Tab | SC_Space | SC_Minus | SC_Equals
  | SC_LeftBrace | SC_RightBrace | SC_Backslash | SC_NonUsHash | SC_Semicolon | SC_Apostrophe | SC_Grave
  | SC_Comma | SC_Period | SC_Slash | SC_CapsLock

datatype function_key =
    SC_F1 | SC_F2 | SC_F3 | SC_F4 | SC_F5 | SC_F6 | SC_F7
  | SC_F8 | SC_F9 | SC_F10 | SC_F11 | SC_F12 | SC_PrintScreen | SC_ScrollLock
  | SC_Pause | SC_Insert | SC_Home | SC_PageUp | SC_Delete | SC_End | SC_PageDown
  | SC_Right | SC_Left | SC_Down | SC_Up

datatype numpad_key =
    SC_NumLockClear | SC_KpDivide | SC_KpMultiply | SC_KpMinus | SC_KpPlus | SC_KpEnter | SC_Kp1
  | SC_Kp2 | SC_Kp3 | SC_Kp4 | SC_Kp5 | SC_Kp6 | SC_Kp7 | SC_Kp8
  | SC_Kp9 | SC_Kp0 | SC_KpPeriod | SC_Reserved64 | SC_Reserved65

datatype modifier_key =
    SC_LeftCtrl | SC_LeftShift | SC_LeftAlt | SC_LeftGui | SC_RightCtrl | SC_RightShift | SC_RightAlt
  | SC_RightGui

datatype Scancode = Letter letter_key | Digit digit_key | Control control_key | Function function_key | Numpad numpad_key | Modifier modifier_key

primrec letter_u8 :: "letter_key \<Rightarrow> u8" where
  "letter_u8 SC_A = 0x04"
| "letter_u8 SC_B = 0x05"
| "letter_u8 SC_C = 0x06"
| "letter_u8 SC_D = 0x07"
| "letter_u8 SC_E = 0x08"
| "letter_u8 SC_F = 0x09"
| "letter_u8 SC_G = 0x0A"
| "letter_u8 SC_H = 0x0B"
| "letter_u8 SC_I = 0x0C"
| "letter_u8 SC_J = 0x0D"
| "letter_u8 SC_K = 0x0E"
| "letter_u8 SC_L = 0x0F"
| "letter_u8 SC_M = 0x10"
| "letter_u8 SC_N = 0x11"
| "letter_u8 SC_O = 0x12"
| "letter_u8 SC_P = 0x13"
| "letter_u8 SC_Q = 0x14"
| "letter_u8 SC_R = 0x15"
| "letter_u8 SC_S = 0x16"
| "letter_u8 SC_T = 0x17"
| "letter_u8 SC_U = 0x18"
| "letter_u8 SC_V = 0x19"
| "letter_u8 SC_W = 0x1A"
| "letter_u8 SC_X = 0x1B"
| "letter_u8 SC_Y = 0x1C"
| "letter_u8 SC_Z = 0x1D"

primrec digit_u8 :: "digit_key \<Rightarrow> u8" where
  "digit_u8 SC_D1 = 0x1E"
| "digit_u8 SC_D2 = 0x1F"
| "digit_u8 SC_D3 = 0x20"
| "digit_u8 SC_D4 = 0x21"
| "digit_u8 SC_D5 = 0x22"
| "digit_u8 SC_D6 = 0x23"
| "digit_u8 SC_D7 = 0x24"
| "digit_u8 SC_D8 = 0x25"
| "digit_u8 SC_D9 = 0x26"
| "digit_u8 SC_D0 = 0x27"

primrec control_u8 :: "control_key \<Rightarrow> u8" where
  "control_u8 SC_Enter = 0x28"
| "control_u8 SC_Escape = 0x29"
| "control_u8 SC_Backspace = 0x2A"
| "control_u8 SC_Tab = 0x2B"
| "control_u8 SC_Space = 0x2C"
| "control_u8 SC_Minus = 0x2D"
| "control_u8 SC_Equals = 0x2E"
| "control_u8 SC_LeftBrace = 0x2F"
| "control_u8 SC_RightBrace = 0x30"
| "control_u8 SC_Backslash = 0x31"
| "control_u8 SC_NonUsHash = 0x32"
| "control_u8 SC_Semicolon = 0x33"
| "control_u8 SC_Apostrophe = 0x34"
| "control_u8 SC_Grave = 0x35"
| "control_u8 SC_Comma = 0x36"
| "control_u8 SC_Period = 0x37"
| "control_u8 SC_Slash = 0x38"
| "control_u8 SC_CapsLock = 0x39"

primrec function_u8 :: "function_key \<Rightarrow> u8" where
  "function_u8 SC_F1 = 0x3A"
| "function_u8 SC_F2 = 0x3B"
| "function_u8 SC_F3 = 0x3C"
| "function_u8 SC_F4 = 0x3D"
| "function_u8 SC_F5 = 0x3E"
| "function_u8 SC_F6 = 0x3F"
| "function_u8 SC_F7 = 0x40"
| "function_u8 SC_F8 = 0x41"
| "function_u8 SC_F9 = 0x42"
| "function_u8 SC_F10 = 0x43"
| "function_u8 SC_F11 = 0x44"
| "function_u8 SC_F12 = 0x45"
| "function_u8 SC_PrintScreen = 0x46"
| "function_u8 SC_ScrollLock = 0x47"
| "function_u8 SC_Pause = 0x48"
| "function_u8 SC_Insert = 0x49"
| "function_u8 SC_Home = 0x4A"
| "function_u8 SC_PageUp = 0x4B"
| "function_u8 SC_Delete = 0x4C"
| "function_u8 SC_End = 0x4D"
| "function_u8 SC_PageDown = 0x4E"
| "function_u8 SC_Right = 0x4F"
| "function_u8 SC_Left = 0x50"
| "function_u8 SC_Down = 0x51"
| "function_u8 SC_Up = 0x52"

primrec numpad_u8 :: "numpad_key \<Rightarrow> u8" where
  "numpad_u8 SC_NumLockClear = 0x53"
| "numpad_u8 SC_KpDivide = 0x54"
| "numpad_u8 SC_KpMultiply = 0x55"
| "numpad_u8 SC_KpMinus = 0x56"
| "numpad_u8 SC_KpPlus = 0x57"
| "numpad_u8 SC_KpEnter = 0x58"
| "numpad_u8 SC_Kp1 = 0x59"
| "numpad_u8 SC_Kp2 = 0x5A"
| "numpad_u8 SC_Kp3 = 0x5B"
| "numpad_u8 SC_Kp4 = 0x5C"
| "numpad_u8 SC_Kp5 = 0x5D"
| "numpad_u8 SC_Kp6 = 0x5E"
| "numpad_u8 SC_Kp7 = 0x5F"
| "numpad_u8 SC_Kp8 = 0x60"
| "numpad_u8 SC_Kp9 = 0x61"
| "numpad_u8 SC_Kp0 = 0x62"
| "numpad_u8 SC_KpPeriod = 0x63"
| "numpad_u8 SC_Reserved64 = 0x64"
| "numpad_u8 SC_Reserved65 = 0x65"

primrec modifier_u8 :: "modifier_key \<Rightarrow> u8" where
  "modifier_u8 SC_LeftCtrl = 0xE0"
| "modifier_u8 SC_LeftShift = 0xE1"
| "modifier_u8 SC_LeftAlt = 0xE2"
| "modifier_u8 SC_LeftGui = 0xE3"
| "modifier_u8 SC_RightCtrl = 0xE4"
| "modifier_u8 SC_RightShift = 0xE5"
| "modifier_u8 SC_RightAlt = 0xE6"
| "modifier_u8 SC_RightGui = 0xE7"

fun to_u8 :: "Scancode \<Rightarrow> u8" where
  "to_u8 (Letter k) = letter_u8 k"
| "to_u8 (Digit k) = digit_u8 k"
| "to_u8 (Control k) = control_u8 k"
| "to_u8 (Function k) = function_u8 k"
| "to_u8 (Numpad k) = numpad_u8 k"
| "to_u8 (Modifier k) = modifier_u8 k"

definition is_modifier :: "Scancode \<Rightarrow> bool" where
  "is_modifier s = (0xE0 \<le> to_u8 s \<and> to_u8 s \<le> 0xE7)"

text \<open>The arms of \<open>Scancode::from_u8\<close>, in order; \<open>0x64\<close> and \<open>0x65\<close> have none.\<close>

definition scancode_table :: "(u8 \<times> Scancode) list" where
  "scancode_table =
    [(0x04, Letter SC_A), (0x05, Letter SC_B), (0x06, Letter SC_C),
     (0x07, Letter SC_D), (0x08, Letter SC_E), (0x09, Letter SC_F),
     (0x0A, Letter SC_G), (0x0B, Letter SC_H), (0x0C, Letter SC_I),
     (0x0D, Letter SC_J), (0x0E, Letter SC_K), (0x0F, Letter SC_L),
     (0x10, Letter SC_M), (0x11, Letter SC_N), (0x12, Letter SC_O),
     (0x13, Letter SC_P), (0x14, Letter SC_Q), (0x15, Letter SC_R),
     (0x16, Letter SC_S), (0x17, Letter SC_T), (0x18, Letter SC_U),
     (0x19, Letter SC_V), (0x1A, Letter SC_W), (0x1B, Letter SC_X),
     (0x1C, Letter SC_Y), (0x1D, Letter SC_Z), (0x1E, Digit SC_D1),
     (0x1F, Digit SC_D2), (0x20, Digit SC_D3), (0x21, Digit SC_D4),
     (0x22, Digit SC_D5), (0x23, Digit SC_D6), (0x24, Digit SC_D7),
     (0x25, Digit SC_D8), (0x26, Digit SC_D9), (0x27, Digit SC_D0),
     (0x28, Control SC_Enter), (0x29, Control SC_Escape), (0x2A, Control SC_Backspace),
     (0x2B, Control SC_Tab), (0x2C, Control SC_Space), (0x2D, Control SC_Minus),
     (0x2E, Control SC_Equals), (0x2F, Control SC_LeftBrace), (0x30, Control SC_RightBrace),
     (0x31, Control SC_Backslash), (0x32, Control SC_NonUsHash), (0x33, Control SC_Semicolon),
     (0x34, Control SC_Apostrophe), (0x35, Control SC_Grave), (0x36, Control SC_Comma),
     (0x37, Control SC_Period), (0x38, Control SC_Slash), (0x39, Control SC_CapsLock),
     (0x3A, Function SC_F1), (0x3B, Function SC_F2), (0x3C, Function SC_F3),
     (0x3D, Function SC_F4), (0x3E, Function SC_F5), (0x3F, Function SC_F6),
     (0x40, Function SC_F7), (0x41, Function SC_F8), (0x42, Function SC_F9),
     (0x43, Function SC_F10), (0x44, Function SC_F11), (0x45, Function SC_F12),
     (0x46, Function SC_PrintScreen), (0x47, Function SC_ScrollLock), (0x48, Function SC_Pause),
     (0x49, Function SC_Insert), (0x4A, Function SC_Home), (0x4B, Function SC_PageUp),
     (0x4C, Function SC_Delete), (0x4D, Function SC_End), (0x4E, Function SC_PageDown),
     (0x4F, Function SC_Right), (0x50, Function SC_Left), (0x51, Function SC_Down),
     (0x52, Function SC_Up), (0x53, Numpad SC_NumLockClear), (0x54, Numpad SC_KpDivide),
     (0x55, Numpad SC_KpMultiply), (0x56, Numpad SC_KpMinus), (0x57, Numpad SC_KpPlus),
     (0x58, Numpad SC_KpEnter), (0x59, Numpad SC_Kp1), (0x5A, Numpad SC_Kp2),
     (0x5B, Numpad SC_Kp3), (0x5C, Numpad SC_Kp4), (0x5D, Numpad SC_Kp5),
     (0x5E, Numpad SC_Kp6), (0x5F, Numpad SC_Kp7), (0x60, Numpad SC_Kp8),
     (0x61, Numpad SC_Kp9), (0x62, Numpad SC_Kp0), (0x63, Numpad SC_KpPeriod),
     (0xE0, Modifier SC_LeftCtrl), (0xE1, Modifier SC_LeftShift), (0xE2, Modifier SC_LeftAlt),
     (0xE3, Modifier SC_LeftGui), (0xE4, Modifier SC_RightCtrl), (0xE5, Modifier SC_RightShift),
     (0xE6, Modifier SC_RightAlt), (0xE7, Modifier SC_RightGui)]"

definition from_u8 :: "u8 \<Rightarrow> Scancode option" where
  "from_u8 b = map_of scancode_table b"

text \<open>
  \<open>Scancode::try_from_char\<close>: the scancode of a character and the modifiers it needs. Characters are
  Unicode scalar values; the numbers are the code points of the source's character literals
  (\<open>'a'\<close> is 97, \<open>'A'\<close> 65, \<open>'1'\<close> 49, \<open>'!'\<close> 33, \<dots>).
\<close>

definition try_from_char :: "nat \<Rightarrow> Scancode option \<times> modifiers" where
  "try_from_char c =
    (if 97 \<le> c \<and> c \<le> 122 then (from_u8 (word_of_nat c - 97 + 0x04), mod_empty)
     else if 65 \<le> c \<and> c \<le> 90 then (from_u8 (word_of_nat c - 65 + 0x04), LSHIFT)
     else if 49 \<le> c \<and> c \<le> 57 then (from_u8 (word_of_nat c - 49 + 0x1E), mod_empty)
     else if c = 48 then (Some (Digit SC_D0), mod_empty)
     else if c = 32 then (Some (Control SC_Space), mod_empty)
     else if c = 10 then (Some (Control SC_Enter), mod_empty)
     else if c = 9 then (Some (Control SC_Tab), mod_empty)
     else if c = 8 then (Some (Control SC_Backspace), mod_empty)
     else if c = 27 then (Some (Control SC_Escape), mod_empty)
     else if c = 33 then (Some (Digit SC_D1), LSHIFT)
     else if c = 64 then (Some (Digit SC_D2), LSHIFT)
     else if c = 35 then (Some (Digit SC_D3), LSHIFT)
     else if c = 36 then (Some (Digit SC_D4), LSHIFT)
     else if c = 37 then (Some (Digit SC_D5), LSHIFT)
     else if c = 94 then (Some (Digit SC_D6), LSHIFT)
     else if c = 38 then (Some (Digit SC_D7), LSHIFT)
     else if c = 42 then (Some (Digit SC_D8), LSHIFT)
     else if c = 40 then (Some (Digit SC_D9), LSHIFT)
     else if c = 41 then (Some (Digit SC_D0), LSHIFT)
     else if c = 45 then (Some (Control SC_Minus), mod_empty)
     else if c = 95 then (Some (Control SC_Minus), LSHIFT)
     else if c = 61 then (Some (Control SC_Equals), mod_empty)
     else if c = 43 then (Some (Control SC_Equals), LSHIFT)
     else if c = 91 then (Some (Control SC_LeftBrace), mod_empty)
     else if c = 123 then (Some (Control SC_LeftBrace), LSHIFT)
     else if c = 93 then (Some (Control SC_RightBrace), mod_empty)
     else if c = 125 then (Some (Control SC_RightBrace), LSHIFT)
     else if c = 92 then (Some (Control SC_Backslash), mod_empty)
     else if c = 124 then (Some (Control SC_Backslash), LSHIFT)
     else if c = 59 then (Some (Control SC_Semicolon), mod_empty)
     else if c = 58 then (Some (Control SC_Semicolon), LSHIFT)
     else if c = 39 then (Some (Control SC_Apostrophe), mod_empty)
     else if c = 34 then (Some (Control SC_Apostrophe), LSHIFT)
     else if c = 96 then (Some (Control SC_Grave), mod_empty)
     else if c = 126 then (Some (Control SC_Grave), LSHIFT)
     else if c = 44 then (Some (Control SC_Comma), mod_empty)
     else if c = 60 then (Some (Control SC_Comma), LSHIFT)
     else if c = 46 then (Some (Control SC_Period), mod_empty)
     else if c = 62 then (Some (Control SC_Period), LSHIFT)
     else if c = 47 then (Some (Control SC_Slash), mod_empty)
     else if c = 63 then (Some (Control SC_Slash), LSHIFT)
     else (None, mod_empty))"

definition validate_scancode :: "u16 \<Rightarrow> error + u8" where
  "validate_scancode scancode =
     (if scancode > 0xFF then Inl (ScancodeOutOfRange scancode)
      else let b = ucast scancode :: u8 in
        if b > 0x65 \<and> \<not> (0xE0 \<le> b \<and> b \<le> 0xE7) then Inl (ScancodeOutOfRange scancode)
        else Inr b)"

section \<open>Android and scrcpy constants\<close>

definition KEYCODE_HOME :: u32 where [simp]: "KEYCODE_HOME = 3"
definition KEYCODE_BACK :: u32 where [simp]: "KEYCODE_BACK = 4"
definition KEYCODE_VOLUME_UP :: u32 where [simp]: "KEYCODE_VOLUME_UP = 24"
definition KEYCODE_VOLUME_DOWN :: u32 where [simp]: "KEYCODE_VOLUME_DOWN = 25"
definition KEYCODE_VOLUME_MUTE :: u32 where [simp]: "KEYCODE_VOLUME_MUTE = 164"
definition KEYCODE_APP_SWITCH :: u32 where [simp]: "KEYCODE_APP_SWITCH = 187"

definition KEY_DOWN :: u8 where [simp]: "KEY_DOWN = 0"
definition KEY_UP :: u8 where [simp]: "KEY_UP = 1"

definition COPY_KEY_NONE :: u8 where [simp]: "COPY_KEY_NONE = 0"

definition TOUCH_DOWN :: u8 where [simp]: "TOUCH_DOWN = 0"
definition TOUCH_UP :: u8 where [simp]: "TOUCH_UP = 1"
definition TOUCH_MOVE :: u8 where [simp]: "TOUCH_MOVE = 2"
definition TOUCH_CANCEL :: u8 where [simp]: "TOUCH_CANCEL = 3"

definition POINTER_ID_MOUSE :: u64 where [simp]: "POINTER_ID_MOUSE = -1"
definition POINTER_ID_GENERIC_FINGER :: u64 where [simp]: "POINTER_ID_GENERIC_FINGER = -1 - 1"
definition POINTER_ID_VIRTUAL_FINGER :: u64 where [simp]: "POINTER_ID_VIRTUAL_FINGER = -1 - 2"

section \<open>Mouse and gamepad enums\<close>

datatype MouseButton = MouseLeft | MouseRight | MouseMiddle | MouseX1 | MouseX2

fun mouse_button_bits :: "MouseButton \<Rightarrow> u8" where
  "mouse_button_bits MouseLeft = push_bit 0 1"
| "mouse_button_bits MouseRight = push_bit 1 1"
| "mouse_button_bits MouseMiddle = push_bit 2 1"
| "mouse_button_bits MouseX1 = push_bit 3 1"
| "mouse_button_bits MouseX2 = push_bit 4 1"

definition mouse_button_state :: "MouseButton list \<Rightarrow> u8" where
  "mouse_button_state buttons = foldl (\<lambda>s b. s OR mouse_button_bits b) 0 buttons"

datatype GamepadAxis = LeftX | LeftY | RightX | RightY | LeftTrigger | RightTrigger

datatype GamepadButton =
    South | East | West | North | Back | Start | Guide | LeftStick | RightStick
  | LeftShoulder | RightShoulder | DpadUp | DpadDown | DpadLeft | DpadRight

fun button_bits :: "GamepadButton \<Rightarrow> u32" where
  "button_bits South = 0x0001"
| "button_bits East = 0x0002"
| "button_bits West = 0x0008"
| "button_bits North = 0x0010"
| "button_bits Back = 0x0400"
| "button_bits Start = 0x0800"
| "button_bits Guide = 0x1000"
| "button_bits LeftStick = 0x2000"
| "button_bits RightStick = 0x4000"
| "button_bits LeftShoulder = 0x0040"
| "button_bits RightShoulder = 0x0080"
| "button_bits DpadUp = 0x00010000"
| "button_bits DpadDown = 0x00020000"
| "button_bits DpadLeft = 0x00040000"
| "button_bits DpadRight = 0x00080000"

definition DPAD_MASK :: u32 where
  "DPAD_MASK = button_bits DpadUp OR button_bits DpadDown OR button_bits DpadLeft OR button_bits DpadRight"

definition DPAD_HAT_LOOKUP :: "u8 list" where
  "DPAD_HAT_LOOKUP = [0, 1, 5, 0, 7, 8, 6, 0, 3, 2, 4, 0, 0, 0, 0, 0]"

definition dpad_hat_value :: "u32 \<Rightarrow> u8" where
  "dpad_hat_value buttons = DPAD_HAT_LOOKUP ! unat (drop_bit 16 (buttons AND DPAD_MASK))"


section \<open>Reference tables\<close>

text \<open>
  The compass of the hat switch (USB HID Usage Tables: 1 is up, clockwise to 8; 0 is the null state).
\<close>

fun hat_spec :: "bool \<Rightarrow> bool \<Rightarrow> bool \<Rightarrow> bool \<Rightarrow> u8" where
  "hat_spec up down left right =
     (if up \<and> down \<or> left \<and> right then 0
      else if up then (if left then 8 else if right then 2 else 1)
      else if down then (if left then 6 else if right then 4 else 5)
      else if left then 7 else if right then 3 else 0)"

text \<open>
  What a US keyboard layout renders for a usage id (HID Usage Tables, page 0x07, ids \<open>0x04..0x38\<close>),
  unshifted and with the left shift held, as code points. It is the reference \<open>try_from_char\<close> is
  checked against.
\<close>

definition us_unshifted :: "nat list" where
  "us_unshifted = [97..<123] @ [49..<58] @ [48, 10, 27, 8, 9, 32, 45, 61, 91, 93, 92, 35, 59, 39, 96, 44, 46, 47]"

definition us_shifted :: "nat list" where
  "us_shifted = [65..<91] @ [33, 64, 35, 36, 37, 94, 38, 42, 40, 41, 10, 27, 8, 9, 32, 95, 43, 123, 125, 124,
     126, 58, 34, 126, 60, 62, 63]"

definition us_layout :: "u8 \<Rightarrow> modifiers \<Rightarrow> nat option" where
  "us_layout b m =
     (let i = unat b - 4 in
      if b < 4 then None
      else if m = 0 then (if i < length us_unshifted then Some (us_unshifted ! i) else None)
      else if m = LSHIFT then (if i < length us_shifted then Some (us_shifted ! i) else None)
      else None)"

section \<open>Facts\<close>

lemma scancode_table_sorted: "sorted_wrt (<) (map fst scancode_table)"
proof -
  have "successively (<) (map fst scancode_table)"
    by (simp add: scancode_table_def)
  then show ?thesis
    by (simp add: successively_conv_sorted_wrt)
qed

lemma scancode_table_to_u8: "(b, s) \<in> set scancode_table \<Longrightarrow> to_u8 s = b"
proof -
  have "list_all (\<lambda>(b, s). to_u8 s = b) scancode_table"
    by (simp add: scancode_table_def)
  then show "(b, s) \<in> set scancode_table \<Longrightarrow> to_u8 s = b"
    by (auto simp: list_all_iff)
qed

lemma scancode_table_complete:
  assumes "s \<noteq> Numpad SC_Reserved64" and "s \<noteq> Numpad SC_Reserved65"
  shows "s \<in> set (map snd scancode_table)"
proof (cases s)
  case (Letter k) then show ?thesis by (cases k) (simp_all add: scancode_table_def)
next
  case (Digit k) then show ?thesis by (cases k) (simp_all add: scancode_table_def)
next
  case (Control k) then show ?thesis by (cases k) (simp_all add: scancode_table_def)
next
  case (Function k) then show ?thesis by (cases k) (simp_all add: scancode_table_def)
next
  case (Numpad k) then show ?thesis using assms by (cases k) (simp_all add: scancode_table_def)
next
  case (Modifier k) then show ?thesis by (cases k) (simp_all add: scancode_table_def)
qed

lemma from_u8_reserved:
  "from_u8 0x64 = None" "from_u8 0x65 = None"
  by (simp_all add: from_u8_def scancode_table_def)

lemma from_u8_Some_iff: "from_u8 b = Some s \<longleftrightarrow> (b, s) \<in> set scancode_table"
  using scancode_table_sorted by (simp add: from_u8_def strict_sorted_iff)

lemma hat_index: "drop_bit 16 (b AND DPAD_MASK) = take_bit 4 (drop_bit 16 (b :: u32))"
proof -
  have "DPAD_MASK = push_bit 16 (mask 4)"
    by (simp add: DPAD_MASK_def mask_numeral)
  then have "b AND DPAD_MASK = b AND push_bit 16 (mask 4)"
    by (simp only:)
  then show ?thesis
    by (simp only:) (auto simp: bit_eq_iff bit_simps)
qed

lemma take_bit_4:
  "take_bit 4 (w :: u32) = of_bool (bit w 0) + 2 * of_bool (bit w 1)
     + 4 * of_bool (bit w 2) + 8 * of_bool (bit w 3)"
  by (simp add: take_bit_Suc numeral_eq_Suc bit_Suc bit_0 mod_2_eq_odd algebra_simps)

text \<open>The hat switch shows the direction of the dpad bits; opposite directions cancel to the centre.\<close>

lemma dpad_hat_value_spec: "dpad_hat_value b = hat_spec (bit b 16) (bit b 17) (bit b 18) (bit b 19)"
proof -
  have "take_bit 4 (drop_bit 16 b) = of_bool (bit b 16) + 2 * of_bool (bit b 17)
      + 4 * of_bool (bit b 18) + 8 * of_bool (bit b 19)"
    by (simp add: take_bit_4 bit_simps)
  then show ?thesis
  unfolding dpad_hat_value_def hat_index
  by (cases "bit b 16"; cases "bit b 17"; cases "bit b 18"; cases "bit b 19")
    (simp_all add: DPAD_HAT_LOOKUP_def)
qed

lemma to_u8_of_from_u8: "from_u8 b = Some s \<Longrightarrow> to_u8 s = b"
  by (simp add: from_u8_Some_iff scancode_table_to_u8)

lemma to_u8_reserved: "to_u8 (Numpad SC_Reserved64) = 0x64" "to_u8 (Numpad SC_Reserved65) = 0x65"
  by simp_all

lemma from_u8_to_u8:
  "from_u8 (to_u8 s) = Some s \<longleftrightarrow> s \<noteq> Numpad SC_Reserved64 \<and> s \<noteq> Numpad SC_Reserved65"
proof
  assume "s \<noteq> Numpad SC_Reserved64 \<and> s \<noteq> Numpad SC_Reserved65"
  then obtain b where "(b, s) \<in> set scancode_table"
    using scancode_table_complete by fastforce
  then show "from_u8 (to_u8 s) = Some s"
    using scancode_table_to_u8 by (auto simp: from_u8_Some_iff)
qed (use from_u8_reserved to_u8_reserved in auto)

lemma to_u8_inject: "to_u8 s = to_u8 t \<longleftrightarrow> s = t"
proof
  assume eq: "to_u8 s = to_u8 t"
  show "s = t"
  proof (cases "s \<in> {Numpad SC_Reserved64, Numpad SC_Reserved65} \<or> t \<in> {Numpad SC_Reserved64, Numpad SC_Reserved65}")
    case True
    then show ?thesis
      using eq from_u8_to_u8 [of s] from_u8_to_u8 [of t] from_u8_reserved by auto
  next
    case False
    then show ?thesis
      using eq from_u8_to_u8 [of s] from_u8_to_u8 [of t] by simp
  qed
qed simp

lemma try_from_char_none: "127 \<le> c \<Longrightarrow> try_from_char c = (None, mod_empty)"
  by (simp add: try_from_char_def)

definition supported_char :: "nat \<Rightarrow> bool" where
  "supported_char c = (c \<in> {8, 9, 10, 27} \<or> 32 \<le> c \<and> c < 127)"

lemma try_from_char_table:
  "list_all (\<lambda>c. case try_from_char c of (None, m) \<Rightarrow> \<not> supported_char c
      | (Some s, m) \<Rightarrow> supported_char c \<and> us_layout (to_u8 s) m = Some c) [0..<127]"
  by code_simp

lemma try_from_char_cases:
  "case try_from_char c of (None, m) \<Rightarrow> \<not> supported_char c
    | (Some s, m) \<Rightarrow> supported_char c \<and> us_layout (to_u8 s) m = Some c"
proof (cases "c < 127")
  case True
  then show ?thesis
    using try_from_char_table by (simp add: list_all_iff)
qed (simp add: try_from_char_none supported_char_def)

lemma try_from_char_layout: "try_from_char c = (Some s, m) \<Longrightarrow> us_layout (to_u8 s) m = Some c"
  using try_from_char_cases [of c] by simp

lemma try_from_char_some_iff: "(\<exists>s m. try_from_char c = (Some s, m)) \<longleftrightarrow> supported_char c"
  using try_from_char_cases [of c] by (cases "try_from_char c") (auto split: option.splits)

lemma length_us_layout: "length us_unshifted = 53" "length us_shifted = 53"
  by (simp_all only: us_unshifted_def us_shifted_def length_append length_upt list.size)

lemma us_layout_bound:
  assumes "us_layout b m = Some c"
  shows "unat b < 57" and "m = 0 \<or> m = LSHIFT"
  using assms by (simp_all only: us_layout_def Let_def length_us_layout option.distinct split: if_splits) simp_all

lemma try_from_char_bound:
  assumes "try_from_char c = (Some s, m)"
  shows "to_u8 s \<le> 0x65"
  using us_layout_bound [OF try_from_char_layout [OF assms]]
  by (simp add: word_le_nat_alt)

end
