(* ===== verification/F32.thy ===== *)
theory F32
  imports Complex_Main "HOL-Library.Log_Nat" Prelude
begin

text \<open>
  Binary32 arithmetic for the code that computes with \<open>f32\<close> (touch pressure, scroll deltas, stick
  values, gesture interpolation). A value is a NaN, an infinity or a rational; every arithmetic
  operation rounds to nearest, ties to even, on 24 bits of precision with gradual underflow at
  2^-149 and overflow to infinity at 2^128. The sign of a zero is not kept: no cast or comparison
  of the sources observes it. The Rust \<open>as\<close> casts to integers truncate and saturate, NaN to 0.
\<close>

section \<open>Rounding\<close>

datatype f32 = NaN | Inf bool | Fin rat \<comment> \<open>\<open>Inf True\<close> is the negative infinity\<close>

definition ilog2 :: "rat \<Rightarrow> int" where
  "ilog2 q = (let (n, d) = quotient_of q; e = bitlen n - bitlen d
     in if 2 powi e \<le> q then e else e - 1)"

definition half_even :: "rat \<Rightarrow> int" where
  "half_even x = (let f = \<lfloor>x\<rfloor>; r = x - of_int f in
     if r < 1 / 2 then f else if 1 / 2 < r then f + 1 else if even f then f else f + 1)"

definition quantum :: "rat \<Rightarrow> int" where
  "quantum q = max (ilog2 \<bar>q\<bar> - 23) (-149)"

definition f32_round :: "rat \<Rightarrow> f32" where
  "f32_round q =
     (if q = 0 then Fin 0
      else let k = quantum q; v = of_int (half_even (q / 2 powi k)) * 2 powi k
        in if 2 powi 128 \<le> \<bar>v\<bar> then Inf (v < 0) else Fin v)"

definition representable :: "rat \<Rightarrow> bool" where
  "representable q \<longleftrightarrow> (\<exists>m k. q = of_int m * 2 powi k \<and> \<bar>m\<bar> < 2 ^ 24 \<and> -149 \<le> k \<and> k \<le> 104)"

section \<open>Operations\<close>

fun f32_neg :: "f32 \<Rightarrow> f32" where
  "f32_neg NaN = NaN"
| "f32_neg (Inf s) = Inf (\<not> s)"
| "f32_neg (Fin x) = Fin (- x)"

fun f32_add :: "f32 \<Rightarrow> f32 \<Rightarrow> f32" where
  "f32_add NaN b = NaN"
| "f32_add a NaN = NaN"
| "f32_add (Inf s) (Inf t) = (if s = t then Inf s else NaN)"
| "f32_add (Inf s) (Fin y) = Inf s"
| "f32_add (Fin x) (Inf t) = Inf t"
| "f32_add (Fin x) (Fin y) = f32_round (x + y)"

definition f32_sub :: "f32 \<Rightarrow> f32 \<Rightarrow> f32" where
  "f32_sub a b = f32_add a (f32_neg b)"

fun f32_mul :: "f32 \<Rightarrow> f32 \<Rightarrow> f32" where
  "f32_mul NaN b = NaN"
| "f32_mul a NaN = NaN"
| "f32_mul (Inf s) (Inf t) = Inf (s \<noteq> t)"
| "f32_mul (Inf s) (Fin y) = (if y = 0 then NaN else Inf (s \<noteq> (y < 0)))"
| "f32_mul (Fin x) (Inf t) = (if x = 0 then NaN else Inf (t \<noteq> (x < 0)))"
| "f32_mul (Fin x) (Fin y) = f32_round (x * y)"

text \<open>Division, for divisors that are positive numbers (the sources divide by \<open>16.0\<close> and by step
  counts only).\<close>

fun f32_div_pos :: "f32 \<Rightarrow> rat \<Rightarrow> f32" where
  "f32_div_pos NaN d = NaN"
| "f32_div_pos (Inf s) d = Inf s"
| "f32_div_pos (Fin x) d = f32_round (x / d)"

fun f32_clamp :: "f32 \<Rightarrow> rat \<Rightarrow> rat \<Rightarrow> f32" where
  "f32_clamp NaN lo hi = NaN"
| "f32_clamp (Inf s) lo hi = Fin (if s then lo else hi)"
| "f32_clamp (Fin x) lo hi = Fin (if x < lo then lo else if hi < x then hi else x)"

definition rat_trunc :: "rat \<Rightarrow> int" where
  "rat_trunc x = (if 0 \<le> x then \<lfloor>x\<rfloor> else \<lceil>x\<rceil>)"

definition rat_round :: "rat \<Rightarrow> int" where
  \<comment> \<open>half away from zero\<close>
  "rat_round x = (if 0 \<le> x then \<lfloor>x + 1 / 2\<rfloor> else \<lceil>x - 1 / 2\<rceil>)"

fun f32_trunc :: "f32 \<Rightarrow> f32" where
  "f32_trunc NaN = NaN"
| "f32_trunc (Inf s) = Inf s"
| "f32_trunc (Fin x) = Fin (of_int (rat_trunc x))"

fun f32_round_int :: "f32 \<Rightarrow> f32" where
  \<comment> \<open>\<open>f32::round\<close>\<close>
  "f32_round_int NaN = NaN"
| "f32_round_int (Inf s) = Inf s"
| "f32_round_int (Fin x) = Fin (of_int (rat_round x))"

fun f32_to_int :: "int \<Rightarrow> int \<Rightarrow> f32 \<Rightarrow> int" where
  \<comment> \<open>an \<open>as\<close> cast to the integer range \<open>lo..=hi\<close>\<close>
  "f32_to_int lo hi NaN = 0"
| "f32_to_int lo hi (Inf s) = (if s then lo else hi)"
| "f32_to_int lo hi (Fin x) = max lo (min hi (rat_trunc x))"

definition f32_as_i8 :: "f32 \<Rightarrow> u8" where
  "f32_as_i8 v = word_of_int (f32_to_int (-128) 127 v)"

definition f32_as_i16 :: "f32 \<Rightarrow> i16" where
  "f32_as_i16 v = word_of_int (f32_to_int (-32768) 32767 v)"

definition f32_as_i32 :: "f32 \<Rightarrow> i32" where
  "f32_as_i32 v = word_of_int (f32_to_int (- (2 ^ 31)) (2 ^ 31 - 1) v)"

definition f32_as_u16 :: "f32 \<Rightarrow> u16" where
  "f32_as_u16 v = word_of_int (f32_to_int 0 65535 v)"

definition i32_as_f32 :: "i32 \<Rightarrow> f32" where
  "i32_as_f32 i = f32_round (of_int (sint i))"

definition u32_as_f32 :: "u32 \<Rightarrow> f32" where
  "u32_as_f32 i = f32_round (of_int (uint i))"

section \<open>Representable values are fixed points of rounding\<close>

lemma powi2_add: "(2 :: rat) powi (a + b) = 2 powi a * 2 powi b"
  by (simp add: power_int_add)

lemma powi2_less_iff: "(2 :: rat) powi a < 2 powi b \<longleftrightarrow> a < b"
proof -
  have less: "(2 :: rat) powi a < 2 powi b" if "a < b" for a b
    using that by (intro power_int_strict_increasing) auto
  show ?thesis
    using less [of a b] less [of b a] by (metis linorder_cases not_less_iff_gr_or_eq)
qed

lemma powi2_le_iff: "(2 :: rat) powi a \<le> 2 powi b \<longleftrightarrow> a \<le> b"
  using powi2_less_iff by (metis linorder_not_less)

lemma powi2_nonneg: "0 \<le> k \<Longrightarrow> (2 :: rat) powi k = of_int (2 ^ nat k)"
  by (simp add: power_int_def)

lemma bitlen_rat:
  assumes "0 < n"
  shows "2 powi (bitlen n - 1) \<le> (of_int n :: rat)" and "of_int n < (2 :: rat) powi bitlen n"
proof -
  have b: "1 \<le> bitlen n"
    using assms bitlen_eq_zero_iff [of n] bitlen_nonneg [of n] by linarith
  have "of_int (2 ^ nat (bitlen n - 1)) \<le> (of_int n :: rat)"
    "of_int n < (of_int (2 ^ nat (bitlen n)) :: rat)"
    using bitlen_bounds [OF assms] by (simp_all only: of_int_le_iff of_int_less_iff)
  then show "2 powi (bitlen n - 1) \<le> (of_int n :: rat)" "of_int n < (2 :: rat) powi bitlen n"
    using b by (simp_all add: powi2_nonneg)
qed

lemma ilog2_bounds:
  assumes "0 < q"
  shows "2 powi ilog2 q \<le> q" and "q < 2 powi (ilog2 q + 1)"
proof -
  obtain n d where nd: "quotient_of q = (n, d)"
    by (cases "quotient_of q")
  have d: "0 < d" and q: "q = of_int n / of_int d"
    using quotient_of_denom_pos [OF nd] quotient_of_div [OF nd] by auto
  then have n: "0 < n"
    using assms by (simp add: zero_less_divide_iff)
  define e where "e = bitlen n - bitlen d"
  have up: "q < 2 powi (e + 1)"
  proof -
    have "of_int n < (2 :: rat) powi (e + 1) * 2 powi (bitlen d - 1)"
      using bitlen_rat(2) [OF n] by (simp add: powi2_add [symmetric] e_def)
    also have "\<dots> \<le> 2 powi (e + 1) * of_int d"
      using bitlen_rat(1) [OF d] by (intro mult_left_mono) auto
    finally show ?thesis
      using d by (simp add: q field_simps)
  qed
  have low: "2 powi (e - 1) \<le> q"
  proof -
    have "2 powi (e - 1) * of_int d \<le> (2 :: rat) powi (e - 1) * 2 powi bitlen d"
      using bitlen_rat(2) [OF d] by (intro mult_left_mono) auto
    also have "\<dots> \<le> of_int n"
      using bitlen_rat(1) [OF n] by (simp add: powi2_add [symmetric] e_def)
    finally show ?thesis
      using d by (simp add: q field_simps)
  qed
  have "ilog2 q = (if 2 powi e \<le> q then e else e - 1)"
    by (simp add: ilog2_def nd e_def)
  then show "2 powi ilog2 q \<le> q" "q < 2 powi (ilog2 q + 1)"
    using up low by (auto split: if_splits)
qed

lemma half_even_of_int [simp]: "half_even (of_int i) = i"
  by (simp add: half_even_def)

text \<open>A value on a grid the quantum refines is kept.\<close>

lemma quantum_le:
  assumes "q = of_int m * 2 powi k" "\<bar>m\<bar> < 2 ^ 24" "-149 \<le> k" "q \<noteq> 0"
  shows "quantum q \<le> k"
proof -
  have "\<bar>q\<bar> = of_int \<bar>m\<bar> * 2 powi k"
    by (simp add: assms(1) abs_mult)
  also have "\<dots> < of_int (2 ^ 24) * 2 powi k"
    using assms(2) by (intro mult_strict_right_mono) (simp_all only: of_int_less_iff zero_less_power_int zero_less_numeral)
  also have "\<dots> = 2 powi (24 + k)"
    by (simp add: powi2_add)
  finally have "2 powi ilog2 \<bar>q\<bar> < (2 :: rat) powi (24 + k)"
    using ilog2_bounds(1) [of "\<bar>q\<bar>"] assms(4) by simp
  then have "ilog2 \<bar>q\<bar> < 24 + k"
    by (simp only: powi2_less_iff)
  then show ?thesis
    using assms(3) by (simp add: quantum_def)
qed

lemma representable_bound: "representable q \<Longrightarrow> \<bar>q\<bar> < 2 powi 128"
proof -
  assume "representable q"
  then obtain m k where q: "q = of_int m * 2 powi k" and m: "\<bar>m\<bar> < 2 ^ 24" and k: "k \<le> 104"
    by (auto simp: representable_def)
  have "\<bar>q\<bar> = of_int \<bar>m\<bar> * 2 powi k"
    by (simp add: q abs_mult)
  also have "\<dots> < of_int (2 ^ 24) * 2 powi k"
    using m by (intro mult_strict_right_mono) (simp_all only: of_int_less_iff zero_less_power_int zero_less_numeral)
  also have "\<dots> \<le> of_int (2 ^ 24) * 2 powi 104"
    using k by (intro mult_left_mono) (simp_all only: powi2_le_iff, simp)
  also have "\<dots> = 2 powi 128"
    by simp
  finally show ?thesis .
qed

lemma f32_round_representable:
  assumes "representable q"
  shows "f32_round q = Fin q"
proof (cases "q = 0")
  case False
  obtain m k where q: "q = of_int m * 2 powi k" and m: "\<bar>m\<bar> < 2 ^ 24" and k: "-149 \<le> k"
    using assms by (auto simp: representable_def)
  define k0 where "k0 = quantum q"
  have le: "k0 \<le> k"
    using quantum_le [OF q m k False] by (simp add: k0_def)
  have "2 powi k = (2 :: rat) powi (k - k0) * 2 powi k0"
    by (simp add: powi2_add [symmetric])
  then have "q / 2 powi k0 = of_int (m * 2 ^ nat (k - k0))"
    using le by (simp add: q powi2_nonneg)
  then have "half_even (q / 2 powi k0) = m * 2 ^ nat (k - k0)"
    by (simp only: half_even_of_int)
  moreover have "of_int (m * 2 ^ nat (k - k0)) * 2 powi k0 = q"
    using \<open>q / 2 powi k0 = of_int (m * 2 ^ nat (k - k0))\<close> by (simp add: field_simps)
  ultimately show ?thesis
    using False representable_bound [OF assms] by (simp add: f32_round_def Let_def k0_def [symmetric])
qed (simp add: f32_round_def)

lemma representable_int: "\<bar>i\<bar> < 2 ^ 24 \<Longrightarrow> representable (of_int i)"
  unfolding representable_def by (intro exI [of _ i] exI [of _ 0]) simp

text \<open>Taking the integral part off leaves a representable fraction, so the subtraction is exact.\<close>

lemma rat_trunc_abs: "\<bar>of_int (rat_trunc x)\<bar> \<le> \<bar>x\<bar>" "\<bar>x - of_int (rat_trunc x)\<bar> < 1"
  "\<bar>x - of_int (rat_trunc x)\<bar> \<le> \<bar>x\<bar>"
proof -
  have "(0 :: rat) \<le> of_int \<lfloor>x\<rfloor> \<and> of_int \<lfloor>x\<rfloor> \<le> x \<and> x < of_int \<lfloor>x\<rfloor> + 1" if "0 \<le> x"
    using that floor_correct [of x] by simp
  moreover have "of_int \<lceil>x\<rceil> \<le> (0 :: rat) \<and> x \<le> of_int \<lceil>x\<rceil> \<and> of_int \<lceil>x\<rceil> < x + 1" if "\<not> 0 \<le> x"
    using that ceiling_correct [of x] by (simp add: ceiling_le_zero)
  ultimately show "\<bar>of_int (rat_trunc x)\<bar> \<le> \<bar>x\<bar>" "\<bar>x - of_int (rat_trunc x)\<bar> < 1"
    "\<bar>x - of_int (rat_trunc x)\<bar> \<le> \<bar>x\<bar>"
    by (cases "0 \<le> x"; simp add: rat_trunc_def; linarith)+
qed

lemma representable_fraction:
  assumes "representable x"
  shows "representable (x - of_int (rat_trunc x))"
proof -
  obtain m k where x: "x = of_int m * 2 powi k" and m: "\<bar>m\<bar> < 2 ^ 24" and k: "-149 \<le> k" "k \<le> 104"
    using assms by (auto simp: representable_def)
  show ?thesis
  proof (cases "0 \<le> k")
    case True
    then have "x = of_int (m * 2 ^ nat k)"
      by (simp add: x powi2_nonneg)
    then have "rat_trunc x = m * 2 ^ nat k"
      by (simp only: rat_trunc_def floor_of_int ceiling_of_int if_cancel)
    then have "x - of_int (rat_trunc x) = of_int 0"
      using \<open>x = of_int (m * 2 ^ nat k)\<close> by simp
    then show ?thesis
      using representable_int [of 0] by simp
  next
    case False
    define t where "t = rat_trunc x * 2 ^ nat (- k)"
    have "(2 :: rat) powi (- k) * 2 powi k = 1"
      by (simp add: powi2_add [symmetric])
    then have one: "of_int (2 ^ nat (- k)) * (2 :: rat) powi k = 1"
      using False by (simp add: powi2_nonneg)
    have t: "x - of_int (rat_trunc x) = of_int (m - t) * 2 powi k"
      using one by (simp add: x t_def algebra_simps)
    have "of_int \<bar>m - t\<bar> * (2 :: rat) powi k \<le> of_int \<bar>m\<bar> * 2 powi k"
      using rat_trunc_abs(3) [of x] unfolding t by (simp add: x abs_mult)
    then have "\<bar>m - t\<bar> \<le> \<bar>m\<bar>"
      by (simp only: mult_le_cancel_right_pos zero_less_power_int zero_less_numeral of_int_le_iff)
    then show ?thesis
      unfolding representable_def t using m k by (intro exI [of _ "m - t"] exI [of _ k]) simp
  qed
qed

lemma f32_sub_trunc:
  assumes "representable x"
  shows "f32_sub (Fin x) (Fin (of_int (rat_trunc x))) = Fin (x - of_int (rat_trunc x))"
  using f32_round_representable [OF representable_fraction [OF assms]] by (simp add: f32_sub_def)

section \<open>Rounded values are representable\<close>

lemma half_even_le: "x \<le> of_int n \<Longrightarrow> half_even x \<le> n"
proof (rule ccontr)
  assume x: "x \<le> of_int n" and "\<not> half_even x \<le> n"
  then have h: "of_int (n + 1) \<le> (of_int (half_even x) :: rat)"
    by (simp only: of_int_le_iff)
  moreover have "\<lfloor>x\<rfloor> \<le> n"
    using x floor_mono [of x "of_int n"] by simp
  ultimately have "half_even x = \<lfloor>x\<rfloor> + 1" "\<lfloor>x\<rfloor> = n"
    using \<open>\<not> half_even x \<le> n\<close> by (auto simp: half_even_def Let_def split: if_splits)
  then show False
    using x floor_correct [of x] by (auto simp: half_even_def Let_def split: if_splits)
qed

lemma half_even_ge: "of_int n \<le> x \<Longrightarrow> n \<le> half_even x"
proof -
  assume "of_int n \<le> x"
  then have "n \<le> \<lfloor>x\<rfloor>"
    by (simp add: le_floor_iff)
  then show ?thesis
    by (auto simp: half_even_def Let_def)
qed

lemma half_even_abs_le: "\<bar>x\<bar> \<le> of_int n \<Longrightarrow> \<bar>half_even x\<bar> \<le> n"
  using half_even_le [of x n] half_even_ge [of "- n" x] by (simp add: abs_le_iff)

lemma half_even_abs_ge: "0 \<le> n \<Longrightarrow> of_int n \<le> \<bar>x\<bar> \<Longrightarrow> n \<le> \<bar>half_even x\<bar>"
  using half_even_ge [of n x] half_even_le [of x "- n"] by (cases "0 \<le> x") simp_all

lemma scaled_bounds:
  assumes "q \<noteq> 0"
  shows "\<bar>q / 2 powi quantum q\<bar> \<le> of_int (2 ^ 24)"
    and "-149 < quantum q \<Longrightarrow> of_int (2 ^ 23) \<le> \<bar>q / 2 powi quantum q\<bar>"
proof -
  let ?k = "quantum q"
  have "\<bar>q\<bar> < 2 powi (ilog2 \<bar>q\<bar> + 1)" "2 powi ilog2 \<bar>q\<bar> \<le> \<bar>q\<bar>"
    using ilog2_bounds [of "\<bar>q\<bar>"] assms by simp_all
  moreover have "(2 :: rat) powi (ilog2 \<bar>q\<bar> + 1) \<le> 2 powi (24 + ?k)"
    by (simp only: powi2_le_iff) (simp add: quantum_def)
  ultimately have "\<bar>q\<bar> \<le> 2 powi (24 + ?k)"
    by linarith
  then show "\<bar>q / 2 powi ?k\<bar> \<le> of_int (2 ^ 24)"
    by (simp add: powi2_add field_simps)
  show "of_int (2 ^ 23) \<le> \<bar>q / 2 powi ?k\<bar>" if "-149 < ?k"
  proof -
    have "ilog2 \<bar>q\<bar> = 23 + ?k"
      using that by (simp add: quantum_def)
    then have "(2 :: rat) powi (23 + ?k) \<le> \<bar>q\<bar>"
      using \<open>2 powi ilog2 \<bar>q\<bar> \<le> \<bar>q\<bar>\<close> by simp
    then show ?thesis
      by (simp add: powi2_add field_simps)
  qed
qed

lemma f32_round_result:
  assumes "f32_round q = Fin v"
  shows "representable v"
proof (cases "q = 0")
  case True
  then show ?thesis
    using assms representable_int [of 0] by (simp add: f32_round_def)
next
  case False
  define k where "k = quantum q"
  define n where "n = half_even (q / 2 powi k)"
  have v: "v = of_int n * 2 powi k" and small: "\<bar>v\<bar> < 2 powi 128"
    using assms False by (auto simp: f32_round_def Let_def k_def [symmetric] n_def [symmetric] split: if_splits)
  have k: "-149 \<le> k" and n: "\<bar>n\<bar> \<le> 2 ^ 24"
    using half_even_abs_le [OF scaled_bounds(1) [OF False]] by (simp_all add: k_def n_def quantum_def)
  have k104: "k \<le> 104"
  proof (rule ccontr)
    assume "\<not> k \<le> 104"
    then have "2 ^ 23 \<le> \<bar>n\<bar>"
      using half_even_abs_ge [OF _ scaled_bounds(2) [OF False]] by (simp add: k_def n_def)
    then have "(of_int (2 ^ 23) :: rat) * 2 powi k \<le> of_int \<bar>n\<bar> * 2 powi k"
      by (intro mult_right_mono) (simp_all only: of_int_le_iff zero_le_power_int zero_le_numeral)
    also have "\<dots> = \<bar>v\<bar>"
      by (simp add: v abs_mult)
    finally have "(2 :: rat) powi (23 + k) < 2 powi 128"
      using small by (simp add: powi2_add)
    then have "23 + k < 128"
      by (simp only: powi2_less_iff)
    then show False
      using \<open>\<not> k \<le> 104\<close> by simp
  qed
  show ?thesis
  proof (cases "\<bar>n\<bar> < 2 ^ 24")
    case True
    then show ?thesis
      unfolding representable_def using v k k104 by blast
  next
    case False
    then have "n = 2 ^ 24 \<or> n = - (2 ^ 24)"
      using n by (simp add: abs_if split: if_splits)
    then have n2: "n = (n div 2) * 2" and "\<bar>n div 2\<bar> < 2 ^ 24" and "\<bar>n\<bar> = 2 ^ 24"
      by (elim disjE; simp)+
    have "\<bar>v\<bar> = 2 powi (24 + k)"
      using \<open>\<bar>n\<bar> = 2 ^ 24\<close> unfolding v abs_mult of_int_abs [symmetric] by (simp add: powi2_add)
    then have "24 + k < 128"
      using small by (simp only: powi2_less_iff)
    moreover have "v = of_int (n div 2) * 2 powi (k + 1)"
      by (subst v, subst n2) (simp add: powi2_add)
    ultimately show ?thesis
      unfolding representable_def using \<open>\<bar>n div 2\<bar> < 2 ^ 24\<close> k by (intro exI [of _ "n div 2"] exI [of _ "k + 1"]) simp
  qed
qed

section \<open>Rounding keeps representable bounds\<close>

lemma grid_or_small:
  assumes "representable b"
  obtains n where "b = of_int n * 2 powi k" | "-149 < k" "\<bar>b\<bar> < of_int (2 ^ 23) * 2 powi k"
proof -
  obtain m j where b: "b = of_int m * 2 powi j" and m: "\<bar>m\<bar> < 2 ^ 24" and j: "-149 \<le> j"
    using assms by (auto simp: representable_def)
  show ?thesis
  proof (cases "k \<le> j")
    case True
    have "b = of_int m * (2 powi (j - k) * 2 powi k)"
      by (simp add: b powi2_add [symmetric])
    then have "b = of_int (m * 2 ^ nat (j - k)) * 2 powi k"
      using True by (simp add: powi2_nonneg mult.assoc)
    then show ?thesis
      by (rule that(1))
  next
    case False
    have "\<bar>b\<bar> = of_int \<bar>m\<bar> * 2 powi j"
      by (simp add: b abs_mult)
    also have "\<dots> < of_int (2 ^ 24) * 2 powi j"
      using m by (intro mult_strict_right_mono) (simp_all only: of_int_less_iff zero_less_power_int zero_less_numeral)
    also have "\<dots> = 2 powi (24 + j)"
      by (simp add: powi2_add)
    also have "\<dots> \<le> 2 powi (23 + k)"
      using False by (simp only: powi2_le_iff)
    also have "\<dots> = of_int (2 ^ 23) * 2 powi k"
      by (simp add: powi2_add)
    finally show ?thesis
      using that(2) False j by simp
  qed
qed

lemma rounded_le:
  assumes "representable b" "q \<le> b" "q \<noteq> 0"
  shows "of_int (half_even (q / 2 powi quantum q)) * 2 powi quantum q \<le> b"
proof (cases rule: grid_or_small [OF assms(1), of "quantum q"])
  case (1 n)
  then have "q / 2 powi quantum q \<le> of_int n"
    using assms(2) by (simp add: field_simps)
  then have "(of_int (half_even (q / 2 powi quantum q)) :: rat) \<le> of_int n"
    by (simp only: of_int_le_iff half_even_le)
  then show ?thesis
    using 1 by simp
next
  case 2
  let ?u = "(2 :: rat) powi quantum q"
  have "of_int (2 ^ 23) * ?u \<le> \<bar>q\<bar>"
    using scaled_bounds(2) [OF assms(3) 2(1)] by (simp add: field_simps)
  then have "q \<le> - of_int (2 ^ 23) * ?u"
    using 2(2) assms(2) by linarith
  then have "q / ?u \<le> of_int (- (2 ^ 23))"
    by (simp add: field_simps)
  then have "(of_int (half_even (q / ?u)) :: rat) \<le> of_int (- (2 ^ 23))"
    by (simp only: of_int_le_iff half_even_le)
  then have "of_int (half_even (q / ?u)) * ?u \<le> of_int (- (2 ^ 23)) * ?u"
    by (intro mult_right_mono) simp_all
  then show ?thesis
    using 2(2) by simp
qed

lemma rounded_ge:
  assumes "representable b" "b \<le> q" "q \<noteq> 0"
  shows "b \<le> of_int (half_even (q / 2 powi quantum q)) * 2 powi quantum q"
proof (cases rule: grid_or_small [OF assms(1), of "quantum q"])
  case (1 n)
  then have "of_int n \<le> q / 2 powi quantum q"
    using assms(2) by (simp add: field_simps)
  then have "of_int n \<le> (of_int (half_even (q / 2 powi quantum q)) :: rat)"
    by (simp only: of_int_le_iff half_even_ge)
  then show ?thesis
    using 1 by simp
next
  case 2
  let ?u = "(2 :: rat) powi quantum q"
  have "of_int (2 ^ 23) * ?u \<le> \<bar>q\<bar>"
    using scaled_bounds(2) [OF assms(3) 2(1)] by (simp add: field_simps)
  then have "of_int (2 ^ 23) * ?u \<le> q"
    using 2(2) assms(2) by linarith
  then have "of_int (2 ^ 23) \<le> q / ?u"
    by (simp add: field_simps)
  then have "of_int (2 ^ 23) \<le> (of_int (half_even (q / ?u)) :: rat)"
    by (simp only: of_int_le_iff half_even_ge)
  then have "of_int (2 ^ 23) * ?u \<le> of_int (half_even (q / ?u)) * ?u"
    by (intro mult_right_mono) simp_all
  then show ?thesis
    using 2(2) by linarith
qed

lemma f32_round_between:
  assumes "representable a" "representable b" "a \<le> q" "q \<le> b"
  shows "\<exists>v. f32_round q = Fin v \<and> a \<le> v \<and> v \<le> b"
proof (cases "q = 0")
  case False
  let ?v = "of_int (half_even (q / 2 powi quantum q)) * 2 powi quantum q :: rat"
  have v: "a \<le> ?v" "?v \<le> b"
    using rounded_ge [OF assms(1,3) False] rounded_le [OF assms(2,4) False] .
  then have "\<bar>?v\<bar> < 2 powi 128"
    using representable_bound [OF assms(1)] representable_bound [OF assms(2)] by linarith
  then show ?thesis
    using v False by (auto simp: f32_round_def Let_def)
qed (use assms in \<open>simp add: f32_round_def\<close>)

end
