(* ===== verification/Codec.thy ===== *)
theory Codec
  imports Prelude "HOL-Library.Monad_Syntax"
begin

text \<open>
  Byte streams and wire formats. A \<open>reader\<close> is the model of a \<open>Read\<close> stream: the bytes the peer
  delivers before the stream ends, and the error a read past them reports (end of file on a closed
  socket, a timeout or \<open>WouldBlock\<close> on a live one). The locale \<open>codec\<close> is the contract between a
  serializer and the decoder of the peer; \<open>stream_codec\<close> lifts it to whole message streams.
\<close>

section \<open>I/O errors and readers\<close>

datatype io_kind = UnexpectedEof | InvalidData | TimedOut | WouldBlock | BrokenPipe | OtherIo

text \<open>An \<open>io::Error\<close>: its kind, the format string of its message and the numbers put into it.\<close>

datatype io_error = IoError (kind_of: io_kind) (message_of: string) (args_of: "nat list")

record reader =
  avail :: "byte list"
  at_end :: io_error

type_synonym 'a read = "reader \<Rightarrow> (io_error + 'a) \<times> reader"

text \<open>\<open>Read::read_exact\<close>: all bytes or an error; a failed read has consumed what was there.\<close>

definition read_exact :: "nat \<Rightarrow> byte list read" where
  "read_exact n r =
     (if n \<le> length (avail r)
      then (Inr (take n (avail r)), r\<lparr>avail := drop n (avail r)\<rparr>)
      else (Inl (at_end r), r\<lparr>avail := []\<rparr>))"

definition read_then :: "'a read \<Rightarrow> ('a \<Rightarrow> 'b read) \<Rightarrow> 'b read" where
  \<comment> \<open>sequencing with the \<open>?\<close> operator\<close>
  "read_then p f r = (case p r of (Inl e, r') \<Rightarrow> (Inl e, r') | (Inr x, r') \<Rightarrow> f x r')"

definition read_ret :: "'a \<Rightarrow> 'a read" where
  "read_ret x r = (Inr x, r)"

definition read_fail :: "io_error \<Rightarrow> 'a read" where
  "read_fail e r = (Inl e, r)"

definition read_word :: "'a::len word read" where
  \<comment> \<open>\<open>read_u8\<close>, \<open>read_u16_be\<close>, \<open>read_u32_be\<close>, \<open>read_u64_be\<close>, \<open>read_i16_be\<close>: one fixed-size big-endian field\<close>
  "read_word = read_then (read_exact (LENGTH('a) div 8)) (\<lambda>bs. read_ret (from_be_bytes bs))"

fun read_many :: "nat \<Rightarrow> 'a read \<Rightarrow> 'a list read" where
  \<comment> \<open>\<open>for _ in 0..n { v.push(item?) }\<close>\<close>
  "read_many 0 p = read_ret []"
| "read_many (Suc n) p = read_then p (\<lambda>x. read_then (read_many n p) (\<lambda>xs. read_ret (x # xs)))"

lemmas read_defs = read_then_def read_ret_def read_fail_def

lemma read_exact_append [decode_simps]:
  "length bs = n \<Longrightarrow> avail r = bs @ rest \<Longrightarrow> read_exact n r = (Inr bs, r\<lparr>avail := rest\<rparr>)"
  by (simp add: read_exact_def)

lemma read_word_append:
  fixes v :: "'a::len word"
  assumes "8 * (LENGTH('a) div 8) = LENGTH('a)" and "avail r = to_be_bytes v @ rest"
  shows "read_word r = (Inr v, r\<lparr>avail := rest\<rparr>)"
  using assms(2) by (simp add: read_word_def read_defs read_exact_def
      from_be_bytes_to_be_bytes [OF assms(1)])

lemma read_word_widths [decode_simps]:
  "avail r = to_be_bytes (a :: u8) @ rest \<Longrightarrow> read_word r = (Inr a, r\<lparr>avail := rest\<rparr>)"
  "avail r = to_be_bytes (b :: u16) @ rest \<Longrightarrow> read_word r = (Inr b, r\<lparr>avail := rest\<rparr>)"
  "avail r = to_be_bytes (c :: u32) @ rest \<Longrightarrow> read_word r = (Inr c, r\<lparr>avail := rest\<rparr>)"
  "avail r = to_be_bytes (d :: u64) @ rest \<Longrightarrow> read_word r = (Inr d, r\<lparr>avail := rest\<rparr>)"
  by (rule read_word_append; simp)+

text \<open>Reading never reorders or re-delivers: what is left is a suffix of what was there.\<close>

definition well_behaved :: "'a read \<Rightarrow> bool" where
  "well_behaved p = (\<forall>r. \<exists>used. avail r = used @ avail (snd (p r)) \<and> at_end (snd (p r)) = at_end r)"

lemma well_behavedI:
  "(\<And>r. \<exists>used. avail r = used @ avail (snd (p r)) \<and> at_end (snd (p r)) = at_end r) \<Longrightarrow> well_behaved p"
  by (simp add: well_behaved_def)

lemma well_behaved_exact [intro, simp]: "well_behaved (read_exact n)"
proof (rule well_behavedI)
  fix r :: reader
  have "avail r = take n (avail r) @ drop n (avail r)"
    by simp
  then show "\<exists>used. avail r = used @ avail (snd (read_exact n r)) \<and>
      at_end (snd (read_exact n r)) = at_end r"
    by (auto simp: read_exact_def intro: exI [of _ "take n (avail r)"])
qed

lemma well_behaved_ret [intro, simp]: "well_behaved (read_ret x)"
  by (simp add: well_behaved_def read_ret_def)

lemma well_behaved_fail [intro, simp]: "well_behaved (read_fail e)"
  by (simp add: well_behaved_def read_fail_def)

lemma well_behaved_then [intro]:
  assumes p: "well_behaved p" and f: "\<And>x. well_behaved (f x)"
  shows "well_behaved (read_then p f)"
proof (rule well_behavedI)
  fix r :: reader
  obtain res r' where pr: "p r = (res, r')"
    by (cases "p r")
  obtain u where u: "avail r = u @ avail r'" "at_end r' = at_end r"
    using p pr by (metis snd_conv well_behaved_def)
  show "\<exists>used. avail r = used @ avail (snd (read_then p f r)) \<and>
      at_end (snd (read_then p f r)) = at_end r"
  proof (cases res)
    case (Inr x)
    obtain w where "avail r' = w @ avail (snd (f x r'))" "at_end (snd (f x r')) = at_end r'"
      using f [of x] by (auto simp: well_behaved_def)
    then show ?thesis
      using u pr Inr by (auto simp: read_then_def intro: exI [of _ "u @ w"])
  qed (use u pr in \<open>auto simp: read_then_def\<close>)
qed

lemma well_behaved_word [intro, simp]: "well_behaved read_word"
  by (auto simp: read_word_def)

lemma well_behaved_many [intro]: "well_behaved p \<Longrightarrow> well_behaved (read_many n p)"
  by (induction n) auto

section \<open>Decoders over byte lists\<close>

type_synonym 'a decoder = "byte list \<Rightarrow> ('a \<times> byte list) option"

definition dec_bytes :: "nat \<Rightarrow> byte list decoder" where
  "dec_bytes n bs = (if n \<le> length bs then Some (take n bs, drop n bs) else None)"

definition dec_word :: "'a::len word decoder" where
  "dec_word bs = (let n = LENGTH('a) div 8 in
     if n \<le> length bs then Some (from_be_bytes (take n bs), drop n bs) else None)"

lemma dec_bytes_append [simp, decode_simps]:
  "length bs = n \<Longrightarrow> dec_bytes n (bs @ rest) = Some (bs, rest)"
  by (simp add: dec_bytes_def)

lemma dec_word_append:
  assumes "8 * (LENGTH('a) div 8) = LENGTH('a)"
  shows "dec_word (to_be_bytes (v :: 'a::len word) @ rest) = Some (v, rest)"
  by (simp add: dec_word_def Let_def from_be_bytes_to_be_bytes [OF assms])

lemma dec_word_widths [simp, decode_simps]:
  "dec_word (to_be_bytes (a :: u8) @ rest) = Some (a, rest)"
  "dec_word (to_be_bytes (b :: u16) @ rest) = Some (b, rest)"
  "dec_word (to_be_bytes (c :: u32) @ rest) = Some (c, rest)"
  "dec_word (to_be_bytes (d :: u64) @ rest) = Some (d, rest)"
  by (rule dec_word_append; simp)+

lemma dec_word_byte [simp, decode_simps]: "dec_word (b # rest) = Some (b :: u8, rest)"
  using dec_word_widths(1) [of b rest] by (simp add: to_be_bytes_u8)

text \<open>Decoding a whole stream, one message after the other, until the bytes are used up.\<close>

fun decode_stream :: "'a decoder \<Rightarrow> nat \<Rightarrow> byte list \<Rightarrow> 'a list option" where
  "decode_stream dec 0 bs = (if bs = [] then Some [] else None)"
| "decode_stream dec (Suc n) bs =
     (if bs = [] then Some []
      else do { (x, rest) \<leftarrow> dec bs; xs \<leftarrow> decode_stream dec n rest; Some (x # xs) })"

definition decode_all :: "'a decoder \<Rightarrow> byte list \<Rightarrow> 'a list option" where
  "decode_all dec bs = decode_stream dec (length bs) bs"

section \<open>The codec contract\<close>

locale codec =
  fixes enc :: "'a \<Rightarrow> byte list"
    and dec :: "byte list \<Rightarrow> ('a \<times> byte list) option"
    and ok :: "'a \<Rightarrow> bool"
  assumes dec_enc: "ok x \<Longrightarrow> dec (enc x @ rest) = Some (x, rest)"
begin

lemma enc_prefix_free:
  assumes "ok x" "ok y" "enc x @ r = enc y @ s"
  shows "x = y \<and> r = s"
proof -
  have "Some (x, r) = Some (y, s)"
    using dec_enc [OF assms(1), of r] unfolding assms(3) dec_enc [OF assms(2), of s] by (rule sym)
  then show ?thesis by simp
qed

lemma enc_inject: "ok x \<Longrightarrow> ok y \<Longrightarrow> enc x = enc y \<Longrightarrow> x = y"
  using enc_prefix_free [of x y "[]" "[]"] by metis

end

locale stream_codec = codec +
  assumes enc_nonempty: "ok x \<Longrightarrow> enc x \<noteq> []"
begin

lemma decode_stream_concat:
  "list_all ok xs \<Longrightarrow> length xs \<le> n \<Longrightarrow> decode_stream dec n (concat (map enc xs)) = Some xs"
proof (induction xs arbitrary: n)
  case Nil
  then show ?case by (cases n) auto
next
  case (Cons x xs)
  then obtain m where "n = Suc m" "length xs \<le> m"
    by (cases n) auto
  with Cons show ?case
    by (simp add: dec_enc enc_nonempty)
qed

lemma length_concat_enc: "list_all ok xs \<Longrightarrow> length xs \<le> length (concat (map enc xs))"
proof (induction xs)
  case (Cons x xs)
  then have "1 \<le> length (enc x)"
    using enc_nonempty [of x] by (cases "enc x") auto
  moreover have "length xs \<le> length (concat (map enc xs))"
    using Cons by simp
  ultimately show ?case
    by (simp only: list.map concat.simps length_append list.size)
qed simp

lemma decode_all_concat: "list_all ok xs \<Longrightarrow> decode_all dec (concat (map enc xs)) = Some xs"
  unfolding decode_all_def by (intro decode_stream_concat length_concat_enc)

lemma stream_inject:
  assumes "list_all ok xs" "list_all ok ys" "concat (map enc xs) = concat (map enc ys)"
  shows "xs = ys"
proof -
  have "Some xs = Some ys"
    using decode_all_concat [OF assms(1)] unfolding assms(3) decode_all_concat [OF assms(2)]
    by (rule sym)
  then show ?thesis by simp
qed

end

text \<open>The fixed-width integers are the leaves of every format.\<close>

interpretation u16_codec: stream_codec "to_be_bytes :: u16 \<Rightarrow> byte list" dec_word "\<lambda>_. True"
  by unfold_locales (simp, simp add: to_be_bytes_u16)

interpretation u32_codec: stream_codec "to_be_bytes :: u32 \<Rightarrow> byte list" dec_word "\<lambda>_. True"
  by unfold_locales (simp, simp add: to_be_bytes_u32 be_nat_numerals)

end
