(* ===== verification/Control_Message.thy ===== *)
theory Control_Message
  imports Types F32 Codec
begin

text \<open>
  \<^verbatim>\<open>src/src/control/message.rs\<close>: the control messages and their serializer, as state passing over the
  caller's buffer (a failed or panicking serializer has written part of the message). The reference
  format it refines is in the theory \<open>Wire_Format\<close>.
\<close>

section \<open>Messages\<close>

definition CONTROL_MSG_MAX_SIZE :: nat where [simp]: "CONTROL_MSG_MAX_SIZE = 262144"
definition INJECT_TEXT_MAX_LENGTH :: nat where [simp]: "INJECT_TEXT_MAX_LENGTH = 300"
definition HID_MSG_BUDGET :: nat where [simp]: "HID_MSG_BUDGET = 5 + HID_MAX_SIZE"

datatype ControlMsgType =
    T_InjectKeycode | T_InjectText | T_InjectTouchEvent | T_InjectScrollEvent | T_BackOrScreenOn
  | T_ExpandNotification | T_ExpandSettings | T_CollapsePanels | T_GetClipboard | T_SetClipboard
  | T_SetDisplayPower | T_RotateDevice | T_UhidCreate | T_UhidInput | T_UhidDestroy
  | T_OpenHardKbSettings | T_StartApp | T_ResetVideo | T_CameraSetTorch | T_CameraZoomIn
  | T_CameraZoomOut | T_ResizeDisplay | T_AiConfig | T_AiQuery | T_AiPause

primrec type_byte :: "ControlMsgType \<Rightarrow> u8" where
  "type_byte T_InjectKeycode = 0"
| "type_byte T_InjectText = 1"
| "type_byte T_InjectTouchEvent = 2"
| "type_byte T_InjectScrollEvent = 3"
| "type_byte T_BackOrScreenOn = 4"
| "type_byte T_ExpandNotification = 5"
| "type_byte T_ExpandSettings = 6"
| "type_byte T_CollapsePanels = 7"
| "type_byte T_GetClipboard = 8"
| "type_byte T_SetClipboard = 9"
| "type_byte T_SetDisplayPower = 10"
| "type_byte T_RotateDevice = 11"
| "type_byte T_UhidCreate = 12"
| "type_byte T_UhidInput = 13"
| "type_byte T_UhidDestroy = 14"
| "type_byte T_OpenHardKbSettings = 15"
| "type_byte T_StartApp = 16"
| "type_byte T_ResetVideo = 17"
| "type_byte T_CameraSetTorch = 18"
| "type_byte T_CameraZoomIn = 19"
| "type_byte T_CameraZoomOut = 20"
| "type_byte T_ResizeDisplay = 21"
| "type_byte T_AiConfig = 22"
| "type_byte T_AiQuery = 23"
| "type_byte T_AiPause = 24"

record ai_config =
  ac_flags :: u8
  ac_sample_interval_ms :: u16
  ac_feature_dim :: u16

record uhid_create =
  uc_id :: u16
  uc_vendor_id :: u16
  uc_product_id :: u16
  uc_name :: "byte list option"
  uc_report_desc :: "byte list"

record uhid_input =
  ui_id :: u16
  ui_size :: u16
  ui_data :: "byte list" \<comment> \<open>\<open>[u8; HID_MAX_SIZE]\<close>\<close>

record inject_keycode =
  ik_action :: u8
  ik_keycode :: u32
  ik_repeat :: u32
  ik_metastate :: u32

record inject_touch_event =
  it_action :: u8
  it_pointer_id :: u64
  it_x :: i32
  it_y :: i32
  it_screen_w :: u16
  it_screen_h :: u16
  it_pressure :: f32
  it_action_button :: u32
  it_buttons :: u32

record inject_scroll_event =
  is_x :: i32
  is_y :: i32
  is_screen_w :: u16
  is_screen_h :: u16
  is_hscroll :: f32
  is_vscroll :: f32
  is_buttons :: u32

record set_clipboard =
  sc_sequence :: u64
  sc_paste :: bool
  sc_text :: "byte list"

datatype ControlMessage =
    UhidCreate uhid_create
  | UhidInput uhid_input
  | UhidDestroy u16
  | InjectKeycode inject_keycode
  | InjectText "byte list"
  | InjectTouchEvent inject_touch_event
  | InjectScrollEvent inject_scroll_event
  | BackOrScreenOn u8
  | GetClipboard u8
  | SetClipboard set_clipboard
  | SetDisplayPower bool
  | StartApp "byte list"
  | CameraSetTorch bool
  | ResizeDisplay u16 u16
  | ExpandNotificationPanel
  | ExpandSettingsPanel
  | CollapsePanels
  | RotateDevice
  | OpenHardKeyboardSettings
  | ResetVideo
  | CameraZoomIn
  | CameraZoomOut
  | AiConfig ai_config
  | AiQuery u64
  | AiPause

primrec msg_type :: "ControlMessage \<Rightarrow> ControlMsgType" where
  "msg_type (UhidCreate c) = T_UhidCreate"
| "msg_type (UhidInput i) = T_UhidInput"
| "msg_type (UhidDestroy d) = T_UhidDestroy"
| "msg_type (InjectKeycode k) = T_InjectKeycode"
| "msg_type (InjectText t) = T_InjectText"
| "msg_type (InjectTouchEvent t) = T_InjectTouchEvent"
| "msg_type (InjectScrollEvent s) = T_InjectScrollEvent"
| "msg_type (BackOrScreenOn a) = T_BackOrScreenOn"
| "msg_type (GetClipboard k) = T_GetClipboard"
| "msg_type (SetClipboard s) = T_SetClipboard"
| "msg_type (SetDisplayPower b) = T_SetDisplayPower"
| "msg_type (StartApp n) = T_StartApp"
| "msg_type (CameraSetTorch b) = T_CameraSetTorch"
| "msg_type (ResizeDisplay w h) = T_ResizeDisplay"
| "msg_type ExpandNotificationPanel = T_ExpandNotification"
| "msg_type ExpandSettingsPanel = T_ExpandSettings"
| "msg_type CollapsePanels = T_CollapsePanels"
| "msg_type RotateDevice = T_RotateDevice"
| "msg_type OpenHardKeyboardSettings = T_OpenHardKbSettings"
| "msg_type ResetVideo = T_ResetVideo"
| "msg_type CameraZoomIn = T_CameraZoomIn"
| "msg_type CameraZoomOut = T_CameraZoomOut"
| "msg_type (AiConfig c) = T_AiConfig"
| "msg_type (AiQuery q) = T_AiQuery"
| "msg_type AiPause = T_AiPause"

definition is_critical :: "ControlMessage \<Rightarrow> bool" where
  "is_critical m = (case m of UhidCreate _ \<Rightarrow> True | UhidDestroy _ \<Rightarrow> True | _ \<Rightarrow> False)"

section \<open>Writing into a buffer\<close>

type_synonym buf_op = "byte list \<Rightarrow> byte list \<times> unit res"

definition emit :: "byte list \<Rightarrow> buf_op" where
  "emit bs buf = (buf @ bs, Inr ())"

definition buf_fail :: "fault \<Rightarrow> buf_op" where
  "buf_fail e buf = (buf, Inl e)"

definition buf_then :: "buf_op \<Rightarrow> buf_op \<Rightarrow> buf_op" where
  "buf_then p q buf = (case p buf of (buf', Inl e) \<Rightarrow> (buf', Inl e) | (buf', Inr _) \<Rightarrow> q buf')"

fun buf_seq :: "buf_op list \<Rightarrow> buf_op" where
  "buf_seq [] = emit []"
| "buf_seq (p # ps) = buf_then p (buf_seq ps)"

text \<open>Slicing a \<open>str\<close>: \<open>&s[..n]\<close> panics unless \<open>n\<close> is a character boundary.\<close>

definition is_char_boundary :: "byte list \<Rightarrow> nat \<Rightarrow> bool" where
  "is_char_boundary s n = (n = 0 \<or> n = length s \<or> (n < length s \<and> (s ! n < 0x80 \<or> 0xC0 \<le> s ! n)))"

definition with_prefix :: "byte list \<Rightarrow> nat \<Rightarrow> (byte list \<Rightarrow> buf_op) \<Rightarrow> buf_op" where
  \<comment> \<open>\<open>if s.len() > max { &s[..max] } else { &s[..] }\<close>, handed to the rest of the serializer\<close>
  "with_prefix s mx k =
     (if mx < length s
      then (if is_char_boundary s mx then k (take mx s) else buf_fail Panicked)
      else k s)"

definition write_tiny_string :: "byte list \<Rightarrow> nat \<Rightarrow> buf_op" where
  "write_tiny_string s max_len =
     (if \<not> max_len \<le> 0xFF then buf_fail Panicked
      else if max_len < length s then buf_fail (Err (NameTooLong (length s)))
      else buf_seq [emit [word_of_nat (length s)], emit s])"

definition write_string :: "byte list \<Rightarrow> buf_op" where
  "write_string s = buf_seq [emit (to_be_bytes (word_of_nat (length s) :: u32)), emit s]"

definition write_position :: "i32 \<Rightarrow> i32 \<Rightarrow> u16 \<Rightarrow> u16 \<Rightarrow> buf_op" where
  "write_position x y w h =
     buf_seq [emit (to_be_bytes x), emit (to_be_bytes y), emit (to_be_bytes w), emit (to_be_bytes h)]"

definition serialize_uhid_create :: "uhid_create \<Rightarrow> buf_op" where
  "serialize_uhid_create c =
     buf_seq [emit (to_be_bytes (uc_id c)), emit (to_be_bytes (uc_vendor_id c)),
       emit (to_be_bytes (uc_product_id c)),
       (case uc_name c of Some n \<Rightarrow> write_tiny_string n 127 | None \<Rightarrow> emit [0]),
       (if 65535 < length (uc_report_desc c)
        then buf_fail (Err (ReportDescTooLong (length (uc_report_desc c))))
        else buf_seq [emit (to_be_bytes (word_of_nat (length (uc_report_desc c)) :: u16)),
               emit (uc_report_desc c)])]"

definition serialize_uhid_input :: "uhid_input \<Rightarrow> buf_op" where
  "serialize_uhid_input i =
     buf_seq [emit (to_be_bytes (ui_id i)),
       (if HID_MAX_SIZE < unat (ui_size i)
        then buf_fail (Err (ControlMessageTooLarge (unat (ui_size i) + 5) HID_MSG_BUDGET))
        else buf_seq [emit (to_be_bytes (ui_size i)), emit (take (unat (ui_size i)) (ui_data i))])]"

definition serialize_uhid_destroy :: "u16 \<Rightarrow> buf_op" where
  "serialize_uhid_destroy d = emit (to_be_bytes d)"

definition serialize_inject_keycode :: "inject_keycode \<Rightarrow> buf_op" where
  "serialize_inject_keycode k =
     buf_seq [emit [ik_action k], emit (to_be_bytes (ik_keycode k)), emit (to_be_bytes (ik_repeat k)),
       emit (to_be_bytes (ik_metastate k))]"

definition serialize_inject_text :: "byte list \<Rightarrow> buf_op" where
  "serialize_inject_text t = with_prefix t INJECT_TEXT_MAX_LENGTH write_string"

definition touch_pressure :: "f32 \<Rightarrow> u16" where
  "touch_pressure p = f32_as_u16 (f32_mul (f32_clamp p 0 1) (Fin 65536))"

definition serialize_inject_touch :: "inject_touch_event \<Rightarrow> buf_op" where
  "serialize_inject_touch t =
     buf_seq [emit [it_action t], emit (to_be_bytes (it_pointer_id t)),
       write_position (it_x t) (it_y t) (it_screen_w t) (it_screen_h t),
       emit (to_be_bytes (touch_pressure (it_pressure t))),
       emit (to_be_bytes (it_action_button t)), emit (to_be_bytes (it_buttons t))]"

definition scroll_norm :: "f32 \<Rightarrow> u16" where
  "scroll_norm s = f32_as_i16 (f32_mul (f32_clamp (f32_div_pos s 16) (-1) 1) (Fin 32768))"

definition serialize_inject_scroll :: "inject_scroll_event \<Rightarrow> buf_op" where
  "serialize_inject_scroll s =
     buf_seq [write_position (is_x s) (is_y s) (is_screen_w s) (is_screen_h s),
       emit (to_be_bytes (scroll_norm (is_hscroll s))), emit (to_be_bytes (scroll_norm (is_vscroll s))),
       emit (to_be_bytes (is_buttons s))]"

definition serialize_set_clipboard :: "set_clipboard \<Rightarrow> buf_op" where
  "serialize_set_clipboard s =
     buf_seq [emit (to_be_bytes (sc_sequence s)), emit [of_bool (sc_paste s)],
       with_prefix (sc_text s) (CONTROL_MSG_MAX_SIZE - 14) write_string]"

definition serialize_start_app :: "byte list \<Rightarrow> buf_op" where
  "serialize_start_app n = write_tiny_string n 255"

primrec serialize_body :: "ControlMessage \<Rightarrow> buf_op" where
  "serialize_body (UhidCreate c) = serialize_uhid_create c"
| "serialize_body (UhidInput i) = serialize_uhid_input i"
| "serialize_body (UhidDestroy d) = serialize_uhid_destroy d"
| "serialize_body (InjectKeycode k) = serialize_inject_keycode k"
| "serialize_body (InjectText t) = serialize_inject_text t"
| "serialize_body (InjectTouchEvent t) = serialize_inject_touch t"
| "serialize_body (InjectScrollEvent s) = serialize_inject_scroll s"
| "serialize_body (BackOrScreenOn a) = emit [a]"
| "serialize_body (GetClipboard k) = emit [k]"
| "serialize_body (SetClipboard s) = serialize_set_clipboard s"
| "serialize_body (SetDisplayPower b) = emit [of_bool b]"
| "serialize_body (StartApp n) = serialize_start_app n"
| "serialize_body (CameraSetTorch b) = emit [of_bool b]"
| "serialize_body (ResizeDisplay w h) = buf_seq [emit (to_be_bytes w), emit (to_be_bytes h)]"
| "serialize_body ExpandNotificationPanel = emit []"
| "serialize_body ExpandSettingsPanel = emit []"
| "serialize_body CollapsePanels = emit []"
| "serialize_body RotateDevice = emit []"
| "serialize_body OpenHardKeyboardSettings = emit []"
| "serialize_body ResetVideo = emit []"
| "serialize_body CameraZoomIn = emit []"
| "serialize_body CameraZoomOut = emit []"
| "serialize_body (AiConfig c) =
     buf_seq [emit [ac_flags c], emit (to_be_bytes (ac_sample_interval_ms c)),
       emit (to_be_bytes (ac_feature_dim c))]"
| "serialize_body (AiQuery q) = emit (to_be_bytes q)"
| "serialize_body AiPause = emit []"

text \<open>
  \<open>serialize_into\<close>: append one message to the buffer. Every \<open>Err\<close> rolls the buffer back to where the
  message began; a panic unwinds past the roll-back.
\<close>

definition serialize_into :: "ControlMessage \<Rightarrow> byte list \<Rightarrow> byte list \<times> nat res" where
  "serialize_into m buf =
     (let start = length buf in
      case buf_then (emit [type_byte (msg_type m)]) (serialize_body m) buf of
        (buf', Inl Panicked) \<Rightarrow> (buf', Inl Panicked)
      | (buf', Inl (Err e)) \<Rightarrow> (take start buf', Inl (Err e))
      | (buf', Inr _) \<Rightarrow>
          (let written = length buf' - start in
           if CONTROL_MSG_MAX_SIZE < written
           then (take start buf', Inl (Err (ControlMessageTooLarge written CONTROL_MSG_MAX_SIZE)))
           else (buf', Inr written)))"

definition serialize :: "ControlMessage \<Rightarrow> byte list res" where
  "serialize m = (case serialize_into m [] of (_, Inl e) \<Rightarrow> Inl e | (buf, Inr _) \<Rightarrow> Inr buf)"

end
