(* ===== verification/Wire_Format.thy ===== *)
theory Wire_Format
  imports Control_Message
begin

text \<open>
  The scrcpy control protocol as the server reads it (the layout in the header of
  \<^verbatim>\<open>src/src/control/message.rs\<close>): \<open>wire_msg\<close> is what one message means on the wire, \<open>wire_bytes\<close> its
  layout, \<open>dec_wire\<close> the reader of the server. The lemmas show that the format is a stream codec,
  that the serializer of \<open>Control_Message\<close> refines it on every branch, and which inputs it rejects.
\<close>

section \<open>The reference format\<close>

datatype wire_msg =
    W_UhidCreate u16 u16 u16 "byte list" "byte list"
  | W_UhidInput u16 "byte list"
  | W_UhidDestroy u16
  | W_InjectKeycode u8 u32 u32 u32
  | W_InjectText "byte list"
  | W_InjectTouch u8 u64 i32 i32 u16 u16 u16 u32 u32
  | W_InjectScroll i32 i32 u16 u16 u16 u16 u32
  | W_BackOrScreenOn u8
  | W_GetClipboard u8
  | W_SetClipboard u64 bool "byte list"
  | W_SetDisplayPower bool
  | W_StartApp "byte list"
  | W_CameraSetTorch bool
  | W_ResizeDisplay u16 u16
  | W_AiConfig u8 u16 u16
  | W_AiQuery u64
  | W_Plain u8

definition plain_tags :: "u8 list" where
  \<comment> \<open>the messages that are a bare type byte\<close>
  "plain_tags = [5, 6, 7, 11, 15, 17, 19, 20, 24]"

definition tiny_str :: "byte list \<Rightarrow> byte list" where
  "tiny_str s = word_of_nat (length s) # s"

definition short_str :: "byte list \<Rightarrow> byte list" where
  "short_str s = to_be_bytes (word_of_nat (length s) :: u16) @ s"

definition long_str :: "byte list \<Rightarrow> byte list" where
  "long_str s = to_be_bytes (word_of_nat (length s) :: u32) @ s"

primrec wire_bytes :: "wire_msg \<Rightarrow> byte list" where
  "wire_bytes (W_UhidCreate i v p n rd) =
     12 # to_be_bytes i @ to_be_bytes v @ to_be_bytes p @ tiny_str n @ short_str rd"
| "wire_bytes (W_UhidInput i d) = 13 # to_be_bytes i @ short_str d"
| "wire_bytes (W_UhidDestroy i) = 14 # to_be_bytes i"
| "wire_bytes (W_InjectKeycode a k r m) =
     0 # a # to_be_bytes k @ to_be_bytes r @ to_be_bytes m"
| "wire_bytes (W_InjectText t) = 1 # long_str t"
| "wire_bytes (W_InjectTouch a p x y w h pr ab b) =
     2 # a # to_be_bytes p @ to_be_bytes x @ to_be_bytes y @ to_be_bytes w @ to_be_bytes h @
     to_be_bytes pr @ to_be_bytes ab @ to_be_bytes b"
| "wire_bytes (W_InjectScroll x y w h hs vs b) =
     3 # to_be_bytes x @ to_be_bytes y @ to_be_bytes w @ to_be_bytes h @ to_be_bytes hs @
     to_be_bytes vs @ to_be_bytes b"
| "wire_bytes (W_BackOrScreenOn a) = [4, a]"
| "wire_bytes (W_GetClipboard k) = [8, k]"
| "wire_bytes (W_SetClipboard q p t) = 9 # to_be_bytes q @ of_bool p # long_str t"
| "wire_bytes (W_SetDisplayPower b) = [10, of_bool b]"
| "wire_bytes (W_StartApp n) = 16 # tiny_str n"
| "wire_bytes (W_CameraSetTorch b) = [18, of_bool b]"
| "wire_bytes (W_ResizeDisplay w h) = 21 # to_be_bytes w @ to_be_bytes h"
| "wire_bytes (W_AiConfig f i d) = 22 # f # to_be_bytes i @ to_be_bytes d"
| "wire_bytes (W_AiQuery q) = 23 # to_be_bytes q"
| "wire_bytes (W_Plain t) = [t]"

primrec wire_ok :: "wire_msg \<Rightarrow> bool" where
  "wire_ok (W_UhidCreate i v p n rd) = (length n \<le> 127 \<and> length rd \<le> 65535)"
| "wire_ok (W_UhidInput i d) = (length d \<le> 15)"
| "wire_ok (W_UhidDestroy i) = True"
| "wire_ok (W_InjectKeycode a k r m) = True"
| "wire_ok (W_InjectText t) = (length t \<le> 300)"
| "wire_ok (W_InjectTouch a p x y w h pr ab b) = True"
| "wire_ok (W_InjectScroll x y w h hs vs b) = True"
| "wire_ok (W_BackOrScreenOn a) = True"
| "wire_ok (W_GetClipboard k) = True"
| "wire_ok (W_SetClipboard q p t) = (length t \<le> 262130)"
| "wire_ok (W_SetDisplayPower b) = True"
| "wire_ok (W_StartApp n) = (length n \<le> 255)"
| "wire_ok (W_CameraSetTorch b) = True"
| "wire_ok (W_ResizeDisplay w h) = True"
| "wire_ok (W_AiConfig f i d) = True"
| "wire_ok (W_AiQuery q) = True"
| "wire_ok (W_Plain t) = (t \<in> set plain_tags)"

section \<open>The reader of the server\<close>

definition dec_tiny :: "byte list decoder" where
  "dec_tiny bs = do { (n, r) \<leftarrow> dec_word bs; dec_bytes (unat (n :: u8)) r }"

definition dec_short :: "byte list decoder" where
  "dec_short bs = do { (n, r) \<leftarrow> dec_word bs; dec_bytes (unat (n :: u16)) r }"

definition dec_long :: "byte list decoder" where
  "dec_long bs = do { (n, r) \<leftarrow> dec_word bs; dec_bytes (unat (n :: u32)) r }"

definition dec_bool :: "bool decoder" where
  "dec_bool bs = do { (b, r) \<leftarrow> dec_word bs; Some ((b :: u8) \<noteq> 0, r) }"

definition dec_create :: "wire_msg decoder" where
  "dec_create bs = do {
     (i, r) \<leftarrow> dec_word bs; (v, r) \<leftarrow> dec_word r; (p, r) \<leftarrow> dec_word r;
     (n, r) \<leftarrow> dec_tiny r; (rd, r) \<leftarrow> dec_short r; Some (W_UhidCreate i v p n rd, r) }"

definition dec_input :: "wire_msg decoder" where
  "dec_input bs = do { (i, r) \<leftarrow> dec_word bs; (d, r) \<leftarrow> dec_short r; Some (W_UhidInput i d, r) }"

definition dec_keycode :: "wire_msg decoder" where
  "dec_keycode bs = do {
     (a, r) \<leftarrow> dec_word bs; (k, r) \<leftarrow> dec_word r; (rp, r) \<leftarrow> dec_word r; (m, r) \<leftarrow> dec_word r;
     Some (W_InjectKeycode a k rp m, r) }"

definition dec_touch :: "wire_msg decoder" where
  "dec_touch bs = do {
     (a, r) \<leftarrow> dec_word bs; (p, r) \<leftarrow> dec_word r; (x, r) \<leftarrow> dec_word r; (y, r) \<leftarrow> dec_word r;
     (w, r) \<leftarrow> dec_word r; (h, r) \<leftarrow> dec_word r; (pr, r) \<leftarrow> dec_word r; (ab, r) \<leftarrow> dec_word r;
     (b, r) \<leftarrow> dec_word r; Some (W_InjectTouch a p x y w h pr ab b, r) }"

definition dec_scroll :: "wire_msg decoder" where
  "dec_scroll bs = do {
     (x, r) \<leftarrow> dec_word bs; (y, r) \<leftarrow> dec_word r; (w, r) \<leftarrow> dec_word r; (h, r) \<leftarrow> dec_word r;
     (hs, r) \<leftarrow> dec_word r; (vs, r) \<leftarrow> dec_word r; (b, r) \<leftarrow> dec_word r;
     Some (W_InjectScroll x y w h hs vs b, r) }"

definition dec_clipboard :: "wire_msg decoder" where
  "dec_clipboard bs = do {
     (q, r) \<leftarrow> dec_word bs; (p, r) \<leftarrow> dec_bool r; (t, r) \<leftarrow> dec_long r;
     Some (W_SetClipboard q p t, r) }"

definition dec_map :: "('a \<Rightarrow> 'b) \<Rightarrow> 'a decoder \<Rightarrow> 'b decoder" where
  "dec_map f d bs = do { (x, r) \<leftarrow> d bs; Some (f x, r) }"

definition dec_pair :: "('a \<Rightarrow> 'b \<Rightarrow> 'c) \<Rightarrow> 'a decoder \<Rightarrow> 'b decoder \<Rightarrow> 'c decoder" where
  "dec_pair f d e bs = do { (x, r) \<leftarrow> d bs; (y, r) \<leftarrow> e r; Some (f x y, r) }"

definition tag_decoders :: "(u8 \<times> wire_msg decoder) list" where
  "tag_decoders =
     [(0, dec_keycode), (1, dec_map W_InjectText dec_long), (2, dec_touch), (3, dec_scroll),
      (4, dec_map W_BackOrScreenOn dec_word), (8, dec_map W_GetClipboard dec_word),
      (9, dec_clipboard), (10, dec_map W_SetDisplayPower dec_bool), (12, dec_create),
      (13, dec_input), (14, dec_map W_UhidDestroy dec_word), (16, dec_map W_StartApp dec_tiny),
      (18, dec_map W_CameraSetTorch dec_bool), (21, dec_pair W_ResizeDisplay dec_word dec_word),
      (22, dec_pair (\<lambda>f g. g f) dec_word (dec_pair (\<lambda>i d f. W_AiConfig f i d) dec_word dec_word)),
      (23, dec_map W_AiQuery dec_word)]"

definition dec_wire :: "wire_msg decoder" where
  "dec_wire bs = do {
     (t, r) \<leftarrow> dec_word bs;
     case map_of tag_decoders t of
       Some d \<Rightarrow> d r
     | None \<Rightarrow> (if t \<in> set plain_tags then Some (W_Plain t, r) else None) }"

lemma unat_of_length:
  "n \<le> 255 \<Longrightarrow> unat (word_of_nat n :: u8) = n"
  "n \<le> 65535 \<Longrightarrow> unat (word_of_nat n :: u16) = n"
  "n \<le> 4294967295 \<Longrightarrow> unat (word_of_nat n :: u32) = n"
  by (simp_all add: unat_of_nat)

lemma dec_tiny_str [decode_simps]: "length s \<le> 255 \<Longrightarrow> dec_tiny (word_of_nat (length s) # s @ r) = Some (s, r)"
  by (simp add: dec_tiny_def unat_of_length)

lemma dec_short_str [decode_simps]: "length s \<le> 65535 \<Longrightarrow> dec_short (short_str s @ r) = Some (s, r)"
  by (simp add: dec_short_def short_str_def unat_of_length)

lemma dec_long_str [decode_simps]: "length s \<le> 4294967295 \<Longrightarrow> dec_long (long_str s @ r) = Some (s, r)"
  by (simp add: dec_long_def long_str_def unat_of_length)

lemma dec_bool_byte [decode_simps]: "dec_bool (of_bool b # r) = Some (b, r)"
  by (simp add: dec_bool_def)

lemmas dec_message_defs = dec_wire_def tag_decoders_def dec_create_def dec_input_def
  dec_keycode_def dec_touch_def dec_scroll_def dec_clipboard_def dec_map_def dec_pair_def
  tiny_str_def plain_tags_def

lemma dec_wire_bytes: "wire_ok w \<Longrightarrow> dec_wire (wire_bytes w @ rest) = Some (w, rest)"
  by (cases w) (auto simp: dec_message_defs decode_simps)

interpretation control_wire: stream_codec wire_bytes dec_wire wire_ok
proof unfold_locales
  show "dec_wire (wire_bytes w @ rest) = Some (w, rest)" if "wire_ok w" for w rest
    using that by (rule dec_wire_bytes)
  show "wire_bytes w \<noteq> []" if "wire_ok w" for w
    by (cases w) simp_all
qed

section \<open>What the serializer writes, and what it rejects\<close>

definition cut_text :: "byte list \<Rightarrow> nat \<Rightarrow> byte list" where
  "cut_text t n = take n t"

primrec wire_of :: "ControlMessage \<Rightarrow> wire_msg" where
  "wire_of (UhidCreate c) =
     W_UhidCreate (uc_id c) (uc_vendor_id c) (uc_product_id c)
       (case uc_name c of Some n \<Rightarrow> n | None \<Rightarrow> []) (uc_report_desc c)"
| "wire_of (UhidInput i) = W_UhidInput (ui_id i) (take (unat (ui_size i)) (ui_data i))"
| "wire_of (UhidDestroy d) = W_UhidDestroy d"
| "wire_of (InjectKeycode k) =
     W_InjectKeycode (ik_action k) (ik_keycode k) (ik_repeat k) (ik_metastate k)"
| "wire_of (InjectText t) = W_InjectText (cut_text t 300)"
| "wire_of (InjectTouchEvent t) =
     W_InjectTouch (it_action t) (it_pointer_id t) (it_x t) (it_y t) (it_screen_w t) (it_screen_h t)
       (touch_pressure (it_pressure t)) (it_action_button t) (it_buttons t)"
| "wire_of (InjectScrollEvent s) =
     W_InjectScroll (is_x s) (is_y s) (is_screen_w s) (is_screen_h s) (scroll_norm (is_hscroll s))
       (scroll_norm (is_vscroll s)) (is_buttons s)"
| "wire_of (BackOrScreenOn a) = W_BackOrScreenOn a"
| "wire_of (GetClipboard k) = W_GetClipboard k"
| "wire_of (SetClipboard s) = W_SetClipboard (sc_sequence s) (sc_paste s) (cut_text (sc_text s) 262130)"
| "wire_of (SetDisplayPower b) = W_SetDisplayPower b"
| "wire_of (StartApp n) = W_StartApp n"
| "wire_of (CameraSetTorch b) = W_CameraSetTorch b"
| "wire_of (ResizeDisplay w h) = W_ResizeDisplay w h"
| "wire_of ExpandNotificationPanel = W_Plain 5"
| "wire_of ExpandSettingsPanel = W_Plain 6"
| "wire_of CollapsePanels = W_Plain 7"
| "wire_of RotateDevice = W_Plain 11"
| "wire_of OpenHardKeyboardSettings = W_Plain 15"
| "wire_of ResetVideo = W_Plain 17"
| "wire_of CameraZoomIn = W_Plain 19"
| "wire_of CameraZoomOut = W_Plain 20"
| "wire_of (AiConfig c) = W_AiConfig (ac_flags c) (ac_sample_interval_ms c) (ac_feature_dim c)"
| "wire_of (AiQuery q) = W_AiQuery q"
| "wire_of AiPause = W_Plain 24"

text \<open>The faults of the serializer, in the order the code meets them.\<close>

definition msg_fault :: "ControlMessage \<Rightarrow> fault option" where
  "msg_fault m = (case m of
     UhidCreate c \<Rightarrow>
       (let n = (case uc_name c of Some s \<Rightarrow> length s | None \<Rightarrow> 0) in
        if 127 < n then Some (Err (NameTooLong n))
        else if 65535 < length (uc_report_desc c)
        then Some (Err (ReportDescTooLong (length (uc_report_desc c)))) else None)
   | UhidInput i \<Rightarrow>
       (if 15 < unat (ui_size i) then Some (Err (ControlMessageTooLarge (unat (ui_size i) + 5) 20)) else None)
   | InjectText t \<Rightarrow> (if 300 < length t \<and> \<not> is_char_boundary t 300 then Some Panicked else None)
   | SetClipboard s \<Rightarrow>
       (if 262130 < length (sc_text s) \<and> \<not> is_char_boundary (sc_text s) 262130 then Some Panicked else None)
   | StartApp n \<Rightarrow> (if 255 < length n then Some (Err (NameTooLong (length n))) else None)
   | _ \<Rightarrow> None)"

text \<open>\<open>UhidInput::data\<close> is an array of 15 bytes.\<close>

definition wf_msg :: "ControlMessage \<Rightarrow> bool" where
  "wf_msg m = (case m of UhidInput i \<Rightarrow> length (ui_data i) = HID_MAX_SIZE | _ \<Rightarrow> True)"

lemma wf_msg_simps [simp]:
  "wf_msg (UhidInput i) \<longleftrightarrow> length (ui_data i) = 15"
  "wf_msg (UhidCreate c)" "wf_msg (UhidDestroy d)"
  by (simp_all add: wf_msg_def)

lemma buf_then_emit [simp]: "buf_then (emit bs) q buf = q (buf @ bs)"
  by (simp add: buf_then_def emit_def)

lemma buf_then_fail [simp]: "buf_then (buf_fail e) q buf = (buf, Inl e)"
  by (simp add: buf_then_def buf_fail_def)

lemma buf_then_assoc [simp]: "buf_then (buf_then p q) r buf = buf_then p (buf_then q r) buf"
  by (simp add: buf_then_def split: prod.splits sum.splits)

lemma buf_then_if: "buf_then (if b then p else q) r = (if b then buf_then p r else buf_then q r)"
  by simp

lemmas serialize_defs = serialize_uhid_create_def serialize_uhid_input_def
  serialize_uhid_destroy_def serialize_inject_keycode_def serialize_inject_text_def
  serialize_inject_touch_def serialize_inject_scroll_def serialize_set_clipboard_def
  serialize_start_app_def write_tiny_string_def write_string_def write_position_def with_prefix_def

lemma serialize_body_no_fault:
  assumes "msg_fault m = None" and "wf_msg m"
  shows "serialize_body m (buf @ [type_byte (msg_type m)]) = (buf @ wire_bytes (wire_of m), Inr ())"
  using assms
  by (cases m) (auto simp: serialize_defs msg_fault_def emit_def tiny_str_def short_str_def long_str_def
      cut_text_def wf_msg_def Let_def buf_then_if split: option.splits if_splits)

lemma serialize_body_fault:
  assumes "msg_fault m = Some f"
  shows "\<exists>junk. serialize_body m (buf @ [type_byte (msg_type m)]) = (buf @ junk, Inl f)"
  using assms
  by (cases m) (auto simp: serialize_defs msg_fault_def buf_fail_def Let_def split: option.splits if_splits)

lemma wire_ok_of: "msg_fault m = None \<Longrightarrow> wf_msg m \<Longrightarrow> wire_ok (wire_of m)"
  by (cases m) (auto simp: msg_fault_def wf_msg_def cut_text_def plain_tags_def Let_def
      split: option.splits if_splits)

lemma wire_bytes_bound: "wire_ok w \<Longrightarrow> length (wire_bytes w) \<le> CONTROL_MSG_MAX_SIZE"
  by (cases w) (auto simp: tiny_str_def short_str_def long_str_def)

lemma serialize_into_ok:
  assumes "wf_msg m" and "msg_fault m = None"
  shows "serialize_into m buf = (buf @ wire_bytes (wire_of m), Inr (length (wire_bytes (wire_of m))))"
  using wire_bytes_bound [OF wire_ok_of [OF assms(2) assms(1)]] serialize_body_no_fault [OF assms(2) assms(1)]
  by (simp add: serialize_into_def)

lemma serialize_into_err:
  assumes "msg_fault m = Some (Err e)"
  shows "serialize_into m buf = (buf, Inl (Err e))"
  using serialize_body_fault [OF assms, of buf] by (auto simp: serialize_into_def)

lemma serialize_into_panic:
  assumes "msg_fault m = Some Panicked"
  shows "snd (serialize_into m buf) = Inl Panicked"
  using serialize_body_fault [OF assms, of buf] by (auto simp: serialize_into_def)

lemma serialize_ok_iff:
  "wf_msg m \<Longrightarrow> serialize m = Inr bs \<longleftrightarrow> msg_fault m = None \<and> bs = wire_bytes (wire_of m)"
proof (cases "msg_fault m")
  case None
  then show "wf_msg m \<Longrightarrow> ?thesis"
    by (auto simp: serialize_def serialize_into_ok)
next
  case (Some f)
  then show ?thesis
    using serialize_into_err [of m _ "[]"] serialize_into_panic [of m "[]"]
    by (cases f) (auto simp: serialize_def split: prod.splits sum.splits)
qed

lemma decode_serialized:
  assumes "list_all wf_msg ms" and "map serialize ms = map Inr bss"
  shows "decode_all dec_wire (concat bss) = Some (map wire_of ms)"
proof -
  have all: "list_all (\<lambda>m. serialize m = Inr (wire_bytes (wire_of m)) \<and> wire_ok (wire_of m)) ms"
    and bss: "bss = map wire_bytes (map wire_of ms)"
    using assms
  proof (induction ms arbitrary: bss)
    case (Cons m ms)
    { case 1 with Cons show ?case
        by (cases bss) (auto simp: serialize_ok_iff wire_ok_of)
    next
      case 2 with Cons show ?case
        by (cases bss) (auto simp: serialize_ok_iff)
    }
  qed simp_all
  have "list_all wire_ok (map wire_of ms)"
    using all by (simp add: list_all_iff)
  then show ?thesis
    unfolding bss by (rule control_wire.decode_all_concat)
qed

text \<open>
  C1 (refinement). On every message the serializer does one of three things: it appends exactly the
  reference layout of the message to the caller's buffer and returns its length; or it returns the
  documented error and leaves the buffer as it was (the roll-back of \<open>serialize_into\<close>); or it panics,
  which happens precisely when an over-long text would be cut inside a UTF-8 character. In particular
  the size check at the end of \<open>serialize_into\<close> never fires.
\<close>

theorem serialize_into_refines:
  assumes "wf_msg m"
  shows "case msg_fault m of
      None \<Rightarrow> serialize_into m buf =
        (buf @ wire_bytes (wire_of m), Inr (length (wire_bytes (wire_of m))))
    | Some (Err e) \<Rightarrow> serialize_into m buf = (buf, Inl (Err e))
    | Some Panicked \<Rightarrow> snd (serialize_into m buf) = Inl Panicked"
  using serialize_into_ok [OF assms] serialize_into_err serialize_into_panic
  by (simp split: option.splits fault.splits)

theorem serialize_into_refines_witness:
  "serialize_into (UhidInput \<lparr>ui_id = 1, ui_size = 2, ui_data = [7, 8] @ replicate 13 0\<rparr>) [99] =
     ([99, 13, 0, 1, 0, 2, 7, 8], Inr 7)"
  using serialize_into_refines
    [of "UhidInput \<lparr>ui_id = 1, ui_size = 2, ui_data = [7, 8] @ replicate 13 0\<rparr>" "[99]"]
  by (simp add: msg_fault_def short_str_def to_be_bytes_u16)

text \<open>
  C2 (round trip). The server's reader, run over the concatenation of any sequence of serialized
  messages, recovers exactly what the messages mean, one by one, and is left with no byte over: the
  framing of the control stream is never lost.
\<close>

theorem control_stream_roundtrip:
  assumes "list_all wf_msg ms" and "map serialize ms = map Inr bss"
  shows "decode_all dec_wire (concat bss) = Some (map wire_of ms)"
  using assms by (rule decode_serialized)

theorem control_stream_roundtrip_witness:
  "decode_all dec_wire (concat [[14, 0, 3], [10, 1], [6]]) =
     Some [W_UhidDestroy 3, W_SetDisplayPower True, W_Plain 6]"
  using control_stream_roundtrip [of "[UhidDestroy 3, SetDisplayPower True, ExpandSettingsPanel]"
      "[[14, 0, 3], [10, 1], [6]]"]
  by (simp add: wf_msg_def serialize_ok_iff msg_fault_def to_be_bytes_u16)

end
