(* ===== verification/Hid.thy ===== *)
theory Hid
  imports Wire_Format
begin

text \<open>
  \<^verbatim>\<open>src/src/hid/mod.rs\<close> and \<^verbatim>\<open>src/src/hid/descriptor.rs\<close>: input reports, the report descriptors announced in
  \<open>UHID_CREATE\<close>, and the contract of the \<open>HidDevice\<close> trait as the locale \<open>hid_device\<close>. A small
  parser of report descriptors (HID 1.11, section 6.2.2) says how many bits an input report of a
  descriptor has; the drivers' reports are checked against it.
\<close>

section \<open>Report descriptors\<close>

definition KEYBOARD_REPORT_DESC :: "byte list" where
  "KEYBOARD_REPORT_DESC =
     [0x05, 0x01, 0x09, 0x06, 0xA1, 0x01, 0x05, 0x07, 0x19, 0xE0, 0x29, 0xE7, 0x15, 0x00,
      0x25, 0x01, 0x75, 0x01, 0x95, 0x08, 0x81, 0x02, 0x75, 0x08, 0x95, 0x01, 0x81, 0x01,
      0x05, 0x08, 0x19, 0x01, 0x29, 0x05, 0x75, 0x01, 0x95, 0x05, 0x91, 0x02, 0x75, 0x03,
      0x95, 0x01, 0x91, 0x01, 0x05, 0x07, 0x19, 0x00, 0x29, 0x65, 0x15, 0x00, 0x25, 0x65,
      0x75, 0x08, 0x95, 0x06, 0x81, 0x00, 0xC0]"

definition MOUSE_REPORT_DESC :: "byte list" where
  "MOUSE_REPORT_DESC =
     [0x05, 0x01, 0x09, 0x02, 0xA1, 0x01, 0x09, 0x01, 0xA1, 0x00, 0x05, 0x09, 0x19, 0x01,
      0x29, 0x05, 0x15, 0x00, 0x25, 0x01, 0x95, 0x05, 0x75, 0x01, 0x81, 0x02, 0x95, 0x01,
      0x75, 0x03, 0x81, 0x01, 0x05, 0x01, 0x09, 0x30, 0x09, 0x31, 0x09, 0x38, 0x15, 0x81,
      0x25, 0x7F, 0x75, 0x08, 0x95, 0x03, 0x81, 0x06, 0x05, 0x0C, 0x0A, 0x38, 0x02, 0x15,
      0x81, 0x25, 0x7F, 0x75, 0x08, 0x95, 0x01, 0x81, 0x06, 0xC0, 0xC0]"

definition GAMEPAD_REPORT_DESC :: "byte list" where
  "GAMEPAD_REPORT_DESC =
     [0x05, 0x01, 0x09, 0x05, 0xA1, 0x01, 0xA1, 0x00, 0x05, 0x01, 0x09, 0x30, 0x09, 0x31,
      0x09, 0x33, 0x09, 0x34, 0x15, 0x00, 0x27, 0xFF, 0xFF, 0x00, 0x00, 0x75, 0x10, 0x95,
      0x04, 0x81, 0x02, 0x05, 0x01, 0x09, 0x32, 0x09, 0x35, 0x15, 0x00, 0x26, 0xFF, 0x7F,
      0x75, 0x10, 0x95, 0x02, 0x81, 0x02, 0x05, 0x09, 0x19, 0x01, 0x29, 0x10, 0x15, 0x00,
      0x25, 0x01, 0x95, 0x10, 0x75, 0x01, 0x81, 0x02, 0x05, 0x01, 0x09, 0x39, 0x15, 0x01,
      0x25, 0x08, 0x75, 0x04, 0x95, 0x01, 0x81, 0x42, 0xC0, 0xC0]"

text \<open>
  The size of the input report a descriptor declares, in bits: short items only, the prefix byte gives
  tag and data size; \<open>Report Size\<close> and \<open>Report Count\<close> are global items, every \<open>Input\<close> item adds
  their product. \<open>None\<close> when an item is cut off.
\<close>

definition item_size :: "byte \<Rightarrow> nat" where
  "item_size b = (let n = unat (b AND 3) in if n = 3 then 4 else n)"

fun input_bits :: "byte list \<Rightarrow> nat \<Rightarrow> nat \<Rightarrow> nat option" where
  "input_bits [] rs rc = Some 0"
| "input_bits (b # rest) rs rc =
     (let n = item_size b; tag = b AND 0xFC in
      if length rest < n then None
      else if tag = 0x74 then input_bits (drop n rest) (nat_be (rev (take n rest))) rc
      else if tag = 0x94 then input_bits (drop n rest) rs (nat_be (rev (take n rest)))
      else if tag = 0x80 then map_option ((+) (rs * rc)) (input_bits (drop n rest) rs rc)
      else input_bits (drop n rest) rs rc)"

lemma descriptor_sizes:
  "length KEYBOARD_REPORT_DESC \<le> 65535" "length MOUSE_REPORT_DESC \<le> 65535"
  "length GAMEPAD_REPORT_DESC \<le> 65535"
  by (simp_all add: KEYBOARD_REPORT_DESC_def MOUSE_REPORT_DESC_def GAMEPAD_REPORT_DESC_def)

lemma keyboard_input_bits: "input_bits KEYBOARD_REPORT_DESC 0 0 = Some 64"
  by code_simp

lemma mouse_input_bits: "input_bits MOUSE_REPORT_DESC 0 0 = Some 40"
  by code_simp

lemma gamepad_input_bits: "input_bits GAMEPAD_REPORT_DESC 0 0 = Some 116"
  by code_simp

section \<open>Input reports\<close>

record HidReport =
  hr_hid_id :: u16
  hr_size :: u16
  hr_data :: "byte list" \<comment> \<open>\<open>[u8; HID_MAX_SIZE]\<close>\<close>

definition copy_to_buf :: "nat \<Rightarrow> byte list \<Rightarrow> byte list" where
  \<comment> \<open>\<open>let mut buf = [0u8; HID_MAX_SIZE]; buf[..n].copy_from_slice(&data[..n])\<close>\<close>
  "copy_to_buf n data = take n data @ replicate (HID_MAX_SIZE - n) 0"

definition HidReport_new :: "u16 \<Rightarrow> byte list \<Rightarrow> HidReport" where
  "HidReport_new hid_id data =
     (let n = min (length data) HID_MAX_SIZE in
      \<lparr>hr_hid_id = hid_id, hr_size = word_of_nat n, hr_data = copy_to_buf n data\<rparr>)"

definition report_to_input :: "HidReport \<Rightarrow> ControlMessage" where
  \<comment> \<open>\<open>fn to_input_message\<close> of \<open>gamepad.rs\<close>, and the bodies of the methods of that name\<close>
  "report_to_input r =
     (let n = min (unat (hr_size r)) HID_MAX_SIZE in
      UhidInput \<lparr>ui_id = hr_hid_id r, ui_size = word_of_nat n, ui_data = copy_to_buf n (hr_data r)\<rparr>)"

definition report_bytes :: "HidReport \<Rightarrow> byte list" where
  \<comment> \<open>the bytes of a report the host sees\<close>
  "report_bytes r = take (unat (hr_size r)) (hr_data r)"

definition input_of :: "u16 \<Rightarrow> byte list \<Rightarrow> ControlMessage" where
  \<comment> \<open>reference: the \<open>UHID_INPUT\<close> that carries the report \<open>data\<close>\<close>
  "input_of hid_id data =
     UhidInput \<lparr>ui_id = hid_id, ui_size = word_of_nat (length data),
       ui_data = data @ replicate (HID_MAX_SIZE - length data) 0\<rparr>"

lemma unat_small_u16 [simp]: "n \<le> 15 \<Longrightarrow> unat (word_of_nat n :: u16) = n"
  by (simp add: unat_of_nat)

lemma report_bytes_new [simp]: "report_bytes (HidReport_new i data) = take 15 data"
  by (simp add: report_bytes_def HidReport_new_def copy_to_buf_def Let_def min_def)

lemma report_to_input_new [simp]:
  "length data \<le> 15 \<Longrightarrow> report_to_input (HidReport_new i data) = input_of i data"
  by (simp add: report_to_input_def HidReport_new_def copy_to_buf_def input_of_def Let_def min_def)

lemma hid_id_new [simp]: "hr_hid_id (HidReport_new i data) = i"
  by (simp add: HidReport_new_def Let_def)

lemma wf_input_of [simp]: "length data \<le> 15 \<Longrightarrow> wf_msg (input_of i data)"
  by (simp add: input_of_def)

lemma fault_input_of [simp]: "length data \<le> 15 \<Longrightarrow> msg_fault (input_of i data) = None"
  by (simp add: input_of_def msg_fault_def)

lemma wire_input_of [simp]: "length data \<le> 15 \<Longrightarrow> wire_of (input_of i data) = W_UhidInput i data"
  by (simp add: input_of_def)

lemma serialize_input_of:
  "length data \<le> 15 \<Longrightarrow> serialize (input_of i data) = Inr (wire_bytes (W_UhidInput i data))"
  by (simp add: serialize_ok_iff)

lemma not_critical_input_of [simp]: "\<not> is_critical (input_of i data)"
  by (simp add: input_of_def is_critical_def)

section \<open>The \<open>HidDevice\<close> trait\<close>

text \<open>
  The contract of a single-instance device: creation and destruction carry the id of the device, and
  the descriptor it announces declares input reports of exactly the size the driver sends.
\<close>

locale hid_device =
  fixes hid_id :: "'s \<Rightarrow> u16"
    and open_message :: "'s \<Rightarrow> byte list option \<Rightarrow> ControlMessage res"
    and close_message :: "'s \<Rightarrow> ControlMessage res"
    and report_size :: nat
    and desc :: "byte list"
  assumes open_create: "open_message s nm = Inr (UhidCreate
      \<lparr>uc_id = hid_id s, uc_vendor_id = 0, uc_product_id = 0, uc_name = None, uc_report_desc = desc\<rparr>)"
    and close_destroy: "close_message s = Inr (UhidDestroy (hid_id s))"
    and desc_size: "length desc \<le> 65535"
    and desc_input: "input_bits desc 0 0 = Some (8 * report_size)"
    and size_le: "report_size \<le> HID_MAX_SIZE"
begin

text \<open>One life of the device on the wire, as the server reads it.\<close>

lemma life_on_wire:
  assumes "open_message s nm = Inr c" and "close_message t = Inr d" and "hid_id t = hid_id s"
    and "\<forall>r \<in> set reports. length r = report_size"
    and "map serialize ([c] @ map (input_of (hid_id s)) reports @ [d]) = map Inr bss"
  shows "decode_all dec_wire (concat bss) =
    Some ([W_UhidCreate (hid_id s) 0 0 [] desc] @ map (W_UhidInput (hid_id s)) reports
      @ [W_UhidDestroy (hid_id s)])"
proof -
  let ?ms = "[c] @ map (input_of (hid_id s)) reports @ [d]"
  have cd: "c = UhidCreate \<lparr>uc_id = hid_id s, uc_vendor_id = 0, uc_product_id = 0, uc_name = None,
      uc_report_desc = desc\<rparr>" "d = UhidDestroy (hid_id s)"
    using assms(1-3) open_create [of s nm] close_destroy [of t] by simp_all
  have sz: "\<forall>r \<in> set reports. length r \<le> 15"
    using assms(4) size_le by simp
  have wire: "map wire_of ?ms = [W_UhidCreate (hid_id s) 0 0 [] desc]
      @ map (W_UhidInput (hid_id s)) reports @ [W_UhidDestroy (hid_id s)]"
    using sz by (simp add: cd)
  have "list_all wf_msg ?ms"
    using sz by (simp add: list_all_iff cd)
  then have "decode_all dec_wire (concat bss) = Some (map wire_of ?ms)"
    using assms(5) by (intro decode_serialized)
  then show ?thesis
    unfolding wire .
qed

end

end
