(* ===== verification/Keyboard.thy ===== *)
theory Keyboard
  imports Hid
begin

text \<open>
  \<^verbatim>\<open>src/src/hid/keyboard.rs\<close>: the keyboard driver. The state is the table of held keys and the last
  modifier byte; every event produces a full 8-byte report of the state. The lemmas relate the report
  to the set of held keys (six-key roll-over, phantom state) and the driver to the device contract.
\<close>

section \<open>The driver\<close>

definition KEYBOARD_REPORT_SIZE :: nat where [simp]: "KEYBOARD_REPORT_SIZE = 8"
definition KEYBOARD_MAX_KEYS :: nat where [simp]: "KEYBOARD_MAX_KEYS = 6"
definition SC_HID_ERROR_ROLL_OVER :: u8 where [simp]: "SC_HID_ERROR_ROLL_OVER = 0x01"

record KeyboardHid =
  keys :: "bool list" \<comment> \<open>\<open>[bool; 0x66]\<close>\<close>
  device_mod :: modifiers

definition hid_modifier_byte :: "modifiers \<Rightarrow> u8" where
  "hid_modifier_byte m = m"

definition keyboard_new :: KeyboardHid where
  "keyboard_new = \<lparr>keys = replicate 0x66 False, device_mod = mod_empty\<rparr>"

definition pressed_count :: "KeyboardHid \<Rightarrow> nat" where
  "pressed_count s = length (filter (\<lambda>k. k) (keys s))"

definition set_key :: "u8 \<Rightarrow> bool \<Rightarrow> KeyboardHid \<Rightarrow> unit res \<times> KeyboardHid" where
  "set_key scancode pressed s =
     (let sc = ucast scancode :: u16 in
      if sc > 0x65 \<and> \<not> (0xE0 \<le> sc \<and> sc \<le> 0xE7) then (Inl (Err (ScancodeOutOfRange sc)), s)
      else if sc \<le> 0x65 then (Inr (), s\<lparr>keys := (keys s)[unat sc := pressed]\<rparr>)
      else (Inr (), s))"

definition set_modifiers :: "modifiers \<Rightarrow> KeyboardHid \<Rightarrow> modifiers \<times> KeyboardHid" where
  "set_modifiers m s = (device_mod s, s\<lparr>device_mod := m\<rparr>)"

text \<open>The loop of \<open>build_report\<close> over the enumerated keys; the early return fills the phantom state.\<close>

fun fill_slots :: "(nat \<times> bool) list \<Rightarrow> byte list \<Rightarrow> nat \<Rightarrow> byte list" where
  "fill_slots [] data slot = data"
| "fill_slots ((sc, held) # rest) data slot =
     (if \<not> held then fill_slots rest data slot
      else if KEYBOARD_MAX_KEYS \<le> slot
      then take 2 data @ replicate (length data - 2) SC_HID_ERROR_ROLL_OVER
      else fill_slots rest (data[2 + slot := word_of_nat sc]) (slot + 1))"

definition build_report :: "modifiers \<Rightarrow> KeyboardHid \<Rightarrow> HidReport" where
  "build_report modifiers s =
     (let data = (replicate KEYBOARD_REPORT_SIZE 0)[0 := hid_modifier_byte modifiers] in
      HidReport_new HID_ID_KEYBOARD (fill_slots (enumerate 0 (keys s)) data 0))"

definition inject_key :: "u8 \<Rightarrow> bool \<Rightarrow> modifiers \<Rightarrow> KeyboardHid \<Rightarrow> HidReport res \<times> KeyboardHid" where
  "inject_key scancode pressed modifiers s =
     (case set_key scancode pressed s of
        (Inl e, s') \<Rightarrow> (Inl e, s')
      | (Inr _, s') \<Rightarrow>
          (let s'' = s'\<lparr>device_mod := modifiers\<rparr> in (Inr (build_report modifiers s''), s'')))"

definition keyboard_to_input_message :: "HidReport \<Rightarrow> ControlMessage res" where
  "keyboard_to_input_message r =
     (if hr_hid_id r \<noteq> HID_ID_KEYBOARD then Inl Panicked else Inr (report_to_input r))"

definition key_event :: "u8 \<Rightarrow> bool \<Rightarrow> modifiers \<Rightarrow> KeyboardHid \<Rightarrow> ControlMessage res \<times> KeyboardHid" where
  "key_event scancode pressed modifiers s =
     (case inject_key scancode pressed modifiers s of
        (Inl e, s') \<Rightarrow> (Inl e, s')
      | (Inr r, s') \<Rightarrow> (keyboard_to_input_message r, s'))"

definition mods_sync_message :: "modifiers \<Rightarrow> ControlMessage option" where
  "mods_sync_message modifiers =
     (let data0 = replicate HID_MAX_SIZE 0;
          data1 = (if modifiers \<noteq> 0 then data0[0 := modifiers] else data0);
          (data2, slot2) = (if modifiers AND 0x01 \<noteq> 0 then (data1[2 + 0 := 0x39], 1) else (data1, 0));
          (data3, slot3) = (if modifiers AND 0x02 \<noteq> 0 then (data2[2 + slot2 := 0x53], slot2 + 1) else (data2, slot2))
      in if slot3 = 0 \<and> data3 ! 0 = 0 then None
         else Some (UhidInput \<lparr>ui_id = HID_ID_KEYBOARD, ui_size = word_of_nat KEYBOARD_REPORT_SIZE,
                ui_data = data3\<rparr>))"

definition keyboard_hid_id :: "KeyboardHid \<Rightarrow> u16" where
  "keyboard_hid_id s = HID_ID_KEYBOARD"

definition keyboard_open_message :: "KeyboardHid \<Rightarrow> byte list option \<Rightarrow> ControlMessage res" where
  "keyboard_open_message s nm = Inr (UhidCreate
     \<lparr>uc_id = HID_ID_KEYBOARD, uc_vendor_id = 0, uc_product_id = 0, uc_name = None,
      uc_report_desc = KEYBOARD_REPORT_DESC\<rparr>)"

definition keyboard_close_message :: "KeyboardHid \<Rightarrow> ControlMessage res" where
  "keyboard_close_message s = Inr (UhidDestroy HID_ID_KEYBOARD)"

definition hid_mod_from_sdl_keymod :: "u16 \<Rightarrow> u8" where
  "hid_mod_from_sdl_keymod m =
     (let mods = 0;
          mods = (if m AND 0x0001 \<noteq> 0 then mods OR push_bit 0 1 else mods);
          mods = (if m AND 0x0002 \<noteq> 0 then mods OR push_bit 1 1 else mods);
          mods = (if m AND 0x0004 \<noteq> 0 then mods OR push_bit 2 1 else mods);
          mods = (if m AND 0x0008 \<noteq> 0 then mods OR push_bit 3 1 else mods);
          mods = (if m AND 0x0010 \<noteq> 0 then mods OR push_bit 4 1 else mods);
          mods = (if m AND 0x0020 \<noteq> 0 then mods OR push_bit 5 1 else mods);
          mods = (if m AND 0x0040 \<noteq> 0 then mods OR push_bit 6 1 else mods);
          mods = (if m AND 0x0080 \<noteq> 0 then mods OR push_bit 7 1 else mods)
      in mods)"

interpretation kbd: hid_device keyboard_hid_id keyboard_open_message keyboard_close_message
  KEYBOARD_REPORT_SIZE KEYBOARD_REPORT_DESC
  by unfold_locales (simp_all add: keyboard_hid_id_def keyboard_open_message_def
      keyboard_close_message_def keyboard_input_bits descriptor_sizes)

section \<open>Reports show the held keys\<close>

definition wf_keyboard :: "KeyboardHid \<Rightarrow> bool" where
  "wf_keyboard s = (length (keys s) = 0x66)"

definition held_set :: "KeyboardHid \<Rightarrow> nat set" where
  "held_set s = {i. i < length (keys s) \<and> keys s ! i}"

definition held_keys :: "KeyboardHid \<Rightarrow> nat list" where
  "held_keys s = map fst (filter snd (enumerate 0 (keys s)))"

definition report_spec :: "modifiers \<Rightarrow> nat list \<Rightarrow> byte list" where
  \<comment> \<open>HID boot keyboard report: modifiers, reserved byte, six key slots; roll-over beyond six\<close>
  "report_spec m ks = [m, 0] @
     (if length ks \<le> 6 then map word_of_nat ks @ replicate (6 - length ks) 0 else replicate 6 1)"

lemma fill_slots_spec:
  assumes "length pre = 2" and "length done = slot" and "slot \<le> 6"
  shows "fill_slots xs (pre @ done @ replicate (6 - slot) 0) slot =
    (let ks = map fst (filter snd xs) in
     pre @ (if slot + length ks \<le> 6
       then done @ map word_of_nat ks @ replicate (6 - slot - length ks) 0 else replicate 6 1))"
  using assms
proof (induction xs arbitrary: "done" slot)
  case (Cons x xs)
  obtain sc held where x: "x = (sc, held)"
    by (cases x)
  show ?case
  proof (cases "held \<and> slot < 6")
    case True
    then obtain k where k: "6 - slot = Suc k" "6 - Suc slot = k"
      by (cases "6 - slot") auto
    then have "(pre @ done @ replicate (6 - slot) 0)[2 + slot := word_of_nat sc]
        = pre @ (done @ [word_of_nat sc]) @ replicate (6 - Suc slot) 0"
      using Cons.prems by (simp add: list_update_append)
    then show ?thesis
      using True Cons.IH [of "done @ [word_of_nat sc]" "Suc slot"] Cons.prems
      by (simp add: x Let_def)
  next
    case False
    then show ?thesis
      using Cons.IH [of "done" slot] Cons.prems by (cases held) (simp_all add: x Let_def)
  qed
qed simp

lemma length_report_spec [simp]: "length (report_spec m ks) = 8"
  by (simp add: report_spec_def)

lemma held_keys_set: "held_keys s = sorted_list_of_set (held_set s)"
proof -
  have "set (held_keys s) = held_set s"
    by (auto simp: held_keys_def held_set_def in_set_enumerate_eq
        intro: image_eqI [of _ _ "(i, True)" for i])
  moreover have "sorted (held_keys s)" "distinct (held_keys s)"
  proof -
    have "sorted (map fst (enumerate 0 (keys s)))" "distinct (map fst (enumerate 0 (keys s)))"
      by simp_all
    then show "sorted (held_keys s)" "distinct (held_keys s)"
      unfolding held_keys_def by (simp_all only: sorted_filter distinct_map_filter)
  qed
  ultimately show ?thesis
    by (metis sorted_list_of_set.idem_if_sorted_distinct)
qed

lemma build_report_eq:
  "build_report m s = HidReport_new HID_ID_KEYBOARD (report_spec m (sorted_list_of_set (held_set s)))"
proof -
  have "(replicate KEYBOARD_REPORT_SIZE 0)[0 := hid_modifier_byte m] = [m, 0] @ [] @ replicate (6 - 0) 0"
    by (simp add: hid_modifier_byte_def numeral_eq_Suc)
  moreover have "fill_slots (enumerate 0 (keys s)) ([m, 0] @ [] @ replicate (6 - 0) 0) 0 = report_spec m (held_keys s)"
    using fill_slots_spec [of "[m, 0]" "[]" 0 "enumerate 0 (keys s)"]
    by (simp add: held_keys_def report_spec_def Let_def)
  ultimately show ?thesis
    unfolding build_report_def Let_def held_keys_set by (simp only:)
qed

section \<open>Events against the abstract keyboard\<close>

text \<open>The abstract keyboard is the set of held usage ids; modifiers ride in the report only.\<close>

definition valid_scancode :: "u8 \<Rightarrow> bool" where
  "valid_scancode sc \<longleftrightarrow> sc \<le> 0x65 \<or> 0xE0 \<le> sc \<and> sc \<le> 0xE7"

definition track_key :: "u8 \<Rightarrow> bool \<Rightarrow> nat set \<Rightarrow> nat set" where
  "track_key sc pressed held =
     (if sc \<le> 0x65 then (if pressed then insert (unat sc) held else held - {unat sc}) else held)"

lemma unat_ucast_u8 [simp]: "unat (ucast (b :: u8) :: u16) = unat b"
proof -
  have "unat b < 256"
    using unsigned_less [of b] by simp
  then show ?thesis
    by (simp add: unsigned_ucast_eq take_bit_nat_eq_self)
qed

lemma ucast_u8_compare:
  "(ucast (b :: u8) :: u16) \<le> 0x65 \<longleftrightarrow> b \<le> 0x65"
  "(0x65 :: u16) < ucast b \<longleftrightarrow> \<not> b \<le> 0x65"
  "(0xE0 :: u16) \<le> ucast b \<longleftrightarrow> 0xE0 \<le> b"
  "(ucast b :: u16) \<le> 0xE7 \<longleftrightarrow> b \<le> 0xE7"
  by (simp_all add: word_le_nat_alt word_less_nat_alt not_le)

lemma device_mod_frame [simp, frame_rules]:
  "wf_keyboard (s\<lparr>device_mod := m\<rparr>) = wf_keyboard s" "held_set (s\<lparr>device_mod := m\<rparr>) = held_set s"
  by (simp_all add: wf_keyboard_def held_set_def)

lemma set_key_refines:
  assumes "wf_keyboard s"
  shows "if valid_scancode sc
    then fst (set_key sc pressed s) = Inr () \<and> wf_keyboard (snd (set_key sc pressed s)) \<and>
      held_set (snd (set_key sc pressed s)) = track_key sc pressed (held_set s) \<and>
      device_mod (snd (set_key sc pressed s)) = device_mod s
    else set_key sc pressed s = (Inl (Err (ScancodeOutOfRange (ucast sc))), s)"
proof -
  have "sc \<le> 0x65 \<Longrightarrow> unat sc < length (keys s)"
    using assms by (simp add: wf_keyboard_def word_le_nat_alt)
  then show ?thesis
    using assms by (auto simp: set_key_def Let_def ucast_u8_compare valid_scancode_def wf_keyboard_def
        held_set_def track_key_def nth_list_update)
qed

lemma key_event_refines:
  assumes "wf_keyboard s"
  shows "if valid_scancode sc
    then \<exists>s'. key_event sc pressed m s =
        (Inr (input_of HID_ID_KEYBOARD
          (report_spec m (sorted_list_of_set (track_key sc pressed (held_set s))))), s') \<and>
      wf_keyboard s' \<and> held_set s' = track_key sc pressed (held_set s) \<and> device_mod s' = m
    else key_event sc pressed m s = (Inl (Err (ScancodeOutOfRange (ucast sc))), s)"
proof (cases "valid_scancode sc")
  case True
  obtain s1 where k: "set_key sc pressed s = (Inr (), s1)"
    using set_key_refines [OF assms, of sc pressed] True by (cases "set_key sc pressed s") simp
  have "wf_keyboard (s1\<lparr>device_mod := m\<rparr>)" "held_set (s1\<lparr>device_mod := m\<rparr>) = track_key sc pressed (held_set s)"
    using set_key_refines [OF assms, of sc pressed] True k by simp_all
  then show ?thesis
    using True k by (simp add: key_event_def inject_key_def Let_def keyboard_to_input_message_def build_report_eq)
next
  case False
  then show ?thesis
    using set_key_refines [OF assms, of sc pressed] by (simp add: key_event_def inject_key_def)
qed

lemma keyboard_new_wf [simp]: "wf_keyboard keyboard_new" "held_set keyboard_new = {}"
  by (simp_all add: keyboard_new_def wf_keyboard_def held_set_def)

lemma pressed_count_card: "pressed_count s = card (held_set s)"
  by (simp add: pressed_count_def held_set_def length_filter_conv_card)

lemma mods_sync_lctrl:
  \<comment> \<open>the left-control bit is sent as a held CapsLock key\<close>
  "mods_sync_message LCTRL = Some (input_of HID_ID_KEYBOARD (report_spec LCTRL [0x39]))"
  by (simp add: mods_sync_message_def input_of_def report_spec_def numeral_eq_Suc)

lemma mods_sync_silent_iff: "mods_sync_message m = None \<longleftrightarrow> m = 0"
proof (cases "m = 0")
  case False
  then show ?thesis
    by (simp add: mods_sync_message_def Let_def split: prod.splits)
qed (simp add: mods_sync_message_def)

lemma hid_mod_from_sdl_keymod_ucast: "hid_mod_from_sdl_keymod m = ucast m"
proof -
  have b: "m AND 1 \<noteq> 0 \<longleftrightarrow> bit m 0" "m AND 2 \<noteq> 0 \<longleftrightarrow> bit m 1" "m AND 4 \<noteq> 0 \<longleftrightarrow> bit m 2"
    "m AND 8 \<noteq> 0 \<longleftrightarrow> bit m 3" "m AND 0x10 \<noteq> 0 \<longleftrightarrow> bit m 4" "m AND 0x20 \<noteq> 0 \<longleftrightarrow> bit m 5"
    "m AND 0x40 \<noteq> 0 \<longleftrightarrow> bit m 6" "m AND 0x80 \<noteq> 0 \<longleftrightarrow> bit m 7"
    using and_exp_eq_0_iff_not_bit [of m 0] and_exp_eq_0_iff_not_bit [of m 1]
      and_exp_eq_0_iff_not_bit [of m 2] and_exp_eq_0_iff_not_bit [of m 3]
      and_exp_eq_0_iff_not_bit [of m 4] and_exp_eq_0_iff_not_bit [of m 5]
      and_exp_eq_0_iff_not_bit [of m 6] and_exp_eq_0_iff_not_bit [of m 7]
    by simp_all
  show ?thesis
  proof (rule bit_word_eqI)
    fix n
    assume "n < LENGTH(8)"
    then have "n = 0 \<or> n = 1 \<or> n = 2 \<or> n = 3 \<or> n = 4 \<or> n = 5 \<or> n = 6 \<or> n = 7"
      by auto
    then show "bit (hid_mod_from_sdl_keymod m) n = bit (ucast m :: u8) n"
      unfolding hid_mod_from_sdl_keymod_def Let_def b
      by (elim disjE) (simp_all add: bit_simps)
  qed
qed



end
