(* ===== verification/Mouse.thy ===== *)
theory Mouse
  imports Hid
begin

text \<open>
  \<^verbatim>\<open>src/src/hid/mouse.rs\<close>: the mouse driver. Motion and clicks are stateless; scrolling keeps the
  fractional part of each axis in binary32 and emits whole steps. The lemmas show the clamping of
  motion, and that the scroll accumulator loses nothing but what rounding and clamping take.
\<close>

section \<open>The driver\<close>

definition MOUSE_REPORT_SIZE :: nat where [simp]: "MOUSE_REPORT_SIZE = 5"
definition BTN_LEFT :: u8 where [simp]: "BTN_LEFT = push_bit 0 1"
definition BTN_RIGHT :: u8 where [simp]: "BTN_RIGHT = push_bit 1 1"
definition BTN_MIDDLE :: u8 where [simp]: "BTN_MIDDLE = push_bit 2 1"
definition BTN_X1 :: u8 where [simp]: "BTN_X1 = push_bit 3 1"
definition BTN_X2 :: u8 where [simp]: "BTN_X2 = push_bit 4 1"

definition buttons_byte :: "u8 \<Rightarrow> u8" where
  "buttons_byte buttons_state =
     (let c = 0;
          c = (if buttons_state AND BTN_LEFT \<noteq> 0 then c OR BTN_LEFT else c);
          c = (if buttons_state AND BTN_RIGHT \<noteq> 0 then c OR BTN_RIGHT else c);
          c = (if buttons_state AND BTN_MIDDLE \<noteq> 0 then c OR BTN_MIDDLE else c);
          c = (if buttons_state AND BTN_X1 \<noteq> 0 then c OR BTN_X1 else c);
          c = (if buttons_state AND BTN_X2 \<noteq> 0 then c OR BTN_X2 else c)
      in c)"

definition clamp_i8 :: "i32 \<Rightarrow> u8" where
  "clamp_i8 v = (if sint v < -127 then -127 else if 127 < sint v then 127 else ucast v)"

definition consume_scroll_integer :: "f32 \<Rightarrow> u8 \<times> f32" where
  \<comment> \<open>returns the consumed byte and the new \<open>*scroll\<close>\<close>
  "consume_scroll_integer scroll =
     (let v = f32_clamp scroll (-127) 127;
          consume = f32_as_i8 (f32_trunc v);
          residual = f32_sub v (Fin (of_int (sint consume)))
      in (consume, residual))"

record MouseHid =
  residual_hscroll :: f32
  residual_vscroll :: f32

definition mouse_new :: MouseHid where
  "mouse_new = \<lparr>residual_hscroll = Fin 0, residual_vscroll = Fin 0\<rparr>"

definition generate_input_from_motion :: "i32 \<Rightarrow> i32 \<Rightarrow> u8 \<Rightarrow> HidReport" where
  "generate_input_from_motion xrel yrel buttons_state =
     HidReport_new HID_ID_MOUSE
       ((replicate MOUSE_REPORT_SIZE 0)[0 := buttons_byte buttons_state, 1 := clamp_i8 xrel, 2 := clamp_i8 yrel])"

definition generate_input_from_click :: "u8 \<Rightarrow> HidReport" where
  "generate_input_from_click buttons_state =
     HidReport_new HID_ID_MOUSE ((replicate MOUSE_REPORT_SIZE 0)[0 := buttons_byte buttons_state])"

definition generate_input_from_scroll :: "f32 \<Rightarrow> f32 \<Rightarrow> MouseHid \<Rightarrow> HidReport option \<times> MouseHid" where
  "generate_input_from_scroll hscroll vscroll s =
     (let (h, rh) = consume_scroll_integer (f32_add (residual_hscroll s) hscroll);
          (v, rv) = consume_scroll_integer (f32_add (residual_vscroll s) vscroll);
          s' = s\<lparr>residual_hscroll := rh, residual_vscroll := rv\<rparr>
      in if h = 0 \<and> v = 0 then (None, s')
         else (Some (HidReport_new HID_ID_MOUSE
                ((replicate MOUSE_REPORT_SIZE 0)[0 := 0, 3 := v, 4 := h])), s'))"

definition mouse_to_input_message :: "HidReport \<Rightarrow> ControlMessage res" where
  "mouse_to_input_message r =
     (if hr_hid_id r \<noteq> HID_ID_MOUSE then Inl Panicked else Inr (report_to_input r))"

definition click_message :: "u8 \<Rightarrow> ControlMessage res" where
  "click_message buttons_state = mouse_to_input_message (generate_input_from_click buttons_state)"

definition motion_message :: "i32 \<Rightarrow> i32 \<Rightarrow> u8 \<Rightarrow> ControlMessage res" where
  "motion_message xrel yrel buttons_state =
     mouse_to_input_message (generate_input_from_motion xrel yrel buttons_state)"

definition mouse_hid_id :: "MouseHid \<Rightarrow> u16" where
  "mouse_hid_id s = HID_ID_MOUSE"

definition mouse_open_message :: "MouseHid \<Rightarrow> byte list option \<Rightarrow> ControlMessage res" where
  "mouse_open_message s nm = Inr (UhidCreate
     \<lparr>uc_id = HID_ID_MOUSE, uc_vendor_id = 0, uc_product_id = 0, uc_name = None,
      uc_report_desc = MOUSE_REPORT_DESC\<rparr>)"

definition mouse_close_message :: "MouseHid \<Rightarrow> ControlMessage res" where
  "mouse_close_message s = Inr (UhidDestroy HID_ID_MOUSE)"

interpretation mouse: hid_device mouse_hid_id mouse_open_message mouse_close_message
  MOUSE_REPORT_SIZE MOUSE_REPORT_DESC
  by unfold_locales (simp_all add: mouse_hid_id_def mouse_open_message_def
      mouse_close_message_def mouse_input_bits descriptor_sizes)

section \<open>Buttons and motion\<close>

lemma buttons_byte_mask: "buttons_byte b = b AND 0x1F"
proof -
  have t: "b AND 1 \<noteq> 0 \<longleftrightarrow> bit b 0" "b AND 2 \<noteq> 0 \<longleftrightarrow> bit b 1" "b AND 4 \<noteq> 0 \<longleftrightarrow> bit b 2"
    "b AND 8 \<noteq> 0 \<longleftrightarrow> bit b 3" "b AND 0x10 \<noteq> 0 \<longleftrightarrow> bit b 4"
    using and_exp_eq_0_iff_not_bit [of b 0] and_exp_eq_0_iff_not_bit [of b 1]
      and_exp_eq_0_iff_not_bit [of b 2] and_exp_eq_0_iff_not_bit [of b 3]
      and_exp_eq_0_iff_not_bit [of b 4]
    by simp_all
  show ?thesis
  proof (rule bit_word_eqI)
    fix n
    assume "n < LENGTH(8)"
    then have "n = 0 \<or> n = 1 \<or> n = 2 \<or> n = 3 \<or> n = 4 \<or> n = 5 \<or> n = 6 \<or> n = 7"
      by auto
    then show "bit (buttons_byte b) n = bit (b AND 0x1F) n"
      unfolding buttons_byte_def Let_def
      by (elim disjE) (simp_all add: t bit_simps)
  qed
qed

lemma sint_clamp_i8: "sint (clamp_i8 v) = max (-127) (min 127 (sint v))"
proof -
  have "sint (ucast v :: u8) = sint v" if "-127 \<le> sint v" "sint v \<le> 127"
  proof -
    have "sint (ucast v :: u8) = signed_take_bit 7 (uint v)"
      by (simp add: sint_uint unsigned_ucast_eq signed_take_bit_take_bit)
    also have "\<dots> = signed_take_bit 7 (sint v)"
      by (simp add: sint_uint signed_take_bit_signed_take_bit)
    also have "\<dots> = sint v"
      using that by (intro signed_take_bit_int_eq_self) auto
    finally show ?thesis .
  qed
  then show ?thesis
    by (auto simp: clamp_i8_def)
qed

section \<open>The scroll accumulator\<close>

definition clamp127 :: "f32 \<Rightarrow> rat" where
  \<comment> \<open>reference: what the accumulator holds after a delta, limited to the range of a report byte\<close>
  "clamp127 v = (case v of Fin x \<Rightarrow> max (-127) (min 127 x) | Inf neg \<Rightarrow> (if neg then -127 else 127) | NaN \<Rightarrow> 0)"

definition residual_ok :: "f32 \<Rightarrow> bool" where
  "residual_ok v = (case v of Fin x \<Rightarrow> representable x \<and> \<bar>x\<bar> < 1 | _ \<Rightarrow> False)"

lemma sint_word_of_int_small:
  assumes "-127 \<le> t" "t \<le> 127"
  shows "sint (word_of_int t :: u8) = t"
proof -
  have "sint (word_of_int t :: u8) = signed_take_bit 7 t"
    by (simp add: sint_sbintrunc')
  also have "\<dots> = t"
    using assms by (intro signed_take_bit_int_eq_self) auto
  finally show ?thesis .
qed

lemma rat_trunc_of_int [simp]: "rat_trunc (of_int t) = t"
  by (simp add: rat_trunc_def)

lemma rat_trunc_127:
  assumes "\<bar>y\<bar> \<le> 127"
  shows "-127 \<le> rat_trunc y" "rat_trunc y \<le> 127"
proof -
  have "\<bar>of_int (rat_trunc y) :: rat\<bar> \<le> of_int 127"
    using rat_trunc_abs(1) [of y] assms by simp
  then have "\<bar>rat_trunc y\<bar> \<le> 127"
    by (simp only: of_int_abs [symmetric] of_int_le_iff)
  then show "-127 \<le> rat_trunc y" "rat_trunc y \<le> 127"
    by auto
qed

lemma f32_add_ok:
  assumes "f32_add a b = Fin x"
  shows "representable x"
  using assms by (cases "(a, b)" rule: f32_add.cases) (auto dest: f32_round_result split: if_splits)

lemma consume_in_range:
  assumes "representable y" "\<bar>y\<bar> \<le> 127"
  shows "consume_scroll_integer (Fin y) =
    (word_of_int (rat_trunc y), Fin (y - of_int (rat_trunc y)))"
proof -
  have "f32_clamp (Fin y) (-127) 127 = Fin y"
    using assms(2) by auto
  moreover have "f32_as_i8 (f32_trunc (Fin y)) = word_of_int (rat_trunc y)"
    using rat_trunc_127 [OF assms(2)] by (simp add: f32_as_i8_def)
  ultimately show ?thesis
    using f32_sub_trunc [OF assms(1)] sint_word_of_int_small [OF rat_trunc_127 [OF assms(2)]]
    by (simp add: consume_scroll_integer_def Let_def del: of_int_sint)
qed

lemma consume_clamped:
  assumes "v \<noteq> NaN" and "\<And>x. v = Fin x \<Longrightarrow> representable x"
  shows "representable (clamp127 v)" "\<bar>clamp127 v\<bar> \<le> 127"
    "consume_scroll_integer v = consume_scroll_integer (Fin (clamp127 v))"
proof -
  have r: "representable 127" "representable (- 127)"
    using representable_int [of 127] representable_int [of "- 127"] by simp_all
  show "representable (clamp127 v)"
    using assms r by (cases v) (auto simp: clamp127_def max_def min_def)
  show "\<bar>clamp127 v\<bar> \<le> 127"
    by (cases v) (auto simp: clamp127_def)
  have "f32_clamp v (-127) 127 = Fin (clamp127 v)"
    using assms(1) by (cases v) (auto simp: clamp127_def)
  moreover have "f32_clamp (Fin (clamp127 v)) (-127) 127 = Fin (clamp127 v)"
    using \<open>\<bar>clamp127 v\<bar> \<le> 127\<close> by auto
  ultimately show "consume_scroll_integer v = consume_scroll_integer (Fin (clamp127 v))"
    by (simp add: consume_scroll_integer_def)
qed

lemma consume_conserves:
  assumes "v \<noteq> NaN" and "\<And>x. v = Fin x \<Longrightarrow> representable x"
  shows "\<exists>c r. consume_scroll_integer v = (c, Fin r) \<and> of_int (sint c) + r = clamp127 v \<and>
    \<bar>sint c\<bar> \<le> 127 \<and> residual_ok (Fin r)"
proof -
  let ?y = "clamp127 v"
  have y: "representable ?y" "\<bar>?y\<bar> \<le> 127"
    "consume_scroll_integer v = consume_scroll_integer (Fin ?y)"
    using consume_clamped [OF assms] by auto
  have "sint (word_of_int (rat_trunc ?y) :: u8) = rat_trunc ?y" "\<bar>rat_trunc ?y\<bar> \<le> 127"
    using sint_word_of_int_small [OF rat_trunc_127 [OF y(2)]] rat_trunc_127 [OF y(2)] by auto
  then show ?thesis
    using y consume_in_range [OF y(1,2)] representable_fraction [OF y(1)] rat_trunc_abs(2) [of ?y]
    by (intro exI [of _ "word_of_int (rat_trunc ?y)"] exI [of _ "?y - of_int (rat_trunc ?y)"])
      (simp add: residual_ok_def)
qed

lemma f32_add_not_NaN: "residual_ok r \<Longrightarrow> d \<noteq> NaN \<Longrightarrow> f32_add r d \<noteq> NaN"
  by (cases r; cases d) (auto simp: residual_ok_def f32_round_def Let_def)

definition scroll_report :: "u8 \<Rightarrow> u8 \<Rightarrow> HidReport option" where
  "scroll_report h v = (if h = 0 \<and> v = 0 then None else Some (HidReport_new HID_ID_MOUSE [0, 0, 0, v, h]))"

lemma replicate_5_wheel: "(replicate 5 (0 :: byte))[0 := 0, 3 := v, 4 := h] = [0, 0, 0, v, h]"
  by (simp add: numeral_eq_Suc)

lemma scroll_conserves:
  assumes "residual_ok (residual_hscroll s)" "residual_ok (residual_vscroll s)" "dh \<noteq> NaN" "dv \<noteq> NaN"
  shows "\<exists>h v rh rv. generate_input_from_scroll dh dv s =
      (scroll_report h v, \<lparr>residual_hscroll = Fin rh, residual_vscroll = Fin rv\<rparr>) \<and>
    of_int (sint h) + rh = clamp127 (f32_add (residual_hscroll s) dh) \<and> \<bar>sint h\<bar> \<le> 127 \<and> residual_ok (Fin rh) \<and>
    of_int (sint v) + rv = clamp127 (f32_add (residual_vscroll s) dv) \<and> \<bar>sint v\<bar> \<le> 127 \<and> residual_ok (Fin rv)"
proof -
  obtain h rh where h: "consume_scroll_integer (f32_add (residual_hscroll s) dh) = (h, Fin rh)"
    "of_int (sint h) + rh = clamp127 (f32_add (residual_hscroll s) dh)" "\<bar>sint h\<bar> \<le> 127" "residual_ok (Fin rh)"
    using consume_conserves [OF f32_add_not_NaN [OF assms(1,3)]] f32_add_ok by blast
  obtain v rv where v: "consume_scroll_integer (f32_add (residual_vscroll s) dv) = (v, Fin rv)"
    "of_int (sint v) + rv = clamp127 (f32_add (residual_vscroll s) dv)" "\<bar>sint v\<bar> \<le> 127" "residual_ok (Fin rv)"
    using consume_conserves [OF f32_add_not_NaN [OF assms(2,4)]] f32_add_ok by blast
  have "generate_input_from_scroll dh dv s =
      (scroll_report h v, \<lparr>residual_hscroll = Fin rh, residual_vscroll = Fin rv\<rparr>)"
    by (simp add: generate_input_from_scroll_def h(1) v(1) scroll_report_def replicate_5_wheel Let_def)
  then show ?thesis
    using h v by blast
qed

lemma scroll_NaN_sticks:
  \<comment> \<open>a NaN delta disables its axis for good\<close>
  assumes "residual_vscroll s = NaN"
  shows "residual_vscroll (snd (generate_input_from_scroll dh dv s)) = NaN"
    and "\<exists>h. fst (generate_input_from_scroll dh dv s) = scroll_report h 0"
proof -
  have "consume_scroll_integer NaN = (0, NaN)"
    by (simp add: consume_scroll_integer_def f32_as_i8_def f32_sub_def)
  then show "residual_vscroll (snd (generate_input_from_scroll dh dv s)) = NaN"
    "\<exists>h. fst (generate_input_from_scroll dh dv s) = scroll_report h 0"
    using assms by (auto simp: generate_input_from_scroll_def scroll_report_def replicate_5_wheel
        Let_def split: prod.splits)
qed

section \<open>Runs of scroll events\<close>

fun scroll_run :: "(f32 \<times> f32) list \<Rightarrow> MouseHid \<Rightarrow> HidReport list \<times> MouseHid" where
  "scroll_run [] s = ([], s)"
| "scroll_run ((dh, dv) # es) s =
     (let (r, s') = generate_input_from_scroll dh dv s; (rs, s'') = scroll_run es s'
      in ((case r of None \<Rightarrow> rs | Some x \<Rightarrow> x # rs), s''))"

definition total_at :: "nat \<Rightarrow> HidReport list \<Rightarrow> int" where
  "total_at i rs = sum_list (map (\<lambda>r. sint (report_bytes r ! i)) rs)"

definition on_grid :: "rat \<Rightarrow> bool" where
  \<comment> \<open>multiples of 2^-10, which every partial sum below 2^14 represents exactly\<close>
  "on_grid q \<longleftrightarrow> (\<exists>i :: int. q = of_int i / 1024)"

lemma on_grid_add: "on_grid a \<Longrightarrow> on_grid b \<Longrightarrow> on_grid (a + b)"
  unfolding on_grid_def by (metis add_divide_distrib of_int_add)

lemma on_grid_minus_int: "on_grid a \<Longrightarrow> on_grid (a - of_int c)"
proof -
  assume "on_grid a"
  then obtain i where "a = of_int i / 1024"
    by (auto simp: on_grid_def)
  then have "a - of_int c = of_int (i - 1024 * c) / 1024"
    by (simp add: field_simps)
  then show ?thesis
    unfolding on_grid_def by blast
qed

lemma on_grid_representable:
  assumes "on_grid q" "\<bar>q\<bar> < 128"
  shows "representable q"
proof -
  obtain i where q: "q = of_int i / 1024"
    using assms(1) by (auto simp: on_grid_def)
  then have "of_int \<bar>i\<bar> < (of_int (128 * 1024) :: rat)"
    using assms(2) by simp
  then have "\<bar>i\<bar> < 128 * 1024"
    by (simp only: of_int_less_iff)
  then have "\<bar>i\<bar> < 2 ^ 24"
    by simp
  then show ?thesis
    unfolding representable_def q by (intro exI [of _ i] exI [of _ "- 10"]) (simp add: power_int_def field_simps)
qed

lemma add_on_grid:
  assumes "on_grid r" "\<bar>r\<bar> < 1" "on_grid d" "\<bar>d\<bar> \<le> 126"
  shows "f32_add (Fin r) (Fin d) = Fin (r + d)" "clamp127 (f32_add (Fin r) (Fin d)) = r + d"
proof -
  have "\<bar>r + d\<bar> < 127"
    using assms(2,4) by linarith
  then have "representable (r + d)"
    using on_grid_representable [OF on_grid_add [OF assms(1,3)]] by simp
  then show "f32_add (Fin r) (Fin d) = Fin (r + d)"
    by (simp add: f32_round_representable)
  then show "clamp127 (f32_add (Fin r) (Fin d)) = r + d"
    using \<open>\<bar>r + d\<bar> < 127\<close> by (simp add: clamp127_def)
qed

definition grid_delta :: "rat \<Rightarrow> bool" where
  "grid_delta d \<longleftrightarrow> on_grid d \<and> \<bar>d\<bar> \<le> 126"

definition grid_state :: "MouseHid \<Rightarrow> rat \<Rightarrow> rat \<Rightarrow> bool" where
  "grid_state s rh rv \<longleftrightarrow> s = \<lparr>residual_hscroll = Fin rh, residual_vscroll = Fin rv\<rparr> \<and>
     on_grid rh \<and> \<bar>rh\<bar> < 1 \<and> on_grid rv \<and> \<bar>rv\<bar> < 1"

lemma scroll_step_exact:
  assumes "grid_state s rh rv" "grid_delta dh" "grid_delta dv"
  shows "\<exists>h v rh' rv'. generate_input_from_scroll (Fin dh) (Fin dv) s =
      (scroll_report h v, \<lparr>residual_hscroll = Fin rh', residual_vscroll = Fin rv'\<rparr>) \<and>
    grid_state \<lparr>residual_hscroll = Fin rh', residual_vscroll = Fin rv'\<rparr> rh' rv' \<and>
    of_int (sint h) + rh' = rh + dh \<and> of_int (sint v) + rv' = rv + dv"
proof -
  have s: "residual_hscroll s = Fin rh" "residual_vscroll s = Fin rv"
    and r: "on_grid rh" "\<bar>rh\<bar> < 1" "on_grid rv" "\<bar>rv\<bar> < 1"
    and d: "on_grid dh" "\<bar>dh\<bar> \<le> 126" "on_grid dv" "\<bar>dv\<bar> \<le> 126"
    using assms by (auto simp: grid_state_def grid_delta_def)
  have ok: "residual_ok (residual_hscroll s)" "residual_ok (residual_vscroll s)"
    using s r on_grid_representable by (auto simp: residual_ok_def)
  obtain h v rh' rv' where g: "generate_input_from_scroll (Fin dh) (Fin dv) s =
      (scroll_report h v, \<lparr>residual_hscroll = Fin rh', residual_vscroll = Fin rv'\<rparr>)"
    and eqs: "of_int (sint h) + rh' = rh + dh" "of_int (sint v) + rv' = rv + dv"
    and r': "\<bar>rh'\<bar> < 1" "\<bar>rv'\<bar> < 1"
    using scroll_conserves [OF ok f32.distinct(4) f32.distinct(4), of dh dv]
      add_on_grid(2) [OF r(1,2) d(1,2)] add_on_grid(2) [OF r(3,4) d(3,4)]
    unfolding s residual_ok_def by (auto simp del: of_int_sint)
  have "rh' = rh + dh - of_int (sint h)" "rv' = rv + dv - of_int (sint v)"
    using eqs by linarith+
  then have "on_grid rh'" "on_grid rv'"
    using on_grid_add [OF r(1) d(1)] on_grid_add [OF r(3) d(3)] on_grid_minus_int by (auto simp del: of_int_sint)
  then show ?thesis
    using g eqs r' by (auto simp: grid_state_def simp del: of_int_sint)
qed

lemma total_at_report:
  "total_at 4 (case scroll_report h v of None \<Rightarrow> rs | Some x \<Rightarrow> x # rs) = sint h + total_at 4 rs"
  "total_at 3 (case scroll_report h v of None \<Rightarrow> rs | Some x \<Rightarrow> x # rs) = sint v + total_at 3 rs"
  by (simp_all add: scroll_report_def total_at_def)

lemma scroll_run_grid:
  assumes "grid_state s rh rv" "list_all (\<lambda>(dh, dv). grid_delta dh \<and> grid_delta dv) es"
    and "scroll_run (map (\<lambda>(dh, dv). (Fin dh, Fin dv)) es) s = (rs, s')"
  shows "\<exists>rh' rv'. grid_state s' rh' rv' \<and>
    of_int (total_at 4 rs) + rh' = rh + sum_list (map fst es) \<and>
    of_int (total_at 3 rs) + rv' = rv + sum_list (map snd es)"
  using assms
proof (induction es arbitrary: s rh rv rs)
  case Nil
  then show ?case
    by (auto simp: total_at_def)
next
  case (Cons e es)
  obtain dh dv where e: "e = (dh, dv)"
    by (cases e)
  obtain h v rh1 rv1 where g: "generate_input_from_scroll (Fin dh) (Fin dv) s =
      (scroll_report h v, \<lparr>residual_hscroll = Fin rh1, residual_vscroll = Fin rv1\<rparr>)"
    and gs: "grid_state \<lparr>residual_hscroll = Fin rh1, residual_vscroll = Fin rv1\<rparr> rh1 rv1"
    and eqs: "of_int (sint h) + rh1 = rh + dh" "of_int (sint v) + rv1 = rv + dv"
    using scroll_step_exact [OF Cons.prems(1), of dh dv] Cons.prems(2) by (auto simp: e simp del: of_int_sint)
  obtain rs1 where run: "scroll_run (map (\<lambda>(dh, dv). (Fin dh, Fin dv)) es)
      \<lparr>residual_hscroll = Fin rh1, residual_vscroll = Fin rv1\<rparr> = (rs1, s')"
    and rs: "rs = (case scroll_report h v of None \<Rightarrow> rs1 | Some x \<Rightarrow> x # rs1)"
    using Cons.prems(3) by (auto simp: e g Let_def split: prod.splits)
  obtain rh' rv' where "grid_state s' rh' rv'"
    and "of_int (total_at 4 rs1) + rh' = rh1 + sum_list (map fst es)"
    and "of_int (total_at 3 rs1) + rv' = rv1 + sum_list (map snd es)"
    using Cons.IH [OF gs _ run] Cons.prems(2) by auto
  then show ?case
    using eqs unfolding rs total_at_report e
    by (intro exI [of _ rh'] exI [of _ rv']) (simp add: algebra_simps del: of_int_sint)
qed

lemma mouse_new_grid: "grid_state mouse_new 0 0"
  by (auto simp: grid_state_def mouse_new_def on_grid_def intro: exI [of _ 0])

text \<open>
  Slow scrolling loses nothing: over any run of scroll events whose deltas are
  multiples of 1/1024 of at most 126 steps, the wheel (and pan) bytes of the emitted reports sum up,
  together with the residual kept in the driver, exactly to the sum of the deltas, in the binary32
  arithmetic of the code, and the residual stays below one step.
\<close>

theorem scroll_run_exact:
  assumes "list_all (\<lambda>(dh, dv). grid_delta dh \<and> grid_delta dv) es"
    and "scroll_run (map (\<lambda>(dh, dv). (Fin dh, Fin dv)) es) mouse_new = (rs, s')"
  shows "\<exists>rh rv. s' = \<lparr>residual_hscroll = Fin rh, residual_vscroll = Fin rv\<rparr> \<and>
    \<bar>rh\<bar> < 1 \<and> \<bar>rv\<bar> < 1 \<and>
    of_int (total_at 4 rs) + rh = sum_list (map fst es) \<and>
    of_int (total_at 3 rs) + rv = sum_list (map snd es)"
  using scroll_run_grid [OF mouse_new_grid assms] by (auto simp: grid_state_def)

lemma half_on_grid: "grid_delta (1 / 2)" "grid_delta 0" "grid_delta (3 / 4)"
  by (auto simp: grid_delta_def on_grid_def intro: exI [of _ 512] exI [of _ 0] exI [of _ 768])

theorem scroll_run_exact_witness:
  "\<exists>rv. snd (scroll_run [(Fin 0, Fin (1 / 2)), (Fin 0, Fin (3 / 4))] mouse_new) =
      \<lparr>residual_hscroll = Fin 0, residual_vscroll = Fin rv\<rparr> \<and> \<bar>rv\<bar> < 1 \<and>
    of_int (total_at 3 (fst (scroll_run [(Fin 0, Fin (1 / 2)), (Fin 0, Fin (3 / 4))] mouse_new))) + rv = 5 / 4"
proof -
  let ?es = "[(0, 1 / 2), (0, 3 / 4)] :: (rat \<times> rat) list"
  obtain rs s' where run: "scroll_run (map (\<lambda>(dh, dv). (Fin dh, Fin dv)) ?es) mouse_new = (rs, s')"
    by fastforce
  obtain rh rv where r: "s' = \<lparr>residual_hscroll = Fin rh, residual_vscroll = Fin rv\<rparr>" "\<bar>rh\<bar> < 1" "\<bar>rv\<bar> < 1"
    "of_int (total_at 4 rs) + rh = 0" "of_int (total_at 3 rs) + rv = 5 / 4"
    using scroll_run_exact [OF _ run] half_on_grid by auto
  have "\<bar>of_int (total_at 4 rs) :: rat\<bar> < of_int 1"
    using r(2,4) by linarith
  then have "\<bar>total_at 4 rs\<bar> < 1"
    by (simp only: of_int_abs [symmetric] of_int_less_iff)
  then have "rh = 0"
    using r(4) by simp
  then show ?thesis
    using run r by auto
qed

text \<open>
  Motion and button bytes: the relative motion sent is the signed 32-bit delta clamped to
  the range -127..127 the report descriptor declares, and only the five declared button bits are set.
\<close>

theorem motion_report_bounds:
  "\<exists>dx dy. motion_message xrel yrel buttons = Inr (input_of HID_ID_MOUSE [buttons AND 0x1F, dx, dy, 0, 0]) \<and>
     sint dx = max (-127) (min 127 (sint xrel)) \<and> sint dy = max (-127) (min 127 (sint yrel))"
proof -
  have "(replicate 5 (0 :: byte))[0 := buttons_byte buttons, 1 := clamp_i8 xrel, 2 := clamp_i8 yrel] =
      [buttons AND 0x1F, clamp_i8 xrel, clamp_i8 yrel, 0, 0]"
    by (simp add: buttons_byte_mask numeral_eq_Suc)
  then show ?thesis
    by (intro exI [of _ "clamp_i8 xrel"] exI [of _ "clamp_i8 yrel"])
      (simp add: motion_message_def mouse_to_input_message_def generate_input_from_motion_def sint_clamp_i8)
qed

end
