(* ===== verification/Gamepad.thy ===== *)
theory Gamepad
  imports Hid
begin

text \<open>
  \<^verbatim>\<open>src/src/hid/gamepad.rs\<close>: eight gamepad slots, their allocation, and the update operations. Each
  update comes as a raw method on a slot index that suppresses reports that would repeat the last one,
  a variant that wraps the report in a message, and a method on a gamepad id that always reports. The
  lemmas show that all of them implement one pure update of the slot's state, that ids stay unique,
  and that the 15-byte report decodes to the state.
\<close>

section \<open>State\<close>

definition GAMEPAD_REPORT_SIZE :: nat where [simp]: "GAMEPAD_REPORT_SIZE = 15"
definition BUTTONS_MASK :: u32 where "BUTTONS_MASK = 0xFFFF"
definition BUTTONS_ALL_MASK :: u32 where "BUTTONS_ALL_MASK = BUTTONS_MASK OR 0x000F0000"
definition SLOT_FREE_BUTTONS :: u32 where [simp]: "SLOT_FREE_BUTTONS = 0"

record GamepadSlot =
  gs_gamepad_id :: u32
  gs_buttons :: u32
  gs_left_x :: u16
  gs_left_y :: u16
  gs_right_x :: u16
  gs_right_y :: u16
  gs_left_trigger :: u16
  gs_right_trigger :: u16

record GamepadHid =
  slots :: "GamepadSlot list" \<comment> \<open>\<open>[GamepadSlot; MAX_GAMEPADS]\<close>\<close>

definition slot_default :: GamepadSlot where
  "slot_default = \<lparr>gs_gamepad_id = 0, gs_buttons = 0, gs_left_x = 0, gs_left_y = 0, gs_right_x = 0,
     gs_right_y = 0, gs_left_trigger = 0, gs_right_trigger = 0\<rparr>"

definition gamepad_new :: GamepadHid where
  "gamepad_new = \<lparr>slots = map (\<lambda>s. s\<lparr>gs_gamepad_id := GAMEPAD_ID_INVALID\<rparr>) (replicate MAX_GAMEPADS slot_default)\<rparr>"

definition axis_rescale :: "i16 \<Rightarrow> u16" where
  "axis_rescale v = ucast (scast v + 0x8000 :: i32)"

definition trigger_value :: "i16 \<Rightarrow> u16" where
  \<comment> \<open>\<open>(v.max(0) as u16).min(0x7FFF)\<close>\<close>
  "trigger_value v = min (if sint v < 0 then 0 else v) 0x7FFF"

definition slot_hid_id :: "nat \<Rightarrow> u16" where
  "slot_hid_id slot_idx = HID_ID_GAMEPAD_FIRST + word_of_nat slot_idx"

definition free_slot :: "GamepadHid \<Rightarrow> nat option" where
  "free_slot g = position (\<lambda>s. gs_gamepad_id s = GAMEPAD_ID_INVALID) (slots g)"

definition find_slot :: "u32 \<Rightarrow> GamepadHid \<Rightarrow> nat option" where
  "find_slot gid g = position (\<lambda>s. gs_gamepad_id s = gid) (slots g)"

definition build_create :: "u16 \<Rightarrow> byte list option \<Rightarrow> ControlMessage res" where
  "build_create hid_id nm = Inr (UhidCreate
     \<lparr>uc_id = hid_id, uc_vendor_id = 0x045e, uc_product_id = 0x028e, uc_name = nm,
      uc_report_desc = GAMEPAD_REPORT_DESC\<rparr>)"

definition create_message :: "u16 \<Rightarrow> byte list option \<Rightarrow> ControlMessage" where
  "create_message hid_id nm = UhidCreate
     \<lparr>uc_id = hid_id, uc_vendor_id = 0x045e, uc_product_id = 0x028e, uc_name = nm,
      uc_report_desc = GAMEPAD_REPORT_DESC\<rparr>"

section \<open>Allocation\<close>

definition gamepad_open :: "u32 \<Rightarrow> byte list option \<Rightarrow> GamepadHid \<Rightarrow> (u16 \<times> ControlMessage) res \<times> GamepadHid" where
  "gamepad_open gid nm g =
     (if gid = GAMEPAD_ID_INVALID then (Inl (Err (UnknownGamepad gid)), g)
      else case find_slot gid g of
        Some idx \<Rightarrow> (map_sum id (Pair (slot_hid_id idx)) (build_create (slot_hid_id idx) nm), g)
      | None \<Rightarrow>
          (case free_slot g of
             None \<Rightarrow> (Inl (Err NoGamepadSlot), g)
           | Some slot_idx \<Rightarrow>
               (let hid_id = slot_hid_id slot_idx;
                    slot = \<lparr>gs_gamepad_id = gid, gs_buttons = SLOT_FREE_BUTTONS,
                      gs_left_x = axis_rescale 0, gs_left_y = axis_rescale 0,
                      gs_right_x = axis_rescale 0, gs_right_y = axis_rescale 0,
                      gs_left_trigger = 0, gs_right_trigger = 0\<rparr>;
                    g' = g\<lparr>slots := (slots g)[slot_idx := slot]\<rparr>
                in (map_sum id (Pair hid_id) (build_create hid_id nm), g'))))"

definition release_slot :: "nat \<Rightarrow> GamepadHid \<Rightarrow> GamepadHid" where
  \<comment> \<open>\<open>self.slots[slot_idx].gamepad_id = GAMEPAD_ID_INVALID\<close>\<close>
  "release_slot idx g = g\<lparr>slots := (slots g)[idx := (slots g ! idx)\<lparr>gs_gamepad_id := GAMEPAD_ID_INVALID\<rparr>]\<rparr>"

definition gamepad_close :: "u32 \<Rightarrow> GamepadHid \<Rightarrow> ControlMessage res \<times> GamepadHid" where
  "gamepad_close gid g =
     (if gid = GAMEPAD_ID_INVALID then (Inl (Err (UnknownGamepad gid)), g)
      else case find_slot gid g of
        None \<Rightarrow> (Inl (Err (UnknownGamepad gid)), g)
      | Some slot_idx \<Rightarrow> (Inr (UhidDestroy (slot_hid_id slot_idx)), release_slot slot_idx g))"

definition close_slot_idx :: "nat \<Rightarrow> GamepadHid \<Rightarrow> ControlMessage res \<times> GamepadHid" where
  "close_slot_idx slot_idx g =
     (if MAX_GAMEPADS \<le> slot_idx then (Inl (Err (UnknownGamepad 0)), g)
      else if gs_gamepad_id (slots g ! slot_idx) = GAMEPAD_ID_INVALID then (Inl (Err (UnknownGamepad 0)), g)
      else (Inr (UhidDestroy (slot_hid_id slot_idx)), release_slot slot_idx g))"

definition active_count :: "GamepadHid \<Rightarrow> nat" where
  "active_count g = length (filter (\<lambda>s. gs_gamepad_id s \<noteq> GAMEPAD_ID_INVALID) (slots g))"

definition slot_from_hid_id :: "u16 \<Rightarrow> nat option" where
  "slot_from_hid_id hid_id =
     (if HID_ID_GAMEPAD_FIRST \<le> hid_id \<and> hid_id \<le> HID_ID_GAMEPAD_LAST
      then Some (unat (hid_id - HID_ID_GAMEPAD_FIRST)) else None)"

section \<open>Reports\<close>

definition slot_to_payload :: "GamepadSlot \<Rightarrow> byte list" where
  "slot_to_payload slot =
     to_le_bytes (gs_left_x slot) @ to_le_bytes (gs_left_y slot) @
     to_le_bytes (gs_right_x slot) @ to_le_bytes (gs_right_y slot) @
     to_le_bytes (gs_left_trigger slot) @ to_le_bytes (gs_right_trigger slot) @
     to_le_bytes (ucast (gs_buttons slot AND BUTTONS_MASK) :: u16) @ [dpad_hat_value (gs_buttons slot)]"

definition slot_to_input_message_from_payload :: "u16 \<Rightarrow> byte list \<Rightarrow> ControlMessage" where
  "slot_to_input_message_from_payload hid_id payload =
     UhidInput \<lparr>ui_id = hid_id, ui_size = word_of_nat GAMEPAD_REPORT_SIZE, ui_data = payload\<rparr>"

definition slot_to_input_message :: "u16 \<Rightarrow> GamepadSlot \<Rightarrow> ControlMessage" where
  "slot_to_input_message hid_id slot =
     UhidInput \<lparr>ui_id = hid_id, ui_size = word_of_nat GAMEPAD_REPORT_SIZE, ui_data = slot_to_payload slot\<rparr>"

definition slot_to_input_message_from_slot_idx :: "nat \<Rightarrow> GamepadHid \<Rightarrow> ControlMessage" where
  "slot_to_input_message_from_slot_idx slot_idx g =
     slot_to_input_message (slot_hid_id slot_idx) (slots g ! slot_idx)"

section \<open>Updates by slot index\<close>

text \<open>
  The frame all \<open>*_slot_idx_raw\<close> methods share: index the slot (out of bounds panics), return \<open>None\<close>
  when the update leaves it as it is, else store it and return the new report.
\<close>

definition update_slot ::
    "(GamepadSlot \<Rightarrow> GamepadSlot option) \<Rightarrow> nat \<Rightarrow> GamepadHid \<Rightarrow> (u16 \<times> byte list) option res \<times> GamepadHid" where
  "update_slot f slot_idx g =
     (if slot_idx < length (slots g)
      then case f (slots g ! slot_idx) of
          None \<Rightarrow> (Inr None, g)
        | Some slot \<Rightarrow> (Inr (Some (slot_hid_id slot_idx, slot_to_payload slot)),
            g\<lparr>slots := (slots g)[slot_idx := slot]\<rparr>)
      else (Inl Panicked, g))"

definition full_state_event_slot_idx_raw where
  "full_state_event_slot_idx_raw slot_idx buttons left_x left_y right_x right_y left_trigger right_trigger =
     update_slot (\<lambda>slot.
       let next_buttons = buttons AND BUTTONS_ALL_MASK;
           lx = axis_rescale left_x; ly = axis_rescale left_y;
           rx = axis_rescale right_x; ry = axis_rescale right_y;
           lt = trigger_value left_trigger; rt = trigger_value right_trigger
       in if gs_buttons slot = next_buttons \<and> gs_left_x slot = lx \<and> gs_left_y slot = ly \<and>
            gs_right_x slot = rx \<and> gs_right_y slot = ry \<and> gs_left_trigger slot = lt \<and> gs_right_trigger slot = rt
          then None
          else Some (slot\<lparr>gs_buttons := next_buttons, gs_left_x := lx, gs_left_y := ly, gs_right_x := rx,
            gs_right_y := ry, gs_left_trigger := lt, gs_right_trigger := rt\<rparr>)) slot_idx"

definition buttons_event_slot_idx_raw where
  "buttons_event_slot_idx_raw slot_idx buttons =
     update_slot (\<lambda>slot.
       let nxt = buttons AND BUTTONS_ALL_MASK
       in if gs_buttons slot = nxt then None else Some (slot\<lparr>gs_buttons := nxt\<rparr>)) slot_idx"

definition button_event_slot_idx_raw where
  "button_event_slot_idx_raw slot_idx button pressed =
     update_slot (\<lambda>slot.
       let b = button_bits button; currently_pressed = (gs_buttons slot AND b \<noteq> 0)
       in if currently_pressed = pressed then None
          else if pressed then Some (slot\<lparr>gs_buttons := gs_buttons slot OR b\<rparr>)
          else Some (slot\<lparr>gs_buttons := gs_buttons slot AND NOT b\<rparr>)) slot_idx"

definition axis_event_slot_idx_raw where
  "axis_event_slot_idx_raw slot_idx axis v =
     update_slot (\<lambda>slot. case axis of
         LeftX \<Rightarrow> (let new = axis_rescale v in
           if gs_left_x slot = new then None else Some (slot\<lparr>gs_left_x := new\<rparr>))
       | LeftY \<Rightarrow> (let new = axis_rescale v in
           if gs_left_y slot = new then None else Some (slot\<lparr>gs_left_y := new\<rparr>))
       | RightX \<Rightarrow> (let new = axis_rescale v in
           if gs_right_x slot = new then None else Some (slot\<lparr>gs_right_x := new\<rparr>))
       | RightY \<Rightarrow> (let new = axis_rescale v in
           if gs_right_y slot = new then None else Some (slot\<lparr>gs_right_y := new\<rparr>))
       | LeftTrigger \<Rightarrow> (let new = trigger_value v in
           if gs_left_trigger slot = new then None else Some (slot\<lparr>gs_left_trigger := new\<rparr>))
       | RightTrigger \<Rightarrow> (let new = trigger_value v in
           if gs_right_trigger slot = new then None else Some (slot\<lparr>gs_right_trigger := new\<rparr>))) slot_idx"

definition left_stick_raw_slot_idx_raw where
  "left_stick_raw_slot_idx_raw slot_idx x y =
     update_slot (\<lambda>slot.
       let lx = axis_rescale x; ly = axis_rescale y
       in if gs_left_x slot = lx \<and> gs_left_y slot = ly then None
          else Some (slot\<lparr>gs_left_x := lx, gs_left_y := ly\<rparr>)) slot_idx"

definition right_stick_raw_slot_idx_raw where
  "right_stick_raw_slot_idx_raw slot_idx x y =
     update_slot (\<lambda>slot.
       let rx = axis_rescale x; ry = axis_rescale y
       in if gs_right_x slot = rx \<and> gs_right_y slot = ry then None
          else Some (slot\<lparr>gs_right_x := rx, gs_right_y := ry\<rparr>)) slot_idx"

definition triggers_raw_slot_idx_raw where
  "triggers_raw_slot_idx_raw slot_idx left right =
     update_slot (\<lambda>slot.
       let lt = trigger_value left; rt = trigger_value right
       in if gs_left_trigger slot = lt \<and> gs_right_trigger slot = rt then None
          else Some (slot\<lparr>gs_left_trigger := lt, gs_right_trigger := rt\<rparr>)) slot_idx"

definition set_sticks_raw_slot_idx_raw where
  "set_sticks_raw_slot_idx_raw slot_idx left_x left_y right_x right_y left_trigger right_trigger =
     update_slot (\<lambda>slot.
       let lx = axis_rescale left_x; ly = axis_rescale left_y;
           rx = axis_rescale right_x; ry = axis_rescale right_y;
           lt = trigger_value left_trigger; rt = trigger_value right_trigger
       in if gs_left_x slot = lx \<and> gs_left_y slot = ly \<and> gs_right_x slot = rx \<and> gs_right_y slot = ry \<and>
            gs_left_trigger slot = lt \<and> gs_right_trigger slot = rt
          then None
          else Some (slot\<lparr>gs_left_x := lx, gs_left_y := ly, gs_right_x := rx, gs_right_y := ry,
            gs_left_trigger := lt, gs_right_trigger := rt\<rparr>)) slot_idx"

section \<open>Messages by slot index, and by gamepad id\<close>

definition as_message :: "(u16 \<times> byte list) option res \<times> GamepadHid \<Rightarrow> ControlMessage option res \<times> GamepadHid" where
  \<comment> \<open>\<open>.map(|(id, payload)| self.slot_to_input_message_from_payload(id, payload))\<close>\<close>
  "as_message r = (map_sum id (map_option (\<lambda>(i, p). slot_to_input_message_from_payload i p)) (fst r), snd r)"

definition full_state_event_slot_idx where
  "full_state_event_slot_idx slot_idx b lx ly rx ry lt rt g =
     as_message (full_state_event_slot_idx_raw slot_idx b lx ly rx ry lt rt g)"
definition buttons_event_slot_idx where
  "buttons_event_slot_idx slot_idx b g = as_message (buttons_event_slot_idx_raw slot_idx b g)"
definition button_event_slot_idx where
  "button_event_slot_idx slot_idx b p g = as_message (button_event_slot_idx_raw slot_idx b p g)"
definition axis_event_slot_idx where
  "axis_event_slot_idx slot_idx a v g = as_message (axis_event_slot_idx_raw slot_idx a v g)"
definition left_stick_raw_slot_idx where
  "left_stick_raw_slot_idx slot_idx x y g = as_message (left_stick_raw_slot_idx_raw slot_idx x y g)"
definition right_stick_raw_slot_idx where
  "right_stick_raw_slot_idx slot_idx x y g = as_message (right_stick_raw_slot_idx_raw slot_idx x y g)"
definition triggers_raw_slot_idx where
  "triggers_raw_slot_idx slot_idx l r g = as_message (triggers_raw_slot_idx_raw slot_idx l r g)"
definition set_sticks_raw_slot_idx where
  "set_sticks_raw_slot_idx slot_idx lx ly rx ry lt rt g =
     as_message (set_sticks_raw_slot_idx_raw slot_idx lx ly rx ry lt rt g)"

definition event_by_id ::
    "(nat \<Rightarrow> GamepadHid \<Rightarrow> ControlMessage option res \<times> GamepadHid) \<Rightarrow> u32 \<Rightarrow> GamepadHid \<Rightarrow> ControlMessage res \<times> GamepadHid" where
  \<comment> \<open>look the slot up, apply the update, fall back to re-sending the current report\<close>
  "event_by_id f gid g =
     (case find_slot gid g of
        None \<Rightarrow> (Inl (Err (UnknownGamepad gid)), g)
      | Some slot_idx \<Rightarrow>
          (case f slot_idx g of
             (Inl e, g') \<Rightarrow> (Inl e, g')
           | (Inr (Some m), g') \<Rightarrow> (Inr m, g')
           | (Inr None, g') \<Rightarrow> (Inr (slot_to_input_message_from_slot_idx slot_idx g'), g')))"

definition button_event where
  "button_event gid b p = event_by_id (\<lambda>i. button_event_slot_idx i b p) gid"
definition buttons_event where
  "buttons_event gid b = event_by_id (\<lambda>i. buttons_event_slot_idx i b) gid"
definition full_state_event where
  "full_state_event gid b lx ly rx ry lt rt = event_by_id (\<lambda>i. full_state_event_slot_idx i b lx ly rx ry lt rt) gid"
definition axis_event where
  "axis_event gid a v = event_by_id (\<lambda>i. axis_event_slot_idx i a v) gid"
definition left_stick_raw where
  "left_stick_raw gid x y = event_by_id (\<lambda>i. left_stick_raw_slot_idx i x y) gid"
definition right_stick_raw where
  "right_stick_raw gid x y = event_by_id (\<lambda>i. right_stick_raw_slot_idx i x y) gid"
definition triggers_raw where
  "triggers_raw gid l r = event_by_id (\<lambda>i. triggers_raw_slot_idx i l r) gid"
definition set_sticks_raw where
  "set_sticks_raw gid lx ly rx ry lt rt = event_by_id (\<lambda>i. set_sticks_raw_slot_idx i lx ly rx ry lt rt) gid"

section \<open>The \<open>HidDevice\<close> methods of the gamepad\<close>

definition XBOX_NAME :: "byte list" where
  "XBOX_NAME = map (word_of_nat \<circ> of_char) ''Microsoft X-Box 360 Pad''"

definition gamepad_hid_id :: "GamepadHid \<Rightarrow> u16" where
  "gamepad_hid_id g = (case find (\<lambda>s. gs_gamepad_id s \<noteq> GAMEPAD_ID_INVALID) (slots g) of
     Some _ \<Rightarrow> slot_hid_id 0 | None \<Rightarrow> 0)"

definition gamepad_open_message :: "GamepadHid \<Rightarrow> byte list option \<Rightarrow> ControlMessage res" where
  "gamepad_open_message g nm = Inr (create_message HID_ID_GAMEPAD_FIRST (Some XBOX_NAME))"

definition gamepad_close_message :: "GamepadHid \<Rightarrow> ControlMessage res" where
  "gamepad_close_message g = Inr (UhidDestroy HID_ID_GAMEPAD_FIRST)"

section \<open>Reference updates\<close>

text \<open>What an update means for the state of a pad, without the suppression of repeated reports.\<close>

datatype pad_update =
    U_Full u32 i16 i16 i16 i16 i16 i16
  | U_Buttons u32
  | U_Button GamepadButton bool
  | U_Axis GamepadAxis i16
  | U_LeftStick i16 i16
  | U_RightStick i16 i16
  | U_Triggers i16 i16
  | U_Sticks i16 i16 i16 i16 i16 i16

definition set_bits :: "bool \<Rightarrow> u32 \<Rightarrow> u32 \<Rightarrow> u32" where
  "set_bits p b w = (if p then w OR b else w AND NOT b)"

primrec apply_update :: "pad_update \<Rightarrow> GamepadSlot \<Rightarrow> GamepadSlot" where
  "apply_update (U_Full b lx ly rx ry lt rt) s = s\<lparr>gs_buttons := b AND BUTTONS_ALL_MASK,
     gs_left_x := axis_rescale lx, gs_left_y := axis_rescale ly,
     gs_right_x := axis_rescale rx, gs_right_y := axis_rescale ry,
     gs_left_trigger := trigger_value lt, gs_right_trigger := trigger_value rt\<rparr>"
| "apply_update (U_Buttons b) s = s\<lparr>gs_buttons := b AND BUTTONS_ALL_MASK\<rparr>"
| "apply_update (U_Button b p) s = s\<lparr>gs_buttons := set_bits p (button_bits b) (gs_buttons s)\<rparr>"
| "apply_update (U_Axis a v) s = (case a of
       LeftX \<Rightarrow> s\<lparr>gs_left_x := axis_rescale v\<rparr> | LeftY \<Rightarrow> s\<lparr>gs_left_y := axis_rescale v\<rparr>
     | RightX \<Rightarrow> s\<lparr>gs_right_x := axis_rescale v\<rparr> | RightY \<Rightarrow> s\<lparr>gs_right_y := axis_rescale v\<rparr>
     | LeftTrigger \<Rightarrow> s\<lparr>gs_left_trigger := trigger_value v\<rparr>
     | RightTrigger \<Rightarrow> s\<lparr>gs_right_trigger := trigger_value v\<rparr>)"
| "apply_update (U_LeftStick x y) s = s\<lparr>gs_left_x := axis_rescale x, gs_left_y := axis_rescale y\<rparr>"
| "apply_update (U_RightStick x y) s = s\<lparr>gs_right_x := axis_rescale x, gs_right_y := axis_rescale y\<rparr>"
| "apply_update (U_Triggers l r) s = s\<lparr>gs_left_trigger := trigger_value l, gs_right_trigger := trigger_value r\<rparr>"
| "apply_update (U_Sticks lx ly rx ry lt rt) s = s\<lparr>gs_left_x := axis_rescale lx, gs_left_y := axis_rescale ly,
     gs_right_x := axis_rescale rx, gs_right_y := axis_rescale ry,
     gs_left_trigger := trigger_value lt, gs_right_trigger := trigger_value rt\<rparr>"

text \<open>The method of the driver that performs an update, by slot index and by gamepad id.\<close>

primrec update_raw :: "pad_update \<Rightarrow> nat \<Rightarrow> GamepadHid \<Rightarrow> (u16 \<times> byte list) option res \<times> GamepadHid" where
  "update_raw (U_Full b lx ly rx ry lt rt) i = full_state_event_slot_idx_raw i b lx ly rx ry lt rt"
| "update_raw (U_Buttons b) i = buttons_event_slot_idx_raw i b"
| "update_raw (U_Button b p) i = button_event_slot_idx_raw i b p"
| "update_raw (U_Axis a v) i = axis_event_slot_idx_raw i a v"
| "update_raw (U_LeftStick x y) i = left_stick_raw_slot_idx_raw i x y"
| "update_raw (U_RightStick x y) i = right_stick_raw_slot_idx_raw i x y"
| "update_raw (U_Triggers l r) i = triggers_raw_slot_idx_raw i l r"
| "update_raw (U_Sticks lx ly rx ry lt rt) i = set_sticks_raw_slot_idx_raw i lx ly rx ry lt rt"

primrec update_event :: "pad_update \<Rightarrow> u32 \<Rightarrow> GamepadHid \<Rightarrow> ControlMessage res \<times> GamepadHid" where
  "update_event (U_Full b lx ly rx ry lt rt) i = full_state_event i b lx ly rx ry lt rt"
| "update_event (U_Buttons b) i = buttons_event i b"
| "update_event (U_Button b p) i = button_event i b p"
| "update_event (U_Axis a v) i = axis_event i a v"
| "update_event (U_LeftStick x y) i = left_stick_raw i x y"
| "update_event (U_RightStick x y) i = right_stick_raw i x y"
| "update_event (U_Triggers l r) i = triggers_raw i l r"
| "update_event (U_Sticks lx ly rx ry lt rt) i = set_sticks_raw i lx ly rx ry lt rt"

lemma and_single_bit:
  "(w :: u32) AND push_bit n 1 \<noteq> 0 \<longleftrightarrow> bit w n"
  using and_exp_eq_0_iff_not_bit [of w n] by (simp add: push_bit_eq_mult)

primrec button_index :: "GamepadButton \<Rightarrow> nat" where
  "button_index South = 0" | "button_index East = 1" | "button_index West = 3" | "button_index North = 4"
| "button_index Back = 10" | "button_index Start = 11" | "button_index Guide = 12"
| "button_index LeftStick = 13" | "button_index RightStick = 14" | "button_index LeftShoulder = 6"
| "button_index RightShoulder = 7" | "button_index DpadUp = 16" | "button_index DpadDown = 17"
| "button_index DpadLeft = 18" | "button_index DpadRight = 19"

lemma button_bits_single: "button_bits b = push_bit (button_index b) 1" "button_index b < 20"
  by (cases b; simp)+

lemma set_bits_idle: "(w AND button_bits b \<noteq> 0) = p \<longleftrightarrow> set_bits p (button_bits b) w = w"
proof -
  define n where "n = button_index b"
  have n: "n < 20" "button_bits b = push_bit n 1"
    using button_bits_single by (simp_all add: n_def)
  have "set_bits p (push_bit n 1) w = w \<longleftrightarrow> bit w n = p"
  proof
    assume "set_bits p (push_bit n 1) w = w"
    then have "bit (set_bits p (push_bit n 1) w) n = bit w n"
      by simp
    then show "bit w n = p"
      using n(1) by (auto simp: set_bits_def bit_simps split: if_splits)
  next
    assume "bit w n = p"
    then show "set_bits p (push_bit n 1) w = w"
      by (intro bit_word_eqI) (auto simp: set_bits_def bit_simps)
  qed
  then show ?thesis
    unfolding n(2) and_single_bit by blast
qed

lemmas raw_defs = full_state_event_slot_idx_raw_def buttons_event_slot_idx_raw_def
  button_event_slot_idx_raw_def axis_event_slot_idx_raw_def left_stick_raw_slot_idx_raw_def
  right_stick_raw_slot_idx_raw_def triggers_raw_slot_idx_raw_def set_sticks_raw_slot_idx_raw_def

lemma slot_update_idle:
  "s\<lparr>gs_buttons := b\<rparr> = s \<longleftrightarrow> gs_buttons s = b"
  "s\<lparr>gs_left_x := x\<rparr> = s \<longleftrightarrow> gs_left_x s = x"
  "s\<lparr>gs_left_y := x\<rparr> = s \<longleftrightarrow> gs_left_y s = x"
  "s\<lparr>gs_right_x := x\<rparr> = s \<longleftrightarrow> gs_right_x s = x"
  "s\<lparr>gs_right_y := x\<rparr> = s \<longleftrightarrow> gs_right_y s = x"
  "s\<lparr>gs_left_trigger := x\<rparr> = s \<longleftrightarrow> gs_left_trigger s = x"
  "s\<lparr>gs_right_trigger := x\<rparr> = s \<longleftrightarrow> gs_right_trigger s = x"
  by (cases s; auto)+

lemma update_raw_eq:
  "update_raw u i = update_slot (\<lambda>s. if apply_update u s = s then None else Some (apply_update u s)) i"
proof (cases u)
  case (U_Full b lx ly rx ry lt rt)
  have "apply_update u s = s \<longleftrightarrow> gs_buttons s = b AND BUTTONS_ALL_MASK \<and> gs_left_x s = axis_rescale lx \<and>
      gs_left_y s = axis_rescale ly \<and> gs_right_x s = axis_rescale rx \<and> gs_right_y s = axis_rescale ry \<and>
      gs_left_trigger s = trigger_value lt \<and> gs_right_trigger s = trigger_value rt" for s
    unfolding U_Full by (cases s) auto
  then show ?thesis
    by (simp add: U_Full raw_defs Let_def cong: if_cong)
next
  case (U_Button b p)
  have "(if (gs_buttons s AND button_bits b \<noteq> 0) = p then None
      else if p then Some (s\<lparr>gs_buttons := gs_buttons s OR button_bits b\<rparr>)
      else Some (s\<lparr>gs_buttons := gs_buttons s AND NOT (button_bits b)\<rparr>)) =
      (if apply_update u s = s then None else Some (apply_update u s))" for s
    unfolding set_bits_idle by (auto simp: U_Button slot_update_idle set_bits_def)
  then show ?thesis
    by (simp add: U_Button raw_defs Let_def)
next
  case (U_Axis a v)
  then show ?thesis
    by (cases a) (simp_all add: raw_defs Let_def slot_update_idle cong: if_cong)
next
  case (U_LeftStick x y)
  have "apply_update u s = s \<longleftrightarrow> gs_left_x s = axis_rescale x \<and> gs_left_y s = axis_rescale y" for s
    unfolding U_LeftStick by (cases s) auto
  then show ?thesis
    by (simp add: U_LeftStick raw_defs Let_def cong: if_cong)
next
  case (U_RightStick x y)
  have "apply_update u s = s \<longleftrightarrow> gs_right_x s = axis_rescale x \<and> gs_right_y s = axis_rescale y" for s
    unfolding U_RightStick by (cases s) auto
  then show ?thesis
    by (simp add: U_RightStick raw_defs Let_def cong: if_cong)
next
  case (U_Triggers l r)
  have "apply_update u s = s \<longleftrightarrow> gs_left_trigger s = trigger_value l \<and> gs_right_trigger s = trigger_value r" for s
    unfolding U_Triggers by (cases s) auto
  then show ?thesis
    by (simp add: U_Triggers raw_defs Let_def cong: if_cong)
next
  case (U_Sticks lx ly rx ry lt rt)
  have "apply_update u s = s \<longleftrightarrow> gs_left_x s = axis_rescale lx \<and>
      gs_left_y s = axis_rescale ly \<and> gs_right_x s = axis_rescale rx \<and> gs_right_y s = axis_rescale ry \<and>
      gs_left_trigger s = trigger_value lt \<and> gs_right_trigger s = trigger_value rt" for s
    unfolding U_Sticks by (cases s) auto
  then show ?thesis
    by (simp add: U_Sticks raw_defs Let_def cong: if_cong)
qed (simp_all add: raw_defs Let_def slot_update_idle cong: if_cong)

lemma length_slot_to_payload [simp]: "length (slot_to_payload s) = 15"
  by (simp add: slot_to_payload_def)

lemma message_from_payload:
  "length p = 15 \<Longrightarrow> slot_to_input_message_from_payload i p = input_of i p"
  by (simp add: slot_to_input_message_from_payload_def input_of_def)

lemma slot_to_input_message_eq: "slot_to_input_message i s = input_of i (slot_to_payload s)"
  by (simp add: slot_to_input_message_def input_of_def)

lemma find_slot_Some:
  "find_slot gid g = Some i \<longleftrightarrow> i < length (slots g) \<and> gs_gamepad_id (slots g ! i) = gid \<and>
     (\<forall>j<i. gs_gamepad_id (slots g ! j) \<noteq> gid)"
  by (simp add: find_slot_def position_Some_iff)

lemma position_None_iff: "position P xs = None \<longleftrightarrow> (\<forall>x \<in> set xs. \<not> P x)"
proof
  assume "position P xs = None"
  then have "takeWhile (\<lambda>x. \<not> P x) xs = xs"
    using length_takeWhile_le [of "\<lambda>x. \<not> P x" xs]
    by (metis (full_types) le_neq_implies_less option.distinct(1) position_def takeWhile_eq_take take_all_iff)
  then show "\<forall>x \<in> set xs. \<not> P x"
    by (metis takeWhile_eq_all_conv)
next
  assume "\<forall>x \<in> set xs. \<not> P x"
  then show "position P xs = None"
    by (simp add: position_def takeWhile_eq_all_conv [THEN iffD2])
qed

lemmas event_defs = full_state_event_def buttons_event_def button_event_def axis_event_def
  left_stick_raw_def right_stick_raw_def triggers_raw_def set_sticks_raw_def
  full_state_event_slot_idx_def buttons_event_slot_idx_def button_event_slot_idx_def
  axis_event_slot_idx_def left_stick_raw_slot_idx_def right_stick_raw_slot_idx_def
  triggers_raw_slot_idx_def set_sticks_raw_slot_idx_def

lemma update_event_by_raw: "update_event u gid = event_by_id (\<lambda>i g. as_message (update_raw u i g)) gid"
  by (cases u) (simp_all add: event_defs [abs_def])

lemma update_event_eq:
  "update_event u gid g = (case find_slot gid g of
       None \<Rightarrow> (Inl (Err (UnknownGamepad gid)), g)
     | Some i \<Rightarrow> (Inr (input_of (slot_hid_id i) (slot_to_payload (apply_update u (slots g ! i)))),
         g\<lparr>slots := (slots g)[i := apply_update u (slots g ! i)]\<rparr>))"
proof (cases "find_slot gid g")
  case (Some i)
  then have i: "i < length (slots g)"
    by (simp add: find_slot_Some)
  have idle: "apply_update u (slots g ! i) = slots g ! i \<Longrightarrow> (slots g)[i := apply_update u (slots g ! i)] = slots g"
    by simp
  show ?thesis
    using Some i by (cases "apply_update u (slots g ! i) = slots g ! i")
      (simp_all add: update_event_by_raw event_by_id_def as_message_def update_raw_eq update_slot_def
        message_from_payload slot_to_input_message_from_slot_idx_def slot_to_input_message_eq)
qed (simp add: update_event_by_raw event_by_id_def)

section \<open>Invariant\<close>

definition slot_ok :: "GamepadSlot \<Rightarrow> bool" where
  "slot_ok s \<longleftrightarrow> gs_buttons s AND NOT BUTTONS_ALL_MASK = 0 \<and> gs_left_trigger s \<le> 0x7FFF \<and> gs_right_trigger s \<le> 0x7FFF"

definition unique_ids :: "GamepadSlot list \<Rightarrow> bool" where
  "unique_ids ss \<longleftrightarrow> (\<forall>i < length ss. \<forall>j < length ss.
     gs_gamepad_id (ss ! i) = gs_gamepad_id (ss ! j) \<longrightarrow> gs_gamepad_id (ss ! i) \<noteq> 0 \<longrightarrow> i = j)"

definition wf_gamepad :: "GamepadHid \<Rightarrow> bool" where
  "wf_gamepad g \<longleftrightarrow> length (slots g) = MAX_GAMEPADS \<and> unique_ids (slots g) \<and> list_all slot_ok (slots g)"

lemma unique_ids_update:
  assumes "unique_ids ss"
    and "gs_gamepad_id s = 0 \<or> (\<forall>j < length ss. j \<noteq> i \<longrightarrow> gs_gamepad_id (ss ! j) \<noteq> gs_gamepad_id s)"
  shows "unique_ids (ss[i := s])"
proof (cases "i < length ss")
  case True
  then show ?thesis
    using assms unfolding unique_ids_def by (auto simp: nth_list_update split: if_splits)
qed (use assms(1) in \<open>simp add: list_update_beyond\<close>)

lemma wf_update:
  assumes "wf_gamepad g" "slot_ok s"
    and "gs_gamepad_id s = 0 \<or> (\<forall>j < length (slots g). j \<noteq> i \<longrightarrow> gs_gamepad_id (slots g ! j) \<noteq> gs_gamepad_id s)"
  shows "wf_gamepad (g\<lparr>slots := (slots g)[i := s]\<rparr>)"
proof -
  have "list_all slot_ok ((slots g)[i := s])"
    using assms(1,2) set_update_subset_insert [of "slots g" i s] by (auto simp: wf_gamepad_def list_all_iff)
  then show ?thesis
    using assms unique_ids_update [OF _ assms(3)] by (simp add: wf_gamepad_def)
qed

lemma masked_ok: "(b AND BUTTONS_ALL_MASK) AND NOT BUTTONS_ALL_MASK = 0"
  by (simp add: bit_eq_iff bit_simps)

lemma button_in_mask: "button_bits b AND NOT BUTTONS_ALL_MASK = 0"
  by (cases b) (simp_all add: BUTTONS_ALL_MASK_def BUTTONS_MASK_def)

lemma set_bits_ok:
  assumes "w AND NOT BUTTONS_ALL_MASK = 0"
  shows "set_bits p (button_bits b) w AND NOT BUTTONS_ALL_MASK = 0"
proof -
  have "(w OR button_bits b) AND NOT BUTTONS_ALL_MASK = 0"
    using assms button_in_mask [of b] by (simp add: bit.conj_disj_distrib2)
  moreover have "(w AND NOT (button_bits b)) AND NOT BUTTONS_ALL_MASK = 0"
    using assms by (metis and.assoc and.commute and_zero_eq)
  ultimately show ?thesis
    by (simp add: set_bits_def)
qed

lemma trigger_value_le: "trigger_value v \<le> 0x7FFF"
  by (simp add: trigger_value_def)

lemma apply_update_ok: "slot_ok s \<Longrightarrow> slot_ok (apply_update u s)"
  by (cases u) (auto simp: slot_ok_def masked_ok set_bits_ok trigger_value_le split: GamepadAxis.splits)

lemma apply_update_id [simp]: "gs_gamepad_id (apply_update u s) = gs_gamepad_id s"
  by (cases u) (auto split: GamepadAxis.splits)

lemma update_event_wf: "wf_gamepad g \<Longrightarrow> wf_gamepad (snd (update_event u gid g))"
proof (cases "find_slot gid g")
  case (Some i)
  assume wf: "wf_gamepad g"
  have i: "i < length (slots g)"
    using Some by (simp add: find_slot_Some)
  have "slot_ok (apply_update u (slots g ! i))"
    using wf i by (simp add: wf_gamepad_def list_all_length apply_update_ok)
  moreover have "gs_gamepad_id (slots g ! i) = 0 \<or>
      (\<forall>j<length (slots g). j \<noteq> i \<longrightarrow> gs_gamepad_id (slots g ! j) \<noteq> gs_gamepad_id (slots g ! i))"
    using wf i unfolding wf_gamepad_def unique_ids_def by metis
  ultimately have "wf_gamepad (g\<lparr>slots := (slots g)[i := apply_update u (slots g ! i)]\<rparr>)"
    using wf by (intro wf_update) simp_all
  then show ?thesis
    using Some by (simp add: update_event_eq)
qed (simp add: update_event_eq)

lemma update_raw_wf: "wf_gamepad g \<Longrightarrow> wf_gamepad (snd (update_raw u i g))"
proof (cases "i < length (slots g)")
  case True
  assume wf: "wf_gamepad g"
  have "slot_ok (apply_update u (slots g ! i))"
    using wf True by (simp add: wf_gamepad_def list_all_length apply_update_ok)
  moreover have "gs_gamepad_id (slots g ! i) = 0 \<or>
      (\<forall>j<length (slots g). j \<noteq> i \<longrightarrow> gs_gamepad_id (slots g ! j) \<noteq> gs_gamepad_id (slots g ! i))"
    using wf True unfolding wf_gamepad_def unique_ids_def by metis
  ultimately have "wf_gamepad (g\<lparr>slots := (slots g)[i := apply_update u (slots g ! i)]\<rparr>)"
    using wf by (intro wf_update) simp_all
  then show ?thesis
    using wf by (simp add: update_raw_eq update_slot_def)
qed (simp add: update_raw_eq update_slot_def)

lemma release_slot_wf: "wf_gamepad g \<Longrightarrow> i < length (slots g) \<Longrightarrow> wf_gamepad (release_slot i g)"
  unfolding release_slot_def
  by (intro wf_update) (simp_all add: wf_gamepad_def list_all_length slot_ok_def)

lemma gamepad_close_wf: "wf_gamepad g \<Longrightarrow> wf_gamepad (snd (gamepad_close gid g))"
  by (auto simp: gamepad_close_def find_slot_Some release_slot_wf split: option.split)

lemma close_slot_idx_wf: "wf_gamepad g \<Longrightarrow> wf_gamepad (snd (close_slot_idx i g))"
  using release_slot_wf [of g i] by (auto simp: close_slot_idx_def wf_gamepad_def)

lemma gamepad_open_wf: "wf_gamepad g \<Longrightarrow> wf_gamepad (snd (gamepad_open gid nm g))"
proof (cases "gid = 0 \<or> find_slot gid g \<noteq> None \<or> free_slot g = None")
  case False
  assume wf: "wf_gamepad g"
  obtain i where i: "free_slot g = Some i" and none: "find_slot gid g = None" and "gid \<noteq> 0"
    using False by auto
  have "\<forall>j<length (slots g). gs_gamepad_id (slots g ! j) \<noteq> gid"
    using none by (simp add: find_slot_def position_None_iff)
  then show ?thesis
    using wf i none \<open>gid \<noteq> 0\<close> by (simp add: gamepad_open_def Let_def wf_update slot_ok_def)
qed (auto simp: gamepad_open_def split: option.split)

inductive gamepad_reach :: "GamepadHid \<Rightarrow> bool" where
  new: "gamepad_reach gamepad_new"
| opened: "gamepad_reach g \<Longrightarrow> gamepad_reach (snd (gamepad_open gid nm g))"
| closed: "gamepad_reach g \<Longrightarrow> gamepad_reach (snd (gamepad_close gid g))"
| closed_slot: "gamepad_reach g \<Longrightarrow> gamepad_reach (snd (close_slot_idx i g))"
| updated: "gamepad_reach g \<Longrightarrow> gamepad_reach (snd (update_raw u i g))"
| event: "gamepad_reach g \<Longrightarrow> gamepad_reach (snd (update_event u gid g))"

lemma gamepad_new_wf: "wf_gamepad gamepad_new"
  by (simp add: gamepad_new_def wf_gamepad_def unique_ids_def slot_default_def slot_ok_def list_all_length)

lemma gamepad_reach_wf: "gamepad_reach g \<Longrightarrow> wf_gamepad g"
  by (induction rule: gamepad_reach.induct)
    (simp_all add: gamepad_new_wf gamepad_open_wf gamepad_close_wf close_slot_idx_wf update_raw_wf update_event_wf)

section \<open>The table of open devices\<close>

lemma slot_hid_id_roundtrip: "i < 8 \<Longrightarrow> slot_from_hid_id (slot_hid_id i) = Some i"
proof -
  assume "i < 8"
  then have "i \<in> {0, 1, 2, 3, 4, 5, 6, 7}"
    by auto
  then show ?thesis
    by (auto simp: slot_from_hid_id_def slot_hid_id_def)
qed

lemma slot_from_hid_id_range:
  assumes "slot_from_hid_id h = Some i"
  shows "i < 8 \<and> slot_hid_id i = h"
proof -
  have h: "3 \<le> h" "h \<le> 10" "i = unat (h - 3)"
    using assms by (auto simp: slot_from_hid_id_def split: if_splits)
  then have "unat (h - 3) = unat h - 3"
    by (simp add: unat_sub)
  then show ?thesis
    using h by (simp add: slot_hid_id_def word_le_nat_alt)
qed

lemma slot_hid_id_inject: "i < 8 \<Longrightarrow> j < 8 \<Longrightarrow> slot_hid_id i = slot_hid_id j \<Longrightarrow> i = j"
  using slot_hid_id_roundtrip by (metis option.inject)

text \<open>
  The interface of a table of open devices, keyed by a client's id: what a lookup returns after an
  open and a close, that failures change nothing, and that no two clients share a device.
\<close>

locale device_table =
  fixes inv :: "'s \<Rightarrow> bool"
    and lookup :: "'s \<Rightarrow> 'k \<Rightarrow> 'd option"
    and opn :: "'k \<Rightarrow> 's \<Rightarrow> ('e + 'd) \<times> 's"
    and cls :: "'k \<Rightarrow> 's \<Rightarrow> ('e + 'd) \<times> 's"
    and init :: 's
  assumes init_inv: "inv init" and init_empty: "lookup init k = None"
    and opn_ok: "inv s \<Longrightarrow> opn k s = (Inr d, s') \<Longrightarrow> inv s' \<and> lookup s' = (lookup s)(k \<mapsto> d)"
    and opn_err: "inv s \<Longrightarrow> opn k s = (Inl e, s') \<Longrightarrow> s' = s"
    and cls_ok: "inv s \<Longrightarrow> cls k s = (Inr d, s') \<Longrightarrow>
      inv s' \<and> lookup s k = Some d \<and> lookup s' = (lookup s)(k := None)"
    and cls_err: "inv s \<Longrightarrow> cls k s = (Inl e, s') \<Longrightarrow> s' = s"
    and no_sharing: "inv s \<Longrightarrow> lookup s k = Some d \<Longrightarrow> lookup s k' = Some d \<Longrightarrow> k = k'"
begin

text \<open>A history of opens and closes, with the devices the successful ones returned.\<close>

fun run :: "('k \<times> bool) list \<Rightarrow> 's \<Rightarrow> (('k \<times> bool) \<times> 'd) list \<times> 's" where
  "run [] s = ([], s)"
| "run ((k, b) # es) s =
     (case (if b then opn k s else cls k s) of
        (Inl _, s') \<Rightarrow> run es s'
      | (Inr d, s') \<Rightarrow> (let (hist, s'') = run es s' in (((k, b), d) # hist, s'')))"

definition replay :: "(('k \<times> bool) \<times> 'd) list \<Rightarrow> ('k \<Rightarrow> 'd option) \<Rightarrow> ('k \<Rightarrow> 'd option)" where
  "replay hist m = foldl (\<lambda>m ((k, b), d). if b then m(k \<mapsto> d) else m(k := None)) m hist"

lemma run_replay: "inv s \<Longrightarrow> run es s = (hist, s') \<Longrightarrow> inv s' \<and> lookup s' = replay hist (lookup s)"
proof (induction es s arbitrary: hist rule: run.induct)
  case (2 k b es s)
  obtain r s1 where step: "(if b then opn k s else cls k s) = (r, s1)"
    by (cases "if b then opn k s else cls k s")
  show ?case
  proof (cases r)
    case (Inl e)
    then have "s1 = s"
      using step opn_err [OF 2(3)] cls_err [OF 2(3)] by (auto split: if_splits)
    then show ?thesis
      using 2 step Inl by simp
  next
    case (Inr d)
    then have i1: "inv s1" and l1: "lookup s1 = (if b then (lookup s)(k \<mapsto> d) else (lookup s)(k := None))"
      using step opn_ok [OF 2(3)] cls_ok [OF 2(3)] by (auto split: if_splits)
    obtain hist1 where "run es s1 = (hist1, s')" "hist = ((k, b), d) # hist1"
      using 2(4) step Inr by (auto split: prod.splits)
    then show ?thesis
      using 2(2) [OF step [symmetric] Inr i1] l1 by (simp add: replay_def)
  qed
qed (simp add: replay_def)

lemma close_paired:
  "inv s \<Longrightarrow> run es s = (hist, s') \<Longrightarrow> hist = pre @ ((k, False), d) # post \<Longrightarrow> replay pre (lookup s) k = Some d"
proof (induction es s arbitrary: hist pre rule: run.induct)
  case (2 k1 b es s)
  obtain r s1 where step: "(if b then opn k1 s else cls k1 s) = (r, s1)"
    by (cases "if b then opn k1 s else cls k1 s")
  show ?case
  proof (cases r)
    case (Inl e)
    then have "s1 = s"
      using step opn_err [OF 2(3)] cls_err [OF 2(3)] by (auto split: if_splits)
    then show ?thesis
      using 2(1) [OF step [symmetric] Inl, of hist pre] 2(3-5) step Inl by simp
  next
    case (Inr d1)
    then have i1: "inv s1" and l1: "lookup s1 = (if b then (lookup s)(k1 \<mapsto> d1) else (lookup s)(k1 := None))"
      and old: "\<not> b \<Longrightarrow> lookup s k1 = Some d1"
      using step opn_ok [OF 2(3)] cls_ok [OF 2(3)] by (auto split: if_splits)
    obtain hist1 where h1: "run es s1 = (hist1, s')" "hist = ((k1, b), d1) # hist1"
      using 2(4) step Inr by (auto split: prod.splits)
    show ?thesis
    proof (cases pre)
      case Nil
      then show ?thesis
        using h1 2(5) old by (simp add: replay_def)
    next
      case (Cons x pre')
      then show ?thesis
        using h1 2(5) 2(2) [OF step [symmetric] Inr i1 h1(1), of pre'] l1 by (auto simp: replay_def)
    qed
  qed
qed simp

lemma live_distinct:
  assumes "run es init = (hist, s')" and "replay hist Map.empty k = Some d" and "replay hist Map.empty k' = Some d"
  shows "k = k'"
proof -
  have "lookup init = Map.empty"
    using init_empty by (simp add: fun_eq_iff)
  then show ?thesis
    using run_replay [OF init_inv assms(1)] assms(2,3) no_sharing [of s' k d k'] by simp
qed

end

definition pad_lookup :: "GamepadHid \<Rightarrow> u32 \<Rightarrow> u16 option" where
  "pad_lookup g gid = (if gid = 0 then None else map_option slot_hid_id (find_slot gid g))"

definition pad_open :: "u32 \<Rightarrow> GamepadHid \<Rightarrow> u16 res \<times> GamepadHid" where
  "pad_open gid g = (map_sum id fst (fst (gamepad_open gid None g)), snd (gamepad_open gid None g))"

definition destroyed_id :: "ControlMessage \<Rightarrow> u16" where
  "destroyed_id m = (case m of UhidDestroy i \<Rightarrow> i | _ \<Rightarrow> 0)"

definition pad_close :: "u32 \<Rightarrow> GamepadHid \<Rightarrow> u16 res \<times> GamepadHid" where
  "pad_close gid g = (map_sum id destroyed_id (fst (gamepad_close gid g)), snd (gamepad_close gid g))"

lemma find_slot_unique:
  assumes "wf_gamepad g" "gid \<noteq> 0"
  shows "find_slot gid g = Some i \<longleftrightarrow> i < 8 \<and> gs_gamepad_id (slots g ! i) = gid"
  using assms unfolding find_slot_Some wf_gamepad_def unique_ids_def
  by (metis MAX_GAMEPADS_def less_trans nat_neq_iff)

lemma find_slot_update:
  assumes "wf_gamepad g" "wf_gamepad (g\<lparr>slots := (slots g)[i := s]\<rparr>)" "i < 8" "k \<noteq> 0"
    and "gs_gamepad_id s = gid \<or> gs_gamepad_id s = 0 \<and> gs_gamepad_id (slots g ! i) = gid"
    and "gs_gamepad_id (slots g ! i) = 0 \<or> gs_gamepad_id (slots g ! i) = gid"
  shows "find_slot k (g\<lparr>slots := (slots g)[i := s]\<rparr>) =
    (if gs_gamepad_id s = k then Some i else if k = gid then None else find_slot k g)"
proof -
  let ?g = "g\<lparr>slots := (slots g)[i := s]\<rparr>"
  have len: "length (slots g) = 8"
    using assms(1) by (simp add: wf_gamepad_def)
  have iff: "find_slot k ?g = Some j \<longleftrightarrow>
      j < 8 \<and> (if j = i then gs_gamepad_id s else gs_gamepad_id (slots g ! j)) = k" for j
    using find_slot_unique [OF assms(2,4), of j] assms(3) len by (auto simp: nth_list_update)
  have old: "find_slot k g = Some j \<longleftrightarrow> j < 8 \<and> gs_gamepad_id (slots g ! j) = k" for j
    using find_slot_unique [OF assms(1,4)] .
  have inj: "j = i" if "j < 8" "gs_gamepad_id (slots g ! j) = gs_gamepad_id (slots g ! i)"
    "gs_gamepad_id (slots g ! i) \<noteq> 0" for j
    using that assms(1,3) len unfolding wf_gamepad_def unique_ids_def by metis
  show ?thesis
  proof (cases "gs_gamepad_id s = k")
    case True
    then show ?thesis
      using iff [of i] assms(3) by simp
  next
    case False
    show ?thesis
    proof (cases "k = gid")
      case True
      have "find_slot k ?g = None"
      proof (cases "find_slot k ?g")
        case (Some j)
        then show ?thesis
          using iff [of j] False True assms(4,5) inj [of j] by (auto split: if_splits)
      qed
      then show ?thesis
        using False True by simp
    next
      case ne: False
      have "find_slot k ?g = Some j \<longleftrightarrow> find_slot k g = Some j" for j
        unfolding iff old using False ne assms(4,6) by auto
      then have "find_slot k ?g = find_slot k g"
        by (metis option.exhaust)
      then show ?thesis
        using False ne by simp
    qed
  qed
qed

lemma free_slot_Some:
  "free_slot g = Some i \<Longrightarrow> i < length (slots g) \<and> gs_gamepad_id (slots g ! i) = 0"
  by (simp add: free_slot_def position_Some_iff)

lemma pad_open_ok:
  assumes wf: "wf_gamepad g" and op: "pad_open k g = (Inr d, g')"
  shows "wf_gamepad g' \<and> pad_lookup g' = (pad_lookup g)(k \<mapsto> d)"
proof -
  have k: "k \<noteq> 0"
    using op by (auto simp: pad_open_def gamepad_open_def)
  show ?thesis
  proof (cases "find_slot k g")
    case (Some i)
    then have "g' = g" "d = slot_hid_id i"
      using op k by (auto simp: pad_open_def gamepad_open_def build_create_def)
    then show ?thesis
      using wf Some k by (auto simp: pad_lookup_def fun_eq_iff)
  next
    case None
    then obtain i s where i: "free_slot g = Some i" and g': "g' = g\<lparr>slots := (slots g)[i := s]\<rparr>"
      and s: "gs_gamepad_id s = k" and d: "d = slot_hid_id i"
      using op k by (auto simp: pad_open_def gamepad_open_def build_create_def Let_def split: option.splits)
    have "wf_gamepad g'"
      using gamepad_open_wf [OF wf, of k None] op by (auto simp: pad_open_def)
    have i8: "i < 8" "gs_gamepad_id (slots g ! i) = 0"
      using free_slot_Some [OF i] wf by (auto simp: wf_gamepad_def)
    have "find_slot x g' = (if x = k then Some i else find_slot x g)" if "x \<noteq> 0" for x
      using find_slot_update [OF wf _ i8(1) that, of s k] \<open>wf_gamepad g'\<close> s i8(2) by (auto simp: g')
    then show ?thesis
      using \<open>wf_gamepad g'\<close> k d by (auto simp: pad_lookup_def fun_eq_iff)
  qed
qed

lemma pad_close_ok:
  assumes wf: "wf_gamepad g" and op: "pad_close k g = (Inr d, g')"
  shows "wf_gamepad g' \<and> pad_lookup g k = Some d \<and> pad_lookup g' = (pad_lookup g)(k := None)"
proof -
  obtain i where k: "k \<noteq> 0" and i: "find_slot k g = Some i" and d: "d = slot_hid_id i"
    and g': "g' = release_slot i g"
    using op by (auto simp: pad_close_def gamepad_close_def destroyed_id_def split: if_splits option.splits)
  have i8: "i < 8" "gs_gamepad_id (slots g ! i) = k" and wf': "wf_gamepad g'"
    using find_slot_unique [OF wf k] i release_slot_wf [OF wf] wf g' by (auto simp: wf_gamepad_def)
  have "find_slot x g' = (if x = k then None else find_slot x g)" if "x \<noteq> 0" for x
    using find_slot_update [OF wf _ i8(1) that, of "(slots g ! i)\<lparr>gs_gamepad_id := 0\<rparr>" k] wf' that i8(2)
    by (auto simp: g' release_slot_def)
  then show ?thesis
    using wf' k d i by (auto simp: pad_lookup_def fun_eq_iff)
qed

interpretation pads: device_table wf_gamepad pad_lookup pad_open pad_close gamepad_new
proof unfold_locales
  show "pad_lookup gamepad_new k = None" for k
    by (simp add: pad_lookup_def find_slot_def position_None_iff gamepad_new_def slot_default_def)
  show "s' = s" if "pad_open k s = (Inl e, s')" for k s e s'
    using that by (auto simp: pad_open_def gamepad_open_def build_create_def Let_def split: if_splits option.splits)
  show "s' = s" if "pad_close k s = (Inl e, s')" for k s e s'
    using that by (auto simp: pad_close_def gamepad_close_def split: if_splits option.splits)
  show "k = k'" if "wf_gamepad s" "pad_lookup s k = Some d" "pad_lookup s k' = Some d" for s k k' d
    using that find_slot_unique [OF that(1)] slot_hid_id_inject
    by (auto simp: pad_lookup_def split: if_splits)
  show "wf_gamepad gamepad_new"
    by (rule gamepad_new_wf)
  show "wf_gamepad s' \<and> pad_lookup s' = (pad_lookup s)(k \<mapsto> d)" if "wf_gamepad s" "pad_open k s = (Inr d, s')" for s k d s'
    using that by (rule pad_open_ok)
  show "wf_gamepad s' \<and> pad_lookup s k = Some d \<and> pad_lookup s' = (pad_lookup s)(k := None)"
    if "wf_gamepad s" "pad_close k s = (Inr d, s')" for s k d s'
    using that by (rule pad_close_ok)
qed

section \<open>Reports decode to the state\<close>

definition le16_at :: "byte list \<Rightarrow> nat \<Rightarrow> u16" where
  "le16_at bs i = from_be_bytes [bs ! (i + 1), bs ! i]"

lemma le16_at_word: "from_be_bytes [word_of_nat (unat v div 256), ucast v] = (v :: u16)"
  using from_be_bytes_u16 [of v] by (simp add: to_be_bytes_u16)

lemma payload_decodes:
  "le16_at (slot_to_payload s) 0 = gs_left_x s" "le16_at (slot_to_payload s) 2 = gs_left_y s"
  "le16_at (slot_to_payload s) 4 = gs_right_x s" "le16_at (slot_to_payload s) 6 = gs_right_y s"
  "le16_at (slot_to_payload s) 8 = gs_left_trigger s" "le16_at (slot_to_payload s) 10 = gs_right_trigger s"
  "le16_at (slot_to_payload s) 12 = ucast (gs_buttons s)"
  "slot_to_payload s ! 14 = hat_spec (bit (gs_buttons s) 16) (bit (gs_buttons s) 17)
     (bit (gs_buttons s) 18) (bit (gs_buttons s) 19)"
proof -
  have m: "BUTTONS_MASK = mask 16"
    by (simp add: BUTTONS_MASK_def mask_numeral)
  define w where "w = (ucast (gs_buttons s AND BUTTONS_MASK) :: u16)"
  have "w = ucast (gs_buttons s)"
    unfolding m w_def by (intro bit_word_eqI) (simp add: bit_simps)
  moreover have "le16_at (slot_to_payload s) 12 = w"
    by (simp add: le16_at_def slot_to_payload_def to_le_bytes_u16 le16_at_word flip: w_def)
  ultimately show "le16_at (slot_to_payload s) 12 = ucast (gs_buttons s)"
    by simp
qed (simp_all add: le16_at_def slot_to_payload_def to_le_bytes_u16 le16_at_word dpad_hat_value_spec del: hat_spec.simps)

lemma uint_i16_range: "0 \<le> uint (v :: i16)" "uint v < 65536"
  using uint_lt2p [of v] by simp_all

lemma sint_i16:
  "uint v < 32768 \<Longrightarrow> sint (v :: i16) = uint v"
  "32768 \<le> uint v \<Longrightarrow> sint v = uint v - 65536"
proof -
  have e: "sint v = (uint v + 32768) mod 65536 - 32768"
    by (simp add: sint_uint signed_take_bit_eq_take_bit_shift take_bit_eq_mod)
  then show "uint v < 32768 \<Longrightarrow> sint v = uint v"
    by simp
  show "sint v = uint v - 65536" if "32768 \<le> uint v"
    using e mod_add_self2 [of "uint v - 32768" 65536] that uint_i16_range(2) [of v]
    by (simp add: add.commute)
qed

lemma sint_i16_range: "-32768 \<le> sint (v :: i16)" "sint v < 32768"
proof -
  have "sint v = uint v \<and> uint v < 32768 \<or> sint v = uint v - 65536 \<and> 32768 \<le> uint v"
    using sint_i16 [of v] by linarith
  then show "-32768 \<le> sint v" "sint v < 32768"
    using uint_i16_range [of v] by linarith+
qed

lemma axis_rescale_uint: "uint (axis_rescale v) = sint v + 32768"
proof -
  have "(scast v + 0x8000 :: i32) = word_of_int (sint v + 32768)"
    by (simp only: scast_eq of_int_add of_int_numeral)
  then have "uint (axis_rescale v) = take_bit 16 (take_bit 32 (sint v + 32768))"
    by (simp only: axis_rescale_def unsigned_ucast_eq uint_word_of_int_eq) simp
  also have "\<dots> = sint v + 32768"
    using sint_i16_range [of v] by (simp add: take_bit_eq_mod)
  finally show ?thesis .
qed

lemma trigger_value_uint: "uint (trigger_value v) = max 0 (sint v)"
  using uint_i16_range [of v] sint_i16 [of v]
  by (cases "uint v < 32768") (auto simp: trigger_value_def min_def word_le_def)

section \<open>Properties\<close>

lemma free_id_event:
  \<comment> \<open>the reserved id 0 names a free slot: the event is reported for a device that was never opened\<close>
  "update_event u 0 gamepad_new =
     (Inr (input_of 3 (slot_to_payload (apply_update u slot_default))),
      gamepad_new\<lparr>slots := (slots gamepad_new)[0 := apply_update u slot_default]\<rparr>)"
proof -
  have "find_slot 0 gamepad_new = Some 0"
    by (simp add: find_slot_Some gamepad_new_def slot_default_def)
  moreover have "slots gamepad_new ! 0 = slot_default" "slot_hid_id 0 = 3"
    by (simp_all add: gamepad_new_def slot_default_def slot_hid_id_def)
  ultimately show ?thesis
    by (simp add: update_event_eq)
qed

lemma hid_id_of_freed_slot:
  \<comment> \<open>the trait method reports slot 0 although only slot 1 is open\<close>
  "let g = snd (gamepad_close 7 (snd (gamepad_open 9 None (snd (gamepad_open 7 None gamepad_new)))))
   in pad_lookup g 9 = Some 4 \<and> pad_lookup g 7 = None \<and> gamepad_hid_id g = 3"
  by code_simp

text \<open>
  C4 (refinement). Every update method of the gamepad driver, called on a slot index, performs the same
  pure update of the slot: if the state does not change it reports nothing and leaves the driver
  alone, otherwise it stores the new state and returns the full report of that state under the HID id
  of the slot. No change is lost and no duplicate report is produced, whichever of the eight entry
  points (single button, button bitmap, axis, sticks, triggers, full state) is used.
\<close>

theorem gamepad_update_refines:
  assumes "i < length (slots g)"
  shows "update_raw u i g =
    (let s' = apply_update u (slots g ! i) in
     if s' = slots g ! i then (Inr None, g)
     else (Inr (Some (slot_hid_id i, slot_to_payload s')), g\<lparr>slots := (slots g)[i := s']\<rparr>))"
  using assms by (simp add: update_raw_eq update_slot_def Let_def)

theorem gamepad_update_refines_witness:
  "update_raw (U_Button DpadUp False) 2 gamepad_new = (Inr None, gamepad_new)"
  using gamepad_update_refines [of 2 gamepad_new "U_Button DpadUp False"]
  by (simp add: gamepad_new_def slot_default_def Let_def set_bits_def)

text \<open>
  C5 (invariant). In every state the driver can reach (any sequence of opens, closes and updates, by id
  or by slot index, failing ones included) there are exactly eight slots, no gamepad id is bound
  to two of them, buttons stay within the declared bitmap, triggers within 0..32767; and the HID ids
  3..10 of the slots map back to their slots.
\<close>

theorem gamepad_reach_invariant:
  assumes "gamepad_reach g"
  shows "wf_gamepad g \<and> (\<forall>i < length (slots g). slot_from_hid_id (slot_hid_id i) = Some i)"
  using gamepad_reach_wf [OF assms] by (simp add: wf_gamepad_def slot_hid_id_roundtrip)

theorem gamepad_reach_invariant_witness:
  "wf_gamepad (snd (update_event (U_Button South True) 9 (snd (gamepad_open 9 None gamepad_new))))"
  using gamepad_reach_invariant [OF gamepad_reach.event [OF gamepad_reach.opened [OF gamepad_reach.new]]]
  by blast

text \<open>
  C6 (functional). The table of open gamepads behaves like a map from gamepad ids to HID ids: after
  any history of open and close calls it holds exactly the pairs the successful calls produced, every
  UHID_DESTROY names the HID id its gamepad was created with, and two gamepads that are open at the
  same time never share a HID id.
\<close>

theorem gamepad_table_correct:
  assumes "pads.run es gamepad_new = (hist, g)"
  shows "pad_lookup g = pads.replay hist Map.empty \<and>
    (\<forall>pre k h post. hist = pre @ ((k, False), h) # post \<longrightarrow> pads.replay pre Map.empty k = Some h) \<and>
    (\<forall>k k' h. pad_lookup g k = Some h \<and> pad_lookup g k' = Some h \<longrightarrow> k = k')"
proof -
  have "pad_lookup gamepad_new = Map.empty"
    using pads.init_empty by (simp add: fun_eq_iff)
  then show ?thesis
    using pads.run_replay [OF gamepad_new_wf assms] pads.close_paired [OF gamepad_new_wf assms]
      pads.no_sharing by metis
qed

theorem gamepad_table_correct_witness:
  "pads.run [(7, True)] gamepad_new = ([((7, True), 3)], snd (pad_open 7 gamepad_new)) \<and>
   pad_lookup (snd (pad_open 7 gamepad_new)) = [7 \<mapsto> 3]"
proof -
  have "fst (pad_open 7 gamepad_new) = Inr 3"
    by code_simp
  then have run: "pads.run [(7, True)] gamepad_new = ([((7, True), 3)], snd (pad_open 7 gamepad_new))"
    by (cases "pad_open 7 gamepad_new") simp
  then show ?thesis
    using gamepad_table_correct [OF run] by (simp add: pads.replay_def)
qed

text \<open>
  The 15-byte report carries the whole state of the pad: read little-endian at the
  offsets the report descriptor declares, it gives back the four stick axes (each the signed input
  shifted by 32768), the two triggers, the sixteen button bits and, in the last byte, the hat
  direction of the four dpad bits.
\<close>

theorem gamepad_report_decodes:
  "let p = slot_to_payload (apply_update (U_Full b lx ly rx ry lt rt) s) in
     length p = 15 \<and>
     map (\<lambda>i. uint (le16_at p i)) [0, 2, 4, 6] = map (\<lambda>v. sint v + 32768) [lx, ly, rx, ry] \<and>
     map (\<lambda>i. uint (le16_at p i)) [8, 10] = map (\<lambda>v. max 0 (sint v)) [lt, rt] \<and>
     le16_at p 12 = ucast b \<and>
     p ! 14 = hat_spec (bit b 16) (bit b 17) (bit b 18) (bit b 19)"
proof -
  have m: "BUTTONS_ALL_MASK = mask 20"
    by (simp add: BUTTONS_ALL_MASK_def BUTTONS_MASK_def mask_numeral)
  have bits: "bit (b AND BUTTONS_ALL_MASK) n = bit b n" if "n < 20" for n
    using that unfolding m by (simp add: bit_simps)
  have "(ucast (b AND BUTTONS_ALL_MASK) :: u16) = ucast b"
    by (intro bit_word_eqI) (simp add: bits bit_ucast_iff)
  then show ?thesis
    by (simp add: Let_def payload_decodes axis_rescale_uint trigger_value_uint bits del: hat_spec.simps)
qed

end
