(* ===== verification/Transport.thy ===== *)
theory Transport
  imports Hid
begin

text \<open>
  \<^verbatim>\<open>src/src/transport/mod.rs\<close> and the trait \<open>TransportWrite\<close> of \<^verbatim>\<open>src/src/error.rs\<close>. Fallible stateful code
  is an action \<open>('s, 'a) act\<close>: it returns a value or a fault, and the state it leaves in either case.
  The transport and the monotonic clock are outside the repository: \<open>transport_ops\<close> collects the calls
  the code makes, and the locale \<open>transport\<close> states what is documented about them. \<open>MockTransport\<close>, the
  in-memory transport of the sources, is its instance.
\<close>

section \<open>Fallible actions on a state\<close>

type_synonym ('s, 'a) act = "'s \<Rightarrow> 'a res \<times> 's"

definition act_ret :: "'a \<Rightarrow> ('s, 'a) act" where
  "act_ret x s = (Inr x, s)"

definition act_fail :: "fault \<Rightarrow> ('s, 'a) act" where
  "act_fail e s = (Inl e, s)"

definition act_then :: "('s, 'a) act \<Rightarrow> ('a \<Rightarrow> ('s, 'b) act) \<Rightarrow> ('s, 'b) act" where
  \<comment> \<open>sequencing with the \<open>?\<close> operator\<close>
  "act_then p f s = (case p s of (Inl e, s') \<Rightarrow> (Inl e, s') | (Inr x, s') \<Rightarrow> f x s')"

definition act_modify :: "('s \<Rightarrow> 's) \<Rightarrow> ('s, unit) act" where
  "act_modify f s = (Inr (), f s)"

definition act_gets :: "('s \<Rightarrow> 'a) \<Rightarrow> ('s, 'a) act" where
  "act_gets f s = (Inr (f s), s)"

fun act_seq :: "('s, unit) act list \<Rightarrow> ('s, unit) act" where
  "act_seq [] = act_ret ()"
| "act_seq (p # ps) = act_then p (\<lambda>_. act_seq ps)"

fun act_each :: "('x \<Rightarrow> ('s, unit) act) \<Rightarrow> 'x list \<Rightarrow> ('s, unit) act" where
  \<comment> \<open>\<open>for x in xs { body(x)?; }\<close>\<close>
  "act_each f [] = act_ret ()"
| "act_each f (x # xs) = act_then (f x) (\<lambda>_. act_each f xs)"

lemmas act_defs = act_ret_def act_fail_def act_then_def act_modify_def act_gets_def

lemma act_then_ok [simp]: "p s = (Inr x, s') \<Longrightarrow> act_then p f s = f x s'"
  by (simp add: act_then_def)

lemma act_then_err [simp]: "p s = (Inl e, s') \<Longrightarrow> act_then p f s = (Inl e, s')"
  by (simp add: act_then_def)

lemma act_then_Inr_iff:
  "act_then p f s = (Inr y, s2) \<longleftrightarrow> (\<exists>x s1. p s = (Inr x, s1) \<and> f x s1 = (Inr y, s2))"
  by (auto simp: act_then_def split: prod.splits sum.splits)

lemma act_simps [simp]:
  "act_ret x s = (Inr x, s)" "act_fail e s = (Inl e, s)" "act_modify g s = (Inr (), g s)"
  "act_gets h s = (Inr (h s), s)" "act_then (act_ret x) f s = f x s" "act_then (act_fail e) f s = (Inl e, s)"
  "act_then (act_modify g) k s = k () (g s)" "act_then (act_gets h) f s = f (h s) s"
  by (simp_all add: act_defs)

text \<open>
  A relation between the state before and after, kept by actions whatever their outcome. This is the
  frame rule of the development: reflexive and transitive relations are kept by sequencing.
\<close>

definition keeps :: "('s \<Rightarrow> 's \<Rightarrow> bool) \<Rightarrow> ('s, 'a) act \<Rightarrow> bool" where
  "keeps R p \<longleftrightarrow> (\<forall>s. R s (snd (p s)))"

lemma keepsI: "(\<And>s. R s (snd (p s))) \<Longrightarrow> keeps R p"
  by (simp add: keeps_def)

lemma keepsD: "keeps R p \<Longrightarrow> p s = (r, s') \<Longrightarrow> R s s'"
  by (metis keeps_def snd_conv)

lemma keeps_then:
  assumes "transp R" "keeps R p" "\<And>x. keeps R (f x)"
  shows "keeps R (act_then p f)"
proof (rule keepsI)
  fix s
  obtain r s1 where p: "p s = (r, s1)"
    by (cases "p s")
  then have "R s s1"
    using assms(2) keepsD by metis
  show "R s (snd (act_then p f s))"
  proof (cases r)
    case (Inr x)
    moreover have "R s1 (snd (f x s1))"
      using assms(3) [of x] by (simp add: keeps_def)
    ultimately show ?thesis
      using transpD [OF assms(1) \<open>R s s1\<close>] p by simp
  qed (use \<open>R s s1\<close> p in simp)
qed

lemma keeps_ret: "reflp R \<Longrightarrow> keeps R (act_ret x)" "reflp R \<Longrightarrow> keeps R (act_fail e)"
  "reflp R \<Longrightarrow> keeps R (act_gets h)"
  by (auto simp: keeps_def reflp_def)

lemma keeps_seq: "reflp R \<Longrightarrow> transp R \<Longrightarrow> list_all (keeps R) ps \<Longrightarrow> keeps R (act_seq ps)"
  by (induction ps) (auto intro: keeps_then keeps_ret)

lemma keeps_each: "reflp R \<Longrightarrow> transp R \<Longrightarrow> (\<And>x. keeps R (f x)) \<Longrightarrow> keeps R (act_each f xs)"
  by (induction xs) (auto intro: keeps_then keeps_ret)

section \<open>The transport\<close>

record 'e transport_ops =
  op_write_all :: "byte list \<Rightarrow> 'e \<Rightarrow> unit res \<times> 'e"
  op_flush :: "'e \<Rightarrow> unit res \<times> 'e"
  op_now :: "'e \<Rightarrow> nat \<times> 'e" \<comment> \<open>\<open>Instant::now()\<close>, in nanoseconds\<close>
  op_sleep :: "nat \<Rightarrow> 'e \<Rightarrow> 'e" \<comment> \<open>\<open>std::thread::sleep\<close>\<close>

text \<open>
  The documented behaviour the code relies on: \<open>wire\<close> is what the peer receives. \<open>write_all\<close> delivers
  all bytes or, when it fails, some prefix of them; flushing, reading the clock and sleeping
  deliver nothing.
\<close>

locale transport =
  fixes ops :: "'e transport_ops" and wire :: "'e \<Rightarrow> byte list"
  assumes write_ok: "op_write_all ops bs e = (Inr (), e') \<Longrightarrow> wire e' = wire e @ bs"
    and write_err: "op_write_all ops bs e = (Inl f, e') \<Longrightarrow> \<exists>n \<le> length bs. wire e' = wire e @ take n bs"
    and flush_wire: "op_flush ops e = (r, e') \<Longrightarrow> wire e' = wire e"
    and now_wire: "op_now ops e = (t, e') \<Longrightarrow> wire e' = wire e"
    and sleep_wire: "wire (op_sleep ops d e) = wire e"

text \<open>A transport whose calls never fail, for the claims that an operation succeeds.\<close>

locale reliable_transport = transport ops wire
  for ops :: "'e transport_ops" and wire :: "'e \<Rightarrow> byte list" +
  assumes write_total: "is_ok (fst (op_write_all ops bs e))"
    and flush_total: "is_ok (fst (op_flush ops e))"

definition send_one_with_buf :: "'e transport_ops \<Rightarrow> ControlMessage \<Rightarrow> byte list \<Rightarrow> 'e \<Rightarrow> unit res \<times> 'e" where
  \<comment> \<open>the buffer is cleared first, so the message stands alone in it\<close>
  "send_one_with_buf ops m buf =
     (case serialize_into m [] of
        (_, Inl e) \<Rightarrow> act_fail e
      | (buf', Inr _) \<Rightarrow> act_seq [op_write_all ops buf', op_flush ops])"

definition send_one :: "'e transport_ops \<Rightarrow> ControlMessage \<Rightarrow> 'e \<Rightarrow> unit res \<times> 'e" where
  "send_one ops m = send_one_with_buf ops m []"

fun serialize_all :: "ControlMessage list \<Rightarrow> byte list \<Rightarrow> byte list res" where
  \<comment> \<open>the loop of \<open>send_batch\<close>\<close>
  "serialize_all [] buf = Inr buf"
| "serialize_all (m # ms) buf =
     (case serialize_into m buf of (_, Inl e) \<Rightarrow> Inl e | (buf', Inr _) \<Rightarrow> serialize_all ms buf')"

definition send_batch :: "'e transport_ops \<Rightarrow> ControlMessage list \<Rightarrow> 'e \<Rightarrow> unit res \<times> 'e" where
  "send_batch ops ms =
     (case serialize_all ms [] of
        Inl e \<Rightarrow> act_fail e
      | Inr buf \<Rightarrow> (if buf = [] then act_ret () else act_seq [op_write_all ops buf, op_flush ops]))"

section \<open>The in-memory transport\<close>

record MockTransport =
  mt_bytes :: "byte list"

definition mock_new :: MockTransport where
  "mock_new = \<lparr>mt_bytes = []\<rparr>"

definition mock_write :: "byte list \<Rightarrow> MockTransport \<Rightarrow> nat \<times> MockTransport" where
  "mock_write buf e = (length buf, e\<lparr>mt_bytes := mt_bytes e @ buf\<rparr>)"

definition mock_flush :: "MockTransport \<Rightarrow> unit res \<times> MockTransport" where
  "mock_flush e = (Inr (), e)"

text \<open>\<open>io::Write::write_all\<close> over \<open>write\<close>, which here takes everything at once; the clock is an argument.\<close>

definition mock_ops :: "nat \<Rightarrow> MockTransport transport_ops" where
  "mock_ops clock = \<lparr>op_write_all = (\<lambda>buf e. (Inr (), snd (mock_write buf e))),
     op_flush = mock_flush, op_now = (\<lambda>e. (clock, e)), op_sleep = (\<lambda>d e. e)\<rparr>"

interpretation mock: transport "mock_ops clock" mt_bytes
  by unfold_locales (auto simp: mock_ops_def mock_write_def mock_flush_def)

interpretation reliable_mock: reliable_transport "mock_ops clock" mt_bytes
  by unfold_locales (auto simp: mock_ops_def mock_write_def mock_flush_def)

section \<open>What is sent\<close>

definition msg_bytes :: "ControlMessage \<Rightarrow> byte list" where
  "msg_bytes m = wire_bytes (wire_of m)"

lemma msg_bytes_input_of: "length data \<le> 15 \<Longrightarrow> msg_bytes (input_of i data) = 13 # to_be_bytes i @ short_str data"
  by (simp add: msg_bytes_def)

lemma serialize_into_bytes:
  "wf_msg m \<Longrightarrow> msg_fault m = None \<Longrightarrow> serialize_into m buf = (buf @ msg_bytes m, Inr (length (msg_bytes m)))"
  by (simp add: serialize_into_ok msg_bytes_def)

lemma serialize_into_cases:
  assumes "wf_msg m"
  obtains "msg_fault m = None" "serialize_into m buf = (buf @ msg_bytes m, Inr (length (msg_bytes m)))"
  | e where "msg_fault m = Some (Err e)" "serialize_into m buf = (buf, Inl (Err e))"
  | junk where "msg_fault m = Some Panicked" "serialize_into m buf = (junk, Inl Panicked)"
proof (cases "msg_fault m")
  case None
  then show ?thesis
    using that(1) assms serialize_into_bytes by blast
next
  case (Some f)
  then show ?thesis
    using that(2,3) serialize_into_err [of m _ buf] serialize_into_panic [of m buf]
    by (cases f) (metis, metis prod.collapse)
qed

lemma serialize_all_spec:
  assumes "list_all wf_msg ms"
  shows "serialize_all ms buf = (case find (\<lambda>m. msg_fault m \<noteq> None) ms of
      None \<Rightarrow> Inr (buf @ concat (map msg_bytes ms))
    | Some m \<Rightarrow> Inl (the (msg_fault m)))"
  using assms
proof (induction ms arbitrary: buf)
  case (Cons m ms)
  show ?case
  proof (cases "msg_fault m")
    case None
    then show ?thesis
      using Cons by (simp add: serialize_into_bytes split: option.split)
  next
    case (Some f)
    then show ?thesis
      using serialize_into_err [of m _ buf] serialize_into_panic [of m buf]
      by (cases f) (auto split: prod.splits sum.splits)
  qed
qed simp

context transport
begin

lemma send_batch_wire:
  assumes "list_all wf_msg ms" and "send_batch ops ms e = (Inr (), e')"
  shows "wire e' = wire e @ concat (map msg_bytes ms)"
proof -
  obtain buf where buf: "serialize_all ms [] = Inr buf"
    using assms(2) by (auto simp: send_batch_def split: sum.splits)
  then have eq: "buf = concat (map msg_bytes ms)"
    using serialize_all_spec [OF assms(1), of "[]"] by (auto split: option.splits)
  show ?thesis
  proof (cases "buf = []")
    case True
    then show ?thesis
      using assms(2) buf eq by (simp add: send_batch_def)
  next
    case False
    then obtain e1 where "op_write_all ops buf e = (Inr (), e1)" "op_flush ops e1 = (Inr (), e')"
      using assms(2) buf by (auto simp: send_batch_def act_then_Inr_iff)
    then show ?thesis
      using write_ok flush_wire eq by metis
  qed
qed

end

end
