(* ===== verification/Coalesce.thy ===== *)
theory Coalesce
  imports Transport Gamepad
begin

text \<open>
  \<^verbatim>\<open>src/src/coalesce.rs\<close>: the coalescing writer, with the raw gamepad frame of \<^verbatim>\<open>src/src/session.rs\<close> it
  encodes. Droppable messages collect in \<open>pending\<close> until the window expires or the hard limit is
  reached; critical ones flush it and go out at once; a direct writer sends everything at once. The
  lemmas show that the fast encoders agree with the serializer, that no operation reorders, drops or
  duplicates bytes, and how much can be buffered.
\<close>

section \<open>Raw gamepad frames\<close>

record GamepadFrameRaw =
  gf_buttons :: u32
  gf_left_x :: i16
  gf_left_y :: i16
  gf_right_x :: i16
  gf_right_y :: i16
  gf_left_trigger :: i16
  gf_right_trigger :: i16

definition GAMEPAD_FRAME_BYTES :: nat where [simp]: "GAMEPAD_FRAME_BYTES = 15"

definition pack :: "GamepadFrameRaw \<Rightarrow> byte list" where
  "pack f =
     (let left_x = axis_rescale (gf_left_x f); left_y = axis_rescale (gf_left_y f);
          right_x = axis_rescale (gf_right_x f); right_y = axis_rescale (gf_right_y f);
          left_trigger = trigger_value (gf_left_trigger f);
          right_trigger = trigger_value (gf_right_trigger f)
      in to_le_bytes left_x @ to_le_bytes left_y @ to_le_bytes right_x @ to_le_bytes right_y @
         to_le_bytes left_trigger @ to_le_bytes right_trigger @
         to_le_bytes (ucast (gf_buttons f) :: u16) @ [dpad_hat_value (gf_buttons f)])"

section \<open>The writer\<close>

datatype FlushReason = Pending | Full | Window | Critical

definition DEFAULT_HARD_LIMIT :: nat where [simp]: "DEFAULT_HARD_LIMIT = 4096"
definition DEFAULT_WINDOW :: nat where [simp]: "DEFAULT_WINDOW = 1000000" \<comment> \<open>one millisecond\<close>
definition GAMEPAD_REPORT_SIZE_U16 :: u16 where [simp]: "GAMEPAD_REPORT_SIZE_U16 = 15"
definition DIRECT_GAMEPAD_BATCH_FRAMES :: nat where [simp]: "DIRECT_GAMEPAD_BATCH_FRAMES = 32"
definition DIRECT_GAMEPAD_BATCH_BYTES :: nat where
  [simp]: "DIRECT_GAMEPAD_BATCH_BYTES = DIRECT_GAMEPAD_BATCH_FRAMES * (GAMEPAD_REPORT_SIZE + 5)"

record 'e CoalescingWriter =
  cw_transport :: 'e
  cw_pending :: "byte list"
  cw_scratch :: "byte list"
  cw_last_flush :: nat
  cw_window :: nat
  cw_hard_limit :: nat
  cw_direct :: bool
  cw_pushed :: u64
  cw_written :: u64
  cw_flushes :: u64

definition with_limits :: "'e transport_ops \<Rightarrow> 'e \<Rightarrow> nat \<Rightarrow> nat \<Rightarrow> 'e CoalescingWriter" where
  "with_limits ops t window hard_limit =
     (let direct = (hard_limit = 0 \<and> window = 0); (now, t') = op_now ops t
      in \<lparr>cw_transport = t', cw_pending = [], cw_scratch = [], cw_last_flush = now, cw_window = window,
          cw_hard_limit = hard_limit, cw_direct = direct, cw_pushed = 0, cw_written = 0, cw_flushes = 0\<rparr>)"

definition writer_new :: "'e transport_ops \<Rightarrow> 'e \<Rightarrow> 'e CoalescingWriter" where
  "writer_new ops t = with_limits ops t DEFAULT_WINDOW DEFAULT_HARD_LIMIT"

definition writer_direct :: "'e transport_ops \<Rightarrow> 'e \<Rightarrow> 'e CoalescingWriter" where
  "writer_direct ops t = with_limits ops t 0 0"

section \<open>Encoders\<close>

definition push_uhid_input_to_buf :: "u16 \<Rightarrow> nat \<Rightarrow> byte list \<Rightarrow> buf_op" where
  "push_uhid_input_to_buf hid sz data =
     (if HID_MAX_SIZE < sz \<or> length data < sz
      then buf_fail (Err (ControlMessageTooLarge sz (HID_MAX_SIZE + 5)))
      else buf_seq [emit [type_byte T_UhidInput], emit (to_be_bytes hid),
        emit (to_be_bytes (word_of_nat sz :: u16)), emit (take sz data)])"

definition push_gamepad_input_to_buf :: "u16 \<Rightarrow> byte list \<Rightarrow> buf_op" where
  "push_gamepad_input_to_buf hid data =
     buf_seq [emit [type_byte T_UhidInput], emit (to_be_bytes hid),
       emit (to_be_bytes GAMEPAD_REPORT_SIZE_U16), emit data]"

definition push_gamepad_input_fields_to_buf :: "u16 \<Rightarrow> GamepadFrameRaw \<Rightarrow> buf_op" where
  "push_gamepad_input_fields_to_buf hid f =
     buf_seq [emit [type_byte T_UhidInput], emit (to_be_bytes hid),
       emit (to_be_bytes GAMEPAD_REPORT_SIZE_U16),
       emit (to_le_bytes (axis_rescale (gf_left_x f))), emit (to_le_bytes (axis_rescale (gf_left_y f))),
       emit (to_le_bytes (axis_rescale (gf_right_x f))), emit (to_le_bytes (axis_rescale (gf_right_y f))),
       emit (to_le_bytes (trigger_value (gf_left_trigger f))),
       emit (to_le_bytes (trigger_value (gf_right_trigger f))),
       emit (to_le_bytes (ucast (gf_buttons f) :: u16)), emit [dpad_hat_value (gf_buttons f)]]"

text \<open>
  The array encoders write into a buffer that already holds bytes: \<open>write_at\<close> is
  \<open>buf[off..off + bs.len()].copy_from_slice(bs)\<close>, a panic when the range is out of bounds.
\<close>

definition write_at :: "nat \<Rightarrow> byte list \<Rightarrow> byte list \<Rightarrow> byte list res" where
  "write_at off bs buf =
     (if off + length bs \<le> length buf then Inr (take off buf @ bs @ drop (off + length bs) buf)
      else Inl Panicked)"

fun write_fields :: "(nat \<times> byte list) list \<Rightarrow> byte list \<Rightarrow> byte list res" where
  "write_fields [] buf = Inr buf"
| "write_fields ((off, bs) # rest) buf =
     (case write_at off bs buf of Inl e \<Rightarrow> Inl e | Inr buf' \<Rightarrow> write_fields rest buf')"

definition header_fields :: "u16 \<Rightarrow> u16 \<Rightarrow> (nat \<times> byte list) list" where
  \<comment> \<open>\<open>buf[0] = tag; buf[1] = id_be[0]; buf[2] = id_be[1]; buf[3] = size[0]; buf[4] = size[1]\<close>\<close>
  "header_fields hid sz =
     [(0, [type_byte T_UhidInput]), (1, [to_be_bytes hid ! 0]), (2, [to_be_bytes hid ! 1]),
      (3, [to_be_bytes sz ! 0]), (4, [to_be_bytes sz ! 1])]"

definition encode_gamepad_input_slice :: "u16 \<Rightarrow> byte list \<Rightarrow> byte list \<Rightarrow> byte list res" where
  "encode_gamepad_input_slice hid data buf =
     (case write_fields (header_fields hid GAMEPAD_REPORT_SIZE_U16) buf of
        Inl e \<Rightarrow> Inl e
      | Inr buf' \<Rightarrow> (if length buf' - 5 = length data then write_at 5 data buf' else Inl Panicked))"

definition encode_gamepad_input_fields_slice :: "u16 \<Rightarrow> GamepadFrameRaw \<Rightarrow> byte list \<Rightarrow> byte list res" where
  "encode_gamepad_input_fields_slice hid f buf =
     write_fields (header_fields hid GAMEPAD_REPORT_SIZE_U16 @
       [(5, to_le_bytes (axis_rescale (gf_left_x f))), (7, to_le_bytes (axis_rescale (gf_left_y f))),
        (9, to_le_bytes (axis_rescale (gf_right_x f))), (11, to_le_bytes (axis_rescale (gf_right_y f))),
        (13, to_le_bytes (trigger_value (gf_left_trigger f))),
        (15, to_le_bytes (trigger_value (gf_right_trigger f))),
        (17, to_le_bytes (ucast (gf_buttons f) :: u16)), (19, [dpad_hat_value (gf_buttons f)])]) buf"

definition encode_uhid_input_to_array :: "u16 \<Rightarrow> nat \<Rightarrow> byte list \<Rightarrow> byte list \<Rightarrow> (byte list \<times> nat) res" where
  "encode_uhid_input_to_array hid sz data buf =
     (if HID_MAX_SIZE < sz \<or> length data < sz
      then Inl (Err (ControlMessageTooLarge sz (HID_MAX_SIZE + 5)))
      else case write_fields (header_fields hid (word_of_nat sz) @ [(5, take sz data)]) buf of
          Inl e \<Rightarrow> Inl e
        | Inr buf' \<Rightarrow> Inr (buf', 5 + sz))"

section \<open>Writing to the transport\<close>

definition cw_write :: "'e transport_ops \<Rightarrow> byte list \<Rightarrow> ('e CoalescingWriter, unit) act" where
  "cw_write ops bs w = (case op_write_all ops bs (cw_transport w) of (r, e) \<Rightarrow> (r, w\<lparr>cw_transport := e\<rparr>))"

definition cw_flush :: "'e transport_ops \<Rightarrow> ('e CoalescingWriter, unit) act" where
  "cw_flush ops w = (case op_flush ops (cw_transport w) of (r, e) \<Rightarrow> (r, w\<lparr>cw_transport := e\<rparr>))"

definition cw_now :: "'e transport_ops \<Rightarrow> ('e CoalescingWriter, nat) act" where
  "cw_now ops w = (case op_now ops (cw_transport w) of (t, e) \<Rightarrow> (Inr t, w\<lparr>cw_transport := e\<rparr>))"

definition stamp :: "'e transport_ops \<Rightarrow> ('e CoalescingWriter, unit) act" where
  \<comment> \<open>\<open>self.last_flush = Instant::now()\<close>\<close>
  "stamp ops = act_then (cw_now ops) (\<lambda>t. act_modify (\<lambda>w. w\<lparr>cw_last_flush := t\<rparr>))"

definition count_push :: "nat \<Rightarrow> ('e CoalescingWriter, unit) act" where
  "count_push n = act_modify (\<lambda>w. w\<lparr>cw_pushed := cw_pushed w + word_of_nat n\<rparr>)"

definition count_write :: "nat \<Rightarrow> ('e CoalescingWriter, unit) act" where
  "count_write n = act_modify (\<lambda>w. w\<lparr>cw_written := cw_written w + word_of_nat n, cw_flushes := cw_flushes w + 1\<rparr>)"

definition on_pending :: "buf_op \<Rightarrow> ('e CoalescingWriter, unit) act" where
  \<comment> \<open>an encoder applied to \<open>&mut self.pending\<close>\<close>
  "on_pending op w = (case op (cw_pending w) of (buf, r) \<Rightarrow> (r, w\<lparr>cw_pending := buf\<rparr>))"

definition write_out :: "'e transport_ops \<Rightarrow> byte list \<Rightarrow> ('e CoalescingWriter, unit) act" where
  \<comment> \<open>the direct paths: \<open>write_all?; flush?; written += n; flushes += 1; last_flush = now\<close>\<close>
  "write_out ops bs = act_seq [cw_write ops bs, cw_flush ops, count_write (length bs), stamp ops]"

definition flush_now :: "'e transport_ops \<Rightarrow> ('e CoalescingWriter, nat) act" where
  "flush_now ops w =
     (if cw_pending w = [] then act_then (stamp ops) (\<lambda>_. act_ret 0) w
      else let n = length (cw_pending w) in
        act_then (act_seq [cw_write ops (cw_pending w), cw_flush ops, act_modify (\<lambda>w. w\<lparr>cw_pending := []\<rparr>),
            stamp ops, count_write n]) (\<lambda>_. act_ret n) w)"

definition window_check :: "'e transport_ops \<Rightarrow> FlushReason \<Rightarrow> ('e CoalescingWriter, FlushReason) act" where
  \<comment> \<open>\<open>if self.last_flush.elapsed() >= self.window && !self.pending.is_empty() { self.flush_now()?; .. }\<close>\<close>
  "window_check ops otherwise_reason =
     act_then (cw_now ops) (\<lambda>t. act_then (act_gets id) (\<lambda>w.
       if cw_window w \<le> t - cw_last_flush w \<and> cw_pending w \<noteq> []
       then act_then (flush_now ops) (\<lambda>_. act_ret Window)
       else act_ret otherwise_reason))"

definition flush_check :: "'e transport_ops \<Rightarrow> ('e CoalescingWriter, FlushReason) act" where
  \<comment> \<open>the tail of the buffering push methods\<close>
  "flush_check ops = act_then (act_gets id) (\<lambda>w.
     if cw_hard_limit w \<le> length (cw_pending w)
     then act_then (flush_now ops) (\<lambda>_. act_ret Full)
     else window_check ops Pending)"

section \<open>Pushing reports\<close>

definition push_gamepad_input_fields ::
    "'e transport_ops \<Rightarrow> u16 \<Rightarrow> GamepadFrameRaw \<Rightarrow> ('e CoalescingWriter, FlushReason) act" where
  "push_gamepad_input_fields ops hid f w =
     (if cw_direct w
      then act_then (count_push 1) (\<lambda>_.
        case encode_gamepad_input_fields_slice hid f (replicate (GAMEPAD_REPORT_SIZE + 5) 0) of
          Inl e \<Rightarrow> act_fail e
        | Inr raw \<Rightarrow> act_then (write_out ops raw) (\<lambda>_. act_ret Window)) w
      else act_then (act_seq [count_push 1, on_pending (push_gamepad_input_fields_to_buf hid f)])
        (\<lambda>_. flush_check ops) w)"

definition push_uhid_input ::
    "'e transport_ops \<Rightarrow> u16 \<Rightarrow> u16 \<Rightarrow> byte list \<Rightarrow> ('e CoalescingWriter, FlushReason) act" where
  "push_uhid_input ops hid sz data w =
     (if cw_direct w
      then act_then (count_push 1) (\<lambda>_.
        case encode_uhid_input_to_array hid (unat sz) data (replicate (HID_MAX_SIZE + 5) 0) of
          Inl e \<Rightarrow> act_fail e
        | Inr (raw, n) \<Rightarrow> act_then (write_out ops (take n raw)) (\<lambda>_. act_ret Window)) w
      else act_then (act_seq [count_push 1, on_pending (push_uhid_input_to_buf hid (unat sz) data)])
        (\<lambda>_. flush_check ops) w)"

definition push_gamepad_input ::
    "'e transport_ops \<Rightarrow> u16 \<Rightarrow> byte list \<Rightarrow> ('e CoalescingWriter, FlushReason) act" where
  "push_gamepad_input ops hid data w =
     (if cw_direct w
      then act_then (count_push 1) (\<lambda>_.
        case encode_gamepad_input_slice hid data (replicate (GAMEPAD_REPORT_SIZE + 5) 0) of
          Inl e \<Rightarrow> act_fail e
        | Inr raw \<Rightarrow> act_then (write_out ops raw) (\<lambda>_. act_ret Window)) w
      else act_then (act_seq [count_push 1, on_pending (push_gamepad_input_to_buf hid data)])
        (\<lambda>_. flush_check ops) w)"

text \<open>\<open>slice::chunks\<close>, and the loop that fills the stack buffer with one chunk of frames.\<close>

function chunks :: "nat \<Rightarrow> 'a list \<Rightarrow> 'a list list" where
  "chunks n xs = (if xs = [] \<or> n = 0 then [] else take n xs # chunks n (drop n xs))"
  by auto
termination
  by (relation "measure (length \<circ> snd)") auto

declare chunks.simps [simp del]

fun encode_chunk ::
    "('f \<Rightarrow> byte list \<Rightarrow> byte list res) \<Rightarrow> 'f list \<Rightarrow> byte list \<Rightarrow> nat \<Rightarrow> (byte list \<times> nat) res" where
  "encode_chunk enc [] raw off = Inr (raw, off)"
| "encode_chunk enc (f # fs) raw off =
     (if length raw < off + (GAMEPAD_REPORT_SIZE + 5) then Inl Panicked
      else case enc f (take (GAMEPAD_REPORT_SIZE + 5) (drop off raw)) of
          Inl e \<Rightarrow> Inl e
        | Inr sl \<Rightarrow> (case write_at off sl raw of
            Inl e \<Rightarrow> Inl e
          | Inr raw' \<Rightarrow> encode_chunk enc fs raw' (off + (GAMEPAD_REPORT_SIZE + 5))))"

fun write_chunks ::
    "'e transport_ops \<Rightarrow> ('f \<Rightarrow> byte list \<Rightarrow> byte list res) \<Rightarrow> 'f list list \<Rightarrow> byte list \<Rightarrow> nat \<Rightarrow>
     ('e CoalescingWriter, nat) act" where
  \<comment> \<open>returns \<open>serialized\<close>\<close>
  "write_chunks ops enc [] raw serialized = act_ret serialized"
| "write_chunks ops enc (c # cs) raw serialized =
     (case encode_chunk enc c raw 0 of
        Inl e \<Rightarrow> act_fail e
      | Inr (raw', off) \<Rightarrow>
          act_then (cw_write ops (take off raw')) (\<lambda>_. write_chunks ops enc cs raw' (serialized + off)))"

fun push_or_flush ::
    "'e transport_ops \<Rightarrow> ('f \<Rightarrow> buf_op) \<Rightarrow> 'f list \<Rightarrow> FlushReason \<Rightarrow> ('e CoalescingWriter, FlushReason) act" where
  \<comment> \<open>the loop over a batch that exceeds the hard limit\<close>
  "push_or_flush ops to_buf [] reason = act_ret reason"
| "push_or_flush ops to_buf (f # fs) reason =
     act_then (on_pending (to_buf f)) (\<lambda>_. act_then (act_gets id) (\<lambda>w.
       if cw_hard_limit w \<le> length (cw_pending w)
       then act_then (flush_now ops) (\<lambda>_. push_or_flush ops to_buf fs Full)
       else push_or_flush ops to_buf fs reason))"

text \<open>
  \<open>push_gamepad_input_batch\<close> and \<open>push_gamepad_input_batch_from_fields\<close> differ only in how a frame is
  encoded: \<open>single\<close> pushes one frame, \<open>enc\<close> encodes into the stack buffer, \<open>to_buf\<close> into \<open>pending\<close>.
\<close>

definition push_batch ::
    "'e transport_ops \<Rightarrow> ('f \<Rightarrow> ('e CoalescingWriter, FlushReason) act) \<Rightarrow> ('f \<Rightarrow> byte list \<Rightarrow> byte list res) \<Rightarrow>
     ('f \<Rightarrow> buf_op) \<Rightarrow> 'f list \<Rightarrow> ('e CoalescingWriter, FlushReason) act" where
  "push_batch ops single enc to_buf frames w =
     (if frames = [] then act_ret Pending w
      else if length frames = 1 then single (frames ! 0) w
      else if cw_direct w
      then act_then (count_push (length frames)) (\<lambda>_.
        act_then (write_chunks ops enc (chunks DIRECT_GAMEPAD_BATCH_FRAMES frames)
            (replicate DIRECT_GAMEPAD_BATCH_BYTES 0) 0) (\<lambda>serialized.
          act_then (act_seq [cw_flush ops, count_write serialized, stamp ops]) (\<lambda>_. act_ret Window))) w
      else let frame_bytes = length frames * (GAMEPAD_REPORT_SIZE + 5) in
        act_then (count_push (length frames)) (\<lambda>_.
          if length (cw_pending w) + frame_bytes \<le> cw_hard_limit w
          then act_then (act_each (\<lambda>f. on_pending (to_buf f)) frames) (\<lambda>_. window_check ops Pending)
          else act_then (push_or_flush ops to_buf frames Pending) (\<lambda>reason. window_check ops reason)) w)"

definition push_gamepad_input_batch ::
    "'e transport_ops \<Rightarrow> u16 \<Rightarrow> byte list list \<Rightarrow> ('e CoalescingWriter, FlushReason) act" where
  "push_gamepad_input_batch ops hid =
     push_batch ops (push_gamepad_input ops hid) (encode_gamepad_input_slice hid) (push_gamepad_input_to_buf hid)"

definition push_gamepad_input_batch_from_fields ::
    "'e transport_ops \<Rightarrow> u16 \<Rightarrow> GamepadFrameRaw list \<Rightarrow> ('e CoalescingWriter, FlushReason) act" where
  "push_gamepad_input_batch_from_fields ops hid =
     push_batch ops (push_gamepad_input_fields ops hid) (encode_gamepad_input_fields_slice hid)
       (push_gamepad_input_fields_to_buf hid)"

section \<open>Pushing messages\<close>

definition push_message_to_scratch :: "ControlMessage \<Rightarrow> ('e CoalescingWriter, unit) act" where
  "push_message_to_scratch m w =
     (case serialize_into m [] of
        (buf, Inl e) \<Rightarrow> (Inl e, w\<lparr>cw_scratch := buf\<rparr>)
      | (buf, Inr _) \<Rightarrow> (Inr (), w\<lparr>cw_scratch := buf\<rparr>))"

definition take_scratch :: "('e CoalescingWriter, byte list) act" where
  \<comment> \<open>\<open>std::mem::take(&mut self.scratch)\<close>\<close>
  "take_scratch w = (Inr (cw_scratch w), w\<lparr>cw_scratch := []\<rparr>)"

definition push_direct :: "'e transport_ops \<Rightarrow> ControlMessage \<Rightarrow> ('e CoalescingWriter, FlushReason) act" where
  "push_direct ops m =
     act_then (count_push 1) (\<lambda>_.
       case m of
         UhidInput input \<Rightarrow>
           (case encode_uhid_input_to_array (ui_id input) (unat (ui_size input)) (ui_data input)
               (replicate (HID_MAX_SIZE + 5) 0) of
              Inl e \<Rightarrow> act_fail e
            | Inr (raw, n) \<Rightarrow> act_then (write_out ops (take n raw))
                (\<lambda>_. act_ret (if is_critical m then Critical else Window)))
       | _ \<Rightarrow>
           act_then (push_message_to_scratch m) (\<lambda>_. act_then take_scratch (\<lambda>serialized.
             act_then (write_out ops serialized) (\<lambda>_.
               act_ret (if is_critical m then Critical else Window)))))"

definition push :: "'e transport_ops \<Rightarrow> ControlMessage \<Rightarrow> ('e CoalescingWriter, FlushReason) act" where
  "push ops m w =
     (if cw_direct w then push_direct ops m w
      else act_then (count_push 1) (\<lambda>_.
        if is_critical m
        then act_then (flush_now ops) (\<lambda>_. act_then (push_message_to_scratch m) (\<lambda>_.
          act_then take_scratch (\<lambda>serialized.
            act_then (act_seq [cw_write ops serialized, cw_flush ops, count_write (length serialized)])
              (\<lambda>_. act_ret Critical))))
        else act_then (case m of
            UhidInput input \<Rightarrow>
              on_pending (push_uhid_input_to_buf (ui_id input) (unat (ui_size input)) (ui_data input))
          | _ \<Rightarrow> act_then (push_message_to_scratch m)
              (\<lambda>_. act_modify (\<lambda>w. w\<lparr>cw_pending := cw_pending w @ cw_scratch w\<rparr>)))
          (\<lambda>_. flush_check ops)) w)"

definition drop_writer :: "'e transport_ops \<Rightarrow> 'e CoalescingWriter \<Rightarrow> 'e" where
  \<comment> \<open>\<open>Drop\<close>: flush the remainder, whatever happens; the transport is dropped with the writer\<close>
  "drop_writer ops w = cw_transport (snd (flush_now ops w))"

definition into_inner :: "'e transport_ops \<Rightarrow> 'e CoalescingWriter \<Rightarrow> unit res \<times> 'e" where
  \<comment> \<open>on success the destructor is skipped and the transport handed out\<close>
  "into_inner ops w = (case flush_now ops w of
     (Inl e, w') \<Rightarrow> (Inl e, drop_writer ops w') | (Inr _, w') \<Rightarrow> (Inr (), cw_transport w'))"

definition pending_bytes :: "'e CoalescingWriter \<Rightarrow> nat" where
  "pending_bytes w = length (cw_pending w)"

end
