(* ===== verification/Coalesce_Stream.thy ===== *)
theory Coalesce_Stream
  imports Coalesce
begin

text \<open>
  Correctness of the coalescing writer of the theory \<open>Coalesce\<close>: the fast encoders produce the bytes of
  the generic serializer, and every operation, on any transport that satisfies the contract
  \<open>transport\<close>, appends the bytes of its messages, in order, to what has been written and buffered.
\<close>

section \<open>The encoders agree with the serializer\<close>

lemma u16_bytes: "to_be_bytes (v :: u16) ! 0 # to_be_bytes v ! 1 # rest = to_be_bytes v @ rest"
  by (simp add: to_be_bytes_u16)

lemma be_15: "to_be_bytes (15 :: u16) = [0, 15]"
  by (simp add: to_be_bytes_u16)

lemma length_pack [simp]: "length (pack f) = 15"
  by (simp add: pack_def Let_def)

lemma pack_is_full_state:
  "pack f = slot_to_payload (apply_update (U_Full (gf_buttons f) (gf_left_x f) (gf_left_y f)
     (gf_right_x f) (gf_right_y f) (gf_left_trigger f) (gf_right_trigger f)) s)"
proof -
  have m: "BUTTONS_ALL_MASK = mask 20" "BUTTONS_MASK = mask 16"
    by (simp_all add: BUTTONS_ALL_MASK_def BUTTONS_MASK_def mask_numeral)
  have b: "(ucast ((b AND BUTTONS_ALL_MASK) AND BUTTONS_MASK) :: u16) = ucast b" for b
    unfolding m by (intro bit_word_eqI) (simp add: bit_simps)
  have h: "dpad_hat_value (b AND BUTTONS_ALL_MASK) = dpad_hat_value b" for b
    unfolding dpad_hat_value_spec m by (simp add: bit_simps del: hat_spec.simps)
  show ?thesis
    unfolding pack_def slot_to_payload_def Let_def by (simp add: b h)
qed

lemma length_report_msg [simp]: "length data = 15 \<Longrightarrow> length (msg_bytes (input_of hid data)) = 20"
  by (simp add: msg_bytes_input_of short_str_def)

lemma write_fields_20:
  assumes "length buf = 20"
  shows "write_fields (header_fields hid sz) buf = Inr (13 # to_be_bytes hid @ to_be_bytes sz @ drop 5 buf)"
proof -
  obtain b0 b1 b2 b3 b4 r where "buf = b0 # b1 # b2 # b3 # b4 # r"
    using assms by (auto simp: length_Suc_conv numeral_eq_Suc)
  then show ?thesis
    by (simp add: header_fields_def write_at_def u16_bytes [symmetric])
qed

lemma write_fields_append:
  "write_fields (xs @ ys) buf = (case write_fields xs buf of Inl e \<Rightarrow> Inl e | Inr b \<Rightarrow> write_fields ys b)"
  by (induction xs arbitrary: buf) (auto split: sum.splits)

lemma encode_slice_ok:
  assumes "length buf = 20" "length data = 15"
  shows "encode_gamepad_input_slice hid data buf = Inr (msg_bytes (input_of hid data))"
  using assms by (simp add: encode_gamepad_input_slice_def write_fields_20 write_at_def
      msg_bytes_input_of short_str_def be_15)

lemma write_at_append:
  "length pre = off \<Longrightarrow> length bs \<le> length rest \<Longrightarrow> write_at off bs (pre @ rest) = Inr (pre @ bs @ drop (length bs) rest)"
  by (simp add: write_at_def)

lemma encode_fields_slice_ok:
  assumes "length buf = 20"
  shows "encode_gamepad_input_fields_slice hid f buf = Inr (msg_bytes (input_of hid (pack f)))"
proof -
  define r where "r = drop 5 buf"
  have "length r = 15"
    using assms by (simp add: r_def)
  then obtain b5 b6 b7 b8 b9 b10 b11 b12 b13 b14 b15 b16 b17 b18 b19 where
    "r = [b5, b6, b7, b8, b9, b10, b11, b12, b13, b14, b15, b16, b17, b18, b19]"
    by (auto simp: length_Suc_conv numeral_eq_Suc)
  then have d: "drop 5 buf = [b5, b6, b7, b8, b9, b10, b11, b12, b13, b14, b15, b16, b17, b18, b19]"
    by (simp add: r_def)
  show ?thesis
    using assms by (simp add: encode_gamepad_input_fields_slice_def write_fields_append write_fields_20 d
        msg_bytes_input_of short_str_def be_15 pack_def Let_def to_be_bytes_u16 to_le_bytes_u16 write_at_def)
qed

lemma push_gamepad_to_buf_ok:
  "length data = 15 \<Longrightarrow> push_gamepad_input_to_buf hid data buf = (buf @ msg_bytes (input_of hid data), Inr ())"
  by (simp add: push_gamepad_input_to_buf_def emit_def msg_bytes_input_of short_str_def be_15)

lemma push_fields_to_buf_ok:
  "push_gamepad_input_fields_to_buf hid f buf = (buf @ msg_bytes (input_of hid (pack f)), Inr ())"
  by (simp add: push_gamepad_input_fields_to_buf_def emit_def msg_bytes_input_of short_str_def be_15
      pack_def Let_def)

lemma push_uhid_to_buf_ok:
  "sz \<le> 15 \<Longrightarrow> sz \<le> length data \<Longrightarrow>
     push_uhid_input_to_buf hid sz data buf = (buf @ msg_bytes (input_of hid (take sz data)), Inr ())"
  by (simp add: push_uhid_input_to_buf_def emit_def msg_bytes_input_of short_str_def min_def)

lemma encode_uhid_ok:
  assumes "sz \<le> 15" "sz \<le> length data"
  shows "\<exists>raw. encode_uhid_input_to_array hid sz data (replicate (HID_MAX_SIZE + 5) 0) = Inr (raw, 5 + sz) \<and>
    take (5 + sz) raw = msg_bytes (input_of hid (take sz data))"
proof -
  define h where "h = 13 # to_be_bytes hid @ to_be_bytes (word_of_nat sz :: u16)"
  have h: "length h = 5"
    by (simp add: h_def)
  have "write_fields (header_fields hid (word_of_nat sz)) (replicate 20 0) = Inr (h @ replicate 15 0)"
    by (simp add: write_fields_20 h_def)
  then have "encode_uhid_input_to_array hid sz data (replicate (HID_MAX_SIZE + 5) 0) =
      Inr (h @ take sz data @ drop sz (replicate 15 0), 5 + sz)"
    using assms h by (simp add: encode_uhid_input_to_array_def write_fields_append write_at_append min_def)
  moreover have "take (5 + sz) (h @ take sz data @ drop sz (replicate 15 0)) = h @ take sz data"
    using assms h by simp
  moreover have "h @ take sz data = msg_bytes (input_of hid (take sz data))"
    using assms by (simp add: h_def msg_bytes_input_of short_str_def min_def)
  ultimately show ?thesis
    by simp
qed

lemma encode_chunk_ok:
  assumes "\<And>f buf. f \<in> set fs \<Longrightarrow> length buf = 20 \<Longrightarrow> enc f buf = Inr (g f)" "\<And>f. f \<in> set fs \<Longrightarrow> length (g f) = 20"
    and "off + 20 * length fs \<le> length raw"
  shows "\<exists>raw'. encode_chunk enc fs raw off = Inr (raw', off + 20 * length fs) \<and> length raw' = length raw \<and>
    take (off + 20 * length fs) raw' = take off raw @ concat (map g fs)"
  using assms
proof (induction fs arbitrary: raw off)
  case (Cons f fs)
  have len: "off + 20 \<le> length raw" "length (g f) = 20"
    using Cons.prems by simp_all
  define raw1 where "raw1 = take off raw @ g f @ drop (off + 20) raw"
  have raw1: "length raw1 = length raw" "take (off + 20) raw1 = take off raw @ g f"
    using len by (simp_all add: raw1_def)
  have "enc f (take 20 (drop off raw)) = Inr (g f)"
    using Cons.prems(1) [of f "take 20 (drop off raw)"] len by simp
  then have step: "encode_chunk enc (f # fs) raw off = encode_chunk enc fs raw1 (off + 20)"
    using len by (simp add: write_at_def raw1_def)
  have "\<exists>raw'. encode_chunk enc fs raw1 (off + 20) = Inr (raw', off + 20 + 20 * length fs) \<and>
      length raw' = length raw1 \<and> take (off + 20 + 20 * length fs) raw' = take (off + 20) raw1 @ concat (map g fs)"
    using Cons.prems raw1(1) by (intro Cons.IH) simp_all
  then show ?case
    unfolding step raw1 by (simp add: add.assoc)
qed simp

lemma chunks_concat: "0 < n \<Longrightarrow> concat (chunks n xs) = xs"
proof (induction n xs rule: chunks.induct)
  case (1 n xs)
  then show ?case
    by (subst chunks.simps) simp
qed

lemma chunks_bound: "c \<in> set (chunks n xs) \<Longrightarrow> length c \<le> n \<and> set c \<subseteq> set xs"
proof (induction n xs rule: chunks.induct)
  case (1 n xs)
  show ?case
  proof (cases "xs = [] \<or> n = 0")
    case False
    then have "c = take n xs \<or> c \<in> set (chunks n (drop n xs))"
      using 1(2) by (subst (asm) chunks.simps) auto
    then show ?thesis
      using 1(1) [OF False] by (auto dest: in_set_takeD in_set_dropD)
  qed (use 1(2) in \<open>auto simp: chunks.simps\<close>)
qed

section \<open>What an operation delivers\<close>

definition in_mode :: "bool \<Rightarrow> 'e CoalescingWriter \<Rightarrow> bool" where
  \<comment> \<open>a direct writer buffers nothing\<close>
  "in_mode direct w \<longleftrightarrow> cw_direct w = direct \<and> (direct \<longrightarrow> cw_pending w = [])"

definition same_config :: "'e CoalescingWriter \<Rightarrow> 'e CoalescingWriter \<Rightarrow> bool" where
  "same_config w w' \<longleftrightarrow> cw_window w' = cw_window w \<and> cw_hard_limit w' = cw_hard_limit w \<and> cw_direct w' = cw_direct w"

lemma same_config_preorder: "reflp same_config" "transp same_config"
  by (auto simp: same_config_def reflp_def transp_def)

lemma keeps_config_basic [intro, simp]:
  "keeps same_config (cw_write ops bs)" "keeps same_config (cw_flush ops)" "keeps same_config (cw_now ops)"
  "keeps same_config (count_push n)" "keeps same_config (count_write n)" "keeps same_config (on_pending op)"
  "keeps same_config (push_message_to_scratch m)" "keeps same_config take_scratch"
  by (auto simp: keeps_def same_config_def cw_write_def cw_flush_def cw_now_def count_push_def
      count_write_def on_pending_def push_message_to_scratch_def take_scratch_def split: prod.splits sum.splits)

lemma keeps_config_then [intro]:
  "keeps same_config p \<Longrightarrow> (\<And>x. keeps same_config (f x)) \<Longrightarrow> keeps same_config (act_then p f)"
  by (rule keeps_then [OF same_config_preorder(2)])

lemma keeps_config_ret [intro, simp]:
  "keeps same_config (act_ret x)" "keeps same_config (act_fail e)" "keeps same_config (act_gets h)"
  by (rule keeps_ret [OF same_config_preorder(1)])+

lemma keeps_config_modify [intro]:
  "(\<And>w. same_config w (g w)) \<Longrightarrow> keeps same_config (act_modify g)"
  by (simp add: keeps_def)

lemma keeps_config_if: "keeps same_config p \<Longrightarrow> keeps same_config q \<Longrightarrow> keeps same_config (if b then p else q)"
  by simp

lemmas keeps_config_intros = keeps_config_then keeps_config_modify keeps_config_ret keeps_config_basic
  keeps_config_if

lemma keeps_config_stamp [simp]: "keeps same_config (stamp ops)"
  unfolding stamp_def by (intro keeps_config_intros) (simp add: same_config_def)

lemma keeps_config_flush_now [simp]: "keeps same_config (flush_now ops)"
proof (rule keepsI)
  fix w :: "'a CoalescingWriter"
  have "keeps same_config (act_then (stamp ops) (\<lambda>_. act_ret (0 :: nat)))"
    by (intro keeps_config_intros keeps_config_stamp)
  moreover have "keeps same_config (act_then (act_seq [cw_write ops (cw_pending w), cw_flush ops,
      act_modify (\<lambda>w. w\<lparr>cw_pending := []\<rparr>), stamp ops, count_write n]) (\<lambda>_. act_ret n))" for n
    unfolding act_seq.simps by (intro keeps_config_intros keeps_config_stamp) (simp add: same_config_def)
  ultimately show "same_config w (snd (flush_now ops w))"
    unfolding flush_now_def Let_def keeps_def if_distrib [of snd] if_distrib [of "same_config w"]
    by (simp del: act_seq.simps)
qed

lemma keeps_config_checks [simp]:
  "keeps same_config (window_check ops r)" "keeps same_config (flush_check ops)"
  "keeps same_config (write_out ops bs)"
proof -
  show w: "keeps same_config (window_check ops r)" for r
    unfolding window_check_def by (intro keeps_config_intros keeps_config_flush_now)
  show "keeps same_config (flush_check ops)"
    unfolding flush_check_def by (intro keeps_config_intros keeps_config_flush_now w)
  show "keeps same_config (write_out ops bs)"
    unfolding write_out_def act_seq.simps by (intro keeps_config_intros keeps_config_stamp)
qed

context transport
begin

definition delivers :: "bool \<Rightarrow> ('e CoalescingWriter, 'a) act \<Rightarrow> byte list \<Rightarrow> bool" where
  "delivers direct p bs \<longleftrightarrow> (\<forall>w r w'. in_mode direct w \<longrightarrow> p w = (r, w') \<longrightarrow>
     in_mode direct w' \<and>
     (\<exists>n \<le> length (cw_pending w @ bs). wire (cw_transport w') = wire (cw_transport w) @ take n (cw_pending w @ bs)) \<and>
     (is_ok r \<longrightarrow> wire (cw_transport w') @ cw_pending w' = wire (cw_transport w) @ cw_pending w @ bs))"

lemma deliversI:
  assumes "\<And>w r w'. in_mode direct w \<Longrightarrow> p w = (r, w') \<Longrightarrow> in_mode direct w'"
    and "\<And>w r w'. in_mode direct w \<Longrightarrow> p w = (r, w') \<Longrightarrow>
      \<exists>n \<le> length (cw_pending w @ bs). wire (cw_transport w') = wire (cw_transport w) @ take n (cw_pending w @ bs)"
    and "\<And>w x w'. in_mode direct w \<Longrightarrow> p w = (Inr x, w') \<Longrightarrow>
      wire (cw_transport w') @ cw_pending w' = wire (cw_transport w) @ cw_pending w @ bs"
  shows "delivers direct p bs"
  unfolding delivers_def
  by (metis assms is_ok_ex)

lemma delivers_then:
  assumes p: "delivers direct p as" and f: "\<And>x. delivers direct (f x) bs"
  shows "delivers direct (act_then p f) (as @ bs)"
proof -
  have "in_mode direct w' \<and>
     (\<exists>n \<le> length (cw_pending w @ as @ bs). wire (cw_transport w') = wire (cw_transport w) @ take n (cw_pending w @ as @ bs)) \<and>
     (is_ok r \<longrightarrow> wire (cw_transport w') @ cw_pending w' = wire (cw_transport w) @ cw_pending w @ as @ bs)"
    if w: "in_mode direct w" and run: "act_then p f w = (r, w')" for w r w'
  proof -
    obtain r1 w1 where p1: "p w = (r1, w1)"
      by (cases "p w")
    obtain n where m1: "in_mode direct w1" and n: "n \<le> length (cw_pending w @ as)"
      and wire1: "wire (cw_transport w1) = wire (cw_transport w) @ take n (cw_pending w @ as)"
      and ok1: "is_ok r1 \<Longrightarrow> wire (cw_transport w1) @ cw_pending w1 = wire (cw_transport w) @ cw_pending w @ as"
      using p w p1 unfolding delivers_def by blast
    show ?thesis
    proof (cases r1)
      case (Inl e)
      then have "r = Inl e" "w' = w1"
        using run p1 by auto
      then show ?thesis
        using m1 n wire1 by (intro conjI exI [of _ n]) auto
    next
      case (Inr x)
      then have run2: "f x w1 = (r, w')"
        using run p1 by simp
      have "take n (cw_pending w @ as) @ cw_pending w1 = cw_pending w @ as"
        using ok1 Inr unfolding wire1 by simp
      then have pend1: "cw_pending w1 = drop n (cw_pending w @ as)"
        by (metis append_same_eq append_take_drop_id same_append_eq)
      obtain k where m2: "in_mode direct w'" and k: "k \<le> length (cw_pending w1 @ bs)"
        and wire2: "wire (cw_transport w') = wire (cw_transport w1) @ take k (cw_pending w1 @ bs)"
        and ok2: "is_ok r \<Longrightarrow> wire (cw_transport w') @ cw_pending w' = wire (cw_transport w1) @ cw_pending w1 @ bs"
        using f [of x] m1 run2 unfolding delivers_def by blast
      have "wire (cw_transport w') = wire (cw_transport w) @ take (n + k) ((cw_pending w @ as) @ bs)"
        using n unfolding wire2 wire1 pend1 take_add by simp
      moreover have "n + k \<le> length ((cw_pending w @ as) @ bs)"
        using n k unfolding pend1 by simp
      moreover have "is_ok r \<Longrightarrow> wire (cw_transport w') @ cw_pending w' = wire (cw_transport w) @ cw_pending w @ as @ bs"
        using ok1 ok2 Inr by simp
      ultimately show ?thesis
        using m2 by (intro conjI exI [of _ "n + k"]) (auto simp: append_assoc)
    qed
  qed
  then show ?thesis
    unfolding delivers_def append_assoc by (intro allI impI)
qed

lemma delivers_quiet:
  assumes "\<And>w r w'. in_mode direct w \<Longrightarrow> p w = (r, w') \<Longrightarrow>
    cw_direct w' = cw_direct w \<and> cw_pending w' = cw_pending w \<and> wire (cw_transport w') = wire (cw_transport w)"
  shows "delivers direct p []"
proof (rule deliversI)
  show "in_mode direct w'" if "in_mode direct w" "p w = (r, w')" for w r w'
    using that assms by (metis in_mode_def)
  show "\<exists>n \<le> length (cw_pending w @ []). wire (cw_transport w') = wire (cw_transport w) @ take n (cw_pending w @ [])"
    if "in_mode direct w" "p w = (r, w')" for w r w'
    using that assms by (intro exI [of _ 0]) auto
  show "wire (cw_transport w') @ cw_pending w' = wire (cw_transport w) @ cw_pending w @ []"
    if "in_mode direct w" "p w = (Inr x, w')" for w x w'
    using that assms by simp
qed

lemma delivers_ret [simp]:
  "delivers direct (act_ret x) []" "delivers direct (act_fail e) []" "delivers direct (act_gets h) []"
  "delivers direct (count_push n) []" "delivers direct (count_write n) []"
  "delivers direct (push_message_to_scratch m) []" "delivers direct take_scratch []"
  by (rule delivers_quiet; auto simp: count_push_def count_write_def push_message_to_scratch_def
      take_scratch_def split: prod.splits sum.splits)+

lemma delivers_now [simp]: "delivers direct (cw_now ops) []"
  by (rule delivers_quiet) (auto simp: cw_now_def now_wire split: prod.splits)

lemma delivers_then_quiet: "delivers direct p [] \<Longrightarrow> (\<And>x. delivers direct (f x) bs) \<Longrightarrow> delivers direct (act_then p f) bs"
  using delivers_then [of direct p "[]" f bs] by simp

lemma delivers_then_ret: "delivers direct p bs \<Longrightarrow> (\<And>x. delivers direct (f x) []) \<Longrightarrow> delivers direct (act_then p f) bs"
  using delivers_then [of direct p bs f "[]"] by simp

lemma cw_write_result:
  assumes "cw_write ops bs w = (r, w')"
  shows "\<exists>e. w' = w\<lparr>cw_transport := e\<rparr> \<and>
    (\<exists>n \<le> length bs. wire e = wire (cw_transport w) @ take n bs \<and> (is_ok r \<longrightarrow> n = length bs))"
proof -
  obtain e where e: "op_write_all ops bs (cw_transport w) = (r, e)" and w': "w' = w\<lparr>cw_transport := e\<rparr>"
    using assms by (auto simp: cw_write_def split: prod.splits)
  show ?thesis
  proof (cases r)
    case (Inl f)
    then show ?thesis
      using write_err e w' by fastforce
  next
    case (Inr u)
    then show ?thesis
      using write_ok e w' by (intro exI [of _ e]) auto
  qed
qed

lemma cw_flush_result:
  assumes "cw_flush ops w = (r, w')"
  shows "\<exists>e. w' = w\<lparr>cw_transport := e\<rparr> \<and> wire e = wire (cw_transport w)"
  using assms flush_wire by (auto simp: cw_flush_def split: prod.splits)

lemma stamp_result:
  "\<exists>e t. stamp ops w = (Inr (), w\<lparr>cw_transport := e, cw_last_flush := t\<rparr>) \<and> wire e = wire (cw_transport w)"
  using now_wire by (cases "op_now ops (cw_transport w)") (auto simp: stamp_def cw_now_def act_then_def)

lemma delivers_stamp [simp]: "delivers direct (stamp ops) []"
proof (rule delivers_quiet)
  fix w r w'
  assume "stamp ops w = (r, w')"
  then show "cw_direct w' = cw_direct w \<and> cw_pending w' = cw_pending w \<and> wire (cw_transport w') = wire (cw_transport w)"
    using stamp_result [of w] by auto
qed

lemma delivers_cw_flush [simp]: "delivers direct (cw_flush ops) []"
  by (rule delivers_quiet) (auto dest: cw_flush_result)

text \<open>A write followed by a flush of the transport, as every path of the writer performs it.\<close>

lemma write_flush_result:
  assumes "act_then (cw_write ops bs) (\<lambda>_. act_then (cw_flush ops) k) w = (r, w')"
  obtains e n where "n \<le> length bs" "wire e = wire (cw_transport w) @ take n bs"
    "\<not> is_ok r" "w' = w\<lparr>cw_transport := e\<rparr>"
  | e where "wire e = wire (cw_transport w) @ bs" "k () (w\<lparr>cw_transport := e\<rparr>) = (r, w')"
proof -
  obtain r1 w1 where c1: "cw_write ops bs w = (r1, w1)"
    by (cases "cw_write ops bs w")
  obtain e1 n where w1: "w1 = w\<lparr>cw_transport := e1\<rparr>" and n: "n \<le> length bs"
    "wire e1 = wire (cw_transport w) @ take n bs" "is_ok r1 \<longrightarrow> n = length bs"
    using cw_write_result [OF c1] by blast
  show ?thesis
  proof (cases r1)
    case (Inl f)
    then show ?thesis
      using that(1) [of n e1] assms c1 w1 n by auto
  next
    case (Inr u)
    obtain r2 w2 where c2: "cw_flush ops w1 = (r2, w2)"
      by (cases "cw_flush ops w1")
    obtain e2 where w2: "w2 = w1\<lparr>cw_transport := e2\<rparr>" "wire e2 = wire (cw_transport w1)"
      using cw_flush_result [OF c2] by blast
    have wire2: "wire e2 = wire (cw_transport w) @ bs"
      using n w1 w2 Inr by simp
    show ?thesis
    proof (cases r2)
      case (Inl f)
      then show ?thesis
        using that(1) [of "length bs" e2] assms c1 c2 Inr w1 w2 wire2 by auto
    next
      case (Inr v)
      then show ?thesis
        using that(2) [of e2] assms c1 c2 \<open>r1 = Inr u\<close> w1 w2 wire2 by auto
    qed
  qed
qed

lemma flush_now_result:
  assumes "flush_now ops w = (r, w')"
  shows "cw_direct w' = cw_direct w \<and>
    (\<exists>n \<le> length (cw_pending w). wire (cw_transport w') = wire (cw_transport w) @ take n (cw_pending w) \<and>
      (if is_ok r then n = length (cw_pending w) \<and> cw_pending w' = [] else cw_pending w' = cw_pending w))"
proof (cases "cw_pending w = []")
  case True
  then show ?thesis
    using assms stamp_result [of w] by (auto simp: flush_now_def)
next
  case False
  let ?k = "\<lambda>_. act_then (act_modify (\<lambda>w. w\<lparr>cw_pending := []\<rparr>)) (\<lambda>_. act_then (stamp ops)
      (\<lambda>_. act_then (count_write (length (cw_pending w))) act_ret))"
  have "act_then (act_then (cw_write ops (cw_pending w)) (\<lambda>_. act_then (cw_flush ops) ?k))
      (\<lambda>_. act_ret (length (cw_pending w))) w = (r, w')"
    using assms False by (simp add: flush_now_def Let_def)
  then obtain r0 where inner: "act_then (cw_write ops (cw_pending w)) (\<lambda>_. act_then (cw_flush ops) ?k) w = (r0, w')"
    and r0: "is_ok r = is_ok r0"
    by (auto simp: act_then_def [of "act_then (cw_write ops (cw_pending w)) _"] split: prod.splits sum.splits)
  show ?thesis
    using inner
  proof (cases rule: write_flush_result)
    case (1 e n)
    then show ?thesis
      using r0 by (intro conjI exI [of _ n]) auto
  next
    case (2 e)
    then show ?thesis
      using r0 stamp_result [of "w\<lparr>cw_transport := e, cw_pending := []\<rparr>"]
      by (auto simp: count_write_def)
  qed
qed

lemma delivers_flush_now [simp]: "delivers direct (flush_now ops) []"
proof (rule deliversI)
  fix w r w'
  assume "in_mode direct w" "flush_now ops w = (r, w')"
  then show "in_mode direct w'"
    using flush_now_result [of w r w'] by (auto simp: in_mode_def split: if_splits)
next
  fix w r w'
  assume "flush_now ops w = (r, w')"
  then show "\<exists>n \<le> length (cw_pending w @ []). wire (cw_transport w') = wire (cw_transport w) @ take n (cw_pending w @ [])"
    using flush_now_result [of w r w'] by auto
next
  fix w x w'
  assume "flush_now ops w = (Inr x, w')"
  then show "wire (cw_transport w') @ cw_pending w' = wire (cw_transport w) @ cw_pending w @ []"
    using flush_now_result [of w "Inr x" w'] by auto
qed

lemma delivers_checks [simp]:
  "delivers direct (window_check ops r) []" "delivers direct (flush_check ops) []"
proof -
  show w: "delivers direct (window_check ops r) []" for r
    unfolding window_check_def
    by (intro delivers_then_quiet delivers_now delivers_ret) (auto intro: delivers_then_quiet)
  show "delivers direct (flush_check ops) []"
    unfolding flush_check_def by (intro delivers_then_quiet delivers_ret) (auto intro: delivers_then_quiet w)
qed

lemma delivers_on_pending:
  assumes "\<And>buf. op buf = (buf @ bs, Inr ())"
  shows "delivers False (on_pending op) bs"
proof (rule deliversI)
  show "\<exists>n \<le> length (cw_pending w @ bs). wire (cw_transport w') = wire (cw_transport w) @ take n (cw_pending w @ bs)"
    if "on_pending op w = (r, w')" for w r w'
    using that assms by (intro exI [of _ 0]) (auto simp: on_pending_def)
qed (use assms in \<open>auto simp: on_pending_def in_mode_def\<close>)

lemma delivers_write_out: "delivers True (write_out ops bs) bs"
proof -
  have *: "cw_direct w' = cw_direct w \<and> cw_pending w' = [] \<and>
      (\<exists>n \<le> length bs. wire (cw_transport w') = wire (cw_transport w) @ take n bs \<and> (is_ok r \<longrightarrow> n = length bs))"
    if "in_mode True w" "write_out ops bs w = (r, w')" for w r w'
  proof -
    have "act_then (cw_write ops bs) (\<lambda>_. act_then (cw_flush ops) (\<lambda>_. act_then (count_write (length bs))
        (\<lambda>_. act_then (stamp ops) act_ret))) w = (r, w')"
      using that(2) by (simp add: write_out_def)
    then show ?thesis
    proof (cases rule: write_flush_result)
      case (1 e n)
      then show ?thesis
        using that(1) by (intro conjI exI [of _ n]) (auto simp: in_mode_def)
    next
      case (2 e)
      define w1 where "w1 = w\<lparr>cw_transport := e, cw_written := cw_written w + word_of_nat (length bs),
        cw_flushes := cw_flushes w + 1\<rparr>"
      obtain e2 t where "stamp ops w1 = (Inr (), w1\<lparr>cw_transport := e2, cw_last_flush := t\<rparr>)" "wire e2 = wire e"
        using stamp_result [of w1] by (auto simp: w1_def)
      then have "w' = w1\<lparr>cw_transport := e2, cw_last_flush := t\<rparr>" "wire e2 = wire e"
        using 2(2) by (auto simp: count_write_def w1_def [symmetric])
      then show ?thesis
        using that(1) 2(1) by (auto simp: in_mode_def w1_def)
    qed
  qed
  show ?thesis
  proof (rule deliversI)
    show "in_mode True w'" if "in_mode True w" "write_out ops bs w = (r, w')" for w r w'
      using * [OF that] that(1) by (simp add: in_mode_def)
    show "\<exists>n \<le> length (cw_pending w @ bs). wire (cw_transport w') = wire (cw_transport w) @ take n (cw_pending w @ bs)"
      if "in_mode True w" "write_out ops bs w = (r, w')" for w r w'
      using * [OF that] that(1) by (auto simp: in_mode_def)
    show "wire (cw_transport w') @ cw_pending w' = wire (cw_transport w) @ cw_pending w @ bs"
      if "in_mode True w" "write_out ops bs w = (Inr x, w')" for w x w'
      using * [OF that] that(1) by (auto simp: in_mode_def)
  qed
qed

lemma delivers_cong:
  assumes "\<And>w. in_mode direct w \<Longrightarrow> p w = q w" and "delivers direct q bs"
  shows "delivers direct p bs"
  unfolding delivers_def
proof (intro allI impI)
  fix w r w'
  assume w: "in_mode direct w" and "p w = (r, w')"
  then have "q w = (r, w')"
    using assms(1) by simp
  then show "in_mode direct w' \<and>
     (\<exists>n \<le> length (cw_pending w @ bs). wire (cw_transport w') = wire (cw_transport w) @ take n (cw_pending w @ bs)) \<and>
     (is_ok r \<longrightarrow> wire (cw_transport w') @ cw_pending w' = wire (cw_transport w) @ cw_pending w @ bs)"
    using assms(2) w unfolding delivers_def by blast
qed

lemma delivers_pick:
  \<comment> \<open>a branch chosen by a test on the state\<close>
  assumes "\<And>b. delivers direct (p b) bs"
  shows "delivers direct (\<lambda>w. p (test w) w) bs"
  using assms unfolding delivers_def by blast

lemma delivers_by_mode:
  assumes "delivers True p bs" "delivers False q bs"
  shows "delivers direct (\<lambda>w. if cw_direct w then p w else q w) bs"
proof (cases direct)
  case True
  show ?thesis
    by (rule delivers_cong [where q = p]) (use assms(1) True in \<open>simp_all add: in_mode_def\<close>)
next
  case False
  show ?thesis
    by (rule delivers_cong [where q = q]) (use assms(2) False in \<open>simp_all add: in_mode_def\<close>)
qed

lemma delivers_cw_write: "delivers True (cw_write ops bs) bs"
proof -
  have *: "in_mode True w' \<and> cw_pending w = [] \<and> cw_pending w' = [] \<and>
      (\<exists>n \<le> length bs. wire (cw_transport w') = wire (cw_transport w) @ take n bs \<and> (is_ok r \<longrightarrow> n = length bs))"
    if "in_mode True w" "cw_write ops bs w = (r, w')" for w r w'
  proof -
    obtain e n where "w' = w\<lparr>cw_transport := e\<rparr>" "n \<le> length bs" "wire e = wire (cw_transport w) @ take n bs"
      "is_ok r \<longrightarrow> n = length bs"
      using cw_write_result [OF \<open>cw_write ops bs w = (r, w')\<close>] by blast
    then show ?thesis
      using \<open>in_mode True w\<close> by (auto simp: in_mode_def)
  qed
  show ?thesis
    unfolding delivers_def
  proof (intro allI impI)
    fix w r w'
    assume "in_mode True w" "cw_write ops bs w = (r, w')"
    from * [OF this] show "in_mode True w' \<and>
      (\<exists>n \<le> length (cw_pending w @ bs). wire (cw_transport w') = wire (cw_transport w) @ take n (cw_pending w @ bs)) \<and>
      (is_ok r \<longrightarrow> wire (cw_transport w') @ cw_pending w' = wire (cw_transport w) @ cw_pending w @ bs)"
      by auto
  qed
qed

lemma delivers_write_chunks:
  assumes "\<And>f buf. f \<in> set (concat cs) \<Longrightarrow> length buf = 20 \<Longrightarrow> enc f buf = Inr (g f)"
    and "\<And>f. f \<in> set (concat cs) \<Longrightarrow> length (g f) = 20" and "\<forall>c \<in> set cs. length c \<le> 32" and "length raw = 640"
  shows "delivers True (write_chunks ops enc cs raw n) (concat (map g (concat cs)))"
  using assms
proof (induction cs arbitrary: raw n)
  case (Cons c cs)
  obtain raw' where raw': "encode_chunk enc c raw 0 = Inr (raw', 20 * length c)" "length raw' = 640"
    "take (20 * length c) raw' = concat (map g c)"
    using encode_chunk_ok [of c enc g 0 raw] Cons.prems by auto
  have "delivers True (write_chunks ops enc cs raw' m) (concat (map g (concat cs)))" for m
    using Cons.prems raw' by (intro Cons.IH) auto
  then have "delivers True (act_then (cw_write ops (concat (map g c))) (\<lambda>_. write_chunks ops enc cs raw' m))
      (concat (map g c) @ concat (map g (concat cs)))" for m
    by (intro delivers_then delivers_cw_write)
  then show ?case
    using raw' by simp
qed simp

lemma delivers_push_or_flush:
  assumes "\<And>f buf. f \<in> set fs \<Longrightarrow> to_buf f buf = (buf @ g f, Inr ())"
  shows "delivers False (push_or_flush ops to_buf fs r) (concat (map g fs))"
  using assms
proof (induction fs arbitrary: r)
  case (Cons f fs)
  have fs: "delivers False (push_or_flush ops to_buf fs r) (concat (map g fs))" for r
    using Cons by simp
  have "delivers False (on_pending (to_buf f)) (g f)"
    using Cons.prems by (intro delivers_on_pending) simp
  moreover have "delivers False (act_then (act_gets id) (\<lambda>w.
       if cw_hard_limit w \<le> length (cw_pending w)
       then act_then (flush_now ops) (\<lambda>_. push_or_flush ops to_buf fs Full)
       else push_or_flush ops to_buf fs r)) (concat (map g fs))"
    using fs by (intro delivers_then_quiet delivers_ret) (auto intro: delivers_then_quiet)
  ultimately show ?case
    using delivers_then by simp
qed simp

lemma delivers_each:
  assumes "\<And>f buf. f \<in> set fs \<Longrightarrow> to_buf f buf = (buf @ g f, Inr ())"
  shows "delivers False (act_each (\<lambda>f. on_pending (to_buf f)) fs) (concat (map g fs))"
  using assms
proof (induction fs)
  case (Cons f fs)
  then show ?case
    using delivers_then [OF delivers_on_pending [of "to_buf f" "g f"]] by simp
qed simp

lemma delivers_batch:
  assumes "\<And>f buf. f \<in> set fs \<Longrightarrow> length buf = 20 \<Longrightarrow> enc f buf = Inr (g f)" "\<And>f. f \<in> set fs \<Longrightarrow> length (g f) = 20"
    and "\<And>f buf. f \<in> set fs \<Longrightarrow> to_buf f buf = (buf @ g f, Inr ())"
    and "\<And>f. f \<in> set fs \<Longrightarrow> delivers direct (single f) (g f)"
  shows "delivers direct (push_batch ops single enc to_buf fs) (concat (map g fs))"
proof (cases "length fs \<le> 1")
  case True
  then consider "fs = []" | f where "fs = [f]"
    by (cases fs) auto
  then show ?thesis
  proof cases
    case 1
    have "push_batch ops single enc to_buf [] = act_ret Pending"
      by (simp add: push_batch_def fun_eq_iff)
    then show ?thesis
      using 1 by simp
  next
    case (2 f)
    have "push_batch ops single enc to_buf [f] = single f"
      by (simp add: push_batch_def fun_eq_iff)
    then show ?thesis
      using assms(4) 2 by simp
  qed
next
  case False
  let ?len = "length fs"
  have "concat (chunks 32 fs) = fs" "\<forall>c \<in> set (chunks 32 fs). length c \<le> 32"
    using chunks_concat [of 32 fs] chunks_bound by auto
  then have "delivers True (write_chunks ops enc (chunks 32 fs) (replicate 640 0) 0) (concat (map g fs))"
    using delivers_write_chunks [of "chunks 32 fs" enc g "replicate 640 0" 0] assms(1,2) by simp
  moreover have "delivers True (act_then (act_seq [cw_flush ops, count_write n, stamp ops]) (\<lambda>_. act_ret Window)) []" for n
    by (simp add: delivers_then_quiet)
  ultimately have dir: "delivers True (act_then (count_push ?len) (\<lambda>_. act_then (write_chunks ops enc
      (chunks 32 fs) (replicate 640 0) 0) (\<lambda>n. act_then (act_seq [cw_flush ops, count_write n, stamp ops])
        (\<lambda>_. act_ret Window)))) (concat (map g fs))"
    by (simp only: delivers_then_quiet [OF delivers_ret(4) delivers_then_ret])
  have buf: "delivers False (act_then (count_push ?len) (\<lambda>_.
          if b then act_then (act_each (\<lambda>f. on_pending (to_buf f)) fs) (\<lambda>_. window_check ops Pending)
          else act_then (push_or_flush ops to_buf fs Pending) (\<lambda>reason. window_check ops reason))) (concat (map g fs))" for b
  proof (rule delivers_then_quiet [OF delivers_ret(4)])
    have "delivers False (act_then (act_each (\<lambda>f. on_pending (to_buf f)) fs) (\<lambda>_. window_check ops Pending))
        (concat (map g fs))"
      by (rule delivers_then_ret [OF delivers_each [OF assms(3)] delivers_checks(1)])
    moreover have "delivers False (act_then (push_or_flush ops to_buf fs Pending) (\<lambda>reason. window_check ops reason))
        (concat (map g fs))"
      by (rule delivers_then_ret [OF delivers_push_or_flush [OF assms(3)] delivers_checks(1)])
    ultimately show "delivers False (if b then act_then (act_each (\<lambda>f. on_pending (to_buf f)) fs) (\<lambda>_. window_check ops Pending)
        else act_then (push_or_flush ops to_buf fs Pending) (\<lambda>reason. window_check ops reason)) (concat (map g fs))"
      by simp
  qed
  have "push_batch ops single enc to_buf fs = (\<lambda>w. if cw_direct w then act_then (count_push ?len) (\<lambda>_.
      act_then (write_chunks ops enc (chunks 32 fs) (replicate 640 0) 0) (\<lambda>n.
        act_then (act_seq [cw_flush ops, count_write n, stamp ops]) (\<lambda>_. act_ret Window))) w
      else act_then (count_push ?len) (\<lambda>_.
          if length (cw_pending w) + ?len * 20 \<le> cw_hard_limit w
          then act_then (act_each (\<lambda>f. on_pending (to_buf f)) fs) (\<lambda>_. window_check ops Pending)
          else act_then (push_or_flush ops to_buf fs Pending) (\<lambda>reason. window_check ops reason)) w)"
  proof (rule ext)
    have "fs \<noteq> []" "length fs \<noteq> Suc 0"
      using False by auto
    then show "push_batch ops single enc to_buf fs w = (if cw_direct w then act_then (count_push ?len) (\<lambda>_.
      act_then (write_chunks ops enc (chunks 32 fs) (replicate 640 0) 0) (\<lambda>n.
        act_then (act_seq [cw_flush ops, count_write n, stamp ops]) (\<lambda>_. act_ret Window))) w
      else act_then (count_push ?len) (\<lambda>_.
          if length (cw_pending w) + ?len * 20 \<le> cw_hard_limit w
          then act_then (act_each (\<lambda>f. on_pending (to_buf f)) fs) (\<lambda>_. window_check ops Pending)
          else act_then (push_or_flush ops to_buf fs Pending) (\<lambda>reason. window_check ops reason)) w)" for w
      by (simp add: push_batch_def Let_def)
  qed
  then show ?thesis
    using delivers_by_mode [OF dir delivers_pick [OF buf]] by simp
qed

lemma delivers_buffered:
  assumes "\<And>buf. op buf = (buf @ bs, Inr ())"
  shows "delivers False (act_then (act_seq [count_push n, on_pending op]) (\<lambda>_. flush_check ops)) bs"
proof -
  have "delivers False (act_seq [count_push n, on_pending op]) bs"
    unfolding act_seq.simps
    by (rule delivers_then_quiet [OF delivers_ret(4)], rule delivers_then_ret [OF delivers_on_pending delivers_ret(1)])
      (rule assms)
  then show ?thesis
    by (rule delivers_then_ret) simp
qed

lemma delivers_direct:
  "delivers True (act_then (count_push n) (\<lambda>_. act_then (write_out ops bs) (\<lambda>_. act_ret x))) bs"
  by (rule delivers_then_quiet [OF delivers_ret(4)], rule delivers_then_ret [OF delivers_write_out delivers_ret(1)])

lemma delivers_push_gamepad_input_fields:
  "delivers direct (push_gamepad_input_fields ops hid f) (msg_bytes (input_of hid (pack f)))"
proof -
  have "encode_gamepad_input_fields_slice hid f (replicate (GAMEPAD_REPORT_SIZE + 5) 0) =
      Inr (msg_bytes (input_of hid (pack f)))"
    by (rule encode_fields_slice_ok) simp
  then show ?thesis
    unfolding push_gamepad_input_fields_def [abs_def] sum.case
    by (simp only: sum.case) (rule delivers_by_mode [OF delivers_direct delivers_buffered [OF push_fields_to_buf_ok]])
qed

lemma delivers_push_gamepad_input:
  assumes "length data = 15"
  shows "delivers direct (push_gamepad_input ops hid data) (msg_bytes (input_of hid data))"
proof -
  have "encode_gamepad_input_slice hid data (replicate (GAMEPAD_REPORT_SIZE + 5) 0) =
      Inr (msg_bytes (input_of hid data))"
    by (rule encode_slice_ok) (simp_all add: assms)
  then show ?thesis
    unfolding push_gamepad_input_def [abs_def]
    by (simp only: sum.case) (rule delivers_by_mode [OF delivers_direct delivers_buffered [OF push_gamepad_to_buf_ok [OF assms]]])
qed

lemma delivers_push_uhid_input:
  assumes "unat sz \<le> 15" "unat sz \<le> length data"
  shows "delivers direct (push_uhid_input ops hid sz data) (msg_bytes (input_of hid (take (unat sz) data)))"
proof -
  obtain raw where "encode_uhid_input_to_array hid (unat sz) data (replicate (HID_MAX_SIZE + 5) 0) =
      Inr (raw, 5 + unat sz)" "take (5 + unat sz) raw = msg_bytes (input_of hid (take (unat sz) data))"
    using encode_uhid_ok [OF assms] by blast
  then show ?thesis
    unfolding push_uhid_input_def [abs_def]
    by (simp only: sum.case prod.case)
      (rule delivers_by_mode [OF delivers_direct delivers_buffered [OF push_uhid_to_buf_ok [OF assms]]])
qed

lemma delivers_push_gamepad_input_batch:
  assumes "\<forall>d \<in> set ds. length d = 15"
  shows "delivers direct (push_gamepad_input_batch ops hid ds) (concat (map (\<lambda>d. msg_bytes (input_of hid d)) ds))"
  unfolding push_gamepad_input_batch_def
  by (rule delivers_batch)
    (use assms in \<open>simp_all add: encode_slice_ok push_gamepad_to_buf_ok delivers_push_gamepad_input\<close>)

lemma delivers_push_batch_from_fields:
  "delivers direct (push_gamepad_input_batch_from_fields ops hid fs)
     (concat (map (\<lambda>f. msg_bytes (input_of hid (pack f))) fs))"
  unfolding push_gamepad_input_batch_from_fields_def
  by (rule delivers_batch)
    (simp_all add: encode_fields_slice_ok push_fields_to_buf_ok delivers_push_gamepad_input_fields)

lemma scratch_then:
  assumes "wf_msg m" "msg_fault m = None"
  shows "act_then (push_message_to_scratch m) (\<lambda>_. act_then take_scratch k) w = k (msg_bytes m) (w\<lparr>cw_scratch := []\<rparr>)"
  using serialize_into_bytes [OF assms, of "[]"]
  by (simp add: act_then_def push_message_to_scratch_def take_scratch_def)

lemma delivers_scratch_then:
  assumes "wf_msg m" "msg_fault m = None" "delivers direct (k (msg_bytes m)) bs"
  shows "delivers direct (act_then (push_message_to_scratch m) (\<lambda>_. act_then take_scratch k)) bs"
proof -
  have "delivers direct (act_modify (\<lambda>w. w\<lparr>cw_scratch := []\<rparr>)) []"
    by (rule delivers_quiet) auto
  then have "delivers direct (act_then (act_modify (\<lambda>w. w\<lparr>cw_scratch := []\<rparr>)) (\<lambda>_. k (msg_bytes m))) bs"
    by (rule delivers_then_quiet) (rule assms(3))
  then show ?thesis
    by (rule delivers_cong [rotated]) (simp add: scratch_then [OF assms(1,2)])
qed

lemma uhid_input_bytes:
  "wf_msg (UhidInput i) \<Longrightarrow> msg_bytes (UhidInput i) = msg_bytes (input_of (ui_id i) (take (unat (ui_size i)) (ui_data i)))"
  by (simp add: msg_bytes_def)

lemma delivers_push_direct:
  assumes "wf_msg m" "msg_fault m = None"
  shows "delivers True (push_direct ops m) (msg_bytes m)"
proof (cases "\<exists>i. m = UhidInput i")
  case True
  then obtain i where i: "m = UhidInput i"
    by blast
  then have sz: "unat (ui_size i) \<le> 15" "unat (ui_size i) \<le> length (ui_data i)"
    using assms by (auto simp: msg_fault_def split: if_splits)
  obtain raw where "encode_uhid_input_to_array (ui_id i) (unat (ui_size i)) (ui_data i) (replicate (HID_MAX_SIZE + 5) 0) =
      Inr (raw, 5 + unat (ui_size i))" "take (5 + unat (ui_size i)) raw = msg_bytes m"
    using encode_uhid_ok [OF sz] uhid_input_bytes assms(1) by (auto simp: i)
  then show ?thesis
    unfolding push_direct_def i ControlMessage.case by (simp only: sum.case prod.case) (rule delivers_direct)
next
  case False
  then have "push_direct ops m = act_then (count_push 1) (\<lambda>_. act_then (push_message_to_scratch m) (\<lambda>_.
      act_then take_scratch (\<lambda>serialized. act_then (write_out ops serialized) (\<lambda>_.
        act_ret (if is_critical m then Critical else Window)))))"
    unfolding push_direct_def by (cases m) simp_all
  moreover have "delivers True \<dots> (msg_bytes m)"
    by (rule delivers_then_quiet [OF delivers_ret(4)], rule delivers_scratch_then [OF assms],
        rule delivers_then_ret [OF delivers_write_out delivers_ret(1)])
  ultimately show ?thesis
    by (simp only:)
qed

lemma delivers_critical:
  assumes "wf_msg m" "msg_fault m = None"
  shows "delivers False (act_then (flush_now ops) (\<lambda>_. act_then (push_message_to_scratch m) (\<lambda>_.
          act_then take_scratch (\<lambda>serialized.
            act_then (act_seq [cw_write ops serialized, cw_flush ops, count_write (length serialized)])
              (\<lambda>_. act_ret Critical))))) (msg_bytes m)" (is "delivers False ?p ?bs")
proof -
  have *: "in_mode False w' \<and>
     (\<exists>n \<le> length (cw_pending w @ ?bs). wire (cw_transport w') = wire (cw_transport w) @ take n (cw_pending w @ ?bs)) \<and>
     (is_ok r \<longrightarrow> wire (cw_transport w') = wire (cw_transport w) @ cw_pending w @ ?bs \<and> cw_pending w' = [])"
    if w: "in_mode False w" and run: "?p w = (r, w')" for w r w'
  proof -
    obtain r1 w1 where f: "flush_now ops w = (r1, w1)"
      by (cases "flush_now ops w")
    obtain n where n: "cw_direct w1 = cw_direct w" "n \<le> length (cw_pending w)"
      "wire (cw_transport w1) = wire (cw_transport w) @ take n (cw_pending w)"
      "if is_ok r1 then n = length (cw_pending w) \<and> cw_pending w1 = [] else cw_pending w1 = cw_pending w"
      using flush_now_result [OF f] by blast
    show ?thesis
    proof (cases r1)
      case (Inl e)
      then show ?thesis
        using run f n w by (intro conjI exI [of _ n]) (auto simp: in_mode_def)
    next
      case (Inr x)
      then have "act_then (act_then (cw_write ops ?bs) (\<lambda>_. act_then (cw_flush ops) (\<lambda>_.
          act_then (count_write (length ?bs)) act_ret))) (\<lambda>_. act_ret Critical) (w1\<lparr>cw_scratch := []\<rparr>) = (r, w')"
        using run f by (simp add: scratch_then [OF assms])
      then obtain r0 where inner: "act_then (cw_write ops ?bs) (\<lambda>_. act_then (cw_flush ops) (\<lambda>_.
          act_then (count_write (length ?bs)) act_ret)) (w1\<lparr>cw_scratch := []\<rparr>) = (r0, w')" and r0: "is_ok r = is_ok r0"
        by (auto simp: act_then_def [of "act_then (cw_write ops ?bs) _"] split: prod.splits sum.splits)
      show ?thesis
        using inner
      proof (cases rule: write_flush_result)
        case (1 e k)
        then show ?thesis
          using r0 n Inr w by (intro conjI exI [of _ "length (cw_pending w) + k"]) (auto simp: in_mode_def)
      next
        case (2 e)
        then show ?thesis
          using r0 n Inr w by (intro conjI exI [of _ "length (cw_pending w @ ?bs)"]) (auto simp: in_mode_def count_write_def)
      qed
    qed
  qed
  show ?thesis
    unfolding delivers_def
  proof (intro allI impI)
    fix w r w'
    assume "in_mode False w" "?p w = (r, w')"
    from * [OF this] show "in_mode False w' \<and>
       (\<exists>n \<le> length (cw_pending w @ ?bs). wire (cw_transport w') = wire (cw_transport w) @ take n (cw_pending w @ ?bs)) \<and>
       (is_ok r \<longrightarrow> wire (cw_transport w') @ cw_pending w' = wire (cw_transport w) @ cw_pending w @ ?bs)"
      by (elim conjE, intro conjI) (assumption, assumption, simp)
  qed
qed

lemma delivers_push:
  assumes "wf_msg m" "msg_fault m = None"
  shows "delivers direct (push ops m) (msg_bytes m)"
  unfolding push_def [abs_def]
proof (rule delivers_by_mode [OF delivers_push_direct [OF assms]], rule delivers_then_quiet [OF delivers_ret(4)])
  have "delivers False (case m of
            UhidInput input \<Rightarrow>
              on_pending (push_uhid_input_to_buf (ui_id input) (unat (ui_size input)) (ui_data input))
          | _ \<Rightarrow> act_then (push_message_to_scratch m)
              (\<lambda>_. act_modify (\<lambda>w. w\<lparr>cw_pending := cw_pending w @ cw_scratch w\<rparr>))) (msg_bytes m)" (is "delivers False ?q _")
  proof (cases "\<exists>i. m = UhidInput i")
    case True
    then obtain i where i: "m = UhidInput i"
      by blast
    then have sz: "unat (ui_size i) \<le> 15" "unat (ui_size i) \<le> length (ui_data i)"
      using assms by (auto simp: msg_fault_def split: if_splits)
    show ?thesis
      using delivers_on_pending [OF push_uhid_to_buf_ok [OF sz]] uhid_input_bytes [of i] assms(1) by (simp add: i)
  next
    case False
    have "delivers False (on_pending (\<lambda>buf. (buf @ msg_bytes m, Inr ()))) (msg_bytes m)"
      by (rule delivers_on_pending) simp
    moreover have "delivers False (act_modify (\<lambda>w. w\<lparr>cw_scratch := msg_bytes m\<rparr>)) []"
      by (rule delivers_quiet) auto
    ultimately have "delivers False (act_then (act_modify (\<lambda>w. w\<lparr>cw_scratch := msg_bytes m\<rparr>))
        (\<lambda>_. on_pending (\<lambda>buf. (buf @ msg_bytes m, Inr ())))) (msg_bytes m)"
      by (intro delivers_then_quiet)
    moreover have "?q = act_then (push_message_to_scratch m)
        (\<lambda>_. act_modify (\<lambda>w. w\<lparr>cw_pending := cw_pending w @ cw_scratch w\<rparr>))"
      using False by (cases m) simp_all
    ultimately show ?thesis
      using serialize_into_bytes [OF assms, of "[]"]
      by (elim delivers_cong [rotated]) (simp add: act_then_def push_message_to_scratch_def on_pending_def)
  qed
  then have "delivers False (act_then ?q (\<lambda>_. flush_check ops)) (msg_bytes m)"
    by (rule delivers_then_ret) simp
  then show "delivers False (if is_critical m
        then act_then (flush_now ops) (\<lambda>_. act_then (push_message_to_scratch m) (\<lambda>_.
          act_then take_scratch (\<lambda>serialized.
            act_then (act_seq [cw_write ops serialized, cw_flush ops, count_write (length serialized)])
              (\<lambda>_. act_ret Critical))))
        else act_then ?q (\<lambda>_. flush_check ops)) (msg_bytes m)"
    using delivers_critical [OF assms] by (simp del: act_seq.simps)
qed

end

section \<open>Sequences of operations\<close>

datatype push_op =
    P_Message ControlMessage
  | P_Input u16 u16 "byte list"
  | P_Report u16 "byte list"
  | P_Fields u16 GamepadFrameRaw
  | P_Reports u16 "byte list list"
  | P_Frames u16 "GamepadFrameRaw list"
  | P_Flush

primrec push_exec :: "'e transport_ops \<Rightarrow> push_op \<Rightarrow> ('e CoalescingWriter, unit) act" where
  "push_exec ops (P_Message m) = act_then (push ops m) (\<lambda>_. act_ret ())"
| "push_exec ops (P_Input hid sz data) = act_then (push_uhid_input ops hid sz data) (\<lambda>_. act_ret ())"
| "push_exec ops (P_Report hid data) = act_then (push_gamepad_input ops hid data) (\<lambda>_. act_ret ())"
| "push_exec ops (P_Fields hid f) = act_then (push_gamepad_input_fields ops hid f) (\<lambda>_. act_ret ())"
| "push_exec ops (P_Reports hid ds) = act_then (push_gamepad_input_batch ops hid ds) (\<lambda>_. act_ret ())"
| "push_exec ops (P_Frames hid fs) = act_then (push_gamepad_input_batch_from_fields ops hid fs) (\<lambda>_. act_ret ())"
| "push_exec ops P_Flush = act_then (flush_now ops) (\<lambda>_. act_ret ())"

primrec push_msgs :: "push_op \<Rightarrow> ControlMessage list" where
  "push_msgs (P_Message m) = [m]"
| "push_msgs (P_Input hid sz data) = [input_of hid (take (unat sz) data)]"
| "push_msgs (P_Report hid data) = [input_of hid data]"
| "push_msgs (P_Fields hid f) = [input_of hid (pack f)]"
| "push_msgs (P_Reports hid ds) = map (input_of hid) ds"
| "push_msgs (P_Frames hid fs) = map (input_of hid \<circ> pack) fs"
| "push_msgs P_Flush = []"

primrec push_ok :: "push_op \<Rightarrow> bool" where
  \<comment> \<open>the types of the source (reports are arrays of 15 bytes), and no serialization fault\<close>
  "push_ok (P_Message m) \<longleftrightarrow> wf_msg m \<and> msg_fault m = None"
| "push_ok (P_Input hid sz data) \<longleftrightarrow> unat sz \<le> 15 \<and> unat sz \<le> length data"
| "push_ok (P_Report hid data) \<longleftrightarrow> length data = 15"
| "push_ok (P_Fields hid f) \<longleftrightarrow> True"
| "push_ok (P_Reports hid ds) \<longleftrightarrow> (\<forall>d \<in> set ds. length d = 15)"
| "push_ok (P_Frames hid fs) \<longleftrightarrow> True"
| "push_ok P_Flush \<longleftrightarrow> True"

context transport
begin

lemma delivers_exec:
  assumes "push_ok p"
  shows "delivers direct (push_exec ops p) (concat (map msg_bytes (push_msgs p)))"
proof -
  have "\<exists>q :: ('e CoalescingWriter, FlushReason) act. push_exec ops p = act_then q (\<lambda>_. act_ret ()) \<and>
      delivers direct q (concat (map msg_bytes (push_msgs p)))" if "p \<noteq> P_Flush"
    using that assms delivers_push delivers_push_uhid_input delivers_push_gamepad_input
      delivers_push_gamepad_input_fields delivers_push_gamepad_input_batch delivers_push_batch_from_fields
    by (cases p) (auto simp: comp_def)
  then show ?thesis
    using delivers_then_ret [OF delivers_flush_now delivers_ret(1)]
    by (cases "p = P_Flush") (auto intro: delivers_then_ret [OF _ delivers_ret(1)])
qed

lemma delivers_execs:
  assumes "list_all push_ok ps"
  shows "delivers direct (act_each (push_exec ops) ps) (concat (map msg_bytes (concat (map push_msgs ps))))"
  using assms
proof (induction ps)
  case (Cons p ps)
  then show ?case
    using delivers_then [OF delivers_exec, of p direct "\<lambda>_. act_each (push_exec ops) ps"] by simp
qed simp

end

section \<open>Operations on a reliable transport succeed\<close>

definition succeeds :: "('s, 'a) act \<Rightarrow> bool" where
  "succeeds p \<longleftrightarrow> (\<forall>w. is_ok (fst (p w)))"

lemma succeeds_then: "succeeds p \<Longrightarrow> (\<And>x. succeeds (f x)) \<Longrightarrow> succeeds (act_then p f)"
  unfolding succeeds_def act_then_def by (auto simp: is_ok_ex split: prod.splits sum.splits) (metis Inl_Inr_False fst_conv)

lemma succeeds_basic [simp]:
  "succeeds (act_ret x)" "succeeds (act_modify g)" "succeeds (act_gets h)" "succeeds (cw_now ops)"
  "succeeds (count_push n)" "succeeds (count_write n)" "succeeds take_scratch"
  by (auto simp: succeeds_def cw_now_def count_push_def count_write_def take_scratch_def split: prod.splits)

lemma succeeds_if [simp]: "succeeds p \<Longrightarrow> succeeds q \<Longrightarrow> succeeds (if b then p else q)"
  by simp

lemma succeeds_by_mode: "succeeds p \<Longrightarrow> succeeds q \<Longrightarrow> succeeds (\<lambda>w. if cw_direct w then p w else q w)"
  by (simp add: succeeds_def)

lemma succeeds_pick: "(\<And>b. succeeds (p b)) \<Longrightarrow> succeeds (\<lambda>w. p (test w) w)"
  by (simp add: succeeds_def)

lemma succeeds_seq: "list_all succeeds ps \<Longrightarrow> succeeds (act_seq ps)"
  by (induction ps) (auto intro: succeeds_then)

lemma succeeds_each: "(\<And>x. x \<in> set xs \<Longrightarrow> succeeds (f x)) \<Longrightarrow> succeeds (act_each f xs)"
  by (induction xs) (auto intro: succeeds_then)

lemma succeeds_on_pending: "(\<And>buf. op buf = (buf @ bs, Inr ())) \<Longrightarrow> succeeds (on_pending op)"
  by (simp add: succeeds_def on_pending_def)

lemma succeeds_scratch: "wf_msg m \<Longrightarrow> msg_fault m = None \<Longrightarrow> succeeds (push_message_to_scratch m)"
  by (simp add: succeeds_def push_message_to_scratch_def serialize_into_bytes)

lemma succeeds_buffered:
  "(\<And>buf. op buf = (buf @ bs, Inr ())) \<Longrightarrow> succeeds (act_seq [count_push n, on_pending op])"
  unfolding act_seq.simps by (intro succeeds_then succeeds_on_pending) simp_all

context reliable_transport
begin

lemma succeeds_io [simp]: "succeeds (cw_write ops bs)" "succeeds (cw_flush ops)" "succeeds (stamp ops)"
  using write_total flush_total by (auto simp: succeeds_def cw_write_def cw_flush_def stamp_def act_then_def cw_now_def
      split: prod.splits) (metis fst_conv)+

lemma succeeds_flush_now [simp]: "succeeds (flush_now ops)"
proof -
  have "succeeds (act_then (stamp ops) (\<lambda>_. act_ret (0 :: nat)))"
    by (intro succeeds_then) simp_all
  moreover have "succeeds (act_then (act_seq [cw_write ops bs, cw_flush ops, act_modify (\<lambda>w. w\<lparr>cw_pending := []\<rparr>),
      stamp ops, count_write n]) (\<lambda>_. act_ret n))" for bs n
    unfolding act_seq.simps by (intro succeeds_then) simp_all
  ultimately show ?thesis
    unfolding succeeds_def flush_now_def Let_def if_distrib [of fst] if_distrib [of is_ok]
    by (simp del: act_seq.simps)
qed

lemma succeeds_checks [simp]:
  "succeeds (window_check ops r)" "succeeds (flush_check ops)" "succeeds (write_out ops bs)"
proof -
  show w: "succeeds (window_check ops r)" for r
    unfolding window_check_def by (intro succeeds_then succeeds_if) simp_all
  show "succeeds (flush_check ops)"
    unfolding flush_check_def by (intro succeeds_then succeeds_if w) simp_all
  show "succeeds (write_out ops bs)"
    unfolding write_out_def act_seq.simps by (intro succeeds_then) simp_all
qed

lemma succeeds_push_parts:
  "succeeds (act_then (count_push n) (\<lambda>_. act_then (write_out ops bs) (\<lambda>_. act_ret x)))"
  "(\<And>buf. op buf = (buf @ bs, Inr ())) \<Longrightarrow>
    succeeds (act_then (act_seq [count_push n, on_pending op]) (\<lambda>_. flush_check ops))"
proof -
  show "succeeds (act_then (count_push n) (\<lambda>_. act_then (write_out ops bs) (\<lambda>_. act_ret x)))"
    by (intro succeeds_then) simp_all
  assume "\<And>buf. op buf = (buf @ bs, Inr ())"
  then have "succeeds (act_seq [count_push n, on_pending op])"
    by (rule succeeds_buffered)
  then show "succeeds (act_then (act_seq [count_push n, on_pending op]) (\<lambda>_. flush_check ops))"
    by (rule succeeds_then) simp
qed

lemma succeeds_write_chunks:
  assumes "\<And>f buf. f \<in> set (concat cs) \<Longrightarrow> length buf = 20 \<Longrightarrow> enc f buf = Inr (g f)"
    and "\<And>f. f \<in> set (concat cs) \<Longrightarrow> length (g f) = 20" and "\<forall>c \<in> set cs. length c \<le> 32" and "length raw = 640"
  shows "succeeds (write_chunks ops enc cs raw n)"
  using assms
proof (induction cs arbitrary: raw n)
  case (Cons c cs)
  obtain raw' where raw': "encode_chunk enc c raw 0 = Inr (raw', 20 * length c)" "length raw' = 640"
    using encode_chunk_ok [of c enc g 0 raw] Cons.prems by auto
  have "succeeds (write_chunks ops enc cs raw' m)" for m
    using Cons.prems raw' by (intro Cons.IH) auto
  then show ?case
    using raw' by (simp add: succeeds_then)
qed simp

lemma succeeds_push_or_flush:
  assumes "\<And>f buf. f \<in> set fs \<Longrightarrow> to_buf f buf = (buf @ g f, Inr ())"
  shows "succeeds (push_or_flush ops to_buf fs r)"
  using assms
proof (induction fs arbitrary: r)
  case (Cons f fs)
  have "succeeds (on_pending (to_buf f))"
    using Cons.prems succeeds_on_pending [of "to_buf f" "g f"] by simp
  moreover have "succeeds (push_or_flush ops to_buf fs r)" for r
    using Cons by simp
  ultimately show ?case
    unfolding push_or_flush.simps by (intro succeeds_then succeeds_if) simp_all
qed simp

lemma succeeds_batch:
  assumes "\<And>f buf. f \<in> set fs \<Longrightarrow> length buf = 20 \<Longrightarrow> enc f buf = Inr (g f)" "\<And>f. f \<in> set fs \<Longrightarrow> length (g f) = 20"
    and "\<And>f buf. f \<in> set fs \<Longrightarrow> to_buf f buf = (buf @ g f, Inr ())" and "\<And>f. f \<in> set fs \<Longrightarrow> succeeds (single f)"
  shows "succeeds (push_batch ops single enc to_buf fs)"
proof -
  have ch: "concat (chunks 32 fs) = fs" "\<forall>c \<in> set (chunks 32 fs). length c \<le> 32"
    using chunks_concat [of 32 fs] chunks_bound by auto
  have w: "succeeds (write_chunks ops enc (chunks 32 fs) (replicate 640 0) 0)"
    using assms(1,2) ch by (intro succeeds_write_chunks [where g = g]) auto
  have dir: "succeeds (act_then (count_push n) (\<lambda>_. act_then (write_chunks ops enc (chunks 32 fs) (replicate 640 0) 0)
      (\<lambda>n. act_then (act_seq [cw_flush ops, count_write n, stamp ops]) (\<lambda>_. act_ret Window))))" for n
    unfolding act_seq.simps by (intro succeeds_then w) simp_all
  have "succeeds (act_each (\<lambda>f. on_pending (to_buf f)) fs)"
    by (intro succeeds_each succeeds_on_pending) (rule assms(3))
  then have buf: "succeeds (act_then (count_push n) (\<lambda>_.
          if b then act_then (act_each (\<lambda>f. on_pending (to_buf f)) fs) (\<lambda>_. window_check ops Pending)
          else act_then (push_or_flush ops to_buf fs Pending) (\<lambda>reason. window_check ops reason)))" for n b
    by (intro succeeds_then succeeds_if succeeds_push_or_flush [where g = g] assms(3)) simp_all
  have sgl: "length fs = 1 \<Longrightarrow> succeeds (single (fs ! 0))"
    using assms(4) by simp
  show ?thesis
    using dir buf sgl unfolding succeeds_def push_batch_def Let_def by (simp del: act_seq.simps)
qed

lemma succeeds_push:
  assumes "wf_msg m" "msg_fault m = None"
  shows "succeeds (push ops m)"
proof -
  let ?rest = "\<lambda>b. act_then (push_message_to_scratch m) (\<lambda>_. act_then take_scratch (\<lambda>bs.
      act_then (write_out ops bs) (\<lambda>_. act_ret (b :: FlushReason))))"
  have rest: "succeeds (?rest b)" for b
    by (intro succeeds_then succeeds_scratch [OF assms]) simp_all
  have input: "succeeds (push_direct ops m)" "succeeds (case m of
            UhidInput input \<Rightarrow>
              on_pending (push_uhid_input_to_buf (ui_id input) (unat (ui_size input)) (ui_data input))
          | _ \<Rightarrow> act_then (push_message_to_scratch m :: ('e CoalescingWriter, unit) act)
              (\<lambda>_. act_modify (\<lambda>w. w\<lparr>cw_pending := cw_pending w @ cw_scratch w\<rparr>)))"
  proof -
    have i: "succeeds (push_direct ops m) \<and>
        succeeds (on_pending (push_uhid_input_to_buf (ui_id i) (unat (ui_size i)) (ui_data i)) :: ('e CoalescingWriter, unit) act)" if "m = UhidInput i" for i
    proof -
      have sz: "unat (ui_size i) \<le> 15" "unat (ui_size i) \<le> length (ui_data i)"
        using assms that by (auto simp: msg_fault_def split: if_splits)
      obtain raw k where "encode_uhid_input_to_array (ui_id i) (unat (ui_size i)) (ui_data i)
          (replicate (HID_MAX_SIZE + 5) 0) = Inr (raw, k)"
        using encode_uhid_ok [OF sz] by blast
      then have "succeeds (push_direct ops m)"
        unfolding push_direct_def that ControlMessage.case by (simp only: sum.case prod.case) (rule succeeds_push_parts(1))
      then show ?thesis
        using succeeds_on_pending [OF push_uhid_to_buf_ok [OF sz]] by blast
    qed
    have "succeeds (act_then (count_push 1) (\<lambda>_. ?rest b))" for b
      by (intro succeeds_then rest) simp
    then have "succeeds (push_direct ops m)" if "\<not> (\<exists>i. m = UhidInput i)"
      using that unfolding push_direct_def by (cases m) simp_all
    then show "succeeds (push_direct ops m)"
      using i by blast
    have "succeeds (act_then (push_message_to_scratch m :: ('e CoalescingWriter, unit) act)
        (\<lambda>_. act_modify (\<lambda>w. w\<lparr>cw_pending := cw_pending w @ cw_scratch w\<rparr>)))"
      by (intro succeeds_then succeeds_scratch [OF assms]) simp_all
    then show "succeeds (case m of
            UhidInput input \<Rightarrow>
              on_pending (push_uhid_input_to_buf (ui_id input) (unat (ui_size input)) (ui_data input))
          | _ \<Rightarrow> act_then (push_message_to_scratch m :: ('e CoalescingWriter, unit) act)
              (\<lambda>_. act_modify (\<lambda>w. w\<lparr>cw_pending := cw_pending w @ cw_scratch w\<rparr>)))"
      using i by (cases m) simp_all
  qed
  show ?thesis
    unfolding push_def [abs_def] act_seq.simps
    by (intro succeeds_by_mode succeeds_then succeeds_if input succeeds_scratch [OF assms]) simp_all
qed

lemma succeeds_exec:
  assumes "push_ok p"
  shows "succeeds (push_exec ops p)"
proof -
  have fields: "succeeds (push_gamepad_input_fields ops hid f)" for hid f
  proof -
    have "encode_gamepad_input_fields_slice hid f (replicate (GAMEPAD_REPORT_SIZE + 5) 0) =
        Inr (msg_bytes (input_of hid (pack f)))"
      by (rule encode_fields_slice_ok) simp
    then show ?thesis
      unfolding push_gamepad_input_fields_def [abs_def]
      by (simp only: sum.case)
        (rule succeeds_by_mode [OF succeeds_push_parts(1) succeeds_push_parts(2) [OF push_fields_to_buf_ok]])
  qed
  have report: "succeeds (push_gamepad_input ops hid d)" if d: "length d = 15" for hid d
  proof -
    have "encode_gamepad_input_slice hid d (replicate (GAMEPAD_REPORT_SIZE + 5) 0) = Inr (msg_bytes (input_of hid d))"
      by (rule encode_slice_ok) (simp_all add: d)
    then show ?thesis
      unfolding push_gamepad_input_def [abs_def]
      by (simp only: sum.case)
        (rule succeeds_by_mode [OF succeeds_push_parts(1) succeeds_push_parts(2) [OF push_gamepad_to_buf_ok [OF d]]])
  qed
  have inp: "succeeds (push_uhid_input ops hid sz d)" if sz: "unat sz \<le> 15" "unat sz \<le> length d" for hid sz d
  proof -
    obtain raw k where "encode_uhid_input_to_array hid (unat sz) d (replicate (HID_MAX_SIZE + 5) 0) = Inr (raw, k)"
      using encode_uhid_ok [OF sz] by blast
    then show ?thesis
      unfolding push_uhid_input_def [abs_def]
      by (simp only: sum.case prod.case)
        (rule succeeds_by_mode [OF succeeds_push_parts(1) succeeds_push_parts(2) [OF push_uhid_to_buf_ok [OF sz]]])
  qed
  have batch: "succeeds (push_gamepad_input_batch ops hid ds)" if "\<forall>d \<in> set ds. length d = 15" for hid ds
    unfolding push_gamepad_input_batch_def
    by (rule succeeds_batch [where g = "\<lambda>d. msg_bytes (input_of hid d)"])
      (use that in \<open>simp_all add: encode_slice_ok push_gamepad_to_buf_ok report\<close>)
  have frames: "succeeds (push_gamepad_input_batch_from_fields ops hid fs)" for hid fs
    unfolding push_gamepad_input_batch_from_fields_def
    by (rule succeeds_batch [where g = "\<lambda>f. msg_bytes (input_of hid (pack f))"])
      (simp_all add: encode_fields_slice_ok push_fields_to_buf_ok fields)
  show ?thesis
    using assms by (cases p) (simp_all add: succeeds_then succeeds_push fields report inp batch frames)
qed

lemma succeeds_execs: "list_all push_ok ps \<Longrightarrow> succeeds (act_each (push_exec ops) ps)"
  by (intro succeeds_each succeeds_exec) (simp add: list_all_iff)

end

section \<open>How much is buffered\<close>

definition within_limit :: "'e CoalescingWriter \<Rightarrow> bool" where
  "within_limit w \<longleftrightarrow> length (cw_pending w) \<le> cw_hard_limit w"

definition same_pending :: "'e CoalescingWriter \<Rightarrow> 'e CoalescingWriter \<Rightarrow> bool" where
  "same_pending w w' \<longleftrightarrow> cw_pending w' = cw_pending w \<and> cw_hard_limit w' = cw_hard_limit w"

lemma same_pending_preorder: "reflp same_pending" "transp same_pending"
  by (auto simp: same_pending_def reflp_def transp_def)

lemma keeps_pending_basic:
  "keeps same_pending (cw_write ops bs)" "keeps same_pending (cw_flush ops)" "keeps same_pending (cw_now ops)"
  "keeps same_pending (count_push n)" "keeps same_pending (count_write n)"
  "keeps same_pending (push_message_to_scratch m)" "keeps same_pending take_scratch"
  "keeps same_pending (act_ret x)"
  by (auto simp: keeps_def same_pending_def cw_write_def cw_flush_def cw_now_def count_push_def
      count_write_def push_message_to_scratch_def take_scratch_def split: prod.splits sum.splits)

lemmas keeps_pending_then = keeps_then [OF same_pending_preorder(2)]

lemma keeps_limit: "keeps same_config p \<Longrightarrow> p w = (r, w') \<Longrightarrow> cw_hard_limit w' = cw_hard_limit w"
  by (auto dest: keepsD simp: same_config_def)

context transport
begin

lemma flush_now_ok: "flush_now ops w = (Inr n, w') \<Longrightarrow> cw_pending w' = []"
  using flush_now_result [of w "Inr n" w'] by auto

lemma window_check_pending:
  assumes "window_check ops r w = (Inr x, w')"
  shows "cw_pending w' = [] \<or> same_pending w w'"
proof -
  obtain t w1 where now: "cw_now ops w = (Inr t, w1)"
    by (cases "op_now ops (cw_transport w)") (simp add: cw_now_def)
  then have s1: "same_pending w w1"
    using keeps_pending_basic(3) by (metis keepsD)
  show ?thesis
  proof (cases "cw_window w1 \<le> t - cw_last_flush w1 \<and> cw_pending w1 \<noteq> []")
    case True
    then have "act_then (flush_now ops) (\<lambda>_. act_ret Window) w1 = (Inr x, w')"
      using assms now by (simp add: window_check_def)
    then show ?thesis
      using flush_now_ok by (auto simp: act_then_Inr_iff)
  next
    case False
    then have "w' = w1"
      using assms now by (simp add: window_check_def split: if_splits)
    then show ?thesis
      using s1 by simp
  qed
qed

lemma flush_check_limit:
  assumes "flush_check ops w = (Inr x, w')"
  shows "within_limit w'"
proof (cases "cw_hard_limit w \<le> length (cw_pending w)")
  case True
  then have "act_then (flush_now ops) (\<lambda>_. act_ret Full) w = (Inr x, w')"
    using assms by (simp add: flush_check_def)
  then show ?thesis
    using flush_now_ok by (auto simp: act_then_Inr_iff within_limit_def)
next
  case False
  then have "window_check ops Pending w = (Inr x, w')"
    using assms by (simp add: flush_check_def)
  then show ?thesis
    using window_check_pending False by (fastforce simp: within_limit_def same_pending_def)
qed

lemma window_check_limit: "within_limit w \<Longrightarrow> window_check ops r w = (Inr x, w') \<Longrightarrow> within_limit w'"
  using window_check_pending by (fastforce simp: within_limit_def same_pending_def)

lemma push_or_flush_limit:
  "fs \<noteq> [] \<or> within_limit w \<Longrightarrow> push_or_flush ops to_buf fs r w = (Inr x, w') \<Longrightarrow> within_limit w'"
proof (induction fs arbitrary: r w)
  case (Cons f fs)
  obtain w1 where "on_pending (to_buf f) w = (Inr (), w1)"
    and run: "(if cw_hard_limit w1 \<le> length (cw_pending w1)
       then act_then (flush_now ops) (\<lambda>_. push_or_flush ops to_buf fs Full)
       else push_or_flush ops to_buf fs r) w1 = (Inr x, w')"
    using Cons.prems(2) by (auto simp: act_then_Inr_iff)
  show ?case
  proof (cases "cw_hard_limit w1 \<le> length (cw_pending w1)")
    case True
    then obtain n w2 where "flush_now ops w1 = (Inr n, w2)" and run2: "push_or_flush ops to_buf fs Full w2 = (Inr x, w')"
      using run by (auto simp: act_then_Inr_iff)
    then have "within_limit w2"
      using flush_now_ok by (simp add: within_limit_def)
    then show ?thesis
      using Cons.IH run2 by blast
  next
    case False
    then have "within_limit w1"
      by (simp add: within_limit_def)
    then show ?thesis
      using Cons.IH [of w1 r] run False by simp
  qed
qed simp

lemma each_pending:
  assumes "\<And>f buf. f \<in> set fs \<Longrightarrow> to_buf f buf = (buf @ g f, Inr ())"
  shows "act_each (\<lambda>f. on_pending (to_buf f)) fs w = (Inr (), w\<lparr>cw_pending := cw_pending w @ concat (map g fs)\<rparr>)"
  using assms
proof (induction fs arbitrary: w)
  case (Cons f fs)
  then show ?case
    by (simp add: on_pending_def act_then_def)
qed simp

lemma batch_limit:
  assumes "\<And>f buf. f \<in> set fs \<Longrightarrow> to_buf f buf = (buf @ g f, Inr ())" "\<And>f. f \<in> set fs \<Longrightarrow> length (g f) = 20"
    and "\<And>f w x w'. \<not> cw_direct w \<Longrightarrow> f \<in> set fs \<Longrightarrow> single f w = (Inr x, w') \<Longrightarrow> within_limit w'"
    and "\<not> cw_direct w" "within_limit w" "push_batch ops single enc to_buf fs w = (Inr x, w')"
  shows "within_limit w'"
proof -
  have len: "length (concat (map g fs)) = 20 * length fs"
    using assms(2) by (induction fs) auto
  define w1 where "w1 = w\<lparr>cw_pushed := cw_pushed w + word_of_nat (length fs)\<rparr>"
  have w1: "within_limit w1" "cw_hard_limit w1 = cw_hard_limit w" "cw_pending w1 = cw_pending w"
    using assms(5) by (simp_all add: w1_def within_limit_def)
  consider "fs = []" | "length fs = 1" | "fs \<noteq> []" "length fs \<noteq> 1" "length (cw_pending w) + length fs * 20 \<le> cw_hard_limit w"
    | "fs \<noteq> []" "length fs \<noteq> 1" "\<not> length (cw_pending w) + length fs * 20 \<le> cw_hard_limit w"
    by blast
  then show ?thesis
  proof cases
    case 1
    then show ?thesis
      using assms(5,6) by (simp add: push_batch_def)
  next
    case 2
    then obtain f where "fs = [f]"
      by (auto simp: length_Suc_conv)
    then show ?thesis
      using assms(3) [OF assms(4), of f] assms(6) by (simp add: push_batch_def)
  next
    case 3
    have each: "act_each (\<lambda>f. on_pending (to_buf f)) fs w1 = (Inr (), w1\<lparr>cw_pending := cw_pending w1 @ concat (map g fs)\<rparr>)"
      by (rule each_pending) (rule assms(1))
    have "window_check ops Pending (w1\<lparr>cw_pending := cw_pending w @ concat (map g fs)\<rparr>) = (Inr x, w')"
      using 3 assms(4,6) each w1 by (simp add: push_batch_def Let_def count_push_def w1_def [symmetric])
    moreover have "within_limit (w1\<lparr>cw_pending := cw_pending w @ concat (map g fs)\<rparr>)"
      using 3(3) len w1 by (simp add: within_limit_def)
    ultimately show ?thesis
      using window_check_limit by blast
  next
    case 4
    then have "act_then (push_or_flush ops to_buf fs Pending) (window_check ops) w1 = (Inr x, w')"
      using assms(4,6) by (simp add: push_batch_def Let_def count_push_def w1_def [symmetric])
    then obtain y w2 where "push_or_flush ops to_buf fs Pending w1 = (Inr y, w2)" "window_check ops y w2 = (Inr x, w')"
      by (auto simp: act_then_Inr_iff)
    then show ?thesis
      using push_or_flush_limit w1(1) window_check_limit by metis
  qed
qed

lemma critical_flushes:
  assumes "push ops m w = (Inr x, w')" "is_critical m" "\<not> cw_direct w"
  shows "cw_pending w' = []"
proof -
  obtain n w1 w2 where f: "flush_now ops w1 = (Inr n, w2)"
    and rest: "act_then (push_message_to_scratch m) (\<lambda>_. act_then take_scratch (\<lambda>serialized.
            act_then (act_seq [cw_write ops serialized, cw_flush ops, count_write (length serialized)])
              (\<lambda>_. act_ret Critical))) w2 = (Inr x, w')"
    using assms by (auto simp: push_def act_then_Inr_iff [of "flush_now ops"] count_push_def simp del: act_seq.simps)
  have k: "keeps same_pending (act_then (push_message_to_scratch m) (\<lambda>_. act_then take_scratch (\<lambda>serialized.
            act_then (act_seq [cw_write ops serialized, cw_flush ops, count_write (length serialized)])
              (\<lambda>_. act_ret Critical))))"
    unfolding act_seq.simps by (intro keeps_pending_then keeps_pending_basic)
  have "same_pending w2 w'"
    by (rule keepsD [OF k rest])
  then show ?thesis
    using flush_now_ok [OF f] by (simp add: same_pending_def)
qed

lemma push_limit:
  assumes "\<not> cw_direct w" "push ops m w = (Inr x, w')"
  shows "within_limit w'"
proof (cases "is_critical m")
  case True
  then show ?thesis
    using critical_flushes [OF assms(2)] assms(1) by (simp add: within_limit_def)
next
  case False
  then show ?thesis
    using assms flush_check_limit by (auto simp: push_def act_then_Inr_iff count_push_def)
qed

lemma exec_limit:
  assumes "push_ok p" "\<not> cw_direct w" "within_limit w" "push_exec ops p w = (Inr x, w')"
  shows "within_limit w'"
proof -
  have fields: "within_limit w'" if "\<not> cw_direct w" "push_gamepad_input_fields ops hid f w = (Inr x, w')" for hid f w x w'
    using that flush_check_limit by (auto simp: push_gamepad_input_fields_def act_then_Inr_iff)
  have report: "within_limit w'" if "\<not> cw_direct w" "push_gamepad_input ops hid d w = (Inr x, w')" for hid d w x w'
    using that flush_check_limit by (auto simp: push_gamepad_input_def act_then_Inr_iff)
  have inp: "within_limit w'" if "\<not> cw_direct w" "push_uhid_input ops hid sz d w = (Inr x, w')" for hid sz d w x w'
    using that flush_check_limit by (auto simp: push_uhid_input_def act_then_Inr_iff)
  have batch: "within_limit w'" if "\<forall>d \<in> set ds. length d = 15" "push_gamepad_input_batch ops hid ds w = (Inr x, w')" for hid ds x
    using that(2) unfolding push_gamepad_input_batch_def
    by (rule batch_limit [where g = "\<lambda>d. msg_bytes (input_of hid d)", rotated -1])
      (use that(1) assms(2,3) report in \<open>auto simp: push_gamepad_to_buf_ok\<close>)
  have frames: "within_limit w'" if "push_gamepad_input_batch_from_fields ops hid fs w = (Inr x, w')" for hid fs x
    using that unfolding push_gamepad_input_batch_from_fields_def
    by (rule batch_limit [where g = "\<lambda>f. msg_bytes (input_of hid (pack f))", rotated -1])
      (use assms(2,3) fields in \<open>auto simp: push_fields_to_buf_ok\<close>)
  show ?thesis
  proof (cases p)
    case P_Flush
    then show ?thesis
      using assms(4) flush_now_ok by (auto simp: act_then_Inr_iff within_limit_def)
  qed (use assms push_limit fields report inp batch frames in \<open>auto simp: act_then_Inr_iff\<close>)
qed

end

section \<open>Delivery\<close>

lemma push_msgs_ok:
  "list_all push_ok ps \<Longrightarrow> \<forall>m \<in> set (concat (map push_msgs ps)). wf_msg m \<and> msg_fault m = None"
proof -
  have "push_ok p \<Longrightarrow> m \<in> set (push_msgs p) \<Longrightarrow> wf_msg m \<and> msg_fault m = None" for p m
    by (cases p) auto
  then show "list_all push_ok ps \<Longrightarrow> \<forall>m \<in> set (concat (map push_msgs ps)). wf_msg m \<and> msg_fault m = None"
    by (auto simp: list_all_iff)
qed

lemma decode_msg_bytes:
  assumes "\<forall>m \<in> set ms. wf_msg m \<and> msg_fault m = None"
  shows "decode_all dec_wire (concat (map msg_bytes ms)) = Some (map wire_of ms)"
proof -
  have "list_all wire_ok (map wire_of ms)"
    using assms by (auto simp: list_all_iff wire_ok_of)
  moreover have "map msg_bytes ms = map wire_bytes (map wire_of ms)"
    by (simp add: msg_bytes_def)
  ultimately show ?thesis
    using control_wire.decode_all_concat by metis
qed

lemma act_each_append: "act_each f (xs @ ys) s = act_then (act_each f xs) (\<lambda>_. act_each f ys) s"
  by (induction xs arbitrary: s) (auto simp: act_then_def split: prod.splits sum.splits)

lemma with_limits_mode:
  "in_mode (h = 0 \<and> d = 0) (with_limits ops t d h)" "cw_pending (with_limits ops t d h) = []"
  by (simp_all add: with_limits_def in_mode_def Let_def split: prod.splits)

lemma mock_with_limits: "cw_transport (with_limits (mock_ops c) t d h) = t"
  by (simp add: with_limits_def mock_ops_def)

context reliable_transport
begin

lemma with_limits_wire: "wire (cw_transport (with_limits ops t d h)) = wire t"
  using now_wire by (cases "op_now ops t") (auto simp: with_limits_def)

lemma delivery:
  assumes "list_all push_ok ps"
  shows "\<exists>w'. act_each (push_exec ops) (ps @ [P_Flush]) (with_limits ops t d h) = (Inr (), w') \<and>
    cw_pending w' = [] \<and> wire (cw_transport w') = wire t @ concat (map msg_bytes (concat (map push_msgs ps)))"
proof -
  let ?w = "with_limits ops t d h" and ?ps = "ps @ [P_Flush]"
  have good: "list_all push_ok ?ps"
    using assms by simp
  obtain w' where run: "act_each (push_exec ops) ?ps ?w = (Inr (), w')"
    using succeeds_execs [OF good] unfolding succeeds_def is_ok_ex by (metis (full_types) old.unit.exhaust prod.collapse)
  then obtain w1 n where "flush_now ops w1 = (Inr n, w')"
    by (auto simp: act_each_append act_then_Inr_iff)
  then have "cw_pending w' = []"
    by (rule flush_now_ok)
  moreover have "wire (cw_transport w') @ cw_pending w' = wire t @ concat (map msg_bytes (concat (map push_msgs ps)))"
    using delivers_execs [OF good, of "h = 0 \<and> d = 0"] run with_limits_mode [where h = h and d = d and ops = ops and t = t]
    unfolding delivers_def by (fastforce simp: with_limits_wire)
  ultimately show ?thesis
    using run by simp
qed

end

section \<open>Errors and the end of a writer\<close>

context transport
begin

lemma drop_writer_sends:
  "\<exists>n \<le> length (cw_pending w). wire (drop_writer ops w) = wire (cw_transport w) @ take n (cw_pending w)"
  using flush_now_result [of w "fst (flush_now ops w)" "snd (flush_now ops w)"] by (auto simp: drop_writer_def)

text \<open>
  A flush that fails keeps the whole buffer, although the peer may have received a part of it already:
  the next flush, or the drop, sends that part again.
\<close>

lemma failed_flush_resends:
  assumes "flush_now ops w = (Inl e, w1)" "flush_now ops w1 = (Inr n, w2)"
  shows "\<exists>k \<le> length (cw_pending w). wire (cw_transport w2) = wire (cw_transport w) @ take k (cw_pending w) @ cw_pending w"
  using flush_now_result [OF assms(1)] flush_now_result [OF assms(2)] by auto

lemma stream_dropped:
  assumes "list_all push_ok ps" "in_mode direct w" "act_each (push_exec ops) ps w = (Inr (), w')"
  defines "sent \<equiv> cw_pending w @ concat (map msg_bytes (concat (map push_msgs ps)))"
  shows "\<exists>n \<le> length sent. wire (drop_writer ops w') = wire (cw_transport w) @ take n sent"
proof -
  obtain n where n: "n \<le> length sent" "wire (cw_transport w') = wire (cw_transport w) @ take n sent"
    and all: "wire (cw_transport w') @ cw_pending w' = wire (cw_transport w) @ sent"
    using delivers_execs [OF assms(1), of direct] assms(2,3) unfolding delivers_def sent_def by fastforce
  have "take n sent @ cw_pending w' = sent"
    using n(2) all by simp
  then have pend: "cw_pending w' = drop n sent"
    by (metis append_same_eq append_take_drop_id same_append_eq)
  obtain k where k: "k \<le> length (cw_pending w')"
    "wire (drop_writer ops w') = wire (cw_transport w') @ take k (cw_pending w')"
    using drop_writer_sends by blast
  have "wire (drop_writer ops w') = wire (cw_transport w) @ take (n + k) sent" "n + k \<le> length sent"
    using n k unfolding pend take_add by simp_all
  then show ?thesis
    by blast
qed

end

section \<open>Properties\<close>

text \<open>
  C7 (safety). Whatever the transport, the clock, the window and the limit do, a sequence of writer
  operations (messages, single reports, raw frames, batches, explicit flushes) that is given up at the
  first operation to fail keeps the byte stream intact up to and including that operation: the wire holds
  a prefix of what was there followed by the buffered bytes and the serialized messages in the order they
  were pushed. When all operations succeed, wire and buffer together hold exactly that stream, nothing
  reordered, dropped or sent twice, and the flush of the drop, even if it fails halfway, only extends the
  prefix. The property says nothing of a writer used on after a failed operation:
  \<open>failed_flush_resends\<close> shows that the next flush may send bytes a second time.
\<close>

theorem coalesced_stream:
  assumes "transport ops wire" "list_all push_ok ps" "in_mode direct w"
    and "act_each (push_exec ops) ps w = (r, w')"
  defines "sent \<equiv> cw_pending w @ concat (map msg_bytes (concat (map push_msgs ps)))"
  shows "(\<exists>n \<le> length sent. wire (cw_transport w') = wire (cw_transport w) @ take n sent) \<and>
    (is_ok r \<longrightarrow> wire (cw_transport w') @ cw_pending w' = wire (cw_transport w) @ sent \<and>
      (\<exists>n \<le> length sent. wire (drop_writer ops w') = wire (cw_transport w) @ take n sent))"
  using transport.delivers_execs [OF assms(1,2), of direct] transport.stream_dropped [OF assms(1-3)] assms(3,4)
  unfolding transport.delivers_def [OF assms(1)] sent_def by (cases r) auto

theorem coalesced_stream_witness:
  "let w = with_limits (mock_ops 0) mock_new 5 64; ps = [P_Message (UhidDestroy 3), P_Report 3 (replicate 15 7), P_Flush];
       (r, w') = act_each (push_exec (mock_ops 0)) ps w
   in is_ok r \<and> mt_bytes (cw_transport w') @ cw_pending w' = [14, 0, 3] @ 13 # [0, 3] @ [0, 15] @ replicate 15 7"
proof -
  define w where "w = with_limits (mock_ops 0) mock_new 5 64"
  define ps where "ps = [P_Message (UhidDestroy 3), P_Report 3 (replicate 15 7), P_Flush]"
  obtain r w' where run: "act_each (push_exec (mock_ops 0)) ps w = (r, w')"
    by fastforce
  have good: "list_all push_ok ps"
    by (simp add: ps_def wf_msg_def msg_fault_def)
  have ok: "is_ok r"
    using reliable_mock.succeeds_execs [OF good, of 0] run unfolding succeeds_def by (metis fst_conv)
  have mode: "in_mode False w" "cw_pending w = []" "cw_transport w = mock_new"
    using with_limits_mode [where h = 64 and d = 5 and ops = "mock_ops 0" and t = mock_new] mock_with_limits by (simp_all add: w_def)
  have "mt_bytes (cw_transport w') @ cw_pending w' =
      mt_bytes (cw_transport w) @ cw_pending w @ concat (map msg_bytes (concat (map push_msgs ps)))"
    using coalesced_stream [OF mock.transport_axioms good mode(1) run] ok by blast
  then show ?thesis
    using run ok mode unfolding w_def [symmetric] ps_def [symmetric]
    by (simp add: Let_def) (simp add: ps_def mock_new_def msg_bytes_def short_str_def to_be_bytes_u16)
qed

text \<open>
  C8 (liveness). On a transport that does not fail, every sequence of well-formed writer operations
  succeeds, and after a final flush all of it is on the wire: the server decodes exactly the messages
  that were pushed, in order.
\<close>

theorem coalesced_delivery:
  assumes "reliable_transport ops wire" "list_all push_ok ps" "wire t = []"
  shows "\<exists>w'. act_each (push_exec ops) (ps @ [P_Flush]) (with_limits ops t window limit) = (Inr (), w') \<and>
    cw_pending w' = [] \<and>
    decode_all dec_wire (wire (cw_transport w')) = Some (map wire_of (concat (map push_msgs ps)))"
  using reliable_transport.delivery [OF assms(1,2), of t window limit] assms(3)
    decode_msg_bytes [OF push_msgs_ok [OF assms(2)]] by auto

theorem coalesced_delivery_witness:
  "\<exists>w'. act_each (push_exec (mock_ops 0)) ([P_Report 3 (replicate 15 7)] @ [P_Flush]) (with_limits (mock_ops 0) mock_new 5 64)
      = (Inr (), w') \<and> decode_all dec_wire (mt_bytes (cw_transport w')) = Some [W_UhidInput 3 (replicate 15 7)]"
  using coalesced_delivery [OF reliable_mock.reliable_transport_axioms, of "[P_Report 3 (replicate 15 7)]" mock_new 0 5 64]
  by (auto simp: mock_new_def)

text \<open>
  C9 (bounds). A coalescing writer never holds back more than its hard limit: every operation that
  succeeds leaves at most \<open>hard_limit\<close> bytes buffered; and a successful UHID_CREATE or UHID_DESTROY
  leaves none, so device creation and removal are never delayed behind buffered input.
\<close>

theorem coalesced_bound:
  assumes "transport ops wire" "push_ok p" "\<not> cw_direct w" "within_limit w" "push_exec ops p w = (Inr (), w')"
  shows "length (cw_pending w') \<le> cw_hard_limit w' \<and>
    (\<forall>m. p = P_Message m \<and> is_critical m \<longrightarrow> cw_pending w' = [])"
proof -
  have "cw_pending w' = []" if "p = P_Message m" "is_critical m" for m
    using assms(3,5) that transport.critical_flushes [OF assms(1)] by (auto simp: act_then_Inr_iff)
  then show ?thesis
    using transport.exec_limit [OF assms] by (auto simp: within_limit_def)
qed

theorem coalesced_bound_witness:
  "\<exists>w'. push_exec (mock_ops 0) (P_Message (UhidDestroy 3)) (with_limits (mock_ops 0) mock_new 5 64) = (Inr (), w') \<and>
     cw_pending w' = []"
proof -
  let ?w = "with_limits (mock_ops 0) mock_new 5 64"
  have ok: "push_ok (P_Message (UhidDestroy 3))"
    by (simp add: msg_fault_def)
  obtain w' where run: "push_exec (mock_ops 0) (P_Message (UhidDestroy 3)) ?w = (Inr (), w')"
    using reliable_mock.succeeds_exec [OF ok, of 0] unfolding succeeds_def is_ok_ex by (metis (full_types) old.unit.exhaust prod.collapse)
  have "\<not> cw_direct ?w" "within_limit ?w"
    by (simp_all add: with_limits_def mock_ops_def within_limit_def)
  then show ?thesis
    using coalesced_bound [OF mock.transport_axioms ok _ _ run] run by (auto simp: is_critical_def)
qed

text \<open>
  The five ways a gamepad frame becomes bytes agree: packing the raw fields into the
  heap buffer, into the stack buffer (whatever it held before), packing first and copying the report
  into either, and updating the driver's slot and running the generic serializer all produce the same
  20-byte UHID_INPUT message.
\<close>

theorem gamepad_encoders_agree:
  fixes f :: GamepadFrameRaw
  assumes "length raw = 20"
  defines "u \<equiv> U_Full (gf_buttons f) (gf_left_x f) (gf_left_y f) (gf_right_x f) (gf_right_y f)
      (gf_left_trigger f) (gf_right_trigger f)"
  shows "\<exists>bs. serialize (slot_to_input_message hid (apply_update u s)) = Inr bs \<and> length bs = 20 \<and>
    push_gamepad_input_fields_to_buf hid f buf = (buf @ bs, Inr ()) \<and>
    encode_gamepad_input_fields_slice hid f raw = Inr bs \<and>
    push_gamepad_input_to_buf hid (pack f) buf = (buf @ bs, Inr ()) \<and>
    encode_gamepad_input_slice hid (pack f) raw = Inr bs"
proof -
  have "slot_to_input_message hid (apply_update u s) = input_of hid (pack f)"
    by (simp only: slot_to_input_message_eq u_def pack_is_full_state [of f s])
  then have "serialize (slot_to_input_message hid (apply_update u s)) = Inr (msg_bytes (input_of hid (pack f)))"
    by (simp add: serialize_ok_iff msg_bytes_def)
  then show ?thesis
    using push_fields_to_buf_ok encode_fields_slice_ok [OF assms(1)] push_gamepad_to_buf_ok [of "pack f"]
      encode_slice_ok [OF assms(1), of "pack f"]
    by (intro exI [of _ "msg_bytes (input_of hid (pack f))"]) simp
qed

theorem gamepad_encoders_agree_witness:
  "let f = \<lparr>gf_buttons = 1, gf_left_x = 0, gf_left_y = 0, gf_right_x = 0, gf_right_y = 0,
      gf_left_trigger = 5, gf_right_trigger = 0\<rparr>
   in encode_gamepad_input_fields_slice 3 f (replicate 20 9) = encode_gamepad_input_slice 3 (pack f) (replicate 20 9)"
  using gamepad_encoders_agree [of "replicate 20 9" 3
      "\<lparr>gf_buttons = 1, gf_left_x = 0, gf_left_y = 0, gf_right_x = 0, gf_right_y = 0,
        gf_left_trigger = 5, gf_right_trigger = 0\<rparr>" slot_default "[]"]
  by (auto simp: Let_def)

end
