(* ===== verification/Session.thy ===== *)
theory Session
  imports Coalesce_Stream Keyboard Mouse
begin

text \<open>
  \<^verbatim>\<open>src/src/session.rs\<close>: the session that owns the writer and the device drivers. It opens the requested
  devices, sends their reports and closes them again; dropping a session closes it. Touch gestures and
  the intents built from single messages are in the theories \<open>Multitouch\<close> and \<open>Gestures\<close>. Strings are
  lists of code points where the code walks over characters and UTF-8 bytes where it sends them.
\<close>

section \<open>Requests and state\<close>

record OpenRequest =
  or_kbd :: bool
  or_mouse :: bool
  or_gamepad :: bool
  or_coalesce :: bool
  or_coalesce_window :: nat \<comment> \<open>nanoseconds\<close>
  or_coalesce_hard_limit :: nat

definition request_none :: OpenRequest where
  "request_none = \<lparr>or_kbd = False, or_mouse = False, or_gamepad = False, or_coalesce = True,
     or_coalesce_window = DEFAULT_WINDOW, or_coalesce_hard_limit = DEFAULT_HARD_LIMIT\<rparr>"

definition request_all :: OpenRequest where
  "request_all = \<lparr>or_kbd = True, or_mouse = True, or_gamepad = True, or_coalesce = True,
     or_coalesce_window = DEFAULT_WINDOW, or_coalesce_hard_limit = DEFAULT_HARD_LIMIT\<rparr>"

definition kbd_only :: OpenRequest where
  "kbd_only = \<lparr>or_kbd = True, or_mouse = False, or_gamepad = False, or_coalesce = True,
     or_coalesce_window = DEFAULT_WINDOW, or_coalesce_hard_limit = DEFAULT_HARD_LIMIT\<rparr>"

definition mouse_only :: OpenRequest where
  "mouse_only = \<lparr>or_kbd = False, or_mouse = True, or_gamepad = False, or_coalesce = True,
     or_coalesce_window = DEFAULT_WINDOW, or_coalesce_hard_limit = DEFAULT_HARD_LIMIT\<rparr>"

definition gamepad_only :: OpenRequest where
  "gamepad_only = \<lparr>or_kbd = False, or_mouse = False, or_gamepad = True, or_coalesce = True,
     or_coalesce_window = DEFAULT_WINDOW, or_coalesce_hard_limit = DEFAULT_HARD_LIMIT\<rparr>"

definition gamepad_only_realtime :: OpenRequest where
  "gamepad_only_realtime = \<lparr>or_kbd = False, or_mouse = False, or_gamepad = True, or_coalesce = False,
     or_coalesce_window = 0, or_coalesce_hard_limit = 0\<rparr>"

definition with_coalesce :: "bool \<Rightarrow> OpenRequest \<Rightarrow> OpenRequest" where
  "with_coalesce c r = r\<lparr>or_coalesce := c\<rparr>"

definition with_coalesce_window :: "nat \<Rightarrow> OpenRequest \<Rightarrow> OpenRequest" where
  "with_coalesce_window d r = r\<lparr>or_coalesce_window := d\<rparr>"

definition with_coalesce_hard_limit :: "nat \<Rightarrow> OpenRequest \<Rightarrow> OpenRequest" where
  "with_coalesce_hard_limit h r = r\<lparr>or_coalesce_hard_limit := h\<rparr>"

record 'e HidSession =
  hs_transport :: "'e CoalescingWriter"
  hs_kbd :: "KeyboardHid option"
  hs_mouse :: "MouseHid option"
  hs_gamepad :: "GamepadHid option"
  hs_gamepad_slot :: "nat option"
  hs_gamepad_hid_id :: "u16 option"
  hs_closed :: bool
  hs_screen_w :: u16
  hs_screen_h :: u16

abbreviation lifecycle :: "string \<Rightarrow> fault" where
  "lifecycle why \<equiv> Err (SessionLifecycle why)"

definition on_writer :: "('e CoalescingWriter, 'a) act \<Rightarrow> ('e HidSession, 'a) act" where
  \<comment> \<open>a call on \<open>self.transport\<close>\<close>
  "on_writer p s = (case p (hs_transport s) of (r, w) \<Rightarrow> (r, s\<lparr>hs_transport := w\<rparr>))"

definition act_void :: "('s, 'a) act \<Rightarrow> ('s, unit) act" where
  "act_void p = act_then p (\<lambda>_. act_ret ())"

definition act_ignore :: "('s, 'a) act \<Rightarrow> ('s, unit) act" where
  \<comment> \<open>\<open>let _ = p;\<close> discards an error, not a panic\<close>
  "act_ignore p s = (case p s of
     (Inl Panicked, s') \<Rightarrow> (Inl Panicked, s') | (_, s') \<Rightarrow> (Inr (), s'))"

definition act_on_error :: "('s, 'a) act \<Rightarrow> ('s, unit) act \<Rightarrow> ('s, 'a) act" where
  \<comment> \<open>a guard: \<open>cleanup\<close> is its \<open>drop\<close>, run when \<open>p\<close> leaves early\<close>
  "act_on_error p cleanup s = (case p s of (Inl e, s') \<Rightarrow> (Inl e, snd (cleanup s')) | (Inr x, s') \<Rightarrow> (Inr x, s'))"

definition session_send :: "'e transport_ops \<Rightarrow> ControlMessage \<Rightarrow> ('e HidSession, unit) act" where
  "session_send ops m = act_void (on_writer (push ops m))"

definition session_flush_now :: "'e transport_ops \<Rightarrow> ('e HidSession, nat) act" where
  "session_flush_now ops = on_writer (flush_now ops)"

definition session_stats :: "'e HidSession \<Rightarrow> u64 \<times> u64 \<times> nat" where
  "session_stats s = (cw_pushed (hs_transport s), cw_written (hs_transport s), pending_bytes (hs_transport s))"

section \<open>Closing\<close>

definition close_kbd :: "'e transport_ops \<Rightarrow> ('e HidSession, unit) act" where
  "close_kbd ops s = (case hs_kbd s of
     None \<Rightarrow> (Inr (), s)
   | Some k \<Rightarrow> (case keyboard_close_message k of Inl e \<Rightarrow> (Inl e, s) | Inr m \<Rightarrow> session_send ops m s))"

definition close_mouse :: "'e transport_ops \<Rightarrow> ('e HidSession, unit) act" where
  "close_mouse ops s = (case hs_mouse s of
     None \<Rightarrow> (Inr (), s)
   | Some m \<Rightarrow> (case mouse_close_message m of Inl e \<Rightarrow> (Inl e, s) | Inr m \<Rightarrow> session_send ops m s))"

definition close_gamepad :: "'e transport_ops \<Rightarrow> ('e HidSession, unit) act" where
  "close_gamepad ops s = (case hs_gamepad s of
     None \<Rightarrow> (Inr (), s)
   | Some g \<Rightarrow>
       (let (r, g') = (case hs_gamepad_slot s of
              Some slot_idx \<Rightarrow> close_slot_idx slot_idx g
            | None \<Rightarrow> gamepad_close (ucast HID_ID_GAMEPAD_FIRST) g)
        in act_then (case r of Inr m \<Rightarrow> session_send ops m | Inl _ \<Rightarrow> act_ret ()) (\<lambda>_.
             act_modify (\<lambda>s. s\<lparr>hs_gamepad := None, hs_gamepad_slot := None, hs_gamepad_hid_id := None\<rparr>))
           (s\<lparr>hs_gamepad := Some g'\<rparr>)))"

definition try_close_all :: "'e transport_ops \<Rightarrow> ('e HidSession, unit) act" where
  "try_close_all ops s =
     (if hs_closed s then (Inr (), s)
      else act_seq [close_kbd ops, close_mouse ops, close_gamepad ops,
        act_modify (\<lambda>s. s\<lparr>hs_closed := True\<rparr>)] s)"

definition session_close :: "'e transport_ops \<Rightarrow> ('e HidSession, unit) act" where
  "session_close ops = try_close_all ops"

definition drop_session :: "'e transport_ops \<Rightarrow> 'e HidSession \<Rightarrow> 'e" where
  \<comment> \<open>\<open>Drop\<close> of the session, then of the writer it owns\<close>
  "drop_session ops s =
     drop_writer ops (hs_transport (if hs_closed s then s else snd (try_close_all ops s)))"

definition session_into_inner :: "'e transport_ops \<Rightarrow> 'e HidSession \<Rightarrow> unit res \<times> 'e" where
  "session_into_inner ops s =
     (if hs_closed s
      then case into_inner ops (hs_transport s) of (Inr _, e) \<Rightarrow> (Inr (), e) | (Inl _, e) \<Rightarrow> (Inl Panicked, e)
      else (Inl Panicked, drop_session ops s))"

section \<open>Opening\<close>

definition fresh_session :: "'e transport_ops \<Rightarrow> 'e \<Rightarrow> OpenRequest \<Rightarrow> 'e HidSession" where
  "fresh_session ops t req =
     \<lparr>hs_transport =
        (if or_coalesce req \<and> or_coalesce_window req \<noteq> 0
         then with_limits ops t (or_coalesce_window req) (max (or_coalesce_hard_limit req) 1)
         else writer_direct ops t),
      hs_kbd = None, hs_mouse = None, hs_gamepad = None, hs_gamepad_slot = None, hs_gamepad_hid_id = None,
      hs_closed = False, hs_screen_w = 1080, hs_screen_h = 1920\<rparr>"

definition open_kbd :: "'e transport_ops \<Rightarrow> ('e HidSession, unit) act" where
  "open_kbd ops =
     (let k = keyboard_new in
      case keyboard_open_message k None of
        Inl e \<Rightarrow> act_fail e
      | Inr m \<Rightarrow> act_then (session_send ops m) (\<lambda>_. act_modify (\<lambda>s. s\<lparr>hs_kbd := Some k\<rparr>)))"

definition open_mouse :: "'e transport_ops \<Rightarrow> ('e HidSession, unit) act" where
  "open_mouse ops =
     (let m = mouse_new in
      case mouse_open_message m None of
        Inl e \<Rightarrow> act_fail e
      | Inr c \<Rightarrow> act_then (session_send ops c) (\<lambda>_. act_modify (\<lambda>s. s\<lparr>hs_mouse := Some m\<rparr>)))"

definition open_gamepad :: "'e transport_ops \<Rightarrow> ('e HidSession, unit) act" where
  "open_gamepad ops =
     (case gamepad_open (ucast HID_ID_GAMEPAD_FIRST) (Some XBOX_NAME) gamepad_new of
        (Inl e, _) \<Rightarrow> act_fail e
      | (Inr (hid_id, create), g) \<Rightarrow>
          (case slot_from_hid_id hid_id of
             None \<Rightarrow> act_fail (lifecycle ''invalid gamepad id'')
           | Some slot_idx \<Rightarrow> act_then (session_send ops create) (\<lambda>_. act_modify (\<lambda>s.
               s\<lparr>hs_gamepad := Some g, hs_gamepad_slot := Some slot_idx, hs_gamepad_hid_id := Some hid_id\<rparr>))))"

definition open_devices :: "'e transport_ops \<Rightarrow> OpenRequest \<Rightarrow> ('e HidSession, unit) act" where
  "open_devices ops req =
     act_seq [if or_kbd req then open_kbd ops else act_ret (),
       if or_mouse req then open_mouse ops else act_ret (),
       if or_gamepad req then open_gamepad ops else act_ret ()]"

definition session_open :: "'e transport_ops \<Rightarrow> 'e \<Rightarrow> OpenRequest \<Rightarrow> (fault \<times> 'e) + 'e HidSession" where
  \<comment> \<open>an early return drops the partly opened session\<close>
  "session_open ops t req =
     (case open_devices ops req (fresh_session ops t req) of
        (Inl e, s) \<Rightarrow> Inl (e, drop_session ops s)
      | (Inr _, s) \<Rightarrow> Inr s)"

definition set_screen_size :: "u16 \<Rightarrow> u16 \<Rightarrow> 'e HidSession \<Rightarrow> 'e HidSession" where
  "set_screen_size w h s = s\<lparr>hs_screen_w := w, hs_screen_h := h\<rparr>"

section \<open>Keyboard\<close>

definition session_key :: "'e transport_ops \<Rightarrow> u8 \<Rightarrow> bool \<Rightarrow> modifiers \<Rightarrow> ('e HidSession, unit) act" where
  "session_key ops scancode pressed mods s =
     (case hs_kbd s of
        None \<Rightarrow> (Inl (lifecycle ''keyboard not open''), s)
      | Some k \<Rightarrow>
          (case key_event scancode pressed mods k of
             (Inl e, k') \<Rightarrow> (Inl e, s\<lparr>hs_kbd := Some k'\<rparr>)
           | (Inr m, k') \<Rightarrow> session_send ops m (s\<lparr>hs_kbd := Some k'\<rparr>)))"

definition type_char :: "'e transport_ops \<Rightarrow> ('e HidSession, unit) act \<Rightarrow> nat \<Rightarrow> ('e HidSession, unit) act" where
  \<comment> \<open>the body of both typing loops; they differ in what an unsupported character does\<close>
  "type_char ops unsupported ch =
     (case try_from_char ch of
        (None, _) \<Rightarrow> unsupported
      | (Some sc, mods) \<Rightarrow> act_seq [session_key ops (to_u8 sc) True mods, session_key ops (to_u8 sc) False mods])"

definition type_text :: "'e transport_ops \<Rightarrow> ustr \<Rightarrow> ('e HidSession, unit) act" where
  "type_text ops = act_each (type_char ops (act_ret ()))"

definition type_text_strict :: "'e transport_ops \<Rightarrow> ustr \<Rightarrow> ('e HidSession, unit) act" where
  "type_text_strict ops =
     act_each (type_char ops (act_fail (lifecycle ''unsupported char in type_text_strict'')))"

definition key_chord :: "'e transport_ops \<Rightarrow> modifiers \<Rightarrow> u8 \<Rightarrow> ('e HidSession, unit) act" where
  "key_chord ops mods scancode =
     act_on_error
       (act_seq [session_key ops scancode True mods, session_key ops scancode False mods,
          session_key ops scancode False mod_empty])
       (act_ignore (session_key ops scancode False mod_empty))"

section \<open>Gamepad\<close>

definition gamepad_with_cached_slot :: "'e HidSession \<Rightarrow> (nat \<times> GamepadHid) res" where
  "gamepad_with_cached_slot s =
     (if hs_closed s then Inl (lifecycle ''session closed'')
      else case hs_gamepad_slot s of
        None \<Rightarrow> Inl (lifecycle ''gamepad not open'')
      | Some slot_idx \<Rightarrow>
          (case hs_gamepad s of
             None \<Rightarrow> Inl (lifecycle ''gamepad not open'')
           | Some g \<Rightarrow> Inr (slot_idx, g)))"

definition session_gamepad_hid_id :: "'e HidSession \<Rightarrow> u16 res" where
  "session_gamepad_hid_id s =
     (if hs_closed s then Inl (lifecycle ''session closed'')
      else case hs_gamepad_hid_id s of
        None \<Rightarrow> Inl (lifecycle ''gamepad not open'') | Some i \<Rightarrow> Inr i)"

text \<open>
  The setters with change detection share one shape: fetch the cached slot, apply the driver's update,
  and push the report if there is one. Frames of a batch are counted, so the number of reports is returned.
\<close>

definition set_with :: "'e transport_ops \<Rightarrow> (nat \<Rightarrow> GamepadHid \<Rightarrow> (u16 \<times> byte list) option res \<times> GamepadHid) \<Rightarrow>
    ('e HidSession, nat) act" where
  "set_with ops update s =
     (case gamepad_with_cached_slot s of
        Inl e \<Rightarrow> (Inl e, s)
      | Inr (slot_idx, g) \<Rightarrow>
          (case update slot_idx g of
             (Inl e, g') \<Rightarrow> (Inl e, s\<lparr>hs_gamepad := Some g'\<rparr>)
           | (Inr None, g') \<Rightarrow> (Inr 0, s\<lparr>hs_gamepad := Some g'\<rparr>)
           | (Inr (Some (hid_id, payload)), g') \<Rightarrow>
               act_then (on_writer (push_gamepad_input ops hid_id payload)) (\<lambda>_. act_ret 1)
                 (s\<lparr>hs_gamepad := Some g'\<rparr>)))"

definition set_stick_raw :: "'e transport_ops \<Rightarrow> GamepadAxis \<Rightarrow> i16 \<Rightarrow> ('e HidSession, unit) act" where
  "set_stick_raw ops axis raw = act_void (set_with ops (\<lambda>i. axis_event_slot_idx_raw i axis raw))"

definition set_stick :: "'e transport_ops \<Rightarrow> GamepadAxis \<Rightarrow> f32 \<Rightarrow> ('e HidSession, unit) act" where
  "set_stick ops axis v = set_stick_raw ops axis (f32_as_i16 (f32_mul (f32_clamp v (-1) 1) (Fin 32767)))"

definition set_buttons :: "'e transport_ops \<Rightarrow> u32 \<Rightarrow> ('e HidSession, unit) act" where
  "set_buttons ops buttons = act_void (set_with ops (\<lambda>i. buttons_event_slot_idx_raw i buttons))"

definition set_frame_raw ::
    "'e transport_ops \<Rightarrow> u32 \<Rightarrow> i16 \<Rightarrow> i16 \<Rightarrow> i16 \<Rightarrow> i16 \<Rightarrow> i16 \<Rightarrow> i16 \<Rightarrow> ('e HidSession, unit) act" where
  "set_frame_raw ops buttons lx ly rx ry lt rt =
     act_void (set_with ops (\<lambda>i. full_state_event_slot_idx_raw i buttons lx ly rx ry lt rt))"

definition set_left_stick_raw :: "'e transport_ops \<Rightarrow> i16 \<Rightarrow> i16 \<Rightarrow> ('e HidSession, unit) act" where
  "set_left_stick_raw ops x y = act_void (set_with ops (\<lambda>i. left_stick_raw_slot_idx_raw i x y))"

definition set_right_stick_raw :: "'e transport_ops \<Rightarrow> i16 \<Rightarrow> i16 \<Rightarrow> ('e HidSession, unit) act" where
  "set_right_stick_raw ops x y = act_void (set_with ops (\<lambda>i. right_stick_raw_slot_idx_raw i x y))"

definition set_triggers_raw :: "'e transport_ops \<Rightarrow> i16 \<Rightarrow> i16 \<Rightarrow> ('e HidSession, unit) act" where
  "set_triggers_raw ops left right = act_void (set_with ops (\<lambda>i. triggers_raw_slot_idx_raw i left right))"

definition session_set_sticks_raw ::
    "'e transport_ops \<Rightarrow> i16 \<Rightarrow> i16 \<Rightarrow> i16 \<Rightarrow> i16 \<Rightarrow> i16 \<Rightarrow> i16 \<Rightarrow> ('e HidSession, unit) act" where
  "session_set_sticks_raw ops lx ly rx ry lt rt =
     act_void (set_with ops (\<lambda>i. set_sticks_raw_slot_idx_raw i lx ly rx ry lt rt))"

definition set_button :: "'e transport_ops \<Rightarrow> GamepadButton \<Rightarrow> bool \<Rightarrow> ('e HidSession, unit) act" where
  "set_button ops btn pressed = act_void (set_with ops (\<lambda>i. button_event_slot_idx_raw i btn pressed))"

definition with_hid_id ::
    "(u16 \<Rightarrow> ('e CoalescingWriter, 'a) act) \<Rightarrow> ('e HidSession, unit) act" where
  \<comment> \<open>\<open>let hid_id = self.gamepad_hid_id()?; self.transport.push(hid_id, ..)?; Ok(())\<close>\<close>
  "with_hid_id p s = (case session_gamepad_hid_id s of Inl e \<Rightarrow> (Inl e, s) | Inr i \<Rightarrow> act_void (on_writer (p i)) s)"

definition set_frame_raw_unchecked_frame :: "'e transport_ops \<Rightarrow> GamepadFrameRaw \<Rightarrow> ('e HidSession, unit) act" where
  "set_frame_raw_unchecked_frame ops frame =
     with_hid_id (\<lambda>i. push_gamepad_input_fields ops i frame)"

definition set_frame_raw_unchecked ::
    "'e transport_ops \<Rightarrow> u32 \<Rightarrow> i16 \<Rightarrow> i16 \<Rightarrow> i16 \<Rightarrow> i16 \<Rightarrow> i16 \<Rightarrow> i16 \<Rightarrow> ('e HidSession, unit) act" where
  "set_frame_raw_unchecked ops buttons lx ly rx ry lt rt =
     (let frame = \<lparr>gf_buttons = buttons, gf_left_x = lx, gf_left_y = ly, gf_right_x = rx, gf_right_y = ry,
            gf_left_trigger = lt, gf_right_trigger = rt\<rparr>
      in with_hid_id (\<lambda>i. push_gamepad_input_fields ops i frame))"

definition set_frame_raw_packed :: "'e transport_ops \<Rightarrow> byte list \<Rightarrow> ('e HidSession, unit) act" where
  "set_frame_raw_packed ops payload = with_hid_id (\<lambda>i. push_gamepad_input ops i payload)"

definition inject_raw_gamepad_report :: "'e transport_ops \<Rightarrow> byte list \<Rightarrow> ('e HidSession, unit) act" where
  "inject_raw_gamepad_report ops payload =
     (if payload = [] then act_fail (lifecycle ''raw gamepad report is empty'')
      else if HID_MAX_SIZE < length payload
      then act_fail (Err (ControlMessageTooLarge (length payload) HID_MAX_SIZE))
      else with_hid_id
        (\<lambda>i. push_uhid_input ops i (word_of_nat (length payload)) payload))"

text \<open>
  The loop of \<open>set_frame_raw_batch\<close>: \<open>batch\<close> holds the first \<open>batch_len\<close> entries of the stack array,
  \<open>batch_id\<close> is \<open>None\<close> until \<open>have_batch_id\<close>.
\<close>

fun frame_batch_loop ::
    "'e transport_ops \<Rightarrow> nat \<Rightarrow> GamepadFrameRaw list \<Rightarrow> GamepadHid \<Rightarrow> nat \<Rightarrow> byte list list \<Rightarrow> u16 option \<Rightarrow>
     'e CoalescingWriter \<Rightarrow> nat res \<times> GamepadHid \<times> 'e CoalescingWriter" where
  "frame_batch_loop ops slot_idx [] g sent batch batch_id w =
     (case batch_id of
        Some i \<Rightarrow>
          (if 0 < length batch
           then case push_gamepad_input_batch ops i batch w of
               (Inl e, w') \<Rightarrow> (Inl e, g, w') | (Inr _, w') \<Rightarrow> (Inr sent, g, w')
           else (Inr sent, g, w))
      | None \<Rightarrow> (Inr sent, g, w))"
| "frame_batch_loop ops slot_idx (f # fs) g sent batch batch_id w =
     (case full_state_event_slot_idx_raw slot_idx (gf_buttons f) (gf_left_x f) (gf_left_y f)
         (gf_right_x f) (gf_right_y f) (gf_left_trigger f) (gf_right_trigger f) g of
        (Inl e, g') \<Rightarrow> (Inl e, g', w)
      | (Inr None, g') \<Rightarrow> frame_batch_loop ops slot_idx fs g' sent batch batch_id w
      | (Inr (Some (hid_id, payload)), g') \<Rightarrow>
          (let i = (case batch_id of None \<Rightarrow> hid_id | Some i \<Rightarrow> i); batch' = batch @ [payload]
           in if length batch' = DIRECT_GAMEPAD_BATCH_FRAMES
              then case push_gamepad_input_batch ops i batch' w of
                  (Inl e, w') \<Rightarrow> (Inl e, g', w')
                | (Inr _, w') \<Rightarrow> frame_batch_loop ops slot_idx fs g' (sent + 1) [] (Some i) w'
              else frame_batch_loop ops slot_idx fs g' (sent + 1) batch' (Some i) w))"

definition set_frame_raw_batch :: "'e transport_ops \<Rightarrow> GamepadFrameRaw list \<Rightarrow> ('e HidSession, nat) act" where
  "set_frame_raw_batch ops frames s =
     (case frames of
        [] \<Rightarrow> (Inr 0, s)
      | [f] \<Rightarrow> set_with ops (\<lambda>i. full_state_event_slot_idx_raw i (gf_buttons f) (gf_left_x f) (gf_left_y f)
          (gf_right_x f) (gf_right_y f) (gf_left_trigger f) (gf_right_trigger f)) s
      | _ \<Rightarrow>
          (case gamepad_with_cached_slot s of
             Inl e \<Rightarrow> (Inl e, s)
           | Inr (slot_idx, g) \<Rightarrow>
               (case frame_batch_loop ops slot_idx frames g 0 [] None (hs_transport s) of
                  (r, g', w') \<Rightarrow> (r, s\<lparr>hs_gamepad := Some g', hs_transport := w'\<rparr>))))"

definition set_frame_raw_batch_unchecked ::
    "'e transport_ops \<Rightarrow> GamepadFrameRaw list \<Rightarrow> ('e HidSession, nat) act" where
  "set_frame_raw_batch_unchecked ops frames =
     (case frames of
        [] \<Rightarrow> act_ret 0
      | [f] \<Rightarrow> act_then (set_frame_raw_unchecked ops (gf_buttons f) (gf_left_x f) (gf_left_y f) (gf_right_x f)
          (gf_right_y f) (gf_left_trigger f) (gf_right_trigger f)) (\<lambda>_. act_ret 1)
      | _ \<Rightarrow> act_then (with_hid_id (\<lambda>i. push_gamepad_input_batch_from_fields ops i frames))
          (\<lambda>_. act_ret (length frames)))"

definition set_frame_raw_packed_batch :: "'e transport_ops \<Rightarrow> byte list list \<Rightarrow> ('e HidSession, nat) act" where
  "set_frame_raw_packed_batch ops frames =
     (case frames of
        [] \<Rightarrow> act_ret 0
      | [f] \<Rightarrow> act_then (set_frame_raw_packed ops f) (\<lambda>_. act_ret 1)
      | _ \<Rightarrow> act_then (with_hid_id (\<lambda>i. push_gamepad_input_batch ops i frames))
          (\<lambda>_. act_ret (length frames)))"

section \<open>Mouse\<close>

definition push_report :: "'e transport_ops \<Rightarrow> HidReport \<Rightarrow> ('e HidSession, unit) act" where
  "push_report ops r = act_void (on_writer (push_uhid_input ops (hr_hid_id r) (hr_size r) (hr_data r)))"

definition mouse_motion :: "'e transport_ops \<Rightarrow> i32 \<Rightarrow> i32 \<Rightarrow> u8 \<Rightarrow> ('e HidSession, unit) act" where
  "mouse_motion ops dx dy buttons_state s =
     (case hs_mouse s of
        None \<Rightarrow> (Inl (lifecycle ''mouse not open''), s)
      | Some m \<Rightarrow> push_report ops (generate_input_from_motion dx dy buttons_state) s)"

definition mouse_buttons :: "'e transport_ops \<Rightarrow> u8 \<Rightarrow> ('e HidSession, unit) act" where
  "mouse_buttons ops buttons_state s =
     (case hs_mouse s of
        None \<Rightarrow> (Inl (lifecycle ''mouse not open''), s)
      | Some m \<Rightarrow> push_report ops (generate_input_from_click buttons_state) s)"

definition mouse_scroll :: "'e transport_ops \<Rightarrow> f32 \<Rightarrow> f32 \<Rightarrow> ('e HidSession, bool) act" where
  "mouse_scroll ops hscroll vscroll s =
     (case hs_mouse s of
        None \<Rightarrow> (Inl (lifecycle ''mouse not open''), s)
      | Some m \<Rightarrow>
          (case generate_input_from_scroll hscroll vscroll m of
             (None, m') \<Rightarrow> (Inr False, s\<lparr>hs_mouse := Some m'\<rparr>)
           | (Some r, m') \<Rightarrow> act_then (push_report ops r) (\<lambda>_. act_ret True) (s\<lparr>hs_mouse := Some m'\<rparr>)))"

definition mouse_frame_batch :: "'e transport_ops \<Rightarrow> (i32 \<times> i32 \<times> u8) list \<Rightarrow> ('e HidSession, nat) act" where
  "mouse_frame_batch ops frames s =
     (if frames = [] then (Inr 0, s)
      else if hs_mouse s = None then (Inl (lifecycle ''mouse not open''), s)
      else act_then (act_each (\<lambda>(dx, dy, buttons).
          let report = generate_input_from_motion dx dy buttons
          in act_void (on_writer (push_uhid_input ops HID_ID_MOUSE (hr_size report) (hr_data report)))) frames)
        (\<lambda>_. act_ret (length frames)) s)"

text \<open>Access to the drivers; asking for one that is not open panics.\<close>

definition session_keyboard :: "'e HidSession \<Rightarrow> KeyboardHid res" where
  "session_keyboard s = (case hs_kbd s of Some k \<Rightarrow> Inr k | None \<Rightarrow> Inl Panicked)"

definition session_mouse :: "'e HidSession \<Rightarrow> MouseHid res" where
  "session_mouse s = (case hs_mouse s of Some m \<Rightarrow> Inr m | None \<Rightarrow> Inl Panicked)"

definition session_gamepad :: "'e HidSession \<Rightarrow> GamepadHid res" where
  "session_gamepad s = (case hs_gamepad s of Some g \<Rightarrow> Inr g | None \<Rightarrow> Inl Panicked)"

section \<open>Touch and scroll\<close>

definition touch_msg :: "u8 \<Rightarrow> u64 \<Rightarrow> i32 \<Rightarrow> i32 \<Rightarrow> f32 \<Rightarrow> 'e HidSession \<Rightarrow> ControlMessage" where
  "touch_msg action pointer_id x y pressure s =
     InjectTouchEvent \<lparr>it_action = action, it_pointer_id = pointer_id, it_x = x, it_y = y,
       it_screen_w = hs_screen_w s, it_screen_h = hs_screen_h s, it_pressure = pressure,
       it_action_button = 0, it_buttons = 0\<rparr>"

definition inject_touch :: "'e transport_ops \<Rightarrow> u8 \<Rightarrow> u64 \<Rightarrow> i32 \<Rightarrow> i32 \<Rightarrow> f32 \<Rightarrow> ('e HidSession, unit) act" where
  \<comment> \<open>also \<open>touch_msg_pub\<close>, \<open>inject_touch_action\<close> and \<open>inject_touch_pointer\<close>, whose typed arguments are these integers\<close>
  "inject_touch ops action pointer_id x y pressure s =
     session_send ops (touch_msg action pointer_id x y pressure s) s"

definition cancel_touch :: "'e transport_ops \<Rightarrow> u64 \<Rightarrow> ('e HidSession, unit) act" where
  "cancel_touch ops pointer_id = inject_touch ops TOUCH_CANCEL pointer_id 0 0 (Fin 0)"

definition inject_scroll ::
    "'e transport_ops \<Rightarrow> i32 \<Rightarrow> i32 \<Rightarrow> f32 \<Rightarrow> f32 \<Rightarrow> u32 \<Rightarrow> ('e HidSession, unit) act" where
  "inject_scroll ops x y hscroll vscroll buttons s =
     session_send ops (InjectScrollEvent \<lparr>is_x = x, is_y = y, is_screen_w = hs_screen_w s,
       is_screen_h = hs_screen_h s, is_hscroll = hscroll, is_vscroll = vscroll, is_buttons = buttons\<rparr>) s"

definition session_scroll :: "'e transport_ops \<Rightarrow> i32 \<Rightarrow> i32 \<Rightarrow> f32 \<Rightarrow> f32 \<Rightarrow> ('e HidSession, unit) act" where
  "session_scroll ops x y hscroll vscroll = inject_scroll ops x y hscroll vscroll 0"

end
