(* ===== verification/Multitouch.thy ===== *)
theory Multitouch
  imports Session
begin

text \<open>
  \<^verbatim>\<open>src/src/multitouch.rs\<close>: the multi-touch handle, which borrows a session and tracks which of the ten
  pointers are down. The straight-line interpolation in binary32 that it shares with the swipes and drags
  of \<^verbatim>\<open>src/src/session.rs\<close> is here too.
\<close>

definition MAX_POINTERS :: u64 where [simp]: "MAX_POINTERS = 10"
definition ACTION_DOWN :: u8 where [simp]: "ACTION_DOWN = 0"
definition ACTION_UP :: u8 where [simp]: "ACTION_UP = 1"
definition ACTION_MOVE :: u8 where [simp]: "ACTION_MOVE = 2"
definition ACTION_CANCEL :: u8 where [simp]: "ACTION_CANCEL = 3"

record 'e MultitouchHandle =
  mh_session :: "'e HidSession"
  mh_active :: "bool list" \<comment> \<open>\<open>[bool; MAX_POINTERS]\<close>\<close>

definition multitouch :: "'e HidSession \<Rightarrow> 'e MultitouchHandle" where
  "multitouch s = \<lparr>mh_session = s, mh_active = replicate (unat MAX_POINTERS) False\<rparr>"

definition mh_active_count :: "'e MultitouchHandle \<Rightarrow> nat" where
  "mh_active_count h = length (filter (\<lambda>p. p) (mh_active h))"

definition is_active :: "u64 \<Rightarrow> 'e MultitouchHandle \<Rightarrow> bool" where
  "is_active i h \<longleftrightarrow> i < MAX_POINTERS \<and> mh_active h ! unat i"

definition on_session :: "('e HidSession, 'a) act \<Rightarrow> ('e MultitouchHandle, 'a) act" where
  "on_session p h = (case p (mh_session h) of (r, s) \<Rightarrow> (r, h\<lparr>mh_session := s\<rparr>))"

definition check_id :: "u64 \<Rightarrow> unit res" where
  "check_id i = (if MAX_POINTERS \<le> i then Inl (Err (PointerIdOutOfRange i (MAX_POINTERS - 1))) else Inr ())"

definition act_lift :: "'a res \<Rightarrow> ('s, 'a) act" where
  "act_lift r s = (r, s)"

definition set_active :: "u64 \<Rightarrow> bool \<Rightarrow> ('e MultitouchHandle, unit) act" where
  "set_active i b = act_modify (\<lambda>h. h\<lparr>mh_active := (mh_active h)[unat i := b]\<rparr>)"

definition require_down :: "u64 \<Rightarrow> ('e MultitouchHandle, unit) act" where
  "require_down i h = (if \<not> mh_active h ! unat i then (Inl (Err (PointerNotActive i)), h) else (Inr (), h))"

definition require_up :: "u64 \<Rightarrow> ('e MultitouchHandle, unit) act" where
  "require_up i h = (if mh_active h ! unat i then (Inl (Err (PointerAlreadyDown i)), h) else (Inr (), h))"

definition mt_down :: "'e transport_ops \<Rightarrow> u64 \<Rightarrow> i32 \<Rightarrow> i32 \<Rightarrow> f32 \<Rightarrow> ('e MultitouchHandle, unit) act" where
  "mt_down ops i x y pressure =
     act_seq [act_lift (check_id i), require_up i, on_session (inject_touch ops ACTION_DOWN i x y pressure),
       set_active i True]"

definition mt_move_to :: "'e transport_ops \<Rightarrow> u64 \<Rightarrow> i32 \<Rightarrow> i32 \<Rightarrow> f32 \<Rightarrow> ('e MultitouchHandle, unit) act" where
  "mt_move_to ops i x y pressure =
     act_seq [act_lift (check_id i), require_down i, on_session (inject_touch ops ACTION_MOVE i x y pressure)]"

definition mt_up :: "'e transport_ops \<Rightarrow> u64 \<Rightarrow> ('e MultitouchHandle, unit) act" where
  "mt_up ops i =
     act_seq [act_lift (check_id i), require_down i, on_session (inject_touch ops ACTION_UP i 0 0 (Fin 0)),
       set_active i False]"

definition mt_cancel :: "'e transport_ops \<Rightarrow> u64 \<Rightarrow> ('e MultitouchHandle, unit) act" where
  "mt_cancel ops i =
     act_seq [act_lift (check_id i), require_down i, on_session (inject_touch ops ACTION_CANCEL i 0 0 (Fin 0)),
       set_active i False]"

fun f32_fin :: "f32 \<Rightarrow> rat" where
  \<comment> \<open>the divisor below is a step count, which is finite\<close>
  "f32_fin (Fin q) = q"
| "f32_fin _ = 0"

definition lerp :: "i32 \<Rightarrow> i32 \<Rightarrow> f32 \<Rightarrow> i32" where
  \<comment> \<open>\<open>(from as f32 + (to - from) as f32 * t).round() as i32\<close>; the difference of \<open>i32\<close>s wraps\<close>
  "lerp from to t = f32_as_i32 (f32_round_int (f32_add (i32_as_f32 from) (f32_mul (i32_as_f32 (to - from)) t)))"

definition step_fraction :: "nat \<Rightarrow> u32 \<Rightarrow> f32" where
  \<comment> \<open>\<open>i as f32 / steps as f32\<close>\<close>
  "step_fraction i steps = f32_div_pos (u32_as_f32 (word_of_nat i)) (f32_fin (u32_as_f32 steps))"

definition mt_pinch ::
    "'e transport_ops \<Rightarrow> u64 \<times> i32 \<times> i32 \<times> i32 \<times> i32 \<Rightarrow> u64 \<times> i32 \<times> i32 \<times> i32 \<times> i32 \<Rightarrow> u32 \<Rightarrow>
     ('e MultitouchHandle, unit) act" where
  "mt_pinch ops p0 p1 steps0 =
     (let steps = max steps0 2;
          (id0, x0_from, y0_from, x0_to, y0_to) = p0;
          (id1, x1_from, y1_from, x1_to, y1_to) = p1
      in act_seq [act_lift (check_id id0), act_lift (check_id id1), require_down id0, require_down id1,
           act_each (\<lambda>i. let t = step_fraction i steps in
             act_seq [on_session (inject_touch ops ACTION_MOVE id0 (lerp x0_from x0_to t) (lerp y0_from y0_to t) (Fin 1)),
                      on_session (inject_touch ops ACTION_MOVE id1 (lerp x1_from x1_to t) (lerp y1_from y1_to t) (Fin 1))])
             [1..<unat steps + 1]])"

definition mt_release_all :: "'e transport_ops \<Rightarrow> ('e MultitouchHandle, unit) act" where
  "mt_release_all ops =
     act_each (\<lambda>i. act_then (act_gets (\<lambda>h. mh_active h ! i)) (\<lambda>a.
       if a then act_seq [on_session (inject_touch ops ACTION_UP (word_of_nat i) 0 0 (Fin 0)),
           set_active (word_of_nat i) False]
       else act_ret ())) [0..<unat MAX_POINTERS]"

definition mt_flush_now :: "'e transport_ops \<Rightarrow> ('e MultitouchHandle, nat) act" where
  "mt_flush_now ops = on_session (session_flush_now ops)"

end
