(* ===== verification/Gestures.thy ===== *)
theory Gestures
  imports Multitouch
begin

text \<open>
  The gestures and intents of \<^verbatim>\<open>src/src/session.rs\<close>: taps with their guard, swipes, drags, pinches and
  multi-finger taps, and the one-message intents. Newtype wrappers (\<open>TouchPointerId\<close>, \<open>AndroidKeycode\<close>,
  \<open>TouchAction\<close>, \<open>ClipboardCopyKey\<close>) are the integers they wrap, so that a typed method and its raw
  variant are one definition.
\<close>

section \<open>Taps\<close>

text \<open>\<open>TouchGuard\<close>: the pointers it would release, newest last, and its destructor. A completed tap
  disarms it, so that what \<open>mark_released\<close> leaves is never looked at.\<close>

definition mark_pressed :: "u64 \<Rightarrow> u64 list \<Rightarrow> u64 list" where
  "mark_pressed pid pressed = pressed @ [pid]"

definition guard_drop :: "'e transport_ops \<Rightarrow> u64 list \<Rightarrow> ('e HidSession, unit) act" where
  "guard_drop ops pressed =
     act_each (\<lambda>pid. act_ignore (inject_touch ops ACTION_UP pid 0 0 (Fin 0))) (rev pressed)"

definition tap_pointer :: "'e transport_ops \<Rightarrow> u64 \<Rightarrow> i32 \<Rightarrow> i32 \<Rightarrow> ('e HidSession, unit) act" where
  "tap_pointer ops pid x y =
     (let pressed0 = []; pressed1 = mark_pressed pid pressed0
      in act_seq [act_on_error (inject_touch ops ACTION_DOWN pid x y (Fin 1)) (guard_drop ops pressed0),
           act_on_error (inject_touch ops ACTION_UP pid x y (Fin 0)) (guard_drop ops pressed1)])"

definition session_tap :: "'e transport_ops \<Rightarrow> i32 \<Rightarrow> i32 \<Rightarrow> ('e HidSession, unit) act" where
  "session_tap ops x y = tap_pointer ops 0 x y"

definition double_tap :: "'e transport_ops \<Rightarrow> i32 \<Rightarrow> i32 \<Rightarrow> ('e HidSession, unit) act" where
  "double_tap ops x y =
     act_seq [inject_touch ops ACTION_DOWN 0 x y (Fin 1), inject_touch ops ACTION_UP 0 x y (Fin 0),
       inject_touch ops ACTION_DOWN 0 x y (Fin 1), inject_touch ops ACTION_UP 0 x y (Fin 0)]"

definition sleep_for :: "'e transport_ops \<Rightarrow> nat \<Rightarrow> ('e HidSession, unit) act" where
  "sleep_for ops d =
     on_writer (act_modify (\<lambda>w. w\<lparr>cw_transport := op_sleep ops d (cw_transport w)\<rparr>))"

definition long_press :: "'e transport_ops \<Rightarrow> i32 \<Rightarrow> i32 \<Rightarrow> nat \<Rightarrow> ('e HidSession, unit) act" where
  "long_press ops x y dur =
     act_seq [inject_touch ops ACTION_DOWN 0 x y (Fin 1), sleep_for ops dur,
       inject_touch ops ACTION_UP 0 x y (Fin 0)]"

section \<open>Lines\<close>

definition swipe_pointer ::
    "'e transport_ops \<Rightarrow> u64 \<Rightarrow> i32 \<times> i32 \<Rightarrow> i32 \<times> i32 \<Rightarrow> u32 \<Rightarrow> ('e HidSession, unit) act" where
  "swipe_pointer ops pid from to steps0 =
     (let steps = max steps0 2; (x0, y0) = from; (x1, y1) = to
      in act_seq [inject_touch ops ACTION_DOWN pid x0 y0 (Fin 1),
           act_each (\<lambda>i. let t = step_fraction i steps
             in inject_touch ops ACTION_MOVE pid (lerp x0 x1 t) (lerp y0 y1 t) (Fin 1)) [1..<unat steps],
           inject_touch ops ACTION_MOVE pid x1 y1 (Fin 1),
           inject_touch ops ACTION_UP pid x1 y1 (Fin 0)])"

definition session_swipe ::
    "'e transport_ops \<Rightarrow> i32 \<times> i32 \<Rightarrow> i32 \<times> i32 \<Rightarrow> u32 \<Rightarrow> ('e HidSession, unit) act" where
  "session_swipe ops from to steps = swipe_pointer ops 0 from to steps"

definition session_drag ::
    "'e transport_ops \<Rightarrow> i32 \<times> i32 \<Rightarrow> i32 \<times> i32 \<Rightarrow> u32 \<Rightarrow> nat \<Rightarrow> ('e HidSession, unit) act" where
  "session_drag ops from to steps0 dwell =
     (let steps = max steps0 2; (x0, y0) = from; (x1, y1) = to;
          hold = (if dwell \<noteq> 0 then sleep_for ops dwell else act_ret ())
      in act_seq [inject_touch ops ACTION_DOWN 0 x0 y0 (Fin 1), hold,
           act_each (\<lambda>i. let t = step_fraction i steps
             in inject_touch ops ACTION_MOVE 0 (lerp x0 x1 t) (lerp y0 y1 t) (Fin 1)) [1..<unat steps],
           inject_touch ops ACTION_MOVE 0 x1 y1 (Fin 1), hold,
           inject_touch ops ACTION_UP 0 x1 y1 (Fin 0)])"

section \<open>Several fingers\<close>

definition three_finger_screenshot :: "'e transport_ops \<Rightarrow> ('e HidSession, unit) act" where
  \<comment> \<open>the screen sizes are \<open>u16\<close>, so no \<open>i32\<close> product overflows\<close>
  "three_finger_screenshot ops s =
     (let w = uint (hs_screen_w s); h = uint (hs_screen_h s);
          column = (\<lambda>i. word_of_int (w div 4 * (int i + 1)) :: i32)
      in act_seq [
           act_each (\<lambda>i. inject_touch ops ACTION_DOWN (word_of_nat i) (column i) (word_of_int (h div 4)) (Fin 1)) [0..<3],
           act_each (\<lambda>step. act_each (\<lambda>i. inject_touch ops ACTION_MOVE (word_of_nat i) (column i)
             (word_of_int (h div 4 + h div 2 * int step div 10)) (Fin 1)) [0..<3]) [1..<11],
           act_each (\<lambda>i. inject_touch ops ACTION_UP (word_of_nat i) (column i) (word_of_int (h * 3 div 4)) (Fin 0)) [0..<3]] s)"

definition session_pinch ::
    "'e transport_ops \<Rightarrow> i32 \<Rightarrow> i32 \<Rightarrow> i32 \<Rightarrow> i32 \<Rightarrow> u32 \<Rightarrow> ('e HidSession, unit) act" where
  "session_pinch ops cx cy start_radius end_radius steps s =
     (case act_seq [mt_down ops 0 (cx - start_radius) cy (Fin 1), mt_down ops 1 (cx + start_radius) cy (Fin 1),
         mt_pinch ops (0, cx - start_radius, cy, cx - end_radius, cy)
           (1, cx + start_radius, cy, cx + end_radius, cy) steps,
         mt_up ops 0, mt_up ops 1] (multitouch s) of
        (r, h) \<Rightarrow> (r, mh_session h))"

definition release_pressed :: "'e transport_ops \<Rightarrow> bool list \<Rightarrow> ('e HidSession, unit) act" where
  \<comment> \<open>the closure \<open>release_all\<close> of \<open>multi_finger_tap\<close>\<close>
  "release_pressed ops pressed =
     act_each (\<lambda>(i, p). if p then act_ignore (inject_touch ops ACTION_UP (word_of_nat i) 0 0 (Fin 0)) else act_ret ())
       (rev (enumerate 0 pressed))"

fun press_all ::
    "'e transport_ops \<Rightarrow> nat \<Rightarrow> (i32 \<times> i32) list \<Rightarrow> bool list \<Rightarrow> ('e HidSession, bool list) act" where
  \<comment> \<open>stage 1, with the release on error\<close>
  "press_all ops i [] pressed = act_ret pressed"
| "press_all ops i ((x, y) # points) pressed =
     act_then (act_on_error (inject_touch ops ACTION_DOWN (word_of_nat i) x y (Fin 1)) (release_pressed ops pressed))
       (\<lambda>_. press_all ops (i + 1) points (pressed[i := True]))"

definition multi_finger_tap :: "'e transport_ops \<Rightarrow> (i32 \<times> i32) list \<Rightarrow> ('e HidSession, unit) act" where
  "multi_finger_tap ops points =
     (let fingers = length points in
      if \<not> (2 \<le> fingers \<and> fingers \<le> unat MAX_POINTERS)
      then act_fail (Err (PointerIdOutOfRange (word_of_nat fingers) (MAX_POINTERS - 1)))
      else act_then (press_all ops 0 points (replicate (unat MAX_POINTERS) False)) (\<lambda>pressed.
        act_on_error
          (act_each (\<lambda>i. inject_touch ops ACTION_UP (word_of_nat i) 0 0 (Fin 0)) [0..<fingers])
          (release_pressed ops pressed)))"

section \<open>Intents\<close>

definition set_screen_power :: "'e transport_ops \<Rightarrow> bool \<Rightarrow> ('e HidSession, unit) act" where
  "set_screen_power ops b = session_send ops (SetDisplayPower b)"

definition session_inject_keycode ::
    "'e transport_ops \<Rightarrow> u8 \<Rightarrow> u32 \<Rightarrow> u32 \<Rightarrow> u32 \<Rightarrow> ('e HidSession, unit) act" where
  "session_inject_keycode ops action keycode repeat metastate =
     session_send ops (InjectKeycode \<lparr>ik_action = action, ik_keycode = keycode, ik_repeat = repeat,
       ik_metastate = metastate\<rparr>)"

definition press_android_key :: "'e transport_ops \<Rightarrow> u32 \<Rightarrow> ('e HidSession, unit) act" where
  "press_android_key ops keycode = session_inject_keycode ops KEY_DOWN keycode 0 0"

definition release_android_key :: "'e transport_ops \<Rightarrow> u32 \<Rightarrow> ('e HidSession, unit) act" where
  "release_android_key ops keycode = session_inject_keycode ops KEY_UP keycode 0 0"

definition tap_android_keycode :: "'e transport_ops \<Rightarrow> u32 \<Rightarrow> u32 \<Rightarrow> ('e HidSession, unit) act" where
  "tap_android_keycode ops keycode metastate =
     act_seq [session_inject_keycode ops KEY_DOWN keycode 0 metastate,
       session_inject_keycode ops KEY_UP keycode 0 metastate]"

definition tap_android_key :: "'e transport_ops \<Rightarrow> u32 \<Rightarrow> ('e HidSession, unit) act" where
  "tap_android_key ops keycode = tap_android_keycode ops keycode 0"

definition back_or_screen_on :: "'e transport_ops \<Rightarrow> u8 \<Rightarrow> ('e HidSession, unit) act" where
  "back_or_screen_on ops action = session_send ops (BackOrScreenOn action)"

definition press_home :: "'e transport_ops \<Rightarrow> ('e HidSession, unit) act" where
  "press_home ops = press_android_key ops KEYCODE_HOME"
definition press_back :: "'e transport_ops \<Rightarrow> ('e HidSession, unit) act" where
  "press_back ops = press_android_key ops KEYCODE_BACK"
definition open_recents :: "'e transport_ops \<Rightarrow> ('e HidSession, unit) act" where
  "open_recents ops = press_android_key ops KEYCODE_APP_SWITCH"
definition volume_up :: "'e transport_ops \<Rightarrow> ('e HidSession, unit) act" where
  "volume_up ops = press_android_key ops KEYCODE_VOLUME_UP"
definition volume_down :: "'e transport_ops \<Rightarrow> ('e HidSession, unit) act" where
  "volume_down ops = press_android_key ops KEYCODE_VOLUME_DOWN"
definition volume_mute :: "'e transport_ops \<Rightarrow> ('e HidSession, unit) act" where
  "volume_mute ops = press_android_key ops KEYCODE_VOLUME_MUTE"

definition show_notifications :: "'e transport_ops \<Rightarrow> ('e HidSession, unit) act" where
  "show_notifications ops = session_send ops ExpandNotificationPanel"
definition show_quick_settings :: "'e transport_ops \<Rightarrow> ('e HidSession, unit) act" where
  "show_quick_settings ops = session_send ops ExpandSettingsPanel"
definition collapse_panels :: "'e transport_ops \<Rightarrow> ('e HidSession, unit) act" where
  "collapse_panels ops = session_send ops CollapsePanels"
definition rotate_device :: "'e transport_ops \<Rightarrow> ('e HidSession, unit) act" where
  "rotate_device ops = session_send ops RotateDevice"
definition resize_display :: "'e transport_ops \<Rightarrow> u16 \<Rightarrow> u16 \<Rightarrow> ('e HidSession, unit) act" where
  "resize_display ops w h = session_send ops (ResizeDisplay w h)"
definition set_torch :: "'e transport_ops \<Rightarrow> bool \<Rightarrow> ('e HidSession, unit) act" where
  "set_torch ops b = session_send ops (CameraSetTorch b)"
definition camera_zoom_in :: "'e transport_ops \<Rightarrow> ('e HidSession, unit) act" where
  "camera_zoom_in ops = session_send ops CameraZoomIn"
definition camera_zoom_out :: "'e transport_ops \<Rightarrow> ('e HidSession, unit) act" where
  "camera_zoom_out ops = session_send ops CameraZoomOut"
definition open_hard_keyboard_settings :: "'e transport_ops \<Rightarrow> ('e HidSession, unit) act" where
  "open_hard_keyboard_settings ops = session_send ops OpenHardKeyboardSettings"
definition reset_video :: "'e transport_ops \<Rightarrow> ('e HidSession, unit) act" where
  "reset_video ops = session_send ops ResetVideo"
definition configure_ai :: "'e transport_ops \<Rightarrow> u8 \<Rightarrow> u16 \<Rightarrow> u16 \<Rightarrow> ('e HidSession, unit) act" where
  "configure_ai ops flags interval feature_dim = session_send ops (AiConfig \<lparr>ac_flags = flags,
     ac_sample_interval_ms = interval, ac_feature_dim = feature_dim\<rparr>)"
definition query_ai :: "'e transport_ops \<Rightarrow> u64 \<Rightarrow> ('e HidSession, unit) act" where
  "query_ai ops since = session_send ops (AiQuery since)"
definition pause_ai :: "'e transport_ops \<Rightarrow> ('e HidSession, unit) act" where
  "pause_ai ops = session_send ops AiPause"
definition launch_app :: "'e transport_ops \<Rightarrow> byte list \<Rightarrow> ('e HidSession, unit) act" where
  "launch_app ops nm = session_send ops (StartApp nm)"
definition session_set_clipboard :: "'e transport_ops \<Rightarrow> byte list \<Rightarrow> bool \<Rightarrow> ('e HidSession, unit) act" where
  "session_set_clipboard ops t paste =
     session_send ops (SetClipboard \<lparr>sc_sequence = 0, sc_paste = paste, sc_text = t\<rparr>)"
definition request_clipboard :: "'e transport_ops \<Rightarrow> u8 \<Rightarrow> ('e HidSession, unit) act" where
  "request_clipboard ops copy_key = session_send ops (GetClipboard copy_key)"
definition get_clipboard :: "'e transport_ops \<Rightarrow> ('e HidSession, unit) act" where
  "get_clipboard ops = request_clipboard ops COPY_KEY_NONE"

end
