(* ===== verification/Session_Stream.thy ===== *)
theory Session_Stream
  imports Gestures
begin

text \<open>
  What sessions put on the wire. \<open>stream\<close> is what a session has handed over: the bytes the peer has
  received and those the writer still holds. On a transport that does not fail, \<open>wp\<close> describes an
  operation by its result, the messages it appends to the stream and the state it leaves. The
  theory shows that no operation of an open session sends anything but input for its open devices and
  plain control messages (\<open>safe\<close>), what typing, chords and the gamepad setters send exactly, and how a
  session opens and closes.
\<close>

section \<open>Operations as message logs\<close>

definition stream :: "('e \<Rightarrow> byte list) \<Rightarrow> 'e HidSession \<Rightarrow> byte list" where
  "stream wire s = wire (cw_transport (hs_transport s)) @ cw_pending (hs_transport s)"

definition sound :: "'e HidSession \<Rightarrow> bool" where
  \<comment> \<open>a direct writer buffers nothing\<close>
  "sound s \<longleftrightarrow> (cw_direct (hs_transport s) \<longrightarrow> cw_pending (hs_transport s) = [])"

definition same_body :: "'e HidSession \<Rightarrow> 'e HidSession \<Rightarrow> bool" where
  \<comment> \<open>only the writer changes\<close>
  "same_body s s' \<longleftrightarrow> s' = s\<lparr>hs_transport := hs_transport s'\<rparr>"

lemma same_body_refl [simp]: "same_body s s" "same_body s (s\<lparr>hs_transport := w\<rparr>)"
  by (simp_all add: same_body_def)

lemma same_body_trans: "same_body s s1 \<Longrightarrow> same_body s1 s2 \<Longrightarrow> same_body s s2"
  unfolding same_body_def by (metis HidSession.surjective HidSession.update_convs(1))

lemma same_body_fields:
  assumes "same_body s s'"
  shows "hs_kbd s' = hs_kbd s" "hs_mouse s' = hs_mouse s" "hs_gamepad s' = hs_gamepad s"
    "hs_gamepad_slot s' = hs_gamepad_slot s" "hs_gamepad_hid_id s' = hs_gamepad_hid_id s"
    "hs_closed s' = hs_closed s" "hs_screen_w s' = hs_screen_w s" "hs_screen_h s' = hs_screen_h s"
proof -
  obtain w where s': "s' = s\<lparr>hs_transport := w\<rparr>"
    using assms unfolding same_body_def by blast
  show "hs_kbd s' = hs_kbd s" "hs_mouse s' = hs_mouse s" "hs_gamepad s' = hs_gamepad s"
    "hs_gamepad_slot s' = hs_gamepad_slot s" "hs_gamepad_hid_id s' = hs_gamepad_hid_id s"
    "hs_closed s' = hs_closed s" "hs_screen_w s' = hs_screen_w s" "hs_screen_h s' = hs_screen_h s"
    by (simp_all add: s')
qed

context reliable_transport
begin

definition wlogged :: "'e CoalescingWriter \<Rightarrow> 'e CoalescingWriter \<Rightarrow> ControlMessage list \<Rightarrow> bool" where
  "wlogged w w' ms \<longleftrightarrow> (in_mode (cw_direct w) w \<longrightarrow> in_mode (cw_direct w) w' \<and>
     wire (cw_transport w') @ cw_pending w' = wire (cw_transport w) @ cw_pending w @ concat (map msg_bytes ms))"

lemma wlogged_trans: "wlogged w w1 ms \<Longrightarrow> wlogged w1 w2 ns \<Longrightarrow> wlogged w w2 (ms @ ns)"
  by (auto simp: wlogged_def in_mode_def)

lemma wlogged_refl: "wlogged w w []"
  by (simp add: wlogged_def)

lemma writer_runs:
  assumes "\<And>d. delivers d p (concat (map msg_bytes ms))" and "succeeds p"
  obtains x w' where "p w = (Inr x, w')" "wlogged w w' ms"
proof -
  obtain x w' where run: "p w = (Inr x, w')"
    using assms(2) unfolding succeeds_def is_ok_ex by (metis prod.collapse)
  moreover have "wlogged w w' ms"
    using assms(1) [of "cw_direct w"] run unfolding delivers_def wlogged_def by (metis is_ok_simps(1))
  ultimately show ?thesis
    by (rule that)
qed

definition logged :: "'e HidSession \<Rightarrow> 'e HidSession \<Rightarrow> ControlMessage list \<Rightarrow> bool" where
  "logged s s' ms \<longleftrightarrow> wlogged (hs_transport s) (hs_transport s') ms"

lemma logged_trans: "logged s s1 ms \<Longrightarrow> logged s1 s2 ns \<Longrightarrow> logged s s2 (ms @ ns)"
  unfolding logged_def by (rule wlogged_trans)

lemma logged_stream:
  "logged s s' ms \<Longrightarrow> sound s \<Longrightarrow> sound s' \<and> stream wire s' = stream wire s @ concat (map msg_bytes ms)"
  by (auto simp: logged_def wlogged_def sound_def stream_def in_mode_def)

definition wp :: "('e HidSession, 'a) act \<Rightarrow> ('a res \<Rightarrow> ControlMessage list \<Rightarrow> 'e HidSession \<Rightarrow> bool) \<Rightarrow>
    'e HidSession \<Rightarrow> bool" where
  "wp p Q s \<longleftrightarrow> (\<exists>r s' ms. p s = (r, s') \<and> logged s s' ms \<and> Q r ms s')"

lemma wp_mono: "wp p Q s \<Longrightarrow> (\<And>r ms s'. Q r ms s' \<Longrightarrow> R r ms s') \<Longrightarrow> wp p R s"
  unfolding wp_def by blast

lemma wp_pure: "p s = (r, s') \<Longrightarrow> hs_transport s' = hs_transport s \<Longrightarrow> Q r [] s' \<Longrightarrow> wp p Q s"
  unfolding wp_def by (intro exI [of _ r] exI [of _ s'] exI [of _ "[]"])
    (simp add: logged_def wlogged_refl)

lemma wp_ret: "Q (Inr x) [] s \<Longrightarrow> wp (act_ret x) Q s"
  by (rule wp_pure) simp_all

lemma wp_fail: "Q (Inl e) [] s \<Longrightarrow> wp (act_fail e) Q s"
  by (rule wp_pure) simp_all

lemma wp_then:
  assumes "wp p (\<lambda>r ms s1. case r of Inl e \<Rightarrow> Q (Inl e) ms s1 | Inr x \<Rightarrow> wp (f x) (\<lambda>r ns. Q r (ms @ ns)) s1) s"
  shows "wp (act_then p f) Q s"
proof -
  obtain r s1 ms where p: "p s = (r, s1)" "logged s s1 ms"
    and post: "case r of Inl e \<Rightarrow> Q (Inl e) ms s1 | Inr x \<Rightarrow> wp (f x) (\<lambda>r ns. Q r (ms @ ns)) s1"
    using assms unfolding wp_def by blast
  show ?thesis
  proof (cases r)
    case (Inl e)
    then show ?thesis
      using p post unfolding wp_def by auto
  next
    case (Inr x)
    then obtain r2 s2 ns where "f x s1 = (r2, s2)" "logged s1 s2 ns" "Q r2 (ms @ ns) s2"
      using post unfolding wp_def by auto
    then show ?thesis
      using p Inr logged_trans unfolding wp_def by fastforce
  qed
qed

lemma wp_modify: "(\<And>s. hs_transport (g s) = hs_transport s) \<Longrightarrow> Q (Inr ()) [] (g s) \<Longrightarrow> wp (act_modify g) Q s"
  by (rule wp_pure) simp_all

lemma wp_on_writer:
  assumes "\<And>d. delivers d p (concat (map msg_bytes ms))" and "succeeds p"
    and "\<And>x w. Q (Inr x) ms (s\<lparr>hs_transport := w\<rparr>)"
  shows "wp (on_writer p) Q s"
proof -
  obtain x w where "p (hs_transport s) = (Inr x, w)" "wlogged (hs_transport s) w ms"
    using writer_runs [OF assms(1,2)] by blast
  then show ?thesis
    using assms(3) unfolding wp_def
    by (intro exI [of _ "Inr x"] exI [of _ "s\<lparr>hs_transport := w\<rparr>"] exI [of _ ms])
      (simp add: on_writer_def logged_def)
qed

lemma wp_void: "wp p (\<lambda>r. Q (map_sum id (\<lambda>_. ()) r)) s \<Longrightarrow> wp (act_void p) Q s"
  unfolding act_void_def by (rule wp_then, erule wp_mono) (auto split: sum.split intro: wp_ret)

lemma wp_send:
  assumes "wf_msg m" "msg_fault m = None" "\<And>w. Q (Inr ()) [m] (s\<lparr>hs_transport := w\<rparr>)"
  shows "wp (session_send ops m) Q s"
  unfolding session_send_def
  by (rule wp_void, rule wp_on_writer [where ms = "[m]", OF _ succeeds_push [OF assms(1,2)]])
    (simp_all add: delivers_push [OF assms(1,2)] assms(3))

lemma succeeds_of_void: "succeeds (act_then p (\<lambda>_. act_ret ())) \<Longrightarrow> succeeds p"
  unfolding succeeds_def
proof
  fix w
  assume "\<forall>w. is_ok (fst (act_then p (\<lambda>_. act_ret ()) w))"
  then have "is_ok (fst (act_then p (\<lambda>_. act_ret ()) w))" ..
  then show "is_ok (fst (p w))"
    by (cases "p w", cases "fst (p w)") simp_all
qed

lemma succeeds_pushes:
  "length data = 15 \<Longrightarrow> succeeds (push_gamepad_input ops hid data)"
  "succeeds (push_gamepad_input_fields ops hid f)"
  "unat sz \<le> 15 \<Longrightarrow> unat sz \<le> length data \<Longrightarrow> succeeds (push_uhid_input ops hid sz data)"
  "\<forall>d \<in> set ds. length d = 15 \<Longrightarrow> succeeds (push_gamepad_input_batch ops hid ds)"
  "succeeds (push_gamepad_input_batch_from_fields ops hid fs)"
  using succeeds_exec [of "P_Report hid data"] succeeds_exec [of "P_Fields hid f"]
    succeeds_exec [of "P_Input hid sz data"] succeeds_exec [of "P_Reports hid ds"]
    succeeds_exec [of "P_Frames hid fs"]
  by (simp_all add: succeeds_of_void)

lemma wp_push_gamepad_input:
  assumes "length data = 15" "\<And>x w. Q (Inr x) [input_of hid data] (s\<lparr>hs_transport := w\<rparr>)"
  shows "wp (on_writer (push_gamepad_input ops hid data)) Q s"
  by (rule wp_on_writer [where ms = "[input_of hid data]"])
    (simp_all add: delivers_push_gamepad_input succeeds_pushes assms)

lemma wp_push_fields:
  assumes "\<And>x w. Q (Inr x) [input_of hid (pack f)] (s\<lparr>hs_transport := w\<rparr>)"
  shows "wp (on_writer (push_gamepad_input_fields ops hid f)) Q s"
  by (rule wp_on_writer [where ms = "[input_of hid (pack f)]"])
    (simp_all add: delivers_push_gamepad_input_fields succeeds_pushes assms)

lemma wp_push_uhid_input:
  assumes "unat sz \<le> 15" "unat sz \<le> length data"
    and "\<And>x w. Q (Inr x) [input_of hid (take (unat sz) data)] (s\<lparr>hs_transport := w\<rparr>)"
  shows "wp (on_writer (push_uhid_input ops hid sz data)) Q s"
  by (rule wp_on_writer [where ms = "[input_of hid (take (unat sz) data)]"])
    (simp_all add: delivers_push_uhid_input succeeds_pushes assms)

lemma wp_push_batch:
  assumes "\<forall>d \<in> set ds. length d = 15" "\<And>x w. Q (Inr x) (map (input_of hid) ds) (s\<lparr>hs_transport := w\<rparr>)"
  shows "wp (on_writer (push_gamepad_input_batch ops hid ds)) Q s"
  by (rule wp_on_writer [where ms = "map (input_of hid) ds"])
    (use delivers_push_gamepad_input_batch [OF assms(1)] in \<open>simp_all add: succeeds_pushes assms comp_def\<close>)

lemma wp_push_batch_fields:
  assumes "\<And>x w. Q (Inr x) (map (input_of hid \<circ> pack) fs) (s\<lparr>hs_transport := w\<rparr>)"
  shows "wp (on_writer (push_gamepad_input_batch_from_fields ops hid fs)) Q s"
  by (rule wp_on_writer [where ms = "map (input_of hid \<circ> pack) fs"])
    (use delivers_push_batch_from_fields assms in \<open>simp_all add: succeeds_pushes comp_def\<close>)

lemma wp_flush: 
  assumes "\<And>x w. Q (Inr x) [] (s\<lparr>hs_transport := w\<rparr>)"
  shows "wp (session_flush_now ops) Q s"
  unfolding session_flush_now_def by (rule wp_on_writer [where ms = "[]"]) (simp_all add: assms)

lemma push_faulty:
  assumes "wf_msg m" "msg_fault m = Some f" "\<not> is_critical m"
  shows "\<exists>e w'. push ops m w = (Inl e, w') \<and> wlogged w w' []"
proof (cases "\<exists>i. m = UhidInput i")
  case True
  then obtain i where i: "m = UhidInput i" "15 < unat (ui_size i)"
    using assms(2) by (auto simp: msg_fault_def split: if_splits)
  then show ?thesis
    using assms(3)
    by (simp add: push_def push_direct_def count_push_def encode_uhid_input_to_array_def on_pending_def
        push_uhid_input_to_buf_def buf_fail_def act_then_def wlogged_def in_mode_def)
next
  case False
  obtain e buf where ser: "serialize_into m [] = (buf, Inl e)"
    using assms(1,2) by (cases rule: serialize_into_cases [of m "[]"]) simp_all
  have "push ops m w = (Inl e, w\<lparr>cw_pushed := cw_pushed w + 1, cw_scratch := buf\<rparr>)"
    using False assms(3) ser
    by (cases m) (simp_all add: push_def push_direct_def count_push_def act_then_def push_message_to_scratch_def is_critical_def)
  then show ?thesis
    by (simp add: wlogged_def in_mode_def)
qed

lemma wp_send_any:
  assumes "wf_msg m" "\<not> is_critical m" "\<And>w. msg_fault m = None \<Longrightarrow> Q (Inr ()) [m] (s\<lparr>hs_transport := w\<rparr>)"
    and "\<And>e w. msg_fault m \<noteq> None \<Longrightarrow> Q (Inl e) [] (s\<lparr>hs_transport := w\<rparr>)"
  shows "wp (session_send ops m) Q s"
proof (cases "msg_fault m")
  case None
  then show ?thesis
    using assms by (intro wp_send)
next
  case (Some f)
  then obtain e w where "push ops m (hs_transport s) = (Inl e, w)" "wlogged (hs_transport s) w []"
    using push_faulty [OF assms(1) _ assms(2)] by blast
  then show ?thesis
    using assms(4) Some unfolding wp_def
    by (intro exI [of _ "Inl e"] exI [of _ "s\<lparr>hs_transport := w\<rparr>"] exI [of _ "[]"])
      (simp add: session_send_def act_void_def act_then_def on_writer_def logged_def)
qed

end

section \<open>Gamepad updates in sequence\<close>

text \<open>The reports a sequence of updates of one slot produces, and the driver it leaves.\<close>

fun pad_run :: "pad_update list \<Rightarrow> nat \<Rightarrow> GamepadHid \<Rightarrow> byte list list \<times> GamepadHid" where
  "pad_run [] i g = ([], g)"
| "pad_run (u # us) i g =
     (let s = slots g ! i; s' = apply_update u s; (ps, g') = pad_run us i (g\<lparr>slots := (slots g)[i := s']\<rparr>)
      in (if s' = s then ps else slot_to_payload s' # ps, g'))"

definition frame_update :: "GamepadFrameRaw \<Rightarrow> pad_update" where
  "frame_update f = U_Full (gf_buttons f) (gf_left_x f) (gf_left_y f) (gf_right_x f) (gf_right_y f)
     (gf_left_trigger f) (gf_right_trigger f)"

lemma update_raw_step:
  assumes "i < length (slots g)"
  shows "update_raw u i g = (let s = slots g ! i; s' = apply_update u s in
    (Inr (if s' = s then None else Some (slot_hid_id i, slot_to_payload s')), g\<lparr>slots := (slots g)[i := s']\<rparr>))"
  using assms by (simp add: update_raw_eq update_slot_def Let_def)

lemma pad_run_props:
  "\<forall>p \<in> set (fst (pad_run us i g)). length p = 15"
  "length (slots (snd (pad_run us i g))) = length (slots g)"
  by (induction us arbitrary: g) (simp_all add: Let_def split_beta)

lemma pad_run_wf: "wf_gamepad g \<Longrightarrow> i < length (slots g) \<Longrightarrow> wf_gamepad (snd (pad_run us i g))"
proof (induction us arbitrary: g)
  case (Cons u us)
  have "wf_gamepad (g\<lparr>slots := (slots g)[i := apply_update u (slots g ! i)]\<rparr>)"
    using update_raw_wf [OF Cons.prems(1), of u i] Cons.prems(2) by (simp add: update_raw_step Let_def)
  then show ?case
    using Cons.IH Cons.prems(2) by (simp add: Let_def split_beta)
qed simp

lemma pad_run_id:
  "i < length (slots g) \<Longrightarrow> gs_gamepad_id (slots (snd (pad_run us i g)) ! i) = gs_gamepad_id (slots g ! i)"
  by (induction us arbitrary: g) (simp_all add: Let_def split_beta)

context reliable_transport
begin

lemma batch_runs:
  assumes "\<forall>p \<in> set ds. length p = 15"
  obtains x w' where "push_gamepad_input_batch ops hid ds w = (Inr x, w')" "wlogged w w' (map (input_of hid) ds)"
proof -
  have "delivers d (push_gamepad_input_batch ops hid ds) (concat (map msg_bytes (map (input_of hid) ds)))" for d
    using delivers_push_gamepad_input_batch [OF assms] by (simp add: comp_def)
  from writer_runs [OF this succeeds_pushes(4) [OF assms]] show ?thesis
    using that by blast
qed

lemma frame_batch_loop_runs:
  assumes "i < length (slots g)" "length batch < 32" "\<forall>p \<in> set batch. length p = 15"
    and "bid = None \<and> batch = [] \<or> bid = Some (slot_hid_id i)"
  shows "\<exists>w'. frame_batch_loop ops i fs g sent batch bid w =
      (Inr (sent + length (fst (pad_run (map frame_update fs) i g))), snd (pad_run (map frame_update fs) i g), w') \<and>
    wlogged w w' (map (input_of (slot_hid_id i)) (batch @ fst (pad_run (map frame_update fs) i g)))"
  using assms
proof (induction fs arbitrary: g sent batch bid w)
  case Nil
  show ?case
  proof (cases "batch = []")
    case True
    then show ?thesis
      using Nil.prems(4) by (auto simp: wlogged_refl)
  next
    case False
    then have "bid = Some (slot_hid_id i)"
      using Nil.prems(4) by blast
    moreover obtain x w' where "push_gamepad_input_batch ops (slot_hid_id i) batch w = (Inr x, w')"
      "wlogged w w' (map (input_of (slot_hid_id i)) batch)"
      using batch_runs [OF Nil.prems(3)] .
    ultimately show ?thesis
      using False by simp
  qed
next
  case (Cons f fs)
  let ?s = "slots g ! i" and ?s' = "apply_update (frame_update f) (slots g ! i)"
  let ?g = "g\<lparr>slots := (slots g)[i := ?s']\<rparr>"
  let ?ps = "fst (pad_run (map frame_update fs) i ?g)"
  have step: "full_state_event_slot_idx_raw i (gf_buttons f) (gf_left_x f) (gf_left_y f)
         (gf_right_x f) (gf_right_y f) (gf_left_trigger f) (gf_right_trigger f) g =
      (Inr (if ?s' = ?s then None else Some (slot_hid_id i, slot_to_payload ?s')), ?g)"
    using update_raw_step [OF Cons.prems(1), of "frame_update f"] by (simp add: frame_update_def Let_def)
  have i: "i < length (slots ?g)"
    using Cons.prems(1) by simp
  show ?case
  proof (cases "?s' = ?s")
    case True
    then show ?thesis
      using Cons.IH [OF i Cons.prems(2-4)] step by (simp add: Let_def split_beta)
  next
    case False
    let ?b = "batch @ [slot_to_payload ?s']"
    have b15: "\<forall>p \<in> set ?b. length p = 15"
      using Cons.prems(3) by simp
    have bid: "(case bid of None \<Rightarrow> slot_hid_id i | Some k \<Rightarrow> k) = slot_hid_id i"
      using Cons.prems(4) by auto
    show ?thesis
    proof (cases "length ?b = 32")
      case True
      obtain x w1 where push: "push_gamepad_input_batch ops (slot_hid_id i) ?b w = (Inr x, w1)"
        "wlogged w w1 (map (input_of (slot_hid_id i)) ?b)"
        using batch_runs [OF b15] .
      obtain w2 where "frame_batch_loop ops i fs ?g (sent + 1) [] (Some (slot_hid_id i)) w1 =
          (Inr (sent + 1 + length ?ps), snd (pad_run (map frame_update fs) i ?g), w2)"
        "wlogged w1 w2 (map (input_of (slot_hid_id i)) ?ps)"
        using Cons.IH [OF i, of "[]" "Some (slot_hid_id i)" "sent + 1" w1] by auto
      moreover have "frame_batch_loop ops i (f # fs) g sent batch bid w =
          frame_batch_loop ops i fs ?g (sent + 1) [] (Some (slot_hid_id i)) w1"
        by (simp only: frame_batch_loop.simps step False if_False prod.case sum.case option.case bid Let_def
            True DIRECT_GAMEPAD_BATCH_FRAMES_def if_True simp_thms push(1))
      ultimately show ?thesis
        using False wlogged_trans [OF push(2)] by (auto simp: Let_def split_beta)
    next
      case l: False
      then have "length ?b < 32"
        using Cons.prems(2) by simp
      moreover have "frame_batch_loop ops i (f # fs) g sent batch bid w =
          frame_batch_loop ops i fs ?g (sent + 1) ?b (Some (slot_hid_id i)) w"
        by (simp only: frame_batch_loop.simps step False if_False prod.case sum.case option.case bid Let_def
            l DIRECT_GAMEPAD_BATCH_FRAMES_def)
      ultimately show ?thesis
        using Cons.IH [OF i _ b15, of "Some (slot_hid_id i)" "sent + 1" w] False
        by (simp add: Let_def split_beta)
    qed
  qed
qed

lemma wp_set_with:
  assumes pad: "gamepad_with_cached_slot s = Inr (i, g)" "i < length (slots g)" and run: "pad_run [u] i g = (ps, g')"
    and Q: "\<And>w. Q (Inr (length ps)) (map (input_of (slot_hid_id i)) ps) (s\<lparr>hs_gamepad := Some g', hs_transport := w\<rparr>)"
  shows "wp (set_with ops (update_raw u)) Q s"
proof -
  let ?s' = "apply_update u (slots g ! i)"
  have g': "g' = g\<lparr>slots := (slots g)[i := ?s']\<rparr>"
    using run by (simp add: Let_def)
  show ?thesis
  proof (cases "?s' = slots g ! i")
    case True
    then have "ps = []"
      using run by (simp add: Let_def)
    moreover have "set_with ops (update_raw u) s = (Inr 0, s\<lparr>hs_gamepad := Some g'\<rparr>)"
      by (simp add: set_with_def pad update_raw_step Let_def True g')
    ultimately show ?thesis
      using Q [of "hs_transport s"] by (intro wp_pure) simp_all
  next
    case False
    then have ps: "ps = [slot_to_payload ?s']"
      using run by (simp add: Let_def)
    have eq: "set_with ops (update_raw u) s = act_then (on_writer (push_gamepad_input ops (slot_hid_id i) (slot_to_payload ?s')))
        (\<lambda>_. act_ret 1) (s\<lparr>hs_gamepad := Some g'\<rparr>)"
      by (simp add: set_with_def pad update_raw_step Let_def False g')
    have "wp (act_then (on_writer (push_gamepad_input ops (slot_hid_id i) (slot_to_payload ?s'))) (\<lambda>_. act_ret 1)) Q
        (s\<lparr>hs_gamepad := Some g'\<rparr>)"
      using Q by (intro wp_then wp_push_gamepad_input) (simp_all add: wp_ret ps)
    then show ?thesis
      unfolding wp_def eq logged_def by simp
  qed
qed

lemma set_frame_raw_batch_single: "set_frame_raw_batch ops [f] = set_with ops (update_raw (frame_update f))"
  by (rule ext) (simp add: set_frame_raw_batch_def frame_update_def, rule arg_cong [where f = "\<lambda>u. set_with ops u _"], rule ext, simp)

lemma wp_frame_batch:
  assumes pad: "gamepad_with_cached_slot s = Inr (i, g)" "i < length (slots g)"
    and run: "pad_run (map frame_update fs) i g = (ps, g')" and "fs \<noteq> []"
    and Q: "\<And>w. Q (Inr (length ps)) (map (input_of (slot_hid_id i)) ps) (s\<lparr>hs_gamepad := Some g', hs_transport := w\<rparr>)"
  shows "wp (set_frame_raw_batch ops fs) Q s"
proof (cases "\<exists>f. fs = [f]")
  case True
  then show ?thesis
    using wp_set_with [OF pad] run Q by (auto simp: set_frame_raw_batch_single simp del: pad_run.simps)
next
  case False
  obtain w where w: "frame_batch_loop ops i fs g 0 [] None (hs_transport s) = (Inr (length ps), g', w)"
    "wlogged (hs_transport s) w (map (input_of (slot_hid_id i)) ps)"
    using frame_batch_loop_runs [OF pad(2), of "[]" None fs 0 "hs_transport s"] run by auto
  obtain f1 f2 fs' where fs: "fs = f1 # f2 # fs'"
    using False \<open>fs \<noteq> []\<close> by (metis list.exhaust)
  have "set_frame_raw_batch ops fs s = (Inr (length ps), s\<lparr>hs_gamepad := Some g', hs_transport := w\<rparr>)"
    unfolding set_frame_raw_batch_def by (simp only: fs list.case pad(1) sum.case prod.case w(1) [unfolded fs])
  then show ?thesis
    using Q w(2) unfolding wp_def logged_def by fastforce
qed

end

end
