(* ===== verification/Session_Safety.thy ===== *)
theory Session_Safety
  imports Session_Stream
begin

text \<open>
  What every operation of an open session keeps, on a transport that does not fail: \<open>safe\<close> says that the
  drivers stay well formed and that only input for open devices and plain control messages are sent,
  whatever the operation returns.
\<close>

section \<open>Touches as data\<close>

type_synonym touch = "u8 \<times> u64 \<times> i32 \<times> i32 \<times> f32"

definition touch_at :: "'e HidSession \<Rightarrow> touch \<Rightarrow> ControlMessage" where
  "touch_at s = (\<lambda>(a, pid, x, y, p). touch_msg a pid x y p s)"

lemma touch_at_simp [simp]: "touch_at s (a, pid, x, y, p) = touch_msg a pid x y p s"
  by (simp add: touch_at_def)

lemma touch_msg_ok [simp]: "wf_msg (touch_msg a pid x y p s)" "msg_fault (touch_msg a pid x y p s) = None"
  by (simp_all add: touch_msg_def wf_msg_def msg_fault_def)

lemma touch_at_same_body: "same_body s s' \<Longrightarrow> touch_at s' = touch_at s"
  by (rule ext) (simp add: touch_at_def touch_msg_def same_body_fields split: prod.splits)

section \<open>Invariant and routing\<close>

definition open_ids :: "OpenRequest \<Rightarrow> u16 set" where
  "open_ids req = (if or_kbd req then {HID_ID_KEYBOARD} else {}) \<union> (if or_mouse req then {HID_ID_MOUSE} else {}) \<union>
     (if or_gamepad req then {HID_ID_GAMEPAD_FIRST} else {})"

definition plain :: "ControlMessage \<Rightarrow> bool" where
  \<comment> \<open>no UHID message\<close>
  "plain m = (case m of UhidCreate _ \<Rightarrow> False | UhidInput _ \<Rightarrow> False | UhidDestroy _ \<Rightarrow> False | _ \<Rightarrow> True)"

definition routed :: "u16 set \<Rightarrow> ControlMessage \<Rightarrow> bool" where
  "routed ids m \<longleftrightarrow> wf_msg m \<and> msg_fault m = None \<and> (plain m \<or> (\<exists>i. m = UhidInput i \<and> ui_id i \<in> ids))"

lemma routed_input [simp]: "length data \<le> 15 \<Longrightarrow> routed ids (input_of i data) \<longleftrightarrow> i \<in> ids"
  by (simp add: routed_def plain_def) (simp add: input_of_def)

lemma plain_ok: "plain m \<Longrightarrow> wf_msg m \<and> \<not> is_critical m"
  by (cases m) (simp_all add: plain_def wf_msg_def is_critical_def)

lemma routed_touch [simp]: "routed ids (touch_msg a pid x y p s)"
  by (simp add: routed_def) (simp add: plain_def touch_msg_def)

definition kbd_inv :: "OpenRequest \<Rightarrow> 'e HidSession \<Rightarrow> bool" where
  "kbd_inv req s = (case hs_kbd s of None \<Rightarrow> \<not> or_kbd req | Some k \<Rightarrow> or_kbd req \<and> wf_keyboard k)"

definition pad_inv :: "OpenRequest \<Rightarrow> 'e HidSession \<Rightarrow> bool" where
  "pad_inv req s =
     (if or_gamepad req
      then (case hs_gamepad s of None \<Rightarrow> False | Some g \<Rightarrow> wf_gamepad g \<and> gs_gamepad_id (slots g ! 0) = 3) \<and>
        hs_gamepad_slot s = Some 0 \<and> hs_gamepad_hid_id s = Some 3
      else hs_gamepad s = None \<and> hs_gamepad_slot s = None \<and> hs_gamepad_hid_id s = None)"

definition session_inv :: "OpenRequest \<Rightarrow> 'e HidSession \<Rightarrow> bool" where
  "session_inv req s \<longleftrightarrow> \<not> hs_closed s \<and> kbd_inv req s \<and> (hs_mouse s \<noteq> None \<longleftrightarrow> or_mouse req) \<and> pad_inv req s"

lemma session_inv_transport [simp]: "session_inv req (s\<lparr>hs_transport := w\<rparr>) = session_inv req s"
  by (simp add: session_inv_def kbd_inv_def pad_inv_def)

lemma session_inv_body: "same_body s s' \<Longrightarrow> session_inv req s' = session_inv req s"
  by (metis same_body_def session_inv_transport)

context reliable_transport
begin

definition safe :: "OpenRequest \<Rightarrow> ('e HidSession, 'a) act \<Rightarrow> bool" where
  "safe req p \<longleftrightarrow> (\<forall>s. session_inv req s \<longrightarrow>
     wp p (\<lambda>r ms s'. session_inv req s' \<and> list_all (routed (open_ids req)) ms) s)"

lemma wp_shift: "wp q Q t \<Longrightarrow> p s = q t \<Longrightarrow> hs_transport t = hs_transport s \<Longrightarrow> wp p Q s"
  by (simp add: wp_def logged_def)

lemma safeI: "(\<And>s. session_inv req s \<Longrightarrow> wp p (\<lambda>r ms s'. session_inv req s' \<and> list_all (routed (open_ids req)) ms) s) \<Longrightarrow> safe req p"
  by (simp add: safe_def)

lemma safe_then: 
  assumes "safe req p" "\<And>x. safe req (f x)"
  shows "safe req (act_then p f)"
proof (rule safeI)
  fix s :: "'e HidSession"
  assume "session_inv req s"
  then have "wp p (\<lambda>r ms s'. session_inv req s' \<and> list_all (routed (open_ids req)) ms) s"
    using assms(1) by (simp add: safe_def)
  then show "wp (act_then p f) (\<lambda>r ms s'. session_inv req s' \<and> list_all (routed (open_ids req)) ms) s"
  proof (intro wp_then, elim wp_mono)
    fix r :: "'a res" and ms and s1 :: "'e HidSession"
    assume s1: "session_inv req s1 \<and> list_all (routed (open_ids req)) ms"
    show "case r of Inl e \<Rightarrow> session_inv req s1 \<and> list_all (routed (open_ids req)) ms
        | Inr x \<Rightarrow> wp (f x) (\<lambda>r ns s'. session_inv req s' \<and> list_all (routed (open_ids req)) (ms @ ns)) s1"
    proof (cases r)
      case (Inr x)
      have "wp (f x) (\<lambda>r ms s'. session_inv req s' \<and> list_all (routed (open_ids req)) ms) s1"
        using assms(2) [of x] s1 by (simp add: safe_def)
      then show ?thesis
        using s1 Inr by (auto elim: wp_mono)
    qed (simp add: s1)
  qed
qed

lemma safe_basic [simp]: "safe req (act_ret x)" "safe req (act_fail e)"
  by (rule safeI, rule wp_ret wp_fail, simp)+

lemma safe_seq: "list_all (safe req) ps \<Longrightarrow> safe req (act_seq ps)"
  by (induction ps) (auto intro: safe_then)

lemma safe_each: "(\<And>x. x \<in> set xs \<Longrightarrow> safe req (f x)) \<Longrightarrow> safe req (act_each f xs)"
  by (induction xs) (auto intro: safe_then)

lemma safe_void: "safe req p \<Longrightarrow> safe req (act_void p)"
  unfolding act_void_def by (rule safe_then) simp_all

lemma safe_if: "safe req p \<Longrightarrow> safe req q \<Longrightarrow> safe req (if b then p else q)"
  by simp

lemma safe_ignore:
  assumes "safe req p"
  shows "safe req (act_ignore p)"
proof (rule safeI)
  fix s :: "'e HidSession"
  assume "session_inv req s"
  then obtain r s' ms where p: "p s = (r, s')" "logged s s' ms" "session_inv req s'" "list_all (routed (open_ids req)) ms"
    using assms unfolding safe_def wp_def by blast
  then show "wp (act_ignore p) (\<lambda>r ms s'. session_inv req s' \<and> list_all (routed (open_ids req)) ms) s"
    unfolding wp_def by (auto simp: act_ignore_def split: sum.split fault.split)
qed

lemma safe_on_error:
  assumes "safe req p" "safe req c"
  shows "safe req (act_on_error p c)"
proof (rule safeI)
  fix s :: "'e HidSession"
  assume "session_inv req s"
  then obtain r s1 ms where p: "p s = (r, s1)" "logged s s1 ms" "session_inv req s1" "list_all (routed (open_ids req)) ms"
    using assms(1) unfolding safe_def wp_def by blast
  then obtain r2 s2 ns where c: "c s1 = (r2, s2)" "logged s1 s2 ns" "session_inv req s2" "list_all (routed (open_ids req)) ns"
    using assms(2) unfolding safe_def wp_def by blast
  have "logged s s2 (ms @ ns)"
    using p(2) c(2) by (rule logged_trans)
  then show "wp (act_on_error p c) (\<lambda>r ms s'. session_inv req s' \<and> list_all (routed (open_ids req)) ms) s"
    using p c unfolding wp_def by (cases r) (fastforce simp: act_on_error_def)+
qed

lemmas safe_intros = safe_then safe_seq safe_each safe_void safe_if safe_ignore safe_on_error

section \<open>Operations are safe\<close>

lemma safe_send: "plain m \<Longrightarrow> safe req (session_send ops m)"
  using plain_ok [of m] by (intro safeI wp_send_any) (auto simp: routed_def)

lemma safe_plain_state: "(\<And>s. plain (m s)) \<Longrightarrow> safe req (\<lambda>s. session_send ops (m s) s)"
  using safe_send unfolding safe_def wp_def by blast

lemma safe_touch [simp]: "safe req (inject_touch ops a pid x y p)"
  unfolding inject_touch_def [abs_def] by (rule safe_plain_state) (simp add: plain_def touch_msg_def)

lemma safe_inject_scroll: "safe req (inject_scroll ops x y h v b)"
  unfolding inject_scroll_def [abs_def] by (rule safe_plain_state) (simp add: plain_def)

lemma safe_key [simp]: "safe req (session_key ops sc pressed mods)"
proof (rule safeI)
  fix s :: "'e HidSession"
  assume inv: "session_inv req s"
  show "wp (session_key ops sc pressed mods) (\<lambda>r ms s'. session_inv req s' \<and> list_all (routed (open_ids req)) ms) s"
  proof (cases "hs_kbd s")
    case None
    then show ?thesis
      using inv by (intro wp_pure [where s' = s]) (simp_all add: session_key_def)
  next
    case (Some k)
    then have k: "wf_keyboard k" "or_kbd req"
      using inv by (simp_all add: session_inv_def kbd_inv_def)
    show ?thesis
    proof (cases "valid_scancode sc")
      case True
      then obtain data k' where ev: "key_event sc pressed mods k = (Inr (input_of HID_ID_KEYBOARD data), k')"
        "length data = 8" "wf_keyboard k'"
        using key_event_refines [OF k(1), of sc pressed mods] by fastforce
      let ?s = "s\<lparr>hs_kbd := Some k'\<rparr>"
      have "wp (session_send ops (input_of HID_ID_KEYBOARD data))
          (\<lambda>r ms s'. session_inv req s' \<and> list_all (routed (open_ids req)) ms) ?s"
        using inv k ev Some by (intro wp_send) (simp_all add: session_inv_def kbd_inv_def pad_inv_def open_ids_def)
      then show ?thesis
        by (rule wp_shift) (simp_all add: session_key_def Some ev(1))
    next
      case False
      then have "session_key ops sc pressed mods s = (Inl (Err (ScancodeOutOfRange (ucast sc))), s)"
        using key_event_refines [OF k(1), of sc pressed mods] Some by (simp add: session_key_def)
      then show ?thesis
        using inv by (intro wp_pure) simp_all
    qed
  qed
qed

lemma safe_typing: "safe req (type_text ops cs)" "safe req (type_text_strict ops cs)"
  unfolding type_text_def type_text_strict_def type_char_def
  by (intro safe_each; auto split: prod.split option.split intro!: safe_then)+

lemma safe_chord: "safe req (key_chord ops mods sc)"
  unfolding key_chord_def by (intro safe_on_error safe_ignore safe_seq) simp_all

lemma inv_cached_slot:
  assumes "session_inv req s"
  shows "if or_gamepad req then \<exists>g. gamepad_with_cached_slot s = Inr (0, g) \<and> hs_gamepad s = Some g \<and> 0 < length (slots g) \<and>
      wf_gamepad g \<and> gs_gamepad_id (slots g ! 0) = 3
    else gamepad_with_cached_slot s = Inl (lifecycle ''gamepad not open'')"
  using assms by (auto simp: session_inv_def pad_inv_def gamepad_with_cached_slot_def wf_gamepad_def split: option.splits)

lemma inv_hid_id:
  assumes "session_inv req s"
  shows "session_gamepad_hid_id s = (if or_gamepad req then Inr 3 else Inl (lifecycle ''gamepad not open''))"
  using assms by (simp add: session_inv_def pad_inv_def session_gamepad_hid_id_def)

lemma inv_pad_run:
  assumes "session_inv req s" "or_gamepad req" "hs_gamepad s = Some g" "pad_run us 0 g = (ps, g')"
  shows "session_inv req (s\<lparr>hs_gamepad := Some g', hs_transport := w\<rparr>) \<and>
    list_all (routed (open_ids req)) (map (input_of (slot_hid_id 0)) ps)"
proof -
  have g: "wf_gamepad g" "0 < length (slots g)" "gs_gamepad_id (slots g ! 0) = 3"
    using assms by (auto simp: session_inv_def pad_inv_def wf_gamepad_def)
  have "wf_gamepad g'" "gs_gamepad_id (slots g' ! 0) = 3" "\<forall>p \<in> set ps. length p = 15"
    using pad_run_wf [OF g(1,2), of us] pad_run_id [OF g(2), of us] g(3) pad_run_props(1) [of us 0 g] assms(4) by simp_all
  then show ?thesis
    using assms(1,2) by (auto simp: session_inv_def kbd_inv_def pad_inv_def open_ids_def list_all_iff slot_hid_id_def)
qed

lemma safe_set_with [simp]: "safe req (set_with ops (update_raw u))"
proof (rule safeI)
  fix s :: "'e HidSession"
  assume inv: "session_inv req s"
  show "wp (set_with ops (update_raw u)) (\<lambda>r ms s'. session_inv req s' \<and> list_all (routed (open_ids req)) ms) s"
  proof (cases "or_gamepad req")
    case True
    then obtain g where g: "gamepad_with_cached_slot s = Inr (0, g)" "hs_gamepad s = Some g" "0 < length (slots g)"
      using inv_cached_slot [OF inv] by auto
    obtain ps g' where run: "pad_run [u] 0 g = (ps, g')"
      by fastforce
    show ?thesis
      by (rule wp_set_with [OF g(1,3) run]) (rule inv_pad_run [OF inv True g(2) run])
  next
    case False
    then show ?thesis
      using inv inv_cached_slot [OF inv] by (intro wp_pure [where s' = s]) (simp_all add: set_with_def)
  qed
qed

lemma safe_frame_batch: "safe req (set_frame_raw_batch ops fs)"
proof (rule safeI)
  fix s :: "'e HidSession"
  assume inv: "session_inv req s"
  show "wp (set_frame_raw_batch ops fs) (\<lambda>r ms s'. session_inv req s' \<and> list_all (routed (open_ids req)) ms) s"
  proof (cases "or_gamepad req \<and> fs \<noteq> []")
    case True
    then obtain g where g: "gamepad_with_cached_slot s = Inr (0, g)" "hs_gamepad s = Some g" "0 < length (slots g)"
      using inv_cached_slot [OF inv] by auto
    obtain ps g' where run: "pad_run (map frame_update fs) 0 g = (ps, g')"
      by fastforce
    show ?thesis
      using True by (intro wp_frame_batch [OF g(1,3) run] inv_pad_run [OF inv _ g(2) run]) simp_all
  next
    case False
    then show ?thesis
      using inv inv_cached_slot [OF inv]
      by (intro wp_pure [where s' = s and r = "snd (set_frame_raw_batch ops fs s, fst (set_frame_raw_batch ops fs s))"])
        (auto simp: set_frame_raw_batch_def set_with_def split: list.split)
  qed
qed

lemma safe_with_hid_id:
  assumes "\<And>d. delivers d (p 3) (concat (map msg_bytes (map (input_of 3) ds)))" "succeeds (p 3)" "\<forall>d \<in> set ds. length d \<le> 15"
  shows "safe req (with_hid_id p)"
proof (rule safeI)
  fix s :: "'e HidSession"
  assume inv: "session_inv req s"
  show "wp (with_hid_id p) (\<lambda>r ms s'. session_inv req s' \<and> list_all (routed (open_ids req)) ms) s"
  proof (cases "or_gamepad req")
    case True
    then have "wp (act_void (on_writer (p 3))) (\<lambda>r ms s'. session_inv req s' \<and> list_all (routed (open_ids req)) ms) s"
      using inv assms(3) by (intro wp_void wp_on_writer [OF assms(1,2)]) (auto simp: list_all_iff open_ids_def)
    then show ?thesis
      using inv_hid_id [OF inv] True by (simp add: wp_def with_hid_id_def)
  next
    case False
    then show ?thesis
      using inv inv_hid_id [OF inv] by (intro wp_pure [where s' = s]) (simp_all add: with_hid_id_def)
  qed
qed

lemma safe_unchecked: 
  "safe req (set_frame_raw_unchecked ops b lx ly rx ry lt rt)" "safe req (set_frame_raw_unchecked_frame ops f)"
proof -
  have one: "safe req (with_hid_id (\<lambda>i. push_gamepad_input_fields ops i f))" for f
    by (rule safe_with_hid_id [where ds = "[pack f]"])
      (simp_all add: delivers_push_gamepad_input_fields succeeds_pushes)
  then show "safe req (set_frame_raw_unchecked ops b lx ly rx ry lt rt)" "safe req (set_frame_raw_unchecked_frame ops f)"
    by (simp_all add: set_frame_raw_unchecked_def set_frame_raw_unchecked_frame_def Let_def)
qed

lemma safe_packed: "length payload = 15 \<Longrightarrow> safe req (set_frame_raw_packed ops payload)"
  unfolding set_frame_raw_packed_def
  by (rule safe_with_hid_id [where ds = "[payload]"]) (simp_all add: delivers_push_gamepad_input succeeds_pushes)

lemma safe_raw_report: "safe req (inject_raw_gamepad_report ops payload)"
proof -
  have "safe req (with_hid_id (\<lambda>i. push_uhid_input ops i (word_of_nat (length payload)) payload))"
    if "length payload \<le> 15"
    by (rule safe_with_hid_id [where ds = "[payload]"])
      (use that delivers_push_uhid_input [of "word_of_nat (length payload)" payload] in \<open>simp_all add: succeeds_pushes\<close>)
  then show ?thesis
    by (simp add: inject_raw_gamepad_report_def)
qed

lemma safe_batches:
  "safe req (set_frame_raw_batch_unchecked ops fs)"
  "\<forall>p \<in> set ps. length p = 15 \<Longrightarrow> safe req (set_frame_raw_packed_batch ops ps)"
proof -
  have f: "safe req (with_hid_id (\<lambda>i. push_gamepad_input_batch_from_fields ops i fs))" for fs
    by (rule safe_with_hid_id [where ds = "map pack fs"])
      (use delivers_push_batch_from_fields in \<open>auto simp: succeeds_pushes comp_def\<close>)
  have p: "safe req (with_hid_id (\<lambda>i. push_gamepad_input_batch ops i ps))" if "\<forall>p \<in> set ps. length p = 15" for ps
    by (rule safe_with_hid_id [where ds = ps])
      (use that delivers_push_gamepad_input_batch in \<open>auto simp: succeeds_pushes comp_def\<close>)
  show "safe req (set_frame_raw_batch_unchecked ops fs)"
    unfolding set_frame_raw_batch_unchecked_def
    by (auto split: list.split intro!: safe_then safe_unchecked f)
  show "\<forall>p \<in> set ps. length p = 15 \<Longrightarrow> safe req (set_frame_raw_packed_batch ops ps)"
    unfolding set_frame_raw_packed_batch_def
    by (auto split: list.split intro!: safe_then safe_packed p)
qed

lemma wp_push_report:
  assumes "length data \<le> 15" "\<And>w. Q (Inr ()) [input_of i data] (s\<lparr>hs_transport := w\<rparr>)"
  shows "wp (push_report ops (HidReport_new i data)) Q s"
  unfolding push_report_def
  by (intro wp_void wp_push_uhid_input)
    (use assms in \<open>simp_all add: HidReport_new_def copy_to_buf_def Let_def min_def\<close>)

lemma wp_mouse_report:
  assumes "session_inv req s" "or_mouse req" "length data \<le> 15"
  shows "wp (push_report ops (HidReport_new HID_ID_MOUSE data))
    (\<lambda>r ms s'. session_inv req s' \<and> list_all (routed (open_ids req)) ms) s"
  using assms by (intro wp_push_report) (auto simp: open_ids_def)

lemma safe_with_mouse:
  assumes "\<And>s m. session_inv req s \<Longrightarrow> or_mouse req \<Longrightarrow> hs_mouse s = Some m \<Longrightarrow>
    wp (q m) (\<lambda>r ms s'. session_inv req s' \<and> list_all (routed (open_ids req)) ms) s"
  shows "safe req (\<lambda>s. case hs_mouse s of None \<Rightarrow> (Inl e, s) | Some m \<Rightarrow> q m s)"
proof (rule safeI)
  fix s :: "'e HidSession"
  assume inv: "session_inv req s"
  show "wp (\<lambda>s. case hs_mouse s of None \<Rightarrow> (Inl e, s) | Some m \<Rightarrow> q m s)
      (\<lambda>r ms s'. session_inv req s' \<and> list_all (routed (open_ids req)) ms) s"
  proof (cases "hs_mouse s")
    case None
    then show ?thesis
      using inv by (intro wp_pure [where s' = s]) simp_all
  next
    case (Some m)
    then have "or_mouse req"
      using inv by (simp add: session_inv_def)
    then show ?thesis
      using assms [OF inv _ Some] Some by (simp add: wp_def)
  qed
qed

lemma safe_mouse_moves: "safe req (mouse_motion ops dx dy b)" "safe req (mouse_buttons ops b)"
  unfolding mouse_motion_def [abs_def] mouse_buttons_def [abs_def] generate_input_from_motion_def generate_input_from_click_def
  by (rule safe_with_mouse, rule wp_mouse_report, simp_all)+

lemma safe_mouse_scroll: "safe req (mouse_scroll ops h v)"
  unfolding mouse_scroll_def [abs_def]
proof (rule safe_with_mouse)
  fix s :: "'e HidSession" and m
  assume inv: "session_inv req s" "or_mouse req" "hs_mouse s = Some m"
  obtain r m' where gen: "generate_input_from_scroll h v m = (r, m')"
    by fastforce
  let ?s = "s\<lparr>hs_mouse := Some m'\<rparr>"
  have inv': "session_inv req ?s"
    using inv by (simp add: session_inv_def kbd_inv_def pad_inv_def)
  have report: "\<exists>data. r = Some (HidReport_new HID_ID_MOUSE data) \<and> length data \<le> 15" if "r \<noteq> None"
    using gen that by (auto simp: generate_input_from_scroll_def Let_def split: prod.splits if_splits)
  have push: "wp (act_then (push_report ops x) (\<lambda>_. act_ret True)) (\<lambda>r ms s'. session_inv req s' \<and> list_all (routed (open_ids req)) ms) ?s"
    if x: "r = Some x" for x
  proof -
    obtain data where "x = HidReport_new HID_ID_MOUSE data" "length data \<le> 15"
      using report x by auto
    then have "wp (push_report ops x) (\<lambda>r ms s'. session_inv req s' \<and> list_all (routed (open_ids req)) ms) ?s"
      using wp_mouse_report [OF inv' inv(2)] by simp
    then show ?thesis
      by (rule wp_then [OF wp_mono]) (auto split: sum.split intro: wp_ret)
  qed
  show "wp (\<lambda>s. case generate_input_from_scroll h v m of
        (None, m') \<Rightarrow> (Inr False, s\<lparr>hs_mouse := Some m'\<rparr>)
      | (Some r, m') \<Rightarrow> act_then (push_report ops r) (\<lambda>_. act_ret True) (s\<lparr>hs_mouse := Some m'\<rparr>))
      (\<lambda>r ms s'. session_inv req s' \<and> list_all (routed (open_ids req)) ms) s"
  proof (cases r)
    case None
    then show ?thesis
      using inv' by (intro wp_pure [where s' = ?s]) (simp_all add: gen)
  next
    case (Some x)
    then show ?thesis
      by (intro wp_shift [OF push [OF Some]]) (simp_all add: gen)
  qed
qed

lemma safe_mouse_batch: "safe req (mouse_frame_batch ops frames)"
proof (rule safeI)
  fix s :: "'e HidSession"
  assume inv: "session_inv req s"
  let ?body = "\<lambda>(dx, dy, buttons). let report = generate_input_from_motion dx dy buttons
      in act_void (on_writer (push_uhid_input ops HID_ID_MOUSE (hr_size report) (hr_data report)))"
  show "wp (mouse_frame_batch ops frames) (\<lambda>r ms s'. session_inv req s' \<and> list_all (routed (open_ids req)) ms) s"
  proof (cases "frames \<noteq> [] \<and> or_mouse req")
    case True
    have "safe req (act_then (act_each ?body frames) (\<lambda>_. act_ret (length frames)))"
    proof (intro safe_then safe_each)
      show "safe req (?body f)" for f
      proof -
        obtain dx dy b where f: "f = (dx, dy, b)"
          by (cases f)
        then have "?body f = push_report ops (HidReport_new HID_ID_MOUSE
            ((replicate MOUSE_REPORT_SIZE 0)[0 := buttons_byte b, 1 := clamp_i8 dx, 2 := clamp_i8 dy]))"
          by (simp add: push_report_def Let_def generate_input_from_motion_def)
        then show ?thesis
          using True by (simp only:) (intro safeI wp_mouse_report, simp_all)
      qed
    qed simp
    then show ?thesis
      using inv True by (simp add: safe_def wp_def mouse_frame_batch_def session_inv_def)
  next
    case False
    then show ?thesis
      using inv by (intro wp_pure [where s' = s and r = "fst (mouse_frame_batch ops frames s)"])
        (auto simp: mouse_frame_batch_def session_inv_def)
  qed
qed

end

end
