(* ===== verification/Gesture_Stream.thy ===== *)
theory Gesture_Stream
  imports Session_Safety
begin

text \<open>
  The touch events of the gestures. On a transport that does not fail, \<open>emits\<close> gives the exact list of
  touches an operation sends; the peer's view of the pointers is \<open>track\<close>, which rejects a second DOWN
  and any event for a pointer that is up. The lemmas show the paths of all gestures and that the straight
  lines computed in binary32 stay between their end points.
\<close>

section \<open>Exact touch lists\<close>

context reliable_transport
begin

definition emits :: "('e HidSession, unit) act \<Rightarrow> touch list \<Rightarrow> bool" where
  "emits p ts \<longleftrightarrow> (\<forall>s. wp p (\<lambda>r ms s'. r = Inr () \<and> same_body s s' \<and> ms = map (touch_at s) ts) s)"

lemma emits_touch: "emits (inject_touch ops a pid x y p) [(a, pid, x, y, p)]"
  unfolding emits_def
proof
  fix s :: "'e HidSession"
  have "wp (session_send ops (touch_msg a pid x y p s))
      (\<lambda>r ms s'. r = Inr () \<and> same_body s s' \<and> ms = map (touch_at s) [(a, pid, x, y, p)]) s"
    by (rule wp_send) simp_all
  then show "wp (inject_touch ops a pid x y p)
      (\<lambda>r ms s'. r = Inr () \<and> same_body s s' \<and> ms = map (touch_at s) [(a, pid, x, y, p)]) s"
    by (rule wp_shift) (simp_all add: inject_touch_def)
qed

lemma emits_then:
  assumes "emits p ts" "emits q us"
  shows "emits (act_then p (\<lambda>_. q)) (ts @ us)"
  unfolding emits_def
proof
  fix s :: "'e HidSession"
  have "wp p (\<lambda>r ms s'. r = Inr () \<and> same_body s s' \<and> ms = map (touch_at s) ts) s"
    using assms(1) by (simp add: emits_def)
  then show "wp (act_then p (\<lambda>_. q)) (\<lambda>r ms s'. r = Inr () \<and> same_body s s' \<and> ms = map (touch_at s) (ts @ us)) s"
  proof (rule wp_then [OF wp_mono])
    fix r :: "unit res" and ms and s1 :: "'e HidSession"
    assume post: "r = Inr () \<and> same_body s s1 \<and> ms = map (touch_at s) ts"
    then have s1: "same_body s s1"
      by simp
    have "wp q (\<lambda>r ms s'. r = Inr () \<and> same_body s1 s' \<and> ms = map (touch_at s1) us) s1"
      using assms(2) by (simp add: emits_def)
    then have "wp q (\<lambda>r ns s'. r = Inr () \<and> same_body s s' \<and> ms @ ns = map (touch_at s) (ts @ us)) s1"
      by (rule wp_mono) (use post in \<open>auto simp: touch_at_same_body [OF s1] intro: same_body_trans [OF s1]\<close>)
    then show "case r of Inl e \<Rightarrow> Inl e = Inr () \<and> same_body s s1 \<and> ms = map (touch_at s) (ts @ us)
        | Inr x \<Rightarrow> wp q (\<lambda>r ns s'. r = Inr () \<and> same_body s s' \<and> ms @ ns = map (touch_at s) (ts @ us)) s1"
      using post by simp
  qed
qed

lemma emits_ret: "emits (act_ret ()) []"
  by (simp add: emits_def wp_ret)

lemma emits_seq: "list_all2 emits ps tss \<Longrightarrow> emits (act_seq ps) (concat tss)"
proof (induction ps arbitrary: tss)
  case (Cons p ps)
  then obtain ts tss' where "tss = ts # tss'" "emits p ts" "list_all2 emits ps tss'"
    by (auto simp: list_all2_Cons1)
  then show ?case
    using Cons.IH emits_then by simp
qed (simp add: emits_ret)

lemma emits_each: "(\<And>x. x \<in> set xs \<Longrightarrow> emits (f x) (g x)) \<Longrightarrow> emits (act_each f xs) (concat (map g xs))"
  by (induction xs) (simp_all add: emits_ret emits_then)

lemma emits_touches:
  "(\<And>x. f x = (case t x of (a, pid, px, py, p) \<Rightarrow> inject_touch ops a pid px py p)) \<Longrightarrow> emits (act_each f xs) (map t xs)"
  using emits_each [of xs f "\<lambda>x. [t x]"] emits_touch by (simp split: prod.split)

lemma emits_on_error: "emits p ts \<Longrightarrow> emits (act_on_error p c) ts"
  unfolding emits_def
proof
  fix s :: "'e HidSession"
  assume "\<forall>s. wp p (\<lambda>r ms s'. r = Inr () \<and> same_body s s' \<and> ms = map (touch_at s) ts) s"
  then have "wp p (\<lambda>r ms s'. r = Inr () \<and> same_body s s' \<and> ms = map (touch_at s) ts) s" ..
  then show "wp (act_on_error p c) (\<lambda>r ms s'. r = Inr () \<and> same_body s s' \<and> ms = map (touch_at s) ts) s"
    by (auto simp: wp_def act_on_error_def)
qed

lemma emits_safe:
  assumes "emits p ts"
  shows "safe req p"
proof (rule safeI)
  fix s :: "'e HidSession"
  assume "session_inv req s"
  moreover have "wp p (\<lambda>r ms s'. r = Inr () \<and> same_body s s' \<and> ms = map (touch_at s) ts) s"
    using assms by (simp add: emits_def)
  ultimately show "wp p (\<lambda>r ms s'. session_inv req s' \<and> list_all (routed (open_ids req)) ms) s"
    by (auto elim!: wp_mono simp: session_inv_body list_all_iff touch_at_def)
qed

lemma emits_sleep: "emits (sleep_for ops d) []"
proof -
  have "delivers m (act_modify (\<lambda>w. w\<lparr>cw_transport := op_sleep ops d (cw_transport w)\<rparr>)) []" for m
    by (rule delivers_quiet) (auto simp: sleep_wire)
  then show ?thesis
    unfolding emits_def sleep_for_def by (intro allI wp_on_writer [where ms = "[]"]) simp_all
qed

end

section \<open>The paths\<close>

definition line_path :: "u64 \<Rightarrow> i32 \<times> i32 \<Rightarrow> i32 \<times> i32 \<Rightarrow> u32 \<Rightarrow> touch list" where
  \<comment> \<open>the moves of a swipe or drag, the last on the target\<close>
  "line_path pid src dst steps0 =
     (let steps = max steps0 2; (x0, y0) = src; (x1, y1) = dst
      in map (\<lambda>i. (ACTION_MOVE, pid, lerp x0 x1 (step_fraction i steps), lerp y0 y1 (step_fraction i steps), Fin 1))
           [1..<unat steps] @ [(ACTION_MOVE, pid, x1, y1, Fin 1)])"

definition pinch_path :: "i32 \<Rightarrow> i32 \<Rightarrow> i32 \<Rightarrow> i32 \<Rightarrow> u32 \<Rightarrow> touch list" where
  "pinch_path cx cy r0 r1 steps0 =
     (let steps = max steps0 2
      in concat (map (\<lambda>i. let t = step_fraction i steps in
           [(ACTION_MOVE, 0, lerp (cx - r0) (cx - r1) t, lerp cy cy t, Fin 1),
            (ACTION_MOVE, 1, lerp (cx + r0) (cx + r1) t, lerp cy cy t, Fin 1)]) [1..<unat steps + 1]))"

definition screenshot_path :: "u16 \<Rightarrow> u16 \<Rightarrow> touch list" where
  \<comment> \<open>three columns, pulled down in ten steps from a quarter of the screen to three quarters\<close>
  "screenshot_path sw sh =
     (let w = uint sw; h = uint sh; column = (\<lambda>i. word_of_int (w div 4 * (int i + 1)) :: i32)
      in map (\<lambda>i. (ACTION_DOWN, word_of_nat i, column i, word_of_int (h div 4), Fin 1)) [0..<3] @
         concat (map (\<lambda>step. map (\<lambda>i. (ACTION_MOVE, word_of_nat i, column i,
           word_of_int (h div 4 + h div 2 * int step div 10), Fin 1)) [0..<3]) [1..<11]) @
         map (\<lambda>i. (ACTION_UP, word_of_nat i, column i, word_of_int (h * 3 div 4), Fin 0)) [0..<3])"

datatype gesture =
    G_Tap u64 i32 i32
  | G_DoubleTap i32 i32
  | G_LongPress i32 i32 nat
  | G_Swipe u64 "i32 \<times> i32" "i32 \<times> i32" u32
  | G_Drag "i32 \<times> i32" "i32 \<times> i32" u32 nat
  | G_Pinch i32 i32 i32 i32 u32
  | G_MultiTap "(i32 \<times> i32) list"
  | G_Screenshot

primrec gesture_exec :: "'e transport_ops \<Rightarrow> gesture \<Rightarrow> ('e HidSession, unit) act" where
  "gesture_exec ops (G_Tap pid x y) = tap_pointer ops pid x y"
| "gesture_exec ops (G_DoubleTap x y) = double_tap ops x y"
| "gesture_exec ops (G_LongPress x y d) = long_press ops x y d"
| "gesture_exec ops (G_Swipe pid src dst n) = swipe_pointer ops pid src dst n"
| "gesture_exec ops (G_Drag src dst n d) = session_drag ops src dst n d"
| "gesture_exec ops (G_Pinch cx cy r0 r1 n) = session_pinch ops cx cy r0 r1 n"
| "gesture_exec ops (G_MultiTap ps) = multi_finger_tap ops ps"
| "gesture_exec ops G_Screenshot = three_finger_screenshot ops"

primrec gesture_path :: "u16 \<Rightarrow> u16 \<Rightarrow> gesture \<Rightarrow> touch list" where
  \<comment> \<open>on a screen of \<open>w\<close> by \<open>h\<close>, which only the screenshot looks at\<close>
  "gesture_path w h (G_Tap pid x y) = [(ACTION_DOWN, pid, x, y, Fin 1), (ACTION_UP, pid, x, y, Fin 0)]"
| "gesture_path w h (G_DoubleTap x y) =
     [(ACTION_DOWN, 0, x, y, Fin 1), (ACTION_UP, 0, x, y, Fin 0), (ACTION_DOWN, 0, x, y, Fin 1), (ACTION_UP, 0, x, y, Fin 0)]"
| "gesture_path w h (G_LongPress x y d) = [(ACTION_DOWN, 0, x, y, Fin 1), (ACTION_UP, 0, x, y, Fin 0)]"
| "gesture_path w h (G_Swipe pid src dst n) =
     (ACTION_DOWN, pid, fst src, snd src, Fin 1) # line_path pid src dst n @ [(ACTION_UP, pid, fst dst, snd dst, Fin 0)]"
| "gesture_path w h (G_Drag src dst n d) =
     (ACTION_DOWN, 0, fst src, snd src, Fin 1) # line_path 0 src dst n @ [(ACTION_UP, 0, fst dst, snd dst, Fin 0)]"
| "gesture_path w h (G_Pinch cx cy r0 r1 n) =
     [(ACTION_DOWN, 0, cx - r0, cy, Fin 1), (ACTION_DOWN, 1, cx + r0, cy, Fin 1)] @ pinch_path cx cy r0 r1 n @
     [(ACTION_UP, 0, 0, 0, Fin 0), (ACTION_UP, 1, 0, 0, Fin 0)]"
| "gesture_path w h (G_MultiTap ps) =
     map (\<lambda>(i, x, y). (ACTION_DOWN, word_of_nat i, x, y, Fin 1)) (enumerate 0 ps) @
     map (\<lambda>i. (ACTION_UP, word_of_nat i, 0, 0, Fin 0)) [0..<length ps]"
| "gesture_path w h G_Screenshot = screenshot_path w h"

primrec gesture_ok :: "gesture \<Rightarrow> bool" where
  \<comment> \<open>only a multi-finger tap checks its arguments\<close>
  "gesture_ok (G_Tap pid x y) = True"
| "gesture_ok (G_DoubleTap x y) = True"
| "gesture_ok (G_LongPress x y d) = True"
| "gesture_ok (G_Swipe pid src dst n) = True"
| "gesture_ok (G_Drag src dst n d) = True"
| "gesture_ok (G_Pinch cx cy r0 r1 n) = True"
| "gesture_ok (G_MultiTap ps) = (2 \<le> length ps \<and> length ps \<le> 10)"
| "gesture_ok G_Screenshot = True"

section \<open>The multi-touch handle is transparent\<close>

lemma on_session_simps:
  "on_session (act_ret x) = act_ret x"
  "on_session (act_then p f) = act_then (on_session p) (\<lambda>x. on_session (f x))"
  by (rule ext, simp add: on_session_def act_then_def split: prod.split sum.split)+

lemma on_session_seq: "on_session (act_seq ps) = act_seq (map on_session ps)"
  by (induction ps) (simp_all add: on_session_simps del: act_simps)

lemma on_session_each: "on_session (act_each f xs) = act_each (\<lambda>x. on_session (f x)) xs"
  by (induction xs) (simp_all add: on_session_simps del: act_simps)

lemma check_id_ok: "i < 10 \<Longrightarrow> check_id i = Inr ()"
  by (simp add: check_id_def not_le)

text \<open>An action on a handle mirrors one on its session, changing the active set from \<open>a\<close> to \<open>a'\<close>.\<close>

definition mirrors :: "bool list \<Rightarrow> ('e MultitouchHandle, unit) act \<Rightarrow> ('e HidSession, unit) act \<Rightarrow> bool list \<Rightarrow> bool" where
  "mirrors a p q a' \<longleftrightarrow> (\<forall>s. case q s of
     (Inl e, s') \<Rightarrow> (\<exists>b. p \<lparr>mh_session = s, mh_active = a\<rparr> = (Inl e, \<lparr>mh_session = s', mh_active = b\<rparr>))
   | (Inr _, s') \<Rightarrow> p \<lparr>mh_session = s, mh_active = a\<rparr> = (Inr (), \<lparr>mh_session = s', mh_active = a'\<rparr>))"

lemma mirrors_then:
  assumes "mirrors a p q a1" "mirrors a1 p' q' a2"
  shows "mirrors a (act_then p (\<lambda>_. p')) (act_then q (\<lambda>_. q')) a2"
  unfolding mirrors_def
proof
  fix s
  show "case act_then q (\<lambda>_. q') s of
     (Inl e, s') \<Rightarrow> (\<exists>b. act_then p (\<lambda>_. p') \<lparr>mh_session = s, mh_active = a\<rparr> = (Inl e, \<lparr>mh_session = s', mh_active = b\<rparr>))
   | (Inr _, s') \<Rightarrow> act_then p (\<lambda>_. p') \<lparr>mh_session = s, mh_active = a\<rparr> = (Inr (), \<lparr>mh_session = s', mh_active = a2\<rparr>)"
  proof (cases "q s")
    case (Pair r s1)
    then show ?thesis
      using assms(1) [unfolded mirrors_def, rule_format, of s] assms(2) [unfolded mirrors_def, rule_format, of s1]
      by (cases r) (auto split: prod.splits sum.splits)
  qed
qed

lemma mirrors_ret: "mirrors a (act_ret ()) (act_ret ()) a"
  by (simp add: mirrors_def)

lemma mirrors_session: "mirrors a p q a' \<Longrightarrow> (case p \<lparr>mh_session = s, mh_active = a\<rparr> of (r, h) \<Rightarrow> (r, mh_session h)) = q s"
  unfolding mirrors_def by (cases "q s", cases "fst (q s)") (fastforce split: prod.splits)+

lemma mirrors_down:
  assumes "i < 10" "\<not> a ! unat i"
  shows "mirrors a (mt_down ops i x y p) (inject_touch ops ACTION_DOWN i x y p) (a[unat i := True])"
  using assms by (simp add: mirrors_def mt_down_def act_then_def act_lift_def check_id_ok require_up_def on_session_def
      set_active_def split: prod.split sum.split)

lemma mirrors_up:
  assumes "i < 10" "a ! unat i"
  shows "mirrors a (mt_up ops i) (inject_touch ops ACTION_UP i 0 0 (Fin 0)) (a[unat i := False])"
  using assms by (simp add: mirrors_def mt_up_def act_then_def act_lift_def check_id_ok require_down_def on_session_def
      set_active_def split: prod.split sum.split)

definition pinch_moves :: "'e transport_ops \<Rightarrow> u64 \<times> i32 \<times> i32 \<times> i32 \<times> i32 \<Rightarrow> u64 \<times> i32 \<times> i32 \<times> i32 \<times> i32 \<Rightarrow> u32 \<Rightarrow>
    ('e HidSession, unit) act" where
  \<comment> \<open>the loop of \<open>mt_pinch\<close> on the session\<close>
  "pinch_moves ops p0 p1 steps =
     (case p0 of (id0, xa, ya, xb, yb) \<Rightarrow> case p1 of (id1, xc, yc, xd, yd) \<Rightarrow>
        act_each (\<lambda>i. act_seq
          [inject_touch ops ACTION_MOVE id0 (lerp xa xb (step_fraction i steps)) (lerp ya yb (step_fraction i steps)) (Fin 1),
           inject_touch ops ACTION_MOVE id1 (lerp xc xd (step_fraction i steps)) (lerp yc yd (step_fraction i steps)) (Fin 1)])
          [1..<unat steps + 1])"

lemma mirrors_pinch:
  assumes "fst p0 < 10" "fst p1 < 10" "a ! unat (fst p0)" "a ! unat (fst p1)"
  shows "mirrors a (mt_pinch ops p0 p1 steps) (pinch_moves ops p0 p1 (max steps 2)) a"
proof -
  obtain id0 xa ya xb yb id1 xc yc xd yd where p: "p0 = (id0, xa, ya, xb, yb)" "p1 = (id1, xc, yc, xd, yd)"
    by (cases p0, cases p1)
  have form: "mt_pinch ops p0 p1 steps = act_seq [act_lift (check_id id0), act_lift (check_id id1), require_down id0,
      require_down id1, on_session (pinch_moves ops p0 p1 (max steps 2))]"
    by (simp only: mt_pinch_def Let_def p prod.case pinch_moves_def on_session_each on_session_seq list.map)
  have "act_seq [act_lift (check_id id0), act_lift (check_id id1), require_down id0, require_down id1, q]
      \<lparr>mh_session = s, mh_active = a\<rparr> = q \<lparr>mh_session = s, mh_active = a\<rparr>" for q and s :: "'a HidSession"
    using assms by (cases "q \<lparr>mh_session = s, mh_active = a\<rparr>", cases "fst (q \<lparr>mh_session = s, mh_active = a\<rparr>)")
      (simp_all add: p act_then_def act_lift_def check_id_ok require_down_def)
  then show ?thesis
    unfolding mirrors_def form by (simp add: on_session_def split: prod.split sum.split)
qed

lemma session_pinch_eq:
  "session_pinch ops cx cy r0 r1 steps = act_seq
    [inject_touch ops ACTION_DOWN 0 (cx - r0) cy (Fin 1), inject_touch ops ACTION_DOWN 1 (cx + r0) cy (Fin 1),
     pinch_moves ops (0, cx - r0, cy, cx - r1, cy) (1, cx + r0, cy, cx + r1, cy) (max steps 2),
     inject_touch ops ACTION_UP 0 0 0 (Fin 0), inject_touch ops ACTION_UP 1 0 0 (Fin 0)]"
proof (rule ext)
  fix s :: "'a HidSession"
  let ?a = "replicate 10 False"
  have "mirrors ?a (act_seq [mt_down ops 0 (cx - r0) cy (Fin 1), mt_down ops 1 (cx + r0) cy (Fin 1),
        mt_pinch ops (0, cx - r0, cy, cx - r1, cy) (1, cx + r0, cy, cx + r1, cy) steps, mt_up ops 0, mt_up ops 1])
      (act_seq [inject_touch ops ACTION_DOWN 0 (cx - r0) cy (Fin 1), inject_touch ops ACTION_DOWN 1 (cx + r0) cy (Fin 1),
     pinch_moves ops (0, cx - r0, cy, cx - r1, cy) (1, cx + r0, cy, cx + r1, cy) (max steps 2),
     inject_touch ops ACTION_UP 0 0 0 (Fin 0), inject_touch ops ACTION_UP 1 0 0 (Fin 0)])
      (((?a[unat (0 :: u64) := True])[unat (1 :: u64) := True])[unat (0 :: u64) := False, unat (1 :: u64) := False])"
    unfolding act_seq.simps
    by (rule mirrors_then [OF mirrors_down mirrors_then [OF mirrors_down mirrors_then [OF mirrors_pinch
          mirrors_then [OF mirrors_up mirrors_then [OF mirrors_up mirrors_ret]]]]]) simp_all
  from mirrors_session [OF this, of s]
  show "session_pinch ops cx cy r0 r1 steps s = act_seq
    [inject_touch ops ACTION_DOWN 0 (cx - r0) cy (Fin 1), inject_touch ops ACTION_DOWN 1 (cx + r0) cy (Fin 1),
     pinch_moves ops (0, cx - r0, cy, cx - r1, cy) (1, cx + r0, cy, cx + r1, cy) (max steps 2),
     inject_touch ops ACTION_UP 0 0 0 (Fin 0), inject_touch ops ACTION_UP 1 0 0 (Fin 0)] s"
    unfolding session_pinch_def multitouch_def by (simp only: MAX_POINTERS_def unat_numeral) simp
qed

section \<open>Every gesture sends its path\<close>

lemma act_then_ret_left: "act_then (act_ret x) f = f x"
  by (rule ext) simp

lemma act_then_assoc: "act_then (act_then p f) g = act_then p (\<lambda>x. act_then (f x) g)"
  by (rule ext) (simp add: act_then_def split: prod.split sum.split)

context reliable_transport
begin

lemma emits_press_all:
  assumes "\<And>pr. emits (q pr) us"
  shows "emits (act_then (press_all ops i ps pressed) q)
    (map (\<lambda>(i, x, y). (ACTION_DOWN, word_of_nat i, x, y, Fin 1)) (enumerate i ps) @ us)"
proof (induction ps arbitrary: i pressed)
  case Nil
  then show ?case
    using assms by (simp add: act_then_ret_left del: act_simps)
next
  case (Cons xy ps)
  obtain x y where xy: "xy = (x, y)"
    by (cases xy)
  have "emits (act_then (act_on_error (inject_touch ops ACTION_DOWN (word_of_nat i) x y (Fin 1)) (release_pressed ops pressed))
      (\<lambda>_. act_then (press_all ops (i + 1) ps (pressed[i := True])) q))
      ([(ACTION_DOWN, word_of_nat i, x, y, Fin 1)] @
       (map (\<lambda>(i, x, y). (ACTION_DOWN, word_of_nat i, x, y, Fin 1)) (enumerate (i + 1) ps) @ us))"
    by (rule emits_then [OF emits_on_error [OF emits_touch] Cons.IH])
  then show ?case
    by (simp add: xy act_then_assoc)
qed

lemma emits_line:
  "emits (act_each (\<lambda>i. let t = step_fraction i steps in inject_touch ops ACTION_MOVE pid (lerp x0 x1 t) (lerp y0 y1 t) (Fin 1)) xs)
    (map (\<lambda>i. (ACTION_MOVE, pid, lerp x0 x1 (step_fraction i steps), lerp y0 y1 (step_fraction i steps), Fin 1)) xs)"
  by (rule emits_touches) (simp add: Let_def)

lemma emits_seq4:
  "emits p1 t1 \<Longrightarrow> emits p2 t2 \<Longrightarrow> emits p3 t3 \<Longrightarrow> emits p4 t4 \<Longrightarrow> emits (act_seq [p1, p2, p3, p4]) (t1 @ t2 @ t3 @ t4)"
  using emits_seq [of "[p1, p2, p3, p4]" "[t1, t2, t3, t4]"] by simp

lemma emits_tap: "emits (gesture_exec ops (G_Tap pid x y)) (gesture_path w h (G_Tap pid x y))"
proof -
  show ?thesis
    using emits_seq [of "[act_on_error (inject_touch ops ACTION_DOWN pid x y (Fin 1)) (guard_drop ops []),
        act_on_error (inject_touch ops ACTION_UP pid x y (Fin 0)) (guard_drop ops [pid])]"
        "[[(ACTION_DOWN, pid, x, y, Fin 1)], [(ACTION_UP, pid, x, y, Fin 0)]]"]
    by (simp add: tap_pointer_def Let_def mark_pressed_def emits_on_error emits_touch
        del: act_seq.simps ACTION_DOWN_def ACTION_UP_def)
qed

lemma emits_double_tap: "emits (gesture_exec ops (G_DoubleTap x y)) (gesture_path w h (G_DoubleTap x y))"
proof -
  show ?thesis
    using emits_seq4 [OF emits_touch [of ACTION_DOWN 0 x y "Fin 1"] emits_touch [of ACTION_UP 0 x y "Fin 0"]
        emits_touch [of ACTION_DOWN 0 x y "Fin 1"] emits_touch [of ACTION_UP 0 x y "Fin 0"]]
    by (simp add: double_tap_def del: act_seq.simps)
qed

lemma emits_long_press: "emits (gesture_exec ops (G_LongPress x y d)) (gesture_path w h (G_LongPress x y d))"
proof -
  show ?thesis
    using emits_seq [of "[inject_touch ops ACTION_DOWN 0 x y (Fin 1), sleep_for ops d, inject_touch ops ACTION_UP 0 x y (Fin 0)]"
        "[[(ACTION_DOWN, 0, x, y, Fin 1)], [], [(ACTION_UP, 0, x, y, Fin 0)]]"] emits_touch emits_sleep
    by (simp add: long_press_def del: act_seq.simps ACTION_DOWN_def ACTION_UP_def)
qed

lemma emits_swipe: "emits (gesture_exec ops (G_Swipe pid src dst n)) (gesture_path w h (G_Swipe pid src dst n))"
proof -
  show ?thesis
    using emits_seq4 [OF emits_touch [of ACTION_DOWN pid "fst src" "snd src" "Fin 1"]
        emits_line [of "max n 2" pid "fst src" "fst dst" "snd src" "snd dst" "[1..<unat (max n 2)]"]
        emits_touch [of ACTION_MOVE pid "fst dst" "snd dst" "Fin 1"] emits_touch [of ACTION_UP pid "fst dst" "snd dst" "Fin 0"]]
    by (simp add: swipe_pointer_def line_path_def Let_def split_beta del: act_seq.simps)
qed

lemma emits_drag: "emits (gesture_exec ops (G_Drag src dst n d)) (gesture_path w h (G_Drag src dst n d))"
proof -
  have hold: "emits (if d \<noteq> 0 then sleep_for ops d else act_ret ()) []"
    using emits_sleep emits_ret by simp
  show ?thesis
    using emits_seq [of "[inject_touch ops ACTION_DOWN 0 (fst src) (snd src) (Fin 1), if d \<noteq> 0 then sleep_for ops d else act_ret (),
        act_each (\<lambda>i. let t = step_fraction i (max n 2) in inject_touch ops ACTION_MOVE 0 (lerp (fst src) (fst dst) t) (lerp (snd src) (snd dst) t) (Fin 1)) [1..<unat (max n 2)],
        inject_touch ops ACTION_MOVE 0 (fst dst) (snd dst) (Fin 1), if d \<noteq> 0 then sleep_for ops d else act_ret (),
        inject_touch ops ACTION_UP 0 (fst dst) (snd dst) (Fin 0)]"
        "[[(ACTION_DOWN, 0, fst src, snd src, Fin 1)], [],
          map (\<lambda>i. (ACTION_MOVE, 0, lerp (fst src) (fst dst) (step_fraction i (max n 2)), lerp (snd src) (snd dst) (step_fraction i (max n 2)), Fin 1)) [1..<unat (max n 2)],
          [(ACTION_MOVE, 0, fst dst, snd dst, Fin 1)], [], [(ACTION_UP, 0, fst dst, snd dst, Fin 0)]]"]
      emits_touch emits_line hold
    by (simp add: session_drag_def line_path_def Let_def split_beta del: act_seq.simps ACTION_DOWN_def ACTION_UP_def ACTION_MOVE_def)
qed

lemma emits_pinch: "emits (gesture_exec ops (G_Pinch cx cy r0 r1 n)) (gesture_path w h (G_Pinch cx cy r0 r1 n))"
proof -
  have moves: "emits (pinch_moves ops (0, cx - r0, cy, cx - r1, cy) (1, cx + r0, cy, cx + r1, cy) (max n 2)) (pinch_path cx cy r0 r1 n)"
    unfolding pinch_moves_def pinch_path_def Let_def prod.case
  proof (rule emits_each)
    fix i
    let ?t = "step_fraction i (max n 2)"
    show "emits (act_seq [inject_touch ops ACTION_MOVE 0 (lerp (cx - r0) (cx - r1) ?t) (lerp cy cy ?t) (Fin 1),
         inject_touch ops ACTION_MOVE 1 (lerp (cx + r0) (cx + r1) ?t) (lerp cy cy ?t) (Fin 1)])
        [(ACTION_MOVE, 0, lerp (cx - r0) (cx - r1) ?t, lerp cy cy ?t, Fin 1), (ACTION_MOVE, 1, lerp (cx + r0) (cx + r1) ?t, lerp cy cy ?t, Fin 1)]"
      using emits_seq [where tss = "[[(ACTION_MOVE, 0, lerp (cx - r0) (cx - r1) ?t, lerp cy cy ?t, Fin 1)], [(ACTION_MOVE, 1, lerp (cx + r0) (cx + r1) ?t, lerp cy cy ?t, Fin 1)]]"]
        emits_touch by (simp del: act_seq.simps ACTION_MOVE_def)
  qed
  show ?thesis
    using emits_seq [of "[inject_touch ops ACTION_DOWN 0 (cx - r0) cy (Fin 1), inject_touch ops ACTION_DOWN 1 (cx + r0) cy (Fin 1),
      pinch_moves ops (0, cx - r0, cy, cx - r1, cy) (1, cx + r0, cy, cx + r1, cy) (max n 2),
      inject_touch ops ACTION_UP 0 0 0 (Fin 0), inject_touch ops ACTION_UP 1 0 0 (Fin 0)]"
      "[[(ACTION_DOWN, 0, cx - r0, cy, Fin 1)], [(ACTION_DOWN, 1, cx + r0, cy, Fin 1)], pinch_path cx cy r0 r1 n,
        [(ACTION_UP, 0, 0, 0, Fin 0)], [(ACTION_UP, 1, 0, 0, Fin 0)]]"] emits_touch moves
    by (simp add: session_pinch_eq del: act_seq.simps ACTION_DOWN_def ACTION_UP_def ACTION_MOVE_def)
qed

lemma emits_multi_tap:
  assumes "gesture_ok (G_MultiTap ps)"
  shows "emits (gesture_exec ops (G_MultiTap ps)) (gesture_path w h (G_MultiTap ps))"
proof -
  have "emits (act_on_error (act_each (\<lambda>i. inject_touch ops ACTION_UP (word_of_nat i) 0 0 (Fin 0)) [0..<length ps]) (release_pressed ops pr))
      (map (\<lambda>i. (ACTION_UP, word_of_nat i, 0, 0, Fin 0)) [0..<length ps])" for pr
    by (rule emits_on_error, rule emits_touches) simp
  from emits_press_all [where q = "\<lambda>pr. act_on_error (act_each (\<lambda>i. inject_touch ops ACTION_UP (word_of_nat i) 0 0 (Fin 0)) [0..<length ps]) (release_pressed ops pr)", OF this]
  show ?thesis
    using assms by (simp add: multi_finger_tap_def Let_def del: ACTION_DOWN_def ACTION_UP_def)
qed

text \<open>The screenshot reads the screen size of the session it starts in.\<close>

lemma screenshot_wp:
  "wp (three_finger_screenshot ops) (\<lambda>r ms s'. r = Inr () \<and> same_body s s' \<and>
     ms = map (touch_at s) (screenshot_path (hs_screen_w s) (hs_screen_h s))) s"
proof -
  define w h where "w = uint (hs_screen_w s)" and "h = uint (hs_screen_h s)"
  define column where "column = (\<lambda>i. word_of_int (w div 4 * (int i + 1)) :: i32)"
  define row where "row = (\<lambda>step. word_of_int (h div 4 + h div 2 * int step div 10) :: i32)"
  let ?down = "\<lambda>i. (ACTION_DOWN, word_of_nat i :: u64, column i, word_of_int (h div 4) :: i32, Fin 1)"
  let ?move = "\<lambda>step i. (ACTION_MOVE, word_of_nat i :: u64, column i, row step, Fin 1)"
  let ?up = "\<lambda>i. (ACTION_UP, word_of_nat i :: u64, column i, word_of_int (h * 3 div 4) :: i32, Fin 0)"
  let ?all = "act_seq [
       act_each (\<lambda>i. inject_touch ops ACTION_DOWN (word_of_nat i) (column i) (word_of_int (h div 4)) (Fin 1)) [0..<3],
       act_each (\<lambda>step. act_each (\<lambda>i. inject_touch ops ACTION_MOVE (word_of_nat i) (column i) (row step) (Fin 1)) [0..<3]) [1..<11],
       act_each (\<lambda>i. inject_touch ops ACTION_UP (word_of_nat i) (column i) (word_of_int (h * 3 div 4)) (Fin 0)) [0..<3]]"
  have "emits ?all (concat [map ?down [0..<3], concat (map (\<lambda>step. map (?move step) [0..<3]) [1..<11]), map ?up [0..<3]])"
    by (intro emits_seq list.rel_intros emits_each emits_touches) simp_all
  then have "wp ?all (\<lambda>r ms s'. r = Inr () \<and> same_body s s' \<and>
      ms = map (touch_at s) (screenshot_path (hs_screen_w s) (hs_screen_h s))) s"
    by (simp only: emits_def screenshot_path_def Let_def w_def h_def column_def row_def concat.simps append_Nil2)
  moreover have "three_finger_screenshot ops s = ?all s"
    by (simp only: three_finger_screenshot_def Let_def w_def h_def column_def row_def)
  ultimately show ?thesis
    by (rule wp_shift) simp_all
qed

lemma emits_gesture: "gesture_ok g \<Longrightarrow> g \<noteq> G_Screenshot \<Longrightarrow> emits (gesture_exec ops g) (gesture_path w h g)"
  using emits_tap emits_double_tap emits_long_press emits_swipe emits_drag emits_pinch emits_multi_tap
  by (cases g) metis+

lemma gesture_wp:
  assumes "gesture_ok g"
  shows "wp (gesture_exec ops g) (\<lambda>r ms s'. r = Inr () \<and> same_body s s' \<and>
    ms = map (touch_at s) (gesture_path (hs_screen_w s) (hs_screen_h s) g)) s"
proof (cases "g = G_Screenshot")
  case True
  then show ?thesis
    using screenshot_wp by simp
next
  case False
  then show ?thesis
    using emits_gesture [OF assms] by (simp add: emits_def)
qed

lemma gesture_sends:
  assumes "gesture_ok g" "sound s"
  shows "\<exists>s'. gesture_exec ops g s = (Inr (), s') \<and> same_body s s' \<and> sound s' \<and>
    stream wire s' = stream wire s @ concat (map msg_bytes (map (touch_at s) (gesture_path (hs_screen_w s) (hs_screen_h s) g)))"
  using gesture_wp [OF assms(1)] logged_stream [OF _ assms(2)] unfolding wp_def by metis

end

section \<open>What the peer makes of the touches\<close>

text \<open>The pointers the peer holds down; \<open>None\<close> is an event no sequence of fingers produces.\<close>

fun track :: "wire_msg \<Rightarrow> u64 set \<Rightarrow> u64 set option" where
  "track (W_InjectTouch a pid x y w h p ab b) F =
     (if a = ACTION_DOWN then (if pid \<in> F then None else Some (insert pid F))
      else if a = ACTION_MOVE then (if pid \<in> F then Some F else None)
      else if a = ACTION_UP \<or> a = ACTION_CANCEL then (if pid \<in> F then Some (F - {pid}) else None)
      else None)"
| "track _ F = Some F"

fun track_all :: "wire_msg list \<Rightarrow> u64 set \<Rightarrow> u64 set option" where
  "track_all [] F = Some F"
| "track_all (m # ms) F = (case track m F of None \<Rightarrow> None | Some F' \<Rightarrow> track_all ms F')"

lemma track_append: "track_all ms F = Some G \<Longrightarrow> track_all (ms @ ns) F = track_all ns G"
  by (induction ms arbitrary: F) (auto split: option.splits)

lemma wire_touch [simp]:
  "wire_of (touch_msg a pid x y p s) = W_InjectTouch a pid x y (hs_screen_w s) (hs_screen_h s) (touch_pressure p) 0 0"
  by (simp add: touch_msg_def)

lemma track_moves:
  "\<forall>t \<in> set ts. \<exists>pid x y p. t = (ACTION_MOVE, pid, x, y, p) \<and> pid \<in> F \<Longrightarrow> track_all (map (wire_of \<circ> touch_at s) ts) F = Some F"
  by (induction ts) auto

definition pointer :: "nat \<Rightarrow> u64" where
  "pointer i = word_of_nat i"

lemma pointer_notin:
  assumes "i < 10" "\<And>j. j \<in> S \<Longrightarrow> j < 10 \<and> j \<noteq> i"
  shows "pointer i \<notin> pointer ` S"
proof
  assume "pointer i \<in> pointer ` S"
  then obtain j where "j \<in> S" "unat (pointer i) = unat (pointer j)"
    by auto
  moreover have "unat (pointer k) = k" if "k < 10" for k
    using that by (simp add: pointer_def unat_of_nat)
  ultimately show False
    using assms by metis
qed

lemma track_downs:
  assumes "i + length ps \<le> 10" "F \<inter> pointer ` {i..<i + length ps} = {}"
  shows "track_all (map (wire_of \<circ> touch_at s) (map (\<lambda>(i, x, y). (ACTION_DOWN, pointer i, x, y, p)) (enumerate i ps))) F =
    Some (F \<union> pointer ` {i..<i + length ps})"
  using assms
proof (induction ps arbitrary: i F)
  case (Cons xy ps)
  let ?F = "insert (pointer i) F"
  have "pointer i \<notin> pointer ` {i + 1..<i + 1 + length ps}"
    using Cons.prems(1) by (intro pointer_notin) auto
  moreover have "pointer ` {i + 1..<i + 1 + length ps} \<subseteq> pointer ` {i..<i + length (xy # ps)}"
    by (rule image_mono) auto
  ultimately have "?F \<inter> pointer ` {i + 1..<i + 1 + length ps} = {}"
    using Cons.prems(2) by blast
  moreover have "{i..<i + length (xy # ps)} = insert i {i + 1..<i + 1 + length ps}"
    by auto
  then have "?F \<union> pointer ` {i + 1..<i + 1 + length ps} = F \<union> pointer ` {i..<i + length (xy # ps)}"
    by simp
  moreover have "pointer i \<notin> F"
    using Cons.prems(2) by auto
  ultimately show ?case
    using Cons.IH [of "i + 1" ?F] Cons.prems(1) by (simp add: split_beta)
qed simp

lemma track_ups:
  assumes "n \<le> 10" "i \<le> n" "F \<inter> pointer ` {i..<n} = {}"
  shows "track_all (map (wire_of \<circ> touch_at s) (map (\<lambda>i. (ACTION_UP, pointer i, 0, 0, p)) [i..<n])) (F \<union> pointer ` {i..<n}) = Some F"
  using assms(2,3)
proof (induction "n - i" arbitrary: i)
  case (Suc k)
  then have less: "i < n"
    by simp
  then have int: "{i..<n} = insert i {i + 1..<n}"
    by auto
  have "pointer i \<notin> pointer ` {i + 1..<n}"
    using less assms(1) by (intro pointer_notin) auto
  then have "F \<union> pointer ` {i..<n} - {pointer i} = F \<union> pointer ` {i + 1..<n}"
    using Suc.prems(2) unfolding int by auto
  then show ?case
    using Suc.hyps(1) [of "i + 1"] Suc.hyps(2) Suc.prems less by (simp add: upt_conv_Cons int)
qed simp

definition gesture_pointers :: "gesture \<Rightarrow> u64 set" where
  \<comment> \<open>whatever the screen\<close>
  "gesture_pointers g = (\<lambda>(a, pid, x, y, p). pid) ` set (gesture_path 0 0 g)"

lemma line_path_moves: "t \<in> set (line_path pid src dst n) \<Longrightarrow> \<exists>x y p. t = (ACTION_MOVE, pid, x, y, p)"
  by (auto simp: line_path_def Let_def split_beta)

lemma pinch_path_moves: "t \<in> set (pinch_path cx cy r0 r1 n) \<Longrightarrow> \<exists>pid x y p. t = (ACTION_MOVE, pid, x, y, p) \<and> (pid = 0 \<or> pid = 1)"
  by (auto simp: pinch_path_def Let_def)

lemma screenshot_balanced:
  assumes "0 \<notin> F" "1 \<notin> F" "2 \<notin> F"
  shows "track_all (map (wire_of \<circ> touch_at s) (screenshot_path w h)) F = Some F"
proof -
  let ?F = "insert 2 (insert 1 (insert 0 F))"
  let ?col = "\<lambda>i. word_of_int (uint w div 4 * (int i + 1)) :: i32"
  let ?moves = "concat (map (\<lambda>step. map (\<lambda>i. (ACTION_MOVE, word_of_nat i :: u64, ?col i,
      word_of_int (uint h div 4 + uint h div 2 * int step div 10) :: i32, Fin 1)) [0..<3]) [1..<11])"
  have three: "[0..<3] = [0, 1, 2 :: nat]"
    by (simp add: upt_rec)
  have "track_all (map (wire_of \<circ> touch_at s) ?moves) ?F = Some ?F"
    by (rule track_moves) (auto simp: three)
  moreover have "?F - {0} - {1} - {2} = F"
    using assms by auto
  ultimately show ?thesis
    using assms by (simp add: screenshot_path_def Let_def track_append three del: upt_Suc)
qed

lemma gesture_balanced:
  assumes "gesture_ok g" "F \<inter> gesture_pointers g = {}"
  shows "track_all (map (wire_of \<circ> touch_at s) (gesture_path w h g)) F = Some F"
proof -
  have line: "track_all (map (wire_of \<circ> touch_at s) ((ACTION_DOWN, pid, x, y, p) # line_path pid src dst n @ [(ACTION_UP, pid, x', y', p')])) F
      = Some F" if "pid \<notin> F" for pid x y p src dst n x' y' p'
  proof -
    have "track_all (map (wire_of \<circ> touch_at s) (line_path pid src dst n)) (insert pid F) = Some (insert pid F)"
      using line_path_moves by (intro track_moves) blast
    then show ?thesis
      using that by (simp add: track_append)
  qed
  show ?thesis
  proof (cases g)
    case (G_Pinch cx cy r0 r1 n)
    have "track_all (map (wire_of \<circ> touch_at s) (pinch_path cx cy r0 r1 n)) (insert 1 (insert 0 F)) = Some (insert 1 (insert 0 F))"
      by (intro track_moves) (use pinch_path_moves in blast)
    moreover have "0 \<notin> F" "1 \<notin> F"
      using assms(2) by (auto simp: gesture_pointers_def G_Pinch)
    ultimately show ?thesis
      by (auto simp: G_Pinch track_append)
  next
    case (G_MultiTap ps)
    let ?P = "pointer ` {0..<length ps}"
    have "?P \<subseteq> gesture_pointers g"
      by (force simp: gesture_pointers_def G_MultiTap pointer_def)
    then have F: "F \<inter> ?P = {}"
      using assms(2) by blast
    have len: "length ps \<le> 10"
      using assms(1) by (simp add: G_MultiTap)
    have path: "gesture_path w h g = map (\<lambda>(i, x, y). (ACTION_DOWN, pointer i, x, y, Fin 1)) (enumerate 0 ps) @
        map (\<lambda>i. (ACTION_UP, pointer i, 0, 0, Fin 0)) [0..<length ps]"
      by (simp add: G_MultiTap pointer_def)
    show ?thesis
      unfolding path map_append
      using track_downs [of 0 ps F s] track_ups [of "length ps" 0 F s] len F by (simp only: track_append add_0)
  next
    case G_Screenshot
    have "{0, 1, 2} \<subseteq> gesture_pointers g"
      by (auto simp: gesture_pointers_def G_Screenshot screenshot_path_def Let_def upt_rec)
    then show ?thesis
      using assms(2) screenshot_balanced [of F] by (simp add: G_Screenshot) blast
  qed (use assms(2) line in \<open>auto simp: gesture_pointers_def\<close>)
qed

section \<open>Straight lines in binary32\<close>

definition between :: "int \<Rightarrow> int \<Rightarrow> int \<Rightarrow> bool" where
  "between a b v \<longleftrightarrow> min a b \<le> v \<and> v \<le> max a b"

definition exact_coord :: "i32 \<Rightarrow> bool" where
  \<comment> \<open>coordinates whose differences binary32 holds exactly\<close>
  "exact_coord x \<longleftrightarrow> \<bar>sint x\<bar> \<le> 2 ^ 22"

lemma f32_round_int_exact: "\<bar>i\<bar> < 2 ^ 24 \<Longrightarrow> f32_round (of_int i) = Fin (of_int i)"
  by (rule f32_round_representable [OF representable_int])

lemma step_fraction_unit:
  assumes "i \<le> unat n" "0 < unat n" "unat n < 2 ^ 24"
  shows "\<exists>q. step_fraction i n = Fin q \<and> 0 \<le> q \<and> q \<le> 1"
proof -
  have "int (unat n) < int (2 ^ 24)"
    using assms(3) by (simp only: of_nat_less_iff)
  then have "uint n < 2 ^ 24"
    by simp
  then have n: "u32_as_f32 n = Fin (of_int (int (unat n)))"
    using f32_round_int_exact [of "uint n"] by (simp add: u32_as_f32_def)
  have "uint (word_of_nat i :: u32) = int i"
    using assms(1,3) by (simp add: uint_nat unat_of_nat)
  then have i: "u32_as_f32 (word_of_nat i) = Fin (of_int (int i))"
    using assms(1,3) f32_round_int_exact [of "int i"] by (simp add: u32_as_f32_def)
  have "0 \<le> (of_int (int i) / of_int (int k) :: rat) \<and> of_int (int i) / of_int (int k) \<le> (1 :: rat)" if "i \<le> k" for k
    using that by (simp add: divide_simps)
  moreover have "representable 0" "representable 1"
    using representable_int [of 0] representable_int [of 1] by simp_all
  ultimately have "\<exists>v. f32_round (of_int (int i) / of_int (int (unat n))) = Fin v \<and> 0 \<le> v \<and> v \<le> 1"
    using f32_round_between assms(1) by blast
  then show ?thesis
    by (simp add: step_fraction_def n i)
qed

lemma sint_diff_exact:
  assumes "exact_coord a" "exact_coord b"
  shows "sint (b - a) = sint b - sint a"
proof -
  have "sint (b - a) = signed_take_bit 31 (sint b - sint a)"
    by (simp add: sint_word_ariths)
  then show ?thesis
    using assms by (simp add: signed_take_bit_int_eq_self exact_coord_def)
qed

lemma rat_round_between:
  assumes "of_int lo \<le> v" "v \<le> of_int hi"
  shows "lo \<le> rat_round v" "rat_round v \<le> hi"
proof -
  have "lo \<le> \<lfloor>v + 1 / 2\<rfloor> \<and> \<lfloor>v + 1 / 2\<rfloor> \<le> hi"
    using assms by (simp add: le_floor_iff floor_le_iff)
  moreover have "lo \<le> \<lceil>v - 1 / 2\<rceil> \<and> \<lceil>v - 1 / 2\<rceil> \<le> hi"
    using assms by (simp add: ceiling_le_iff le_ceiling_iff)
  ultimately show "lo \<le> rat_round v" "rat_round v \<le> hi"
    by (simp_all add: rat_round_def)
qed

lemma lerp_between:
  assumes "exact_coord a" "exact_coord b" "0 \<le> q" "q \<le> 1"
  shows "between (sint a) (sint b) (sint (lerp a b (Fin q)))"
proof -
  define x y d where "x = (of_int (sint a) :: rat)" and "y = (of_int (sint b) :: rat)" and "d = y - x"
  have rep: "representable x" "representable y" "representable d" "representable 0"
    using assms(1,2) representable_int [of "sint a"] representable_int [of "sint b"]
      representable_int [of "sint b - sint a"] representable_int [of 0]
    by (simp_all add: x_def y_def d_def exact_coord_def)
  have fa: "i32_as_f32 a = Fin x" "i32_as_f32 (b - a) = Fin d"
    using f32_round_representable [OF rep(1)] f32_round_representable [OF rep(3)] sint_diff_exact [OF assms(1,2)]
    by (simp_all add: i32_as_f32_def x_def y_def d_def)
  obtain m where m: "f32_round (d * q) = Fin m" "min 0 d \<le> m" "m \<le> max 0 d"
  proof (cases "0 \<le> d")
    case True
    then have "0 \<le> d * q" "d * q \<le> d"
      using assms(3,4) by (simp_all add: mult_left_le)
    from f32_round_between [OF rep(4,3) this] show ?thesis
      using that True by auto
  next
    case False
    then have "d \<le> d * q" "d * q \<le> 0"
      using assms(3,4) by (simp_all add: mult_le_cancel_left2 mult_nonpos_nonneg)
    from f32_round_between [OF rep(3,4) this] show ?thesis
      using that False by auto
  qed
  obtain v where v: "f32_round (x + m) = Fin v" "min x y \<le> v" "v \<le> max x y"
  proof (cases "0 \<le> d")
    case True
    then show ?thesis
      using f32_round_between [OF rep(1,2), of "x + m"] m that by (auto simp: d_def)
  next
    case False
    then show ?thesis
      using f32_round_between [OF rep(2,1), of "x + m"] m that by (auto simp: d_def)
  qed
  let ?r = "rat_round v"
  have "of_int (min (sint a) (sint b)) \<le> v" "v \<le> of_int (max (sint a) (sint b))"
    using v(2,3) by (simp_all add: x_def y_def of_int_min of_int_max)
  then have r: "min (sint a) (sint b) \<le> ?r" "?r \<le> max (sint a) (sint b)"
    by (rule rat_round_between)+
  then have "\<bar>?r\<bar> \<le> 2 ^ 22"
    using assms(1,2) unfolding exact_coord_def by linarith
  moreover have "lerp a b (Fin q) = word_of_int (max (- (2 ^ 31)) (min (2 ^ 31 - 1) ?r))"
    by (simp add: lerp_def fa m(1) v(1) f32_as_i32_def)
  ultimately have "sint (lerp a b (Fin q)) = ?r"
    by (simp add: sint_sbintrunc' signed_take_bit_int_eq_self)
  then show ?thesis
    using r by (simp add: between_def)
qed

lemma line_in_box:
  assumes "exact_coord (fst src)" "exact_coord (snd src)" "exact_coord (fst dst)" "exact_coord (snd dst)"
    and "unat n < 2 ^ 24" "(a, pid, x, y, p) \<in> set (line_path q src dst n)"
  shows "between (sint (fst src)) (sint (fst dst)) (sint x) \<and> between (sint (snd src)) (sint (snd dst)) (sint y)"
proof -
  consider "x = fst dst" "y = snd dst"
    | i where "i < unat (max n 2)" "x = lerp (fst src) (fst dst) (step_fraction i (max n 2))"
      "y = lerp (snd src) (snd dst) (step_fraction i (max n 2))"
    using assms(6) by (auto simp: line_path_def Let_def split_beta)
  then show ?thesis
  proof cases
    case 1
    then show ?thesis
      by (simp add: between_def)
  next
    case (2 i)
    have "unat (max n 2) < 2 ^ 24"
      using assms(5) by (simp add: max_def)
    then obtain t where "step_fraction i (max n 2) = Fin t" "0 \<le> t" "t \<le> 1"
      using step_fraction_unit [of i "max n 2"] 2(1) by auto
    then show ?thesis
      using 2 lerp_between assms(1-4) by simp
  qed
qed

section \<open>Properties\<close>

text \<open>
  C12 (functional). On a transport that does not fail, every gesture of a session (tap, double tap, long
  press, swipe, drag, pinch, multi-finger tap of two to ten fingers, three-finger screenshot) succeeds,
  appends exactly its path (for the screenshot, the path on the session's screen) to the stream, and leaves no finger behind: a peer that tracks pointers, starting with any pointers
  down that the gesture does not use, accepts every event (no second DOWN, no MOVE or UP of a pointer
  that is up) and ends with the same pointers down.
\<close>

theorem gestures_complete:
  assumes "reliable_transport ops wire" "gesture_ok g" "sound s" "F \<inter> gesture_pointers g = {}"
  shows "\<exists>s'. gesture_exec ops g s = (Inr (), s') \<and>
    stream wire s' = stream wire s @
      concat (map msg_bytes (map (touch_at s) (gesture_path (hs_screen_w s) (hs_screen_h s) g))) \<and>
    track_all (map (wire_of \<circ> touch_at s) (gesture_path (hs_screen_w s) (hs_screen_h s) g)) F = Some F"
  using reliable_transport.gesture_sends [OF assms(1-3)] gesture_balanced [OF assms(2,4)] by blast

theorem gestures_complete_witness:
  "let s = fresh_session (mock_ops 0) mock_new request_none
   in \<exists>s'. gesture_exec (mock_ops 0) G_Screenshot s = (Inr (), s') \<and>
     track_all (map (wire_of \<circ> touch_at s) (gesture_path (hs_screen_w s) (hs_screen_h s) G_Screenshot)) {7} = Some {7}"
proof -
  let ?s = "fresh_session (mock_ops 0) mock_new request_none"
  have "sound ?s"
    by (simp add: fresh_session_def request_none_def sound_def with_limits_def mock_ops_def)
  moreover have "{7} \<inter> gesture_pointers G_Screenshot = {}"
    by (auto simp: gesture_pointers_def screenshot_path_def Let_def upt_rec)
  ultimately show ?thesis
    using gestures_complete [OF reliable_mock.reliable_transport_axioms, of G_Screenshot ?s "{7}" 0]
    unfolding Let_def by auto
qed

fun touch_in_box :: "i32 \<times> i32 \<Rightarrow> i32 \<times> i32 \<Rightarrow> touch \<Rightarrow> bool" where
  "touch_in_box (x0, y0) (x1, y1) (a, pid, x, y, p) \<longleftrightarrow>
     between (sint x0) (sint x1) (sint x) \<and> between (sint y0) (sint y1) (sint y)"

lemma swipe_path_in_box:
  assumes "exact_coord x0" "exact_coord y0" "exact_coord x1" "exact_coord y1" "unat n < 2 ^ 24"
  shows "list_all (touch_in_box (x0, y0) (x1, y1)) (gesture_path w h (G_Swipe q (x0, y0) (x1, y1) n))"
proof -
  have "touch_in_box (x0, y0) (x1, y1) t" if t: "t \<in> set (line_path q (x0, y0) (x1, y1) n)" for t
    using line_in_box [of "(x0, y0)" "(x1, y1)" n _ _ _ _ _ q] assms t by (cases t) auto
  then show ?thesis
    by (auto simp: list_all_iff between_def)
qed

text \<open>
  C13 (bounds). A swipe stays on its line: although the intermediate points are computed in binary32
  and rounded four times, every touch event \<open>swipe_pointer\<close> sends lies in the box spanned by the two end
  points, it begins with a press exactly on the start and ends with a move to and a release exactly on
  the target, for coordinates up to \<open>2 ^ 22\<close> in absolute value and fewer than \<open>2 ^ 24\<close> steps.
\<close>

theorem swipe_in_box:
  assumes "reliable_transport ops wire" "sound s"
    and "exact_coord x0" "exact_coord y0" "exact_coord x1" "exact_coord y1" "unat n < 2 ^ 24"
  shows "\<exists>s' moves. let path = [(ACTION_DOWN, q, x0, y0, Fin 1)] @ moves @
        [(ACTION_MOVE, q, x1, y1, Fin 1), (ACTION_UP, q, x1, y1, Fin 0)]
    in swipe_pointer ops q (x0, y0) (x1, y1) n s = (Inr (), s') \<and>
      stream wire s' = stream wire s @ concat (map (msg_bytes \<circ> touch_at s) path) \<and>
      list_all (touch_in_box (x0, y0) (x1, y1)) path"
proof -
  let ?g = "G_Swipe q (x0, y0) (x1, y1) n"
  let ?path = "gesture_path (hs_screen_w s) (hs_screen_h s) ?g"
  obtain moves where path: "?path = [(ACTION_DOWN, q, x0, y0, Fin 1)] @ moves @
      [(ACTION_MOVE, q, x1, y1, Fin 1), (ACTION_UP, q, x1, y1, Fin 0)]"
    by (simp add: line_path_def Let_def)
  obtain s' where s': "swipe_pointer ops q (x0, y0) (x1, y1) n s = (Inr (), s')"
    "stream wire s' = stream wire s @ concat (map msg_bytes (map (touch_at s) ?path))"
    using reliable_transport.gesture_sends [OF assms(1) _ assms(2), of ?g] by auto
  show ?thesis
    by (rule exI [of _ s'], rule exI [of _ moves], unfold Let_def)
      (use s' swipe_path_in_box [OF assms(3-), of "hs_screen_w s" "hs_screen_h s" q] in \<open>simp only: path map_map simp_thms\<close>)
qed

theorem swipe_in_box_witness:
  "\<exists>s' moves. let path = [(ACTION_DOWN, 0, 10, 20, Fin 1)] @ moves @
        [(ACTION_MOVE, 0, 300, 7, Fin 1), (ACTION_UP, 0, 300, 7, Fin 0)];
      s = fresh_session (mock_ops 0) mock_new request_none
    in swipe_pointer (mock_ops 0) 0 (10, 20) (300, 7) 5 s = (Inr (), s') \<and>
      list_all (touch_in_box (10, 20) (300, 7)) path"
proof -
  have "sound (fresh_session (mock_ops 0) mock_new request_none)"
    by (simp add: fresh_session_def request_none_def sound_def with_limits_def mock_ops_def)
  moreover have "exact_coord 10" "exact_coord 20" "exact_coord 300" "exact_coord 7" "unat (5 :: u32) < 2 ^ 24"
    by (simp_all add: exact_coord_def)
  ultimately show ?thesis
    using swipe_in_box [OF reliable_mock.reliable_transport_axioms, of _ 10 20 300 7 5 0 0] unfolding Let_def by blast
qed

end
