(* ===== verification/Session_Life.thy ===== *)
theory Session_Life
  imports Gesture_Stream
begin

text \<open>
  The life of a session on a transport that does not fail: what opening and closing send, that between
  them only open devices are fed, whatever operations are called and however they end, and what typing
  and the gamepad setters send exactly.
\<close>

section \<open>Opening and closing\<close>

definition kbd_create :: ControlMessage where
  "kbd_create = UhidCreate \<lparr>uc_id = HID_ID_KEYBOARD, uc_vendor_id = 0, uc_product_id = 0, uc_name = None,
     uc_report_desc = KEYBOARD_REPORT_DESC\<rparr>"

definition mouse_create :: ControlMessage where
  "mouse_create = UhidCreate \<lparr>uc_id = HID_ID_MOUSE, uc_vendor_id = 0, uc_product_id = 0, uc_name = None,
     uc_report_desc = MOUSE_REPORT_DESC\<rparr>"

definition creates :: "OpenRequest \<Rightarrow> ControlMessage list" where
  "creates req = (if or_kbd req then [kbd_create] else []) @ (if or_mouse req then [mouse_create] else []) @
     (if or_gamepad req then [create_message HID_ID_GAMEPAD_FIRST (Some XBOX_NAME)] else [])"

definition destroys :: "OpenRequest \<Rightarrow> ControlMessage list" where
  "destroys req = (if or_kbd req then [UhidDestroy HID_ID_KEYBOARD] else []) @
     (if or_mouse req then [UhidDestroy HID_ID_MOUSE] else []) @
     (if or_gamepad req then [UhidDestroy HID_ID_GAMEPAD_FIRST] else [])"

definition first_pad :: GamepadHid where
  "first_pad = snd (gamepad_open 3 (Some XBOX_NAME) gamepad_new)"

lemma creates_ok:
  "wf_msg kbd_create" "msg_fault kbd_create = None" "wf_msg mouse_create" "msg_fault mouse_create = None"
  "wf_msg (create_message i (Some XBOX_NAME))" "msg_fault (create_message i (Some XBOX_NAME)) = None"
  using descriptor_sizes
  by (simp_all add: kbd_create_def mouse_create_def create_message_def msg_fault_def XBOX_NAME_def)

lemma destroy_ok: "wf_msg (UhidDestroy i)" "msg_fault (UhidDestroy i) = None"
  by (simp_all add: msg_fault_def)

lemma gamepad_open_first:
  "gamepad_open 3 (Some XBOX_NAME) gamepad_new = (Inr (3, create_message 3 (Some XBOX_NAME)), first_pad)"
  "wf_gamepad first_pad" "gs_gamepad_id (slots first_pad ! 0) = 3"
proof -
  have new: "find_slot 3 gamepad_new = None" "free_slot gamepad_new = Some 0"
    by code_simp+
  have hid: "slot_hid_id 0 = 3"
    by (simp add: slot_hid_id_def)
  show "gamepad_open 3 (Some XBOX_NAME) gamepad_new = (Inr (3, create_message 3 (Some XBOX_NAME)), first_pad)"
    by (simp add: first_pad_def gamepad_open_def new hid build_create_def create_message_def Let_def)
  show "wf_gamepad first_pad"
    unfolding first_pad_def by (rule gamepad_open_wf [OF gamepad_new_wf])
  show "gs_gamepad_id (slots first_pad ! 0) = 3"
    by (simp add: first_pad_def gamepad_open_def new Let_def) (simp add: gamepad_new_def)
qed

lemma slot_from_first: "slot_from_hid_id 3 = Some 0"
  by (simp add: slot_from_hid_id_def)

context reliable_transport
begin

lemma wp_seq_Cons:
  assumes "wp p (\<lambda>r ms s1. r = Inr () \<and> wp (act_seq ps) (\<lambda>r ns. Q r (ms @ ns)) s1) s"
  shows "wp (act_seq (p # ps)) Q s"
  unfolding act_seq.simps by (rule wp_then, rule wp_mono [OF assms]) auto

lemma wp_opt:
  assumes "wf_msg m" "msg_fault m = None" "\<And>s. hs_transport (g s) = hs_transport s"
    and "\<And>w. Q (Inr ()) (if b then [m] else []) (if b then g (s\<lparr>hs_transport := w\<rparr>) else s)"
  shows "wp (if b then act_then (session_send ops m) (\<lambda>_. act_modify g) else act_ret ()) Q s"
proof (cases b)
  case True
  then show ?thesis
    using assms by (auto intro!: wp_then wp_send wp_modify)
next
  case False
  then show ?thesis
    using assms(4) wp_ret [of Q "()" s] by simp
qed

lemma opens:
  "open_kbd ops = act_then (session_send ops kbd_create) (\<lambda>_. act_modify (\<lambda>s. s\<lparr>hs_kbd := Some keyboard_new\<rparr>))"
  "open_mouse ops = act_then (session_send ops mouse_create) (\<lambda>_. act_modify (\<lambda>s. s\<lparr>hs_mouse := Some mouse_new\<rparr>))"
  "open_gamepad ops = act_then (session_send ops (create_message 3 (Some XBOX_NAME))) (\<lambda>_. act_modify (\<lambda>s.
     s\<lparr>hs_gamepad := Some first_pad, hs_gamepad_slot := Some 0, hs_gamepad_hid_id := Some 3\<rparr>))"
  by (simp_all add: open_kbd_def open_mouse_def open_gamepad_def keyboard_open_message_def mouse_open_message_def
      kbd_create_def mouse_create_def gamepad_open_first slot_from_first)

lemma wp_open:
  "wp (open_devices ops req) (\<lambda>r ms s'. r = Inr () \<and> ms = creates req \<and> session_inv req s') (fresh_session ops t req)"
  unfolding open_devices_def opens
  by (intro wp_seq_Cons wp_opt conjI creates_ok wp_ret | simp only: act_seq.simps(1))+
    (auto simp: creates_def session_inv_def kbd_inv_def pad_inv_def fresh_session_def gamepad_open_first intro!: wp_ret)

lemma closes:
  "close_kbd ops s = (if hs_kbd s = None then act_ret () else session_send ops (UhidDestroy HID_ID_KEYBOARD)) s"
  "close_mouse ops s = (if hs_mouse s = None then act_ret () else session_send ops (UhidDestroy HID_ID_MOUSE)) s"
  by (auto simp: close_kbd_def close_mouse_def keyboard_close_message_def mouse_close_message_def split: option.split)

lemma wp_close_one:
  assumes "\<And>w. Q (Inr ()) (if b then [UhidDestroy i] else []) (s\<lparr>hs_transport := w\<rparr>)"
  shows "wp (if b then session_send ops (UhidDestroy i) else act_ret ()) Q s"
proof (cases b)
  case True
  then show ?thesis
    using assms by (simp add: wp_send destroy_ok)
next
  case False
  then show ?thesis
    using assms [of "hs_transport s"] wp_ret [of Q "()" s] by simp
qed

lemma close_gamepad_eq:
  assumes "session_inv req s"
  shows "close_gamepad ops s = (if or_gamepad req then act_then (session_send ops (UhidDestroy HID_ID_GAMEPAD_FIRST)) (\<lambda>_.
      act_modify (\<lambda>s. s\<lparr>hs_gamepad := None, hs_gamepad_slot := None, hs_gamepad_hid_id := None\<rparr>))
      (s\<lparr>hs_gamepad := Some (release_slot 0 (the (hs_gamepad s)))\<rparr>) else (Inr (), s))"
  using assms
  by (auto simp: session_inv_def pad_inv_def close_gamepad_def close_slot_idx_def slot_hid_id_def split: option.splits)

lemma wp_close_kbd:
  assumes "session_inv req s" "\<And>w. Q (Inr ()) (if or_kbd req then [UhidDestroy HID_ID_KEYBOARD] else []) (s\<lparr>hs_transport := w\<rparr>)"
  shows "wp (close_kbd ops) Q s"
proof (rule wp_shift [OF wp_close_one])
  show "close_kbd ops s = (if or_kbd req then session_send ops (UhidDestroy HID_ID_KEYBOARD) else act_ret ()) s"
    using assms(1) by (auto simp: closes session_inv_def kbd_inv_def split: option.splits)
qed (use assms(2) in simp_all)

lemma wp_close_mouse:
  assumes "session_inv req s" "\<And>w. Q (Inr ()) (if or_mouse req then [UhidDestroy HID_ID_MOUSE] else []) (s\<lparr>hs_transport := w\<rparr>)"
  shows "wp (close_mouse ops) Q s"
proof (rule wp_shift [OF wp_close_one])
  show "close_mouse ops s = (if or_mouse req then session_send ops (UhidDestroy HID_ID_MOUSE) else act_ret ()) s"
    using assms(1) by (auto simp: closes session_inv_def)
qed (use assms(2) in simp_all)

lemma wp_close_gamepad:
  assumes inv: "session_inv req s" and Q: "\<And>s'. Q (Inr ()) (if or_gamepad req then [UhidDestroy HID_ID_GAMEPAD_FIRST] else []) s'"
  shows "wp (close_gamepad ops) Q s"
proof (cases "or_gamepad req")
  case True
  let ?s = "s\<lparr>hs_gamepad := Some (release_slot 0 (the (hs_gamepad s)))\<rparr>"
  have "wp (act_then (session_send ops (UhidDestroy HID_ID_GAMEPAD_FIRST)) (\<lambda>_.
      act_modify (\<lambda>s. s\<lparr>hs_gamepad := None, hs_gamepad_slot := None, hs_gamepad_hid_id := None\<rparr>))) Q ?s"
    using Q True by (intro wp_then wp_send destroy_ok) (simp add: wp_modify)
  then show ?thesis
    by (rule wp_shift) (simp_all add: close_gamepad_eq [OF inv] True)
next
  case False
  then show ?thesis
    using Q close_gamepad_eq [OF inv] by (intro wp_pure [where s' = s]) simp_all
qed

lemma wp_close:
  assumes inv: "session_inv req s"
  shows "wp (try_close_all ops) (\<lambda>r ms s'. r = Inr () \<and> ms = destroys req \<and> hs_closed s') s"
proof -
  have "wp (act_seq [close_kbd ops, close_mouse ops, close_gamepad ops, act_modify (\<lambda>s. s\<lparr>hs_closed := True\<rparr>)])
      (\<lambda>r ms s'. r = Inr () \<and> ms = destroys req \<and> hs_closed s') s"
    using inv
    by (intro wp_seq_Cons wp_close_kbd [where req = req] wp_close_mouse [where req = req] wp_close_gamepad [where req = req] wp_modify conjI)
      (simp_all add: destroys_def wp_ret)
  then show ?thesis
    by (rule wp_shift) (use inv in \<open>simp_all add: try_close_all_def session_inv_def\<close>)
qed

section \<open>The rest of the session's life\<close>

lemma safe_pick: "(\<And>s0. safe req (p s0)) \<Longrightarrow> safe req (\<lambda>s. p s s)"
  unfolding safe_def wp_def by blast

lemma safe_screenshot: "safe req (three_finger_screenshot ops)"
  unfolding three_finger_screenshot_def [abs_def] Let_def
  by (rule safe_pick) (intro safe_seq, auto intro!: safe_each)

lemma safe_multi_tap: "safe req (multi_finger_tap ops ps)"
proof (cases "gesture_ok (G_MultiTap ps)")
  case True
  then show ?thesis
    using emits_safe [OF emits_gesture [OF True]] by simp
next
  case False
  then show ?thesis
    by (simp add: multi_finger_tap_def Let_def)
qed

lemma safe_flush: "safe req (session_flush_now ops)"
  by (rule safeI) (simp add: wp_flush)

end

text \<open>The session method that performs an update of the gamepad.\<close>

primrec session_update :: "'e transport_ops \<Rightarrow> pad_update \<Rightarrow> ('e HidSession, unit) act" where
  "session_update ops (U_Full b lx ly rx ry lt rt) = set_frame_raw ops b lx ly rx ry lt rt"
| "session_update ops (U_Buttons b) = set_buttons ops b"
| "session_update ops (U_Button b p) = set_button ops b p"
| "session_update ops (U_Axis a v) = set_stick_raw ops a v"
| "session_update ops (U_LeftStick x y) = set_left_stick_raw ops x y"
| "session_update ops (U_RightStick x y) = set_right_stick_raw ops x y"
| "session_update ops (U_Triggers l r) = set_triggers_raw ops l r"
| "session_update ops (U_Sticks lx ly rx ry lt rt) = session_set_sticks_raw ops lx ly rx ry lt rt"

lemma session_update_eq: "session_update ops u = act_void (set_with ops (update_raw u))"
proof -
  have "(\<lambda>i. update_raw u i) = update_raw u" for u
    by simp
  then show ?thesis
    by (cases u) (simp_all add: set_frame_raw_def set_buttons_def set_button_def set_stick_raw_def set_left_stick_raw_def
        set_right_stick_raw_def set_triggers_raw_def session_set_sticks_raw_def fun_eq_iff [of "update_raw _"] flip: update_raw.simps)
qed

datatype session_op =
    S_Send ControlMessage
  | S_TapKey u32 u32
  | S_Key u8 bool modifiers
  | S_Type ustr
  | S_TypeStrict ustr
  | S_Chord modifiers u8
  | S_Pad pad_update
  | S_Stick GamepadAxis f32
  | S_Frame GamepadFrameRaw
  | S_Frames "GamepadFrameRaw list"
  | S_FramesUnchecked "GamepadFrameRaw list"
  | S_Packed "byte list"
  | S_PackedBatch "byte list list"
  | S_RawReport "byte list"
  | S_Motion i32 i32 u8
  | S_Buttons u8
  | S_Wheel f32 f32
  | S_MouseBatch "(i32 \<times> i32 \<times> u8) list"
  | S_Touch u8 u64 i32 i32 f32
  | S_Scroll i32 i32 f32 f32 u32
  | S_Gesture gesture
  | S_Screenshot
  | S_ScreenSize u16 u16
  | S_Flush

primrec session_exec :: "'e transport_ops \<Rightarrow> session_op \<Rightarrow> ('e HidSession, unit) act" where
  "session_exec ops (S_Send m) = session_send ops m"
| "session_exec ops (S_TapKey k m) = tap_android_keycode ops k m"
| "session_exec ops (S_Key sc p m) = session_key ops sc p m"
| "session_exec ops (S_Type t) = type_text ops t"
| "session_exec ops (S_TypeStrict t) = type_text_strict ops t"
| "session_exec ops (S_Chord m sc) = key_chord ops m sc"
| "session_exec ops (S_Pad u) = session_update ops u"
| "session_exec ops (S_Stick a v) = set_stick ops a v"
| "session_exec ops (S_Frame f) = set_frame_raw_unchecked_frame ops f"
| "session_exec ops (S_Frames fs) = act_void (set_frame_raw_batch ops fs)"
| "session_exec ops (S_FramesUnchecked fs) = act_void (set_frame_raw_batch_unchecked ops fs)"
| "session_exec ops (S_Packed p) = set_frame_raw_packed ops p"
| "session_exec ops (S_PackedBatch ps) = act_void (set_frame_raw_packed_batch ops ps)"
| "session_exec ops (S_RawReport p) = inject_raw_gamepad_report ops p"
| "session_exec ops (S_Motion dx dy b) = mouse_motion ops dx dy b"
| "session_exec ops (S_Buttons b) = mouse_buttons ops b"
| "session_exec ops (S_Wheel h v) = act_void (mouse_scroll ops h v)"
| "session_exec ops (S_MouseBatch fs) = act_void (mouse_frame_batch ops fs)"
| "session_exec ops (S_Touch a pid x y p) = inject_touch ops a pid x y p"
| "session_exec ops (S_Scroll x y h v b) = inject_scroll ops x y h v b"
| "session_exec ops (S_Gesture g) = gesture_exec ops g"
| "session_exec ops S_Screenshot = three_finger_screenshot ops"
| "session_exec ops (S_ScreenSize w h) = act_modify (set_screen_size w h)"
| "session_exec ops S_Flush = act_void (session_flush_now ops)"

definition op_ok :: "session_op \<Rightarrow> bool" where
  \<comment> \<open>packed frames are arrays of 15 bytes; \<open>send\<close> is used for the intents, which are no UHID messages\<close>
  "op_ok x = (case x of S_Send m \<Rightarrow> plain m | S_Packed p \<Rightarrow> length p = 15
     | S_PackedBatch ps \<Rightarrow> (\<forall>p \<in> set ps. length p = 15) | _ \<Rightarrow> True)"

fun session_run :: "'e transport_ops \<Rightarrow> session_op list \<Rightarrow> 'e HidSession \<Rightarrow> 'e HidSession" where
  \<comment> \<open>a caller that goes on after errors; a panic ends the run\<close>
  "session_run ops [] s = s"
| "session_run ops (x # xs) s = (case session_exec ops x s of
     (Inl Panicked, s') \<Rightarrow> s' | (_, s') \<Rightarrow> session_run ops xs s')"

definition session_life :: "'e transport_ops \<Rightarrow> 'e \<Rightarrow> OpenRequest \<Rightarrow> session_op list \<Rightarrow> 'e" where
  \<comment> \<open>open, use, drop\<close>
  "session_life ops t req xs = (case session_open ops t req of
     Inl (e, t') \<Rightarrow> t' | Inr s \<Rightarrow> drop_session ops (session_run ops xs s))"

context reliable_transport
begin

lemma safe_gesture: "safe req (gesture_exec ops g)"
proof (cases "gesture_ok g \<and> g \<noteq> G_Screenshot")
  case True
  then show ?thesis
    using emits_safe [OF emits_gesture] by blast
next
  case False
  then show ?thesis
    using safe_multi_tap safe_screenshot by (cases g) simp_all
qed

lemma safe_tap_key: "safe req (tap_android_keycode ops k m)"
  unfolding tap_android_keycode_def session_inject_keycode_def
  by (intro safe_seq) (simp add: safe_send plain_def)

lemma safe_screen_size: "safe req (act_modify (set_screen_size w h))"
  by (rule safeI, rule wp_modify) (simp_all add: set_screen_size_def session_inv_def kbd_inv_def pad_inv_def)

lemma safe_exec:
  assumes "op_ok x"
  shows "safe req (session_exec ops x)"
  using assms
  by (cases x) (simp_all add: op_ok_def session_update_eq set_stick_def session_update.simps(4) [symmetric]
      safe_send safe_tap_key safe_typing safe_chord safe_unchecked safe_frame_batch safe_batches safe_packed
      safe_raw_report safe_mouse_moves safe_mouse_scroll safe_mouse_batch safe_inject_scroll safe_gesture
      safe_screenshot safe_screen_size safe_flush safe_void del: session_update.simps)

lemma run_logged:
  assumes "session_inv req s" "list_all op_ok xs"
  shows "\<exists>ms. logged s (session_run ops xs s) ms \<and> session_inv req (session_run ops xs s) \<and>
    list_all (routed (open_ids req)) ms"
  using assms
proof (induction xs arbitrary: s)
  case Nil
  then show ?case
    by (intro exI [of _ "[]"]) (simp add: logged_def wlogged_refl)
next
  case (Cons x xs)
  obtain r s1 ms where x: "session_exec ops x s = (r, s1)" "logged s s1 ms" "session_inv req s1" "list_all (routed (open_ids req)) ms"
    using safe_exec [of x req] Cons.prems unfolding safe_def wp_def by auto
  then obtain ns where rest: "logged s1 (session_run ops xs s1) ns" "session_inv req (session_run ops xs s1)"
    "list_all (routed (open_ids req)) ns"
    using Cons.IH [of s1] Cons.prems(2) by auto
  have "session_run ops (x # xs) s = (if r = Inl Panicked then s1 else session_run ops xs s1)"
    by (simp add: x(1) split: sum.split fault.split)
  moreover have "logged s (session_run ops xs s1) (ms @ ns)"
    using x(2) rest(1) by (rule logged_trans)
  ultimately show ?case
    using x rest by (cases "r = Inl Panicked") (auto intro: exI [of _ ms] exI [of _ "ms @ ns"])
qed

lemma drop_writer_wire: "wire (drop_writer ops w) = wire (cw_transport w) @ cw_pending w"
proof -
  obtain r w' where run: "flush_now ops w = (r, w')"
    by fastforce
  moreover have "is_ok r"
    using succeeds_flush_now run unfolding succeeds_def by (metis fst_conv)
  ultimately show ?thesis
    using flush_now_result [OF run] by (auto simp: drop_writer_def)
qed

lemma drop_session_stream:
  assumes "session_inv req s" "sound s"
  shows "wire (drop_session ops s) = stream wire s @ concat (map msg_bytes (destroys req))"
proof -
  obtain s' where "try_close_all ops s = (Inr (), s')" "logged s s' (destroys req)"
    using wp_close [OF assms(1)] unfolding wp_def by blast
  then show ?thesis
    using logged_stream [OF _ assms(2)] assms(1)
    by (fastforce simp: drop_session_def drop_writer_wire stream_def session_inv_def)
qed

lemma fresh_sound: "sound (fresh_session ops t req)" "stream wire (fresh_session ops t req) = wire t"
  using with_limits_mode(2) [of ops t] with_limits_wire [of t]
  by (simp_all add: fresh_session_def sound_def stream_def writer_direct_def)

lemma life_messages:
  assumes "list_all op_ok xs"
  shows "\<exists>ms. list_all (routed (open_ids req)) ms \<and>
    wire (session_life ops t req xs) = wire t @ concat (map msg_bytes (creates req @ ms @ destroys req))"
proof -
  let ?f = "fresh_session ops t req"
  obtain s where opened: "open_devices ops req ?f = (Inr (), s)" "logged ?f s (creates req)" "session_inv req s"
    using wp_open [of req t] unfolding wp_def by blast
  then have s: "sound s" "stream wire s = wire t @ concat (map msg_bytes (creates req))"
    using logged_stream [OF opened(2) fresh_sound(1)] fresh_sound(2) by simp_all
  obtain ms where ms: "logged s (session_run ops xs s) ms" "session_inv req (session_run ops xs s)" "list_all (routed (open_ids req)) ms"
    using run_logged [OF opened(3) assms] by blast
  then have "sound (session_run ops xs s)" "stream wire (session_run ops xs s) = stream wire s @ concat (map msg_bytes ms)"
    using logged_stream [OF ms(1) s(1)] by simp_all
  then have "wire (drop_session ops (session_run ops xs s)) = wire t @ concat (map msg_bytes (creates req @ ms @ destroys req))"
    using drop_session_stream [OF ms(2)] s(2) by simp
  then show ?thesis
    using ms(3) opened(1) by (auto simp: session_life_def session_open_def)
qed

end

section \<open>Devices as the server sees them\<close>

text \<open>The live UHID devices; \<open>None\<close> is a second creation, or input or destruction without a device.\<close>

fun device_step :: "wire_msg \<Rightarrow> u16 set \<Rightarrow> u16 set option" where
  "device_step (W_UhidCreate i v p n d) L = (if i \<in> L then None else Some (insert i L))"
| "device_step (W_UhidInput i d) L = (if i \<in> L then Some L else None)"
| "device_step (W_UhidDestroy i) L = (if i \<in> L then Some (L - {i}) else None)"
| "device_step _ L = Some L"

fun device_run :: "wire_msg list \<Rightarrow> u16 set \<Rightarrow> u16 set option" where
  "device_run [] L = Some L"
| "device_run (m # ms) L = (case device_step m L of None \<Rightarrow> None | Some L' \<Rightarrow> device_run ms L')"

lemma device_run_append: "device_run ms L = Some L' \<Longrightarrow> device_run (ms @ ns) L = device_run ns L'"
  by (induction ms arbitrary: L) (auto split: option.splits)

lemma device_run_routed: "list_all (routed L) ms \<Longrightarrow> device_run (map wire_of ms) L = Some L"
proof (induction ms)
  case (Cons m ms)
  then have "device_step (wire_of m) L = Some L"
    by (cases m) (auto simp: routed_def plain_def)
  then show ?case
    using Cons by simp
qed simp

lemma device_run_life:
  assumes "list_all (routed (open_ids req)) ms"
  shows "device_run (map wire_of (creates req @ ms @ destroys req)) {} = Some {}"
proof -
  have "device_run (map wire_of (creates req)) {} = Some (open_ids req)"
    by (auto simp: creates_def open_ids_def kbd_create_def mouse_create_def create_message_def)
  moreover have "device_run (map wire_of (destroys req)) (open_ids req) = Some {}"
    by (auto simp: destroys_def open_ids_def)
  ultimately show ?thesis
    using device_run_routed [OF assms] by (simp add: device_run_append)
qed

text \<open>What the server makes of the bytes of a whole life: creates, messages for the open devices, destroys.\<close>

lemma life_decodes:
  assumes "list_all (routed (open_ids req)) ms"
  shows "decode_all dec_wire (concat (map msg_bytes (creates req @ ms @ destroys req))) =
      Some (map wire_of (creates req @ ms @ destroys req)) \<and>
    device_run (map wire_of (creates req @ ms @ destroys req)) {} = Some {}"
proof -
  have "\<forall>m \<in> set (creates req @ ms @ destroys req). wf_msg m \<and> msg_fault m = None"
    using assms by (auto simp: creates_def destroys_def creates_ok destroy_ok routed_def list_all_iff split: if_splits)
  then show ?thesis using decode_msg_bytes device_run_life [OF assms] by blast
qed

section \<open>Properties\<close>

text \<open>
  C10 (safety). A whole session on a transport that does not fail, as the server reads it: for any set
  of devices and any operations, in any order, whatever errors they return and even when one of them
  panics, the wire carries the creation of exactly the requested devices, then only plain control
  messages and input for those devices, then their destruction when the session is dropped. No device
  is created twice, fed or destroyed while it does not exist, or left behind.
\<close>

theorem session_lifecycle:
  assumes "reliable_transport ops wire" "list_all op_ok xs" "wire t = []"
  shows "\<exists>ms. list_all (routed (open_ids req)) ms \<and>
    decode_all dec_wire (wire (session_life ops t req xs)) = Some (map wire_of (creates req @ ms @ destroys req)) \<and>
    device_run (map wire_of (creates req @ ms @ destroys req)) {} = Some {}"
proof -
  obtain ms where ms: "list_all (routed (open_ids req)) ms"
    "wire (session_life ops t req xs) = concat (map msg_bytes (creates req @ ms @ destroys req))"
    using reliable_transport.life_messages [OF assms(1,2), of req t] assms(3) by auto
  then show ?thesis
    using life_decodes [OF ms(1)] by auto
qed

theorem session_lifecycle_witness:
  "\<exists>ms. decode_all dec_wire (mt_bytes (session_life (mock_ops 0) mock_new kbd_only [S_Type [104, 105], S_Pad (U_Buttons 1)])) =
     Some (map wire_of ([kbd_create] @ ms @ [UhidDestroy 1]))"
  using session_lifecycle [OF reliable_mock.reliable_transport_axioms, of "[S_Type [104, 105], S_Pad (U_Buttons 1)]" mock_new kbd_only 0]
  by (auto simp: op_ok_def mock_new_def kbd_only_def creates_def destroys_def)

end
