(* ===== verification/Session_Input.thy ===== *)
theory Session_Input
  imports Session_Life
begin

text \<open>
  What typing, chords and the gamepad setters of a session send, on a transport that does not fail. The
  host's side of typing is \<open>render\<close>: it compares successive keyboard reports and prints what a US layout
  shows for every newly pressed key.
\<close>

section \<open>Keys\<close>

fun render :: "nat set \<Rightarrow> byte list list \<Rightarrow> nat list" where
  "render held [] = []"
| "render held (r # rs) =
     (let ks = filter (\<lambda>k. k \<noteq> 0) (drop 2 r)
      in List.map_filter (\<lambda>k. us_layout k (r ! 0)) (filter (\<lambda>k. unat k \<notin> held) ks) @ render (unat ` set ks) rs)"

definition key_reports :: "nat \<Rightarrow> byte list list" where
  \<comment> \<open>press and release of the key of a character\<close>
  "key_reports c = (case try_from_char c of
     (None, _) \<Rightarrow> [] | (Some sc, m) \<Rightarrow> [report_spec m [unat (to_u8 sc)], report_spec m []])"

definition idle_keyboard :: "'e HidSession \<Rightarrow> bool" where
  "idle_keyboard s = (case hs_kbd s of None \<Rightarrow> False | Some k \<Rightarrow> wf_keyboard k \<and> held_set k = {})"

lemma render_key_reports:
  "render {} (concat (map key_reports cs)) = filter supported_char cs"
proof (induction cs)
  case (Cons c cs)
  show ?case
  proof (cases "try_from_char c")
    case (Pair x m)
    show ?thesis
    proof (cases x)
      case None
      then show ?thesis
        using Cons Pair try_from_char_cases [of c] by (simp add: key_reports_def)
    next
      case (Some sc)
      have lay: "us_layout (to_u8 sc) m = Some c" and "supported_char c"
        using try_from_char_cases [of c] Pair Some by simp_all
      have "to_u8 sc \<noteq> 0"
        using lay by (auto simp: us_layout_def)
      then show ?thesis
        using Cons Pair Some lay \<open>supported_char c\<close>
        by (simp add: key_reports_def report_spec_def Let_def map_filter_simps numeral_eq_Suc)
    qed
  qed
qed simp

context reliable_transport
begin

lemma wp_key:
  assumes "hs_kbd s = Some k" "wf_keyboard k" "valid_scancode sc"
    and Q: "\<And>k' w. wf_keyboard k' \<Longrightarrow> held_set k' = track_key sc pressed (held_set k) \<Longrightarrow>
      Q (Inr ()) [input_of HID_ID_KEYBOARD (report_spec m (sorted_list_of_set (track_key sc pressed (held_set k))))]
        (s\<lparr>hs_kbd := Some k', hs_transport := w\<rparr>)"
  shows "wp (session_key ops sc pressed m) Q s"
proof -
  obtain k' where k': "key_event sc pressed m k =
      (Inr (input_of HID_ID_KEYBOARD (report_spec m (sorted_list_of_set (track_key sc pressed (held_set k))))), k')"
    "wf_keyboard k'" "held_set k' = track_key sc pressed (held_set k)"
    using key_event_refines [OF assms(2), of sc pressed m] assms(3) by auto
  have "wp (session_send ops (input_of HID_ID_KEYBOARD (report_spec m (sorted_list_of_set (track_key sc pressed (held_set k))))))
      Q (s\<lparr>hs_kbd := Some k'\<rparr>)"
    using Q [OF k'(2,3)] by (intro wp_send) simp_all
  then show ?thesis
    by (rule wp_shift) (simp_all add: session_key_def assms(1) k'(1))
qed

lemma wp_press_release:
  assumes "idle_keyboard s" "sc \<le> 0x65"
    and Q: "\<And>s'. idle_keyboard s' \<Longrightarrow>
      Q (Inr ()) (map (input_of HID_ID_KEYBOARD) [report_spec m [unat sc], report_spec m []]) s'"
  shows "wp (act_seq [session_key ops sc True m, session_key ops sc False m]) Q s"
proof -
  obtain k where k: "hs_kbd s = Some k" "wf_keyboard k" "held_set k = {}"
    using assms(1) by (auto simp: idle_keyboard_def split: option.splits)
  have valid: "valid_scancode sc"
    using assms(2) by (simp add: valid_scancode_def)
  show ?thesis
    by (intro wp_seq_Cons wp_key [OF k(1,2) valid] conjI refl wp_key [OF _ _ valid])
      (use assms(2) Q in \<open>auto simp: track_key_def k(3) idle_keyboard_def intro!: wp_ret\<close>)
qed

lemma wp_each_Cons:
  assumes "wp (f x) (\<lambda>r ms s1. r = Inr () \<and> wp (act_each f xs) (\<lambda>r ns. Q r (ms @ ns)) s1) s"
  shows "wp (act_each f (x # xs)) Q s"
  unfolding act_each.simps by (rule wp_then, rule wp_mono [OF assms]) auto

lemma wp_guard:
  assumes "wp p Q s" "\<And>r ms s'. Q r ms s' \<Longrightarrow> \<exists>x. r = Inr x"
  shows "wp (act_on_error p c) Q s"
proof -
  obtain x s' ms where "p s = (Inr x, s')" "logged s s' ms" "Q (Inr x) ms s'"
    using assms unfolding wp_def by metis
  then show ?thesis
    unfolding wp_def act_on_error_def by auto
qed

lemma wp_char:
  assumes "idle_keyboard s" "supported_char c"
    and Q: "\<And>s'. idle_keyboard s' \<Longrightarrow> Q (Inr ()) (map (input_of HID_ID_KEYBOARD) (key_reports c)) s'"
  shows "wp (type_char ops no c) Q s"
proof -
  obtain sc m where c: "try_from_char c = (Some sc, m)"
    using assms(2) try_from_char_some_iff by blast
  show ?thesis
    using Q unfolding type_char_def c prod.case option.case
    by (intro wp_press_release [OF assms(1) try_from_char_bound [OF c]]) (simp add: key_reports_def c)
qed

lemma unsupported_char:
  assumes "\<not> supported_char c"
  shows "type_char ops no c = no" "key_reports c = []"
  using assms try_from_char_cases [of c] by (auto simp: type_char_def key_reports_def split: prod.splits option.splits)

lemma wp_type_text:
  "idle_keyboard s \<Longrightarrow> wp (type_text ops cs) (\<lambda>r ms s'. r = Inr () \<and> idle_keyboard s' \<and>
     ms = map (input_of HID_ID_KEYBOARD) (concat (map key_reports cs))) s"
  unfolding type_text_def
proof (induction cs arbitrary: s)
  case Nil
  then show ?case
    by (simp add: wp_ret del: act_simps)
next
  case (Cons c cs)
  show ?case
  proof (cases "supported_char c")
    case True
    then show ?thesis
      using Cons by (intro wp_each_Cons wp_char conjI refl) (auto elim: wp_mono)
  next
    case False
    then show ?thesis
      using Cons by (intro wp_each_Cons) (auto simp: unsupported_char simp del: act_simps intro!: wp_ret elim: wp_mono)
  qed
qed

lemma wp_type_strict:
  "idle_keyboard s \<Longrightarrow> wp (type_text_strict ops cs) (\<lambda>r ms s'. idle_keyboard s' \<and>
     r = (if list_all supported_char cs then Inr () else Inl (lifecycle ''unsupported char in type_text_strict'')) \<and>
     ms = map (input_of HID_ID_KEYBOARD) (concat (map key_reports (takeWhile supported_char cs)))) s"
  unfolding type_text_strict_def
proof (induction cs arbitrary: s)
  case Nil
  then show ?case
    by (simp add: wp_ret del: act_simps)
next
  case (Cons c cs)
  show ?case
  proof (cases "supported_char c")
    case True
    then show ?thesis
      using Cons by (intro wp_each_Cons wp_char conjI refl) (auto elim: wp_mono)
  next
    case False
    then show ?thesis
      using Cons.prems by (auto simp: unsupported_char simp del: act_simps intro!: wp_then wp_fail)
  qed
qed

lemma wp_release:
  assumes "hs_kbd s = Some k" "wf_keyboard k" "held_set k \<subseteq> {unat sc}" "sc \<le> 0x65"
    and Q: "\<And>s'. idle_keyboard s' \<Longrightarrow> Q (Inr ()) [input_of HID_ID_KEYBOARD (report_spec m [])] s'"
  shows "wp (session_key ops sc False m) Q s"
proof (rule wp_key [OF assms(1,2)])
  have held: "track_key sc False (held_set k) = {}"
    using assms(3,4) by (auto simp: track_key_def)
  show "valid_scancode sc"
    using assms(4) by (simp add: valid_scancode_def)
  show "Q (Inr ()) [input_of HID_ID_KEYBOARD (report_spec m (sorted_list_of_set (track_key sc False (held_set k))))]
      (s\<lparr>hs_kbd := Some k', hs_transport := w\<rparr>)" if "wf_keyboard k'" "held_set k' = track_key sc False (held_set k)" for k' w
    using that Q unfolding held by (simp add: idle_keyboard_def)
qed

lemma wp_chord:
  assumes "idle_keyboard s" "sc \<le> 0x65"
  shows "wp (key_chord ops m sc) (\<lambda>r ms s'. r = Inr () \<and> idle_keyboard s' \<and>
    ms = map (input_of HID_ID_KEYBOARD) [report_spec m [unat sc], report_spec m [], report_spec 0 []]) s"
proof -
  let ?i = "input_of HID_ID_KEYBOARD"
  obtain k where k: "hs_kbd s = Some k" "wf_keyboard k" "held_set k = {}"
    using assms(1) by (auto simp: idle_keyboard_def split: option.splits)
  have last: "wp (act_seq [session_key ops sc False mod_empty]) (\<lambda>r ns s'. r = Inr () \<and> idle_keyboard s' \<and> ns = [?i (report_spec 0 [])]) s1"
    if idle: "idle_keyboard s1" for s1 :: "'e HidSession"
  proof -
    obtain k1 where "hs_kbd s1 = Some k1" "wf_keyboard k1" "held_set k1 = {}"
      using idle by (auto simp: idle_keyboard_def split: option.splits)
    then show ?thesis
      using assms(2) by (intro wp_seq_Cons wp_release [of s1 k1 sc]) (auto intro: wp_ret)
  qed
  have mid: "wp (act_seq [session_key ops sc False m, session_key ops sc False mod_empty])
      (\<lambda>r ns s'. r = Inr () \<and> idle_keyboard s' \<and> ns = [?i (report_spec m []), ?i (report_spec 0 [])]) s1"
    if "hs_kbd s1 = Some k1" "wf_keyboard k1" "held_set k1 = {unat sc}" for s1 :: "'e HidSession" and k1
    using that assms(2) by (intro wp_seq_Cons wp_release [of s1 k1 sc] conjI refl wp_mono [OF last]) auto
  have "wp (act_seq [session_key ops sc True m, session_key ops sc False m, session_key ops sc False mod_empty])
     (\<lambda>r ms s'. r = Inr () \<and> idle_keyboard s' \<and> ms = map ?i [report_spec m [unat sc], report_spec m [], report_spec 0 []]) s"
    using assms(2) k(3)
    by (intro wp_seq_Cons [of "session_key ops sc True m"] wp_key [OF k(1,2)] conjI refl wp_mono [OF mid])
      (auto simp: track_key_def valid_scancode_def)
  then show ?thesis
    unfolding key_chord_def by (rule wp_guard) auto
qed

section \<open>Gamepad\<close>

lemma wp_updates:
  assumes "gamepad_with_cached_slot s = Inr (i, g)" "i < length (slots g)" "pad_run us i g = (ps, g')"
  shows "wp (act_each (session_update ops) us) (\<lambda>r ms s'. r = Inr () \<and> ms = map (input_of (slot_hid_id i)) ps \<and>
    gamepad_with_cached_slot s' = Inr (i, g') \<and> (us \<noteq> [] \<longrightarrow> hs_gamepad s' = Some g')) s"
  using assms
proof (induction us arbitrary: s g ps)
  case Nil
  then show ?case
    by (auto intro: wp_ret simp del: act_simps)
next
  case (Cons u us)
  obtain ps1 g1 where one: "pad_run [u] i g = (ps1, g1)"
    by fastforce
  then have g1: "g1 = g\<lparr>slots := (slots g)[i := apply_update u (slots g ! i)]\<rparr>"
    by (simp add: Let_def)
  obtain ps2 where rest: "pad_run us i g1 = (ps2, g')" and ps: "ps = ps1 @ ps2"
    using Cons.prems(3) one by (auto simp: Let_def split: prod.splits if_splits)
  have s1: "gamepad_with_cached_slot (s\<lparr>hs_gamepad := Some g1, hs_transport := w\<rparr>) = Inr (i, g1)" for w
    using Cons.prems(1) by (simp add: gamepad_with_cached_slot_def split: if_splits option.splits)
  have "wp (act_each (session_update ops) us) (\<lambda>r ns s'. r = Inr () \<and> map (input_of (slot_hid_id i)) ps1 @ ns = map (input_of (slot_hid_id i)) ps \<and>
      gamepad_with_cached_slot s' = Inr (i, g') \<and> hs_gamepad s' = Some g') (s\<lparr>hs_gamepad := Some g1, hs_transport := w\<rparr>)" for w
  proof (rule wp_mono [OF Cons.IH [OF s1 _ rest]])
    show "i < length (slots g1)"
      using Cons.prems(2) by (simp add: g1)
  qed (auto simp: ps gamepad_with_cached_slot_def split: if_splits option.splits)
  then show ?case
    unfolding session_update_eq
    by (intro wp_each_Cons wp_void wp_set_with [OF Cons.prems(1,2) one]) (simp add: session_update_eq)
qed

end

section \<open>Properties\<close>

text \<open>
  C11 (functional). Typing arrives. With an open, idle keyboard on a transport that does not fail,
  \<open>type_text\<close> succeeds and sends keyboard reports that a host with a US layout renders as exactly the
  supported characters of the text, in order; \<open>type_text_strict\<close> types up to the first unsupported
  character and then fails if there is one. Either way no key stays pressed.
\<close>

theorem typing_renders:
  assumes "reliable_transport ops wire" "sound s" "idle_keyboard s"
  shows "(\<exists>s' reports. type_text ops cs s = (Inr (), s') \<and> idle_keyboard s' \<and>
      stream wire s' = stream wire s @ concat (map (msg_bytes \<circ> input_of HID_ID_KEYBOARD) reports) \<and>
      render {} reports = filter supported_char cs) \<and>
    (\<exists>s' reports. type_text_strict ops cs s = (if list_all supported_char cs then Inr ()
        else Inl (lifecycle ''unsupported char in type_text_strict''), s') \<and> idle_keyboard s' \<and>
      stream wire s' = stream wire s @ concat (map (msg_bytes \<circ> input_of HID_ID_KEYBOARD) reports) \<and>
      render {} reports = takeWhile supported_char cs)"
proof (intro conjI)
  obtain s' where "type_text ops cs s = (Inr (), s')" "idle_keyboard s'"
    "reliable_transport.logged wire s s' (map (input_of HID_ID_KEYBOARD) (concat (map key_reports cs)))"
    using reliable_transport.wp_type_text [OF assms(1,3), of cs] unfolding reliable_transport.wp_def [OF assms(1)] by blast
  then show "\<exists>s' reports. type_text ops cs s = (Inr (), s') \<and> idle_keyboard s' \<and>
      stream wire s' = stream wire s @ concat (map (msg_bytes \<circ> input_of HID_ID_KEYBOARD) reports) \<and>
      render {} reports = filter supported_char cs"
    using reliable_transport.logged_stream [OF assms(1) _ assms(2)] render_key_reports [of cs] by fastforce
next
  let ?good = "takeWhile supported_char cs"
  obtain s' where "type_text_strict ops cs s = (if list_all supported_char cs then Inr ()
        else Inl (lifecycle ''unsupported char in type_text_strict''), s')" "idle_keyboard s'"
    "reliable_transport.logged wire s s' (map (input_of HID_ID_KEYBOARD) (concat (map key_reports ?good)))"
    using reliable_transport.wp_type_strict [OF assms(1,3), of cs] unfolding reliable_transport.wp_def [OF assms(1)] by blast
  moreover have "filter supported_char ?good = ?good"
    by (induction cs) simp_all
  ultimately show "\<exists>s' reports. type_text_strict ops cs s = (if list_all supported_char cs then Inr ()
        else Inl (lifecycle ''unsupported char in type_text_strict''), s') \<and> idle_keyboard s' \<and>
      stream wire s' = stream wire s @ concat (map (msg_bytes \<circ> input_of HID_ID_KEYBOARD) reports) \<and>
      render {} reports = ?good"
    using reliable_transport.logged_stream [OF assms(1) _ assms(2)] render_key_reports [of ?good] by fastforce
qed

definition kbd_session :: "MockTransport HidSession" where
  "kbd_session = (fresh_session (mock_ops 0) mock_new kbd_only)\<lparr>hs_kbd := Some keyboard_new\<rparr>"

lemma kbd_session_ok: "sound kbd_session" "idle_keyboard kbd_session"
  by (simp_all add: kbd_session_def fresh_session_def kbd_only_def sound_def idle_keyboard_def with_limits_def mock_ops_def)

theorem typing_renders_witness:
  "\<exists>s' reports. type_text (mock_ops 0) [72, 228, 105] kbd_session = (Inr (), s') \<and> render {} reports = [72, 105]"
proof -
  have "filter supported_char [72, 228, 105] = [72, 105]"
    by (simp add: supported_char_def)
  then show ?thesis
    using typing_renders [OF reliable_mock.reliable_transport_axioms kbd_session_ok, of 0 "[72, 228, 105]"] by auto
qed

text \<open>
  A key chord on an idle keyboard sends exactly three reports: the key with the
  modifiers held, the modifiers alone, and a report with no key and no modifier, so that nothing stays
  pressed; a scancode outside the boot range is rejected before anything is sent, and the guard's
  release of it adds nothing.
\<close>

theorem chord_reports:
  assumes "reliable_transport ops wire" "sound s" "idle_keyboard s"
  shows "(sc \<le> 0x65 \<longrightarrow> (\<exists>s'. key_chord ops m sc s = (Inr (), s') \<and> idle_keyboard s' \<and>
      stream wire s' = stream wire s @ concat (map (msg_bytes \<circ> input_of HID_ID_KEYBOARD)
        [report_spec m [unat sc], report_spec m [], report_spec 0 []]))) \<and>
    (\<not> valid_scancode sc \<longrightarrow> key_chord ops m sc s = (Inl (Err (ScancodeOutOfRange (ucast sc))), s))"
proof (intro conjI impI)
  assume "sc \<le> 0x65"
  then obtain s' where "key_chord ops m sc s = (Inr (), s')" "idle_keyboard s'" "reliable_transport.logged wire s s'
      (map (input_of HID_ID_KEYBOARD) [report_spec m [unat sc], report_spec m [], report_spec 0 []])"
    using reliable_transport.wp_chord [OF assms(1,3), of sc m] unfolding reliable_transport.wp_def [OF assms(1)] by blast
  then show "\<exists>s'. key_chord ops m sc s = (Inr (), s') \<and> idle_keyboard s' \<and>
      stream wire s' = stream wire s @ concat (map (msg_bytes \<circ> input_of HID_ID_KEYBOARD)
        [report_spec m [unat sc], report_spec m [], report_spec 0 []])"
    using reliable_transport.logged_stream [OF assms(1) _ assms(2)] by fastforce
next
  assume bad: "\<not> valid_scancode sc"
  obtain k where k: "hs_kbd s = Some k" "wf_keyboard k"
    using assms(3) by (auto simp: idle_keyboard_def split: option.splits)
  have "session_key ops sc p m' s = (Inl (Err (ScancodeOutOfRange (ucast sc))), s)" for p m'
    using key_event_refines [OF k(2), of sc p m'] bad k(1) by (simp add: session_key_def)
  then show "key_chord ops m sc s = (Inl (Err (ScancodeOutOfRange (ucast sc))), s)"
    by (simp add: key_chord_def act_on_error_def act_ignore_def)
qed

theorem chord_reports_witness:
  "\<exists>s'. key_chord (mock_ops 0) LCTRL 0x06 kbd_session = (Inr (), s') \<and>
     stream mt_bytes s' = stream mt_bytes kbd_session @ concat (map (msg_bytes \<circ> input_of HID_ID_KEYBOARD)
       [report_spec 1 [6], report_spec 1 [], report_spec 0 []])"
  using chord_reports [OF reliable_mock.reliable_transport_axioms kbd_session_ok, of "0x06" 0 LCTRL] by auto

text \<open>
  Sending gamepad frames as a batch is the same as sending them one by one: on a
  transport that does not fail the same bytes are handed over, the driver ends in the same state, and
  the number returned is the number of reports, one per frame that changed the state; unchanged frames
  are dropped in both.
\<close>

theorem frame_batch_equiv:
  assumes "reliable_transport ops wire" "sound s" "gamepad_with_cached_slot s = Inr (i, g)" "i < length (slots g)" "fs \<noteq> []"
  shows "\<exists>s1 s2. set_frame_raw_batch ops fs s = (Inr (length (fst (pad_run (map frame_update fs) i g))), s1) \<and>
    act_each (\<lambda>f. set_frame_raw ops (gf_buttons f) (gf_left_x f) (gf_left_y f) (gf_right_x f) (gf_right_y f)
      (gf_left_trigger f) (gf_right_trigger f)) fs s = (Inr (), s2) \<and>
    stream wire s1 = stream wire s2 \<and> hs_gamepad s1 = hs_gamepad s2"
proof -
  obtain ps g' where run: "pad_run (map frame_update fs) i g = (ps, g')"
    by fastforce
  let ?ms = "map (input_of (slot_hid_id i)) ps"
  have "reliable_transport.wp wire (set_frame_raw_batch ops fs)
      (\<lambda>r ms s'. r = Inr (length ps) \<and> ms = ?ms \<and> hs_gamepad s' = Some g') s"
    by (rule reliable_transport.wp_frame_batch [OF assms(1,3,4) run assms(5)]) simp
  then obtain s1 where s1: "set_frame_raw_batch ops fs s = (Inr (length ps), s1)" "hs_gamepad s1 = Some g'"
    "reliable_transport.logged wire s s1 ?ms"
    unfolding reliable_transport.wp_def [OF assms(1)] by blast
  obtain s2 where s2: "act_each (session_update ops) (map frame_update fs) s = (Inr (), s2)" "hs_gamepad s2 = Some g'"
    "reliable_transport.logged wire s s2 ?ms"
    using reliable_transport.wp_updates [OF assms(1,3,4) run] assms(5)
    unfolding reliable_transport.wp_def [OF assms(1)] by auto
  have "act_each (\<lambda>f. set_frame_raw ops (gf_buttons f) (gf_left_x f) (gf_left_y f) (gf_right_x f) (gf_right_y f)
      (gf_left_trigger f) (gf_right_trigger f)) fs' = act_each (session_update ops) (map frame_update fs')" for fs'
    by (induction fs') (simp_all add: frame_update_def del: act_simps)
  then show ?thesis
    using s1 s2 run reliable_transport.logged_stream [OF assms(1) _ assms(2)] by auto
qed

lemma first_pad_idle: "gs_buttons (slots first_pad ! 0) = 0"
proof -
  have "find_slot 3 gamepad_new = None" "free_slot gamepad_new = Some 0"
    by code_simp+
  then show ?thesis
    by (simp add: first_pad_def gamepad_open_def Let_def) (simp add: gamepad_new_def)
qed

theorem frame_batch_equiv_witness:
  "\<exists>s1. set_frame_raw_batch (mock_ops 0)
       [\<lparr>gf_buttons = 1, gf_left_x = 0, gf_left_y = 0, gf_right_x = 0, gf_right_y = 0, gf_left_trigger = 0, gf_right_trigger = 0\<rparr>,
        \<lparr>gf_buttons = 1, gf_left_x = 0, gf_left_y = 0, gf_right_x = 0, gf_right_y = 0, gf_left_trigger = 0, gf_right_trigger = 0\<rparr>]
       ((fresh_session (mock_ops 0) mock_new gamepad_only_realtime)\<lparr>hs_gamepad := Some first_pad, hs_gamepad_slot := Some 0,
         hs_gamepad_hid_id := Some 3\<rparr>) = (Inr 1, s1)"
proof -
  let ?f = "\<lparr>gf_buttons = 1, gf_left_x = 0, gf_left_y = 0, gf_right_x = 0, gf_right_y = 0, gf_left_trigger = 0, gf_right_trigger = 0\<rparr>"
  let ?s = "(fresh_session (mock_ops 0) mock_new gamepad_only_realtime)\<lparr>hs_gamepad := Some first_pad, hs_gamepad_slot := Some 0,
         hs_gamepad_hid_id := Some 3\<rparr>"
  have bit: "1 AND BUTTONS_ALL_MASK \<noteq> (0 :: u32)"
    by code_simp
  have "sound ?s" "gamepad_with_cached_slot ?s = Inr (0, first_pad)"
    by (simp_all add: fresh_session_def gamepad_only_realtime_def sound_def gamepad_with_cached_slot_def writer_direct_def with_limits_def mock_ops_def)
  moreover have "0 < length (slots first_pad)"
    using gamepad_open_first(2) by (simp add: wf_gamepad_def)
  moreover from this have "length (fst (pad_run (map frame_update [?f, ?f]) 0 first_pad)) = 1"
    using arg_cong [of "apply_update (frame_update ?f) (slots first_pad ! 0)" "slots first_pad ! 0" gs_buttons] first_pad_idle
    by (cases "slots first_pad ! 0") (auto simp: frame_update_def Let_def bit)
  ultimately show ?thesis
    using frame_batch_equiv [OF reliable_mock.reliable_transport_axioms, of ?s 0 first_pad "[?f, ?f]" 0] by auto
qed

end
