(* ===== verification/Multitouch_Track.thy ===== *)
theory Multitouch_Track
  imports Gesture_Stream
begin

text \<open>
  The multi-touch handle of \<^verbatim>\<open>src/src/multitouch.rs\<close> against its specification: the set of pressed
  pointers, the error of every rejected call and the touches of every accepted one. The results for a
  transport that does not fail also say what a peer that tracks pointers sees; those for an arbitrary
  transport say what a failed call leaves behind.
\<close>

section \<open>Specification\<close>

datatype handle_op =
    H_Down u64 i32 i32 f32
  | H_Move u64 i32 i32 f32
  | H_Up u64
  | H_Cancel u64
  | H_Pinch "u64 \<times> i32 \<times> i32 \<times> i32 \<times> i32" "u64 \<times> i32 \<times> i32 \<times> i32 \<times> i32" u32
  | H_ReleaseAll

primrec handle_exec :: "'e transport_ops \<Rightarrow> handle_op \<Rightarrow> ('e MultitouchHandle, unit) act" where
  "handle_exec ops (H_Down i x y p) = mt_down ops i x y p"
| "handle_exec ops (H_Move i x y p) = mt_move_to ops i x y p"
| "handle_exec ops (H_Up i) = mt_up ops i"
| "handle_exec ops (H_Cancel i) = mt_cancel ops i"
| "handle_exec ops (H_Pinch p0 p1 n) = mt_pinch ops p0 p1 n"
| "handle_exec ops H_ReleaseAll = mt_release_all ops"

definition need_id :: "u64 \<Rightarrow> error option" where
  "need_id i = (if 10 \<le> i then Some (PointerIdOutOfRange i 9) else None)"

definition need_down :: "u64 \<Rightarrow> u64 set \<Rightarrow> error option" where
  "need_down i F = (if i \<in> F then None else Some (PointerNotActive i))"

definition need_up :: "u64 \<Rightarrow> u64 set \<Rightarrow> error option" where
  "need_up i F = (if i \<in> F then Some (PointerAlreadyDown i) else None)"

fun first_error :: "error option list \<Rightarrow> error option" where
  "first_error [] = None"
| "first_error (Some e # es) = Some e"
| "first_error (None # es) = first_error es"

lemma first_error_one [simp]: "first_error [x] = x"
  by (cases x) simp_all

primrec handle_error :: "handle_op \<Rightarrow> u64 set \<Rightarrow> error option" where
  "handle_error (H_Down i x y p) F = first_error [need_id i, need_up i F]"
| "handle_error (H_Move i x y p) F = first_error [need_id i, need_down i F]"
| "handle_error (H_Up i) F = first_error [need_id i, need_down i F]"
| "handle_error (H_Cancel i) F = first_error [need_id i, need_down i F]"
| "handle_error (H_Pinch p0 p1 n) F =
     first_error [need_id (fst p0), need_id (fst p1), need_down (fst p0) F, need_down (fst p1) F]"
| "handle_error H_ReleaseAll F = None"

definition pinch_touches :: "u64 \<times> i32 \<times> i32 \<times> i32 \<times> i32 \<Rightarrow> u64 \<times> i32 \<times> i32 \<times> i32 \<times> i32 \<Rightarrow> u32 \<Rightarrow> touch list" where
  "pinch_touches p0 p1 steps =
     (case p0 of (id0, xa, ya, xb, yb) \<Rightarrow> case p1 of (id1, xc, yc, xd, yd) \<Rightarrow>
        concat (map (\<lambda>i. let t = step_fraction i steps in
          [(ACTION_MOVE, id0, lerp xa xb t, lerp ya yb t, Fin 1), (ACTION_MOVE, id1, lerp xc xd t, lerp yc yd t, Fin 1)])
          [1..<unat steps + 1]))"

primrec handle_touches :: "handle_op \<Rightarrow> u64 set \<Rightarrow> touch list" where
  "handle_touches (H_Down i x y p) F = [(ACTION_DOWN, i, x, y, p)]"
| "handle_touches (H_Move i x y p) F = [(ACTION_MOVE, i, x, y, p)]"
| "handle_touches (H_Up i) F = [(ACTION_UP, i, 0, 0, Fin 0)]"
| "handle_touches (H_Cancel i) F = [(ACTION_CANCEL, i, 0, 0, Fin 0)]"
| "handle_touches (H_Pinch p0 p1 n) F = pinch_touches p0 p1 (max n 2)"
| "handle_touches H_ReleaseAll F =
     map (\<lambda>i. (ACTION_UP, word_of_nat i, 0, 0, Fin 0)) (filter (\<lambda>i. word_of_nat i \<in> F) [0..<10])"

primrec handle_after :: "handle_op \<Rightarrow> u64 set \<Rightarrow> u64 set" where
  "handle_after (H_Down i x y p) F = insert i F"
| "handle_after (H_Move i x y p) F = F"
| "handle_after (H_Up i) F = F - {i}"
| "handle_after (H_Cancel i) F = F - {i}"
| "handle_after (H_Pinch p0 p1 n) F = F"
| "handle_after H_ReleaseAll F = {}"

text \<open>A call: its result, the touches it sends and the pointers down after it.\<close>

definition handle_spec :: "handle_op \<Rightarrow> u64 set \<Rightarrow> unit res \<times> touch list \<times> u64 set" where
  "handle_spec q F = (case handle_error q F of
     Some e \<Rightarrow> (Inl (Err e), [], F)
   | None \<Rightarrow> (Inr (), handle_touches q F, handle_after q F))"

definition active_set :: "'e MultitouchHandle \<Rightarrow> u64 set" where
  "active_set h = {i. is_active i h}"

definition wf_handle :: "'e MultitouchHandle \<Rightarrow> bool" where
  "wf_handle h \<longleftrightarrow> length (mh_active h) = 10"

section \<open>The active array is a set\<close>

lemma small_id: "i < 10 \<Longrightarrow> unat (i :: u64) < 10"
  by (simp add: word_less_nat_alt)

lemma active_set_iff: "i < 10 \<Longrightarrow> i \<in> active_set h \<longleftrightarrow> mh_active h ! unat i"
  by (simp add: active_set_def is_active_def)

lemma active_set_bound: "i \<in> active_set h \<Longrightarrow> i < 10"
  by (simp add: active_set_def is_active_def)

lemma active_set_update:
  assumes "wf_handle h" "i < 10"
  shows "active_set (h\<lparr>mh_active := (mh_active h)[unat i := b]\<rparr>) = (if b then insert i (active_set h) else active_set h - {i})"
  using assms small_id [OF assms(2)]
  by (auto simp: active_set_def is_active_def wf_handle_def nth_list_update small_id word_unat_eq_iff)

lemma active_set_session [simp]: "active_set (h\<lparr>mh_session := s\<rparr>) = active_set h" "wf_handle (h\<lparr>mh_session := s\<rparr>) = wf_handle h"
  by (simp_all add: active_set_def is_active_def wf_handle_def)

lemma multitouch_empty: "active_set (multitouch s) = {}" "wf_handle (multitouch s)"
proof -
  have "\<not> replicate 10 False ! unat i" if "i < 10" for i :: u64
    using small_id [OF that] by simp
  then show "active_set (multitouch s) = {}" "wf_handle (multitouch s)"
    by (auto simp: active_set_def is_active_def wf_handle_def multitouch_def)
qed

lemma bound_image:
  assumes "\<And>i :: u64. i \<in> F \<Longrightarrow> i < 10"
  shows "F - word_of_nat ` set [0..<10] = {}"
proof -
  have "i \<in> word_of_nat ` set [0..<10]" if "i \<in> F" for i
    using small_id [OF assms [OF that]] by (intro image_eqI [of _ _ "unat i"]) auto
  then show ?thesis
    by blast
qed

lemma active_none: "active_set h - word_of_nat ` set [0..<10] = {}"
  using active_set_bound by (rule bound_image)

section \<open>Arbitrary transports\<close>

definition release_one :: "'e transport_ops \<Rightarrow> nat \<Rightarrow> ('e MultitouchHandle, unit) act" where
  \<comment> \<open>the body of the loop of \<open>mt_release_all\<close>\<close>
  "release_one ops i = act_then (act_gets (\<lambda>h. mh_active h ! i)) (\<lambda>a.
       if a then act_seq [on_session (inject_touch ops ACTION_UP (word_of_nat i) 0 0 (Fin 0)),
           set_active (word_of_nat i) False]
       else act_ret ())"

lemma release_all_each: "mt_release_all ops = act_each (release_one ops) [0..<10]"
  unfolding mt_release_all_def release_one_def by simp

lemma lift_check: "act_lift (check_id i) h = (case need_id i of Some e \<Rightarrow> (Inl (Err e), h) | None \<Rightarrow> (Inr (), h))"
  by (simp add: act_lift_def check_id_def need_id_def)

lemma require_down_spec:
  "i < 10 \<Longrightarrow> require_down i h = (case need_down i (active_set h) of Some e \<Rightarrow> (Inl (Err e), h) | None \<Rightarrow> (Inr (), h))"
  by (simp add: require_down_def need_down_def active_set_iff)

lemma require_up_spec:
  "i < 10 \<Longrightarrow> require_up i h = (case need_up i (active_set h) of Some e \<Rightarrow> (Inl (Err e), h) | None \<Rightarrow> (Inr (), h))"
  by (simp add: require_up_def need_up_def active_set_iff)

lemma need_id_none: "need_id i = None \<longleftrightarrow> i < 10"
  by (auto simp: need_id_def)

lemmas handle_defs = mt_down_def mt_move_to_def mt_up_def mt_cancel_def lift_check require_down_spec require_up_spec

lemma handle_rejects:
  assumes "handle_error q (active_set h) = Some e"
  shows "handle_exec ops q h = (Inl (Err e), h)"
proof (cases q)
  case (H_Pinch p0 p1 n)
  obtain id0 xa ya xb yb id1 xc yc xd yd where p: "p0 = (id0, xa, ya, xb, yb)" "p1 = (id1, xc, yc, xd, yd)"
    by (cases p0, cases p1)
  show ?thesis
    using assms need_id_none [of id0] need_id_none [of id1]
    by (cases "need_id id0"; cases "need_id id1"; cases "need_down id0 (active_set h)"; cases "need_down id1 (active_set h)")
      (auto simp: H_Pinch p mt_pinch_def Let_def lift_check require_down_spec split: option.splits)
next
  case (H_Down i x y p)
  then show ?thesis
    using assms need_id_none [of i] by (cases "need_id i") (auto simp: handle_defs split: option.splits)
next
  case (H_Move i x y p)
  then show ?thesis
    using assms need_id_none [of i] by (cases "need_id i") (auto simp: handle_defs split: option.splits)
next
  case (H_Up i)
  then show ?thesis
    using assms need_id_none [of i] by (cases "need_id i") (auto simp: handle_defs split: option.splits)
next
  case (H_Cancel i)
  then show ?thesis
    using assms need_id_none [of i] by (cases "need_id i") (auto simp: handle_defs split: option.splits)
qed (use assms in simp)

text \<open>What a call that got past its checks does to the flags, whatever the transport answers.\<close>

lemma on_session_flags: "on_session p h = (r, h') \<Longrightarrow> active_set h' = active_set h \<and> wf_handle h' = wf_handle h"
  by (auto simp: on_session_def split: prod.splits)

lemma touch_set_flags:
  assumes "act_seq [on_session p, set_active i b] h = (r, h')" "wf_handle h" "i < 10"
  shows "wf_handle h' \<and> active_set h' = (case r of Inl _ \<Rightarrow> active_set h
    | Inr _ \<Rightarrow> if b then insert i (active_set h) else active_set h - {i})"
proof (cases "on_session p h")
  case (Pair r1 h1)
  have "wf_handle h1" "active_set h1 = active_set h"
    using on_session_flags [OF Pair] assms(2) by simp_all
  then show ?thesis
    using active_set_update [OF _ assms(3), of h1 b] assms(1) Pair
    by (cases r1) (simp_all add: set_active_def, auto simp: wf_handle_def)
qed

lemma act_then_ret: "act_then p act_ret = p"
  by (rule ext) (simp add: act_then_def split: prod.split sum.split)

lemma pinch_form:
  "mt_pinch ops p0 p1 steps = act_seq [act_lift (check_id (fst p0)), act_lift (check_id (fst p1)), require_down (fst p0),
     require_down (fst p1), on_session (pinch_moves ops p0 p1 (max steps 2))]"
  by (cases p0, cases p1)
    (simp only: mt_pinch_def Let_def prod.case pinch_moves_def on_session_each on_session_seq list.map fst_conv)

lemma release_flags:
  assumes "act_each (release_one ops) is h = (r, h')" "wf_handle h" "\<forall>i \<in> set is. i < 10"
  shows "wf_handle h' \<and> active_set h' \<subseteq> active_set h \<and>
    (case r of Inl _ \<Rightarrow> True | Inr _ \<Rightarrow> active_set h' = active_set h - word_of_nat ` set is)"
  using assms
proof (induction "is" arbitrary: h)
  case (Cons i "is")
  let ?i = "word_of_nat i :: u64"
  have "unat ?i = i"
    using Cons.prems(3) by (simp add: unat_of_nat)
  then have i: "?i < 10" "unat ?i = i"
    using Cons.prems(3) by (simp_all add: word_less_nat_alt)
  obtain r1 h1 where one: "release_one ops i h = (r1, h1)"
    by fastforce
  have flags: "wf_handle h1 \<and> active_set h1 = (case r1 of Inl _ \<Rightarrow> active_set h | Inr _ \<Rightarrow> active_set h - {?i})"
  proof (cases "?i \<in> active_set h")
    case True
    then show ?thesis
      using touch_set_flags [OF _ Cons.prems(2) i(1), of _ False r1 h1] one active_set_iff [OF i(1), of h] i(2)
      by (simp add: release_one_def del: act_seq.simps)
  next
    case False
    then show ?thesis
      using one active_set_iff [OF i(1), of h] i(2) Cons.prems(2) by (auto simp: release_one_def)
  qed
  show ?case
  proof (cases r1)
    case (Inl e)
    then show ?thesis
      using Cons.prems(1) one flags by auto
  next
    case (Inr u)
    then have "act_each (release_one ops) is h1 = (r, h')"
      using Cons.prems(1) one by simp
    then show ?thesis
      using Cons.IH [of h1] Cons.prems(3) flags Inr by (auto split: sum.splits)
  qed
qed auto

lemma handle_flags:
  assumes "handle_exec ops q h = (r, h')" "wf_handle h" "handle_error q (active_set h) = None"
  shows "case r of Inl _ \<Rightarrow> active_set h' \<subseteq> active_set h \<and> (q \<noteq> H_ReleaseAll \<longrightarrow> active_set h' = active_set h)
    | Inr _ \<Rightarrow> active_set h' = handle_after q (active_set h)"
proof (cases q)
  case (H_Pinch p0 p1 n)
  have "need_id (fst p0) = None" "need_id (fst p1) = None" "fst p0 < 10" "fst p1 < 10"
    "need_down (fst p0) (active_set h) = None" "need_down (fst p1) (active_set h) = None"
    using assms(3) need_id_none [of "fst p0"] need_id_none [of "fst p1"]
    by (cases "need_id (fst p0)"; cases "need_id (fst p1)"; cases "need_down (fst p0) (active_set h)"; simp add: H_Pinch)+
  then have "on_session (pinch_moves ops p0 p1 (max n 2)) h = (r, h')"
    using assms(1) by (simp add: H_Pinch pinch_form lift_check require_down_spec act_then_ret)
  from on_session_flags [OF this] show ?thesis
    by (simp add: H_Pinch split: sum.split)
next
  case (H_Down i x y p)
  have i: "i < 10" "need_up i (active_set h) = None" "need_id i = None"
    using assms(3) need_id_none [of i] by (cases "need_id i"; simp add: H_Down)+
  then have "act_seq [on_session (inject_touch ops ACTION_DOWN i x y p), set_active i True] h = (r, h')"
    using assms(1) by (simp add: H_Down mt_down_def lift_check require_up_spec)
  from touch_set_flags [OF this assms(2) i(1)] show ?thesis
    by (simp add: H_Down split: sum.splits)
next
  case (H_Move i x y p)
  have i: "i < 10" "need_down i (active_set h) = None" "need_id i = None"
    using assms(3) need_id_none [of i] by (cases "need_id i"; simp add: H_Move)+
  then have "on_session (inject_touch ops ACTION_MOVE i x y p) h = (r, h')"
    using assms(1) by (simp add: H_Move mt_move_to_def lift_check require_down_spec act_then_ret)
  from on_session_flags [OF this] show ?thesis
    by (simp add: H_Move split: sum.split)
next
  case (H_Up i)
  have i: "i < 10" "need_down i (active_set h) = None" "need_id i = None"
    using assms(3) need_id_none [of i] by (cases "need_id i"; simp add: H_Up)+
  then have "act_seq [on_session (inject_touch ops ACTION_UP i 0 0 (Fin 0)), set_active i False] h = (r, h')"
    using assms(1) by (simp add: H_Up mt_up_def lift_check require_down_spec)
  from touch_set_flags [OF this assms(2) i(1)] show ?thesis
    by (simp add: H_Up split: sum.splits)
next
  case (H_Cancel i)
  have i: "i < 10" "need_down i (active_set h) = None" "need_id i = None"
    using assms(3) need_id_none [of i] by (cases "need_id i"; simp add: H_Cancel)+
  then have "act_seq [on_session (inject_touch ops ACTION_CANCEL i 0 0 (Fin 0)), set_active i False] h = (r, h')"
    using assms(1) by (simp add: H_Cancel mt_cancel_def lift_check require_down_spec)
  from touch_set_flags [OF this assms(2) i(1)] show ?thesis
    by (simp add: H_Cancel split: sum.splits)
next
  case H_ReleaseAll
  then show ?thesis
    using release_flags [of ops "[0..<10]" h r h', unfolded active_none] assms(1,2)
    by (simp add: release_all_each split: sum.splits del: upt_rec_numeral)
qed

section \<open>Transports that do not fail\<close>

context reliable_transport
begin

definition sends :: "('e MultitouchHandle, unit) act \<Rightarrow> 'e MultitouchHandle \<Rightarrow> touch list \<Rightarrow> 'e MultitouchHandle \<Rightarrow> bool" where
  \<comment> \<open>a successful run of a call on the handle\<close>
  "sends p h ts h' \<longleftrightarrow> p h = (Inr (), h') \<and> same_body (mh_session h) (mh_session h') \<and>
     logged (mh_session h) (mh_session h') (map (touch_at (mh_session h)) ts)"

lemma sends_session:
  assumes "emits p ts"
  obtains s' where "sends (on_session p) h ts (h\<lparr>mh_session := s'\<rparr>)"
proof -
  have "wp p (\<lambda>r ms s'. r = Inr () \<and> same_body (mh_session h) s' \<and> ms = map (touch_at (mh_session h)) ts) (mh_session h)"
    using assms by (simp add: emits_def)
  then show ?thesis
    using that by (auto simp: wp_def sends_def on_session_def)
qed

lemma sends_quiet: "p h = (Inr (), h') \<Longrightarrow> mh_session h' = mh_session h \<Longrightarrow> sends p h [] h'"
  by (simp add: sends_def logged_def wlogged_refl)

lemma sends_then: "sends p h ts h1 \<Longrightarrow> sends q h1 us h2 \<Longrightarrow> sends (act_then p (\<lambda>_. q)) h (ts @ us) h2"
  by (auto simp: sends_def touch_at_same_body intro: same_body_trans logged_trans)

lemma sends_guard: "p h = (Inr (), h) \<Longrightarrow> sends q h us h2 \<Longrightarrow> sends (act_then p (\<lambda>_. q)) h us h2"
  using sends_then [OF sends_quiet, of p h h q us h2] by simp

lemma sends_ret: "sends (act_ret ()) h [] h"
  by (rule sends_quiet) simp_all

lemma sends_set_active: "sends (set_active i b) h [] (h\<lparr>mh_active := (mh_active h)[unat i := b]\<rparr>)"
  by (rule sends_quiet) (simp_all add: set_active_def)

lemma sends_touch_set:
  assumes "wf_handle h" "i < 10"
  obtains h' where "sends (act_seq [on_session (inject_touch ops a i x y p), set_active i b]) h [(a, i, x, y, p)] h'"
    "wf_handle h'" "active_set h' = (if b then insert i (active_set h) else active_set h - {i})"
proof -
  obtain s' where s': "sends (on_session (inject_touch ops a i x y p)) h [(a, i, x, y, p)] (h\<lparr>mh_session := s'\<rparr>)"
    using sends_session [OF emits_touch] .
  let ?h = "h\<lparr>mh_session := s'\<rparr>"
  have "sends (act_seq [on_session (inject_touch ops a i x y p), set_active i b]) h ([(a, i, x, y, p)] @ [] @ [])
      (?h\<lparr>mh_active := (mh_active ?h)[unat i := b]\<rparr>)"
    unfolding act_seq.simps by (intro sends_then [OF s'] sends_then [OF sends_set_active] sends_ret)
  then show ?thesis
    using that [of "?h\<lparr>mh_active := (mh_active ?h)[unat i := b]\<rparr>"] active_set_update [of ?h i b] assms
    by (simp add: wf_handle_def)
qed

lemma emits_pinch_moves: "emits (pinch_moves ops p0 p1 steps) (pinch_touches p0 p1 steps)"
proof -
  obtain id0 xa ya xb yb id1 xc yc xd yd where p: "p0 = (id0, xa, ya, xb, yb)" "p1 = (id1, xc, yc, xd, yd)"
    by (cases p0, cases p1)
  have two: "emits (act_seq [inject_touch ops a i x y q, inject_touch ops a' i' x' y' q'])
      [(a, i, x, y, q), (a', i', x', y', q')]" for a i x y q a' i' x' y' q'
    using emits_seq [of "[inject_touch ops a i x y q, inject_touch ops a' i' x' y' q']"
        "[[(a, i, x, y, q)], [(a', i', x', y', q')]]"] by (simp add: emits_touch)
  show ?thesis
    unfolding pinch_moves_def pinch_touches_def p prod.case Let_def by (rule emits_each) (rule two)
qed

lemma sends_release:
  assumes "wf_handle h" "\<forall>i \<in> set is. i < 10" "distinct is"
  shows "\<exists>h'. sends (act_each (release_one ops) is) h
     (map (\<lambda>i. (ACTION_UP, word_of_nat i, 0, 0, Fin 0)) (filter (\<lambda>i. word_of_nat i \<in> active_set h) is)) h' \<and>
   wf_handle h' \<and> active_set h' = active_set h - word_of_nat ` set is"
  using assms
proof (induction "is" arbitrary: h)
  case Nil
  then show ?case
    using sends_quiet [of "Pair (Inr ())" h h] by auto
next
  case (Cons i "is")
  let ?i = "word_of_nat i :: u64"
  have "unat ?i = i"
    using Cons.prems(2) by (simp add: unat_of_nat)
  then have i: "?i < 10" "unat ?i = i"
    using Cons.prems(2) by (simp_all add: word_less_nat_alt)
  obtain h1 where h1: "sends (release_one ops i) h (if ?i \<in> active_set h then [(ACTION_UP, ?i, 0, 0, Fin 0)] else []) h1"
    "wf_handle h1" "active_set h1 = active_set h - {?i}"
  proof (cases "?i \<in> active_set h")
    case True
    obtain h' where "sends (act_seq [on_session (inject_touch ops ACTION_UP ?i 0 0 (Fin 0)), set_active ?i False]) h
        [(ACTION_UP, ?i, 0, 0, Fin 0)] h'" "wf_handle h'" "active_set h' = active_set h - {?i}"
      using sends_touch_set [OF Cons.prems(1) i(1), where b = False] by (metis (lifting))
    then show ?thesis
      using that [of h'] True active_set_iff [OF i(1), of h] i(2) by (simp add: sends_def release_one_def)
  next
    case False
    then show ?thesis
      using that [of h] active_set_iff [OF i(1), of h] i(2) Cons.prems(1) sends_quiet [of "release_one ops i" h h]
      by (simp add: release_one_def)
  qed
  have "\<forall>j \<in> set is. word_of_nat j \<noteq> ?i"
    using Cons.prems(2,3) i(2) by (auto simp: word_unat_eq_iff unat_of_nat)
  then have same: "filter (\<lambda>j. word_of_nat j \<in> active_set h1) is = filter (\<lambda>j. word_of_nat j \<in> active_set h) is"
    using h1(3) by (auto intro!: filter_cong)
  obtain h2 where "sends (act_each (release_one ops) is) h1
      (map (\<lambda>i. (ACTION_UP, word_of_nat i, 0, 0, Fin 0)) (filter (\<lambda>i. word_of_nat i \<in> active_set h) is)) h2"
    "wf_handle h2" "active_set h2 = active_set h1 - word_of_nat ` set is"
    using Cons.IH [OF h1(2)] Cons.prems(2,3) same by auto
  then show ?case
    using sends_then [OF h1(1)] h1(3) by (intro exI [of _ h2]) (auto simp del: act_simps)
qed

lemma handle_accepts:
  assumes "wf_handle h" "handle_error q (active_set h) = None"
  shows "\<exists>h'. sends (handle_exec ops q) h (handle_touches q (active_set h)) h' \<and> wf_handle h' \<and>
    active_set h' = handle_after q (active_set h)"
proof (cases q)
  case (H_Pinch p0 p1 n)
  obtain id0 xa ya xb yb id1 xc yc xd yd where p: "p0 = (id0, xa, ya, xb, yb)" "p1 = (id1, xc, yc, xd, yd)"
    by (cases p0, cases p1)
  have "fst p0 < 10" "fst p1 < 10" "mh_active h ! unat (fst p0)" "mh_active h ! unat (fst p1)"
    using assms(2) need_id_none [of id0] need_id_none [of id1] active_set_iff [of id0 h] active_set_iff [of id1 h]
    by (cases "need_id id0"; cases "need_id id1"; auto simp: H_Pinch p need_down_def split: if_splits)+
  then have mirror: "mirrors (mh_active h) (mt_pinch ops p0 p1 n) (pinch_moves ops p0 p1 (max n 2)) (mh_active h)"
    by (rule mirrors_pinch)
  obtain s' where s': "sends (on_session (pinch_moves ops p0 p1 (max n 2))) h (pinch_touches p0 p1 (max n 2)) (h\<lparr>mh_session := s'\<rparr>)"
    using sends_session [OF emits_pinch_moves] .
  have "pinch_moves ops p0 p1 (max n 2) (mh_session h) = (Inr (), s')"
    using s' by (cases h) (auto simp: sends_def on_session_def split: prod.splits)
  then have "mt_pinch ops p0 p1 n h = (Inr (), h\<lparr>mh_session := s'\<rparr>)"
    using mirror [unfolded mirrors_def, rule_format, of "mh_session h"] by (cases h) simp
  then show ?thesis
    using s' assms(1) by (intro exI [of _ "h\<lparr>mh_session := s'\<rparr>"]) (simp add: H_Pinch sends_def)
next
  case (H_Down i x y p)
  have i: "i < 10" "need_up i (active_set h) = None" "need_id i = None"
    using assms(2) need_id_none [of i] by (cases "need_id i"; simp add: H_Down)+
  obtain h' where "sends (act_seq [on_session (inject_touch ops ACTION_DOWN i x y p), set_active i True]) h
      [(ACTION_DOWN, i, x, y, p)] h'" "wf_handle h'" "active_set h' = insert i (active_set h)"
    using sends_touch_set [OF assms(1) i(1), where b = True] by (metis (lifting))
  then show ?thesis
    using i by (intro exI [of _ h']) (simp add: H_Down mt_down_def sends_guard lift_check require_up_spec del: ACTION_DOWN_def)
next
  case (H_Move i x y p)
  have i: "i < 10" "need_down i (active_set h) = None" "need_id i = None"
    using assms(2) need_id_none [of i] by (cases "need_id i"; simp add: H_Move)+
  obtain s' where s': "sends (on_session (inject_touch ops ACTION_MOVE i x y p)) h [(ACTION_MOVE, i, x, y, p)] (h\<lparr>mh_session := s'\<rparr>)"
    using sends_session [OF emits_touch] .
  from sends_then [OF s' sends_ret] show ?thesis
    using i assms(1) by (intro exI [of _ "h\<lparr>mh_session := s'\<rparr>"])
      (simp add: H_Move mt_move_to_def sends_guard lift_check require_down_spec del: ACTION_MOVE_def act_simps)
next
  case (H_Up i)
  have i: "i < 10" "need_down i (active_set h) = None" "need_id i = None"
    using assms(2) need_id_none [of i] by (cases "need_id i"; simp add: H_Up)+
  obtain h' where "sends (act_seq [on_session (inject_touch ops ACTION_UP i 0 0 (Fin 0)), set_active i False]) h
      [(ACTION_UP, i, 0, 0, Fin 0)] h'" "wf_handle h'" "active_set h' = active_set h - {i}"
    using sends_touch_set [OF assms(1) i(1), where b = False] by (metis (lifting))
  then show ?thesis
    using i by (intro exI [of _ h']) (simp add: H_Up mt_up_def sends_guard lift_check require_down_spec del: ACTION_UP_def)
next
  case (H_Cancel i)
  have i: "i < 10" "need_down i (active_set h) = None" "need_id i = None"
    using assms(2) need_id_none [of i] by (cases "need_id i"; simp add: H_Cancel)+
  obtain h' where "sends (act_seq [on_session (inject_touch ops ACTION_CANCEL i 0 0 (Fin 0)), set_active i False]) h
      [(ACTION_CANCEL, i, 0, 0, Fin 0)] h'" "wf_handle h'" "active_set h' = active_set h - {i}"
    using sends_touch_set [OF assms(1) i(1), where b = False] by (metis (lifting))
  then show ?thesis
    using i by (intro exI [of _ h']) (simp add: H_Cancel mt_cancel_def sends_guard lift_check require_down_spec del: ACTION_CANCEL_def)
next
  case H_ReleaseAll
  then show ?thesis
    using sends_release [OF assms(1), of "[0..<10]", unfolded active_none]
    by (simp add: release_all_each del: upt_rec_numeral)
qed

lemma handle_refines:
  assumes "wf_handle h"
  obtains h' where "handle_exec ops q h = (fst (handle_spec q (active_set h)), h')" "wf_handle h'"
    "active_set h' = snd (snd (handle_spec q (active_set h)))" "same_body (mh_session h) (mh_session h')"
    "logged (mh_session h) (mh_session h') (map (touch_at (mh_session h)) (fst (snd (handle_spec q (active_set h)))))"
proof (cases "handle_error q (active_set h)")
  case None
  then show ?thesis
    using handle_accepts [OF assms None] that by (auto simp: handle_spec_def sends_def)
next
  case (Some e)
  then show ?thesis
    using that [of h] handle_rejects [OF Some, of ops] assms
    by (simp add: handle_spec_def logged_def wlogged_refl)
qed

end

section \<open>The peer\<close>

text \<open>The touches of an accepted call are what a peer that tracks the same pointers expects.\<close>

lemma track_ups_filter:
  assumes "\<forall>i \<in> set is. i < 10" "distinct is"
  shows "track_all (map (wire_of \<circ> touch_at s) (map (\<lambda>i. (ACTION_UP, word_of_nat i, 0, 0, Fin 0))
    (filter (\<lambda>i. word_of_nat i \<in> F) is))) F = Some (F - word_of_nat ` set is)"
  using assms
proof (induction "is" arbitrary: F)
  case (Cons i "is")
  let ?i = "word_of_nat i :: u64"
  have "\<forall>j \<in> set is. word_of_nat j \<noteq> ?i"
    using Cons.prems by (auto simp: word_unat_eq_iff unat_of_nat)
  then have same: "filter (\<lambda>j. word_of_nat j \<in> F - {?i}) is = filter (\<lambda>j. word_of_nat j \<in> F) is"
    by (auto intro!: filter_cong)
  show ?case
    using Cons.IH [of "F - {?i}"] Cons.prems unfolding same by (cases "?i \<in> F") (auto simp: insert_absorb2 Diff_insert2 [symmetric])
qed simp

lemma handle_tracked:
  assumes "handle_error q F = None" "F \<subseteq> {i. i < 10}"
  shows "track_all (map (wire_of \<circ> touch_at s) (handle_touches q F)) F = Some (handle_after q F)"
proof (cases q)
  case (H_Pinch p0 p1 n)
  obtain id0 xa ya xb yb id1 xc yc xd yd where p: "p0 = (id0, xa, ya, xb, yb)" "p1 = (id1, xc, yc, xd, yd)"
    by (cases p0, cases p1)
  have "id0 \<in> F" "id1 \<in> F"
    using assms(1) by (cases "need_id id0"; cases "need_id id1"; auto simp: H_Pinch p need_down_def split: if_splits)+
  then have "\<exists>pid x y p. t = (ACTION_MOVE, pid, x, y, p) \<and> pid \<in> F" if "t \<in> set (pinch_touches p0 p1 (max n 2))" for t
    using that by (auto simp: p pinch_touches_def Let_def)
  then show ?thesis
    using track_moves [of "pinch_touches p0 p1 (max n 2)" F s] by (simp add: H_Pinch)
next
  case H_ReleaseAll
  have "F - word_of_nat ` set [0..<10] = {}"
    using assms(2) by (intro bound_image) auto
  then show ?thesis
    using track_ups_filter [of "[0..<10]" s F] by (simp add: H_ReleaseAll del: upt_rec_numeral)
qed (use assms(1) in \<open>auto simp: need_id_def need_up_def need_down_def split: if_splits\<close>)

section \<open>Properties\<close>

text \<open>A program that makes calls on the handle and goes on after a rejected one.\<close>

fun handle_run :: "'e transport_ops \<Rightarrow> handle_op list \<Rightarrow> 'e MultitouchHandle \<Rightarrow> unit res list \<times> 'e MultitouchHandle" where
  "handle_run ops [] h = ([], h)"
| "handle_run ops (q # qs) h =
     (case handle_exec ops q h of (r, h') \<Rightarrow> case handle_run ops qs h' of (rs, h'') \<Rightarrow> (r # rs, h''))"

fun handle_specs :: "handle_op list \<Rightarrow> u64 set \<Rightarrow> unit res list \<times> touch list \<times> u64 set" where
  "handle_specs [] F = ([], [], F)"
| "handle_specs (q # qs) F =
     (case handle_spec q F of (r, ts, F') \<Rightarrow> case handle_specs qs F' of (rs, us, F'') \<Rightarrow> (r # rs, ts @ us, F''))"

lemma handle_run_refines:
  assumes "reliable_transport ops wire" "wf_handle h"
  shows "\<exists>ts h'. handle_run ops qs h = (fst (handle_specs qs (active_set h)), h') \<and>
    snd (handle_specs qs (active_set h)) = (ts, active_set h') \<and> wf_handle h' \<and>
    reliable_transport.logged wire (mh_session h) (mh_session h') (map (touch_at (mh_session h)) ts) \<and>
    track_all (map (wire_of \<circ> touch_at (mh_session h)) ts) (active_set h) = Some (active_set h')"
  using assms(2)
proof (induction qs arbitrary: h)
  case Nil
  then show ?case
    by (simp add: reliable_transport.logged_def [OF assms(1)] reliable_transport.wlogged_refl [OF assms(1)])
next
  case (Cons q qs)
  obtain r us F where sp: "handle_spec q (active_set h) = (r, us, F)"
    by (cases "handle_spec q (active_set h)")
  obtain h1 where h1: "handle_exec ops q h = (r, h1)" "wf_handle h1" "active_set h1 = F"
    "same_body (mh_session h) (mh_session h1)"
    "reliable_transport.logged wire (mh_session h) (mh_session h1) (map (touch_at (mh_session h)) us)"
    using reliable_transport.handle_refines [OF assms(1) Cons.prems, of q] sp by auto
  obtain ts h2 where h2: "handle_run ops qs h1 = (fst (handle_specs qs F), h2)" "snd (handle_specs qs F) = (ts, active_set h2)"
    "wf_handle h2" "reliable_transport.logged wire (mh_session h1) (mh_session h2) (map (touch_at (mh_session h)) ts)"
    "track_all (map (wire_of \<circ> touch_at (mh_session h)) ts) F = Some (active_set h2)"
    using Cons.IH [OF h1(2)] h1(3) touch_at_same_body [OF h1(4)] by (auto simp: comp_def)
  have "active_set h \<subseteq> {i. i < 10}"
    using active_set_bound by auto
  then have "track_all (map (wire_of \<circ> touch_at (mh_session h)) us) (active_set h) = Some F"
    using sp handle_tracked by (auto simp: handle_spec_def split: option.splits)
  then have "track_all (map (wire_of \<circ> touch_at (mh_session h)) (us @ ts)) (active_set h) = Some (active_set h2)"
    using h2(5) by (simp add: track_append)
  then show ?case
    using h1 h2 sp reliable_transport.logged_trans [OF assms(1) h1(5) h2(4)]
    by (intro exI [of _ "us @ ts"] exI [of _ h2]) (auto simp: comp_def split: prod.split)
qed

text \<open>
  C14 (refinement). The multi-touch handle implements its specification for every sequence of calls, the
  rejected ones included: the results are those of the specification (id out of range, pointer already
  down, pointer not active), the stream is extended by exactly the touches of the accepted calls, the
  array of flags is the specified set of pointers, and a peer that starts with no finger down accepts
  every event and ends with the same set; after \<open>release_all\<close> it is empty.
\<close>

theorem multitouch_refines:
  assumes "reliable_transport ops wire" "sound s"
  shows "\<exists>rs ts h'. handle_run ops qs (multitouch s) = (rs, h') \<and> handle_specs qs {} = (rs, ts, active_set h') \<and>
    stream wire (mh_session h') = stream wire s @ concat (map (msg_bytes \<circ> touch_at s) ts) \<and>
    track_all (map (wire_of \<circ> touch_at s) ts) {} = Some (active_set h') \<and>
    (\<exists>h''. handle_exec ops H_ReleaseAll h' = (Inr (), h'') \<and> active_set h'' = {})"
proof -
  have mt: "mh_session (multitouch s) = s"
    by (simp add: multitouch_def)
  obtain ts h' where h': "handle_run ops qs (multitouch s) = (fst (handle_specs qs {}), h')"
    "snd (handle_specs qs {}) = (ts, active_set h')" "wf_handle h'"
    "reliable_transport.logged wire s (mh_session h') (map (touch_at s) ts)"
    "track_all (map (wire_of \<circ> touch_at s) ts) {} = Some (active_set h')"
    using handle_run_refines [OF assms(1) multitouch_empty(2) [of s], of qs] unfolding multitouch_empty mt by blast
  moreover obtain h'' where "handle_exec ops H_ReleaseAll h' = (Inr (), h'')" "active_set h'' = {}"
    using reliable_transport.handle_refines [OF assms(1) h'(3), of H_ReleaseAll] by (auto simp: handle_spec_def)
  ultimately show ?thesis
    using reliable_transport.logged_stream [OF assms(1) h'(4) assms(2)]
    by (intro exI [of _ "fst (handle_specs qs {})"] exI [of _ ts] exI [of _ h']) (auto simp: prod_eq_iff)
qed

theorem multitouch_refines_witness:
  "\<exists>h'. handle_run (mock_ops 0) [H_Down 3 1 2 (Fin 1), H_Down 3 1 2 (Fin 1), H_Up 4, H_Cancel 12]
       (multitouch (fresh_session (mock_ops 0) mock_new request_none)) =
       ([Inr (), Inl (Err (PointerAlreadyDown 3)), Inl (Err (PointerNotActive 4)), Inl (Err (PointerIdOutOfRange 12 9))], h') \<and>
     active_set h' = {3}"
proof -
  let ?s = "fresh_session (mock_ops 0) mock_new request_none"
  have "sound ?s"
    by (simp add: fresh_session_def request_none_def sound_def with_limits_def mock_ops_def)
  moreover have "handle_specs [H_Down 3 1 2 (Fin 1), H_Down 3 1 2 (Fin 1), H_Up 4, H_Cancel 12] {} =
      ([Inr (), Inl (Err (PointerAlreadyDown 3)), Inl (Err (PointerNotActive 4)), Inl (Err (PointerIdOutOfRange 12 9))],
       [(ACTION_DOWN, 3, 1, 2, Fin 1)], {3})"
    by (simp add: handle_spec_def need_id_def need_up_def need_down_def)
  ultimately show ?thesis
    using multitouch_refines [OF reliable_mock.reliable_transport_axioms, of ?s 0
        "[H_Down 3 1 2 (Fin 1), H_Down 3 1 2 (Fin 1), H_Up 4, H_Cancel 12]"] by auto
qed

text \<open>
  C15 (error). On any transport, failing or not: a call the handle rejects leaves the session untouched
  and sends nothing, with the documented error; a call that is accepted and fails in the transport keeps
  the set of pressed pointers, except that a failed \<open>release_all\<close> has released a part of them; a call
  that returns \<open>Ok\<close> was not one of the rejected ones.
\<close>

theorem multitouch_errors:
  assumes "handle_exec ops q h = (r, h')" "wf_handle h"
  shows "(case handle_error q (active_set h) of Some e \<Rightarrow> r = Inl (Err e) \<and> h' = h | None \<Rightarrow> True) \<and>
    (case r of Inl e \<Rightarrow> active_set h' \<subseteq> active_set h \<and> (q \<noteq> H_ReleaseAll \<longrightarrow> active_set h' = active_set h)
     | Inr _ \<Rightarrow> handle_error q (active_set h) = None \<and> active_set h' = handle_after q (active_set h))"
proof (cases "handle_error q (active_set h)")
  case None
  then show ?thesis
    using handle_flags [OF assms None] by (simp split: sum.splits)
next
  case (Some e)
  then show ?thesis
    using handle_rejects [OF Some, of ops] assms(1) by auto
qed

theorem multitouch_errors_witness:
  "handle_error (H_Up 4) (active_set (multitouch (fresh_session (mock_ops 0) mock_new request_none))) = Some (PointerNotActive 4) \<and>
   fst (handle_exec (mock_ops 0) (H_Up 4) (multitouch (fresh_session (mock_ops 0) mock_new request_none))) =
     Inl (Err (PointerNotActive 4))"
proof -
  let ?h = "multitouch (fresh_session (mock_ops 0) mock_new request_none)"
  have "handle_error (H_Up 4) (active_set ?h) = Some (PointerNotActive 4)"
    by (simp add: multitouch_empty need_id_def need_down_def)
  moreover obtain r h' where "handle_exec (mock_ops 0) (H_Up 4) ?h = (r, h')"
    by fastforce
  moreover from this have "case handle_error (H_Up 4) (active_set ?h) of Some e \<Rightarrow> r = Inl (Err e) \<and> h' = ?h | None \<Rightarrow> True"
    using multitouch_errors [of "mock_ops 0" "H_Up 4" ?h r h', OF _ multitouch_empty(2)] by blast
  ultimately show ?thesis
    by (simp only: option.case fst_conv simp_thms)
qed

end
