(* ===== verification/Gamepad_Ring.thy ===== *)
theory Gamepad_Ring
  imports Coalesce "HOL-Library.Sublist"
begin

text \<open>
  \<^verbatim>\<open>src/src/gamepad_ring.rs\<close>: the lock-free ring between one producer and one consumer of gamepad frames.
  \<open>push\<close> and \<open>pop\<close> are first taken as atomic operations and refine a bounded queue; then their loads and
  stores are the steps of two interleaved threads on a memory with release and acquire orderings, where
  a frame is copied part by part and a load may return a value that is no longer current.
\<close>

section \<open>The ring\<close>

definition RING_CAPACITY :: u64 where [simp]: "RING_CAPACITY = 8"

datatype TryPushError = Full

record GamepadFrameRing =
  gr_head :: u64
  gr_tail :: u64
  gr_slots :: "GamepadFrameRaw option list" \<comment> \<open>\<open>None\<close> is a slot that was never written\<close>

definition ring_new :: GamepadFrameRing where
  "ring_new = \<lparr>gr_head = 0, gr_tail = 0, gr_slots = replicate (unat RING_CAPACITY) None\<rparr>"

definition ring_capacity :: "GamepadFrameRing \<Rightarrow> u64" where
  "ring_capacity r = RING_CAPACITY"

definition ring_len :: "GamepadFrameRing \<Rightarrow> u64" where
  "ring_len r = min (gr_head r - gr_tail r) RING_CAPACITY"

definition ring_is_empty :: "GamepadFrameRing \<Rightarrow> bool" where
  "ring_is_empty r \<longleftrightarrow> ring_len r = 0"

definition ring_push :: "GamepadFrameRaw \<Rightarrow> GamepadFrameRing \<Rightarrow> (TryPushError + unit) \<times> GamepadFrameRing" where
  "ring_push frame r =
     (let h = gr_head r; t = gr_tail r in
      if RING_CAPACITY \<le> h - t then (Inl Full, r)
      else (Inr (), r\<lparr>gr_slots := (gr_slots r)[unat (h mod RING_CAPACITY) := Some frame], gr_head := h + 1\<rparr>))"

text \<open>The outer \<open>None\<close> of \<open>ring_pop\<close> is \<open>assume_init_read\<close> of a slot that was never written, which is
  undefined behaviour.\<close>

definition ring_pop :: "GamepadFrameRing \<Rightarrow> (GamepadFrameRaw option \<times> GamepadFrameRing) option" where
  "ring_pop r =
     (let t = gr_tail r; h = gr_head r in
      if h = t then Some (None, r)
      else case gr_slots r ! unat (t mod RING_CAPACITY) of
        None \<Rightarrow> None
      | Some frame \<Rightarrow> Some (Some frame, r\<lparr>gr_tail := t + 1\<rparr>))"

section \<open>Bounded queues\<close>

text \<open>What a client of the ring relies on: a queue of at most \<open>cap\<close> frames.\<close>

locale bounded_queue =
  fixes inv :: "'r \<Rightarrow> bool" and content :: "'r \<Rightarrow> 'a list" and cap :: nat and new :: 'r
    and push :: "'a \<Rightarrow> 'r \<Rightarrow> ('x + unit) \<times> 'r" and pop :: "'r \<Rightarrow> ('a option \<times> 'r) option"
  assumes new: "inv new" "content new = []"
    and push_room: "inv r \<Longrightarrow> length (content r) < cap \<Longrightarrow>
      \<exists>r'. push x r = (Inr (), r') \<and> inv r' \<and> content r' = content r @ [x]"
    and push_full: "inv r \<Longrightarrow> \<not> length (content r) < cap \<Longrightarrow> \<exists>e. push x r = (Inl e, r)"
    and pop_empty: "inv r \<Longrightarrow> content r = [] \<Longrightarrow> pop r = Some (None, r)"
    and pop_cons: "inv r \<Longrightarrow> content r = x # xs \<Longrightarrow> \<exists>r'. pop r = Some (Some x, r') \<and> inv r' \<and> content r' = xs"
begin

text \<open>A run: the frames offered (\<open>Some\<close>) and the attempts to take one (\<open>None\<close>); the accepted and the
  taken frames are collected. A read of an unwritten slot ends the run.\<close>

fun run :: "'a option list \<Rightarrow> 'r \<Rightarrow> ('a list \<times> 'a list \<times> 'r) option" where
  "run [] r = Some ([], [], r)"
| "run (Some x # qs) r = (case push x r of
     (Inl _, r') \<Rightarrow> run qs r'
   | (Inr _, r') \<Rightarrow> map_option (\<lambda>(acc, got, r''). (x # acc, got, r'')) (run qs r'))"
| "run (None # qs) r = (case pop r of
     None \<Rightarrow> None
   | Some (None, r') \<Rightarrow> run qs r'
   | Some (Some x, r') \<Rightarrow> map_option (\<lambda>(acc, got, r''). (acc, x # got, r'')) (run qs r'))"

lemma run_fifo:
  assumes "inv r" "length (content r) \<le> cap"
  shows "\<exists>acc got r'. run qs r = Some (acc, got, r') \<and> inv r' \<and> length (content r') \<le> cap \<and>
    content r @ acc = got @ content r'"
  using assms
proof (induction qs r rule: run.induct)
  case (2 x qs r)
  show ?case
  proof (cases "length (content r) < cap")
    case True
    then obtain r' where r': "push x r = (Inr (), r')" "inv r'" "content r' = content r @ [x]"
      using push_room "2.prems"(1) by blast
    then show ?thesis
      using "2.IH"(2) [of "Inr ()" r' "()"] True by auto
  next
    case False
    then obtain e where "push x r = (Inl e, r)"
      using push_full "2.prems"(1) by blast
    then show ?thesis
      using "2.IH"(1) [of "Inl e" r e] "2.prems" by auto
  qed
next
  case (3 qs r)
  show ?case
  proof (cases "content r")
    case Nil
    then show ?thesis
      using pop_empty "3.prems" "3.IH"(1) [of "(None, r)"] by auto
  next
    case (Cons x xs)
    then obtain r' where r': "pop r = Some (Some x, r')" "inv r'" "content r' = xs"
      using pop_cons "3.prems"(1) by blast
    then show ?thesis
      using "3.IH"(2) [of "(Some x, r')"] "3.prems"(2) Cons by auto
  qed
qed auto

end

section \<open>The ring is a bounded queue\<close>

definition ring_content :: "GamepadFrameRing \<Rightarrow> GamepadFrameRaw list" where
  "ring_content r = map (\<lambda>k. the (gr_slots r ! ((unat (gr_tail r) + k) mod 8))) [0..<unat (gr_head r - gr_tail r)]"

definition ring_inv :: "GamepadFrameRing \<Rightarrow> bool" where
  "ring_inv r \<longleftrightarrow> length (gr_slots r) = 8 \<and> unat (gr_head r - gr_tail r) \<le> 8 \<and>
     (\<forall>k < unat (gr_head r - gr_tail r). gr_slots r ! ((unat (gr_tail r) + k) mod 8) \<noteq> None)"

lemma slot_index: "unat ((w :: u64) mod 8) = unat w mod 8"
  by (simp add: unat_mod)

lemma slot_step: "unat ((w :: u64) + x) mod 8 = (unat w + unat x) mod 8"
proof -
  have "unat (w + x) = (unat w + unat x) mod 2 ^ 64"
    by (simp add: unat_word_ariths)
  moreover have "(8 :: nat) dvd 2 ^ 64"
    by simp
  ultimately show ?thesis
    by (simp only: mod_mod_cancel)
qed

lemma head_slot: "unat ((gr_head r) mod 8) = (unat (gr_tail r) + unat (gr_head r - gr_tail r)) mod 8"
  using slot_step [of "gr_tail r" "gr_head r - gr_tail r"] by (simp add: slot_index)

lemma mod8_apart: "i < j \<Longrightarrow> j < i + 8 \<Longrightarrow> (a + i) mod 8 \<noteq> (a + j) mod (8 :: nat)"
  using mod_eq_dvd_iff_nat [of "a + i" "a + j" 8] dvd_imp_le [of 8 "j - i"] by auto

lemma ring_push_room:
  assumes "ring_inv r" "length (ring_content r) < 8"
  shows "\<exists>r'. ring_push f r = (Inr (), r') \<and> ring_inv r' \<and> ring_content r' = ring_content r @ [f]"
proof -
  define n where "n = unat (gr_head r - gr_tail r)"
  have n: "n < 8"
    using assms(2) by (simp add: ring_content_def n_def)
  let ?r = "r\<lparr>gr_slots := (gr_slots r)[unat (gr_head r mod 8) := Some f], gr_head := gr_head r + 1\<rparr>"
  have room: "\<not> 8 \<le> gr_head r - gr_tail r"
    using n by (simp add: n_def word_le_nat_alt)
  have len: "unat (gr_head r + 1 - gr_tail r) = n + 1"
  proof -
    have "gr_head r + 1 - gr_tail r = (gr_head r - gr_tail r) + 1"
      by simp
    moreover have "unat ((gr_head r - gr_tail r) + 1) = n + 1"
      using n by (simp add: n_def unat_word_ariths)
    ultimately show ?thesis
      by (simp only:)
  qed
  have idx: "unat (gr_head r mod 8) = (unat (gr_tail r) + n) mod 8"
    by (simp add: head_slot n_def)
  have other: "(unat (gr_tail r) + k) mod 8 \<noteq> (unat (gr_tail r) + n) mod 8" if "k < n" for k
    using mod8_apart [of k n] that n by simp
  have slots8: "length (gr_slots r) = 8"
    using assms(1) by (simp add: ring_inv_def)
  have "ring_push f r = (Inr (), ?r)"
    using room by (simp add: ring_push_def Let_def)
  moreover have "ring_inv ?r"
    using assms(1) n other by (auto simp: ring_inv_def len n_def [symmetric] idx nth_list_update less_Suc_eq)
  moreover have "ring_content ?r = ring_content r @ [f]"
    using other [THEN not_sym] by (auto simp: ring_content_def len n_def [symmetric] idx nth_list_update slots8)
  ultimately show ?thesis
    by blast
qed

lemma ring_push_full:
  assumes "ring_inv r" "\<not> length (ring_content r) < 8"
  shows "ring_push f r = (Inl Full, r)"
  using assms by (simp add: ring_push_def Let_def ring_content_def ring_inv_def word_le_nat_alt)

lemma ring_pop_empty: "ring_inv r \<Longrightarrow> ring_content r = [] \<Longrightarrow> ring_pop r = Some (None, r)"
  by (simp add: ring_content_def ring_pop_def Let_def unat_eq_zero)

lemma ring_pop_cons:
  assumes "ring_inv r" "ring_content r = f # fs"
  shows "\<exists>r'. ring_pop r = Some (Some f, r') \<and> ring_inv r' \<and> ring_content r' = fs"
proof -
  define n where "n = unat (gr_head r - gr_tail r)"
  have n: "n = Suc (length fs)"
    using arg_cong [OF assms(2), of length] by (simp add: ring_content_def n_def)
  have ne: "gr_head r \<noteq> gr_tail r"
    using n by (auto simp: n_def)
  have first: "gr_slots r ! (unat (gr_tail r) mod 8) = Some f"
  proof -
    have "gr_slots r ! ((unat (gr_tail r) + 0) mod 8) \<noteq> None"
      using assms(1) n unfolding ring_inv_def n_def [symmetric] by blast
    moreover have "the (gr_slots r ! ((unat (gr_tail r) + 0) mod 8)) = ring_content r ! 0"
      using n by (simp add: ring_content_def n_def [symmetric] del: upt_Suc)
    ultimately show ?thesis
      using assms(2) by auto
  qed
  let ?r = "r\<lparr>gr_tail := gr_tail r + 1\<rparr>"
  have len: "unat (gr_head r - (gr_tail r + 1)) = length fs"
  proof -
    have "gr_head r - (gr_tail r + 1) = (gr_head r - gr_tail r) - 1"
      by simp
    moreover have "unat ((gr_head r - gr_tail r) - 1) = length fs"
      using n ne by (simp add: n_def unat_minus_one)
    ultimately show ?thesis
      by (simp only:)
  qed
  have shift: "(unat (gr_tail r + 1) + k) mod 8 = (unat (gr_tail r) + Suc k) mod 8" for k
    using slot_step [of "gr_tail r" 1] mod_add_cong [of "unat (gr_tail r + 1)" 8 "unat (gr_tail r) + 1" k k] by simp
  have "ring_pop r = Some (Some f, ?r)"
    using ne first by (simp add: ring_pop_def Let_def slot_index)
  moreover have "ring_inv ?r"
    using assms(1) n by (auto simp: ring_inv_def len n_def [symmetric] shift)
  moreover have "ring_content ?r = fs"
  proof -
    have "ring_content r = map (\<lambda>k. the (gr_slots r ! ((unat (gr_tail r) + k) mod 8))) (0 # map Suc [0..<length fs])"
      unfolding ring_content_def n_def [symmetric] n by (simp only: upt_conv_Cons [OF zero_less_Suc] map_Suc_upt)
    then show ?thesis
      using assms(2) by (simp add: ring_content_def len shift comp_def)
  qed
  ultimately show ?thesis
    by blast
qed

lemma ring_new_inv: "ring_inv ring_new" "ring_content ring_new = []"
  by (simp_all add: ring_inv_def ring_content_def ring_new_def)

interpretation ring: bounded_queue ring_inv ring_content 8 ring_new ring_push ring_pop
  by unfold_locales
    (use ring_new_inv ring_push_room ring_push_full ring_pop_empty ring_pop_cons in auto)

definition frame0 :: GamepadFrameRaw where
  "frame0 = \<lparr>gf_buttons = 1, gf_left_x = 0, gf_left_y = 0, gf_right_x = 0, gf_right_y = 0, gf_left_trigger = 0, gf_right_trigger = 0\<rparr>"

section \<open>Two threads on a weak memory\<close>

text \<open>
  The memory keeps, for every location, the list of the values stored to it; each location has one writer.
  A load by the other thread returns any of them that its view does not rule out: coherence keeps it from
  going back behind what it has seen at that location, and an acquire load of a value that was stored with
  release takes over the view the writer had at the store. Without such a pair a thread may still
  find old contents, or none, in a slot whose counter it has seen. A frame is not one location: it is copied
  field by field, in any order, by the producer and by the consumer, so that a read can be torn or stale.
  Each thread performs its own accesses in program order; what is not modelled is a store that
  becomes visible before an earlier load of the same thread.
\<close>

datatype ordering = Relaxed | Release | Acquire

record orderings = \<comment> \<open>of the four accesses that the threads share; a thread's load of its own counter is relaxed\<close>
  mo_push_tail :: ordering
  mo_push_head :: ordering
  mo_pop_head :: ordering
  mo_pop_tail :: ordering

definition ring_orders :: orderings where
  "ring_orders = \<lparr>mo_push_tail = Relaxed, mo_push_head = Release, mo_pop_head = Acquire, mo_pop_tail = Release\<rparr>"

definition frame_parts :: "GamepadFrameRaw \<Rightarrow> u32 list" where
  \<comment> \<open>the fields, the unit of copying\<close>
  "frame_parts f = [gf_buttons f, ucast (gf_left_x f), ucast (gf_left_y f), ucast (gf_right_x f), ucast (gf_right_y f),
     ucast (gf_left_trigger f), ucast (gf_right_trigger f)]"

lemma length_frame_parts [simp]: "length (frame_parts f) = 7"
  by (simp add: frame_parts_def)

lemma frame_parts_inject: "frame_parts f = frame_parts g \<longleftrightarrow> f = g"
proof -
  have "uint (ucast x :: u32) = uint x" for x :: i16
    by (simp add: uint_up_ucast is_up)
  then have "(ucast x :: u32) = ucast y \<longleftrightarrow> x = y" for x y :: i16
    by (metis word_uint_eq_iff)
  then show ?thesis
    by (cases f, cases g) (simp add: frame_parts_def)
qed

type_synonym location = "nat \<times> nat" \<comment> \<open>slot and field\<close>

datatype producer =
    P_Idle
  | P_Loaded GamepadFrameRaw u64 \<comment> \<open>\<open>head\<close> is loaded\<close>
  | P_Write GamepadFrameRaw u64 "nat set" \<comment> \<open>the check has passed; these fields are still to be written\<close>

datatype consumer =
    C_Idle
  | C_Loaded u64 \<comment> \<open>\<open>tail\<close> is loaded\<close>
  | C_Read u64 "nat \<rightharpoonup> u32 option" \<comment> \<open>\<open>head\<close> is loaded and differs; the fields read so far, \<open>Some None\<close> for one
      that held no value yet\<close>

record spsc =
  sp_parts :: "location \<Rightarrow> u32 list" \<comment> \<open>the values stored to each field of each slot\<close>
  sp_heads :: "(u64 \<times> (location \<Rightarrow> nat)) list" \<comment> \<open>the values stored to \<open>head\<close>, each with the view it releases\<close>
  sp_tails :: "(u64 \<times> nat) list" \<comment> \<open>the values stored to \<open>tail\<close>, each with the number of slot reads it releases\<close>
  sp_prod :: producer
  sp_cons :: consumer
  sp_seen_tail :: nat \<comment> \<open>position in \<open>sp_tails\<close> the producer has seen\<close>
  sp_synced :: nat \<comment> \<open>slot reads of the consumer that happen before the producer's next step\<close>
  sp_seen_head :: nat \<comment> \<open>position in \<open>sp_heads\<close> the consumer has seen\<close>
  sp_view :: "location \<Rightarrow> nat" \<comment> \<open>how many of the stores to a field the consumer cannot miss\<close>
  sp_sent :: "GamepadFrameRaw list" \<comment> \<open>the frames published\<close>
  sp_got :: "u32 option list list" \<comment> \<open>the fields of the frames returned\<close>

definition spsc_new :: spsc where
  "spsc_new = \<lparr>sp_parts = (\<lambda>_. []), sp_heads = [(0, \<lambda>_. 0)], sp_tails = [(0, 0)], sp_prod = P_Idle, sp_cons = C_Idle,
     sp_seen_tail = 0, sp_synced = 0, sp_seen_head = 0, sp_view = (\<lambda>_. 0), sp_sent = [], sp_got = []\<rparr>"

definition load_tail :: "orderings \<Rightarrow> nat \<Rightarrow> spsc \<Rightarrow> spsc" where
  "load_tail mo k s = s\<lparr>sp_seen_tail := k,
     sp_synced := (if mo_push_tail mo = Acquire then max (sp_synced s) (snd (sp_tails s ! k)) else sp_synced s)\<rparr>"

definition load_head :: "orderings \<Rightarrow> nat \<Rightarrow> spsc \<Rightarrow> spsc" where
  "load_head mo k s = s\<lparr>sp_seen_head := k,
     sp_view := (if mo_pop_head mo = Acquire then (\<lambda>l. max (sp_view s l) (snd (sp_heads s ! k) l)) else sp_view s)\<rparr>"

definition store_head :: "orderings \<Rightarrow> u64 \<Rightarrow> spsc \<Rightarrow> spsc" where
  "store_head mo h s = s\<lparr>sp_heads := sp_heads s @
     [(h, if mo_push_head mo = Release then (\<lambda>l. length (sp_parts s l)) else (\<lambda>_. 0))]\<rparr>"

definition store_tail :: "orderings \<Rightarrow> u64 \<Rightarrow> spsc \<Rightarrow> spsc" where
  "store_tail mo t s = s\<lparr>sp_tails := sp_tails s @
     [(t, if mo_pop_tail mo = Release then Suc (length (sp_got s)) else 0)]\<rparr>"

inductive prod_step :: "orderings \<Rightarrow> spsc \<Rightarrow> spsc \<Rightarrow> bool" for mo where
  prod_start: "sp_prod s = P_Idle \<Longrightarrow> prod_step mo s (s\<lparr>sp_prod := P_Loaded f (fst (last (sp_heads s)))\<rparr>)"
| prod_full: "sp_prod s = P_Loaded f h \<Longrightarrow> sp_seen_tail s \<le> k \<Longrightarrow> k < length (sp_tails s) \<Longrightarrow>
    RING_CAPACITY \<le> h - fst (sp_tails s ! k) \<Longrightarrow> prod_step mo s ((load_tail mo k s)\<lparr>sp_prod := P_Idle\<rparr>)"
| prod_room: "sp_prod s = P_Loaded f h \<Longrightarrow> sp_seen_tail s \<le> k \<Longrightarrow> k < length (sp_tails s) \<Longrightarrow>
    \<not> RING_CAPACITY \<le> h - fst (sp_tails s ! k) \<Longrightarrow> prod_step mo s ((load_tail mo k s)\<lparr>sp_prod := P_Write f h {..<7}\<rparr>)"
| prod_write: "sp_prod s = P_Write f h todo \<Longrightarrow> j \<in> todo \<Longrightarrow> l = (unat (h mod RING_CAPACITY), j) \<Longrightarrow>
    prod_step mo s (s\<lparr>sp_prod := P_Write f h (todo - {j}), sp_parts := (sp_parts s)(l := sp_parts s l @ [frame_parts f ! j])\<rparr>)"
| prod_publish: "sp_prod s = P_Write f h {} \<Longrightarrow>
    prod_step mo s ((store_head mo (h + 1) s)\<lparr>sp_prod := P_Idle, sp_sent := sp_sent s @ [f]\<rparr>)"

inductive cons_step :: "orderings \<Rightarrow> spsc \<Rightarrow> spsc \<Rightarrow> bool" for mo where
  cons_start: "sp_cons s = C_Idle \<Longrightarrow> cons_step mo s (s\<lparr>sp_cons := C_Loaded (fst (last (sp_tails s)))\<rparr>)"
| cons_empty: "sp_cons s = C_Loaded t \<Longrightarrow> sp_seen_head s \<le> k \<Longrightarrow> k < length (sp_heads s) \<Longrightarrow>
    fst (sp_heads s ! k) = t \<Longrightarrow> cons_step mo s ((load_head mo k s)\<lparr>sp_cons := C_Idle\<rparr>)"
| cons_ready: "sp_cons s = C_Loaded t \<Longrightarrow> sp_seen_head s \<le> k \<Longrightarrow> k < length (sp_heads s) \<Longrightarrow>
    fst (sp_heads s ! k) \<noteq> t \<Longrightarrow> cons_step mo s ((load_head mo k s)\<lparr>sp_cons := C_Read t Map.empty\<rparr>)"
| cons_read: "sp_cons s = C_Read t got \<Longrightarrow> j < 7 \<Longrightarrow> got j = None \<Longrightarrow> l = (unat (t mod RING_CAPACITY), j) \<Longrightarrow>
    sp_view s l \<le> k \<Longrightarrow> k \<le> length (sp_parts s l) \<Longrightarrow>
    cons_step mo s (s\<lparr>sp_cons := C_Read t (got(j \<mapsto> (if k = 0 then None else Some (sp_parts s l ! (k - 1))))),
      sp_view := (sp_view s)(l := k)\<rparr>)"
| cons_publish: "sp_cons s = C_Read t got \<Longrightarrow> dom got = {..<7} \<Longrightarrow>
    cons_step mo s ((store_tail mo (t + 1) s)\<lparr>sp_cons := C_Idle, sp_got := sp_got s @ [map (the \<circ> got) [0..<7]]\<rparr>)"

inductive spsc_reach :: "orderings \<Rightarrow> spsc \<Rightarrow> bool" for mo where
  reach_new: "spsc_reach mo spsc_new"
| reach_prod: "spsc_reach mo s \<Longrightarrow> prod_step mo s s' \<Longrightarrow> spsc_reach mo s'"
| reach_cons: "spsc_reach mo s \<Longrightarrow> cons_step mo s s' \<Longrightarrow> spsc_reach mo s'"

text \<open>How many of the first \<open>n\<close> frames went to slot \<open>i\<close>.\<close>

definition slot_count :: "nat \<Rightarrow> nat \<Rightarrow> nat" where
  "slot_count i n = n div 8 + (if i < n mod 8 then 1 else 0)"

lemma slot_count_0 [simp]: "slot_count i 0 = 0"
  by (simp add: slot_count_def)

lemma slot_count_Suc: "i < 8 \<Longrightarrow> slot_count i (Suc n) = slot_count i n + (if n mod 8 = i then 1 else 0)"
  by (auto simp: slot_count_def mod_Suc div_Suc)

lemma slot_count_own: "slot_count (n mod 8) n = n div 8"
  by (simp add: slot_count_def)

lemma slot_count_mono: "i < 8 \<Longrightarrow> m \<le> n \<Longrightarrow> slot_count i m \<le> slot_count i n"
  by (induction n) (auto simp: slot_count_Suc le_Suc_eq)

lemma slot_count_index: "i < 8 \<Longrightarrow> k < slot_count i n \<Longrightarrow> 8 * k + i < n"
proof (induction n)
  case (Suc n)
  show ?case
  proof (cases "k < slot_count i n")
    case False
    then have "n mod 8 = i" "k = n div 8"
      using Suc.prems slot_count_own [of n] by (auto simp: slot_count_Suc split: if_splits)
    then show ?thesis
      by auto
  qed (use Suc in simp)
qed simp

lemma slot_count_near: "d < 8 \<Longrightarrow> slot_count (c mod 8) (Suc (c + d)) = Suc (c div 8)"
proof (induction d)
  case (Suc d)
  then show ?case
    using mod8_apart [of 0 "Suc d" c] by (simp add: slot_count_Suc)
qed (simp add: slot_count_Suc slot_count_own)

lemma slot_count_outstanding: "c < n \<Longrightarrow> n \<le> c + 8 \<Longrightarrow> slot_count (c mod 8) n = Suc (c div 8)"
  using slot_count_near [of "n - Suc c" c] by simp

text \<open>The invariant: the counters, the histories of the slots, and what each thread knows.\<close>

definition in_writing :: "producer \<Rightarrow> nat \<Rightarrow> location \<Rightarrow> nat" where
  \<comment> \<open>the store to a location that belongs to the frame not yet published\<close>
  "in_writing pr p l = (case pr of P_Write f h todo \<Rightarrow> (if fst l = p mod 8 \<and> snd l \<notin> todo then 1 else 0) | _ \<Rightarrow> 0)"

definition frames_of_prod :: "producer \<Rightarrow> GamepadFrameRaw list" where
  "frames_of_prod pr = (case pr of P_Write f h todo \<Rightarrow> [f] | _ \<Rightarrow> [])"

fun prod_ok :: "producer \<Rightarrow> nat \<Rightarrow> nat \<Rightarrow> bool" where
  "prod_ok P_Idle p seen \<longleftrightarrow> True"
| "prod_ok (P_Loaded f h) p seen \<longleftrightarrow> h = word_of_nat p"
| "prod_ok (P_Write f h todo) p seen \<longleftrightarrow> h = word_of_nat p \<and> p < seen + 8 \<and> todo \<subseteq> {..<7}"

fun cons_ok :: "consumer \<Rightarrow> nat \<Rightarrow> nat \<Rightarrow> GamepadFrameRaw list \<Rightarrow> bool" where
  "cons_ok C_Idle c seen sent \<longleftrightarrow> True"
| "cons_ok (C_Loaded t) c seen sent \<longleftrightarrow> t = word_of_nat c"
| "cons_ok (C_Read t got) c seen sent \<longleftrightarrow> t = word_of_nat c \<and> c < seen \<and>
     (\<forall>j x. got j = Some x \<longrightarrow> j < 7 \<and> x = Some (frame_parts (sent ! c) ! j))"

definition counters_ok :: "spsc \<Rightarrow> bool" where
  "counters_ok s \<longleftrightarrow> (let p = length (sp_sent s); c = length (sp_got s) in
     map fst (sp_heads s) = map word_of_nat [0..<Suc p] \<and> map fst (sp_tails s) = map word_of_nat [0..<Suc c] \<and>
     sp_seen_tail s \<le> c \<and> c \<le> sp_seen_head s \<and> sp_seen_head s \<le> p \<and> p \<le> sp_seen_tail s + 8 \<and>
     prod_ok (sp_prod s) p (sp_seen_tail s) \<and> cons_ok (sp_cons s) c (sp_seen_head s) (sp_sent s) \<and>
     sp_got s = map (map Some \<circ> frame_parts) (take c (sp_sent s)))"

definition memory_ok :: "spsc \<Rightarrow> bool" where
  "memory_ok s \<longleftrightarrow> (\<forall>i < 8. \<forall>j < 7.
     length (sp_parts s (i, j)) = slot_count i (length (sp_sent s)) + in_writing (sp_prod s) (length (sp_sent s)) (i, j) \<and>
     (\<forall>k < length (sp_parts s (i, j)). sp_parts s (i, j) ! k = frame_parts ((sp_sent s @ frames_of_prod (sp_prod s)) ! (8 * k + i)) ! j) \<and>
     (\<forall>m < length (sp_heads s). slot_count i m \<le> snd (sp_heads s ! m) (i, j)) \<and>
     slot_count i (sp_seen_head s) \<le> sp_view s (i, j))"

definition spsc_inv :: "spsc \<Rightarrow> bool" where
  "spsc_inv s \<longleftrightarrow> counters_ok s \<and> memory_ok s"

lemma count_slot: "unat ((word_of_nat k :: u64) mod 8) = k mod 8"
proof -
  have "unat (word_of_nat k :: u64) = k mod 2 ^ 64"
    by (simp add: unat_of_nat)
  moreover have "(8 :: nat) dvd 2 ^ 64"
    by simp
  ultimately show ?thesis
    by (simp only: slot_index mod_mod_cancel)
qed

lemma count_diff:
  assumes "k \<le> p" "p \<le> k + 8"
  shows "unat ((word_of_nat p :: u64) - word_of_nat k) = p - k"
proof -
  have "(word_of_nat p :: u64) - word_of_nat k = word_of_nat (p - k)"
    using assms(1) by (simp add: of_nat_diff)
  then show ?thesis
    using assms(2) by (simp add: unat_of_nat)
qed

text \<open>The stored counters.\<close>

lemma counter_log:
  assumes "map fst xs = map word_of_nat [0..<Suc n]"
  shows "length xs = Suc n" "k \<le> n \<Longrightarrow> fst (xs ! k) = word_of_nat k" "fst (last xs) = word_of_nat n"
proof -
  show len: "length xs = Suc n"
    using arg_cong [OF assms, of length] by simp
  show nth: "fst (xs ! k) = word_of_nat k" if "k \<le> n" for k
    using arg_cong [OF assms, of "\<lambda>ys. ys ! k"] that len by (simp del: upt_Suc)
  show "fst (last xs) = word_of_nat n"
    using nth [of n] len by (subst last_conv_nth) auto
qed

definition synchronises :: "orderings \<Rightarrow> bool" where
  "synchronises mo \<longleftrightarrow> mo_push_head mo = Release \<and> mo_pop_head mo = Acquire"

lemma ring_synchronises: "synchronises ring_orders"
  by (simp add: synchronises_def ring_orders_def)

lemma cons_ok_append: "cons_ok cs c seen sent \<Longrightarrow> seen \<le> length sent \<Longrightarrow> cons_ok cs c seen (sent @ xs)"
  by (cases cs) (auto simp: nth_append)

lemma cons_ok_mono: "cons_ok cs c seen sent \<Longrightarrow> seen \<le> seen' \<Longrightarrow> cons_ok cs c seen' sent"
  by (cases cs) auto

lemma memory_okD:
  assumes "memory_ok s" "i < 8" "j < 7"
  shows "length (sp_parts s (i, j)) = slot_count i (length (sp_sent s)) + in_writing (sp_prod s) (length (sp_sent s)) (i, j)"
    "k < length (sp_parts s (i, j)) \<Longrightarrow> sp_parts s (i, j) ! k = frame_parts ((sp_sent s @ frames_of_prod (sp_prod s)) ! (8 * k + i)) ! j"
    "m < length (sp_heads s) \<Longrightarrow> slot_count i m \<le> snd (sp_heads s ! m) (i, j)"
    "slot_count i (sp_seen_head s) \<le> sp_view s (i, j)"
  using assms by (simp_all add: memory_ok_def)

lemma prod_step_counters:
  assumes "prod_step mo s s'" "counters_ok s"
  shows "counters_ok s'"
  using assms(1)
proof cases
  case (prod_start f)
  have "fst (last (sp_heads s)) = word_of_nat (length (sp_sent s))"
    using assms(2) by (intro counter_log(3)) (simp add: counters_ok_def Let_def)
  then show ?thesis
    using prod_start assms(2) by (simp add: counters_ok_def Let_def)
next
  case (prod_full f h k)
  have "length (sp_tails s) = Suc (length (sp_got s))"
    using assms(2) by (intro counter_log(1)) (simp add: counters_ok_def Let_def)
  then show ?thesis
    using prod_full assms(2) by (simp add: counters_ok_def Let_def load_tail_def)
next
  case (prod_room f h k)
  have log: "map fst (sp_tails s) = map word_of_nat [0..<Suc (length (sp_got s))]"
    using assms(2) by (simp add: counters_ok_def Let_def)
  have k: "k \<le> length (sp_got s)" "fst (sp_tails s ! k) = word_of_nat k"
    using prod_room(4) counter_log(1,2) [OF log] by simp_all
  have le: "k \<le> length (sp_sent s)" "length (sp_sent s) \<le> k + 8" "h = word_of_nat (length (sp_sent s))"
    using prod_room k(1) assms(2) by (simp_all add: counters_ok_def Let_def)
  then have "length (sp_sent s) < k + 8"
    using prod_room(5) count_diff [OF le(1,2)] k(2) by (simp add: word_le_nat_alt)
  then show ?thesis
    using prod_room k(1) le(3) assms(2) by (simp add: counters_ok_def Let_def load_tail_def)
next
  case (prod_write f h todo j l)
  then show ?thesis
    using assms(2) by (auto simp: counters_ok_def Let_def)
next
  case (prod_publish f h)
  then show ?thesis
    using assms(2) by (simp add: counters_ok_def Let_def store_head_def cons_ok_append)
qed

lemma prod_step_memory:
  assumes "prod_step mo s s'" "counters_ok s" "memory_ok s" "synchronises mo"
  shows "memory_ok s'"
  using assms(1)
proof cases
  case (prod_start f)
  then show ?thesis
    using assms(3) by (simp add: memory_ok_def in_writing_def frames_of_prod_def)
next
  case (prod_full f h k)
  then show ?thesis
    using assms(3) by (simp add: memory_ok_def in_writing_def frames_of_prod_def load_tail_def)
next
  case (prod_room f h k)
  then show ?thesis
    using assms(3) by (auto simp: memory_ok_def in_writing_def frames_of_prod_def load_tail_def nth_append dest: slot_count_index)
next
  case (prod_write f h todo j l)
  let ?p = "length (sp_sent s)"
  have h: "h = word_of_nat ?p" "todo \<subseteq> {..<7}"
    using prod_write(2) assms(2) by (simp_all add: counters_ok_def Let_def)
  then have l: "l = (?p mod 8, j)" "j < 7"
    using prod_write(3,4) by (auto simp: count_slot)
  have old: "length (sp_parts s l) = ?p div 8"
    using memory_okD(1) [OF assms(3), of "?p mod 8" j] l prod_write(2,3) by (simp add: in_writing_def slot_count_own)
  have new: "(sp_sent s @ [f]) ! (8 * (?p div 8) + ?p mod 8) = f"
    by (simp only: mult_div_mod_eq nth_append_length)
  have stored: "(sp_parts s l @ [v]) ! (?p div 8) = v" for v
    using old by (metis nth_append_length)
  show ?thesis
    unfolding memory_ok_def
  proof (intro allI impI)
    fix i i' :: nat
    assume "i < 8" "i' < 7"
    then show "length (sp_parts s' (i, i')) = slot_count i (length (sp_sent s')) + in_writing (sp_prod s') (length (sp_sent s')) (i, i') \<and>
        (\<forall>k<length (sp_parts s' (i, i')). sp_parts s' (i, i') ! k =
          frame_parts ((sp_sent s' @ frames_of_prod (sp_prod s')) ! (8 * k + i)) ! i') \<and>
        (\<forall>m<length (sp_heads s'). slot_count i m \<le> snd (sp_heads s' ! m) (i, i')) \<and>
        slot_count i (sp_seen_head s') \<le> sp_view s' (i, i')"
      using memory_okD [OF assms(3), of i i'] prod_write(1-3) l old new stored
      by (auto simp: in_writing_def frames_of_prod_def slot_count_own nth_append_left less_Suc_eq)
  qed
next
  case (prod_publish f h)
  have len: "length (sp_heads s) = Suc (length (sp_sent s))"
    using assms(2) by (intro counter_log(1)) (simp add: counters_ok_def Let_def)
  show ?thesis
    using assms(3,4) prod_publish(1,2) len
    by (auto simp: memory_ok_def in_writing_def frames_of_prod_def store_head_def synchronises_def nth_append slot_count_Suc less_Suc_eq)
qed

text \<open>
  What the orderings are for: the acquire load has brought the view up to the store that published the
  frame, and the producer has stored nothing to the slot since, so only one value is left to read.
\<close>

lemma read_current:
  assumes "counters_ok s" "memory_ok s" "sp_cons s = C_Read t got" "j < 7" "l = (unat (t mod RING_CAPACITY), j)"
    "sp_view s l \<le> k" "k \<le> length (sp_parts s l)"
  shows "0 < k \<and> sp_parts s l ! (k - 1) = frame_parts (sp_sent s ! length (sp_got s)) ! j"
proof -
  let ?p = "length (sp_sent s)" and ?c = "length (sp_got s)"
  have c: "t = word_of_nat ?c" "?c < sp_seen_head s" "sp_seen_head s \<le> ?p" "?p \<le> ?c + 8"
    using assms(1,3) by (auto simp: counters_ok_def Let_def)
  have l: "l = (?c mod 8, j)"
    using c(1) assms(5) by (simp add: count_slot)
  note mem = memory_okD [OF assms(2), of "?c mod 8" j]
  have "Suc (?c div 8) \<le> k"
    using mem(4) slot_count_outstanding [OF c(2)] c(3,4) assms(4,6) l by simp
  moreover have "in_writing (sp_prod s) ?p (?c mod 8, j) = 0"
  proof -
    have "?p mod 8 \<noteq> ?c mod 8" if "?p < ?c + 8"
      using mod8_apart [of 0 "?p - ?c" ?c] that c(2,3) by (simp add: eq_commute)
    moreover have "?p < ?c + 8" if "sp_prod s = P_Write f h todo" for f h todo
      using that assms(1) by (auto simp: counters_ok_def Let_def)
    ultimately show ?thesis
      by (auto simp: in_writing_def split: producer.split)
  qed
  then have "length (sp_parts s l) = Suc (?c div 8)"
    using mem(1) slot_count_outstanding [of ?c ?p] c(2-4) assms(4) l by simp
  ultimately have k: "k = Suc (?c div 8)" "?c div 8 < length (sp_parts s l)"
    using assms(7) by simp_all
  have "(sp_sent s @ frames_of_prod (sp_prod s)) ! (8 * (?c div 8) + ?c mod 8) = sp_sent s ! ?c"
    using c(2,3) by (simp only: mult_div_mod_eq) (simp add: nth_append)
  then show ?thesis
    using mem(2) k assms(4) l by simp
qed

lemma cons_step_counters:
  assumes "cons_step mo s s'" "counters_ok s" "memory_ok s"
  shows "counters_ok s'"
  using assms(1)
proof cases
  case cons_start
  have "fst (last (sp_tails s)) = word_of_nat (length (sp_got s))"
    using assms(2) by (intro counter_log(3)) (simp add: counters_ok_def Let_def)
  then show ?thesis
    using cons_start assms(2) by (simp add: counters_ok_def Let_def)
next
  case (cons_empty t k)
  have "length (sp_heads s) = Suc (length (sp_sent s))"
    using assms(2) by (intro counter_log(1)) (simp add: counters_ok_def Let_def)
  then show ?thesis
    using cons_empty assms(2) by (simp add: counters_ok_def Let_def load_head_def)
next
  case (cons_ready t k)
  have log: "map fst (sp_heads s) = map word_of_nat [0..<Suc (length (sp_sent s))]"
    using assms(2) by (simp add: counters_ok_def Let_def)
  have k: "k \<le> length (sp_sent s)" "fst (sp_heads s ! k) = word_of_nat k"
    using cons_ready(4) counter_log(1,2) [OF log] by simp_all
  moreover have "length (sp_got s) \<noteq> k"
    using cons_ready assms(2) k(2) by (auto simp: counters_ok_def Let_def)
  ultimately show ?thesis
    using cons_ready assms(2) by (simp add: counters_ok_def Let_def load_head_def)
next
  case (cons_read t got j l k)
  then show ?thesis
    using assms(2) read_current [OF assms(2,3) cons_read(2,3,5-7)] by (auto simp: counters_ok_def Let_def)
next
  case (cons_publish t got)
  let ?c = "length (sp_got s)"
  have c: "t = word_of_nat ?c" "?c < sp_seen_head s" "sp_seen_head s \<le> length (sp_sent s)"
    "\<And>j x. got j = Some x \<Longrightarrow> x = Some (frame_parts (sp_sent s ! ?c) ! j)"
    using cons_publish assms(2) by (auto simp: counters_ok_def Let_def)
  have "map (the \<circ> got) [0..<7] = map Some (frame_parts (sp_sent s ! ?c))"
  proof (rule nth_equalityI)
    fix j
    assume "j < length (map (the \<circ> got) [0..<7])"
    then have j: "j < 7" "j \<in> dom got"
      using cons_publish(3) by simp_all
    then obtain x where "got j = Some x"
      by blast
    then show "map (the \<circ> got) [0..<7] ! j = map Some (frame_parts (sp_sent s ! ?c)) ! j"
      using c(4) [of j x] j(1) by simp
  qed simp
  then show ?thesis
    using cons_publish assms(2) c(1-3) by (auto simp: counters_ok_def Let_def store_tail_def take_Suc_conv_app_nth)
qed

lemma cons_step_memory:
  assumes "cons_step mo s s'" "counters_ok s" "memory_ok s" "synchronises mo"
  shows "memory_ok s'"
  using assms(1)
proof cases
  case (cons_empty t k)
  then show ?thesis
    using assms(3,4) by (auto simp: memory_ok_def load_head_def synchronises_def max.coboundedI2)
next
  case (cons_ready t k)
  then show ?thesis
    using assms(3,4) by (auto simp: memory_ok_def load_head_def synchronises_def max.coboundedI2)
next
  case (cons_read t got j l k)
  then show ?thesis
    using assms(3) by (fastforce simp: memory_ok_def)
qed (use assms(3) in \<open>simp_all add: memory_ok_def store_tail_def\<close>)

text \<open>No view runs ahead of the stores made.\<close>

definition views_ok :: "spsc \<Rightarrow> bool" where
  "views_ok s \<longleftrightarrow> (\<forall>l. sp_view s l \<le> length (sp_parts s l) \<and> (\<forall>m < length (sp_heads s). snd (sp_heads s ! m) l \<le> length (sp_parts s l)))"

lemma prod_step_views: "prod_step mo s s' \<Longrightarrow> views_ok s \<Longrightarrow> views_ok s'"
  by (induction rule: prod_step.induct)
    (auto simp: views_ok_def load_tail_def store_head_def nth_append less_Suc_eq intro: le_SucI)

lemma cons_step_views: "cons_step mo s s' \<Longrightarrow> views_ok s \<Longrightarrow> views_ok s'"
  by (induction rule: cons_step.induct) (auto simp: views_ok_def load_head_def store_tail_def)

lemma spsc_reach_views: "spsc_reach mo s \<Longrightarrow> views_ok s"
proof (induction rule: spsc_reach.induct)
  case reach_new
  then show ?case
    by (simp add: views_ok_def spsc_new_def)
qed (blast intro: prod_step_views cons_step_views)+

lemma spsc_reach_inv:
  assumes "spsc_reach mo s" "synchronises mo"
  shows "spsc_inv s"
  using assms(1)
proof (induction rule: spsc_reach.induct)
  case reach_new
  then show ?case
    by (simp add: spsc_inv_def counters_ok_def memory_ok_def spsc_new_def in_writing_def)
next
  case (reach_prod s s')
  then show ?case
    using prod_step_counters prod_step_memory assms(2) unfolding spsc_inv_def by blast
next
  case (reach_cons s s')
  then show ?case
    using cons_step_counters cons_step_memory assms(2) unfolding spsc_inv_def by blast
qed

text \<open>The consumer alone can always take the next published frame.\<close>

definition cons_gets :: "orderings \<Rightarrow> spsc \<Rightarrow> bool" where
  "cons_gets mo s \<longleftrightarrow> (\<exists>s'. (cons_step mo)\<^sup>*\<^sup>* s s' \<and> length (sp_got s') = Suc (length (sp_got s)) \<and> sp_sent s' = sp_sent s \<and>
     sp_prod s' = sp_prod s)"

lemma cons_gets_step:
  assumes "cons_step mo s s1" "sp_got s1 = sp_got s" "sp_sent s1 = sp_sent s" "sp_prod s1 = sp_prod s" "cons_gets mo s1"
  shows "cons_gets mo s"
  using assms unfolding cons_gets_def by (metis converse_rtranclp_into_rtranclp)

lemma cons_gets_read:
  assumes "sp_cons s = C_Read t got" "dom got \<subseteq> {..<7}" "\<forall>l. sp_view s l \<le> length (sp_parts s l)"
  shows "cons_gets mo s"
  using assms
proof (induction "card ({..<7} - dom got)" arbitrary: s got)
  case 0
  then have "dom got = {..<7}"
    by auto
  then have "cons_step mo s ((store_tail mo (t + 1) s)\<lparr>sp_cons := C_Idle, sp_got := sp_got s @ [map (the \<circ> got) [0..<7]]\<rparr>)"
    (is "cons_step mo s ?s")
    by (rule cons_step.cons_publish [OF "0.prems"(1)])
  moreover have "length (sp_got ?s) = Suc (length (sp_got s))" "sp_sent ?s = sp_sent s" "sp_prod ?s = sp_prod s"
    by (simp_all add: store_tail_def)
  ultimately show ?case
    unfolding cons_gets_def by blast
next
  case (Suc n)
  obtain j where j: "j < 7" "got j = None"
    using Suc.hyps(2) by (metis Diff_eq_empty_iff card.empty domIff lessThan_iff nat.distinct(1) subsetI)
  let ?l = "(unat (t mod RING_CAPACITY), j)"
  let ?got = "got(j \<mapsto> (if length (sp_parts s ?l) = 0 then None else Some (sp_parts s ?l ! (length (sp_parts s ?l) - 1))))"
  let ?s = "s\<lparr>sp_cons := C_Read t ?got, sp_view := (sp_view s)(?l := length (sp_parts s ?l))\<rparr>"
  have step: "cons_step mo s ?s"
    by (rule cons_step.cons_read [OF Suc.prems(1) j refl _ order_refl]) (use Suc.prems(3) in blast)
  have "{..<7} - dom ?got = {..<7} - dom got - {j}" "j \<in> {..<7} - dom got"
    using j by auto
  then have "n = card ({..<7} - dom ?got)"
    using Suc.hyps(2) by simp
  then have "cons_gets mo ?s"
    using Suc.hyps(1) [of ?got ?s] Suc.prems(2,3) j(1) by simp
  then show ?case
    by (rule cons_gets_step [OF step, rotated 3]) simp_all
qed

lemma cons_gets_loaded:
  assumes "sp_cons s = C_Loaded t" "counters_ok s" "views_ok s" "length (sp_got s) < length (sp_sent s)"
  shows "cons_gets mo s"
proof -
  let ?p = "length (sp_sent s)" and ?c = "length (sp_got s)"
  have inv: "t = word_of_nat ?c" "?p \<le> ?c + 8" "sp_seen_head s \<le> ?p"
    and log: "map fst (sp_heads s) = map word_of_nat [0..<Suc ?p]"
    using assms(1,2) by (auto simp: counters_ok_def Let_def)
  have "unat ((word_of_nat ?p :: u64) - word_of_nat ?c) \<noteq> 0"
    using count_diff [of ?c ?p] assms(4) inv(2) by simp
  then have "fst (sp_heads s ! ?p) \<noteq> t" "?p < length (sp_heads s)"
    using inv(1) counter_log(1,2) [OF log] by auto
  then have step: "cons_step mo s ((load_head mo ?p s)\<lparr>sp_cons := C_Read t Map.empty\<rparr>)" (is "cons_step mo s ?s")
    using cons_step.cons_ready [OF assms(1) inv(3)] by blast
  have "cons_gets mo ?s"
    using cons_step_views [OF step assms(3)] by (intro cons_gets_read) (auto simp: views_ok_def)
  then show ?thesis
    by (rule cons_gets_step [OF step, rotated 3]) (simp_all add: load_head_def)
qed

lemma cons_next:
  assumes "counters_ok s" "views_ok s" "length (sp_got s) < length (sp_sent s)"
  shows "cons_gets mo s"
proof (cases "sp_cons s")
  case C_Idle
  let ?s = "s\<lparr>sp_cons := C_Loaded (fst (last (sp_tails s)))\<rparr>"
  have step: "cons_step mo s ?s"
    using C_Idle by (rule cons_step.cons_start)
  have "fst (last (sp_tails s)) = word_of_nat (length (sp_got s))"
    using assms(1) by (intro counter_log(3)) (simp add: counters_ok_def Let_def)
  then have "counters_ok ?s"
    using assms(1) by (simp add: counters_ok_def Let_def)
  then have "cons_gets mo ?s"
    using cons_gets_loaded [of ?s] cons_step_views [OF step assms(2)] assms(3) by simp
  then show ?thesis
    by (rule cons_gets_step [OF step, rotated 3]) simp_all
next
  case (C_Loaded t)
  then show ?thesis
    using assms cons_gets_loaded by blast
next
  case (C_Read t got)
  then have "dom got \<subseteq> {..<7}"
    using assms(1) by (auto simp: counters_ok_def Let_def)
  then show ?thesis
    using C_Read assms(2) by (intro cons_gets_read) (simp_all add: views_ok_def)
qed

lemma cons_steps_reach: "(cons_step mo)\<^sup>*\<^sup>* s s' \<Longrightarrow> spsc_reach mo s \<Longrightarrow> spsc_reach mo s'"
  by (induction rule: rtranclp_induct) (auto intro: reach_cons)

lemma prod_steps_reach: "(prod_step mo)\<^sup>*\<^sup>* s s' \<Longrightarrow> spsc_reach mo s \<Longrightarrow> spsc_reach mo s'"
  by (induction rule: rtranclp_induct) (auto intro: reach_prod)

lemma cons_drains:
  assumes "spsc_reach mo s" "synchronises mo" "length (sp_got s) \<le> n" "n \<le> length (sp_sent s)"
  shows "\<exists>s'. (cons_step mo)\<^sup>*\<^sup>* s s' \<and> length (sp_got s') = n \<and> sp_sent s' = sp_sent s \<and> sp_prod s' = sp_prod s"
  using assms
proof (induction "n - length (sp_got s)" arbitrary: s)
  case 0
  then show ?case
    by auto
next
  case (Suc m)
  then have less: "length (sp_got s) < length (sp_sent s)"
    by linarith
  have "counters_ok s" "views_ok s"
    using spsc_reach_inv spsc_reach_views Suc.prems(1,2) by (auto simp: spsc_inv_def)
  then obtain s1 where s1: "(cons_step mo)\<^sup>*\<^sup>* s s1" "length (sp_got s1) = Suc (length (sp_got s))" "sp_sent s1 = sp_sent s"
    "sp_prod s1 = sp_prod s"
    using cons_next less unfolding cons_gets_def by blast
  have "m = n - length (sp_got s1)" "length (sp_got s1) \<le> n"
    using s1(2) Suc.hyps(2) by linarith+
  then obtain s' where "(cons_step mo)\<^sup>*\<^sup>* s1 s'" "length (sp_got s') = n" "sp_sent s' = sp_sent s1" "sp_prod s' = sp_prod s1"
    using Suc.hyps(1) [of s1] cons_steps_reach [OF s1(1) Suc.prems(1)] Suc.prems(2,4) s1(3) by metis
  then show ?case
    using s1 rtranclp_trans [OF s1(1)] by metis
qed

text \<open>An idle producer alone can publish a frame while fewer than eight are outstanding.\<close>

lemma prod_copies:
  assumes "sp_prod s = P_Write f h todo" "finite todo"
  shows "\<exists>s'. (prod_step mo)\<^sup>*\<^sup>* s s' \<and> sp_sent s' = sp_sent s @ [f] \<and> sp_got s' = sp_got s \<and> sp_prod s' = P_Idle"
  using assms(2,1)
proof (induction "card todo" arbitrary: todo s)
  case 0
  then have "prod_step mo s ((store_head mo (h + 1) s)\<lparr>sp_prod := P_Idle, sp_sent := sp_sent s @ [f]\<rparr>)" (is "prod_step mo s ?s")
    by (intro prod_step.prod_publish) simp
  moreover have "sp_sent ?s = sp_sent s @ [f]" "sp_got ?s = sp_got s" "sp_prod ?s = P_Idle"
    by (simp_all add: store_head_def)
  ultimately show ?case
    by blast
next
  case (Suc n)
  then obtain j where j: "j \<in> todo"
    by fastforce
  let ?l = "(unat (h mod RING_CAPACITY), j)"
  let ?s = "s\<lparr>sp_prod := P_Write f h (todo - {j}), sp_parts := (sp_parts s)(?l := sp_parts s ?l @ [frame_parts f ! j])\<rparr>"
  have "prod_step mo s ?s"
    by (rule prod_step.prod_write [OF Suc.prems(2) j refl])
  moreover have "n = card (todo - {j})"
    using Suc.hyps(2) Suc.prems(1) j by simp
  then obtain s' where "(prod_step mo)\<^sup>*\<^sup>* ?s s'" "sp_sent s' = sp_sent ?s @ [f]" "sp_got s' = sp_got ?s" "sp_prod s' = P_Idle"
    using Suc.hyps(1) [of "todo - {j}" ?s] Suc.prems(1) by fastforce
  moreover have "sp_sent ?s = sp_sent s" "sp_got ?s = sp_got s"
    by simp_all
  ultimately show ?case
    using converse_rtranclp_into_rtranclp by metis
qed

lemma prod_starts:
  assumes "counters_ok s" "sp_prod s = P_Idle" "length (sp_sent s) < length (sp_got s) + 8"
  shows "\<exists>s' h. (prod_step mo)\<^sup>*\<^sup>* s s' \<and> sp_prod s' = P_Write f h {..<7} \<and> sp_sent s' = sp_sent s \<and> sp_got s' = sp_got s"
proof -
  let ?p = "length (sp_sent s)" and ?c = "length (sp_got s)"
  let ?s1 = "s\<lparr>sp_prod := P_Loaded f (fst (last (sp_heads s)))\<rparr>"
  have le: "?c \<le> ?p" "?p \<le> ?c + 8" "sp_seen_tail s \<le> ?c"
    and heads: "map fst (sp_heads s) = map word_of_nat [0..<Suc ?p]" and tails: "map fst (sp_tails s) = map word_of_nat [0..<Suc ?c]"
    using assms(1,3) by (auto simp: counters_ok_def Let_def)
  have "\<not> RING_CAPACITY \<le> fst (last (sp_heads s)) - fst (sp_tails s ! ?c)"
    using count_diff [OF le(1,2)] assms(3) counter_log(2) [OF tails order_refl] counter_log(3) [OF heads]
    by (simp add: word_le_nat_alt)
  then have "prod_step mo ?s1 ((load_tail mo ?c ?s1)\<lparr>sp_prod := P_Write f (fst (last (sp_heads s))) {..<7}\<rparr>)"
    using le(3) counter_log(1) [OF tails] by (intro prod_step.prod_room) simp_all
  moreover have "prod_step mo s ?s1"
    using assms(2) by (rule prod_step.prod_start)
  ultimately have "(prod_step mo)\<^sup>*\<^sup>* s ((load_tail mo ?c ?s1)\<lparr>sp_prod := P_Write f (fst (last (sp_heads s))) {..<7}\<rparr>)"
    (is "(prod_step mo)\<^sup>*\<^sup>* s ?s2")
    by simp
  moreover have "sp_prod ?s2 = P_Write f (fst (last (sp_heads s))) {..<7}" "sp_sent ?s2 = sp_sent s" "sp_got ?s2 = sp_got s"
    by (simp_all add: load_tail_def)
  ultimately show ?thesis
    by blast
qed

lemma prod_sends:
  assumes "counters_ok s" "sp_prod s = P_Idle" "length (sp_sent s) < length (sp_got s) + 8"
  shows "\<exists>s'. (prod_step mo)\<^sup>*\<^sup>* s s' \<and> sp_sent s' = sp_sent s @ [f] \<and> sp_got s' = sp_got s \<and> sp_prod s' = P_Idle"
  using prod_starts [OF assms, of mo f] prod_copies [of _ f] by (metis finite_lessThan rtranclp_trans)

section \<open>What the orderings buy, and what they leave open\<close>

text \<open>
  The orderings matter to the model: if \<open>head\<close> were stored without release, the consumer could see the new
  counter and still read a field that holds no value.
\<close>

lemma prod_step_frame:
  "prod_step mo s s' \<Longrightarrow> sp_view s' = sp_view s \<and> sp_cons s' = sp_cons s \<and> sp_seen_head s' = sp_seen_head s \<and> sp_tails s' = sp_tails s"
  by (induction rule: prod_step.induct) (simp_all add: load_tail_def store_head_def)

lemma prod_step_unreleased:
  "prod_step mo s s' \<Longrightarrow> mo_push_head mo \<noteq> Release \<Longrightarrow> \<forall>m < length (sp_heads s). snd (sp_heads s ! m) = (\<lambda>_. 0) \<Longrightarrow>
     \<forall>m < length (sp_heads s'). snd (sp_heads s' ! m) = (\<lambda>_. 0)"
  by (induction rule: prod_step.induct) (auto simp: load_tail_def store_head_def nth_append less_Suc_eq)

lemma counters_new: "counters_ok spsc_new"
  by (simp add: counters_ok_def spsc_new_def)

lemma relaxed_publish_reads_nothing:
  assumes "mo_push_head mo \<noteq> Release"
  shows "\<exists>s t got. spsc_reach mo s \<and> sp_cons s = C_Read t got \<and> got 0 = Some None"
proof -
  obtain s where s: "(prod_step mo)\<^sup>*\<^sup>* spsc_new s" "sp_sent s = [frame0]" "sp_got s = []"
    using prod_sends [OF counters_new, of mo frame0] by (auto simp: spsc_new_def)
  have "counters_ok s \<and> sp_view s = (\<lambda>_. 0) \<and> sp_cons s = C_Idle \<and> sp_seen_head s = 0 \<and> sp_tails s = [(0, 0)] \<and>
      (\<forall>m < length (sp_heads s). snd (sp_heads s ! m) = (\<lambda>_. 0))"
    using s(1)
  proof (induction rule: rtranclp_induct)
    case base
    then show ?case
      using counters_new by (simp add: spsc_new_def)
  next
    case (step s s')
    then show ?case
      using prod_step_counters prod_step_frame prod_step_unreleased [OF _ assms] by simp
  qed
  then have inv: "map fst (sp_heads s) = map word_of_nat [0..<Suc 1]" "sp_view s = (\<lambda>_. 0)" "sp_cons s = C_Idle"
    "sp_seen_head s = 0" "sp_tails s = [(0, 0)]" and unreleased: "\<forall>m < length (sp_heads s). snd (sp_heads s ! m) = (\<lambda>_. 0)"
    using s(2) by (auto simp: counters_ok_def Let_def)
  have one: "length (sp_heads s) = 2" "fst (sp_heads s ! 1) = 1" "snd (sp_heads s ! 1) = (\<lambda>_. 0)"
    using counter_log(1,2) [OF inv(1)] unreleased by simp_all
  let ?s1 = "s\<lparr>sp_cons := C_Loaded 0\<rparr>"
  let ?s2 = "(load_head mo 1 ?s1)\<lparr>sp_cons := C_Read 0 Map.empty\<rparr>"
  have "cons_step mo s ?s1"
    using cons_step.cons_start [OF inv(3), of mo] inv(5) by simp
  moreover have "cons_step mo ?s1 ?s2"
    using inv(4) one by (intro cons_step.cons_ready) simp_all
  moreover have "sp_view ?s2 = (\<lambda>_. 0)"
    using inv(2) one(3) by (simp add: load_head_def)
  then have "cons_step mo ?s2 (?s2\<lparr>sp_cons := C_Read 0 [0 \<mapsto> None], sp_view := (sp_view ?s2)((0, 0) := 0)\<rparr>)" (is "cons_step mo ?s2 ?s3")
    using cons_step.cons_read [of ?s2 0 Map.empty 0 "(0, 0)" 0 mo] by simp
  ultimately have "spsc_reach mo ?s3"
    using prod_steps_reach [OF s(1) reach_new] by (meson reach_cons)
  then show ?thesis
    by (intro exI [of _ ?s3] exI [of _ 0] exI [of _ "[0 \<mapsto> None]"]) simp
qed

text \<open>
  Reading a slot and writing it again are not atomic accesses; by the memory model of the language they race
  unless the read happens before the write. The only thing that could order them is the pair of the
  consumer's release store to \<open>tail\<close> and the producer's load of it.
\<close>

definition slot_race :: "spsc \<Rightarrow> bool" where
  \<comment> \<open>the producer writes into the slot of a frame whose read does not happen before\<close>
  "slot_race s \<longleftrightarrow> (\<exists>f h todo. sp_prod s = P_Write f h todo) \<and> 8 \<le> length (sp_sent s) \<and> sp_synced s \<le> length (sp_sent s) - 8"

lemma relaxed_tail_unsynced: "spsc_reach mo s \<Longrightarrow> mo_push_tail mo \<noteq> Acquire \<Longrightarrow> sp_synced s = 0"
proof (induction rule: spsc_reach.induct)
  case (reach_prod s s')
  from reach_prod(2,1,3,4) show ?case
    by (induction rule: prod_step.induct) (simp_all add: load_tail_def store_head_def)
next
  case (reach_cons s s')
  from reach_cons(2,1,3,4) show ?case
    by (induction rule: cons_step.induct) (simp_all add: load_head_def store_tail_def)
qed (simp add: spsc_new_def)

lemma fills_up: "n \<le> 8 \<Longrightarrow> \<exists>s. spsc_reach ring_orders s \<and> sp_prod s = P_Idle \<and> length (sp_sent s) = n \<and> sp_got s = []"
proof (induction n)
  case 0
  then show ?case
    by (intro exI [of _ spsc_new] conjI reach_new) (simp_all add: spsc_new_def)
next
  case (Suc n)
  then obtain s where s: "spsc_reach ring_orders s" "sp_prod s = P_Idle" "length (sp_sent s) = n" "sp_got s = []"
    by auto
  then have "counters_ok s"
    using spsc_reach_inv ring_synchronises by (auto simp: spsc_inv_def)
  then obtain s' where "(prod_step ring_orders)\<^sup>*\<^sup>* s s'" "sp_sent s' = sp_sent s @ [frame0]" "sp_got s' = sp_got s" "sp_prod s' = P_Idle"
    using prod_sends [of s ring_orders frame0] s Suc.prems by auto
  then show ?case
    using s prod_steps_reach by (intro exI [of _ s']) auto
qed

text \<open>With the orderings of the code the reuse of a slot races: the producer loads \<open>tail\<close> relaxed.\<close>

lemma slot_reuse_races: "\<exists>s. spsc_reach ring_orders s \<and> slot_race s"
proof -
  obtain s where s: "spsc_reach ring_orders s" "sp_prod s = P_Idle" "length (sp_sent s) = 8" "sp_got s = []"
    using fills_up [of 8] by auto
  obtain s1 where s1: "(cons_step ring_orders)\<^sup>*\<^sup>* s s1" "length (sp_got s1) = 1" "sp_sent s1 = sp_sent s" "sp_prod s1 = sp_prod s"
    using cons_drains [OF s(1) ring_synchronises, of 1] s(3,4) by auto
  have reach1: "spsc_reach ring_orders s1"
    by (rule cons_steps_reach [OF s1(1) s(1)])
  then have "counters_ok s1"
    using spsc_reach_inv ring_synchronises by (auto simp: spsc_inv_def)
  then obtain s2 h where s2: "(prod_step ring_orders)\<^sup>*\<^sup>* s1 s2" "sp_prod s2 = P_Write frame0 h {..<7}" "sp_sent s2 = sp_sent s1"
    using prod_starts [of s1 ring_orders frame0] s s1 by auto
  have "spsc_reach ring_orders s2"
    by (rule prod_steps_reach [OF s2(1) reach1])
  moreover from this have "sp_synced s2 = 0"
    by (rule relaxed_tail_unsynced) (simp add: ring_orders_def)
  ultimately show ?thesis
    using s2 s1(3) s(3) by (intro exI [of _ s2]) (simp add: slot_race_def)
qed

text \<open>An acquire load of \<open>tail\<close> in \<open>push\<close> would order every reuse.\<close>

lemma acquire_tail_synced:
  assumes "spsc_reach mo s" "synchronises mo" "mo_push_tail mo = Acquire" "mo_pop_tail mo = Release"
  shows "sp_seen_tail s \<le> sp_synced s \<and> (\<forall>k < length (sp_tails s). snd (sp_tails s ! k) = k)"
  using assms(1)
proof (induction rule: spsc_reach.induct)
  case (reach_prod s s')
  from reach_prod(2,3) show ?case
    by (induction rule: prod_step.induct) (use assms(3) in \<open>auto simp: load_tail_def store_head_def\<close>)
next
  case (reach_cons s s')
  have "length (sp_tails s) = Suc (length (sp_got s))"
    using spsc_reach_inv [OF reach_cons(1) assms(2)] by (intro counter_log(1)) (simp add: spsc_inv_def counters_ok_def Let_def)
  with reach_cons(2,3) show ?case
    by (induction rule: cons_step.induct) (use assms(4) in \<open>auto simp: load_head_def store_tail_def nth_append less_Suc_eq\<close>)
qed (simp add: spsc_new_def)

lemma acquire_tail_race_free:
  assumes "spsc_reach mo s" "synchronises mo" "mo_push_tail mo = Acquire" "mo_pop_tail mo = Release"
  shows "\<not> slot_race s"
  using acquire_tail_synced [OF assms] spsc_reach_inv [OF assms(1,2)]
  by (auto simp: slot_race_def spsc_inv_def counters_ok_def Let_def)

section \<open>Properties\<close>

text \<open>
  C16 (refinement). The ring is a FIFO queue of at most eight frames: in every sequence of calls of
  \<open>push\<close> and \<open>pop\<close> no slot is read before it was written, the frames accepted are the frames returned
  followed by those still inside, in order, across any number of wrap-arounds of the 64-bit counters;
  \<open>len\<close> is the number of frames inside, and \<open>push\<close> fails exactly when it is eight.
\<close>

theorem ring_fifo:
  "\<exists>acc got r. ring.run qs ring_new = Some (acc, got, r) \<and> acc = got @ ring_content r \<and>
     unat (ring_len r) = length (ring_content r) \<and> length (ring_content r) \<le> 8 \<and>
     (fst (ring_push f r) = (if ring_len r = RING_CAPACITY then Inl Full else Inr ())) \<and>
     (ring_is_empty r \<longleftrightarrow> ring_content r = [])"
proof -
  obtain acc got r where r: "ring.run qs ring_new = Some (acc, got, r)" "ring_inv r" "length (ring_content r) \<le> 8"
    "acc = got @ ring_content r"
    using ring.run_fifo [OF ring_new_inv(1), of qs] ring_new_inv(2) by auto
  have "unat (ring_len r) = length (ring_content r)"
    using r(2) by (simp add: ring_len_def ring_content_def ring_inv_def min_def word_le_nat_alt)
  moreover from this have full: "ring_len r = RING_CAPACITY \<longleftrightarrow> \<not> length (ring_content r) < 8"
    using r(3) by (auto simp: word_unat_eq_iff)
  moreover have "fst (ring_push f r) = (if ring_len r = RING_CAPACITY then Inl Full else Inr ())"
  proof (cases "length (ring_content r) < 8")
    case True
    then show ?thesis
      using ring_push_room [OF r(2) True, of f] unfolding full by auto
  next
    case False
    then show ?thesis
      using ring_push_full [OF r(2) False, of f] unfolding full by simp
  qed
  moreover have "ring_is_empty r \<longleftrightarrow> ring_content r = []"
    using calculation(1) by (auto simp: ring_is_empty_def word_unat_eq_iff)
  ultimately show ?thesis
    using r by blast
qed

text \<open>
  C17 (safety). The ring is correct for one producer and one consumer thread that interleave in any way, on
  a memory where frames are copied field by field and every load may return an old value unless the
  acquire and release orderings of the code rule it out: the frames returned by \<open>pop\<close> are always the
  first ones published, in order, with every field theirs and written, none lost, duplicated, torn or stale; at
  most eight are outstanding; at any moment the consumer's own steps suffice to take all that are published; and
  an idle producer can publish a frame by its own steps while fewer than eight are outstanding. Each
  thread's accesses take effect in program order, so a store never overtakes an earlier load; that the language
  does not promise this for the reuse of a slot is \<open>slot_reuse_races\<close>.
\<close>

theorem spsc_fifo:
  assumes "spsc_reach ring_orders s"
  shows "prefix (sp_got s) (map (map Some \<circ> frame_parts) (sp_sent s)) \<and> length (sp_sent s) \<le> length (sp_got s) + 8 \<and>
    (\<exists>s'. (cons_step ring_orders)\<^sup>*\<^sup>* s s' \<and> sp_got s' = map (map Some \<circ> frame_parts) (sp_sent s)) \<and>
    (sp_prod s = P_Idle \<and> length (sp_sent s) < length (sp_got s) + 8 \<longrightarrow>
      (\<exists>s'. (prod_step ring_orders)\<^sup>*\<^sup>* s s' \<and> sp_sent s' = sp_sent s @ [f]))"
proof -
  have got: "counters_ok s \<Longrightarrow> sp_got s = map (map Some \<circ> frame_parts) (take (length (sp_got s)) (sp_sent s))" for s
    by (simp add: counters_ok_def Let_def)
  have inv: "counters_ok s"
    using spsc_reach_inv [OF assms ring_synchronises] by (simp add: spsc_inv_def)
  then have le: "length (sp_got s) \<le> length (sp_sent s)" "length (sp_sent s) \<le> length (sp_got s) + 8"
    by (auto simp: counters_ok_def Let_def)
  obtain s' where s': "(cons_step ring_orders)\<^sup>*\<^sup>* s s'" "length (sp_got s') = length (sp_sent s)" "sp_sent s' = sp_sent s"
    using cons_drains [OF assms ring_synchronises le(1) order_refl] by blast
  have "counters_ok s'"
    using spsc_reach_inv [OF cons_steps_reach [OF s'(1) assms] ring_synchronises] by (simp add: spsc_inv_def)
  then have "sp_got s' = map (map Some \<circ> frame_parts) (sp_sent s)"
    using got [of s'] s'(2,3) by simp
  moreover have "prefix (sp_got s) (map (map Some \<circ> frame_parts) (sp_sent s))"
    by (subst got [OF inv]) (metis take_is_prefix take_map)
  ultimately show ?thesis
    using s'(1) le(2) prod_sends [OF inv] by blast
qed

theorem spsc_fifo_witness:
  "\<exists>s s'. spsc_reach ring_orders s \<and> sp_sent s = [frame0] \<and> sp_got s = [] \<and> (cons_step ring_orders)\<^sup>*\<^sup>* s s' \<and>
     sp_got s' = [[Some 1, Some 0, Some 0, Some 0, Some 0, Some 0, Some 0]]"
proof -
  obtain s where s: "(prod_step ring_orders)\<^sup>*\<^sup>* spsc_new s" "sp_sent s = [frame0]" "sp_got s = []"
    using spsc_fifo [OF reach_new, of frame0] prod_sends [OF counters_new, of ring_orders frame0] by (auto simp: spsc_new_def)
  have reach: "spsc_reach ring_orders s"
    by (rule prod_steps_reach [OF s(1) reach_new])
  obtain s' where "(cons_step ring_orders)\<^sup>*\<^sup>* s s'" "sp_got s' = map (map Some \<circ> frame_parts) (sp_sent s)"
    using spsc_fifo [OF reach] by blast
  then show ?thesis
    using s reach by (intro exI [of _ s] exI [of _ s']) (simp add: frame_parts_def frame0_def)
qed

end
