(* ===== verification/Verbs.thy ===== *)
theory Verbs
  imports Prelude
begin

text \<open>
  \<^verbatim>\<open>src/android-hid-protocol/src/verb.rs\<close>: the verbs of the daemon, with the names of the source prefixed by
  \<open>V_\<close>, their wire names and the two ways to reply.
\<close>

datatype Verb =
    V_Ping | V_Info | V_Quit | V_Dump | V_DumpActive | V_Screenshot | V_Stream | V_StreamH264 | V_StreamH265 |
    V_StreamTileJpeg | V_StreamTileH265 | V_Keyframe | V_Tap | V_Swipe | V_SwipeDir | V_Down | V_Move | V_Up |
    V_Scroll | V_Key | V_Text | V_WaitForIdle | V_WaitForText | V_WaitForActivity | V_TapAndDump |
    V_TapAndSettle | V_SelectAndTap | V_AiAnchorTap | V_TypeAndWait | V_ClickUntilText | V_DumpAndFrame |
    V_KeyframeAndWait | V_HevcParamSets | V_State | V_StateWatch | V_NodeClick | V_NodeLongClick |
    V_NodeSetText | V_NodeScroll | V_NodeFocus | V_Submit | V_PmList | V_PmPath | V_PmUninstall | V_PmGrant |
    V_PmRevoke | V_Deeplinks | V_Install | V_InstallMulti | V_Sms | V_Calls | V_Contacts | V_Calendar |
    V_ClipGet | V_ClipSet | V_ClipWatch | V_AmStart | V_AmForceStop | V_AmKill | V_AmBroadcast | V_Pull |
    V_Push | V_Getprop | V_Setprop | V_SettingsGet | V_SettingsPut | V_WmInfo | V_WmRotation | V_Dumpsys |
    V_Logcat | V_Shell | V_Monitor | V_Paste

primrec as_str :: "Verb \<Rightarrow> string" where
  "as_str V_Ping = ''ping''"
| "as_str V_Info = ''info''"
| "as_str V_Quit = ''quit''"
| "as_str V_Dump = ''dump''"
| "as_str V_DumpActive = ''dump_active''"
| "as_str V_Screenshot = ''screenshot''"
| "as_str V_Stream = ''stream''"
| "as_str V_StreamH264 = ''stream_h264''"
| "as_str V_StreamH265 = ''stream_h265''"
| "as_str V_StreamTileJpeg = ''stream_tilejpeg''"
| "as_str V_StreamTileH265 = ''stream_tile_h265''"
| "as_str V_Keyframe = ''keyframe''"
| "as_str V_Tap = ''tap''"
| "as_str V_Swipe = ''swipe''"
| "as_str V_SwipeDir = ''swipe_dir''"
| "as_str V_Down = ''down''"
| "as_str V_Move = ''move''"
| "as_str V_Up = ''up''"
| "as_str V_Scroll = ''scroll''"
| "as_str V_Key = ''key''"
| "as_str V_Text = ''text''"
| "as_str V_WaitForIdle = ''wait_for_idle''"
| "as_str V_WaitForText = ''wait_for_text''"
| "as_str V_WaitForActivity = ''wait_for_activity''"
| "as_str V_TapAndDump = ''tap_and_dump''"
| "as_str V_TapAndSettle = ''tap_and_settle''"
| "as_str V_SelectAndTap = ''select_and_tap''"
| "as_str V_AiAnchorTap = ''ai_anchor_tap''"
| "as_str V_TypeAndWait = ''type_and_wait''"
| "as_str V_ClickUntilText = ''click_until_text''"
| "as_str V_DumpAndFrame = ''dump_and_frame''"
| "as_str V_KeyframeAndWait = ''keyframe_and_wait''"
| "as_str V_HevcParamSets = ''hevc_param_sets''"
| "as_str V_State = ''state''"
| "as_str V_StateWatch = ''state_watch''"
| "as_str V_NodeClick = ''node_click''"
| "as_str V_NodeLongClick = ''node_long_click''"
| "as_str V_NodeSetText = ''node_set_text''"
| "as_str V_NodeScroll = ''node_scroll''"
| "as_str V_NodeFocus = ''node_focus''"
| "as_str V_Submit = ''submit''"
| "as_str V_PmList = ''pm_list''"
| "as_str V_PmPath = ''pm_path''"
| "as_str V_PmUninstall = ''pm_uninstall''"
| "as_str V_PmGrant = ''pm_grant''"
| "as_str V_PmRevoke = ''pm_revoke''"
| "as_str V_Deeplinks = ''deeplinks''"
| "as_str V_Install = ''install''"
| "as_str V_InstallMulti = ''install_multi''"
| "as_str V_Sms = ''sms''"
| "as_str V_Calls = ''calls''"
| "as_str V_Contacts = ''contacts''"
| "as_str V_Calendar = ''calendar''"
| "as_str V_ClipGet = ''clip_get''"
| "as_str V_ClipSet = ''clip_set''"
| "as_str V_ClipWatch = ''clip_watch''"
| "as_str V_AmStart = ''am_start''"
| "as_str V_AmForceStop = ''am_force_stop''"
| "as_str V_AmKill = ''am_kill''"
| "as_str V_AmBroadcast = ''am_broadcast''"
| "as_str V_Pull = ''pull''"
| "as_str V_Push = ''push''"
| "as_str V_Getprop = ''getprop''"
| "as_str V_Setprop = ''setprop''"
| "as_str V_SettingsGet = ''settings_get''"
| "as_str V_SettingsPut = ''settings_put''"
| "as_str V_WmInfo = ''wm_info''"
| "as_str V_WmRotation = ''wm_rotation''"
| "as_str V_Dumpsys = ''dumpsys''"
| "as_str V_Logcat = ''logcat''"
| "as_str V_Shell = ''shell''"
| "as_str V_Monitor = ''monitor''"
| "as_str V_Paste = ''paste''"

definition verb_table :: "(string \<times> Verb) list" where
  \<comment> \<open>the arms of \<open>Verb::parse\<close>\<close>
  "verb_table = [
     (''ping'', V_Ping), (''info'', V_Info), (''quit'', V_Quit), (''dump'', V_Dump),
     (''dump_active'', V_DumpActive), (''screenshot'', V_Screenshot), (''stream'', V_Stream),
     (''stream_h264'', V_StreamH264), (''stream_h265'', V_StreamH265), (''stream_tilejpeg'', V_StreamTileJpeg),
     (''stream_tile_h265'', V_StreamTileH265), (''keyframe'', V_Keyframe), (''tap'', V_Tap),
     (''swipe'', V_Swipe), (''swipe_dir'', V_SwipeDir), (''down'', V_Down), (''move'', V_Move), (''up'', V_Up),
     (''scroll'', V_Scroll), (''key'', V_Key), (''text'', V_Text), (''wait_for_idle'', V_WaitForIdle),
     (''wait_for_text'', V_WaitForText), (''wait_for_activity'', V_WaitForActivity),
     (''tap_and_dump'', V_TapAndDump), (''tap_and_settle'', V_TapAndSettle),
     (''select_and_tap'', V_SelectAndTap), (''ai_anchor_tap'', V_AiAnchorTap),
     (''type_and_wait'', V_TypeAndWait), (''click_until_text'', V_ClickUntilText),
     (''dump_and_frame'', V_DumpAndFrame), (''keyframe_and_wait'', V_KeyframeAndWait),
     (''hevc_param_sets'', V_HevcParamSets), (''state'', V_State), (''state_watch'', V_StateWatch),
     (''node_click'', V_NodeClick), (''node_long_click'', V_NodeLongClick), (''node_set_text'', V_NodeSetText),
     (''node_scroll'', V_NodeScroll), (''node_focus'', V_NodeFocus), (''submit'', V_Submit),
     (''pm_list'', V_PmList), (''pm_path'', V_PmPath), (''pm_uninstall'', V_PmUninstall),
     (''pm_grant'', V_PmGrant), (''pm_revoke'', V_PmRevoke), (''deeplinks'', V_Deeplinks),
     (''install'', V_Install), (''install_multi'', V_InstallMulti), (''sms'', V_Sms), (''calls'', V_Calls),
     (''contacts'', V_Contacts), (''calendar'', V_Calendar), (''clip_get'', V_ClipGet),
     (''clip_set'', V_ClipSet), (''clip_watch'', V_ClipWatch), (''am_start'', V_AmStart),
     (''am_force_stop'', V_AmForceStop), (''am_kill'', V_AmKill), (''am_broadcast'', V_AmBroadcast),
     (''pull'', V_Pull), (''push'', V_Push), (''getprop'', V_Getprop), (''setprop'', V_Setprop),
     (''settings_get'', V_SettingsGet), (''settings_put'', V_SettingsPut), (''wm_info'', V_WmInfo),
     (''wm_rotation'', V_WmRotation), (''dumpsys'', V_Dumpsys), (''logcat'', V_Logcat), (''shell'', V_Shell),
     (''monitor'', V_Monitor), (''paste'', V_Paste)]"

datatype VerbParseError = VerbParseError string

definition verb_parse :: "string \<Rightarrow> VerbParseError + Verb" where
  "verb_parse s = (case map_of verb_table s of Some v \<Rightarrow> Inr v | None \<Rightarrow> Inl (VerbParseError s))"

definition is_streaming :: "Verb \<Rightarrow> bool" where
  "is_streaming v \<longleftrightarrow> v \<in> {
     V_Stream, V_StreamH264, V_StreamH265, V_StreamTileJpeg, V_StreamTileH265, V_Pull, V_Dumpsys, V_Logcat,
     V_Monitor, V_StateWatch, V_ClipWatch, V_Shell}"

definition is_unary :: "Verb \<Rightarrow> bool" where
  "is_unary v \<longleftrightarrow> \<not> is_streaming v"

lemma verb_table_sound: "list_all (\<lambda>(s, v). as_str v = s) verb_table"
  by (simp add: verb_table_def)

lemma verb_table_complete: "map_of verb_table (as_str v) = Some v"
proof (rule map_of_is_SomeI)
  show "distinct (map fst verb_table)"
    by code_simp
  show "(as_str v, v) \<in> set verb_table"
    by (cases v) (simp_all only: verb_table_def as_str.simps list.set insert_iff prod.inject simp_thms)
qed

text \<open>
  The parser of verbs is the inverse of their printer: a name parses to a verb exactly
  when it is the wire name of that verb, every verb is reached, and every other name is rejected with an
  error that carries the name.
\<close>

theorem verb_roundtrip:
  "(verb_parse s = Inr v \<longleftrightarrow> s = as_str v) \<and> (verb_parse s = Inl (VerbParseError s) \<longleftrightarrow> s \<notin> range as_str)"
proof -
  have "as_str v = s" if "map_of verb_table s = Some v" for s v
    using map_of_SomeD [OF that] verb_table_sound by (auto simp: list_all_iff)
  then show ?thesis
    using verb_table_complete by (auto simp: verb_parse_def split: option.splits)
qed

end
