(* ===== verification/Kvs.thy ===== *)
theory Kvs
  imports Verbs "HOL-Library.Sublist"
begin

text \<open>
  \<^verbatim>\<open>src/android-hid-protocol/src/kvs.rs\<close>: the parser of \<open>key=value\<close> tokens, the writer and the splitting of a
  command line. A \<open>&str\<close> is the list of its scalar values; all delimiters are ASCII, so that the byte
  positions of the source are positions in this list. \<open>str::trim\<close> removes Unicode white space, while the
  separators are ASCII white space.
\<close>

definition ascii_ws :: "nat \<Rightarrow> bool" where
  \<comment> \<open>\<open>u8::is_ascii_whitespace\<close>\<close>
  "ascii_ws c \<longleftrightarrow> c \<in> {0x20, 0x09, 0x0A, 0x0C, 0x0D}"

definition unicode_ws :: "nat \<Rightarrow> bool" where
  \<comment> \<open>the property \<open>White_Space\<close>, \<open>char::is_whitespace\<close>\<close>
  "unicode_ws c \<longleftrightarrow> c = 0x20 \<or> (0x09 \<le> c \<and> c \<le> 0x0D) \<or>
     c \<in> {0x85, 0xA0, 0x1680, 0x2028, 0x2029, 0x202F, 0x205F, 0x3000} \<or> (0x2000 \<le> c \<and> c \<le> 0x200A)"

abbreviation QUOTE :: nat where "QUOTE \<equiv> 0x22"
abbreviation EQUALS :: nat where "EQUALS \<equiv> 0x3D"
abbreviation BACKSLASH :: nat where "BACKSLASH \<equiv> 0x5C"
abbreviation SPACE :: nat where "SPACE \<equiv> 0x20"

definition trim_start :: "ustr \<Rightarrow> ustr" where
  "trim_start s = dropWhile unicode_ws s"

definition trim :: "ustr \<Rightarrow> ustr" where
  "trim s = rev (dropWhile unicode_ws (rev (trim_start s)))"

section \<open>Tokens\<close>

text \<open>The loop of \<open>split_one_token\<close> from position \<open>i\<close>: the end of the token.\<close>

fun token_end :: "ustr \<Rightarrow> nat" where
  "token_end [] = 0"
| "token_end (b # s) =
     (if ascii_ws b then 0
      else if b = EQUALS \<and> s \<noteq> [] \<and> hd s = QUOTE
      then (let q = length (takeWhile (\<lambda>c. c \<noteq> QUOTE) (tl s)) in if q < length (tl s) then 2 + q + 1 else 2 + q)
      else 1 + token_end s)"

definition split_one_token :: "ustr \<Rightarrow> ustr \<times> ustr" where
  "split_one_token s = (let i = token_end s in (take i s, dropWhile ascii_ws (drop i s)))"

definition unquote :: "ustr \<Rightarrow> ustr option" where
  \<comment> \<open>the test for and the removal of the outer quotes\<close>
  "unquote v = (if 2 \<le> length v \<and> hd v = QUOTE \<and> last v = QUOTE then Some (butlast (tl v)) else None)"

definition split_kv :: "ustr \<Rightarrow> ustr \<times> ustr" where
  "split_kv token =
     (case position (\<lambda>c. c = EQUALS) token of
        None \<Rightarrow> (case unquote token of Some inner \<Rightarrow> (inner, []) | None \<Rightarrow> (token, []))
      | Some eq_idx \<Rightarrow>
          (let key = take eq_idx token; value_raw = drop (eq_idx + 1) token
           in case unquote value_raw of Some inner \<Rightarrow> (key, inner) | None \<Rightarrow> (key, value_raw)))"

lemma split_one_token_rest:
  assumes "s \<noteq> []" "\<not> ascii_ws (hd s)"
  shows "fst (split_one_token s) \<noteq> []" "length (snd (split_one_token s)) < length s"
proof -
  have pos: "0 < token_end s"
    using assms by (cases s) (auto simp: Let_def)
  then show "fst (split_one_token s) \<noteq> []"
    using assms(1) by (simp add: split_one_token_def Let_def)
  have "length (dropWhile ascii_ws (drop (token_end s) s)) \<le> length (drop (token_end s) s)"
    by (rule length_dropWhile_le)
  then show "length (snd (split_one_token s)) < length s"
    using pos assms(1) by (simp add: split_one_token_def Let_def) (cases s; simp)
qed

lemma ws_ascii: "ascii_ws c \<Longrightarrow> unicode_ws c"
  by (auto simp: ascii_ws_def unicode_ws_def)

lemma trim_start_hd: "trim_start s \<noteq> [] \<Longrightarrow> \<not> unicode_ws (hd (trim_start s))"
  unfolding trim_start_def by (rule hd_dropWhile)

lemma token_shrinks:
  assumes "trim_start s \<noteq> []" "split_one_token (trim_start s) = (token, rest)"
  shows "length rest < length s"
proof -
  have "length rest < length (trim_start s)"
    using split_one_token_rest(2) [OF assms(1)] trim_start_hd [OF assms(1)] ws_ascii assms(2) by fastforce
  moreover have "length (trim_start s) \<le> length s"
    unfolding trim_start_def by (rule length_dropWhile_le)
  ultimately show ?thesis
    by simp
qed

text \<open>\<open>TokenIter::next\<close>, collected: after the trimming a token is never empty, so that the \<open>continue\<close> of
  the source is not taken and every call consumes at least one character.\<close>

function parse_kv :: "ustr \<Rightarrow> (ustr \<times> ustr) list" where
  "parse_kv s =
     (let trimmed = trim_start s in
      if trimmed = [] then []
      else case split_one_token trimmed of
        (token, rest) \<Rightarrow> if token = [] then parse_kv rest else split_kv token # parse_kv rest)"
  by pat_completeness auto
termination
  by (relation "measure length") (auto dest: token_shrinks [OF _ sym])

declare parse_kv.simps [simp del]

definition split_head :: "ustr \<Rightarrow> ustr \<times> ustr" where
  "split_head cmd =
     (let trimmed = trim_start cmd;
          end_pos = (case position ascii_ws trimmed of Some i \<Rightarrow> i | None \<Rightarrow> length trimmed)
      in (take end_pos trimmed, trim (drop end_pos trimmed)))"

section \<open>The writer\<close>

definition needs_quoting :: "ustr \<Rightarrow> bool" where
  "needs_quoting s \<longleftrightarrow> list_ex (\<lambda>b. ascii_ws b \<or> b = EQUALS \<or> b = QUOTE) s"

definition quote_value :: "ustr \<Rightarrow> ustr" where
  "quote_value s =
     (if \<not> needs_quoting s then s
      else [QUOTE] @ concat (map (\<lambda>ch. if ch = QUOTE then [BACKSLASH, QUOTE] else [ch]) s) @ [QUOTE])"

record KvWriter =
  kw_out :: ustr
  kw_needs_sep :: bool

definition kv_new :: "ustr \<Rightarrow> KvWriter" where
  "kv_new out = \<lparr>kw_out = out, kw_needs_sep = False\<rparr>"

definition kv_value :: "ustr \<Rightarrow> ustr \<Rightarrow> KvWriter \<Rightarrow> KvWriter" where
  \<comment> \<open>\<open>w.key(k).value(v)\<close>\<close>
  "kv_value k v w =
     \<lparr>kw_out = kw_out w @ (if kw_needs_sep w then [SPACE] else []) @ k @ [EQUALS] @ quote_value v, kw_needs_sep = True\<rparr>"

fun kv_write :: "(ustr \<times> ustr) list \<Rightarrow> KvWriter \<Rightarrow> KvWriter" where
  "kv_write [] w = w"
| "kv_write ((k, v) # kvs) w = kv_write kvs (kv_value k v w)"

section \<open>One token\<close>

definition plain_char :: "nat \<Rightarrow> bool" where
  "plain_char c \<longleftrightarrow> \<not> ascii_ws c \<and> c \<noteq> EQUALS"

definition key_ok :: "ustr \<Rightarrow> bool" where
  "key_ok k \<longleftrightarrow> list_all plain_char k \<and> (k = [] \<or> \<not> unicode_ws (hd k))"

definition value_ok :: "ustr \<Rightarrow> bool" where
  "value_ok v \<longleftrightarrow> QUOTE \<notin> set v"

definition pair_text :: "ustr \<times> ustr \<Rightarrow> ustr" where
  "pair_text p = fst p @ [EQUALS] @ quote_value (snd p)"

lemma delimiters [simp]: "\<not> ascii_ws EQUALS" "\<not> unicode_ws EQUALS" "\<not> ascii_ws QUOTE" "\<not> unicode_ws QUOTE" "ascii_ws SPACE" "unicode_ws SPACE"
  by (simp_all add: ascii_ws_def unicode_ws_def)

lemma token_end_plain: "list_all plain_char k \<Longrightarrow> token_end (k @ s) = length k + token_end s"
  by (induction k) (simp_all add: plain_char_def)

lemma token_end_stop: "s = [] \<or> ascii_ws (hd s) \<Longrightarrow> token_end s = 0"
  by (cases s) auto

lemma quote_value_cases:
  assumes "value_ok v"
  obtains "quote_value v = v" "list_all plain_char v" | "quote_value v = QUOTE # v @ [QUOTE]"
proof (cases "needs_quoting v")
  case True
  have "concat (map (\<lambda>ch. if ch = QUOTE then [BACKSLASH, QUOTE] else [ch]) v) = v"
    using assms by (induction v) (auto simp: value_ok_def)
  then show ?thesis
    using that(2) True by (simp add: quote_value_def)
next
  case False
  then have "list_all plain_char v"
    by (auto simp: needs_quoting_def plain_char_def list_all_iff list_ex_iff)
  then show ?thesis
    using that(1) False by (simp add: quote_value_def)
qed

lemma takeWhile_up_to: "x \<notin> set v \<Longrightarrow> takeWhile (\<lambda>c. c \<noteq> x) (v @ x # s) = v"
  by (induction v) auto

lemma token_end_value:
  assumes "value_ok v" "rest = [] \<or> ascii_ws (hd rest)"
  shows "token_end (EQUALS # quote_value v @ rest) = 1 + length (quote_value v)"
  using assms(1)
proof (cases rule: quote_value_cases)
  case 1
  have "\<not> (v @ rest \<noteq> [] \<and> hd (v @ rest) = QUOTE)"
    using assms by (cases v; cases rest) (auto simp: value_ok_def)
  then show ?thesis
    using 1 token_end_plain [OF 1(2), of rest] token_end_stop [OF assms(2)] by auto
next
  case 2
  have "takeWhile (\<lambda>c. c \<noteq> QUOTE) (v @ QUOTE # rest) = v"
    using assms(1) by (simp add: value_ok_def takeWhile_up_to)
  then show ?thesis
    using 2 by (simp add: Let_def)
qed

lemma split_pair:
  assumes "key_ok k" "value_ok v" "rest = [] \<or> ascii_ws (hd rest)"
  shows "split_one_token (pair_text (k, v) @ rest) = (pair_text (k, v), dropWhile ascii_ws rest)"
proof -
  have "token_end (pair_text (k, v) @ rest) = length (pair_text (k, v))"
    using token_end_plain [of k "EQUALS # quote_value v @ rest"] token_end_value [OF assms(2,3)] assms(1)
    by (simp add: pair_text_def key_ok_def)
  then show ?thesis
    by (simp add: split_one_token_def)
qed

lemma position_first: "list_all plain_char k \<Longrightarrow> position (\<lambda>c. c = EQUALS) (k @ EQUALS # s) = Some (length k)"
  by (auto simp: position_Some_iff nth_append list_all_length plain_char_def)

lemma split_kv_pair:
  assumes "key_ok k" "value_ok v"
  shows "split_kv (pair_text (k, v)) = (k, v)"
proof -
  have "(case unquote (quote_value v) of Some inner \<Rightarrow> (k, inner) | None \<Rightarrow> (k, quote_value v)) = (k, v)"
    using assms(2)
  proof (cases rule: quote_value_cases)
    case 1
    have "unquote v = None"
      using assms(2) by (cases v) (auto simp: unquote_def value_ok_def)
    then show ?thesis
      by (simp add: 1)
  next
    case 2
    then show ?thesis
      by (simp add: unquote_def)
  qed
  then show ?thesis
    using assms(1) by (simp add: split_kv_def pair_text_def key_ok_def position_first)
qed

lemma pair_text_hd: "key_ok k \<Longrightarrow> \<not> unicode_ws (hd (pair_text (k, v) @ rest)) \<and> pair_text (k, v) \<noteq> []"
  by (cases k) (auto simp: pair_text_def key_ok_def)

lemma trim_start_id: "s = [] \<or> \<not> unicode_ws (hd s) \<Longrightarrow> trim_start s = s"
  by (cases s) (simp_all add: trim_start_def)

lemma trim_start_ascii: "trim_start (dropWhile ascii_ws s) = trim_start s"
  unfolding trim_start_def by (induction s) (auto dest: ws_ascii)

lemma parse_pair:
  assumes "key_ok k" "value_ok v" "rest = [] \<or> ascii_ws (hd rest)"
  shows "parse_kv (pair_text (k, v) @ rest) = (k, v) # parse_kv rest"
proof -
  have "parse_kv (dropWhile ascii_ws rest) = parse_kv rest"
    by (simp add: parse_kv.simps [of "dropWhile ascii_ws rest"] parse_kv.simps [of rest] trim_start_ascii)
  moreover have "trim_start (pair_text (k, v) @ rest) = pair_text (k, v) @ rest" "pair_text (k, v) \<noteq> []"
    using pair_text_hd [OF assms(1), of v rest] trim_start_id [of "pair_text (k, v) @ rest"] by blast+
  ultimately show ?thesis
    using split_pair [OF assms] split_kv_pair [OF assms(1,2)]
    by (subst parse_kv.simps) (simp add: Let_def)
qed

section \<open>A command line\<close>

definition kv_tail :: "(ustr \<times> ustr) list \<Rightarrow> ustr" where
  "kv_tail kvs = concat (map (\<lambda>p. SPACE # pair_text p) kvs)"

lemma kv_write_out:
  "kw_out (kv_write kvs w) = kw_out w @ (if kw_needs_sep w then kv_tail kvs else (case kvs of [] \<Rightarrow> [] | p # ps \<Rightarrow> pair_text p @ kv_tail ps))"
proof (induction kvs arbitrary: w)
  case (Cons p kvs)
  then show ?case
    by (cases p) (simp add: kv_value_def kv_tail_def pair_text_def)
qed (simp add: kv_tail_def)

lemma kv_tail_hd: "kv_tail kvs = [] \<or> ascii_ws (hd (kv_tail kvs))"
  by (cases kvs) (simp_all add: kv_tail_def)

definition pairs_ok :: "(ustr \<times> ustr) list \<Rightarrow> bool" where
  "pairs_ok kvs \<longleftrightarrow> list_all (\<lambda>(k, v). key_ok k \<and> value_ok v) kvs"

lemma parse_tail: "pairs_ok kvs \<Longrightarrow> parse_kv (kv_tail kvs) = kvs"
proof (induction kvs)
  case Nil
  then show ?case
    by (simp add: kv_tail_def parse_kv.simps trim_start_def)
next
  case (Cons p kvs)
  obtain k v where p: "p = (k, v)"
    by (cases p)
  have "parse_kv (SPACE # s) = parse_kv s" for s
    by (simp add: parse_kv.simps [of "SPACE # s"] parse_kv.simps [of s] trim_start_def)
  then show ?case
    using Cons parse_pair [of k v "kv_tail kvs"] kv_tail_hd by (simp add: p pairs_ok_def kv_tail_def)
qed

definition kv_text :: "(ustr \<times> ustr) list \<Rightarrow> ustr" where
  \<comment> \<open>what a fresh writer holds after writing the pairs\<close>
  "kv_text kvs = kw_out (kv_write kvs (kv_new []))"

lemma kv_text_eq: "kv_text [] = []" "kv_text (p # ps) = pair_text p @ kv_tail ps"
  by (simp_all add: kv_text_def kv_write_out kv_new_def)

lemma parse_text: "pairs_ok kvs \<Longrightarrow> parse_kv (kv_text kvs) = kvs"
proof (cases kvs)
  case (Cons p ps)
  assume "pairs_ok kvs"
  then show ?thesis
    using parse_pair [of "fst p" "snd p" "kv_tail ps"] kv_tail_hd parse_tail [of ps]
    by (cases p) (simp add: Cons kv_text_eq pairs_ok_def)
qed (simp add: kv_text_eq parse_kv.simps trim_start_def)

text \<open>The verb in front, and the trimming of what follows it.\<close>

definition verb_text :: "Verb \<Rightarrow> ustr" where
  "verb_text v = map of_char (as_str v)"

lemma verb_text_plain: "verb_text v \<noteq> [] \<and> list_all (\<lambda>c. \<not> unicode_ws c) (verb_text v)"
proof -
  have "list_all (\<lambda>(s, v). s \<noteq> [] \<and> list_all (\<lambda>c. \<not> unicode_ws (of_char c)) s) verb_table"
    by (simp add: verb_table_def unicode_ws_def)
  then show ?thesis
    using map_of_SomeD [OF verb_table_complete [of v]] by (auto simp: verb_text_def list_all_iff)
qed

lemma trim_id:
  assumes "s = [] \<or> (\<not> unicode_ws (hd s) \<and> \<not> unicode_ws (last s))"
  shows "trim s = s"
proof (cases s rule: rev_cases)
  case (snoc t x)
  then show ?thesis
    using assms trim_start_id [of s] by (simp add: trim_def)
qed (simp add: trim_def trim_start_def)

lemma split_head_text:
  assumes "v \<noteq> []" "list_all (\<lambda>c. \<not> unicode_ws c) v" "s \<noteq> []" "\<not> unicode_ws (hd s)" "\<not> unicode_ws (last s)"
  shows "split_head (v @ SPACE # s) = (v, s)" "split_head v = (v, [])"
proof -
  have ws: "\<not> unicode_ws (hd v)" "list_all (\<lambda>c. \<not> ascii_ws c) v"
    using assms(1,2) ws_ascii by (cases v; auto simp: list_all_iff)+
  have "position ascii_ws (v @ SPACE # s) = Some (length v)"
    using ws(2) by (auto simp: position_Some_iff nth_append list_all_length)
  moreover have "trim (SPACE # s) = trim s"
    by (simp add: trim_def trim_start_def)
  ultimately show "split_head (v @ SPACE # s) = (v, s)"
    using assms ws(1) trim_start_id [of "v @ SPACE # s"] trim_id [of s] by (cases v) (auto simp: split_head_def Let_def)
  have "position ascii_ws v = None"
    using ws(2) by (cases "position ascii_ws v") (auto simp: position_Some_iff list_all_length)
  then show "split_head v = (v, [])"
    using ws(1) trim_start_id [of v] by (simp add: split_head_def Let_def trim_def trim_start_def)
qed

definition no_exotic_ws :: "ustr \<Rightarrow> bool" where
  "no_exotic_ws v \<longleftrightarrow> list_all (\<lambda>c. unicode_ws c \<longrightarrow> ascii_ws c) v"

lemma pair_text_last:
  assumes "value_ok v" "no_exotic_ws v"
  shows "\<not> unicode_ws (last (pair_text (k, v)))"
  using assms(1)
proof (cases rule: quote_value_cases)
  case 1
  then show ?thesis
    using assms(2) by (cases "v = []") (auto simp: pair_text_def no_exotic_ws_def list_all_iff plain_char_def)
next
  case 2
  then show ?thesis
    by (simp add: pair_text_def)
qed

lemma kv_text_ends:
  assumes "pairs_ok kvs" "list_all (no_exotic_ws \<circ> snd) kvs" "kvs \<noteq> []"
  shows "kv_text kvs \<noteq> [] \<and> \<not> unicode_ws (hd (kv_text kvs)) \<and> \<not> unicode_ws (last (kv_text kvs))"
proof -
  obtain p ps where p: "kvs = p # ps"
    using assms(3) by (cases kvs) auto
  have hd: "\<not> unicode_ws (hd (kv_text kvs))" "kv_text kvs \<noteq> []"
    using pair_text_hd [of "fst p" "snd p" "kv_tail ps"] assms(1) by (auto simp: p kv_text_eq pairs_ok_def)
  obtain qs k v where q: "kvs = qs @ [(k, v)]"
    using assms(3) by (cases kvs rule: rev_cases) auto
  have "\<exists>s. kv_text kvs = s @ pair_text (k, v)"
  proof (cases qs)
    case Nil
    then show ?thesis
      using q by (simp add: kv_text_eq kv_tail_def)
  next
    case (Cons r rs)
    then show ?thesis
      using q by (simp add: kv_text_eq kv_tail_def)
  qed
  moreover have "pair_text (k, v) \<noteq> []" "value_ok v" "no_exotic_ws v"
    using assms(1,2) by (auto simp: q pairs_ok_def pair_text_def)
  ultimately show ?thesis
    using hd pair_text_last [of v k] by fastforce
qed

section \<open>Properties\<close>

text \<open>
  C18 (roundtrip). A command line is read back as it was written: for keys without separators and values
  without a double quote, whatever other separators the values contain, the head splits off the verb, the
  verb parses, and the parser of the arguments returns the written pairs in order. Without a verb the
  values may also contain white space that is not ASCII.
\<close>

theorem command_roundtrip:
  assumes "pairs_ok kvs"
  shows "parse_kv (kv_text kvs) = kvs \<and>
    (list_all (no_exotic_ws \<circ> snd) kvs \<longrightarrow>
       (case split_head (verb_text v @ (if kvs = [] then [] else SPACE # kv_text kvs)) of (head, rest) \<Rightarrow>
          (\<exists>s. head = map of_char s \<and> verb_parse s = Inr v) \<and> parse_kv rest = kvs))"
proof -
  have pairs: "parse_kv (kv_text kvs) = kvs"
    using assms by (rule parse_text)
  have "verb_parse (as_str v) = Inr v"
    by (simp add: verb_parse_def verb_table_complete)
  then have head: "\<exists>s. verb_text v = map of_char s \<and> verb_parse s = Inr v"
    unfolding verb_text_def by blast
  have "split_head (verb_text v @ (if kvs = [] then [] else SPACE # kv_text kvs)) = (verb_text v, if kvs = [] then [] else kv_text kvs)"
    if "list_all (no_exotic_ws \<circ> snd) kvs"
    using split_head_text(1) [of "verb_text v" "kv_text kvs"] split_head_text(2) [of "verb_text v" "[QUOTE]"]
      verb_text_plain [of v] kv_text_ends [OF assms that] by auto
  then show ?thesis
    using pairs head by (auto simp: kv_text_eq)
qed

theorem command_roundtrip_witness:
  "parse_kv (kv_text [([120], [53, 52, 48]), ([116], [104, 105, 32, 61, 120])]) = [([120], [53, 52, 48]), ([116], [104, 105, 32, 61, 120])]"
  using command_roundtrip [of "[([120], [53, 52, 48]), ([116], [104, 105, 32, 61, 120])]"]
  by (simp add: pairs_ok_def key_ok_def value_ok_def plain_char_def ascii_ws_def unicode_ws_def)

text \<open>What is lost: a double quote is escaped by the writer and not unescaped by the parser, and trailing
  white space that is not ASCII is neither quoted by the writer nor kept by \<open>split_head\<close>.\<close>

lemma quote_not_read_back: "parse_kv (kv_text [([116], [97, 34, 98])]) = [([116], [97, 92]), ([98, 34], [])]"
proof -
  have "kv_text [([116], [97, 34, 98])] = [116, EQUALS, QUOTE, 97, BACKSLASH, QUOTE, 98, QUOTE]"
    by (simp add: kv_text_eq pair_text_def kv_tail_def quote_value_def needs_quoting_def ascii_ws_def)
  moreover have "parse_kv [98, QUOTE] = [([98, QUOTE], [])]"
    by (subst parse_kv.simps) (simp add: parse_kv.simps [of "[]"] trim_start_def unicode_ws_def split_one_token_def
        ascii_ws_def split_kv_def position_def unquote_def)
  ultimately show ?thesis
    by (subst parse_kv.simps) (simp add: trim_start_def unicode_ws_def split_one_token_def
        ascii_ws_def split_kv_def position_def unquote_def)
qed

lemma nbsp_lost: "snd (split_head ([116] @ SPACE # kv_text [([120], [97, 0xA0])])) = kv_text [([120], [97])]"
  by (simp add: kv_text_eq pair_text_def kv_tail_def quote_value_def needs_quoting_def split_head_def trim_def
      trim_start_def position_def ascii_ws_def unicode_ws_def)

lemma bare_token: "parse_kv [116, 97, 112] = [([116, 97, 112], [])]"
  by (subst parse_kv.simps) (simp add: parse_kv.simps [of "[]"] trim_start_def unicode_ws_def split_one_token_def
      ascii_ws_def split_kv_def position_def unquote_def)

end
