(* ===== verification/Utf8.thy ===== *)
theory Utf8
  imports Prelude
begin

text \<open>
  UTF-8 as the Rust standard library has it: a \<open>str\<close> is a list of scalar values, \<open>as_bytes\<close> encodes it,
  \<open>String::from_utf8\<close> accepts exactly the encodings, and \<open>String::from_utf8_lossy\<close> replaces every maximal
  ill-formed part by U+FFFD.
\<close>

definition scalar :: "nat \<Rightarrow> bool" where
  "scalar c \<longleftrightarrow> c < 0x110000 \<and> \<not> (0xD800 \<le> c \<and> c < 0xE000)"

definition char_code :: "nat \<Rightarrow> nat list" where
  "char_code c =
     (if c < 0x80 then [c]
      else if c < 0x800 then [0xC0 + c div 64, 0x80 + c mod 64]
      else if c < 0x10000 then [0xE0 + c div 4096, 0x80 + c div 64 mod 64, 0x80 + c mod 64]
      else [0xF0 + c div 262144, 0x80 + c div 4096 mod 64, 0x80 + c div 64 mod 64, 0x80 + c mod 64])"

definition char_bytes :: "nat \<Rightarrow> byte list" where
  "char_bytes c = map word_of_nat (char_code c)"

definition as_bytes :: "ustr \<Rightarrow> byte list" where
  "as_bytes s = concat (map char_bytes s)"

definition is_cont :: "nat \<Rightarrow> bool" where
  "is_cont b \<longleftrightarrow> 0x80 \<le> b \<and> b < 0xC0"

definition second_ok :: "nat \<Rightarrow> nat \<Rightarrow> bool" where
  \<comment> \<open>the second byte of a sequence of three or four: no overlong form, no surrogate, nothing above U+10FFFF\<close>
  "second_ok b0 b1 \<longleftrightarrow>
     (if b0 = 0xE0 then 0xA0 \<le> b1 \<and> b1 < 0xC0 else if b0 = 0xED then 0x80 \<le> b1 \<and> b1 < 0xA0
      else if b0 = 0xF0 then 0x90 \<le> b1 \<and> b1 < 0xC0 else if b0 = 0xF4 then 0x80 \<le> b1 \<and> b1 < 0x90
      else is_cont b1)"

text \<open>One step of decoding: a scalar value or an error, and the bytes it takes.\<close>

fun next_code :: "nat list \<Rightarrow> nat option \<times> nat" where
  "next_code [] = (None, 0)"
| "next_code (b0 # bs) =
     (if b0 < 0x80 then (Some b0, 1)
      else if 0xC2 \<le> b0 \<and> b0 < 0xE0 then
        (case bs of b1 # _ \<Rightarrow> if is_cont b1 then (Some ((b0 - 0xC0) * 64 + (b1 - 0x80)), 2) else (None, 1)
         | [] \<Rightarrow> (None, 1))
      else if 0xE0 \<le> b0 \<and> b0 < 0xF5 then
        (case bs of
           b1 # bs1 \<Rightarrow> if \<not> second_ok b0 b1 then (None, 1) else
             (case bs1 of
                b2 # bs2 \<Rightarrow> if \<not> is_cont b2 then (None, 2)
                  else if b0 < 0xF0 then (Some (((b0 - 0xE0) * 64 + (b1 - 0x80)) * 64 + (b2 - 0x80)), 3) else
                  (case bs2 of
                     b3 # _ \<Rightarrow> if \<not> is_cont b3 then (None, 3)
                       else (Some ((((b0 - 0xF0) * 64 + (b1 - 0x80)) * 64 + (b2 - 0x80)) * 64 + (b3 - 0x80)), 4)
                   | [] \<Rightarrow> (None, 3))
              | [] \<Rightarrow> (None, 2))
         | [] \<Rightarrow> (None, 1))
      else (None, 1))"

definition next_char :: "byte list \<Rightarrow> nat option \<times> nat" where
  "next_char bs = next_code (map unat bs)"

lemma next_code_progress: "bs \<noteq> [] \<Longrightarrow> 0 < snd (next_code bs) \<and> snd (next_code bs) \<le> length bs"
  by (cases bs) (auto split: list.splits)

lemma next_char_progress: "bs \<noteq> [] \<Longrightarrow> 0 < snd (next_char bs) \<and> snd (next_char bs) \<le> length bs"
  using next_code_progress [of "map unat bs"] by (simp add: next_char_def)

function from_utf8 :: "byte list \<Rightarrow> ustr option" where
  "from_utf8 [] = Some []"
| "from_utf8 (b # bs) = (case next_char (b # bs) of
     (None, _) \<Rightarrow> None
   | (Some c, n) \<Rightarrow> map_option ((#) c) (from_utf8 (drop n (b # bs))))"
  by pat_completeness auto
termination
  by (relation "measure length") (use next_char_progress in \<open>auto, metis list.distinct(1) diff_less length_Cons snd_conv zero_less_Suc\<close>)

function from_utf8_lossy :: "byte list \<Rightarrow> ustr" where
  "from_utf8_lossy [] = []"
| "from_utf8_lossy (b # bs) = (case next_char (b # bs) of
     (r, n) \<Rightarrow> (case r of Some c \<Rightarrow> c | None \<Rightarrow> 0xFFFD) # from_utf8_lossy (drop n (b # bs)))"
  by pat_completeness auto
termination
  by (relation "measure length") (use next_char_progress in \<open>auto, metis list.distinct(1) diff_less length_Cons snd_conv zero_less_Suc\<close>)

section \<open>Encoding and decoding\<close>

lemma split64: "c = c div 64 * 64 + c mod (64 :: nat)" "c div 64 = c div 4096 * 64 + c div 64 mod 64"
  "c div 4096 = c div 262144 * 64 + c div 4096 mod 64"
proof -
  show "c = c div 64 * 64 + c mod 64"
    by simp
  have "c div 4096 = c div 64 div 64" "c div 262144 = c div 4096 div 64"
    by (simp_all only: div_mult2_eq [symmetric] numeral_times_numeral) simp_all
  then show "c div 64 = c div 4096 * 64 + c div 64 mod 64" "c div 4096 = c div 262144 * 64 + c div 4096 mod 64"
    by simp_all
qed

lemma next_code_char:
  assumes "scalar c"
  shows "next_code (char_code c @ rest) = (Some c, length (char_code c))"
proof -
  consider "c < 0x80" | "0x80 \<le> c" "c < 0x800" | "0x800 \<le> c" "c < 0x10000" | "0x10000 \<le> c"
    by linarith
  then show ?thesis
  proof cases
    case 1
    then show ?thesis
      by (simp add: char_code_def)
  next
    case 2
    then have "2 \<le> c div 64" "c div 64 < 32"
      by linarith+
    then show ?thesis
      using 2 by (simp add: char_code_def is_cont_def)
  next
    case 3
    define a b d where "a = c div 4096" and "b = c div 64 mod 64" and "d = c mod 64"
    have c: "c = (a * 64 + b) * 64 + d" "a < 16" "b < 64" "d < 64"
      using split64 [of c] 3 unfolding a_def b_def d_def by (linarith | simp)+
    have "second_ok (0xE0 + a) (0x80 + b)"
      using assms 3 c by (auto simp: second_ok_def scalar_def is_cont_def)
    then show ?thesis
      using 3 c(2-) by (simp add: char_code_def a_def [symmetric] b_def [symmetric] d_def [symmetric] is_cont_def) (use c(1) in simp)
  next
    case 4
    define z a b d where "z = c div 262144" and "a = c div 4096 mod 64" and "b = c div 64 mod 64" and "d = c mod 64"
    have c: "c = ((z * 64 + a) * 64 + b) * 64 + d" "a < 64" "b < 64" "d < 64"
      using split64 [of c] unfolding z_def a_def b_def d_def by (linarith | simp)+
    have z: "z < 5"
      using assms c by (simp add: scalar_def)
    have "second_ok (0xF0 + z) (0x80 + a)"
      using assms 4 c z by (auto simp: second_ok_def scalar_def is_cont_def)
    then show ?thesis
      using 4 c(2-) z by (simp add: char_code_def z_def [symmetric] a_def [symmetric] b_def [symmetric] d_def [symmetric] is_cont_def)
        (use c(1) in simp)
  qed
qed

lemma char_code_bound: "c < 0x110000 \<Longrightarrow> x \<in> set (char_code c) \<Longrightarrow> x < 256"
proof -
  assume c: "c < 0x110000" and x: "x \<in> set (char_code c)"
  have m: "y mod 64 < 64" for y :: nat
    by simp
  have "c div 262144 < 5"
    using c by linarith
  then show "x < 256"
    using x m [of "c div 4096"] m [of "c div 64"] m [of c]
    by (auto simp: char_code_def div_less_iff_less_mult split: if_splits)
qed

lemma map_unat_char_bytes: "scalar c \<Longrightarrow> map unat (char_bytes c) = char_code c"
  by (auto simp: char_bytes_def scalar_def unat_of_nat comp_def intro!: map_idI dest!: char_code_bound)

lemma next_char_bytes: "scalar c \<Longrightarrow> next_char (char_bytes c @ rest) = (Some c, length (char_bytes c))"
  using next_code_char [of c "map unat rest"] map_unat_char_bytes [of c]
  by (simp add: next_char_def) (simp add: char_bytes_def)

lemma char_bytes_nonempty: "char_bytes c \<noteq> []"
  by (simp add: char_bytes_def char_code_def)

lemma as_bytes_simps [simp]: "as_bytes [] = []" "as_bytes (c # s) = char_bytes c @ as_bytes s" "as_bytes (s @ t) = as_bytes s @ as_bytes t"
  by (simp_all add: as_bytes_def)

lemma from_utf8_char: "scalar c \<Longrightarrow> from_utf8 (char_bytes c @ bs) = map_option ((#) c) (from_utf8 bs)"
  using next_char_bytes [of c bs] char_bytes_nonempty [of c] by (cases "char_bytes c") auto

lemma from_utf8_lossy_char: "scalar c \<Longrightarrow> from_utf8_lossy (char_bytes c @ bs) = c # from_utf8_lossy bs"
  using next_char_bytes [of c bs] char_bytes_nonempty [of c] by (cases "char_bytes c") auto

lemma from_utf8_as_bytes: "list_all scalar s \<Longrightarrow> from_utf8 (as_bytes s) = Some s"
  by (induction s) (simp_all add: from_utf8_char)

lemma from_utf8_lossy_as_bytes: "list_all scalar s \<Longrightarrow> from_utf8_lossy (as_bytes s) = s"
  by (induction s) (simp_all add: from_utf8_lossy_char)

text \<open>Decoding accepts encodings only.\<close>

lemma code2: "2 \<le> a \<Longrightarrow> a < 32 \<Longrightarrow> b < 64 \<Longrightarrow> char_code (a * 64 + b) = [0xC0 + a, 0x80 + b]"
  by (simp add: char_code_def)

lemma div64: "d < 64 \<Longrightarrow> (x * 64 + d) div 64 = (x :: nat) \<and> (x * 64 + d) mod 64 = d"
  by simp

lemma code3:
  assumes "a < 16" "b < 64" "d < 64" "a = 0 \<Longrightarrow> 32 \<le> b"
  shows "char_code ((a * 64 + b) * 64 + d) = [0xE0 + a, 0x80 + b, 0x80 + d]"
proof -
  let ?c = "(a * 64 + b) * 64 + d"
  have "?c div 64 = a * 64 + b" "?c mod 64 = d"
    using div64 assms(3) by blast+
  moreover have "?c div 4096 = a"
    using assms split64(2) [of ?c] calculation by simp
  moreover have "0x800 \<le> ?c" "?c < 0x10000"
    using assms by (cases a; auto)+
  ultimately show ?thesis
    using assms by (simp add: char_code_def)
qed

lemma code4:
  assumes "z < 5" "a < 64" "b < 64" "d < 64" "z = 0 \<Longrightarrow> 16 \<le> a"
  shows "char_code (((z * 64 + a) * 64 + b) * 64 + d) = [0xF0 + z, 0x80 + a, 0x80 + b, 0x80 + d]"
proof -
  let ?c = "((z * 64 + a) * 64 + b) * 64 + d"
  have "?c div 64 = (z * 64 + a) * 64 + b" "?c mod 64 = d" "((z * 64 + a) * 64 + b) div 64 = z * 64 + a"
    "((z * 64 + a) * 64 + b) mod 64 = b"
    using div64 assms(3,4) by blast+
  moreover have "?c div 4096 = z * 64 + a"
    using assms split64(2) [of ?c] calculation by simp
  moreover have "?c div 262144 = z"
    using assms split64(3) [of ?c] calculation by simp
  moreover have "0x10000 \<le> ?c"
    using assms by (cases z; auto)
  ultimately show ?thesis
    using assms by (simp add: char_code_def)
qed

lemma next_code_sound:
  assumes "next_code bs = (Some c, n)"
  shows "scalar c \<and> take n bs = char_code c"
proof -
  obtain b0 r where bs: "bs = b0 # r"
    using assms by (cases bs) auto
  consider "b0 < 0x80" | "0xC2 \<le> b0" "b0 < 0xE0" | "0xE0 \<le> b0" "b0 < 0xF0" | "0xF0 \<le> b0" "b0 < 0xF5"
    using assms by (fastforce simp: bs split: if_splits)
  then show ?thesis
  proof cases
    case 1
    then show ?thesis
      using assms by (auto simp: bs scalar_def char_code_def)
  next
    case 2
    then obtain b1 r' where r: "r = b1 # r'" "is_cont b1" "c = (b0 - 0xC0) * 64 + (b1 - 0x80)" "n = 2"
      using assms by (auto simp: bs split: list.splits if_splits)
    define a b where "a = b0 - 0xC0" and "b = b1 - 0x80"
    have "b0 = 0xC0 + a" "b1 = 0x80 + b" "2 \<le> a" "a < 32" "b < 64"
      using 2 r(2) by (auto simp: a_def b_def is_cont_def)
    then show ?thesis
      using r code2 [of a b] by (simp add: bs a_def [symmetric] b_def [symmetric] scalar_def)
  next
    case 3
    then obtain b1 b2 r' where r: "r = b1 # b2 # r'" "second_ok b0 b1" "is_cont b2"
      "c = ((b0 - 0xE0) * 64 + (b1 - 0x80)) * 64 + (b2 - 0x80)" "n = 3"
      using assms by (auto simp: bs split: list.splits if_splits)
    define a b d where "a = b0 - 0xE0" and "b = b1 - 0x80" and "d = b2 - 0x80"
    have v: "b0 = 0xE0 + a" "b1 = 0x80 + b" "b2 = 0x80 + d" "a < 16" "b < 64" "d < 64" "a = 0 \<Longrightarrow> 32 \<le> b" "a = 13 \<Longrightarrow> b < 32"
      using 3 r(2,3) by (auto simp: a_def b_def d_def is_cont_def second_ok_def split: if_splits)
    have "scalar ((a * 64 + b) * 64 + d)"
      using v(4-8) by (cases a "13 :: nat" rule: linorder_cases) (auto simp: scalar_def)
    then show ?thesis
      using r v code3 [of a b d] by (simp add: bs)
  next
    case 4
    then obtain b1 b2 b3 r' where r: "r = b1 # b2 # b3 # r'" "second_ok b0 b1" "is_cont b2" "is_cont b3"
      "c = (((b0 - 0xF0) * 64 + (b1 - 0x80)) * 64 + (b2 - 0x80)) * 64 + (b3 - 0x80)" "n = 4"
      using assms by (auto simp: bs split: list.splits if_splits)
    define z a b d where "z = b0 - 0xF0" and "a = b1 - 0x80" and "b = b2 - 0x80" and "d = b3 - 0x80"
    have v: "b0 = 0xF0 + z" "b1 = 0x80 + a" "b2 = 0x80 + b" "b3 = 0x80 + d" "z < 5" "a < 64" "b < 64" "d < 64"
      "z = 0 \<Longrightarrow> 16 \<le> a" "z = 4 \<Longrightarrow> a < 16"
      using 4 r(2-4) by (auto simp: z_def a_def b_def d_def is_cont_def second_ok_def split: if_splits)
    have "scalar (((z * 64 + a) * 64 + b) * 64 + d)"
      using v(5-10) by (cases "z = 0"; cases "z = 4") (auto simp: scalar_def)
    then show ?thesis
      using r v code4 [of z a b d] by (simp add: bs)
  qed
qed

lemma next_char_sound:
  assumes "next_char bs = (Some c, n)"
  shows "scalar c \<and> take n bs = char_bytes c"
proof -
  have "scalar c" "take n (map unat bs) = char_code c"
    using next_code_sound assms by (auto simp: next_char_def)
  then have "map word_of_nat (map unat (take n bs)) = char_bytes c"
    by (simp add: char_bytes_def take_map)
  then show ?thesis
    using \<open>scalar c\<close> by (simp add: comp_def)
qed

lemma from_utf8_sound: "from_utf8 bs = Some s \<Longrightarrow> list_all scalar s \<and> as_bytes s = bs"
proof (induction bs arbitrary: s rule: from_utf8.induct)
  case (2 b bs)
  obtain c n where n: "next_char (b # bs) = (Some c, n)"
    using "2.prems" by (auto split: prod.splits option.splits)
  then obtain s' where s': "s = c # s'" "from_utf8 (drop n (b # bs)) = Some s'"
    using "2.prems" by auto
  have "list_all scalar s' \<and> as_bytes s' = drop n (b # bs)"
    using "2.IH" [OF n [symmetric] refl s'(2)] .
  then show ?case
    using next_char_sound [OF n] s'(1) by (simp del: drop_Cons' take_Cons') (metis append_take_drop_id)
qed simp

end
