(* ===== verification/Protocol.thy ===== *)
theory Protocol
  imports Codec Utf8
begin

text \<open>
  The crate \<^verbatim>\<open>src/android-hid-protocol/src\<close>: length-prefixed frames (\<^verbatim>\<open>frame.rs\<close>), error codes and error
  frames (\<^verbatim>\<open>error.rs\<close>) and the version constants.
\<close>

definition ascii :: "string \<Rightarrow> byte list" where
  "ascii s = map (\<lambda>c. word_of_nat (of_char c)) s"

definition PROTOCOL_VERSION :: u32 where "PROTOCOL_VERSION = 1"
definition USER_AGENT :: string where "USER_AGENT = ''android-hid-agent/0.1''"

section \<open>Frames\<close>

definition HEADER_LEN :: nat where [simp]: "HEADER_LEN = 4"
definition MAX_FRAME_LEN :: nat where "MAX_FRAME_LEN = 16 * 1024 * 1024"

record Frame =
  fr_bytes :: "byte list"

datatype FrameError =
    FrameTooLarge nat
  | Truncated nat nat

definition frame_new :: "byte list \<Rightarrow> Frame" where
  "frame_new payload = \<lparr>fr_bytes = payload\<rparr>"

definition frame_len :: "Frame \<Rightarrow> nat" where
  "frame_len f = length (fr_bytes f)"

definition is_terminator :: "Frame \<Rightarrow> bool" where
  "is_terminator f \<longleftrightarrow> fr_bytes f = []"

definition empty_marker :: Frame where
  "empty_marker = \<lparr>fr_bytes = []\<rparr>"

text \<open>The writer is a parameter: \<open>write_all\<close> of \<open>impl Write\<close>.\<close>

definition frame_encode ::
    "(byte list \<Rightarrow> 'o \<Rightarrow> (io_error + unit) \<times> 'o) \<Rightarrow> Frame \<Rightarrow> 'o \<Rightarrow> (io_error + unit) \<times> 'o" where
  "frame_encode write_all f out =
     (if 2 ^ 32 \<le> length (fr_bytes f)
      then (Inl (IoError InvalidData ''frame payload {} bytes exceeds u32::MAX'' [length (fr_bytes f)]), out)
      else case write_all (to_be_bytes (word_of_nat (length (fr_bytes f)) :: u32)) out of
        (Inl e, out') \<Rightarrow> (Inl e, out')
      | (Inr _, out') \<Rightarrow> write_all (fr_bytes f) out')"

definition vec_write_all :: "byte list \<Rightarrow> byte list \<Rightarrow> (io_error + unit) \<times> byte list" where
  \<comment> \<open>\<open>Write for Vec<u8>\<close>\<close>
  "vec_write_all bs out = (Inr (), out @ bs)"

definition frame_decode :: "Frame read" where
  "frame_decode =
     read_then (read_exact HEADER_LEN) (\<lambda>header.
       let declared = unat (from_be_bytes header :: u32) in
       if declared = 0 then read_ret empty_marker
       else if MAX_FRAME_LEN < declared
       then read_fail (IoError InvalidData ''frame length {declared} exceeds cap {MAX_FRAME_LEN}'' [declared, MAX_FRAME_LEN])
       else read_then (read_exact declared) (\<lambda>payload. read_ret \<lparr>fr_bytes = payload\<rparr>))"

definition try_from_vec :: "byte list \<Rightarrow> FrameError + Frame" where
  "try_from_vec bs = (if MAX_FRAME_LEN < length bs then Inl (FrameTooLarge (length bs)) else Inr \<lparr>fr_bytes = bs\<rparr>)"

section \<open>Error frames\<close>

definition ERR_PREFIX :: "byte list" where
  "ERR_PREFIX = ascii ''ERR:''"

datatype ErrorCode = E_Ok | E_UnknownCmd | E_BadArg | E_Timeout | E_NotFound | E_Ambiguous | E_Internal | E_OffScreen | E_SecureWindow

primrec as_byte :: "ErrorCode \<Rightarrow> u8" where
  "as_byte E_Ok = 0"
| "as_byte E_UnknownCmd = 1"
| "as_byte E_BadArg = 2"
| "as_byte E_Timeout = 3"
| "as_byte E_NotFound = 4"
| "as_byte E_Ambiguous = 5"
| "as_byte E_Internal = 6"
| "as_byte E_OffScreen = 7"
| "as_byte E_SecureWindow = 8"

definition from_byte :: "u8 \<Rightarrow> u8 + ErrorCode" where
  \<comment> \<open>\<open>Inl\<close> is \<open>ErrorCodeByteError\<close>\<close>
  "from_byte b =
     (if b = 0 then Inr E_Ok else if b = 1 then Inr E_UnknownCmd else if b = 2 then Inr E_BadArg
      else if b = 3 then Inr E_Timeout else if b = 4 then Inr E_NotFound else if b = 5 then Inr E_Ambiguous
      else if b = 6 then Inr E_Internal else if b = 7 then Inr E_OffScreen else if b = 8 then Inr E_SecureWindow
      else Inl b)"

primrec as_tag :: "ErrorCode \<Rightarrow> string" where
  "as_tag E_Ok = ''OK''"
| "as_tag E_UnknownCmd = ''UNKNOWN_CMD''"
| "as_tag E_BadArg = ''BAD_ARG''"
| "as_tag E_Timeout = ''TIMEOUT''"
| "as_tag E_NotFound = ''NOT_FOUND''"
| "as_tag E_Ambiguous = ''AMBIGUOUS''"
| "as_tag E_Internal = ''INTERNAL''"
| "as_tag E_OffScreen = ''OFF_SCREEN''"
| "as_tag E_SecureWindow = ''SECURE_WINDOW''"

definition from_tag :: "byte list \<Rightarrow> ErrorCode option" where
  "from_tag t =
     (if t = ascii ''OK'' then Some E_Ok else if t = ascii ''UNKNOWN_CMD'' then Some E_UnknownCmd
      else if t = ascii ''BAD_ARG'' then Some E_BadArg else if t = ascii ''TIMEOUT'' then Some E_Timeout
      else if t = ascii ''NOT_FOUND'' then Some E_NotFound else if t = ascii ''AMBIGUOUS'' then Some E_Ambiguous
      else if t = ascii ''INTERNAL'' then Some E_Internal else if t = ascii ''OFF_SCREEN'' then Some E_OffScreen
      else if t = ascii ''SECURE_WINDOW'' then Some E_SecureWindow else None)"

record ErrorFrame =
  ef_code :: ErrorCode
  ef_detail :: ustr

datatype ProtocolError = UnknownCode ustr

definition strip_prefix :: "'a list \<Rightarrow> 'a list \<Rightarrow> 'a list option" where
  "strip_prefix p xs = (if take (length p) xs = p then Some (drop (length p) xs) else None)"

definition error_parse :: "byte list \<Rightarrow> ProtocolError + ErrorFrame option" where
  "error_parse payload =
     (case strip_prefix ERR_PREFIX payload of
        None \<Rightarrow> Inr None
      | Some rest \<Rightarrow>
          (let (tag, detail) = (case position (\<lambda>b. b = 0x3A) rest of
                 Some idx \<Rightarrow> (take idx rest, drop (idx + 1) rest)
               | None \<Rightarrow> (rest, []))
           in case from_tag tag of
                None \<Rightarrow> Inl (UnknownCode (from_utf8_lossy tag))
              | Some code \<Rightarrow> Inr (Some \<lparr>ef_code = code, ef_detail = from_utf8_lossy detail\<rparr>)))"

definition error_encode :: "ErrorFrame \<Rightarrow> byte list" where
  "error_encode f = ERR_PREFIX @ ascii (as_tag (ef_code f)) @
     (if ef_detail f \<noteq> [] then 0x3A # as_bytes (ef_detail f) else [])"

section \<open>What a frame decodes to\<close>

lemma frame_decode_eq:
  "frame_decode r =
     (if length (avail r) < 4 then (Inl (at_end r), r\<lparr>avail := []\<rparr>)
      else let n = nat_be (take 4 (avail r)) in
        if MAX_FRAME_LEN < n
        then (Inl (IoError InvalidData ''frame length {declared} exceeds cap {MAX_FRAME_LEN}'' [n, MAX_FRAME_LEN]),
              r\<lparr>avail := drop 4 (avail r)\<rparr>)
        else if length (avail r) < 4 + n then (Inl (at_end r), r\<lparr>avail := []\<rparr>)
        else (Inr \<lparr>fr_bytes = take n (drop 4 (avail r))\<rparr>, r\<lparr>avail := drop (4 + n) (avail r)\<rparr>))"
proof (cases "length (avail r) < 4")
  case False
  let ?n = "nat_be (take 4 (avail r))"
  have "?n < 256 ^ 4"
    using nat_be_less [of "take 4 (avail r)"] False by (cases "length (avail r) = 4") (simp_all add: min_def)
  then have "unat (from_be_bytes (take 4 (avail r)) :: u32) = ?n"
    by (simp add: from_be_bytes_def unat_of_nat)
  then show ?thesis
    using False by (auto simp: frame_decode_def read_defs read_exact_def Let_def empty_marker_def add.commute MAX_FRAME_LEN_def)
qed (simp add: frame_decode_def read_defs read_exact_def)

definition frame_bytes :: "Frame \<Rightarrow> byte list" where
  "frame_bytes f = to_be_bytes (word_of_nat (length (fr_bytes f)) :: u32) @ fr_bytes f"

definition eof :: io_error where
  "eof = IoError UnexpectedEof ''failed to fill whole buffer'' []"

definition dec_frame :: "Frame decoder" where
  "dec_frame bs = (case frame_decode \<lparr>avail = bs, at_end = eof\<rparr> of
     (Inl _, _) \<Rightarrow> None | (Inr f, r) \<Rightarrow> Some (f, avail r))"

lemma frame_decode_bytes:
  assumes "length (fr_bytes f) \<le> MAX_FRAME_LEN" "avail r = frame_bytes f @ rest"
  shows "frame_decode r = (Inr f, r\<lparr>avail := rest\<rparr>)"
proof -
  have "nat_be (to_be_bytes (word_of_nat (length (fr_bytes f)) :: u32)) = length (fr_bytes f)"
    using assms(1) by (simp add: to_be_bytes_def nat_be_be_nat MAX_FRAME_LEN_def unat_of_nat)
  then show ?thesis
    using assms by (simp add: frame_decode_eq frame_bytes_def Let_def)
qed

interpretation frames: stream_codec frame_bytes dec_frame "\<lambda>f. length (fr_bytes f) \<le> MAX_FRAME_LEN"
proof unfold_locales
  show "dec_frame (frame_bytes f @ rest) = Some (f, rest)" if "length (fr_bytes f) \<le> MAX_FRAME_LEN" for f rest
    using frame_decode_bytes [OF that, of "\<lparr>avail = frame_bytes f @ rest, at_end = eof\<rparr>" rest]
    by (simp add: dec_frame_def)
  show "frame_bytes f \<noteq> []" for f
    by (simp add: frame_bytes_def to_be_bytes_u32 be_nat_numerals)
qed

text \<open>Writing frames one after the other into a \<open>Vec<u8>\<close>.\<close>

fun encode_frames :: "Frame list \<Rightarrow> byte list \<Rightarrow> (io_error + unit) \<times> byte list" where
  "encode_frames [] out = (Inr (), out)"
| "encode_frames (f # fs) out = (case frame_encode vec_write_all f out of
     (Inl e, out') \<Rightarrow> (Inl e, out') | (Inr _, out') \<Rightarrow> encode_frames fs out')"

lemma encode_frames_bytes:
  "list_all (\<lambda>f. length (fr_bytes f) \<le> MAX_FRAME_LEN) fs \<Longrightarrow> encode_frames fs out = (Inr (), out @ concat (map frame_bytes fs))"
  by (induction fs arbitrary: out) (simp_all add: frame_encode_def vec_write_all_def frame_bytes_def MAX_FRAME_LEN_def)

lemma read_frames:
  assumes "list_all (\<lambda>f. length (fr_bytes f) \<le> MAX_FRAME_LEN) fs" "avail r = concat (map frame_bytes fs) @ rest"
  shows "read_many (length fs) frame_decode r = (Inr fs, r\<lparr>avail := rest\<rparr>)"
  using assms
proof (induction fs arbitrary: r)
  case (Cons f fs)
  have "frame_decode r = (Inr f, r\<lparr>avail := concat (map frame_bytes fs) @ rest\<rparr>)"
    using Cons.prems by (intro frame_decode_bytes) simp_all
  then show ?case
    using Cons by (simp add: read_defs)
qed (simp add: read_defs)

text \<open>
  Frames of up to 16 MiB, the empty terminator included, written one after the other and
  read back give the same frames and leave the reader exactly behind them; two different sequences of
  frames never have the same bytes.
\<close>

theorem frame_roundtrip:
  assumes "list_all (\<lambda>f. frame_len f \<le> MAX_FRAME_LEN) fs" "list_all (\<lambda>f. frame_len f \<le> MAX_FRAME_LEN) gs"
  shows "\<exists>bytes. encode_frames fs [] = (Inr (), bytes) \<and>
    (\<forall>rest e. read_many (length fs) frame_decode \<lparr>avail = bytes @ rest, at_end = e\<rparr> =
       (Inr fs, \<lparr>avail = rest, at_end = e\<rparr>)) \<and>
    (encode_frames gs [] = (Inr (), bytes) \<longrightarrow> gs = fs)"
  using assms encode_frames_bytes [of fs "[]"] encode_frames_bytes [of gs "[]"] frames.stream_inject [of fs gs]
  by (auto simp: frame_len_def read_frames)

theorem frame_roundtrip_witness:
  "\<exists>bytes. encode_frames [frame_new [1, 2], empty_marker] [] = (Inr (), bytes) \<and>
     read_many 2 frame_decode \<lparr>avail = bytes @ [9], at_end = eof\<rparr> =
       (Inr [frame_new [1, 2], empty_marker], \<lparr>avail = [9], at_end = eof\<rparr>)"
proof -
  have "list_all (\<lambda>f. frame_len f \<le> MAX_FRAME_LEN) [frame_new [1, 2], empty_marker]"
    by (simp add: frame_len_def frame_new_def empty_marker_def MAX_FRAME_LEN_def)
  then show ?thesis
    using frame_roundtrip [of "[frame_new [1, 2], empty_marker]" "[]"] unfolding numeral_2_eq_2 by auto
qed

text \<open>
  C19 (error). On any input the decoder does exactly one of four things: it reports the end of the stream
  when the header or the payload is short, rejects a declared length above 16 MiB after the four header
  bytes and before any payload is allocated or read, or returns a frame of the declared length; the header
  is big-endian, and a frame it accepts is never larger than the cap.
\<close>

theorem frame_decode_total:
  "case (let n = nat_be (take 4 (avail r)) in
     if length (avail r) < 4 then None else if MAX_FRAME_LEN < n then Some (Inl n)
     else if length (avail r) < 4 + n then None else Some (Inr n)) of
     None \<Rightarrow> frame_decode r = (Inl (at_end r), r\<lparr>avail := []\<rparr>)
   | Some (Inl n) \<Rightarrow> \<exists>e. frame_decode r = (Inl e, r\<lparr>avail := drop 4 (avail r)\<rparr>) \<and> kind_of e = InvalidData
   | Some (Inr n) \<Rightarrow> \<exists>f. frame_decode r = (Inr f, r\<lparr>avail := drop (4 + n) (avail r)\<rparr>) \<and>
       avail r = frame_bytes f @ drop (4 + n) (avail r) \<and> frame_len f = n \<and>
       try_from_vec (fr_bytes f) = Inr f \<and> (is_terminator f \<longleftrightarrow> n = 0)"
proof -
  let ?n = "nat_be (take 4 (avail r))"
  have "avail r = frame_bytes \<lparr>fr_bytes = take ?n (drop 4 (avail r))\<rparr> @ drop (4 + ?n) (avail r)"
    if "4 \<le> length (avail r)" "4 + ?n \<le> length (avail r)"
  proof -
    have "to_be_bytes (from_be_bytes (take 4 (avail r)) :: u32) = take 4 (avail r)"
      using that(1) by (intro to_be_bytes_from_be_bytes) simp_all
    then have "to_be_bytes (word_of_nat ?n :: u32) = take 4 (avail r)"
      by (simp add: from_be_bytes_def)
    moreover have "avail r = take 4 (avail r) @ take ?n (drop 4 (avail r)) @ drop (4 + ?n) (avail r)"
      using append_take_drop_id [of 4 "avail r"] append_take_drop_id [of ?n "drop 4 (avail r)"]
      by (simp only: drop_drop add.commute [of ?n])
    ultimately show ?thesis
      using that by (simp add: frame_bytes_def)
  qed
  then show ?thesis
    by (auto simp: frame_decode_eq Let_def frame_len_def try_from_vec_def is_terminator_def not_less)
qed

section \<open>Error frames round trip\<close>

lemma ascii_simps: "ascii [] = []" "ascii (c # s) = word_of_nat (of_char c) # ascii s"
  by (simp_all add: ascii_def)

lemma from_tag_as_tag: "from_tag (ascii (as_tag c)) = Some c"
  by (cases c) (simp_all add: from_tag_def ascii_simps)

lemma as_tag_no_colon: "0x3A \<notin> set (ascii (as_tag c))"
  by (cases c) (simp_all add: ascii_simps)

lemma from_tag_sound: "from_tag t = Some c \<Longrightarrow> t = ascii (as_tag c)"
  by (auto simp: from_tag_def split: if_splits)

lemma strip_prefix_append [simp]: "strip_prefix p (p @ xs) = Some xs"
  by (simp add: strip_prefix_def)

lemma position_append: "x \<notin> set xs \<Longrightarrow> position (\<lambda>b. b = x) (xs @ x # ys) = Some (length xs)"
  by (auto simp: position_Some_iff nth_append)

lemma position_none: "x \<notin> set xs \<Longrightarrow> position (\<lambda>b. b = x) xs = None"
  by (cases "position (\<lambda>b. b = x) xs") (auto simp: position_Some_iff)

lemma split_tag:
  "error_parse (ERR_PREFIX @ ascii (as_tag c) @ d) = Inr (Some \<lparr>ef_code = c, ef_detail = from_utf8_lossy (tl d)\<rparr>)"
  if "d = [] \<or> hd d = 0x3A"
proof (cases d)
  case Nil
  then show ?thesis
    using position_none [OF as_tag_no_colon] by (simp add: error_parse_def from_tag_as_tag)
next
  case (Cons x xs)
  then have "d = 0x3A # xs"
    using that by simp
  then show ?thesis
    using position_append [OF as_tag_no_colon, of c xs] by (simp add: error_parse_def from_tag_as_tag)
qed

lemma error_parse_sound:
  assumes "error_parse (ERR_PREFIX @ rest) = Inr (Some g)"
  shows "\<exists>d. rest = ascii (as_tag (ef_code g)) @ d \<and> (d = [] \<or> hd d = 0x3A)"
proof (cases "position (\<lambda>b. b = 0x3A) rest")
  case None
  then have "from_tag rest = Some (ef_code g)"
    using assms by (auto simp: error_parse_def split: option.splits)
  then show ?thesis
    using from_tag_sound by (intro exI [of _ "[]"]) auto
next
  case (Some i)
  then have "from_tag (take i rest) = Some (ef_code g)"
    using assms by (auto simp: error_parse_def split: option.splits)
  moreover have "rest = take i rest @ drop i rest" "hd (drop i rest) = 0x3A"
    using Some by (simp_all add: position_Some_iff hd_drop_conv_nth)
  ultimately show ?thesis
    using from_tag_sound by (intro exI [of _ "drop i rest"]) auto
qed

text \<open>
  An error frame survives the wire: parsing what was encoded gives the same code and
  detail, whatever the detail contains (colons included); a payload without the prefix is not an error
  frame; a payload with the prefix is rejected exactly when its tag is none of the nine, and an accepted
  one has the tag of its code up to the first colon.
\<close>

theorem error_frame_roundtrip:
  assumes "list_all scalar (ef_detail f)"
  shows "error_parse (error_encode f) = Inr (Some f) \<and>
    (take 4 payload \<noteq> ERR_PREFIX \<longrightarrow> error_parse payload = Inr None) \<and>
    (error_parse (ERR_PREFIX @ rest) = Inr (Some g) \<longleftrightarrow>
       (\<exists>d. rest = ascii (as_tag (ef_code g)) @ d \<and> (d = [] \<or> hd d = 0x3A) \<and> ef_detail g = from_utf8_lossy (tl d)))"
proof (intro conjI)
  have "error_encode f = ERR_PREFIX @ ascii (as_tag (ef_code f)) @ (if ef_detail f \<noteq> [] then 0x3A # as_bytes (ef_detail f) else [])"
    by (simp add: error_encode_def)
  then show "error_parse (error_encode f) = Inr (Some f)"
    using split_tag [of "if ef_detail f \<noteq> [] then 0x3A # as_bytes (ef_detail f) else []" "ef_code f"]
      from_utf8_lossy_as_bytes [OF assms] by (cases "ef_detail f = []") simp_all
  have "length ERR_PREFIX = 4"
    by (simp add: ERR_PREFIX_def ascii_simps)
  then show "take 4 payload \<noteq> ERR_PREFIX \<longrightarrow> error_parse payload = Inr None"
    by (simp add: error_parse_def strip_prefix_def)
  show "error_parse (ERR_PREFIX @ rest) = Inr (Some g) \<longleftrightarrow>
      (\<exists>d. rest = ascii (as_tag (ef_code g)) @ d \<and> (d = [] \<or> hd d = 0x3A) \<and> ef_detail g = from_utf8_lossy (tl d))"
  proof
    assume ok: "error_parse (ERR_PREFIX @ rest) = Inr (Some g)"
    then obtain d where "rest = ascii (as_tag (ef_code g)) @ d" "d = [] \<or> hd d = 0x3A"
      using error_parse_sound by blast
    then show "\<exists>d. rest = ascii (as_tag (ef_code g)) @ d \<and> (d = [] \<or> hd d = 0x3A) \<and> ef_detail g = from_utf8_lossy (tl d)"
      using split_tag [of d "ef_code g"] ok by (cases g) auto
  qed (use split_tag in force)
qed

theorem error_frame_roundtrip_witness:
  "error_parse (error_encode \<lparr>ef_code = E_NotFound, ef_detail = [97, 58, 228]\<rparr>) =
     Inr (Some \<lparr>ef_code = E_NotFound, ef_detail = [97, 58, 228]\<rparr>)"
  using error_frame_roundtrip [of "\<lparr>ef_code = E_NotFound, ef_detail = [97, 58, 228]\<rparr>"] by (simp add: scalar_def)

lemma byte_code_roundtrip: "from_byte b = Inr c \<longleftrightarrow> b = as_byte c"
  by (cases c) (auto simp: from_byte_def)

end
