(* ===== verification/Readers.thy ===== *)
theory Readers
  imports Codec
begin

text \<open>
  Facts on readers that the parsers of the server's messages share: reading what was written at the
  front of the stream, and locality, by which a reader that succeeds does not look at what follows.
\<close>

abbreviation at :: "byte list \<Rightarrow> io_error \<Rightarrow> reader" where
  "at bs e \<equiv> \<lparr>avail = bs, at_end = e\<rparr>"

lemma read_then_simps [simp]:
  "read_then (read_ret x) f r = f x r" "read_then (read_fail e) f r = (Inl e, r)"
  by (simp_all add: read_defs)

lemma read_then_ok: "p r = (Inr x, r') \<Longrightarrow> read_then p f r = f x r'"
  by (simp add: read_then_def)

lemma read_then_err: "p r = (Inl e, r') \<Longrightarrow> read_then p f r = (Inl e, r')"
  by (simp add: read_then_def)

lemma read_at:
  "read_word (at (to_be_bytes (a :: u8) @ rest) e) = (Inr a, at rest e)"
  "read_word (at (to_be_bytes (b :: u16) @ rest) e) = (Inr b, at rest e)"
  "read_word (at (to_be_bytes (c :: u32) @ rest) e) = (Inr c, at rest e)"
  "read_word (at (to_be_bytes (d :: u64) @ rest) e) = (Inr d, at rest e)"
  by (simp_all add: read_word_widths [of _ _ rest])

lemma read_byte_at: "read_word (at (a # rest) e) = (Inr (a :: u8), at rest e)"
  using read_at(1) [of a rest e] by (simp add: to_be_bytes_u8)

lemma read_exact_at: "length bs = n \<Longrightarrow> read_exact n (at (bs @ rest) e) = (Inr bs, at rest e)"
  by (simp add: read_exact_def)

lemma read_many_at:
  assumes "\<And>x rest. x \<in> set xs \<Longrightarrow> p (at (enc x @ rest) e) = (Inr x, at rest e)"
  shows "read_many (length xs) p (at (concat (map enc xs) @ rest) e) = (Inr xs, at rest e)"
  using assms by (induction xs) (simp_all add: read_defs)

text \<open>The same in front of a continuation.\<close>

lemma read_word_then:
  "read_then read_word f1 (at (to_be_bytes (a :: u8) @ rest) e) = f1 a (at rest e)"
  "read_then read_word f2 (at (to_be_bytes (b :: u16) @ rest) e) = f2 b (at rest e)"
  "read_then read_word f3 (at (to_be_bytes (c :: u32) @ rest) e) = f3 c (at rest e)"
  "read_then read_word f4 (at (to_be_bytes (d :: u64) @ rest) e) = f4 d (at rest e)"
  by (simp_all add: read_then_def read_at)

lemma read_exact_then: "length bs = n \<Longrightarrow> read_then (read_exact n) f (at (bs @ rest) e) = f bs (at rest e)"
  by (simp add: read_then_def read_exact_at)

lemma read_many_then:
  assumes "\<And>x rest. x \<in> set xs \<Longrightarrow> p (at (enc x @ rest) e) = (Inr x, at rest e)"
  shows "read_then (read_many (length xs) p) f (at (concat (map enc xs) @ rest) e) = f xs (at rest e)"
  by (simp only: read_then_def read_many_at [of xs p enc, OF assms] prod.case sum.case)

section \<open>Locality\<close>

definition local_read :: "'a read \<Rightarrow> bool" where
  "local_read p \<longleftrightarrow> (\<forall>xs ys e x rest. p (at xs e) = (Inr x, rest) \<longrightarrow>
     (\<exists>rs. rest = at rs e \<and> p (at (xs @ ys) e) = (Inr x, at (rs @ ys) e)))"

lemma local_readD:
  assumes "local_read p" "p (at xs e) = (Inr x, rest)"
  obtains rs where "rest = at rs e" "\<And>ys. p (at (xs @ ys) e) = (Inr x, at (rs @ ys) e)"
proof -
  obtain rs where rs: "rest = at rs e"
    using assms unfolding local_read_def by blast
  have "p (at (xs @ ys) e) = (Inr x, at (rs @ ys) e)" for ys
    using assms rs unfolding local_read_def by fastforce
  then show ?thesis
    using that rs by blast
qed

lemma local_exact [intro, simp]: "local_read (read_exact n)"
  by (auto simp: local_read_def read_exact_def split: if_splits)

lemma local_ret [intro, simp]: "local_read (read_ret x)"
  by (simp add: local_read_def read_ret_def)

lemma local_fail [intro, simp]: "local_read (read_fail e)"
  by (simp add: local_read_def read_fail_def)

lemma local_then [intro]:
  assumes "local_read p" "\<And>x. local_read (f x)"
  shows "local_read (read_then p f)"
  unfolding local_read_def
proof (intro allI impI)
  fix xs ys e x rest
  assume ok: "read_then p f (at xs e) = (Inr x, rest)"
  obtain y r1 where y: "p (at xs e) = (Inr y, r1)"
    using ok by (auto simp: read_then_def split: prod.splits sum.splits)
  obtain rs where rs: "r1 = at rs e" "\<And>zs. p (at (xs @ zs) e) = (Inr y, at (rs @ zs) e)"
    using local_readD [OF assms(1) y] by blast
  have "f y (at rs e) = (Inr x, rest)"
    using ok y rs(1) by (simp add: read_then_def)
  then obtain qs where "rest = at qs e" "\<And>zs. f y (at (rs @ zs) e) = (Inr x, at (qs @ zs) e)"
    using local_readD [OF assms(2)] by blast
  then show "\<exists>rs. rest = at rs e \<and> read_then p f (at (xs @ ys) e) = (Inr x, at (rs @ ys) e)"
    using rs(2) by (auto simp: read_then_def)
qed

lemma local_word [intro, simp]: "local_read read_word"
  unfolding read_word_def by (intro local_then) auto

lemma local_many [intro]: "local_read p \<Longrightarrow> local_read (read_many n p)"
  by (induction n) auto

text \<open>A local reader that takes exactly \<open>bs\<close> fails on every proper prefix of it.\<close>

lemma strict_prefix_fails:
  assumes "local_read p" "p (at (xs @ ys) e) = (Inr x, at [] e)" "ys \<noteq> []"
  shows "\<exists>e' r. p (at xs e) = (Inl e', r)"
proof (cases "p (at xs e)")
  case (Pair v r)
  show ?thesis
  proof (cases v)
    case (Inr x')
    then obtain rs where "p (at (xs @ ys) e) = (Inr x', at (rs @ ys) e)"
      using local_readD [OF assms(1), of xs e x' r] Pair by metis
    then show ?thesis
      using assms(2,3) by simp
  qed (use Pair in blast)
qed

end
