(* ===== verification/Ai.thy ===== *)
theory Ai
  imports Readers Types
begin

text \<open>
  \<^verbatim>\<open>src/src/ai/mod.rs\<close>: frame summaries and statistics of the server extension, their parsers and the
  envelope reader. An \<open>f32\<close> is kept as its bit pattern: the parsers only transmute it.
\<close>

definition TYPE_FRAME_SUMMARY :: u8 where [simp]: "TYPE_FRAME_SUMMARY = 3"
definition TYPE_AI_STATS :: u8 where [simp]: "TYPE_AI_STATS = 4"

definition FLAG_KEYFRAME :: u8 where "FLAG_KEYFRAME = push_bit 0 1"
definition FLAG_SCENE_CHANGE :: u8 where "FLAG_SCENE_CHANGE = push_bit 1 1"

record MotionVector =
  mv_x :: u16
  mv_y :: u16
  mv_dx :: i16
  mv_dy :: i16

record ObjectBox =
  ob_x :: u16
  ob_y :: u16
  ob_w :: u16
  ob_h :: u16
  ob_class_id :: u8
  ob_confidence :: u8

record TextRegion =
  tr_x :: u16
  tr_y :: u16
  tr_w :: u16
  tr_h :: u16

record FrameSummary =
  fs_timestamp_ms :: u64
  fs_frame_seq :: u32
  fs_width :: u16
  fs_height :: u16
  fs_flags :: u8
  fs_features :: "u32 list"
  fs_motion :: "MotionVector list"
  fs_objects :: "ObjectBox list"
  fs_text_regions :: "TextRegion list"

definition is_keyframe :: "FrameSummary \<Rightarrow> bool" where
  "is_keyframe s \<longleftrightarrow> fs_flags s AND FLAG_KEYFRAME \<noteq> 0"
definition is_scene_change :: "FrameSummary \<Rightarrow> bool" where
  "is_scene_change s \<longleftrightarrow> fs_flags s AND FLAG_SCENE_CHANGE \<noteq> 0"
definition has_objects :: "FrameSummary \<Rightarrow> bool" where
  "has_objects s \<longleftrightarrow> fs_objects s \<noteq> []"
definition is_moving :: "FrameSummary \<Rightarrow> bool" where
  "is_moving s \<longleftrightarrow> fs_motion s \<noteq> []"

definition read_motion :: "MotionVector read" where
  "read_motion =
     read_then read_word (\<lambda>x. read_then read_word (\<lambda>y. read_then read_word (\<lambda>dx. read_then read_word (\<lambda>dy.
       read_ret \<lparr>mv_x = x, mv_y = y, mv_dx = dx, mv_dy = dy\<rparr>))))"

definition read_object :: "ObjectBox read" where
  "read_object =
     read_then read_word (\<lambda>x. read_then read_word (\<lambda>y. read_then read_word (\<lambda>w. read_then read_word (\<lambda>h.
       read_then read_word (\<lambda>class_id. read_then read_word (\<lambda>confidence.
         read_ret \<lparr>ob_x = x, ob_y = y, ob_w = w, ob_h = h, ob_class_id = class_id, ob_confidence = confidence\<rparr>))))))"

definition read_region :: "TextRegion read" where
  "read_region =
     read_then read_word (\<lambda>x. read_then read_word (\<lambda>y. read_then read_word (\<lambda>w. read_then read_word (\<lambda>h.
       read_ret \<lparr>tr_x = x, tr_y = y, tr_w = w, tr_h = h\<rparr>))))"

definition read_frame_summary :: "FrameSummary read" where
  "read_frame_summary =
     read_then read_word (\<lambda>timestamp_ms. read_then read_word (\<lambda>frame_seq.
     read_then read_word (\<lambda>width. read_then read_word (\<lambda>height. read_then read_word (\<lambda>flags.
     read_then read_word (\<lambda>feature_dim :: u16. read_then (read_many (unat feature_dim) read_word) (\<lambda>features.
     read_then read_word (\<lambda>num_motion :: u16. read_then (read_many (unat num_motion) read_motion) (\<lambda>motion.
     read_then read_word (\<lambda>num_obj :: u16. read_then (read_many (unat num_obj) read_object) (\<lambda>objects.
     read_then read_word (\<lambda>num_text :: u8. read_then (read_many (unat num_text) read_region) (\<lambda>text_regions.
       read_ret \<lparr>fs_timestamp_ms = timestamp_ms, fs_frame_seq = frame_seq, fs_width = width, fs_height = height,
         fs_flags = flags, fs_features = features, fs_motion = motion, fs_objects = objects,
         fs_text_regions = text_regions\<rparr>)))))))))))))"

text \<open>Parsing runs over a cursor on the payload; what is left of it is drained and ignored. The end of a
  cursor is an end of file, and \<open>io_err\<close> keeps the message of an I/O error.\<close>

definition cursor_end :: io_error where
  "cursor_end = IoError UnexpectedEof ''failed to fill whole buffer'' []"

definition io_err :: "io_error \<Rightarrow> error" where
  "io_err e = Transport (message_of e)"

definition parse_cursor :: "'a read \<Rightarrow> byte list \<Rightarrow> error + 'a" where
  "parse_cursor p payload = (case p \<lparr>avail = payload, at_end = cursor_end\<rparr> of (Inl e, _) \<Rightarrow> Inl (io_err e) | (Inr x, _) \<Rightarrow> Inr x)"

definition frame_summary_parse :: "byte list \<Rightarrow> error + FrameSummary" where
  "frame_summary_parse payload = parse_cursor read_frame_summary payload"

record AiStats =
  as_uptime_ms :: u64
  as_frames_sampled :: u32
  as_frames_skipped_keyframe :: u32
  as_frames_yolo_inferred :: u32
  as_bytes_summary_emitted :: u64
  as_avg_latency_ms :: u32
  as_current_fps :: u32

definition read_ai_stats :: "AiStats read" where
  "read_ai_stats =
     read_then read_word (\<lambda>uptime. read_then read_word (\<lambda>sampled. read_then read_word (\<lambda>skipped.
     read_then read_word (\<lambda>yolo. read_then read_word (\<lambda>bytes. read_then read_word (\<lambda>latency. read_then read_word (\<lambda>fps.
       read_ret \<lparr>as_uptime_ms = uptime, as_frames_sampled = sampled, as_frames_skipped_keyframe = skipped,
         as_frames_yolo_inferred = yolo, as_bytes_summary_emitted = bytes, as_avg_latency_ms = latency,
         as_current_fps = fps\<rparr>)))))))"

definition ai_stats_parse :: "byte list \<Rightarrow> error + AiStats" where
  "ai_stats_parse payload = parse_cursor read_ai_stats payload"

datatype DeviceEnvelope = EnvFrame FrameSummary | EnvStats AiStats

definition read_device_envelope :: "reader \<Rightarrow> (error + DeviceEnvelope option) \<times> reader" where
  "read_device_envelope r =
     (case read_exact 5 r of
        (Inl e, r1) \<Rightarrow> (if kind_of e = UnexpectedEof then Inr None else Inl (io_err e), r1)
      | (Inr header, r1) \<Rightarrow>
          (let ty = header ! 0; len = unat (from_be_bytes (drop 1 header) :: u32) in
           case read_exact len r1 of
             (Inl e, r2) \<Rightarrow> (Inl (io_err e), r2)
           | (Inr payload, r2) \<Rightarrow>
               ((if ty = TYPE_FRAME_SUMMARY then map_sum id (Some \<circ> EnvFrame) (frame_summary_parse payload)
                 else if ty = TYPE_AI_STATS then map_sum id (Some \<circ> EnvStats) (ai_stats_parse payload)
                 else Inr None), r2)))"

section \<open>The layout\<close>

definition motion_bytes :: "MotionVector \<Rightarrow> byte list" where
  "motion_bytes v = to_be_bytes (mv_x v) @ to_be_bytes (mv_y v) @ to_be_bytes (mv_dx v) @ to_be_bytes (mv_dy v)"

definition object_bytes :: "ObjectBox \<Rightarrow> byte list" where
  "object_bytes b = to_be_bytes (ob_x b) @ to_be_bytes (ob_y b) @ to_be_bytes (ob_w b) @ to_be_bytes (ob_h b) @
     to_be_bytes (ob_class_id b) @ to_be_bytes (ob_confidence b)"

definition region_bytes :: "TextRegion \<Rightarrow> byte list" where
  "region_bytes b = to_be_bytes (tr_x b) @ to_be_bytes (tr_y b) @ to_be_bytes (tr_w b) @ to_be_bytes (tr_h b)"

definition summary_bytes :: "FrameSummary \<Rightarrow> byte list" where
  "summary_bytes s = to_be_bytes (fs_timestamp_ms s) @ to_be_bytes (fs_frame_seq s) @ to_be_bytes (fs_width s) @
     to_be_bytes (fs_height s) @ to_be_bytes (fs_flags s) @
     to_be_bytes (word_of_nat (length (fs_features s)) :: u16) @ concat (map to_be_bytes (fs_features s)) @
     to_be_bytes (word_of_nat (length (fs_motion s)) :: u16) @ concat (map motion_bytes (fs_motion s)) @
     to_be_bytes (word_of_nat (length (fs_objects s)) :: u16) @ concat (map object_bytes (fs_objects s)) @
     to_be_bytes (word_of_nat (length (fs_text_regions s)) :: u8) @ concat (map region_bytes (fs_text_regions s))"

definition stats_bytes :: "AiStats \<Rightarrow> byte list" where
  "stats_bytes s = to_be_bytes (as_uptime_ms s) @ to_be_bytes (as_frames_sampled s) @
     to_be_bytes (as_frames_skipped_keyframe s) @ to_be_bytes (as_frames_yolo_inferred s) @
     to_be_bytes (as_bytes_summary_emitted s) @ to_be_bytes (as_avg_latency_ms s) @ to_be_bytes (as_current_fps s)"

definition summary_ok :: "FrameSummary \<Rightarrow> bool" where
  \<comment> \<open>the counts fit their fields\<close>
  "summary_ok s \<longleftrightarrow> length (fs_features s) < 2 ^ 16 \<and> length (fs_motion s) < 2 ^ 16 \<and>
     length (fs_objects s) < 2 ^ 16 \<and> length (fs_text_regions s) < 2 ^ 8"

lemma read_items:
  "read_motion (at (motion_bytes v @ rest) e) = (Inr v, at rest e)"
  "read_object (at (object_bytes b @ rest) e) = (Inr b, at rest e)"
  "read_region (at (region_bytes t @ rest) e) = (Inr t, at rest e)"
  by (simp_all add: read_motion_def motion_bytes_def read_object_def object_bytes_def read_region_def region_bytes_def
      read_word_then read_ret_def)

lemma count_read:
  "n < 2 ^ 16 \<Longrightarrow> unat (word_of_nat n :: u16) = n" "n < 2 ^ 8 \<Longrightarrow> unat (word_of_nat n :: u8) = n"
  by (simp_all add: unat_of_nat)

lemma read_summary_at:
  assumes "summary_ok s"
  shows "read_frame_summary (at (summary_bytes s @ rest) e) = (Inr s, at rest e)"
  using assms unfolding summary_ok_def read_frame_summary_def summary_bytes_def
  by (simp add: read_word_then count_read read_many_then [where p = read_word and enc = to_be_bytes] read_at
      read_many_then [where p = read_motion and enc = motion_bytes] read_many_then [where p = read_object and enc = object_bytes]
      read_many_then [where p = read_region and enc = region_bytes] read_items read_ret_def)

lemma read_stats_at: "read_ai_stats (at (stats_bytes s @ rest) e) = (Inr s, at rest e)"
  by (simp add: read_ai_stats_def stats_bytes_def read_word_then read_ret_def)

lemma local_parsers: "local_read read_frame_summary" "local_read read_ai_stats"
  unfolding read_frame_summary_def read_ai_stats_def read_motion_def read_object_def read_region_def
  by (intro local_then local_many local_ret local_word)+

lemma parse_prefix_fails:
  assumes "local_read p" "\<And>e. p (at (xs @ ys) e) = (Inr x, at [] e)" "ys \<noteq> []"
  shows "\<exists>msg. parse_cursor p xs = Inl (Transport msg)"
  using strict_prefix_fails [OF assms(1) assms(2) assms(3), of cursor_end] by (auto simp: parse_cursor_def io_err_def)

text \<open>
  The payloads of the server extension are parsed exactly: what was encoded is what the
  parser returns, bytes that follow it are ignored, and a payload cut anywhere is a transport error, never
  a summary with some of its lists shortened.
\<close>

theorem ai_payload_roundtrip:
  assumes "summary_ok s"
  shows "frame_summary_parse (summary_bytes s @ padding) = Inr s \<and> ai_stats_parse (stats_bytes t @ padding) = Inr t \<and>
    (summary_bytes s = xs @ ys \<and> ys \<noteq> [] \<longrightarrow> (\<exists>msg. frame_summary_parse xs = Inl (Transport msg))) \<and>
    (stats_bytes t = xs @ ys \<and> ys \<noteq> [] \<longrightarrow> (\<exists>msg. ai_stats_parse xs = Inl (Transport msg)))"
proof (intro conjI impI)
  show "frame_summary_parse (summary_bytes s @ padding) = Inr s" "ai_stats_parse (stats_bytes t @ padding) = Inr t"
    by (simp_all add: frame_summary_parse_def ai_stats_parse_def parse_cursor_def read_summary_at [OF assms] read_stats_at)
  show "\<exists>msg. frame_summary_parse xs = Inl (Transport msg)" if "summary_bytes s = xs @ ys \<and> ys \<noteq> []"
    unfolding frame_summary_parse_def
    by (rule parse_prefix_fails [OF local_parsers(1), of _ ys s]) (use read_summary_at [OF assms, of "[]"] that in auto)
  show "\<exists>msg. ai_stats_parse xs = Inl (Transport msg)" if "stats_bytes t = xs @ ys \<and> ys \<noteq> []"
    unfolding ai_stats_parse_def
    by (rule parse_prefix_fails [OF local_parsers(2), of _ ys t]) (use read_stats_at [of t "[]"] that in auto)
qed

definition summary0 :: FrameSummary where
  "summary0 = \<lparr>fs_timestamp_ms = 5, fs_frame_seq = 42, fs_width = 1080, fs_height = 2400, fs_flags = 1, fs_features = [7],
     fs_motion = [\<lparr>mv_x = 1, mv_y = 2, mv_dx = 3, mv_dy = 4\<rparr>], fs_objects = [], fs_text_regions = []\<rparr>"

theorem ai_payload_roundtrip_witness:
  "frame_summary_parse (summary_bytes summary0 @ [9]) = Inr summary0"
  using ai_payload_roundtrip [of summary0 "[9]"] by (simp add: summary_ok_def summary0_def)

end
