(* ===== verification/Device.thy ===== *)
theory Device
  imports Ai Utf8
begin

text \<open>
  \<^verbatim>\<open>src/src/device.rs\<close>: the messages the server sends to the host, their readers, the background loops that
  deliver them, and the latest-frame cache with its waiters. A channel is its contents and the number of
  sends its receiver accepts before it is dropped; a wait is the list of states its wake-ups see.
\<close>

definition DEVICE_MSG_MAX_SIZE :: nat where "DEVICE_MSG_MAX_SIZE = 2 ^ 18"
definition DEVICE_MSG_TEXT_MAX_LENGTH :: nat where "DEVICE_MSG_TEXT_MAX_LENGTH = DEVICE_MSG_MAX_SIZE - 5"
definition TYPE_CLIPBOARD :: u8 where [simp]: "TYPE_CLIPBOARD = 0"
definition TYPE_ACK_CLIPBOARD :: u8 where [simp]: "TYPE_ACK_CLIPBOARD = 1"
definition TYPE_UHID_OUTPUT :: u8 where [simp]: "TYPE_UHID_OUTPUT = 2"
definition DEVICE_NAME_FIELD_LENGTH :: nat where [simp]: "DEVICE_NAME_FIELD_LENGTH = 64"

record ScrcpyControlPrefix =
  cp_dummy_byte :: u8
  cp_device_name :: ustr
  cp_raw_device_name :: "byte list"

datatype DeviceMessage =
    DM_Clipboard ustr
  | DM_AckClipboard u64
  | DM_UhidOutput u16 "byte list"

datatype DeviceEvent =
    DE_Native DeviceMessage
  | DE_FrameSummary FrameSummary
  | DE_AiStats AiStats
  | DE_UnknownEnvelope u8 "byte list"

primrec message_type :: "DeviceMessage \<Rightarrow> u8" where
  "message_type (DM_Clipboard t) = TYPE_CLIPBOARD"
| "message_type (DM_AckClipboard n) = TYPE_ACK_CLIPBOARD"
| "message_type (DM_UhidOutput i d) = TYPE_UHID_OUTPUT"

primrec event_type :: "DeviceEvent \<Rightarrow> u8" where
  "event_type (DE_Native m) = message_type m"
| "event_type (DE_FrameSummary s) = TYPE_FRAME_SUMMARY"
| "event_type (DE_AiStats s) = TYPE_AI_STATS"
| "event_type (DE_UnknownEnvelope ty payload) = ty"

section \<open>Readers\<close>

definition invalid_data :: "string \<Rightarrow> nat list \<Rightarrow> io_error" where
  "invalid_data msg args = IoError InvalidData msg args"

definition read_payload :: "nat \<Rightarrow> byte list read" where
  "read_payload len = (if 0 < len then read_exact len else read_ret [])"

definition read_clipboard :: "DeviceMessage read" where
  "read_clipboard =
     read_then read_word (\<lambda>len :: u32.
       if DEVICE_MSG_TEXT_MAX_LENGTH < unat len
       then read_fail (invalid_data ''clipboard payload too large: {} bytes (max {})'' [unat len, DEVICE_MSG_TEXT_MAX_LENGTH])
       else read_then (read_payload (unat len)) (\<lambda>payload.
         case from_utf8 payload of
           None \<Rightarrow> read_fail (invalid_data ''{utf8 error}'' [])
         | Some t \<Rightarrow> read_ret (DM_Clipboard t)))"

definition read_ack_clipboard :: "DeviceMessage read" where
  "read_ack_clipboard = read_then read_word (\<lambda>n. read_ret (DM_AckClipboard n))"

definition read_uhid_output :: "DeviceMessage read" where
  "read_uhid_output =
     read_then read_word (\<lambda>i. read_then read_word (\<lambda>size :: u16.
       if DEVICE_MSG_MAX_SIZE - 5 < unat size
       then read_fail (invalid_data ''uhid output payload too large: {} bytes (max {})'' [unat size, DEVICE_MSG_MAX_SIZE - 5])
       else read_then (read_payload (unat size)) (\<lambda>data. read_ret (DM_UhidOutput i data))))"

definition ai_error_to_io :: "error \<Rightarrow> io_error" where
  "ai_error_to_io e = (case e of
     Transport msg \<Rightarrow> invalid_data (''transport error: '' @ msg) []
   | _ \<Rightarrow> invalid_data ''{err}'' [])"

definition lift_parse :: "error + 'a \<Rightarrow> 'a read" where
  "lift_parse x = (case x of Inl e \<Rightarrow> read_fail (ai_error_to_io e) | Inr v \<Rightarrow> read_ret v)"

definition read_ai_or_unknown_envelope :: "u8 \<Rightarrow> DeviceEvent read" where
  "read_ai_or_unknown_envelope ty =
     read_then read_word (\<lambda>len :: u32.
       if DEVICE_MSG_MAX_SIZE - 5 < unat len
       then read_fail (invalid_data ''device event payload too large: {} bytes (max {})'' [unat len, DEVICE_MSG_MAX_SIZE - 5])
       else read_then (read_payload (unat len)) (\<lambda>payload.
         if ty = TYPE_FRAME_SUMMARY then read_then (lift_parse (frame_summary_parse payload)) (\<lambda>s. read_ret (DE_FrameSummary s))
         else if ty = TYPE_AI_STATS then read_then (lift_parse (ai_stats_parse payload)) (\<lambda>s. read_ret (DE_AiStats s))
         else read_ret (DE_UnknownEnvelope ty payload)))"

definition read_device_message :: "DeviceMessage read" where
  "read_device_message =
     read_then read_word (\<lambda>ty.
       if ty = TYPE_CLIPBOARD then read_clipboard
       else if ty = TYPE_ACK_CLIPBOARD then read_ack_clipboard
       else if ty = TYPE_UHID_OUTPUT then read_uhid_output
       else read_fail (invalid_data ''unknown device message type {}'' [unat ty]))"

definition as_native :: "DeviceMessage read \<Rightarrow> DeviceEvent read" where
  "as_native p = read_then p (\<lambda>m. read_ret (DE_Native m))"

definition read_device_event :: "DeviceEvent read" where
  "read_device_event =
     read_then read_word (\<lambda>ty.
       if ty = TYPE_CLIPBOARD then as_native read_clipboard
       else if ty = TYPE_ACK_CLIPBOARD then as_native read_ack_clipboard
       else if ty = TYPE_UHID_OUTPUT then as_native read_uhid_output
       else read_ai_or_unknown_envelope ty)"

definition read_scrcpy_control_prefix :: "ScrcpyControlPrefix read" where
  "read_scrcpy_control_prefix =
     read_then read_word (\<lambda>dummy. read_then (read_exact DEVICE_NAME_FIELD_LENGTH) (\<lambda>raw.
       let name_len = (case position (\<lambda>b. b = 0) raw of Some i \<Rightarrow> i | None \<Rightarrow> DEVICE_NAME_FIELD_LENGTH)
       in read_ret \<lparr>cp_dummy_byte = dummy, cp_device_name = from_utf8_lossy (take name_len raw), cp_raw_device_name = raw\<rparr>))"

section \<open>Background loops\<close>

record 'm channel =
  ch_items :: "(io_error + 'm) list"
  ch_left :: "nat option" \<comment> \<open>\<open>None\<close>: the receiver is never dropped\<close>

definition send :: "io_error + 'm \<Rightarrow> 'm channel \<Rightarrow> bool \<times> 'm channel" where
  "send x ch = (case ch_left ch of
     None \<Rightarrow> (True, ch\<lparr>ch_items := ch_items ch @ [x]\<rparr>)
   | Some 0 \<Rightarrow> (False, ch)
   | Some (Suc k) \<Rightarrow> (True, ch\<lparr>ch_items := ch_items ch @ [x], ch_left := Some k\<rparr>))"

text \<open>A successful read has consumed at least the type byte, so that the loops end on every stream.\<close>

lemma well_behaved_payload [intro, simp]: "well_behaved (read_payload n)"
  by (simp add: read_payload_def)

lemma well_behaved_lift [intro, simp]: "well_behaved (lift_parse x)"
  by (simp add: lift_parse_def split: sum.split)

lemma well_behaved_if [intro]: "well_behaved p \<Longrightarrow> well_behaved q \<Longrightarrow> well_behaved (if b then p else q)"
  by simp

lemma well_behaved_text: "well_behaved (case from_utf8 payload of None \<Rightarrow> read_fail e | Some t \<Rightarrow> read_ret (f t))"
  by (simp split: option.split)

lemma well_behaved_native:
  "well_behaved read_clipboard" "well_behaved read_ack_clipboard" "well_behaved read_uhid_output"
  unfolding read_clipboard_def read_ack_clipboard_def read_uhid_output_def
  by (intro well_behaved_then well_behaved_if well_behaved_word well_behaved_fail well_behaved_ret well_behaved_payload well_behaved_text)+

lemma well_behaved_envelope: "well_behaved (read_ai_or_unknown_envelope ty)"
  unfolding read_ai_or_unknown_envelope_def
  by (intro well_behaved_then well_behaved_if well_behaved_word well_behaved_fail well_behaved_ret well_behaved_payload well_behaved_lift)

lemma type_byte_consumed:
  assumes "\<And>ty. well_behaved (f ty)" "read_then (read_word :: u8 read) f r = (Inr x, r')"
  shows "length (avail r') < length (avail r)"
proof -
  obtain b bs where bs: "avail r = b # bs" "read_word r = (Inr b :: io_error + u8, r\<lparr>avail := bs\<rparr>)"
    using assms(2) by (cases "avail r") (auto simp: read_word_def read_defs read_exact_def from_be_bytes_def nat_be_def)
  then have "f b (r\<lparr>avail := bs\<rparr>) = (Inr x, r')"
    using assms(2) by (simp add: read_then_def)
  moreover obtain used where "bs = used @ avail (snd (f b (r\<lparr>avail := bs\<rparr>)))"
    using assms(1) [of b] unfolding well_behaved_def by (metis reader.select_convs(1) reader.surjective reader.update_convs(1))
  ultimately show ?thesis
    using bs(1) by simp
qed

lemma message_consumed: "read_device_message r = (Inr m, r') \<Longrightarrow> length (avail r') < length (avail r)"
  unfolding read_device_message_def
  by (erule type_byte_consumed [rotated]) (intro well_behaved_if well_behaved_native well_behaved_fail)

lemma event_consumed: "read_device_event r = (Inr m, r') \<Longrightarrow> length (avail r') < length (avail r)"
  unfolding read_device_event_def as_native_def
  by (erule type_byte_consumed [rotated]) (intro well_behaved_if well_behaved_then well_behaved_native well_behaved_ret well_behaved_envelope)

function device_message_loop :: "reader \<Rightarrow> DeviceMessage channel \<Rightarrow> reader \<times> DeviceMessage channel" where
  "device_message_loop r ch = (case read_device_message r of
     (Inr msg, r') \<Rightarrow> (case send (Inr msg) ch of (True, ch') \<Rightarrow> device_message_loop r' ch' | (False, ch') \<Rightarrow> (r', ch'))
   | (Inl e, r') \<Rightarrow> (r', snd (send (Inl e) ch)))"
  by pat_completeness auto
termination
  by (relation "measure (length \<circ> avail \<circ> fst)") (auto dest: message_consumed [OF sym])

function device_event_loop :: "reader \<Rightarrow> DeviceEvent channel \<Rightarrow> reader \<times> DeviceEvent channel" where
  "device_event_loop r ch = (case read_device_event r of
     (Inr event, r') \<Rightarrow> (case send (Inr event) ch of (True, ch') \<Rightarrow> device_event_loop r' ch' | (False, ch') \<Rightarrow> (r', ch'))
   | (Inl e, r') \<Rightarrow> (r', snd (send (Inl e) ch)))"
  by pat_completeness auto
termination
  by (relation "measure (length \<circ> avail \<circ> fst)") (auto dest: event_consumed [OF sym])

declare device_message_loop.simps [simp del] device_event_loop.simps [simp del]

section \<open>The latest frame\<close>

record LatestFrameSummarySnapshot =
  ls_version :: u64
  ls_summary :: FrameSummary

type_synonym boundary = u64 \<comment> \<open>\<open>LatestFrameSummaryBoundary\<close>\<close>

definition boundary_accepts :: "boundary \<Rightarrow> LatestFrameSummarySnapshot \<Rightarrow> bool" where
  "boundary_accepts b sn \<longleftrightarrow> b < ls_version sn"

record LatestFrameSummaryObservation =
  lo_boundary :: boundary
  lo_snapshot :: "LatestFrameSummarySnapshot option"

record DeviceReadError =
  re_kind :: io_kind
  re_message :: string
  re_args :: "nat list"

definition from_io_error :: "io_error \<Rightarrow> DeviceReadError" where
  "from_io_error e = \<lparr>re_kind = kind_of e, re_message = message_of e, re_args = args_of e\<rparr>"

definition to_io_error :: "DeviceReadError \<Rightarrow> io_error" where
  "to_io_error e = IoError (re_kind e) (re_message e) (re_args e)"

record LatestFrameSummaryState =
  lf_latest :: "LatestFrameSummarySnapshot option"
  lf_version :: u64
  lf_terminal_error :: "DeviceReadError option"

definition latest_default :: LatestFrameSummaryState where
  "latest_default = \<lparr>lf_latest = None, lf_version = 0, lf_terminal_error = None\<rparr>"

definition observe :: "LatestFrameSummaryState \<Rightarrow> LatestFrameSummaryObservation" where
  "observe st = \<lparr>lo_boundary = lf_version st, lo_snapshot = lf_latest st\<rparr>"

definition snapshot_after_version :: "u64 \<Rightarrow> LatestFrameSummaryState \<Rightarrow> LatestFrameSummarySnapshot option" where
  "snapshot_after_version v st = (if v < lf_version st then lf_latest st else None)"

definition snapshot_after_boundary :: "boundary \<Rightarrow> LatestFrameSummaryState \<Rightarrow> LatestFrameSummarySnapshot option" where
  "snapshot_after_boundary b st = snapshot_after_version b st"

definition snapshot_after_observation ::
    "LatestFrameSummaryObservation \<Rightarrow> LatestFrameSummaryState \<Rightarrow> LatestFrameSummarySnapshot option" where
  "snapshot_after_observation ob st = snapshot_after_boundary (lo_boundary ob) st"

definition snapshot_matching ::
    "(LatestFrameSummarySnapshot \<Rightarrow> bool) \<Rightarrow> LatestFrameSummaryState \<Rightarrow> LatestFrameSummarySnapshot option" where
  "snapshot_matching p st = (case lf_latest st of Some sn \<Rightarrow> if p sn then Some sn else None | None \<Rightarrow> None)"

definition snapshot_after_frame_seq :: "u32 \<Rightarrow> LatestFrameSummaryState \<Rightarrow> LatestFrameSummarySnapshot option" where
  "snapshot_after_frame_seq n st = snapshot_matching (\<lambda>sn. n < fs_frame_seq (ls_summary sn)) st"

definition snapshot_after_timestamp :: "u64 \<Rightarrow> LatestFrameSummaryState \<Rightarrow> LatestFrameSummarySnapshot option" where
  "snapshot_after_timestamp n st = snapshot_matching (\<lambda>sn. n < fs_timestamp_ms (ls_summary sn)) st"

definition store_summary :: "FrameSummary \<Rightarrow> LatestFrameSummaryState \<Rightarrow> LatestFrameSummaryState" where
  "store_summary summary st =
     (let version = (if lf_version st = - 1 then - 1 else lf_version st + 1)
      in st\<lparr>lf_version := version, lf_latest := Some \<lparr>ls_version = version, ls_summary = summary\<rparr>\<rparr>)"

definition store_terminal_error :: "io_error \<Rightarrow> LatestFrameSummaryState \<Rightarrow> LatestFrameSummaryState" where
  "store_terminal_error e st = st\<lparr>lf_terminal_error := Some (from_io_error e)\<rparr>"

text \<open>The pump. \<open>alive\<close> is the number of turns after which every other handle is gone (\<open>None\<close>: never). The
  result is the reader and the states the cache goes through, oldest first.\<close>

function latest_frame_summary_loop ::
    "nat option \<Rightarrow> reader \<Rightarrow> LatestFrameSummaryState \<Rightarrow> reader \<times> LatestFrameSummaryState list" where
  "latest_frame_summary_loop alive r st =
     (if alive = Some 0 then (r, [st])
      else case read_device_event r of
        (Inr event, r') \<Rightarrow>
          (let st' = (case event of DE_FrameSummary summary \<Rightarrow> store_summary summary st | _ \<Rightarrow> st)
           in case latest_frame_summary_loop (map_option (\<lambda>n. n - 1) alive) r' st' of (r'', sts) \<Rightarrow> (r'', st # sts))
      | (Inl e, r') \<Rightarrow> (r', [st, store_terminal_error e st]))"
  by pat_completeness auto
termination
  by (relation "measure (\<lambda>(alive, r, st). length (avail r))") (auto dest: event_consumed [OF sym])

declare latest_frame_summary_loop.simps [simp del]

text \<open>The waiters, over the states they see each time they hold the lock; \<open>None\<close> is a thread still
  waiting. With a timeout, the clock is read after the checks.\<close>

definition check_state ::
    "(LatestFrameSummarySnapshot \<Rightarrow> bool) \<Rightarrow> LatestFrameSummaryState \<Rightarrow> (io_error + LatestFrameSummarySnapshot) option" where
  \<comment> \<open>the two \<open>if let\<close> at the head of the loops\<close>
  "check_state p st =
     (case snapshot_matching p st of
        Some sn \<Rightarrow> Some (Inr sn)
      | None \<Rightarrow> map_option (\<lambda>e. Inl (to_io_error e)) (lf_terminal_error st))"

fun wait_matching ::
    "(LatestFrameSummarySnapshot \<Rightarrow> bool) \<Rightarrow> LatestFrameSummaryState list \<Rightarrow> (io_error + LatestFrameSummarySnapshot) option" where
  "wait_matching p [] = None"
| "wait_matching p (st # sts) = (case check_state p st of Some res \<Rightarrow> Some res | None \<Rightarrow> wait_matching p sts)"

definition wait_next_matching ::
    "u64 \<Rightarrow> (LatestFrameSummarySnapshot \<Rightarrow> bool) \<Rightarrow> LatestFrameSummaryState list \<Rightarrow> (io_error + LatestFrameSummarySnapshot) option" where
  "wait_next_matching v p sts = wait_matching (\<lambda>sn. v < ls_version sn \<and> p sn) sts"

definition wait_next :: "u64 \<Rightarrow> LatestFrameSummaryState list \<Rightarrow> (io_error + LatestFrameSummarySnapshot) option" where
  "wait_next v sts = wait_next_matching v (\<lambda>_. True) sts"

definition wait_next_after_boundary ::
    "boundary \<Rightarrow> LatestFrameSummaryState list \<Rightarrow> (io_error + LatestFrameSummarySnapshot) option" where
  "wait_next_after_boundary b sts = wait_next b sts"

definition wait_next_after_observation ::
    "LatestFrameSummaryObservation \<Rightarrow> LatestFrameSummaryState list \<Rightarrow> (io_error + LatestFrameSummarySnapshot) option" where
  "wait_next_after_observation ob sts = wait_next_after_boundary (lo_boundary ob) sts"

definition wait_first :: "LatestFrameSummaryState list \<Rightarrow> (io_error + LatestFrameSummarySnapshot) option" where
  "wait_first sts = wait_next 0 sts"

definition wait_after_frame_seq :: "u32 \<Rightarrow> LatestFrameSummaryState list \<Rightarrow> (io_error + LatestFrameSummarySnapshot) option" where
  "wait_after_frame_seq n sts = wait_matching (\<lambda>sn. n < fs_frame_seq (ls_summary sn)) sts"

definition wait_after_timestamp :: "u64 \<Rightarrow> LatestFrameSummaryState list \<Rightarrow> (io_error + LatestFrameSummarySnapshot) option" where
  "wait_after_timestamp n sts = wait_matching (\<lambda>sn. n < fs_timestamp_ms (ls_summary sn)) sts"

fun wait_until ::
    "(LatestFrameSummarySnapshot \<Rightarrow> bool) \<Rightarrow> nat \<Rightarrow> (LatestFrameSummaryState \<times> nat) list \<Rightarrow> (io_error + LatestFrameSummarySnapshot) option" where
  \<comment> \<open>the loop of \<open>wait_matching_timeout\<close>, with its deadline\<close>
  "wait_until p deadline [] = None"
| "wait_until p deadline ((st, now) # sts) = (case check_state p st of
     Some res \<Rightarrow> Some res
   | None \<Rightarrow> if deadline \<le> now then Some (Inl (IoError TimedOut ''latest frame summary timeout'' [])) else wait_until p deadline sts)"

definition wait_matching_timeout ::
    "nat \<Rightarrow> nat \<Rightarrow> (LatestFrameSummarySnapshot \<Rightarrow> bool) \<Rightarrow> (LatestFrameSummaryState \<times> nat) list \<Rightarrow>
     (io_error + LatestFrameSummarySnapshot) option" where
  "wait_matching_timeout start timeout p sts = wait_until p (start + timeout) sts"

definition wait_next_matching_timeout ::
    "nat \<Rightarrow> u64 \<Rightarrow> nat \<Rightarrow> (LatestFrameSummarySnapshot \<Rightarrow> bool) \<Rightarrow> (LatestFrameSummaryState \<times> nat) list \<Rightarrow>
     (io_error + LatestFrameSummarySnapshot) option" where
  "wait_next_matching_timeout start v timeout p sts = wait_matching_timeout start timeout (\<lambda>sn. v < ls_version sn \<and> p sn) sts"

definition wait_next_timeout ::
    "nat \<Rightarrow> u64 \<Rightarrow> nat \<Rightarrow> (LatestFrameSummaryState \<times> nat) list \<Rightarrow> (io_error + LatestFrameSummarySnapshot) option" where
  "wait_next_timeout start v timeout sts = wait_next_matching_timeout start v timeout (\<lambda>_. True) sts"

definition wait_after_frame_seq_timeout ::
    "nat \<Rightarrow> u32 \<Rightarrow> nat \<Rightarrow> (LatestFrameSummaryState \<times> nat) list \<Rightarrow> (io_error + LatestFrameSummarySnapshot) option" where
  "wait_after_frame_seq_timeout start n timeout sts =
     wait_matching_timeout start timeout (\<lambda>sn. n < fs_frame_seq (ls_summary sn)) sts"

definition wait_after_timestamp_timeout ::
    "nat \<Rightarrow> u64 \<Rightarrow> nat \<Rightarrow> (LatestFrameSummaryState \<times> nat) list \<Rightarrow> (io_error + LatestFrameSummarySnapshot) option" where
  "wait_after_timestamp_timeout start n timeout sts =
     wait_matching_timeout start timeout (\<lambda>sn. n < fs_timestamp_ms (ls_summary sn)) sts"

end
