(* ===== verification/Device_Stream.thy ===== *)
theory Device_Stream
  imports Device
begin

text \<open>
  The server's stream as the host reads it: the layout of every message and event, the readers as exact
  inverses, what the background loops deliver, and the latest-frame cache.
\<close>

section \<open>The layout\<close>

primrec message_bytes :: "DeviceMessage \<Rightarrow> byte list" where
  "message_bytes (DM_Clipboard t) = TYPE_CLIPBOARD # to_be_bytes (word_of_nat (length (as_bytes t)) :: u32) @ as_bytes t"
| "message_bytes (DM_AckClipboard n) = TYPE_ACK_CLIPBOARD # to_be_bytes n"
| "message_bytes (DM_UhidOutput i d) = TYPE_UHID_OUTPUT # to_be_bytes i @ to_be_bytes (word_of_nat (length d) :: u16) @ d"

primrec message_ok :: "DeviceMessage \<Rightarrow> bool" where
  "message_ok (DM_Clipboard t) \<longleftrightarrow> list_all scalar t \<and> length (as_bytes t) \<le> DEVICE_MSG_TEXT_MAX_LENGTH"
| "message_ok (DM_AckClipboard n) \<longleftrightarrow> True"
| "message_ok (DM_UhidOutput i d) \<longleftrightarrow> length d < 2 ^ 16"

definition envelope :: "u8 \<Rightarrow> byte list \<Rightarrow> byte list" where
  "envelope ty payload = ty # to_be_bytes (word_of_nat (length payload) :: u32) @ payload"

primrec event_bytes :: "DeviceEvent \<Rightarrow> byte list" where
  "event_bytes (DE_Native m) = message_bytes m"
| "event_bytes (DE_FrameSummary s) = envelope TYPE_FRAME_SUMMARY (summary_bytes s)"
| "event_bytes (DE_AiStats s) = envelope TYPE_AI_STATS (stats_bytes s)"
| "event_bytes (DE_UnknownEnvelope ty payload) = envelope ty payload"

primrec event_ok :: "DeviceEvent \<Rightarrow> bool" where
  "event_ok (DE_Native m) \<longleftrightarrow> message_ok m"
| "event_ok (DE_FrameSummary s) \<longleftrightarrow> summary_ok s \<and> length (summary_bytes s) \<le> DEVICE_MSG_MAX_SIZE - 5"
| "event_ok (DE_AiStats s) \<longleftrightarrow> True"
| "event_ok (DE_UnknownEnvelope ty payload) \<longleftrightarrow> 4 < ty \<and> length payload \<le> DEVICE_MSG_MAX_SIZE - 5"

section \<open>Reading what was written\<close>

lemma read_payload_then: "length bs = n \<Longrightarrow> read_then (read_payload n) f (at (bs @ rest) e) = f bs (at rest e)"
  by (cases "n = 0") (simp_all add: read_payload_def read_exact_then)

lemma length_u32: "n \<le> 2 ^ 18 \<Longrightarrow> unat (word_of_nat n :: u32) = n"
  by (simp add: unat_of_nat)

lemma read_type: "read_then read_word f (at (ty # rest) e) = f (ty :: u8) (at rest e)"
  using read_word_then(1) [of f ty rest e] by (simp add: to_be_bytes_u8)

lemmas limits = DEVICE_MSG_TEXT_MAX_LENGTH_def DEVICE_MSG_MAX_SIZE_def

lemma read_clipboard_at:
  assumes "message_ok (DM_Clipboard t)"
  shows "read_clipboard (at (to_be_bytes (word_of_nat (length (as_bytes t)) :: u32) @ as_bytes t @ rest) e) =
    (Inr (DM_Clipboard t), at rest e)"
  using assms length_u32 [of "length (as_bytes t)"]
  by (simp add: read_clipboard_def read_word_then read_payload_then from_utf8_as_bytes limits) (simp add: read_ret_def)

lemma read_ack_at: "read_ack_clipboard (at (to_be_bytes n @ rest) e) = (Inr (DM_AckClipboard n), at rest e)"
  by (simp add: read_ack_clipboard_def read_word_then) (simp add: read_ret_def)

lemma read_uhid_at:
  assumes "length d < 2 ^ 16"
  shows "read_uhid_output (at (to_be_bytes i @ to_be_bytes (word_of_nat (length d) :: u16) @ d @ rest) e) =
    (Inr (DM_UhidOutput i d), at rest e)"
  using assms by (simp add: read_uhid_output_def read_word_then read_payload_then limits unat_of_nat) (simp add: read_ret_def)

lemma read_message_at:
  assumes "message_ok m"
  shows "read_device_message (at (message_bytes m @ rest) e) = (Inr m, at rest e)"
proof (cases m)
  case (DM_Clipboard t)
  then show ?thesis
    using read_clipboard_at [of t rest e] assms by (simp add: read_device_message_def read_type)
next
  case (DM_AckClipboard n)
  then show ?thesis
    by (simp add: read_device_message_def read_type read_ack_at)
next
  case (DM_UhidOutput i d)
  then show ?thesis
    using read_uhid_at [of d i rest e] assms by (simp add: read_device_message_def read_type)
qed

lemma envelope_at:
  assumes "ty \<noteq> 0" "ty \<noteq> 1" "ty \<noteq> 2" "length payload \<le> DEVICE_MSG_MAX_SIZE - 5"
  shows "read_device_event (at (envelope ty payload @ rest) e) =
    (if ty = TYPE_FRAME_SUMMARY then read_then (lift_parse (frame_summary_parse payload)) (\<lambda>s. read_ret (DE_FrameSummary s)) (at rest e)
     else if ty = TYPE_AI_STATS then read_then (lift_parse (ai_stats_parse payload)) (\<lambda>s. read_ret (DE_AiStats s)) (at rest e)
     else (Inr (DE_UnknownEnvelope ty payload), at rest e))"
  using assms length_u32 [of "length payload"]
  by (simp add: read_device_event_def envelope_def read_type read_ai_or_unknown_envelope_def read_word_then read_payload_then limits)
    (simp add: read_ret_def)

lemma native_event_at:
  assumes "message_ok m"
  shows "read_device_event (at (message_bytes m @ rest) e) = (Inr (DE_Native m), at rest e)"
proof -
  have "read_device_event (at (message_bytes m @ rest) e) = as_native read_device_message (at (message_bytes m @ rest) e)"
    by (cases m) (simp_all add: read_device_event_def read_device_message_def as_native_def read_byte_at read_then_def)
  then show ?thesis
    using read_message_at [OF assms, of rest e] by (simp add: as_native_def read_then_def read_ret_def)
qed

lemma length_stats_bytes: "length (stats_bytes s) = 36"
  by (simp add: stats_bytes_def)

lemma read_event_at:
  assumes "event_ok ev"
  shows "read_device_event (at (event_bytes ev @ rest) e) = (Inr ev, at rest e)"
proof (cases ev)
  case (DE_Native m)
  then show ?thesis
    using assms native_event_at by simp
next
  case (DE_FrameSummary s)
  then have "frame_summary_parse (summary_bytes s) = Inr s"
    using assms read_summary_at [of s "[]" cursor_end] by (simp add: frame_summary_parse_def parse_cursor_def)
  then show ?thesis
    using assms DE_FrameSummary by (simp add: envelope_at lift_parse_def) (simp add: read_ret_def)
next
  case (DE_AiStats s)
  have "ai_stats_parse (stats_bytes s) = Inr s"
    using read_stats_at [of s "[]" cursor_end] by (simp add: ai_stats_parse_def parse_cursor_def)
  then show ?thesis
    using DE_AiStats by (simp add: envelope_at length_stats_bytes limits lift_parse_def) (simp add: read_ret_def)
next
  case (DE_UnknownEnvelope ty payload)
  then have "ty \<noteq> 0" "ty \<noteq> 1" "ty \<noteq> 2" "ty \<noteq> 3" "ty \<noteq> 4"
    using assms by auto
  then show ?thesis
    using assms DE_UnknownEnvelope by (simp add: envelope_at)
qed

definition dec_event :: "DeviceEvent decoder" where
  "dec_event bs = (case read_device_event (at bs cursor_end) of (Inl _, _) \<Rightarrow> None | (Inr ev, r) \<Rightarrow> Some (ev, avail r))"

interpretation device_events: stream_codec event_bytes dec_event event_ok
proof unfold_locales
  show "dec_event (event_bytes ev @ rest) = Some (ev, rest)" if "event_ok ev" for ev rest
    by (simp add: dec_event_def read_event_at [OF that])
  have "message_bytes m \<noteq> []" for m
    by (cases m) simp_all
  then show "event_bytes ev \<noteq> []" for ev
    by (cases ev) (simp_all add: envelope_def)
qed

section \<open>The loops\<close>

text \<open>The messages read one after the other from a reader, and the reader behind the last of them.\<close>

inductive reads :: "'m read \<Rightarrow> reader \<Rightarrow> 'm list \<Rightarrow> reader \<Rightarrow> bool" for rd where
  none: "reads rd r [] r"
| more: "rd r = (Inr m, r1) \<Longrightarrow> reads rd r1 ms r2 \<Longrightarrow> reads rd r (m # ms) r2"

inductive_simps reads_simps: "reads rd r [] r'" "reads rd r (m # ms) r'"

lemma reads_functional: "reads rd r ms r1 \<Longrightarrow> rd r1 = (Inl e, r1') \<Longrightarrow> reads rd r ns r2 \<Longrightarrow> rd r2 = (Inl e', r2') \<Longrightarrow>
    ms = ns \<and> e = e' \<and> r1' = r2'"
proof (induction arbitrary: ns rule: reads.induct)
  case (none r)
  then show ?case
    by (cases ns) (auto simp: reads_simps)
next
  case (more r m r1 ms r2)
  then show ?case
    by (cases ns) (auto simp: reads_simps)
qed

lemma reads_encoded:
  assumes "\<And>m rest. m \<in> set ms \<Longrightarrow> rd (at (enc m @ rest) e) = (Inr m, at rest e)"
  shows "reads rd (at (concat (map enc ms) @ rest) e) ms (at rest e)"
  using assms by (induction ms) (auto simp: reads_simps)

text \<open>
  A channel after the sends of \<open>xs\<close> in order: when its receiver takes only \<open>k\<close> more, the others are refused.
\<close>

definition channel_after :: "(io_error + 'm) list \<Rightarrow> 'm channel \<Rightarrow> 'm channel" where
  "channel_after xs ch = (case ch_left ch of
     None \<Rightarrow> ch\<lparr>ch_items := ch_items ch @ xs\<rparr>
   | Some k \<Rightarrow> ch\<lparr>ch_items := ch_items ch @ take k xs, ch_left := Some (k - length xs)\<rparr>)"

text \<open>
  What a receiver loop has to do with a reader and a channel, given as the reader and the channel it ends
  with: all messages up to the first error go to the channel, then the error; a send that is refused ends
  the loop, and the reader then stands behind the message refused.
\<close>

definition forwards :: "'m read \<Rightarrow> reader \<Rightarrow> 'm channel \<Rightarrow> reader \<times> 'm channel \<Rightarrow> bool" where
  "forwards rd r ch res \<longleftrightarrow> (\<exists>ms e r1 r2. reads rd r ms r1 \<and> rd r1 = (Inl e, r2) \<and>
     snd res = channel_after (map Inr ms @ [Inl e]) ch \<and>
     (case ch_left ch of
        None \<Rightarrow> fst res = r2
      | Some k \<Rightarrow> (if k < length ms then reads rd r (take (k + 1) ms) (fst res) else fst res = r2)))"

text \<open>What the two receiver loops share: they forward what they read until the first error, which they
  forward too, or until the receiver is gone.\<close>

locale message_loop =
  fixes rd :: "'m read" and loop :: "reader \<Rightarrow> 'm channel \<Rightarrow> reader \<times> 'm channel"
  assumes loop_eq: "loop r ch = (case rd r of
      (Inr m, r') \<Rightarrow> (case send (Inr m) ch of (True, ch') \<Rightarrow> loop r' ch' | (False, ch') \<Rightarrow> (r', ch'))
    | (Inl e, r') \<Rightarrow> (r', snd (send (Inl e) ch)))"
    and read_consumes: "rd r = (Inr m, r') \<Longrightarrow> length (avail r') < length (avail r)"
begin

lemma reads_end: "\<exists>ms e r1 r2. reads rd r ms r1 \<and> rd r1 = (Inl e, r2)"
proof (induction "length (avail r)" arbitrary: r rule: less_induct)
  case less
  show ?case
  proof (cases "rd r")
    case (Pair x r')
    show ?thesis
    proof (cases x)
      case (Inl e)
      then show ?thesis
        using Pair reads.none [of rd r] by blast
    next
      case (Inr m)
      then have "rd r = (Inr m, r')"
        using Pair by simp
      then show ?thesis
        using less [OF read_consumes] reads.more by meson
    qed
  qed
qed

lemma loop_channel:
  "reads rd r ms r1 \<Longrightarrow> rd r1 = (Inl e, r2) \<Longrightarrow> snd (loop r ch) = channel_after (map Inr ms @ [Inl e]) ch"
proof (induction arbitrary: ch rule: reads.induct)
  case (none r)
  then show ?case
    by (subst loop_eq) (auto simp: send_def channel_after_def take_Cons' split: option.split nat.split)
next
  case (more r m r1 ms r2)
  then show ?case
    by (subst loop_eq) (auto simp: send_def channel_after_def split: option.split nat.split)
qed

lemma loop_reader:
  "reads rd r ms r1 \<Longrightarrow> rd r1 = (Inl e, r2) \<Longrightarrow> (case ch_left ch of
     None \<Rightarrow> fst (loop r ch) = r2
   | Some k \<Rightarrow> (if k < length ms then reads rd r (take (k + 1) ms) (fst (loop r ch)) else fst (loop r ch) = r2))"
proof (induction arbitrary: ch rule: reads.induct)
  case (none r)
  then show ?case
    by (subst (1 2) loop_eq) (simp add: loop_eq [of r ch] split: option.split)
next
  case (more r m r1 ms r2)
  show ?case
  proof (cases "ch_left ch")
    case None
    then show ?thesis
      using more.IH [of "ch\<lparr>ch_items := ch_items ch @ [Inr m]\<rparr>"] more.hyps(1) more.prems
      by (simp add: loop_eq [of r ch] send_def)
  next
    case (Some k)
    show ?thesis
    proof (cases k)
      case (Suc j)
      then show ?thesis
        using more.IH [of "ch\<lparr>ch_items := ch_items ch @ [Inr m], ch_left := Some j\<rparr>"] more.hyps(1) more.prems Some
        by (simp add: loop_eq [of r ch] send_def reads_simps split: if_splits)
    qed (use more.hyps(1) Some in \<open>simp add: loop_eq [of r ch] send_def reads_simps\<close>)
  qed
qed

lemma loop_forwards: "forwards rd r ch (loop r ch)"
  using reads_end [of r] loop_channel loop_reader unfolding forwards_def by blast

end

interpretation native_loop: message_loop read_device_message device_message_loop
  by unfold_locales (subst device_message_loop.simps, rule refl, rule message_consumed)

interpretation event_loop: message_loop read_device_event device_event_loop
  by unfold_locales (subst device_event_loop.simps, rule refl, rule event_consumed)

section \<open>Reading backwards\<close>

lemma read_then_Inr_iff: "read_then p f r = (Inr x, r') \<longleftrightarrow> (\<exists>y r1. p r = (Inr y, r1) \<and> f y r1 = (Inr x, r'))"
  by (auto simp: read_then_def split: prod.splits sum.splits)

lemma read_exact_inv:
  assumes "read_exact n (at bs e) = (Inr xs, r)"
  shows "length xs = n \<and> (\<exists>rest. bs = xs @ rest \<and> r = at rest e)"
  using assms by (auto simp: read_exact_def split: if_splits)

lemma read_word_inv:
  fixes w :: "'a::len word"
  assumes "read_word (at bs e) = (Inr w, r)" "8 * (LENGTH('a) div 8) = LENGTH('a)"
  shows "\<exists>rest. bs = to_be_bytes w @ rest \<and> r = at rest e"
proof -
  obtain xs where xs: "read_exact (LENGTH('a) div 8) (at bs e) = (Inr xs, r)" "w = from_be_bytes xs"
    using assms(1) by (auto simp: read_word_def read_then_Inr_iff read_ret_def)
  have "to_be_bytes w = xs"
    unfolding xs(2) using read_exact_inv [OF xs(1)] assms(2) by (intro to_be_bytes_from_be_bytes) auto
  then show ?thesis
    using read_exact_inv [OF xs(1)] by auto
qed

lemma read_payload_inv: "read_payload n (at bs e) = (Inr xs, r) \<Longrightarrow> length xs = n \<and> (\<exists>rest. bs = xs @ rest \<and> r = at rest e)"
  using read_exact_inv [of n bs e xs r] by (cases "n = 0") (auto simp: read_payload_def read_ret_def)

lemma read_clipboard_inv:
  assumes "read_clipboard (at bs e) = (Inr m, r)"
  shows "\<exists>t rest. m = DM_Clipboard t \<and> message_ok m \<and> TYPE_CLIPBOARD # bs = message_bytes m @ rest \<and> r = at rest e"
proof -
  obtain len :: u32 and r1 where len: "read_word (at bs e) = (Inr len, r1)" "unat len \<le> DEVICE_MSG_TEXT_MAX_LENGTH"
    "read_then (read_payload (unat len)) (\<lambda>payload. case from_utf8 payload of
       None \<Rightarrow> read_fail (invalid_data ''{utf8 error}'' []) | Some t \<Rightarrow> read_ret (DM_Clipboard t)) r1 = (Inr m, r)"
    using assms by (auto simp: read_clipboard_def read_then_Inr_iff read_fail_def not_less split: if_splits)
  obtain bs1 where bs1: "bs = to_be_bytes len @ bs1" "r1 = at bs1 e"
    using read_word_inv [OF len(1)] by auto
  obtain payload r2 where pay: "read_payload (unat len) (at bs1 e) = (Inr payload, r2)"
    "(case from_utf8 payload of None \<Rightarrow> read_fail (invalid_data ''{utf8 error}'' []) | Some t \<Rightarrow> read_ret (DM_Clipboard t)) r2 = (Inr m, r)"
    using len(3) bs1(2) by (auto simp: read_then_Inr_iff)
  then obtain t where t: "from_utf8 payload = Some t" "m = DM_Clipboard t" "r = r2"
    by (auto simp: read_fail_def read_ret_def split: option.splits)
  have "list_all scalar t" "as_bytes t = payload"
    using from_utf8_sound [OF t(1)] by auto
  moreover have "length payload = unat len" "\<exists>rest. bs1 = payload @ rest \<and> r2 = at rest e"
    using read_payload_inv [OF pay(1)] by auto
  ultimately show ?thesis
    using t bs1 len(2) by auto
qed

lemma read_ack_inv:
  assumes "read_ack_clipboard (at bs e) = (Inr m, r)"
  shows "\<exists>n rest. m = DM_AckClipboard n \<and> TYPE_ACK_CLIPBOARD # bs = message_bytes m @ rest \<and> r = at rest e"
proof -
  obtain n where "read_word (at bs e) = (Inr n :: io_error + u64, r)" "m = DM_AckClipboard n"
    using assms by (auto simp: read_ack_clipboard_def read_then_Inr_iff read_ret_def)
  then show ?thesis
    using read_word_inv [of bs e n r] by auto
qed

lemma read_uhid_inv:
  assumes "read_uhid_output (at bs e) = (Inr m, r)"
  shows "\<exists>i d rest. m = DM_UhidOutput i d \<and> message_ok m \<and> TYPE_UHID_OUTPUT # bs = message_bytes m @ rest \<and> r = at rest e"
proof -
  obtain i :: u16 and r1 and size :: u16 and r2 and d where ok: "read_word (at bs e) = (Inr i, r1)" "read_word r1 = (Inr size, r2)"
    "read_payload (unat size) r2 = (Inr d, r)" "m = DM_UhidOutput i d"
    using assms by (auto simp: read_uhid_output_def read_then_Inr_iff read_fail_def read_ret_def split: if_splits)
  obtain bs1 where bs1: "bs = to_be_bytes i @ bs1" "r1 = at bs1 e"
    using read_word_inv [OF ok(1)] by auto
  obtain bs2 where bs2: "bs1 = to_be_bytes size @ bs2" "r2 = at bs2 e"
    using read_word_inv [of bs1 e size r2] ok(2) bs1(2) by auto
  have "length d = unat size" "\<exists>rest. bs2 = d @ rest \<and> r = at rest e"
    using read_payload_inv [of "unat size" bs2 e d r] ok(3) bs2(2) by auto
  then show ?thesis
    using ok(4) bs1(1) bs2(1) unsigned_less [where 'a = nat, of size] by auto
qed

lemma read_message_inv:
  assumes "read_device_message (at bs e) = (Inr m, r)"
  shows "message_ok m \<and> (\<exists>rest. bs = message_bytes m @ rest \<and> r = at rest e)"
proof -
  obtain ty r1 where ty: "read_word (at bs e) = (Inr ty :: io_error + u8, r1)"
    "(if ty = TYPE_CLIPBOARD then read_clipboard else if ty = TYPE_ACK_CLIPBOARD then read_ack_clipboard
      else if ty = TYPE_UHID_OUTPUT then read_uhid_output else read_fail (invalid_data ''unknown device message type {}'' [unat ty])) r1 = (Inr m, r)"
    using assms unfolding read_device_message_def read_then_Inr_iff by blast
  obtain bs1 where bs1: "bs = ty # bs1" "r1 = at bs1 e"
    using read_word_inv [OF ty(1)] by (auto simp: to_be_bytes_u8)
  show ?thesis
    using ty(2) bs1 read_clipboard_inv [of bs1 e m r] read_ack_inv [of bs1 e m r] read_uhid_inv [of bs1 e m r]
    by (auto simp: read_fail_def split: if_splits)
qed

section \<open>The latest frame\<close>

definition frames_of :: "DeviceEvent list \<Rightarrow> FrameSummary list" where
  "frames_of evs = concat (map (\<lambda>ev. case ev of DE_FrameSummary s \<Rightarrow> [s] | _ \<Rightarrow> []) evs)"

text \<open>The cache after some frames.\<close>

definition cache :: "FrameSummary list \<Rightarrow> DeviceReadError option \<Rightarrow> LatestFrameSummaryState" where
  "cache fs err = \<lparr>lf_latest = (if fs = [] then None else Some \<lparr>ls_version = word_of_nat (length fs), ls_summary = last fs\<rparr>),
     lf_version = word_of_nat (length fs), lf_terminal_error = err\<rparr>"

lemma cache_error: "lf_terminal_error (cache fs err) = err"
  by (simp add: cache_def)

lemma frames_of_simps [simp]:
  "frames_of [] = []" "frames_of (ev # evs) = (case ev of DE_FrameSummary s \<Rightarrow> [s] | _ \<Rightarrow> []) @ frames_of evs"
  by (simp_all add: frames_of_def)

lemma length_frames_of: "length (frames_of evs) \<le> length evs"
  by (induction evs) (simp_all split: DeviceEvent.split)

lemma store_cache: "length fs + 1 < 2 ^ 64 \<Longrightarrow> store_summary s (cache fs err) = cache (fs @ [s]) err"
proof -
  assume "length fs + 1 < 2 ^ 64"
  then have "(word_of_nat (length fs) :: u64) \<noteq> - 1"
    by (simp add: word_unat_eq_iff unat_of_nat unsigned_minus_1_eq_mask mask_eq_exp_minus_1)
  then show ?thesis
    by (simp add: store_summary_def cache_def Let_def add.commute)
qed

lemma pump_states:
  assumes "list_all event_ok evs" "read_device_event (at rest e) = (Inl err, r')" "length fs + length evs < 2 ^ 64"
  shows "latest_frame_summary_loop None (at (concat (map event_bytes evs) @ rest) e) (cache fs None) =
    (r', map (\<lambda>i. cache (fs @ frames_of (take i evs)) None) [0..<Suc (length evs)] @
      [cache (fs @ frames_of evs) (Some (from_io_error err))])"
  using assms(1,3)
proof (induction evs arbitrary: fs)
  case Nil
  then show ?case
    using assms(2) by (subst latest_frame_summary_loop.simps) (simp add: store_terminal_error_def cache_def)
next
  case (Cons ev evs)
  let ?fs = "fs @ (case ev of DE_FrameSummary s \<Rightarrow> [s] | _ \<Rightarrow> [])"
  have st: "(case ev of DE_FrameSummary summary \<Rightarrow> store_summary summary (cache fs None) | _ \<Rightarrow> cache fs None) = cache ?fs None"
    using Cons.prems(2) store_cache by (cases ev) auto
  have "length ?fs + length evs < 2 ^ 64"
    using Cons.prems(2) by (cases ev) auto
  then have IH: "latest_frame_summary_loop None (at (concat (map event_bytes evs) @ rest) e) (cache ?fs None) =
    (r', map (\<lambda>i. cache (?fs @ frames_of (take i evs)) None) [0..<Suc (length evs)] @
      [cache (?fs @ frames_of evs) (Some (from_io_error err))])"
    using Cons.IH [of ?fs] Cons.prems(1) by simp
  have "map (\<lambda>i. cache (fs @ frames_of (take i (ev # evs))) None) [0..<Suc (length (ev # evs))] =
      cache fs None # map (\<lambda>i. cache (?fs @ frames_of (take i evs)) None) [0..<Suc (length evs)]"
    by (simp only: list.size add_Suc_right add_0_right map_upt_Suc take_Suc_Cons take_0 frames_of_simps append_Nil2 append_assoc)
  then show ?case
    using Cons.prems(1) IH st
    by (subst latest_frame_summary_loop.simps) (simp only: option.distinct if_False list.map concat.simps append_assoc
        read_event_at list.pred_inject prod.case sum.case Let_def option.map frames_of_simps simp_thms append_Cons)
qed

section \<open>Properties\<close>


text \<open>
  A stream of events of the server, native messages and extension envelopes of known and
  unknown type in any order, is read event by event without losing its framing, and two different
  sequences of events never have the same bytes.
\<close>

theorem device_stream_roundtrip:
  assumes "list_all event_ok evs" "list_all event_ok evs'"
  shows "read_many (length evs) read_device_event (at (concat (map event_bytes evs) @ rest) e) = (Inr evs, at rest e) \<and>
    (concat (map event_bytes evs) = concat (map event_bytes evs') \<longrightarrow> evs = evs')"
  using read_many_at [of evs read_device_event event_bytes e rest] read_event_at assms device_events.stream_inject [OF assms]
  by (auto simp: list_all_iff)

theorem device_stream_roundtrip_witness:
  "read_many 3 read_device_event (at (concat (map event_bytes
     [DE_Native (DM_Clipboard [104, 228]), DE_UnknownEnvelope 77 [1, 2], DE_Native (DM_UhidOutput 1 [3])]) @ [0]) cursor_end) =
   (Inr [DE_Native (DM_Clipboard [104, 228]), DE_UnknownEnvelope 77 [1, 2], DE_Native (DM_UhidOutput 1 [3])], at [0] cursor_end)"
proof -
  let ?evs = "[DE_Native (DM_Clipboard [104, 228]), DE_UnknownEnvelope 77 [1, 2], DE_Native (DM_UhidOutput 1 [3])]"
  have "list_all event_ok ?evs"
    by (simp add: scalar_def limits as_bytes_def char_bytes_def char_code_def)
  then show ?thesis
    using device_stream_roundtrip [of ?evs ?evs "[0]" cursor_end] unfolding numeral_3_eq_3 by simp
qed


lemma end_of_stream: "read_device_event (at [] e) = (Inl e, at [] e)"
  by (simp add: read_device_event_def read_word_def read_then_def read_exact_def)


text \<open>
  The latest-frame pump goes through exactly the specified states: after each event the
  cache holds the newest frame seen so far with its number as version (other events change nothing), and
  when the stream ends the same state with the terminal error.
\<close>

theorem latest_frame_pump:
  assumes "list_all event_ok evs" "read_device_event (at rest e) = (Inl err, r')" "length evs < 2 ^ 64"
  shows "latest_frame_summary_loop None (at (concat (map event_bytes evs) @ rest) e) latest_default =
    (r', map (\<lambda>i. cache (frames_of (take i evs)) None) [0..<Suc (length evs)] @
      [cache (frames_of evs) (Some (from_io_error err))])"
proof -
  have "cache [] None = latest_default"
    by (simp add: cache_def latest_default_def)
  then show ?thesis
    using pump_states [OF assms(1,2), of "[]"] assms(3) by (simp del: upt_Suc)
qed

theorem latest_frame_pump_witness:
  "latest_frame_summary_loop None (at (event_bytes (DE_FrameSummary summary0)) cursor_end) latest_default =
     (at [] cursor_end, [latest_default, cache [summary0] None, cache [summary0] (Some (from_io_error cursor_end))])"
proof -
  have "event_ok (DE_FrameSummary summary0)"
    by (simp add: summary_ok_def summary0_def summary_bytes_def motion_bytes_def limits)
  moreover have "cache [] None = latest_default"
    by (simp add: cache_def latest_default_def)
  ultimately show ?thesis
    using latest_frame_pump [of "[DE_FrameSummary summary0]" "[]" cursor_end cursor_end "at [] cursor_end"] end_of_stream
    by simp
qed

text \<open>The states a waiter can see.\<close>

definition pump_trace :: "DeviceEvent list \<Rightarrow> io_error \<Rightarrow> LatestFrameSummaryState set" where
  "pump_trace evs err = insert (cache (frames_of evs) (Some (from_io_error err)))
     ((\<lambda>i. cache (frames_of (take i evs)) None) ` {0..length evs})"

lemma frames_of_take: "\<exists>n \<le> length (frames_of evs). frames_of (take i evs) = take n (frames_of evs)"
proof -
  have "frames_of evs = frames_of (take i evs) @ frames_of (drop i evs)"
    unfolding frames_of_def by (metis append_take_drop_id concat_append map_append)
  then show ?thesis
    by (intro exI [of _ "length (frames_of (take i evs))"]) auto
qed

lemma snapshot_cache:
  assumes "snapshot_matching p (cache fs err) = Some sn" "length fs < 2 ^ 64"
  shows "p sn \<and> 0 < length fs \<and> unat (ls_version sn) = length fs \<and> ls_summary sn = last fs"
  using assms by (auto simp: snapshot_matching_def cache_def unat_of_nat split: if_splits)

lemma wait_matching_hit:
  assumes "wait_matching p obs = Some res"
  shows "\<exists>st \<in> set obs. check_state p st = Some res"
  using assms by (induction obs) (auto split: option.splits)

lemma wait_matching_ends: "st \<in> set obs \<Longrightarrow> lf_terminal_error st \<noteq> None \<Longrightarrow> wait_matching p obs \<noteq> None"
  by (induction obs) (auto simp: check_state_def split: option.splits)

text \<open>
  C22 (liveness). Waiting for a frame newer than a version, on a pump that has processed any events: a
  waiter that returns a snapshot returns one of the frames of the stream with its number as version, newer
  than asked; it reports the terminal error only when no frame of the whole stream is newer, so that no
  frame is missed; and a waiter that sees the pump's last state does return.
\<close>

theorem wait_next_correct:
  assumes "set obs \<subseteq> pump_trace evs err" "length evs < 2 ^ 64"
  shows "case wait_next v obs of
      None \<Rightarrow> cache (frames_of evs) (Some (from_io_error err)) \<notin> set obs
    | Some (Inr sn) \<Rightarrow> v < ls_version sn \<and> unat (ls_version sn) \<le> length (frames_of evs) \<and>
        ls_summary sn = frames_of evs ! (unat (ls_version sn) - 1)
    | Some (Inl x) \<Rightarrow> x = err \<and> length (frames_of evs) \<le> unat v"
proof (cases "wait_next v obs")
  case None
  then show ?thesis
    using wait_matching_ends [of "cache (frames_of evs) (Some (from_io_error err))" obs "\<lambda>sn. v < ls_version sn \<and> True"]
    by (auto simp: wait_next_def wait_next_matching_def cache_error)
next
  case (Some res)
  let ?p = "\<lambda>sn. v < ls_version sn \<and> True"
  have len: "length (frames_of evs) < 2 ^ 64"
    using length_frames_of [of evs] assms(2) by simp
  obtain st where st: "st \<in> pump_trace evs err" "check_state ?p st = Some res"
    using wait_matching_hit [of ?p obs res] Some assms(1) by (auto simp: wait_next_def wait_next_matching_def)
  obtain n er where n: "st = cache (take n (frames_of evs)) er" "n \<le> length (frames_of evs)"
    "er = None \<or> er = Some (from_io_error err) \<and> n = length (frames_of evs)"
  proof (cases "st = cache (frames_of evs) (Some (from_io_error err))")
    case True
    then show ?thesis
      using that [of "length (frames_of evs)"] by simp
  next
    case False
    then obtain i where "st = cache (frames_of (take i evs)) None"
      using st(1) by (auto simp: pump_trace_def)
    then show ?thesis
      using frames_of_take [of evs i] that [of _ None] by auto
  qed
  show ?thesis
  proof (cases "snapshot_matching ?p st")
    case (Some sn)
    then have "res = Inr sn"
      using st(2) by (simp add: check_state_def)
    moreover have "?p sn" "0 < n" "unat (ls_version sn) = n" "ls_summary sn = last (take n (frames_of evs))"
      using snapshot_cache [of ?p "take n (frames_of evs)" er sn] Some n(1,2) len by auto
    moreover from this have "last (take n (frames_of evs)) = frames_of evs ! (n - 1)"
      using n(2) by (subst last_conv_nth) auto
    ultimately show ?thesis
      using \<open>wait_next v obs = Some res\<close> n(2) by simp
  next
    case None
    then have er: "er = Some (from_io_error err)" "n = length (frames_of evs)" "res = Inl err"
      using st(2) n(1,3) by (auto simp: check_state_def cache_def from_io_error_def to_io_error_def)
    have "\<not> v < word_of_nat (length (frames_of evs)) \<or> frames_of evs = []"
      using None n(1) er(2) by (auto simp: snapshot_matching_def cache_def split: if_splits)
    then have "length (frames_of evs) \<le> unat v"
      using len by (auto simp: word_less_nat_alt unat_of_nat)
    then show ?thesis
      using \<open>wait_next v obs = Some res\<close> er(3) by simp
  qed
qed

theorem wait_next_correct_witness:
  "wait_next 0 [cache [] None, cache [summary0] (Some (from_io_error cursor_end))] \<noteq> None"
proof -
  have "{cache [] None, cache [summary0] (Some (from_io_error cursor_end))} \<subseteq> pump_trace [DE_FrameSummary summary0] cursor_end"
    by (force simp: pump_trace_def)
  then show ?thesis
    using wait_next_correct [of "[cache [] None, cache [summary0] (Some (from_io_error cursor_end))]"
        "[DE_FrameSummary summary0]" cursor_end 0] by (auto split: option.splits)
qed

end
