(* ===== verification/Kernel_Types.thy ===== *)
theory Kernel_Types
  imports Types F32 "HOL-Library.AList"
begin

text \<open>
  The vocabulary of the device kernel (crate \<^verbatim>\<open>ai-device-kernel\<close>): observations and device events
  (\<^verbatim>\<open>observation.rs\<close>), predicates (\<^verbatim>\<open>predicate.rs\<close>), actions and their results (\<^verbatim>\<open>action.rs\<close>), plans
  (\<^verbatim>\<open>plan.rs\<close>) and identifiers (\<^verbatim>\<open>ids.rs\<close>), with the functions on them that do no I/O.

  A Rust \<open>String\<close> is the list of its Unicode scalar values; \<open>contains\<close> on two valid UTF-8 strings is
  the search for a sublist of scalar values. A \<open>f32\<close> field is a value of \<open>f32\<close>.
\<close>

section \<open>Identifiers\<close>

type_synonym ActionId = u64
type_synonym PlanId = u64
type_synonym StepId = u32
type_synonym PredicateHandle = u64
type_synonym ScreenId = "byte list"

definition id_next :: "u64 \<Rightarrow> u64" where
  "id_next i = i + 1"

text \<open>\<open>ScreenId::compute\<close>: the digest is a parameter; the input it hashes is the code's.\<close>

definition screen_preimage :: "byte list \<Rightarrow> byte list \<Rightarrow> byte list \<Rightarrow> byte list" where
  "screen_preimage a11y_hash frame_phash pkg_activity =
     to_le_bytes (of_nat (length a11y_hash) :: u32) @ a11y_hash
     @ to_le_bytes (of_nat (length frame_phash) :: u32) @ frame_phash
     @ to_le_bytes (of_nat (length pkg_activity) :: u32) @ pkg_activity"

definition screen_compute ::
    "(byte list \<Rightarrow> byte list) \<Rightarrow> byte list \<Rightarrow> byte list \<Rightarrow> byte list \<Rightarrow> ScreenId" where
  "screen_compute blake3 a11y_hash frame_phash pkg_activity =
     take 16 (blake3 (screen_preimage a11y_hash frame_phash pkg_activity))"

definition from_focus :: "(byte list \<Rightarrow> byte list) \<Rightarrow> byte list \<Rightarrow> ScreenId" where
  "from_focus blake3 focus = screen_compute blake3 [] [] focus"

section \<open>Observations\<close>

record A11yTree =
  at_window_id :: "u32 option"
  at_top_activity :: "ustr option"
  at_node_count :: u32
  at_json :: ustr

record FrameSnapshot =
  snap_width :: u16
  snap_height :: u16
  snap_codec :: u8
  snap_is_keyframe :: bool
  snap_pts :: u64
  snap_scene_change_score :: f32
  snap_png :: "byte list option"

record DeviceState =
  dst_focused_window :: u32
  dst_focused_node :: u32
  dst_screen_on :: bool
  dst_uptime_ms :: u64

definition unknown_state :: "u64 \<Rightarrow> DeviceState" where
  "unknown_state uptime_ms =
     \<lparr>dst_focused_window = 0, dst_focused_node = - 1, dst_screen_on = True, dst_uptime_ms = uptime_ms\<rparr>"

record ForegroundApp =
  fg_package :: ustr
  fg_activity :: ustr
  fg_focused :: bool
  fg_since_ms :: u64

definition app_component :: "ForegroundApp \<Rightarrow> ustr" where
  "app_component a = fg_package a @ [0x2F] @ fg_activity a"

text \<open>The events of the kernel's observation stream (\<open>DeviceEvent\<close> of \<^verbatim>\<open>observation.rs\<close>).\<close>

datatype KernelEvent =
    Ev_ActivityResumed ustr
  | Ev_ActivityPaused ustr
  | Ev_WindowFocusChanged u32
  | Ev_PackageAdded ustr
  | Ev_PackageRemoved ustr
  | Ev_ConfigurationChanged
  | Ev_SceneChangeDetected f32
  | Ev_NotificationPosted ustr
  | Ev_ClipboardChanged
  | Ev_ActionCompleted ActionId bool u32
  | Ev_PlanCompleted PlanId bool u32
  | Ev_Uptime u64

primrec event_label :: "KernelEvent \<Rightarrow> string" where
  "event_label (Ev_ActivityResumed _) = ''activity-resumed''"
| "event_label (Ev_ActivityPaused _) = ''activity-paused''"
| "event_label (Ev_WindowFocusChanged _) = ''window-focus-changed''"
| "event_label (Ev_PackageAdded _) = ''package-added''"
| "event_label (Ev_PackageRemoved _) = ''package-removed''"
| "event_label Ev_ConfigurationChanged = ''configuration-changed''"
| "event_label (Ev_SceneChangeDetected _) = ''scene-change-detected''"
| "event_label (Ev_NotificationPosted _) = ''notification-posted''"
| "event_label Ev_ClipboardChanged = ''clipboard-changed''"
| "event_label (Ev_ActionCompleted _ _ _) = ''action-completed''"
| "event_label (Ev_PlanCompleted _ _ _) = ''plan-completed''"
| "event_label (Ev_Uptime _) = ''uptime''"

record Observation =
  obs_seq :: u64
  obs_timestamp_ms :: u64
  obs_a11y :: "A11yTree option"
  obs_frame :: "FrameSnapshot option"
  obs_state :: DeviceState
  obs_events :: "KernelEvent list"
  obs_foreground_app :: "ForegroundApp option"

definition observation_default :: Observation where
  "observation_default =
     \<lparr>obs_seq = 0, obs_timestamp_ms = 0, obs_a11y = None, obs_frame = None,
      obs_state = unknown_state 0, obs_events = [], obs_foreground_app = None\<rparr>"

definition is_header_only :: "Observation \<Rightarrow> bool" where
  "is_header_only obs \<longleftrightarrow> obs_a11y obs = None \<and> obs_frame obs = None"

section \<open>Predicates\<close>

datatype EventKind =
    EK_ActivityResumed | EK_ActivityPaused | EK_WindowFocusChanged | EK_PackageAdded
  | EK_PackageRemoved | EK_ConfigurationChanged | EK_SceneChangeDetected | EK_NotificationPosted
  | EK_ClipboardChanged

primrec from_event :: "KernelEvent \<Rightarrow> EventKind option" where
  "from_event (Ev_ActivityResumed _) = Some EK_ActivityResumed"
| "from_event (Ev_ActivityPaused _) = Some EK_ActivityPaused"
| "from_event (Ev_WindowFocusChanged _) = Some EK_WindowFocusChanged"
| "from_event (Ev_PackageAdded _) = Some EK_PackageAdded"
| "from_event (Ev_PackageRemoved _) = Some EK_PackageRemoved"
| "from_event Ev_ConfigurationChanged = Some EK_ConfigurationChanged"
| "from_event (Ev_SceneChangeDetected _) = Some EK_SceneChangeDetected"
| "from_event (Ev_NotificationPosted _) = Some EK_NotificationPosted"
| "from_event Ev_ClipboardChanged = Some EK_ClipboardChanged"
| "from_event (Ev_ActionCompleted _ _ _) = None"
| "from_event (Ev_PlanCompleted _ _ _) = None"
| "from_event (Ev_Uptime _) = None"

primrec event_kind_label :: "EventKind \<Rightarrow> string" where
  "event_kind_label EK_ActivityResumed = ''activity-resumed''"
| "event_kind_label EK_ActivityPaused = ''activity-paused''"
| "event_kind_label EK_WindowFocusChanged = ''window-focus-changed''"
| "event_kind_label EK_PackageAdded = ''package-added''"
| "event_kind_label EK_PackageRemoved = ''package-removed''"
| "event_kind_label EK_ConfigurationChanged = ''configuration-changed''"
| "event_kind_label EK_SceneChangeDetected = ''scene-change-detected''"
| "event_kind_label EK_NotificationPosted = ''notification-posted''"
| "event_kind_label EK_ClipboardChanged = ''clipboard-changed''"

lemma from_event_label: "from_event ev = Some k \<Longrightarrow> event_kind_label k = event_label ev"
  by (cases ev) auto

datatype Predicate =
    P_TextAppears ustr "u32 option" u32
  | P_Activity ustr u32
  | P_SceneStable u32 u32
  | P_A11yIdle u32 u32
  | P_SelectorMatches ustr u32
  | P_EventFires EventKind u32

primrec timeout_ms :: "Predicate \<Rightarrow> u32" where
  "timeout_ms (P_TextAppears _ _ t) = t"
| "timeout_ms (P_Activity _ t) = t"
| "timeout_ms (P_SceneStable _ t) = t"
| "timeout_ms (P_A11yIdle _ t) = t"
| "timeout_ms (P_SelectorMatches _ t) = t"
| "timeout_ms (P_EventFires _ t) = t"

primrec predicate_label :: "Predicate \<Rightarrow> string" where
  "predicate_label (P_TextAppears _ _ _) = ''text-appears''"
| "predicate_label (P_Activity _ _) = ''activity''"
| "predicate_label (P_SceneStable _ _) = ''scene-stable''"
| "predicate_label (P_A11yIdle _ _) = ''a11y-idle''"
| "predicate_label (P_SelectorMatches _ _) = ''selector-matches''"
| "predicate_label (P_EventFires _ _) = ''event-fires''"

section \<open>Actions\<close>

datatype AtomicErrorCode =
  SelectorMiss | KernelError | AtomicTimeout | PermissionDenied | AppNotForeground | NotImplemented

primrec atomic_code_str :: "AtomicErrorCode \<Rightarrow> string" where
  "atomic_code_str SelectorMiss = ''selector_miss''"
| "atomic_code_str KernelError = ''kernel_error''"
| "atomic_code_str AtomicTimeout = ''timeout''"
| "atomic_code_str PermissionDenied = ''permission_denied''"
| "atomic_code_str AppNotForeground = ''app_not_foreground''"
| "atomic_code_str NotImplemented = ''not_implemented''"

datatype LaunchBy = ByComponent ustr | ByPackage ustr | ByIntent ustr "ustr option" "ustr option"

datatype ObservationComponent = OC_A11y | OC_Frame | OC_State | OC_Events | OC_ForceKeyframe

record Rect =
  rect_x :: i32
  rect_y :: i32
  rect_width :: i32
  rect_height :: i32

definition rect_is_valid :: "Rect \<Rightarrow> bool" where
  "rect_is_valid r \<longleftrightarrow> 0 < sint (rect_width r) \<and> 0 < sint (rect_height r)"

definition i32_saturating_add :: "i32 \<Rightarrow> int \<Rightarrow> i32" where
  "i32_saturating_add a b = word_of_int (max (- (2 ^ 31)) (min (2 ^ 31 - 1) (sint a + b)))"

text \<open>Rust's integer division truncates towards zero.\<close>

definition half :: "i32 \<Rightarrow> int" where
  "half w = (if 0 \<le> sint w then sint w div 2 else - ((- sint w) div 2))"

definition rect_center :: "Rect \<Rightarrow> i32 \<times> i32" where
  "rect_center r =
     (i32_saturating_add (rect_x r) (half (rect_width r)),
      i32_saturating_add (rect_y r) (half (rect_height r)))"

datatype Action =
    A_Tap i32 i32 u32
  | A_TapSelector ustr u32
  | A_TypeText ustr u32
  | A_Key u32 u32
  | A_Swipe i32 i32 i32 i32 u32 u32
  | A_GamepadFrame "byte list" u32
  | A_Launch ustr LaunchBy u32
  | A_SetClipboard ustr bool u32
  | A_Wait Predicate u32
  | A_GetUiRepr "ScreenId option" u32
  | A_DumpObservation "ObservationComponent list" u32
  | A_InjectRaw "byte list" u32
  | A_LocalizeText ustr "Rect option" u32
  | A_DetectElement ustr u8 "Rect option" u32
  | A_Ground ustr u64 u32
  | A_AskVisual ustr u64 u32

primrec deadline_ms :: "Action \<Rightarrow> u32" where
  "deadline_ms (A_Tap _ _ d) = d"
| "deadline_ms (A_TapSelector _ d) = d"
| "deadline_ms (A_TypeText _ d) = d"
| "deadline_ms (A_Key _ d) = d"
| "deadline_ms (A_Swipe _ _ _ _ _ d) = d"
| "deadline_ms (A_GamepadFrame _ d) = d"
| "deadline_ms (A_Launch _ _ d) = d"
| "deadline_ms (A_SetClipboard _ _ d) = d"
| "deadline_ms (A_Wait _ d) = d"
| "deadline_ms (A_GetUiRepr _ d) = d"
| "deadline_ms (A_DumpObservation _ d) = d"
| "deadline_ms (A_InjectRaw _ d) = d"
| "deadline_ms (A_LocalizeText _ _ d) = d"
| "deadline_ms (A_DetectElement _ _ _ d) = d"
| "deadline_ms (A_Ground _ _ d) = d"
| "deadline_ms (A_AskVisual _ _ d) = d"

primrec action_label :: "Action \<Rightarrow> string" where
  "action_label (A_Tap _ _ _) = ''tap''"
| "action_label (A_TapSelector _ _) = ''tap-selector''"
| "action_label (A_TypeText _ _) = ''type-text''"
| "action_label (A_Key _ _) = ''key''"
| "action_label (A_Swipe _ _ _ _ _ _) = ''swipe''"
| "action_label (A_GamepadFrame _ _) = ''gamepad-frame''"
| "action_label (A_Launch _ _ _) = ''launch''"
| "action_label (A_SetClipboard _ _ _) = ''set-clipboard''"
| "action_label (A_Wait _ _) = ''wait''"
| "action_label (A_GetUiRepr _ _) = ''get-ui-repr''"
| "action_label (A_DumpObservation _ _) = ''dump-observation''"
| "action_label (A_InjectRaw _ _) = ''inject-raw''"
| "action_label (A_LocalizeText _ _ _) = ''localize-text''"
| "action_label (A_DetectElement _ _ _ _) = ''detect-element''"
| "action_label (A_Ground _ _ _) = ''ground''"
| "action_label (A_AskVisual _ _ _) = ''ask-visual''"

primrec capabilities :: "Action \<Rightarrow> string list" where
  "capabilities (A_Tap _ _ _) = [''input.motion_event'']"
| "capabilities (A_TapSelector _ _) = [''a11y.resolve'', ''input.motion_event'']"
| "capabilities (A_TypeText _ _) = [''input.key_event'', ''shell.ime'']"
| "capabilities (A_Key _ _) = [''input.key_event'']"
| "capabilities (A_Swipe _ _ _ _ _ _) = [''input.motion_event'']"
| "capabilities (A_GamepadFrame _ _) = [''uhid.inject'']"
| "capabilities (A_InjectRaw _ _) = [''uhid.inject'']"
| "capabilities (A_Launch _ _ _) = [''pm.start_activity'']"
| "capabilities (A_SetClipboard _ _ _) = [''clipboard.set'', ''shell.ime'']"
| "capabilities (A_Wait _ _) = [''predicate.wait'']"
| "capabilities (A_GetUiRepr _ _) = [''a11y.observe'', ''frame.observe'']"
| "capabilities (A_DumpObservation _ _) = [''a11y.observe'', ''frame.observe'']"
| "capabilities (A_LocalizeText _ _ _) = [''frame.observe'', ''litert.ocr'']"
| "capabilities (A_DetectElement _ _ _ _) = [''frame.observe'', ''litert.detect'']"
| "capabilities (A_Ground _ _ _) = [''frame.observe'', ''litert.ground'']"
| "capabilities (A_AskVisual _ _ _) = [''frame.observe'', ''litert.vqa'']"

datatype A11yNodeChangeKind = NodeAdded | NodeRemoved | TextChanged | VisibilityChanged | BoundsChanged

record A11yNodeDiff =
  nd_node_id :: u32
  nd_kind :: A11yNodeChangeKind
  nd_new_text :: "ustr option"
  nd_new_visible :: "bool option"

record FrameDiff =
  fd_total :: f32
  fd_regions :: "f32 list"
  fd_scene_change :: f32
  fd_source :: FrameSnapshot

record GroundTruth =
  gt_a11y_diff :: "A11yNodeDiff list"
  gt_frame_diff :: "FrameDiff option"
  gt_focus :: "u32 option"
  gt_scene_change :: f32
  gt_events :: "KernelEvent list"

definition ground_truth_default :: GroundTruth where
  "ground_truth_default =
     \<lparr>gt_a11y_diff = [], gt_frame_diff = None, gt_focus = None, gt_scene_change = Fin 0, gt_events = []\<rparr>"

record ActionResult =
  ar_id :: ActionId
  ar_landed :: bool
  ar_ground_truth :: GroundTruth
  ar_elapsed_ms :: u32
  ar_code :: "AtomicErrorCode option"
  ar_retryable :: bool

definition action_result_default :: ActionResult where
  "action_result_default =
     \<lparr>ar_id = 0, ar_landed = False, ar_ground_truth = ground_truth_default, ar_elapsed_ms = 0,
      ar_code = None, ar_retryable = False\<rparr>"

definition has_ground_truth :: "ActionResult \<Rightarrow> bool" where
  "has_ground_truth r \<longleftrightarrow> ar_landed r
     \<and> (gt_a11y_diff (ar_ground_truth r) \<noteq> [] \<or> gt_frame_diff (ar_ground_truth r) \<noteq> None
        \<or> gt_events (ar_ground_truth r) \<noteq> [])"

definition is_structured_failure :: "ActionResult \<Rightarrow> bool" where
  "is_structured_failure r \<longleftrightarrow> \<not> ar_landed r \<and> ar_code r \<noteq> None"

section \<open>Plans\<close>

record PlanStep =
  st_id :: StepId
  st_action :: Action
  st_wait_before :: "Predicate option"
  st_verify_after :: "Predicate option"
  st_label :: "ustr option"

definition plan_step_new :: "Action \<Rightarrow> PlanStep" where
  "plan_step_new a =
     \<lparr>st_id = 0, st_action = a, st_wait_before = None, st_verify_after = None, st_label = None\<rparr>"

definition with_wait_before :: "Predicate \<Rightarrow> PlanStep \<Rightarrow> PlanStep" where
  "with_wait_before p s = s\<lparr>st_wait_before := Some p\<rparr>"

definition with_verify_after :: "Predicate \<Rightarrow> PlanStep \<Rightarrow> PlanStep" where
  "with_verify_after p s = s\<lparr>st_verify_after := Some p\<rparr>"

definition with_label :: "ustr \<Rightarrow> PlanStep \<Rightarrow> PlanStep" where
  "with_label l s = s\<lparr>st_label := Some l\<rparr>"

record Plan =
  plan_version :: string
  plan_id :: PlanId
  plan_steps :: "PlanStep list"
  plan_abort_on_error :: bool
  plan_checkpoint_every :: u32

definition PLAN_VERSION :: string where
  "PLAN_VERSION = ''0.1.0''"

definition plan_new :: "PlanStep list \<Rightarrow> Plan" where
  "plan_new steps =
     \<lparr>plan_version = PLAN_VERSION, plan_id = 0, plan_steps = steps, plan_abort_on_error = True,
      plan_checkpoint_every = 0\<rparr>"

definition with_abort :: "bool \<Rightarrow> Plan \<Rightarrow> Plan" where
  "with_abort abort p = p\<lparr>plan_abort_on_error := abort\<rparr>"

definition with_checkpoint_every :: "u32 \<Rightarrow> Plan \<Rightarrow> Plan" where
  "with_checkpoint_every n p = p\<lparr>plan_checkpoint_every := n\<rparr>"

record StepResult =
  sr_step_id :: StepId
  sr_index :: u32
  sr_action_result :: ActionResult
  sr_landed :: bool
  sr_error :: "ustr option"

definition step_is_ok :: "StepResult \<Rightarrow> bool" where
  "step_is_ok r \<longleftrightarrow> sr_landed r \<and> ar_landed (sr_action_result r) \<and> sr_error r = None"

record PlanResult =
  pr_plan_id :: PlanId
  pr_steps :: "StepResult list"
  pr_final_observation :: Observation
  pr_total_elapsed_ms :: u32
  pr_all_landed :: bool

fun position :: "('a \<Rightarrow> bool) \<Rightarrow> 'a list \<Rightarrow> nat option" where
  "position P [] = None"
| "position P (x # xs) = (if P x then Some 0 else map_option Suc (position P xs))"

definition first_failure :: "PlanResult \<Rightarrow> nat option" where
  "first_failure r = position (\<lambda>s. \<not> sr_landed s) (pr_steps r)"

lemma position_None: "position P xs = None \<longleftrightarrow> (\<forall>x\<in>set xs. \<not> P x)"
  by (induction xs) auto

lemma position_Some:
  "position P xs = Some i \<longleftrightarrow> i < length xs \<and> P (xs ! i) \<and> (\<forall>j<i. \<not> P (xs ! j))"
proof (induction xs arbitrary: i)
  case (Cons x xs)
  show ?case
    by (cases i) (auto simp: Cons nth_Cons split: nat.split)
qed simp

section \<open>Hash maps\<close>

text \<open>A \<open>HashMap\<close> is an association list with distinct keys, in its iteration order. That order is
  unspecified in Rust; the lemmas on the model depend only on \<open>map_of\<close>.\<close>

abbreviation hm_insert :: "'k \<Rightarrow> 'v \<Rightarrow> ('k \<times> 'v) list \<Rightarrow> ('k \<times> 'v) list" where
  "hm_insert \<equiv> AList.update"

abbreviation hm_remove :: "'k \<Rightarrow> ('k \<times> 'v) list \<Rightarrow> ('k \<times> 'v) list" where
  "hm_remove \<equiv> AList.delete"

lemma map_of_hm_insert [simp]: "map_of (hm_insert k v m) = (map_of m)(k \<mapsto> v)"
  by (rule AList.update_conv')

lemma map_of_hm_remove [simp]: "map_of (hm_remove k m) = (map_of m)(k := None)"
  by (rule AList.delete_conv')

lemma distinct_hm_insert [simp]: "distinct (map fst m) \<Longrightarrow> distinct (map fst (hm_insert k v m))"
  by (rule AList.distinct_update)

lemma distinct_hm_remove [simp]: "distinct (map fst m) \<Longrightarrow> distinct (map fst (hm_remove k m))"
  by (rule AList.distinct_delete)

lemma hm_insert_fresh: "k \<notin> fst ` set m \<Longrightarrow> hm_insert k v m = m @ [(k, v)]"
  by (induction m) auto

lemma hm_remove_append [simp]: "hm_remove k (m @ n) = hm_remove k m @ hm_remove k n"
  by (simp add: AList.delete_eq)

lemma hm_remove_fresh: "k \<notin> fst ` set m \<Longrightarrow> hm_remove k m = m"
  by (induction m) auto

lemma hm_remove_insert_fresh: "k \<notin> fst ` set m \<Longrightarrow> hm_remove k (hm_insert k v m) = m"
  by (simp add: hm_insert_fresh hm_remove_fresh)

lemma set_hm_remove: "set (hm_remove h m) = {x \<in> set m. fst x \<noteq> h}"
  by (auto simp: AList.delete_eq)

end
