(* ===== verification/Kernel_State.thy ===== *)
theory Kernel_State
  imports Kernel_Types
begin

text \<open>
  The bounded memories of the device kernel: the state model (\<^verbatim>\<open>state.rs\<close>), the working memory of one
  task (\<^verbatim>\<open>session_state.rs\<close>, \<^verbatim>\<open>selector_cache.rs\<close>) and the capability registry
  (\<^verbatim>\<open>capability.rs\<close>).

  All logs of the crate are bounded in the same way; the locale \<open>capped_log\<close> holds the laws and is
  interpreted on each of them. Time is a parameter: \<open>Instant\<close> and \<open>Duration\<close> are numbers of
  nanoseconds, and every function that reads the clock takes the value it reads.
\<close>

section \<open>Bounded logs\<close>

text \<open>\<open>if q.len() >= cap { q.pop_front(); } q.push_back(x)\<close>\<close>

definition push_capped :: "nat \<Rightarrow> 'a list \<Rightarrow> 'a \<Rightarrow> 'a list" where
  "push_capped cap q x = (if cap \<le> length q then tl q else q) @ [x]"

definition last_n :: "nat \<Rightarrow> 'a list \<Rightarrow> 'a list" where
  "last_n n xs = drop (length xs - n) xs"

lemma length_last_n [simp]: "length (last_n n xs) = min n (length xs)"
  by (simp add: last_n_def)

lemma last_n_all: "length xs \<le> n \<Longrightarrow> last_n n xs = xs"
  by (simp add: last_n_def)

lemma last_n_Nil [simp]: "last_n n [] = []"
  by (simp add: last_n_def)

lemma push_capped_last_n: "0 < n \<Longrightarrow> push_capped n (last_n n xs) x = last_n n (xs @ [x])"
  by (auto simp: push_capped_def last_n_def tl_drop Suc_diff_le simp flip: drop_Suc)

lemma length_push_capped: "0 < n \<Longrightarrow> length q \<le> n \<Longrightarrow> length (push_capped n q x) \<le> n"
  by (auto simp: push_capped_def)

lemma last_n_suffix: "\<exists>ys. xs = ys @ last_n n xs"
  by (metis append_take_drop_id last_n_def)

lemma set_last_n: "set (last_n n xs) \<subseteq> set xs"
  by (simp add: last_n_def set_drop_subset)

locale capped_log =
  fixes record_in :: "'a \<Rightarrow> 's \<Rightarrow> 's"
    and entry :: "'a \<Rightarrow> 'b"
    and log_of :: "'s \<Rightarrow> 'b list"
    and cap :: nat
  assumes cap_pos: "0 < cap"
    and log_record: "log_of (record_in x s) = push_capped cap (log_of s) (entry x)"
begin

lemma log_fold_last_n:
  "log_of s = last_n cap ys \<Longrightarrow> log_of (fold record_in xs s) = last_n cap (ys @ map entry xs)"
proof (induction xs arbitrary: s ys)
  case (Cons x xs)
  then have "log_of (record_in x s) = last_n cap (ys @ [entry x])"
    by (simp add: log_record push_capped_last_n cap_pos)
  then show ?case
    using Cons.IH [of "record_in x s" "ys @ [entry x]"] by simp
qed simp

lemma log_fold: "log_of s = [] \<Longrightarrow> log_of (fold record_in xs s) = last_n cap (map entry xs)"
  using log_fold_last_n [of s "[]" xs] by simp

lemma log_bound: "length (log_of s) \<le> cap \<Longrightarrow> length (log_of (fold record_in xs s)) \<le> cap"
  using log_fold_last_n [of s "log_of s" xs] by (simp add: last_n_all)

lemma log_keeps_recent:
  "log_of s = [] \<Longrightarrow> length xs \<le> cap \<Longrightarrow> log_of (fold record_in xs s) = map entry xs"
  by (simp add: log_fold last_n_all)

end

section \<open>The state model\<close>

datatype LastInput = LI_Tap i32 i32 | LI_Swipe i32 i32 i32 i32

record StateModel =
  sm_last_input :: "LastInput option"
  sm_last_observation :: "Observation option"
  sm_predicate_set_size :: u32
  sm_event_queue :: "Observation list"
  sm_recent_action_results :: "(ActionId \<times> ActionResult) list"
  sm_recent_plan_results :: "(PlanId \<times> PlanResult) list"

definition EVENT_QUEUE_CAP :: nat where [simp]: "EVENT_QUEUE_CAP = 1024"
definition ACTION_RESULT_CAP :: nat where [simp]: "ACTION_RESULT_CAP = 256"
definition PLAN_RESULT_CAP :: nat where [simp]: "PLAN_RESULT_CAP = 64"

definition state_model_new :: StateModel where
  "state_model_new =
     \<lparr>sm_last_input = None, sm_last_observation = None, sm_predicate_set_size = 0,
      sm_event_queue = [], sm_recent_action_results = [], sm_recent_plan_results = []\<rparr>"

definition record_observation :: "Observation \<Rightarrow> StateModel \<Rightarrow> StateModel" where
  "record_observation obs s =
     s\<lparr>sm_event_queue := push_capped EVENT_QUEUE_CAP (sm_event_queue s) obs,
       sm_last_observation := Some obs\<rparr>"

definition record_action_result :: "ActionId \<Rightarrow> ActionResult \<Rightarrow> StateModel \<Rightarrow> StateModel" where
  "record_action_result i r s =
     s\<lparr>sm_recent_action_results := push_capped ACTION_RESULT_CAP (sm_recent_action_results s) (i, r)\<rparr>"

definition record_plan_result :: "PlanId \<Rightarrow> PlanResult \<Rightarrow> StateModel \<Rightarrow> StateModel" where
  "record_plan_result i r s =
     s\<lparr>sm_recent_plan_results := push_capped PLAN_RESULT_CAP (sm_recent_plan_results s) (i, r)\<rparr>"

definition action_result :: "ActionId \<Rightarrow> StateModel \<Rightarrow> ActionResult option" where
  "action_result i s = map_option snd (find (\<lambda>(aid, _). aid = i) (rev (sm_recent_action_results s)))"

definition predicate_registered :: "StateModel \<Rightarrow> StateModel" where
  "predicate_registered s =
     s\<lparr>sm_predicate_set_size :=
         (if sm_predicate_set_size s = - 1 then - 1 else sm_predicate_set_size s + 1)\<rparr>"

definition predicate_resolved :: "StateModel \<Rightarrow> StateModel" where
  "predicate_resolved s =
     (if 0 < sm_predicate_set_size s then s\<lparr>sm_predicate_set_size := sm_predicate_set_size s - 1\<rparr> else s)"

definition approx_memory_bytes :: "nat \<Rightarrow> nat \<Rightarrow> StateModel \<Rightarrow> nat" where
  \<comment> \<open>the two sizes are \<open>size_of\<close> of the result entries\<close>
  "approx_memory_bytes action_entry plan_entry s =
     length (sm_event_queue s) * 256 + length (sm_recent_action_results s) * action_entry
     + length (sm_recent_plan_results s) * plan_entry"

interpretation observation_log: capped_log record_observation id sm_event_queue EVENT_QUEUE_CAP
  by unfold_locales (simp_all add: record_observation_def)

interpretation action_log:
  capped_log "\<lambda>(i, r). record_action_result i r" id sm_recent_action_results ACTION_RESULT_CAP
  by unfold_locales (auto simp: record_action_result_def)

interpretation plan_log:
  capped_log "\<lambda>(i, r). record_plan_result i r" id sm_recent_plan_results PLAN_RESULT_CAP
  by unfold_locales (auto simp: record_plan_result_def)

lemma find_rev_map_of: "map_option snd (find (\<lambda>(a, _). a = i) xs) = map_of xs i"
  by (induction xs) auto

text \<open>Idempotent replay: a repeated action id is answered with the newest of its results among the
  last 256, and with nothing when it is older.\<close>

lemma action_result_replay:
  "action_result i (fold (\<lambda>(i, r). record_action_result i r) rs state_model_new)
     = map_of (rev (last_n ACTION_RESULT_CAP rs)) i"
  using action_log.log_fold [of state_model_new rs]
  by (simp add: action_result_def find_rev_map_of state_model_new_def)

lemma last_observation_recorded:
  "sm_last_observation (fold record_observation (os @ [ob]) s) = Some ob"
  by (simp add: record_observation_def)

lemma predicate_count_round:
  "sm_predicate_set_size s \<noteq> - 1 \<Longrightarrow> predicate_resolved (predicate_registered s) = s"
proof -
  assume n: "sm_predicate_set_size s \<noteq> - 1"
  then have "sm_predicate_set_size s + 1 \<noteq> 0"
    by (metis add_diff_cancel diff_0)
  then show ?thesis
    using n by (simp add: predicate_resolved_def predicate_registered_def word_neq_0_conv)
qed

lemma approx_memory_bound:
  assumes "length (sm_event_queue s) \<le> EVENT_QUEUE_CAP"
    "length (sm_recent_action_results s) \<le> ACTION_RESULT_CAP"
    "length (sm_recent_plan_results s) \<le> PLAN_RESULT_CAP"
  shows "approx_memory_bytes a p s \<le> 262144 + 256 * a + 64 * p"
proof -
  have "length (sm_recent_action_results s) * a \<le> 256 * a" "length (sm_recent_plan_results s) * p \<le> 64 * p"
    by (rule mult_le_mono1, use assms in simp)+
  then show ?thesis
    using assms(1) unfolding approx_memory_bytes_def EVENT_QUEUE_CAP_def by linarith
qed

section \<open>The working memory of a task\<close>

record TaskSpec =
  ts_description :: ustr
  ts_timeout :: "nat option"
  ts_tags :: "ustr list"

record ChunkIndex =
  ci_current :: u32
  ci_total :: u32

definition is_exhausted :: "ChunkIndex \<Rightarrow> bool" where
  "is_exhausted c \<longleftrightarrow> 0 < ci_total c \<and> ci_total c \<le> ci_current c"

record AtomicRecord =
  atr_id :: ActionId
  atr_atomic :: Action
  atr_result :: ActionResult
  atr_ts_ms :: u64

record ResolvedTarget =
  rt_selector :: ustr
  rt_node_id :: u32
  rt_bounds :: "i32 \<times> i32 \<times> i32 \<times> i32"

record SessionState =
  ss_task :: TaskSpec
  ss_scenario_progress :: ChunkIndex
  ss_recent_atomics :: "AtomicRecord list"
  ss_selector_cache :: "(ustr \<times> ResolvedTarget) list"
  ss_foreground_app_history :: "ForegroundApp list"
  ss_deadline_ms :: u64
  ss_session_start :: nat
  ss_epoch_anchor :: nat

definition MAX_RECENT_ATOMICS :: nat where [simp]: "MAX_RECENT_ATOMICS = 20"
definition MAX_FOREGROUND_HISTORY :: nat where [simp]: "MAX_FOREGROUND_HISTORY = 10"
definition from_millis :: "nat \<Rightarrow> nat" where "from_millis ms = ms * 1000000"
definition as_millis :: "nat \<Rightarrow> nat" where "as_millis d = d div 1000000"
definition DEFAULT_DEADLINE :: nat where "DEFAULT_DEADLINE = 5 * 60 * 1000000000"

definition fresh_session_state :: "nat \<Rightarrow> TaskSpec \<Rightarrow> u64 \<Rightarrow> SessionState" where
  "fresh_session_state now task ms =
     \<lparr>ss_task = task, ss_scenario_progress = \<lparr>ci_current = 0, ci_total = 0\<rparr>, ss_recent_atomics = [],
      ss_selector_cache = [], ss_foreground_app_history = [], ss_deadline_ms = ms,
      ss_session_start = now, ss_epoch_anchor = now\<rparr>"

definition session_state_new :: "nat \<Rightarrow> TaskSpec \<Rightarrow> SessionState" where
  "session_state_new now task =
     (let deadline = now + (case ts_timeout task of Some t \<Rightarrow> t | None \<Rightarrow> DEFAULT_DEADLINE)
      in fresh_session_state now task (of_nat (as_millis (deadline - now))))"

definition with_deadline :: "nat \<Rightarrow> TaskSpec \<Rightarrow> nat \<Rightarrow> SessionState" where
  "with_deadline now task deadline =
     fresh_session_state now task
       (if now \<le> deadline then of_nat (as_millis (deadline - now)) else 0)"

definition record_atomic :: "nat \<Rightarrow> ActionId \<Rightarrow> Action \<Rightarrow> ActionResult \<Rightarrow> SessionState \<Rightarrow> SessionState" where
  "record_atomic now i atomic result s =
     s\<lparr>ss_recent_atomics := push_capped MAX_RECENT_ATOMICS (ss_recent_atomics s)
         \<lparr>atr_id = i, atr_atomic = atomic, atr_result = result,
          atr_ts_ms = of_nat (as_millis (now - ss_session_start s))\<rparr>\<rparr>"

definition cache_selector :: "ustr \<Rightarrow> ResolvedTarget \<Rightarrow> SessionState \<Rightarrow> SessionState" where
  "cache_selector selector target s =
     s\<lparr>ss_selector_cache := hm_insert selector target (ss_selector_cache s)\<rparr>"

definition invalidate_selector :: "ustr \<Rightarrow> SessionState \<Rightarrow> bool \<times> SessionState" where
  "invalidate_selector selector s =
     (map_of (ss_selector_cache s) selector \<noteq> None,
      s\<lparr>ss_selector_cache := hm_remove selector (ss_selector_cache s)\<rparr>)"

definition lookup_selector :: "ustr \<Rightarrow> SessionState \<Rightarrow> ResolvedTarget option" where
  "lookup_selector selector s = map_of (ss_selector_cache s) selector"

definition record_foreground_app :: "ForegroundApp \<Rightarrow> SessionState \<Rightarrow> SessionState" where
  "record_foreground_app app s =
     s\<lparr>ss_foreground_app_history := push_capped MAX_FOREGROUND_HISTORY (ss_foreground_app_history s) app\<rparr>"

definition deadline_instant :: "SessionState \<Rightarrow> nat" where
  "deadline_instant s = ss_epoch_anchor s + from_millis (unat (ss_deadline_ms s))"

definition is_expired :: "nat \<Rightarrow> SessionState \<Rightarrow> bool" where
  "is_expired now s \<longleftrightarrow> deadline_instant s < now"

definition remaining :: "nat \<Rightarrow> SessionState \<Rightarrow> nat" where
  "remaining now s = deadline_instant s - now"

definition advance_chunk :: "SessionState \<Rightarrow> SessionState" where
  "advance_chunk s =
     (let c = ss_scenario_progress s in
      s\<lparr>ss_scenario_progress :=
          c\<lparr>ci_current := (if ci_current c = - 1 then - 1 else ci_current c + 1)\<rparr>\<rparr>)"

definition set_total_chunks :: "u32 \<Rightarrow> SessionState \<Rightarrow> SessionState" where
  "set_total_chunks n s =
     s\<lparr>ss_scenario_progress := (ss_scenario_progress s)\<lparr>ci_total := n\<rparr>\<rparr>"

definition has_structured_failures :: "SessionState \<Rightarrow> bool" where
  "has_structured_failures s \<longleftrightarrow> list_ex (\<lambda>r. is_structured_failure (atr_result r)) (ss_recent_atomics s)"

definition selector_miss_count :: "SessionState \<Rightarrow> u32" where
  "selector_miss_count s =
     of_nat (length (filter (\<lambda>r. ar_code (atr_result r) = Some SelectorMiss) (ss_recent_atomics s)))"

text \<open>\<^verbatim>\<open>selector_cache.rs\<close>: the cache borrows the session.\<close>

definition record_miss_from_result :: "ustr \<Rightarrow> ActionResult \<Rightarrow> SessionState \<Rightarrow> bool \<times> SessionState" where
  "record_miss_from_result selector result s =
     (if ar_code result = Some SelectorMiss then invalidate_selector selector s else (False, s))"

definition record_miss :: "ustr \<Rightarrow> SessionState \<Rightarrow> bool \<times> SessionState" where
  "record_miss selector s = invalidate_selector selector s"

definition record_hit :: "ustr \<Rightarrow> SessionState \<Rightarrow> SessionState" where
  "record_hit selector s = s"

interpretation foreground_log:
  capped_log record_foreground_app id ss_foreground_app_history MAX_FOREGROUND_HISTORY
  by unfold_locales (simp_all add: record_foreground_app_def)

lemma map_push_capped: "map f (push_capped n q x) = push_capped n (map f q) (f x)"
  by (simp add: push_capped_def map_tl)

text \<open>An executed atomic, with the instant of its record; what the log keeps of it but the time.\<close>

definition recorded :: "AtomicRecord \<Rightarrow> ActionId \<times> Action \<times> ActionResult" where
  "recorded r = (atr_id r, atr_atomic r, atr_result r)"

definition record_executed ::
    "nat \<times> ActionId \<times> Action \<times> ActionResult \<Rightarrow> SessionState \<Rightarrow> SessionState" where
  "record_executed = (\<lambda>(now, i, a, r). record_atomic now i a r)"

interpretation atomic_log:
  capped_log record_executed snd "\<lambda>s. map recorded (ss_recent_atomics s)" MAX_RECENT_ATOMICS
  by unfold_locales
    (auto simp: record_executed_def record_atomic_def map_push_capped recorded_def)

lemma selector_miss_recorded:
  "selector_miss_count s =
     of_nat (length (filter (\<lambda>(_, _, r). ar_code r = Some SelectorMiss) (map recorded (ss_recent_atomics s))))"
  by (simp add: selector_miss_count_def filter_map comp_def recorded_def)

lemma structured_failures_recorded:
  "has_structured_failures s
     \<longleftrightarrow> list_ex (\<lambda>(_, _, r). is_structured_failure r) (map recorded (ss_recent_atomics s))"
  by (simp add: has_structured_failures_def list_ex_iff recorded_def)

lemma unat_small: "n < 2 ^ LENGTH('a) \<Longrightarrow> unat (of_nat n :: 'a::len word) = n"
  by (simp add: unat_of_nat)

text \<open>What the working memory answers after any run of executed atomics.\<close>

lemma recent_atomics_exact:
  fixes task now execs
  defines "s \<equiv> fold record_executed execs (session_state_new now task)"
  defines "recent \<equiv> last_n MAX_RECENT_ATOMICS (map snd execs)"
  shows "map recorded (ss_recent_atomics s) = recent"
    and "unat (selector_miss_count s) = length (filter (\<lambda>(_, _, r). ar_code r = Some SelectorMiss) recent)"
    and "has_structured_failures s \<longleftrightarrow> (\<exists>(_, _, r) \<in> set recent. \<not> ar_landed r \<and> ar_code r \<noteq> None)"
proof -
  show recent: "map recorded (ss_recent_atomics s) = recent"
    unfolding s_def recent_def
    by (rule atomic_log.log_fold) (simp add: session_state_new_def fresh_session_state_def Let_def)
  have "length (filter P recent) < 2 ^ LENGTH(32)" for P
    using length_filter_le [of P recent] by (simp add: recent_def)
  then show "unat (selector_miss_count s) = length (filter (\<lambda>(_, _, r). ar_code r = Some SelectorMiss) recent)"
    unfolding selector_miss_recorded recent by (rule unat_small)
  show "has_structured_failures s \<longleftrightarrow> (\<exists>(_, _, r) \<in> set recent. \<not> ar_landed r \<and> ar_code r \<noteq> None)"
    unfolding structured_failures_recorded recent
    by (simp add: list_ex_iff is_structured_failure_def split_def)
qed

text \<open>The cache is a map; a reported miss forgets exactly its selector.\<close>

lemma lookup_cache_selector:
  "lookup_selector sel (cache_selector sel' t s) = (if sel = sel' then Some t else lookup_selector sel s)"
  by (simp add: lookup_selector_def cache_selector_def)

lemma lookup_invalidate:
  "invalidate_selector sel s = (hit, s') \<Longrightarrow>
     hit = (lookup_selector sel s \<noteq> None)
     \<and> lookup_selector sel' s' = (if sel' = sel then None else lookup_selector sel' s)"
  by (auto simp: lookup_selector_def invalidate_selector_def)

lemma miss_from_result:
  "record_miss_from_result sel r s = (hit, s') \<Longrightarrow>
     lookup_selector sel' s'
       = (if sel' = sel \<and> ar_code r = Some SelectorMiss then None else lookup_selector sel' s)"
  by (auto simp: lookup_selector_def invalidate_selector_def record_miss_from_result_def
      split: if_splits)

text \<open>Deadlines. The deadline is kept in whole milliseconds after the start of the session: the
  session expires up to a millisecond early, never late, for any timeout below 2^64 ms.\<close>

lemma deadline_new:
  assumes "as_millis (case ts_timeout task of Some t \<Rightarrow> t | None \<Rightarrow> DEFAULT_DEADLINE) < 2 ^ 64"
  defines "t \<equiv> (case ts_timeout task of Some t \<Rightarrow> t | None \<Rightarrow> DEFAULT_DEADLINE)"
  shows "deadline_instant (session_state_new now task) = now + t - t mod 1000000"
  using assms
  by (simp add: deadline_instant_def session_state_new_def fresh_session_state_def Let_def
      as_millis_def from_millis_def unat_of_nat minus_mod_eq_div_mult [symmetric])

lemma expired_iff_no_time: "is_expired now s \<Longrightarrow> remaining now s = 0"
  and time_left: "0 < remaining now s \<Longrightarrow> \<not> is_expired now s"
  by (auto simp: is_expired_def remaining_def)

lemma deadline_operations [simp]:
  "deadline_instant (record_atomic now i a r s) = deadline_instant s"
  "deadline_instant (cache_selector sel t s) = deadline_instant s"
  "deadline_instant (snd (invalidate_selector sel s)) = deadline_instant s"
  "deadline_instant (record_foreground_app app s) = deadline_instant s"
  "deadline_instant (advance_chunk s) = deadline_instant s"
  "deadline_instant (set_total_chunks n s) = deadline_instant s"
  by (simp_all add: deadline_instant_def record_atomic_def cache_selector_def invalidate_selector_def
      record_foreground_app_def advance_chunk_def set_total_chunks_def Let_def)

section \<open>The capability registry\<close>

text \<open>A capability is its name, the profiles it allows and what executing it returns; the registry
  maps names to capabilities. \<open>register\<close> panics on an empty or a repeated name.\<close>

record 'x Capability =
  cap_name :: string
  cap_allowed :: "string \<Rightarrow> bool"
  cap_execute :: 'x

type_synonym 'x CapabilityRegistry = "(string \<times> 'x Capability) list"

definition registry_new :: "'x CapabilityRegistry" where
  "registry_new = []"

definition registry_register :: "'x Capability \<Rightarrow> 'x CapabilityRegistry \<Rightarrow> 'x CapabilityRegistry res" where
  "registry_register c reg =
     (let name = cap_name c in
      if name = [] then Inl Panicked
      else if map_of reg name \<noteq> None then Inl Panicked
      else Inr (hm_insert name c reg))"

definition registry_get :: "string \<Rightarrow> 'x CapabilityRegistry \<Rightarrow> 'x Capability option" where
  "registry_get name reg = map_of reg name"

fun register_all :: "'x Capability list \<Rightarrow> 'x CapabilityRegistry \<Rightarrow> 'x CapabilityRegistry res" where
  "register_all [] reg = Inr reg"
| "register_all (c # cs) reg = (case registry_register c reg of Inl f \<Rightarrow> Inl f | Inr reg \<Rightarrow> register_all cs reg)"

definition ALL_CAPABILITY_NAMES :: "string list" where
  "ALL_CAPABILITY_NAMES =
     [''input.motion_event'', ''input.key_event'', ''uhid.inject'', ''a11y.resolve'', ''a11y.observe'',
      ''frame.observe'', ''shell.ime'', ''pm.start_activity'', ''clipboard.set'', ''predicate.wait'',
      ''litert.ocr'', ''litert.detect'', ''litert.ground'', ''litert.vqa'']"

lemma capabilities_listed: "set (capabilities a) \<subseteq> set ALL_CAPABILITY_NAMES"
  by (cases a) (simp_all add: ALL_CAPABILITY_NAMES_def)

lemma every_capability_used: "set ALL_CAPABILITY_NAMES \<subseteq> (\<Union>a. set (capabilities a))"
proof -
  have "set ALL_CAPABILITY_NAMES \<subseteq> (\<Union>a\<in>{A_Tap 0 0 0, A_TapSelector [] 0, A_TypeText [] 0,
      A_GamepadFrame [] 0, A_Launch [] (ByPackage []) 0, A_SetClipboard [] False 0,
      A_Wait (P_Activity [] 0) 0, A_DumpObservation [] 0, A_LocalizeText [] None 0,
      A_DetectElement [] 0 None 0, A_Ground [] 0 0, A_AskVisual [] 0 0}. set (capabilities a))"
    by (simp add: ALL_CAPABILITY_NAMES_def)
  then show ?thesis
    by blast
qed

text \<open>Registration succeeds exactly for distinct, non-empty, new names; then every registered
  capability, and no other, is found under its name.\<close>

lemma register_all_iff:
  "(\<exists>reg'. register_all cs reg = Inr reg')
     \<longleftrightarrow> distinct (map cap_name cs) \<and> [] \<notin> set (map cap_name cs) \<and> fst ` set reg \<inter> cap_name ` set cs = {}"
proof (induction cs arbitrary: reg)
  case (Cons c cs)
  have "(\<exists>reg'. register_all (c # cs) reg = Inr reg') \<longleftrightarrow>
      cap_name c \<noteq> [] \<and> cap_name c \<notin> fst ` set reg \<and> (\<exists>reg'. register_all cs (hm_insert (cap_name c) c reg) = Inr reg')"
    by (auto simp: registry_register_def Let_def map_of_eq_None_iff split: sum.splits)
  also have "\<dots> \<longleftrightarrow> distinct (map cap_name (c # cs)) \<and> [] \<notin> set (map cap_name (c # cs))
      \<and> fst ` set reg \<inter> cap_name ` set (c # cs) = {}"
    using Cons [of "hm_insert (cap_name c) c reg"]
    by (auto simp: dom_map_of_conv_image_fst [symmetric])
  finally show ?case .
qed simp

lemma register_all_get:
  "register_all cs reg = Inr reg' \<Longrightarrow>
     registry_get n reg' = (case find (\<lambda>c. cap_name c = n) cs of Some c \<Rightarrow> Some c | None \<Rightarrow> registry_get n reg)"
proof (induction cs arbitrary: reg)
  case (Cons c cs)
  then have n: "cap_name c \<noteq> []" "map_of reg (cap_name c) = None"
      "register_all cs (hm_insert (cap_name c) c reg) = Inr reg'"
    by (auto simp: registry_register_def Let_def split: if_splits sum.splits)
  have "find (\<lambda>x. cap_name x = cap_name c) cs = None"
  proof -
    have "fst ` set (hm_insert (cap_name c) c reg) \<inter> cap_name ` set cs = {}"
      using n(3) register_all_iff by blast
    then have "cap_name c \<notin> cap_name ` set cs"
      by (auto simp: dom_map_of_conv_image_fst [symmetric])
    then show ?thesis
      unfolding find_None_iff by (metis image_eqI)
  qed
  then show ?case
    using Cons.IH [OF n(3)] by (auto simp: registry_get_def split: option.splits)
qed (simp add: registry_get_def)

text \<open>A registry with all names of the list can route every action.\<close>

lemma registry_routes:
  assumes "register_all cs registry_new = Inr reg" "map cap_name cs = ALL_CAPABILITY_NAMES"
    and "n \<in> set (capabilities a)"
  shows "\<exists>c. registry_get n reg = Some c \<and> cap_name c = n"
proof -
  have "n \<in> cap_name ` set cs"
    using assms(2,3) capabilities_listed [of a] by (metis image_set subsetD)
  then obtain c where c: "find (\<lambda>c. cap_name c = n) cs = Some c"
    by (cases "find (\<lambda>c. cap_name c = n) cs") (auto simp: find_None_iff)
  then have "cap_name c = n"
    by (auto simp: find_Some_iff)
  then show ?thesis
    using register_all_get [OF assms(1), of n] c by simp
qed

end
