(* ===== verification/Kernel_Stream.thy ===== *)
theory Kernel_Stream
  imports Kernel_State "HOL-Library.Sublist"
begin

text \<open>
  The observation stream of the device kernel (\<^verbatim>\<open>stream_engine.rs\<close>): one producer, any number of
  subscribers with their own filter and bounded queue, a bounded history for replay. Interleavings
  of the operations are lists of \<open>stream_op\<close>; \<open>stream_run\<close> executes them and logs what was polled.
\<close>

section \<open>Subscribers\<close>

definition SUBSCRIBER_QUEUE_CAP :: nat where [simp]: "SUBSCRIBER_QUEUE_CAP = 256"

record Subscriber =
  sub_id :: u64
  sub_last_seq :: "u64 option"
  sub_queue :: "Observation list"
  sub_filter :: "EventKind list option"
  sub_dropped :: u64

definition subscriber_new :: "u64 \<Rightarrow> Subscriber" where
  "subscriber_new i =
     \<lparr>sub_id = i, sub_last_seq = None, sub_queue = [], sub_filter = None, sub_dropped = 0\<rparr>"

definition with_filter :: "EventKind list option \<Rightarrow> Subscriber \<Rightarrow> Subscriber" where
  "with_filter f s = s\<lparr>sub_filter := f\<rparr>"

definition poll :: "Subscriber \<Rightarrow> Observation option \<times> Subscriber" where
  "poll s = (case sub_queue s of
     [] \<Rightarrow> (None, s)
   | obs # rest \<Rightarrow> (Some obs, s\<lparr>sub_queue := rest, sub_last_seq := Some (obs_seq obs)\<rparr>))"

definition accepts :: "Subscriber \<Rightarrow> Observation \<Rightarrow> bool" where
  "accepts s obs = (case sub_filter s of
     None \<Rightarrow> True
   | Some f \<Rightarrow> list_ex (\<lambda>ev. list_ex (\<lambda>k. from_event ev = Some k) f) (obs_events obs))"

definition subscriber_push :: "Observation \<Rightarrow> Subscriber \<Rightarrow> bool \<times> Subscriber" where
  "subscriber_push obs s =
     (if \<not> accepts s obs then (False, s)
      else let s = (if SUBSCRIBER_QUEUE_CAP \<le> length (sub_queue s)
                    then s\<lparr>sub_queue := tl (sub_queue s), sub_dropped := sub_dropped s + 1\<rparr> else s)
           in (True, s\<lparr>sub_queue := sub_queue s @ [obs]\<rparr>))"

fun replay_from_history :: "Observation list \<Rightarrow> u64 \<Rightarrow> Subscriber \<Rightarrow> Subscriber" where
  "replay_from_history [] since s = s"
| "replay_from_history (obs # history) since s =
     replay_from_history history since (if since < obs_seq obs then snd (subscriber_push obs s) else s)"

section \<open>The engine\<close>

record StreamEngine =
  se_next_seq :: u64
  se_history :: "Observation list"
  se_subscribers :: "(u64 \<times> Subscriber) list"
  se_next_subscriber_id :: u64

definition HISTORY_CAP :: nat where [simp]: "HISTORY_CAP = 512"

definition stream_new :: StreamEngine where
  "stream_new =
     \<lparr>se_next_seq = 0, se_history = [], se_subscribers = [], se_next_subscriber_id = 1\<rparr>"

definition subscribe :: "u64 \<Rightarrow> EventKind list option \<Rightarrow> StreamEngine \<Rightarrow> u64 \<times> StreamEngine" where
  "subscribe since f e =
     (let i = se_next_subscriber_id e;
          sub = replay_from_history (se_history e) since (with_filter f (subscriber_new i))
      in (i, e\<lparr>se_next_subscriber_id := i + 1, se_subscribers := hm_insert i sub (se_subscribers e)\<rparr>))"

definition unsubscribe :: "u64 \<Rightarrow> StreamEngine \<Rightarrow> bool \<times> StreamEngine" where
  "unsubscribe h e =
     (map_of (se_subscribers e) h \<noteq> None, e\<lparr>se_subscribers := hm_remove h (se_subscribers e)\<rparr>)"

definition produce :: "(u64 \<Rightarrow> Observation) \<Rightarrow> StreamEngine \<Rightarrow> u64 \<times> StreamEngine" where
  "produce obs_factory e =
     (let s = se_next_seq e; obs = obs_factory s
      in (s, e\<lparr>se_next_seq := s + 1,
            se_history := push_capped HISTORY_CAP (se_history e) obs,
            se_subscribers := map (\<lambda>(h, sub). (h, snd (subscriber_push obs sub))) (se_subscribers e)\<rparr>))"

definition subscriber :: "u64 \<Rightarrow> StreamEngine \<Rightarrow> Subscriber option" where
  "subscriber h e = map_of (se_subscribers e) h"

text \<open>\<open>subscriber_mut(h)\<close> followed by \<open>poll()\<close>\<close>

definition poll_subscriber :: "u64 \<Rightarrow> StreamEngine \<Rightarrow> Observation option \<times> StreamEngine" where
  "poll_subscriber h e = (case subscriber h e of
     None \<Rightarrow> (None, e)
   | Some sub \<Rightarrow> (let (obs, sub) = poll sub
       in (obs, e\<lparr>se_subscribers := hm_insert h sub (se_subscribers e)\<rparr>)))"

definition head_seq :: "StreamEngine \<Rightarrow> u64 option" where
  "head_seq e = (if se_next_seq e = 0 then None else Some (se_next_seq e - 1))"

definition since_seq :: "u64 \<Rightarrow> StreamEngine \<Rightarrow> Observation list" where
  "since_seq since e = filter (\<lambda>obs. since < obs_seq obs) (se_history e)"

text \<open>Two events have one \<open>mem::discriminant\<close> iff they have one label.\<close>

definition add_event :: "KernelEvent list \<Rightarrow> KernelEvent \<Rightarrow> KernelEvent list" where
  "add_event out ev = (if list_ex (\<lambda>e. event_label e = event_label ev) out then out else out @ [ev])"

definition events_since :: "u64 \<Rightarrow> StreamEngine \<Rightarrow> KernelEvent list" where
  "events_since since e =
     foldl (\<lambda>out obs. foldl add_event out (obs_events obs)) [] (since_seq since e)"

section \<open>Runs\<close>

datatype stream_op =
    Subscribe u64 "EventKind list option"
  | Unsubscribe u64
  | Produce "u64 \<Rightarrow> Observation"
  | Poll u64

fun stream_run :: "stream_op list \<Rightarrow> StreamEngine \<Rightarrow> (u64 \<times> Observation) list \<times> StreamEngine" where
  "stream_run [] e = ([], e)"
| "stream_run (Subscribe since f # ops) e = stream_run ops (snd (subscribe since f e))"
| "stream_run (Unsubscribe h # ops) e = stream_run ops (snd (unsubscribe h e))"
| "stream_run (Produce f # ops) e = stream_run ops (snd (produce f e))"
| "stream_run (Poll h # ops) e =
     (case poll_subscriber h e of
        (None, e) \<Rightarrow> stream_run ops e
      | (Some obs, e) \<Rightarrow> (let (plog, e) = stream_run ops e in ((h, obs) # plog, e)))"

text \<open>What a run produces, starting with the sequence number \<open>n\<close>, and what one subscriber polls.\<close>

fun produced :: "stream_op list \<Rightarrow> u64 \<Rightarrow> Observation list" where
  "produced [] n = []"
| "produced (Produce f # ops) n = f n # produced ops (n + 1)"
| "produced (Subscribe since f # ops) n = produced ops n"
| "produced (Unsubscribe h # ops) n = produced ops n"
| "produced (Poll h # ops) n = produced ops n"

definition polled :: "u64 \<Rightarrow> (u64 \<times> Observation) list \<Rightarrow> Observation list" where
  "polled h plog = map snd (filter (\<lambda>(k, _). k = h) plog)"

lemma polled_simps [simp]:
  "polled h [] = []"
  "polled h ((k, obs) # plog) = (if k = h then obs # polled h plog else polled h plog)"
  by (simp_all add: polled_def)

section \<open>The account of a subscriber\<close>

text \<open>\<open>account S D sub\<close>: of the accepted observations \<open>S\<close>, the last ones are queued, \<open>D\<close> has been
  delivered in order, and the others were dropped and counted; what is queued comes after everything
  delivered or dropped, and nothing is dropped from a stream that fits into the queue.\<close>

definition account :: "Observation list \<Rightarrow> Observation list \<Rightarrow> Subscriber \<Rightarrow> bool" where
  "account S D sub \<longleftrightarrow>
     (\<exists>P. S = P @ sub_queue sub \<and> subseq D P \<and> sub_dropped sub = of_nat (length P - length D)
        \<and> (P = D \<or> SUBSCRIBER_QUEUE_CAP < length S))
     \<and> length (sub_queue sub) \<le> SUBSCRIBER_QUEUE_CAP
     \<and> sub_last_seq sub = (if D = [] then None else Some (obs_seq (last D)))"

lemma account_new: "account [] [] (with_filter f (subscriber_new i))"
  by (simp add: account_def with_filter_def subscriber_new_def)

lemma account_push:
  assumes "account S D sub"
  shows "account (S @ filter (accepts sub) [obs]) D (snd (subscriber_push obs sub))"
proof (cases "accepts sub obs")
  case True
  obtain P where P: "S = P @ sub_queue sub" "subseq D P" "sub_dropped sub = of_nat (length P - length D)"
      "P = D \<or> SUBSCRIBER_QUEUE_CAP < length S"
    and q: "length (sub_queue sub) \<le> SUBSCRIBER_QUEUE_CAP"
    and l: "sub_last_seq sub = (if D = [] then None else Some (obs_seq (last D)))"
    using assms by (auto simp: account_def)
  show ?thesis
  proof (cases "SUBSCRIBER_QUEUE_CAP \<le> length (sub_queue sub)")
    case full: True
    then obtain x q' where x: "sub_queue sub = x # q'"
      by (cases "sub_queue sub") auto
    have "length D \<le> length P"
      using P(2) by (rule list_emb_length)
    then have "sub_dropped sub + 1 = of_nat (length (P @ [x]) - length D)"
      by (simp add: P(3) Suc_diff_le)
    moreover have "subseq D (P @ [x])"
      using list_emb_append_mono [OF P(2), of "[]" "[x]"] by simp
    ultimately show ?thesis
      using True full q l x unfolding account_def subscriber_push_def P(1)
      by (auto simp: Let_def intro!: exI [of _ "P @ [x]"])
  next
    case False
    then show ?thesis
      using True q l P unfolding account_def subscriber_push_def by (auto simp: Let_def)
  qed
qed (use assms in \<open>simp add: subscriber_push_def\<close>)

lemma account_poll:
  assumes "account S D sub" "poll sub = (r, sub')"
  shows "account S (case r of None \<Rightarrow> D | Some obs \<Rightarrow> D @ [obs]) sub'"
proof (cases "sub_queue sub")
  case (Cons obs rest)
  obtain P where P: "S = P @ sub_queue sub" "subseq D P" "sub_dropped sub = of_nat (length P - length D)"
      "P = D \<or> SUBSCRIBER_QUEUE_CAP < length S"
    using assms(1) by (auto simp: account_def)
  have "subseq (D @ [obs]) (P @ [obs])"
    using P(2) by (simp add: list_emb_append_mono)
  then show ?thesis
    using assms P Cons by (auto simp: account_def poll_def intro!: exI [of _ "P @ [obs]"])
qed (use assms in \<open>auto simp: poll_def\<close>)

lemma filter_kept [simp]:
  "accepts (snd (subscriber_push obs sub)) = accepts sub"
  "accepts (snd (poll sub)) = accepts sub"
  by (auto simp: accepts_def subscriber_push_def poll_def Let_def fun_eq_iff split: list.splits)

lemma account_replay:
  "account S D sub \<Longrightarrow>
     account (S @ filter (accepts sub) (filter (\<lambda>obs. since < obs_seq obs) history)) D
       (replay_from_history history since sub)
     \<and> accepts (replay_from_history history since sub) = accepts sub"
proof (induction history arbitrary: S sub)
  case (Cons obs history)
  have "account (S @ filter (accepts sub) (filter (\<lambda>obs. since < obs_seq obs) [obs])) D
      (if since < obs_seq obs then snd (subscriber_push obs sub) else sub)"
    using Cons.prems account_push [of S D sub obs] by simp
  then show ?case
    using Cons.IH by fastforce
qed simp

text \<open>No loss when nothing was dropped: then the deliveries and the queue are the whole stream.\<close>

lemma account_no_loss:
  assumes "account S D sub" "sub_dropped sub = 0" "length S < 2 ^ 64"
  shows "D @ sub_queue sub = S"
proof -
  obtain P where P: "S = P @ sub_queue sub" "subseq D P" "sub_dropped sub = of_nat (length P - length D)"
      "P = D \<or> SUBSCRIBER_QUEUE_CAP < length S"
    using assms(1) by (auto simp: account_def)
  have "unat (sub_dropped sub) = length P - length D"
    using P assms(3) by (simp add: unat_of_nat)
  then have "length D = length P"
    using list_emb_length [OF P(2)] assms(2) by simp
  then have "D = P"
    using P(2) subseq_same_length by blast
  then show ?thesis
    using P(1) by simp
qed

section \<open>The account over a run\<close>

definition watched :: "u64 \<Rightarrow> (Observation \<Rightarrow> bool) \<Rightarrow> Observation list \<Rightarrow> Observation list \<Rightarrow> StreamEngine \<Rightarrow> bool" where
  "watched h acc S D e \<longleftrightarrow> (\<exists>sub. subscriber h e = Some sub \<and> accepts sub = acc \<and> account S D sub)"

lemma watched_subscribe:
  assumes "subscribe since f e = (h, e')"
  shows "watched h (accepts (with_filter f (subscriber_new h)))
           (filter (accepts (with_filter f (subscriber_new h))) (since_seq since e)) [] e'"
  using account_replay [OF account_new, of f h since "se_history e"] assms
  by (auto simp: watched_def subscribe_def subscriber_def Let_def since_seq_def)

lemma watched_other_subscribe:
  "watched h acc S D e \<Longrightarrow> se_next_subscriber_id e \<noteq> h \<Longrightarrow> watched h acc S D (snd (subscribe since f e))"
  by (auto simp: watched_def subscribe_def subscriber_def Let_def)

lemma watched_unsubscribe:
  "watched h acc S D e \<Longrightarrow> k \<noteq> h \<Longrightarrow> watched h acc S D (snd (unsubscribe k e))"
  by (auto simp: watched_def unsubscribe_def subscriber_def)

lemma map_of_map_values: "map_of (map (\<lambda>(k, v). (k, g v)) m) k = map_option g (map_of m k)"
  by (induction m) auto

lemma watched_produce:
  "watched h acc S D e \<Longrightarrow> watched h acc (S @ filter acc [f (se_next_seq e)]) D (snd (produce f e))"
  by (auto simp: watched_def produce_def subscriber_def Let_def map_of_map_values
      dest: account_push simp del: filter.simps)

lemma watched_poll:
  assumes "watched h acc S D e" "poll_subscriber k e = (r, e')"
  shows "watched h acc S (case r of Some obs \<Rightarrow> if k = h then D @ [obs] else D | None \<Rightarrow> D) e'"
proof (cases "subscriber k e")
  case (Some sub)
  obtain r' sub' where r: "poll sub = (r', sub')"
    by force
  have "accepts sub' = accepts sub"
    using filter_kept(2) [of sub] r by simp
  then show ?thesis
    using assms Some r account_poll [OF _ r]
    by (auto simp: watched_def poll_subscriber_def subscriber_def split: option.splits)
qed (use assms in \<open>auto simp: poll_subscriber_def\<close>)

lemma engine_counters [simp]:
  "se_next_subscriber_id (snd (subscribe since f e)) = se_next_subscriber_id e + 1"
  "se_next_subscriber_id (snd (unsubscribe h e)) = se_next_subscriber_id e"
  "se_next_subscriber_id (snd (produce g e)) = se_next_subscriber_id e"
  "se_next_seq (snd (subscribe since f e)) = se_next_seq e"
  "se_next_seq (snd (unsubscribe h e)) = se_next_seq e"
  "se_next_seq (snd (produce g e)) = se_next_seq e + 1"
  "se_history (snd (subscribe since f e)) = se_history e"
  "se_history (snd (unsubscribe h e)) = se_history e"
  "se_history (snd (produce g e)) = push_capped HISTORY_CAP (se_history e) (g (se_next_seq e))"
  by (simp_all add: subscribe_def unsubscribe_def produce_def Let_def)

lemma poll_counters:
  "poll_subscriber h e = (r, e') \<Longrightarrow>
     se_next_subscriber_id e' = se_next_subscriber_id e \<and> se_next_seq e' = se_next_seq e
     \<and> se_history e' = se_history e"
  by (auto simp: poll_subscriber_def split: option.splits prod.splits)

lemma watched_run:
  assumes "watched h acc S D e" "stream_run ops e = (plog, e')" "Unsubscribe h \<notin> set ops"
    and "unat (se_next_subscriber_id e - h - 1) + length ops < 2 ^ 64 - 1"
  shows "watched h acc (S @ filter acc (produced ops (se_next_seq e))) (D @ polled h plog) e'"
  using assms
proof (induction ops arbitrary: S D e plog)
  case (Cons opr ops)
  show ?case
  proof (cases opr)
    case (Subscribe since f)
    let ?d = "se_next_subscriber_id e - h - 1"
    have d: "unat ?d + 1 + length ops < 2 ^ 64 - 1"
      using Cons.prems(4) by simp
    then have u: "unat (?d + 1) = unat ?d + 1"
      by (subst unat_add_lem [THEN iffD1]) simp_all
    have "se_next_subscriber_id e \<noteq> h"
    proof
      assume "se_next_subscriber_id e = h"
      then have "?d = - 1"
        by simp
      then show False
        using d by (simp add: unsigned_minus_1_eq_mask mask_eq_exp_minus_1)
    qed
    moreover have "unat (se_next_subscriber_id e + 1 - h - 1) + length ops < 2 ^ 64 - 1"
      using d u by (simp add: algebra_simps)
    ultimately show ?thesis
      using Cons.IH [OF watched_other_subscribe [OF Cons.prems(1)], of since f plog] Cons.prems Subscribe
      by simp
  next
    case (Unsubscribe k)
    then show ?thesis
      using Cons.IH [OF watched_unsubscribe [OF Cons.prems(1)], of k plog] Cons.prems by auto
  next
    case (Produce f)
    then show ?thesis
      using Cons.IH [OF watched_produce [OF Cons.prems(1)], of f plog] Cons.prems by (auto split: if_splits)
  next
    case (Poll k)
    obtain r e1 where r: "poll_subscriber k e = (r, e1)"
      by force
    obtain plog1 where run: "stream_run ops e1 = (plog1, e')"
      and plog: "plog = (case r of None \<Rightarrow> plog1 | Some obs \<Rightarrow> (k, obs) # plog1)"
      using Cons.prems(2) Poll r by (auto split: option.splits prod.splits)
    show ?thesis
      using Cons.IH [OF watched_poll [OF Cons.prems(1) r] run] Cons.prems(3,4) poll_counters [OF r] plog Poll
      by (auto split: option.splits if_splits)
  qed
qed simp

lemma history_run:
  "se_history e = last_n HISTORY_CAP P \<Longrightarrow> stream_run ops e = (plog, e') \<Longrightarrow>
     se_history e' = last_n HISTORY_CAP (P @ produced ops (se_next_seq e))"
proof (induction ops arbitrary: e P plog)
  case (Cons opr ops)
  show ?case
  proof (cases opr)
    case (Produce f)
    have "se_history (snd (produce f e)) = last_n HISTORY_CAP (P @ [f (se_next_seq e)])"
      using Cons.prems(1) push_capped_last_n [of 512 P "f (se_next_seq e)"] by simp
    then show ?thesis
      using Cons.IH [of "snd (produce f e)" "P @ [f (se_next_seq e)]" plog] Cons.prems Produce by simp
  next
    case (Poll k)
    obtain r e1 where r: "poll_subscriber k e = (r, e1)"
      by force
    then show ?thesis
      using Cons.IH [of e1 P] Cons.prems Poll poll_counters [OF r]
      by (auto split: option.splits prod.splits)
  next
    case (Subscribe since f)
    then show ?thesis
      using Cons.IH [of "snd (subscribe since f e)" P plog] Cons.prems by simp
  next
    case (Unsubscribe k)
    then show ?thesis
      using Cons.IH [of "snd (unsubscribe k e)" P plog] Cons.prems by simp
  qed
qed simp

text \<open>Sequence numbers: a factory that stamps the number it is given makes the stream strictly
  increasing, so a client that resumes with the last number it saw gets what is newer.\<close>

definition stamped :: "stream_op list \<Rightarrow> bool" where
  "stamped ops \<longleftrightarrow> list_all (\<lambda>opr. case opr of Produce f \<Rightarrow> f = (\<lambda>n. (f n)\<lparr>obs_seq := n\<rparr>) | _ \<Rightarrow> True) ops"

lemma stamped_simps [simp]:
  "stamped []"
  "stamped (opr # ops) \<longleftrightarrow>
     (case opr of Produce f \<Rightarrow> f = (\<lambda>n. (f n)\<lparr>obs_seq := n\<rparr>) | _ \<Rightarrow> True) \<and> stamped ops"
  by (simp_all add: stamped_def)

lemma stamped_seq: "f = (\<lambda>n. (f n)\<lparr>obs_seq := n\<rparr>) \<Longrightarrow> obs_seq (f n) = n"
  by (drule fun_cong [of _ _ n]) (metis Observation.select_convs(1) Observation.surjective Observation.update_convs(1))

lemma length_produced: "length (produced ops n) \<le> length ops"
  by (induction ops n rule: produced.induct) auto

lemma produced_seqs:
  "stamped ops \<Longrightarrow> map obs_seq (produced ops n) = map (\<lambda>i. n + of_nat i) [0..<length (produced ops n)]"
proof (induction ops n rule: produced.induct)
  case (2 f ops n)
  have "map (\<lambda>i. n + 1 + of_nat i) [0..<k] = map (\<lambda>i. n + of_nat i) [1..<Suc k]" for k
    by (simp add: map_Suc_upt [symmetric] comp_def algebra_simps del: upt_Suc)
  then show ?case
    using 2 stamped_seq [of f n] by (simp add: upt_conv_Cons del: upt_Suc)
qed simp_all

text \<open>The replay of a subscription: the newer part of the history, oldest first.\<close>

lemma subscribe_replay:
  assumes "subscribe since f e = (h, e')"
    and "length (filter (accepts (with_filter f (subscriber_new h))) (since_seq since e)) \<le> SUBSCRIBER_QUEUE_CAP"
  shows "\<exists>sub. subscriber h e' = Some sub
    \<and> sub_queue sub = filter (accepts (with_filter f (subscriber_new h))) (since_seq since e)"
proof -
  obtain sub where sub: "subscriber h e' = Some sub"
    and a: "account (filter (accepts (with_filter f (subscriber_new h))) (since_seq since e)) [] sub"
    using watched_subscribe [OF assms(1)] by (auto simp: watched_def)
  then show ?thesis
    using assms(2) by (auto simp: account_def)
qed

text \<open>The first observation has the number 0, which no \<open>since_seq\<close> is below: it is never replayed.\<close>

lemma first_observation_not_replayed:
  assumes "f = (\<lambda>n. (f n)\<lparr>obs_seq := n\<rparr>)"
  shows "\<exists>sub. subscriber 1 (snd (subscribe since None (snd (produce f stream_new)))) = Some sub \<and> sub_queue sub = []"
proof -
  have "\<not> since < obs_seq (f 0)"
    using stamped_seq [OF assms, of 0] by simp
  then show ?thesis
    by (simp add: subscribe_def produce_def stream_new_def subscriber_def Let_def push_capped_def
        with_filter_def subscriber_new_def)
qed

text \<open>Only a full queue loses an observation, and then the oldest one.\<close>

lemma push_keeps:
  "length (sub_queue sub) < SUBSCRIBER_QUEUE_CAP \<Longrightarrow>
     sub_queue (snd (subscriber_push obs sub)) = sub_queue sub @ filter (accepts sub) [obs]
     \<and> sub_dropped (snd (subscriber_push obs sub)) = sub_dropped sub"
  by (simp add: subscriber_push_def Let_def)

text \<open>\<open>events_since\<close> names every kind of event of the recent history exactly once.\<close>

lemma add_event_labels:
  "distinct (map event_label out) \<Longrightarrow>
     distinct (map event_label (foldl add_event out evs))
     \<and> event_label ` set (foldl add_event out evs) = event_label ` set out \<union> event_label ` set evs"
proof (induction evs arbitrary: out)
  case (Cons ev evs)
  have "distinct (map event_label (add_event out ev))"
    using Cons.prems by (auto simp: add_event_def list_ex_iff)
  moreover have "event_label ` set (add_event out ev) = insert (event_label ev) (event_label ` set out)"
    by (auto simp: add_event_def list_ex_iff image_iff intro: sym)
  ultimately show ?case
    using Cons.IH [of "add_event out ev"] by auto
qed simp

lemma events_since_kinds:
  "distinct (map event_label (events_since since e))
   \<and> event_label ` set (events_since since e) = (\<Union>obs \<in> set (since_seq since e). event_label ` set (obs_events obs))"
proof -
  have "distinct (map event_label out) \<Longrightarrow>
      distinct (map event_label (foldl (\<lambda>out obs. foldl add_event out (obs_events obs)) out os))
      \<and> event_label ` set (foldl (\<lambda>out obs. foldl add_event out (obs_events obs)) out os)
          = event_label ` set out \<union> (\<Union>obs \<in> set os. event_label ` set (obs_events obs))" for out os
  proof (induction os arbitrary: out)
    case (Cons ob os)
    then show ?case
      using add_event_labels [of out "obs_events ob"] by (auto simp: Un_assoc)
  qed simp
  from this [of "[]" "since_seq since e"] show ?thesis
    by (simp add: events_since_def)
qed

section \<open>What a subscriber sees\<close>

definition wanted :: "EventKind list option \<Rightarrow> Observation \<Rightarrow> bool" where
  "wanted f obs \<longleftrightarrow> (case f of
     None \<Rightarrow> True
   | Some ks \<Rightarrow> list_ex (\<lambda>ev. case from_event ev of None \<Rightarrow> False | Some k \<Rightarrow> k \<in> set ks) (obs_events obs))"

lemma accepts_wanted: "accepts (with_filter f (subscriber_new h)) = wanted f"
proof
  fix obs
  have "(\<exists>k\<in>set ks. from_event ev = Some k) \<longleftrightarrow> (case from_event ev of None \<Rightarrow> False | Some k \<Rightarrow> k \<in> set ks)" for ks ev
    by (auto split: option.splits)
  then show "accepts (with_filter f (subscriber_new h)) obs = wanted f obs"
    by (simp add: accepts_def wanted_def with_filter_def list_ex_iff split: option.split)
qed

text \<open>
  C24. The observation stream, for any interleaving of subscriptions, productions and polls after a
  subscriber joined an engine (whose history holds the last 512 of the observations \<open>P\<close>): the
  observations it is owed are those of the history newer than its \<open>since_seq\<close>, then all produced ones,
  as far as its filter wants them. What it polled and what it has pending are these observations in
  order; the missing ones are the oldest that overflowed its queue of 256, their number is in
  \<open>dropped\<close>, and there are none while at most 256 were owed. Other subscribers do not matter, and the
  history holds the last 512 observations.
\<close>

theorem subscription_exact:
  assumes "subscribe since f e = (h, e1)" "stream_run ops e1 = (plog, e2)"
    and "Unsubscribe h \<notin> set ops" "length ops < 2 ^ 64 - 1"
    and "se_history e = last_n HISTORY_CAP P"
    and "owed = filter (wanted f) (filter (\<lambda>obs. since < obs_seq obs) (last_n HISTORY_CAP P) @ produced ops (se_next_seq e))"
  shows "(\<exists>sub R. subscriber h e2 = Some sub
      \<and> owed = R @ sub_queue sub \<and> length (sub_queue sub) \<le> 256
      \<and> subseq (polled h plog) R \<and> sub_dropped sub = of_nat (length R - length (polled h plog))
      \<and> (length owed \<le> 256 \<longrightarrow> R = polled h plog))
    \<and> se_history e2 = last_n HISTORY_CAP (P @ produced ops (se_next_seq e))"
proof -
  have e1: "se_next_subscriber_id e1 = h + 1" "se_next_seq e1 = se_next_seq e" "se_history e1 = se_history e"
    using assms(1) by (auto simp: subscribe_def Let_def)
  have "watched h (wanted f) (filter (wanted f) (since_seq since e)) [] e1"
    using watched_subscribe [OF assms(1)] by (simp add: accepts_wanted)
  from watched_run [OF this assms(2,3)]
  have "watched h (wanted f) owed (polled h plog) e2"
    using assms(4-6) e1 by (simp add: since_seq_def)
  then obtain sub where "subscriber h e2 = Some sub" "account owed (polled h plog) sub"
    by (auto simp: watched_def)
  then have "\<exists>sub R. subscriber h e2 = Some sub
      \<and> owed = R @ sub_queue sub \<and> length (sub_queue sub) \<le> 256
      \<and> subseq (polled h plog) R \<and> sub_dropped sub = of_nat (length R - length (polled h plog))
      \<and> (length owed \<le> 256 \<longrightarrow> R = polled h plog)"
    by (auto simp: account_def)
  moreover have "se_history e2 = last_n HISTORY_CAP (P @ produced ops (se_next_seq e))"
    using history_run [of e1 P ops plog e2] assms(2,5) e1 by simp
  ultimately show ?thesis
    by blast
qed

theorem subscription_exact_witness:
  "\<exists>sub R. subscriber 1 (snd (stream_run
        [Produce (\<lambda>n. observation_default\<lparr>obs_seq := n\<rparr>), Subscribe 0 None, Poll 1,
         Produce (\<lambda>n. observation_default\<lparr>obs_seq := n, obs_events := [Ev_Uptime 7]\<rparr>), Poll 2]
        (snd (subscribe 0 None stream_new)))) = Some sub
    \<and> [observation_default, observation_default\<lparr>obs_seq := 1, obs_events := [Ev_Uptime 7]\<rparr>] = R @ sub_queue sub
    \<and> subseq [observation_default] R \<and> length (sub_queue sub) \<le> 256"
proof -
  let ?ops = "[Produce (\<lambda>n. observation_default\<lparr>obs_seq := n\<rparr>), Subscribe 0 None, Poll 1,
         Produce (\<lambda>n. observation_default\<lparr>obs_seq := n, obs_events := [Ev_Uptime 7]\<rparr>), Poll 2]"
  let ?e1 = "snd (subscribe 0 None stream_new)"
  have h: "subscribe 0 None stream_new = (1, ?e1)"
    by (simp add: subscribe_def stream_new_def Let_def)
  have d: "polled 1 (fst (stream_run ?ops ?e1)) = [observation_default]"
    by (simp add: subscribe_def stream_new_def produce_def poll_subscriber_def subscriber_def Let_def
        with_filter_def subscriber_new_def subscriber_push_def accepts_def poll_def push_capped_def
        observation_default_def)
  have r: "stream_run ?ops ?e1 = (fst (stream_run ?ops ?e1), snd (stream_run ?ops ?e1))"
    by (rule prod.collapse [symmetric])
  have nu: "Unsubscribe 1 \<notin> set ?ops" "length ?ops < 2 ^ 64 - 1"
    and hist: "se_history stream_new = last_n HISTORY_CAP []"
    by (simp_all add: stream_new_def)
  have "[observation_default, observation_default\<lparr>obs_seq := 1, obs_events := [Ev_Uptime 7]\<rparr>] =
      filter (wanted None) (filter (\<lambda>obs. 0 < obs_seq obs) (last_n HISTORY_CAP []) @ produced ?ops (se_next_seq stream_new))"
    by (simp add: stream_new_def wanted_def observation_default_def)
  from subscription_exact [OF h r nu hist this] show ?thesis
    unfolding d by blast
qed

end
