(* ===== verification/Kernel_Predicates.thy ===== *)
theory Kernel_Predicates
  imports Kernel_Stream
begin

text \<open>
  The predicate engine (\<^verbatim>\<open>predicate_engine.rs\<close>) and the two loops that wait for a predicate:
  \<open>wait_for\<close> of \<^verbatim>\<open>predicate_wait.rs\<close> and \<open>wait_for_predicate\<close> of \<^verbatim>\<open>plan_executor.rs\<close>.

  The host's closure that delivers observations is a state transformer \<open>'d \<Rightarrow> Observation option \<times> 'd\<close>
  of the host's own state; the loops may run as long as it delivers, so they are partial functions
  whose value \<open>None\<close> is divergence. The clock is the sequence of the values its readings return.
\<close>

section \<open>Evaluating a predicate\<close>

datatype PredicateOutcome = NoMatch | Matched

text \<open>\<open>str::contains\<close>\<close>

fun contains :: "ustr \<Rightarrow> ustr \<Rightarrow> bool" where
  "contains [] text = (text = [])"
| "contains (c # cs) text = (take (length text) (c # cs) = text \<or> contains cs text)"

lemma contains_iff: "contains hay needle \<longleftrightarrow> sublist needle hay"
proof (induction hay)
  case (Cons c cs)
  have "take (length needle) (c # cs) = needle \<longleftrightarrow> prefix needle (c # cs)"
    by (metis append_eq_conv_conj prefix_def)
  then show ?case
    using Cons by (simp add: sublist_Cons_right)
qed simp

fun f32_less :: "f32 \<Rightarrow> f32 \<Rightarrow> bool" where
  "f32_less (Fin a) (Fin b) = (a < b)"
| "f32_less (Fin a) (Inf s) = (\<not> s)"
| "f32_less (Inf s) (Fin b) = s"
| "f32_less (Inf s) (Inf t) = (s \<and> \<not> t)"
| "f32_less _ _ = False"

definition observation_contains_text :: "Observation \<Rightarrow> ustr \<Rightarrow> bool" where
  "observation_contains_text obs text =
     (case obs_a11y obs of None \<Rightarrow> False | Some a11y \<Rightarrow> contains (at_json a11y) text)"

definition observation_activity_matches :: "Observation \<Rightarrow> ustr \<Rightarrow> bool" where
  "observation_activity_matches obs component =
     (case Option.bind (obs_a11y obs) at_top_activity of None \<Rightarrow> False | Some activity \<Rightarrow> activity = component)"

definition observation_has_scene_stable_event :: "Observation \<Rightarrow> u32 \<Rightarrow> u32 \<Rightarrow> bool" where
  "observation_has_scene_stable_event obs duration timeout =
     (if timeout < duration then False
      else list_ex (\<lambda>ev. case ev of Ev_SceneChangeDetected score \<Rightarrow> f32_less score (f32_round (5 / 100)) | _ \<Rightarrow> False)
             (obs_events obs))"

definition observation_has_a11y_idle_event :: "Observation \<Rightarrow> u32 \<Rightarrow> u32 \<Rightarrow> bool" where
  "observation_has_a11y_idle_event obs duration timeout =
     (if timeout < duration then False
      else list_ex (\<lambda>ev. ev = Ev_ConfigurationChanged) (obs_events obs)
        \<or> (case obs_a11y obs of None \<Rightarrow> False | Some a \<Rightarrow> 0 < at_node_count a))"

definition observation_selector_matches :: "Observation \<Rightarrow> ustr \<Rightarrow> bool" where
  "observation_selector_matches obs selector =
     (case obs_a11y obs of None \<Rightarrow> False | Some a11y \<Rightarrow> contains (at_json a11y) selector)"

definition observation_contains_event_kind :: "Observation \<Rightarrow> EventKind \<Rightarrow> bool" where
  "observation_contains_event_kind obs kind = list_ex (\<lambda>ev. from_event ev = Some kind) (obs_events obs)"

definition outcome :: "bool \<Rightarrow> PredicateOutcome" where
  "outcome b = (if b then Matched else NoMatch)"

primrec evaluate :: "Predicate \<Rightarrow> Observation \<Rightarrow> PredicateOutcome" where
  "evaluate (P_TextAppears text node t) obs = outcome (observation_contains_text obs text)"
| "evaluate (P_Activity component t) obs = outcome (observation_activity_matches obs component)"
| "evaluate (P_SceneStable d t) obs = outcome (observation_has_scene_stable_event obs d t)"
| "evaluate (P_A11yIdle d t) obs = outcome (observation_has_a11y_idle_event obs d t)"
| "evaluate (P_SelectorMatches selector t) obs = outcome (observation_selector_matches obs selector)"
| "evaluate (P_EventFires kind t) obs = outcome (observation_contains_event_kind obs kind)"

section \<open>The engine\<close>

record RegisteredPredicate =
  rp_handle :: PredicateHandle
  rp_predicate :: Predicate

record PredicateEngine =
  pe_predicates :: "(PredicateHandle \<times> RegisteredPredicate) list"
  pe_next_handle :: u64
  pe_registered_count :: u32

definition predicate_engine_new :: PredicateEngine where
  "predicate_engine_new = \<lparr>pe_predicates = [], pe_next_handle = 0, pe_registered_count = 0\<rparr>"

definition register :: "Predicate \<Rightarrow> PredicateEngine \<Rightarrow> PredicateHandle \<times> PredicateEngine" where
  "register p e =
     (let handle = pe_next_handle e
      in (handle, e\<lparr>pe_next_handle := pe_next_handle e + 1,
            pe_predicates := hm_insert handle \<lparr>rp_handle = handle, rp_predicate = p\<rparr> (pe_predicates e),
            pe_registered_count :=
              (if pe_registered_count e = - 1 then - 1 else pe_registered_count e + 1)\<rparr>))"

definition cancel :: "PredicateHandle \<Rightarrow> PredicateEngine \<Rightarrow> bool \<times> PredicateEngine" where
  "cancel handle e =
     (let removed = (map_of (pe_predicates e) handle \<noteq> None);
          e = e\<lparr>pe_predicates := hm_remove handle (pe_predicates e)\<rparr>
      in (removed, if removed
                   then e\<lparr>pe_registered_count :=
                          (if pe_registered_count e = 0 then 0 else pe_registered_count e - 1)\<rparr>
                   else e))"

definition predicates_clear :: "PredicateEngine \<Rightarrow> PredicateEngine" where
  "predicates_clear e = e\<lparr>pe_predicates := [], pe_registered_count := 0\<rparr>"

definition on_observation :: "PredicateEngine \<Rightarrow> Observation \<Rightarrow> (PredicateHandle \<times> PredicateOutcome) list" where
  "on_observation e obs = map (\<lambda>(handle, reg). (handle, evaluate (rp_predicate reg) obs)) (pe_predicates e)"

definition on_event_kind :: "PredicateEngine \<Rightarrow> EventKind \<Rightarrow> (PredicateHandle \<times> PredicateOutcome) list" where
  "on_event_kind e kind =
     map (\<lambda>(handle, reg). (handle, case rp_predicate reg of
            P_EventFires want t \<Rightarrow> (if want = kind then Matched else NoMatch)
          | _ \<Rightarrow> NoMatch)) (pe_predicates e)"

definition matched_in :: "PredicateHandle \<Rightarrow> (PredicateHandle \<times> PredicateOutcome) list \<Rightarrow> bool" where
  "matched_in handle results \<longleftrightarrow> list_ex (\<lambda>(h, o'). h = handle \<and> o' = Matched) results"

text \<open>The answer for a handle does not depend on the iteration order of the map.\<close>

lemma matched_in_iff:
  assumes "distinct (map fst (pe_predicates e))"
  shows "matched_in handle (on_observation e obs)
    \<longleftrightarrow> (\<exists>reg. map_of (pe_predicates e) handle = Some reg \<and> evaluate (rp_predicate reg) obs = Matched)"
proof -
  have "matched_in handle (on_observation e obs)
      \<longleftrightarrow> (\<exists>reg. (handle, reg) \<in> set (pe_predicates e) \<and> evaluate (rp_predicate reg) obs = Matched)"
    by (force simp: matched_in_def on_observation_def list_ex_iff)
  then show ?thesis
    by (simp add: map_of_eq_Some_iff assms)
qed

text \<open>The fast path agrees with the full evaluation on an observation with that one event.\<close>

lemma fast_path_agrees:
  assumes "(handle, Matched) \<in> set (on_event_kind e kind)" "obs_events obs = [ev]" "from_event ev = Some kind"
  shows "(handle, Matched) \<in> set (on_observation e obs)"
proof -
  obtain reg where r: "(handle, reg) \<in> set (pe_predicates e)"
    and "(case rp_predicate reg of P_EventFires want t \<Rightarrow> if want = kind then Matched else NoMatch | _ \<Rightarrow> NoMatch) = Matched"
    using assms(1) by (auto simp: on_event_kind_def)
  then have "evaluate (rp_predicate reg) obs = Matched"
    using assms(2,3) by (cases "rp_predicate reg")
      (auto simp: outcome_def observation_contains_event_kind_def split: if_splits)
  then show ?thesis
    using r by (force simp: on_observation_def)
qed

text \<open>A handle that is free; registering it and cancelling it leaves everything but the counter.\<close>

definition handle_free :: "PredicateEngine \<Rightarrow> bool" where
  "handle_free e \<longleftrightarrow> pe_next_handle e \<notin> fst ` set (pe_predicates e)
     \<and> distinct (map fst (pe_predicates e)) \<and> pe_registered_count e \<noteq> - 1"

lemma register_cancel:
  assumes "handle_free e" "register p e = (handle, e1)"
  shows "cancel handle e1 = (True, e\<lparr>pe_next_handle := pe_next_handle e + 1\<rparr>)"
proof -
  have "pe_registered_count e + 1 \<noteq> 0"
    using assms(1) unfolding handle_free_def by (metis add_diff_cancel diff_0)
  then show ?thesis
    using assms by (auto simp: handle_free_def register_def cancel_def Let_def hm_remove_insert_fresh)
qed

lemma register_matched:
  assumes "handle_free e" "register p e = (handle, e1)"
  shows "matched_in handle (on_observation e1 obs) \<longleftrightarrow> evaluate p obs = Matched"
proof -
  have "distinct (map fst (pe_predicates e1))" "map_of (pe_predicates e1) handle = Some \<lparr>rp_handle = handle, rp_predicate = p\<rparr>"
    using assms by (auto simp: handle_free_def register_def Let_def)
  then show ?thesis
    by (simp add: matched_in_iff)
qed

text \<open>From a new engine, every registration has its own handle until 2^64 have been made.\<close>

datatype engine_op = Register Predicate | Cancel PredicateHandle | Clear

primrec engine_step :: "engine_op \<Rightarrow> PredicateEngine \<Rightarrow> PredicateEngine" where
  "engine_step (Register p) e = snd (register p e)"
| "engine_step (Cancel h) e = snd (cancel h e)"
| "engine_step Clear e = predicates_clear e"

definition engine_inv :: "nat \<Rightarrow> PredicateEngine \<Rightarrow> bool" where
  "engine_inv n e \<longleftrightarrow> pe_next_handle e = of_nat n
     \<and> (\<forall>h \<in> fst ` set (pe_predicates e). unat h < n)
     \<and> distinct (map fst (pe_predicates e))
     \<and> (\<forall>(h, reg) \<in> set (pe_predicates e). rp_handle reg = h)
     \<and> length (pe_predicates e) \<le> n \<and> pe_registered_count e = of_nat (length (pe_predicates e))"

lemma length_hm_remove:
  "distinct (map fst m) \<Longrightarrow> length (hm_remove h m) = (if h \<in> fst ` set m then length m - 1 else length m)"
proof (induction m)
  case (Cons a m)
  have "a \<in> set m \<Longrightarrow> 0 < length m" for a :: "'a \<times> 'b"
    by (cases m) auto
  then show ?case
    using Cons by (cases a) (auto simp: hm_remove_fresh)
qed simp

lemma engine_inv_step:
  assumes "engine_inv n e" "n < 2 ^ 32 - 1"
  shows "engine_inv (case opr of Register p \<Rightarrow> Suc n | _ \<Rightarrow> n) (engine_step opr e)"
proof (cases opr)
  case (Register p)
  have l: "length (pe_predicates e) < 2 ^ 32 - 1"
    using assms by (simp add: engine_inv_def)
  have "unat (of_nat n :: u64) = n"
    using assms(2) by (simp add: unat_of_nat)
  then have f: "of_nat n \<notin> fst ` set (pe_predicates e)"
    using assms(1) by (force simp: engine_inv_def)
  have "unat (of_nat (length (pe_predicates e)) :: u32) = length (pe_predicates e)"
    using l by (simp add: unat_of_nat)
  then have "(of_nat (length (pe_predicates e)) :: u32) \<noteq> - 1"
    using l by (auto simp: unsigned_minus_1_eq_mask mask_eq_exp_minus_1)
  then show ?thesis
    using assms f \<open>unat (of_nat n :: u64) = n\<close> Register
    by (auto simp: engine_inv_def register_def Let_def hm_insert_fresh intro: less_SucI)
next
  case (Cancel h)
  have "unat (of_nat (length (pe_predicates e)) :: u32) = length (pe_predicates e)"
    using assms by (simp add: unat_of_nat engine_inv_def)
  then have "(of_nat (length (pe_predicates e)) :: u32) = 0 \<longleftrightarrow> pe_predicates e = []"
    by (metis length_0_conv unat_eq_zero unsigned_0)
  then show ?thesis
    using assms(1) Cancel
    by (cases "h \<in> fst ` set (pe_predicates e)"; cases "pe_predicates e")
      (auto simp: engine_inv_def cancel_def Let_def set_hm_remove length_hm_remove map_of_eq_None_iff
        simp del: delete_simps)
qed (use assms in \<open>auto simp: engine_inv_def predicates_clear_def\<close>)

lemma engine_inv_new: "engine_inv 0 predicate_engine_new"
  by (simp add: engine_inv_def predicate_engine_new_def)

lemma engine_inv_free:
  assumes "engine_inv n e" "n < 2 ^ 32 - 1"
  shows "handle_free e"
proof -
  have "unat (of_nat n :: u64) = n" "unat (of_nat (length (pe_predicates e)) :: u32) = length (pe_predicates e)"
    using assms by (simp_all add: unat_of_nat engine_inv_def)
  then show ?thesis
    using assms by (force simp: handle_free_def engine_inv_def unsigned_minus_1_eq_mask mask_eq_exp_minus_1)
qed

section \<open>What a host delivers\<close>

type_synonym 'd drain = "'d \<Rightarrow> Observation option \<times> 'd"

text \<open>\<open>drains drain d os d'\<close>: the next reads of the host return \<open>os\<close> and leave it in \<open>d'\<close>.\<close>

fun drains :: "'d drain \<Rightarrow> 'd \<Rightarrow> Observation list \<Rightarrow> 'd \<Rightarrow> bool" where
  "drains drain d [] d' \<longleftrightarrow> d' = d"
| "drains drain d (obs # os) d' \<longleftrightarrow> fst (drain d) = Some obs \<and> drains drain (snd (drain d)) os d'"

definition produce_all :: "Observation list \<Rightarrow> StreamEngine \<Rightarrow> StreamEngine" where
  "produce_all os se = fold (\<lambda>obs se. snd (produce (\<lambda>_. obs) se)) os se"

lemma produce_all_simps [simp]:
  "produce_all [] se = se"
  "produce_all (obs # os) se = produce_all os (snd (produce (\<lambda>_. obs) se))"
  by (simp_all add: produce_all_def)

lemma drains_snoc:
  "drains drain d (os @ [obs]) d' \<longleftrightarrow>
     (\<exists>d1. drains drain d os d1 \<and> drain d1 = (Some obs, d'))"
  by (induction os arbitrary: d) (auto simp: prod_eq_iff)

section \<open>\<open>wait_for_predicate\<close> of the plan executor\<close>

datatype WaitStatus = WS_Matched | WS_Closed

partial_function (option) wait_loop ::
    "PredicateHandle \<Rightarrow> 'd drain \<Rightarrow> PredicateEngine \<Rightarrow> StreamEngine \<Rightarrow> 'd
     \<Rightarrow> (WaitStatus \<times> PredicateEngine \<times> StreamEngine \<times> 'd) option" where
  "wait_loop handle drain pe se d =
     (case drain d of
        (None, d) \<Rightarrow> Some (WS_Closed, snd (cancel handle pe), se, d)
      | (Some obs, d) \<Rightarrow>
          (let se = snd (produce (\<lambda>_. obs) se) in
           if matched_in handle (on_observation pe obs)
           then Some (WS_Matched, snd (cancel handle pe), se, d)
           else wait_loop handle drain pe se d))"

definition wait_for_predicate ::
    "Predicate \<Rightarrow> PredicateEngine \<Rightarrow> StreamEngine \<Rightarrow> 'd drain \<Rightarrow> 'd
     \<Rightarrow> (WaitStatus \<times> PredicateEngine \<times> StreamEngine \<times> 'd) option" where
  "wait_for_predicate p pe se drain d =
     (let (handle, pe) = register p pe in wait_loop handle drain pe se d)"

text \<open>The end of a wait: \<open>os\<close> are the observations read before the one that ended it.\<close>

definition wait_end ::
    "Predicate \<Rightarrow> 'd drain \<Rightarrow> 'd \<Rightarrow> StreamEngine \<Rightarrow> Observation list \<Rightarrow> WaitStatus \<Rightarrow> StreamEngine \<Rightarrow> 'd \<Rightarrow> bool" where
  "wait_end p drain d se os st se' d' \<longleftrightarrow>
     (\<forall>obs\<in>set os. evaluate p obs = NoMatch)
     \<and> (\<exists>d1. drains drain d os d1 \<and> (case st of
          WS_Closed \<Rightarrow> drain d1 = (None, d') \<and> se' = produce_all os se
        | WS_Matched \<Rightarrow> (\<exists>obs. drain d1 = (Some obs, d') \<and> evaluate p obs = Matched
            \<and> se' = produce_all (os @ [obs]) se)))"

lemma not_matched: "evaluate p obs \<noteq> Matched \<longleftrightarrow> evaluate p obs = NoMatch"
  by (cases "evaluate p obs") auto

lemma wait_end_Nil:
  "wait_end p drain d se [] st se' d' \<longleftrightarrow> (case st of
     WS_Closed \<Rightarrow> drain d = (None, d') \<and> se' = se
   | WS_Matched \<Rightarrow> (\<exists>obs. drain d = (Some obs, d') \<and> evaluate p obs = Matched \<and> se' = snd (produce (\<lambda>_. obs) se)))"
  by (auto simp: wait_end_def split: WaitStatus.splits)

lemma wait_end_Cons:
  "wait_end p drain d se (obs # os) st se' d' \<longleftrightarrow>
     fst (drain d) = Some obs \<and> evaluate p obs = NoMatch
     \<and> wait_end p drain (snd (drain d)) (snd (produce (\<lambda>_. obs) se)) os st se' d'"
  by (auto simp: wait_end_def split: WaitStatus.splits)

lemma wait_loop_complete:
  assumes "\<And>obs. matched_in handle (on_observation pe obs) \<longleftrightarrow> evaluate p obs = Matched"
  shows "wait_end p drain d se os st se' d' \<Longrightarrow>
    wait_loop handle drain pe se d = Some (st, snd (cancel handle pe), se', d')"
proof (induction os arbitrary: d se)
  case Nil
  then show ?case
    by (subst wait_loop.simps) (auto simp: wait_end_Nil assms Let_def split: WaitStatus.splits)
next
  case (Cons obs os)
  then have "drain d = (Some obs, snd (drain d))"
    by (auto simp: wait_end_Cons prod_eq_iff)
  then show ?case
    using Cons.IH [of "snd (drain d)" "snd (produce (\<lambda>_. obs) se)"] Cons.prems
    by (subst wait_loop.simps, cases "drain d") (simp add: wait_end_Cons assms Let_def)
qed

lemma wait_loop_sound:
  assumes "wait_loop handle drain pe se d = Some r"
    and m: "\<And>obs. matched_in handle (on_observation pe obs) \<longleftrightarrow> evaluate p obs = Matched"
  shows "\<exists>os st se' d'. r = (st, snd (cancel handle pe), se', d') \<and> wait_end p drain d se os st se' d'"
proof -
  let ?m = "\<lambda>handle pe. \<forall>obs. matched_in handle (on_observation pe obs) \<longleftrightarrow> evaluate p obs = Matched"
  let ?P = "\<lambda>handle drain pe se d r.
    \<exists>os st se' d'. r = (st, snd (cancel handle pe), se', d') \<and> wait_end p drain d se os st se' d'"
  have "?m handle pe \<longrightarrow> ?P handle drain pe se d r"
  proof (rule wait_loop.raw_induct [where P = "\<lambda>handle drain pe se d r. ?m handle pe \<longrightarrow> ?P handle drain pe se d r",
        OF _ assms(1)], rule impI)
    fix wl handle drain pe se d r
    assume IH: "\<And>handle drain pe se d r. wl handle drain pe se d = Some r \<Longrightarrow> ?m handle pe \<longrightarrow> ?P handle drain pe se d r"
      and step: "(case drain d of
         (None, d) \<Rightarrow> Some (WS_Closed, snd (cancel handle pe), se, d)
       | (Some obs, d) \<Rightarrow>
           (let se = snd (produce (\<lambda>_. obs) se) in
            if matched_in handle (on_observation pe obs)
            then Some (WS_Matched, snd (cancel handle pe), se, d)
            else wl handle drain pe se d)) = Some r"
      and m: "?m handle pe"
    obtain o' d1 where d: "drain d = (o', d1)"
      by force
    show "?P handle drain pe se d r"
    proof (cases o')
      case None
      then show ?thesis
        using step d by (intro exI [of _ "[]"]) (auto simp: wait_end_Nil)
    next
      case (Some obs)
      show ?thesis
      proof (cases "evaluate p obs")
        case Matched
        then show ?thesis
          using step d Some m by (intro exI [of _ "[]"] exI [of _ WS_Matched]) (auto simp: wait_end_Nil Let_def)
      next
        case NoMatch
        then have "wl handle drain pe (snd (produce (\<lambda>_. obs) se)) d1 = Some r"
          using step d Some m by (auto simp: Let_def)
        from IH [OF this] m obtain os st se' d' where
          "r = (st, snd (cancel handle pe), se', d')"
          "wait_end p drain d1 (snd (produce (\<lambda>_. obs) se)) os st se' d'"
          by blast
        then show ?thesis
          using d Some NoMatch by (intro exI [of _ "obs # os"]) (auto simp: wait_end_Cons)
      qed
    qed
  qed
  then show ?thesis
    using m by blast
qed

text \<open>A wait returns iff the host closes or delivers a match after finitely many observations; it then
  has produced exactly what it read, and has taken its predicate back.\<close>

theorem wait_for_predicate_exact:
  assumes "handle_free pe"
  shows "wait_for_predicate p pe se drain d = Some (st, pe', se', d')
    \<longleftrightarrow> pe' = pe\<lparr>pe_next_handle := pe_next_handle pe + 1\<rparr> \<and> (\<exists>os. wait_end p drain d se os st se' d')"
proof -
  obtain handle pe1 where r: "register p pe = (handle, pe1)"
    by force
  note m = register_matched [OF assms r]
  note c = register_cancel [OF assms r]
  show ?thesis
    using wait_loop_complete [of handle pe1 p drain d se _ st se' d', OF m]
      wait_loop_sound [of handle drain pe1 se d "(st, pe', se', d')" p, OF _ m] c
    unfolding wait_for_predicate_def r by auto
qed

section \<open>\<open>wait_for\<close> with a deadline\<close>

datatype WaitOutcome = WO_Matched nat | WO_Timeout nat | WO_StreamClosed nat

partial_function (option) wait_for_loop ::
    "PredicateHandle \<Rightarrow> 'd drain \<Rightarrow> (nat \<Rightarrow> nat) \<Rightarrow> nat \<Rightarrow> PredicateEngine \<Rightarrow> nat \<Rightarrow> StreamEngine \<Rightarrow> 'd
     \<Rightarrow> (WaitOutcome \<times> PredicateEngine \<times> StreamEngine \<times> 'd) option" where
  "wait_for_loop handle produce_one clock deadline pe k se d =
     (case produce_one d of
        (None, d) \<Rightarrow> Some (WO_StreamClosed (clock k - clock 0), snd (cancel handle pe), se, d)
      | (Some obs, d) \<Rightarrow>
          (let se = snd (produce (\<lambda>_. obs) se) in
           if matched_in handle (on_observation pe obs)
           then Some (WO_Matched (clock k - clock 0), snd (cancel handle pe), se, d)
           else if deadline \<le> clock k
           then Some (WO_Timeout (clock (Suc k) - clock 0), snd (cancel handle pe), se, d)
           else wait_for_loop handle produce_one clock deadline pe (Suc k) se d))"

definition wait_for ::
    "Predicate \<Rightarrow> PredicateEngine \<Rightarrow> StreamEngine \<Rightarrow> nat \<Rightarrow> (nat \<Rightarrow> nat) \<Rightarrow> 'd drain \<Rightarrow> 'd
     \<Rightarrow> (WaitOutcome \<times> PredicateEngine \<times> StreamEngine \<times> 'd) option" where
  "wait_for p pe se timeout clock produce_one d =
     (let start = clock 0; (handle, pe) = register p pe; deadline = start + timeout
      in wait_for_loop handle produce_one clock deadline pe 1 se d)"

text \<open>The end of a wait with a deadline: \<open>os\<close> did not match and were read before the deadline; then the
  host closed, or a match came (late or not), or a non-match with the deadline over.\<close>

definition wait_for_end ::
    "Predicate \<Rightarrow> 'd drain \<Rightarrow> (nat \<Rightarrow> nat) \<Rightarrow> nat \<Rightarrow> nat \<Rightarrow> StreamEngine \<Rightarrow> 'd \<Rightarrow> Observation list
     \<Rightarrow> WaitOutcome \<Rightarrow> StreamEngine \<Rightarrow> 'd \<Rightarrow> bool" where
  "wait_for_end p produce_one clock deadline k se d os out se' d' \<longleftrightarrow>
     (\<forall>obs\<in>set os. evaluate p obs = NoMatch) \<and> (\<forall>i<length os. clock (k + i) < deadline)
     \<and> (\<exists>d1. drains produce_one d os d1 \<and> (case out of
          WO_StreamClosed t \<Rightarrow> produce_one d1 = (None, d') \<and> se' = produce_all os se
            \<and> t = clock (k + length os) - clock 0
        | WO_Matched t \<Rightarrow> (\<exists>obs. produce_one d1 = (Some obs, d') \<and> evaluate p obs = Matched
            \<and> se' = produce_all (os @ [obs]) se \<and> t = clock (k + length os) - clock 0)
        | WO_Timeout t \<Rightarrow> (\<exists>obs. produce_one d1 = (Some obs, d') \<and> evaluate p obs = NoMatch
            \<and> deadline \<le> clock (k + length os)
            \<and> se' = produce_all (os @ [obs]) se \<and> t = clock (k + length os + 1) - clock 0)))"

lemma wait_for_end_Cons:
  assumes "produce_one d = (Some obs, d1)" "evaluate p obs = NoMatch" "clock k < deadline"
    and "wait_for_end p produce_one clock deadline (Suc k) (snd (produce (\<lambda>_. obs) se)) d1 os out se' d'"
  shows "wait_for_end p produce_one clock deadline k se d (obs # os) out se' d'"
proof -
  have "\<forall>i<length (obs # os). clock (k + i) < deadline"
  proof (intro allI impI)
    fix i assume "i < length (obs # os)"
    then show "clock (k + i) < deadline"
      using assms(3,4) by (cases i) (auto simp: wait_for_end_def)
  qed
  then show ?thesis
    using assms by (cases out) (auto simp: wait_for_end_def)
qed

lemma wait_for_loop_returns:
  assumes m: "\<And>obs. matched_in handle (on_observation pe obs) \<longleftrightarrow> evaluate p obs = Matched"
    and "deadline \<le> clock (k + n)"
  shows "\<exists>os out se' d'. wait_for_loop handle produce_one clock deadline pe k se d
      = Some (out, snd (cancel handle pe), se', d')
    \<and> wait_for_end p produce_one clock deadline k se d os out se' d' \<and> length os \<le> n"
  using assms(2)
proof (induction n arbitrary: k se d)
  case 0
  obtain o' d1 where d: "produce_one d = (o', d1)"
    by force
  then show ?case
    using 0 m by (subst wait_for_loop.simps, cases o'; cases "evaluate p (the o')")
      (auto simp: wait_for_end_def Let_def)
next
  case (Suc n)
  obtain o' d1 where d: "produce_one d = (o', d1)"
    by force
  show ?case
  proof (cases "o' = None \<or> (\<exists>obs. o' = Some obs \<and> (evaluate p obs = Matched \<or> deadline \<le> clock k))")
    case True
    then show ?thesis
      using d m by (subst wait_for_loop.simps, intro exI [of _ "[]"], cases "evaluate p (the o')")
        (auto simp: wait_for_end_def Let_def)
  next
    case False
    then obtain obs where obs: "o' = Some obs" "evaluate p obs = NoMatch" "clock k < deadline"
      by (cases o') (auto simp: not_matched)
    obtain os out se' d' where "wait_for_loop handle produce_one clock deadline pe (Suc k) (snd (produce (\<lambda>_. obs) se)) d1
        = Some (out, snd (cancel handle pe), se', d')"
      and "wait_for_end p produce_one clock deadline (Suc k) (snd (produce (\<lambda>_. obs) se)) d1 os out se' d'" "length os \<le> n"
      using Suc.IH [of "Suc k" "snd (produce (\<lambda>_. obs) se)" d1] Suc.prems by auto
    then show ?thesis
      using d obs m wait_for_end_Cons [of produce_one d obs d1 p clock k deadline se os out se' d']
      by (subst wait_for_loop.simps, intro exI [of _ "obs # os"]) (auto simp: Let_def)
  qed
qed

text \<open>
  C26. Waiting with a deadline, for every host and every clock that gets past the deadline by its
  \<open>k\<close>-th reading: the wait returns after at most \<open>k\<close> observations, with the outcome that the observations
  and the clock determine; every observation read went to the stream, in order; the engine is as
  before, the handle counter apart. A match that arrives after the deadline still counts.
\<close>

theorem wait_for_returns:
  assumes "handle_free pe" "1 \<le> k" "clock 0 + timeout \<le> clock k"
  shows "\<exists>os out se' d'.
    wait_for p pe se timeout clock produce_one d
      = Some (out, pe\<lparr>pe_next_handle := pe_next_handle pe + 1\<rparr>, se', d')
    \<and> wait_for_end p produce_one clock (clock 0 + timeout) 1 se d os out se' d' \<and> length os < k"
proof -
  obtain handle pe1 where r: "register p pe = (handle, pe1)"
    by force
  show ?thesis
    using wait_for_loop_returns [of handle pe1 p "clock 0 + timeout" clock 1 "k - 1" produce_one se d,
        OF register_matched [OF assms(1) r]]
      register_cancel [OF assms(1) r] assms(2,3)
    by (fastforce simp: wait_for_def r Let_def)
qed

theorem wait_for_returns_witness:
  "\<exists>os out se' d'.
    wait_for (P_EventFires EK_ClipboardChanged 5) predicate_engine_new stream_new 5 (\<lambda>k. 3 * k)
      (\<lambda>n. (Some (observation_default\<lparr>obs_events := [Ev_Uptime n]\<rparr>), n + 1)) 7
      = Some (out, predicate_engine_new\<lparr>pe_next_handle := pe_next_handle predicate_engine_new + 1\<rparr>, se', d')
    \<and> length (os :: Observation list) < 2"
proof -
  have h: "handle_free predicate_engine_new" "1 \<le> (2 :: nat)" "(\<lambda>k. 3 * k) 0 + 5 \<le> (\<lambda>k. 3 * k) (2 :: nat)"
    by (simp_all add: handle_free_def predicate_engine_new_def)
  show ?thesis
    using wait_for_returns [OF h, of "P_EventFires EK_ClipboardChanged 5" stream_new
        "\<lambda>n. (Some (observation_default\<lparr>obs_events := [Ev_Uptime n]\<rparr>), n + 1)" 7]
    by blast
qed

text \<open>A match read after the deadline is reported as a match, with an elapsed time above the timeout.\<close>

lemma late_match:
  "wait_for (P_EventFires EK_ClipboardChanged 5) predicate_engine_new stream_new 5 (\<lambda>k. 100 * k)
     (\<lambda>u. (Some (observation_default\<lparr>obs_events := [Ev_ClipboardChanged]\<rparr>), u)) ()
   = Some (WO_Matched 100, predicate_engine_new\<lparr>pe_next_handle := 1\<rparr>,
       produce_all [observation_default\<lparr>obs_events := [Ev_ClipboardChanged]\<rparr>] stream_new, ())"
  by (simp add: wait_for_def predicate_engine_new_def register_def wait_for_loop.simps matched_in_def
      on_observation_def outcome_def observation_contains_event_kind_def cancel_def Let_def)

end
