(* ===== verification/Kernel_Plan.thy ===== *)
theory Kernel_Plan
  imports Kernel_Predicates
begin

text \<open>
  The plan executor (\<^verbatim>\<open>plan_executor.rs\<close>). The host's two closures, the one that performs an action and
  the one that delivers observations, are parameters over one host state; a value \<open>None\<close> of
  \<open>execute\<close> is a wait that never ends. The executor is the code's loop, one definition per numbered
  phase of its body.
\<close>

section \<open>The executor\<close>

datatype PlanFailure =
    WaitBeforeTimeout (failure_index: u32) (failure_step: StepId) "ustr option"
  | VerifyAfterMismatch (failure_index: u32) (failure_step: StepId) "ustr option"
  | ActionRefused (failure_index: u32) (failure_step: StepId) ustr
  | PlanCancelled (failure_index: u32) (failure_step: StepId)

primrec failure_label :: "PlanFailure \<Rightarrow> string" where
  "failure_label (WaitBeforeTimeout _ _ _) = ''wait-before-timeout''"
| "failure_label (VerifyAfterMismatch _ _ _) = ''verify-after-mismatch''"
| "failure_label (ActionRefused _ _ _) = ''action-refused''"
| "failure_label (PlanCancelled _ _) = ''cancelled''"

record ExecutorCounters =
  ec_landed :: u32
  ec_aborted :: u32
  ec_skipped :: u32
  ec_checkpoints :: u32

definition counters_default :: ExecutorCounters where
  "counters_default = \<lparr>ec_landed = 0, ec_aborted = 0, ec_skipped = 0, ec_checkpoints = 0\<rparr>"

type_synonym 'd actor = "Action \<Rightarrow> 'd \<Rightarrow> (ustr + ActionResult) \<times> 'd"

text \<open>The local variables of \<open>execute\<close>, the two engines it borrows and the state of the host.\<close>

record 'd exec_state =
  xs_predicates :: PredicateEngine
  xs_stream :: StreamEngine
  xs_host :: 'd
  xs_steps :: "StepResult list"
  xs_counters :: ExecutorCounters
  xs_final_obs :: Observation

definition wait_phase ::
    "'d drain \<Rightarrow> nat \<Rightarrow> PlanStep \<Rightarrow> 'd exec_state \<Rightarrow> (PlanFailure option \<times> 'd exec_state) option" where
  "wait_phase drain i step s =
     (case st_wait_before step of
        None \<Rightarrow> Some (None, s)
      | Some p \<Rightarrow> (case wait_for_predicate p (xs_predicates s) (xs_stream s) drain (xs_host s) of
            None \<Rightarrow> None
          | Some (status, pe, se, d) \<Rightarrow>
              (let s = s\<lparr>xs_predicates := pe, xs_stream := se, xs_host := d\<rparr> in
               Some (case status of
                   WS_Matched \<Rightarrow> None
                 | WS_Closed \<Rightarrow> Some (WaitBeforeTimeout (of_nat i) (st_id step) (st_label step)), s))))"

definition refused_record :: "nat \<Rightarrow> PlanStep \<Rightarrow> ustr \<Rightarrow> StepResult" where
  "refused_record i step reason =
     \<lparr>sr_step_id = st_id step, sr_index = of_nat i,
      sr_action_result = action_result_default\<lparr>ar_id := 0, ar_landed := False,
        ar_ground_truth := ground_truth_default, ar_elapsed_ms := 0\<rparr>,
      sr_landed = False, sr_error = Some reason\<rparr>"

definition refuse_phase ::
    "bool \<Rightarrow> nat \<Rightarrow> PlanStep \<Rightarrow> ustr \<Rightarrow> 'd exec_state \<Rightarrow> PlanFailure option \<times> 'd exec_state" where
  "refuse_phase abort_on_error i step reason s =
     (if abort_on_error then (Some (ActionRefused (of_nat i) (st_id step) reason), s)
      else (None, s\<lparr>xs_steps := xs_steps s @ [refused_record i step reason],
             xs_counters := (xs_counters s)\<lparr>ec_aborted := ec_aborted (xs_counters s) + 1,
                                            ec_skipped := ec_skipped (xs_counters s) + 0\<rparr>\<rparr>))"

definition drain_phase :: "'d drain \<Rightarrow> 'd exec_state \<Rightarrow> 'd exec_state" where
  "drain_phase drain s =
     (case drain (xs_host s) of
        (None, d) \<Rightarrow> s\<lparr>xs_host := d\<rparr>
      | (Some obs, d) \<Rightarrow> s\<lparr>xs_host := d, xs_stream := snd (produce (\<lambda>_. obs) (xs_stream s)), xs_final_obs := obs\<rparr>)"

definition verify_phase ::
    "nat \<Rightarrow> PlanStep \<Rightarrow> 'd exec_state \<Rightarrow> PlanFailure option \<times> 'd exec_state" where
  "verify_phase i step s =
     (case st_verify_after step of
        None \<Rightarrow> (None, s)
      | Some p \<Rightarrow>
          (let (handle, pe) = register p (xs_predicates s);
               matched = matched_in handle (on_observation pe (xs_final_obs s));
               s = s\<lparr>xs_predicates := snd (cancel handle pe)\<rparr>
           in (if matched then None else Some (VerifyAfterMismatch (of_nat i) (st_id step) (st_label step)), s)))"

definition record_phase :: "nat \<Rightarrow> PlanStep \<Rightarrow> ActionResult \<Rightarrow> 'd exec_state \<Rightarrow> 'd exec_state" where
  "record_phase i step r s =
     (let landed = ar_landed r; c = xs_counters s in
      s\<lparr>xs_steps := xs_steps s @ [\<lparr>sr_step_id = st_id step, sr_index = of_nat i, sr_action_result = r,
                                   sr_landed = landed, sr_error = None\<rparr>],
        xs_counters := (if landed then c\<lparr>ec_landed := ec_landed c + 1\<rparr>
                        else c\<lparr>ec_aborted := ec_aborted c + 1\<rparr>)\<rparr>)"

definition checkpoint_phase :: "u32 \<Rightarrow> PlanId \<Rightarrow> 'd exec_state \<Rightarrow> 'd exec_state" where
  "checkpoint_phase checkpoint_every pid s =
     (let c = xs_counters s in
      if 0 < checkpoint_every \<and> ec_landed c mod checkpoint_every = 0
      then let obs = (xs_final_obs s)\<lparr>obs_events := obs_events (xs_final_obs s) @ [Ev_PlanCompleted pid False 0]\<rparr>
           in s\<lparr>xs_stream := snd (produce (\<lambda>_. obs) (xs_stream s)),
                xs_counters := c\<lparr>ec_checkpoints := ec_checkpoints c + 1\<rparr>\<rparr>
      else s)"

definition exec_step ::
    "'d actor \<Rightarrow> 'd drain \<Rightarrow> bool \<Rightarrow> u32 \<Rightarrow> PlanId \<Rightarrow> nat \<Rightarrow> PlanStep \<Rightarrow> 'd exec_state
     \<Rightarrow> (PlanFailure option \<times> 'd exec_state) option" where
  "exec_step act drain abort_on_error checkpoint_every pid i step s =
     (case wait_phase drain i step s of
        None \<Rightarrow> None
      | Some (Some failure, s) \<Rightarrow> Some (Some failure, s)
      | Some (None, s) \<Rightarrow> Some (case act (st_action step) (xs_host s) of
            (Inl reason, d) \<Rightarrow> refuse_phase abort_on_error i step reason (s\<lparr>xs_host := d\<rparr>)
          | (Inr r, d) \<Rightarrow> (case verify_phase i step (drain_phase drain (s\<lparr>xs_host := d\<rparr>)) of
                (Some failure, s) \<Rightarrow> (Some failure, s)
              | (None, s) \<Rightarrow>
                  (let s = checkpoint_phase checkpoint_every pid (record_phase i step r s) in
                   if \<not> ar_landed r \<and> abort_on_error
                   then (Some (PlanCancelled (of_nat i) (st_id step)), s) else (None, s)))))"

fun exec_steps ::
    "'d actor \<Rightarrow> 'd drain \<Rightarrow> bool \<Rightarrow> u32 \<Rightarrow> PlanId \<Rightarrow> nat \<Rightarrow> PlanStep list \<Rightarrow> 'd exec_state
     \<Rightarrow> (PlanFailure option \<times> 'd exec_state) option" where
  "exec_steps act drain abort_on_error checkpoint_every pid i [] s = Some (None, s)"
| "exec_steps act drain abort_on_error checkpoint_every pid i (step # steps) s =
     (case exec_step act drain abort_on_error checkpoint_every pid i step s of
        None \<Rightarrow> None
      | Some (Some failure, s) \<Rightarrow> Some (Some failure, s)
      | Some (None, s) \<Rightarrow> exec_steps act drain abort_on_error checkpoint_every pid (Suc i) steps s)"

definition execute ::
    "Plan \<Rightarrow> PredicateEngine \<Rightarrow> StreamEngine \<Rightarrow> PlanId \<Rightarrow> 'd actor \<Rightarrow> 'd drain \<Rightarrow> 'd
     \<Rightarrow> (((PlanFailure \<times> StepResult list) + (PlanResult \<times> ExecutorCounters)) \<times> 'd exec_state) option" where
  "execute plan pe se pid act drain d =
     (case exec_steps act drain (plan_abort_on_error plan) (plan_checkpoint_every plan) pid 0 (plan_steps plan)
             \<lparr>xs_predicates = pe, xs_stream = se, xs_host = d, xs_steps = [],
              xs_counters = counters_default, xs_final_obs = observation_default\<rparr> of
        None \<Rightarrow> None
      | Some (Some failure, s) \<Rightarrow> Some (Inl (failure, xs_steps s), s)
      | Some (None, s) \<Rightarrow>
          (let s = drain_phase drain s in
           Some (Inr (\<lparr>pr_plan_id = pid, pr_steps = xs_steps s, pr_final_observation = xs_final_obs s,
                       pr_total_elapsed_ms = ec_landed (xs_counters s),
                       pr_all_landed = list_all sr_landed (xs_steps s)\<rparr>, xs_counters s), s)))"

section \<open>A host that keeps a log of the actions it is asked for\<close>

definition logged :: "'d actor \<Rightarrow> ('d \<times> Action list) actor" where
  "logged act a = (\<lambda>(d, acts). (fst (act a d), (snd (act a d), acts @ [a])))"

definition logged_drain :: "'d drain \<Rightarrow> ('d \<times> Action list) drain" where
  "logged_drain drain = (\<lambda>(d, acts). (fst (drain d), (snd (drain d), acts)))"

lemma logged_drain_log [simp]: "snd (snd (logged_drain drain h)) = snd h"
  by (simp add: logged_drain_def split_def)

lemma drains_logged: "drains (logged_drain drain) h os h' \<Longrightarrow> snd h' = snd h"
  by (induction os arbitrary: h) (auto simp: logged_drain_def split_def)

lemma wait_end_logged:
  assumes "wait_end p (logged_drain drain) h se os st se' h'"
  shows "snd h' = snd h"
proof -
  obtain d1 where "drains (logged_drain drain) h os d1" "h' = snd (logged_drain drain d1)"
    using assms by (cases st) (auto simp: wait_end_def)
  then show ?thesis
    by (simp add: drains_logged)
qed

section \<open>The phases\<close>

definition same_predicates :: "nat \<Rightarrow> nat \<Rightarrow> PredicateEngine \<Rightarrow> PredicateEngine \<Rightarrow> bool" where
  "same_predicates n k pe pe' \<longleftrightarrow>
     (\<exists>m. n \<le> m \<and> m \<le> n + k \<and> pe' = pe\<lparr>pe_next_handle := of_nat m\<rparr>)"

lemma same_predicates_refl: "engine_inv n pe \<Longrightarrow> same_predicates n k pe pe"
  unfolding same_predicates_def by (intro exI [of _ n]) (simp add: engine_inv_def)

lemma same_predicates_free:
  assumes "engine_inv n pe" "same_predicates n k pe pe'" "n + k < 2 ^ 32 - 1"
  shows "handle_free pe'"
proof -
  obtain m where m: "n \<le> m" "m \<le> n + k" "pe' = pe\<lparr>pe_next_handle := of_nat m\<rparr>"
    using assms(2) by (auto simp: same_predicates_def)
  then have "engine_inv m pe'"
    using assms(1) by (auto simp: engine_inv_def)
  then show ?thesis
    using engine_inv_free m(2) assms(3) by fastforce
qed

lemma same_predicates_bump:
  "same_predicates n k pe pe' \<Longrightarrow> same_predicates n (Suc k) pe (pe'\<lparr>pe_next_handle := pe_next_handle pe' + 1\<rparr>)"
  unfolding same_predicates_def by (elim exE) (rule_tac x = "Suc m" in exI, auto)

lemma same_predicates_mono: "same_predicates n k pe pe' \<Longrightarrow> k \<le> k' \<Longrightarrow> same_predicates n k' pe pe'"
  unfolding same_predicates_def by (metis add_left_mono order_trans)

lemma wait_phase_frame:
  assumes "wait_phase (logged_drain drain) i step s = Some (f, s')" "handle_free (xs_predicates s)"
  shows "xs_steps s' = xs_steps s \<and> xs_counters s' = xs_counters s \<and> snd (xs_host s') = snd (xs_host s)
    \<and> (xs_predicates s' = xs_predicates s
       \<or> xs_predicates s' = (xs_predicates s)\<lparr>pe_next_handle := pe_next_handle (xs_predicates s) + 1\<rparr>)
    \<and> (f = None \<or> f = Some (WaitBeforeTimeout (of_nat i) (st_id step) (st_label step)))"
proof (cases "st_wait_before step")
  case (Some p)
  then obtain st pe se d where w:
      "wait_for_predicate p (xs_predicates s) (xs_stream s) (logged_drain drain) (xs_host s) = Some (st, pe, se, d)"
    and s': "s' = s\<lparr>xs_predicates := pe, xs_stream := se, xs_host := d\<rparr>"
    and f: "f = (case st of WS_Matched \<Rightarrow> None | WS_Closed \<Rightarrow> Some (WaitBeforeTimeout (of_nat i) (st_id step) (st_label step)))"
    using assms(1) by (auto simp: wait_phase_def Let_def split: option.splits)
  from wait_for_predicate_exact [OF assms(2), THEN iffD1, OF w]
  have "snd d = snd (xs_host s)" "pe = (xs_predicates s)\<lparr>pe_next_handle := pe_next_handle (xs_predicates s) + 1\<rparr>"
    by (auto dest: wait_end_logged)
  then show ?thesis
    using s' f by (cases st) simp_all
qed (use assms in \<open>auto simp: wait_phase_def\<close>)

lemma drain_phase_frame:
  "xs_steps (drain_phase drain s) = xs_steps s" "xs_counters (drain_phase drain s) = xs_counters s"
  "xs_predicates (drain_phase drain s) = xs_predicates s"
  "snd (xs_host (drain_phase (logged_drain drain') s')) = snd (xs_host s')"
  by (auto simp: drain_phase_def logged_drain_def split_def split: option.splits prod.splits)

lemma verify_phase_frame:
  assumes "verify_phase i step s = (f, s')" "handle_free (xs_predicates s)"
  shows "xs_steps s' = xs_steps s \<and> xs_counters s' = xs_counters s \<and> xs_host s' = xs_host s
    \<and> (xs_predicates s' = xs_predicates s
       \<or> xs_predicates s' = (xs_predicates s)\<lparr>pe_next_handle := pe_next_handle (xs_predicates s) + 1\<rparr>)
    \<and> f = (case st_verify_after step of
        None \<Rightarrow> None
      | Some p \<Rightarrow> if evaluate p (xs_final_obs s) = Matched then None
          else Some (VerifyAfterMismatch (of_nat i) (st_id step) (st_label step)))"
proof (cases "st_verify_after step")
  case (Some p)
  obtain handle pe where r: "register p (xs_predicates s) = (handle, pe)"
    by force
  show ?thesis
    using assms(1) Some register_matched [OF assms(2) r] register_cancel [OF assms(2) r]
    by (cases "evaluate p (xs_final_obs s)") (auto simp: verify_phase_def Let_def r)
qed (use assms in \<open>auto simp: verify_phase_def\<close>)

lemma checkpoint_phase_frame [simp]:
  "xs_steps (checkpoint_phase n pid s) = xs_steps s" "xs_host (checkpoint_phase n pid s) = xs_host s"
  "xs_predicates (checkpoint_phase n pid s) = xs_predicates s"
  "ec_landed (xs_counters (checkpoint_phase n pid s)) = ec_landed (xs_counters s)"
  "ec_aborted (xs_counters (checkpoint_phase n pid s)) = ec_aborted (xs_counters s)"
  by (simp_all add: checkpoint_phase_def Let_def)

section \<open>One step\<close>

text \<open>The state before step \<open>i\<close> of the plan \<open>steps\<close>: every earlier action has been performed once, in
  order, and has its record.\<close>

definition plan_inv ::
    "PlanStep list \<Rightarrow> bool \<Rightarrow> nat \<Rightarrow> PredicateEngine \<Rightarrow> nat \<Rightarrow> ('d \<times> Action list) exec_state \<Rightarrow> bool" where
  "plan_inv steps abort n pe i s \<longleftrightarrow>
     snd (xs_host s) = map st_action (take i steps)
     \<and> map sr_step_id (xs_steps s) = map st_id (take i steps)
     \<and> map sr_index (xs_steps s) = map of_nat [0..<i]
     \<and> ec_landed (xs_counters s) = of_nat (length (filter sr_landed (xs_steps s)))
     \<and> ec_aborted (xs_counters s) = of_nat (length (filter (\<lambda>r. \<not> sr_landed r) (xs_steps s)))
     \<and> (abort \<longrightarrow> list_all sr_landed (xs_steps s))
     \<and> same_predicates n (2 * i) pe (xs_predicates s)"

text \<open>The state in which step \<open>i\<close> ended the plan.\<close>

definition failed_at ::
    "PlanStep list \<Rightarrow> bool \<Rightarrow> nat \<Rightarrow> PlanFailure \<Rightarrow> Action list \<Rightarrow> StepResult list \<Rightarrow> bool" where
  "failed_at steps abort i f acts partial \<longleftrightarrow>
     failure_index f = of_nat i \<and> failure_step f = st_id (steps ! i)
     \<and> acts = map st_action (take (case f of WaitBeforeTimeout _ _ _ \<Rightarrow> i | _ \<Rightarrow> Suc i) steps)
     \<and> map sr_step_id partial = map st_id (take (case f of PlanCancelled _ _ \<Rightarrow> Suc i | _ \<Rightarrow> i) steps)
     \<and> (abort \<longrightarrow> list_all sr_landed (take i partial))
     \<and> (case f of WaitBeforeTimeout _ _ _ \<Rightarrow> st_wait_before (steps ! i) \<noteq> None
          | VerifyAfterMismatch _ _ _ \<Rightarrow> st_verify_after (steps ! i) \<noteq> None
          | ActionRefused _ _ _ \<Rightarrow> abort
          | PlanCancelled _ _ \<Rightarrow> abort \<and> \<not> sr_landed (last partial))"

lemma exec_step_wait:
  assumes inv: "plan_inv steps abort n pe i s" and i: "i < length steps"
    and pe: "engine_inv n pe" "n + 2 * length steps < 2 ^ 32 - 1"
    and w: "wait_phase (logged_drain drain) i (steps ! i) s = Some (f, s')"
  shows "snd (xs_host s') = map st_action (take i steps) \<and> xs_steps s' = xs_steps s \<and> xs_counters s' = xs_counters s
    \<and> same_predicates n (Suc (2 * i)) pe (xs_predicates s') \<and> handle_free (xs_predicates s')
    \<and> (case f of None \<Rightarrow> True | Some f \<Rightarrow> failed_at steps abort i f (snd (xs_host s')) (xs_steps s'))"
proof -
  have sp: "same_predicates n (2 * i) pe (xs_predicates s)"
    using inv by (simp add: plan_inv_def)
  have "handle_free (xs_predicates s)"
    using same_predicates_free [OF pe(1) sp] pe(2) i by simp
  note fr = wait_phase_frame [OF w this]
  have sp': "same_predicates n (Suc (2 * i)) pe (xs_predicates s')"
    using fr same_predicates_bump [OF sp] same_predicates_mono [OF sp, of "Suc (2 * i)"] by auto
  have "f \<noteq> None \<Longrightarrow> st_wait_before (steps ! i) \<noteq> None"
    using w by (cases "st_wait_before (steps ! i)") (auto simp: wait_phase_def)
  then have "case f of None \<Rightarrow> True | Some f \<Rightarrow> failed_at steps abort i f (snd (xs_host s')) (xs_steps s')"
    using fr inv by (auto simp: failed_at_def plan_inv_def list_all_iff dest!: in_set_takeD)
  then show ?thesis
    using fr inv sp' same_predicates_free [OF pe(1) sp'] pe(2) i by (simp add: plan_inv_def)
qed

lemma index_snoc: "i < length steps \<Longrightarrow> map sr_step_id rs = map st_id (take i steps) \<Longrightarrow> length rs = i"
  by (metis length_map length_take min.absorb4)

lemma exec_step_correct:
  assumes inv: "plan_inv steps abort n pe i s" and i: "i < length steps"
    and pe: "engine_inv n pe" "n + 2 * length steps < 2 ^ 32 - 1"
    and step: "exec_step (logged act) (logged_drain drain) abort ck pid i (steps ! i) s = Some (f, s')"
  shows "case f of None \<Rightarrow> plan_inv steps abort n pe (Suc i) s'
    | Some f \<Rightarrow> failed_at steps abort i f (snd (xs_host s')) (xs_steps s')
        \<and> same_predicates n (2 * Suc i) pe (xs_predicates s')"
proof -
  obtain fw sw where w: "wait_phase (logged_drain drain) i (steps ! i) s = Some (fw, sw)"
    using step by (cases "wait_phase (logged_drain drain) i (steps ! i) s") (auto simp: exec_step_def)
  note fr = exec_step_wait [OF inv i pe w]
  note t = take_Suc_conv_app_nth [OF i]
  note len = index_snoc [OF i, of "xs_steps s"]
  show ?thesis
  proof (cases fw)
    case (Some failure)
    then show ?thesis
      using step w fr same_predicates_mono [of n "Suc (2 * i)" pe _ "2 * Suc i"] by (auto simp: exec_step_def)
  next
    case None
    let ?a = "st_action (steps ! i)"
    obtain res d where a: "logged act ?a (xs_host sw) = (res, d)"
      by (rule prod.exhaust)
    then have d: "snd d = map st_action (take (Suc i) steps)"
      using fr by (auto simp: logged_def t split_def)
    show ?thesis
    proof (cases res)
      case (Inl reason)
      have "(f, s') = refuse_phase abort i (steps ! i) reason (sw\<lparr>xs_host := d\<rparr>)"
        using step w None a Inl by (simp add: exec_step_def)
      then show ?thesis
        using fr inv d t len same_predicates_mono [of n "Suc (2 * i)" pe _ "2 * Suc i"]
        by (auto simp: refuse_phase_def plan_inv_def failed_at_def refused_record_def list_all_iff
            split: if_splits dest!: in_set_takeD)
    next
      case (Inr r)
      let ?s1 = "drain_phase (logged_drain drain) (sw\<lparr>xs_host := d\<rparr>)"
      obtain fv sv where v: "verify_phase i (steps ! i) ?s1 = (fv, sv)"
        by force
      have s1: "xs_steps ?s1 = xs_steps s" "xs_counters ?s1 = xs_counters s"
        "snd (xs_host ?s1) = map st_action (take (Suc i) steps)" "xs_predicates ?s1 = xs_predicates sw"
        using fr d by (simp_all add: drain_phase_frame)
      note fv = verify_phase_frame [OF v, unfolded s1, OF conjunct1 [OF conjunct2 [OF conjunct2 [OF conjunct2 [OF conjunct2 [OF fr]]]]]]
      have sp: "same_predicates n (2 * Suc i) pe (xs_predicates sv)"
        using fv fr same_predicates_bump [of n "Suc (2 * i)" pe "xs_predicates sw"]
          same_predicates_mono [of n "Suc (2 * i)" pe _ "2 * Suc i"] by auto
      show ?thesis
      proof (cases fv)
        case (Some failure)
        have "f = Some failure" "s' = sv"
          using step w None a Inr v Some by (simp_all add: exec_step_def)
        then show ?thesis
          using fv inv s1 sp Some
          by (auto simp: failed_at_def plan_inv_def list_all_iff split: option.splits if_splits dest!: in_set_takeD)
      next
        case fvNone: None
        let ?s2 = "checkpoint_phase ck pid (record_phase i (steps ! i) r sv)"
        have f: "f = (if \<not> ar_landed r \<and> abort then Some (PlanCancelled (of_nat i) (st_id (steps ! i))) else None)" "s' = ?s2"
          using step w None a Inr v fvNone by (auto simp: exec_step_def Let_def split: if_splits)
        have rec: "xs_steps ?s2 = xs_steps s @ [\<lparr>sr_step_id = st_id (steps ! i), sr_index = of_nat i,
              sr_action_result = r, sr_landed = ar_landed r, sr_error = None\<rparr>]"
            "snd (xs_host ?s2) = map st_action (take (Suc i) steps)" "xs_predicates ?s2 = xs_predicates sv"
          using fv s1 by (simp_all add: record_phase_def Let_def)
        have cnt: "ec_landed (xs_counters ?s2) = ec_landed (xs_counters s) + (if ar_landed r then 1 else 0)"
            "ec_aborted (xs_counters ?s2) = ec_aborted (xs_counters s) + (if ar_landed r then 0 else 1)"
          using fv s1 by (simp_all add: record_phase_def Let_def)
        show ?thesis
          unfolding f using inv rec cnt sp t len
          by (auto simp: plan_inv_def failed_at_def)
      qed
    qed
  qed
qed

section \<open>A whole plan\<close>

lemma exec_steps_correct:
  assumes pe: "engine_inv n pe" "n + 2 * length steps < 2 ^ 32 - 1"
  shows "plan_inv steps abort n pe i s \<Longrightarrow> i \<le> length steps \<Longrightarrow>
    exec_steps (logged act) (logged_drain drain) abort ck pid i (drop i steps) s = Some (f, s') \<Longrightarrow>
    (case f of None \<Rightarrow> plan_inv steps abort n pe (length steps) s'
     | Some f \<Rightarrow> \<exists>j<length steps. failed_at steps abort j f (snd (xs_host s')) (xs_steps s')
         \<and> same_predicates n (2 * Suc j) pe (xs_predicates s'))"
proof (induction "length steps - i" arbitrary: i s)
  case 0
  then show ?case
    by auto
next
  case (Suc k)
  then have i: "i < length steps"
    by simp
  then have d: "drop i steps = steps ! i # drop (Suc i) steps"
    by (simp add: Cons_nth_drop_Suc)
  obtain fo s1 where st: "exec_step (logged act) (logged_drain drain) abort ck pid i (steps ! i) s = Some (fo, s1)"
    using Suc.prems(3) d
    by (cases "exec_step (logged act) (logged_drain drain) abort ck pid i (steps ! i) s") auto
  note correct = exec_step_correct [OF Suc.prems(1) i pe st]
  show ?case
  proof (cases fo)
    case None
    then show ?thesis
      using Suc.hyps(1) [of "Suc i" s1] Suc.hyps(2) Suc.prems(3) d st correct by auto
  next
    case (Some failure)
    then show ?thesis
      using Suc.prems(3) d st correct i by auto
  qed
qed

text \<open>A host that closes the stream: from every state, finitely many observations and then \<open>None\<close>.\<close>

definition host_closes :: "'d drain \<Rightarrow> bool" where
  "host_closes drain \<longleftrightarrow> (\<forall>d. \<exists>os d1. drains drain d os d1 \<and> fst (drain d1) = None)"

lemma wait_end_exists:
  "drains drain d os d1 \<Longrightarrow> fst (drain d1) = None \<Longrightarrow> \<exists>os' st se' d'. wait_end p drain d se os' st se' d'"
proof (induction os arbitrary: d se)
  case Nil
  then have "wait_end p drain d se [] WS_Closed se (snd (drain d))"
    by (auto simp: wait_end_Nil prod_eq_iff)
  then show ?case
    by blast
next
  case (Cons obs os)
  show ?case
  proof (cases "evaluate p obs")
    case NoMatch
    obtain os' st se' d' where "wait_end p drain (snd (drain d)) (snd (produce (\<lambda>_. obs) se)) os' st se' d'"
      using Cons.IH [of "snd (drain d)" "snd (produce (\<lambda>_. obs) se)"] Cons.prems by auto
    then have "wait_end p drain d se (obs # os') st se' d'"
      using NoMatch Cons.prems by (simp add: wait_end_Cons)
    then show ?thesis
      by blast
  next
    case Matched
    then have "wait_end p drain d se [] WS_Matched (snd (produce (\<lambda>_. obs) se)) (snd (drain d))"
      using Cons.prems by (auto simp: wait_end_Nil prod_eq_iff)
    then show ?thesis
      by blast
  qed
qed

lemma wait_phase_returns:
  assumes "host_closes drain" "handle_free (xs_predicates s)"
  shows "wait_phase drain i step s \<noteq> None"
proof (cases "st_wait_before step")
  case (Some p)
  obtain os d1 where "drains drain (xs_host s) os d1" "fst (drain d1) = None"
    using assms(1) unfolding host_closes_def by blast
  then obtain os' st se' d' where "wait_end p drain (xs_host s) (xs_stream s) os' st se' d'"
    using wait_end_exists [of drain "xs_host s" os d1 p "xs_stream s"] by auto
  then have "wait_for_predicate p (xs_predicates s) (xs_stream s) drain (xs_host s)
      = Some (st, (xs_predicates s)\<lparr>pe_next_handle := pe_next_handle (xs_predicates s) + 1\<rparr>, se', d')"
    unfolding wait_for_predicate_exact [OF assms(2)] by (intro conjI refl exI)
  then show ?thesis
    using Some by (simp add: wait_phase_def Let_def)
qed (simp add: wait_phase_def)

lemma host_closes_logged:
  assumes "host_closes drain"
  shows "host_closes (logged_drain drain)"
proof -
  have "drains drain d os d1 \<Longrightarrow> drains (logged_drain drain) (d, acts) os (d1, acts)" for d os d1 acts
    by (induction os arbitrary: d) (auto simp: logged_drain_def split_def)
  then show ?thesis
    using assms unfolding host_closes_def by (fastforce simp: logged_drain_def split_def)
qed

lemma exec_steps_returns:
  assumes "host_closes drain" and pe: "engine_inv n pe" "n + 2 * length steps < 2 ^ 32 - 1"
  shows "plan_inv steps abort n pe i s \<Longrightarrow> i \<le> length steps \<Longrightarrow>
    exec_steps (logged act) (logged_drain drain) abort ck pid i (drop i steps) s \<noteq> None"
proof (induction "length steps - i" arbitrary: i s)
  case (Suc k)
  then have i: "i < length steps"
    by simp
  then have d: "drop i steps = steps ! i # drop (Suc i) steps"
    by (simp add: Cons_nth_drop_Suc)
  have "handle_free (xs_predicates s)"
    using same_predicates_free [OF pe(1), of "2 * i"] Suc.prems(1) pe(2) i by (simp add: plan_inv_def)
  then have "wait_phase (logged_drain drain) i (steps ! i) s \<noteq> None"
    using wait_phase_returns host_closes_logged [OF assms(1)] by blast
  then obtain fo s1 where st: "exec_step (logged act) (logged_drain drain) abort ck pid i (steps ! i) s = Some (fo, s1)"
    by (cases "exec_step (logged act) (logged_drain drain) abort ck pid i (steps ! i) s")
      (auto simp: exec_step_def split: option.splits prod.splits sum.splits)
  show ?case
  proof (cases fo)
    case None
    then have "plan_inv steps abort n pe (Suc i) s1"
      using exec_step_correct [OF Suc.prems(1) i pe st] by simp
    then show ?thesis
      using Suc.hyps(1) [of "Suc i" s1] Suc.hyps(2) d st None i by simp
  qed (use d st in simp)
qed simp

text \<open>What a plan's reply says, given the actions the host was asked for.\<close>

definition plan_reply_ok ::
    "Plan \<Rightarrow> PlanId \<Rightarrow> Action list \<Rightarrow> (PlanFailure \<times> StepResult list) + (PlanResult \<times> ExecutorCounters) \<Rightarrow> bool" where
  "plan_reply_ok plan pid acts r \<longleftrightarrow> (case r of
     Inr (res, c) \<Rightarrow> pr_plan_id res = pid \<and> acts = map st_action (plan_steps plan)
       \<and> map sr_step_id (pr_steps res) = map st_id (plan_steps plan)
       \<and> map sr_index (pr_steps res) = map of_nat [0..<length (plan_steps plan)]
       \<and> unat (ec_landed c) = length (filter sr_landed (pr_steps res))
       \<and> unat (ec_landed c) + unat (ec_aborted c) = length (plan_steps plan)
       \<and> (pr_all_landed res \<longleftrightarrow> first_failure res = None)
       \<and> (plan_abort_on_error plan \<longrightarrow> pr_all_landed res)
   | Inl (f, partial) \<Rightarrow>
       \<exists>i<length (plan_steps plan). failed_at (plan_steps plan) (plan_abort_on_error plan) i f acts partial)"

lemma plan_inv_done:
  assumes "plan_inv steps abort n pe (length steps) s" "length steps < 2 ^ 32"
  shows "unat (ec_landed (xs_counters s)) = length (filter sr_landed (xs_steps s))"
    and "unat (ec_landed (xs_counters s)) + unat (ec_aborted (xs_counters s)) = length steps"
proof -
  have len: "length (xs_steps s) = length steps"
    using assms(1) by (metis length_map plan_inv_def take_all order_refl)
  have "unat (of_nat (length (filter P (xs_steps s))) :: u32) = length (filter P (xs_steps s))" for P
    using length_filter_le [of P "xs_steps s"] len assms(2) by (simp add: unat_of_nat)
  then show "unat (ec_landed (xs_counters s)) = length (filter sr_landed (xs_steps s))"
    and "unat (ec_landed (xs_counters s)) + unat (ec_aborted (xs_counters s)) = length steps"
    using assms(1) len sum_length_filter_compl [of sr_landed "xs_steps s"] by (simp_all add: plan_inv_def)
qed

text \<open>
  C23. A plan, for every host that closes its observation stream and every result of its actions,
  with fewer than 2^31 steps and a predicate engine in a reachable state: the executor returns. When it
  succeeds, the host was asked for exactly the actions of the plan, once each and in order, the step
  records match the plan and the counters match the records, and with \<open>abort_on_error\<close> everything
  landed. When it fails in step \<open>i\<close>, the host was asked for the actions up to that step (without its own
  when the wait before it closed) and for nothing after it, the partial records are those of the steps
  before it (and its own, not landed, when it was cancelled), and the failure names the step. The
  predicate engine is left with the predicates it had.
\<close>

theorem plan_executed:
  assumes "host_closes drain" "engine_inv n pe" "n + 2 * length (plan_steps plan) < 2 ^ 32 - 1"
  shows "\<exists>r s. execute plan pe se pid (logged act) (logged_drain drain) (d, []) = Some (r, s)
    \<and> plan_reply_ok plan pid (snd (xs_host s)) r
    \<and> same_predicates n (2 * length (plan_steps plan)) pe (xs_predicates s)"
proof -
  let ?steps = "plan_steps plan" and ?ab = "plan_abort_on_error plan"
  let ?s0 = "\<lparr>xs_predicates = pe, xs_stream = se, xs_host = (d, []), xs_steps = [],
      xs_counters = counters_default, xs_final_obs = observation_default\<rparr>"
  have inv: "plan_inv ?steps ?ab n pe 0 ?s0"
    using same_predicates_refl [OF assms(2), of 0] by (simp add: plan_inv_def counters_default_def)
  obtain f s where e: "exec_steps (logged act) (logged_drain drain) ?ab (plan_checkpoint_every plan) pid 0 ?steps ?s0 = Some (f, s)"
    using exec_steps_returns [OF assms inv, of act "plan_checkpoint_every plan" pid] by auto
  then have c: "case f of None \<Rightarrow> plan_inv ?steps ?ab n pe (length ?steps) s
     | Some f \<Rightarrow> \<exists>j<length ?steps. failed_at ?steps ?ab j f (snd (xs_host s)) (xs_steps s)
         \<and> same_predicates n (2 * Suc j) pe (xs_predicates s)"
    using exec_steps_correct [OF assms(2,3) inv, of act drain "plan_checkpoint_every plan" pid f s] by simp
  show ?thesis
  proof (cases f)
    case None
    then have fin: "plan_inv ?steps ?ab n pe (length ?steps) s"
      using c by simp
    note counts = plan_inv_done [OF fin]
    let ?s = "drain_phase (logged_drain drain) s"
    have "execute plan pe se pid (logged act) (logged_drain drain) (d, []) =
       Some (Inr (\<lparr>pr_plan_id = pid, pr_steps = xs_steps ?s, pr_final_observation = xs_final_obs ?s,
           pr_total_elapsed_ms = ec_landed (xs_counters ?s),
           pr_all_landed = list_all sr_landed (xs_steps ?s)\<rparr>, xs_counters ?s), ?s)"
      using e None by (simp add: execute_def Let_def)
    then show ?thesis
      using fin counts assms(3)
      by (simp add: plan_reply_ok_def drain_phase_frame plan_inv_def first_failure_def position_None list_all_iff)
  next
    case (Some failure)
    then obtain j where j: "j < length ?steps" "failed_at ?steps ?ab j failure (snd (xs_host s)) (xs_steps s)"
        "same_predicates n (2 * Suc j) pe (xs_predicates s)"
      using c by auto
    have "same_predicates n (2 * length ?steps) pe (xs_predicates s)"
      using same_predicates_mono [OF j(3)] j(1) by simp
    then show ?thesis
      using e Some j(1,2) by (auto simp: execute_def plan_reply_ok_def)
  qed
qed

theorem plan_executed_witness:
  "\<exists>r s. execute (plan_new [plan_step_new (A_Key 3 100),
        with_verify_after (P_EventFires EK_ClipboardChanged 50) (plan_step_new (A_SetClipboard [104, 105] False 100))])
      predicate_engine_new stream_new 9
      (logged (\<lambda>a u. (Inr (action_result_default\<lparr>ar_landed := True\<rparr>), u))) (logged_drain (\<lambda>u. (None, u))) ((), [])
      = Some (r, s)
    \<and> same_predicates 0 4 predicate_engine_new (xs_predicates s)"
proof -
  have "host_closes (\<lambda>u :: unit. (None, u))"
    unfolding host_closes_def by (intro allI exI [of _ "[]"]) simp
  then show ?thesis
    using plan_executed [OF _ engine_inv_new, of "\<lambda>u :: unit. (None, u)" "plan_new [plan_step_new (A_Key 3 100),
        with_verify_after (P_EventFires EK_ClipboardChanged 50) (plan_step_new (A_SetClipboard [104, 105] False 100))]"
        stream_new 9 "\<lambda>a u. (Inr (action_result_default\<lparr>ar_landed := True\<rparr>), u)" "()"]
    by (simp add: plan_new_def) blast
qed

text \<open>Without \<open>abort_on_error\<close> a verification that fails still ends the plan: the second action is
  never performed.\<close>

lemma best_effort_aborts:
  "\<exists>s. execute (with_abort False (plan_new [with_verify_after (P_EventFires EK_ClipboardChanged 50) (plan_step_new (A_Key 3 100)),
        plan_step_new (A_Key 4 100)]))
      predicate_engine_new stream_new 9
      (logged (\<lambda>a u. (Inr (action_result_default\<lparr>ar_landed := True\<rparr>), u))) (logged_drain (\<lambda>u. (None, u))) ((), [])
      = Some (Inl (VerifyAfterMismatch 0 0 None, []), s) \<and> snd (xs_host s) = [A_Key 3 100]"
  by (simp add: execute_def exec_step_def wait_phase_def drain_phase_def verify_phase_def with_abort_def plan_new_def
      with_verify_after_def plan_step_new_def logged_def logged_drain_def register_def matched_in_def on_observation_def
      predicate_engine_new_def outcome_def observation_contains_event_kind_def observation_default_def Let_def)

text \<open>A checkpoint every five steps is also emitted before any step has landed.\<close>

lemma checkpoint_before_landing:
  "ec_checkpoints (xs_counters (checkpoint_phase 5 pid (record_phase 0 step (action_result_default) s))) = 1"
  if "xs_counters s = counters_default"
  using that by (simp add: checkpoint_phase_def record_phase_def action_result_default_def counters_default_def Let_def)

end
