(* ===== verification/Kernel_Memory.thy ===== *)
theory Kernel_Memory
  imports Kernel_State
begin

text \<open>
  The memory of the device kernel (\<^verbatim>\<open>memory.rs\<close>): a map from screens to what worked and what failed on
  them, with a list of the screens from the coldest to the most recently used one and an eviction loop.
  It refines a cache whose state is one list of entries in the order of their last use.
\<close>

section \<open>The cache\<close>

record ActionSequence =
  as_successes :: "Action list"
  as_failures :: "(Action \<times> ustr) list"

definition sequence_new :: ActionSequence where
  "sequence_new = \<lparr>as_successes = [], as_failures = []\<rparr>"

definition attempt_count :: "ActionSequence \<Rightarrow> nat" where
  "attempt_count s = length (as_successes s) + length (as_failures s)"

record Memory =
  mem_entries :: "(ScreenId \<times> ActionSequence) list"
  mem_lru :: "ScreenId list"
  mem_hit_count :: u64
  mem_miss_count :: u64

definition MAX_ENTRIES :: nat where [simp]: "MAX_ENTRIES = 1024"

definition memory_new :: Memory where
  "memory_new = \<lparr>mem_entries = [], mem_lru = [], mem_hit_count = 0, mem_miss_count = 0\<rparr>"

definition touch_lru :: "ScreenId \<Rightarrow> Memory \<Rightarrow> Memory" where
  "touch_lru i m = m\<lparr>mem_lru := remove1 i (mem_lru m) @ [i]\<rparr>"

text \<open>The inner loop pops screens until one of them had an entry; the outer loop runs while there are
  too many entries and the list is not exhausted.\<close>

fun evict_one :: "ScreenId list \<Rightarrow> (ScreenId \<times> ActionSequence) list \<Rightarrow> ScreenId list \<times> (ScreenId \<times> ActionSequence) list" where
  "evict_one [] entries = ([], entries)"
| "evict_one (victim # lru) entries =
     (if map_of entries victim \<noteq> None then (lru, hm_remove victim entries) else evict_one lru entries)"

lemma evict_one_shrinks: "evict_one lru entries = (lru', entries') \<Longrightarrow> lru \<noteq> [] \<Longrightarrow> length lru' < length lru"
proof (induction lru entries rule: evict_one.induct)
  case (2 victim lru entries)
  then show ?case
    by (cases lru) (auto split: if_splits)
qed simp

function evict_loop :: "ScreenId list \<Rightarrow> (ScreenId \<times> ActionSequence) list \<Rightarrow> ScreenId list \<times> (ScreenId \<times> ActionSequence) list" where
  "evict_loop lru entries =
     (if MAX_ENTRIES < length entries
      then case evict_one lru entries of (lru', entries') \<Rightarrow>
             (if MAX_ENTRIES < length entries' \<and> lru' = [] then (lru', entries') else evict_loop lru' entries')
      else (lru, entries))"
  by pat_completeness auto

termination
proof (relation "measure (\<lambda>(lru, entries). length lru)")
  fix lru entries lru' and entries' :: "(ScreenId \<times> ActionSequence) list"
  assume big: "MAX_ENTRIES < length entries" and x: "(lru', entries') = evict_one lru entries"
    and ne: "\<not> (MAX_ENTRIES < length entries' \<and> lru' = [])"
  have e: "evict_one lru entries = (lru', entries')"
    using x by simp
  have "length lru' < length lru"
    using evict_one_shrinks [OF e] big ne e by (cases "lru = []") simp_all
  then show "((lru', entries'), lru, entries) \<in> measure (\<lambda>(lru, entries). length lru)"
    by simp
qed simp

declare evict_loop.simps [simp del]

definition maybe_evict :: "Memory \<Rightarrow> Memory" where
  "maybe_evict m = (case evict_loop (mem_lru m) (mem_entries m) of
     (lru, entries) \<Rightarrow> m\<lparr>mem_lru := lru, mem_entries := entries\<rparr>)"

definition memory_lookup :: "ScreenId \<Rightarrow> Memory \<Rightarrow> ActionSequence option \<times> Memory" where
  "memory_lookup i m =
     (if map_of (mem_entries m) i \<noteq> None
      then let m = touch_lru i (m\<lparr>mem_hit_count := mem_hit_count m + 1\<rparr>) in (map_of (mem_entries m) i, m)
      else (None, m\<lparr>mem_miss_count := mem_miss_count m + 1\<rparr>))"

definition peek :: "ScreenId \<Rightarrow> Memory \<Rightarrow> ActionSequence option" where
  "peek i m = map_of (mem_entries m) i"

definition entry_or_default :: "ScreenId \<Rightarrow> Memory \<Rightarrow> ActionSequence" where
  "entry_or_default i m = (case map_of (mem_entries m) i of Some s \<Rightarrow> s | None \<Rightarrow> sequence_new)"

definition record_success :: "ScreenId \<Rightarrow> Action \<Rightarrow> Memory \<Rightarrow> Memory" where
  "record_success i a m =
     (let s = entry_or_default i m in
      maybe_evict (touch_lru i
        (m\<lparr>mem_entries := hm_insert i (s\<lparr>as_successes := as_successes s @ [a]\<rparr>) (mem_entries m)\<rparr>)))"

definition record_failure :: "ScreenId \<Rightarrow> Action \<Rightarrow> ustr \<Rightarrow> Memory \<Rightarrow> Memory" where
  "record_failure i a reason m =
     (let s = entry_or_default i m in
      maybe_evict (touch_lru i
        (m\<lparr>mem_entries := hm_insert i (s\<lparr>as_failures := as_failures s @ [(a, reason)]\<rparr>) (mem_entries m)\<rparr>)))"

definition reset_metrics :: "Memory \<Rightarrow> Memory" where
  "reset_metrics m = m\<lparr>mem_hit_count := 0, mem_miss_count := 0\<rparr>"

text \<open>A \<open>u64\<close> as \<open>f32\<close>\<close>

definition u64_as_f32 :: "u64 \<Rightarrow> f32" where
  "u64_as_f32 v = f32_round (of_nat (unat v))"

definition f32_div :: "f32 \<Rightarrow> f32 \<Rightarrow> f32" where
  \<comment> \<open>the quotient of two finite values, the divisor positive\<close>
  "f32_div a b = (case (a, b) of (Fin x, Fin y) \<Rightarrow> f32_round (x / y) | _ \<Rightarrow> NaN)"

definition hit_rate :: "Memory \<Rightarrow> f32 option" where
  "hit_rate m =
     (let total = mem_hit_count m + mem_miss_count m in
      if total = 0 then None else Some (f32_div (u64_as_f32 (mem_hit_count m)) (u64_as_f32 total)))"

section \<open>The specification: one list in the order of the last use\<close>

type_synonym cache = "(ScreenId \<times> ActionSequence) list"

definition cache_touch :: "ScreenId \<Rightarrow> ActionSequence \<Rightarrow> cache \<Rightarrow> cache" where
  "cache_touch i s c = filter (\<lambda>(k, _). k \<noteq> i) c @ [(i, s)]"

definition cache_get :: "ScreenId \<Rightarrow> cache \<Rightarrow> ActionSequence" where
  "cache_get i c = (case map_of c i of Some s \<Rightarrow> s | None \<Rightarrow> sequence_new)"

datatype memory_op =
  Lookup ScreenId | Success ScreenId Action | Failure ScreenId Action ustr | ResetMetrics

primrec cache_step :: "memory_op \<Rightarrow> cache \<Rightarrow> ActionSequence option \<times> cache" where
  "cache_step (Lookup i) c =
     (map_of c i, case map_of c i of Some s \<Rightarrow> cache_touch i s c | None \<Rightarrow> c)"
| "cache_step (Success i a) c =
     (None, last_n 1024 (cache_touch i (cache_get i c\<lparr>as_successes := as_successes (cache_get i c) @ [a]\<rparr>) c))"
| "cache_step (Failure i a reason) c =
     (None, last_n 1024 (cache_touch i (cache_get i c\<lparr>as_failures := as_failures (cache_get i c) @ [(a, reason)]\<rparr>) c))"
| "cache_step ResetMetrics c = (None, c)"

primrec memory_step :: "memory_op \<Rightarrow> Memory \<Rightarrow> ActionSequence option \<times> Memory" where
  "memory_step (Lookup i) m = memory_lookup i m"
| "memory_step (Success i a) m = (None, record_success i a m)"
| "memory_step (Failure i a reason) m = (None, record_failure i a reason m)"
| "memory_step ResetMetrics m = (None, reset_metrics m)"

definition cache_of :: "Memory \<Rightarrow> cache" where
  "cache_of m = map (\<lambda>i. (i, the (map_of (mem_entries m) i))) (mem_lru m)"

definition memory_inv :: "Memory \<Rightarrow> bool" where
  "memory_inv m \<longleftrightarrow> distinct (mem_lru m) \<and> distinct (map fst (mem_entries m))
     \<and> set (mem_lru m) = fst ` set (mem_entries m)"

lemma memory_inv_new: "memory_inv memory_new"
  by (simp add: memory_inv_def memory_new_def)

lemma memory_inv_length: "memory_inv m \<Longrightarrow> length (mem_entries m) = length (mem_lru m)"
  by (metis distinct_card length_map list.set_map memory_inv_def)

lemma map_of_pairs: "map_of (map (\<lambda>i. (i, f i)) xs) i = (if i \<in> set xs then Some (f i) else None)"
  by (induction xs) auto

lemma map_of_cache_of: "memory_inv m \<Longrightarrow> map_of (cache_of m) i = map_of (mem_entries m) i"
proof -
  assume inv: "memory_inv m"
  have "i \<in> set (mem_lru m) \<longleftrightarrow> map_of (mem_entries m) i \<noteq> None"
    using inv by (simp add: memory_inv_def map_of_eq_None_iff)
  then show ?thesis
    by (auto simp: cache_of_def map_of_pairs)
qed

lemma evict_one_inv:
  assumes "distinct lru" "set lru = fst ` set entries" "lru \<noteq> []"
  shows "evict_one lru entries = (tl lru, hm_remove (hd lru) entries)"
  using assms by (cases lru) (auto simp: map_of_eq_None_iff)

lemma last_n_Cons: "n \<le> length xs \<Longrightarrow> last_n n (x # xs) = last_n n xs"
  by (simp add: last_n_def Suc_diff_le)

lemma evict_loop_exact:
  assumes "distinct lru" "distinct (map fst entries)" "set lru = fst ` set entries"
  shows "fst (evict_loop lru entries) = last_n MAX_ENTRIES lru
    \<and> distinct (map fst (snd (evict_loop lru entries)))
    \<and> set (fst (evict_loop lru entries)) = fst ` set (snd (evict_loop lru entries))
    \<and> (\<forall>i \<in> set (fst (evict_loop lru entries)). map_of (snd (evict_loop lru entries)) i = map_of entries i)"
  using assms
proof (induction lru entries rule: evict_loop.induct)
  case (1 lru entries)
  have len: "length entries = length lru"
    using "1.prems" by (metis distinct_card length_map list.set_map)
  show ?case
  proof (cases "MAX_ENTRIES < length entries")
    case True
    then obtain v lru' where lru: "lru = v # lru'"
      using len by (cases lru) auto
    have one: "evict_one lru entries = (lru', hm_remove v entries)"
      using evict_one_inv [OF "1.prems"(1,3)] lru by simp
    have ne: "\<not> (MAX_ENTRIES < length (hm_remove v entries) \<and> lru' = [])"
      using True len lru by auto
    have k: "set lru' = fst ` set (hm_remove v entries)"
      using "1.prems" lru by (auto simp: set_hm_remove image_iff)
    have "last_n MAX_ENTRIES lru = last_n MAX_ENTRIES lru'"
      using True len lru by (simp add: last_n_Cons)
    moreover have "evict_loop lru entries = evict_loop lru' (hm_remove v entries)"
      by (simp only: evict_loop.simps [of lru entries] True one ne if_True if_False prod.case)
    moreover have "map_of (hm_remove v entries) i = map_of entries i" if "i \<in> set lru'" for i
      using that "1.prems"(1) lru by auto
    moreover have "distinct lru'" "distinct (map fst (hm_remove v entries))"
      using "1.prems" lru by simp_all
    ultimately show ?thesis
      using "1.IH" [OF True one [symmetric] ne _ _ k] set_last_n [of MAX_ENTRIES lru']
      by (metis (no_types, lifting) subsetD)
  next
    case False
    then show ?thesis
      using "1.prems" len evict_loop.simps [of lru entries] by (simp add: last_n_all)
  qed
qed

section \<open>Refinement\<close>

lemma touched:
  assumes inv: "memory_inv m" and e: "distinct (map fst E)" "fst ` set E = insert i (fst ` set (mem_entries m))"
    and same: "\<And>k. k \<noteq> i \<Longrightarrow> map_of E k = map_of (mem_entries m) k" and new: "map_of E i = Some s"
  defines "m' \<equiv> touch_lru i (m\<lparr>mem_entries := E\<rparr>)"
  shows "memory_inv m'" "cache_of m' = cache_touch i s (cache_of m)"
proof -
  have d: "distinct (mem_lru m)" and k: "set (mem_lru m) = fst ` set (mem_entries m)"
    using inv by (simp_all add: memory_inv_def)
  have "set (remove1 i (mem_lru m)) = set (mem_lru m) - {i}"
    using d by (simp add: set_remove1_eq)
  then show "memory_inv m'"
    using d k e by (auto simp: m'_def memory_inv_def touch_lru_def)
  have "remove1 i (mem_lru m) = filter (\<lambda>k. k \<noteq> i) (mem_lru m)"
    using d by (simp add: distinct_remove1_removeAll removeAll_filter_not_eq) (metis)
  moreover have "map (\<lambda>k. (k, the (map_of E k))) (filter (\<lambda>k. k \<noteq> i) xs)
      = filter (\<lambda>(k, _). k \<noteq> i) (map (\<lambda>k. (k, the (map_of (mem_entries m) k))) xs)" for xs
    using same by (induction xs) auto
  ultimately show "cache_of m' = cache_touch i s (cache_of m)"
    using new by (simp add: m'_def cache_of_def cache_touch_def touch_lru_def)
qed

lemma map_last_n: "map f (last_n n xs) = last_n n (map f xs)"
  by (simp add: last_n_def drop_map)

lemma evicted:
  assumes inv: "memory_inv m"
  shows "memory_inv (maybe_evict m)" "cache_of (maybe_evict m) = last_n MAX_ENTRIES (cache_of m)"
proof -
  obtain l E where e: "evict_loop (mem_lru m) (mem_entries m) = (l, E)"
    by force
  have *: "l = last_n MAX_ENTRIES (mem_lru m)" "distinct (map fst E)" "set l = fst ` set E"
    "\<forall>i\<in>set l. map_of E i = map_of (mem_entries m) i"
    using evict_loop_exact [of "mem_lru m" "mem_entries m"] inv unfolding memory_inv_def e fst_conv snd_conv
    by blast+
  have "distinct l"
    using *(1) inv by (simp add: memory_inv_def last_n_def)
  then show "memory_inv (maybe_evict m)"
    using *(2,3) by (simp add: maybe_evict_def e memory_inv_def)
  have "cache_of (maybe_evict m) = map (\<lambda>i. (i, the (map_of (mem_entries m) i))) l"
    using *(4) by (simp add: cache_of_def maybe_evict_def e)
  then show "cache_of (maybe_evict m) = last_n MAX_ENTRIES (cache_of m)"
    unfolding *(1) by (simp only: cache_of_def map_last_n)
qed

lemma memory_step_refines:
  assumes inv: "memory_inv m"
  shows "memory_inv (snd (memory_step opr m))
    \<and> fst (memory_step opr m) = fst (cache_step opr (cache_of m))
    \<and> cache_of (snd (memory_step opr m)) = snd (cache_step opr (cache_of m))"
proof -
  have rec: "memory_inv (maybe_evict (touch_lru i (m\<lparr>mem_entries := hm_insert i s (mem_entries m)\<rparr>)))
      \<and> cache_of (maybe_evict (touch_lru i (m\<lparr>mem_entries := hm_insert i s (mem_entries m)\<rparr>)))
          = last_n 1024 (cache_touch i s (cache_of m))" for i s
  proof -
    have d: "distinct (map fst (hm_insert i s (mem_entries m)))"
      using inv by (simp add: memory_inv_def)
    have k: "fst ` set (hm_insert i s (mem_entries m)) = insert i (fst ` set (mem_entries m))"
      by (metis dom_map_of_conv_image_fst map_of_hm_insert dom_fun_upd option.distinct(1))
    note t = touched [OF inv d k, of s]
    show ?thesis
      using evicted [of "touch_lru i (m\<lparr>mem_entries := hm_insert i s (mem_entries m)\<rparr>)"] t by simp
  qed
  show ?thesis
  proof (cases opr)
    case (Lookup i)
    show ?thesis
    proof (cases "map_of (mem_entries m) i")
      case None
      then show ?thesis
        using inv Lookup map_of_cache_of [OF inv, of i]
        by (simp add: memory_lookup_def memory_inv_def cache_of_def)
    next
      case (Some s)
      let ?m = "m\<lparr>mem_hit_count := mem_hit_count m + 1\<rparr>"
      have "memory_inv ?m" "cache_of ?m = cache_of m"
        using inv by (simp_all add: memory_inv_def cache_of_def)
      moreover have "insert i (fst ` set (mem_entries ?m)) = fst ` set (mem_entries ?m)"
        using Some by (force dest: map_of_SomeD)
      moreover have "?m\<lparr>mem_entries := mem_entries ?m\<rparr> = ?m"
        by simp
      ultimately have "memory_inv (touch_lru i ?m)" "cache_of (touch_lru i ?m) = cache_touch i s (cache_of m)"
        using touched [of ?m "mem_entries ?m" i s] Some by (simp_all add: memory_inv_def)
      then show ?thesis
        using Lookup Some map_of_cache_of [OF inv, of i]
        by (simp add: memory_lookup_def Let_def) (simp add: touch_lru_def)
    qed
  next
    case (Success i a)
    then show ?thesis
      using rec map_of_cache_of [OF inv, of i]
      by (simp add: record_success_def entry_or_default_def cache_get_def Let_def)
  next
    case (Failure i a reason)
    then show ?thesis
      using rec map_of_cache_of [OF inv, of i]
      by (simp add: record_failure_def entry_or_default_def cache_get_def Let_def)
  next
    case ResetMetrics
    then show ?thesis
      using inv by (simp add: reset_metrics_def memory_inv_def cache_of_def)
  qed
qed

fun memory_run :: "memory_op list \<Rightarrow> Memory \<Rightarrow> ActionSequence option list \<times> Memory" where
  "memory_run [] m = ([], m)"
| "memory_run (opr # ops) m =
     (let (r, m) = memory_step opr m; (rs, m) = memory_run ops m in (r # rs, m))"

fun cache_run :: "memory_op list \<Rightarrow> cache \<Rightarrow> ActionSequence option list \<times> cache" where
  "cache_run [] c = ([], c)"
| "cache_run (opr # ops) c =
     (let (r, c) = cache_step opr c; (rs, c) = cache_run ops c in (r # rs, c))"

lemma memory_run_refines:
  "memory_inv m \<Longrightarrow>
     memory_inv (snd (memory_run ops m))
     \<and> fst (memory_run ops m) = fst (cache_run ops (cache_of m))
     \<and> cache_of (snd (memory_run ops m)) = snd (cache_run ops (cache_of m))"
proof (induction ops arbitrary: m)
  case (Cons opr ops)
  then show ?case
    using memory_step_refines [of m opr] Cons.IH [of "snd (memory_step opr m)"]
    by (simp add: split_def Let_def)
qed simp

lemma cache_bound: "length c \<le> 1024 \<Longrightarrow> length (snd (cache_run ops c)) \<le> 1024"
proof (induction ops arbitrary: c)
  case (Cons opr ops)
  have t: "length (cache_touch i s c) \<le> length c" if "map_of c i = Some x" for i s x
  proof -
    have "(i, x) \<in> set c"
      using that by (rule map_of_SomeD)
    then have "length (filter (\<lambda>(k, _). k \<noteq> i) c) < length c"
      by (rule length_filter_less) simp
    then show ?thesis
      by (simp add: cache_touch_def)
  qed
  have "length (snd (cache_step opr c)) \<le> 1024"
    using Cons.prems t by (cases opr) (auto split: option.splits intro: order_trans)
  then show ?case
    using Cons.IH [of "snd (cache_step opr c)"] by (simp add: split_def Let_def)
qed simp

text \<open>
  C25. The memory is a least-recently-used cache. Every sequence of lookups, recorded successes and
  recorded failures on a new memory answers the lookups as the cache does that is one list in the order
  of the last use, of which a recording keeps the 1024 most recently used screens; the memory ends in
  that cache's state, with one list entry per map entry, and never holds more than 1024 screens.
\<close>

theorem memory_is_lru:
  "fst (memory_run ops memory_new) = fst (cache_run ops [])
   \<and> cache_of (snd (memory_run ops memory_new)) = snd (cache_run ops [])
   \<and> memory_inv (snd (memory_run ops memory_new))
   \<and> length (mem_entries (snd (memory_run ops memory_new))) \<le> 1024"
proof -
  have c: "cache_of memory_new = []"
    by (simp add: cache_of_def memory_new_def)
  note r = memory_run_refines [OF memory_inv_new, of ops, unfolded c]
  have "length (mem_lru (snd (memory_run ops memory_new))) = length (cache_of (snd (memory_run ops memory_new)))"
    by (simp add: cache_of_def)
  then show ?thesis
    using r cache_bound [of "[]" ops] memory_inv_length [of "snd (memory_run ops memory_new)"] by simp
qed

text \<open>Counters: every lookup is a hit or a miss.\<close>

lemma lookup_counts:
  "memory_lookup i m = (r, m') \<Longrightarrow>
     mem_hit_count m' = mem_hit_count m + (if r = None then 0 else 1)
     \<and> mem_miss_count m' = mem_miss_count m + (if r = None then 1 else 0)"
  by (auto simp: memory_lookup_def touch_lru_def Let_def split: if_splits)

text \<open>What is kept for one screen is not bounded.\<close>

lemma screen_grows:
  "length (as_successes (cache_get i (snd (cache_run (replicate n (Success i a)) [])))) = n"
proof -
  have "length (as_successes (cache_get i (snd (cache_run (replicate n (Success i a)) c))))
      = length (as_successes (cache_get i c)) + n" if "filter (\<lambda>(k, _). k \<noteq> i) c = []" for c
    using that
  proof (induction n arbitrary: c)
    case (Suc n)
    then show ?case
      using Suc.IH [of "[(i, cache_get i c\<lparr>as_successes := as_successes (cache_get i c) @ [a]\<rparr>)]"]
      by (simp add: cache_touch_def last_n_def cache_get_def split_def Let_def)
  qed simp
  from this [of "[]"] show ?thesis
    by (simp add: cache_get_def sequence_new_def)
qed

end
