(* ===== verification/Kernel_Policy.thy ===== *)
theory Kernel_Policy
  imports Kernel_State
begin

text \<open>
  Two pure policies of the device kernel: how a plan is cut into chunks for re-planning
  (\<^verbatim>\<open>chunk_planner.rs\<close>), and what of an observation may leave the device (\<^verbatim>\<open>egress.rs\<close>).
\<close>

section \<open>Chunks\<close>

definition MAX_CHUNK_SIZE :: nat where [simp]: "MAX_CHUNK_SIZE = 4"

datatype ChunkError = ChunkTooLarge nat nat | MissingObserve | ChunkEmpty

record Chunk =
  chunk_index :: u32
  chunk_total :: u32
  chunk_steps :: "PlanStep list"

fun plan_chunk_size :: "nat \<Rightarrow> nat list" where
  "plan_chunk_size left =
     (if left = 0 then []
      else let n = min left MAX_CHUNK_SIZE in n # plan_chunk_size (left - n))"

declare plan_chunk_size.simps [simp del]

definition is_observe_action :: "Action \<Rightarrow> bool" where
  "is_observe_action a = (case a of A_DumpObservation _ _ \<Rightarrow> True | _ \<Rightarrow> False)"

definition validate_chunk :: "PlanStep list \<Rightarrow> ChunkError + unit" where
  "validate_chunk chunk =
     (if chunk = [] then Inl ChunkEmpty
      else if MAX_CHUNK_SIZE < length chunk then Inl (ChunkTooLarge (length chunk) MAX_CHUNK_SIZE)
      else if \<not> is_observe_action (st_action (last chunk)) then Inl MissingObserve
      else Inr ())"

definition observe_step :: PlanStep where
  "observe_step = plan_step_new (A_DumpObservation [] 100)"

text \<open>The loop over the sizes: \<open>steps[offset..offset + n]\<close>.\<close>

fun cut_chunks :: "PlanStep list \<Rightarrow> u32 \<Rightarrow> nat \<Rightarrow> nat \<Rightarrow> nat list \<Rightarrow> Chunk list" where
  "cut_chunks steps tot i offset [] = []"
| "cut_chunks steps tot i offset (n # sizes) =
     \<lparr>chunk_index = of_nat i, chunk_total = tot, chunk_steps = take n (drop offset steps)\<rparr>
     # cut_chunks steps tot (Suc i) (offset + n) sizes"

definition split_into_chunks :: "Plan \<Rightarrow> Chunk list" where
  "split_into_chunks plan =
     (if plan_steps plan = [] then []
      else let steps = (if is_observe_action (st_action (last (plan_steps plan))) then plan_steps plan
                        else plan_steps plan @ [observe_step]);
               sizes = plan_chunk_size (length steps)
           in cut_chunks steps (of_nat (length sizes)) 0 0 sizes)"

lemma plan_chunk_size_sum: "sum_list (plan_chunk_size n) = n"
  by (induction n rule: plan_chunk_size.induct) (subst plan_chunk_size.simps, simp add: Let_def)

lemma plan_chunk_size_shape: "plan_chunk_size n = replicate (n div 4) 4 @ (if n mod 4 = 0 then [] else [n mod 4])"
proof (induction n rule: plan_chunk_size.induct)
  case (1 n)
  consider "n = 0" | "0 < n" "n < 4" | "4 \<le> n"
    by linarith
  then show ?case
  proof cases
    case 3
    then have "plan_chunk_size n = 4 # plan_chunk_size (n - 4)"
      by (subst plan_chunk_size.simps) (simp add: Let_def)
    moreover have "n div 4 = Suc ((n - 4) div 4)" "n mod 4 = (n - 4) mod 4"
      using 3 by (simp_all add: le_div_geq le_mod_geq)
    ultimately show ?thesis
      using 1 3 by (simp add: Let_def)
  qed (subst plan_chunk_size.simps, simp add: Let_def plan_chunk_size.simps [of 0])+
qed

lemma cut_chunks_steps:
  "offset + sum_list sizes \<le> length steps \<Longrightarrow>
     concat (map chunk_steps (cut_chunks steps tot i offset sizes)) = take (sum_list sizes) (drop offset steps)
     \<and> map (\<lambda>c. length (chunk_steps c)) (cut_chunks steps tot i offset sizes) = sizes
     \<and> map chunk_index (cut_chunks steps tot i offset sizes) = map of_nat [i..<i + length sizes]
     \<and> (\<forall>c \<in> set (cut_chunks steps tot i offset sizes). chunk_total c = tot)"
proof (induction sizes arbitrary: i offset)
  case (Cons n sizes)
  then show ?case
    using Cons.IH [of "offset + n" "Suc i"]
    by (simp add: take_add add.commute upt_conv_Cons add.assoc del: upt_Suc)
qed simp

definition planned_steps :: "Plan \<Rightarrow> PlanStep list" where
  "planned_steps plan =
     (if is_observe_action (st_action (last (plan_steps plan))) then plan_steps plan
      else plan_steps plan @ [observe_step])"

lemma planned_ends_observe: "plan_steps plan \<noteq> [] \<Longrightarrow> is_observe_action (st_action (last (planned_steps plan)))"
  by (simp add: planned_steps_def observe_step_def plan_step_new_def is_observe_action_def split: Action.splits)

text \<open>
  Chunking a plan that has steps loses and reorders nothing: the chunks in order are the plan's
  steps, with one observation appended exactly when the plan does not end in one. All chunks have four
  steps but the last, which has the rest; they are numbered from 0 and all carry their number. The
  validator accepts the last chunk, and it rejects another one exactly when its fourth step is not an
  observation.
\<close>

theorem chunks_partition:
  assumes "plan_steps plan \<noteq> []"
  defines "chunks \<equiv> split_into_chunks plan" and "steps \<equiv> planned_steps plan"
  shows "concat (map chunk_steps chunks) = steps
    \<and> map (\<lambda>c. length (chunk_steps c)) chunks
        = replicate (length steps div 4) 4 @ (if length steps mod 4 = 0 then [] else [length steps mod 4])
    \<and> map chunk_index chunks = map of_nat [0..<length chunks]
    \<and> (\<forall>c \<in> set chunks. chunk_total c = of_nat (length chunks))
    \<and> validate_chunk (chunk_steps (last chunks)) = Inr ()
    \<and> (\<forall>c \<in> set chunks. validate_chunk (chunk_steps c)
        = (if is_observe_action (st_action (last (chunk_steps c))) then Inr () else Inl MissingObserve))"
proof -
  let ?sizes = "plan_chunk_size (length steps)"
  have c: "chunks = cut_chunks steps (of_nat (length ?sizes)) 0 0 ?sizes"
    using assms(1) by (simp add: chunks_def steps_def split_into_chunks_def planned_steps_def Let_def)
  note cut = cut_chunks_steps [of 0 ?sizes steps "of_nat (length ?sizes)" 0, unfolded plan_chunk_size_sum, simplified]
  have len: "length chunks = length ?sizes"
    using cut unfolding c by (metis length_map)
  have all: "concat (map chunk_steps chunks) = steps"
    using cut unfolding c by simp
  have sizes: "map (\<lambda>c. length (chunk_steps c)) chunks = ?sizes"
    using cut unfolding c by simp
  have small: "chunk_steps c \<noteq> [] \<and> length (chunk_steps c) \<le> 4" if "c \<in> set chunks" for c
  proof -
    have "length (chunk_steps c) \<in> set ?sizes"
      using that sizes by (metis image_eqI list.set_map)
    then show ?thesis
      by (auto simp: plan_chunk_size_shape split: if_splits)
  qed
  have ne: "steps \<noteq> []" "chunks \<noteq> []"
    using assms(1) all by (auto simp: steps_def planned_steps_def split: if_splits)
  have "chunk_steps (last chunks) \<noteq> []"
    using small ne(2) by simp
  moreover obtain cs c' where cs: "chunks = cs @ [c']"
    using ne(2) by (cases chunks rule: rev_exhaust) auto
  moreover have "steps = concat (map chunk_steps cs) @ chunk_steps c'"
    using all by (simp add: cs)
  ultimately have "last steps = last (chunk_steps (last chunks))"
    by simp
  then have "is_observe_action (st_action (last (chunk_steps (last chunks))))"
    using planned_ends_observe [OF assms(1)] by (simp add: steps_def)
  moreover have v: "\<forall>c \<in> set chunks. validate_chunk (chunk_steps c)
        = (if is_observe_action (st_action (last (chunk_steps c))) then Inr () else Inl MissingObserve)"
    using small by (auto simp: validate_chunk_def not_less)
  ultimately have "validate_chunk (chunk_steps (last chunks)) = Inr ()"
    using ne(2) by simp
  then show ?thesis
    using all sizes cut v len unfolding c plan_chunk_size_shape by simp
qed

theorem chunks_partition_witness:
  "concat (map chunk_steps (split_into_chunks (plan_new (replicate 5 (plan_step_new (A_Key 3 100))))))
     = replicate 5 (plan_step_new (A_Key 3 100)) @ [observe_step]"
  using chunks_partition [of "plan_new (replicate 5 (plan_step_new (A_Key 3 100)))"]
  by (simp add: plan_new_def planned_steps_def plan_step_new_def is_observe_action_def)

text \<open>A chunk in the middle need not end in an observation.\<close>

lemma middle_chunk_without_observe:
  "map (\<lambda>c. validate_chunk (chunk_steps c)) (split_into_chunks (plan_new [s, s, s, s, s]))
     = [Inl MissingObserve, Inr ()]" if "s = plan_step_new (A_Key 3 100)"
  using that by (simp add: split_into_chunks_def plan_new_def plan_step_new_def is_observe_action_def
      observe_step_def validate_chunk_def Let_def plan_chunk_size_shape)

section \<open>What may leave the device\<close>

record EgressPolicy =
  allow_text :: bool
  allow_snapshot :: bool
  allow_history :: bool

definition egress_default :: EgressPolicy where
  "egress_default = \<lparr>allow_text = True, allow_snapshot = True, allow_history = False\<rparr>"

definition DENY_ALL :: EgressPolicy where
  "DENY_ALL = \<lparr>allow_text = False, allow_snapshot = False, allow_history = False\<rparr>"

definition is_lifecycle :: "KernelEvent \<Rightarrow> bool" where
  "is_lifecycle ev = (case ev of Ev_Uptime _ \<Rightarrow> True | Ev_ConfigurationChanged \<Rightarrow> True | _ \<Rightarrow> False)"

definition strip_lifecycle_events :: "KernelEvent list \<Rightarrow> KernelEvent list" where
  "strip_lifecycle_events events = filter (\<lambda>ev. \<not> is_lifecycle ev) events"

definition egress_filter :: "EgressPolicy \<Rightarrow> Observation \<Rightarrow> Observation" where
  "egress_filter p obs =
     (let obs = (if \<not> allow_history p then obs\<lparr>obs_events := []\<rparr>
                 else obs\<lparr>obs_events := strip_lifecycle_events (obs_events obs)\<rparr>);
          obs = (if \<not> allow_text p then obs\<lparr>obs_a11y := None, obs_foreground_app := None\<rparr> else obs);
          obs = (if \<not> allow_snapshot p
                 then obs\<lparr>obs_frame := map_option (\<lambda>frame. frame\<lparr>snap_png := None\<rparr>) (obs_frame obs)\<rparr> else obs)
      in obs)"

definition is_deny_all :: "EgressPolicy \<Rightarrow> bool" where
  "is_deny_all p \<longleftrightarrow> \<not> allow_text p \<and> \<not> allow_snapshot p \<and> \<not> allow_history p"

definition package_only :: "ForegroundApp option \<Rightarrow> ForegroundApp option" where
  "package_only app = map_option (\<lambda>a. \<lparr>fg_package = fg_package a, fg_activity = [], fg_focused = fg_focused a,
     fg_since_ms = fg_since_ms a\<rparr>) app"

text \<open>What a policy lets through: the numbers and the device state always, the frame without its image
  always, and the rest field by field.\<close>

definition agree_on :: "EgressPolicy \<Rightarrow> Observation \<Rightarrow> Observation \<Rightarrow> bool" where
  "agree_on p a b \<longleftrightarrow>
     obs_seq a = obs_seq b \<and> obs_timestamp_ms a = obs_timestamp_ms b \<and> obs_state a = obs_state b
     \<and> map_option (\<lambda>f. f\<lparr>snap_png := None\<rparr>) (obs_frame a) = map_option (\<lambda>f. f\<lparr>snap_png := None\<rparr>) (obs_frame b)
     \<and> (allow_text p \<longrightarrow> obs_a11y a = obs_a11y b \<and> obs_foreground_app a = obs_foreground_app b)
     \<and> (allow_snapshot p \<longrightarrow> obs_frame a = obs_frame b)
     \<and> (allow_history p \<longrightarrow>
          filter (\<lambda>ev. \<not> is_lifecycle ev) (obs_events a) = filter (\<lambda>ev. \<not> is_lifecycle ev) (obs_events b))"

definition both :: "EgressPolicy \<Rightarrow> EgressPolicy \<Rightarrow> EgressPolicy" where
  "both p q = \<lparr>allow_text = allow_text p \<and> allow_text q, allow_snapshot = allow_snapshot p \<and> allow_snapshot q,
     allow_history = allow_history p \<and> allow_history q\<rparr>"

lemma png_idem: "map_option (\<lambda>f. f\<lparr>snap_png := None\<rparr>) (map_option (\<lambda>f. f\<lparr>snap_png := None\<rparr>) x) = map_option (\<lambda>f. f\<lparr>snap_png := None\<rparr>) x"
  by (cases x) simp_all

text \<open>
  C27. Egress is exact: two observations are forwarded as the same one iff they agree on everything
  the policy lets through, so a receiver learns those fields and nothing else. Policies compose:
  filtering by one after another forwards what both allow, so filtering is idempotent and its order
  does not matter. No lifecycle event is ever forwarded.
\<close>

theorem egress_exact:
  "(egress_filter p a = egress_filter p b \<longleftrightarrow> agree_on p a b)
   \<and> egress_filter p (egress_filter q a) = egress_filter (both p q) a
   \<and> list_all (\<lambda>ev. \<not> is_lifecycle ev) (obs_events (egress_filter p a))"
proof -
  have "list_all (\<lambda>ev. \<not> is_lifecycle ev) (obs_events (egress_filter p a))"
    by (simp add: egress_filter_def strip_lifecycle_events_def Let_def list_all_iff)
  moreover have "egress_filter p (egress_filter q a) = egress_filter (both p q) a"
    by (simp add: egress_filter_def both_def strip_lifecycle_events_def Let_def option.map_comp comp_def)
  moreover have "egress_filter p a = egress_filter p b \<longleftrightarrow> agree_on p a b"
    by (cases a; cases b) (auto simp: egress_filter_def agree_on_def strip_lifecycle_events_def Let_def)
  ultimately show ?thesis
    by blast
qed

text \<open>The strictest policy still forwards the device state and the shape of the frame.\<close>

lemma deny_all_forwards_state:
  "obs_state (egress_filter DENY_ALL obs) = obs_state obs"
  "obs_timestamp_ms (egress_filter DENY_ALL obs) = obs_timestamp_ms obs"
  by (simp_all add: egress_filter_def DENY_ALL_def Let_def)

text \<open>A policy that denies text and allows history still forwards the names in the events.\<close>

lemma denied_text_in_history:
  "obs_events (egress_filter \<lparr>allow_text = False, allow_snapshot = False, allow_history = True\<rparr>
     (observation_default\<lparr>obs_events := [Ev_ActivityResumed component]\<rparr>)) = [Ev_ActivityResumed component]"
  by (simp add: egress_filter_def strip_lifecycle_events_def is_lifecycle_def Let_def)

end
