(* ===== verification/Client_Command.thy ===== *)
theory Client_Command
  imports Session_Input Gamepad_Ring
begin

text \<open>
  The vocabulary of \<^verbatim>\<open>src/src/client.rs\<close>: the frames a client batches, the expansion of a keyboard chord
  into edges, the commands of the channel, and what the dispatcher thread does with one command.
  Arrays of a fixed length are lists; the newtypes of pointer ids, touch actions and Android keycodes
  are the integers they wrap. A \<open>FlushSlot\<close> is named by a number, and the dispatcher's state holds the
  contents of the slots.
\<close>

section \<open>Frames\<close>

definition DEFAULT_CHANNEL_BOUND :: nat where "DEFAULT_CHANNEL_BOUND = 4096"
definition TOUCH_BATCH_FRAMES :: nat where "TOUCH_BATCH_FRAMES = 24"
definition KEYBOARD_BATCH_FRAMES :: nat where "KEYBOARD_BATCH_FRAMES = 32"
definition KEYBOARD_CHORD_KEYS :: nat where [simp]: "KEYBOARD_CHORD_KEYS = 6"
definition KEYBOARD_CHORD_EDGES :: nat where [simp]: "KEYBOARD_CHORD_EDGES = KEYBOARD_CHORD_KEYS * 2"
definition ANDROID_KEY_BATCH_FRAMES :: nat where "ANDROID_KEY_BATCH_FRAMES = 32"
definition GAMEPAD_BATCH_FRAMES :: nat where "GAMEPAD_BATCH_FRAMES = DIRECT_GAMEPAD_BATCH_FRAMES"
definition MOUSE_BATCH_FRAMES :: nat where "MOUSE_BATCH_FRAMES = 32"
definition SCROLL_BATCH_FRAMES :: nat where "SCROLL_BATCH_FRAMES = 32"

record TouchFrame =
  tf_action :: u8
  tf_pointer_id :: u64
  tf_x :: i32
  tf_y :: i32
  tf_pressure :: f32

definition touch_frame :: "u8 \<Rightarrow> u64 \<Rightarrow> i32 \<Rightarrow> i32 \<Rightarrow> f32 \<Rightarrow> TouchFrame" where
  \<comment> \<open>\<open>new\<close>, \<open>with_action\<close> and \<open>with_pointer\<close>\<close>
  "touch_frame action pointer_id x y pressure =
     \<lparr>tf_action = action, tf_pointer_id = pointer_id, tf_x = x, tf_y = y, tf_pressure = pressure\<rparr>"

definition TOUCH_EMPTY :: TouchFrame where
  "TOUCH_EMPTY = touch_frame 0 0 0 0 (Fin 0)"

record KeyboardFrame =
  kf_scancode :: u8
  kf_pressed :: bool
  kf_mods :: modifiers

definition keyboard_frame :: "u8 \<Rightarrow> bool \<Rightarrow> modifiers \<Rightarrow> KeyboardFrame" where
  "keyboard_frame sc pressed mods = \<lparr>kf_scancode = sc, kf_pressed = pressed, kf_mods = mods\<rparr>"

definition KEYBOARD_EMPTY :: KeyboardFrame where
  "KEYBOARD_EMPTY = keyboard_frame 0 False mod_empty"

definition key_down :: "u8 \<Rightarrow> modifiers \<Rightarrow> KeyboardFrame" where
  "key_down sc mods = keyboard_frame sc True mods"

definition key_up :: "u8 \<Rightarrow> KeyboardFrame" where
  "key_up sc = keyboard_frame sc False mod_empty"

definition scancode_frame :: "Scancode \<Rightarrow> bool \<Rightarrow> modifiers \<Rightarrow> KeyboardFrame" where
  "scancode_frame sc pressed mods = keyboard_frame (to_u8 sc) pressed mods"

definition scancode_down :: "Scancode \<Rightarrow> modifiers \<Rightarrow> KeyboardFrame" where
  "scancode_down sc mods = key_down (to_u8 sc) mods"

definition scancode_up :: "Scancode \<Rightarrow> KeyboardFrame" where
  "scancode_up sc = key_up (to_u8 sc)"

record AndroidKeyFrame =
  af_action :: u8
  af_keycode :: u32
  af_repeat :: u32
  af_metastate :: u32

definition android_key_frame :: "u8 \<Rightarrow> u32 \<Rightarrow> u32 \<Rightarrow> u32 \<Rightarrow> AndroidKeyFrame" where
  \<comment> \<open>\<open>new\<close> and \<open>typed\<close>\<close>
  "android_key_frame action keycode repeat metastate =
     \<lparr>af_action = action, af_keycode = keycode, af_repeat = repeat, af_metastate = metastate\<rparr>"

definition ANDROID_KEY_EMPTY :: AndroidKeyFrame where
  "ANDROID_KEY_EMPTY = android_key_frame 0 0 0 0"

definition android_key_down :: "u32 \<Rightarrow> u32 \<Rightarrow> AndroidKeyFrame" where
  "android_key_down keycode metastate = android_key_frame KEY_DOWN keycode 0 metastate"

definition android_key_up :: "u32 \<Rightarrow> u32 \<Rightarrow> AndroidKeyFrame" where
  "android_key_up keycode metastate = android_key_frame KEY_UP keycode 0 metastate"

record MouseFrame =
  mf_dx :: i32
  mf_dy :: i32
  mf_buttons :: u8

definition motion_frame :: "i32 \<Rightarrow> i32 \<Rightarrow> u8 \<Rightarrow> MouseFrame" where
  "motion_frame dx dy buttons = \<lparr>mf_dx = dx, mf_dy = dy, mf_buttons = buttons\<rparr>"

definition MOUSE_EMPTY :: MouseFrame where
  "MOUSE_EMPTY = motion_frame 0 0 0"

definition motion_buttons_frame :: "i32 \<Rightarrow> i32 \<Rightarrow> MouseButton list \<Rightarrow> MouseFrame" where
  "motion_buttons_frame dx dy buttons = motion_frame dx dy (mouse_button_state buttons)"

definition buttons_frame :: "u8 \<Rightarrow> MouseFrame" where
  "buttons_frame buttons = \<lparr>mf_dx = 0, mf_dy = 0, mf_buttons = buttons\<rparr>"

record ScrollFrame =
  sf_x :: i32
  sf_y :: i32
  sf_hscroll :: f32
  sf_vscroll :: f32
  sf_buttons :: u32

definition scroll_frame :: "i32 \<Rightarrow> i32 \<Rightarrow> f32 \<Rightarrow> f32 \<Rightarrow> u32 \<Rightarrow> ScrollFrame" where
  "scroll_frame x y hscroll vscroll buttons =
     \<lparr>sf_x = x, sf_y = y, sf_hscroll = hscroll, sf_vscroll = vscroll, sf_buttons = buttons\<rparr>"

definition SCROLL_EMPTY :: ScrollFrame where
  "SCROLL_EMPTY = scroll_frame 0 0 (Fin 0) (Fin 0) 0"

definition scroll_frame_plain :: "i32 \<Rightarrow> i32 \<Rightarrow> f32 \<Rightarrow> f32 \<Rightarrow> ScrollFrame" where
  "scroll_frame_plain x y hscroll vscroll = scroll_frame x y hscroll vscroll 0"

definition FRAME_ZERO :: GamepadFrameRaw where
  \<comment> \<open>\<open>GamepadFrameRaw::new(0, 0, 0, 0, 0, 0, 0)\<close>\<close>
  "FRAME_ZERO = \<lparr>gf_buttons = 0, gf_left_x = 0, gf_left_y = 0, gf_right_x = 0, gf_right_y = 0,
     gf_left_trigger = 0, gf_right_trigger = 0\<rparr>"

section \<open>Chords\<close>

record KeyboardChordFrame =
  kc_len :: u8
  kc_keys :: "u8 list"
  kc_mods :: modifiers

definition chord_new :: "u8 \<Rightarrow> u8 list \<Rightarrow> modifiers \<Rightarrow> KeyboardChordFrame" where
  "chord_new len ks mods = \<lparr>kc_len = len, kc_keys = ks, kc_mods = mods\<rparr>"

definition CHORD_EMPTY :: KeyboardChordFrame where
  "CHORD_EMPTY = chord_new 0 (replicate KEYBOARD_CHORD_KEYS 0) mod_empty"

definition chord_single :: "u8 \<Rightarrow> modifiers \<Rightarrow> KeyboardChordFrame" where
  "chord_single sc mods = chord_new 1 ((replicate KEYBOARD_CHORD_KEYS 0)[0 := sc]) mods"

definition chord_scancode :: "Scancode \<Rightarrow> modifiers \<Rightarrow> KeyboardChordFrame" where
  "chord_scancode sc mods = chord_single (to_u8 sc) mods"

abbreviation chord_modifier_error :: fault where
  "chord_modifier_error \<equiv> lifecycle ''keyboard chord keys must be non-modifier scancodes''"

fun chord_fill :: "('k \<Rightarrow> bool) \<Rightarrow> ('k \<Rightarrow> u8) \<Rightarrow> nat \<Rightarrow> 'k list \<Rightarrow> u8 list \<Rightarrow> u8 list res" where
  \<comment> \<open>the loop over \<open>keys.iter_mut().zip(scancodes)\<close> of both constructors\<close>
  "chord_fill bad code i [] ks = Inr ks"
| "chord_fill bad code i (sc # scs) ks =
     (if bad sc then Inl chord_modifier_error else chord_fill bad code (Suc i) scs (ks[i := code sc]))"

definition chord_try_new :: "u8 list \<Rightarrow> modifiers \<Rightarrow> KeyboardChordFrame res" where
  "chord_try_new scancodes mods =
     (if KEYBOARD_CHORD_KEYS < length scancodes then Inl (lifecycle ''keyboard chord too large'')
      else case chord_fill (\<lambda>sc. 0x65 < (ucast sc :: u16)) id 0 scancodes (replicate KEYBOARD_CHORD_KEYS 0) of
        Inl e \<Rightarrow> Inl e | Inr ks \<Rightarrow> Inr (chord_new (of_nat (length scancodes)) ks mods))"

definition chord_try_scancodes :: "Scancode list \<Rightarrow> modifiers \<Rightarrow> KeyboardChordFrame res" where
  "chord_try_scancodes scancodes mods =
     (if KEYBOARD_CHORD_KEYS < length scancodes then Inl (lifecycle ''keyboard chord too large'')
      else case chord_fill is_modifier to_u8 0 scancodes (replicate KEYBOARD_CHORD_KEYS 0) of
        Inl e \<Rightarrow> Inl e | Inr ks \<Rightarrow> Inr (chord_new (of_nat (length scancodes)) ks mods))"

definition edge_frames :: "KeyboardChordFrame \<Rightarrow> (KeyboardFrame list \<times> nat) res" where
  "edge_frames chord =
     (let len = unat (kc_len chord); ks = kc_keys chord; mods = kc_mods chord in
      if KEYBOARD_CHORD_KEYS < len then Inl (lifecycle ''keyboard chord length overflow'')
      else
        let frames = replicate KEYBOARD_CHORD_EDGES KEYBOARD_EMPTY;
            frames = fold (\<lambda>idx frames. frames[idx := key_down (ks ! idx) mods]) [0..<len] frames;
            frames = fold (\<lambda>release_idx frames. frames[len + release_idx :=
                keyboard_frame (ks ! (len - 1 - release_idx)) False
                  (if release_idx + 1 = len then mod_empty else mods)]) [0..<len] frames
        in Inr (frames, len * 2))"

section \<open>Commands\<close>

type_synonym slot = nat \<comment> \<open>an \<open>Arc<FlushSlot>\<close>\<close>

text \<open>The enum in groups of consecutive variants; each group is one datatype.\<close>

datatype key_command =
    TypeText ustr
  | TypeTextStrict ustr
  | Key u8 bool modifiers
  | KeyTap u8 modifiers
  | KeyBatchFixed u8 "KeyboardFrame list"

datatype mouse_command =
    MouseMotion i32 i32 u8
  | MouseButtons u8
  | MouseScroll f32 f32
  | MouseBatchFixed u8 "MouseFrame list"

datatype android_command =
    InjectKeycodeCmd u8 u32 u32 u32
  | AndroidKeyTap u32 u32
  | AndroidKeyBatchFixed u8 "AndroidKeyFrame list"
  | BackOrScreenOnCmd u8

datatype touch_command =
    MultitouchDown u64 i32 i32 f32
  | MultitouchMove u64 i32 i32 f32
  | MultitouchUp u64
  | MultitouchCancel u64
  | TouchBatchFixed u8 "TouchFrame list"
  | InjectScroll i32 i32 f32 f32 u32
  | InjectScrollBatchFixed u8 "ScrollFrame list"

datatype gamepad_command =
    GamepadButtonCmd GamepadButton bool
  | GamepadButtons u32
  | GamepadStick GamepadAxis f32
  | GamepadStickRaw GamepadAxis i16
  | GamepadLeftStickRaw i16 i16
  | GamepadRightStickRaw i16 i16
  | GamepadTriggersRaw i16 i16
  | GamepadSticksRaw i16 i16 i16 i16 i16 i16
  | GamepadFrameRawCmd u32 i16 i16 i16 i16 i16 i16
  | GamepadFrameRawUnchecked GamepadFrameRaw
  | GamepadFrameRawBatch "GamepadFrameRaw list"
  | GamepadFrameRawBatchFixed u8 "GamepadFrameRaw list"
  | GamepadFrameRawBatchFixedUnchecked u8 "GamepadFrameRaw list"
  | GamepadFrameRawBatchUnchecked "GamepadFrameRaw list"
  | GamepadPackedFrame "byte list"
  | GamepadPackedFrameBatch "byte list list"
  | GamepadPackedFrameBatchFixed u8 "byte list list"

datatype screen_command =
    SetScreenSize u16 u16
  | SetScreenPower bool
  | ShowNotifications
  | ShowQuickSettings
  | CollapsePanelsCmd
  | RotateDeviceCmd
  | ResizeDisplayCmd u16 u16
  | SetTorch bool
  | CameraZoomInCmd
  | CameraZoomOutCmd
  | OpenHardKeyboardSettingsCmd
  | ResetVideoCmd
  | AiConfigCmd u8 u16 u16
  | AiQueryCmd u64
  | AiPauseCmd

datatype control_command =
    LaunchApp "byte list"
  | SetClipboardCmd "byte list" bool
  | SetClipboardSequenced u64 "byte list" bool
  | GetClipboardCmd u8
  | FlushAck u64 slot
  | Flush
  | Close

datatype HidCommand =
    C_Key key_command
  | C_Mouse mouse_command
  | C_Android android_command
  | C_Touch touch_command
  | C_Gamepad gamepad_command
  | C_Screen screen_command
  | C_Control control_command

section \<open>The dispatcher\<close>

record 'e Dispatcher =
  dp_session :: "'e HidSession"
  dp_pending_error :: "error option"
  dp_slots :: "slot \<rightharpoonup> error + nat" \<comment> \<open>the \<open>Option<Result<usize>>\<close> inside each slot\<close>

definition slot_notify :: "slot \<Rightarrow> error + nat \<Rightarrow> 'e Dispatcher \<Rightarrow> 'e Dispatcher" where
  "slot_notify i r d = d\<lparr>dp_slots := (dp_slots d)(i \<mapsto> r)\<rparr>"

definition slot_wait :: "slot \<Rightarrow> 'e Dispatcher \<Rightarrow> ((error + nat) \<times> 'e Dispatcher) option" where
  \<comment> \<open>\<open>None\<close>: the waiter blocks until another thread has written the slot\<close>
  "slot_wait i d = (case dp_slots d i of
     None \<Rightarrow> None | Some r \<Rightarrow> Some (r, d\<lparr>dp_slots := (dp_slots d)(i := None)\<rparr>))"

definition record_first_error :: "('e HidSession, 'a) act \<Rightarrow> ('e Dispatcher, unit) act" where
  \<comment> \<open>runs \<open>p\<close> on the session; a panic ends the thread\<close>
  "record_first_error p d = (case p (dp_session d) of
     (Inl Panicked, s) \<Rightarrow> (Inl Panicked, d\<lparr>dp_session := s\<rparr>)
   | (Inl (Err e), s) \<Rightarrow> (Inr (), d\<lparr>dp_session := s,
       dp_pending_error := (case dp_pending_error d of None \<Rightarrow> Some e | Some e' \<Rightarrow> Some e')\<rparr>)
   | (Inr _, s) \<Rightarrow> (Inr (), d\<lparr>dp_session := s\<rparr>))"

abbreviation go_on :: "('e Dispatcher, unit) act \<Rightarrow> ('e Dispatcher, bool) act" where
  "go_on p \<equiv> act_then p (\<lambda>_. act_ret False)"

abbreviation run_one :: "('e HidSession, 'a) act \<Rightarrow> ('e Dispatcher, bool) act" where
  "run_one p \<equiv> go_on (record_first_error p)"

definition first_frames :: "u8 \<Rightarrow> 'f list \<Rightarrow> ('f list \<Rightarrow> ('e Dispatcher, unit) act) \<Rightarrow> ('e Dispatcher, unit) act" where
  \<comment> \<open>\<open>&frames[..len as usize]\<close>\<close>
  "first_frames len frames p =
     (if length frames < unat len then act_fail Panicked else p (take (unat len) frames))"

definition dispatch_flush_ack :: "'e transport_ops \<Rightarrow> slot \<Rightarrow> ('e Dispatcher, bool) act" where
  "dispatch_flush_ack ops slot d =
     (let prior_error = dp_pending_error d; d = d\<lparr>dp_pending_error := None\<rparr> in
      case session_flush_now ops (dp_session d) of
        (Inl Panicked, s) \<Rightarrow> (Inl Panicked, d\<lparr>dp_session := s\<rparr>)
      | (Inl (Err flush_err), s) \<Rightarrow>
          (let d = d\<lparr>dp_session := s\<rparr> in
           case prior_error of
             Some err \<Rightarrow> (Inr False, slot_notify slot (Inl err) (d\<lparr>dp_pending_error := Some flush_err\<rparr>))
           | None \<Rightarrow> (Inr False, slot_notify slot (Inl flush_err) d))
      | (Inr n, s) \<Rightarrow>
          (let d = d\<lparr>dp_session := s\<rparr> in
           (Inr False, slot_notify slot (case prior_error of Some err \<Rightarrow> Inl err | None \<Rightarrow> Inr n) d)))"

text \<open>The arms of the match, from the last group to the first.\<close>

definition dispatch_control :: "'e transport_ops \<Rightarrow> control_command \<Rightarrow> ('e Dispatcher, bool) act" where
  "dispatch_control ops cmd = (case cmd of
     LaunchApp nm \<Rightarrow> run_one (session_send ops (StartApp nm))
   | SetClipboardCmd t paste \<Rightarrow>
       run_one (session_send ops (SetClipboard \<lparr>sc_sequence = 0, sc_paste = paste, sc_text = t\<rparr>))
   | SetClipboardSequenced sequence t paste \<Rightarrow>
       run_one (session_send ops (SetClipboard \<lparr>sc_sequence = sequence, sc_paste = paste, sc_text = t\<rparr>))
   | GetClipboardCmd copy_key \<Rightarrow> run_one (request_clipboard ops copy_key)
   | FlushAck seq slot \<Rightarrow> dispatch_flush_ack ops slot
   | Flush \<Rightarrow> run_one (session_flush_now ops)
   | Close \<Rightarrow> act_then (act_ignore (\<lambda>d. case session_close ops (dp_session d) of (r, s) \<Rightarrow> (r, d\<lparr>dp_session := s\<rparr>)))
       (\<lambda>_. act_ret True))"

definition dispatch_screen :: "'e transport_ops \<Rightarrow> screen_command \<Rightarrow> ('e Dispatcher, bool) act" where
  "dispatch_screen ops cmd = (case cmd of
     SetScreenSize w h \<Rightarrow> go_on (act_modify (\<lambda>d. d\<lparr>dp_session := set_screen_size w h (dp_session d)\<rparr>))
   | SetScreenPower b \<Rightarrow> run_one (session_send ops (SetDisplayPower b))
   | ShowNotifications \<Rightarrow> run_one (show_notifications ops)
   | ShowQuickSettings \<Rightarrow> run_one (show_quick_settings ops)
   | CollapsePanelsCmd \<Rightarrow> run_one (collapse_panels ops)
   | RotateDeviceCmd \<Rightarrow> run_one (rotate_device ops)
   | ResizeDisplayCmd w h \<Rightarrow> run_one (resize_display ops w h)
   | SetTorch b \<Rightarrow> run_one (set_torch ops b)
   | CameraZoomInCmd \<Rightarrow> run_one (camera_zoom_in ops)
   | CameraZoomOutCmd \<Rightarrow> run_one (camera_zoom_out ops)
   | OpenHardKeyboardSettingsCmd \<Rightarrow> run_one (open_hard_keyboard_settings ops)
   | ResetVideoCmd \<Rightarrow> run_one (reset_video ops)
   | AiConfigCmd flags interval feature_dim \<Rightarrow>
       run_one (session_send ops (AiConfig \<lparr>ac_flags = flags, ac_sample_interval_ms = interval,
         ac_feature_dim = feature_dim\<rparr>))
   | AiQueryCmd since \<Rightarrow> run_one (session_send ops (AiQuery since))
   | AiPauseCmd \<Rightarrow> run_one (session_send ops AiPause))"

definition dispatch_gamepad :: "'e transport_ops \<Rightarrow> gamepad_command \<Rightarrow> ('e Dispatcher, bool) act" where
  "dispatch_gamepad ops cmd = (case cmd of
     GamepadButtonCmd btn pressed \<Rightarrow> run_one (set_button ops btn pressed)
   | GamepadButtons buttons \<Rightarrow> run_one (set_buttons ops buttons)
   | GamepadStick axis v \<Rightarrow> run_one (set_stick ops axis v)
   | GamepadStickRaw axis v \<Rightarrow> run_one (set_stick_raw ops axis v)
   | GamepadLeftStickRaw x y \<Rightarrow> run_one (set_left_stick_raw ops x y)
   | GamepadRightStickRaw x y \<Rightarrow> run_one (set_right_stick_raw ops x y)
   | GamepadTriggersRaw left right \<Rightarrow> run_one (set_triggers_raw ops left right)
   | GamepadSticksRaw lx ly rx ry lt rt \<Rightarrow> run_one (session_set_sticks_raw ops lx ly rx ry lt rt)
   | GamepadFrameRawCmd buttons lx ly rx ry lt rt \<Rightarrow> run_one (set_frame_raw ops buttons lx ly rx ry lt rt)
   | GamepadFrameRawUnchecked frame \<Rightarrow> run_one (set_frame_raw_unchecked_frame ops frame)
   | GamepadFrameRawBatch frames \<Rightarrow> run_one (set_frame_raw_batch ops frames)
   | GamepadFrameRawBatchFixed len frames \<Rightarrow>
       go_on (first_frames len frames (\<lambda>fs. record_first_error (set_frame_raw_batch ops fs)))
   | GamepadFrameRawBatchFixedUnchecked len frames \<Rightarrow>
       go_on (first_frames len frames (\<lambda>fs. record_first_error (set_frame_raw_batch_unchecked ops fs)))
   | GamepadFrameRawBatchUnchecked frames \<Rightarrow> run_one (set_frame_raw_batch_unchecked ops frames)
   | GamepadPackedFrame frame \<Rightarrow> run_one (set_frame_raw_packed ops frame)
   | GamepadPackedFrameBatch frames \<Rightarrow> run_one (set_frame_raw_packed_batch ops frames)
   | GamepadPackedFrameBatchFixed len frames \<Rightarrow>
       go_on (first_frames len frames (\<lambda>fs. record_first_error (set_frame_raw_packed_batch ops fs))))"

definition dispatch_touch :: "'e transport_ops \<Rightarrow> touch_command \<Rightarrow> ('e Dispatcher, bool) act" where
  "dispatch_touch ops cmd = (case cmd of
     MultitouchDown i x y pressure \<Rightarrow> run_one (inject_touch ops TOUCH_DOWN i x y pressure)
   | MultitouchMove i x y pressure \<Rightarrow> run_one (inject_touch ops TOUCH_MOVE i x y pressure)
   | MultitouchUp i \<Rightarrow> run_one (inject_touch ops TOUCH_UP i 0 0 (Fin 0))
   | MultitouchCancel i \<Rightarrow> run_one (cancel_touch ops i)
   | TouchBatchFixed len frames \<Rightarrow> go_on (first_frames len frames (act_each (\<lambda>f.
       record_first_error (inject_touch ops (tf_action f) (tf_pointer_id f) (tf_x f) (tf_y f) (tf_pressure f)))))
   | InjectScroll x y hscroll vscroll buttons \<Rightarrow> run_one (inject_scroll ops x y hscroll vscroll buttons)
   | InjectScrollBatchFixed len frames \<Rightarrow> go_on (first_frames len frames (act_each (\<lambda>f.
       record_first_error (inject_scroll ops (sf_x f) (sf_y f) (sf_hscroll f) (sf_vscroll f) (sf_buttons f))))))"

definition dispatch_android :: "'e transport_ops \<Rightarrow> android_command \<Rightarrow> ('e Dispatcher, bool) act" where
  "dispatch_android ops cmd = (case cmd of
     InjectKeycodeCmd action keycode repeat metastate \<Rightarrow>
       run_one (session_inject_keycode ops action keycode repeat metastate)
   | AndroidKeyTap keycode metastate \<Rightarrow> run_one (tap_android_keycode ops keycode metastate)
   | AndroidKeyBatchFixed len frames \<Rightarrow> go_on (first_frames len frames (act_each (\<lambda>f. record_first_error
       (session_inject_keycode ops (af_action f) (af_keycode f) (af_repeat f) (af_metastate f)))))
   | BackOrScreenOnCmd action \<Rightarrow> run_one (session_send ops (BackOrScreenOn action)))"

definition dispatch_mouse :: "'e transport_ops \<Rightarrow> mouse_command \<Rightarrow> ('e Dispatcher, bool) act" where
  "dispatch_mouse ops cmd = (case cmd of
     MouseMotion dx dy buttons \<Rightarrow> run_one (mouse_motion ops dx dy buttons)
   | MouseButtons buttons \<Rightarrow> run_one (mouse_buttons ops buttons)
   | MouseScroll hscroll vscroll \<Rightarrow> run_one (mouse_scroll ops hscroll vscroll)
   | MouseBatchFixed len frames \<Rightarrow> go_on (first_frames len frames (act_each (\<lambda>f.
       record_first_error (mouse_motion ops (mf_dx f) (mf_dy f) (mf_buttons f))))))"

definition dispatch_key :: "'e transport_ops \<Rightarrow> key_command \<Rightarrow> ('e Dispatcher, bool) act" where
  "dispatch_key ops cmd = (case cmd of
     TypeText t \<Rightarrow> run_one (type_text ops t)
   | TypeTextStrict t \<Rightarrow> run_one (type_text_strict ops t)
   | Key sc pressed mods \<Rightarrow> run_one (session_key ops sc pressed mods)
   | KeyTap sc mods \<Rightarrow> run_one (act_then (session_key ops sc True mods) (\<lambda>_. session_key ops sc False mod_empty))
   | KeyBatchFixed len frames \<Rightarrow> go_on (first_frames len frames (act_each (\<lambda>f.
       record_first_error (session_key ops (kf_scancode f) (kf_pressed f) (kf_mods f))))))"

definition dispatch_to_session :: "'e transport_ops \<Rightarrow> HidCommand \<Rightarrow> ('e Dispatcher, bool) act" where
  \<comment> \<open>\<open>True\<close> ends the loop\<close>
  "dispatch_to_session ops cmd = (case cmd of
     C_Key c \<Rightarrow> dispatch_key ops c
   | C_Mouse c \<Rightarrow> dispatch_mouse ops c
   | C_Android c \<Rightarrow> dispatch_android ops c
   | C_Touch c \<Rightarrow> dispatch_touch ops c
   | C_Gamepad c \<Rightarrow> dispatch_gamepad ops c
   | C_Screen c \<Rightarrow> dispatch_screen ops c
   | C_Control c \<Rightarrow> dispatch_control ops c)"

lemmas dispatch_defs = dispatch_to_session_def dispatch_key_def dispatch_mouse_def dispatch_android_def dispatch_touch_def
  dispatch_gamepad_def dispatch_screen_def dispatch_control_def

end
