(* ===== verification/Client_Dispatch.thy ===== *)
theory Client_Dispatch
  imports Client_Command
begin

text \<open>
  The dispatcher thread of \<^verbatim>\<open>src/src/client.rs\<close> and what its users rely on: batched commands act like
  their single commands, every reported result is that of the commands before the barrier, the first
  error is reported exactly once, and the session the thread owns ends with all its devices destroyed.
\<close>

section \<open>The thread\<close>

fun dispatch_all :: "'e transport_ops \<Rightarrow> HidCommand list \<Rightarrow> ('e Dispatcher, bool) act" where
  \<comment> \<open>commands in the order of the channel, until one ends the loop\<close>
  "dispatch_all ops [] = act_ret False"
| "dispatch_all ops (cmd # cmds) =
     act_then (dispatch_to_session ops cmd) (\<lambda>stop. if stop then act_ret True else dispatch_all ops cmds)"

fun dispatcher_turns :: "'e transport_ops \<Rightarrow> HidCommand list list \<Rightarrow> ('e Dispatcher, bool) act" where
  \<comment> \<open>one turn of the outer loop handles the command \<open>recv\<close> waits for and those \<open>try_recv\<close> finds after it;
    at the end of the list all senders are gone\<close>
  "dispatcher_turns ops [] = act_ret False"
| "dispatcher_turns ops (turn # turns) =
     act_then (dispatch_all ops turn) (\<lambda>stop. if stop then act_ret True else dispatcher_turns ops turns)"

definition loop_exit :: "'e transport_ops \<Rightarrow> bool res \<Rightarrow> 'e Dispatcher \<Rightarrow> unit res \<times> 'e" where
  \<comment> \<open>how the loop ends: a panic drops the session while it unwinds, \<open>Close\<close> has closed it, and without
    senders it is closed here\<close>
  "loop_exit ops r d = (case r of
     Inl e \<Rightarrow> (Inl e, drop_session ops (dp_session d))
   | Inr True \<Rightarrow> session_into_inner ops (dp_session d)
   | Inr False \<Rightarrow> (case act_ignore (session_close ops) (dp_session d) of
       (Inl e, s) \<Rightarrow> (Inl e, drop_session ops s)
     | (Inr _, s) \<Rightarrow> session_into_inner ops s))"

definition dispatcher_loop ::
    "'e transport_ops \<Rightarrow> HidCommand list list \<Rightarrow> 'e HidSession \<Rightarrow> (slot \<rightharpoonup> error + nat) \<Rightarrow> (unit res \<times> 'e) \<times> (slot \<rightharpoonup> error + nat)" where
  \<comment> \<open>the result of the thread and the transport\<close>
  "dispatcher_loop ops turns session acks =
     (case dispatcher_turns ops turns \<lparr>dp_session = session, dp_pending_error = None, dp_slots = acks\<rparr> of
        (r, d) \<Rightarrow> (loop_exit ops r d, dp_slots d))"

definition dispatcher_join :: "(unit res \<times> 'e) option \<Rightarrow> error + 'e" where
  \<comment> \<open>the argument is the thread behind \<open>self.join\<close>\<close>
  "dispatcher_join j = (case j of
     None \<Rightarrow> Inl (DispatcherDown ''already joined'')
   | Some (Inr _, t) \<Rightarrow> Inr t
   | Some (Inl (Err e), t) \<Rightarrow> Inl e
   | Some (Inl Panicked, t) \<Rightarrow> Inl (DispatcherDown ''thread panicked''))"

lemma act_then_keep: "act_then p act_ret = p"
  by (auto simp: fun_eq_iff act_then_def act_ret_def split: prod.split sum.split)

lemma dispatch_all_append:
  "dispatch_all ops (cs @ ds) = act_then (dispatch_all ops cs) (\<lambda>stop. if stop then act_ret True else dispatch_all ops ds)"
proof (induction cs)
  case (Cons c cs)
  then show ?case
    by (auto simp: fun_eq_iff act_then_def split: prod.split sum.split)
qed (simp add: fun_eq_iff act_then_def)

lemma dispatcher_turns_flat: "dispatcher_turns ops turns = dispatch_all ops (concat turns)"
  by (induction turns) (simp_all add: dispatch_all_append cong: if_cong)

section \<open>Batched commands\<close>

definition touch_single :: "TouchFrame \<Rightarrow> HidCommand" where
  \<comment> \<open>the enum has no command for a release that carries a position or a pressure, nor for other actions:
    such a frame stays a batch of one frame\<close>
  "touch_single f =
     (if tf_action f = TOUCH_DOWN then C_Touch (MultitouchDown (tf_pointer_id f) (tf_x f) (tf_y f) (tf_pressure f))
      else if tf_action f = TOUCH_MOVE then C_Touch (MultitouchMove (tf_pointer_id f) (tf_x f) (tf_y f) (tf_pressure f))
      else if tf_action f = TOUCH_UP \<and> tf_x f = 0 \<and> tf_y f = 0 \<and> tf_pressure f = Fin 0
      then C_Touch (MultitouchUp (tf_pointer_id f))
      else C_Touch (TouchBatchFixed 1 [f]))"

fun expand :: "HidCommand \<Rightarrow> HidCommand list" where
  \<comment> \<open>the single commands a batch of keys, motions, touches or scrolls stands for\<close>
  "expand (C_Key (KeyBatchFixed len fs)) =
     map (\<lambda>f. C_Key (Key (kf_scancode f) (kf_pressed f) (kf_mods f))) (take (unat len) fs)"
| "expand (C_Mouse (MouseBatchFixed len fs)) =
     map (\<lambda>f. C_Mouse (MouseMotion (mf_dx f) (mf_dy f) (mf_buttons f))) (take (unat len) fs)"
| "expand (C_Android (AndroidKeyBatchFixed len fs)) =
     map (\<lambda>f. C_Android (InjectKeycodeCmd (af_action f) (af_keycode f) (af_repeat f) (af_metastate f))) (take (unat len) fs)"
| "expand (C_Touch (TouchBatchFixed len fs)) = map touch_single (take (unat len) fs)"
| "expand (C_Touch (InjectScrollBatchFixed len fs)) =
     map (\<lambda>f. C_Touch (InjectScroll (sf_x f) (sf_y f) (sf_hscroll f) (sf_vscroll f) (sf_buttons f))) (take (unat len) fs)"
| "expand c = [c]"

definition raw_single :: "GamepadFrameRaw \<Rightarrow> HidCommand" where
  "raw_single f = C_Gamepad (GamepadFrameRawCmd (gf_buttons f) (gf_left_x f) (gf_left_y f) (gf_right_x f) (gf_right_y f)
     (gf_left_trigger f) (gf_right_trigger f))"

fun pad_singles :: "gamepad_command \<Rightarrow> HidCommand list" where
  \<comment> \<open>the single commands a batch of gamepad frames stands for\<close>
  "pad_singles (GamepadFrameRawBatch fs) = map raw_single fs"
| "pad_singles (GamepadFrameRawBatchFixed len fs) = map raw_single (take (unat len) fs)"
| "pad_singles (GamepadFrameRawBatchUnchecked fs) = map (\<lambda>f. C_Gamepad (GamepadFrameRawUnchecked f)) fs"
| "pad_singles (GamepadFrameRawBatchFixedUnchecked len fs) =
     map (\<lambda>f. C_Gamepad (GamepadFrameRawUnchecked f)) (take (unat len) fs)"
| "pad_singles (GamepadPackedFrameBatch fs) = map (\<lambda>f. C_Gamepad (GamepadPackedFrame f)) fs"
| "pad_singles (GamepadPackedFrameBatchFixed len fs) = map (\<lambda>f. C_Gamepad (GamepadPackedFrame f)) (take (unat len) fs)"
| "pad_singles c = [C_Gamepad c]"

fun pad_batch :: "gamepad_command \<Rightarrow> bool" where
  "pad_batch (GamepadFrameRawBatch fs) = True"
| "pad_batch (GamepadFrameRawBatchFixed len fs) = True"
| "pad_batch (GamepadFrameRawBatchUnchecked fs) = True"
| "pad_batch (GamepadFrameRawBatchFixedUnchecked len fs) = True"
| "pad_batch (GamepadPackedFrameBatch fs) = True"
| "pad_batch (GamepadPackedFrameBatchFixed len fs) = True"
| "pad_batch c = False"

definition batch_fits :: "HidCommand \<Rightarrow> bool" where
  \<comment> \<open>the length of a batch does not exceed its array\<close>
  "batch_fits c = (case c of
     C_Key (KeyBatchFixed len fs) \<Rightarrow> unat len \<le> length fs
   | C_Mouse (MouseBatchFixed len fs) \<Rightarrow> unat len \<le> length fs
   | C_Android (AndroidKeyBatchFixed len fs) \<Rightarrow> unat len \<le> length fs
   | C_Touch (TouchBatchFixed len fs) \<Rightarrow> unat len \<le> length fs
   | C_Touch (InjectScrollBatchFixed len fs) \<Rightarrow> unat len \<le> length fs
   | C_Gamepad (GamepadFrameRawBatchFixed len fs) \<Rightarrow> unat len \<le> length fs
   | C_Gamepad (GamepadFrameRawBatchFixedUnchecked len fs) \<Rightarrow> unat len \<le> length fs
   | C_Gamepad (GamepadPackedFrameBatchFixed len fs) \<Rightarrow> unat len \<le> length fs
   | _ \<Rightarrow> True)"

lemma dispatch_all_one: "dispatch_all ops [c] = dispatch_to_session ops c"
  by (auto simp: fun_eq_iff act_then_def split: prod.split sum.split)

lemma first_frames_fit: "unat len \<le> length fs \<Longrightarrow> first_frames len fs p = p (take (unat len) fs)"
  by (simp add: first_frames_def)

lemma dispatch_all_map:
  assumes "\<And>f. dispatch_to_session ops (g f) = go_on (p f)"
  shows "dispatch_all ops (map g fs) = go_on (act_each p fs)"
proof (induction fs)
  case (Cons f fs)
  then show ?case
    by (auto simp: fun_eq_iff assms act_then_def split: prod.split sum.split)
qed (simp add: fun_eq_iff act_then_def)

lemma dispatch_touch_single:
  "dispatch_to_session ops (touch_single f) =
     go_on (record_first_error (inject_touch ops (tf_action f) (tf_pointer_id f) (tf_x f) (tf_y f) (tf_pressure f)))"
  by (simp add: touch_single_def dispatch_defs first_frames_def act_then_keep)

lemma dispatch_expand:
  assumes "batch_fits c"
  shows "dispatch_to_session ops c = dispatch_all ops (expand c)"
proof -
  have touch: "dispatch_all ops (map touch_single fs) = go_on (act_each (\<lambda>f. record_first_error
      (inject_touch ops (tf_action f) (tf_pointer_id f) (tf_x f) (tf_y f) (tf_pressure f))) fs)" for fs
    by (rule dispatch_all_map) (rule dispatch_touch_single)
  show ?thesis
    using assms
    by (cases c rule: expand.cases)
      (simp_all add: batch_fits_def dispatch_all_one touch del: dispatch_all.simps,
       auto simp: dispatch_defs first_frames_fit intro!: dispatch_all_map [symmetric])
qed

text \<open>Commands up to the first \<open>Close\<close>, and nothing behind it.\<close>

definition through_close :: "HidCommand list \<Rightarrow> HidCommand list" where
  "through_close cs = takeWhile (\<lambda>c. c \<noteq> C_Control Close) cs @ (if C_Control Close \<in> set cs then [C_Control Close] else [])"

lemma dispatch_close: "dispatch_all ops (C_Control Close # cs) = dispatch_all ops [C_Control Close]"
  by (auto simp: fun_eq_iff dispatch_defs act_ignore_def act_then_def split: prod.split sum.split fault.split)

lemma dispatch_through_close: "dispatch_all ops (through_close cs) = dispatch_all ops cs"
proof (induction cs)
  case (Cons c cs)
  show ?case
  proof (cases "c = C_Control Close")
    case True
    then show ?thesis
      using dispatch_close [of ops cs] by (simp add: through_close_def del: dispatch_all.simps)
  next
    case False
    then have "through_close (c # cs) = c # through_close cs"
      by (simp add: through_close_def)
    then show ?thesis
      using Cons.IH by (simp cong: if_cong)
  qed
qed (simp add: through_close_def)

section \<open>Errors and barriers\<close>

definition first_error :: "error option \<Rightarrow> error option \<Rightarrow> error option" where
  "first_error p q = (case p of None \<Rightarrow> q | Some e \<Rightarrow> Some e)"

lemma first_error_simps [simp]:
  "first_error None q = q" "first_error (Some e) q = Some e" "first_error p None = p"
  "first_error (first_error p q) r = first_error p (first_error q r)"
  by (simp_all add: first_error_def split: option.splits)

definition records :: "('e Dispatcher, 'a) act \<Rightarrow> bool" where
  \<comment> \<open>the action works on the session alone, adds at most one error behind the one already pending, and
    can only fail by a panic\<close>
  "records p \<longleftrightarrow> (\<forall>s. \<exists>r s' e. (\<forall>x. r \<noteq> Inl (Err x)) \<and> (\<forall>pe acks.
     p \<lparr>dp_session = s, dp_pending_error = pe, dp_slots = acks\<rparr>
     = (r, \<lparr>dp_session = s', dp_pending_error = first_error pe e, dp_slots = acks\<rparr>)))"

lemma recordsE:
  assumes "records p"
  obtains r s' e where "\<And>x. r \<noteq> Inl (Err x)"
    "\<And>pe acks. p \<lparr>dp_session = s, dp_pending_error = pe, dp_slots = acks\<rparr>
       = (r, \<lparr>dp_session = s', dp_pending_error = first_error pe e, dp_slots = acks\<rparr>)"
  using assms unfolding records_def by blast

lemma recordsI:
  assumes "\<And>s. \<exists>r s' e. (\<forall>x. r \<noteq> Inl (Err x)) \<and> (\<forall>pe acks.
     p \<lparr>dp_session = s, dp_pending_error = pe, dp_slots = acks\<rparr>
     = (r, \<lparr>dp_session = s', dp_pending_error = first_error pe e, dp_slots = acks\<rparr>))"
  shows "records p"
  using assms unfolding records_def by blast

lemma records_ret [simp]: "records (act_ret x)" "records (act_fail Panicked)"
  by (rule recordsI, simp, rule exI [of _ None], simp)+

lemma records_then:
  assumes "records p" "\<And>x. records (f x)"
  shows "records (act_then p f)"
proof (rule recordsI)
  fix s :: "'a HidSession"
  obtain r s1 e where p: "\<And>x. r \<noteq> Inl (Err x)" "\<And>pe acks. p \<lparr>dp_session = s, dp_pending_error = pe, dp_slots = acks\<rparr>
      = (r, \<lparr>dp_session = s1, dp_pending_error = first_error pe e, dp_slots = acks\<rparr>)"
    using recordsE [OF assms(1), of s] by blast
  show "\<exists>r s' e. (\<forall>x. r \<noteq> Inl (Err x)) \<and> (\<forall>pe acks.
      act_then p f \<lparr>dp_session = s, dp_pending_error = pe, dp_slots = acks\<rparr>
      = (r, \<lparr>dp_session = s', dp_pending_error = first_error pe e, dp_slots = acks\<rparr>))"
  proof (cases r)
    case (Inl f)
    then show ?thesis
      using p by (intro exI [of _ "Inl f"] exI [of _ s1] exI [of _ e]) simp
  next
    case (Inr x)
    obtain r2 s2 e2 where "\<And>x. r2 \<noteq> Inl (Err x)" "\<And>pe acks. f x \<lparr>dp_session = s1, dp_pending_error = pe, dp_slots = acks\<rparr>
        = (r2, \<lparr>dp_session = s2, dp_pending_error = first_error pe e2, dp_slots = acks\<rparr>)"
      using recordsE [OF assms(2) [of x], of s1] by blast
    then show ?thesis
      using p Inr by (intro exI [of _ r2] exI [of _ s2] exI [of _ "first_error e e2"]) simp
  qed
qed

lemma records_each: "(\<And>x. records (f x)) \<Longrightarrow> records (act_each f xs)"
  by (induction xs) (simp_all add: records_then)

lemma records_first_frames: "(\<And>fs. records (p fs)) \<Longrightarrow> records (first_frames len frames p)"
  by (simp add: first_frames_def)

lemma records_record [simp]: "records (record_first_error p)"
proof (rule recordsI)
  fix s
  obtain r s' where p: "p s = (r, s')"
    by fastforce
  show "\<exists>r s' e. (\<forall>x. r \<noteq> Inl (Err x)) \<and> (\<forall>pe acks.
      record_first_error p \<lparr>dp_session = s, dp_pending_error = pe, dp_slots = acks\<rparr>
      = (r, \<lparr>dp_session = s', dp_pending_error = first_error pe e, dp_slots = acks\<rparr>))"
  proof (cases r)
    case (Inl f)
    show ?thesis
    proof (cases f)
      case (Err e)
      then show ?thesis
        using p Inl by (intro exI [of _ "Inr ()"] exI [of _ s'] exI [of _ "Some e"])
          (simp add: record_first_error_def first_error_def)
    next
      case Panicked
      then show ?thesis
        using p Inl by (intro exI [of _ "Inl Panicked"] exI [of _ s'] exI [of _ None])
          (simp add: record_first_error_def)
    qed
  next
    case (Inr x)
    then show ?thesis
      using p by (intro exI [of _ "Inr ()"] exI [of _ s'] exI [of _ None]) (simp add: record_first_error_def)
  qed
qed

definition plain_command :: "HidCommand \<Rightarrow> bool" where
  "plain_command c \<longleftrightarrow> c \<noteq> C_Control Close \<and> (\<forall>seq i. c \<noteq> C_Control (FlushAck seq i))"

lemma records_resize: "records (act_modify (\<lambda>d. d\<lparr>dp_session := g (dp_session d)\<rparr>))"
  by (rule recordsI, rule exI [of _ "Inr ()"], rule exI, rule exI [of _ None], simp)

lemma plain_dispatch:
  assumes "plain_command c"
  obtains p where "records p" "dispatch_to_session ops c = go_on p"
proof -
  have "\<exists>p. records p \<and> dispatch_to_session ops c = go_on p"
  proof (cases c)
    case (C_Key x)
    show ?thesis
      unfolding C_Key by (cases x; simp add: dispatch_defs; rule exI, rule conjI [rotated], rule refl,
        simp add: records_first_frames records_each)
  next
    case (C_Mouse x)
    show ?thesis
      unfolding C_Mouse by (cases x; simp add: dispatch_defs; rule exI, rule conjI [rotated], rule refl,
        simp add: records_first_frames records_each)
  next
    case (C_Android x)
    show ?thesis
      unfolding C_Android by (cases x; simp add: dispatch_defs; rule exI, rule conjI [rotated], rule refl,
        simp add: records_first_frames records_each)
  next
    case (C_Touch x)
    show ?thesis
      unfolding C_Touch by (cases x; simp add: dispatch_defs; rule exI, rule conjI [rotated], rule refl,
        simp add: records_first_frames records_each)
  next
    case (C_Gamepad x)
    show ?thesis
      unfolding C_Gamepad by (cases x; simp add: dispatch_defs; rule exI, rule conjI [rotated], rule refl,
        simp add: records_first_frames)
  next
    case (C_Screen x)
    show ?thesis
      unfolding C_Screen by (cases x; simp add: dispatch_defs; rule exI, rule conjI [rotated], rule refl,
        simp add: records_resize)
  next
    case (C_Control x)
    show ?thesis
      by (insert assms, unfold C_Control, cases x; simp add: dispatch_defs plain_command_def;
        rule exI, rule conjI [rotated], rule refl, simp)
  qed
  then show ?thesis
    using that by blast
qed

text \<open>The error each command reports when it runs with none pending.\<close>

fun failures :: "'e transport_ops \<Rightarrow> HidCommand list \<Rightarrow> 'e HidSession \<Rightarrow> error list" where
  "failures ops [] s = []"
| "failures ops (c # cs) s =
     (let d = snd (dispatch_to_session ops c \<lparr>dp_session = s, dp_pending_error = None, dp_slots = Map.empty\<rparr>)
      in (case dp_pending_error d of None \<Rightarrow> [] | Some e \<Rightarrow> [e]) @ failures ops cs (dp_session d))"

definition head :: "'a list \<Rightarrow> 'a option" where
  "head xs = (case xs of [] \<Rightarrow> None | x # _ \<Rightarrow> Some x)"

lemma dispatch_all_failures:
  assumes "list_all plain_command cs" "dispatch_all ops cs d = (Inr stop, d')"
  shows "dp_slots d' = dp_slots d \<and> \<not> stop \<and>
    dp_pending_error d' = first_error (dp_pending_error d) (head (failures ops cs (dp_session d)))"
  using assms
proof (induction cs arbitrary: d)
  case (Cons c cs)
  obtain s pe acks where d: "d = \<lparr>dp_session = s, dp_pending_error = pe, dp_slots = acks\<rparr>"
    by (cases d)
  obtain p where p: "records p" "dispatch_to_session ops c = go_on p"
    using plain_dispatch Cons.prems(1) by (metis list.pred_inject(2))
  obtain r s1 e where r: "\<And>x. r \<noteq> Inl (Err x)" "\<And>pe acks. p \<lparr>dp_session = s, dp_pending_error = pe, dp_slots = acks\<rparr>
      = (r, \<lparr>dp_session = s1, dp_pending_error = first_error pe e, dp_slots = acks\<rparr>)"
    using recordsE [OF p(1), of s] by blast
  show ?case
  proof (cases r)
    case (Inl f)
    then show ?thesis
      using Cons.prems(2) by (simp add: d p(2) r(2))
  next
    case (Inr x)
    have "dispatch_all ops cs \<lparr>dp_session = s1, dp_pending_error = first_error pe e, dp_slots = acks\<rparr> = (Inr stop, d')"
      using Cons.prems(2) Inr by (simp add: d p(2) act_then_def r(2))
    then show ?thesis
      using Cons.IH [of "\<lparr>dp_session = s1, dp_pending_error = first_error pe e, dp_slots = acks\<rparr>"] Cons.prems(1)
      by (cases e) (auto simp: d p(2) r(2) Inr head_def)
  qed
qed (simp add: head_def)

text \<open>The barrier itself.\<close>

lemma stamp_pending: "stamp ops w = (r, w') \<Longrightarrow> r = Inr () \<and> cw_pending w' = cw_pending w"
  by (auto simp: stamp_def cw_now_def act_then_def split: prod.splits)

lemma flush_now_empties: "flush_now ops w = (Inr n, w') \<Longrightarrow> cw_pending w' = []"
  by (auto simp: flush_now_def Let_def count_write_def act_then_Inr_iff dest!: stamp_pending split: if_splits)

lemma session_flush_empties: "session_flush_now ops s = (Inr n, s') \<Longrightarrow> cw_pending (hs_transport s') = []"
  by (auto simp: session_flush_now_def on_writer_def dest: flush_now_empties split: prod.splits)

lemma flush_ack_result:
  assumes "session_flush_now ops (dp_session d) = (r, s')" "r \<noteq> Inl Panicked"
  shows "\<exists>d'. dispatch_to_session ops (C_Control (FlushAck seq i)) d = (Inr False, d') \<and> dp_session d' = s' \<and>
    (case dp_pending_error d of
       Some e \<Rightarrow> dp_slots d' = (dp_slots d)(i \<mapsto> Inl e) \<and>
         dp_pending_error d' = (case r of Inl (Err e') \<Rightarrow> Some e' | _ \<Rightarrow> None)
     | None \<Rightarrow> dp_slots d' = (dp_slots d)(i \<mapsto> (case r of Inl (Err e') \<Rightarrow> Inl e' | Inr n \<Rightarrow> Inr n)) \<and>
         dp_pending_error d' = None)"
  using assms
  by (auto simp: dispatch_defs dispatch_flush_ack_def slot_notify_def Let_def split: sum.split fault.split option.split)

text \<open>
  C29 (error). The checked barrier: after any commands, on any transport, the dispatcher answers a
  \<open>FlushAck\<close> with the first error that these commands, or commands before them, reported since the
  last barrier, and otherwise with the result of flushing; the error is taken, so it is reported once; an
  error of the flush that had to give way to an earlier one is kept for the next barrier. When the
  answer is a count, no byte is left in the writer's buffer.
\<close>

theorem flush_ack_exact:
  assumes "list_all plain_command cmds" "dispatch_all ops cmds d = (Inr False, d1)"
    "session_flush_now ops (dp_session d1) = (r, s2)" "r \<noteq> Inl Panicked"
  shows "\<exists>d2. dispatch_all ops (cmds @ [C_Control (FlushAck seq i)]) d = (Inr False, d2) \<and> dp_session d2 = s2 \<and>
    (case first_error (dp_pending_error d) (head (failures ops cmds (dp_session d))) of
       Some e \<Rightarrow> dp_slots d2 = (dp_slots d)(i \<mapsto> Inl e) \<and>
         dp_pending_error d2 = (case r of Inl (Err e') \<Rightarrow> Some e' | _ \<Rightarrow> None)
     | None \<Rightarrow> dp_slots d2 = (dp_slots d)(i \<mapsto> (case r of Inl (Err e') \<Rightarrow> Inl e' | Inr n \<Rightarrow> Inr n)) \<and>
         dp_pending_error d2 = None) \<and>
    (\<forall>n. dp_slots d2 i = Some (Inr n) \<longrightarrow> cw_pending (hs_transport s2) = [])"
proof -
  obtain d2 where d2: "dispatch_to_session ops (C_Control (FlushAck seq i)) d1 = (Inr False, d2)" "dp_session d2 = s2"
    "case dp_pending_error d1 of
       Some e \<Rightarrow> dp_slots d2 = (dp_slots d1)(i \<mapsto> Inl e) \<and>
         dp_pending_error d2 = (case r of Inl (Err e') \<Rightarrow> Some e' | _ \<Rightarrow> None)
     | None \<Rightarrow> dp_slots d2 = (dp_slots d1)(i \<mapsto> (case r of Inl (Err e') \<Rightarrow> Inl e' | Inr n \<Rightarrow> Inr n)) \<and>
         dp_pending_error d2 = None"
    using flush_ack_result [OF assms(3,4)] by blast
  have d1: "dp_slots d1 = dp_slots d"
    "dp_pending_error d1 = first_error (dp_pending_error d) (head (failures ops cmds (dp_session d)))"
    using dispatch_all_failures [OF assms(1,2)] by simp_all
  have "dispatch_all ops (cmds @ [C_Control (FlushAck seq i)]) d = (Inr False, d2)"
    using d2(1) by (simp add: dispatch_all_append assms(2) act_then_def)
  moreover have "cw_pending (hs_transport s2) = []" if "dp_slots d2 i = Some (Inr n)" for n
    using that d2(3) assms(3) session_flush_empties [of ops "dp_session d1" n s2] assms(4)
    by (cases r) (auto split: option.splits fault.splits)
  ultimately show ?thesis
    using d2 d1 by (intro exI [of _ d2]) (auto split: option.splits)
qed

theorem flush_ack_exact_witness:
  "\<exists>d2. dispatch_all (mock_ops 0) ([C_Key (Key 0x66 True 0)] @ [C_Control (FlushAck 1 7)])
      \<lparr>dp_session = kbd_session, dp_pending_error = None, dp_slots = Map.empty\<rparr> = (Inr False, d2) \<and>
    dp_slots d2 7 = Some (Inl (ScancodeOutOfRange 0x66)) \<and> dp_pending_error d2 = None"
proof -
  let ?d = "\<lparr>dp_session = kbd_session, dp_pending_error = None, dp_slots = Map.empty\<rparr>"
  have kbd: "hs_kbd kbd_session = Some keyboard_new"
    by (simp add: kbd_session_def)
  have key: "session_key (mock_ops 0) 0x66 True 0 kbd_session = (Inl (Err (ScancodeOutOfRange 0x66)), kbd_session)"
    using key_event_refines [OF keyboard_new_wf(1), of "0x66" True 0] kbd
    by (simp add: session_key_def valid_scancode_def kbd_session_def)
  then have run: "dispatch_all (mock_ops 0) [C_Key (Key 0x66 True 0)] ?d
      = (Inr False, ?d\<lparr>dp_pending_error := Some (ScancodeOutOfRange 0x66)\<rparr>)"
    by (simp add: dispatch_defs record_first_error_def act_then_def)
  have flush: "session_flush_now (mock_ops 0) kbd_session = (Inr 0, snd (session_flush_now (mock_ops 0) kbd_session))"
    by (simp add: kbd_session_def fresh_session_def kbd_only_def session_flush_now_def on_writer_def flush_now_def
        with_limits_def stamp_def cw_now_def mock_ops_def act_then_def split: prod.splits)
  have "failures (mock_ops 0) [C_Key (Key 0x66 True 0)] kbd_session = [ScancodeOutOfRange 0x66]"
    using key by (simp add: dispatch_defs record_first_error_def act_then_def)
  then show ?thesis
    using flush_ack_exact [OF _ run, of "Inr 0" "snd (session_flush_now (mock_ops 0) kbd_session)" 1 7] flush
    by (fastforce simp: plain_command_def head_def simp del: dispatch_all.simps failures.simps append.simps)
qed

section \<open>The life of a session in the dispatcher\<close>

definition command_ok :: "HidCommand \<Rightarrow> bool" where
  \<comment> \<open>packed frames are arrays of 15 bytes\<close>
  "command_ok c = (case c of
     C_Gamepad (GamepadPackedFrame f) \<Rightarrow> length f = 15
   | C_Gamepad (GamepadPackedFrameBatch fs) \<Rightarrow> (\<forall>f \<in> set fs. length f = 15)
   | C_Gamepad (GamepadPackedFrameBatchFixed len fs) \<Rightarrow> (\<forall>f \<in> set fs. length f = 15)
   | _ \<Rightarrow> True)"

context reliable_transport
begin

definition dsafe :: "OpenRequest \<Rightarrow> ('e Dispatcher, 'a) act \<Rightarrow> bool" where
  "dsafe req p \<longleftrightarrow> (\<forall>d. session_inv req (dp_session d) \<longrightarrow> (\<exists>r d' ms. p d = (r, d') \<and>
     logged (dp_session d) (dp_session d') ms \<and> session_inv req (dp_session d') \<and>
     list_all (routed (open_ids req)) ms \<and> (\<forall>x. r \<noteq> Inl (Err x))))"

lemma dsafeE:
  assumes "dsafe req p" "session_inv req (dp_session d)"
  obtains r d' ms where "p d = (r, d')" "logged (dp_session d) (dp_session d') ms" "session_inv req (dp_session d')"
    "list_all (routed (open_ids req)) ms" "\<And>x. r \<noteq> Inl (Err x)"
  using assms unfolding dsafe_def by blast

lemma logged_refl: "logged s s []"
  by (simp add: logged_def wlogged_refl)

lemma dsafe_basic [simp]: "dsafe req (act_ret x)" "dsafe req (act_fail Panicked)"
  unfolding dsafe_def using logged_refl by (fastforce intro!: exI [of _ "[]"])+

lemma dsafe_then:
  assumes "dsafe req p" "\<And>x. dsafe req (f x)"
  shows "dsafe req (act_then p f)"
  unfolding dsafe_def
proof (intro allI impI)
  fix d :: "'e Dispatcher"
  assume "session_inv req (dp_session d)"
  then obtain r d1 ms where p: "p d = (r, d1)" "logged (dp_session d) (dp_session d1) ms" "session_inv req (dp_session d1)"
    "list_all (routed (open_ids req)) ms" "\<And>x. r \<noteq> Inl (Err x)"
    using dsafeE [OF assms(1)] by blast
  show "\<exists>r d' ms. act_then p f d = (r, d') \<and> logged (dp_session d) (dp_session d') ms \<and>
      session_inv req (dp_session d') \<and> list_all (routed (open_ids req)) ms \<and> (\<forall>x. r \<noteq> Inl (Err x))"
  proof (cases r)
    case (Inl e)
    then show ?thesis
      using p by (intro exI [of _ "Inl e"] exI [of _ d1] exI [of _ ms]) simp
  next
    case (Inr x)
    obtain r2 d2 ns where f: "f x d1 = (r2, d2)" "logged (dp_session d1) (dp_session d2) ns" "session_inv req (dp_session d2)"
      "list_all (routed (open_ids req)) ns" "\<And>x. r2 \<noteq> Inl (Err x)"
      using dsafeE [OF assms(2) [of x] p(3)] by blast
    have "logged (dp_session d) (dp_session d2) (ms @ ns)"
      using p(2) f(2) by (rule logged_trans)
    then show ?thesis
      using p f Inr by (intro exI [of _ r2] exI [of _ d2] exI [of _ "ms @ ns"]) simp
  qed
qed

lemma dsafe_each: "(\<And>x. dsafe req (f x)) \<Longrightarrow> dsafe req (act_each f xs)"
  by (induction xs) (simp_all add: dsafe_then)

lemma dsafe_first_frames: "(\<And>fs. set fs \<subseteq> set frames \<Longrightarrow> dsafe req (p fs)) \<Longrightarrow> dsafe req (first_frames len frames p)"
  by (simp add: first_frames_def set_take_subset)

lemma dsafe_record:
  assumes "safe req p"
  shows "dsafe req (record_first_error p)"
  unfolding dsafe_def
proof (intro allI impI)
  fix d :: "'e Dispatcher"
  assume "session_inv req (dp_session d)"
  then obtain r s' ms where p: "p (dp_session d) = (r, s')" "logged (dp_session d) s' ms" "session_inv req s'"
    "list_all (routed (open_ids req)) ms"
    using assms unfolding safe_def wp_def by blast
  then show "\<exists>r d' ms. record_first_error p d = (r, d') \<and> logged (dp_session d) (dp_session d') ms \<and>
      session_inv req (dp_session d') \<and> list_all (routed (open_ids req)) ms \<and> (\<forall>x. r \<noteq> Inl (Err x))"
    by (cases r rule: sum.exhaust; (cases "projl r")?) (auto simp: record_first_error_def intro!: exI [of _ ms])
qed

lemma dsafe_go_on: "dsafe req p \<Longrightarrow> dsafe req (go_on p)"
  by (simp add: dsafe_then)

lemma dsafe_flush_ack: "dsafe req (dispatch_flush_ack ops i)"
  unfolding dsafe_def
proof (intro allI impI)
  fix d :: "'e Dispatcher"
  assume "session_inv req (dp_session d)"
  then obtain r s' ms where f: "session_flush_now ops (dp_session d) = (r, s')" "logged (dp_session d) s' ms"
    "session_inv req s'" "list_all (routed (open_ids req)) ms"
    using safe_flush [of req] unfolding safe_def wp_def by blast
  obtain r' d' where "dispatch_flush_ack ops i d = (r', d')"
    by fastforce
  moreover from this have "dp_session d' = s'" "\<And>x. r' \<noteq> Inl (Err x)"
    using f(1) by (auto simp: dispatch_flush_ack_def slot_notify_def Let_def split: sum.splits fault.splits option.splits)
  ultimately show "\<exists>r d' ms. dispatch_flush_ack ops i d = (r, d') \<and> logged (dp_session d) (dp_session d') ms \<and>
      session_inv req (dp_session d') \<and> list_all (routed (open_ids req)) ms \<and> (\<forall>x. r \<noteq> Inl (Err x))"
    using f by blast
qed

lemma dsafe_resize: "dsafe req (act_modify (\<lambda>d. d\<lparr>dp_session := set_screen_size w h (dp_session d)\<rparr>))"
  unfolding dsafe_def
proof (intro allI impI)
  fix d :: "'e Dispatcher"
  assume "session_inv req (dp_session d)"
  then obtain r s' ms where "act_modify (set_screen_size w h) (dp_session d) = (r, s')" "logged (dp_session d) s' ms"
    "session_inv req s'" "list_all (routed (open_ids req)) ms"
    using safe_screen_size [of req w h] unfolding safe_def wp_def by blast
  then show "\<exists>r d' ms. act_modify (\<lambda>d. d\<lparr>dp_session := set_screen_size w h (dp_session d)\<rparr>) d = (r, d') \<and>
      logged (dp_session d) (dp_session d') ms \<and> session_inv req (dp_session d') \<and>
      list_all (routed (open_ids req)) ms \<and> (\<forall>x. r \<noteq> Inl (Err x))"
    by (intro exI [of _ "Inr ()"] exI [of _ "d\<lparr>dp_session := s'\<rparr>"] exI [of _ ms]) auto
qed

lemma safe_pad_methods:
  "safe req (set_button ops b pressed)" "safe req (set_buttons ops bs)" "safe req (set_stick ops a v)"
  "safe req (set_stick_raw ops a x)" "safe req (set_left_stick_raw ops x y)" "safe req (set_right_stick_raw ops x y)"
  "safe req (set_triggers_raw ops x y)" "safe req (session_set_sticks_raw ops lx ly rx ry lt rt)"
  "safe req (set_frame_raw ops bs lx ly rx ry lt rt)"
  using safe_exec [of "S_Pad (U_Button b pressed)" req] safe_exec [of "S_Pad (U_Buttons bs)" req]
    safe_exec [of "S_Stick a v" req] safe_exec [of "S_Pad (U_Axis a x)" req] safe_exec [of "S_Pad (U_LeftStick x y)" req]
    safe_exec [of "S_Pad (U_RightStick x y)" req] safe_exec [of "S_Pad (U_Triggers x y)" req]
    safe_exec [of "S_Pad (U_Sticks lx ly rx ry lt rt)" req] safe_exec [of "S_Pad (U_Full bs lx ly rx ry lt rt)" req]
  by (simp_all add: op_ok_def)

lemma safe_intents:
  "safe req (request_clipboard ops k)" "safe req (show_notifications ops)" "safe req (show_quick_settings ops)"
  "safe req (collapse_panels ops)" "safe req (rotate_device ops)" "safe req (resize_display ops w h)"
  "safe req (set_torch ops b)" "safe req (camera_zoom_in ops)" "safe req (camera_zoom_out ops)"
  "safe req (open_hard_keyboard_settings ops)" "safe req (reset_video ops)"
  "safe req (session_inject_keycode ops a kc rp ms)" "safe req (cancel_touch ops i)"
  by (simp_all add: request_clipboard_def show_notifications_def show_quick_settings_def collapse_panels_def
      rotate_device_def resize_display_def set_torch_def camera_zoom_in_def camera_zoom_out_def
      open_hard_keyboard_settings_def reset_video_def session_inject_keycode_def cancel_touch_def safe_send plain_def)

lemmas safe_methods = safe_pad_methods safe_intents safe_typing safe_then safe_key safe_touch safe_tap_key
  safe_mouse_moves safe_mouse_scroll safe_inject_scroll safe_unchecked safe_frame_batch safe_batches safe_packed safe_flush

lemma dsafe_dispatch:
  assumes "command_ok c" "c \<noteq> C_Control Close"
  shows "dsafe req (dispatch_to_session ops c)"
proof (cases c)
  case (C_Key x)
  show ?thesis
    unfolding C_Key by (cases x) (auto simp: dispatch_defs safe_methods intro!: dsafe_go_on dsafe_record dsafe_first_frames dsafe_each)
next
  case (C_Mouse x)
  show ?thesis
    unfolding C_Mouse by (cases x) (auto simp: dispatch_defs safe_methods intro!: dsafe_go_on dsafe_record dsafe_first_frames dsafe_each)
next
  case (C_Android x)
  show ?thesis
    unfolding C_Android by (cases x) (auto simp: dispatch_defs safe_methods safe_send plain_def
        intro!: dsafe_go_on dsafe_record dsafe_first_frames dsafe_each)
next
  case (C_Touch x)
  show ?thesis
    unfolding C_Touch by (cases x) (auto simp: dispatch_defs safe_methods intro!: dsafe_go_on dsafe_record dsafe_first_frames dsafe_each)
next
  case (C_Gamepad x)
  show ?thesis
    using assms(1) by (simp add: C_Gamepad, cases x)
      (auto simp: dispatch_defs safe_methods command_ok_def subset_eq intro!: dsafe_go_on dsafe_record dsafe_first_frames)
next
  case (C_Screen x)
  show ?thesis
    unfolding C_Screen by (cases x) (auto simp: dispatch_defs safe_methods safe_send plain_def dsafe_resize
        intro!: dsafe_go_on dsafe_record)
next
  case (C_Control x)
  show ?thesis
    using assms(2) by (simp add: C_Control, cases x)
      (auto simp: dispatch_defs safe_methods safe_send plain_def dsafe_flush_ack intro!: dsafe_go_on dsafe_record)
qed

lemma run_dispatch:
  assumes "list_all command_ok cs" "session_inv req (dp_session d)"
  shows "\<exists>r d' ms. dispatch_all ops cs d = (r, d') \<and> list_all (routed (open_ids req)) ms \<and> (\<forall>x. r \<noteq> Inl (Err x)) \<and>
    (if r = Inr True then logged (dp_session d) (dp_session d') (ms @ destroys req) \<and> hs_closed (dp_session d')
     else logged (dp_session d) (dp_session d') ms \<and> session_inv req (dp_session d'))"
  using assms
proof (induction cs arbitrary: d)
  case Nil
  then show ?case
    by (intro exI [of _ "Inr False"] exI [of _ d] exI [of _ "[]"]) (simp add: logged_refl)
next
  case (Cons c cs)
  show ?case
  proof (cases "c = C_Control Close")
    case True
    obtain s' where "session_close ops (dp_session d) = (Inr (), s')" "logged (dp_session d) s' (destroys req)" "hs_closed s'"
      using wp_close [OF Cons.prems(2)] unfolding wp_def session_close_def by blast
    then show ?thesis
      by (intro exI [of _ "Inr True"] exI [of _ "d\<lparr>dp_session := s'\<rparr>"] exI [of _ "[]"])
        (simp add: True dispatch_defs act_ignore_def act_then_def)
  next
    case False
    then obtain r d1 ms where c: "dispatch_to_session ops c d = (r, d1)" "logged (dp_session d) (dp_session d1) ms"
      "session_inv req (dp_session d1)" "list_all (routed (open_ids req)) ms" "\<And>x. r \<noteq> Inl (Err x)"
      using dsafeE [OF dsafe_dispatch] Cons.prems by (metis list.pred_inject(2))
    show ?thesis
    proof (cases r)
      case (Inl e)
      then show ?thesis
        using c by (intro exI [of _ "Inl e"] exI [of _ d1] exI [of _ ms]) simp
    next
      case (Inr stop)
      then have "stop = False"
        using c(1) False
        by (cases c; cases stop)
          (auto simp: dispatch_defs act_then_Inr_iff dispatch_flush_ack_def Let_def
            split: key_command.splits mouse_command.splits android_command.splits touch_command.splits
            gamepad_command.splits screen_command.splits control_command.splits prod.splits sum.splits fault.splits option.splits)
      obtain r2 d2 ns where rest: "dispatch_all ops cs d1 = (r2, d2)" "list_all (routed (open_ids req)) ns"
        "\<forall>x. r2 \<noteq> Inl (Err x)"
        "if r2 = Inr True then logged (dp_session d1) (dp_session d2) (ns @ destroys req) \<and> hs_closed (dp_session d2)
         else logged (dp_session d1) (dp_session d2) ns \<and> session_inv req (dp_session d2)"
        using Cons.IH [OF _ c(3)] Cons.prems(1) by auto
      then show ?thesis
        using c Inr \<open>stop = False\<close> logged_trans [OF c(2)]
        by (intro exI [of _ r2] exI [of _ d2] exI [of _ "ms @ ns"]) (force simp: act_then_def)
    qed
  qed
qed

lemma into_inner_closed:
  assumes "hs_closed s" "sound s"
  shows "\<exists>t. session_into_inner ops s = (Inr (), t) \<and> wire t = stream wire s"
proof -
  obtain r w' where run: "flush_now ops (hs_transport s) = (r, w')"
    by fastforce
  moreover have "is_ok r"
    using succeeds_flush_now run unfolding succeeds_def by (metis fst_conv)
  ultimately show ?thesis
    using assms flush_now_result [OF run]
    by (auto simp: session_into_inner_def into_inner_def stream_def is_ok_ex)
qed

lemma dispatcher_messages:
  assumes "list_all command_ok (concat turns)" "session_open ops t req = Inr s"
  shows "\<exists>r t' ms. fst (dispatcher_loop ops turns s acks) = (r, t') \<and> (r = Inr () \<or> r = Inl Panicked) \<and>
    list_all (routed (open_ids req)) ms \<and> wire t' = wire t @ concat (map msg_bytes (creates req @ ms @ destroys req))"
proof -
  let ?d = "\<lparr>dp_session = s, dp_pending_error = None, dp_slots = acks\<rparr>"
  let ?f = "fresh_session ops t req"
  have s: "logged ?f s (creates req)" "session_inv req s"
    using wp_open [of req t] assms(2) unfolding wp_def session_open_def by (auto split: sum.splits)
  then have open_s: "sound s" "stream wire s = wire t @ concat (map msg_bytes (creates req))"
    using logged_stream [OF s(1) fresh_sound(1)] fresh_sound(2) by simp_all
  obtain r d ms where run: "dispatch_all ops (concat turns) ?d = (r, d)" "list_all (routed (open_ids req)) ms"
    "\<forall>x. r \<noteq> Inl (Err x)"
    "if r = Inr True then logged s (dp_session d) (ms @ destroys req) \<and> hs_closed (dp_session d)
     else logged s (dp_session d) ms \<and> session_inv req (dp_session d)"
    using run_dispatch [OF assms(1), of req ?d] s(2) by (auto cong: if_cong)
  consider "r = Inr True" | "r = Inr False" | "r = Inl Panicked"
    using run(3) by (metis fault.exhaust sum.exhaust)
  then show ?thesis
  proof cases
    case 1
    then have "hs_closed (dp_session d)" "sound (dp_session d)"
      "stream wire (dp_session d) = stream wire s @ concat (map msg_bytes (ms @ destroys req))"
      using run(4) logged_stream [OF _ open_s(1)] by auto
    then show ?thesis
      using into_inner_closed [of "dp_session d"] run(1,2) 1 open_s(2)
      by (auto simp: dispatcher_loop_def loop_exit_def dispatcher_turns_flat intro!: exI [of _ ms])
  next
    case 2
    then have d: "session_inv req (dp_session d)" "sound (dp_session d)"
      "stream wire (dp_session d) = stream wire s @ concat (map msg_bytes ms)"
      using run(4) logged_stream [OF _ open_s(1)] by auto
    obtain s' where c: "session_close ops (dp_session d) = (Inr (), s')" "logged (dp_session d) s' (destroys req)" "hs_closed s'"
      using wp_close [OF d(1)] unfolding wp_def session_close_def by blast
    then show ?thesis
      using into_inner_closed [OF c(3)] logged_stream [OF c(2) d(2)] run(1,2) 2 open_s(2) d(3)
      by (auto simp: dispatcher_loop_def loop_exit_def dispatcher_turns_flat act_ignore_def intro!: exI [of _ ms])
  next
    case 3
    then have d: "session_inv req (dp_session d)" "sound (dp_session d)"
      "stream wire (dp_session d) = stream wire s @ concat (map msg_bytes ms)"
      using run(4) logged_stream [OF _ open_s(1)] by auto
    then show ?thesis
      using drop_session_stream [OF d(1,2)] run(1,2) 3 open_s(2)
      by (auto simp: dispatcher_loop_def loop_exit_def dispatcher_turns_flat intro!: exI [of _ ms])
  qed
qed

end

section \<open>Gamepad batches\<close>

text \<open>
  A gamepad batch goes to the writer in one call, so the bytes are flushed at other moments than those of
  the single frames, and the writers differ. What agrees is everything else: the rest of the session, the
  byte stream handed over, the pending error and the answered slots.
\<close>

definition agree :: "('e \<Rightarrow> byte list) \<Rightarrow> 'e Dispatcher \<Rightarrow> 'e Dispatcher \<Rightarrow> bool" where
  "agree wire d1 d2 \<longleftrightarrow> same_body (dp_session d1) (dp_session d2) \<and>
     stream wire (dp_session d1) = stream wire (dp_session d2) \<and>
     dp_pending_error d1 = dp_pending_error d2 \<and> dp_slots d1 = dp_slots d2"

definition pad_only :: "'e HidSession \<Rightarrow> 'e HidSession \<Rightarrow> bool" where
  "pad_only s s' \<longleftrightarrow> (\<exists>g w. s' = s\<lparr>hs_gamepad := g, hs_transport := w\<rparr>)"

lemma pad_onlyI: "pad_only s s" "pad_only s (s\<lparr>hs_gamepad := g\<rparr>)" "pad_only s (s\<lparr>hs_gamepad := g, hs_transport := w\<rparr>)"
  unfolding pad_only_def by (cases s, fastforce)+

lemma pad_only_trans: "pad_only s s1 \<Longrightarrow> pad_only s1 s2 \<Longrightarrow> pad_only s s2"
  by (cases s) (auto simp: pad_only_def)

lemma pad_only_preorder: "reflp pad_only" "transp pad_only"
  using pad_onlyI(1) pad_only_trans by (auto intro!: reflpI transpI)

lemma keeps_pad_only_set_with: "keeps pad_only (set_with ops u)"
  by (auto simp: keeps_def set_with_def act_then_def on_writer_def pad_onlyI split: sum.split prod.split option.split)

lemma keeps_pad_only_void: "keeps pad_only p \<Longrightarrow> keeps pad_only (act_void p)"
  unfolding act_void_def by (intro keeps_then [OF pad_only_preorder(2)] keeps_ret [OF pad_only_preorder(1)])

lemma keeps_pad_only_updates: "keeps pad_only (act_each (session_update ops) us)"
  unfolding session_update_eq
  by (intro keeps_each pad_only_preorder keeps_pad_only_void keeps_pad_only_set_with)

lemma pad_only_same_body:
  assumes "pad_only s s1" "pad_only s s2" "hs_gamepad s1 = hs_gamepad s2"
  shows "same_body s1 s2"
  using assms by (auto simp: pad_only_def same_body_def)

text \<open>The single frames one after the other, on the session and with recorded errors.\<close>

lemma record_each_ok:
  "act_each p fs (dp_session d) = (Inr (), s') \<Longrightarrow> act_each (\<lambda>f. record_first_error (p f)) fs d = (Inr (), d\<lparr>dp_session := s'\<rparr>)"
proof (induction fs arbitrary: d)
  case (Cons f fs)
  obtain x s1 where s1: "p f (dp_session d) = (Inr x, s1)" "act_each p fs s1 = (Inr (), s')"
    using Cons.prems by (auto simp: act_then_Inr_iff)
  then show ?case
    using Cons.IH [of "d\<lparr>dp_session := s1\<rparr>"] by (simp add: act_then_def record_first_error_def)
qed simp

lemma record_each_err:
  assumes "\<And>f. f \<in> set fs \<Longrightarrow> p f (dp_session d) = (Inl (Err e), dp_session d)" "fs \<noteq> []"
  shows "act_each (\<lambda>f. record_first_error (p f)) fs d = (Inr (), d\<lparr>dp_pending_error := first_error (dp_pending_error d) (Some e)\<rparr>)"
  using assms
proof (induction fs arbitrary: d)
  case (Cons f fs)
  let ?d = "d\<lparr>dp_pending_error := first_error (dp_pending_error d) (Some e)\<rparr>"
  have "record_first_error (p f) d = (Inr (), ?d)"
    using Cons.prems(1) by (cases "dp_pending_error d") (simp_all add: record_first_error_def first_error_def)
  moreover have "act_each (\<lambda>f. record_first_error (p f)) fs ?d = (Inr (), ?d)"
    using Cons.IH [of ?d] Cons.prems(1) by (cases "fs = []") simp_all
  ultimately show ?case
    by (simp add: act_then_def)
qed simp

text \<open>A batch call of the session does what the calls for its frames do.\<close>

definition does_each :: "('e \<Rightarrow> byte list) \<Rightarrow> ('e HidSession, nat) act \<Rightarrow> ('f \<Rightarrow> ('e HidSession, unit) act) \<Rightarrow> 'f list \<Rightarrow> 'e HidSession \<Rightarrow> bool" where
  "does_each wire p q fs s \<longleftrightarrow>
     (\<exists>n s1 s2. p s = (Inr n, s1) \<and> act_each q fs s = (Inr (), s2) \<and> same_body s1 s2 \<and> stream wire s1 = stream wire s2) \<or>
     (\<exists>e. fs \<noteq> [] \<and> p s = (Inl (Err e), s) \<and> (\<forall>f. q f s = (Inl (Err e), s)))"

lemma does_each_dispatch:
  assumes "does_each wire p q fs (dp_session d)" "dispatch_to_session ops c = run_one p"
    "\<And>f. dispatch_to_session ops (g f) = run_one (q f)"
  shows "\<exists>d1 d2. dispatch_to_session ops c d = (Inr False, d1) \<and> dispatch_all ops (map g fs) d = (Inr False, d2) \<and> agree wire d1 d2"
proof -
  have singles: "dispatch_all ops (map g fs) = go_on (act_each (\<lambda>f. record_first_error (q f)) fs)"
    by (rule dispatch_all_map) (rule assms(3))
  consider n s1 s2 where "p (dp_session d) = (Inr n, s1)" "act_each q fs (dp_session d) = (Inr (), s2)" "same_body s1 s2"
      "stream wire s1 = stream wire s2"
    | e where "fs \<noteq> []" "p (dp_session d) = (Inl (Err e), dp_session d)" "\<And>f. q f (dp_session d) = (Inl (Err e), dp_session d)"
    using assms(1) unfolding does_each_def by blast
  then show ?thesis
  proof cases
    case 1
    then show ?thesis
      using record_each_ok [OF 1(2)] unfolding assms(2) singles
      by (simp add: act_then_def record_first_error_def agree_def)
  next
    case 2
    then show ?thesis
      using record_each_err [of fs q d e] unfolding assms(2) singles
      by (cases "dp_pending_error d") (simp_all add: act_then_def record_first_error_def agree_def first_error_def)
  qed
qed

lemma keeps_pad_only_batch: "keeps pad_only (set_frame_raw_batch ops fs)"
  by (rule keepsI) (use keeps_pad_only_set_with in \<open>auto simp: keeps_def set_frame_raw_batch_def pad_onlyI split: list.split sum.split prod.split\<close>)

context reliable_transport
begin

lemma raw_does_each:
  assumes "session_inv req s" "sound s"
  shows "does_each wire (set_frame_raw_batch ops fs) (\<lambda>f. set_frame_raw ops (gf_buttons f) (gf_left_x f) (gf_left_y f)
    (gf_right_x f) (gf_right_y f) (gf_left_trigger f) (gf_right_trigger f)) fs s"
proof (cases "fs = []")
  case True
  then show ?thesis
    by (simp add: does_each_def set_frame_raw_batch_def)
next
  case nonempty: False
  let ?single = "\<lambda>f. set_frame_raw ops (gf_buttons f) (gf_left_x f) (gf_left_y f) (gf_right_x f) (gf_right_y f)
      (gf_left_trigger f) (gf_right_trigger f)"
  show ?thesis
  proof (cases "or_gamepad req")
    case True
    then obtain g where g: "gamepad_with_cached_slot s = Inr (0, g)" "0 < length (slots g)"
      using inv_cached_slot [OF assms(1)] by auto
    obtain n s1 s2 where run: "set_frame_raw_batch ops fs s = (Inr n, s1)" "act_each ?single fs s = (Inr (), s2)"
      "stream wire s1 = stream wire s2" "hs_gamepad s1 = hs_gamepad s2"
      using frame_batch_equiv [OF reliable_transport_axioms assms(2) g nonempty] by blast
    have "act_each ?single fs' = act_each (session_update ops) (map frame_update fs')" for fs'
      by (induction fs') (simp_all add: frame_update_def del: act_simps)
    then have "act_each (session_update ops) (map frame_update fs) s = (Inr (), s2)"
      using run(2) by simp
    then have "same_body s1 s2"
      using keepsD [OF keeps_pad_only_updates] keepsD [OF keeps_pad_only_batch run(1)] run(4) by (intro pad_only_same_body)
    then show ?thesis
      using run(1-3) unfolding does_each_def by blast
  next
    case False
    then have closed: "gamepad_with_cached_slot s = Inl (lifecycle ''gamepad not open'')"
      using inv_cached_slot [OF assms(1)] by simp
    then have "?single f s = (Inl (lifecycle ''gamepad not open''), s)" for f
      by (simp add: set_frame_raw_def set_with_def act_void_def act_then_def)
    moreover have "set_frame_raw_batch ops fs s = (Inl (lifecycle ''gamepad not open''), s)"
      using closed nonempty by (simp add: set_frame_raw_batch_def set_with_def split: list.split)
    ultimately show ?thesis
      using nonempty unfolding does_each_def by blast
  qed
qed

lemma wp_hid: "session_gamepad_hid_id s = Inr i \<Longrightarrow> wp (on_writer (p i)) (\<lambda>r. Q (map_sum id (\<lambda>_. ()) r)) s \<Longrightarrow> wp (with_hid_id p) Q s"
  by (rule wp_shift [OF wp_void]) (simp_all add: with_hid_id_def)

lemma hid_does_each:
  assumes inv: "session_inv req s" "sound s" and "fs \<noteq> []"
    and one: "\<And>f d. f \<in> set fs \<Longrightarrow> delivers d (p f 3) (msg_bytes (input_of 3 (k f)))" "\<And>f. f \<in> set fs \<Longrightarrow> succeeds (p f 3)"
    and all: "\<And>d. delivers d (q 3) (concat (map msg_bytes (map (input_of 3 \<circ> k) fs)))" "succeeds (q 3)"
  shows "does_each wire (act_then (with_hid_id q) (\<lambda>_. act_ret n)) (\<lambda>f. with_hid_id (p f)) fs s"
proof (cases "or_gamepad req")
  case True
  have hid: "session_gamepad_hid_id s' = Inr 3" if "same_body s s'" for s'
    using inv_hid_id [of req s'] session_inv_body [OF that] inv(1) True by simp
  have each: "wp (act_each (\<lambda>f. with_hid_id (p f)) gs) (\<lambda>r ms s2. r = Inr () \<and> ms = map (input_of 3 \<circ> k) gs \<and> same_body s s2) s'"
    if "set gs \<subseteq> set fs" "same_body s s'" for gs s'
    using that
  proof (induction gs arbitrary: s')
    case (Cons f gs)
    have next_body: "same_body s (s'\<lparr>hs_transport := w\<rparr>)" for w
      using Cons.prems(2) same_body_trans same_body_refl(2) by blast
    have "wp (on_writer (p f 3)) (\<lambda>r ms s1. is_ok r \<and> ms = [input_of 3 (k f)] \<and> same_body s s1) s'"
      using one [of f] Cons.prems(1) by (intro wp_on_writer [where ms = "[input_of 3 (k f)]"]) (simp_all add: next_body)
    then have "wp (with_hid_id (p f)) (\<lambda>r ms s1. r = Inr () \<and> ms = [input_of 3 (k f)] \<and> same_body s s1) s'"
      by (intro wp_hid [OF hid [OF Cons.prems(2)]]) (auto elim!: wp_mono simp: is_ok_ex)
    then show ?case
      using Cons.IH Cons.prems(1)
      by (auto simp del: act_simps intro!: wp_then elim!: wp_mono)
  qed (auto intro: wp_ret simp del: act_simps)
  obtain s2 where s2: "act_each (\<lambda>f. with_hid_id (p f)) fs s = (Inr (), s2)" "same_body s s2" "logged s s2 (map (input_of 3 \<circ> k) fs)"
    using each [of fs s] unfolding wp_def by auto
  have "wp (on_writer (q 3)) (\<lambda>r ms s1. is_ok r \<and> ms = map (input_of 3 \<circ> k) fs \<and> same_body s s1) s"
    by (rule wp_on_writer [OF all]) simp_all
  then have "wp (with_hid_id q) (\<lambda>r ms s1. r = Inr () \<and> ms = map (input_of 3 \<circ> k) fs \<and> same_body s s1) s"
    by (intro wp_hid [OF hid]) (auto elim!: wp_mono simp: is_ok_ex)
  then obtain s1 where s1: "with_hid_id q s = (Inr (), s1)" "same_body s s1" "logged s s1 (map (input_of 3 \<circ> k) fs)"
    unfolding wp_def by auto
  have "same_body s1 s2"
    using s1(2) s2(2) by (cases s; cases s1; cases s2) (auto simp: same_body_def)
  moreover have "stream wire s1 = stream wire s2"
    using logged_stream [OF s1(3) inv(2)] logged_stream [OF s2(3) inv(2)] by simp
  ultimately show ?thesis
    using s1(1) s2(1) unfolding does_each_def by auto
next
  case False
  then have "with_hid_id q s = (Inl (lifecycle ''gamepad not open''), s)"
    "with_hid_id (p f) s = (Inl (lifecycle ''gamepad not open''), s)" for f
    using inv_hid_id [OF inv(1)] by (simp_all add: with_hid_id_def)
  then show ?thesis
    using \<open>fs \<noteq> []\<close> unfolding does_each_def by auto
qed

lemma fields_does_each:
  assumes "session_inv req s" "sound s"
  shows "does_each wire (set_frame_raw_batch_unchecked ops fs) (set_frame_raw_unchecked_frame ops) fs s"
proof -
  let ?p = "\<lambda>f i. push_gamepad_input_fields ops i f"
  have one: "does_each wire (act_then (with_hid_id (?p f)) (\<lambda>_. act_ret 1)) (\<lambda>f. with_hid_id (?p f)) [f] s" for f
    by (rule hid_does_each [OF assms, where k = pack]) (simp_all add: delivers_push_gamepad_input_fields succeeds_pushes)
  have many: "does_each wire (act_then (with_hid_id (\<lambda>i. push_gamepad_input_batch_from_fields ops i fs)) (\<lambda>_. act_ret (length fs)))
      (\<lambda>f. with_hid_id (?p f)) fs s" if "fs \<noteq> []"
    by (rule hid_does_each [OF assms that, where k = pack])
      (use delivers_push_batch_from_fields in \<open>simp_all add: delivers_push_gamepad_input_fields succeeds_pushes comp_def\<close>)
  show ?thesis
  proof (cases fs rule: remdups_adj.cases)
    case 1
    then show ?thesis
      by (simp add: does_each_def set_frame_raw_batch_unchecked_def)
  next
    case (2 f)
    then show ?thesis
      using one [of f] by (cases f) (simp add: set_frame_raw_batch_unchecked_def set_frame_raw_unchecked_def set_frame_raw_unchecked_frame_def [abs_def])
  next
    case (3 f f' fs')
    then show ?thesis
      using many by (simp add: set_frame_raw_batch_unchecked_def set_frame_raw_unchecked_frame_def [abs_def])
  qed
qed

lemma packed_does_each:
  assumes "session_inv req s" "sound s" "\<forall>f \<in> set fs. length f = 15"
  shows "does_each wire (set_frame_raw_packed_batch ops fs) (set_frame_raw_packed ops) fs s"
proof -
  let ?p = "\<lambda>f i. push_gamepad_input ops i f"
  have one: "does_each wire (act_then (with_hid_id (?p f)) (\<lambda>_. act_ret 1)) (\<lambda>f. with_hid_id (?p f)) [f] s" if "length f = 15" for f
    by (rule hid_does_each [OF assms(1,2), where k = id]) (simp_all add: that delivers_push_gamepad_input succeeds_pushes)
  have many: "does_each wire (act_then (with_hid_id (\<lambda>i. push_gamepad_input_batch ops i fs)) (\<lambda>_. act_ret (length fs)))
      (\<lambda>f. with_hid_id (?p f)) fs s" if "fs \<noteq> []"
    by (rule hid_does_each [OF assms(1,2) that, where k = id])
      (use assms(3) delivers_push_gamepad_input_batch [OF assms(3)] in \<open>simp_all add: delivers_push_gamepad_input succeeds_pushes comp_def\<close>)
  show ?thesis
  proof (cases fs rule: remdups_adj.cases)
    case 1
    then show ?thesis
      by (simp add: does_each_def set_frame_raw_packed_batch_def)
  next
    case (2 f)
    then show ?thesis
      using one [of f] assms(3) by (simp add: set_frame_raw_packed_batch_def set_frame_raw_packed_def [abs_def])
  next
    case (3 f f' fs')
    then show ?thesis
      using many by (simp add: set_frame_raw_packed_batch_def set_frame_raw_packed_def [abs_def])
  qed
qed

lemma pad_batch_agrees:
  assumes "pad_batch c" "batch_fits (C_Gamepad c)" "command_ok (C_Gamepad c)" "session_inv req (dp_session d)" "sound (dp_session d)"
  shows "\<exists>d1 d2. dispatch_to_session ops (C_Gamepad c) d = (Inr False, d1) \<and>
    dispatch_all ops (pad_singles c) d = (Inr False, d2) \<and> agree wire d1 d2"
proof -
  have raw: "\<exists>d1 d2. dispatch_to_session ops c d = (Inr False, d1) \<and> dispatch_all ops (map raw_single fs) d = (Inr False, d2) \<and>
      agree wire d1 d2" if "dispatch_to_session ops c = run_one (set_frame_raw_batch ops fs)" for c fs
    by (rule does_each_dispatch [OF raw_does_each [OF assms(4,5)] that]) (simp add: raw_single_def dispatch_defs)
  have fields: "\<exists>d1 d2. dispatch_to_session ops c d = (Inr False, d1) \<and>
      dispatch_all ops (map (\<lambda>f. C_Gamepad (GamepadFrameRawUnchecked f)) fs) d = (Inr False, d2) \<and> agree wire d1 d2"
    if "dispatch_to_session ops c = run_one (set_frame_raw_batch_unchecked ops fs)" for c fs
    by (rule does_each_dispatch [OF fields_does_each [OF assms(4,5)] that]) (simp add: dispatch_defs)
  have packed: "\<exists>d1 d2. dispatch_to_session ops c d = (Inr False, d1) \<and>
      dispatch_all ops (map (\<lambda>f. C_Gamepad (GamepadPackedFrame f)) fs) d = (Inr False, d2) \<and> agree wire d1 d2"
    if "dispatch_to_session ops c = run_one (set_frame_raw_packed_batch ops fs)" "\<forall>f \<in> set fs. length f = 15" for c fs
    by (rule does_each_dispatch [OF packed_does_each [OF assms(4,5) that(2)] that(1)]) (simp add: dispatch_defs)
  have prefix: "\<forall>f \<in> set (take n fs). length f = 15" if "\<forall>f \<in> set fs. length f = 15" for n and fs :: "byte list list"
    using that by (blast dest: in_set_takeD)
  show ?thesis
  proof (cases c)
    case (GamepadFrameRawBatch fs)
    then show ?thesis
      using raw [of "C_Gamepad c" fs] by (simp add: dispatch_defs)
  next
    case (GamepadFrameRawBatchFixed len fs)
    then show ?thesis
      using raw [of "C_Gamepad c" "take (unat len) fs"] assms(2) by (simp add: dispatch_defs batch_fits_def first_frames_fit)
  next
    case (GamepadFrameRawBatchUnchecked fs)
    then show ?thesis
      using fields [of "C_Gamepad c" fs] by (simp add: dispatch_defs)
  next
    case (GamepadFrameRawBatchFixedUnchecked len fs)
    then show ?thesis
      using fields [of "C_Gamepad c" "take (unat len) fs"] assms(2) by (simp add: dispatch_defs batch_fits_def first_frames_fit)
  next
    case (GamepadPackedFrameBatch fs)
    then show ?thesis
      using packed [of "C_Gamepad c" fs] assms(3) by (simp add: dispatch_defs command_ok_def)
  next
    case (GamepadPackedFrameBatchFixed len fs)
    then show ?thesis
      using packed [of "C_Gamepad c" "take (unat len) fs"] prefix [of fs "unat len"] assms(2,3)
      by (simp add: dispatch_defs batch_fits_def command_ok_def first_frames_fit)
  qed (use assms(1) in simp_all)
qed

end

section \<open>Properties\<close>

text \<open>
  C28 (safety). A session moved into a dispatcher thread, on a transport that does not fail: whatever
  commands arrive, in whatever turns, until a \<open>Close\<close> or until all clients are gone, and even when a
  command panics, the wire carries the creation of exactly the requested devices, then only input for
  them and plain control messages, then their destruction. Nothing of a command behind a \<open>Close\<close> is
  executed: the thread ends with the same result, transport and answered slots as if only the commands up to
  and including the first \<open>Close\<close> had been sent. Without a panic, joining the thread hands the transport back.
\<close>

theorem dispatcher_lifecycle:
  assumes "reliable_transport ops wire" "list_all command_ok (concat turns)" "wire t = []"
    "session_open ops t req = Inr s"
  shows "(\<exists>r t' ms. fst (dispatcher_loop ops turns s acks) = (r, t') \<and> list_all (routed (open_ids req)) ms \<and>
    decode_all dec_wire (wire t') = Some (map wire_of (creates req @ ms @ destroys req)) \<and>
    device_run (map wire_of (creates req @ ms @ destroys req)) {} = Some {} \<and>
    dispatcher_join (Some (r, t')) = (if r = Inl Panicked then Inl (DispatcherDown ''thread panicked'') else Inr t')) \<and>
    dispatcher_loop ops turns s acks = dispatcher_loop ops [through_close (concat turns)] s acks"
proof -
  obtain r t' ms where run: "fst (dispatcher_loop ops turns s acks) = (r, t')" "r = Inr () \<or> r = Inl Panicked"
    "list_all (routed (open_ids req)) ms" "wire t' = concat (map msg_bytes (creates req @ ms @ destroys req))"
    using reliable_transport.dispatcher_messages [OF assms(1,2,4), of acks] assms(3) by auto
  have "decode_all dec_wire (wire t') = Some (map wire_of (creates req @ ms @ destroys req))"
    using life_decodes [OF run(3)] by (simp only: run(4))
  moreover have "dispatcher_join (Some (r, t'))
      = (if r = Inl Panicked then Inl (DispatcherDown ''thread panicked'') else Inr t')"
    using run(2) by (auto simp: dispatcher_join_def)
  moreover have "dispatcher_loop ops turns s acks = dispatcher_loop ops [through_close (concat turns)] s acks"
    by (simp only: dispatcher_loop_def dispatcher_turns_flat dispatch_through_close concat.simps append_Nil2)
  ultimately show ?thesis
    using run(1,3) device_run_life [OF run(3)] by blast
qed

theorem dispatcher_lifecycle_witness:
  "\<exists>s r t' ms. session_open (mock_ops 0) mock_new kbd_only = Inr s \<and>
     fst (dispatcher_loop (mock_ops 0) [[C_Key (TypeText [104, 105]), C_Control Flush], [C_Control Close, C_Key (KeyTap 4 0)]] s Map.empty)
       = (r, t') \<and>
     decode_all dec_wire (mt_bytes t') = Some (map wire_of ([kbd_create] @ ms @ [UhidDestroy 1]))"
proof -
  obtain s where s: "session_open (mock_ops 0) mock_new kbd_only = Inr s"
    using reliable_mock.wp_open [of 0 kbd_only mock_new]
    by (auto simp: session_open_def reliable_mock.wp_def)
  show ?thesis
    using dispatcher_lifecycle [OF reliable_mock.reliable_transport_axioms _ _ s,
        of "[[C_Key (TypeText [104, 105]), C_Control Flush], [C_Control Close, C_Key (KeyTap 4 0)]]" Map.empty] s
    by (fastforce simp: command_ok_def mock_new_def kbd_only_def creates_def destroys_def)
qed

text \<open>
  C30 (equivalence). Batched commands act like single ones. A batch of keys, mouse motions, Android keys,
  touches or scrolls in a fixed array leaves the dispatcher in exactly the state, on any transport and with
  any errors, in which the single commands for its first \<open>len\<close> frames leave it one after the other (a touch
  frame that no single command expresses, a release with a position, counts as a batch of one), and how
  the commands are split into turns of the thread makes no difference. A batch of gamepad frames, raw,
  unchecked or packed, in a vector or a fixed array, on a transport that does not fail and in any state
  a session passes through before it is closed: batch and single commands hand over the same byte stream,
  record the same error, and leave the same session, driver state included; only the moments at which
  the writer flushes differ.
\<close>

theorem batch_commands_equiv:
  assumes "list_all batch_fits (concat turns)"
  shows "dispatcher_turns ops turns d = dispatch_all ops (concat (map expand (concat turns))) d \<and>
    (reliable_transport ops' wire \<and> session_inv req (dp_session d') \<and> sound (dp_session d') \<and>
     pad_batch c \<and> batch_fits (C_Gamepad c) \<and> command_ok (C_Gamepad c) \<longrightarrow>
       (\<exists>d1 d2. dispatch_to_session ops' (C_Gamepad c) d' = (Inr False, d1) \<and>
          dispatch_all ops' (pad_singles c) d' = (Inr False, d2) \<and> agree wire d1 d2))"
proof -
  have "list_all batch_fits cs \<Longrightarrow> dispatch_all ops (concat (map expand cs)) = dispatch_all ops cs" for cs
    by (induction cs) (simp_all add: dispatch_all_append dispatch_expand cong: if_cong)
  then show ?thesis
    using assms(1) reliable_transport.pad_batch_agrees [of ops' wire c req d'] by (simp add: dispatcher_turns_flat)
qed

theorem batch_commands_equiv_witness:
  "\<exists>s. let d = \<lparr>dp_session = s, dp_pending_error = None, dp_slots = Map.empty\<rparr>;
       c = GamepadFrameRawBatchFixed 2 [FRAME_ZERO\<lparr>gf_buttons := 1\<rparr>, FRAME_ZERO, FRAME_ZERO]
   in session_open (mock_ops 0) mock_new gamepad_only_realtime = Inr s \<and>
     dispatcher_turns (mock_ops 0) [[C_Key (KeyBatchFixed 2 [key_down 4 0, key_up 4, KEYBOARD_EMPTY])], [C_Control Flush]] d =
       dispatch_all (mock_ops 0) [C_Key (Key 4 True 0), C_Key (Key 4 False 0), C_Control Flush] d \<and>
     (\<exists>d1 d2. dispatch_to_session (mock_ops 0) (C_Gamepad c) d = (Inr False, d1) \<and>
       dispatch_all (mock_ops 0) [raw_single (FRAME_ZERO\<lparr>gf_buttons := 1\<rparr>), raw_single FRAME_ZERO] d = (Inr False, d2) \<and>
       agree mt_bytes d1 d2)"
proof -
  obtain s where s: "session_open (mock_ops 0) mock_new gamepad_only_realtime = Inr s" "session_inv gamepad_only_realtime s"
    "reliable_transport.logged mt_bytes (fresh_session (mock_ops 0) mock_new gamepad_only_realtime) s (creates gamepad_only_realtime)"
    using reliable_mock.wp_open [of 0 gamepad_only_realtime mock_new]
    by (auto simp: session_open_def reliable_mock.wp_def split: sum.splits)
  have "sound s"
    using reliable_mock.logged_stream [OF s(3) reliable_mock.fresh_sound(1)] by simp
  then show ?thesis
    using batch_commands_equiv [of "[[C_Key (KeyBatchFixed 2 [key_down 4 0, key_up 4, KEYBOARD_EMPTY])], [C_Control Flush]]" "mock_ops 0"
        "\<lparr>dp_session = s, dp_pending_error = None, dp_slots = Map.empty\<rparr>" "mock_ops 0" mt_bytes gamepad_only_realtime
        "\<lparr>dp_session = s, dp_pending_error = None, dp_slots = Map.empty\<rparr>"
        "GamepadFrameRawBatchFixed 2 [FRAME_ZERO\<lparr>gf_buttons := 1\<rparr>, FRAME_ZERO, FRAME_ZERO]"] s(1,2) reliable_mock.reliable_transport_axioms
    by (intro exI [of _ s]) (simp add: Let_def batch_fits_def command_ok_def key_down_def key_up_def keyboard_frame_def
        del: dispatch_all.simps dispatcher_turns.simps)
qed

section \<open>Two limits of the barrier and of shutdown\<close>

text \<open>A barrier that the channel accepted behind a \<open>Close\<close> is never answered: its waiter blocks for good.\<close>

lemma ack_behind_close:
  "dp_slots (snd (dispatch_all ops (C_Control Close # C_Control (FlushAck seq i) # cs) d)) = dp_slots d"
  by (auto simp: dispatch_defs act_ignore_def act_then_def split: prod.splits sum.splits fault.splits)

text \<open>
  When closing fails, the session stays unclosed, and \<open>into_inner\<close> panics: the transport of a thread
  whose transport broke cannot be recovered by joining it.
\<close>

abbreviation same_closed :: "'e HidSession \<Rightarrow> 'e HidSession \<Rightarrow> bool" where
  "same_closed s s' \<equiv> hs_closed s' = hs_closed s"

lemma same_closed_preorder [simp]: "reflp same_closed" "transp same_closed"
  by (auto intro!: reflpI transpI)

lemma keeps_closed_send: "keeps same_closed (session_send ops m)"
  by (rule keepsI) (auto simp: session_send_def act_void_def act_then_def on_writer_def split: prod.split sum.split)

lemma keeps_closed_modify: "(\<And>s. hs_closed (g s) = hs_closed s) \<Longrightarrow> keeps same_closed (act_modify g)"
  by (simp add: keeps_def)

lemma keeps_closed_steps:
  "keeps same_closed (close_kbd ops)" "keeps same_closed (close_mouse ops)" "keeps same_closed (close_gamepad ops)"
proof -
  have send: "hs_closed (snd (session_send ops m s)) = hs_closed s" for m s
    using keeps_closed_send unfolding keeps_def by blast
  show "keeps same_closed (close_kbd ops)" "keeps same_closed (close_mouse ops)"
    by (auto simp: keeps_def close_kbd_def close_mouse_def send split: option.split sum.split)
  have "keeps same_closed (act_then (case r of Inr m \<Rightarrow> session_send ops m | Inl _ \<Rightarrow> act_ret ()) (\<lambda>_.
      act_modify (\<lambda>s. s\<lparr>hs_gamepad := None, hs_gamepad_slot := None, hs_gamepad_hid_id := None\<rparr>)))"
    for r :: "ControlMessage res"
    by (intro keeps_then keeps_closed_modify) (simp_all add: keeps_closed_send keeps_ret split: sum.split)
  then show "keeps same_closed (close_gamepad ops)"
    unfolding keeps_def by (simp add: close_gamepad_def Let_def split: option.split prod.split)
qed

lemma fails_same_then:
  assumes "act_then p f s = (Inl e, s')" "keeps same_closed p" "\<And>x s. f x s = (Inl e, s') \<Longrightarrow> same_closed s s'"
  shows "same_closed s s'"
proof -
  obtain r s1 where p: "p s = (r, s1)"
    by fastforce
  then have "same_closed s s1"
    using keepsD [OF assms(2)] by blast
  then show ?thesis
    using p assms(1,3) by (cases r) auto
qed

lemma close_error_panics:
  assumes "session_close ops s = (Inl (Err e), s')" "\<not> hs_closed s"
  shows "fst (fst (dispatcher_loop ops [[C_Control Close]] s acks)) = Inl Panicked"
proof -
  have "act_seq [close_kbd ops, close_mouse ops, close_gamepad ops, act_modify (\<lambda>s. s\<lparr>hs_closed := True\<rparr>)] s = (Inl (Err e), s')"
    using assms by (simp add: session_close_def try_close_all_def)
  then have "same_closed s s'"
    unfolding act_seq.simps
    by (elim fails_same_then [OF _ keeps_closed_steps(1)] fails_same_then [OF _ keeps_closed_steps(2)]
        fails_same_then [OF _ keeps_closed_steps(3)]) simp
  then have "\<not> hs_closed s'"
    using assms(2) by simp
  then show ?thesis
    using assms(1) by (simp add: dispatcher_loop_def loop_exit_def dispatch_defs act_ignore_def act_then_def session_into_inner_def)
qed

end
