(* ===== verification/Client.thy ===== *)
theory Client
  imports Client_Dispatch
begin

text \<open>
  The producer side, \<open>HidClient\<close> of \<^verbatim>\<open>src/src/client.rs\<close>: every method that turns a call into commands of
  the channel or frames of the ring. What other threads do between two calls of a client is not under its
  control, so the channel, the ring and the flags it shares with them are an opaque state \<open>'c\<close>, and
  \<open>endpoints\<close> collects the calls of the standard library's \<open>SyncSender\<close>, of \<open>FlushSlot\<close>, of the ring and of the
  atomic flags on it. The locale \<open>command_channel\<close> states what the methods rely on; the theory
  \<open>Client_Runtime\<close> provides it by running the dispatcher. Clones of a client share all of this, so one
  \<open>HidClient\<close> record stands for all of them. Methods for typed arguments that are integers in this model
  (pointer ids, actions, keycodes) coincide with the raw ones and are not repeated.
\<close>

section \<open>The shared endpoints\<close>

datatype try_send_result = Sent | ChannelFull | Disconnected

record 'c endpoints =
  ep_send :: "HidCommand \<Rightarrow> 'c \<Rightarrow> bool \<times> 'c" \<comment> \<open>blocks while the channel is full; \<open>False\<close>: the receiver is gone\<close>
  ep_try_send :: "HidCommand \<Rightarrow> 'c \<Rightarrow> try_send_result \<times> 'c"
  ep_wait :: "slot \<Rightarrow> 'c \<Rightarrow> ((error + nat) \<times> 'c) option" \<comment> \<open>\<open>None\<close>: waits for ever\<close>
  ep_ring_push :: "GamepadFrameRaw \<Rightarrow> 'c \<Rightarrow> (TryPushError + unit) \<times> 'c"
  ep_store_close :: "'c \<Rightarrow> 'c"
  ep_load_error :: "'c \<Rightarrow> bool"
  ep_sleep :: "nat \<Rightarrow> 'c \<Rightarrow> 'c" \<comment> \<open>\<open>thread::sleep\<close> of the caller; the other threads run on\<close>

record 'c HidClient =
  cl_shared :: 'c
  cl_next_seq :: u64 \<comment> \<open>\<open>FlushRegistry\<close>\<close>
  cl_next_slot :: slot \<comment> \<open>the name of the next \<open>FlushSlot\<close> to be allocated\<close>
  cl_gamepad_ring :: bool \<comment> \<open>built by \<open>into_client_with_gamepad_ring\<close>\<close>

definition client_new :: "'c \<Rightarrow> bool \<Rightarrow> 'c HidClient" where
  "client_new shared ring = \<lparr>cl_shared = shared, cl_next_seq = 1, cl_next_slot = 0, cl_gamepad_ring = ring\<rparr>"

definition client_send :: "'c endpoints \<Rightarrow> HidCommand \<Rightarrow> ('c HidClient, unit) act" where
  "client_send ep cmd c = (case ep_send ep cmd (cl_shared c) of (sent, x) \<Rightarrow>
     (if sent then Inr () else Inl (Err (DispatcherDown ''channel disconnected'')), c\<lparr>cl_shared := x\<rparr>))"

definition client_try_send :: "'c endpoints \<Rightarrow> HidCommand \<Rightarrow> ('c HidClient, unit) act" where
  "client_try_send ep cmd c = (case ep_try_send ep cmd (cl_shared c) of (r, x) \<Rightarrow>
     (case r of Sent \<Rightarrow> Inr ()
      | ChannelFull \<Rightarrow> Inl (lifecycle ''channel full (back-pressure)'')
      | Disconnected \<Rightarrow> Inl (Err (DispatcherDown ''channel disconnected'')), c\<lparr>cl_shared := x\<rparr>))"

definition next_seq :: "'c HidClient \<Rightarrow> u64 \<times> 'c HidClient" where
  "next_seq c = (cl_next_seq c, c\<lparr>cl_next_seq := cl_next_seq c + 1\<rparr>)"

definition slot_new :: "'c HidClient \<Rightarrow> slot \<times> 'c HidClient" where
  "slot_new c = (cl_next_slot c, c\<lparr>cl_next_slot := cl_next_slot c + 1\<rparr>)"

section \<open>Mouse\<close>

definition client_mouse_motion ::
    "'c endpoints \<Rightarrow> i32 \<Rightarrow> i32 \<Rightarrow> u8 \<Rightarrow> ('c HidClient, unit) act" where
  "client_mouse_motion ep dx dy buttons = client_send ep (C_Mouse (MouseMotion dx dy buttons))"

definition client_try_mouse_motion ::
    "'c endpoints \<Rightarrow> i32 \<Rightarrow> i32 \<Rightarrow> u8 \<Rightarrow> ('c HidClient, unit) act" where
  "client_try_mouse_motion ep dx dy buttons = client_try_send ep (C_Mouse (MouseMotion dx dy buttons))"

definition client_mouse_motion_buttons ::
    "'c endpoints \<Rightarrow> i32 \<Rightarrow> i32 \<Rightarrow> MouseButton list \<Rightarrow> ('c HidClient, unit) act" where
  "client_mouse_motion_buttons ep dx dy buttons = client_mouse_motion ep dx dy (mouse_button_state buttons)"

definition client_try_mouse_motion_buttons ::
    "'c endpoints \<Rightarrow> i32 \<Rightarrow> i32 \<Rightarrow> MouseButton list \<Rightarrow> ('c HidClient, unit) act" where
  "client_try_mouse_motion_buttons ep dx dy buttons = client_try_mouse_motion ep dx dy (mouse_button_state buttons)"

definition client_mouse_buttons ::
    "'c endpoints \<Rightarrow> u8 \<Rightarrow> ('c HidClient, unit) act" where
  "client_mouse_buttons ep buttons = client_send ep (C_Mouse (MouseButtons buttons))"

definition client_try_mouse_buttons ::
    "'c endpoints \<Rightarrow> u8 \<Rightarrow> ('c HidClient, unit) act" where
  "client_try_mouse_buttons ep buttons = client_try_send ep (C_Mouse (MouseButtons buttons))"

definition client_mouse_button_state ::
    "'c endpoints \<Rightarrow> MouseButton list \<Rightarrow> ('c HidClient, unit) act" where
  "client_mouse_button_state ep buttons = client_mouse_buttons ep (mouse_button_state buttons)"

definition client_try_mouse_button_state ::
    "'c endpoints \<Rightarrow> MouseButton list \<Rightarrow> ('c HidClient, unit) act" where
  "client_try_mouse_button_state ep buttons = client_try_mouse_buttons ep (mouse_button_state buttons)"

definition client_mouse_scroll ::
    "'c endpoints \<Rightarrow> f32 \<Rightarrow> f32 \<Rightarrow> ('c HidClient, unit) act" where
  "client_mouse_scroll ep hscroll vscroll = client_send ep (C_Mouse (MouseScroll hscroll vscroll))"

definition client_try_mouse_scroll ::
    "'c endpoints \<Rightarrow> f32 \<Rightarrow> f32 \<Rightarrow> ('c HidClient, unit) act" where
  "client_try_mouse_scroll ep hscroll vscroll = client_try_send ep (C_Mouse (MouseScroll hscroll vscroll))"

definition client_send_mouse_batch_fixed ::
    "'c endpoints \<Rightarrow> nat \<Rightarrow> MouseFrame list \<Rightarrow> ('c HidClient, unit) act" where
  "client_send_mouse_batch_fixed ep len frames =
     (if len = 0 then act_ret ()
      else if MOUSE_BATCH_FRAMES < len then act_fail (lifecycle ''mouse batch length too large'')
      else if len = 1 then let frame = frames ! 0 in client_mouse_motion ep (mf_dx frame) (mf_dy frame) (mf_buttons frame)
      else client_send ep (C_Mouse (MouseBatchFixed (of_nat len) frames)))"

definition client_try_send_mouse_batch_fixed ::
    "'c endpoints \<Rightarrow> nat \<Rightarrow> MouseFrame list \<Rightarrow> ('c HidClient, unit) act" where
  "client_try_send_mouse_batch_fixed ep len frames =
     (if len = 0 then act_ret ()
      else if MOUSE_BATCH_FRAMES < len then act_fail (lifecycle ''mouse batch length too large'')
      else if len = 1 then let frame = frames ! 0 in client_try_mouse_motion ep (mf_dx frame) (mf_dy frame) (mf_buttons frame)
      else client_try_send ep (C_Mouse (MouseBatchFixed (of_nat len) frames)))"

section \<open>Keyboard\<close>

definition client_type_text ::
    "'c endpoints \<Rightarrow> ustr \<Rightarrow> ('c HidClient, unit) act" where
  "client_type_text ep t = client_send ep (C_Key (TypeText t))"

definition client_type_text_strict ::
    "'c endpoints \<Rightarrow> ustr \<Rightarrow> ('c HidClient, unit) act" where
  "client_type_text_strict ep t = client_send ep (C_Key (TypeTextStrict t))"

definition client_try_type_text_strict ::
    "'c endpoints \<Rightarrow> ustr \<Rightarrow> ('c HidClient, unit) act" where
  "client_try_type_text_strict ep t = client_try_send ep (C_Key (TypeTextStrict t))"

definition client_key ::
    "'c endpoints \<Rightarrow> u8 \<Rightarrow> bool \<Rightarrow> modifiers \<Rightarrow> ('c HidClient, unit) act" where
  "client_key ep sc pressed mods = client_send ep (C_Key (Key sc pressed mods))"

definition client_try_key ::
    "'c endpoints \<Rightarrow> u8 \<Rightarrow> bool \<Rightarrow> modifiers \<Rightarrow> ('c HidClient, unit) act" where
  "client_try_key ep sc pressed mods = client_try_send ep (C_Key (Key sc pressed mods))"

definition client_key_scancode ::
    "'c endpoints \<Rightarrow> Scancode \<Rightarrow> bool \<Rightarrow> modifiers \<Rightarrow> ('c HidClient, unit) act" where
  "client_key_scancode ep sc pressed mods = client_key ep (to_u8 sc) pressed mods"

definition client_try_key_scancode ::
    "'c endpoints \<Rightarrow> Scancode \<Rightarrow> bool \<Rightarrow> modifiers \<Rightarrow> ('c HidClient, unit) act" where
  "client_try_key_scancode ep sc pressed mods = client_try_key ep (to_u8 sc) pressed mods"

definition client_press_key ::
    "'c endpoints \<Rightarrow> u8 \<Rightarrow> modifiers \<Rightarrow> ('c HidClient, unit) act" where
  "client_press_key ep sc mods = client_key ep sc True mods"

definition client_release_key ::
    "'c endpoints \<Rightarrow> u8 \<Rightarrow> modifiers \<Rightarrow> ('c HidClient, unit) act" where
  "client_release_key ep sc mods = client_key ep sc False mods"

definition client_tap_key ::
    "'c endpoints \<Rightarrow> u8 \<Rightarrow> modifiers \<Rightarrow> ('c HidClient, unit) act" where
  "client_tap_key ep sc mods = client_send ep (C_Key (KeyTap sc mods))"

definition client_try_tap_key ::
    "'c endpoints \<Rightarrow> u8 \<Rightarrow> modifiers \<Rightarrow> ('c HidClient, unit) act" where
  "client_try_tap_key ep sc mods = client_try_send ep (C_Key (KeyTap sc mods))"

definition client_tap_scancode ::
    "'c endpoints \<Rightarrow> Scancode \<Rightarrow> modifiers \<Rightarrow> ('c HidClient, unit) act" where
  "client_tap_scancode ep sc mods = client_tap_key ep (to_u8 sc) mods"

definition client_try_tap_scancode ::
    "'c endpoints \<Rightarrow> Scancode \<Rightarrow> modifiers \<Rightarrow> ('c HidClient, unit) act" where
  "client_try_tap_scancode ep sc mods = client_try_tap_key ep (to_u8 sc) mods"

definition client_send_key_batch_fixed ::
    "'c endpoints \<Rightarrow> nat \<Rightarrow> KeyboardFrame list \<Rightarrow> ('c HidClient, unit) act" where
  "client_send_key_batch_fixed ep len frames =
     (if len = 0 then act_ret ()
      else if KEYBOARD_BATCH_FRAMES < len then act_fail (lifecycle ''keyboard batch length too large'')
      else if len = 1 then let frame = frames ! 0 in client_key ep (kf_scancode frame) (kf_pressed frame) (kf_mods frame)
      else client_send ep (C_Key (KeyBatchFixed (of_nat len) frames)))"

definition client_try_send_key_batch_fixed ::
    "'c endpoints \<Rightarrow> nat \<Rightarrow> KeyboardFrame list \<Rightarrow> ('c HidClient, unit) act" where
  "client_try_send_key_batch_fixed ep len frames =
     (if len = 0 then act_ret ()
      else if KEYBOARD_BATCH_FRAMES < len then act_fail (lifecycle ''keyboard batch length too large'')
      else if len = 1 then let frame = frames ! 0 in client_try_key ep (kf_scancode frame) (kf_pressed frame) (kf_mods frame)
      else client_try_send ep (C_Key (KeyBatchFixed (of_nat len) frames)))"

definition client_key_chord ::
    "'c endpoints \<Rightarrow> KeyboardChordFrame \<Rightarrow> ('c HidClient, unit) act" where
  "client_key_chord ep chord =
     (case edge_frames chord of
        Inl e \<Rightarrow> act_fail e
      | Inr (frames, len) \<Rightarrow>
          let batch = take len frames @ drop len (replicate KEYBOARD_BATCH_FRAMES KEYBOARD_EMPTY)
          in client_send_key_batch_fixed ep len batch)"

definition client_scancode_chord ::
    "'c endpoints \<Rightarrow> Scancode list \<Rightarrow> modifiers \<Rightarrow> ('c HidClient, unit) act" where
  "client_scancode_chord ep scancodes mods =
     (case chord_try_scancodes scancodes mods of
        Inl e \<Rightarrow> act_fail e | Inr chord \<Rightarrow> client_key_chord ep chord)"

definition client_try_key_chord ::
    "'c endpoints \<Rightarrow> KeyboardChordFrame \<Rightarrow> ('c HidClient, unit) act" where
  "client_try_key_chord ep chord =
     (case edge_frames chord of
        Inl e \<Rightarrow> act_fail e
      | Inr (frames, len) \<Rightarrow>
          let batch = take len frames @ drop len (replicate KEYBOARD_BATCH_FRAMES KEYBOARD_EMPTY)
          in client_try_send_key_batch_fixed ep len batch)"

definition client_try_scancode_chord ::
    "'c endpoints \<Rightarrow> Scancode list \<Rightarrow> modifiers \<Rightarrow> ('c HidClient, unit) act" where
  "client_try_scancode_chord ep scancodes mods =
     (case chord_try_scancodes scancodes mods of
        Inl e \<Rightarrow> act_fail e | Inr chord \<Rightarrow> client_try_key_chord ep chord)"

section \<open>Android keys\<close>

definition client_inject_keycode ::
    "'c endpoints \<Rightarrow> u8 \<Rightarrow> u32 \<Rightarrow> u32 \<Rightarrow> u32 \<Rightarrow> ('c HidClient, unit) act" where
  "client_inject_keycode ep action keycode repeat metastate = client_send ep (C_Android (InjectKeycodeCmd action keycode repeat metastate))"

definition client_try_inject_keycode ::
    "'c endpoints \<Rightarrow> u8 \<Rightarrow> u32 \<Rightarrow> u32 \<Rightarrow> u32 \<Rightarrow> ('c HidClient, unit) act" where
  "client_try_inject_keycode ep action keycode repeat metastate = client_try_send ep (C_Android (InjectKeycodeCmd action keycode repeat metastate))"

definition client_press_android_key ::
    "'c endpoints \<Rightarrow> u32 \<Rightarrow> ('c HidClient, unit) act" where
  "client_press_android_key ep keycode = client_inject_keycode ep KEY_DOWN keycode 0 0"

definition client_try_press_android_key ::
    "'c endpoints \<Rightarrow> u32 \<Rightarrow> ('c HidClient, unit) act" where
  "client_try_press_android_key ep keycode = client_try_inject_keycode ep KEY_DOWN keycode 0 0"

definition client_release_android_key ::
    "'c endpoints \<Rightarrow> u32 \<Rightarrow> ('c HidClient, unit) act" where
  "client_release_android_key ep keycode = client_inject_keycode ep KEY_UP keycode 0 0"

definition client_try_release_android_key ::
    "'c endpoints \<Rightarrow> u32 \<Rightarrow> ('c HidClient, unit) act" where
  "client_try_release_android_key ep keycode = client_try_inject_keycode ep KEY_UP keycode 0 0"

definition client_tap_android_keycode ::
    "'c endpoints \<Rightarrow> u32 \<Rightarrow> u32 \<Rightarrow> ('c HidClient, unit) act" where
  "client_tap_android_keycode ep keycode metastate = client_send ep (C_Android (AndroidKeyTap keycode metastate))"

definition client_try_tap_android_keycode ::
    "'c endpoints \<Rightarrow> u32 \<Rightarrow> u32 \<Rightarrow> ('c HidClient, unit) act" where
  "client_try_tap_android_keycode ep keycode metastate = client_try_send ep (C_Android (AndroidKeyTap keycode metastate))"

definition client_tap_android_key ::
    "'c endpoints \<Rightarrow> u32 \<Rightarrow> ('c HidClient, unit) act" where
  "client_tap_android_key ep keycode = client_tap_android_keycode ep keycode 0"

definition client_try_tap_android_key ::
    "'c endpoints \<Rightarrow> u32 \<Rightarrow> ('c HidClient, unit) act" where
  "client_try_tap_android_key ep keycode = client_try_tap_android_keycode ep keycode 0"

definition client_send_android_key_batch_fixed ::
    "'c endpoints \<Rightarrow> nat \<Rightarrow> AndroidKeyFrame list \<Rightarrow> ('c HidClient, unit) act" where
  "client_send_android_key_batch_fixed ep len frames =
     (if len = 0 then act_ret ()
      else if ANDROID_KEY_BATCH_FRAMES < len then act_fail (lifecycle ''android key batch length too large'')
      else if len = 1 then let frame = frames ! 0 in client_inject_keycode ep (af_action frame) (af_keycode frame) (af_repeat frame) (af_metastate frame)
      else client_send ep (C_Android (AndroidKeyBatchFixed (of_nat len) frames)))"

definition client_try_send_android_key_batch_fixed ::
    "'c endpoints \<Rightarrow> nat \<Rightarrow> AndroidKeyFrame list \<Rightarrow> ('c HidClient, unit) act" where
  "client_try_send_android_key_batch_fixed ep len frames =
     (if len = 0 then act_ret ()
      else if ANDROID_KEY_BATCH_FRAMES < len then act_fail (lifecycle ''android key batch length too large'')
      else if len = 1 then let frame = frames ! 0 in client_try_inject_keycode ep (af_action frame) (af_keycode frame) (af_repeat frame) (af_metastate frame)
      else client_try_send ep (C_Android (AndroidKeyBatchFixed (of_nat len) frames)))"

definition client_back_or_screen_on ::
    "'c endpoints \<Rightarrow> u8 \<Rightarrow> ('c HidClient, unit) act" where
  "client_back_or_screen_on ep action = client_send ep (C_Android (BackOrScreenOnCmd action))"

definition client_try_back_or_screen_on ::
    "'c endpoints \<Rightarrow> u8 \<Rightarrow> ('c HidClient, unit) act" where
  "client_try_back_or_screen_on ep action = client_try_send ep (C_Android (BackOrScreenOnCmd action))"

definition client_press_home ::
    "'c endpoints \<Rightarrow> ('c HidClient, unit) act" where
  "client_press_home ep = client_press_android_key ep KEYCODE_HOME"

definition client_press_back ::
    "'c endpoints \<Rightarrow> ('c HidClient, unit) act" where
  "client_press_back ep = client_press_android_key ep KEYCODE_BACK"

definition client_open_recents ::
    "'c endpoints \<Rightarrow> ('c HidClient, unit) act" where
  "client_open_recents ep = client_press_android_key ep KEYCODE_APP_SWITCH"

definition client_volume_up ::
    "'c endpoints \<Rightarrow> ('c HidClient, unit) act" where
  "client_volume_up ep = client_press_android_key ep KEYCODE_VOLUME_UP"

definition client_volume_down ::
    "'c endpoints \<Rightarrow> ('c HidClient, unit) act" where
  "client_volume_down ep = client_press_android_key ep KEYCODE_VOLUME_DOWN"

definition client_volume_mute ::
    "'c endpoints \<Rightarrow> ('c HidClient, unit) act" where
  "client_volume_mute ep = client_press_android_key ep KEYCODE_VOLUME_MUTE"

section \<open>Screen and device\<close>

definition client_set_screen_size ::
    "'c endpoints \<Rightarrow> u16 \<Rightarrow> u16 \<Rightarrow> ('c HidClient, unit) act" where
  "client_set_screen_size ep w h = client_send ep (C_Screen (SetScreenSize w h))"

definition client_try_set_screen_size ::
    "'c endpoints \<Rightarrow> u16 \<Rightarrow> u16 \<Rightarrow> ('c HidClient, unit) act" where
  "client_try_set_screen_size ep w h = client_try_send ep (C_Screen (SetScreenSize w h))"

definition client_set_screen_power ::
    "'c endpoints \<Rightarrow> bool \<Rightarrow> ('c HidClient, unit) act" where
  "client_set_screen_power ep b = client_send ep (C_Screen (SetScreenPower b))"

definition client_show_notifications ::
    "'c endpoints \<Rightarrow> ('c HidClient, unit) act" where
  "client_show_notifications ep = client_send ep (C_Screen ShowNotifications)"

definition client_show_quick_settings ::
    "'c endpoints \<Rightarrow> ('c HidClient, unit) act" where
  "client_show_quick_settings ep = client_send ep (C_Screen ShowQuickSettings)"

definition client_collapse_panels ::
    "'c endpoints \<Rightarrow> ('c HidClient, unit) act" where
  "client_collapse_panels ep = client_send ep (C_Screen CollapsePanelsCmd)"

definition client_rotate_device ::
    "'c endpoints \<Rightarrow> ('c HidClient, unit) act" where
  "client_rotate_device ep = client_send ep (C_Screen RotateDeviceCmd)"

definition client_resize_display ::
    "'c endpoints \<Rightarrow> u16 \<Rightarrow> u16 \<Rightarrow> ('c HidClient, unit) act" where
  "client_resize_display ep w h = client_send ep (C_Screen (ResizeDisplayCmd w h))"

definition client_set_torch ::
    "'c endpoints \<Rightarrow> bool \<Rightarrow> ('c HidClient, unit) act" where
  "client_set_torch ep b = client_send ep (C_Screen (SetTorch b))"

definition client_camera_zoom_in ::
    "'c endpoints \<Rightarrow> ('c HidClient, unit) act" where
  "client_camera_zoom_in ep = client_send ep (C_Screen CameraZoomInCmd)"

definition client_camera_zoom_out ::
    "'c endpoints \<Rightarrow> ('c HidClient, unit) act" where
  "client_camera_zoom_out ep = client_send ep (C_Screen CameraZoomOutCmd)"

definition client_open_hard_keyboard_settings ::
    "'c endpoints \<Rightarrow> ('c HidClient, unit) act" where
  "client_open_hard_keyboard_settings ep = client_send ep (C_Screen OpenHardKeyboardSettingsCmd)"

definition client_reset_video ::
    "'c endpoints \<Rightarrow> ('c HidClient, unit) act" where
  "client_reset_video ep = client_send ep (C_Screen ResetVideoCmd)"

definition client_configure_ai ::
    "'c endpoints \<Rightarrow> u8 \<Rightarrow> u16 \<Rightarrow> u16 \<Rightarrow> ('c HidClient, unit) act" where
  "client_configure_ai ep flags interval feature_dim = client_send ep (C_Screen (AiConfigCmd flags interval feature_dim))"

definition client_try_configure_ai ::
    "'c endpoints \<Rightarrow> u8 \<Rightarrow> u16 \<Rightarrow> u16 \<Rightarrow> ('c HidClient, unit) act" where
  "client_try_configure_ai ep flags interval feature_dim = client_try_send ep (C_Screen (AiConfigCmd flags interval feature_dim))"

definition client_query_ai ::
    "'c endpoints \<Rightarrow> u64 \<Rightarrow> ('c HidClient, unit) act" where
  "client_query_ai ep since = client_send ep (C_Screen (AiQueryCmd since))"

definition client_try_query_ai ::
    "'c endpoints \<Rightarrow> u64 \<Rightarrow> ('c HidClient, unit) act" where
  "client_try_query_ai ep since = client_try_send ep (C_Screen (AiQueryCmd since))"

definition client_pause_ai ::
    "'c endpoints \<Rightarrow> ('c HidClient, unit) act" where
  "client_pause_ai ep = client_send ep (C_Screen AiPauseCmd)"

definition client_try_pause_ai ::
    "'c endpoints \<Rightarrow> ('c HidClient, unit) act" where
  "client_try_pause_ai ep = client_try_send ep (C_Screen AiPauseCmd)"

definition client_launch_app ::
    "'c endpoints \<Rightarrow> byte list \<Rightarrow> ('c HidClient, unit) act" where
  "client_launch_app ep nm = client_send ep (C_Control (LaunchApp nm))"

definition client_set_clipboard ::
    "'c endpoints \<Rightarrow> byte list \<Rightarrow> bool \<Rightarrow> ('c HidClient, unit) act" where
  "client_set_clipboard ep t paste = client_send ep (C_Control (SetClipboardCmd t paste))"

definition client_set_clipboard_sequenced ::
    "'c endpoints \<Rightarrow> u64 \<Rightarrow> byte list \<Rightarrow> bool \<Rightarrow> ('c HidClient, unit) act" where
  "client_set_clipboard_sequenced ep sequence t paste = client_send ep (C_Control (SetClipboardSequenced sequence t paste))"

definition client_request_clipboard ::
    "'c endpoints \<Rightarrow> u8 \<Rightarrow> ('c HidClient, unit) act" where
  "client_request_clipboard ep copy_key = client_send ep (C_Control (GetClipboardCmd copy_key))"

definition client_try_request_clipboard ::
    "'c endpoints \<Rightarrow> u8 \<Rightarrow> ('c HidClient, unit) act" where
  "client_try_request_clipboard ep copy_key = client_try_send ep (C_Control (GetClipboardCmd copy_key))"

section \<open>Touch and scroll batches\<close>

definition client_send_touch_batch_fixed ::
    "'c endpoints \<Rightarrow> nat \<Rightarrow> TouchFrame list \<Rightarrow> ('c HidClient, unit) act" where
  "client_send_touch_batch_fixed ep len frames =
     (if len = 0 then act_ret ()
      else if TOUCH_BATCH_FRAMES < len then act_fail (lifecycle ''touch batch length too large'')
      else client_send ep (C_Touch (TouchBatchFixed (of_nat len) frames)))"

definition client_try_send_touch_batch_fixed ::
    "'c endpoints \<Rightarrow> nat \<Rightarrow> TouchFrame list \<Rightarrow> ('c HidClient, unit) act" where
  "client_try_send_touch_batch_fixed ep len frames =
     (if len = 0 then act_ret ()
      else if TOUCH_BATCH_FRAMES < len then act_fail (lifecycle ''touch batch length too large'')
      else client_try_send ep (C_Touch (TouchBatchFixed (of_nat len) frames)))"

definition client_inject_scroll ::
    "'c endpoints \<Rightarrow> i32 \<Rightarrow> i32 \<Rightarrow> f32 \<Rightarrow> f32 \<Rightarrow> u32 \<Rightarrow> ('c HidClient, unit) act" where
  \<comment> \<open>the send inside \<open>scroll_with_buttons\<close> and \<open>send_scroll_batch_fixed\<close>\<close>
  "client_inject_scroll ep x y hscroll vscroll buttons = client_send ep (C_Touch (InjectScroll x y hscroll vscroll buttons))"

definition client_try_inject_scroll ::
    "'c endpoints \<Rightarrow> i32 \<Rightarrow> i32 \<Rightarrow> f32 \<Rightarrow> f32 \<Rightarrow> u32 \<Rightarrow> ('c HidClient, unit) act" where
  \<comment> \<open>also \<open>try_scroll_with_buttons\<close>\<close>
  "client_try_inject_scroll ep x y hscroll vscroll buttons = client_try_send ep (C_Touch (InjectScroll x y hscroll vscroll buttons))"

definition client_try_cancel_touch ::
    "'c endpoints \<Rightarrow> u64 \<Rightarrow> ('c HidClient, unit) act" where
  "client_try_cancel_touch ep i = client_try_send ep (C_Touch (MultitouchCancel i))"

definition client_send_scroll_batch_fixed ::
    "'c endpoints \<Rightarrow> nat \<Rightarrow> ScrollFrame list \<Rightarrow> ('c HidClient, unit) act" where
  "client_send_scroll_batch_fixed ep len frames =
     (if len = 0 then act_ret ()
      else if SCROLL_BATCH_FRAMES < len then act_fail (lifecycle ''scroll batch length too large'')
      else if len = 1 then let frame = frames ! 0 in client_inject_scroll ep (sf_x frame) (sf_y frame) (sf_hscroll frame) (sf_vscroll frame) (sf_buttons frame)
      else client_send ep (C_Touch (InjectScrollBatchFixed (of_nat len) frames)))"

definition client_try_send_scroll_batch_fixed ::
    "'c endpoints \<Rightarrow> nat \<Rightarrow> ScrollFrame list \<Rightarrow> ('c HidClient, unit) act" where
  "client_try_send_scroll_batch_fixed ep len frames =
     (if len = 0 then act_ret ()
      else if SCROLL_BATCH_FRAMES < len then act_fail (lifecycle ''scroll batch length too large'')
      else if len = 1 then let frame = frames ! 0 in client_try_inject_scroll ep (sf_x frame) (sf_y frame) (sf_hscroll frame) (sf_vscroll frame) (sf_buttons frame)
      else client_try_send ep (C_Touch (InjectScrollBatchFixed (of_nat len) frames)))"

section \<open>Gamepad\<close>

definition client_send_button ::
    "'c endpoints \<Rightarrow> GamepadButton \<Rightarrow> bool \<Rightarrow> ('c HidClient, unit) act" where
  "client_send_button ep btn pressed = client_send ep (C_Gamepad (GamepadButtonCmd btn pressed))"

definition client_try_send_button ::
    "'c endpoints \<Rightarrow> GamepadButton \<Rightarrow> bool \<Rightarrow> ('c HidClient, unit) act" where
  "client_try_send_button ep btn pressed = client_try_send ep (C_Gamepad (GamepadButtonCmd btn pressed))"

definition client_send_buttons ::
    "'c endpoints \<Rightarrow> u32 \<Rightarrow> ('c HidClient, unit) act" where
  "client_send_buttons ep buttons = client_send ep (C_Gamepad (GamepadButtons buttons))"

definition client_try_send_buttons ::
    "'c endpoints \<Rightarrow> u32 \<Rightarrow> ('c HidClient, unit) act" where
  "client_try_send_buttons ep buttons = client_try_send ep (C_Gamepad (GamepadButtons buttons))"

definition client_send_stick ::
    "'c endpoints \<Rightarrow> GamepadAxis \<Rightarrow> f32 \<Rightarrow> ('c HidClient, unit) act" where
  "client_send_stick ep axis v = client_send ep (C_Gamepad (GamepadStick axis v))"

definition client_try_send_stick ::
    "'c endpoints \<Rightarrow> GamepadAxis \<Rightarrow> f32 \<Rightarrow> ('c HidClient, unit) act" where
  "client_try_send_stick ep axis v = client_try_send ep (C_Gamepad (GamepadStick axis v))"

definition client_send_stick_raw ::
    "'c endpoints \<Rightarrow> GamepadAxis \<Rightarrow> i16 \<Rightarrow> ('c HidClient, unit) act" where
  "client_send_stick_raw ep axis v = client_send ep (C_Gamepad (GamepadStickRaw axis v))"

definition client_try_send_stick_raw ::
    "'c endpoints \<Rightarrow> GamepadAxis \<Rightarrow> i16 \<Rightarrow> ('c HidClient, unit) act" where
  "client_try_send_stick_raw ep axis v = client_try_send ep (C_Gamepad (GamepadStickRaw axis v))"

definition client_send_left_stick_raw ::
    "'c endpoints \<Rightarrow> i16 \<Rightarrow> i16 \<Rightarrow> ('c HidClient, unit) act" where
  "client_send_left_stick_raw ep x y = client_send ep (C_Gamepad (GamepadLeftStickRaw x y))"

definition client_try_send_left_stick_raw ::
    "'c endpoints \<Rightarrow> i16 \<Rightarrow> i16 \<Rightarrow> ('c HidClient, unit) act" where
  "client_try_send_left_stick_raw ep x y = client_try_send ep (C_Gamepad (GamepadLeftStickRaw x y))"

definition client_send_right_stick_raw ::
    "'c endpoints \<Rightarrow> i16 \<Rightarrow> i16 \<Rightarrow> ('c HidClient, unit) act" where
  "client_send_right_stick_raw ep x y = client_send ep (C_Gamepad (GamepadRightStickRaw x y))"

definition client_try_send_right_stick_raw ::
    "'c endpoints \<Rightarrow> i16 \<Rightarrow> i16 \<Rightarrow> ('c HidClient, unit) act" where
  "client_try_send_right_stick_raw ep x y = client_try_send ep (C_Gamepad (GamepadRightStickRaw x y))"

definition client_send_triggers_raw ::
    "'c endpoints \<Rightarrow> i16 \<Rightarrow> i16 \<Rightarrow> ('c HidClient, unit) act" where
  "client_send_triggers_raw ep left right = client_send ep (C_Gamepad (GamepadTriggersRaw left right))"

definition client_try_send_triggers_raw ::
    "'c endpoints \<Rightarrow> i16 \<Rightarrow> i16 \<Rightarrow> ('c HidClient, unit) act" where
  "client_try_send_triggers_raw ep left right = client_try_send ep (C_Gamepad (GamepadTriggersRaw left right))"

definition client_send_sticks_raw ::
    "'c endpoints \<Rightarrow> i16 \<Rightarrow> i16 \<Rightarrow> i16 \<Rightarrow> i16 \<Rightarrow> i16 \<Rightarrow> i16 \<Rightarrow> ('c HidClient, unit) act" where
  "client_send_sticks_raw ep lx ly rx ry lt rt = client_send ep (C_Gamepad (GamepadSticksRaw lx ly rx ry lt rt))"

definition client_try_send_sticks_raw ::
    "'c endpoints \<Rightarrow> i16 \<Rightarrow> i16 \<Rightarrow> i16 \<Rightarrow> i16 \<Rightarrow> i16 \<Rightarrow> i16 \<Rightarrow> ('c HidClient, unit) act" where
  "client_try_send_sticks_raw ep lx ly rx ry lt rt = client_try_send ep (C_Gamepad (GamepadSticksRaw lx ly rx ry lt rt))"

definition client_send_frame_packed ::
    "'c endpoints \<Rightarrow> byte list \<Rightarrow> ('c HidClient, unit) act" where
  "client_send_frame_packed ep frame = client_send ep (C_Gamepad (GamepadPackedFrame frame))"

definition client_try_send_frame_packed ::
    "'c endpoints \<Rightarrow> byte list \<Rightarrow> ('c HidClient, unit) act" where
  "client_try_send_frame_packed ep frame = client_try_send ep (C_Gamepad (GamepadPackedFrame frame))"

definition recover_gamepad_batch :: "HidCommand \<Rightarrow> GamepadFrameRaw list res" where
  \<comment> \<open>the command a failed send hands back\<close>
  "recover_gamepad_batch cmd = (case cmd of
     C_Gamepad (GamepadFrameRawBatch frames) \<Rightarrow> Inr frames
   | C_Gamepad (GamepadFrameRawBatchUnchecked frames) \<Rightarrow> Inr frames
   | _ \<Rightarrow> Inl Panicked)"

definition recover_packed_gamepad_batch :: "HidCommand \<Rightarrow> byte list list res" where
  "recover_packed_gamepad_batch cmd = (case cmd of
     C_Gamepad (GamepadPackedFrameBatch frames) \<Rightarrow> Inr frames | _ \<Rightarrow> Inl Panicked)"

definition owned_result :: "(HidCommand \<Rightarrow> 'f list res) \<Rightarrow> HidCommand \<Rightarrow> ('c HidClient, unit) act
    \<Rightarrow> 'c HidClient \<Rightarrow> (unit res \<times> 'f list) \<times> 'c HidClient" where
  \<comment> \<open>\<open>map_err\<close> of the owned sends: the error and the recovered frames\<close>
  "owned_result recover cmd p c = (case p c of
     (Inr _, c) \<Rightarrow> ((Inr (), []), c)
   | (Inl e, c) \<Rightarrow> (case recover cmd of Inl f \<Rightarrow> ((Inl f, []), c) | Inr frames \<Rightarrow> ((Inl e, frames), c)))"

definition send_frame_batch_owned ::
    "'c endpoints \<Rightarrow> GamepadFrameRaw list \<Rightarrow> bool \<Rightarrow> 'c HidClient \<Rightarrow> (unit res \<times> GamepadFrameRaw list) \<times> 'c HidClient" where
  "send_frame_batch_owned ep frames dedupe =
     (let cmd = C_Gamepad (if dedupe then GamepadFrameRawBatch frames else GamepadFrameRawBatchUnchecked frames)
      in owned_result recover_gamepad_batch cmd (client_send ep cmd))"

definition try_send_frame_batch_owned ::
    "'c endpoints \<Rightarrow> GamepadFrameRaw list \<Rightarrow> bool \<Rightarrow> 'c HidClient \<Rightarrow> (unit res \<times> GamepadFrameRaw list) \<times> 'c HidClient" where
  "try_send_frame_batch_owned ep frames dedupe =
     (let cmd = C_Gamepad (if dedupe then GamepadFrameRawBatch frames else GamepadFrameRawBatchUnchecked frames)
      in owned_result recover_gamepad_batch cmd (client_try_send ep cmd))"

definition send_packed_frame_batch_owned ::
    "'c endpoints \<Rightarrow> byte list list \<Rightarrow> 'c HidClient \<Rightarrow> (unit res \<times> byte list list) \<times> 'c HidClient" where
  "send_packed_frame_batch_owned ep frames =
     (let cmd = C_Gamepad (GamepadPackedFrameBatch frames)
      in owned_result recover_packed_gamepad_batch cmd (client_send ep cmd))"

definition try_send_packed_frame_batch_owned ::
    "'c endpoints \<Rightarrow> byte list list \<Rightarrow> 'c HidClient \<Rightarrow> (unit res \<times> byte list list) \<times> 'c HidClient" where
  "try_send_packed_frame_batch_owned ep frames =
     (let cmd = C_Gamepad (GamepadPackedFrameBatch frames)
      in owned_result recover_packed_gamepad_batch cmd (client_try_send ep cmd))"

section \<open>Gamepad frames and the ring\<close>

definition ring_push_shared :: "'c endpoints \<Rightarrow> GamepadFrameRaw \<Rightarrow> 'c HidClient \<Rightarrow> (TryPushError + unit) \<times> 'c HidClient" where
  "ring_push_shared ep f c = (case ep_ring_push ep f (cl_shared c) of (r, x) \<Rightarrow> (r, c\<lparr>cl_shared := x\<rparr>))"

definition frame_command :: "GamepadFrameRaw \<Rightarrow> HidCommand" where
  "frame_command f = C_Gamepad (GamepadFrameRawCmd (gf_buttons f) (gf_left_x f) (gf_left_y f) (gf_right_x f)
     (gf_right_y f) (gf_left_trigger f) (gf_right_trigger f))"

definition client_send_frame :: "'c endpoints \<Rightarrow> GamepadFrameRaw \<Rightarrow> ('c HidClient, unit) act" where
  "client_send_frame ep frame c =
     (if cl_gamepad_ring c
      then case ring_push_shared ep frame c of
          (Inr _, c) \<Rightarrow> (Inr (), c) | (Inl _, c) \<Rightarrow> client_send ep (frame_command frame) c
      else client_send ep (frame_command frame) c)"

definition client_send_frame_unchecked :: "'c endpoints \<Rightarrow> GamepadFrameRaw \<Rightarrow> ('c HidClient, unit) act" where
  "client_send_frame_unchecked ep frame c =
     (if cl_gamepad_ring c
      then case ring_push_shared ep frame c of
          (Inr _, c) \<Rightarrow> (Inr (), c)
        | (Inl _, c) \<Rightarrow> client_send ep (C_Gamepad (GamepadFrameRawUnchecked frame)) c
      else client_send ep (C_Gamepad (GamepadFrameRawUnchecked frame)) c)"

definition client_try_send_frame :: "'c endpoints \<Rightarrow> GamepadFrameRaw \<Rightarrow> ('c HidClient, unit) act" where
  "client_try_send_frame ep frame c =
     (if cl_gamepad_ring c
      then case ring_push_shared ep frame c of
          (Inr _, c) \<Rightarrow> (Inr (), c) | (Inl _, c) \<Rightarrow> (Inl (lifecycle ''gamepad ring full (drop-on-full)''), c)
      else client_try_send ep (frame_command frame) c)"

definition client_try_send_frame_unchecked :: "'c endpoints \<Rightarrow> GamepadFrameRaw \<Rightarrow> ('c HidClient, unit) act" where
  "client_try_send_frame_unchecked ep frame c =
     (if cl_gamepad_ring c
      then case ring_push_shared ep frame c of
          (Inr _, c) \<Rightarrow> (Inr (), c) | (Inl _, c) \<Rightarrow> (Inl (lifecycle ''gamepad ring full (drop-on-full)''), c)
      else client_try_send ep (C_Gamepad (GamepadFrameRawUnchecked frame)) c)"

fun ring_spill :: "'c endpoints \<Rightarrow> GamepadFrameRaw list \<Rightarrow> 'c HidClient \<Rightarrow> GamepadFrameRaw list \<times> 'c HidClient" where
  \<comment> \<open>the loop that pushes what the ring accepts and collects the rest\<close>
  "ring_spill ep [] c = ([], c)"
| "ring_spill ep (f # fs) c = (case ring_push_shared ep f c of
     (Inr _, c) \<Rightarrow> ring_spill ep fs c
   | (Inl _, c) \<Rightarrow> (case ring_spill ep fs c of (rest, c) \<Rightarrow> (f # rest, c)))"

definition client_send_frame_batch :: "'c endpoints \<Rightarrow> GamepadFrameRaw list \<Rightarrow> ('c HidClient, unit) act" where
  "client_send_frame_batch ep frames c =
     (if frames = [] then (Inr (), c)
      else if length frames = 1 then client_send_frame ep (frames ! 0) c
      else if cl_gamepad_ring c
      then case ring_spill ep frames c of (rest, c) \<Rightarrow>
          if rest = [] then (Inr (), c) else client_send ep (C_Gamepad (GamepadFrameRawBatch rest)) c
      else client_send ep (C_Gamepad (GamepadFrameRawBatch frames)) c)"

definition client_send_frame_batch_unchecked :: "'c endpoints \<Rightarrow> GamepadFrameRaw list \<Rightarrow> ('c HidClient, unit) act" where
  "client_send_frame_batch_unchecked ep frames c =
     (if frames = [] then (Inr (), c)
      else if length frames = 1 then client_send_frame_unchecked ep (frames ! 0) c
      else if cl_gamepad_ring c
      then case ring_spill ep frames c of (rest, c) \<Rightarrow>
          if rest = [] then (Inr (), c) else client_send ep (C_Gamepad (GamepadFrameRawBatchUnchecked rest)) c
      else client_send ep (C_Gamepad (GamepadFrameRawBatchUnchecked frames)) c)"

definition send_frame_batch_fixed_internal ::
    "'c endpoints \<Rightarrow> nat \<Rightarrow> GamepadFrameRaw list \<Rightarrow> bool \<Rightarrow> ('c HidClient, unit) act" where
  "send_frame_batch_fixed_internal ep len frames dedupe c =
     (let fixed = (\<lambda>n fs. client_send ep (C_Gamepad (if dedupe then GamepadFrameRawBatchFixed (of_nat n) fs
            else GamepadFrameRawBatchFixedUnchecked (of_nat n) fs)))
      in if len = 0 then (Inr (), c)
         else if DIRECT_GAMEPAD_BATCH_FRAMES < len then (Inl (lifecycle ''frame batch fixed length overflow''), c)
         else if len = 1 then (if dedupe then client_send_frame ep (frames ! 0) c
           else client_send_frame_unchecked ep (frames ! 0) c)
         else if cl_gamepad_ring c
         then case ring_spill ep (take len frames) c of (spilled, c) \<Rightarrow>
             if spilled = [] then (Inr (), c)
             else fixed (length spilled)
               (spilled @ drop (length spilled) (replicate DIRECT_GAMEPAD_BATCH_FRAMES FRAME_ZERO)) c
         else fixed len frames c)"

definition client_send_frame_batch_fixed :: "'c endpoints \<Rightarrow> nat \<Rightarrow> GamepadFrameRaw list \<Rightarrow> ('c HidClient, unit) act" where
  "client_send_frame_batch_fixed ep len frames = send_frame_batch_fixed_internal ep len frames True"

definition client_send_frame_batch_fixed_unchecked ::
    "'c endpoints \<Rightarrow> nat \<Rightarrow> GamepadFrameRaw list \<Rightarrow> ('c HidClient, unit) act" where
  "client_send_frame_batch_fixed_unchecked ep len frames = send_frame_batch_fixed_internal ep len frames False"

definition try_send_frame_batch_fixed_internal ::
    "'c endpoints \<Rightarrow> nat \<Rightarrow> GamepadFrameRaw list \<Rightarrow> bool \<Rightarrow> ('c HidClient, unit) act" where
  "try_send_frame_batch_fixed_internal ep len frames dedupe =
     (if len = 0 then act_ret ()
      else if DIRECT_GAMEPAD_BATCH_FRAMES < len then act_fail (lifecycle ''frame batch fixed length overflow'')
      else if len = 1 then (if dedupe then client_try_send_frame ep (frames ! 0)
        else client_try_send_frame_unchecked ep (frames ! 0))
      else client_try_send ep (C_Gamepad (if dedupe then GamepadFrameRawBatchFixed (of_nat len) frames
        else GamepadFrameRawBatchFixedUnchecked (of_nat len) frames)))"

definition client_try_send_frame_batch_fixed ::
    "'c endpoints \<Rightarrow> nat \<Rightarrow> GamepadFrameRaw list \<Rightarrow> ('c HidClient, unit) act" where
  "client_try_send_frame_batch_fixed ep len frames = try_send_frame_batch_fixed_internal ep len frames True"

definition client_try_send_frame_batch_fixed_unchecked ::
    "'c endpoints \<Rightarrow> nat \<Rightarrow> GamepadFrameRaw list \<Rightarrow> ('c HidClient, unit) act" where
  "client_try_send_frame_batch_fixed_unchecked ep len frames = try_send_frame_batch_fixed_internal ep len frames False"

definition client_try_send_frame_batch :: "'c endpoints \<Rightarrow> GamepadFrameRaw list \<Rightarrow> ('c HidClient, unit) act" where
  "client_try_send_frame_batch ep frames =
     (if frames = [] then act_ret ()
      else if length frames = 1 then client_try_send_frame ep (frames ! 0)
      else client_try_send ep (C_Gamepad (GamepadFrameRawBatch frames)))"

definition client_try_send_frame_batch_unchecked :: "'c endpoints \<Rightarrow> GamepadFrameRaw list \<Rightarrow> ('c HidClient, unit) act" where
  "client_try_send_frame_batch_unchecked ep frames =
     (if frames = [] then act_ret ()
      else if length frames = 1 then client_try_send_frame_unchecked ep (frames ! 0)
      else client_try_send ep (C_Gamepad (GamepadFrameRawBatchUnchecked frames)))"

definition client_send_frame_packed_batch :: "'c endpoints \<Rightarrow> byte list list \<Rightarrow> ('c HidClient, unit) act" where
  "client_send_frame_packed_batch ep frames =
     (if frames = [] then act_ret ()
      else if length frames = 1 then client_send_frame_packed ep (frames ! 0)
      else client_send ep (C_Gamepad (GamepadPackedFrameBatch frames)))"

definition client_try_send_frame_packed_batch :: "'c endpoints \<Rightarrow> byte list list \<Rightarrow> ('c HidClient, unit) act" where
  "client_try_send_frame_packed_batch ep frames =
     (if frames = [] then act_ret ()
      else if length frames = 1 then client_try_send_frame_packed ep (frames ! 0)
      else client_try_send ep (C_Gamepad (GamepadPackedFrameBatch frames)))"

definition client_send_frame_packed_batch_fixed :: "'c endpoints \<Rightarrow> nat \<Rightarrow> byte list list \<Rightarrow> ('c HidClient, unit) act" where
  "client_send_frame_packed_batch_fixed ep len frames =
     (if len = 0 then act_ret ()
      else if DIRECT_GAMEPAD_BATCH_FRAMES < len then act_fail (lifecycle ''frame packed batch fixed length overflow'')
      else if len = 1 then client_send_frame_packed ep (frames ! 0)
      else client_send ep (C_Gamepad (GamepadPackedFrameBatchFixed (of_nat len) frames)))"

definition client_try_send_frame_packed_batch_fixed :: "'c endpoints \<Rightarrow> nat \<Rightarrow> byte list list \<Rightarrow> ('c HidClient, unit) act" where
  "client_try_send_frame_packed_batch_fixed ep len frames =
     (if len = 0 then act_ret ()
      else if DIRECT_GAMEPAD_BATCH_FRAMES < len then act_fail (lifecycle ''frame packed batch fixed length overflow'')
      else if len = 1 then client_try_send_frame_packed ep (frames ! 0)
      else client_try_send ep (C_Gamepad (GamepadPackedFrameBatchFixed (of_nat len) frames)))"

section \<open>Barriers and shutdown\<close>

type_synonym ('s, 'a) waits = "'s \<Rightarrow> ('a res \<times> 's) option" \<comment> \<open>\<open>None\<close>: blocks for ever\<close>

definition then_wait :: "('s, 'a) act \<Rightarrow> ('s, 'b) waits \<Rightarrow> ('s, 'b) waits" where
  "then_wait p q s = (case p s of (Inl e, s') \<Rightarrow> Some (Inl e, s') | (Inr _, s') \<Rightarrow> q s')"

definition waits_then :: "('s, 'a) waits \<Rightarrow> ('s, 'b) waits \<Rightarrow> ('s, 'b) waits" where
  "waits_then p q s = (case p s of
     None \<Rightarrow> None | Some (Inl e, s') \<Rightarrow> Some (Inl e, s') | Some (Inr _, s') \<Rightarrow> q s')"

definition client_sleep :: "'c endpoints \<Rightarrow> nat \<Rightarrow> ('c HidClient, unit) act" where
  "client_sleep ep d = act_modify (\<lambda>c. c\<lparr>cl_shared := ep_sleep ep d (cl_shared c)\<rparr>)"

definition wait_void :: "('s, 'a) waits \<Rightarrow> ('s, unit) waits" where
  \<comment> \<open>\<open>.map(|_| ())\<close>\<close>
  "wait_void q s = map_option (\<lambda>(r, s'). (map_sum id (\<lambda>_. ()) r, s')) (q s)"

definition wait_slot :: "'c endpoints \<Rightarrow> slot \<Rightarrow> ('c HidClient, nat) waits" where
  "wait_slot ep i c = (case ep_wait ep i (cl_shared c) of
     None \<Rightarrow> None | Some (r, x) \<Rightarrow> Some (map_sum Err id r, c\<lparr>cl_shared := x\<rparr>))"

definition client_flush_wait :: "'c endpoints \<Rightarrow> ('c HidClient, nat) waits" where
  "client_flush_wait ep c =
     (let (slot, c) = slot_new c; (seq, c) = next_seq c
      in then_wait (client_send ep (C_Control (FlushAck seq slot))) (wait_slot ep slot) c)"

definition client_try_flush_wait :: "'c endpoints \<Rightarrow> ('c HidClient, nat) waits" where
  "client_try_flush_wait ep c =
     (let (slot, c) = slot_new c; (seq, c) = next_seq c
      in then_wait (client_try_send ep (C_Control (FlushAck seq slot))) (wait_slot ep slot) c)"

definition client_flush :: "'c endpoints \<Rightarrow> ('c HidClient, unit) act" where
  "client_flush ep = client_send ep (C_Control Flush)"

definition client_try_flush :: "'c endpoints \<Rightarrow> ('c HidClient, unit) act" where
  "client_try_flush ep = client_try_send ep (C_Control Flush)"

definition client_close :: "'c endpoints \<Rightarrow> 'c HidClient \<Rightarrow> 'c HidClient" where
  "client_close ep c =
     (let c = (if cl_gamepad_ring c then c\<lparr>cl_shared := ep_store_close ep (cl_shared c)\<rparr> else c)
      in snd (client_send ep (C_Control Close) c))"

definition client_close_wait :: "'c endpoints \<Rightarrow> ('c HidClient, unit) waits" where
  "client_close_wait ep c = map_option (\<lambda>(r, c). (r, client_close ep c)) (wait_void (client_flush_wait ep) c)"

definition gamepad_consumer_error :: "'c endpoints \<Rightarrow> 'c HidClient \<Rightarrow> bool" where
  "gamepad_consumer_error ep c \<longleftrightarrow> cl_gamepad_ring c \<and> ep_load_error ep (cl_shared c)"

definition is_gamepad_fast_path :: "'c HidClient \<Rightarrow> bool" where
  "is_gamepad_fast_path c = cl_gamepad_ring c"

definition client_scroll_with_buttons ::
    "'c endpoints \<Rightarrow> i32 \<Rightarrow> i32 \<Rightarrow> f32 \<Rightarrow> f32 \<Rightarrow> u32 \<Rightarrow> ('c HidClient, unit) waits" where
  "client_scroll_with_buttons ep x y hscroll vscroll buttons =
     then_wait (client_inject_scroll ep x y hscroll vscroll buttons) (wait_void (client_flush_wait ep))"

definition client_scroll :: "'c endpoints \<Rightarrow> i32 \<Rightarrow> i32 \<Rightarrow> f32 \<Rightarrow> f32 \<Rightarrow> ('c HidClient, unit) waits" where
  "client_scroll ep x y hscroll vscroll = client_scroll_with_buttons ep x y hscroll vscroll 0"

definition client_try_scroll :: "'c endpoints \<Rightarrow> i32 \<Rightarrow> i32 \<Rightarrow> f32 \<Rightarrow> f32 \<Rightarrow> ('c HidClient, unit) act" where
  "client_try_scroll ep x y hscroll vscroll = client_try_inject_scroll ep x y hscroll vscroll 0"

definition client_cancel_touch :: "'c endpoints \<Rightarrow> u64 \<Rightarrow> ('c HidClient, unit) waits" where
  "client_cancel_touch ep i =
     then_wait (client_send ep (C_Touch (MultitouchCancel i))) (wait_void (client_flush_wait ep))"

end
