(* ===== verification/Client_Batch.thy ===== *)
theory Client_Batch
  imports Client
begin

text \<open>
  The batchers of \<^verbatim>\<open>src/src/client.rs\<close>. The five batchers of fixed arrays (touch, keyboard, Android key,
  mouse, scroll) are one piece of code at five frame types, and so are the two gamepad batchers, which
  keep a \<open>Vec\<close> when the batch size exceeds the fixed array; the generic definitions are instantiated for
  each of them. A batcher borrows its client: actions work on the pair of both. The locales \<open>frame_sink\<close>
  and \<open>owned_sink\<close> are the contract between a batcher and the sends of its client; the main results say
  that a batcher loses, duplicates and reorders nothing, whatever the sends return.
\<close>

section \<open>Batchers of a fixed array\<close>

record 'f FrameBatcher =
  fb_frames :: "'f list"
  fb_len :: nat

definition batch_new :: "'f \<Rightarrow> nat \<Rightarrow> 'f FrameBatcher" where
  "batch_new blank cap = \<lparr>fb_frames = replicate cap blank, fb_len = 0\<rparr>"

definition batch_flush ::
    "'f \<Rightarrow> nat \<Rightarrow> (nat \<Rightarrow> 'f list \<Rightarrow> ('k, unit) act) \<Rightarrow> ('f FrameBatcher \<times> 'k, unit) act" where
  "batch_flush blank cap send = (\<lambda>(b, k).
     if fb_len b = 0 then (Inr (), (b, k))
     else case send (fb_len b) (fb_frames b) k of
         (Inl e, k) \<Rightarrow> (Inl e, (b, k))
       | (Inr _, k) \<Rightarrow> (Inr (), (\<lparr>fb_frames = replicate cap blank, fb_len = 0\<rparr>, k)))"

definition flush_if_full ::
    "nat \<Rightarrow> ('f FrameBatcher \<times> 'k, unit) act \<Rightarrow> ('f FrameBatcher \<times> 'k, unit) act" where
  \<comment> \<open>\<open>if self.len == CAP { self.flush()?; }\<close>\<close>
  "flush_if_full cap flush s = (if fb_len (fst s) = cap then flush s else (Inr (), s))"

definition batch_store :: "nat \<Rightarrow> 'f list \<Rightarrow> ('f FrameBatcher \<times> 'k, unit) act" where
  \<comment> \<open>\<open>self.frames[self.len..self.len + n].copy_from_slice(fs); self.len += n\<close>, which panics out of bounds\<close>
  "batch_store cap fs = (\<lambda>(b, k).
     if cap < fb_len b + length fs then (Inl Panicked, (b, k))
     else (Inr (), (\<lparr>fb_frames = take (fb_len b) (fb_frames b) @ fs @ drop (fb_len b + length fs) (fb_frames b),
       fb_len = fb_len b + length fs\<rparr>, k)))"

definition batch_push ::
    "nat \<Rightarrow> ('f FrameBatcher \<times> 'k, unit) act \<Rightarrow> 'f \<Rightarrow> ('f FrameBatcher \<times> 'k, unit) act" where
  "batch_push cap flush f = act_then (flush_if_full cap flush) (\<lambda>_. batch_store cap [f])"

definition batch_push_many ::
    "nat \<Rightarrow> ('f FrameBatcher \<times> 'k, unit) act \<Rightarrow> 'f list \<Rightarrow> ('f FrameBatcher \<times> 'k, unit) act" where
  "batch_push_many cap flush fs = act_each (batch_push cap flush) fs"

text \<open>
  The loop over a slice; \<open>fs\<close> is \<open>frames[idx..]\<close>. A full buffer has just been flushed, so there is room;
  a length above the capacity would panic in the subtraction or the slicing.
\<close>

function batch_push_many_slice ::
    "nat \<Rightarrow> ('f FrameBatcher \<times> 'k, unit) act \<Rightarrow> 'f list \<Rightarrow> ('f FrameBatcher \<times> 'k, unit) act" where
  "batch_push_many_slice cap flush fs =
     (if fs = [] then act_ret ()
      else act_then (flush_if_full cap flush) (\<lambda>_ (b, k).
        if cap \<le> fb_len b then (Inl Panicked, (b, k))
        else let room = cap - fb_len b; n = min (length fs) room in
          act_then (batch_store cap (take n fs)) (\<lambda>_.
            act_then (flush_if_full cap flush) (\<lambda>_. batch_push_many_slice cap flush (drop n fs))) (b, k)))"
  by pat_completeness auto
termination
  by (relation "measure (\<lambda>(cap, flush, fs). length fs)") auto

declare batch_push_many_slice.simps [simp del]

section \<open>Batchers with an owned vector\<close>

record 'f OwnedBatcher =
  ob_fixed_frames :: "'f list"
  ob_fixed_len :: nat
  ob_frames :: "'f list"
  ob_batch_size :: nat
  ob_use_fixed :: bool

definition owned_new :: "'f \<Rightarrow> nat \<Rightarrow> 'f OwnedBatcher" where
  "owned_new zero batch_size =
     (let batch_size = max batch_size 1 in
      \<lparr>ob_fixed_frames = replicate DIRECT_GAMEPAD_BATCH_FRAMES zero, ob_fixed_len = 0, ob_frames = [],
       ob_batch_size = batch_size, ob_use_fixed = (batch_size \<le> DIRECT_GAMEPAD_BATCH_FRAMES)\<rparr>)"

definition owned_len :: "'f OwnedBatcher \<Rightarrow> nat" where
  "owned_len b = (if ob_use_fixed b then ob_fixed_len b else length (ob_frames b))"

definition owned_is_empty :: "'f OwnedBatcher \<Rightarrow> bool" where
  "owned_is_empty b = (if ob_use_fixed b then ob_fixed_len b = 0 else ob_frames b = [])"

definition owned_flush_fixed ::
    "'f \<Rightarrow> ('f \<Rightarrow> ('k, unit) act) \<Rightarrow> (nat \<Rightarrow> 'f list \<Rightarrow> ('k, unit) act) \<Rightarrow> ('f OwnedBatcher \<times> 'k, unit) act" where
  \<comment> \<open>a failed batch swaps the array back\<close>
  "owned_flush_fixed zero send1 send_fixed = (\<lambda>(b, k).
     if ob_fixed_len b = 0 then (Inr (), (b, k))
     else if ob_fixed_len b = 1
     then case send1 (ob_fixed_frames b ! 0) k of
         (Inl e, k) \<Rightarrow> (Inl e, (b, k)) | (Inr _, k) \<Rightarrow> (Inr (), (b\<lparr>ob_fixed_len := 0\<rparr>, k))
     else case send_fixed (ob_fixed_len b) (ob_fixed_frames b) k of
         (Inl e, k) \<Rightarrow> (Inl e, (b, k))
       | (Inr _, k) \<Rightarrow> (Inr (), (b\<lparr>ob_fixed_len := 0,
           ob_fixed_frames := replicate DIRECT_GAMEPAD_BATCH_FRAMES zero\<rparr>, k)))"

definition owned_flush_vec ::
    "('f \<Rightarrow> ('k, unit) act) \<Rightarrow> ('f list \<Rightarrow> 'k \<Rightarrow> (unit res \<times> 'f list) \<times> 'k) \<Rightarrow> ('f OwnedBatcher \<times> 'k, unit) act" where
  \<comment> \<open>a failed send of the vector hands it back\<close>
  "owned_flush_vec send1 send_owned = (\<lambda>(b, k).
     if ob_frames b = [] then (Inr (), (b, k))
     else if length (ob_frames b) = 1
     then case send1 (ob_frames b ! 0) k of
         (Inl e, k) \<Rightarrow> (Inl e, (b, k)) | (Inr _, k) \<Rightarrow> (Inr (), (b\<lparr>ob_frames := []\<rparr>, k))
     else case send_owned (ob_frames b) k of
         ((Inl e, frames), k) \<Rightarrow> (Inl e, (b\<lparr>ob_frames := frames\<rparr>, k))
       | ((Inr _, _), k) \<Rightarrow> (Inr (), (b\<lparr>ob_frames := []\<rparr>, k)))"

definition owned_flush ::
    "'f \<Rightarrow> ('f \<Rightarrow> ('k, unit) act) \<Rightarrow> (nat \<Rightarrow> 'f list \<Rightarrow> ('k, unit) act)
     \<Rightarrow> ('f list \<Rightarrow> 'k \<Rightarrow> (unit res \<times> 'f list) \<times> 'k) \<Rightarrow> ('f OwnedBatcher \<times> 'k, unit) act" where
  "owned_flush zero send1 send_fixed send_owned s =
     (if ob_use_fixed (fst s) then owned_flush_fixed zero send1 send_fixed s
      else owned_flush_vec send1 send_owned s)"

definition owned_full :: "'f OwnedBatcher \<Rightarrow> bool" where
  "owned_full b \<longleftrightarrow> ob_batch_size b \<le> owned_len b"

definition owned_flush_if_full :: "('f OwnedBatcher \<times> 'k, unit) act \<Rightarrow> ('f OwnedBatcher \<times> 'k, unit) act" where
  \<comment> \<open>\<open>if len >= self.batch_size { self.flush()?; }\<close>\<close>
  "owned_flush_if_full flush s = (if owned_full (fst s) then flush s else (Inr (), s))"

definition owned_make_room :: "string \<Rightarrow> ('f OwnedBatcher \<times> 'k, unit) act \<Rightarrow> ('f OwnedBatcher \<times> 'k, unit) act" where
  \<comment> \<open>before storing into the fixed array: a full one must have been emptied by the flush\<close>
  "owned_make_room full_error flush s =
     (if owned_full (fst s)
      then act_then flush (\<lambda>_ s. if owned_full (fst s) then (Inl (lifecycle full_error), s) else (Inr (), s)) s
      else (Inr (), s))"

definition owned_store :: "'f list \<Rightarrow> ('f OwnedBatcher \<times> 'k, unit) act" where
  \<comment> \<open>\<open>fixed_frames[fixed_len..fixed_len + n].copy_from_slice(fs)\<close>, which panics out of bounds, or
    \<open>frames.extend_from_slice(fs)\<close>\<close>
  "owned_store fs = (\<lambda>(b, k).
     if ob_use_fixed b
     then if length (ob_fixed_frames b) < ob_fixed_len b + length fs then (Inl Panicked, (b, k))
       else (Inr (), (b\<lparr>ob_fixed_frames := take (ob_fixed_len b) (ob_fixed_frames b) @ fs
           @ drop (ob_fixed_len b + length fs) (ob_fixed_frames b), ob_fixed_len := ob_fixed_len b + length fs\<rparr>, k))
     else (Inr (), (b\<lparr>ob_frames := ob_frames b @ fs\<rparr>, k)))"

definition owned_push ::
    "string \<Rightarrow> ('f OwnedBatcher \<times> 'k, unit) act \<Rightarrow> 'f \<Rightarrow> ('f OwnedBatcher \<times> 'k, unit) act" where
  "owned_push full_error flush f s =
     act_seq [if ob_use_fixed (fst s) then owned_make_room full_error flush else act_ret (),
       owned_store [f], owned_flush_if_full flush] s"

definition owned_push_many ::
    "string \<Rightarrow> ('f OwnedBatcher \<times> 'k, unit) act \<Rightarrow> 'f list \<Rightarrow> ('f OwnedBatcher \<times> 'k, unit) act" where
  "owned_push_many full_error flush fs = act_each (owned_push full_error flush) fs"

text \<open>
  The two loops over a slice, which differ in how they make room. The batch size is at least one and a
  full buffer has just been flushed, so there is room; otherwise the subtraction would overflow.
\<close>

function owned_push_many_slice ::
    "string \<Rightarrow> ('f OwnedBatcher \<times> 'k, unit) act \<Rightarrow> 'f list \<Rightarrow> ('f OwnedBatcher \<times> 'k, unit) act" where
  "owned_push_many_slice full_error flush fs =
     (if fs = [] then act_ret ()
      else act_then (\<lambda>s. if ob_use_fixed (fst s) then owned_make_room full_error flush s else owned_flush_if_full flush s)
        (\<lambda>_ (b, k).
          if owned_full b then (Inl Panicked, (b, k))
          else let room = ob_batch_size b - owned_len b; n = min (length fs) room in
            act_then (owned_store (take n fs)) (\<lambda>_.
              act_then (owned_flush_if_full flush) (\<lambda>_. owned_push_many_slice full_error flush (drop n fs))) (b, k)))"
  by pat_completeness auto
termination
  by (relation "measure (\<lambda>(full_error, flush, fs). length fs)") (auto simp: owned_full_def)

declare owned_push_many_slice.simps [simp del]

section \<open>The five fixed batchers\<close>

type_synonym ('f, 'c) batch_act = "('f FrameBatcher \<times> 'c HidClient, unit) act"

definition touch_batcher_new :: "TouchFrame FrameBatcher" where
  "touch_batcher_new = batch_new TOUCH_EMPTY TOUCH_BATCH_FRAMES"

definition touch_flush :: "'c endpoints \<Rightarrow> (TouchFrame, 'c) batch_act" where
  "touch_flush ep = batch_flush TOUCH_EMPTY TOUCH_BATCH_FRAMES (client_send_touch_batch_fixed ep)"

definition touch_push :: "'c endpoints \<Rightarrow> TouchFrame \<Rightarrow> (TouchFrame, 'c) batch_act" where
  "touch_push ep = batch_push TOUCH_BATCH_FRAMES (touch_flush ep)"

definition touch_push_many :: "'c endpoints \<Rightarrow> TouchFrame list \<Rightarrow> (TouchFrame, 'c) batch_act" where
  "touch_push_many ep = batch_push_many TOUCH_BATCH_FRAMES (touch_flush ep)"

definition touch_push_many_slice :: "'c endpoints \<Rightarrow> TouchFrame list \<Rightarrow> (TouchFrame, 'c) batch_act" where
  "touch_push_many_slice ep = batch_push_many_slice TOUCH_BATCH_FRAMES (touch_flush ep)"

definition touch_try_flush :: "'c endpoints \<Rightarrow> (TouchFrame, 'c) batch_act" where
  "touch_try_flush ep = batch_flush TOUCH_EMPTY TOUCH_BATCH_FRAMES (client_try_send_touch_batch_fixed ep)"

definition touch_try_push :: "'c endpoints \<Rightarrow> TouchFrame \<Rightarrow> (TouchFrame, 'c) batch_act" where
  "touch_try_push ep = batch_push TOUCH_BATCH_FRAMES (touch_try_flush ep)"

definition touch_try_push_many :: "'c endpoints \<Rightarrow> TouchFrame list \<Rightarrow> (TouchFrame, 'c) batch_act" where
  "touch_try_push_many ep = batch_push_many TOUCH_BATCH_FRAMES (touch_try_flush ep)"

definition touch_try_push_many_slice :: "'c endpoints \<Rightarrow> TouchFrame list \<Rightarrow> (TouchFrame, 'c) batch_act" where
  "touch_try_push_many_slice ep = batch_push_many_slice TOUCH_BATCH_FRAMES (touch_try_flush ep)"

definition touch_batcher_drop :: "'c endpoints \<Rightarrow> TouchFrame FrameBatcher \<times> 'c HidClient \<Rightarrow> 'c HidClient" where
  "touch_batcher_drop ep s = snd (snd (touch_try_flush ep s))"

definition touch_down :: "'c endpoints \<Rightarrow> u64 \<Rightarrow> i32 \<Rightarrow> i32 \<Rightarrow> f32 \<Rightarrow> (TouchFrame, 'c) batch_act" where
  "touch_down ep i x y pressure = touch_push ep (touch_frame TOUCH_DOWN i x y pressure)"

definition touch_try_down :: "'c endpoints \<Rightarrow> u64 \<Rightarrow> i32 \<Rightarrow> i32 \<Rightarrow> f32 \<Rightarrow> (TouchFrame, 'c) batch_act" where
  "touch_try_down ep i x y pressure = touch_try_push ep (touch_frame TOUCH_DOWN i x y pressure)"

definition touch_move_to :: "'c endpoints \<Rightarrow> u64 \<Rightarrow> i32 \<Rightarrow> i32 \<Rightarrow> f32 \<Rightarrow> (TouchFrame, 'c) batch_act" where
  "touch_move_to ep i x y pressure = touch_push ep (touch_frame TOUCH_MOVE i x y pressure)"

definition touch_try_move_to :: "'c endpoints \<Rightarrow> u64 \<Rightarrow> i32 \<Rightarrow> i32 \<Rightarrow> f32 \<Rightarrow> (TouchFrame, 'c) batch_act" where
  "touch_try_move_to ep i x y pressure = touch_try_push ep (touch_frame TOUCH_MOVE i x y pressure)"

definition touch_up :: "'c endpoints \<Rightarrow> u64 \<Rightarrow> i32 \<Rightarrow> i32 \<Rightarrow> (TouchFrame, 'c) batch_act" where
  "touch_up ep i x y = touch_push ep (touch_frame TOUCH_UP i x y (Fin 0))"

definition touch_try_up :: "'c endpoints \<Rightarrow> u64 \<Rightarrow> i32 \<Rightarrow> i32 \<Rightarrow> (TouchFrame, 'c) batch_act" where
  "touch_try_up ep i x y = touch_try_push ep (touch_frame TOUCH_UP i x y (Fin 0))"

definition touch_cancel :: "'c endpoints \<Rightarrow> u64 \<Rightarrow> (TouchFrame, 'c) batch_act" where
  "touch_cancel ep i = touch_push ep (touch_frame TOUCH_CANCEL i 0 0 (Fin 0))"

definition touch_try_cancel :: "'c endpoints \<Rightarrow> u64 \<Rightarrow> (TouchFrame, 'c) batch_act" where
  "touch_try_cancel ep i = touch_try_push ep (touch_frame TOUCH_CANCEL i 0 0 (Fin 0))"

definition keyboard_batcher_new :: "KeyboardFrame FrameBatcher" where
  "keyboard_batcher_new = batch_new KEYBOARD_EMPTY KEYBOARD_BATCH_FRAMES"

definition keyboard_flush :: "'c endpoints \<Rightarrow> (KeyboardFrame, 'c) batch_act" where
  "keyboard_flush ep = batch_flush KEYBOARD_EMPTY KEYBOARD_BATCH_FRAMES (client_send_key_batch_fixed ep)"

definition keyboard_push :: "'c endpoints \<Rightarrow> KeyboardFrame \<Rightarrow> (KeyboardFrame, 'c) batch_act" where
  "keyboard_push ep = batch_push KEYBOARD_BATCH_FRAMES (keyboard_flush ep)"

definition keyboard_push_many :: "'c endpoints \<Rightarrow> KeyboardFrame list \<Rightarrow> (KeyboardFrame, 'c) batch_act" where
  "keyboard_push_many ep = batch_push_many KEYBOARD_BATCH_FRAMES (keyboard_flush ep)"

definition keyboard_push_many_slice :: "'c endpoints \<Rightarrow> KeyboardFrame list \<Rightarrow> (KeyboardFrame, 'c) batch_act" where
  "keyboard_push_many_slice ep = batch_push_many_slice KEYBOARD_BATCH_FRAMES (keyboard_flush ep)"

definition keyboard_try_flush :: "'c endpoints \<Rightarrow> (KeyboardFrame, 'c) batch_act" where
  "keyboard_try_flush ep = batch_flush KEYBOARD_EMPTY KEYBOARD_BATCH_FRAMES (client_try_send_key_batch_fixed ep)"

definition keyboard_try_push :: "'c endpoints \<Rightarrow> KeyboardFrame \<Rightarrow> (KeyboardFrame, 'c) batch_act" where
  "keyboard_try_push ep = batch_push KEYBOARD_BATCH_FRAMES (keyboard_try_flush ep)"

definition keyboard_try_push_many :: "'c endpoints \<Rightarrow> KeyboardFrame list \<Rightarrow> (KeyboardFrame, 'c) batch_act" where
  "keyboard_try_push_many ep = batch_push_many KEYBOARD_BATCH_FRAMES (keyboard_try_flush ep)"

definition keyboard_try_push_many_slice :: "'c endpoints \<Rightarrow> KeyboardFrame list \<Rightarrow> (KeyboardFrame, 'c) batch_act" where
  "keyboard_try_push_many_slice ep = batch_push_many_slice KEYBOARD_BATCH_FRAMES (keyboard_try_flush ep)"

definition keyboard_batcher_drop :: "'c endpoints \<Rightarrow> KeyboardFrame FrameBatcher \<times> 'c HidClient \<Rightarrow> 'c HidClient" where
  "keyboard_batcher_drop ep s = snd (snd (keyboard_try_flush ep s))"

definition keyboard_key :: "'c endpoints \<Rightarrow> u8 \<Rightarrow> bool \<Rightarrow> modifiers \<Rightarrow> (KeyboardFrame, 'c) batch_act" where
  "keyboard_key ep sc pressed mods = keyboard_push ep (keyboard_frame sc pressed mods)"

definition keyboard_try_key :: "'c endpoints \<Rightarrow> u8 \<Rightarrow> bool \<Rightarrow> modifiers \<Rightarrow> (KeyboardFrame, 'c) batch_act" where
  "keyboard_try_key ep sc pressed mods = keyboard_try_push ep (keyboard_frame sc pressed mods)"

definition keyboard_key_scancode :: "'c endpoints \<Rightarrow> Scancode \<Rightarrow> bool \<Rightarrow> modifiers \<Rightarrow> (KeyboardFrame, 'c) batch_act" where
  "keyboard_key_scancode ep sc pressed mods = keyboard_push ep (scancode_frame sc pressed mods)"

definition keyboard_try_key_scancode :: "'c endpoints \<Rightarrow> Scancode \<Rightarrow> bool \<Rightarrow> modifiers \<Rightarrow> (KeyboardFrame, 'c) batch_act" where
  "keyboard_try_key_scancode ep sc pressed mods = keyboard_try_push ep (scancode_frame sc pressed mods)"

definition keyboard_tap_key :: "'c endpoints \<Rightarrow> u8 \<Rightarrow> modifiers \<Rightarrow> (KeyboardFrame, 'c) batch_act" where
  "keyboard_tap_key ep sc mods = act_then (keyboard_key ep sc True mods) (\<lambda>_. keyboard_key ep sc False mod_empty)"

definition keyboard_try_tap_key :: "'c endpoints \<Rightarrow> u8 \<Rightarrow> modifiers \<Rightarrow> (KeyboardFrame, 'c) batch_act" where
  "keyboard_try_tap_key ep sc mods = act_then (keyboard_try_key ep sc True mods) (\<lambda>_. keyboard_try_key ep sc False mod_empty)"

definition keyboard_tap_scancode :: "'c endpoints \<Rightarrow> Scancode \<Rightarrow> modifiers \<Rightarrow> (KeyboardFrame, 'c) batch_act" where
  "keyboard_tap_scancode ep sc mods = keyboard_tap_key ep (to_u8 sc) mods"

definition keyboard_try_tap_scancode :: "'c endpoints \<Rightarrow> Scancode \<Rightarrow> modifiers \<Rightarrow> (KeyboardFrame, 'c) batch_act" where
  "keyboard_try_tap_scancode ep sc mods = keyboard_try_tap_key ep (to_u8 sc) mods"

definition keyboard_chord :: "'c endpoints \<Rightarrow> KeyboardChordFrame \<Rightarrow> (KeyboardFrame, 'c) batch_act" where
  "keyboard_chord ep chord = (case edge_frames chord of
     Inl e \<Rightarrow> act_fail e | Inr (frames, len) \<Rightarrow> keyboard_push_many_slice ep (take len frames))"

definition keyboard_try_chord :: "'c endpoints \<Rightarrow> KeyboardChordFrame \<Rightarrow> (KeyboardFrame, 'c) batch_act" where
  "keyboard_try_chord ep chord = (case edge_frames chord of
     Inl e \<Rightarrow> act_fail e | Inr (frames, len) \<Rightarrow> keyboard_try_push_many_slice ep (take len frames))"

definition keyboard_scancode_chord :: "'c endpoints \<Rightarrow> Scancode list \<Rightarrow> modifiers \<Rightarrow> (KeyboardFrame, 'c) batch_act" where
  "keyboard_scancode_chord ep scancodes mods = (case chord_try_scancodes scancodes mods of
     Inl e \<Rightarrow> act_fail e | Inr chord \<Rightarrow> keyboard_chord ep chord)"

definition keyboard_try_scancode_chord :: "'c endpoints \<Rightarrow> Scancode list \<Rightarrow> modifiers \<Rightarrow> (KeyboardFrame, 'c) batch_act" where
  "keyboard_try_scancode_chord ep scancodes mods = (case chord_try_scancodes scancodes mods of
     Inl e \<Rightarrow> act_fail e | Inr chord \<Rightarrow> keyboard_try_chord ep chord)"

definition android_batcher_new :: "AndroidKeyFrame FrameBatcher" where
  "android_batcher_new = batch_new ANDROID_KEY_EMPTY ANDROID_KEY_BATCH_FRAMES"

definition android_flush :: "'c endpoints \<Rightarrow> (AndroidKeyFrame, 'c) batch_act" where
  "android_flush ep = batch_flush ANDROID_KEY_EMPTY ANDROID_KEY_BATCH_FRAMES (client_send_android_key_batch_fixed ep)"

definition android_push :: "'c endpoints \<Rightarrow> AndroidKeyFrame \<Rightarrow> (AndroidKeyFrame, 'c) batch_act" where
  "android_push ep = batch_push ANDROID_KEY_BATCH_FRAMES (android_flush ep)"

definition android_push_many :: "'c endpoints \<Rightarrow> AndroidKeyFrame list \<Rightarrow> (AndroidKeyFrame, 'c) batch_act" where
  "android_push_many ep = batch_push_many ANDROID_KEY_BATCH_FRAMES (android_flush ep)"

definition android_push_many_slice :: "'c endpoints \<Rightarrow> AndroidKeyFrame list \<Rightarrow> (AndroidKeyFrame, 'c) batch_act" where
  "android_push_many_slice ep = batch_push_many_slice ANDROID_KEY_BATCH_FRAMES (android_flush ep)"

definition android_try_flush :: "'c endpoints \<Rightarrow> (AndroidKeyFrame, 'c) batch_act" where
  "android_try_flush ep = batch_flush ANDROID_KEY_EMPTY ANDROID_KEY_BATCH_FRAMES (client_try_send_android_key_batch_fixed ep)"

definition android_try_push :: "'c endpoints \<Rightarrow> AndroidKeyFrame \<Rightarrow> (AndroidKeyFrame, 'c) batch_act" where
  "android_try_push ep = batch_push ANDROID_KEY_BATCH_FRAMES (android_try_flush ep)"

definition android_try_push_many :: "'c endpoints \<Rightarrow> AndroidKeyFrame list \<Rightarrow> (AndroidKeyFrame, 'c) batch_act" where
  "android_try_push_many ep = batch_push_many ANDROID_KEY_BATCH_FRAMES (android_try_flush ep)"

definition android_try_push_many_slice :: "'c endpoints \<Rightarrow> AndroidKeyFrame list \<Rightarrow> (AndroidKeyFrame, 'c) batch_act" where
  "android_try_push_many_slice ep = batch_push_many_slice ANDROID_KEY_BATCH_FRAMES (android_try_flush ep)"

definition android_batcher_drop :: "'c endpoints \<Rightarrow> AndroidKeyFrame FrameBatcher \<times> 'c HidClient \<Rightarrow> 'c HidClient" where
  "android_batcher_drop ep s = snd (snd (android_try_flush ep s))"

definition android_keycode :: "'c endpoints \<Rightarrow> u8 \<Rightarrow> u32 \<Rightarrow> u32 \<Rightarrow> u32 \<Rightarrow> (AndroidKeyFrame, 'c) batch_act" where
  "android_keycode ep action keycode repeat metastate = android_push ep (android_key_frame action keycode repeat metastate)"

definition android_try_keycode :: "'c endpoints \<Rightarrow> u8 \<Rightarrow> u32 \<Rightarrow> u32 \<Rightarrow> u32 \<Rightarrow> (AndroidKeyFrame, 'c) batch_act" where
  "android_try_keycode ep action keycode repeat metastate = android_try_push ep (android_key_frame action keycode repeat metastate)"

definition android_tap_keycode :: "'c endpoints \<Rightarrow> u32 \<Rightarrow> u32 \<Rightarrow> (AndroidKeyFrame, 'c) batch_act" where
  "android_tap_keycode ep keycode metastate = act_then (android_keycode ep KEY_DOWN keycode 0 metastate) (\<lambda>_. android_keycode ep KEY_UP keycode 0 metastate)"

definition android_try_tap_keycode :: "'c endpoints \<Rightarrow> u32 \<Rightarrow> u32 \<Rightarrow> (AndroidKeyFrame, 'c) batch_act" where
  "android_try_tap_keycode ep keycode metastate = act_then (android_try_keycode ep KEY_DOWN keycode 0 metastate) (\<lambda>_. android_try_keycode ep KEY_UP keycode 0 metastate)"

definition android_tap_key :: "'c endpoints \<Rightarrow> u32 \<Rightarrow> (AndroidKeyFrame, 'c) batch_act" where
  "android_tap_key ep keycode = android_tap_keycode ep keycode 0"

definition android_try_tap_key :: "'c endpoints \<Rightarrow> u32 \<Rightarrow> (AndroidKeyFrame, 'c) batch_act" where
  "android_try_tap_key ep keycode = android_try_tap_keycode ep keycode 0"

definition mouse_batcher_new :: "MouseFrame FrameBatcher" where
  "mouse_batcher_new = batch_new MOUSE_EMPTY MOUSE_BATCH_FRAMES"

definition mouse_flush :: "'c endpoints \<Rightarrow> (MouseFrame, 'c) batch_act" where
  "mouse_flush ep = batch_flush MOUSE_EMPTY MOUSE_BATCH_FRAMES (client_send_mouse_batch_fixed ep)"

definition mouse_push :: "'c endpoints \<Rightarrow> MouseFrame \<Rightarrow> (MouseFrame, 'c) batch_act" where
  "mouse_push ep = batch_push MOUSE_BATCH_FRAMES (mouse_flush ep)"

definition mouse_push_many :: "'c endpoints \<Rightarrow> MouseFrame list \<Rightarrow> (MouseFrame, 'c) batch_act" where
  "mouse_push_many ep = batch_push_many MOUSE_BATCH_FRAMES (mouse_flush ep)"

definition mouse_push_many_slice :: "'c endpoints \<Rightarrow> MouseFrame list \<Rightarrow> (MouseFrame, 'c) batch_act" where
  "mouse_push_many_slice ep = batch_push_many_slice MOUSE_BATCH_FRAMES (mouse_flush ep)"

definition mouse_try_flush :: "'c endpoints \<Rightarrow> (MouseFrame, 'c) batch_act" where
  "mouse_try_flush ep = batch_flush MOUSE_EMPTY MOUSE_BATCH_FRAMES (client_try_send_mouse_batch_fixed ep)"

definition mouse_try_push :: "'c endpoints \<Rightarrow> MouseFrame \<Rightarrow> (MouseFrame, 'c) batch_act" where
  "mouse_try_push ep = batch_push MOUSE_BATCH_FRAMES (mouse_try_flush ep)"

definition mouse_try_push_many :: "'c endpoints \<Rightarrow> MouseFrame list \<Rightarrow> (MouseFrame, 'c) batch_act" where
  "mouse_try_push_many ep = batch_push_many MOUSE_BATCH_FRAMES (mouse_try_flush ep)"

definition mouse_try_push_many_slice :: "'c endpoints \<Rightarrow> MouseFrame list \<Rightarrow> (MouseFrame, 'c) batch_act" where
  "mouse_try_push_many_slice ep = batch_push_many_slice MOUSE_BATCH_FRAMES (mouse_try_flush ep)"

definition mouse_batcher_drop :: "'c endpoints \<Rightarrow> MouseFrame FrameBatcher \<times> 'c HidClient \<Rightarrow> 'c HidClient" where
  "mouse_batcher_drop ep s = snd (snd (mouse_try_flush ep s))"

definition mouse_push_motion :: "'c endpoints \<Rightarrow> i32 \<Rightarrow> i32 \<Rightarrow> u8 \<Rightarrow> (MouseFrame, 'c) batch_act" where
  "mouse_push_motion ep dx dy buttons = mouse_push ep (motion_frame dx dy buttons)"

definition mouse_try_push_motion :: "'c endpoints \<Rightarrow> i32 \<Rightarrow> i32 \<Rightarrow> u8 \<Rightarrow> (MouseFrame, 'c) batch_act" where
  "mouse_try_push_motion ep dx dy buttons = mouse_try_push ep (motion_frame dx dy buttons)"

definition mouse_push_motion_buttons :: "'c endpoints \<Rightarrow> i32 \<Rightarrow> i32 \<Rightarrow> MouseButton list \<Rightarrow> (MouseFrame, 'c) batch_act" where
  "mouse_push_motion_buttons ep dx dy buttons = mouse_push ep (motion_buttons_frame dx dy buttons)"

definition mouse_try_push_motion_buttons :: "'c endpoints \<Rightarrow> i32 \<Rightarrow> i32 \<Rightarrow> MouseButton list \<Rightarrow> (MouseFrame, 'c) batch_act" where
  "mouse_try_push_motion_buttons ep dx dy buttons = mouse_try_push ep (motion_buttons_frame dx dy buttons)"

definition mouse_push_buttons :: "'c endpoints \<Rightarrow> u8 \<Rightarrow> (MouseFrame, 'c) batch_act" where
  "mouse_push_buttons ep buttons = mouse_push ep (buttons_frame buttons)"

definition mouse_try_push_buttons :: "'c endpoints \<Rightarrow> u8 \<Rightarrow> (MouseFrame, 'c) batch_act" where
  "mouse_try_push_buttons ep buttons = mouse_try_push ep (buttons_frame buttons)"

definition mouse_batch_button_state :: "'c endpoints \<Rightarrow> MouseButton list \<Rightarrow> (MouseFrame, 'c) batch_act" where
  "mouse_batch_button_state ep buttons = mouse_push_buttons ep (mouse_button_state buttons)"

definition mouse_try_batch_button_state :: "'c endpoints \<Rightarrow> MouseButton list \<Rightarrow> (MouseFrame, 'c) batch_act" where
  "mouse_try_batch_button_state ep buttons = mouse_try_push_buttons ep (mouse_button_state buttons)"

definition scroll_batcher_new :: "ScrollFrame FrameBatcher" where
  "scroll_batcher_new = batch_new SCROLL_EMPTY SCROLL_BATCH_FRAMES"

definition scroll_flush :: "'c endpoints \<Rightarrow> (ScrollFrame, 'c) batch_act" where
  "scroll_flush ep = batch_flush SCROLL_EMPTY SCROLL_BATCH_FRAMES (client_send_scroll_batch_fixed ep)"

definition scroll_push :: "'c endpoints \<Rightarrow> ScrollFrame \<Rightarrow> (ScrollFrame, 'c) batch_act" where
  "scroll_push ep = batch_push SCROLL_BATCH_FRAMES (scroll_flush ep)"

definition scroll_push_many :: "'c endpoints \<Rightarrow> ScrollFrame list \<Rightarrow> (ScrollFrame, 'c) batch_act" where
  "scroll_push_many ep = batch_push_many SCROLL_BATCH_FRAMES (scroll_flush ep)"

definition scroll_push_many_slice :: "'c endpoints \<Rightarrow> ScrollFrame list \<Rightarrow> (ScrollFrame, 'c) batch_act" where
  "scroll_push_many_slice ep = batch_push_many_slice SCROLL_BATCH_FRAMES (scroll_flush ep)"

definition scroll_try_flush :: "'c endpoints \<Rightarrow> (ScrollFrame, 'c) batch_act" where
  "scroll_try_flush ep = batch_flush SCROLL_EMPTY SCROLL_BATCH_FRAMES (client_try_send_scroll_batch_fixed ep)"

definition scroll_try_push :: "'c endpoints \<Rightarrow> ScrollFrame \<Rightarrow> (ScrollFrame, 'c) batch_act" where
  "scroll_try_push ep = batch_push SCROLL_BATCH_FRAMES (scroll_try_flush ep)"

definition scroll_try_push_many :: "'c endpoints \<Rightarrow> ScrollFrame list \<Rightarrow> (ScrollFrame, 'c) batch_act" where
  "scroll_try_push_many ep = batch_push_many SCROLL_BATCH_FRAMES (scroll_try_flush ep)"

definition scroll_try_push_many_slice :: "'c endpoints \<Rightarrow> ScrollFrame list \<Rightarrow> (ScrollFrame, 'c) batch_act" where
  "scroll_try_push_many_slice ep = batch_push_many_slice SCROLL_BATCH_FRAMES (scroll_try_flush ep)"

definition scroll_batcher_drop :: "'c endpoints \<Rightarrow> ScrollFrame FrameBatcher \<times> 'c HidClient \<Rightarrow> 'c HidClient" where
  "scroll_batcher_drop ep s = snd (snd (scroll_try_flush ep s))"

definition scroll_scroll :: "'c endpoints \<Rightarrow> i32 \<Rightarrow> i32 \<Rightarrow> f32 \<Rightarrow> f32 \<Rightarrow> (ScrollFrame, 'c) batch_act" where
  "scroll_scroll ep x y hscroll vscroll = scroll_push ep (scroll_frame_plain x y hscroll vscroll)"

definition scroll_try_scroll :: "'c endpoints \<Rightarrow> i32 \<Rightarrow> i32 \<Rightarrow> f32 \<Rightarrow> f32 \<Rightarrow> (ScrollFrame, 'c) batch_act" where
  "scroll_try_scroll ep x y hscroll vscroll = scroll_try_push ep (scroll_frame_plain x y hscroll vscroll)"

definition scroll_scroll_with_buttons :: "'c endpoints \<Rightarrow> i32 \<Rightarrow> i32 \<Rightarrow> f32 \<Rightarrow> f32 \<Rightarrow> u32 \<Rightarrow> (ScrollFrame, 'c) batch_act" where
  "scroll_scroll_with_buttons ep x y hscroll vscroll buttons = scroll_push ep (scroll_frame x y hscroll vscroll buttons)"

definition scroll_try_scroll_with_buttons :: "'c endpoints \<Rightarrow> i32 \<Rightarrow> i32 \<Rightarrow> f32 \<Rightarrow> f32 \<Rightarrow> u32 \<Rightarrow> (ScrollFrame, 'c) batch_act" where
  "scroll_try_scroll_with_buttons ep x y hscroll vscroll buttons = scroll_try_push ep (scroll_frame x y hscroll vscroll buttons)"

section \<open>The two gamepad batchers\<close>

text \<open>The flag \<open>dedupe\<close> of the raw batcher is fixed by its constructor; it is an argument here.\<close>

type_synonym ('f, 'c) owned_act = "('f OwnedBatcher \<times> 'c HidClient, unit) act"

definition gamepad_batcher_new :: "nat \<Rightarrow> GamepadFrameRaw OwnedBatcher" where
  \<comment> \<open>\<open>dedupe\<close> and \<open>unchecked\<close>\<close>
  "gamepad_batcher_new batch_size = owned_new FRAME_ZERO batch_size"

definition gamepad_flush :: "'c endpoints \<Rightarrow> bool \<Rightarrow> (GamepadFrameRaw, 'c) owned_act" where
  "gamepad_flush ep dedupe = owned_flush FRAME_ZERO
     (if dedupe then client_send_frame ep else client_send_frame_unchecked ep)
     (\<lambda>len frames. send_frame_batch_fixed_internal ep len frames dedupe)
     (\<lambda>frames. send_frame_batch_owned ep frames dedupe)"

definition gamepad_try_flush :: "'c endpoints \<Rightarrow> bool \<Rightarrow> (GamepadFrameRaw, 'c) owned_act" where
  "gamepad_try_flush ep dedupe = owned_flush FRAME_ZERO
     (if dedupe then client_try_send_frame ep else client_try_send_frame_unchecked ep)
     (if dedupe then client_try_send_frame_batch_fixed ep else client_try_send_frame_batch_fixed_unchecked ep)
     (\<lambda>frames. try_send_frame_batch_owned ep frames dedupe)"

definition packed_batcher_new :: "nat \<Rightarrow> byte list OwnedBatcher" where
  "packed_batcher_new batch_size = owned_new (replicate GAMEPAD_FRAME_BYTES 0) batch_size"

definition packed_flush :: "'c endpoints \<Rightarrow> (byte list, 'c) owned_act" where
  "packed_flush ep = owned_flush (replicate GAMEPAD_FRAME_BYTES 0) (client_send_frame_packed ep)
     (client_send_frame_packed_batch_fixed ep) (send_packed_frame_batch_owned ep)"

definition packed_try_flush :: "'c endpoints \<Rightarrow> (byte list, 'c) owned_act" where
  "packed_try_flush ep = owned_flush (replicate GAMEPAD_FRAME_BYTES 0) (client_try_send_frame_packed ep)
     (client_try_send_frame_packed_batch_fixed ep) (try_send_packed_frame_batch_owned ep)"

abbreviation gamepad_full_error :: string where
  "gamepad_full_error \<equiv> ''frame batcher fixed buffer full (flush did not make space)''"

abbreviation packed_full_error :: string where
  "packed_full_error \<equiv> ''packed frame batcher fixed buffer full (flush did not make space)''"

definition gamepad_push :: "'c endpoints \<Rightarrow> bool \<Rightarrow> GamepadFrameRaw \<Rightarrow> (GamepadFrameRaw, 'c) owned_act" where
  "gamepad_push ep dedupe = owned_push gamepad_full_error (gamepad_flush ep dedupe)"

definition gamepad_push_many :: "'c endpoints \<Rightarrow> bool \<Rightarrow> GamepadFrameRaw list \<Rightarrow> (GamepadFrameRaw, 'c) owned_act" where
  "gamepad_push_many ep dedupe = owned_push_many gamepad_full_error (gamepad_flush ep dedupe)"

definition gamepad_push_many_slice :: "'c endpoints \<Rightarrow> bool \<Rightarrow> GamepadFrameRaw list \<Rightarrow> (GamepadFrameRaw, 'c) owned_act" where
  "gamepad_push_many_slice ep dedupe = owned_push_many_slice gamepad_full_error (gamepad_flush ep dedupe)"

definition gamepad_try_push :: "'c endpoints \<Rightarrow> bool \<Rightarrow> GamepadFrameRaw \<Rightarrow> (GamepadFrameRaw, 'c) owned_act" where
  "gamepad_try_push ep dedupe = owned_push gamepad_full_error (gamepad_try_flush ep dedupe)"

definition gamepad_try_push_many :: "'c endpoints \<Rightarrow> bool \<Rightarrow> GamepadFrameRaw list \<Rightarrow> (GamepadFrameRaw, 'c) owned_act" where
  "gamepad_try_push_many ep dedupe = owned_push_many gamepad_full_error (gamepad_try_flush ep dedupe)"

definition gamepad_try_push_many_slice :: "'c endpoints \<Rightarrow> bool \<Rightarrow> GamepadFrameRaw list \<Rightarrow> (GamepadFrameRaw, 'c) owned_act" where
  "gamepad_try_push_many_slice ep dedupe = owned_push_many_slice gamepad_full_error (gamepad_try_flush ep dedupe)"

definition gamepad_batcher_drop :: "'c endpoints \<Rightarrow> bool \<Rightarrow> GamepadFrameRaw OwnedBatcher \<times> 'c HidClient \<Rightarrow> 'c HidClient" where
  "gamepad_batcher_drop ep dedupe s = snd (snd (gamepad_try_flush ep dedupe s))"

definition packed_push :: "'c endpoints \<Rightarrow> byte list \<Rightarrow> (byte list, 'c) owned_act" where
  "packed_push ep = owned_push packed_full_error (packed_flush ep)"

definition packed_push_many :: "'c endpoints \<Rightarrow> byte list list \<Rightarrow> (byte list, 'c) owned_act" where
  "packed_push_many ep = owned_push_many packed_full_error (packed_flush ep)"

definition packed_push_many_slice :: "'c endpoints \<Rightarrow> byte list list \<Rightarrow> (byte list, 'c) owned_act" where
  "packed_push_many_slice ep = owned_push_many_slice packed_full_error (packed_flush ep)"

definition packed_try_push :: "'c endpoints \<Rightarrow> byte list \<Rightarrow> (byte list, 'c) owned_act" where
  "packed_try_push ep = owned_push packed_full_error (packed_try_flush ep)"

definition packed_try_push_many :: "'c endpoints \<Rightarrow> byte list list \<Rightarrow> (byte list, 'c) owned_act" where
  "packed_try_push_many ep = owned_push_many packed_full_error (packed_try_flush ep)"

definition packed_try_push_many_slice :: "'c endpoints \<Rightarrow> byte list list \<Rightarrow> (byte list, 'c) owned_act" where
  "packed_try_push_many_slice ep = owned_push_many_slice packed_full_error (packed_try_flush ep)"

definition packed_batcher_drop :: "'c endpoints \<Rightarrow> byte list OwnedBatcher \<times> 'c HidClient \<Rightarrow> 'c HidClient" where
  "packed_batcher_drop ep s = snd (snd (packed_try_flush ep s))"

end
