(* ===== verification/Client_Batch_Exact.thy ===== *)
theory Client_Batch_Exact
  imports Client_Batch
begin

text \<open>
  Batchers are exact: whatever the sends of the client return, what the client took followed by what the
  batcher still holds is what was pushed, in order. \<open>adds\<close> states this for one action; the locales
  \<open>frame_sink\<close> and \<open>owned_sink\<close> prove it for every operation of a batcher from the contract of the sends,
  and \<open>command_channel\<close> derives that contract for every kind of frame from the laws of the channel.
\<close>

section \<open>Actions that add frames\<close>

definition outcome :: "('s \<Rightarrow> bool) \<Rightarrow> ('s \<Rightarrow> 'f list) \<Rightarrow> 'f list \<Rightarrow> 'f list \<Rightarrow> unit res \<times> 's \<Rightarrow> bool" where
  \<comment> \<open>a good state whose contents are \<open>base\<close> followed by \<open>fs\<close>, or by a prefix of it after an error\<close>
  "outcome good contents base fs = (\<lambda>(r, s). good s \<and> r \<noteq> Inl Panicked \<and>
     (\<exists>n \<le> length fs. contents s = base @ take n fs \<and> (is_ok r \<longrightarrow> n = length fs)))"

definition prefix_added :: "('s \<Rightarrow> bool) \<Rightarrow> ('s \<Rightarrow> 'f list) \<Rightarrow> ('s, unit) act \<Rightarrow> 'f list \<Rightarrow> bool" where
  "prefix_added good contents p fs \<longleftrightarrow> (\<forall>s. good s \<longrightarrow> outcome good contents (contents s) fs (p s))"

lemma outcome_ok [simp]: "outcome good contents base fs (Inr x, s) \<longleftrightarrow> good s \<and> contents s = base @ fs"
  by (auto simp: outcome_def)

lemma outcome_err: "outcome good contents base fs (Inl e, s) \<longleftrightarrow>
    good s \<and> e \<noteq> Panicked \<and> (\<exists>n \<le> length fs. contents s = base @ take n fs)"
  by (simp add: outcome_def)

lemma outcome_more:
  assumes "outcome good contents base fs (Inl e, s)"
  shows "outcome good contents base (fs @ gs) (Inl e, s)"
proof -
  obtain n where "n \<le> length fs" "contents s = base @ take n fs" "good s" "e \<noteq> Panicked"
    using assms by (auto simp: outcome_err)
  then show ?thesis
    by (auto simp: outcome_err intro!: exI [of _ n])
qed

lemma outcome_after: "outcome good contents (base @ fs) gs rs \<Longrightarrow> outcome good contents base (fs @ gs) rs"
proof (cases rs)
  case (Pair r s)
  assume "outcome good contents (base @ fs) gs rs"
  then obtain n where "n \<le> length gs" "contents s = (base @ fs) @ take n gs" "good s" "r \<noteq> Inl Panicked"
    "is_ok r \<longrightarrow> n = length gs"
    by (auto simp: outcome_def Pair)
  then show ?thesis
    by (auto simp: outcome_def Pair intro!: exI [of _ "length fs + n"])
qed

lemma prefix_addedI: "(\<And>s. good s \<Longrightarrow> outcome good contents (contents s) fs (p s)) \<Longrightarrow> prefix_added good contents p fs"
  by (simp add: prefix_added_def)

lemma prefix_addedD: "prefix_added good contents p fs \<Longrightarrow> good s \<Longrightarrow> outcome good contents (contents s) fs (p s)"
  by (simp add: prefix_added_def)

lemma prefix_added_then:
  assumes p: "prefix_added good contents p fs"
    and f: "\<And>s s1. good s \<Longrightarrow> p s = (Inr (), s1) \<Longrightarrow> good s1 \<Longrightarrow> outcome good contents (contents s1) gs (f () s1)"
  shows "prefix_added good contents (act_then p f) (fs @ gs)"
proof (rule prefix_addedI)
  fix s
  assume good: "good s"
  obtain r s1 where run: "p s = (r, s1)"
    by fastforce
  have o: "outcome good contents (contents s) fs (r, s1)"
    using prefix_addedD [OF p good] run by simp
  show "outcome good contents (contents s) (fs @ gs) (act_then p f s)"
  proof (cases r)
    case (Inl e)
    then show ?thesis
      using o run by (simp add: outcome_more)
  next
    case (Inr x)
    then have "good s1" "contents s1 = contents s @ fs"
      using o by simp_all
    then show ?thesis
      using f [OF good] run Inr by (simp add: outcome_after)
  qed
qed

lemma prefix_added_seq:
  assumes "prefix_added good contents p fs" "\<And>x. prefix_added good contents (f x) gs"
  shows "prefix_added good contents (act_then p f) (fs @ gs)"
  using assms by (blast intro: prefix_added_then prefix_addedD)

lemma prefix_added_ret: "prefix_added good contents (act_ret ()) []"
  by (rule prefix_addedI) simp

lemma prefix_added_each:
  assumes "\<And>x. prefix_added good contents (f x) [x]"
  shows "prefix_added good contents (act_each f xs) xs"
proof (induction xs)
  case (Cons x xs)
  then show ?case
    using prefix_added_seq [OF assms] by fastforce
qed (simp add: prefix_added_ret del: act_simps)

definition exact_batcher ::
    "('s \<Rightarrow> bool) \<Rightarrow> ('s \<Rightarrow> 'f list) \<Rightarrow> ('s \<Rightarrow> nat) \<Rightarrow> ('s, unit) act \<Rightarrow> ('f \<Rightarrow> ('s, unit) act)
     \<Rightarrow> ('f list \<Rightarrow> ('s, unit) act) \<Rightarrow> ('f list \<Rightarrow> ('s, unit) act) \<Rightarrow> bool" where
  \<comment> \<open>the contract of a batcher: every operation adds a prefix of its frames, all of them when it succeeds, and
    a successful flush leaves nothing behind\<close>
  "exact_batcher good contents held flush push1 many sliced \<longleftrightarrow>
     prefix_added good contents flush [] \<and> (\<forall>s s'. flush s = (Inr (), s') \<longrightarrow> held s' = 0) \<and>
     (\<forall>f. prefix_added good contents (push1 f) [f]) \<and> (\<forall>fs. prefix_added good contents (many fs) fs) \<and>
     (\<forall>fs. prefix_added good contents (sliced fs) fs)"

section \<open>Fixed batchers\<close>

definition batch_wf :: "nat \<Rightarrow> ('k \<Rightarrow> bool) \<Rightarrow> 'f FrameBatcher \<times> 'k \<Rightarrow> bool" where
  "batch_wf cap ok = (\<lambda>(b, k). ok k \<and> length (fb_frames b) = cap \<and> fb_len b \<le> cap)"

definition batch_contents :: "('k \<Rightarrow> 'f list) \<Rightarrow> 'f FrameBatcher \<times> 'k \<Rightarrow> 'f list" where
  "batch_contents taken = (\<lambda>(b, k). taken k @ take (fb_len b) (fb_frames b))"

locale frame_sink =
  fixes cap :: nat and blank :: 'f and send :: "nat \<Rightarrow> 'f list \<Rightarrow> ('k, unit) act"
    and taken :: "'k \<Rightarrow> 'f list" and ok :: "'k \<Rightarrow> bool"
  assumes cap_pos: "0 < cap"
    and send_ok: "ok k \<Longrightarrow> len \<le> cap \<Longrightarrow> length fs = cap \<Longrightarrow> send len fs k = (Inr (), k') \<Longrightarrow>
      ok k' \<and> taken k' = taken k @ take len fs"
    and send_err: "ok k \<Longrightarrow> len \<le> cap \<Longrightarrow> length fs = cap \<Longrightarrow> send len fs k = (Inl e, k') \<Longrightarrow>
      ok k' \<and> taken k' = taken k \<and> e \<noteq> Panicked"
begin

abbreviation adds :: "('f FrameBatcher \<times> 'k, unit) act \<Rightarrow> 'f list \<Rightarrow> bool" where
  "adds \<equiv> prefix_added (batch_wf cap ok) (batch_contents taken)"

lemma adds_flush: "adds (batch_flush blank cap send) []"
proof (rule prefix_addedI)
  fix s :: "'f FrameBatcher \<times> 'k"
  assume good: "batch_wf cap ok s"
  obtain b k where s: "s = (b, k)"
    by fastforce
  obtain r k' where run: "send (fb_len b) (fb_frames b) k = (r, k')"
    by fastforce
  show "outcome (batch_wf cap ok) (batch_contents taken) (batch_contents taken s) [] (batch_flush blank cap send s)"
    using good run send_ok [of k "fb_len b" "fb_frames b" k'] send_err [of k "fb_len b" "fb_frames b" _ k']
    by (cases r) (auto simp: s batch_flush_def batch_wf_def batch_contents_def outcome_err)
qed

lemma flush_empties: "batch_flush blank cap send s = (Inr (), s') \<Longrightarrow> fb_len (fst s') = 0"
  by (auto simp: batch_flush_def split: prod.splits sum.splits if_splits)

lemma adds_flush_if_full: "adds (flush_if_full cap (batch_flush blank cap send)) []"
  by (rule prefix_addedI) (simp add: flush_if_full_def prefix_addedD [OF adds_flush])

lemma flush_makes_room:
  "batch_wf cap ok s \<Longrightarrow> flush_if_full cap (batch_flush blank cap send) s = (Inr (), s') \<Longrightarrow> fb_len (fst s') < cap"
  using cap_pos flush_empties [of s s'] by (auto simp: flush_if_full_def batch_wf_def split: if_splits prod.splits)

lemma store_added:
  assumes "batch_wf cap ok s" "fb_len (fst s) + length fs \<le> cap"
  shows "\<exists>s'. batch_store cap fs s = (Inr (), s') \<and> batch_wf cap ok s' \<and> batch_contents taken s' = batch_contents taken s @ fs"
  using assms by (cases s) (auto simp: batch_store_def batch_wf_def batch_contents_def)

lemma adds_push: "adds (batch_push cap (batch_flush blank cap send) f) [f]"
proof -
  have "adds (batch_push cap (batch_flush blank cap send) f) ([] @ [f])"
    unfolding batch_push_def
    by (rule prefix_added_then [OF adds_flush_if_full])
      (use flush_makes_room store_added [of _ "[f]"] in fastforce)
  then show ?thesis
    by simp
qed

lemma adds_push_many: "adds (batch_push_many cap (batch_flush blank cap send) fs) fs"
  unfolding batch_push_many_def by (rule prefix_added_each) (rule adds_push)

lemma adds_push_many_slice: "adds (batch_push_many_slice cap (batch_flush blank cap send) fs) fs"
proof (induction "length fs" arbitrary: fs rule: less_induct)
  case less
  let ?flush = "batch_flush blank cap send"
  let ?body = "\<lambda>_ (b, k).
        if cap \<le> fb_len b then (Inl Panicked, (b, k))
        else let room = cap - fb_len b; n = min (length fs) room in
          act_then (batch_store cap (take n fs)) (\<lambda>_.
            act_then (flush_if_full cap ?flush) (\<lambda>_. batch_push_many_slice cap ?flush (drop n fs))) (b, k)"
  show ?case
  proof (cases "fs = []")
    case True
    then show ?thesis
      by (subst batch_push_many_slice.simps) (simp add: prefix_added_ret del: act_simps)
  next
    case False
    have "adds (act_then (flush_if_full cap ?flush) ?body) ([] @ fs)"
    proof (rule prefix_added_then [OF adds_flush_if_full])
      fix s s1
      assume s: "batch_wf cap ok s" "flush_if_full cap ?flush s = (Inr (), s1)" "batch_wf cap ok s1"
      obtain b k where s1: "s1 = (b, k)"
        by fastforce
      let ?n = "min (length fs) (cap - fb_len b)"
      have room: "fb_len b < cap"
        using flush_makes_room [OF s(1,2)] by (simp add: s1)
      then have n: "length (drop ?n fs) < length fs" "fb_len (fst s1) + length (take ?n fs) \<le> cap"
        using False by (auto simp: s1)
      obtain s2 where store: "batch_store cap (take ?n fs) s1 = (Inr (), s2)" "batch_wf cap ok s2"
        "batch_contents taken s2 = batch_contents taken s1 @ take ?n fs"
        using store_added [OF s(3) n(2)] by blast
      have rest: "adds (act_then (flush_if_full cap ?flush) (\<lambda>_. batch_push_many_slice cap ?flush (drop ?n fs))) ([] @ drop ?n fs)"
        by (rule prefix_added_seq [OF adds_flush_if_full]) (rule less [OF n(1)])
      have "outcome (batch_wf cap ok) (batch_contents taken) (batch_contents taken s1 @ take ?n fs) (drop ?n fs)
          (act_then (flush_if_full cap ?flush) (\<lambda>_. batch_push_many_slice cap ?flush (drop ?n fs)) s2)"
        using prefix_addedD [OF rest store(2)] store(3) by simp
      from outcome_after [OF this]
      show "outcome (batch_wf cap ok) (batch_contents taken) (batch_contents taken s1) fs (?body () s1)"
        using room store(1) by (simp add: s1 Let_def)
    qed
    then show ?thesis
      using False by (subst batch_push_many_slice.simps) simp
  qed
qed

lemma exact: "exact_batcher (batch_wf cap ok) (batch_contents taken) (\<lambda>s. fb_len (fst s)) (batch_flush blank cap send)
    (batch_push cap (batch_flush blank cap send)) (batch_push_many cap (batch_flush blank cap send))
    (batch_push_many_slice cap (batch_flush blank cap send))"
  using adds_flush flush_empties adds_push adds_push_many adds_push_many_slice by (auto simp: exact_batcher_def)

lemma grown: "frame_sink cap send taken (\<lambda>k. ok k \<and> (\<exists>gs. taken k = base @ gs))"
proof (unfold_locales, rule cap_pos, elim conjE exE)
  show "(ok k' \<and> (\<exists>gs. taken k' = base @ gs)) \<and> taken k' = taken k @ take len fs"
    if "len \<le> cap" "length fs = cap" "send len fs k = (Inr (), k')" "ok k" "taken k = base @ gs" for k len fs k' gs
    using send_ok [OF that(4,1,2,3)] that(5) by simp
  show "(ok k' \<and> (\<exists>gs. taken k' = base @ gs)) \<and> taken k' = taken k \<and> e \<noteq> Panicked"
    if "ok k \<and> (\<exists>gs. taken k = base @ gs)" "len \<le> cap" "length fs = cap" "send len fs k = (Inl e, k')" for k len fs e k'
    using send_err [OF conjunct1 [OF that(1)] that(2,3,4)] that(1) by simp
qed

end

section \<open>Batchers with an owned vector\<close>

definition owned_wf :: "('k \<Rightarrow> bool) \<Rightarrow> 'f OwnedBatcher \<times> 'k \<Rightarrow> bool" where
  "owned_wf ok = (\<lambda>(b, k). ok k \<and> 1 \<le> ob_batch_size b \<and> (ob_use_fixed b \<longrightarrow>
     length (ob_fixed_frames b) = DIRECT_GAMEPAD_BATCH_FRAMES \<and> ob_fixed_len b \<le> ob_batch_size b \<and>
     ob_batch_size b \<le> DIRECT_GAMEPAD_BATCH_FRAMES))"

definition owned_contents :: "('k \<Rightarrow> 'f list) \<Rightarrow> 'f OwnedBatcher \<times> 'k \<Rightarrow> 'f list" where
  "owned_contents taken = (\<lambda>(b, k). taken k @
     (if ob_use_fixed b then take (ob_fixed_len b) (ob_fixed_frames b) else ob_frames b))"

locale owned_sink =
  fixes zero :: 'f and send1 :: "'f \<Rightarrow> ('k, unit) act" and send_fixed :: "nat \<Rightarrow> 'f list \<Rightarrow> ('k, unit) act"
    and send_owned :: "'f list \<Rightarrow> 'k \<Rightarrow> (unit res \<times> 'f list) \<times> 'k"
    and taken :: "'k \<Rightarrow> 'f list" and ok :: "'k \<Rightarrow> bool"
  assumes one_ok: "ok k \<Longrightarrow> send1 f k = (Inr (), k') \<Longrightarrow> ok k' \<and> taken k' = taken k @ [f]"
    and one_err: "ok k \<Longrightarrow> send1 f k = (Inl e, k') \<Longrightarrow> ok k' \<and> taken k' = taken k \<and> e \<noteq> Panicked"
    and fixed_ok: "ok k \<Longrightarrow> len \<le> DIRECT_GAMEPAD_BATCH_FRAMES \<Longrightarrow> length fs = DIRECT_GAMEPAD_BATCH_FRAMES \<Longrightarrow>
      send_fixed len fs k = (Inr (), k') \<Longrightarrow> ok k' \<and> taken k' = taken k @ take len fs"
    and fixed_err: "ok k \<Longrightarrow> len \<le> DIRECT_GAMEPAD_BATCH_FRAMES \<Longrightarrow> length fs = DIRECT_GAMEPAD_BATCH_FRAMES \<Longrightarrow>
      send_fixed len fs k = (Inl e, k') \<Longrightarrow> ok k' \<and> taken k' = taken k \<and> e \<noteq> Panicked"
    and owned_ok: "ok k \<Longrightarrow> send_owned fs k = ((Inr (), gs), k') \<Longrightarrow> ok k' \<and> taken k' = taken k @ fs"
    and owned_err: "ok k \<Longrightarrow> send_owned fs k = ((Inl e, gs), k') \<Longrightarrow> ok k' \<and> taken k' = taken k \<and> gs = fs \<and> e \<noteq> Panicked"
begin

abbreviation oadds :: "('f OwnedBatcher \<times> 'k, unit) act \<Rightarrow> 'f list \<Rightarrow> bool" where
  "oadds \<equiv> prefix_added (owned_wf ok) (owned_contents taken)"

abbreviation flush :: "('f OwnedBatcher \<times> 'k, unit) act" where
  "flush \<equiv> owned_flush zero send1 send_fixed send_owned"

lemma take_1: "fs \<noteq> [] \<Longrightarrow> take (Suc 0) fs = [fs ! 0]"
  by (cases fs) simp_all

lemma adds_owned_flush: "oadds flush []"
proof (rule prefix_addedI)
  fix s :: "'f OwnedBatcher \<times> 'k"
  assume good: "owned_wf ok s"
  obtain b k where s: "s = (b, k)"
    by fastforce
  show "outcome (owned_wf ok) (owned_contents taken) (owned_contents taken s) [] (flush s)"
  proof (cases "ob_use_fixed b")
    case True
    obtain r1 k1 where one: "send1 (ob_fixed_frames b ! 0) k = (r1, k1)"
      by fastforce
    obtain r2 k2 where fixed: "send_fixed (ob_fixed_len b) (ob_fixed_frames b) k = (r2, k2)"
      by fastforce
    have f: "ob_fixed_frames b \<noteq> []"
      using good True by (auto simp: s owned_wf_def)
    note defs = s owned_flush_def owned_flush_fixed_def owned_wf_def owned_contents_def outcome_err take_1 [OF f]
    show ?thesis
    proof (cases "ob_fixed_len b = 1")
      case single: True
      show ?thesis
        using good True single one one_ok [of k "ob_fixed_frames b ! 0" k1] one_err [of k "ob_fixed_frames b ! 0" _ k1]
        by (cases r1) (auto simp: defs)
    next
      case more: False
      show ?thesis
        using good True more fixed fixed_ok [of k "ob_fixed_len b" "ob_fixed_frames b" k2]
          fixed_err [of k "ob_fixed_len b" "ob_fixed_frames b" _ k2]
        by (cases r2) (auto simp: defs)
    qed
  next
    case False
    obtain r1 k1 where one: "send1 (ob_frames b ! 0) k = (r1, k1)"
      by fastforce
    obtain r2 fs k2 where vec: "send_owned (ob_frames b) k = ((r2, fs), k2)"
      by (metis prod.exhaust)
    have single: "length xs = Suc 0 \<Longrightarrow> [xs ! 0] = xs" for xs :: "'f list"
      by (cases xs) simp_all
    show ?thesis
      using good False one vec one_ok [of k "ob_frames b ! 0" k1] one_err [of k "ob_frames b ! 0" _ k1]
        owned_ok [of k "ob_frames b" fs k2] owned_err [of k "ob_frames b" _ fs k2]
      by (cases r1; cases r2)
        (auto simp: s owned_flush_def owned_flush_vec_def owned_wf_def owned_contents_def outcome_err single)
  qed
qed

lemma owned_flush_empties: "flush s = (Inr (), s') \<Longrightarrow> owned_len (fst s') = 0"
  by (auto simp: owned_flush_def owned_flush_fixed_def owned_flush_vec_def owned_len_def
      split: prod.splits sum.splits if_splits)

lemma owned_flush_mode: "flush s = (r, s') \<Longrightarrow> ob_use_fixed (fst s') = ob_use_fixed (fst s)"
  by (auto simp: owned_flush_def owned_flush_fixed_def owned_flush_vec_def split: prod.splits sum.splits if_splits)

lemma adds_owned_if_full: "oadds (owned_flush_if_full flush) []"
  by (rule prefix_addedI) (simp add: owned_flush_if_full_def prefix_addedD [OF adds_owned_flush])

lemma adds_make_room: "oadds (owned_make_room full_error flush) []"
proof (rule prefix_addedI)
  fix s :: "'f OwnedBatcher \<times> 'k"
  assume "owned_wf ok s"
  moreover have "oadds (act_then flush (\<lambda>_ s. if owned_full (fst s) then (Inl (lifecycle full_error), s) else (Inr (), s))) ([] @ [])"
    by (rule prefix_added_seq [OF adds_owned_flush]) (auto intro: prefix_addedI simp: outcome_err)
  ultimately show "outcome (owned_wf ok) (owned_contents taken) (owned_contents taken s) [] (owned_make_room full_error flush s)"
    by (auto simp: owned_make_room_def dest: prefix_addedD)
qed

lemma not_full_after:
  "owned_wf ok s \<Longrightarrow> owned_make_room full_error flush s = (Inr (), s') \<Longrightarrow> \<not> owned_full (fst s')"
  "owned_wf ok s' \<Longrightarrow> owned_flush_if_full flush s = (Inr (), s') \<Longrightarrow> \<not> owned_full (fst s')"
proof -
  show "owned_wf ok s \<Longrightarrow> owned_make_room full_error flush s = (Inr (), s') \<Longrightarrow> \<not> owned_full (fst s')"
    by (auto simp: owned_make_room_def act_then_Inr_iff split: if_splits)
  show "owned_wf ok s' \<Longrightarrow> owned_flush_if_full flush s = (Inr (), s') \<Longrightarrow> \<not> owned_full (fst s')"
    using owned_flush_empties [of s s']
    by (auto simp: owned_flush_if_full_def owned_full_def owned_wf_def split: if_splits prod.splits)
qed

lemma owned_store_added:
  assumes "owned_wf ok s" "ob_use_fixed (fst s) \<longrightarrow> ob_fixed_len (fst s) + length fs \<le> ob_batch_size (fst s)"
  shows "\<exists>s'. owned_store fs s = (Inr (), s') \<and> owned_wf ok s' \<and> owned_contents taken s' = owned_contents taken s @ fs"
  using assms by (cases s) (auto simp: owned_store_def owned_wf_def owned_contents_def)

lemma make_room_mode: "owned_make_room full_error flush s = (Inr (), s') \<Longrightarrow> ob_use_fixed (fst s') = ob_use_fixed (fst s)"
  by (auto simp: owned_make_room_def act_then_Inr_iff dest: owned_flush_mode split: if_splits)

lemma adds_owned_push: "oadds (owned_push full_error flush f) [f]"
proof (rule prefix_addedI)
  fix s :: "'f OwnedBatcher \<times> 'k"
  assume good: "owned_wf ok s"
  let ?room = "if ob_use_fixed (fst s) then owned_make_room full_error flush else act_ret ()"
  have tail: "outcome (owned_wf ok) (owned_contents taken) (owned_contents taken s1) [f] (act_seq [owned_store [f], owned_flush_if_full flush] s1)"
    if s1: "owned_wf ok s1" "ob_use_fixed (fst s1) \<longrightarrow> \<not> owned_full (fst s1)" for s1
  proof -
    have "ob_use_fixed (fst s1) \<longrightarrow> ob_fixed_len (fst s1) + length [f] \<le> ob_batch_size (fst s1)"
      using s1(2) by (auto simp: owned_full_def owned_len_def)
    then obtain s2 where store: "owned_store [f] s1 = (Inr (), s2)" "owned_wf ok s2"
      "owned_contents taken s2 = owned_contents taken s1 @ [f]"
      using owned_store_added [OF s1(1)] by blast
    have fin: "oadds (act_then (owned_flush_if_full flush) (\<lambda>_. act_ret ())) ([] @ [])"
      by (rule prefix_added_seq [OF adds_owned_if_full]) (rule prefix_added_ret)
    have "outcome (owned_wf ok) (owned_contents taken) (owned_contents taken s1 @ [f]) []
        (act_then (owned_flush_if_full flush) (\<lambda>_. act_ret ()) s2)"
      using prefix_addedD [OF fin store(2)] store(3) by simp
    from outcome_after [OF this] show ?thesis
      using store(1) by (simp del: act_simps)
  qed
  show "outcome (owned_wf ok) (owned_contents taken) (owned_contents taken s) [f] (owned_push full_error flush f s)"
  proof (cases "ob_use_fixed (fst s)")
    case False
    then show ?thesis
      using tail [OF good] by (simp add: owned_push_def)
  next
    case True
    obtain r s1 where room: "owned_make_room full_error flush s = (r, s1)"
      by (metis prod.exhaust)
    have o: "outcome (owned_wf ok) (owned_contents taken) (owned_contents taken s) [] (r, s1)"
      using prefix_addedD [OF adds_make_room good, of full_error] room by simp
    show ?thesis
    proof (cases r)
      case (Inl e)
      then show ?thesis
        using o room True outcome_more [of "owned_wf ok" "owned_contents taken" _ "[]" e s1 "[f]"]
        by (simp add: owned_push_def)
    next
      case (Inr x)
      then show ?thesis
        using o room True tail [of s1] not_full_after(1) [OF good, of full_error s1] by (simp add: owned_push_def)
    qed
  qed
qed

lemma adds_owned_push_many: "oadds (owned_push_many full_error flush fs) fs"
  unfolding owned_push_many_def by (rule prefix_added_each) (rule adds_owned_push)

lemma adds_owned_push_many_slice: "oadds (owned_push_many_slice full_error flush fs) fs"
proof (induction "length fs" arbitrary: fs rule: less_induct)
  case less
  let ?room = "\<lambda>s. if ob_use_fixed (fst s) then owned_make_room full_error flush s else owned_flush_if_full flush s"
  let ?body = "\<lambda>_ (b, k).
          if owned_full b then (Inl Panicked, (b, k))
          else let room = ob_batch_size b - owned_len b; n = min (length fs) room in
            act_then (owned_store (take n fs)) (\<lambda>_.
              act_then (owned_flush_if_full flush) (\<lambda>_. owned_push_many_slice full_error flush (drop n fs))) (b, k)"
  show ?case
  proof (cases "fs = []")
    case True
    then show ?thesis
      by (subst owned_push_many_slice.simps) (simp add: prefix_added_ret del: act_simps)
  next
    case False
    have room: "oadds ?room []"
      by (rule prefix_addedI) (use prefix_addedD [OF adds_make_room] prefix_addedD [OF adds_owned_if_full] in auto)
    have "oadds (act_then ?room ?body) ([] @ fs)"
    proof (rule prefix_added_then [OF room])
      fix s s1
      assume s: "owned_wf ok s" "?room s = (Inr (), s1)" "owned_wf ok s1"
      obtain b k where s1: "s1 = (b, k)"
        by fastforce
      let ?n = "min (length fs) (ob_batch_size b - owned_len b)"
      have free: "\<not> owned_full b"
        using not_full_after(1) [OF s(1), of full_error s1] not_full_after(2) [OF s(3), of s] s(2) by (auto simp: s1 split: if_splits)
      then have n: "length (drop ?n fs) < length fs"
        "ob_use_fixed (fst s1) \<longrightarrow> ob_fixed_len (fst s1) + length (take ?n fs) \<le> ob_batch_size (fst s1)"
        using False by (auto simp: s1 owned_full_def owned_len_def)
      obtain s2 where store: "owned_store (take ?n fs) s1 = (Inr (), s2)" "owned_wf ok s2"
        "owned_contents taken s2 = owned_contents taken s1 @ take ?n fs"
        using owned_store_added [OF s(3) n(2)] by blast
      have rest: "oadds (act_then (owned_flush_if_full flush) (\<lambda>_. owned_push_many_slice full_error flush (drop ?n fs))) ([] @ drop ?n fs)"
        by (rule prefix_added_seq [OF adds_owned_if_full]) (rule less [OF n(1)])
      have "outcome (owned_wf ok) (owned_contents taken) (owned_contents taken s1 @ take ?n fs) (drop ?n fs)
          (act_then (owned_flush_if_full flush) (\<lambda>_. owned_push_many_slice full_error flush (drop ?n fs)) s2)"
        using prefix_addedD [OF rest store(2)] store(3) by simp
      from outcome_after [OF this]
      show "outcome (owned_wf ok) (owned_contents taken) (owned_contents taken s1) fs (?body () s1)"
        using free store(1) by (simp add: s1 Let_def)
    qed
    then show ?thesis
      using False by (subst owned_push_many_slice.simps) simp
  qed
qed

lemma exact_owned: "exact_batcher (owned_wf ok) (owned_contents taken) (\<lambda>s. owned_len (fst s)) flush
    (owned_push full_error flush) (owned_push_many full_error flush) (owned_push_many_slice full_error flush)"
  using adds_owned_flush owned_flush_empties adds_owned_push adds_owned_push_many adds_owned_push_many_slice
  by (auto simp: exact_batcher_def)

end

end
