(* ===== verification/Client_Channel.thy ===== *)
theory Client_Channel
  imports Client_Batch_Exact
begin

text \<open>
  The contract of the command channel and what the client's methods make of it: a send that succeeds adds
  its command to what the dispatcher will execute, one that fails adds nothing. From it follows, for every
  kind of frame, the contract between sends and batchers.
\<close>

section \<open>The frames of commands\<close>

fun touch_frames_of :: "HidCommand \<Rightarrow> TouchFrame list" where
  "touch_frames_of (C_Touch (TouchBatchFixed len fs)) = take (unat len) fs"
| "touch_frames_of (C_Touch (MultitouchDown i x y pressure)) = [touch_frame TOUCH_DOWN i x y pressure]"
| "touch_frames_of (C_Touch (MultitouchMove i x y pressure)) = [touch_frame TOUCH_MOVE i x y pressure]"
| "touch_frames_of (C_Touch (MultitouchUp i)) = [touch_frame TOUCH_UP i 0 0 (Fin 0)]"
| "touch_frames_of (C_Touch (MultitouchCancel i)) = [touch_frame TOUCH_CANCEL i 0 0 (Fin 0)]"
| "touch_frames_of _ = []"

fun key_frames_of :: "HidCommand \<Rightarrow> KeyboardFrame list" where
  "key_frames_of (C_Key (KeyBatchFixed len fs)) = take (unat len) fs"
| "key_frames_of (C_Key (Key sc pressed mods)) = [keyboard_frame sc pressed mods]"
| "key_frames_of _ = []"

fun android_frames_of :: "HidCommand \<Rightarrow> AndroidKeyFrame list" where
  "android_frames_of (C_Android (AndroidKeyBatchFixed len fs)) = take (unat len) fs"
| "android_frames_of (C_Android (InjectKeycodeCmd a k r m)) = [android_key_frame a k r m]"
| "android_frames_of _ = []"

fun mouse_frames_of :: "HidCommand \<Rightarrow> MouseFrame list" where
  "mouse_frames_of (C_Mouse (MouseBatchFixed len fs)) = take (unat len) fs"
| "mouse_frames_of (C_Mouse (MouseMotion dx dy b)) = [motion_frame dx dy b]"
| "mouse_frames_of _ = []"

fun scroll_frames_of :: "HidCommand \<Rightarrow> ScrollFrame list" where
  "scroll_frames_of (C_Touch (InjectScrollBatchFixed len fs)) = take (unat len) fs"
| "scroll_frames_of (C_Touch (InjectScroll x y h v b)) = [scroll_frame x y h v b]"
| "scroll_frames_of _ = []"

fun gamepad_frames_of :: "HidCommand \<Rightarrow> GamepadFrameRaw list" where
  "gamepad_frames_of (C_Gamepad (GamepadFrameRawCmd b lx ly rx ry lt rt)) =
     [\<lparr>gf_buttons = b, gf_left_x = lx, gf_left_y = ly, gf_right_x = rx, gf_right_y = ry, gf_left_trigger = lt,
       gf_right_trigger = rt\<rparr>]"
| "gamepad_frames_of (C_Gamepad (GamepadFrameRawUnchecked f)) = [f]"
| "gamepad_frames_of (C_Gamepad (GamepadFrameRawBatch fs)) = fs"
| "gamepad_frames_of (C_Gamepad (GamepadFrameRawBatchUnchecked fs)) = fs"
| "gamepad_frames_of (C_Gamepad (GamepadFrameRawBatchFixed len fs)) = take (unat len) fs"
| "gamepad_frames_of (C_Gamepad (GamepadFrameRawBatchFixedUnchecked len fs)) = take (unat len) fs"
| "gamepad_frames_of _ = []"

fun packed_frames_of :: "HidCommand \<Rightarrow> byte list list" where
  "packed_frames_of (C_Gamepad (GamepadPackedFrame f)) = [f]"
| "packed_frames_of (C_Gamepad (GamepadPackedFrameBatch fs)) = fs"
| "packed_frames_of (C_Gamepad (GamepadPackedFrameBatchFixed len fs)) = take (unat len) fs"
| "packed_frames_of _ = []"

definition frames_sent :: "(HidCommand \<Rightarrow> 'f list) \<Rightarrow> ('c \<Rightarrow> HidCommand list) \<Rightarrow> 'c HidClient \<Rightarrow> 'f list" where
  "frames_sent frames_of sent c = concat (map frames_of (sent (cl_shared c)))"

lemma unat_of_nat_u8: "n \<le> 32 \<Longrightarrow> unat (of_nat n :: u8) = n"
  by (simp add: unat_of_nat take_bit_nat_eq_self)

lemma take_one: "0 < length fs \<Longrightarrow> take (Suc 0) fs = [fs ! 0]"
  by (cases fs) simp_all

lemma frame_fields:
  "touch_frame (tf_action t) (tf_pointer_id t) (tf_x t) (tf_y t) (tf_pressure t) = t"
  "keyboard_frame (kf_scancode k) (kf_pressed k) (kf_mods k) = k"
  "android_key_frame (af_action a) (af_keycode a) (af_repeat a) (af_metastate a) = a"
  "motion_frame (mf_dx m) (mf_dy m) (mf_buttons m) = m"
  "scroll_frame (sf_x s) (sf_y s) (sf_hscroll s) (sf_vscroll s) (sf_buttons s) = s"
  "gamepad_frames_of (frame_command f) = [f]"
  by (simp_all add: touch_frame_def keyboard_frame_def android_key_frame_def motion_frame_def scroll_frame_def frame_command_def)

section \<open>The contract of the channel\<close>

locale command_channel =
  fixes ep :: "'c endpoints" and sent :: "'c \<Rightarrow> HidCommand list"
  assumes send_law: "ep_send ep cmd x = (b, x') \<Longrightarrow> sent x' = (if b then sent x @ [cmd] else sent x)"
    and try_send_law: "ep_try_send ep cmd x = (r, x') \<Longrightarrow> sent x' = (if r = Sent then sent x @ [cmd] else sent x)"
    and wait_law: "ep_wait ep i x = Some (w, x') \<Longrightarrow> sent x' = sent x"
    and sleep_law: "sent (ep_sleep ep d x) = sent x"
begin

lemma client_send_result:
  "client_send ep cmd c = (Inr (), c') \<Longrightarrow> sent (cl_shared c') = sent (cl_shared c) @ [cmd] \<and> cl_gamepad_ring c' = cl_gamepad_ring c"
  "client_send ep cmd c = (Inl e, c') \<Longrightarrow> sent (cl_shared c') = sent (cl_shared c) \<and> cl_gamepad_ring c' = cl_gamepad_ring c \<and> e \<noteq> Panicked"
  by (auto simp: client_send_def dest: send_law split: prod.splits if_splits)

lemma client_try_send_result:
  "client_try_send ep cmd c = (Inr (), c') \<Longrightarrow> sent (cl_shared c') = sent (cl_shared c) @ [cmd] \<and> cl_gamepad_ring c' = cl_gamepad_ring c"
  "client_try_send ep cmd c = (Inl e, c') \<Longrightarrow> sent (cl_shared c') = sent (cl_shared c) \<and> cl_gamepad_ring c' = cl_gamepad_ring c \<and> e \<noteq> Panicked"
  by (auto simp: client_try_send_def dest: try_send_law split: prod.splits try_send_result.splits)

lemmas send_results = client_send_result client_try_send_result

end

section \<open>Sends of batches\<close>

sublocale command_channel \<subseteq> touch_sink: frame_sink TOUCH_BATCH_FRAMES TOUCH_EMPTY "client_send_touch_batch_fixed ep"
  "frames_sent touch_frames_of sent" "\<lambda>_. True"
  by unfold_locales
    (auto simp: client_send_touch_batch_fixed_def TOUCH_BATCH_FRAMES_def frames_sent_def frame_fields unat_of_nat_u8 take_one Let_def
      dest!: send_results split: if_splits)

sublocale command_channel \<subseteq> try_touch_sink: frame_sink TOUCH_BATCH_FRAMES TOUCH_EMPTY "client_try_send_touch_batch_fixed ep"
  "frames_sent touch_frames_of sent" "\<lambda>_. True"
  by unfold_locales
    (auto simp: client_try_send_touch_batch_fixed_def TOUCH_BATCH_FRAMES_def frames_sent_def frame_fields unat_of_nat_u8 take_one Let_def
      dest!: send_results split: if_splits)

sublocale command_channel \<subseteq> keyboard_sink: frame_sink KEYBOARD_BATCH_FRAMES KEYBOARD_EMPTY "client_send_key_batch_fixed ep"
  "frames_sent key_frames_of sent" "\<lambda>_. True"
  by unfold_locales
    (auto simp: client_send_key_batch_fixed_def client_key_def KEYBOARD_BATCH_FRAMES_def frames_sent_def frame_fields unat_of_nat_u8 take_one Let_def
      dest!: send_results split: if_splits)

sublocale command_channel \<subseteq> try_keyboard_sink: frame_sink KEYBOARD_BATCH_FRAMES KEYBOARD_EMPTY "client_try_send_key_batch_fixed ep"
  "frames_sent key_frames_of sent" "\<lambda>_. True"
  by unfold_locales
    (auto simp: client_try_send_key_batch_fixed_def client_try_key_def KEYBOARD_BATCH_FRAMES_def frames_sent_def frame_fields unat_of_nat_u8 take_one Let_def
      dest!: send_results split: if_splits)

sublocale command_channel \<subseteq> android_sink: frame_sink ANDROID_KEY_BATCH_FRAMES ANDROID_KEY_EMPTY "client_send_android_key_batch_fixed ep"
  "frames_sent android_frames_of sent" "\<lambda>_. True"
  by unfold_locales
    (auto simp: client_send_android_key_batch_fixed_def client_inject_keycode_def ANDROID_KEY_BATCH_FRAMES_def frames_sent_def frame_fields unat_of_nat_u8 take_one Let_def
      dest!: send_results split: if_splits)

sublocale command_channel \<subseteq> try_android_sink: frame_sink ANDROID_KEY_BATCH_FRAMES ANDROID_KEY_EMPTY "client_try_send_android_key_batch_fixed ep"
  "frames_sent android_frames_of sent" "\<lambda>_. True"
  by unfold_locales
    (auto simp: client_try_send_android_key_batch_fixed_def client_try_inject_keycode_def ANDROID_KEY_BATCH_FRAMES_def frames_sent_def frame_fields unat_of_nat_u8 take_one Let_def
      dest!: send_results split: if_splits)

sublocale command_channel \<subseteq> mouse_sink: frame_sink MOUSE_BATCH_FRAMES MOUSE_EMPTY "client_send_mouse_batch_fixed ep"
  "frames_sent mouse_frames_of sent" "\<lambda>_. True"
  by unfold_locales
    (auto simp: client_send_mouse_batch_fixed_def client_mouse_motion_def MOUSE_BATCH_FRAMES_def frames_sent_def frame_fields unat_of_nat_u8 take_one Let_def
      dest!: send_results split: if_splits)

sublocale command_channel \<subseteq> try_mouse_sink: frame_sink MOUSE_BATCH_FRAMES MOUSE_EMPTY "client_try_send_mouse_batch_fixed ep"
  "frames_sent mouse_frames_of sent" "\<lambda>_. True"
  by unfold_locales
    (auto simp: client_try_send_mouse_batch_fixed_def client_try_mouse_motion_def MOUSE_BATCH_FRAMES_def frames_sent_def frame_fields unat_of_nat_u8 take_one Let_def
      dest!: send_results split: if_splits)

sublocale command_channel \<subseteq> scroll_sink: frame_sink SCROLL_BATCH_FRAMES SCROLL_EMPTY "client_send_scroll_batch_fixed ep"
  "frames_sent scroll_frames_of sent" "\<lambda>_. True"
  by unfold_locales
    (auto simp: client_send_scroll_batch_fixed_def client_inject_scroll_def SCROLL_BATCH_FRAMES_def frames_sent_def frame_fields unat_of_nat_u8 take_one Let_def
      dest!: send_results split: if_splits)

sublocale command_channel \<subseteq> try_scroll_sink: frame_sink SCROLL_BATCH_FRAMES SCROLL_EMPTY "client_try_send_scroll_batch_fixed ep"
  "frames_sent scroll_frames_of sent" "\<lambda>_. True"
  by unfold_locales
    (auto simp: client_try_send_scroll_batch_fixed_def client_try_inject_scroll_def SCROLL_BATCH_FRAMES_def frames_sent_def frame_fields unat_of_nat_u8 take_one Let_def
      dest!: send_results split: if_splits)

lemma owned_result_cases:
  "owned_result recover cmd p c = ((Inr (), gs), c') \<longleftrightarrow> p c = (Inr (), c') \<and> gs = []"
  "recover cmd = Inr fs \<Longrightarrow> owned_result recover cmd p c = ((Inl e, gs), c') \<longleftrightarrow> p c = (Inl e, c') \<and> gs = fs"
  by (auto simp: owned_result_def split: prod.splits sum.splits)

lemma recover_batches:
  "recover_gamepad_batch (C_Gamepad (GamepadFrameRawBatch fs)) = Inr fs"
  "recover_gamepad_batch (C_Gamepad (GamepadFrameRawBatchUnchecked fs)) = Inr fs"
  "recover_packed_gamepad_batch (C_Gamepad (GamepadPackedFrameBatch ps)) = Inr ps"
  by (simp_all add: recover_gamepad_batch_def recover_packed_gamepad_batch_def)

sublocale command_channel \<subseteq> gamepad_sink: owned_sink FRAME_ZERO "client_send_frame ep"
  "(\<lambda>len frames. send_frame_batch_fixed_internal ep len frames True)" "\<lambda>frames. send_frame_batch_owned ep frames True"
  "frames_sent gamepad_frames_of sent" "\<lambda>c. \<not> cl_gamepad_ring c"
  by unfold_locales
    (auto simp: client_send_frame_def send_frame_batch_fixed_internal_def client_send_frame_def send_frame_batch_owned_def
      frames_sent_def frame_fields unat_of_nat_u8 take_one Let_def owned_result_cases
      recover_batches dest!: send_results split: if_splits)

sublocale command_channel \<subseteq> gamepad_unchecked_sink: owned_sink FRAME_ZERO "client_send_frame_unchecked ep"
  "(\<lambda>len frames. send_frame_batch_fixed_internal ep len frames False)" "\<lambda>frames. send_frame_batch_owned ep frames False"
  "frames_sent gamepad_frames_of sent" "\<lambda>c. \<not> cl_gamepad_ring c"
  by unfold_locales
    (auto simp: client_send_frame_unchecked_def send_frame_batch_fixed_internal_def client_send_frame_unchecked_def send_frame_batch_owned_def
      frames_sent_def frame_fields unat_of_nat_u8 take_one Let_def owned_result_cases
      recover_batches dest!: send_results split: if_splits)

sublocale command_channel \<subseteq> packed_sink: owned_sink "replicate GAMEPAD_FRAME_BYTES 0" "client_send_frame_packed ep"
  "client_send_frame_packed_batch_fixed ep" "send_packed_frame_batch_owned ep"
  "frames_sent packed_frames_of sent" "\<lambda>c. \<not> cl_gamepad_ring c"
  by unfold_locales
    (auto simp: client_send_frame_packed_def client_send_frame_packed_batch_fixed_def send_packed_frame_batch_owned_def
      frames_sent_def unat_of_nat_u8 take_one Let_def owned_result_cases
      recover_batches dest!: send_results split: if_splits)

sublocale command_channel \<subseteq> try_gamepad_sink: owned_sink FRAME_ZERO "client_try_send_frame ep"
  "client_try_send_frame_batch_fixed ep" "\<lambda>frames. try_send_frame_batch_owned ep frames True"
  "frames_sent gamepad_frames_of sent" "\<lambda>c. \<not> cl_gamepad_ring c"
  by unfold_locales
    (auto simp: client_try_send_frame_def try_send_frame_batch_fixed_internal_def client_try_send_frame_batch_fixed_def client_try_send_frame_def try_send_frame_batch_owned_def
      frames_sent_def frame_fields unat_of_nat_u8 take_one Let_def owned_result_cases
      recover_batches dest!: send_results split: if_splits)

sublocale command_channel \<subseteq> try_gamepad_unchecked_sink: owned_sink FRAME_ZERO "client_try_send_frame_unchecked ep"
  "client_try_send_frame_batch_fixed_unchecked ep" "\<lambda>frames. try_send_frame_batch_owned ep frames False"
  "frames_sent gamepad_frames_of sent" "\<lambda>c. \<not> cl_gamepad_ring c"
  by unfold_locales
    (auto simp: client_try_send_frame_unchecked_def try_send_frame_batch_fixed_internal_def client_try_send_frame_batch_fixed_unchecked_def client_try_send_frame_unchecked_def try_send_frame_batch_owned_def
      frames_sent_def frame_fields unat_of_nat_u8 take_one Let_def owned_result_cases
      recover_batches dest!: send_results split: if_splits)

sublocale command_channel \<subseteq> try_packed_sink: owned_sink "replicate GAMEPAD_FRAME_BYTES 0" "client_try_send_frame_packed ep"
  "client_try_send_frame_packed_batch_fixed ep" "try_send_packed_frame_batch_owned ep"
  "frames_sent packed_frames_of sent" "\<lambda>c. \<not> cl_gamepad_ring c"
  by unfold_locales
    (auto simp: client_try_send_frame_packed_def client_try_send_frame_packed_batch_fixed_def try_send_packed_frame_batch_owned_def
      frames_sent_def unat_of_nat_u8 take_one Let_def owned_result_cases
      recover_batches dest!: send_results split: if_splits)

section \<open>Every batcher is exact\<close>

context command_channel
begin

abbreviation unringed :: "'c HidClient \<Rightarrow> bool" where
  "unringed c \<equiv> \<not> cl_gamepad_ring c"

lemma touch_batcher_exact:
  "exact_batcher (batch_wf TOUCH_BATCH_FRAMES (\<lambda>_. True)) (batch_contents (frames_sent touch_frames_of sent)) (\<lambda>s. fb_len (fst s))
     (touch_flush ep) (touch_push ep) (touch_push_many ep) (touch_push_many_slice ep)"
  "exact_batcher (batch_wf TOUCH_BATCH_FRAMES (\<lambda>_. True)) (batch_contents (frames_sent touch_frames_of sent)) (\<lambda>s. fb_len (fst s))
     (touch_try_flush ep) (touch_try_push ep) (touch_try_push_many ep) (touch_try_push_many_slice ep)"
  unfolding touch_flush_def touch_push_def touch_push_many_def touch_push_many_slice_def touch_try_flush_def touch_try_push_def touch_try_push_many_def touch_try_push_many_slice_def
  by (rule touch_sink.exact try_touch_sink.exact)+

lemma keyboard_batcher_exact:
  "exact_batcher (batch_wf KEYBOARD_BATCH_FRAMES (\<lambda>_. True)) (batch_contents (frames_sent key_frames_of sent)) (\<lambda>s. fb_len (fst s))
     (keyboard_flush ep) (keyboard_push ep) (keyboard_push_many ep) (keyboard_push_many_slice ep)"
  "exact_batcher (batch_wf KEYBOARD_BATCH_FRAMES (\<lambda>_. True)) (batch_contents (frames_sent key_frames_of sent)) (\<lambda>s. fb_len (fst s))
     (keyboard_try_flush ep) (keyboard_try_push ep) (keyboard_try_push_many ep) (keyboard_try_push_many_slice ep)"
  unfolding keyboard_flush_def keyboard_push_def keyboard_push_many_def keyboard_push_many_slice_def keyboard_try_flush_def keyboard_try_push_def keyboard_try_push_many_def keyboard_try_push_many_slice_def
  by (rule keyboard_sink.exact try_keyboard_sink.exact)+

lemma android_batcher_exact:
  "exact_batcher (batch_wf ANDROID_KEY_BATCH_FRAMES (\<lambda>_. True)) (batch_contents (frames_sent android_frames_of sent)) (\<lambda>s. fb_len (fst s))
     (android_flush ep) (android_push ep) (android_push_many ep) (android_push_many_slice ep)"
  "exact_batcher (batch_wf ANDROID_KEY_BATCH_FRAMES (\<lambda>_. True)) (batch_contents (frames_sent android_frames_of sent)) (\<lambda>s. fb_len (fst s))
     (android_try_flush ep) (android_try_push ep) (android_try_push_many ep) (android_try_push_many_slice ep)"
  unfolding android_flush_def android_push_def android_push_many_def android_push_many_slice_def android_try_flush_def android_try_push_def android_try_push_many_def android_try_push_many_slice_def
  by (rule android_sink.exact try_android_sink.exact)+

lemma mouse_batcher_exact:
  "exact_batcher (batch_wf MOUSE_BATCH_FRAMES (\<lambda>_. True)) (batch_contents (frames_sent mouse_frames_of sent)) (\<lambda>s. fb_len (fst s))
     (mouse_flush ep) (mouse_push ep) (mouse_push_many ep) (mouse_push_many_slice ep)"
  "exact_batcher (batch_wf MOUSE_BATCH_FRAMES (\<lambda>_. True)) (batch_contents (frames_sent mouse_frames_of sent)) (\<lambda>s. fb_len (fst s))
     (mouse_try_flush ep) (mouse_try_push ep) (mouse_try_push_many ep) (mouse_try_push_many_slice ep)"
  unfolding mouse_flush_def mouse_push_def mouse_push_many_def mouse_push_many_slice_def mouse_try_flush_def mouse_try_push_def mouse_try_push_many_def mouse_try_push_many_slice_def
  by (rule mouse_sink.exact try_mouse_sink.exact)+

lemma scroll_batcher_exact:
  "exact_batcher (batch_wf SCROLL_BATCH_FRAMES (\<lambda>_. True)) (batch_contents (frames_sent scroll_frames_of sent)) (\<lambda>s. fb_len (fst s))
     (scroll_flush ep) (scroll_push ep) (scroll_push_many ep) (scroll_push_many_slice ep)"
  "exact_batcher (batch_wf SCROLL_BATCH_FRAMES (\<lambda>_. True)) (batch_contents (frames_sent scroll_frames_of sent)) (\<lambda>s. fb_len (fst s))
     (scroll_try_flush ep) (scroll_try_push ep) (scroll_try_push_many ep) (scroll_try_push_many_slice ep)"
  unfolding scroll_flush_def scroll_push_def scroll_push_many_def scroll_push_many_slice_def scroll_try_flush_def scroll_try_push_def scroll_try_push_many_def scroll_try_push_many_slice_def
  by (rule scroll_sink.exact try_scroll_sink.exact)+

lemma gamepad_batcher_exact:
  "exact_batcher (owned_wf unringed) (owned_contents (frames_sent gamepad_frames_of sent)) (\<lambda>s. owned_len (fst s))
     (gamepad_flush ep dedupe) (gamepad_push ep dedupe) (gamepad_push_many ep dedupe) (gamepad_push_many_slice ep dedupe)"
  "exact_batcher (owned_wf unringed) (owned_contents (frames_sent gamepad_frames_of sent)) (\<lambda>s. owned_len (fst s))
     (gamepad_try_flush ep dedupe) (gamepad_try_push ep dedupe) (gamepad_try_push_many ep dedupe) (gamepad_try_push_many_slice ep dedupe)"
  unfolding gamepad_flush_def gamepad_push_def gamepad_push_many_def gamepad_push_many_slice_def gamepad_try_flush_def gamepad_try_push_def gamepad_try_push_many_def gamepad_try_push_many_slice_def
  by (cases dedupe; simp add: gamepad_sink.exact_owned gamepad_unchecked_sink.exact_owned
      try_gamepad_sink.exact_owned try_gamepad_unchecked_sink.exact_owned)+

lemma packed_batcher_exact:
  "exact_batcher (owned_wf unringed) (owned_contents (frames_sent packed_frames_of sent)) (\<lambda>s. owned_len (fst s))
     (packed_flush ep) (packed_push ep) (packed_push_many ep) (packed_push_many_slice ep)"
  "exact_batcher (owned_wf unringed) (owned_contents (frames_sent packed_frames_of sent)) (\<lambda>s. owned_len (fst s))
     (packed_try_flush ep) (packed_try_push ep) (packed_try_push_many ep) (packed_try_push_many_slice ep)"
  unfolding packed_flush_def packed_push_def packed_push_many_def packed_push_many_slice_def packed_try_flush_def packed_try_push_def packed_try_push_many_def packed_try_push_many_slice_def
  by (rule packed_sink.exact_owned try_packed_sink.exact_owned)+

end

end
