(* ===== verification/Client_Gesture.thy ===== *)
theory Client_Gesture
  imports Client_Channel Gesture_Stream
begin

text \<open>
  The touch gestures of the client of \<^verbatim>\<open>src/src/client.rs\<close>. Each plans its path on the caller's side,
  sends it through a touch batcher and waits at a barrier. The main result: the touches the channel
  accepts are a prefix of the path, and the whole path when the gesture succeeds; every path lifts all
  the fingers it puts down.
\<close>

section \<open>The gestures\<close>

definition with_touch_batch :: "'c endpoints \<Rightarrow> (TouchFrame, 'c) batch_act \<Rightarrow> ('c HidClient, unit) act" where
  \<comment> \<open>\<open>{ let mut batch = self.touch_frame_batcher(); body; batch.flush()?; }\<close>: the batcher is dropped at
    the end of the block, also by an early return\<close>
  "with_touch_batch ep body c =
     (case act_then body (\<lambda>_. touch_flush ep) (touch_batcher_new, c) of (r, s) \<Rightarrow> (r, touch_batcher_drop ep s))"

abbreviation checked :: "'c endpoints \<Rightarrow> ('c HidClient, unit) act \<Rightarrow> ('c HidClient, unit) waits" where
  \<comment> \<open>\<open>...; self.flush_wait().map(|_| ())\<close>\<close>
  "checked ep p \<equiv> then_wait p (wait_void (client_flush_wait ep))"

definition client_tap_pointer :: "'c endpoints \<Rightarrow> u64 \<Rightarrow> i32 \<Rightarrow> i32 \<Rightarrow> ('c HidClient, unit) waits" where
  "client_tap_pointer ep pid x y =
     checked ep (with_touch_batch ep (act_then (touch_down ep pid x y (Fin 1)) (\<lambda>_. touch_up ep pid x y)))"

definition client_tap :: "'c endpoints \<Rightarrow> i32 \<Rightarrow> i32 \<Rightarrow> ('c HidClient, unit) waits" where
  "client_tap ep x y = client_tap_pointer ep 0 x y"

definition client_double_tap_pointer :: "'c endpoints \<Rightarrow> u64 \<Rightarrow> i32 \<Rightarrow> i32 \<Rightarrow> ('c HidClient, unit) waits" where
  "client_double_tap_pointer ep pid x y =
     checked ep (with_touch_batch ep (act_seq [touch_down ep pid x y (Fin 1), touch_up ep pid x y,
       touch_down ep pid x y (Fin 1), touch_up ep pid x y]))"

definition client_double_tap :: "'c endpoints \<Rightarrow> i32 \<Rightarrow> i32 \<Rightarrow> ('c HidClient, unit) waits" where
  "client_double_tap ep x y = client_double_tap_pointer ep 0 x y"

definition usize_fraction :: "nat \<Rightarrow> nat \<Rightarrow> f32" where
  \<comment> \<open>\<open>i as f32 / steps as f32\<close> for \<open>usize\<close>\<close>
  "usize_fraction i steps = f32_div_pos (f32_round (of_nat i)) (f32_fin (f32_round (of_nat steps)))"

definition client_swipe_pointer ::
    "'c endpoints \<Rightarrow> u64 \<Rightarrow> i32 \<times> i32 \<Rightarrow> i32 \<times> i32 \<Rightarrow> nat \<Rightarrow> ('c HidClient, unit) waits" where
  "client_swipe_pointer ep pid from to steps0 =
     (let steps = max steps0 1; (x0, y0) = from; (x1, y1) = to
      in checked ep (with_touch_batch ep (act_seq [touch_down ep pid x0 y0 (Fin 1),
           act_each (\<lambda>i. let t = usize_fraction i steps
             in touch_move_to ep pid (lerp x0 x1 t) (lerp y0 y1 t) (Fin 1)) [1..<Suc steps],
           touch_up ep pid x1 y1])))"

definition client_swipe :: "'c endpoints \<Rightarrow> i32 \<times> i32 \<Rightarrow> i32 \<times> i32 \<Rightarrow> nat \<Rightarrow> ('c HidClient, unit) waits" where
  "client_swipe ep from to steps = client_swipe_pointer ep 0 from to steps"

definition client_long_press_pointer ::
    "'c endpoints \<Rightarrow> u64 \<Rightarrow> i32 \<Rightarrow> i32 \<Rightarrow> nat \<Rightarrow> ('c HidClient, unit) waits" where
  "client_long_press_pointer ep pid x y dur =
     then_wait (with_touch_batch ep (touch_down ep pid x y (Fin 1)))
       (waits_then (client_flush_wait ep)
         (then_wait (client_sleep ep dur) (checked ep (with_touch_batch ep (touch_up ep pid x y)))))"

definition client_long_press :: "'c endpoints \<Rightarrow> i32 \<Rightarrow> i32 \<Rightarrow> nat \<Rightarrow> ('c HidClient, unit) waits" where
  "client_long_press ep x y dur = client_long_press_pointer ep 0 x y dur"

definition client_three_finger_screenshot :: "'c endpoints \<Rightarrow> u16 \<Rightarrow> u16 \<Rightarrow> ('c HidClient, unit) waits" where
  \<comment> \<open>the screen sizes are \<open>u16\<close>, so no \<open>i32\<close> product overflows\<close>
  "client_three_finger_screenshot ep screen_w screen_h =
     (let w = uint screen_w; h = uint screen_h;
          column = (\<lambda>i. word_of_int (w div 4 * (int i + 1)) :: i32)
      in checked ep (with_touch_batch ep (act_seq [
           act_each (\<lambda>i. touch_down ep (word_of_nat i) (column i) (word_of_int (h div 4)) (Fin 1)) [0..<3],
           act_each (\<lambda>step. act_each (\<lambda>i. touch_move_to ep (word_of_nat i) (column i)
             (word_of_int (h div 4 + h div 2 * int step div 10)) (Fin 1)) [0..<3]) [1..<11],
           act_each (\<lambda>i. touch_up ep (word_of_nat i) (column i) (word_of_int (h * 3 div 4))) [0..<3]])))"

section \<open>The paths\<close>

datatype client_gesture =
    CG_Tap u64 i32 i32
  | CG_DoubleTap u64 i32 i32
  | CG_Swipe u64 "i32 \<times> i32" "i32 \<times> i32" nat
  | CG_LongPress u64 i32 i32 nat
  | CG_ThreeFinger u16 u16

primrec client_gesture_exec :: "'c endpoints \<Rightarrow> client_gesture \<Rightarrow> ('c HidClient, unit) waits" where
  "client_gesture_exec ep (CG_Tap pid x y) = client_tap_pointer ep pid x y"
| "client_gesture_exec ep (CG_DoubleTap pid x y) = client_double_tap_pointer ep pid x y"
| "client_gesture_exec ep (CG_Swipe pid src dst n) = client_swipe_pointer ep pid src dst n"
| "client_gesture_exec ep (CG_LongPress pid x y d) = client_long_press_pointer ep pid x y d"
| "client_gesture_exec ep (CG_ThreeFinger w h) = client_three_finger_screenshot ep w h"

abbreviation press_at :: "u64 \<Rightarrow> i32 \<Rightarrow> i32 \<Rightarrow> TouchFrame" where
  "press_at pid x y \<equiv> touch_frame TOUCH_DOWN pid x y (Fin 1)"

abbreviation drag_to :: "u64 \<Rightarrow> i32 \<Rightarrow> i32 \<Rightarrow> TouchFrame" where
  "drag_to pid x y \<equiv> touch_frame TOUCH_MOVE pid x y (Fin 1)"

abbreviation lift_at :: "u64 \<Rightarrow> i32 \<Rightarrow> i32 \<Rightarrow> TouchFrame" where
  "lift_at pid x y \<equiv> touch_frame TOUCH_UP pid x y (Fin 0)"

primrec client_gesture_path :: "client_gesture \<Rightarrow> TouchFrame list" where
  "client_gesture_path (CG_Tap pid x y) = [press_at pid x y, lift_at pid x y]"
| "client_gesture_path (CG_DoubleTap pid x y) = [press_at pid x y, lift_at pid x y, press_at pid x y, lift_at pid x y]"
| "client_gesture_path (CG_Swipe pid src dst n) =
     (let steps = max n 1 in
      press_at pid (fst src) (snd src) #
      map (\<lambda>i. drag_to pid (lerp (fst src) (fst dst) (usize_fraction i steps)) (lerp (snd src) (snd dst) (usize_fraction i steps)))
        [1..<Suc steps] @ [lift_at pid (fst dst) (snd dst)])"
| "client_gesture_path (CG_LongPress pid x y d) = [press_at pid x y, lift_at pid x y]"
| "client_gesture_path (CG_ThreeFinger sw sh) =
     (let w = uint sw; h = uint sh; column = (\<lambda>i. word_of_int (w div 4 * (int i + 1)) :: i32) in
      map (\<lambda>i. press_at (word_of_nat i) (column i) (word_of_int (h div 4))) [0..<3] @
      concat (map (\<lambda>step. map (\<lambda>i. drag_to (word_of_nat i) (column i) (word_of_int (h div 4 + h div 2 * int step div 10))) [0..<3])
        [1..<11]) @
      map (\<lambda>i. lift_at (word_of_nat i) (column i) (word_of_int (h * 3 div 4))) [0..<3])"

fun fingers :: "TouchFrame list \<Rightarrow> u64 set \<Rightarrow> u64 set option" where
  \<comment> \<open>the fingers down after a path; \<open>None\<close>: it presses a finger that is down, or moves or lifts one that is up\<close>
  "fingers [] F = Some F"
| "fingers (f # fs) F =
     (if tf_action f = TOUCH_DOWN then (if tf_pointer_id f \<in> F then None else fingers fs (insert (tf_pointer_id f) F))
      else if tf_pointer_id f \<notin> F then None
      else if tf_action f = TOUCH_UP then fingers fs (F - {tf_pointer_id f})
      else fingers fs F)"

section \<open>What a gesture sends\<close>

definition waits_add :: "('s \<Rightarrow> 'f list) \<Rightarrow> ('s, unit) waits \<Rightarrow> 'f list \<Rightarrow> bool" where
  \<comment> \<open>when \<open>q\<close> returns, it has added a prefix of \<open>fs\<close>, all of it when it succeeded\<close>
  "waits_add contents q fs \<longleftrightarrow> (\<forall>s rs. q s = Some rs \<longrightarrow> outcome (\<lambda>_. True) contents (contents s) fs rs)"

lemma waits_add_then:
  assumes p: "prefix_added (\<lambda>_. True) contents p fs" and q: "waits_add contents q gs"
  shows "waits_add contents (then_wait p q) (fs @ gs)"
  unfolding waits_add_def
proof (intro allI impI)
  fix s rs
  assume run: "then_wait p q s = Some rs"
  obtain r s1 where r: "p s = (r, s1)"
    by fastforce
  have o: "outcome (\<lambda>_. True) contents (contents s) fs (r, s1)"
    using prefix_addedD [OF p, of s] r by simp
  show "outcome (\<lambda>_. True) contents (contents s) (fs @ gs) rs"
  proof (cases r)
    case (Inl e)
    then show ?thesis
      using run r o outcome_more by (auto simp: then_wait_def)
  next
    case (Inr x)
    then have "q s1 = Some rs" "contents s1 = contents s @ fs"
      using run r o by (simp_all add: then_wait_def)
    moreover from this(1) have "outcome (\<lambda>_. True) contents (contents s1) gs rs"
      using q unfolding waits_add_def by blast
    ultimately have "outcome (\<lambda>_. True) contents (contents s @ fs) gs rs"
      by simp
    then show ?thesis
      by (rule outcome_after)
  qed
qed

lemma waits_add_waits_then:
  assumes p: "waits_add contents (wait_void p) fs" and q: "waits_add contents q gs"
  shows "waits_add contents (waits_then p q) (fs @ gs)"
  unfolding waits_add_def
proof (intro allI impI)
  fix s rs
  assume run: "waits_then p q s = Some rs"
  then obtain r s1 where r: "p s = Some (r, s1)"
    by (auto simp: waits_then_def split: option.splits)
  then have "wait_void p s = Some (map_sum id (\<lambda>_. ()) r, s1)"
    by (simp add: wait_void_def)
  then have o: "outcome (\<lambda>_. True) contents (contents s) fs (map_sum id (\<lambda>_. ()) r, s1)"
    using p unfolding waits_add_def by blast
  show "outcome (\<lambda>_. True) contents (contents s) (fs @ gs) rs"
  proof (cases r)
    case (Inl e)
    then show ?thesis
      using run r o outcome_more by (auto simp: waits_then_def)
  next
    case (Inr x)
    then have "q s1 = Some rs" "contents s1 = contents s @ fs"
      using run r o by (simp_all add: waits_then_def)
    moreover from this(1) have "outcome (\<lambda>_. True) contents (contents s1) gs rs"
      using q unfolding waits_add_def by blast
    ultimately have "outcome (\<lambda>_. True) contents (contents s @ fs) gs rs"
      by simp
    then show ?thesis
      by (rule outcome_after)
  qed
qed

lemma prefix_added_act_seq:
  "list_all2 (prefix_added good contents) ps fss \<Longrightarrow> prefix_added good contents (act_seq ps) (concat fss)"
proof (induction rule: list_all2_induct)
  case (Cons p ps fs fss)
  then show ?case
    using prefix_added_seq [of good contents p fs "\<lambda>_. act_seq ps" "concat fss"] by simp
qed (simp add: prefix_added_ret del: act_simps)

lemma prefix_added_act_each:
  assumes "\<And>x. prefix_added good contents (f x) (g x)"
  shows "prefix_added good contents (act_each f xs) (concat (map g xs))"
proof (induction xs)
  case (Cons x xs)
  then show ?case
    using prefix_added_seq [OF assms [of x], of "\<lambda>_. act_each f xs" "concat (map g xs)"] by simp
qed (simp add: prefix_added_ret del: act_simps)

context command_channel
begin

abbreviation touches :: "'c HidClient \<Rightarrow> TouchFrame list" where
  "touches \<equiv> frames_sent touch_frames_of sent"

abbreviation kept :: "TouchFrame list \<Rightarrow> TouchFrame FrameBatcher \<times> 'c HidClient \<Rightarrow> bool" where
  "kept base \<equiv> batch_wf TOUCH_BATCH_FRAMES (\<lambda>c. True \<and> (\<exists>gs. touches c = base @ gs))"

definition batch_adds :: "(TouchFrame, 'c) batch_act \<Rightarrow> TouchFrame list \<Rightarrow> bool" where
  "batch_adds p fs \<longleftrightarrow> (\<forall>base. prefix_added (kept base) (batch_contents touches) p fs)"

abbreviation adds_touches :: "('c HidClient, unit) act \<Rightarrow> TouchFrame list \<Rightarrow> bool" where
  "adds_touches \<equiv> prefix_added (\<lambda>_. True) touches"

lemma touch_batch_grows:
  "exact_batcher (kept base) (batch_contents touches) (\<lambda>s. fb_len (fst s))
     (touch_flush ep) (touch_push ep) (touch_push_many ep) (touch_push_many_slice ep)"
  "exact_batcher (kept base) (batch_contents touches) (\<lambda>s. fb_len (fst s))
     (touch_try_flush ep) (touch_try_push ep) (touch_try_push_many ep) (touch_try_push_many_slice ep)"
  unfolding touch_flush_def touch_push_def touch_push_many_def touch_push_many_slice_def
    touch_try_flush_def touch_try_push_def touch_try_push_many_def touch_try_push_many_slice_def
  by (rule frame_sink.exact [OF touch_sink.grown] frame_sink.exact [OF try_touch_sink.grown])+

lemma touch_steps:
  "batch_adds (touch_down ep i x y p) [touch_frame TOUCH_DOWN i x y p]"
  "batch_adds (touch_move_to ep i x y p) [touch_frame TOUCH_MOVE i x y p]"
  "batch_adds (touch_up ep i x y) [lift_at i x y]"
  using touch_batch_grows(1) by (simp_all add: batch_adds_def exact_batcher_def touch_down_def touch_move_to_def touch_up_def)

lemma flush_wait_adds: "waits_add touches (wait_void (client_flush_wait ep)) []"
  unfolding waits_add_def
proof (intro allI impI)
  fix c :: "'c HidClient" and rs
  assume run: "wait_void (client_flush_wait ep) c = Some rs"
  let ?c = "snd (next_seq (snd (slot_new c)))"
  let ?cmd = "C_Control (FlushAck (cl_next_seq c) (cl_next_slot c))"
  obtain r c1 where send: "client_send ep ?cmd ?c = (r, c1)"
    by fastforce
  have same: "touches c1 = touches c"
    using send client_send_result(1) [of ?cmd ?c c1] client_send_result(2) [of ?cmd ?c _ c1]
    by (cases r) (auto simp: frames_sent_def next_seq_def slot_new_def)
  have no_panic: "r \<noteq> Inl Panicked"
    using send client_send_result(2) [of ?cmd ?c _ c1] by (cases r) auto
  show "outcome (\<lambda>_. True) touches (touches c) [] rs"
  proof (cases r)
    case (Inl e)
    then show ?thesis
      using run send same no_panic
      by (auto simp: wait_void_def client_flush_wait_def then_wait_def slot_new_def next_seq_def Let_def outcome_err)
  next
    case (Inr u)
    then obtain w x where "ep_wait ep (cl_next_slot c) (cl_shared c1) = Some (w, x)"
      "rs = (map_sum id (\<lambda>_. ()) (map_sum Err id w), c1\<lparr>cl_shared := x\<rparr>)"
      using run send
      by (auto simp: wait_void_def client_flush_wait_def then_wait_def slot_new_def next_seq_def Let_def wait_slot_def
          split: option.splits)
    then show ?thesis
      using wait_law same by (cases w) (auto simp: frames_sent_def outcome_err)
  qed
qed

lemma sleep_adds: "adds_touches (client_sleep ep d) []"
  by (rule prefix_addedI) (simp add: client_sleep_def sleep_law frames_sent_def)

lemma try_flush_result:
  assumes "touch_try_flush ep (b, c) = (r, (b', c'))" "batch_wf TOUCH_BATCH_FRAMES (\<lambda>_. True) (b, c)"
  shows "touches c' = (if r = Inr () then batch_contents touches (b, c) else touches c)"
  using assms try_touch_sink.send_ok [where k = c and len = "fb_len b" and fs = "fb_frames b" and k' = c']
    try_touch_sink.send_err [where k = c and len = "fb_len b" and fs = "fb_frames b" and k' = c']
  by (auto simp: touch_try_flush_def batch_flush_def batch_wf_def batch_contents_def split: if_splits prod.splits sum.splits)

lemma batch_block_adds:
  assumes body: "batch_adds body fs"
  shows "adds_touches (with_touch_batch ep body) fs"
proof (rule prefix_addedI)
  fix c :: "'c HidClient"
  let ?s = "(touch_batcher_new, c)"
  let ?all = "act_then body (\<lambda>_. touch_flush ep)"
  let ?kept = "kept (touches c)"
  have new: "?kept ?s" "batch_contents touches ?s = touches c"
    by (simp_all add: batch_wf_def batch_contents_def touch_batcher_new_def batch_new_def)
  obtain r b1 c1 where run: "?all ?s = (r, (b1, c1))"
    by (metis prod.exhaust)
  obtain r2 b2 c2 where drop: "touch_try_flush ep (b1, c1) = (r2, (b2, c2))"
    by (metis prod.exhaust)
  have "prefix_added ?kept (batch_contents touches) ?all (fs @ [])"
    by (rule prefix_added_seq) (use body touch_batch_grows(1) in \<open>simp_all add: batch_adds_def exact_batcher_def\<close>)
  then have "outcome ?kept (batch_contents touches) (batch_contents touches ?s) (fs @ []) (?all ?s)"
    using new(1) unfolding prefix_added_def by blast
  then have o: "outcome ?kept (batch_contents touches) (touches c) fs (r, (b1, c1))"
    unfolding new(2) run by simp
  then obtain n gs where n: "n \<le> length fs" "batch_contents touches (b1, c1) = touches c @ take n fs"
    "is_ok r \<longrightarrow> n = length fs" "r \<noteq> Inl Panicked" "touches c1 = touches c @ gs"
    by (auto simp: outcome_def batch_wf_def)
  have wf: "batch_wf TOUCH_BATCH_FRAMES (\<lambda>_. True) (b1, c1)"
    using o by (auto simp: outcome_def batch_wf_def)
  have empty: "touches c1 = batch_contents touches (b1, c1)" if ok: "is_ok r"
  proof -
    obtain s2 where "touch_flush ep s2 = (Inr (), (b1, c1))"
      using run ok by (cases r) (auto simp: act_then_Inr_iff)
    then have "fb_len b1 = 0"
      using touch_batch_grows(1) unfolding exact_batcher_def by fastforce
    then show ?thesis
      by (simp add: batch_contents_def)
  qed
  have "gs @ take (fb_len b1) (fb_frames b1) = take n fs"
    using n(2,5) by (simp add: batch_contents_def)
  then have gs: "gs = take (length gs) (take n fs)"
    by (metis append_eq_conv_conj)
  have "touches c2 = touches c @ take (if r2 = Inr () then n else min (length gs) n) fs"
    using try_flush_result [OF drop wf] n(2,5) gs by (auto simp: min_def take_all split: if_splits)
  moreover have "is_ok r \<Longrightarrow> touches c2 = touches c @ fs"
    using try_flush_result [OF drop wf] n(2,3) empty by auto
  ultimately show "outcome (\<lambda>_. True) touches (touches c) fs (with_touch_batch ep body c)"
    using run drop n(1,4)
    by (cases "is_ok r") (auto simp: with_touch_batch_def touch_batcher_drop_def outcome_def
        intro: exI [of _ "length fs"] exI [of _ "if r2 = Inr () then n else min (length gs) n"])
qed

lemma batch_seq: "list_all2 batch_adds ps fss \<Longrightarrow> batch_adds (act_seq ps) (concat fss)"
unfolding batch_adds_def
proof (intro allI prefix_added_act_seq)
  show "list_all2 (\<lambda>p fs. \<forall>base. prefix_added (kept base) (batch_contents touches) p fs) ps fss \<Longrightarrow>
      list_all2 (prefix_added (kept base) (batch_contents touches)) ps fss" for base
    by (erule list_all2_mono) blast
qed

lemma batch_each: "(\<And>x. batch_adds (f x) (g x)) \<Longrightarrow> batch_adds (act_each f xs) (concat (map g xs))"
  unfolding batch_adds_def by (intro allI prefix_added_act_each) blast

lemma checked_adds: "batch_adds body fs \<Longrightarrow> waits_add touches (checked ep (with_touch_batch ep body)) fs"
  using waits_add_then [OF batch_block_adds flush_wait_adds] by simp

lemma tap_adds: "waits_add touches (client_tap_pointer ep pid x y) (client_gesture_path (CG_Tap pid x y))"
proof -
  have "batch_adds (act_then (touch_down ep pid x y (Fin 1)) (\<lambda>_. touch_up ep pid x y)) ([press_at pid x y] @ [lift_at pid x y])"
    unfolding batch_adds_def by (intro allI prefix_added_seq) (use touch_steps in \<open>auto simp: batch_adds_def\<close>)
  from checked_adds [OF this] show ?thesis
    by (simp add: client_tap_pointer_def)
qed

lemma double_tap_adds:
  "waits_add touches (client_double_tap_pointer ep pid x y) (client_gesture_path (CG_DoubleTap pid x y))"
proof -
  have "batch_adds (act_seq [touch_down ep pid x y (Fin 1), touch_up ep pid x y, touch_down ep pid x y (Fin 1), touch_up ep pid x y])
      (concat [[press_at pid x y], [lift_at pid x y], [press_at pid x y], [lift_at pid x y]])"
    by (intro batch_seq list.rel_intros touch_steps)
  from checked_adds [OF this] show ?thesis
    by (simp only: client_double_tap_pointer_def client_gesture_path.simps concat.simps append.simps)
qed

lemma swipe_adds: "waits_add touches (client_swipe_pointer ep pid src dst n) (client_gesture_path (CG_Swipe pid src dst n))"
proof -
  let ?steps = "max n 1"
  let ?move = "\<lambda>i. drag_to pid (lerp (fst src) (fst dst) (usize_fraction i ?steps)) (lerp (snd src) (snd dst) (usize_fraction i ?steps))"
  have "batch_adds (act_seq [touch_down ep pid (fst src) (snd src) (Fin 1),
      act_each (\<lambda>i. touch_move_to ep pid (lerp (fst src) (fst dst) (usize_fraction i ?steps))
        (lerp (snd src) (snd dst) (usize_fraction i ?steps)) (Fin 1)) [1..<Suc ?steps],
      touch_up ep pid (fst dst) (snd dst)])
    (concat [[press_at pid (fst src) (snd src)], concat (map (\<lambda>i. [?move i]) [1..<Suc ?steps]), [lift_at pid (fst dst) (snd dst)]])"
    by (intro batch_seq list.rel_intros touch_steps batch_each)
  from checked_adds [OF this] show ?thesis
    by (simp add: client_swipe_pointer_def Let_def case_prod_beta concat_map_singleton)
qed

lemma long_press_adds:
  "waits_add touches (client_long_press_pointer ep pid x y d) (client_gesture_path (CG_LongPress pid x y d))"
proof -
  have "waits_add touches (client_long_press_pointer ep pid x y d) ([press_at pid x y] @ [] @ [] @ [lift_at pid x y])"
    unfolding client_long_press_pointer_def
    by (intro waits_add_then waits_add_waits_then batch_block_adds touch_steps flush_wait_adds sleep_adds checked_adds)
  then show ?thesis
    by simp
qed

lemma three_finger_adds:
  "waits_add touches (client_three_finger_screenshot ep sw sh) (client_gesture_path (CG_ThreeFinger sw sh))"
proof -
  define column where "column i = (word_of_int (uint sw div 4 * (int i + 1)) :: i32)" for i :: nat
  define row where "row step = (word_of_int (uint sh div 4 + uint sh div 2 * int step div 10) :: i32)" for step :: nat
  let ?top = "word_of_int (uint sh div 4) :: i32" and ?bottom = "word_of_int (uint sh * 3 div 4) :: i32"
  have "batch_adds (act_seq [
      act_each (\<lambda>i. touch_down ep (word_of_nat i) (column i) ?top (Fin 1)) [0..<3],
      act_each (\<lambda>step. act_each (\<lambda>i. touch_move_to ep (word_of_nat i) (column i) (row step) (Fin 1)) [0..<3]) [1..<11],
      act_each (\<lambda>i. touch_up ep (word_of_nat i) (column i) ?bottom) [0..<3]])
    (concat [concat (map (\<lambda>i. [press_at (word_of_nat i) (column i) ?top]) [0..<3]),
      concat (map (\<lambda>step. concat (map (\<lambda>i. [drag_to (word_of_nat i) (column i) (row step)]) [0..<3])) [1..<11]),
      concat (map (\<lambda>i. [lift_at (word_of_nat i) (column i) ?bottom]) [0..<3])])"
    by (intro batch_seq list.rel_intros touch_steps batch_each)
  from checked_adds [OF this] show ?thesis
    by (simp only: client_three_finger_screenshot_def client_gesture_path.simps Let_def column_def row_def concat_map_singleton
        concat.simps append_Nil2)
qed

lemma gesture_adds: "waits_add touches (client_gesture_exec ep g) (client_gesture_path g)"
  by (cases g) (simp_all only: client_gesture_exec.simps tap_adds double_tap_adds swipe_adds long_press_adds three_finger_adds)

end

section \<open>Fingers\<close>

lemma fingers_moves:
  "\<forall>f \<in> set ms. tf_action f = TOUCH_MOVE \<and> tf_pointer_id f \<in> F \<Longrightarrow> fingers (ms @ fs) F = fingers fs F"
  by (induction ms) (auto simp: TOUCH_MOVE_def TOUCH_DOWN_def TOUCH_UP_def)

lemma client_path_balanced: "fingers (client_gesture_path g) {} = Some {}"
proof (cases g)
  case (CG_Swipe pid src dst n)
  let ?mv = "\<lambda>i. drag_to pid (lerp (fst src) (fst dst) (usize_fraction i (max n 1))) (lerp (snd src) (snd dst) (usize_fraction i (max n 1)))"
  have "fingers (map ?mv [1..<Suc (max n 1)] @ [lift_at pid (fst dst) (snd dst)]) {pid} = fingers [lift_at pid (fst dst) (snd dst)] {pid}"
    by (rule fingers_moves) (auto simp: touch_frame_def)
  then show ?thesis
    by (simp add: CG_Swipe Let_def touch_frame_def TOUCH_DOWN_def TOUCH_UP_def del: upt_Suc)
next
  case (CG_ThreeFinger sw sh)
  define column where "column i = (word_of_int (uint sw div 4 * (int i + 1)) :: i32)" for i :: nat
  define row where "row step = (word_of_int (uint sh div 4 + uint sh div 2 * int step div 10) :: i32)" for step :: nat
  let ?lifts = "map (\<lambda>i. lift_at (word_of_nat i) (column i) (word_of_int (uint sh * 3 div 4))) [0..<3]"
  let ?moves = "concat (map (\<lambda>step. map (\<lambda>i. drag_to (word_of_nat i) (column i) (row step)) [0..<3]) [1..<11])"
  have upt: "[0..<3] = [0, 1, 2 :: nat]"
    by (simp add: upt_rec)
  let ?downs = "map (\<lambda>i. press_at (word_of_nat i) (column i) (word_of_int (uint sh div 4))) [0..<3]"
  have "fingers (?downs @ rest) {} = fingers rest {0, 1, 2}" for rest
    by (simp add: upt touch_frame_def insert_commute)
  moreover have "fingers (?moves @ ?lifts) {0, 1, 2} = fingers ?lifts {0, 1, 2}"
    by (rule fingers_moves) (auto simp: touch_frame_def upt)
  moreover have "fingers ?lifts {0, 1, 2} = Some {}"
    by (auto simp add: upt touch_frame_def)
  ultimately show ?thesis
    by (simp only: CG_ThreeFinger client_gesture_path.simps Let_def column_def row_def)
qed (auto simp: touch_frame_def TOUCH_DOWN_def TOUCH_UP_def)

end
