(* ===== verification/Client_Runtime.thy ===== *)
theory Client_Runtime
  imports Client_Gesture
begin

text \<open>
  The two runtimes behind the endpoints of a client, from \<open>into_client\<close>, \<open>into_client_with_bound\<close> and
  \<open>into_client_with_gamepad_ring\<close> of \<^verbatim>\<open>src/src/client.rs\<close>. The first is a channel of bounded
  capacity with the dispatcher thread at its other end, the second a ring with the consumer thread. How far
  the other thread gets between two calls of a client is a schedule, about which nothing is assumed.
  \<open>rt_accepted\<close> and \<open>rr_accepted\<close> record what the channel or the ring took; the code has no such field.
\<close>

section \<open>The channel and the dispatcher\<close>

record 'e runtime =
  rt_queue :: "HidCommand list"
  rt_dispatcher :: "'e Dispatcher"
  rt_exit :: "bool res option" \<comment> \<open>how the loop ended; its receiver is gone then\<close>
  rt_schedule :: "nat list" \<comment> \<open>how many commands the thread handles before each of the next calls\<close>
  rt_accepted :: "HidCommand list"

definition dispatcher_new :: "'e HidSession \<Rightarrow> 'e Dispatcher" where
  "dispatcher_new session = \<lparr>dp_session = session, dp_pending_error = None, dp_slots = Map.empty\<rparr>"

definition into_client :: "'e HidSession \<Rightarrow> nat list \<Rightarrow> 'e runtime HidClient" where
  "into_client session schedule =
     client_new \<lparr>rt_queue = [], rt_dispatcher = dispatcher_new session, rt_exit = None, rt_schedule = schedule,
       rt_accepted = []\<rparr> False"

fun run_queue :: "'e transport_ops \<Rightarrow> nat \<Rightarrow> 'e runtime \<Rightarrow> 'e runtime" where
  "run_queue ops 0 x = x"
| "run_queue ops (Suc n) x = (case (rt_exit x, rt_queue x) of
     (None, cmd # cmds) \<Rightarrow> (case dispatch_to_session ops cmd (rt_dispatcher x) of (r, d) \<Rightarrow>
       if r = Inr False then run_queue ops n (x\<lparr>rt_queue := cmds, rt_dispatcher := d\<rparr>)
       else x\<lparr>rt_queue := [], rt_dispatcher := d, rt_exit := Some r\<rparr>)
   | _ \<Rightarrow> x)"

definition give_turn :: "'e transport_ops \<Rightarrow> 'e runtime \<Rightarrow> 'e runtime" where
  "give_turn ops x = (case rt_schedule x of [] \<Rightarrow> x | n # ns \<Rightarrow> run_queue ops n (x\<lparr>rt_schedule := ns\<rparr>))"

definition accept :: "HidCommand \<Rightarrow> 'e runtime \<Rightarrow> 'e runtime" where
  "accept cmd x = x\<lparr>rt_queue := rt_queue x @ [cmd], rt_accepted := rt_accepted x @ [cmd]\<rparr>"

definition runtime_send :: "'e transport_ops \<Rightarrow> nat \<Rightarrow> HidCommand \<Rightarrow> 'e runtime \<Rightarrow> bool \<times> 'e runtime" where
  \<comment> \<open>blocks until the thread has taken enough for one more to fit\<close>
  "runtime_send ops bound cmd x =
     (let x = give_turn ops x; x = run_queue ops (Suc (length (rt_queue x)) - bound) x
      in if rt_exit x = None then (True, accept cmd x) else (False, x))"

definition runtime_try_send :: "'e transport_ops \<Rightarrow> nat \<Rightarrow> HidCommand \<Rightarrow> 'e runtime \<Rightarrow> try_send_result \<times> 'e runtime" where
  "runtime_try_send ops bound cmd x =
     (let x = give_turn ops x
      in if rt_exit x \<noteq> None then (Disconnected, x)
         else if bound \<le> length (rt_queue x) then (ChannelFull, x)
         else (Sent, accept cmd x))"

definition runtime_wait :: "'e transport_ops \<Rightarrow> slot \<Rightarrow> 'e runtime \<Rightarrow> ((error + nat) \<times> 'e runtime) option" where
  \<comment> \<open>the waiter sleeps while the thread handles everything that is queued\<close>
  "runtime_wait ops i x =
     (let x = run_queue ops (length (rt_queue x)) x
      in map_option (\<lambda>(r, d). (r, x\<lparr>rt_dispatcher := d\<rparr>)) (slot_wait i (rt_dispatcher x)))"

definition runtime_endpoints :: "'e transport_ops \<Rightarrow> nat \<Rightarrow> 'e runtime endpoints" where
  \<comment> \<open>a client of \<open>into_client_with_bound\<close> has no ring and no flags\<close>
  "runtime_endpoints ops bound =
     \<lparr>ep_send = runtime_send ops bound, ep_try_send = runtime_try_send ops bound, ep_wait = runtime_wait ops,
      ep_ring_push = (\<lambda>f x. (Inl Full, x)), ep_store_close = id, ep_load_error = (\<lambda>x. False),
      ep_sleep = (\<lambda>d. give_turn ops)\<rparr>"

definition runtime_join :: "'e transport_ops \<Rightarrow> 'e runtime \<Rightarrow> unit res \<times> 'e" where
  \<comment> \<open>all clients are dropped: the thread handles what is queued and ends\<close>
  "runtime_join ops x =
     (let x = run_queue ops (length (rt_queue x)) x
      in loop_exit ops (case rt_exit x of None \<Rightarrow> Inr False | Some r \<Rightarrow> r) (rt_dispatcher x))"

lemma run_queue_accepted [simp]: "rt_accepted (run_queue ops n x) = rt_accepted x"
  by (induction ops n x rule: run_queue.induct) (auto split: option.splits list.splits prod.splits)

lemma give_turn_accepted [simp]: "rt_accepted (give_turn ops x) = rt_accepted x"
  by (simp add: give_turn_def split: list.splits)

interpretation runtime: command_channel "runtime_endpoints ops bound" rt_accepted for ops bound
  by unfold_locales
    (auto simp: runtime_endpoints_def runtime_send_def runtime_try_send_def runtime_wait_def accept_def Let_def split: if_splits)

section \<open>One thread runs what the channel accepted\<close>

text \<open>The observable part of the dispatcher's state, without the slots that waiters empty.\<close>

definition core :: "'e Dispatcher \<Rightarrow> 'e HidSession \<times> error option" where
  "core d = (dp_session d, dp_pending_error d)"

lemma res_cases: obtains e where "r = Inl (Err e)" | "r = Inl Panicked" | x where "r = (Inr x :: 'a res)"
  by (metis fault.exhaust sum.exhaust)

lemma core_dispatch:
  assumes "core d = core d'"
  shows "fst (dispatch_to_session ops c d) = fst (dispatch_to_session ops c d') \<and>
    core (snd (dispatch_to_session ops c d)) = core (snd (dispatch_to_session ops c d')) \<and>
    (\<forall>seq i. c = C_Control (FlushAck seq i) \<longrightarrow> fst (dispatch_to_session ops c d) \<noteq> Inl Panicked \<longrightarrow>
       dp_slots (snd (dispatch_to_session ops c d)) i = dp_slots (snd (dispatch_to_session ops c d')) i)"
proof (cases "plain_command c")
  case True
  obtain s pe acks acks' where d: "d = \<lparr>dp_session = s, dp_pending_error = pe, dp_slots = acks\<rparr>"
    "d' = \<lparr>dp_session = s, dp_pending_error = pe, dp_slots = acks'\<rparr>"
    using assms by (cases d; cases d') (auto simp: core_def)
  obtain p where p: "records p" "dispatch_to_session ops c = go_on p"
    using plain_dispatch [OF True] by metis
  obtain r s' e where r: "\<And>x. r \<noteq> Inl (Err x)" "\<And>pe acks. p \<lparr>dp_session = s, dp_pending_error = pe, dp_slots = acks\<rparr>
      = (r, \<lparr>dp_session = s', dp_pending_error = first_error pe e, dp_slots = acks\<rparr>)"
    using recordsE [OF p(1), of s] by blast
  have "c \<noteq> C_Control (FlushAck seq i)" for seq i
    using True by (simp add: plain_command_def)
  then show ?thesis
    by (cases r) (simp_all add: d p(2) r(2) core_def)
next
  case False
  have same: "dp_session d' = dp_session d" "dp_pending_error d' = dp_pending_error d"
    using assms by (simp_all add: core_def)
  consider "c = C_Control Close" | seq i where "c = C_Control (FlushAck seq i)"
    using False by (auto simp: plain_command_def)
  then show ?thesis
  proof cases
    case 1
    obtain r s where "session_close ops (dp_session d) = (r, s)"
      by fastforce
    then show ?thesis
      using same by (cases r rule: res_cases) (simp_all add: 1 dispatch_to_session_def dispatch_control_def act_ignore_def act_then_def core_def)
  next
    case 2
    obtain r s where "session_flush_now ops (dp_session d) = (r, s)"
      by fastforce
    then show ?thesis
      using same by (cases r rule: res_cases; cases "dp_pending_error d")
        (simp_all add: 2 dispatch_to_session_def dispatch_control_def dispatch_flush_ack_def slot_notify_def core_def)
  qed
qed

definition serial :: "'e transport_ops \<Rightarrow> 'e HidSession \<Rightarrow> 'e runtime \<Rightarrow> bool" where
  \<comment> \<open>the dispatcher has run a first part of the accepted commands; the rest is queued, or was lost with the channel\<close>
  "serial ops s x \<longleftrightarrow> (\<exists>ran unseen r d. rt_accepted x = ran @ unseen \<and> dispatch_all ops ran (dispatcher_new s) = (r, d) \<and>
     core d = core (rt_dispatcher x) \<and>
     (case rt_exit x of None \<Rightarrow> r = Inr False \<and> unseen = rt_queue x
      | Some q \<Rightarrow> r = q \<and> q \<noteq> Inr False \<and> rt_queue x = []))"

lemma serial_step:
  assumes "serial ops s x" "rt_exit x = None" "rt_queue x = cmd # cmds"
    "dispatch_to_session ops cmd (rt_dispatcher x) = (r, d)"
  shows "if r = Inr False then serial ops s (x\<lparr>rt_queue := cmds, rt_dispatcher := d\<rparr>)
    else serial ops s (x\<lparr>rt_queue := [], rt_dispatcher := d, rt_exit := Some r\<rparr>)"
proof -
  obtain ran d0 where ran: "rt_accepted x = ran @ cmd # cmds" "dispatch_all ops ran (dispatcher_new s) = (Inr False, d0)"
    "core d0 = core (rt_dispatcher x)"
    using assms(1-3) by (auto simp: serial_def)
  obtain d1 where d1: "dispatch_to_session ops cmd d0 = (r, d1)" "core d1 = core d"
    using core_dispatch [OF ran(3), of ops cmd] assms(4) by (metis fst_conv prod.exhaust snd_conv)
  have "dispatch_all ops (ran @ [cmd]) (dispatcher_new s) = (r, d1)"
    unfolding dispatch_all_append dispatch_all_one using ran(2) d1(1) by (simp add: act_then_def)
  moreover have "rt_accepted x = (ran @ [cmd]) @ cmds"
    using ran(1) by simp
  ultimately have seen: "\<exists>ran unseen r' d'. rt_accepted x = ran @ unseen \<and> dispatch_all ops ran (dispatcher_new s) = (r', d') \<and>
      core d' = core d \<and> r' = r \<and> unseen = cmds"
    using d1(2) by blast
  show ?thesis
  proof (cases "r = Inr False")
    case True
    then show ?thesis
      using seen unfolding serial_def by (simp add: assms(2))
  next
    case False
    then show ?thesis
      using seen unfolding serial_def by simp blast
  qed
qed

lemma serial_run: "serial ops s x \<Longrightarrow> serial ops s (run_queue ops n x)"
proof (induction ops n x rule: run_queue.induct)
  case (2 ops n x)
  then show ?case
    using serial_step [OF "2.prems"]
    by (fastforce split: option.splits list.splits prod.splits)
qed simp

lemma run_queue_length:
  "rt_exit (run_queue ops n x) = None \<Longrightarrow> length (rt_queue (run_queue ops n x)) = length (rt_queue x) - n"
  by (induction ops n x rule: run_queue.induct) (auto split: option.splits list.splits prod.splits if_splits)

lemma serial_new: "serial ops s (cl_shared (into_client s schedule))"
  by (simp add: serial_def into_client_def client_new_def fun_eq_iff)

section \<open>Calls of clients\<close>

text \<open>What any number of clones of a client can do to their runtime, in whatever order they call.\<close>

inductive calls :: "'e transport_ops \<Rightarrow> nat \<Rightarrow> 'e runtime \<Rightarrow> 'e runtime \<Rightarrow> bool" for ops bound where
  no_call: "calls ops bound x x"
| call_send: "calls ops bound x y \<Longrightarrow> runtime_send ops bound cmd y = (b, z) \<Longrightarrow> calls ops bound x z"
| call_try_send: "calls ops bound x y \<Longrightarrow> runtime_try_send ops bound cmd y = (r, z) \<Longrightarrow> calls ops bound x z"
| call_wait: "calls ops bound x y \<Longrightarrow> runtime_wait ops i y = Some (r, z) \<Longrightarrow> calls ops bound x z"
| call_sleep: "calls ops bound x y \<Longrightarrow> calls ops bound x (give_turn ops y)"

lemma serial_cong:
  "rt_accepted y = rt_accepted x \<Longrightarrow> core (rt_dispatcher y) = core (rt_dispatcher x) \<Longrightarrow> rt_exit y = rt_exit x \<Longrightarrow>
    rt_queue y = rt_queue x \<Longrightarrow> serial ops s y = serial ops s x"
  by (simp add: serial_def cong: option.case_cong)

lemma serial_turn: "serial ops s x \<Longrightarrow> serial ops s (give_turn ops x)"
proof -
  assume "serial ops s x"
  then have "serial ops s (x\<lparr>rt_schedule := ns\<rparr>)" for ns
    using serial_cong [of "x\<lparr>rt_schedule := ns\<rparr>" x ops s] by simp
  then show ?thesis
    using \<open>serial ops s x\<close> by (simp add: give_turn_def serial_run split: list.splits)
qed

lemma serial_accept: "serial ops s x \<Longrightarrow> rt_exit x = None \<Longrightarrow> serial ops s (accept cmd x)"
  unfolding serial_def accept_def by (elim exE conjE) (simp, blast)

lemma run_queue_bound: "length (rt_queue (run_queue ops n x)) \<le> length (rt_queue x)"
  by (induction ops n x rule: run_queue.induct) (force split: option.splits list.splits prod.splits)+

lemma give_turn_bound: "length (rt_queue (give_turn ops x)) \<le> length (rt_queue x)"
  using run_queue_bound [of ops _ "x\<lparr>rt_schedule := _\<rparr>"] by (auto simp: give_turn_def split: list.splits)

lemma calls_serial:
  assumes "calls ops bound x y" "serial ops s x" "length (rt_queue x) \<le> bound" "0 < bound"
  shows "serial ops s y \<and> length (rt_queue y) \<le> bound"
  using assms
proof (induction rule: calls.induct)
  case (call_send x y cmd b z)
  let ?y1 = "give_turn ops y"
  let ?y2 = "run_queue ops (Suc (length (rt_queue ?y1)) - bound) ?y1"
  have IH: "serial ops s y" "length (rt_queue y) \<le> bound"
    using call_send by simp_all
  then have y: "serial ops s ?y2" "length (rt_queue ?y1) \<le> bound"
    using serial_run [OF serial_turn] give_turn_bound [of ops y] by auto
  moreover have "length (rt_queue ?y2) \<le> bound"
    using y(2) run_queue_bound [of ops _ ?y1] by (rule order_trans [rotated])
  moreover have "rt_exit ?y2 = None \<Longrightarrow> length (rt_queue ?y2) < bound"
    using run_queue_length [of ops _ ?y1] \<open>0 < bound\<close> y(2) by simp
  ultimately show ?case
    using call_send.hyps(2) serial_accept [of ops s ?y2 cmd]
    by (auto simp: runtime_send_def Let_def accept_def split: if_splits)
next
  case (call_try_send x y cmd r z)
  let ?y1 = "give_turn ops y"
  have y: "serial ops s ?y1" "length (rt_queue ?y1) \<le> bound"
    using call_try_send serial_turn give_turn_bound [of ops y] by (auto intro: order_trans)
  then show ?case
    using call_try_send.hyps(2) serial_accept [of ops s ?y1 cmd]
    by (auto simp: runtime_try_send_def Let_def accept_def split: if_splits)
next
  case (call_wait x y i r z)
  let ?y1 = "run_queue ops (length (rt_queue y)) y"
  have y: "serial ops s ?y1" "length (rt_queue ?y1) \<le> bound"
    using call_wait by (simp_all add: serial_run order_trans [OF run_queue_bound])
  obtain d where "z = ?y1\<lparr>rt_dispatcher := d\<rparr>" "core d = core (rt_dispatcher ?y1)"
    using call_wait.hyps(2) by (auto simp: runtime_wait_def Let_def slot_wait_def core_def split: option.splits)
  then show ?case
    using y serial_cong [of z ?y1 ops s] by simp
next
  case (call_sleep x y)
  then show ?case
    using serial_turn give_turn_bound [of ops y] by (auto intro: order_trans)
qed auto

lemma calls_from_start:
  assumes "calls ops bound (cl_shared (into_client s schedule)) x" "0 < bound"
  shows "serial ops s x" "length (rt_queue x) \<le> bound"
  using calls_serial [OF assms(1) serial_new] assms(2) by (simp_all add: into_client_def client_new_def)

lemma serial_running:
  assumes "serial ops s x" "dispatch_all ops (rt_accepted x @ cs) (dispatcher_new s) = (Inr False, d)"
  shows "rt_exit x = None"
proof (cases "rt_exit x")
  case (Some q)
  then obtain ran unseen d0 where "rt_accepted x = ran @ unseen" "dispatch_all ops ran (dispatcher_new s) = (q, d0)" "q \<noteq> Inr False"
    using assms(1) by (auto simp: serial_def)
  then have "dispatch_all ops ran (dispatcher_new s) = (Inr False, snd (dispatch_all ops ran (dispatcher_new s))) \<longrightarrow> False"
    by simp
  moreover have "fst (dispatch_all ops ran (dispatcher_new s)) = Inr False"
    using assms(2) unfolding \<open>rt_accepted x = ran @ unseen\<close> append_assoc
    by (subst (asm) dispatch_all_append) (auto simp: act_then_def split: prod.splits sum.splits if_splits)
  ultimately show ?thesis
    by (metis prod.collapse)
qed simp

lemma serial_all_run:
  assumes "serial ops s x" "rt_exit x = None"
  obtains ran d where "rt_accepted x = ran @ rt_queue x" "dispatch_all ops ran (dispatcher_new s) = (Inr False, d)"
    "core d = core (rt_dispatcher x)"
  using assms by (auto simp: serial_def)

lemma loop_exit_core: "core d = core d' \<Longrightarrow> loop_exit ops r d = loop_exit ops r d'"
proof -
  assume "core d = core d'"
  then have same: "dp_session d = dp_session d'"
    by (simp add: core_def)
  show ?thesis
    unfolding loop_exit_def same ..
qed

lemma run_queue_stopped: "rt_exit x \<noteq> None \<Longrightarrow> run_queue ops n x = x"
  by (cases n) (auto split: option.splits list.splits)

lemma run_queue_add: "run_queue ops (m + n) x = run_queue ops n (run_queue ops m x)"
proof (induction ops m x rule: run_queue.induct)
  case (2 ops m x)
  show ?case
  proof (cases "rt_exit x = None \<and> rt_queue x \<noteq> []")
    case True
    then obtain cmd cmds r d where "rt_queue x = cmd # cmds" "dispatch_to_session ops cmd (rt_dispatcher x) = (r, d)" "rt_exit x = None"
      by (metis neq_Nil_conv prod.exhaust)
    then show ?thesis
      using "2.IH" by (simp add: run_queue_stopped)
  next
    case False
    then have stop: "run_queue ops k x = x" for k
      by (cases k) (auto split: option.splits list.splits)
    show ?thesis
      by (simp only: stop)
  qed
qed simp

section \<open>Properties\<close>

text \<open>
  C31 (equivalence). The dispatcher thread is a sequential machine: whatever clones of a client call, and
  however far the thread gets between their calls, the thread's result and the transport that joining it
  hands back are those of one sequential run of the commands the channel accepted, in the order it
  accepted them; and the channel never holds more than its bound.
\<close>

theorem runtime_serial:
  assumes "calls ops bound (cl_shared (into_client s schedule)) x" "0 < bound"
  shows "runtime_join ops x = fst (dispatcher_loop ops [rt_accepted x] s Map.empty) \<and> length (rt_queue x) \<le> bound"
proof -
  let ?y = "run_queue ops (length (rt_queue x)) x"
  note start = calls_from_start [OF assms]
  have y: "serial ops s ?y" "rt_accepted ?y = rt_accepted x"
    using start(1) by (simp_all add: serial_run)
  have loop: "fst (dispatcher_loop ops [rt_accepted x] s Map.empty)
      = (case dispatch_all ops (rt_accepted x) (dispatcher_new s) of (r, d) \<Rightarrow> loop_exit ops r d)"
    by (simp add: dispatcher_loop_def dispatcher_turns_flat dispatcher_new_def split: prod.splits)
  have "runtime_join ops x = fst (dispatcher_loop ops [rt_accepted x] s Map.empty)"
  proof (cases "rt_exit ?y")
    case None
    then have "rt_queue ?y = []"
      using run_queue_length [of ops "length (rt_queue x)" x] by simp
    then show ?thesis
      using serial_all_run [OF y(1) None] None loop loop_exit_core y(2)
      by (metis append_Nil2 case_prod_conv option.simps(4) runtime_join_def)
  next
    case (Some q)
    then obtain ran unseen d where d: "rt_accepted x = ran @ unseen" "dispatch_all ops ran (dispatcher_new s) = (q, d)"
      "core d = core (rt_dispatcher ?y)" "q \<noteq> Inr False"
      using y by (auto simp: serial_def)
    have "dispatch_all ops (rt_accepted x) (dispatcher_new s) = (q, d)"
      unfolding d(1) dispatch_all_append using d(2,4) by (cases q) (auto simp: act_then_def)
    then show ?thesis
      using Some loop loop_exit_core [OF d(3), of ops q] by (simp add: runtime_join_def Let_def)
  qed
  then show ?thesis
    using start(2) by simp
qed

theorem runtime_serial_witness:
  "\<exists>x. calls (mock_ops 0) 1 (cl_shared (into_client kbd_session [0, 1])) x \<and> rt_accepted x = [C_Control Flush] \<and>
     runtime_join (mock_ops 0) x = fst (dispatcher_loop (mock_ops 0) [[C_Control Flush]] kbd_session Map.empty)"
proof -
  let ?x = "cl_shared (into_client kbd_session [0, 1])"
  have "runtime_send (mock_ops 0) 1 (C_Control Flush) ?x = (True, accept (C_Control Flush) (?x\<lparr>rt_schedule := [1]\<rparr>))"
    by (simp add: runtime_send_def into_client_def client_new_def give_turn_def)
  then have c: "calls (mock_ops 0) 1 ?x (accept (C_Control Flush) (?x\<lparr>rt_schedule := [1]\<rparr>))"
    using calls.call_send [OF calls.no_call] by blast
  show ?thesis
    using runtime_serial [OF c] c by (intro exI conjI) (auto simp: accept_def into_client_def client_new_def)
qed

text \<open>
  C32 (liveness). The checked barrier of a client is answered: after any calls of any clones and any
  schedule, when the commands accepted so far and the barrier itself run without closing the session or
  panicking, \<open>flush_wait\<close> returns, with the very answer of the sequential run; by then every command
  accepted before it has been executed, and an answer \<open>Ok\<close> means that no error is pending and no byte is
  left in the writer's buffer.
\<close>

theorem flush_wait_exact:
  assumes "calls ops bound (cl_shared (into_client s schedule)) (cl_shared c)" "0 < bound"
    "dispatch_all ops (rt_accepted (cl_shared c) @ [C_Control (FlushAck (cl_next_seq c) (cl_next_slot c))]) (dispatcher_new s) = (Inr False, d)"
  shows "\<exists>r c'. client_flush_wait (runtime_endpoints ops bound) c = Some (map_sum Err id r, c') \<and>
    dp_slots d (cl_next_slot c) = Some r \<and> rt_queue (cl_shared c') = [] \<and>
    dp_session (rt_dispatcher (cl_shared c')) = dp_session d \<and> dp_pending_error (rt_dispatcher (cl_shared c')) = dp_pending_error d \<and>
    (\<forall>n. r = Inr n \<longrightarrow> dp_pending_error d = None \<and> cw_pending (hs_transport (dp_session d)) = [])"
proof -
  let ?i = "cl_next_slot c"
  let ?ack = "C_Control (FlushAck (cl_next_seq c) ?i)"
  let ?x = "cl_shared c"
  let ?x1 = "give_turn ops ?x"
  define x2 where "x2 = run_queue ops (Suc (length (rt_queue ?x1)) - bound) ?x1"
  define z where "z = accept ?ack x2"
  define v where "v = run_queue ops (length (rt_queue x2)) z"
  have start: "serial ops s ?x"
    by (rule calls_from_start [OF assms(1,2)])
  have x2: "serial ops s x2" "rt_accepted x2 = rt_accepted ?x"
    using start by (simp_all add: x2_def serial_run serial_turn)
  have "rt_exit x2 = None"
    using serial_running [OF x2(1)] x2(2) assms(3) by simp
  then have z: "serial ops s z" "rt_accepted z = rt_accepted ?x @ [?ack]" "rt_queue z = rt_queue x2 @ [?ack]"
    using serial_accept [OF x2(1)] x2(2) by (simp_all add: z_def accept_def)
  have v: "serial ops s v" "rt_accepted v = rt_accepted ?x @ [?ack]"
    using z by (simp_all add: v_def serial_run)
  have exit_v: "rt_exit v = None"
    using serial_running [OF v(1), of "[]" d] v(2) assms(3) by simp
  obtain ran d1 where ran: "rt_accepted v = ran @ rt_queue v" "dispatch_all ops ran (dispatcher_new s) = (Inr False, d1)"
    "core d1 = core (rt_dispatcher v)"
    by (rule serial_all_run [OF v(1) exit_v])
  have "length (rt_queue v) = 1"
    using run_queue_length [of ops "length (rt_queue x2)" z] exit_v z(3) by (simp add: v_def)
  then have q: "rt_queue v = [?ack]" "ran = rt_accepted ?x"
    using ran(1) v(2) by (cases "rt_queue v"; simp)+
  have d: "dispatch_to_session ops ?ack d1 = (Inr False, d)"
    using assms(3) ran(2) q(2) by (simp add: dispatch_all_append dispatch_all_one act_then_def del: dispatch_all.simps)
  obtain d2 where d2: "dispatch_to_session ops ?ack (rt_dispatcher v) = (Inr False, d2)" "core d2 = core d" "dp_slots d2 ?i = dp_slots d ?i"
    using core_dispatch [OF ran(3), of ops ?ack] d by (metis Inl_Inr_False fst_conv prod.collapse snd_conv)
  have w: "run_queue ops (length (rt_queue z)) z = v\<lparr>rt_queue := [], rt_dispatcher := d2\<rparr>"
    unfolding z(3) length_append run_queue_add v_def [symmetric] using q(1) exit_v d2(1) by simp
  obtain r0 s2 where flush: "session_flush_now ops (dp_session d1) = (r0, s2)"
    by fastforce
  have "r0 \<noteq> Inl Panicked"
    using d flush by (auto simp: dispatch_to_session_def dispatch_control_def dispatch_flush_ack_def)
  then obtain r where r: "dp_slots d ?i = Some r" "\<And>n. r = Inr n \<Longrightarrow> dp_pending_error d = None \<and> r0 = Inr n" "dp_session d = s2"
    using flush_ack_result [OF flush, of "cl_next_seq c" ?i] d by (cases r0 rule: res_cases) (auto split: option.splits)
  have "client_flush_wait (runtime_endpoints ops bound) c = Some (map_sum Err id r,
      c\<lparr>cl_next_seq := cl_next_seq c + 1, cl_next_slot := ?i + 1,
        cl_shared := v\<lparr>rt_queue := [], rt_dispatcher := d2\<lparr>dp_slots := (dp_slots d2)(?i := None)\<rparr>\<rparr>\<rparr>)"
    using \<open>rt_exit x2 = None\<close> w r(1) d2(3)
    by (simp add: client_flush_wait_def slot_new_def next_seq_def then_wait_def client_send_def runtime_endpoints_def
        runtime_send_def x2_def [symmetric] z_def [symmetric] wait_slot_def runtime_wait_def slot_wait_def Let_def)
  then show ?thesis
    using r d2(2) flush session_flush_empties [of ops "dp_session d1" _ s2] by (auto simp: core_def)
qed

theorem flush_wait_exact_witness:
  "\<exists>c'. client_flush_wait (runtime_endpoints (mock_ops 0) 4096) (into_client kbd_session []) = Some (Inr 0, c') \<and>
     rt_queue (cl_shared c') = []"
proof -
  let ?c = "into_client kbd_session []"
  let ?d = "dispatcher_new kbd_session\<lparr>dp_session := snd (session_flush_now (mock_ops 0) kbd_session), dp_slots := [0 \<mapsto> Inr 0]\<rparr>"
  have flush: "session_flush_now (mock_ops 0) kbd_session = (Inr 0, snd (session_flush_now (mock_ops 0) kbd_session))"
    by (simp add: kbd_session_def fresh_session_def kbd_only_def session_flush_now_def on_writer_def flush_now_def
        with_limits_def stamp_def cw_now_def mock_ops_def act_then_def split: prod.splits)
  have run: "dispatch_all (mock_ops 0) (rt_accepted (cl_shared ?c) @ [C_Control (FlushAck (cl_next_seq ?c) (cl_next_slot ?c))])
      (dispatcher_new kbd_session) = (Inr False, ?d)"
    unfolding into_client_def client_new_def
    by (simp add: dispatch_all_one del: dispatch_all.simps)
      (subst flush, simp add: dispatch_to_session_def dispatch_control_def dispatch_flush_ack_def slot_notify_def dispatcher_new_def,
        subst flush, simp add: slot_notify_def)
  show ?thesis
    using flush_wait_exact [where bound = 4096, OF calls.no_call _ run] by (simp add: into_client_def client_new_def) blast
qed

text \<open>
  C33 (refinement). Batchers lose, duplicate and reorder nothing. Over any channel, what the dispatcher is
  given followed by what a batcher still holds is at all times what has been pushed, in order: a push, a
  push of many frames or of a slice, blocking or not, adds exactly its frames when it succeeds and a prefix of them
  when it reports an error (the frames not yet stored are the caller's again), and a flush adds nothing and
  leaves the batcher empty when it succeeds. This holds for the batchers of touch, keyboard, Android key,
  mouse and scroll frames, and, for a client without the ring, for both batchers of gamepad frames at any batch
  size; new batchers are empty.
\<close>

theorem batchers_exact:
  assumes "command_channel ep sent"
  shows "exact_batcher (batch_wf TOUCH_BATCH_FRAMES (\<lambda>_. True)) (batch_contents (frames_sent touch_frames_of sent)) (\<lambda>s. fb_len (fst s))
      (touch_flush ep) (touch_push ep) (touch_push_many ep) (touch_push_many_slice ep) \<and>
    exact_batcher (batch_wf TOUCH_BATCH_FRAMES (\<lambda>_. True)) (batch_contents (frames_sent touch_frames_of sent)) (\<lambda>s. fb_len (fst s))
      (touch_try_flush ep) (touch_try_push ep) (touch_try_push_many ep) (touch_try_push_many_slice ep) \<and>
    exact_batcher (batch_wf KEYBOARD_BATCH_FRAMES (\<lambda>_. True)) (batch_contents (frames_sent key_frames_of sent)) (\<lambda>s. fb_len (fst s))
      (keyboard_flush ep) (keyboard_push ep) (keyboard_push_many ep) (keyboard_push_many_slice ep) \<and>
    exact_batcher (batch_wf KEYBOARD_BATCH_FRAMES (\<lambda>_. True)) (batch_contents (frames_sent key_frames_of sent)) (\<lambda>s. fb_len (fst s))
      (keyboard_try_flush ep) (keyboard_try_push ep) (keyboard_try_push_many ep) (keyboard_try_push_many_slice ep) \<and>
    exact_batcher (batch_wf ANDROID_KEY_BATCH_FRAMES (\<lambda>_. True)) (batch_contents (frames_sent android_frames_of sent)) (\<lambda>s. fb_len (fst s))
      (android_flush ep) (android_push ep) (android_push_many ep) (android_push_many_slice ep) \<and>
    exact_batcher (batch_wf ANDROID_KEY_BATCH_FRAMES (\<lambda>_. True)) (batch_contents (frames_sent android_frames_of sent)) (\<lambda>s. fb_len (fst s))
      (android_try_flush ep) (android_try_push ep) (android_try_push_many ep) (android_try_push_many_slice ep) \<and>
    exact_batcher (batch_wf MOUSE_BATCH_FRAMES (\<lambda>_. True)) (batch_contents (frames_sent mouse_frames_of sent)) (\<lambda>s. fb_len (fst s))
      (mouse_flush ep) (mouse_push ep) (mouse_push_many ep) (mouse_push_many_slice ep) \<and>
    exact_batcher (batch_wf MOUSE_BATCH_FRAMES (\<lambda>_. True)) (batch_contents (frames_sent mouse_frames_of sent)) (\<lambda>s. fb_len (fst s))
      (mouse_try_flush ep) (mouse_try_push ep) (mouse_try_push_many ep) (mouse_try_push_many_slice ep) \<and>
    exact_batcher (batch_wf SCROLL_BATCH_FRAMES (\<lambda>_. True)) (batch_contents (frames_sent scroll_frames_of sent)) (\<lambda>s. fb_len (fst s))
      (scroll_flush ep) (scroll_push ep) (scroll_push_many ep) (scroll_push_many_slice ep) \<and>
    exact_batcher (batch_wf SCROLL_BATCH_FRAMES (\<lambda>_. True)) (batch_contents (frames_sent scroll_frames_of sent)) (\<lambda>s. fb_len (fst s))
      (scroll_try_flush ep) (scroll_try_push ep) (scroll_try_push_many ep) (scroll_try_push_many_slice ep) \<and>
    exact_batcher (owned_wf (\<lambda>c. \<not> cl_gamepad_ring c)) (owned_contents (frames_sent gamepad_frames_of sent)) (\<lambda>s. owned_len (fst s))
      (gamepad_flush ep dedupe) (gamepad_push ep dedupe) (gamepad_push_many ep dedupe) (gamepad_push_many_slice ep dedupe) \<and>
    exact_batcher (owned_wf (\<lambda>c. \<not> cl_gamepad_ring c)) (owned_contents (frames_sent gamepad_frames_of sent)) (\<lambda>s. owned_len (fst s))
      (gamepad_try_flush ep dedupe) (gamepad_try_push ep dedupe) (gamepad_try_push_many ep dedupe) (gamepad_try_push_many_slice ep dedupe) \<and>
    exact_batcher (owned_wf (\<lambda>c. \<not> cl_gamepad_ring c)) (owned_contents (frames_sent packed_frames_of sent)) (\<lambda>s. owned_len (fst s))
      (packed_flush ep) (packed_push ep) (packed_push_many ep) (packed_push_many_slice ep) \<and>
    exact_batcher (owned_wf (\<lambda>c. \<not> cl_gamepad_ring c)) (owned_contents (frames_sent packed_frames_of sent)) (\<lambda>s. owned_len (fst s))
      (packed_try_flush ep) (packed_try_push ep) (packed_try_push_many ep) (packed_try_push_many_slice ep)"
  using command_channel.touch_batcher_exact [OF assms] command_channel.keyboard_batcher_exact [OF assms]
    command_channel.android_batcher_exact [OF assms] command_channel.mouse_batcher_exact [OF assms]
    command_channel.scroll_batcher_exact [OF assms] command_channel.gamepad_batcher_exact [OF assms, of dedupe]
    command_channel.packed_batcher_exact [OF assms]
  by (intro conjI)

theorem batchers_exact_witness:
  "exact_batcher (batch_wf TOUCH_BATCH_FRAMES (\<lambda>_. True)) (batch_contents (frames_sent touch_frames_of rt_accepted)) (\<lambda>s. fb_len (fst s))
     (touch_flush (runtime_endpoints (mock_ops 0) 4)) (touch_push (runtime_endpoints (mock_ops 0) 4))
     (touch_push_many (runtime_endpoints (mock_ops 0) 4)) (touch_push_many_slice (runtime_endpoints (mock_ops 0) 4))"
  using batchers_exact [OF runtime.command_channel_axioms [of "mock_ops 0" 4]] by blast

text \<open>A new batcher is in a good state and holds nothing.\<close>

lemma new_batchers_empty:
  "batch_wf TOUCH_BATCH_FRAMES (\<lambda>_. True) (touch_batcher_new, c) \<and> batch_contents (frames_sent touch_frames_of sent) (touch_batcher_new, c) = frames_sent touch_frames_of sent c \<and>
    batch_wf KEYBOARD_BATCH_FRAMES (\<lambda>_. True) (keyboard_batcher_new, c) \<and> batch_contents (frames_sent key_frames_of sent) (keyboard_batcher_new, c) = frames_sent key_frames_of sent c \<and>
    batch_wf ANDROID_KEY_BATCH_FRAMES (\<lambda>_. True) (android_batcher_new, c) \<and> batch_contents (frames_sent android_frames_of sent) (android_batcher_new, c) = frames_sent android_frames_of sent c \<and>
    batch_wf MOUSE_BATCH_FRAMES (\<lambda>_. True) (mouse_batcher_new, c) \<and> batch_contents (frames_sent mouse_frames_of sent) (mouse_batcher_new, c) = frames_sent mouse_frames_of sent c \<and>
    batch_wf SCROLL_BATCH_FRAMES (\<lambda>_. True) (scroll_batcher_new, c) \<and> batch_contents (frames_sent scroll_frames_of sent) (scroll_batcher_new, c) = frames_sent scroll_frames_of sent c \<and>
    (cl_gamepad_ring c \<or> owned_wf (\<lambda>c. \<not> cl_gamepad_ring c) (gamepad_batcher_new n, c)) \<and>
      owned_contents (frames_sent gamepad_frames_of sent) (gamepad_batcher_new n, c) = frames_sent gamepad_frames_of sent c \<and>
    (cl_gamepad_ring c \<or> owned_wf (\<lambda>c. \<not> cl_gamepad_ring c) (packed_batcher_new n, c)) \<and>
      owned_contents (frames_sent packed_frames_of sent) (packed_batcher_new n, c) = frames_sent packed_frames_of sent c"
  by (simp_all add: batch_wf_def batch_contents_def owned_wf_def owned_contents_def batch_new_def owned_new_def Let_def
      touch_batcher_new_def keyboard_batcher_new_def android_batcher_new_def mouse_batcher_new_def scroll_batcher_new_def gamepad_batcher_new_def packed_batcher_new_def)

text \<open>
  C34 (safety). The gestures of a client send their paths: when a tap, double tap, swipe, long press or
  three-finger gesture returns, the channel has been given a prefix of its path, and the whole path when it
  reports success, and nothing else that touches the screen; a gesture never panics; and a whole path presses no finger
  that is down, moves or lifts none that is up, and ends with all fingers lifted.
\<close>

theorem client_gestures_exact:
  assumes "command_channel ep sent" "client_gesture_exec ep g c = Some (r, c')"
  shows "(\<exists>n \<le> length (client_gesture_path g).
      frames_sent touch_frames_of sent c' = frames_sent touch_frames_of sent c @ take n (client_gesture_path g) \<and>
      (is_ok r \<longrightarrow> n = length (client_gesture_path g))) \<and> r \<noteq> Inl Panicked \<and>
    fingers (client_gesture_path g) {} = Some {}"
  using command_channel.gesture_adds [OF assms(1), of g] assms(2) client_path_balanced [of g]
  by (fastforce simp: waits_add_def outcome_def)

definition recorder :: "HidCommand list endpoints" where
  \<comment> \<open>a channel that takes everything, and whose barriers succeed\<close>
  "recorder = \<lparr>ep_send = (\<lambda>cmd x. (True, x @ [cmd])), ep_try_send = (\<lambda>cmd x. (Sent, x @ [cmd])), ep_wait = (\<lambda>i x. Some (Inr 0, x)),
     ep_ring_push = (\<lambda>f x. (Inl Full, x)), ep_store_close = id, ep_load_error = (\<lambda>x. False), ep_sleep = (\<lambda>d x. x)\<rparr>"

interpretation recorder: command_channel recorder "\<lambda>x. x"
  by unfold_locales (auto simp: recorder_def)

theorem client_gestures_exact_witness:
  "\<exists>c'. client_gesture_exec recorder (CG_Tap 0 3 4) (client_new [] False) = Some (Inr (), c') \<and>
    frames_sent touch_frames_of (\<lambda>x. x) c' = [press_at 0 3 4, lift_at 0 3 4] \<and> fingers [press_at 0 3 4, lift_at 0 3 4] {} = Some {}"
proof -
  obtain c' where run: "client_gesture_exec recorder (CG_Tap 0 3 4) (client_new [] False) = Some (Inr (), c')"
    by (simp add: client_tap_pointer_def with_touch_batch_def touch_down_def touch_up_def touch_push_def batch_push_def
        flush_if_full_def touch_batcher_new_def batch_new_def TOUCH_BATCH_FRAMES_def batch_store_def touch_flush_def batch_flush_def
        touch_batcher_drop_def touch_try_flush_def client_send_touch_batch_fixed_def client_send_def recorder_def client_new_def
        then_wait_def wait_void_def client_flush_wait_def slot_new_def next_seq_def wait_slot_def act_then_def Let_def)
  show ?thesis
    using client_gestures_exact [OF recorder.command_channel_axioms run] run
    by (simp add: frames_sent_def client_new_def)
qed

end
