(* ===== verification/Client_Ring.thy ===== *)
theory Client_Ring
  imports Client_Runtime
begin

text \<open>
  The gamepad runtime of \<open>into_client_with_gamepad_ring\<close> in \<^verbatim>\<open>src/src/client.rs\<close>: producer methods push
  into the ring, a consumer thread that owns the session takes the frames out, and the channel is a stub whose
  receiver is gone. Each call on something the threads share is a step of its own: \<open>pop\<close>, the load of the close
  flag and the store of the error flag, so that calls of the client fall between any two of them. A \<open>push\<close> and a
  \<open>pop\<close> are single steps on the queue of \<open>Gamepad_Ring\<close>, except that the load of \<open>head\<close> in \<open>pop\<close> may lag,
  as there: then \<open>pop\<close> finds nothing although frames are inside.
\<close>

section \<open>The consumer\<close>

datatype consumer_pc = \<comment> \<open>where the loop of \<open>gamepad_consumer_loop\<close> stands\<close>
    At_Pop
  | At_Frame GamepadFrameRaw \<comment> \<open>a frame was popped\<close>
  | At_Error \<comment> \<open>\<open>set_frame_raw\<close> has failed\<close>
  | At_Check \<comment> \<open>\<open>pop\<close> has found nothing, the close flag is not loaded yet\<close>

text \<open>
  \<open>rr_accepted\<close> and \<open>rr_taken\<close> record what went through the ring, \<open>rr_looked\<close> how many frames had been accepted
  when a \<open>pop\<close> last found nothing, and \<open>rr_lagged\<close> whether that \<open>pop\<close> missed frames.
\<close>

record 'e ring_runtime =
  rr_ring :: GamepadFrameRing
  rr_close :: bool
  rr_error :: bool
  rr_session :: "'e HidSession"
  rr_pc :: consumer_pc
  rr_exit :: "unit res option" \<comment> \<open>how the loop ended: by \<open>break\<close> or by a panic\<close>
  rr_schedule :: "bool list list" \<comment> \<open>the steps the loop makes before each of the next calls; \<open>False\<close> lets a load lag\<close>
  rr_accepted :: "GamepadFrameRaw list"
  rr_taken :: "GamepadFrameRaw list"
  rr_looked :: nat
  rr_lagged :: bool

definition into_client_with_gamepad_ring :: "'e HidSession \<Rightarrow> bool list list \<Rightarrow> 'e ring_runtime HidClient" where
  "into_client_with_gamepad_ring session schedule =
     client_new \<lparr>rr_ring = ring_new, rr_close = False, rr_error = False, rr_session = session, rr_pc = At_Pop, rr_exit = None,
       rr_schedule = schedule, rr_accepted = [], rr_taken = [], rr_looked = 0, rr_lagged = False\<rparr> True"

definition consume_frame :: "'e transport_ops \<Rightarrow> GamepadFrameRaw \<Rightarrow> ('e HidSession, unit) act" where
  "consume_frame ops f = set_frame_raw ops (gf_buttons f) (gf_left_x f) (gf_left_y f) (gf_right_x f) (gf_right_y f)
     (gf_left_trigger f) (gf_right_trigger f)"

definition found_nothing :: "'e ring_runtime \<Rightarrow> 'e ring_runtime" where
  "found_nothing x = x\<lparr>rr_pc := At_Check, rr_looked := length (rr_accepted x), rr_lagged := \<not> ring_is_empty (rr_ring x)\<rparr>"

definition consumer_step :: "'e transport_ops \<Rightarrow> bool \<Rightarrow> 'e ring_runtime \<Rightarrow> 'e ring_runtime" where
  \<comment> \<open>one step of the loop; a read of an unwritten slot would be undefined behaviour, which is kept apart as a panic\<close>
  "consumer_step ops current x =
     (if rr_exit x \<noteq> None then x
      else case rr_pc x of
        At_Pop \<Rightarrow>
          (case ring_pop (rr_ring x) of
             None \<Rightarrow> x\<lparr>rr_exit := Some (Inl Panicked)\<rparr>
           | Some (Some f, ring) \<Rightarrow>
               (if current then x\<lparr>rr_ring := ring, rr_taken := rr_taken x @ [f], rr_pc := At_Frame f\<rparr> else found_nothing x)
           | Some (None, _) \<Rightarrow> found_nothing x)
      | At_Frame f \<Rightarrow>
          (case consume_frame ops f (rr_session x) of
             (Inl Panicked, s) \<Rightarrow> x\<lparr>rr_session := s, rr_exit := Some (Inl Panicked)\<rparr>
           | (Inl (Err _), s) \<Rightarrow> x\<lparr>rr_session := s, rr_pc := At_Error\<rparr>
           | (Inr _, s) \<Rightarrow> x\<lparr>rr_session := s, rr_pc := At_Pop\<rparr>)
      | At_Error \<Rightarrow> x\<lparr>rr_error := True, rr_exit := Some (Inr ())\<rparr>
      | At_Check \<Rightarrow> if rr_close x then x\<lparr>rr_exit := Some (Inr ())\<rparr> else x\<lparr>rr_pc := At_Pop\<rparr>)"

fun consumer_run :: "'e transport_ops \<Rightarrow> bool list \<Rightarrow> 'e ring_runtime \<Rightarrow> 'e ring_runtime" where
  "consumer_run ops [] x = x"
| "consumer_run ops (b # bs) x = consumer_run ops bs (consumer_step ops b x)"

definition consumer_exit :: "'e transport_ops \<Rightarrow> unit res \<Rightarrow> 'e HidSession \<Rightarrow> unit res \<times> 'e" where
  "consumer_exit ops r session = (case r of
     Inl e \<Rightarrow> (Inl e, drop_session ops session)
   | Inr _ \<Rightarrow> (case act_ignore (session_close ops) session of
       (Inl e, s) \<Rightarrow> (Inl e, drop_session ops s)
     | (Inr _, s) \<Rightarrow> session_into_inner ops s))"

definition consumer_turn :: "'e transport_ops \<Rightarrow> 'e ring_runtime \<Rightarrow> 'e ring_runtime" where
  "consumer_turn ops x = (case rr_schedule x of [] \<Rightarrow> x | steps # rest \<Rightarrow> consumer_run ops steps (x\<lparr>rr_schedule := rest\<rparr>))"

definition shared_push :: "'e transport_ops \<Rightarrow> GamepadFrameRaw \<Rightarrow> 'e ring_runtime \<Rightarrow> (TryPushError + unit) \<times> 'e ring_runtime" where
  "shared_push ops f x =
     (let x = consumer_turn ops x in
      case ring_push f (rr_ring x) of
        (Inl e, ring) \<Rightarrow> (Inl e, x\<lparr>rr_ring := ring\<rparr>)
      | (Inr _, ring) \<Rightarrow> (Inr (), x\<lparr>rr_ring := ring, rr_accepted := rr_accepted x @ [f]\<rparr>))"

definition shared_close :: "'e transport_ops \<Rightarrow> 'e ring_runtime \<Rightarrow> 'e ring_runtime" where
  "shared_close ops x = (consumer_turn ops x)\<lparr>rr_close := True\<rparr>"

definition ring_endpoints :: "'e transport_ops \<Rightarrow> 'e ring_runtime endpoints" where
  \<comment> \<open>the receiver of the channel was dropped when the client was built\<close>
  "ring_endpoints ops =
     \<lparr>ep_send = (\<lambda>cmd x. (False, x)), ep_try_send = (\<lambda>cmd x. (Disconnected, x)), ep_wait = (\<lambda>i x. None),
      ep_ring_push = shared_push ops, ep_store_close = shared_close ops, ep_load_error = rr_error,
      ep_sleep = (\<lambda>d. consumer_turn ops)\<rparr>"

interpretation ring_channel: command_channel "ring_endpoints ops" "\<lambda>x. []" for ops
  by unfold_locales (auto simp: ring_endpoints_def)

section \<open>What the consumer has done\<close>

inductive ring_calls :: "'e transport_ops \<Rightarrow> 'e ring_runtime \<Rightarrow> 'e ring_runtime \<Rightarrow> bool" for ops where
  no_ring_call: "ring_calls ops x x"
| ring_call_push: "ring_calls ops x y \<Longrightarrow> shared_push ops f y = (r, z) \<Longrightarrow> ring_calls ops x z"
| ring_call_close: "ring_calls ops x y \<Longrightarrow> ring_calls ops x (shared_close ops y)"
| ring_call_sleep: "ring_calls ops x y \<Longrightarrow> ring_calls ops x (consumer_turn ops y)"

definition popped :: "'e ring_runtime \<Rightarrow> GamepadFrameRaw list" where
  \<comment> \<open>the frame in the hands of the consumer, not yet given to the session\<close>
  "popped x = (case rr_exit x of None \<Rightarrow> (case rr_pc x of At_Frame f \<Rightarrow> [f] | _ \<Rightarrow> []) | Some _ \<Rightarrow> [])"

definition outcome_ok :: "'e ring_runtime \<Rightarrow> unit res \<Rightarrow> bool" where
  \<comment> \<open>what the result of the last frame says about the thread\<close>
  "outcome_ok x r \<longleftrightarrow> (case rr_exit x of
     None \<Rightarrow> \<not> rr_error x \<and> (if rr_pc x = At_Error then \<exists>e. r = Inl (Err e) else r = Inr ())
   | Some (Inl e) \<Rightarrow> \<not> rr_error x \<and> r = Inl Panicked \<and> e = Panicked
   | Some (Inr _) \<Rightarrow> if rr_error x then \<exists>e. r = Inl (Err e) else r = Inr () \<and> rr_close x)"

definition consumed :: "'e transport_ops \<Rightarrow> 'e HidSession \<Rightarrow> 'e ring_runtime \<Rightarrow> bool" where
  \<comment> \<open>the frames taken out have been given to the session one after the other, up to the first failure\<close>
  "consumed ops s x \<longleftrightarrow> (\<exists>given r. rr_taken x = given @ popped x \<and> act_each (consume_frame ops) given s = (r, rr_session x) \<and>
     outcome_ok x r)"

definition looked_ok :: "'e ring_runtime \<Rightarrow> bool" where
  \<comment> \<open>past a \<open>pop\<close> that found nothing, everything accepted before it has been taken\<close>
  "looked_ok x \<longleftrightarrow> ((rr_pc x = At_Check \<or> rr_exit x = Some (Inr ()) \<and> \<not> rr_error x) \<and> \<not> rr_lagged x \<longrightarrow>
     rr_looked x = length (rr_taken x))"

definition ring_ok :: "'e transport_ops \<Rightarrow> 'e HidSession \<Rightarrow> 'e ring_runtime \<Rightarrow> bool" where
  "ring_ok ops s x \<longleftrightarrow> ring_inv (rr_ring x) \<and> rr_accepted x = rr_taken x @ ring_content (rr_ring x) \<and> consumed ops s x \<and> looked_ok x"

lemma act_each_snoc: "act_each f (xs @ [x]) s = (case act_each f xs s of (Inl e, s1) \<Rightarrow> (Inl e, s1) | (Inr _, s1) \<Rightarrow> f x s1)"
proof (induction xs arbitrary: s)
  case Nil
  show ?case
    by (auto simp: act_then_def split: prod.split sum.split)
qed (auto simp: act_then_def split: prod.split sum.split)

lemma empty_content: "ring_inv r \<Longrightarrow> ring_is_empty r \<longleftrightarrow> ring_content r = []"
  by (auto simp: ring_is_empty_def ring_len_def ring_content_def ring_inv_def unat_eq_zero min_def)

text \<open>A step from each position of the loop.\<close>

lemma step_exited [simp]: "rr_exit x = Some r \<Longrightarrow> consumer_step ops b x = x"
  by (simp add: consumer_step_def)

lemma pop_step_empty:
  assumes "ring_inv (rr_ring x)" "rr_exit x = None" "rr_pc x = At_Pop" "ring_content (rr_ring x) = [] \<or> \<not> b"
  shows "consumer_step ops b x = found_nothing x"
proof (cases "ring_content (rr_ring x)")
  case Nil
  then show ?thesis
    using assms ring_pop_empty by (simp add: consumer_step_def)
next
  case (Cons f fs)
  then show ?thesis
    using assms ring_pop_cons [OF assms(1) Cons] by (auto simp: consumer_step_def)
qed

lemma pop_step_cons:
  assumes "ring_inv (rr_ring x)" "rr_exit x = None" "rr_pc x = At_Pop" "ring_content (rr_ring x) = f # fs"
  obtains ring where "consumer_step ops True x = x\<lparr>rr_ring := ring, rr_taken := rr_taken x @ [f], rr_pc := At_Frame f\<rparr>"
    "ring_inv ring" "ring_content ring = fs"
  using assms ring_pop_cons [OF assms(1,4)] by (auto simp: consumer_step_def)

lemma consumer_step_ok:
  assumes "ring_ok ops s x"
  shows "ring_ok ops s (consumer_step ops b x)"
proof (cases "rr_exit x")
  case (Some r)
  then show ?thesis
    using assms by simp
next
  case None
  have inv: "ring_inv (rr_ring x)" "rr_accepted x = rr_taken x @ ring_content (rr_ring x)"
    using assms by (simp_all add: ring_ok_def)
  obtain given r where g: "rr_taken x = given @ popped x" "act_each (consume_frame ops) given s = (r, rr_session x)" "outcome_ok x r"
    using assms by (auto simp: ring_ok_def consumed_def)
  show ?thesis
  proof (cases "rr_pc x")
    case At_Pop
    show ?thesis
    proof (cases "ring_content (rr_ring x) = [] \<or> \<not> b")
      case True
      then have "consumer_step ops b x = found_nothing x"
        using pop_step_empty inv(1) None At_Pop by blast
      then show ?thesis
        using inv g At_Pop None empty_content [OF inv(1)]
        by (auto simp: ring_ok_def found_nothing_def consumed_def popped_def outcome_ok_def looked_ok_def)
    next
      case False
      then obtain f fs where fs: "ring_content (rr_ring x) = f # fs" b
        by (cases "ring_content (rr_ring x)") auto
      obtain ring where ring: "consumer_step ops b x = x\<lparr>rr_ring := ring, rr_taken := rr_taken x @ [f], rr_pc := At_Frame f\<rparr>"
        "ring_inv ring" "ring_content ring = fs"
        using pop_step_cons [OF inv(1) None At_Pop fs(1)] fs(2) by metis
      then show ?thesis
        using inv(2) g fs(1) At_Pop None by (auto simp: ring_ok_def consumed_def popped_def outcome_ok_def looked_ok_def)
    qed
  next
    case (At_Frame f)
    obtain r1 s1 where r1: "consume_frame ops f (rr_session x) = (r1, s1)"
      by fastforce
    have "act_each (consume_frame ops) (rr_taken x) s = (r1, s1)"
      using g r1 At_Frame None by (simp add: popped_def outcome_ok_def act_each_snoc)
    then show ?thesis
      using inv g(3) r1 At_Frame None
      by (cases r1 rule: res_cases) (auto simp: ring_ok_def consumed_def popped_def outcome_ok_def looked_ok_def consumer_step_def)
  next
    case At_Error
    then show ?thesis
      using inv g None by (auto simp: ring_ok_def consumed_def popped_def outcome_ok_def looked_ok_def consumer_step_def)
  next
    case At_Check
    then show ?thesis
      using inv g None assms by (auto simp: ring_ok_def consumed_def popped_def outcome_ok_def looked_ok_def consumer_step_def)
  qed
qed

lemma consumer_run_ok: "ring_ok ops s x \<Longrightarrow> ring_ok ops s (consumer_run ops bs x)"
  by (induction bs arbitrary: x) (simp_all add: consumer_step_ok)

lemma ring_ok_schedule: "ring_ok ops s x \<Longrightarrow> ring_ok ops s (x\<lparr>rr_schedule := ns\<rparr>)"
  by (simp add: ring_ok_def consumed_def looked_ok_def popped_def outcome_ok_def cong: option.case_cong sum.case_cong if_cong)

lemma consumer_turn_ok: "ring_ok ops s x \<Longrightarrow> ring_ok ops s (consumer_turn ops x)"
  by (simp add: consumer_turn_def consumer_run_ok ring_ok_schedule split: list.split)

lemma ring_ok_close: "ring_ok ops s x \<Longrightarrow> ring_ok ops s (x\<lparr>rr_close := True\<rparr>)"
  by (auto simp: ring_ok_def consumed_def looked_ok_def popped_def outcome_ok_def split: option.splits sum.splits if_splits)

lemma shared_close_ok: "ring_ok ops s x \<Longrightarrow> ring_ok ops s (shared_close ops x)"
  by (simp add: shared_close_def ring_ok_close consumer_turn_ok)

lemma ring_ok_pushed:
  assumes "ring_ok ops s x" "ring_inv ring" "ring_content ring = ring_content (rr_ring x) @ [f]"
  shows "ring_ok ops s (x\<lparr>rr_ring := ring, rr_accepted := rr_accepted x @ [f]\<rparr>)"
  using assms by (simp add: ring_ok_def consumed_def looked_ok_def popped_def outcome_ok_def cong: option.case_cong sum.case_cong if_cong)

lemma shared_push_ok:
  assumes "ring_ok ops s x" "shared_push ops f x = (r, y)"
  shows "ring_ok ops s y" "r = (if length (ring_content (rr_ring (consumer_turn ops x))) < 8 then Inr () else Inl Full)"
proof -
  let ?x = "consumer_turn ops x"
  have ok: "ring_inv (rr_ring ?x)" "ring_ok ops s ?x"
    using consumer_turn_ok [OF assms(1)] by (simp_all add: ring_ok_def)
  have "ring_ok ops s y \<and> r = (if length (ring_content (rr_ring ?x)) < 8 then Inr () else Inl Full)"
  proof (cases "length (ring_content (rr_ring ?x)) < 8")
    case True
    then obtain ring where "ring_push f (rr_ring ?x) = (Inr (), ring)" "ring_inv ring" "ring_content ring = ring_content (rr_ring ?x) @ [f]"
      using ring_push_room [OF ok(1)] by blast
    then show ?thesis
      using assms(2) ok(2) True ring_ok_pushed by (auto simp: shared_push_def Let_def)
  next
    case False
    then have "ring_push f (rr_ring ?x) = (Inl Full, rr_ring ?x)"
      using ring_push_full [OF ok(1)] by blast
    then show ?thesis
      using assms(2) ok(2) False by (auto simp: shared_push_def Let_def)
  qed
  then show "ring_ok ops s y" "r = (if length (ring_content (rr_ring ?x)) < 8 then Inr () else Inl Full)"
    by simp_all
qed

lemma ring_calls_ok: "ring_calls ops x y \<Longrightarrow> ring_ok ops s x \<Longrightarrow> ring_ok ops s y"
  by (induction rule: ring_calls.induct) (auto intro: shared_push_ok(1) shared_close_ok consumer_turn_ok)

lemma ring_start_ok: "ring_ok ops s (cl_shared (into_client_with_gamepad_ring s schedule))"
  by (simp add: ring_ok_def consumed_def looked_ok_def popped_def outcome_ok_def into_client_with_gamepad_ring_def client_new_def ring_new_inv)

lemma consumer_step_keeps [simp]:
  "rr_close (consumer_step ops b x) = rr_close x" "rr_accepted (consumer_step ops b x) = rr_accepted x"
  by (simp_all add: consumer_step_def found_nothing_def split: option.split sum.split fault.split prod.split consumer_pc.split)

lemma consumer_keeps [simp]:
  "rr_close (consumer_run ops bs x) = rr_close x" "rr_accepted (consumer_run ops bs x) = rr_accepted x"
  by (induction bs arbitrary: x) simp_all

lemma run_exited: "rr_exit x = Some r \<Longrightarrow> consumer_run ops bs x = x"
  by (induction bs) simp_all

text \<open>
  With the close flag set, a consumer that has not just found the ring empty takes what is in it and ends: two
  steps for a frame, two for the end, one for a frame it already holds.
\<close>

definition steps_left :: "'e ring_runtime \<Rightarrow> nat" where
  "steps_left x = 2 * length (ring_content (rr_ring x)) +
     (case rr_pc x of At_Pop \<Rightarrow> 2 | At_Frame f \<Rightarrow> 3 | At_Error \<Rightarrow> 1 | At_Check \<Rightarrow> 3)"

lemma consumer_ends:
  assumes "ring_ok ops s x" "rr_close x" "rr_exit x = None" "rr_pc x \<noteq> At_Check" "steps_left x \<le> n"
  shows "let y = consumer_run ops (replicate n True) x
    in rr_exit y \<noteq> None \<and> (rr_exit y = Some (Inr ()) \<and> \<not> rr_error y \<longrightarrow> rr_taken y = rr_accepted x)"
  using assms
proof (induction n arbitrary: x)
  case 0
  then show ?case
    by (simp add: steps_left_def split: consumer_pc.splits)
next
  case (Suc n)
  let ?x = "consumer_step ops True x"
  have ok: "ring_ok ops s ?x"
    using Suc.prems(1) by (rule consumer_step_ok)
  have inv: "ring_inv (rr_ring x)" "rr_accepted x = rr_taken x @ ring_content (rr_ring x)"
    using Suc.prems(1) by (simp_all add: ring_ok_def)
  have continue: ?case if "rr_exit ?x = None" "rr_pc ?x \<noteq> At_Check" "steps_left ?x \<le> n"
    using Suc.IH [OF ok _ that] Suc.prems(2) by simp
  have ended: ?case if "rr_exit ?x = Some r" "r = Inr () \<longrightarrow> rr_error ?x" for r
    using that run_exited [OF that(1)] by (auto simp: Let_def)
  show ?case
  proof (cases "rr_pc x")
    case At_Pop
    show ?thesis
    proof (cases "ring_content (rr_ring x)")
      case Nil
      then have "?x = found_nothing x" "1 \<le> n"
        using pop_step_empty [OF inv(1) Suc.prems(3) At_Pop] Suc.prems(5) At_Pop by (simp_all add: steps_left_def)
      moreover obtain m where "n = Suc m"
        using \<open>1 \<le> n\<close> by (cases n) simp_all
      moreover have "consumer_step ops True (found_nothing x) = (found_nothing x)\<lparr>rr_exit := Some (Inr ())\<rparr>"
        using Suc.prems(2,3) by (simp add: consumer_step_def found_nothing_def)
      ultimately have "consumer_run ops (replicate (Suc n) True) x = (found_nothing x)\<lparr>rr_exit := Some (Inr ())\<rparr>"
        by (simp add: run_exited)
      then show ?thesis
        using inv(2) Nil by (simp add: found_nothing_def Let_def)
    next
      case (Cons f fs)
      obtain ring where "?x = x\<lparr>rr_ring := ring, rr_taken := rr_taken x @ [f], rr_pc := At_Frame f\<rparr>" "ring_content ring = fs"
        using pop_step_cons [OF inv(1) Suc.prems(3) At_Pop Cons] by metis
      then show ?thesis
        using Suc.prems(3,5) At_Pop Cons by (intro continue) (simp_all add: steps_left_def)
    qed
  next
    case (At_Frame f)
    obtain r s1 where r: "consume_frame ops f (rr_session x) = (r, s1)"
      by fastforce
    show ?thesis
    proof (cases r rule: res_cases)
      case (1 e)
      then show ?thesis
        using r At_Frame Suc.prems(3,5) by (intro continue) (simp_all add: consumer_step_def steps_left_def)
    next
      case 2
      then show ?thesis
        using r At_Frame Suc.prems(3) by (intro ended [of "Inl Panicked"]) (simp_all add: consumer_step_def)
    next
      case (3 u)
      then show ?thesis
        using r At_Frame Suc.prems(3,5) by (intro continue) (simp_all add: consumer_step_def steps_left_def)
    qed
  next
    case At_Error
    then show ?thesis
      using Suc.prems(3) by (intro ended [of "Inr ()"]) (simp_all add: consumer_step_def)
  qed (use Suc.prems(4) in simp)
qed

section \<open>Properties\<close>

text \<open>
  C35 (liveness). What the gamepad runtime delivers, after any calls and any interleaving with the steps of
  its consumer: the frames the ring accepted are those the consumer has taken followed by those still in the
  ring, at most eight; the frames taken, but for one it has just popped, have been given to the
  session one after the other, in that order, up to the first failure, which alone raises the error flag, and no
  slot is read before it was written. When the loop has ended without a failure, and its last look at the ring did
  not lag, it has taken exactly the frames accepted before that \<open>pop\<close>. And once the close flag is set, the loop ends
  within two steps per frame and three more, if their loads are current, with every accepted frame delivered
  unless the session failed; except when the consumer had already found the ring empty and was about to load the flag: then it
  ends with its next step, and the frames accepted since that \<open>pop\<close> stay in the ring, lost.
\<close>

theorem ring_delivers:
  assumes "ring_calls ops (cl_shared (into_client_with_gamepad_ring s schedule)) x"
  shows "rr_accepted x = rr_taken x @ ring_content (rr_ring x) \<and> length (ring_content (rr_ring x)) \<le> 8 \<and>
    (\<exists>given r. rr_taken x = given @ popped x \<and> act_each (consume_frame ops) given s = (r, rr_session x) \<and> outcome_ok x r) \<and>
    (rr_exit x = Some (Inr ()) \<and> \<not> rr_error x \<and> \<not> rr_lagged x \<longrightarrow> rr_taken x = take (rr_looked x) (rr_accepted x)) \<and>
    (let y = consumer_run ops (replicate (2 * length (ring_content (rr_ring x)) + 3) True) x in
      rr_close x \<and> rr_exit x = None \<longrightarrow> rr_exit y \<noteq> None \<and>
        (rr_exit y = Some (Inr ()) \<and> \<not> rr_error y \<longrightarrow>
          rr_taken y = (if rr_pc x = At_Check then rr_taken x else rr_accepted x)))"
proof -
  have ok: "ring_ok ops s x"
    by (rule ring_calls_ok [OF assms ring_start_ok])
  let ?n = "2 * length (ring_content (rr_ring x)) + 3"
  let ?y = "consumer_run ops (replicate ?n True) x"
  have check: "?y = x\<lparr>rr_exit := Some (Inr ())\<rparr>" if "rr_close x" "rr_exit x = None" "rr_pc x = At_Check"
  proof -
    have "consumer_step ops True x = x\<lparr>rr_exit := Some (Inr ())\<rparr>"
      using that by (simp add: consumer_step_def)
    then show ?thesis
      by (simp add: numeral_3_eq_3 run_exited)
  qed
  have others: "rr_exit ?y \<noteq> None \<and> (rr_exit ?y = Some (Inr ()) \<and> \<not> rr_error ?y \<longrightarrow> rr_taken ?y = rr_accepted x)"
    if "rr_close x" "rr_exit x = None" "rr_pc x \<noteq> At_Check"
    using consumer_ends [OF ok that, of ?n] by (simp only: Let_def) (simp add: steps_left_def split: consumer_pc.split)
  have "rr_close x \<and> rr_exit x = None \<longrightarrow> rr_exit ?y \<noteq> None \<and> (rr_exit ?y = Some (Inr ()) \<and> \<not> rr_error ?y \<longrightarrow>
      rr_taken ?y = (if rr_pc x = At_Check then rr_taken x else rr_accepted x))"
    using check others by (cases "rr_pc x = At_Check") simp_all
  moreover have "length (ring_content (rr_ring x)) \<le> 8" "rr_accepted x = rr_taken x @ ring_content (rr_ring x)"
    using ok by (simp_all add: ring_ok_def ring_inv_def ring_content_def)
  moreover have "rr_exit x = Some (Inr ()) \<and> \<not> rr_error x \<and> \<not> rr_lagged x \<longrightarrow> rr_taken x = take (rr_looked x) (rr_accepted x)"
    using ok by (simp add: ring_ok_def looked_ok_def)
  ultimately show ?thesis
    using ok unfolding Let_def ring_ok_def consumed_def by blast
qed

theorem ring_delivers_witness:
  "\<exists>x. ring_calls (mock_ops 0) (cl_shared (into_client_with_gamepad_ring kbd_session [[], []])) x \<and> rr_close x \<and> rr_exit x = None \<and>
     rr_accepted x = [frame0] \<and> rr_taken x @ ring_content (rr_ring x) = [frame0] \<and>
     rr_exit (consumer_run (mock_ops 0) (replicate (2 * length (ring_content (rr_ring x)) + 3) True) x) \<noteq> None"
proof -
  let ?x = "cl_shared (into_client_with_gamepad_ring kbd_session [[], []])"
  obtain r y where y: "shared_push (mock_ops 0) frame0 ?x = (r, y)"
    by fastforce
  let ?z = "shared_close (mock_ops 0) y"
  have z: "ring_calls (mock_ops 0) ?x ?z"
    by (rule ring_call_close [OF ring_call_push [OF no_ring_call y]])
  have "rr_close ?z" "rr_exit ?z = None" "rr_accepted ?z = [frame0]"
    using y by (auto simp: shared_push_def shared_close_def consumer_turn_def into_client_with_gamepad_ring_def client_new_def
        ring_push_def ring_new_def Let_def)
  then show ?thesis
    using ring_delivers [OF z] z by (metis (no_types, lifting))
qed

section \<open>A frame pushed just before closing\<close>

text \<open>
  The loop looks at the ring before the close flag, so that a close right after a push should still deliver the
  frame. When the consumer has found the ring empty and the push and the close both come before it loads the
  flag, the frame was accepted and is never sent.
\<close>

lemma frame_lost_at_close:
  "\<exists>y. shared_push ops f (cl_shared (into_client_with_gamepad_ring s [[True], []])) = (Inr (), y) \<and>
     (let z = consumer_step ops True (shared_close ops y) in
      rr_exit z = Some (Inr ()) \<and> \<not> rr_error z \<and> rr_accepted z = [f] \<and> rr_taken z = [] \<and> ring_content (rr_ring z) = [f])"
proof -
  let ?x = "cl_shared (into_client_with_gamepad_ring s [[True], []])"
  obtain r y where y: "shared_push ops f ?x = (r, y)"
    by fastforce
  have "ring_ok ops s y"
    by (rule shared_push_ok(1) [OF ring_start_ok y])
  then have "rr_accepted y = rr_taken y @ ring_content (rr_ring y)"
    by (simp add: ring_ok_def)
  moreover have "r = Inr ()" "rr_pc y = At_Check" "rr_exit y = None" "\<not> rr_error y" "rr_schedule y = [[]]" "rr_accepted y = [f]" "rr_taken y = []"
    using y by (auto simp: shared_push_def consumer_turn_def consumer_step_def found_nothing_def into_client_with_gamepad_ring_def
        client_new_def ring_pop_def ring_push_def ring_new_def Let_def)
  ultimately show ?thesis
    using y by (intro exI [of _ y]) (simp add: shared_close_def consumer_turn_def consumer_step_def Let_def)
qed

section \<open>A full ring\<close>

text \<open>
  When the ring is full, the blocking send falls back to the channel, which has no receiver in this runtime:
  the caller gets \<open>DispatcherDown\<close> and the frame is not sent. After a failure, closing a session whose
  transport is broken fails too, and \<open>into_inner\<close> then panics.
\<close>

lemma full_ring_frame_lost:
  assumes "ring_ok ops s (cl_shared c)" "cl_gamepad_ring c" "length (ring_content (rr_ring (consumer_turn ops (cl_shared c)))) = 8"
  shows "\<exists>c'. client_send_frame (ring_endpoints ops) f c = (Inl (Err (DispatcherDown ''channel disconnected'')), c') \<and>
    rr_accepted (cl_shared c') = rr_accepted (cl_shared c)"
proof -
  have ok: "ring_inv (rr_ring (consumer_turn ops (cl_shared c)))"
    using consumer_turn_ok [OF assms(1)] by (simp add: ring_ok_def)
  have "ring_push f (rr_ring (consumer_turn ops (cl_shared c))) = (Inl Full, rr_ring (consumer_turn ops (cl_shared c)))"
    using ring_push_full [OF ok] assms(3) by simp
  moreover have "rr_accepted (consumer_turn ops y) = rr_accepted y" for y
    by (simp add: consumer_turn_def split: list.split)
  ultimately show ?thesis
    using assms(2) by (simp add: client_send_frame_def ring_push_shared_def ring_endpoints_def shared_push_def client_send_def Let_def)
qed

end
