(* ===== verification/Kernel_Wire.thy ===== *)
theory Kernel_Wire
  imports Kernel_Types "HOL-Library.Sublist"
begin

unbundle bit_operations_syntax

text \<open>
  The binary protocol of the device kernel (\<^verbatim>\<open>src/ai-device-kernel/src/protocol.rs\<close>): verbs, frame flags,
  request and reply payloads, the varint length and the frame codec. The postcard encoding of payloads
  is third-party code and a parameter (\<open>to_allocvec\<close>, \<open>from_bytes\<close>). \<open>usize\<close> is 64 bits wide here, because
  the length arithmetic of \<open>decode\<close> wraps around in the release profile.
\<close>

section \<open>Verbs and flags\<close>

datatype Verb = V_Action | V_Plan | V_Observe | V_Query | V_EndOfStream

primrec verb_byte :: "Verb \<Rightarrow> u8" where
  "verb_byte V_Action = 0x01"
| "verb_byte V_Plan = 0x02"
| "verb_byte V_Observe = 0x03"
| "verb_byte V_Query = 0x04"
| "verb_byte V_EndOfStream = 0x05"

definition verb_from_byte :: "u8 \<Rightarrow> Verb option" where
  "verb_from_byte b =
     (if b = 0x01 then Some V_Action
      else if b = 0x02 then Some V_Plan
      else if b = 0x03 then Some V_Observe
      else if b = 0x04 then Some V_Query
      else if b = 0x05 then Some V_EndOfStream
      else None)"

primrec verb_as_str :: "Verb \<Rightarrow> string" where
  "verb_as_str V_Action = ''action''"
| "verb_as_str V_Plan = ''plan''"
| "verb_as_str V_Observe = ''observe''"
| "verb_as_str V_Query = ''query''"
| "verb_as_str V_EndOfStream = ''end-of-stream''"

type_synonym FrameFlags = u8

definition IDEMPOTENT :: FrameFlags where "IDEMPOTENT = 0x80"
definition WAIT_GROUND_TRUTH :: FrameFlags where "WAIT_GROUND_TRUTH = 0x40"
definition CHECKPOINT_EVERY_N :: FrameFlags where "CHECKPOINT_EVERY_N = 0x20"
definition INCLUDES_FINAL_OBS :: FrameFlags where "INCLUDES_FINAL_OBS = 0x10"
definition COMPRESSED :: FrameFlags where "COMPRESSED = 0x08"
definition IS_ERROR :: FrameFlags where "IS_ERROR = 0x04"
definition IS_END_OF_STREAM :: FrameFlags where "IS_END_OF_STREAM = 0x02"
definition IS_CHECKPOINT :: FrameFlags where "IS_CHECKPOINT = 0x01"

definition flags_contains :: "FrameFlags \<Rightarrow> FrameFlags \<Rightarrow> bool" where
  "flags_contains f flag = (f AND flag = flag)"

definition flags_set :: "FrameFlags \<Rightarrow> FrameFlags \<Rightarrow> FrameFlags" where
  "flags_set flag f = f OR flag"

section \<open>Payloads\<close>

datatype RequestPayload =
    RQ_Action ActionId Action
  | RQ_Plan PlanId Plan
  | RQ_Observe u64 "EventKind list"
  | RQ_Query bool bool bool
  | RQ_EndOfStream

primrec request_verb :: "RequestPayload \<Rightarrow> Verb" where
  "request_verb (RQ_Action _ _) = V_Action"
| "request_verb (RQ_Plan _ _) = V_Plan"
| "request_verb (RQ_Observe _ _) = V_Observe"
| "request_verb (RQ_Query _ _ _) = V_Query"
| "request_verb RQ_EndOfStream = V_EndOfStream"

datatype ReplyPayload =
    RP_Action ActionResult
  | RP_Plan PlanResult
  | RP_Observation Observation
  | RP_Query Observation
  | RP_EndOfStream u64

primrec reply_verb :: "ReplyPayload \<Rightarrow> Verb" where
  "reply_verb (RP_Action _) = V_Action"
| "reply_verb (RP_Plan _) = V_Plan"
| "reply_verb (RP_Observation _) = V_Observe"
| "reply_verb (RP_Query _) = V_Query"
| "reply_verb (RP_EndOfStream _) = V_EndOfStream"

primrec is_end_of_stream :: "ReplyPayload \<Rightarrow> bool" where
  "is_end_of_stream (RP_Action _) = False"
| "is_end_of_stream (RP_Plan _) = False"
| "is_end_of_stream (RP_Observation _) = False"
| "is_end_of_stream (RP_Query _) = False"
| "is_end_of_stream (RP_EndOfStream _) = True"

section \<open>Varints\<close>

function varint_digits :: "u64 \<Rightarrow> nat" where
  \<comment> \<open>the loop of \<open>varint_size\<close>\<close>
  "varint_digits n = (if n > 0 then Suc (varint_digits (drop_bit 7 n)) else 0)"
  by pat_completeness auto

definition varint_size :: "u64 \<Rightarrow> nat" where
  "varint_size n = (if n = 0 then 1 else varint_digits n)"

function encode_varint :: "byte list \<Rightarrow> u64 \<Rightarrow> byte list" where
  "encode_varint buf n =
     (let b = (ucast (n AND 0x7F) :: u8); n = drop_bit 7 n
      in if n = 0 then buf @ [b] else encode_varint (buf @ [b OR 0x80]) n)"
  by pat_completeness auto

definition checked_shl :: "u64 \<Rightarrow> nat \<Rightarrow> u64 option" where
  "checked_shl v k = (if k < 64 then Some (push_bit k v) else None)"

fun decode_digits :: "nat \<Rightarrow> nat \<Rightarrow> u64 \<Rightarrow> byte list \<Rightarrow> (u64 \<times> nat) option" where
  \<comment> \<open>the loop of \<open>decode_varint\<close> at index \<open>i\<close>\<close>
  "decode_digits i shift result [] = None"
| "decode_digits i shift result (b # bs) =
     (let cont = (b AND 0x80 \<noteq> 0); value = ucast (b AND 0x7F)
      in case checked_shl value shift of
           None \<Rightarrow> None
         | Some v \<Rightarrow>
             let result = result OR v; shift = shift + 7
             in if \<not> cont then Some (result, i + 1)
                else if shift > 64 then None
                else decode_digits (i + 1) shift result bs)"

definition decode_varint :: "byte list \<Rightarrow> (u64 \<times> nat) option" where
  "decode_varint buf = decode_digits 0 0 0 buf"

section \<open>Frames\<close>

record Frame =
  fr_verb :: Verb
  fr_flags :: FrameFlags
  fr_payload :: "byte list"

definition request_frame :: "(RequestPayload \<Rightarrow> byte list option) \<Rightarrow> RequestPayload \<Rightarrow> Frame res" where
  "request_frame to_allocvec payload =
     (case to_allocvec payload of
        None \<Rightarrow> Inl Panicked
      | Some bytes \<Rightarrow> Inr \<lparr>fr_verb = request_verb payload, fr_flags = 0, fr_payload = bytes\<rparr>)"

definition reply_frame :: "(ReplyPayload \<Rightarrow> byte list option) \<Rightarrow> ReplyPayload \<Rightarrow> Frame res" where
  "reply_frame to_allocvec payload =
     (case to_allocvec payload of
        None \<Rightarrow> Inl Panicked
      | Some bytes \<Rightarrow>
          let flags = (if is_end_of_stream payload then flags_set IS_END_OF_STREAM 0 else 0)
          in Inr \<lparr>fr_verb = reply_verb payload, fr_flags = flags, fr_payload = bytes\<rparr>)"

definition encoded_size :: "Frame \<Rightarrow> u64" where
  "encoded_size f =
     (let n = of_nat (length (fr_payload f)) in 2 + of_nat (varint_size n) + n)"

definition kernel_frame_encode :: "Frame \<Rightarrow> byte list" where
  "kernel_frame_encode f =
     encode_varint [verb_byte (fr_verb f), fr_flags f] (of_nat (length (fr_payload f))) @ fr_payload f"

definition kernel_frame_decode :: "byte list \<Rightarrow> Frame option res" where
  "kernel_frame_decode buf =
     (if length buf < 2 then Inr None
      else case verb_from_byte (buf ! 0) of
        None \<Rightarrow> Inr None
      | Some verb \<Rightarrow> (case decode_varint (drop 2 buf) of
          None \<Rightarrow> Inr None
        | Some (payload_len, header_len) \<Rightarrow>
            let total = 2 + of_nat header_len + payload_len
            in if length buf < unat total then Inr None
               else if unat total < 2 + header_len then Inl Panicked
               else Inr (Some \<lparr>fr_verb = verb, fr_flags = buf ! 1,
                 fr_payload = drop (2 + header_len) (take (unat total) buf)\<rparr>)))"

definition decode_request :: "(byte list \<Rightarrow> 'e + RequestPayload) \<Rightarrow> Frame \<Rightarrow> 'e + RequestPayload" where
  "decode_request from_bytes f = from_bytes (fr_payload f)"

definition decode_reply :: "(byte list \<Rightarrow> 'e + ReplyPayload) \<Rightarrow> Frame \<Rightarrow> 'e + ReplyPayload" where
  "decode_reply from_bytes f = from_bytes (fr_payload f)"

section \<open>Termination of the varint loops\<close>

lemma drop_seven_less: "n \<noteq> 0 \<Longrightarrow> unat (drop_bit 7 n) < unat n" for n :: u64
  by (simp add: drop_bit_eq_div unat_div unat_gt_0 div_less_dividend)

termination varint_digits
  by (relation "measure unat") (auto simp: drop_seven_less word_gt_0)

termination encode_varint
  by (relation "measure (unat \<circ> snd)") (auto intro!: drop_seven_less)

declare varint_digits.simps [simp del] encode_varint.simps [simp del]

section \<open>Varints round trip\<close>

lemma varint_bits: "bit (0x7F :: int) i = (i < 7)" "bit (0x80 :: int) i = (i = 7)"
proof -
  have "(0x7F :: int) = mask 7" "(0x80 :: int) = push_bit 7 1"
    by (simp_all add: mask_eq_exp_minus_1)
  then show "bit (0x7F :: int) i = (i < 7)" "bit (0x80 :: int) i = (i = 7)"
    by (simp_all only: bit_mask_iff bit_push_bit_iff bit_1_iff) auto
qed

lemma push_drop_seven: "push_bit k (n AND 0x7F) OR push_bit (k + 7) (drop_bit 7 n) = push_bit k n" for n :: u64
proof (rule bit_word_eqI)
  fix i :: nat
  assume i: "i < LENGTH(64)"
  show "bit (push_bit k (n AND 0x7F) OR push_bit (k + 7) (drop_bit 7 n)) i = bit (push_bit k n) i"
  proof (cases "i - k < 7")
    case True
    with i show ?thesis by (auto simp: bit_simps varint_bits)
  next
    case False
    then have "k + 7 \<le> i" by simp
    then obtain j where "i = k + 7 + j" by (auto simp: le_iff_add)
    with i show ?thesis by (auto simp: bit_simps varint_bits)
  qed
qed

lemma low_byte:
  "ucast (ucast (n AND 0x7F :: u64) :: u8) = n AND 0x7F"
  "(ucast (n AND 0x7F :: u64) :: u8) AND 0x7F = ucast (n AND 0x7F)"
  "(ucast (n AND 0x7F :: u64) :: u8) AND 0x80 = 0"
  "((ucast (n AND 0x7F :: u64) :: u8) OR 0x80) AND 0x7F = ucast (n AND 0x7F)"
  "((ucast (n AND 0x7F :: u64) :: u8) OR 0x80) AND 0x80 = 0x80"
  by ((intro bit_word_eqI, auto simp: bit_simps varint_bits)[1])+

text \<open>What the encoder appends does not depend on what is there: one digit and the rest.\<close>

lemma encode_varint_unfold:
  "encode_varint buf n =
     (if drop_bit 7 n = 0 then buf @ [ucast (n AND 0x7F)]
      else encode_varint (buf @ [ucast (n AND 0x7F) OR 0x80]) (drop_bit 7 n))"
  by (subst encode_varint.simps) (simp only: Let_def)

lemma encode_varint_append: "encode_varint buf n = buf @ encode_varint [] n"
proof (induction n arbitrary: buf rule: varint_digits.induct)
  case (1 n)
  show ?case
  proof (cases "drop_bit 7 n = 0")
    case True
    then show ?thesis by (simp add: encode_varint_unfold [of _ n])
  next
    case False
    then have "0 < n" by (auto simp: word_gt_0)
    note IH = 1 [OF this]
    show ?thesis
      using IH [of "buf @ [ucast (n AND 0x7F) OR 0x80]"] IH [of "[ucast (n AND 0x7F) OR 0x80]"] False
      by (simp only: encode_varint_unfold [of _ n] if_False append_assoc append_Nil)
  qed
qed

lemma encode_varint_digits:
  "encode_varint [] n =
     (if drop_bit 7 n = 0 then [ucast (n AND 0x7F)]
      else (ucast (n AND 0x7F) OR 0x80) # encode_varint [] (drop_bit 7 n))"
  using encode_varint_append [of "[ucast (n AND 0x7F) OR 0x80]" "drop_bit 7 n"]
  by (simp only: encode_varint_unfold [of "[]" n] append_Nil append_Cons split: if_split)

lemma last_digit:
  assumes "drop_bit 7 n = 0"
  shows "ucast (ucast n AND 0x7F :: u8) = (n :: u64)" "ucast n AND (0x80 :: u8) = 0"
    "push_bit k n AND push_bit k 0x7F = push_bit k n"
proof -
  have "n AND 0x7F = n" using push_drop_seven [of 0 n] assms by simp
  with low_byte [of n] show "ucast (ucast n AND 0x7F :: u8) = n" "ucast n AND (0x80 :: u8) = 0"
    by simp_all
  show "push_bit k n AND push_bit k 0x7F = push_bit k n"
    using \<open>n AND 0x7F = n\<close> by (simp only: flip: push_bit_and)
qed

lemma decode_digits_encode:
  "unat n * 2 ^ (7 * i) < 2 ^ 64 \<Longrightarrow> i < 10 \<Longrightarrow>
   decode_digits i (7 * i) r (encode_varint [] n @ rest) =
     Some (r OR push_bit (7 * i) n, i + length (encode_varint [] n))"
proof (induction n arbitrary: i r rule: varint_digits.induct)
  case (1 n)
  show ?case
  proof (cases "drop_bit 7 n = 0")
    case True
    with 1(3) show ?thesis
      by (simp add: encode_varint_digits [of n] Let_def checked_shl_def last_digit)
  next
    case False
    then have pos: "0 < n" by (auto simp: word_gt_0)
    have d: "unat (drop_bit 7 n) = unat n div 128" by (simp add: drop_bit_eq_div unat_div)
    from False have "1 \<le> unat (drop_bit 7 n)" by (simp add: Suc_le_eq unat_gt_0)
    have "unat (drop_bit 7 n) * 2 ^ (7 * Suc i) \<le> unat n * 2 ^ (7 * i)"
      using div_times_less_eq_dividend [of "unat n" 128] by (simp add: d power_add)
    with 1(2) have b: "unat (drop_bit 7 n) * 2 ^ (7 * Suc i) < 2 ^ 64" by linarith
    have "(2 :: nat) ^ (7 * Suc i) \<le> unat (drop_bit 7 n) * 2 ^ (7 * Suc i)"
      using mult_le_mono1 [OF \<open>1 \<le> unat (drop_bit 7 n)\<close>, of "2 ^ (7 * Suc i)"] by simp
    with b have "(2 :: nat) ^ (7 * Suc i) < 2 ^ 64" by linarith
    then have i: "7 * Suc i < 64" by (simp only: power_strict_increasing_iff)
    have "decode_digits (Suc i) (7 * Suc i) (r OR push_bit (7 * i) (n AND 0x7F))
        (encode_varint [] (drop_bit 7 n) @ rest) =
      Some ((r OR push_bit (7 * i) (n AND 0x7F)) OR push_bit (7 * Suc i) (drop_bit 7 n),
        Suc i + length (encode_varint [] (drop_bit 7 n)))"
      using 1(1) [OF pos b] i by simp
    moreover have "push_bit (7 * i) n AND push_bit (7 * i) 0x7F OR push_bit (7 + 7 * i) (drop_bit 7 n) =
        push_bit (7 * i) n"
      using push_drop_seven [of "7 * i" n] by (simp add: push_bit_and add.commute)
    moreover have "(0x80 :: u8) \<noteq> 0" by simp
    ultimately show ?thesis
      using False i
      by (simp add: encode_varint_digits [of n] Let_def low_byte checked_shl_def add.commute or.assoc)
  qed
qed

lemma length_encode_varint: "length (encode_varint [] n) = varint_size n"
proof (induction n rule: varint_digits.induct)
  case (1 n)
  show ?case
  proof (cases "drop_bit 7 n = 0")
    case True
    then show ?thesis
      by (simp add: encode_varint_digits [of n] varint_size_def varint_digits.simps [of n]
          varint_digits.simps [of 0] word_gt_0)
  next
    case False
    then have "n \<noteq> 0" by auto
    with False 1 show ?thesis
      by (simp add: encode_varint_digits [of n] varint_size_def varint_digits.simps [of n] word_gt_0)
  qed
qed

lemma varint_roundtrip: "decode_varint (encode_varint [] n @ rest) = Some (n, varint_size n)"
  using decode_digits_encode [of n 0 0 rest] unsigned_less [of n]
  by (simp add: decode_varint_def length_encode_varint)

text \<open>A successful decode reads a proper prefix of at most ten bytes, whatever follows it.\<close>

lemma decode_digits_bounds:
  "decode_digits i (7 * i) r bs = Some (v, k) \<Longrightarrow> i < k \<and> k \<le> i + length bs \<and> k \<le> 10"
proof (induction bs arbitrary: i r)
  case (Cons b bs)
  have "7 * Suc i = 7 * i + 7" by simp
  note IH = Cons.IH [of "Suc i", unfolded this]
  from Cons.prems show ?case
    by (auto simp: Let_def checked_shl_def dest: IH split: if_splits)
qed simp

lemma decode_varint_bounds: "decode_varint bs = Some (v, k) \<Longrightarrow> 0 < k \<and> k \<le> length bs \<and> k \<le> 10"
  using decode_digits_bounds [of 0 0 bs v k] by (simp add: decode_varint_def)

lemma decode_digits_stable:
  "decode_digits i s r bs = Some (v, k) \<Longrightarrow> decode_digits i s r (bs @ rest) = Some (v, k)"
  by (induction bs arbitrary: i s r) (auto simp: Let_def split: if_splits option.splits)

lemma decode_varint_stable: "decode_varint bs = Some x \<Longrightarrow> decode_varint (bs @ rest) = Some x"
  by (cases x) (simp add: decode_varint_def decode_digits_stable)

lemma decode_varint_take:
  assumes "decode_varint bs = Some (v, k)"
  shows "decode_varint (take k bs) = Some (v, k)"
proof -
  have "decode_digits i s r bs = Some (v, j) \<Longrightarrow> i < j \<and> decode_digits i s r (take (j - i) bs) = Some (v, j)"
    for i s r v j
  proof (induction bs arbitrary: i s r)
    case (Cons b bs)
    have "i < j" using Cons.prems Cons.IH [of "Suc i"]
      by (force simp: Let_def split: if_splits option.splits)
    then obtain d where d: "j - i = Suc d" "j - Suc i = d" by (cases "j - i") auto
    from Cons.prems Cons.IH [of "Suc i"] d \<open>i < j\<close> show ?case
      by (auto simp: Let_def split: if_splits option.splits)
  qed simp
  from this [of 0 0 0 v k] assms show ?thesis by (simp add: decode_varint_def)
qed

section \<open>Frames round trip\<close>

text \<open>The header of a buffer: its verb, the declared payload length and the length of that field.\<close>

definition has_header :: "byte list \<Rightarrow> Verb \<Rightarrow> u64 \<Rightarrow> nat \<Rightarrow> bool" where
  "has_header buf v n k =
     (2 \<le> length buf \<and> verb_from_byte (buf ! 0) = Some v \<and> decode_varint (drop 2 buf) = Some (n, k))"

lemma has_headerE:
  assumes "has_header buf v n k"
  obtains "2 + k \<le> length buf" "0 < k" "k \<le> 10"
  using assms decode_varint_bounds [of "drop 2 buf" n k] by (auto simp: has_header_def)

lemma verb_of_byte [simp]: "verb_from_byte (verb_byte v) = Some v"
  by (cases v) (simp_all add: verb_from_byte_def)

lemma byte_of_verb: "verb_from_byte b = Some v \<Longrightarrow> b = verb_byte v"
  by (auto simp: verb_from_byte_def split: if_splits)

lemma frame_total:
  assumes "has_header buf v n k"
  shows "unat (2 + of_nat k + n) = (2 + k + unat n) mod 2 ^ 64"
proof -
  have "unat (of_nat k :: u64) = k"
    using assms by (elim has_headerE) (simp add: unat_of_nat)
  then show ?thesis by (simp add: unat_word_ariths mod_simps)
qed

lemma frame_decode_cases:
  assumes "has_header buf v n k"
  shows "kernel_frame_decode buf =
    (if 2 ^ 64 \<le> 2 + k + unat n then Inl Panicked
     else if length buf < 2 + k + unat n then Inr None
     else Inr (Some \<lparr>fr_verb = v, fr_flags = buf ! 1,
       fr_payload = take (unat n) (drop (2 + k) buf)\<rparr>))"
proof (cases "2 ^ 64 \<le> 2 + k + unat n")
  case True
  have n: "unat n < 2 ^ 64" using unsigned_less [of n] by simp
  from assms have k: "k \<le> 10" "2 + k \<le> length buf" by (auto elim: has_headerE)
  have "(2 + k + unat n) mod 2 ^ 64 = 2 + k + unat n - 2 ^ 64"
    using True n k by (subst le_mod_geq) simp_all
  then have t: "unat (2 + of_nat k + n) = 2 + k + unat n - 2 ^ 64"
    by (simp only: frame_total [OF assms])
  from assms True n k show ?thesis
    by (simp add: kernel_frame_decode_def has_header_def Let_def t not_less)
next
  case False
  then have "unat (2 + of_nat k + n) = 2 + k + unat n" by (simp add: frame_total [OF assms])
  with assms False show ?thesis
    by (simp add: kernel_frame_decode_def has_header_def Let_def take_drop add.commute)
qed

lemma frame_decode_headless:
  assumes "\<And>v n k. \<not> has_header buf v n k"
  shows "kernel_frame_decode buf = Inr None"
proof (cases "verb_from_byte (buf ! 0)")
  case (Some v)
  have "length buf < 2 \<or> decode_varint (drop 2 buf) = None"
  proof (cases "decode_varint (drop 2 buf)")
    case header: (Some p)
    with Some assms [of v "fst p" "snd p"] show ?thesis by (simp add: has_header_def)
  qed simp
  with Some show ?thesis by (auto simp: kernel_frame_decode_def)
qed (simp add: kernel_frame_decode_def)

lemma frame_header_encode:
  assumes "length (fr_payload f) < 2 ^ 64"
  shows "has_header (kernel_frame_encode f @ rest) (fr_verb f) (of_nat (length (fr_payload f)))
      (varint_size (of_nat (length (fr_payload f))))"
  by (simp add: has_header_def kernel_frame_encode_def varint_roundtrip
      encode_varint_append [of "[_, _]"])

lemma length_frame_encode:
  "length (kernel_frame_encode f) = 2 + varint_size (of_nat (length (fr_payload f))) + length (fr_payload f)"
  by (simp add: kernel_frame_encode_def encode_varint_append [of "[_, _]"] length_encode_varint)

lemma frame_decode_encode:
  assumes "length (kernel_frame_encode f) < 2 ^ 64"
  shows "kernel_frame_decode (kernel_frame_encode f @ rest) = Inr (Some f)"
proof -
  have n: "unat (of_nat (length (fr_payload f)) :: u64) = length (fr_payload f)"
    using assms by (simp add: length_frame_encode unat_of_nat)
  have h: "has_header (kernel_frame_encode f @ rest) (fr_verb f) (of_nat (length (fr_payload f)))
      (varint_size (of_nat (length (fr_payload f))))"
    using assms by (intro frame_header_encode) (simp add: length_frame_encode)
  show ?thesis
    using assms
    by (simp add: frame_decode_cases [OF h] n length_frame_encode)
      (simp add: kernel_frame_encode_def encode_varint_append [of "[_, _]"] length_encode_varint nth_append)
qed

text \<open>Reading a frame does not depend on the bytes behind it, so a longer buffer gives the same frame.\<close>

lemma has_header_append: "has_header buf v n k \<Longrightarrow> has_header (buf @ rest) v n k"
  by (auto simp: has_header_def nth_append decode_varint_stable)

lemma frame_decode_stable:
  assumes "kernel_frame_decode buf = Inr (Some f)"
  shows "kernel_frame_decode (buf @ rest) = Inr (Some f)"
proof -
  obtain v n k where h: "has_header buf v n k"
    using assms frame_decode_headless [of buf] by force
  then have "2 \<le> length buf" by (simp add: has_header_def)
  with assms show ?thesis
    by (auto simp: frame_decode_cases [OF h] frame_decode_cases [OF has_header_append [OF h]]
        nth_append split: if_splits)
qed

lemma frame_decode_length:
  assumes "kernel_frame_decode buf = Inr (Some f)"
  shows "\<exists>k. 2 + k + length (fr_payload f) \<le> length buf \<and>
    decode_varint (drop 2 buf) = Some (of_nat (length (fr_payload f)), k)"
proof -
  obtain v n k where h: "has_header buf v n k"
    using assms frame_decode_headless [of buf] by force
  with assms show ?thesis
    by (auto simp: frame_decode_cases [OF h] has_header_def split: if_splits)
qed

lemma frame_encode_partial:
  assumes "length (kernel_frame_encode f) < 2 ^ 64" and "strict_prefix part (kernel_frame_encode f)"
  shows "kernel_frame_decode part = Inr None"
proof (rule ccontr)
  assume "kernel_frame_decode part \<noteq> Inr None"
  then obtain v n k where h: "has_header part v n k"
    using frame_decode_headless by blast
  from assms(2) obtain missing where split: "kernel_frame_encode f = part @ missing" "missing \<noteq> []"
    by (auto simp: strict_prefix_def prefix_def)
  have len: "length (fr_payload f) < 2 ^ 64"
    using assms(1) by (simp add: length_frame_encode)
  from has_header_append [OF h, of missing] frame_header_encode [OF len, of "[]"]
  have "n = of_nat (length (fr_payload f))" "k = varint_size n"
    by (simp_all add: has_header_def split(1))
  moreover have "length part < length (kernel_frame_encode f)" by (simp add: split)
  ultimately have "kernel_frame_decode part = Inr None"
    using assms(1) by (simp add: frame_decode_cases [OF h] length_frame_encode unat_of_nat)
  with \<open>kernel_frame_decode part \<noteq> Inr None\<close> show False ..
qed

lemma encoded_size_exact:
  assumes "length (kernel_frame_encode f) < 2 ^ 64"
  shows "unat (encoded_size f) = length (kernel_frame_encode f)"
proof -
  have "encoded_size f = of_nat (length (kernel_frame_encode f))"
    by (simp add: encoded_size_def length_frame_encode Let_def)
  with assms show ?thesis by (simp add: unat_of_nat)
qed

text \<open>
  A frame comes back from its encoding whatever follows it in the buffer, \<open>encoded_size\<close>
  is the number of bytes, and no shorter part of the encoding is taken for a frame: \<open>decode\<close> asks for more.
\<close>

theorem kernel_frame_roundtrip:
  assumes "length (kernel_frame_encode f) < 2 ^ 64"
  shows "kernel_frame_decode (kernel_frame_encode f @ rest) = Inr (Some f) \<and>
    unat (encoded_size f) = length (kernel_frame_encode f) \<and>
    (\<forall>part. strict_prefix part (kernel_frame_encode f) \<longrightarrow> kernel_frame_decode part = Inr None)"
  using frame_decode_encode encoded_size_exact frame_encode_partial assms by blast

theorem kernel_frame_roundtrip_witness:
  "kernel_frame_decode ([0x04, 0x40, 3, 7, 8, 9] @ [1, 2]) =
     Inr (Some \<lparr>fr_verb = V_Query, fr_flags = WAIT_GROUND_TRUTH, fr_payload = [7, 8, 9]\<rparr>) \<and>
   kernel_frame_decode [0x04, 0x40, 3, 7, 8] = Inr None"
proof -
  let ?f = "\<lparr>fr_verb = V_Query, fr_flags = WAIT_GROUND_TRUTH, fr_payload = [7, 8, 9]\<rparr>"
  have e: "kernel_frame_encode ?f = [0x04, 0x40, 3, 7, 8, 9]"
    by (simp add: kernel_frame_encode_def WAIT_GROUND_TRUTH_def encode_varint.simps [of _ 3])
  have "strict_prefix [0x04, 0x40, 3, 7, 8 :: byte] [0x04, 0x40, 3, 7, 8, 9]" by simp
  then show ?thesis
    using kernel_frame_roundtrip [of ?f "[1, 2]"] by (simp add: e)
qed

text \<open>
  C36 (error). What \<open>decode\<close> makes of any buffer. A frame it returns is made of the bytes of the buffer: the
  verb and flag bytes, a length field and the payload behind it. It asks for more when there is no complete
  header or the declared payload is not all there. It panics exactly when the declared length is so large
  that the total wraps around.
\<close>

theorem kernel_frame_decode_exact:
  "case kernel_frame_decode buf of
     Inr (Some f) \<Rightarrow> (\<exists>field rest.
       buf = verb_byte (fr_verb f) # fr_flags f # field @ fr_payload f @ rest \<and>
       decode_varint field = Some (of_nat (length (fr_payload f)), length field) \<and>
       length (fr_payload f) < 2 ^ 64)
   | Inr None \<Rightarrow> (\<nexists>v n k. has_header buf v n k \<and> 2 + k + unat n \<le> length buf)
   | Inl e \<Rightarrow> e = Panicked \<and> (\<exists>v n k. has_header buf v n k \<and> 2 ^ 64 \<le> 2 + k + unat n)"
proof (cases "\<exists>v n k. has_header buf v n k")
  case False
  with frame_decode_headless [of buf] show ?thesis by simp
next
  case True
  then obtain v n k where h: "has_header buf v n k" by blast
  then have unique: "has_header buf v' n' k' \<longleftrightarrow> v' = v \<and> n' = n \<and> k' = k" for v' n' k'
    by (auto simp: has_header_def)
  have "drop 2 buf = take k (drop 2 buf) @ take (unat n) (drop (2 + k) buf) @ drop (2 + k + unat n) buf"
    using append_take_drop_id [of k "drop 2 buf"] append_take_drop_id [of "unat n" "drop (2 + k) buf"]
    by (simp only: drop_drop add.commute [of k] add.commute [of "unat n"])
  moreover have "buf = verb_byte v # buf ! 1 # drop 2 buf"
    using h byte_of_verb [of "buf ! 0" v]
    by (cases buf; cases "tl buf") (auto simp: has_header_def)
  ultimately have parts: "buf = verb_byte v # buf ! 1 # take k (drop 2 buf) @ take (unat n) (drop (2 + k) buf)
      @ drop (2 + k + unat n) buf"
    by simp
  have "2 + k \<le> length buf" using h by (rule has_headerE)
  then have "length (take k (drop 2 buf)) = k" by simp
  moreover have "decode_varint (take k (drop 2 buf)) = Some (n, k)"
    using h by (auto simp: has_header_def intro: decode_varint_take)
  moreover have "unat n < 2 ^ 64" using unsigned_less [of n] by simp
  ultimately show ?thesis
    using parts unique by (auto simp: frame_decode_cases [OF h])
qed

text \<open>A declared length of two to the 64th less one: the total wraps around to 11 and the slice panics.\<close>

lemma frame_decode_overflow: "kernel_frame_decode ([0x01, 0] @ replicate 9 0xFF @ [1]) = Inl Panicked"
  by code_simp

text \<open>A tenth digit is not checked: bits beyond the width are dropped, and the length reads as zero.\<close>

lemma varint_bits_lost: "decode_varint (replicate 9 0x80 @ [2]) = Some (0, 10)"
  by code_simp

section \<open>Messages round trip\<close>

definition request_through ::
    "(RequestPayload \<Rightarrow> byte list option) \<Rightarrow> (byte list \<Rightarrow> 'e + RequestPayload) \<Rightarrow> RequestPayload \<Rightarrow> bool" where
  \<comment> \<open>the documented behaviour of postcard: what it encodes it decodes\<close>
  "request_through to_allocvec from_bytes p =
     (case to_allocvec p of None \<Rightarrow> False | Some bs \<Rightarrow> from_bytes bs = Inr p \<and> length bs < 2 ^ 63)"

definition reply_through ::
    "(ReplyPayload \<Rightarrow> byte list option) \<Rightarrow> (byte list \<Rightarrow> 'e + ReplyPayload) \<Rightarrow> ReplyPayload \<Rightarrow> bool" where
  "reply_through to_allocvec from_bytes p =
     (case to_allocvec p of None \<Rightarrow> False | Some bs \<Rightarrow> from_bytes bs = Inr p \<and> length bs < 2 ^ 63)"

lemma varint_size_le: "varint_size n \<le> 10"
  using varint_roundtrip [of n "[]"] decode_varint_bounds by blast

lemma short_frame_roundtrip:
  assumes "length (fr_payload f) < 2 ^ 63"
  shows "kernel_frame_decode (kernel_frame_encode f @ rest) = Inr (Some f)"
  using assms varint_size_le [of "of_nat (length (fr_payload f))"]
  by (intro frame_decode_encode) (simp add: length_frame_encode)

text \<open>
  Both directions of the protocol: the peer that reads the bytes of a request or reply frame,
  with anything behind them, gets the payload back under the verb of that payload; and the frame is marked
  as the end of a stream exactly when the payload is the terminator.
\<close>

theorem kernel_message_roundtrip:
  assumes "request_through rq_enc rq_dec q" and "reply_through rp_enc rp_dec p"
  shows "(case request_frame rq_enc q of Inl _ \<Rightarrow> False | Inr f \<Rightarrow>
      kernel_frame_decode (kernel_frame_encode f @ rest) = Inr (Some f) \<and>
      decode_request rq_dec f = Inr q \<and> fr_verb f = request_verb q) \<and>
    (case reply_frame rp_enc p of Inl _ \<Rightarrow> False | Inr f \<Rightarrow>
      kernel_frame_decode (kernel_frame_encode f @ rest) = Inr (Some f) \<and>
      decode_reply rp_dec f = Inr p \<and> fr_verb f = reply_verb p \<and>
      flags_contains (fr_flags f) IS_END_OF_STREAM = is_end_of_stream p)"
proof (rule conjI)
  show "case request_frame rq_enc q of Inl _ \<Rightarrow> False | Inr f \<Rightarrow>
      kernel_frame_decode (kernel_frame_encode f @ rest) = Inr (Some f) \<and>
      decode_request rq_dec f = Inr q \<and> fr_verb f = request_verb q"
    using assms(1)
    by (auto simp: request_through_def request_frame_def decode_request_def short_frame_roundtrip
        split: option.splits)
  show "case reply_frame rp_enc p of Inl _ \<Rightarrow> False | Inr f \<Rightarrow>
      kernel_frame_decode (kernel_frame_encode f @ rest) = Inr (Some f) \<and>
      decode_reply rp_dec f = Inr p \<and> fr_verb f = reply_verb p \<and>
      flags_contains (fr_flags f) IS_END_OF_STREAM = is_end_of_stream p"
    using assms(2)
    by (auto simp: reply_through_def reply_frame_def decode_reply_def short_frame_roundtrip Let_def
        flags_contains_def flags_set_def IS_END_OF_STREAM_def split: option.splits)
qed

theorem kernel_message_roundtrip_witness:
  "kernel_frame_decode ([0x03, 0, 2, 2, 9] @ [7]) = Inr (Some \<lparr>fr_verb = V_Observe, fr_flags = 0, fr_payload = [2, 9]\<rparr>) \<and>
   kernel_frame_decode ([0x05, 2, 1, 4] @ [7]) = Inr (Some \<lparr>fr_verb = V_EndOfStream, fr_flags = 2, fr_payload = [4]\<rparr>)"
proof -
  let ?rq = "RQ_Observe 9 []" and ?rp = "RP_EndOfStream 4"
  show ?thesis
    using kernel_message_roundtrip [of "\<lambda>_. Some [2, 9]" "\<lambda>_. Inr ?rq :: unit + RequestPayload" ?rq
        "\<lambda>_. Some [4]" "\<lambda>_. Inr ?rp :: unit + ReplyPayload" ?rp "[7]"]
    by (simp add: request_through_def reply_through_def request_frame_def reply_frame_def
        kernel_frame_encode_def encode_varint.simps [of _ 2] encode_varint.simps [of _ 1]
        flags_set_def IS_END_OF_STREAM_def)
qed

end
