(* ===== verification/Kernel_Ui.thy ===== *)
theory Kernel_Ui
  imports Kernel_Predicates Kvs Utf8
begin

text \<open>
  \<^verbatim>\<open>src/ai-device-kernel/src/ui_repr.rs\<close>: the screen document that a language model is shown, its size
  estimate and its rendering as HTML. \<open>read_html\<close> is a reader of the rendered text: that it gives the document
  back means that no text on the screen can be taken for markup. A length in bytes is the length of the UTF-8
  encoding.
\<close>

definition lit :: "string \<Rightarrow> ustr" where
  \<comment> \<open>an ASCII literal\<close>
  "lit s = map of_char s"

section \<open>Documents\<close>

datatype UiReprClass =
    UC_Button | UC_EditText | UC_TextView | UC_ImageView | UC_Switch | UC_CheckBox | UC_Spinner | UC_ScrollView
  | UC_LinearLayout | UC_RelativeLayout | UC_WebView | UC_RecyclerView | UC_Other ustr

record UiReprNode =
  un_id :: "ustr option"
  un_class :: UiReprClass
  un_text :: "ustr option"
  un_content_desc :: "ustr option"
  un_interactive :: bool

record UiReprHtml =
  uh_screen :: ustr
  uh_screen_id :: "ScreenId option"
  uh_nodes :: "UiReprNode list"
  uh_truncated :: bool

definition str_len :: "ustr \<Rightarrow> nat" where
  \<comment> \<open>\<open>str::len\<close>\<close>
  "str_len s = length (as_bytes s)"

definition opt_size :: "ustr option \<Rightarrow> nat" where
  "opt_size v = (case v of None \<Rightarrow> 0 | Some s \<Rightarrow> str_len s + 4)"

definition approx_size :: "UiReprNode \<Rightarrow> nat" where
  "approx_size n = 32 + opt_size (un_id n) + opt_size (un_text n) + opt_size (un_content_desc n)"

definition approx_html_size :: "UiReprHtml \<Rightarrow> nat" where
  "approx_html_size d = foldl (\<lambda>n node. n + approx_size node) (str_len (uh_screen d) + 32) (uh_nodes d)"

definition class_table :: "(string \<times> UiReprClass) list" where
  "class_table =
     [(''Button'', UC_Button), (''EditText'', UC_EditText), (''TextView'', UC_TextView), (''ImageView'', UC_ImageView),
      (''Switch'', UC_Switch), (''CheckBox'', UC_CheckBox), (''Spinner'', UC_Spinner), (''ScrollView'', UC_ScrollView),
      (''LinearLayout'', UC_LinearLayout), (''RelativeLayout'', UC_RelativeLayout), (''WebView'', UC_WebView),
      (''RecyclerView'', UC_RecyclerView)]"

definition from_a11y_class :: "ustr \<Rightarrow> UiReprClass" where
  "from_a11y_class s =
     (let simple = rev (takeWhile (\<lambda>c. c \<noteq> 0x2E) (rev s))
      in case map_of (map (\<lambda>(name, c). (lit name, c)) class_table) simple of
           Some c \<Rightarrow> c | None \<Rightarrow> UC_Other simple)"

definition ui_encode :: "A11yTree \<Rightarrow> UiReprHtml" where
  "ui_encode tree =
     \<lparr>uh_screen = (case at_top_activity tree of Some a \<Rightarrow> a | None \<Rightarrow> []), uh_screen_id = None, uh_nodes = [],
      uh_truncated = False\<rparr>"

section \<open>Rendering\<close>

definition escape_char :: "nat \<Rightarrow> ustr" where
  "escape_char c =
     (if c = 0x26 then lit ''&amp;'' else if c = 0x3C then lit ''&lt;'' else if c = 0x3E then lit ''&gt;''
      else if c = QUOTE then lit ''&quot;'' else [c])"

definition escape_html :: "ustr \<Rightarrow> ustr" where
  "escape_html s = concat (map escape_char s)"

primrec node_class_name :: "UiReprClass \<Rightarrow> string" where
  "node_class_name UC_Button = ''button''"
| "node_class_name UC_EditText = ''edit''"
| "node_class_name UC_TextView = ''text''"
| "node_class_name UC_ImageView = ''img''"
| "node_class_name UC_Switch = ''switch''"
| "node_class_name UC_CheckBox = ''checkbox''"
| "node_class_name UC_Spinner = ''spinner''"
| "node_class_name UC_ScrollView = ''scroll''"
| "node_class_name UC_LinearLayout = ''linearlayout''"
| "node_class_name UC_RelativeLayout = ''relativelayout''"
| "node_class_name UC_WebView = ''webview''"
| "node_class_name UC_RecyclerView = ''recycler''"
| "node_class_name (UC_Other s) = ''node''"

definition attr_open :: "string \<Rightarrow> ustr" where
  "attr_open name = lit '' '' @ lit name @ lit ''='' @ [QUOTE]"

definition attr_html :: "string \<Rightarrow> ustr option \<Rightarrow> ustr" where
  "attr_html name v = (case v of None \<Rightarrow> [] | Some s \<Rightarrow> attr_open name @ escape_html s @ [QUOTE])"

definition other_class :: "UiReprClass \<Rightarrow> ustr option" where
  "other_class c = (case c of UC_Other s \<Rightarrow> Some s | _ \<Rightarrow> None)"

definition node_html :: "UiReprNode \<Rightarrow> ustr" where
  "node_html n =
     lit ''<'' @ lit (node_class_name (un_class n)) @ attr_html ''id'' (un_id n)
     @ attr_html ''class'' (other_class (un_class n)) @ attr_html ''text'' (un_text n)
     @ attr_html ''desc'' (un_content_desc n) @ (if un_interactive n then lit '' interactive'' else []) @ lit ''/>''"

definition to_html :: "UiReprHtml \<Rightarrow> ustr" where
  "to_html d =
     lit ''<screen pkg='' @ [QUOTE] @ escape_html (uh_screen d) @ [QUOTE] @ lit ''>''
     @ concat (map node_html (uh_nodes d)) @ (if uh_truncated d then lit ''<!-- truncated -->'' else [])
     @ lit ''</screen>''"

section \<open>Reading the rendered text\<close>

definition strip :: "ustr \<Rightarrow> ustr \<Rightarrow> ustr option" where
  "strip p s = (if take (length p) s = p then Some (drop (length p) s) else None)"

fun unescape :: "ustr \<Rightarrow> ustr" where
  "unescape [] = []"
| "unescape (c # s) =
     (if c \<noteq> 0x26 then c # unescape s
      else if take 4 s = lit ''amp;'' then 0x26 # unescape (drop 4 s)
      else if take 3 s = lit ''lt;'' then 0x3C # unescape (drop 3 s)
      else if take 3 s = lit ''gt;'' then 0x3E # unescape (drop 3 s)
      else QUOTE # unescape (drop 5 s))"

definition read_value :: "ustr \<Rightarrow> ustr \<times> ustr" where
  "read_value s = (unescape (takeWhile (\<lambda>c. c \<noteq> QUOTE) s), tl (dropWhile (\<lambda>c. c \<noteq> QUOTE) s))"

definition read_attr :: "string \<Rightarrow> ustr \<Rightarrow> ustr option \<times> ustr" where
  "read_attr name s = (case strip (attr_open name) s of
     None \<Rightarrow> (None, s) | Some r \<Rightarrow> (case read_value r of (v, r') \<Rightarrow> (Some v, r')))"

definition read_flag :: "ustr \<Rightarrow> ustr \<Rightarrow> bool \<times> ustr" where
  "read_flag word s = (case strip word s of None \<Rightarrow> (False, s) | Some r \<Rightarrow> (True, r))"

definition tag_class :: "ustr \<Rightarrow> ustr option \<Rightarrow> UiReprClass option" where
  "tag_class tag other = (case other of
     Some s \<Rightarrow> Some (UC_Other s)
   | None \<Rightarrow> map_of (map (\<lambda>(_, c). (lit (node_class_name c), c)) class_table) tag)"

definition read_node :: "ustr \<Rightarrow> (UiReprNode \<times> ustr) option" where
  "read_node s =
     Option.bind (strip (lit ''<'') s) (\<lambda>s1.
       let tag = takeWhile (\<lambda>c. c \<noteq> SPACE \<and> c \<noteq> 0x2F) s1; s2 = drop (length tag) s1
       in case read_attr ''id'' s2 of (i, s3) \<Rightarrow> case read_attr ''class'' s3 of (other, s4) \<Rightarrow>
          case read_attr ''text'' s4 of (t, s5) \<Rightarrow> case read_attr ''desc'' s5 of (d, s6) \<Rightarrow>
          case read_flag (lit '' interactive'') s6 of (interactive, s7) \<Rightarrow>
          Option.bind (tag_class tag other) (\<lambda>c.
            map_option (Pair \<lparr>un_id = i, un_class = c, un_text = t, un_content_desc = d, un_interactive = interactive\<rparr>)
              (strip (lit ''/>'') s7)))"

fun read_nodes :: "nat \<Rightarrow> ustr \<Rightarrow> UiReprNode list \<times> ustr" where
  "read_nodes 0 s = ([], s)"
| "read_nodes (Suc k) s = (case read_node s of
     None \<Rightarrow> ([], s)
   | Some (n, s') \<Rightarrow> (case read_nodes k s' of (ns, s'') \<Rightarrow> (n # ns, s'')))"

definition read_html :: "ustr \<Rightarrow> UiReprHtml option" where
  \<comment> \<open>the length of the text bounds the number of nodes\<close>
  "read_html s =
     Option.bind (strip (lit ''<screen pkg='' @ [QUOTE]) s) (\<lambda>s1. case read_value s1 of (screen, s2) \<Rightarrow>
     Option.bind (strip (lit ''>'') s2) (\<lambda>s3. case read_nodes (length s3) s3 of (nodes, s4) \<Rightarrow>
       case read_flag (lit ''<!-- truncated -->'') s4 of (truncated, s5) \<Rightarrow>
       if s5 = lit ''</screen>''
       then Some \<lparr>uh_screen = screen, uh_screen_id = None, uh_nodes = nodes, uh_truncated = truncated\<rparr>
       else None))"

section \<open>Escaped text\<close>

lemma strip_append [simp]: "strip p (p @ s) = Some s"
  by (simp add: strip_def)

lemma strip_twice: "strip (p @ q) (p @ q @ s) = Some s"
  using strip_append [of "p @ q" s] by simp

lemma lit_append: "lit (s @ t) = lit s @ lit t"
  by (simp add: lit_def)

lemma lit_simps [simp]: "lit [] = []" "lit (c # cs) = of_char c # lit cs"
  by (simp_all add: lit_def)

lemma unescape_escape: "unescape (escape_html s @ t) = s @ unescape t"
  by (induction s) (auto simp: escape_html_def escape_char_def)

lemma quote_free: "QUOTE \<notin> set (escape_html s)"
  by (induction s) (auto simp: escape_html_def escape_char_def)

lemma read_value_escape: "read_value (escape_html s @ QUOTE # rest) = (s, rest)"
proof -
  have "takeWhile (\<lambda>c. c \<noteq> QUOTE) (escape_html s @ QUOTE # rest) = escape_html s"
    "dropWhile (\<lambda>c. c \<noteq> QUOTE) (escape_html s @ QUOTE # rest) = QUOTE # rest"
    using quote_free [of s] by (auto simp: takeWhile_append dropWhile_append)
  then show ?thesis
    using unescape_escape [of s "[]"] by (simp add: read_value_def)
qed

lemma read_attr_html:
  assumes "v = None \<Longrightarrow> strip (attr_open name) rest = None"
  shows "read_attr name (attr_html name v @ rest) = (v, rest)"
  using assms by (cases v) (simp_all add: read_attr_def attr_html_def read_value_escape)

lemma read_flag_word: "(\<not> b \<Longrightarrow> strip word rest = None) \<Longrightarrow> read_flag word ((if b then word else []) @ rest) = (b, rest)"
  by (simp add: read_flag_def)

section \<open>Reading the document back\<close>

lemma attr_differs:
  "strip (attr_open ''id'') (attr_html ''class'' v @ r) = (if v = None then strip (attr_open ''id'') r else None)"
  "strip (attr_open ''id'') (attr_html ''text'' v @ r) = (if v = None then strip (attr_open ''id'') r else None)"
  "strip (attr_open ''id'') (attr_html ''desc'' v @ r) = (if v = None then strip (attr_open ''id'') r else None)"
  "strip (attr_open ''class'') (attr_html ''text'' v @ r) = (if v = None then strip (attr_open ''class'') r else None)"
  "strip (attr_open ''class'') (attr_html ''desc'' v @ r) = (if v = None then strip (attr_open ''class'') r else None)"
  "strip (attr_open ''text'') (attr_html ''desc'' v @ r) = (if v = None then strip (attr_open ''text'') r else None)"
  by (cases v; simp add: strip_def attr_open_def attr_html_def)+

definition node_end :: "bool \<Rightarrow> ustr \<Rightarrow> ustr" where
  "node_end b rest = (if b then lit '' interactive'' else []) @ lit ''/>'' @ rest"

lemma node_end_not_attr:
  "strip (attr_open ''id'') (node_end b rest) = None" "strip (attr_open ''class'') (node_end b rest) = None"
  "strip (attr_open ''text'') (node_end b rest) = None" "strip (attr_open ''desc'') (node_end b rest) = None"
  by (simp_all add: strip_def attr_open_def node_end_def)

lemma read_node_end: "read_flag (lit '' interactive'') (node_end b rest) = (b, lit ''/>'' @ rest)"
  unfolding node_end_def by (rule read_flag_word) (simp add: strip_def)

lemma attr_stop:
  assumes "\<exists>x xs. s = x # xs \<and> \<not> (x \<noteq> SPACE \<and> x \<noteq> 0x2F)"
  shows "\<exists>x xs. attr_html name v @ s = x # xs \<and> \<not> (x \<noteq> SPACE \<and> x \<noteq> 0x2F)"
  using assms by (cases v) (simp_all add: attr_html_def attr_open_def)

lemma tag_stop:
  assumes "s = attr_html ''id'' i @ attr_html ''class'' c @ attr_html ''text'' t @ attr_html ''desc'' d @ node_end b rest"
  shows "\<exists>x xs. s = x # xs \<and> \<not> (x \<noteq> SPACE \<and> x \<noteq> 0x2F)"
  unfolding assms
  by (intro attr_stop) (simp add: node_end_def)

lemma tag_plain: "takeWhile (\<lambda>c. c \<noteq> SPACE \<and> c \<noteq> 0x2F) (lit (node_class_name c)) = lit (node_class_name c)"
  by (cases c) simp_all

lemma take_tag:
  assumes "\<exists>x xs. s = x # xs \<and> \<not> (x \<noteq> SPACE \<and> x \<noteq> 0x2F)"
  shows "takeWhile (\<lambda>c. c \<noteq> SPACE \<and> c \<noteq> 0x2F) (lit (node_class_name c) @ s) = lit (node_class_name c)"
proof -
  have "\<forall>x \<in> set (lit (node_class_name c)). x \<noteq> SPACE \<and> x \<noteq> 0x2F"
    using tag_plain [of c] by (simp add: takeWhile_eq_all_conv)
  with assms show ?thesis by (auto simp: takeWhile_append)
qed

lemma tag_class_name: "tag_class (lit (node_class_name c)) (other_class c) = Some c"
  by (cases c) (simp_all add: tag_class_def other_class_def class_table_def)

lemma read_node_html: "read_node (node_html n @ rest) = Some (n, rest)"
proof -
  let ?attrs = "attr_html ''id'' (un_id n) @ attr_html ''class'' (other_class (un_class n)) @ attr_html ''text'' (un_text n)
     @ attr_html ''desc'' (un_content_desc n) @ node_end (un_interactive n) rest"
  have n: "node_html n @ rest = lit ''<'' @ lit (node_class_name (un_class n)) @ ?attrs"
    by (simp add: node_html_def node_end_def)
  note tag = take_tag [OF tag_stop [OF refl], of "un_class n"]
  show ?thesis
    unfolding read_node_def n
    by (simp add: tag read_attr_html attr_differs node_end_not_attr read_node_end tag_class_name Let_def
        del: lit_simps)
qed

lemma node_html_start: "node_html n = 0x3C # tl (node_html n)"
  by (simp add: node_html_def)

lemma read_node_markup:
  "read_node (lit ''</screen>'') = None" "read_node (lit ''<!-- truncated --></screen>'') = None"
  by code_simp+

lemma read_nodes_html:
  assumes "read_node rest = None" "length ns < k"
  shows "read_nodes k (concat (map node_html ns) @ rest) = (ns, rest)"
  using assms
proof (induction ns arbitrary: k)
  case Nil
  then show ?case by (cases k) simp_all
next
  case (Cons n ns)
  then show ?case by (cases k) (simp_all add: read_node_html)
qed

lemma nodes_length: "length ns \<le> length (concat (map node_html ns))"
proof (induction ns)
  case (Cons n ns)
  then show ?case by (subst list.map, subst concat.simps, subst node_html_start) simp
qed simp

text \<open>
  C39 (roundtrip). The rendered document determines the screen, its nodes with all their texts and the truncation
  mark: a reader gets them back, whatever the texts contain, so no text of an app can add or change a node.
\<close>

theorem html_roundtrip: "read_html (to_html d) = Some (d\<lparr>uh_screen_id := None\<rparr>)"
proof -
  define close where "close = (if uh_truncated d then lit ''<!-- truncated -->'' else []) @ lit ''</screen>''"
  have stop: "read_node close = None"
    using read_node_markup by (simp add: close_def flip: lit_append)
  have flag: "read_flag (lit ''<!-- truncated -->'') close = (uh_truncated d, lit ''</screen>'')"
    unfolding close_def by (rule read_flag_word) (simp add: strip_def)
  have "length (uh_nodes d) < length (concat (map node_html (uh_nodes d)) @ close)"
    using nodes_length [of "uh_nodes d"] by (simp add: close_def)
  note nodes = read_nodes_html [OF stop this]
  have "to_html d = lit ''<screen pkg='' @ [QUOTE] @ escape_html (uh_screen d) @ QUOTE # (lit ''>''
      @ (concat (map node_html (uh_nodes d)) @ close))"
    by (simp add: to_html_def close_def)
  then show ?thesis
    by (simp only: read_html_def strip_twice read_value_escape strip_append nodes flag bind.bind_lunit prod.case
        refl if_True) simp
qed

end
