(* ===== verification/Kernel_Bridge.thy ===== *)
theory Kernel_Bridge
  imports Kernel_Types Session_Life Session_Input Utf8
begin

text \<open>
  \<^verbatim>\<open>src/ai-device-kernel/src/bridge.rs\<close>: the injector that turns typed actions into the operations of a
  session. The private helpers change only the session and read the batch depth, so they are actions on
  the session with the depth as an argument; the injector threads the ids and the depth. An error of the
  session becomes a rejected outcome, a panic propagates. \<open>\<^verbatim>\<open>{:?}\<close>\<close> of a character is a parameter.
\<close>

section \<open>Error texts\<close>

fun decimal :: "nat \<Rightarrow> string" where
  "decimal n = (if n < 10 then [''0123456789'' ! n] else decimal (n div 10) @ [''0123456789'' ! (n mod 10)])"

fun lower_hex :: "nat \<Rightarrow> string" where
  "lower_hex n = (if n < 16 then [''0123456789abcdef'' ! n]
     else lower_hex (n div 16) @ [''0123456789abcdef'' ! (n mod 16)])"

primrec error_display :: "error \<Rightarrow> string" where
  "error_display (ScancodeOutOfRange c) = ''scancode 0x'' @ lower_hex (unat c) @ '' is out of HID keyboard range''"
| "error_display (ControlMessageTooLarge size_bytes max_bytes) =
     ''control message too large: '' @ decimal size_bytes @ '' bytes (max '' @ decimal max_bytes @ '')''"
| "error_display (NameTooLong n) = ''device name too long: '' @ decimal n @ '' bytes (max 127)''"
| "error_display (ReportDescTooLong n) = ''report descriptor too long: '' @ decimal n @ '' bytes (max 65535)''"
| "error_display (UnknownGamepad i) = ''unknown gamepad id '' @ decimal (unat i)"
| "error_display NoGamepadSlot = ''no free gamepad slot (max 8)''"
| "error_display (Transport why) = ''transport error: '' @ why"
| "error_display BufferFullCritical = ''control buffer full; cannot drop non-droppable message''"
| "error_display (SessionLifecycle why) = ''session lifecycle error: '' @ why"
| "error_display (PointerIdOutOfRange i m) =
     ''multitouch pointer id '' @ decimal (unat i) @ '' is out of range (max '' @ decimal (unat m) @ '')''"
| "error_display (PointerNotActive i) = ''multitouch pointer '' @ decimal (unat i) @ '' is not active''"
| "error_display (PointerAlreadyDown i) = ''multitouch pointer '' @ decimal (unat i) @ '' is already down''"
| "error_display (DispatcherDown why) = ''hid dispatcher not running: '' @ why"
| "error_display (AgentTimeout why) = ''agent wait timed out: '' @ why"

section \<open>Outcomes\<close>

record BridgeOutcome =
  bo_id :: ActionId
  bo_landed :: bool
  bo_elapsed :: nat \<comment> \<open>nanoseconds\<close>
  bo_error :: "string option"
  bo_code :: "AtomicErrorCode option"

definition outcome_ok :: "ActionId \<Rightarrow> nat \<Rightarrow> BridgeOutcome" where
  "outcome_ok i elapsed = \<lparr>bo_id = i, bo_landed = True, bo_elapsed = elapsed, bo_error = None, bo_code = None\<rparr>"

definition outcome_rejected :: "ActionId \<Rightarrow> AtomicErrorCode \<Rightarrow> string \<Rightarrow> BridgeOutcome" where
  "outcome_rejected i code reason = \<lparr>bo_id = i, bo_landed = False, bo_elapsed = 0,
     bo_error = Some (atomic_code_str code @ '': '' @ reason), bo_code = Some code\<rparr>"

definition outcome_retryable :: "BridgeOutcome \<Rightarrow> bool" where
  "outcome_retryable r = (case bo_code r of
     Some AtomicTimeout \<Rightarrow> True | Some KernelError \<Rightarrow> True | Some SelectorMiss \<Rightarrow> True | _ \<Rightarrow> False)"

primrec classify_session_error :: "error \<Rightarrow> AtomicErrorCode" where
  "classify_session_error (ControlMessageTooLarge _ _) = PermissionDenied"
| "classify_session_error (NameTooLong _) = PermissionDenied"
| "classify_session_error (ReportDescTooLong _) = PermissionDenied"
| "classify_session_error (ScancodeOutOfRange _) = PermissionDenied"
| "classify_session_error (PointerIdOutOfRange _ _) = PermissionDenied"
| "classify_session_error (UnknownGamepad _) = NotImplemented"
| "classify_session_error NoGamepadSlot = NotImplemented"
| "classify_session_error (SessionLifecycle _) = NotImplemented"
| "classify_session_error (PointerNotActive _) = NotImplemented"
| "classify_session_error (PointerAlreadyDown _) = NotImplemented"
| "classify_session_error BufferFullCritical = NotImplemented"
| "classify_session_error (DispatcherDown _) = NotImplemented"
| "classify_session_error (AgentTimeout _) = AtomicTimeout"
| "classify_session_error (Transport _) = KernelError"

definition reject_session :: "ActionId \<Rightarrow> error \<Rightarrow> BridgeOutcome" where
  "reject_session i e = outcome_rejected i (classify_session_error e) (error_display e)"

section \<open>Actions on the session\<close>

definition session_now :: "'e transport_ops \<Rightarrow> ('e HidSession, nat) act" where
  "session_now ops = on_writer (cw_now ops)"

definition or_reject ::
    "ActionId \<Rightarrow> ('e HidSession, unit) act \<Rightarrow> ('e HidSession, BridgeOutcome) act \<Rightarrow> ('e HidSession, BridgeOutcome) act" where
  \<comment> \<open>\<open>if let Err(e) = p { return reject_session(id, &e); }\<close>, then \<open>k\<close>\<close>
  "or_reject i p k s = (case p s of
     (Inl Panicked, s') \<Rightarrow> (Inl Panicked, s')
   | (Inl (Err e), s') \<Rightarrow> (Inr (reject_session i e), s')
   | (Inr _, s') \<Rightarrow> k s')"

definition bridge_done :: "'e transport_ops \<Rightarrow> ActionId \<Rightarrow> nat \<Rightarrow> ('e HidSession, BridgeOutcome) act" where
  \<comment> \<open>\<open>BridgeOutcome::ok(id, start.elapsed())\<close>; the elapsed time saturates\<close>
  "bridge_done ops i start = act_then (session_now ops) (\<lambda>t. act_ret (outcome_ok i (t - start)))"

definition maybe_flush :: "'e transport_ops \<Rightarrow> u32 \<Rightarrow> ('e HidSession, unit) act" where
  "maybe_flush ops depth = (if depth = 0 then act_void (session_flush_now ops) else act_ret ())"

definition bridge_tap ::
    "'e transport_ops \<Rightarrow> u32 \<Rightarrow> ActionId \<Rightarrow> nat \<Rightarrow> i32 \<Rightarrow> i32 \<Rightarrow> ('e HidSession, BridgeOutcome) act" where
  "bridge_tap ops depth i start x y =
     or_reject i (act_seq [inject_touch ops ACTION_DOWN 0 x y (Fin 1), inject_touch ops ACTION_UP 0 x y (Fin 0),
         maybe_flush ops depth])
       (bridge_done ops i start)"

definition unsigned_abs :: "i32 \<Rightarrow> u32" where
  "unsigned_abs x = (if sint x < 0 then - x else x)"

definition swipe_steps :: "i32 \<Rightarrow> i32 \<Rightarrow> i32 \<Rightarrow> i32 \<Rightarrow> u32 \<Rightarrow> u32" where
  "swipe_steps x1 y1 x2 y2 dur_ms =
     (let dx = unsigned_abs (x2 - x1); dy = unsigned_abs (y2 - y1); distance = max dx dy;
          time_steps = dur_ms div 16; dist_steps = distance div 40
      in min (max (max time_steps dist_steps) 2) 256)"

definition bridge_swipe ::
    "'e transport_ops \<Rightarrow> u32 \<Rightarrow> ActionId \<Rightarrow> nat \<Rightarrow> i32 \<Rightarrow> i32 \<Rightarrow> i32 \<Rightarrow> i32 \<Rightarrow> u32 \<Rightarrow> ('e HidSession, BridgeOutcome) act" where
  "bridge_swipe ops depth i start x1 y1 x2 y2 dur_ms =
     or_reject i (act_seq [session_swipe ops (x1, y1) (x2, y2) (swipe_steps x1 y1 x2 y2 dur_ms), maybe_flush ops depth])
       (bridge_done ops i start)"

fun type_chars ::
    "'e transport_ops \<Rightarrow> (nat \<Rightarrow> string) \<Rightarrow> ActionId \<Rightarrow> ustr \<Rightarrow> ('e HidSession, BridgeOutcome) act \<Rightarrow>
     ('e HidSession, BridgeOutcome) act" where
  "type_chars ops debug_char i [] k = k"
| "type_chars ops debug_char i (ch # chs) k =
     (case try_from_char ch of
        (None, _) \<Rightarrow> act_ret (outcome_rejected i PermissionDenied
           (''char '' @ debug_char ch @ '' has no US-QWERTY scancode; use SetClipboard + paste''))
      | (Some sc, mods) \<Rightarrow>
          or_reject i (session_key ops (to_u8 sc) True mods)
            (or_reject i (session_key ops (to_u8 sc) False mods)
              (type_chars ops debug_char i chs k)))"

definition bridge_type_text ::
    "'e transport_ops \<Rightarrow> (nat \<Rightarrow> string) \<Rightarrow> u32 \<Rightarrow> ActionId \<Rightarrow> nat \<Rightarrow> ustr \<Rightarrow> ('e HidSession, BridgeOutcome) act" where
  "bridge_type_text ops debug_char depth i start t =
     type_chars ops debug_char i t (or_reject i (maybe_flush ops depth) (bridge_done ops i start))"

definition bridge_press_key ::
    "'e transport_ops \<Rightarrow> u32 \<Rightarrow> ActionId \<Rightarrow> nat \<Rightarrow> u32 \<Rightarrow> ('e HidSession, BridgeOutcome) act" where
  "bridge_press_key ops depth i start code =
     or_reject i (act_seq [session_inject_keycode ops KEY_DOWN code 0 0, session_inject_keycode ops KEY_UP code 0 0,
         maybe_flush ops depth])
       (bridge_done ops i start)"

definition bridge_gamepad_frame ::
    "'e transport_ops \<Rightarrow> u32 \<Rightarrow> ActionId \<Rightarrow> nat \<Rightarrow> byte list \<Rightarrow> ('e HidSession, BridgeOutcome) act" where
  "bridge_gamepad_frame ops depth i start report =
     or_reject i (act_seq [inject_raw_gamepad_report ops report, maybe_flush ops depth]) (bridge_done ops i start)"

definition bridge_launch ::
    "'e transport_ops \<Rightarrow> u32 \<Rightarrow> ActionId \<Rightarrow> nat \<Rightarrow> ustr \<Rightarrow> ('e HidSession, BridgeOutcome) act" where
  "bridge_launch ops depth i start target =
     or_reject i (act_seq [launch_app ops (as_bytes target), maybe_flush ops depth]) (bridge_done ops i start)"

definition bridge_set_clipboard ::
    "'e transport_ops \<Rightarrow> u32 \<Rightarrow> ActionId \<Rightarrow> nat \<Rightarrow> ustr \<Rightarrow> bool \<Rightarrow> ('e HidSession, BridgeOutcome) act" where
  "bridge_set_clipboard ops depth i start t paste =
     or_reject i (act_seq [session_set_clipboard ops (as_bytes t) paste, maybe_flush ops depth])
       (bridge_done ops i start)"

definition bridge_inject_raw ::
    "'e transport_ops \<Rightarrow> u32 \<Rightarrow> ActionId \<Rightarrow> nat \<Rightarrow> byte list \<Rightarrow> ('e HidSession, BridgeOutcome) act" where
  "bridge_inject_raw ops depth i start bytes =
     or_reject i (act_seq [inject_raw_gamepad_report ops bytes, maybe_flush ops depth]) (bridge_done ops i start)"

definition needs_resolver :: "ActionId \<Rightarrow> ('e HidSession, BridgeOutcome) act" where
  "needs_resolver i = act_ret (outcome_rejected i NotImplemented
     ''action requires daemon-side resolver or custom wire path; route via protocol::Frame::request'')"

primrec bridge_action ::
    "'e transport_ops \<Rightarrow> (nat \<Rightarrow> string) \<Rightarrow> u32 \<Rightarrow> ActionId \<Rightarrow> nat \<Rightarrow> Action \<Rightarrow> ('e HidSession, BridgeOutcome) act" where
  \<comment> \<open>the \<open>match\<close> of \<open>apply\<close>\<close>
  "bridge_action ops dbg depth i start (A_Tap x y _) = bridge_tap ops depth i start x y"
| "bridge_action ops dbg depth i start (A_Swipe x1 y1 x2 y2 dur_ms _) = bridge_swipe ops depth i start x1 y1 x2 y2 dur_ms"
| "bridge_action ops dbg depth i start (A_TypeText t _) = bridge_type_text ops dbg depth i start t"
| "bridge_action ops dbg depth i start (A_Key code _) = bridge_press_key ops depth i start code"
| "bridge_action ops dbg depth i start (A_GamepadFrame report _) = bridge_gamepad_frame ops depth i start report"
| "bridge_action ops dbg depth i start (A_Launch target _ _) = bridge_launch ops depth i start target"
| "bridge_action ops dbg depth i start (A_SetClipboard t paste _) = bridge_set_clipboard ops depth i start t paste"
| "bridge_action ops dbg depth i start (A_InjectRaw bytes _) = bridge_inject_raw ops depth i start bytes"
| "bridge_action ops dbg depth i start (A_TapSelector _ _) = needs_resolver i"
| "bridge_action ops dbg depth i start (A_Wait _ _) = needs_resolver i"
| "bridge_action ops dbg depth i start (A_GetUiRepr _ _) = needs_resolver i"
| "bridge_action ops dbg depth i start (A_DumpObservation _ _) = needs_resolver i"
| "bridge_action ops dbg depth i start (A_LocalizeText _ _ _) = needs_resolver i"
| "bridge_action ops dbg depth i start (A_DetectElement _ _ _ _) = needs_resolver i"
| "bridge_action ops dbg depth i start (A_Ground _ _ _) = needs_resolver i"
| "bridge_action ops dbg depth i start (A_AskVisual _ _ _) = needs_resolver i"

section \<open>The injector\<close>

record 'e ActionInjector =
  in_session :: "'e HidSession"
  in_next_id :: u64
  in_batch_depth :: u32

definition injector_open :: "'e transport_ops \<Rightarrow> 'e \<Rightarrow> OpenRequest \<Rightarrow> (fault \<times> 'e) + 'e ActionInjector" where
  "injector_open ops t req = map_sum id (\<lambda>s. \<lparr>in_session = s, in_next_id = 0, in_batch_depth = 0\<rparr>) (session_open ops t req)"

definition injector_open_default :: "'e transport_ops \<Rightarrow> 'e \<Rightarrow> (fault \<times> 'e) + 'e ActionInjector" where
  "injector_open_default ops t = injector_open ops t request_none"

definition in_on_session :: "('e HidSession, 'a) act \<Rightarrow> ('e ActionInjector, 'a) act" where
  "in_on_session p j = (case p (in_session j) of (r, s) \<Rightarrow> (r, j\<lparr>in_session := s\<rparr>))"

definition injector_apply ::
    "'e transport_ops \<Rightarrow> (nat \<Rightarrow> string) \<Rightarrow> Action \<Rightarrow> ('e ActionInjector, BridgeOutcome) act" where
  "injector_apply ops dbg a j =
     (let i = in_next_id j
      in act_then (in_on_session (session_now ops))
           (\<lambda>start. in_on_session (bridge_action ops dbg (in_batch_depth j) i start a))
           (j\<lparr>in_next_id := i + 1\<rparr>))"

fun apply_each ::
    "'e transport_ops \<Rightarrow> (nat \<Rightarrow> string) \<Rightarrow> Action list \<Rightarrow> BridgeOutcome list \<Rightarrow>
     ('e ActionInjector, BridgeOutcome list \<times> nat option) act" where
  \<comment> \<open>the loop of \<open>apply_many\<close>: the outcomes so far, then the index of the failure that stopped it\<close>
  "apply_each ops dbg [] outcomes = act_ret (outcomes, None)"
| "apply_each ops dbg (a # as) outcomes =
     act_then (injector_apply ops dbg a) (\<lambda>r.
       if \<not> bo_landed r then act_ret (outcomes @ [r], Some (length outcomes))
       else apply_each ops dbg as (outcomes @ [r]))"

definition saturating_succ :: "u32 \<Rightarrow> u32" where
  "saturating_succ d = (if d = - 1 then d else d + 1)"

definition saturating_pred :: "u32 \<Rightarrow> u32" where
  "saturating_pred d = (if d = 0 then 0 else d - 1)"

definition terminal_flush ::
    "'e transport_ops \<Rightarrow> BridgeOutcome list \<times> nat option \<Rightarrow> ('e ActionInjector, BridgeOutcome list \<times> nat option) act" where
  "terminal_flush ops res j =
     (case res of (outcomes, failure) \<Rightarrow>
      if in_batch_depth j \<noteq> 0 then (Inr (outcomes, failure), j)
      else case in_on_session (session_flush_now ops) j of
        (Inl Panicked, j') \<Rightarrow> (Inl Panicked, j')
      | (Inl (Err e), j') \<Rightarrow>
          (Inr (if failure = None then (outcomes @ [reject_session (- 1) e], Some (length outcomes))
                else (outcomes, failure)), j')
      | (Inr _, j') \<Rightarrow> (Inr (outcomes, failure), j'))"

definition apply_many ::
    "'e transport_ops \<Rightarrow> (nat \<Rightarrow> string) \<Rightarrow> Action list \<Rightarrow> ('e ActionInjector, BridgeOutcome list \<times> nat option) act" where
  "apply_many ops dbg as =
     act_then (act_modify (\<lambda>j. j\<lparr>in_batch_depth := saturating_succ (in_batch_depth j)\<rparr>)) (\<lambda>_.
     act_then (apply_each ops dbg as []) (\<lambda>res.
     act_then (act_modify (\<lambda>j. j\<lparr>in_batch_depth := saturating_pred (in_batch_depth j)\<rparr>)) (\<lambda>_.
       terminal_flush ops res)))"

definition injector_flush_now :: "'e transport_ops \<Rightarrow> ('e ActionInjector, nat) act" where
  "injector_flush_now ops = in_on_session (session_flush_now ops)"

definition into_session :: "'e ActionInjector \<Rightarrow> 'e HidSession" where
  "into_session j = in_session j"

section \<open>What the helpers put on the wire\<close>

context reliable_transport
begin

lemma wp_or_reject:
  assumes "wp p (\<lambda>r ms s1. case r of
      Inl f \<Rightarrow> (case f of Panicked \<Rightarrow> Q (Inl Panicked) ms s1 | Err e \<Rightarrow> Q (Inr (reject_session i e)) ms s1)
    | Inr _ \<Rightarrow> wp k (\<lambda>r ns. Q r (ms @ ns)) s1) s"
  shows "wp (or_reject i p k) Q s"
proof -
  obtain r s1 ms where p: "p s = (r, s1)" "logged s s1 ms"
    and post: "case r of
      Inl f \<Rightarrow> (case f of Panicked \<Rightarrow> Q (Inl Panicked) ms s1 | Err e \<Rightarrow> Q (Inr (reject_session i e)) ms s1)
    | Inr _ \<Rightarrow> wp k (\<lambda>r ns. Q r (ms @ ns)) s1"
    using assms unfolding wp_def by blast
  show ?thesis
  proof (cases r)
    case (Inl f)
    then show ?thesis
      using p post unfolding wp_def by (cases f) (auto simp: or_reject_def)
  next
    case (Inr x)
    then obtain r2 s2 ns where "k s1 = (r2, s2)" "logged s1 s2 ns" "Q r2 (ms @ ns) s2"
      using post unfolding wp_def by auto
    then show ?thesis
      using p Inr logged_trans unfolding wp_def by (fastforce simp: or_reject_def)
  qed
qed

lemma safe_or_reject:
  assumes "safe req p" "safe req k"
  shows "safe req (or_reject i p k)"
proof (rule safeI)
  fix s :: "'e HidSession"
  assume "session_inv req s"
  then have "wp p (\<lambda>r ms s'. session_inv req s' \<and> list_all (routed (open_ids req)) ms) s"
    using assms(1) by (simp add: safe_def)
  then show "wp (or_reject i p k) (\<lambda>r ms s'. session_inv req s' \<and> list_all (routed (open_ids req)) ms) s"
  proof (intro wp_or_reject, elim wp_mono)
    fix r :: "unit res" and ms and s1 :: "'e HidSession"
    assume s1: "session_inv req s1 \<and> list_all (routed (open_ids req)) ms"
    then have "wp k (\<lambda>r ns s'. session_inv req s' \<and> list_all (routed (open_ids req)) (ms @ ns)) s1"
      using assms(2) by (auto simp: safe_def elim: wp_mono)
    with s1 show "case r of
        Inl f \<Rightarrow> (case f of Panicked \<Rightarrow> session_inv req s1 \<and> list_all (routed (open_ids req)) ms
          | Err e \<Rightarrow> session_inv req s1 \<and> list_all (routed (open_ids req)) ms)
      | Inr _ \<Rightarrow> wp k (\<lambda>r ns s'. session_inv req s' \<and> list_all (routed (open_ids req)) (ms @ ns)) s1"
      by (simp split: sum.split fault.split)
  qed
qed

lemma wp_now:
  assumes "\<And>t w. cw_pending w = cw_pending (hs_transport s) \<Longrightarrow> Q (Inr t) [] (s\<lparr>hs_transport := w\<rparr>)"
  shows "wp (session_now ops) Q s"
proof -
  obtain t e where e: "op_now ops (cw_transport (hs_transport s)) = (t, e)" by fastforce
  let ?w = "(hs_transport s)\<lparr>cw_transport := e\<rparr>"
  have "session_now ops s = (Inr t, s\<lparr>hs_transport := ?w\<rparr>)"
    by (simp add: session_now_def on_writer_def cw_now_def e)
  moreover have "logged s (s\<lparr>hs_transport := ?w\<rparr>) []"
    by (simp add: logged_def wlogged_def in_mode_def now_wire [OF e])
  ultimately show ?thesis
    unfolding wp_def using assms [of ?w t] by auto
qed

lemma wp_done:
  assumes "\<And>t w. cw_pending w = cw_pending (hs_transport s) \<Longrightarrow> Q (Inr (outcome_ok i t)) [] (s\<lparr>hs_transport := w\<rparr>)"
  shows "wp (bridge_done ops i start) Q s"
  unfolding bridge_done_def by (rule wp_then, rule wp_now) (auto intro!: wp_ret assms)

lemma flush_empties:
  assumes "session_flush_now ops s = (Inr n, s')"
  shows "cw_pending (hs_transport s') = []"
  using assms by (auto simp: session_flush_now_def on_writer_def dest: flush_now_ok split: prod.splits)

lemma wp_maybe_flush:
  assumes "\<And>w. depth = 0 \<longrightarrow> cw_pending w = [] \<Longrightarrow> Q (Inr ()) [] (s\<lparr>hs_transport := w\<rparr>)"
  shows "wp (maybe_flush ops depth) Q s"
proof (cases "depth = 0")
  case True
  have "wp (session_flush_now ops) (\<lambda>r ms s'. (\<exists>n. r = Inr n) \<and> ms = [] \<and> (\<exists>w. s' = s\<lparr>hs_transport := w\<rparr>)) s"
    by (rule wp_flush) auto
  then obtain n w where run: "session_flush_now ops s = (Inr n, s\<lparr>hs_transport := w\<rparr>)" "logged s (s\<lparr>hs_transport := w\<rparr>) []"
    unfolding wp_def by blast
  then have "Q (Inr ()) [] (s\<lparr>hs_transport := w\<rparr>)"
    using assms [of w] flush_empties [OF run(1)] by simp
  then show ?thesis
    using run True unfolding wp_def
    by (intro exI [of _ "Inr ()"] exI [of _ "s\<lparr>hs_transport := w\<rparr>"] exI [of _ "[]"])
      (simp add: maybe_flush_def act_void_def act_then_def)
next
  case False
  then show ?thesis
    using assms [of "hs_transport s"] by (simp add: maybe_flush_def wp_ret)
qed

lemma safe_flow: "safe req (bridge_done ops i start)" "safe req (maybe_flush ops depth)" "safe req (needs_resolver i)"
proof -
  show "safe req (bridge_done ops i start)" by (rule safeI) (simp add: wp_done)
  show "safe req (maybe_flush ops depth)" by (rule safeI) (simp add: wp_maybe_flush)
  show "safe req (needs_resolver i)" by (simp add: needs_resolver_def)
qed

lemma safe_type_chars: "safe req k \<Longrightarrow> safe req (type_chars ops dbg i t k)"
  by (induction t) (auto split: prod.split option.split intro!: safe_or_reject)

lemma safe_bridge_action: "safe req (bridge_action ops dbg depth i start a)"
  using safe_gesture [of req "G_Swipe 0 _ _ _"]
  by (cases a)
    (auto simp: bridge_tap_def bridge_swipe_def session_swipe_def bridge_type_text_def bridge_press_key_def
      bridge_gamepad_frame_def bridge_launch_def bridge_set_clipboard_def bridge_inject_raw_def
      session_inject_keycode_def launch_app_def session_set_clipboard_def safe_send plain_def safe_raw_report
      simp del: act_seq.simps intro!: safe_or_reject safe_seq safe_type_chars safe_flow)

end

section \<open>A whole injector\<close>

datatype bridge_call = B_Apply Action | B_Many "Action list" | B_Flush

primrec bridge_exec :: "'e transport_ops \<Rightarrow> (nat \<Rightarrow> string) \<Rightarrow> bridge_call \<Rightarrow> ('e ActionInjector, unit) act" where
  "bridge_exec ops dbg (B_Apply a) = act_then (injector_apply ops dbg a) (\<lambda>_. act_ret ())"
| "bridge_exec ops dbg (B_Many as) = act_then (apply_many ops dbg as) (\<lambda>_. act_ret ())"
| "bridge_exec ops dbg B_Flush = act_then (injector_flush_now ops) (\<lambda>_. act_ret ())"

fun bridge_run :: "'e transport_ops \<Rightarrow> (nat \<Rightarrow> string) \<Rightarrow> bridge_call list \<Rightarrow> 'e ActionInjector \<Rightarrow> 'e ActionInjector" where
  \<comment> \<open>a caller that goes on after errors; a panic ends the run\<close>
  "bridge_run ops dbg [] j = j"
| "bridge_run ops dbg (c # cs) j = (case bridge_exec ops dbg c j of
     (Inl Panicked, j') \<Rightarrow> j' | (_, j') \<Rightarrow> bridge_run ops dbg cs j')"

definition bridge_life :: "'e transport_ops \<Rightarrow> (nat \<Rightarrow> string) \<Rightarrow> 'e \<Rightarrow> OpenRequest \<Rightarrow> bridge_call list \<Rightarrow> 'e" where
  \<comment> \<open>open, use, drop\<close>
  "bridge_life ops dbg t req cs = (case injector_open ops t req of
     Inl (e, t') \<Rightarrow> t' | Inr j \<Rightarrow> drop_session ops (into_session (bridge_run ops dbg cs j)))"

context reliable_transport
begin

definition in_safe :: "OpenRequest \<Rightarrow> ('e ActionInjector, 'a) act \<Rightarrow> bool" where
  "in_safe req p \<longleftrightarrow> (\<forall>j. session_inv req (in_session j) \<longrightarrow> (\<exists>r j' ms. p j = (r, j') \<and>
     logged (in_session j) (in_session j') ms \<and> session_inv req (in_session j') \<and> list_all (routed (open_ids req)) ms))"

lemma in_safe_quiet:
  assumes "\<And>j. \<exists>r j'. p j = (r, j') \<and> in_session j' = in_session j"
  shows "in_safe req p"
  unfolding in_safe_def
proof (intro allI impI)
  fix j :: "'e ActionInjector"
  assume "session_inv req (in_session j)"
  with assms [of j] show "\<exists>r j' ms. p j = (r, j') \<and> logged (in_session j) (in_session j') ms \<and>
      session_inv req (in_session j') \<and> list_all (routed (open_ids req)) ms"
    by (force simp: logged_def intro!: exI [of _ "[]"] wlogged_refl)
qed

lemma in_safe_on: "safe req p \<Longrightarrow> in_safe req (in_on_session p)"
  unfolding in_safe_def safe_def wp_def in_on_session_def by fastforce

lemma in_safe_then:
  assumes "in_safe req p" "\<And>x. in_safe req (f x)"
  shows "in_safe req (act_then p f)"
  unfolding in_safe_def
proof (intro allI impI)
  fix j :: "'e ActionInjector"
  assume "session_inv req (in_session j)"
  then obtain r j1 ms where p: "p j = (r, j1)" "logged (in_session j) (in_session j1) ms"
    "session_inv req (in_session j1)" "list_all (routed (open_ids req)) ms"
    using assms(1) unfolding in_safe_def by blast
  show "\<exists>r j' ms. act_then p f j = (r, j') \<and> logged (in_session j) (in_session j') ms \<and>
      session_inv req (in_session j') \<and> list_all (routed (open_ids req)) ms"
  proof (cases r)
    case (Inl e)
    with p show ?thesis by (auto simp: act_then_def)
  next
    case (Inr x)
    obtain r2 j2 ns where "f x j1 = (r2, j2)" "logged (in_session j1) (in_session j2) ns"
      "session_inv req (in_session j2)" "list_all (routed (open_ids req)) ns"
      using assms(2) [of x] p(3) unfolding in_safe_def by blast
    with p Inr logged_trans show ?thesis
      by (intro exI [of _ r2] exI [of _ j2] exI [of _ "ms @ ns"]) (auto simp: act_then_def)
  qed
qed

lemma in_safe_basic: "in_safe req (act_ret x)"
  "(\<And>j. in_session (g j) = in_session j) \<Longrightarrow> in_safe req (act_modify g)"
  by (rule in_safe_quiet, simp)+

lemma in_safe_apply: "in_safe req (injector_apply ops dbg a)"
proof -
  have "in_safe req (act_then (act_modify (\<lambda>j. j\<lparr>in_next_id := i + 1\<rparr>)) (\<lambda>_. act_then (in_on_session (session_now ops))
      (\<lambda>start. in_on_session (bridge_action ops dbg d i start a))))" for i d
    by (intro in_safe_then in_safe_on in_safe_basic safe_bridge_action safeI wp_now) simp_all
  from this [unfolded in_safe_def] show ?thesis
    by (simp add: in_safe_def injector_apply_def Let_def act_then_def)
qed

lemma in_safe_each: "in_safe req (apply_each ops dbg as outcomes)"
  by (induction as arbitrary: outcomes) (auto intro!: in_safe_then in_safe_apply in_safe_basic)

lemma in_safe_terminal: "in_safe req (terminal_flush ops res)"
proof -
  have "in_safe req (in_on_session (session_flush_now ops))" by (intro in_safe_on safe_flush)
  then show ?thesis
    unfolding in_safe_def terminal_flush_def
    by (cases res) (force simp: logged_def wlogged_refl split: sum.split fault.split intro: exI [of _ "[]"])
qed

lemma in_safe_exec: "in_safe req (bridge_exec ops dbg c)"
  by (cases c) (auto simp: apply_many_def injector_flush_now_def
      intro!: in_safe_then in_safe_apply in_safe_each in_safe_terminal in_safe_basic in_safe_on safe_flush)

lemma bridge_logged:
  assumes "session_inv req (in_session j)"
  shows "\<exists>ms. logged (in_session j) (in_session (bridge_run ops dbg cs j)) ms \<and>
    session_inv req (in_session (bridge_run ops dbg cs j)) \<and> list_all (routed (open_ids req)) ms"
  using assms
proof (induction cs arbitrary: j)
  case Nil
  then show ?case by (intro exI [of _ "[]"]) (simp add: logged_def wlogged_refl)
next
  case (Cons c cs)
  obtain r j1 ms where c: "bridge_exec ops dbg c j = (r, j1)" "logged (in_session j) (in_session j1) ms"
    "session_inv req (in_session j1)" "list_all (routed (open_ids req)) ms"
    using in_safe_exec [of req dbg c] Cons.prems unfolding in_safe_def by blast
  obtain ns where rest: "logged (in_session j1) (in_session (bridge_run ops dbg cs j1)) ns"
    "session_inv req (in_session (bridge_run ops dbg cs j1))" "list_all (routed (open_ids req)) ns"
    using Cons.IH [OF c(3)] by blast
  have "bridge_run ops dbg (c # cs) j = (if r = Inl Panicked then j1 else bridge_run ops dbg cs j1)"
    by (simp add: c(1) split: sum.split fault.split)
  then show ?case
    using c(2-4) rest logged_trans [OF c(2) rest(1)]
    by (cases "r = Inl Panicked") (force intro: exI [of _ ms], force intro: exI [of _ "ms @ ns"])
qed

lemma bridge_messages:
  "\<exists>ms. list_all (routed (open_ids req)) ms \<and>
    wire (bridge_life ops dbg t req cs) = wire t @ concat (map msg_bytes (creates req @ ms @ destroys req))"
proof -
  let ?f = "fresh_session ops t req"
  obtain s where opened: "open_devices ops req ?f = (Inr (), s)" "logged ?f s (creates req)" "session_inv req s"
    using wp_open [of req t] unfolding wp_def by blast
  then have s: "sound s" "stream wire s = wire t @ concat (map msg_bytes (creates req))"
    using logged_stream [OF opened(2) fresh_sound(1)] fresh_sound(2) by simp_all
  let ?j = "\<lparr>in_session = s, in_next_id = 0, in_batch_depth = 0\<rparr>"
  obtain ms where ms: "logged s (in_session (bridge_run ops dbg cs ?j)) ms"
    "session_inv req (in_session (bridge_run ops dbg cs ?j))" "list_all (routed (open_ids req)) ms"
    using bridge_logged [of req ?j dbg cs] opened(3) by auto
  then have "wire (drop_session ops (in_session (bridge_run ops dbg cs ?j))) =
      wire t @ concat (map msg_bytes (creates req @ ms @ destroys req))"
    using drop_session_stream [OF ms(2)] logged_stream [OF ms(1) s(1)] s(2) by simp
  then show ?thesis
    using ms(3) opened(1) by (auto simp: bridge_life_def injector_open_def session_open_def into_session_def)
qed

end

text \<open>
  An injector on a transport that does not fail, as the server reads it: for any actions, single
  or in batches, with any outcome, the wire carries the creation of exactly the requested devices, then only
  control messages and input for those devices, then their destruction when the injector is dropped.
\<close>

theorem bridge_lifecycle:
  assumes "reliable_transport ops wire" "wire t = []"
  shows "\<exists>ms. list_all (routed (open_ids req)) ms \<and>
    decode_all dec_wire (wire (bridge_life ops dbg t req cs)) = Some (map wire_of (creates req @ ms @ destroys req)) \<and>
    device_run (map wire_of (creates req @ ms @ destroys req)) {} = Some {}"
proof -
  obtain ms where ms: "list_all (routed (open_ids req)) ms"
    "wire (bridge_life ops dbg t req cs) = concat (map msg_bytes (creates req @ ms @ destroys req))"
    using reliable_transport.bridge_messages [OF assms(1), of req dbg t cs] assms(2) by auto
  then show ?thesis
    using life_decodes [OF ms(1)] by auto
qed

theorem bridge_lifecycle_witness:
  "\<exists>ms. decode_all dec_wire (mt_bytes (bridge_life (mock_ops 0) (\<lambda>_. []) mock_new kbd_only
       [B_Many [A_TypeText [104, 105] 0, A_GetUiRepr None 0], B_Apply (A_Tap 1 2 0)])) =
     Some (map wire_of ([kbd_create] @ ms @ [UhidDestroy 1]))"
  using bridge_lifecycle [OF reliable_mock.reliable_transport_axioms, of mock_new kbd_only 0]
  by (force simp: mock_new_def kbd_only_def creates_def destroys_def)

section \<open>What an action does\<close>

text \<open>
  The reference: the messages an action puts on the wire and the code it is rejected with, by the devices of
  the session. \<open>place\<close> puts a touch on the screen of the session.
\<close>

definition raw_spec :: "OpenRequest \<Rightarrow> byte list \<Rightarrow> ControlMessage list \<times> AtomicErrorCode option" where
  "raw_spec req payload =
     (if payload = [] then ([], Some NotImplemented)
      else if 15 < length payload then ([], Some PermissionDenied)
      else if or_gamepad req then ([input_of HID_ID_GAMEPAD_FIRST payload], None)
      else ([], Some NotImplemented))"

definition text_spec :: "OpenRequest \<Rightarrow> ustr \<Rightarrow> ControlMessage list \<times> AtomicErrorCode option" where
  "text_spec req t =
     (if or_kbd req
      then (map (input_of HID_ID_KEYBOARD) (concat (map key_reports (takeWhile supported_char t))),
        if list_all supported_char t then None else Some PermissionDenied)
      else ([], case t of [] \<Rightarrow> None | c # _ \<Rightarrow> Some (if supported_char c then NotImplemented else PermissionDenied)))"

definition key_press :: "u8 \<Rightarrow> u32 \<Rightarrow> ControlMessage" where
  "key_press action code =
     InjectKeycode \<lparr>ik_action = action, ik_keycode = code, ik_repeat = 0, ik_metastate = 0\<rparr>"

primrec action_spec ::
    "OpenRequest \<Rightarrow> (touch \<Rightarrow> ControlMessage) \<Rightarrow> Action \<Rightarrow> ControlMessage list \<times> AtomicErrorCode option" where
  "action_spec req place (A_Tap x y _) = (map place [(ACTION_DOWN, 0, x, y, Fin 1), (ACTION_UP, 0, x, y, Fin 0)], None)"
| "action_spec req place (A_Swipe x1 y1 x2 y2 d _) =
     (map place (gesture_path 0 0 (G_Swipe 0 (x1, y1) (x2, y2) (swipe_steps x1 y1 x2 y2 d))), None)"
| "action_spec req place (A_TypeText t _) = text_spec req t"
| "action_spec req place (A_Key code _) = ([key_press KEY_DOWN code, key_press KEY_UP code], None)"
| "action_spec req place (A_GamepadFrame report _) = raw_spec req report"
| "action_spec req place (A_Launch target _ _) =
     (if length (as_bytes target) \<le> 255 then ([StartApp (as_bytes target)], None) else ([], Some PermissionDenied))"
| "action_spec req place (A_SetClipboard t paste _) =
     ([SetClipboard \<lparr>sc_sequence = 0, sc_paste = paste, sc_text = as_bytes t\<rparr>], None)"
| "action_spec req place (A_InjectRaw bytes _) = raw_spec req bytes"
| "action_spec req place (A_TapSelector _ _) = ([], Some NotImplemented)"
| "action_spec req place (A_Wait _ _) = ([], Some NotImplemented)"
| "action_spec req place (A_GetUiRepr _ _) = ([], Some NotImplemented)"
| "action_spec req place (A_DumpObservation _ _) = ([], Some NotImplemented)"
| "action_spec req place (A_LocalizeText _ _ _) = ([], Some NotImplemented)"
| "action_spec req place (A_DetectElement _ _ _ _) = ([], Some NotImplemented)"
| "action_spec req place (A_Ground _ _ _) = ([], Some NotImplemented)"
| "action_spec req place (A_AskVisual _ _ _) = ([], Some NotImplemented)"

text \<open>The clipboard is cut at a fixed byte; a cut inside a character is the panic an action can run into.\<close>

definition no_cut_inside :: "Action \<Rightarrow> bool" where
  "no_cut_inside a = (case a of A_SetClipboard t paste _ \<Rightarrow>
     msg_fault (SetClipboard \<lparr>sc_sequence = 0, sc_paste = paste, sc_text = as_bytes t\<rparr>) = None | _ \<Rightarrow> True)"

definition ready :: "OpenRequest \<Rightarrow> 'e HidSession \<Rightarrow> bool" where
  "ready req s \<longleftrightarrow> session_inv req s \<and> (or_kbd req \<longrightarrow> idle_keyboard s)"

lemma ready_body: "same_body s s' \<Longrightarrow> ready req s' = ready req s"
  by (auto simp: ready_def session_inv_body idle_keyboard_def same_body_fields)

lemma ready_transport [simp]: "ready req (s\<lparr>hs_transport := w\<rparr>) = ready req s"
  by (simp add: ready_def idle_keyboard_def)

context reliable_transport
begin

definition sends ::
    "OpenRequest \<Rightarrow> 'e HidSession \<Rightarrow> ('e HidSession, unit) act \<Rightarrow> ControlMessage list \<Rightarrow> AtomicErrorCode option \<Rightarrow> bool" where
  "sends req s p ms c \<longleftrightarrow> wp p (\<lambda>r ms' s'. ms' = ms \<and> ready req s' \<and> touch_at s' = touch_at s \<and>
     (case r of Inl f \<Rightarrow> (case f of Panicked \<Rightarrow> False | Err e \<Rightarrow> c = Some (classify_session_error e)) | Inr _ \<Rightarrow> c = None)) s"

definition acted ::
    "OpenRequest \<Rightarrow> 'e HidSession \<Rightarrow> ActionId \<Rightarrow> u32 \<Rightarrow> ControlMessage list \<times> AtomicErrorCode option \<Rightarrow>
     BridgeOutcome res \<Rightarrow> ControlMessage list \<Rightarrow> 'e HidSession \<Rightarrow> bool" where
  "acted req s i depth spec r ms s' \<longleftrightarrow> ms = fst spec \<and> ready req s' \<and> touch_at s' = touch_at s \<and>
     (\<exists>out. r = Inr out \<and> bo_id out = i \<and> bo_code out = snd spec \<and> bo_landed out = (snd spec = None)) \<and>
     (depth = 0 \<and> snd spec = None \<longrightarrow> cw_pending (hs_transport s') = [])"

lemma sends_emits: "emits p ts \<Longrightarrow> ready req s \<Longrightarrow> sends req s p (map (touch_at s) ts) None"
  unfolding emits_def sends_def
  by (elim allE [of _ s] wp_mono) (auto simp: ready_body touch_at_same_body)

lemma wp_finish:
  assumes "ready req s"
  shows "wp (or_reject i (maybe_flush ops depth) (bridge_done ops i start)) (acted req s i depth ([], None)) s"
proof (rule wp_or_reject, rule wp_maybe_flush)
  fix w :: "'e CoalescingWriter"
  assume w: "depth = 0 \<longrightarrow> cw_pending w = []"
  show "case Inr () of
      Inl f \<Rightarrow> (case f of Panicked \<Rightarrow> acted req s i depth ([], None) (Inl Panicked) [] (s\<lparr>hs_transport := w\<rparr>)
        | Err e \<Rightarrow> acted req s i depth ([], None) (Inr (reject_session i e)) [] (s\<lparr>hs_transport := w\<rparr>))
    | Inr _ \<Rightarrow> wp (bridge_done ops i start) (\<lambda>r ns. acted req s i depth ([], None) r ([] @ ns)) (s\<lparr>hs_transport := w\<rparr>)"
    using assms w
    by (auto simp: acted_def outcome_ok_def ready_body touch_at_same_body intro!: wp_done)
qed

lemma or_reject_seq: "or_reject i (act_seq [p, q]) k = or_reject i p (or_reject i q k)"
  by (auto simp: or_reject_def fun_eq_iff act_then_def act_ret_def split: prod.splits sum.splits fault.splits)

lemma wp_action_then:
  assumes p: "sends req s p ms c"
    and k: "\<And>s1. ready req s1 \<Longrightarrow> touch_at s1 = touch_at s \<Longrightarrow> c = None \<Longrightarrow> wp k (acted req s1 i depth spec) s1"
  shows "wp (or_reject i p k) (acted req s i depth (if c = None then (ms @ fst spec, snd spec) else (ms, c))) s"
proof (rule wp_or_reject, rule wp_mono [OF p [unfolded sends_def]])
  fix r :: "unit res" and ms' and s1 :: "'e HidSession"
  assume post: "ms' = ms \<and> ready req s1 \<and> touch_at s1 = touch_at s \<and> (case r of
      Inl f \<Rightarrow> (case f of Panicked \<Rightarrow> False | Err e \<Rightarrow> c = Some (classify_session_error e)) | Inr _ \<Rightarrow> c = None)"
  let ?spec = "if c = None then (ms @ fst spec, snd spec) else (ms, c)"
  show "case r of
      Inl f \<Rightarrow> (case f of Panicked \<Rightarrow> acted req s i depth ?spec (Inl Panicked) ms' s1
        | Err e \<Rightarrow> acted req s i depth ?spec (Inr (reject_session i e)) ms' s1)
    | Inr _ \<Rightarrow> wp k (\<lambda>r ns. acted req s i depth ?spec r (ms' @ ns)) s1"
  proof (cases r)
    case (Inl f)
    with post show ?thesis
      by (cases f) (simp_all add: acted_def reject_session_def outcome_rejected_def)
  next
    case (Inr u)
    with post have "wp k (acted req s1 i depth spec) s1" by (simp add: k)
    then have "wp k (\<lambda>r ns. acted req s i depth ?spec r (ms' @ ns)) s1"
      by (rule wp_mono) (use post Inr in \<open>auto simp: acted_def\<close>)
    with Inr show ?thesis by simp
  qed
qed

lemma wp_action_body:
  assumes "sends req s p ms c"
  shows "wp (or_reject i (act_seq [p, maybe_flush ops depth]) (bridge_done ops i start)) (acted req s i depth (ms, c)) s"
  using wp_action_then [OF assms, where spec = "([], None)" and i = i and depth = depth, OF wp_finish] assms
  by (cases c) (simp_all add: or_reject_seq del: act_seq.simps act_simps)

lemma act_seq_group: "act_seq [p, q, r] = act_seq [act_seq [p, q], r]"
  by (simp add: act_then_assoc act_then_ret_left del: act_simps)

lemma sends_seq:
  assumes p: "sends req s p ms None" and q: "\<And>s1. ready req s1 \<Longrightarrow> sends req s1 q ns None"
  shows "sends req s (act_seq [p, q]) (ms @ ns) None"
  unfolding sends_def
proof (rule wp_seq_Cons, rule wp_mono [OF p [unfolded sends_def]])
  fix r :: "unit res" and ms' and s1 :: "'e HidSession"
  assume post: "ms' = ms \<and> ready req s1 \<and> touch_at s1 = touch_at s \<and> (case r of
      Inl f \<Rightarrow> (case f of Panicked \<Rightarrow> False | Err e \<Rightarrow> None = Some (classify_session_error e)) | Inr _ \<Rightarrow> None = None)"
  then have "r = Inr ()" by (simp split: sum.splits fault.splits)
  moreover have "wp (act_seq [q]) (\<lambda>r ns'. (\<lambda>ms' s'. ms' = ms @ ns \<and> ready req s' \<and> touch_at s' = touch_at s \<and> (case r of
      Inl f \<Rightarrow> (case f of Panicked \<Rightarrow> False | Err e \<Rightarrow> None = Some (classify_session_error e)) | Inr _ \<Rightarrow> None = None)) (ms' @ ns')) s1"
    using post q [of s1] unfolding sends_def
    by (intro wp_seq_Cons) (auto elim!: wp_mono intro!: wp_ret split: sum.splits fault.splits)
  ultimately show "r = Inr () \<and> wp (act_seq [q]) (\<lambda>r ns' s'. ms' @ ns' = ms @ ns \<and> ready req s' \<and> touch_at s' = touch_at s \<and> (case r of
      Inl f \<Rightarrow> (case f of Panicked \<Rightarrow> False | Err e \<Rightarrow> None = Some (classify_session_error e)) | Inr _ \<Rightarrow> None = None)) s1"
    by simp
qed

lemma sends_plain:
  assumes "ready req s" "plain m"
    and "case msg_fault m of None \<Rightarrow> ms = [m] \<and> c = None
      | Some f \<Rightarrow> (case f of Panicked \<Rightarrow> False | Err e \<Rightarrow> ms = [] \<and> c = Some (classify_session_error e))"
  shows "sends req s (session_send ops m) ms c"
proof (cases "msg_fault m")
  case None
  with assms show ?thesis
    unfolding sends_def
    by (intro wp_send) (auto dest: plain_ok simp: touch_at_same_body)
next
  case (Some f)
  with assms(3) obtain e where e: "msg_fault m = Some (Err e)" "ms = []" "c = Some (classify_session_error e)"
    by (auto split: fault.splits)
  then have ser: "serialize_into m [] = ([], Inl (Err e))" by (simp add: serialize_into_err)
  have "\<not> is_critical m" "\<nexists>i. m = UhidInput i"
    using assms(2) plain_ok [OF assms(2)] by (auto simp: plain_def)
  then have "push ops m w = (Inl (Err e), w\<lparr>cw_pushed := cw_pushed w + 1, cw_scratch := []\<rparr>)" for w
    using ser
    by (cases m) (simp_all add: push_def push_direct_def count_push_def act_then_def push_message_to_scratch_def is_critical_def)
  then have "session_send ops m s = (Inl (Err e), s\<lparr>hs_transport := (hs_transport s)\<lparr>
      cw_pushed := cw_pushed (hs_transport s) + 1, cw_scratch := []\<rparr>\<rparr>)"
    by (simp add: session_send_def act_void_def act_then_def on_writer_def)
  with e assms(1) show ?thesis
    unfolding sends_def wp_def
    by (simp add: logged_def wlogged_def in_mode_def touch_at_same_body)
qed

lemma sends_raw:
  assumes "ready req s" "raw_spec req payload = (ms, c)"
  shows "sends req s (inject_raw_gamepad_report ops payload) ms c"
proof -
  have fail: "sends req s (act_fail (Err e)) [] (Some code)" if "classify_session_error e = code" for e code
    using assms(1) that by (auto simp: sends_def intro!: wp_fail)
  have hid: "session_gamepad_hid_id s = (if or_gamepad req then Inr 3 else Inl (lifecycle ''gamepad not open''))"
    using assms(1) by (intro inv_hid_id) (simp add: ready_def)
  have none: "sends req s (with_hid_id p) [] (Some NotImplemented)" if "\<not> or_gamepad req"
    for p :: "u16 \<Rightarrow> ('e CoalescingWriter, FlushReason) act"
    using assms(1) that hid unfolding sends_def
    by (intro wp_pure [where s' = s and r = "Inl (lifecycle ''gamepad not open'')"]) (simp_all add: with_hid_id_def)
  have some: "sends req s (with_hid_id (\<lambda>i. push_uhid_input ops i (word_of_nat (length payload)) payload))
      [input_of HID_ID_GAMEPAD_FIRST payload] None" if "or_gamepad req" "length payload \<le> 15"
  proof -
    have "unat (word_of_nat (length payload) :: u16) = length payload"
      using that(2) by (simp add: unat_of_nat)
    then have "wp (act_void (on_writer (push_uhid_input ops 3 (word_of_nat (length payload)) payload)))
        (\<lambda>r ms' s'. ms' = [input_of 3 payload] \<and> ready req s' \<and> touch_at s' = touch_at s \<and> r = Inr ()) s"
      using that(2) assms(1) by (intro wp_void wp_push_uhid_input) (simp_all add: touch_at_same_body)
    then have "wp (act_void (on_writer (push_uhid_input ops 3 (word_of_nat (length payload)) payload)))
        (\<lambda>r ms' s'. ms' = [input_of HID_ID_GAMEPAD_FIRST payload] \<and> ready req s' \<and> touch_at s' = touch_at s \<and>
          (case r of Inl f \<Rightarrow> (case f of Panicked \<Rightarrow> False | Err e \<Rightarrow> None = Some (classify_session_error e))
           | Inr _ \<Rightarrow> None = None)) s"
      by (rule wp_mono) simp
    then show ?thesis
      unfolding sends_def by (rule wp_shift) (simp_all add: with_hid_id_def hid that(1))
  qed
  show ?thesis
    using assms(2) none some
    by (auto simp: raw_spec_def inject_raw_gamepad_report_def split: if_splits intro!: fail)
qed

lemma wp_key_ready:
  assumes "session_inv req s" "hs_kbd s = Some k" "wf_keyboard k" "sc \<le> 0x65" "or_kbd req"
  shows "wp (session_key ops sc pressed m) (\<lambda>r ms s'. r = Inr () \<and>
    ms = [input_of HID_ID_KEYBOARD (report_spec m (sorted_list_of_set (track_key sc pressed (held_set k))))] \<and>
    session_inv req s' \<and> touch_at s' = touch_at s \<and>
    (\<exists>k'. hs_kbd s' = Some k' \<and> wf_keyboard k' \<and> held_set k' = track_key sc pressed (held_set k))) s"
proof (rule wp_key [OF assms(2,3)])
  show "valid_scancode sc" using assms(4) by (simp add: valid_scancode_def)
  fix k' w
  assume k': "wf_keyboard k'" "held_set k' = track_key sc pressed (held_set k)"
  let ?s = "s\<lparr>hs_kbd := Some k', hs_transport := w\<rparr>"
  have "touch_at ?s = touch_at s"
    by (rule ext) (simp add: touch_at_def touch_msg_def split: prod.splits)
  moreover have "session_inv req ?s"
    using assms(1,5) k'(1) by (simp add: session_inv_def kbd_inv_def pad_inv_def)
  ultimately show "Inr () = Inr () \<and>
    [input_of HID_ID_KEYBOARD (report_spec m (sorted_list_of_set (track_key sc pressed (held_set k))))] =
      [input_of HID_ID_KEYBOARD (report_spec m (sorted_list_of_set (track_key sc pressed (held_set k))))] \<and>
    session_inv req ?s \<and> touch_at ?s = touch_at s \<and>
    (\<exists>k'. hs_kbd ?s = Some k' \<and> wf_keyboard k' \<and> held_set k' = track_key sc pressed (held_set k))"
    using k' by simp
qed

lemma sends_key:
  assumes "ready req s" "sc \<le> 0x65"
  shows "or_kbd req \<Longrightarrow> sends req s (act_seq [session_key ops sc True m, session_key ops sc False m])
      (map (input_of HID_ID_KEYBOARD) [report_spec m [unat sc], report_spec m []]) None"
    "\<not> or_kbd req \<Longrightarrow> sends req s (session_key ops sc True m) [] (Some NotImplemented)"
proof -
  show "sends req s (session_key ops sc True m) [] (Some NotImplemented)" if "\<not> or_kbd req"
  proof -
    have "hs_kbd s = None"
      using assms(1) that by (auto simp: ready_def session_inv_def kbd_inv_def split: option.splits)
    with assms(1) show ?thesis
      unfolding sends_def
      by (intro wp_pure [where s' = s and r = "Inl (lifecycle ''keyboard not open'')"]) (simp_all add: session_key_def)
  qed
  show "sends req s (act_seq [session_key ops sc True m, session_key ops sc False m])
      (map (input_of HID_ID_KEYBOARD) [report_spec m [unat sc], report_spec m []]) None" if kbd: "or_kbd req"
  proof -
    have inv: "session_inv req s" and idle: "idle_keyboard s"
      using assms(1) kbd by (simp_all add: ready_def)
    then obtain k where k: "hs_kbd s = Some k" "wf_keyboard k" "held_set k = {}"
      by (auto simp: idle_keyboard_def split: option.splits)
    have second: "wp (session_key ops sc False m) (\<lambda>r ms s'. r = Inr () \<and> ms = [input_of HID_ID_KEYBOARD (report_spec m [])] \<and>
        ready req s' \<and> touch_at s' = touch_at s) s1"
      if "session_inv req s1" "touch_at s1 = touch_at s" "hs_kbd s1 = Some k1" "wf_keyboard k1" "held_set k1 = {unat sc}" for s1 k1
      using wp_key_ready [OF that(1,3,4) assms(2) kbd, of False m] that(2,5) assms(2)
      by (elim wp_mono) (auto simp: track_key_def ready_def idle_keyboard_def)
    show ?thesis
      using wp_key_ready [OF inv k(1,2) assms(2) kbd, of True m] assms(2) unfolding sends_def
      by (intro wp_seq_Cons, elim wp_mono)
        (auto simp: track_key_def k(3) simp del: act_seq.simps(2) act_simps intro!: wp_seq_Cons wp_mono [OF second] wp_ret)
  qed
qed

lemma wp_rejected:
  "ready req s \<Longrightarrow> wp (act_ret (outcome_rejected i code reason)) (acted req s i depth ([], Some code)) s"
  by (rule wp_ret) (simp add: acted_def outcome_rejected_def)

lemma wp_type_chars:
  assumes "ready req s"
  shows "wp (type_chars ops dbg i t (or_reject i (maybe_flush ops depth) (bridge_done ops i start)))
    (acted req s i depth (text_spec req t)) s"
  using assms
proof (induction t arbitrary: s)
  case Nil
  then show ?case by (simp add: text_spec_def wp_finish)
next
  case (Cons c t)
  let ?k = "or_reject i (maybe_flush ops depth) (bridge_done ops i start)"
  show ?case
  proof (cases "try_from_char c")
    case (Pair x m)
    show ?thesis
    proof (cases x)
      case None
      with Pair have "\<not> supported_char c"
        using try_from_char_cases [of c] by simp
      then have "text_spec req (c # t) = ([], Some PermissionDenied)" by (simp add: text_spec_def)
      with Pair None show ?thesis by (simp add: wp_rejected [OF Cons.prems] del: act_simps)
    next
      case (Some sc)
      with Pair have c: "supported_char c" "key_reports c = [report_spec m [unat (to_u8 sc)], report_spec m []]"
        using try_from_char_cases [of c] by (simp_all add: key_reports_def)
      have sc: "to_u8 sc \<le> 0x65" using try_from_char_bound Pair Some by blast
      show ?thesis
      proof (cases "or_kbd req")
        case True
        have "wp (or_reject i (act_seq [session_key ops (to_u8 sc) True m, session_key ops (to_u8 sc) False m])
            (type_chars ops dbg i t ?k)) (acted req s i depth (text_spec req (c # t))) s"
          using wp_action_then [OF sends_key(1) [OF Cons.prems sc True], where spec = "text_spec req t" and i = i
              and depth = depth, OF Cons.IH] c True
          by (simp add: text_spec_def)
        with Pair Some show ?thesis by (simp add: or_reject_seq del: act_seq.simps)
      next
        case False
        show ?thesis
          using wp_action_then [OF sends_key(2) [OF Cons.prems sc False, of m], where i = i and depth = depth] c False Pair Some
          by (simp add: text_spec_def)
      qed
    qed
  qed
qed

lemma wp_bridge_action:
  assumes "ready req s" "no_cut_inside a"
  shows "wp (bridge_action ops dbg depth i start a) (acted req s i depth (action_spec req (touch_at s) a)) s"
proof -
  have plain: "sends req s (session_send ops m) [m] None" if "plain m" "msg_fault m = None" for m
    using assms(1) that by (intro sends_plain) simp_all
  have reject: "wp (needs_resolver i) (acted req s i depth ([], Some NotImplemented)) s"
    unfolding needs_resolver_def by (rule wp_rejected [OF assms(1)])
  note body = wp_action_body [where i = i and depth = depth and start = start]
  have raw: "wp (or_reject i (act_seq [inject_raw_gamepad_report ops p, maybe_flush ops depth]) (bridge_done ops i start))
      (acted req s i depth (raw_spec req p)) s" for p
    using body [OF sends_raw [OF assms(1)], of p] by (cases "raw_spec req p") simp
  show ?thesis
  proof (cases a)
    case (A_Tap x y d)
    have "emits (act_seq [inject_touch ops ACTION_DOWN 0 x y (Fin 1), inject_touch ops ACTION_UP 0 x y (Fin 0)])
        (concat [[(ACTION_DOWN, 0, x, y, Fin 1)], [(ACTION_UP, 0, x, y, Fin 0)]])"
      by (rule emits_seq) (simp add: emits_touch del: ACTION_DOWN_def ACTION_UP_def)
    from body [OF sends_emits [OF this assms(1)]] A_Tap show ?thesis
      by (simp add: bridge_tap_def act_seq_group del: act_seq.simps act_simps)
  next
    case (A_Swipe x1 y1 x2 y2 dur d)
    have "emits (session_swipe ops (x1, y1) (x2, y2) n) (gesture_path 0 0 (G_Swipe 0 (x1, y1) (x2, y2) n))" for n
      using emits_swipe [of 0 "(x1, y1)" "(x2, y2)" n] by (simp add: session_swipe_def)
    from body [OF sends_emits [OF this assms(1)]] A_Swipe show ?thesis
      by (simp add: bridge_swipe_def del: act_seq.simps act_simps gesture_path.simps)
  next
    case (A_Key code d)
    have "sends req s1 (session_inject_keycode ops action code 0 0) [key_press action code] None"
      if "ready req s1" for s1 action
      unfolding session_inject_keycode_def key_press_def
      using that by (rule sends_plain) (simp_all add: plain_def msg_fault_def)
    from body [OF sends_seq [OF this this]] A_Key assms(1) show ?thesis
      by (simp add: bridge_press_key_def act_seq_group del: act_seq.simps act_simps)
  next
    case (A_Launch target l d)
    have "sends req s (launch_app ops (as_bytes target)) (fst (action_spec req (touch_at s) a)) (snd (action_spec req (touch_at s) a))"
      unfolding launch_app_def
      using assms(1) by (rule sends_plain) (simp_all add: A_Launch plain_def msg_fault_def)
    from body [OF this] A_Launch show ?thesis
      by (simp add: bridge_launch_def del: act_seq.simps act_simps split: if_splits)
  next
    case (A_SetClipboard t paste d)
    with assms(2) have "sends req s (session_set_clipboard ops (as_bytes t) paste)
        (fst (action_spec req (touch_at s) a)) (snd (action_spec req (touch_at s) a))"
      unfolding session_set_clipboard_def A_SetClipboard action_spec.simps fst_conv snd_conv
      by (intro plain) (simp_all add: plain_def no_cut_inside_def)
    from body [OF this] A_SetClipboard show ?thesis
      by (simp add: bridge_set_clipboard_def del: act_seq.simps act_simps)
  next
    case (A_TypeText t d)
    then show ?thesis by (simp add: bridge_type_text_def wp_type_chars [OF assms(1)])
  qed (simp_all add: raw reject bridge_gamepad_frame_def bridge_inject_raw_def del: act_seq.simps)
qed

lemma apply_runs:
  assumes "ready req (in_session j)" "no_cut_inside a"
  defines "spec \<equiv> action_spec req (touch_at (in_session j)) a"
  shows "\<exists>out j'. injector_apply ops dbg a j = (Inr out, j') \<and> logged (in_session j) (in_session j') (fst spec) \<and>
    ready req (in_session j') \<and> touch_at (in_session j') = touch_at (in_session j) \<and>
    bo_id out = in_next_id j \<and> bo_code out = snd spec \<and> bo_landed out = (snd spec = None) \<and>
    in_next_id j' = in_next_id j + 1 \<and> in_batch_depth j' = in_batch_depth j \<and>
    (in_batch_depth j = 0 \<and> snd spec = None \<longrightarrow> cw_pending (hs_transport (in_session j')) = [])"
proof -
  let ?i = "in_next_id j" and ?d = "in_batch_depth j" and ?s = "in_session j"
  have "wp (session_now ops) (\<lambda>r ms s1. (\<exists>t. r = Inr t) \<and> ms = [] \<and> ready req s1 \<and> touch_at s1 = touch_at ?s) ?s"
    using assms(1) by (intro wp_now) (auto simp: touch_at_same_body)
  then obtain t s1 where now: "session_now ops ?s = (Inr t, s1)" "logged ?s s1 []" "ready req s1" "touch_at s1 = touch_at ?s"
    unfolding wp_def by blast
  then have "wp (bridge_action ops dbg ?d ?i t a) (acted req s1 ?i ?d spec) s1"
    using wp_bridge_action [OF now(3) assms(2)] by (simp add: spec_def)
  then obtain r s2 ms where run: "bridge_action ops dbg ?d ?i t a s1 = (r, s2)" "logged s1 s2 ms" "acted req s1 ?i ?d spec r ms s2"
    unfolding wp_def by blast
  then have "injector_apply ops dbg a j = (r, j\<lparr>in_next_id := ?i + 1, in_session := s2\<rparr>)"
    by (simp add: injector_apply_def in_on_session_def Let_def act_then_def now(1))
  moreover have "logged ?s s2 ms" using logged_trans [OF now(2) run(2)] by simp
  ultimately show ?thesis
    using run(3) now(4) by (auto simp: acted_def)
qed

end

fun batch_spec ::
    "(Action \<Rightarrow> ControlMessage list \<times> AtomicErrorCode option) \<Rightarrow> Action list \<Rightarrow>
     ControlMessage list \<times> AtomicErrorCode option list" where
  \<comment> \<open>the actions up to and including the first that is rejected\<close>
  "batch_spec spec [] = ([], [])"
| "batch_spec spec (a # as) =
     (case spec a of
        (ms, Some c) \<Rightarrow> (ms, [Some c])
      | (ms, None) \<Rightarrow> (case batch_spec spec as of (ns, cs) \<Rightarrow> (ms @ ns, None # cs)))"

definition outcomes_match :: "u64 \<Rightarrow> AtomicErrorCode option list \<Rightarrow> BridgeOutcome list \<Rightarrow> bool" where
  \<comment> \<open>consecutive ids, the given codes, landed where there is no code\<close>
  "outcomes_match i cs outs \<longleftrightarrow> map bo_code outs = cs \<and> map bo_landed outs = map (\<lambda>c. c = None) cs \<and>
     map bo_id outs = map (\<lambda>k. i + of_nat k) [0..<length outs]"

lemma outcomes_match_Cons:
  "outcomes_match i (c # cs) (out # outs) \<longleftrightarrow>
     bo_code out = c \<and> bo_landed out = (c = None) \<and> bo_id out = i \<and> outcomes_match (i + 1) cs outs"
proof -
  have "[0..<Suc n] = 0 # map Suc [0..<n]" for n by (simp add: map_Suc_upt upt_conv_Cons)
  then show ?thesis by (auto simp: outcomes_match_def comp_def add_ac simp del: upt_Suc)
qed

context reliable_transport
begin

lemma each_runs:
  assumes "ready req (in_session j)" "list_all no_cut_inside as"
  defines "spec \<equiv> batch_spec (action_spec req (touch_at (in_session j))) as"
  shows "\<exists>outs j'. apply_each ops dbg as acc j =
      (Inr (acc @ outs, map_option ((+) (length acc)) (position (\<lambda>r. \<not> bo_landed r) outs)), j') \<and>
    logged (in_session j) (in_session j') (fst spec) \<and> outcomes_match (in_next_id j) (snd spec) outs \<and>
    ready req (in_session j') \<and> in_batch_depth j' = in_batch_depth j"
  using assms(1,2) unfolding spec_def
proof (induction as arbitrary: j acc)
  case Nil
  then show ?case by (simp add: logged_def wlogged_refl outcomes_match_def)
next
  case (Cons a as)
  let ?at = "touch_at (in_session j)"
  obtain out j1 where a: "injector_apply ops dbg a j = (Inr out, j1)"
    "logged (in_session j) (in_session j1) (fst (action_spec req ?at a))"
    "ready req (in_session j1)" "touch_at (in_session j1) = ?at" "bo_id out = in_next_id j"
    "bo_code out = snd (action_spec req ?at a)" "bo_landed out = (snd (action_spec req ?at a) = None)"
    "in_next_id j1 = in_next_id j + 1" "in_batch_depth j1 = in_batch_depth j"
    using apply_runs [of req j a dbg] Cons.prems by auto
  show ?case
  proof (cases "snd (action_spec req ?at a)")
    case (Some c)
    then have "batch_spec (action_spec req ?at) (a # as) = (fst (action_spec req ?at a), [Some c])"
      by (cases "action_spec req ?at a") simp
    with a Some show ?thesis
      by (intro exI [of _ "[out]"] exI [of _ j1]) (simp add: act_then_def outcomes_match_def)
  next
    case None
    obtain outs j2 where rest: "apply_each ops dbg as (acc @ [out]) j1 =
        (Inr ((acc @ [out]) @ outs, map_option ((+) (length (acc @ [out]))) (position (\<lambda>r. \<not> bo_landed r) outs)), j2)"
      "logged (in_session j1) (in_session j2) (fst (batch_spec (action_spec req ?at) as))"
      "outcomes_match (in_next_id j1) (snd (batch_spec (action_spec req ?at) as)) outs"
      "ready req (in_session j2)" "in_batch_depth j2 = in_batch_depth j1"
      using Cons.IH [OF a(3), of "acc @ [out]", unfolded a(4)] Cons.prems(2) by (auto simp only: list.pred_inject)
    have "batch_spec (action_spec req ?at) (a # as) =
        (fst (action_spec req ?at a) @ fst (batch_spec (action_spec req ?at) as),
         None # snd (batch_spec (action_spec req ?at) as))"
      using None by (cases "action_spec req ?at a") (simp split: prod.split)
    moreover have "map_option ((+) (length acc)) (position (\<lambda>r. \<not> bo_landed r) (out # outs)) =
        map_option ((+) (length (acc @ [out]))) (position (\<lambda>r. \<not> bo_landed r) outs)"
      using a(7) None by (cases "position (\<lambda>r. \<not> bo_landed r) outs") simp_all
    ultimately show ?thesis
      using a rest None logged_trans [OF a(2) rest(2)]
      by (intro exI [of _ "out # outs"] exI [of _ j2]) (simp add: act_then_def outcomes_match_Cons)
  qed
qed

lemma flush_reaches_wire:
  assumes "sound s"
  shows "\<exists>n s'. session_flush_now ops s = (Inr n, s') \<and> same_body s s' \<and> cw_pending (hs_transport s') = [] \<and>
    wire (cw_transport (hs_transport s')) = stream wire s"
proof -
  have "wp (session_flush_now ops) (\<lambda>r ms s'. (\<exists>n. r = Inr n) \<and> ms = [] \<and> same_body s s') s"
    by (rule wp_flush) auto
  then obtain n s' where run: "session_flush_now ops s = (Inr n, s')" "logged s s' []" "same_body s s'"
    unfolding wp_def by blast
  with logged_stream [OF run(2) assms] flush_empties [OF run(1)] show ?thesis
    by (simp add: stream_def)
qed

lemma apply_many_runs:
  assumes "ready req (in_session j)" "sound (in_session j)" "list_all no_cut_inside as" "in_batch_depth j = 0"
  defines "spec \<equiv> batch_spec (action_spec req (touch_at (in_session j))) as"
  shows "\<exists>outs j'. apply_many ops dbg as j = (Inr (outs, position (\<lambda>r. \<not> bo_landed r) outs), j') \<and>
    outcomes_match (in_next_id j) (snd spec) outs \<and> ready req (in_session j') \<and> in_batch_depth j' = 0 \<and>
    cw_pending (hs_transport (in_session j')) = [] \<and>
    wire (cw_transport (hs_transport (in_session j'))) = stream wire (in_session j) @ concat (map msg_bytes (fst spec))"
proof -
  let ?j = "j\<lparr>in_batch_depth := 1\<rparr>"
  obtain outs j1 where each: "apply_each ops dbg as [] ?j = (Inr (outs, position (\<lambda>r. \<not> bo_landed r) outs), j1)"
    "logged (in_session j) (in_session j1) (fst spec)" "outcomes_match (in_next_id j) (snd spec) outs"
    "ready req (in_session j1)" "in_batch_depth j1 = 1"
  proof -
    have "map_option ((+) 0) x = x" for x :: "nat option" by (cases x) simp_all
    moreover have "ready req (in_session ?j)" "in_session ?j = in_session j" "in_next_id ?j = in_next_id j" "in_batch_depth ?j = 1"
      using assms(1) by simp_all
    ultimately show thesis
      using each_runs [of req ?j as dbg "[]"] assms(3) that unfolding spec_def
      by (auto simp only: append_Nil list.size(3))
  qed
  have s1: "sound (in_session j1)" "stream wire (in_session j1) = stream wire (in_session j) @ concat (map msg_bytes (fst spec))"
    using logged_stream [OF each(2) assms(2)] by simp_all
  obtain n s2 where flush: "session_flush_now ops (in_session j1) = (Inr n, s2)" "same_body (in_session j1) s2"
    "cw_pending (hs_transport s2) = []" "wire (cw_transport (hs_transport s2)) = stream wire (in_session j1)"
    using flush_reaches_wire [OF s1(1)] by blast
  have "apply_many ops dbg as j = (Inr (outs, position (\<lambda>r. \<not> bo_landed r) outs), j1\<lparr>in_batch_depth := 0, in_session := s2\<rparr>)"
    using each(1,5) assms(4)
    by (simp add: apply_many_def terminal_flush_def in_on_session_def flush(1) act_then_def saturating_succ_def saturating_pred_def)
  then show ?thesis
    using each(3,4) flush s1(2) by (simp add: ready_body)
qed

end

text \<open>
  C37 (refinement). A batch of actions on an open session with an idle keyboard, on a transport that does not
  fail: the actions are carried out in order up to and including the first that is rejected, each outcome has
  the next id and the code of the reference, the index returned is that of the rejected one, and whether or
  not there is one, everything the actions staged is on the wire when the call returns.
\<close>

theorem bridge_batch_exact:
  assumes "reliable_transport ops wire" "ready req (in_session j)" "sound (in_session j)"
    and "list_all no_cut_inside as" "in_batch_depth j = 0"
  shows "\<exists>outs j'. apply_many ops dbg as j = (Inr (outs, position (\<lambda>r. \<not> bo_landed r) outs), j') \<and>
    outcomes_match (in_next_id j) (snd (batch_spec (action_spec req (touch_at (in_session j))) as)) outs \<and>
    ready req (in_session j') \<and> in_batch_depth j' = 0 \<and> cw_pending (hs_transport (in_session j')) = [] \<and>
    wire (cw_transport (hs_transport (in_session j'))) = stream wire (in_session j) @
      concat (map msg_bytes (fst (batch_spec (action_spec req (touch_at (in_session j))) as)))"
  by (rule reliable_transport.apply_many_runs [OF assms])

definition kbd_injector :: "MockTransport ActionInjector" where
  "kbd_injector = \<lparr>in_session = kbd_session, in_next_id = 5, in_batch_depth = 0\<rparr>"

lemma kbd_ready: "ready kbd_only kbd_session"
  by (simp add: ready_def kbd_session_ok)
    (simp add: kbd_session_def fresh_session_def kbd_only_def session_inv_def kbd_inv_def pad_inv_def)

theorem bridge_batch_exact_witness:
  "\<exists>outs j'. apply_many (mock_ops 0) (\<lambda>_. []) [A_Key 4 0, A_TypeText [228] 0, A_Key 3 0] kbd_injector = (Inr (outs, Some 1), j') \<and>
     map bo_code outs = [None, Some PermissionDenied] \<and> map bo_id outs = [5, 6] \<and>
     mt_bytes (cw_transport (hs_transport (in_session j'))) =
       stream mt_bytes kbd_session @ msg_bytes (key_press KEY_DOWN 4) @ msg_bytes (key_press KEY_UP 4)"
proof -
  have umlaut: "text_spec kbd_only [228] = ([], Some PermissionDenied)"
    by (simp add: text_spec_def kbd_only_def supported_char_def)
  have pos: "position (\<lambda>r. \<not> bo_landed r) outs = Some 1 \<and> map bo_code outs = [None, Some PermissionDenied] \<and>
      map bo_id outs = [5, 6]"
    if "outcomes_match 5 [None, Some PermissionDenied] outs" for outs
    using that by (auto simp: outcomes_match_def map_eq_Cons_conv)
  obtain outs j' where run: "apply_many (mock_ops 0) (\<lambda>_. []) [A_Key 4 0, A_TypeText [228] 0, A_Key 3 0] kbd_injector =
      (Inr (outs, position (\<lambda>r. \<not> bo_landed r) outs), j')"
    "outcomes_match 5 [None, Some PermissionDenied] outs"
    "mt_bytes (cw_transport (hs_transport (in_session j'))) =
      stream mt_bytes kbd_session @ msg_bytes (key_press KEY_DOWN 4) @ msg_bytes (key_press KEY_UP 4)"
    using bridge_batch_exact [OF reliable_mock.reliable_transport_axioms, of kbd_only kbd_injector
        "[A_Key 4 0, A_TypeText [228] 0, A_Key 3 0]" 0 "\<lambda>_. []"] kbd_ready kbd_session_ok
    by (auto simp: kbd_injector_def no_cut_inside_def umlaut simp del: KEY_DOWN_def KEY_UP_def)
  with pos [OF run(2)] show ?thesis
    by (intro exI [of _ outs] exI [of _ j']) simp
qed

end
