(* ===== verification/Kernel_Request.thy ===== *)
theory Kernel_Request
  imports Kernel_Wire Kernel_Ui Kernel_Bridge Device
begin

text \<open>
  \<^verbatim>\<open>src/ai-device-kernel/src/bin/adk.rs\<close>, the functions without shared state: the command line, what is read
  from the output of \<open>dumpsys\<close> and \<open>screencap\<close>, the document of \<open>GetUiRepr\<close>, the translation of a bridge
  outcome, and the reader of requests. The request reader takes the length byte by byte with the varint decoder
  of the frame codec; the theorem says that it accepts what \<open>Frame::decode\<close> accepts.
\<close>

section \<open>The command line\<close>

record Flags =
  fl_port :: u16
  fl_device :: "ustr option"
  fl_no_adb :: bool
  fl_state_db :: "ustr option"
  fl_scrcpy_host :: ustr
  fl_scrcpy_port :: u16

datatype flags_exit = FlagsPanic | FlagsExit2

definition flags_default :: "ustr option \<Rightarrow> Flags" where
  "flags_default adb_serial =
     \<lparr>fl_port = 9008, fl_device = adb_serial, fl_no_adb = False, fl_state_db = None,
      fl_scrcpy_host = lit ''127.0.0.1'', fl_scrcpy_port = 27183\<rparr>"

fun digits_value :: "nat \<Rightarrow> ustr \<Rightarrow> nat option" where
  "digits_value n [] = Some n"
| "digits_value n (c # s) =
     (if 0x30 \<le> c \<and> c \<le> 0x39 \<and> 10 * n + (c - 0x30) < 65536 then digits_value (10 * n + (c - 0x30)) s else None)"

definition parse_u16 :: "ustr \<Rightarrow> u16 option" where
  \<comment> \<open>\<open>str::parse\<close>: decimal digits after an optional plus sign\<close>
  "parse_u16 s =
     (let ds = (case s of [] \<Rightarrow> [] | c # cs \<Rightarrow> if c = 0x2B then cs else s)
      in if ds = [] then None else map_option of_nat (digits_value 0 ds))"

fun flags_parse :: "Flags \<Rightarrow> ustr list \<Rightarrow> flags_exit + Flags" where
  \<comment> \<open>the loop over the arguments behind the name of the program\<close>
  "flags_parse f [] = Inr f"
| "flags_parse f [a] = (if a = lit ''--no-adb'' then Inr (f\<lparr>fl_no_adb := True\<rparr>) else Inl FlagsExit2)"
| "flags_parse f (a # v # args) =
     (if a = lit ''--port'' then (case parse_u16 v of
        None \<Rightarrow> Inl FlagsPanic | Some p \<Rightarrow> flags_parse (f\<lparr>fl_port := p\<rparr>) args)
      else if a = lit ''--device'' then flags_parse (f\<lparr>fl_device := Some v\<rparr>) args
      else if a = lit ''--no-adb'' then flags_parse (f\<lparr>fl_no_adb := True\<rparr>) (v # args)
      else if a = lit ''--state-db'' then flags_parse (f\<lparr>fl_state_db := Some v\<rparr>) args
      else if a = lit ''--scrcpy-host'' then flags_parse (f\<lparr>fl_scrcpy_host := v\<rparr>) args
      else if a = lit ''--scrcpy-port'' then (case parse_u16 v of
        None \<Rightarrow> Inl FlagsPanic | Some p \<Rightarrow> flags_parse (f\<lparr>fl_scrcpy_port := p\<rparr>) args)
      else Inl FlagsExit2)"

section \<open>Reading the output of the device\<close>

fun str_lines :: "ustr \<Rightarrow> ustr list" where
  \<comment> \<open>\<open>str::lines\<close>: a line ends in a line feed, with the carriage return before it, or with the text\<close>
  "str_lines [] = []"
| "str_lines (c # s) =
     (let l = takeWhile (\<lambda>x. x \<noteq> 0x0A) (c # s); rest = dropWhile (\<lambda>x. x \<noteq> 0x0A) (c # s)
      in if rest = [] then [l]
         else (if l \<noteq> [] \<and> last l = 0x0D then butlast l else l) # str_lines (drop (Suc (length l)) (c # s)))"

function str_words :: "ustr \<Rightarrow> ustr list" where
  \<comment> \<open>\<open>str::split_whitespace\<close>\<close>
  "str_words s =
     (let w = dropWhile unicode_ws s
      in if w = [] then [] else takeWhile (\<lambda>c. \<not> unicode_ws c) w # str_words (dropWhile (\<lambda>c. \<not> unicode_ws c) w))"
  by pat_completeness auto
termination
proof (relation "measure length")
  fix s w
  assume w: "w = dropWhile unicode_ws s" "w \<noteq> []"
  then have "\<not> unicode_ws (hd w)" using hd_dropWhile by blast
  with w(2) have "length (dropWhile (\<lambda>c. \<not> unicode_ws c) w) < length w"
    by (cases w) (simp_all add: less_Suc_eq_le length_dropWhile_le)
  also have "length w \<le> length s" using w(1) by (simp add: length_dropWhile_le)
  finally show "(dropWhile (\<lambda>c. \<not> unicode_ws c) w, s) \<in> measure length" by simp
qed simp

declare str_words.simps [simp del]

fun focused_in :: "ustr list \<Rightarrow> ustr option" where
  "focused_in [] = None"
| "focused_in (line # ls) = (case strip (lit ''mFocusedApp='') (trim_start line) of
     None \<Rightarrow> focused_in ls
   | Some rest \<Rightarrow> (let ws = str_words rest in if 2 < length ws then Some (ws ! 2) else focused_in ls))"

definition parse_focused_app :: "ustr \<Rightarrow> ustr option" where
  "parse_focused_app dumpsys_output = focused_in (str_lines dumpsys_output)"

definition u16_try_from :: "u32 \<Rightarrow> u16 option" where
  "u16_try_from v = (if unat v < 65536 then Some (ucast v) else None)"

definition be32_at :: "nat \<Rightarrow> byte list \<Rightarrow> u32" where
  "be32_at i bytes = from_be_bytes (take 4 (drop i bytes))"

definition read_png_dimensions :: "byte list \<Rightarrow> (u16 \<times> u16) option" where
  "read_png_dimensions bytes =
     (if length bytes < 24 then None
      else if take 8 bytes \<noteq> [0x89, 0x50, 0x4E, 0x47, 0x0D, 0x0A, 0x1A, 0x0A] then None
      else if be32_at 8 bytes \<noteq> 13 then None
      else if take 4 (drop 12 bytes) \<noteq> [0x49, 0x48, 0x44, 0x52] then None
      else case u16_try_from (be32_at 16 bytes) of
        None \<Rightarrow> None | Some w \<Rightarrow> map_option (Pair w) (u16_try_from (be32_at 20 bytes)))"

definition check_predicate :: "Predicate \<Rightarrow> ustr option \<Rightarrow> ustr \<Rightarrow> bool" where
  "check_predicate p focused_app dumpsys_text = (case p of
     P_Activity component _ \<Rightarrow> (case focused_app of None \<Rightarrow> False | Some c \<Rightarrow> c = component)
   | P_TextAppears t _ _ \<Rightarrow> contains dumpsys_text t
   | P_SelectorMatches selector _ \<Rightarrow> contains dumpsys_text selector
   | _ \<Rightarrow> True)"

definition predicate_timeout_ms :: "Predicate \<Rightarrow> u64" where
  "predicate_timeout_ms p = (case p of
     P_Activity _ t \<Rightarrow> ucast t | P_TextAppears _ _ t \<Rightarrow> ucast t | P_SelectorMatches _ t \<Rightarrow> ucast t
   | P_SceneStable _ t \<Rightarrow> ucast t | P_A11yIdle _ t \<Rightarrow> ucast t | P_EventFires _ t \<Rightarrow> ucast t)"

section \<open>The document of a screen\<close>

definition line_class :: "ustr \<Rightarrow> UiReprClass" where
  "line_class t =
     (if contains t (lit ''Button'') then UC_Button
      else if contains t (lit ''EditText'') then UC_EditText
      else if contains t (lit ''ImageView'') then UC_ImageView
      else UC_TextView)"

definition line_interactive :: "ustr \<Rightarrow> bool" where
  "line_interactive t \<longleftrightarrow> contains t (lit ''clickable=true'') \<or> contains t (lit ''focusable=true'') \<or>
     line_class t = UC_Button \<or> line_class t = UC_EditText"

definition line_node :: "nat \<Rightarrow> ustr \<Rightarrow> UiReprNode" where
  "line_node idx t = \<lparr>un_id = Some (lit (''n'' @ decimal idx)), un_class = line_class t, un_text = Some (take 64 t),
     un_content_desc = None, un_interactive = line_interactive t\<rparr>"

fun ui_nodes :: "nat \<Rightarrow> ustr list \<Rightarrow> UiReprNode list \<Rightarrow> UiReprNode list" where
  "ui_nodes idx [] nodes = nodes"
| "ui_nodes idx (line # ls) nodes =
     (let t = trim line
      in if t = [] \<or> take 13 t = lit ''mCurrentFocus'' then ui_nodes (Suc idx) ls nodes
         else let nodes = nodes @ [line_node idx t]
              in if 64 \<le> length nodes then nodes else ui_nodes (Suc idx) ls nodes)"

definition build_ui_repr_html :: "ustr option \<Rightarrow> ustr \<Rightarrow> UiReprHtml" where
  "build_ui_repr_html focused_app dumpsys_text =
     \<lparr>uh_screen = (case focused_app of Some a \<Rightarrow> a | None \<Rightarrow> []), uh_screen_id = None,
      uh_nodes = ui_nodes 0 (take 64 (str_lines dumpsys_text)) [], uh_truncated = False\<rparr>"

section \<open>Outcomes of the bridge\<close>

definition action_result_from_bridge :: "BridgeOutcome \<Rightarrow> ActionResult" where
  "action_result_from_bridge r =
     \<lparr>ar_id = bo_id r, ar_landed = bo_landed r, ar_ground_truth = ground_truth_default,
      ar_elapsed_ms = of_nat (as_millis (bo_elapsed r)),
      ar_code = (if bo_landed r then None
                 else Some (case bo_code r of Some c \<Rightarrow> c | None \<Rightarrow> KernelError)),
      ar_retryable = outcome_retryable r\<rparr>"

primrec uses_scrcpy_bridge :: "Action \<Rightarrow> bool" where
  "uses_scrcpy_bridge (A_Tap _ _ _) = True"
| "uses_scrcpy_bridge (A_Swipe _ _ _ _ _ _) = True"
| "uses_scrcpy_bridge (A_TypeText _ _) = True"
| "uses_scrcpy_bridge (A_Key _ _) = True"
| "uses_scrcpy_bridge (A_Launch _ _ _) = True"
| "uses_scrcpy_bridge (A_SetClipboard _ _ _) = True"
| "uses_scrcpy_bridge (A_GamepadFrame _ _) = True"
| "uses_scrcpy_bridge (A_InjectRaw _ _) = True"
| "uses_scrcpy_bridge (A_TapSelector _ _) = False"
| "uses_scrcpy_bridge (A_Wait _ _) = False"
| "uses_scrcpy_bridge (A_GetUiRepr _ _) = False"
| "uses_scrcpy_bridge (A_DumpObservation _ _) = False"
| "uses_scrcpy_bridge (A_LocalizeText _ _ _) = False"
| "uses_scrcpy_bridge (A_DetectElement _ _ _ _) = False"
| "uses_scrcpy_bridge (A_Ground _ _ _) = False"
| "uses_scrcpy_bridge (A_AskVisual _ _ _) = False"

section \<open>Requests\<close>

text \<open>What ends a handler: an I/O error that it returns or a panic of its thread.\<close>

datatype dfault = D_Panicked | D_Io io_error

fun read_length :: "nat \<Rightarrow> byte list \<Rightarrow> u64 read" where
  \<comment> \<open>the loop over the length field; the first argument is the room left in its buffer of ten bytes\<close>
  "read_length 0 len_buf = read_fail (invalid_data ''varint > 10 B'' [])"
| "read_length (Suc room) len_buf = read_then (read_exact 1) (\<lambda>one.
     case decode_varint (len_buf @ one) of
       Some (value, _) \<Rightarrow> read_ret value
     | None \<Rightarrow> read_length room (len_buf @ one))"

definition capacity_overflow :: "u64 \<Rightarrow> bool" where
  \<comment> \<open>\<open>vec![0u8; n]\<close> panics when \<open>n\<close> is more than \<open>isize::MAX\<close>\<close>
  "capacity_overflow n \<longleftrightarrow> 2 ^ 63 \<le> unat n"

definition io_or :: "'a read \<Rightarrow> ('a \<Rightarrow> reader \<Rightarrow> (dfault + 'b) \<times> reader) \<Rightarrow> reader \<Rightarrow> (dfault + 'b) \<times> reader" where
  \<comment> \<open>the operator \<open>?\<close> on a read\<close>
  "io_or p f r = (case p r of (Inl e, r') \<Rightarrow> (Inl (D_Io e), r') | (Inr x, r') \<Rightarrow> f x r')"

definition read_request ::
    "(byte list \<Rightarrow> 'e + RequestPayload) \<Rightarrow> reader \<Rightarrow> (dfault + RequestPayload) \<times> reader" where
  "read_request from_bytes =
     io_or (read_exact 2) (\<lambda>header. case verb_from_byte (header ! 0) of
       None \<Rightarrow> (\<lambda>r. (Inl (D_Io (invalid_data ''unknown verb'' [])), r))
     | Some verb \<Rightarrow> io_or (read_length 10 []) (\<lambda>payload_len r.
         if capacity_overflow payload_len then (Inl D_Panicked, r)
         else io_or (read_exact (unat payload_len)) (\<lambda>payload r.
           (case decode_request from_bytes \<lparr>fr_verb = verb, fr_flags = 0, fr_payload = payload\<rparr> of
              Inl e \<Rightarrow> Inl (D_Io (invalid_data ''{postcard error}'' []))
            | Inr q \<Rightarrow> Inr q, r)) r))"

section \<open>The length field\<close>

lemma read_one: "read_exact 1 (Readers.at (b # bs) e) = (Inr [b], Readers.at bs e)" "read_exact 1 (Readers.at [] e) = (Inl e, Readers.at [] e)"
  by (simp_all add: read_exact_def)

lemma read_length_exact:
  assumes "decode_varint pre = None" "length pre + room = 10"
  shows "case decode_varint (pre @ bs) of
      Some (n, k) \<Rightarrow> length pre < k \<and> read_length room pre (Readers.at bs e) = (Inr n, Readers.at (drop (k - length pre) bs) e)
    | None \<Rightarrow> \<exists>x r. read_length room pre (Readers.at bs e) = (Inl x, r)"
  using assms
proof (induction room arbitrary: pre bs)
  case 0
  have "decode_varint (pre @ bs) = None"
  proof (rule ccontr)
    assume "decode_varint (pre @ bs) \<noteq> None"
    then obtain n k where nk: "decode_varint (pre @ bs) = Some (n, k)" by auto
    then have "k \<le> length pre" using decode_varint_bounds [OF nk] 0 by simp
    then have "decode_varint (take k pre) = Some (n, k)" using decode_varint_take [OF nk] by simp
    then have "decode_varint pre = Some (n, k)"
      using decode_varint_stable [of "take k pre" "(n, k)" "drop k pre"] by simp
    with 0 show False by simp
  qed
  then show ?case by (simp add: read_fail_def)
next
  case (Suc room)
  show ?case
  proof (cases bs)
    case Nil
    then show ?thesis using Suc.prems by (simp add: read_then_def read_one [unfolded One_nat_def])
  next
    case (Cons b bs')
    have step: "read_length (Suc room) pre (Readers.at bs e) = (case decode_varint (pre @ [b]) of
        Some (v, _) \<Rightarrow> (Inr v, Readers.at bs' e) | None \<Rightarrow> read_length room (pre @ [b]) (Readers.at bs' e))"
      by (simp add: Cons read_then_def read_one [unfolded One_nat_def] read_ret_def split: option.split)
    show ?thesis
    proof (cases "decode_varint (pre @ [b])")
      case None
      then show ?thesis
        using Suc.IH [OF None, of bs'] Suc.prems(2)
        by (auto simp: step [unfolded Cons] Cons drop_Cons' simp del: read_length.simps split: option.splits)
    next
      case (Some p)
      obtain v k where p: "p = (v, k)" by (cases p)
      have "decode_varint (pre @ bs) = Some (v, k)"
        using decode_varint_stable [OF Some, of bs'] by (simp add: Cons p)
      moreover have "k \<le> Suc (length pre)" using decode_varint_bounds [of "pre @ [b]" v k] Some p by simp
      moreover have "length pre < k"
      proof (rule ccontr)
        assume "\<not> length pre < k"
        then have "decode_varint (take k pre) = Some (v, k)" using decode_varint_take [of "pre @ [b]" v k] Some p by simp
        then have "decode_varint pre = Some (v, k)"
          using decode_varint_stable [of "take k pre" "(v, k)" "drop k pre"] by simp
        with Suc.prems show False by simp
      qed
      moreover from calculation have "k - length pre = 1" by simp
      ultimately show ?thesis by (simp add: step [unfolded Cons] Some p Cons del: read_length.simps)
    qed
  qed
qed

lemma read_length_field:
  "case decode_varint bs of
     Some (n, k) \<Rightarrow> read_length 10 [] (Readers.at bs e) = (Inr n, Readers.at (drop k bs) e)
   | None \<Rightarrow> \<exists>x r. read_length 10 [] (Readers.at bs e) = (Inl x, r)"
  using read_length_exact [of "[]" 10 bs e] by (auto simp: decode_varint_def split: option.splits)

section \<open>The reader agrees with the codec\<close>

lemma read_request_header:
  assumes "has_header buf v n k"
  shows "read_request from_bytes (Readers.at buf e) =
    (if capacity_overflow n then (Inl D_Panicked, Readers.at (drop (2 + k) buf) e)
     else if length buf < 2 + k + unat n then (Inl (D_Io e), Readers.at [] e)
     else ((case from_bytes (take (unat n) (drop (2 + k) buf)) of
         Inl _ \<Rightarrow> Inl (D_Io (invalid_data ''{postcard error}'' [])) | Inr q \<Rightarrow> Inr q),
       Readers.at (drop (2 + k + unat n) buf) e))"
proof -
  have h: "2 \<le> length buf" "verb_from_byte (buf ! 0) = Some v" "decode_varint (drop 2 buf) = Some (n, k)"
    using assms by (simp_all add: has_header_def)
  have len: "read_length 10 [] (Readers.at (drop 2 buf) e) = (Inr n, Readers.at (drop (2 + k) buf) e)"
    using read_length_field [of "drop 2 buf" e] h(3) by (simp add: add.commute)
  have two: "read_exact 2 (Readers.at buf e) = (Inr (take 2 buf), Readers.at (drop 2 buf) e)"
    using h(1) by (simp add: read_exact_def)
  show ?thesis
    using h assms
    by (auto simp: read_request_def io_or_def two len read_exact_def decode_request_def add.commute
        simp del: read_length.simps elim: has_headerE)
qed

lemma read_request_headless:
  assumes "\<And>v n k. \<not> has_header buf v n k"
  shows "\<exists>x r. read_request from_bytes (Readers.at buf e) = (Inl (D_Io x), r)"
proof (cases "2 \<le> length buf")
  case False
  then show ?thesis by (simp add: read_request_def io_or_def read_exact_def)
next
  case True
  then have two: "read_exact 2 (Readers.at buf e) = (Inr (take 2 buf), Readers.at (drop 2 buf) e)"
    by (simp add: read_exact_def)
  show ?thesis
  proof (cases "verb_from_byte (buf ! 0)")
    case None
    then show ?thesis using True by (simp add: read_request_def io_or_def two)
  next
    case (Some v)
    then have "decode_varint (drop 2 buf) = None"
      using assms True by (cases "decode_varint (drop 2 buf)") (auto simp: has_header_def)
    then obtain x r where "read_length 10 [] (Readers.at (drop 2 buf) e) = (Inl x, r)"
      using read_length_field [of "drop 2 buf" e] by auto
    then show ?thesis using Some True by (simp add: read_request_def io_or_def two del: read_length.simps)
  qed
qed

text \<open>A complete frame at the front of a buffer: the bytes it takes decode to it, and no fewer bytes do.\<close>

lemma has_header_front:
  assumes "has_header buf v n k" "2 + k + unat n \<le> length buf"
  shows "has_header (take (2 + k + unat n) buf) v n k"
proof -
  have "drop 2 (take (2 + k + unat n) buf) = take k (drop 2 buf) @ take (unat n) (drop (2 + k) buf)"
    using drop_take [of 2 "2 + (k + unat n)" buf] by (simp add: take_add add.commute)
  then have "decode_varint (drop 2 (take (2 + k + unat n) buf)) = Some (n, k)"
    using decode_varint_stable [OF decode_varint_take, of "drop 2 buf" n k "take (unat n) (drop (2 + k) buf)"] assms(1)
    by (simp only: has_header_def)
  with assms show ?thesis by (auto simp: has_header_def)
qed

lemma frame_front:
  assumes h: "has_header buf v n k" and total: "2 + k + unat n \<le> length buf" "2 + k + unat n < 2 ^ 64"
  shows "kernel_frame_decode (take (2 + k + unat n) buf) = kernel_frame_decode buf"
    and "strict_prefix part (take (2 + k + unat n) buf) \<Longrightarrow> kernel_frame_decode part = Inr None"
proof -
  note front = has_header_front [OF h total(1)]
  show "kernel_frame_decode (take (2 + k + unat n) buf) = kernel_frame_decode buf"
    unfolding frame_decode_cases [OF front] frame_decode_cases [OF h]
    using total h by (simp add: take_drop has_header_def add_ac)
  assume part: "strict_prefix part (take (2 + k + unat n) buf)"
  show "kernel_frame_decode part = Inr None"
  proof (cases "\<exists>v n k. has_header part v n k")
    case False
    then show ?thesis by (intro frame_decode_headless) blast
  next
    case True
    then obtain v' n' k' where p: "has_header part v' n' k'" by blast
    obtain missing where "take (2 + k + unat n) buf = part @ missing"
      using part by (auto simp: strict_prefix_def prefix_def)
    then have "has_header (take (2 + k + unat n) buf) v' n' k'" using has_header_append [OF p, of missing] by simp
    with front have "n' = n" "k' = k" by (simp_all add: has_header_def)
    moreover have "length part < 2 + k + unat n" using prefix_length_less [OF part] total(1) by simp
    ultimately show ?thesis using total(2) by (simp add: frame_decode_cases [OF p])
  qed
qed

text \<open>
  C40 (equivalence). The daemon reads from a stream what \<open>Frame::decode\<close> finds at the front of it. A frame with a
  payload below 2^63 bytes is taken off the stream, no byte more, and its payload decoded; where the codec asks
  for more bytes or gives up, so does the reader, with an error of the stream or of the input; the reader panics
  only on a declared length of 2^63 and more.
\<close>

theorem read_request_agrees:
  "case kernel_frame_decode buf of
     Inr (Some f) \<Rightarrow> length (fr_payload f) < 2 ^ 63 \<longrightarrow> (\<exists>used rest. buf = used @ rest \<and>
       kernel_frame_decode used = Inr (Some f) \<and> (\<forall>part. strict_prefix part used \<longrightarrow> kernel_frame_decode part = Inr None) \<and>
       read_request from_bytes (Readers.at buf e) =
         ((case decode_request from_bytes f of
             Inl _ \<Rightarrow> Inl (D_Io (invalid_data ''{postcard error}'' [])) | Inr q \<Rightarrow> Inr q), Readers.at rest e))
   | _ \<Rightarrow> (case fst (read_request from_bytes (Readers.at buf e)) of
       Inr q \<Rightarrow> False
     | Inl (D_Io x) \<Rightarrow> True
     | Inl D_Panicked \<Rightarrow> (\<exists>v n k. has_header buf v n k \<and> 2 ^ 63 \<le> unat n))"
proof (cases "\<exists>v n k. has_header buf v n k")
  case False
  then show ?thesis
    using frame_decode_headless [of buf] read_request_headless [of buf from_bytes e] by force
next
  case True
  then obtain v n k where h: "has_header buf v n k" by blast
  note r = read_request_header [OF h, of from_bytes e]
  show ?thesis
  proof (cases "2 ^ 64 \<le> 2 + k + unat n \<or> length buf < 2 + k + unat n")
    case True
    then have "k \<le> 10" using h by (auto elim: has_headerE)
    with True have "capacity_overflow n \<or> length buf < 2 + k + unat n"
      by (auto simp: capacity_overflow_def)
    with True h show ?thesis
      by (auto simp: frame_decode_cases [OF h] r capacity_overflow_def)
  next
    case False
    let ?f = "\<lparr>fr_verb = v, fr_flags = buf ! 1, fr_payload = take (unat n) (drop (2 + k) buf)\<rparr>"
    let ?used = "take (2 + k + unat n) buf" and ?rest = "drop (2 + k + unat n) buf"
    have f: "kernel_frame_decode buf = Inr (Some ?f)" using False by (simp add: frame_decode_cases [OF h])
    have "length (fr_payload ?f) = unat n" using False by (simp add: min_def) linarith
    show ?thesis
      unfolding f sum.case option.case
    proof (rule impI, rule exI [of _ ?used], rule exI [of _ ?rest], intro conjI allI impI)
      assume "length (fr_payload ?f) < 2 ^ 63"
      with \<open>length _ = unat n\<close> False show "read_request from_bytes (Readers.at buf e) =
          ((case decode_request from_bytes ?f of
             Inl _ \<Rightarrow> Inl (D_Io (invalid_data ''{postcard error}'' [])) | Inr q \<Rightarrow> Inr q), Readers.at ?rest e)"
        by (simp add: r decode_request_def capacity_overflow_def)
    qed (use frame_front [OF h] False f in simp_all)
  qed
qed

lemma same_end:
  assumes "prefix us (vs @ ws)" "\<not> strict_prefix vs us" "\<not> strict_prefix us vs"
  shows "us = vs"
  using prefix_same_cases [OF assms(1) prefixI [OF refl]] assms(2,3) by (auto simp: strict_prefix_def)

theorem read_request_agrees_witness:
  "read_request (\<lambda>_. Inr (RQ_Query True False True) :: unit + RequestPayload)
      (Readers.at [0x04, 0x40, 3, 7, 8, 9, 1, 2] cursor_end) =
     (Inr (RQ_Query True False True), Readers.at [1, 2] cursor_end)"
proof -
  let ?f = "\<lparr>fr_verb = V_Query, fr_flags = WAIT_GROUND_TRUTH, fr_payload = [7, 8, 9]\<rparr>"
  have "kernel_frame_encode ?f = [0x04, 0x40, 3, 7, 8, 9]"
    by (simp add: kernel_frame_encode_def WAIT_GROUND_TRUTH_def encode_varint.simps [of _ 3])
  then have front: "kernel_frame_decode [0x04, 0x40, 3, 7, 8, 9] = Inr (Some ?f)"
    "kernel_frame_decode [0x04, 0x40, 3, 7, 8, 9, 1, 2] = Inr (Some ?f)"
    using frame_decode_encode [of ?f "[]"] frame_decode_encode [of ?f "[1, 2]"] by simp_all
  obtain used rest where split: "[0x04, 0x40, 3, 7, 8, 9, 1, 2] = used @ rest"
    "kernel_frame_decode used = Inr (Some ?f)" "\<forall>part. strict_prefix part used \<longrightarrow> kernel_frame_decode part = Inr None"
    "read_request (\<lambda>_. Inr (RQ_Query True False True) :: unit + RequestPayload)
       (Readers.at [0x04, 0x40, 3, 7, 8, 9, 1, 2] cursor_end) = (Inr (RQ_Query True False True), Readers.at rest cursor_end)"
    using read_request_agrees [of "[0x04, 0x40, 3, 7, 8, 9, 1, 2]" "\<lambda>_. Inr (RQ_Query True False True) :: unit + RequestPayload" cursor_end]
    by (auto simp: front decode_request_def)
  have "used = [0x04, 0x40, 3, 7, 8, 9]"
  proof (rule same_end)
    show "prefix used ([0x04, 0x40, 3, 7, 8, 9] @ [1, 2])" using split(1) by (intro prefixI) (simp only: append.simps)
    show "\<not> strict_prefix [0x04, 0x40, 3, 7, 8, 9] used" using split(3) front(1) by auto
    show "\<not> strict_prefix used [0x04, 0x40, 3, 7, 8, 9]"
      using frame_encode_partial [of ?f used] split(2) \<open>kernel_frame_encode ?f = _\<close> by auto
  qed
  then have "rest = [1, 2]" using split(1) by simp
  with split(4) show ?thesis by (simp only:)
qed

end
