(* ===== verification/Device_Async.thy ===== *)
theory Device_Async
  imports Device_Stream
begin

text \<open>
  \<^verbatim>\<open>src/src/async_device.rs\<close>: the Tokio counterpart of \<open>Device\<close>. Tokio is third-party code: its
  \<open>read_exact\<close> is the parameter \<open>rx\<close> of the readers, and the locale \<open>async_reader\<close> states what it documents:
  however the bytes arrive, it gives what the blocking \<open>read_exact\<close> gives on all of them. The loops are
  partial functions, since nothing bounds an arbitrary reader; that they return is a theorem. Awaiting is
  sequencing: an \<open>async\<close> function is resumed where it was suspended, with the stream as it left it.
\<close>

section \<open>Readers\<close>

type_synonym ('r, 'a) aread = "'r \<Rightarrow> (io_error + 'a) \<times> 'r"

definition aread_then :: "('r, 'a) aread \<Rightarrow> ('a \<Rightarrow> ('r, 'b) aread) \<Rightarrow> ('r, 'b) aread" where
  \<comment> \<open>\<open>.await?\<close>\<close>
  "aread_then p f r = (case p r of (Inl e, r') \<Rightarrow> (Inl e, r') | (Inr x, r') \<Rightarrow> f x r')"

definition aread_ret :: "'a \<Rightarrow> ('r, 'a) aread" where
  "aread_ret x r = (Inr x, r)"

definition aread_fail :: "io_error \<Rightarrow> ('r, 'a) aread" where
  "aread_fail e r = (Inl e, r)"

definition aread_word :: "(nat \<Rightarrow> ('r, byte list) aread) \<Rightarrow> ('r, 'a::len word) aread" where
  \<comment> \<open>\<open>read_u8\<close>, \<open>read_u16_be\<close>, \<open>read_u32_be\<close>, \<open>read_u64_be\<close>\<close>
  "aread_word rx = aread_then (rx (LENGTH('a) div 8)) (\<lambda>bs. aread_ret (from_be_bytes bs))"

definition aread_payload :: "(nat \<Rightarrow> ('r, byte list) aread) \<Rightarrow> nat \<Rightarrow> ('r, byte list) aread" where
  "aread_payload rx len = (if 0 < len then rx len else aread_ret [])"

definition read_clipboard_async :: "(nat \<Rightarrow> ('r, byte list) aread) \<Rightarrow> ('r, DeviceMessage) aread" where
  "read_clipboard_async rx =
     aread_then (aread_word rx) (\<lambda>len :: u32.
       if DEVICE_MSG_TEXT_MAX_LENGTH < unat len
       then aread_fail (invalid_data ''clipboard payload too large: {} bytes (max {})'' [unat len, DEVICE_MSG_TEXT_MAX_LENGTH])
       else aread_then (aread_payload rx (unat len)) (\<lambda>payload.
         case from_utf8 payload of
           None \<Rightarrow> aread_fail (invalid_data ''{utf8 error}'' [])
         | Some t \<Rightarrow> aread_ret (DM_Clipboard t)))"

definition read_ack_clipboard_async :: "(nat \<Rightarrow> ('r, byte list) aread) \<Rightarrow> ('r, DeviceMessage) aread" where
  "read_ack_clipboard_async rx = aread_then (aread_word rx) (\<lambda>n. aread_ret (DM_AckClipboard n))"

definition read_uhid_output_async :: "(nat \<Rightarrow> ('r, byte list) aread) \<Rightarrow> ('r, DeviceMessage) aread" where
  "read_uhid_output_async rx =
     aread_then (aread_word rx) (\<lambda>i. aread_then (aread_word rx) (\<lambda>size :: u16.
       if DEVICE_MSG_MAX_SIZE - 5 < unat size
       then aread_fail (invalid_data ''uhid output payload too large: {} bytes (max {})'' [unat size, DEVICE_MSG_MAX_SIZE - 5])
       else aread_then (aread_payload rx (unat size)) (\<lambda>data. aread_ret (DM_UhidOutput i data))))"

definition alift_parse :: "error + 'a \<Rightarrow> ('r, 'a) aread" where
  \<comment> \<open>\<open>.map_err(ai_error_to_io)\<close>\<close>
  "alift_parse x = (case x of Inl e \<Rightarrow> aread_fail (ai_error_to_io e) | Inr v \<Rightarrow> aread_ret v)"

definition read_ai_or_unknown_envelope_async ::
    "(nat \<Rightarrow> ('r, byte list) aread) \<Rightarrow> u8 \<Rightarrow> ('r, DeviceEvent) aread" where
  "read_ai_or_unknown_envelope_async rx ty =
     aread_then (aread_word rx) (\<lambda>len :: u32.
       if DEVICE_MSG_MAX_SIZE - 5 < unat len
       then aread_fail (invalid_data ''device event payload too large: {} bytes (max {})'' [unat len, DEVICE_MSG_MAX_SIZE - 5])
       else aread_then (aread_payload rx (unat len)) (\<lambda>payload.
         if ty = TYPE_FRAME_SUMMARY then aread_then (alift_parse (frame_summary_parse payload)) (\<lambda>s. aread_ret (DE_FrameSummary s))
         else if ty = TYPE_AI_STATS then aread_then (alift_parse (ai_stats_parse payload)) (\<lambda>s. aread_ret (DE_AiStats s))
         else aread_ret (DE_UnknownEnvelope ty payload)))"

definition read_device_message_async :: "(nat \<Rightarrow> ('r, byte list) aread) \<Rightarrow> ('r, DeviceMessage) aread" where
  "read_device_message_async rx =
     aread_then (aread_word rx) (\<lambda>ty.
       if ty = TYPE_CLIPBOARD then read_clipboard_async rx
       else if ty = TYPE_ACK_CLIPBOARD then read_ack_clipboard_async rx
       else if ty = TYPE_UHID_OUTPUT then read_uhid_output_async rx
       else aread_fail (invalid_data ''unknown device message type {}'' [unat ty]))"

definition anative :: "('r, DeviceMessage) aread \<Rightarrow> ('r, DeviceEvent) aread" where
  \<comment> \<open>\<open>.map(DeviceEvent::Native)\<close>\<close>
  "anative p = aread_then p (\<lambda>m. aread_ret (DE_Native m))"

definition read_device_event_async :: "(nat \<Rightarrow> ('r, byte list) aread) \<Rightarrow> ('r, DeviceEvent) aread" where
  "read_device_event_async rx =
     aread_then (aread_word rx) (\<lambda>ty.
       if ty = TYPE_CLIPBOARD then anative (read_clipboard_async rx)
       else if ty = TYPE_ACK_CLIPBOARD then anative (read_ack_clipboard_async rx)
       else if ty = TYPE_UHID_OUTPUT then anative (read_uhid_output_async rx)
       else read_ai_or_unknown_envelope_async rx ty)"

definition read_scrcpy_control_prefix_async :: "(nat \<Rightarrow> ('r, byte list) aread) \<Rightarrow> ('r, ScrcpyControlPrefix) aread" where
  "read_scrcpy_control_prefix_async rx =
     aread_then (aread_word rx) (\<lambda>dummy. aread_then (rx DEVICE_NAME_FIELD_LENGTH) (\<lambda>raw.
       let name_len = (case position (\<lambda>b. b = 0) raw of Some i \<Rightarrow> i | None \<Rightarrow> DEVICE_NAME_FIELD_LENGTH)
       in aread_ret \<lparr>cp_dummy_byte = dummy, cp_device_name = from_utf8_lossy (take name_len raw), cp_raw_device_name = raw\<rparr>))"

section \<open>Background tasks\<close>

text \<open>A bounded Tokio channel delivers in order and reports a dropped receiver: the \<open>channel\<close> of \<open>Device\<close>.\<close>

partial_function (option) async_device_message_loop ::
    "(nat \<Rightarrow> ('r, byte list) aread) \<Rightarrow> 'r \<Rightarrow> DeviceMessage channel \<Rightarrow> ('r \<times> DeviceMessage channel) option" where
  "async_device_message_loop rx r ch = (case read_device_message_async rx r of
     (Inr msg, r') \<Rightarrow> (case send (Inr msg) ch of
        (sent, ch') \<Rightarrow> if sent then async_device_message_loop rx r' ch' else Some (r', ch'))
   | (Inl e, r') \<Rightarrow> Some (r', snd (send (Inl e) ch)))"

partial_function (option) async_device_event_loop ::
    "(nat \<Rightarrow> ('r, byte list) aread) \<Rightarrow> 'r \<Rightarrow> DeviceEvent channel \<Rightarrow> ('r \<times> DeviceEvent channel) option" where
  "async_device_event_loop rx r ch = (case read_device_event_async rx r of
     (Inr event, r') \<Rightarrow> (case send (Inr event) ch of
        (sent, ch') \<Rightarrow> if sent then async_device_event_loop rx r' ch' else Some (r', ch'))
   | (Inl e, r') \<Rightarrow> Some (r', snd (send (Inl e) ch)))"

text \<open>The pump: the values of the watch channel at each turn; \<open>alive\<close> is the number of turns after which the
  last receiver is gone.\<close>

partial_function (option) async_latest_frame_summary_loop ::
    "(nat \<Rightarrow> ('r, byte list) aread) \<Rightarrow> nat option \<Rightarrow> 'r \<Rightarrow> LatestFrameSummaryState \<Rightarrow>
     ('r \<times> LatestFrameSummaryState list) option" where
  "async_latest_frame_summary_loop rx alive r st =
     (if alive = Some 0 then Some (r, [st])
      else case read_device_event_async rx r of
        (Inr event, r') \<Rightarrow>
          (let st' = (case event of DE_FrameSummary summary \<Rightarrow> store_summary summary st | _ \<Rightarrow> st)
           in Option.bind (async_latest_frame_summary_loop rx (map_option (\<lambda>n. n - 1) alive) r' st')
                (\<lambda>(r'', sts). Some (r'', st # sts)))
      | (Inl e, r') \<Rightarrow> Some (r', [st, store_terminal_error e st]))"

section \<open>Waiting\<close>

text \<open>
  A waiter looks at the values it is woken for. \<open>closed\<close>: the sender is gone after them, which \<open>changed()\<close>
  reports; otherwise the task is still waiting (\<open>None\<close>).
\<close>

fun async_wait_matching ::
    "bool \<Rightarrow> (LatestFrameSummarySnapshot \<Rightarrow> bool) \<Rightarrow> LatestFrameSummaryState list \<Rightarrow>
     (io_error + LatestFrameSummarySnapshot) option" where
  "async_wait_matching closed p [] =
     (if closed then Some (Inl (IoError BrokenPipe ''async latest frame receiver closed'' [])) else None)"
| "async_wait_matching closed p (st # sts) = (case check_state p st of
     Some res \<Rightarrow> Some res | None \<Rightarrow> async_wait_matching closed p sts)"

definition async_wait_next_matching ::
    "bool \<Rightarrow> u64 \<Rightarrow> (LatestFrameSummarySnapshot \<Rightarrow> bool) \<Rightarrow> LatestFrameSummaryState list \<Rightarrow>
     (io_error + LatestFrameSummarySnapshot) option" where
  "async_wait_next_matching closed v p sts = async_wait_matching closed (\<lambda>sn. v < ls_version sn \<and> p sn) sts"

definition async_wait_next ::
    "bool \<Rightarrow> u64 \<Rightarrow> LatestFrameSummaryState list \<Rightarrow> (io_error + LatestFrameSummarySnapshot) option" where
  "async_wait_next closed v sts = async_wait_next_matching closed v (\<lambda>_. True) sts"

definition async_wait_next_after_boundary ::
    "bool \<Rightarrow> boundary \<Rightarrow> LatestFrameSummaryState list \<Rightarrow> (io_error + LatestFrameSummarySnapshot) option" where
  "async_wait_next_after_boundary closed b sts = async_wait_next closed b sts"

definition async_wait_next_after_observation ::
    "bool \<Rightarrow> LatestFrameSummaryObservation \<Rightarrow> LatestFrameSummaryState list \<Rightarrow>
     (io_error + LatestFrameSummarySnapshot) option" where
  "async_wait_next_after_observation closed ob sts = async_wait_next_after_boundary closed (lo_boundary ob) sts"

definition async_wait_next_matching_after_boundary ::
    "bool \<Rightarrow> boundary \<Rightarrow> (LatestFrameSummarySnapshot \<Rightarrow> bool) \<Rightarrow> LatestFrameSummaryState list \<Rightarrow>
     (io_error + LatestFrameSummarySnapshot) option" where
  "async_wait_next_matching_after_boundary closed b p sts = async_wait_next_matching closed b p sts"

definition async_wait_next_matching_after_observation ::
    "bool \<Rightarrow> LatestFrameSummaryObservation \<Rightarrow> (LatestFrameSummarySnapshot \<Rightarrow> bool) \<Rightarrow>
     LatestFrameSummaryState list \<Rightarrow> (io_error + LatestFrameSummarySnapshot) option" where
  "async_wait_next_matching_after_observation closed ob p sts =
     async_wait_next_matching_after_boundary closed (lo_boundary ob) p sts"

definition async_wait_first ::
    "bool \<Rightarrow> LatestFrameSummaryState list \<Rightarrow> (io_error + LatestFrameSummarySnapshot) option" where
  "async_wait_first closed sts = async_wait_next closed 0 sts"

definition async_wait_after_frame_seq ::
    "bool \<Rightarrow> u32 \<Rightarrow> LatestFrameSummaryState list \<Rightarrow> (io_error + LatestFrameSummarySnapshot) option" where
  "async_wait_after_frame_seq closed n sts = async_wait_matching closed (\<lambda>sn. n < fs_frame_seq (ls_summary sn)) sts"

definition async_wait_after_timestamp ::
    "bool \<Rightarrow> u64 \<Rightarrow> LatestFrameSummaryState list \<Rightarrow> (io_error + LatestFrameSummarySnapshot) option" where
  "async_wait_after_timestamp closed n sts = async_wait_matching closed (\<lambda>sn. n < fs_timestamp_ms (ls_summary sn)) sts"

text \<open>\<open>tokio::time::timeout\<close> polls the waiter first and then the timer; \<open>elapsed\<close> is the number of wake-ups
  before the one at which the deadline has passed (\<open>None\<close>: it does not pass).\<close>

definition async_wait_matching_timeout ::
    "nat option \<Rightarrow> bool \<Rightarrow> (LatestFrameSummarySnapshot \<Rightarrow> bool) \<Rightarrow> LatestFrameSummaryState list \<Rightarrow>
     (io_error + LatestFrameSummarySnapshot) option" where
  "async_wait_matching_timeout elapsed closed p sts =
     (case elapsed of
        None \<Rightarrow> async_wait_matching closed p sts
      | Some k \<Rightarrow> (case async_wait_matching (closed \<and> length sts \<le> k) p (take (Suc k) sts) of
           Some res \<Rightarrow> Some res
         | None \<Rightarrow> Some (Inl (IoError TimedOut ''async latest frame summary timeout'' []))))"

definition async_wait_next_matching_timeout ::
    "nat option \<Rightarrow> bool \<Rightarrow> u64 \<Rightarrow> (LatestFrameSummarySnapshot \<Rightarrow> bool) \<Rightarrow> LatestFrameSummaryState list \<Rightarrow>
     (io_error + LatestFrameSummarySnapshot) option" where
  "async_wait_next_matching_timeout elapsed closed v p sts =
     async_wait_matching_timeout elapsed closed (\<lambda>sn. v < ls_version sn \<and> p sn) sts"

definition async_wait_next_timeout ::
    "nat option \<Rightarrow> bool \<Rightarrow> u64 \<Rightarrow> LatestFrameSummaryState list \<Rightarrow> (io_error + LatestFrameSummarySnapshot) option" where
  "async_wait_next_timeout elapsed closed v sts = async_wait_next_matching_timeout elapsed closed v (\<lambda>_. True) sts"

definition async_wait_after_frame_seq_timeout ::
    "nat option \<Rightarrow> bool \<Rightarrow> u32 \<Rightarrow> LatestFrameSummaryState list \<Rightarrow> (io_error + LatestFrameSummarySnapshot) option" where
  "async_wait_after_frame_seq_timeout elapsed closed n sts =
     async_wait_matching_timeout elapsed closed (\<lambda>sn. n < fs_frame_seq (ls_summary sn)) sts"

definition async_wait_after_timestamp_timeout ::
    "nat option \<Rightarrow> bool \<Rightarrow> u64 \<Rightarrow> LatestFrameSummaryState list \<Rightarrow> (io_error + LatestFrameSummarySnapshot) option" where
  "async_wait_after_timestamp_timeout elapsed closed n sts =
     async_wait_matching_timeout elapsed closed (\<lambda>sn. n < fs_timestamp_ms (ls_summary sn)) sts"

definition async_wait_next_after_boundary_timeout ::
    "nat option \<Rightarrow> bool \<Rightarrow> boundary \<Rightarrow> LatestFrameSummaryState list \<Rightarrow> (io_error + LatestFrameSummarySnapshot) option" where
  "async_wait_next_after_boundary_timeout elapsed closed b sts = async_wait_next_timeout elapsed closed b sts"

definition async_wait_next_after_observation_timeout ::
    "nat option \<Rightarrow> bool \<Rightarrow> LatestFrameSummaryObservation \<Rightarrow> LatestFrameSummaryState list \<Rightarrow>
     (io_error + LatestFrameSummarySnapshot) option" where
  "async_wait_next_after_observation_timeout elapsed closed ob sts =
     async_wait_next_after_boundary_timeout elapsed closed (lo_boundary ob) sts"

definition async_wait_next_matching_after_boundary_timeout ::
    "nat option \<Rightarrow> bool \<Rightarrow> boundary \<Rightarrow> (LatestFrameSummarySnapshot \<Rightarrow> bool) \<Rightarrow> LatestFrameSummaryState list \<Rightarrow>
     (io_error + LatestFrameSummarySnapshot) option" where
  "async_wait_next_matching_after_boundary_timeout elapsed closed b p sts =
     async_wait_next_matching_timeout elapsed closed b p sts"

definition async_wait_next_matching_after_observation_timeout ::
    "nat option \<Rightarrow> bool \<Rightarrow> LatestFrameSummaryObservation \<Rightarrow> (LatestFrameSummarySnapshot \<Rightarrow> bool) \<Rightarrow>
     LatestFrameSummaryState list \<Rightarrow> (io_error + LatestFrameSummarySnapshot) option" where
  "async_wait_next_matching_after_observation_timeout elapsed closed ob p sts =
     async_wait_next_matching_after_boundary_timeout elapsed closed (lo_boundary ob) p sts"

definition async_wait_first_timeout ::
    "nat option \<Rightarrow> bool \<Rightarrow> LatestFrameSummaryState list \<Rightarrow> (io_error + LatestFrameSummarySnapshot) option" where
  "async_wait_first_timeout elapsed closed sts = async_wait_next_timeout elapsed closed 0 sts"

section \<open>The contract of the reader\<close>

locale async_reader =
  fixes rx :: "nat \<Rightarrow> ('r, byte list) aread" and content :: "'r \<Rightarrow> reader"
  assumes rx_exact: "rx n r = (x, r') \<Longrightarrow> read_exact n (content r) = (x, content r')"
begin

definition reads_as :: "('r, 'a) aread \<Rightarrow> 'a read \<Rightarrow> bool" where
  "reads_as p q \<longleftrightarrow> (\<forall>r. q (content r) = (fst (p r), content (snd (p r))))"

lemma reads_as_rx: "reads_as (rx n) (read_exact n)"
  unfolding reads_as_def using rx_exact by (metis prod.collapse)

lemma reads_as_then:
  assumes "reads_as p q" "\<And>x. reads_as (f x) (g x)"
  shows "reads_as (aread_then p f) (read_then q g)"
  using assms unfolding reads_as_def
  by (auto simp: aread_then_def read_then_def split: prod.split sum.split)

lemma reads_as_basic: "reads_as (aread_ret x) (read_ret x)" "reads_as (aread_fail e) (read_fail e)"
  by (simp_all add: reads_as_def aread_ret_def aread_fail_def read_ret_def read_fail_def)

lemma reads_as_if: "reads_as p q \<Longrightarrow> reads_as p' q' \<Longrightarrow> reads_as (if b then p else p') (if b then q else q')"
  by simp

lemma reads_as_word: "reads_as (aread_word rx) read_word"
  unfolding aread_word_def read_word_def by (intro reads_as_then reads_as_rx reads_as_basic)

lemma reads_as_payload: "reads_as (aread_payload rx n) (read_payload n)"
  unfolding aread_payload_def read_payload_def by (intro reads_as_if reads_as_rx reads_as_basic)

lemma reads_as_parse: "reads_as (alift_parse x) (lift_parse x)"
  by (cases x) (simp_all add: alift_parse_def lift_parse_def reads_as_basic)

lemmas reads_as_intros = reads_as_then reads_as_if reads_as_word reads_as_payload reads_as_parse reads_as_basic

lemma reads_as_text:
  "reads_as (case from_utf8 bs of None \<Rightarrow> aread_fail e | Some t \<Rightarrow> aread_ret (f t))
     (case from_utf8 bs of None \<Rightarrow> read_fail e | Some t \<Rightarrow> read_ret (f t))"
  by (simp add: reads_as_basic split: option.split)

lemma reads_as_native:
  "reads_as (read_clipboard_async rx) read_clipboard"
  "reads_as (read_ack_clipboard_async rx) read_ack_clipboard"
  "reads_as (read_uhid_output_async rx) read_uhid_output"
  unfolding read_clipboard_async_def read_clipboard_def read_ack_clipboard_async_def read_ack_clipboard_def
    read_uhid_output_async_def read_uhid_output_def
  by (intro reads_as_intros reads_as_text)+

lemma reads_as_message: "reads_as (read_device_message_async rx) read_device_message"
  unfolding read_device_message_async_def read_device_message_def
  by (intro reads_as_intros reads_as_native)

lemma reads_as_event: "reads_as (read_device_event_async rx) read_device_event"
  unfolding read_device_event_async_def read_device_event_def anative_def as_native_def
    read_ai_or_unknown_envelope_async_def read_ai_or_unknown_envelope_def
  by (intro reads_as_intros reads_as_native)

lemma reads_as_prefix: "reads_as (read_scrcpy_control_prefix_async rx) read_scrcpy_control_prefix"
  unfolding read_scrcpy_control_prefix_async_def read_scrcpy_control_prefix_def Let_def
  by (intro reads_as_intros reads_as_rx)

lemma message_loop_reads_as:
  "\<exists>r' ch'. async_device_message_loop rx r ch = Some (r', ch') \<and> device_message_loop (content r) ch = (content r', ch')"
proof (induction "length (avail (content r))" arbitrary: r ch rule: less_induct)
  case less
  obtain x r1 where p: "read_device_message_async rx r = (x, r1)" by fastforce
  then have q: "read_device_message (content r) = (x, content r1)"
    using reads_as_message by (simp add: reads_as_def)
  show ?case
  proof (cases x)
    case (Inl e)
    with p q show ?thesis
      by (subst async_device_message_loop.simps, subst device_message_loop.simps) simp
  next
    case (Inr m)
    obtain sent ch1 where c: "send (Inr m) ch = (sent, ch1)" by fastforce
    from q Inr have "length (avail (content r1)) < length (avail (content r))" by (simp add: message_consumed)
    from less [OF this, of ch1] p q Inr c show ?thesis
      by (cases sent) (subst async_device_message_loop.simps, subst device_message_loop.simps, simp)+
  qed
qed

lemma event_loop_reads_as:
  "\<exists>r' ch'. async_device_event_loop rx r ch = Some (r', ch') \<and> device_event_loop (content r) ch = (content r', ch')"
proof (induction "length (avail (content r))" arbitrary: r ch rule: less_induct)
  case less
  obtain x r1 where p: "read_device_event_async rx r = (x, r1)" by fastforce
  then have q: "read_device_event (content r) = (x, content r1)"
    using reads_as_event by (simp add: reads_as_def)
  show ?case
  proof (cases x)
    case (Inl e)
    with p q show ?thesis
      by (subst async_device_event_loop.simps, subst device_event_loop.simps) simp
  next
    case (Inr m)
    obtain sent ch1 where c: "send (Inr m) ch = (sent, ch1)" by fastforce
    from q Inr have "length (avail (content r1)) < length (avail (content r))" by (simp add: event_consumed)
    from less [OF this, of ch1] p q Inr c show ?thesis
      by (cases sent) (subst async_device_event_loop.simps, subst device_event_loop.simps, simp)+
  qed
qed

lemma latest_loop_reads_as:
  "\<exists>r' sts. async_latest_frame_summary_loop rx alive r st = Some (r', sts) \<and>
     latest_frame_summary_loop alive (content r) st = (content r', sts)"
proof (induction "length (avail (content r))" arbitrary: r st alive rule: less_induct)
  case less
  obtain x r1 where p: "read_device_event_async rx r = (x, r1)" by fastforce
  then have q: "read_device_event (content r) = (x, content r1)"
    using reads_as_event by (simp add: reads_as_def)
  note unfold = async_latest_frame_summary_loop.simps [of rx alive r st] latest_frame_summary_loop.simps [of alive "content r" st]
  show ?case
  proof (cases "alive = Some 0")
    case True
    with unfold show ?thesis by simp
  next
    case False
    show ?thesis
    proof (cases x)
      case (Inl e)
      with False p q show ?thesis by (simp add: unfold)
    next
      case (Inr ev)
      let ?st = "case ev of DE_FrameSummary summary \<Rightarrow> store_summary summary st | _ \<Rightarrow> st"
      from q Inr have "length (avail (content r1)) < length (avail (content r))" by (simp add: event_consumed)
      from less [OF this, of "map_option (\<lambda>n. n - 1) alive" ?st] obtain r2 sts where
        "async_latest_frame_summary_loop rx (map_option (\<lambda>n. n - 1) alive) r1 ?st = Some (r2, sts)"
        "latest_frame_summary_loop (map_option (\<lambda>n. n - 1) alive) (content r1) ?st = (content r2, sts)"
        by blast
      with False p q Inr show ?thesis by (simp add: unfold)
    qed
  qed
qed

end

text \<open>
  Tokio's \<open>read_exact\<close> on a stream whose bytes arrive in pieces: it polls until the buffer is full, and an
  exhausted stream is its final error.
\<close>

record pieces =
  pc_chunks :: "byte list list"
  pc_end :: io_error

fun poll_exact :: "nat \<Rightarrow> byte list \<Rightarrow> byte list list \<Rightarrow> byte list option \<times> byte list list" where
  \<comment> \<open>the buffer so far, and what is left of the pieces\<close>
  "poll_exact n acc [] = (if n \<le> length acc then (Some acc, []) else (None, []))"
| "poll_exact n acc (c # cs) =
     (if n \<le> length acc then (Some acc, c # cs)
      else if length acc + length c \<le> n then poll_exact n (acc @ c) cs
      else (Some (acc @ take (n - length acc) c), drop (n - length acc) c # cs))"

definition pieces_exact :: "nat \<Rightarrow> (pieces, byte list) aread" where
  "pieces_exact n r = (case poll_exact n [] (pc_chunks r) of
     (Some bs, cs) \<Rightarrow> (Inr bs, r\<lparr>pc_chunks := cs\<rparr>)
   | (None, cs) \<Rightarrow> (Inl (pc_end r), r\<lparr>pc_chunks := cs\<rparr>))"

definition pieces_content :: "pieces \<Rightarrow> reader" where
  "pieces_content r = \<lparr>avail = concat (pc_chunks r), at_end = pc_end r\<rparr>"

lemma poll_exact_result:
  "length acc \<le> n \<Longrightarrow> poll_exact n acc cs = (x, cs') \<Longrightarrow>
     (if n \<le> length acc + length (concat cs)
      then x = Some (take n (acc @ concat cs)) \<and> concat cs' = drop n (acc @ concat cs)
      else x = None \<and> cs' = [])"
proof (induction cs arbitrary: acc)
  case (Cons c cs)
  show ?case
  proof (cases "length acc + length c \<le> n \<and> length acc < n")
    case True
    then show ?thesis using Cons.IH [of "acc @ c"] Cons.prems by (simp add: not_le)
  next
    case False
    with Cons.prems show ?thesis by (auto split: if_splits)
  qed
qed (auto split: if_splits)

interpretation tokio: async_reader pieces_exact pieces_content
proof unfold_locales
  fix n r x r'
  assume "pieces_exact n r = (x, r')"
  then show "read_exact n (pieces_content r) = (x, pieces_content r')"
    using poll_exact_result [of "[]" n "pc_chunks r"]
    by (auto simp: pieces_exact_def pieces_content_def read_exact_def split: prod.splits option.splits if_splits)
qed

section \<open>Properties\<close>

lemma async_wait_hit:
  "async_wait_matching closed p sts = (case wait_matching p sts of
     Some res \<Rightarrow> Some res
   | None \<Rightarrow> if closed then Some (Inl (IoError BrokenPipe ''async latest frame receiver closed'' [])) else None)"
  by (induction sts) (auto split: option.splits)

text \<open>
  C38 (equivalence). The Tokio receivers do what the blocking ones do, on every stream and however its bytes
  arrive: a message, an event and the control prefix are read alike and leave the same bytes, and the three
  background tasks return, having delivered what the blocking loops deliver. A waiter answers as the blocking
  one does, and where that one would wait on, it reports that the sender is gone.
\<close>

theorem async_receivers_agree:
  assumes "async_reader rx content"
  shows "read_device_message (content r) = (fst (read_device_message_async rx r), content (snd (read_device_message_async rx r))) \<and>
    read_device_event (content r) = (fst (read_device_event_async rx r), content (snd (read_device_event_async rx r))) \<and>
    read_scrcpy_control_prefix (content r) =
      (fst (read_scrcpy_control_prefix_async rx r), content (snd (read_scrcpy_control_prefix_async rx r))) \<and>
    (\<exists>r1 ch1. async_device_message_loop rx r ch = Some (r1, ch1) \<and> device_message_loop (content r) ch = (content r1, ch1)) \<and>
    (\<exists>r2 ch2. async_device_event_loop rx r ch' = Some (r2, ch2) \<and> device_event_loop (content r) ch' = (content r2, ch2)) \<and>
    (\<exists>r3 sts. async_latest_frame_summary_loop rx alive r st = Some (r3, sts) \<and>
      latest_frame_summary_loop alive (content r) st = (content r3, sts) \<and>
      async_wait_matching True p sts = (case wait_matching p sts of Some res \<Rightarrow> Some res
        | None \<Rightarrow> Some (Inl (IoError BrokenPipe ''async latest frame receiver closed'' []))))"
  using async_reader.reads_as_message [OF assms] async_reader.reads_as_event [OF assms] async_reader.reads_as_prefix [OF assms]
    async_reader.message_loop_reads_as [OF assms, of r ch] async_reader.event_loop_reads_as [OF assms, of r ch']
    async_reader.latest_loop_reads_as [OF assms, of alive r st]
  unfolding async_reader.reads_as_def [OF assms] by (simp add: async_wait_hit)

theorem async_receivers_agree_witness:
  "\<exists>r' ch'. async_device_event_loop pieces_exact \<lparr>pc_chunks = [[1, 0, 0], [0, 0, 0, 0], [0, 7]], pc_end = cursor_end\<rparr>
       \<lparr>ch_items = [], ch_left = None\<rparr> = Some (r', ch') \<and>
     device_event_loop (at [1, 0, 0, 0, 0, 0, 0, 0, 7] cursor_end) \<lparr>ch_items = [], ch_left = None\<rparr> =
       (pieces_content r', ch')"
  using async_receivers_agree [OF tokio.async_reader_axioms,
      where r = "\<lparr>pc_chunks = [[1, 0, 0], [0, 0, 0, 0], [0, 7]], pc_end = cursor_end\<rparr>" and
        ch' = "\<lparr>ch_items = [], ch_left = None\<rparr>"]
  by (simp add: pieces_content_def)

end
