(* ===== verification/Spec2Isabelle.thy ===== *)
theory Spec2Isabelle
  imports Wire_Format Keyboard Mouse Gamepad Coalesce_Stream Session_Input Multitouch_Track Gamepad_Ring Kvs Protocol Device_Stream
    Kernel_Plan Kernel_Memory Kernel_Policy Client_Ring Kernel_Request Device_Async
begin

text \<open>
  Verification of android-hid-connect, a Rust library with which a host drives an Android phone: it speaks the
  control protocol of scrcpy over a socket, creates virtual HID devices on the phone through \<open>UHID_CREATE\<close>,
  \<open>UHID_INPUT\<close> and \<open>UHID_DESTROY\<close> messages, and reads the messages the phone sends back. The crate \<^verbatim>\<open>ai-device-kernel\<close>
  builds on it: observations, predicates, plans and a daemon with a binary protocol for agents. The crate
  \<^verbatim>\<open>android-hid-protocol\<close> holds a textual protocol.

  How the parts interact. A \<^emph>\<open>session\<close> owns a \<^emph>\<open>coalescing writer\<close> over a \<^emph>\<open>transport\<close> and one \<^emph>\<open>driver\<close> per device
  (keyboard, mouse, gamepads). A method of the session asks a driver for a report, wraps it in a \<^emph>\<open>control message\<close>
  and pushes the message to the writer, which \<^emph>\<open>serializes\<close> it and decides when to write. \<^emph>\<open>Gestures\<close> and the
  \<^emph>\<open>multi-touch handle\<close> are sequences of such pushes. A \<^emph>\<open>client\<close> moves the session into a dispatcher thread and
  sends it commands over a bounded channel, singly or through \<^emph>\<open>batchers\<close>; a second runtime replaces the channel by a
  lock-free \<^emph>\<open>ring\<close> of gamepad frames. In the other direction background loops read \<^emph>\<open>device messages\<close> and publish
  the latest frame summary. In the kernel, the \<^emph>\<open>bridge\<close> turns typed actions into calls of a session, the \<^emph>\<open>plan
  executor\<close> runs plans against a host and waits for predicates on the \<^emph>\<open>observation stream\<close>, and the daemon
  reads framed \<^emph>\<open>requests\<close>.

  Theories and sources, with what the lemmas show.

  \<^item> Foundations: \<^verbatim>\<open>Prelude\<close> (machine types, faults, byte order), \<^verbatim>\<open>Codec\<close> (streams, the codec locales), \<^verbatim>\<open>Readers\<close>, \<^verbatim>\<open>F32\<close>
    (binary32 with its rounding), \<^verbatim>\<open>Utf8\<close>, \<^verbatim>\<open>Types\<close> (\<^verbatim>\<open>src/src/types.rs\<close>, \<^verbatim>\<open>src/src/error.rs\<close>).
  \<^item> Wire: \<^verbatim>\<open>Control_Message\<close> is the serializer of \<^verbatim>\<open>src/src/control/message.rs\<close>; \<^verbatim>\<open>Wire_Format\<close> is the layout the server reads
    and the proof that the serializer appends exactly it, or rolls back with the documented error, and that a
    stream of messages is read back.
  \<^item> Drivers (\<^verbatim>\<open>src/src/hid/\<close>): \<^verbatim>\<open>Hid\<close> (reports, descriptors with a small descriptor parser), \<^verbatim>\<open>Keyboard\<close>, \<^verbatim>\<open>Mouse\<close>,
    \<^verbatim>\<open>Gamepad\<close>. Each state is a record of the fields of the source; updates refine set or table operations, and the
    locale \<open>hid_device\<close> is the trait \<open>HidDevice\<close>.
  \<^item> Writing: \<^verbatim>\<open>Transport\<close> (\<^verbatim>\<open>src/src/transport/mod.rs\<close>; the locales \<open>transport\<close> and \<open>reliable_transport\<close>), \<^verbatim>\<open>Coalesce\<close> and
    \<^verbatim>\<open>Coalesce_Stream\<close> (\<^verbatim>\<open>src/src/coalesce.rs\<close>): no reordering, loss or duplication up to the first failed operation, bounds of the
    buffer, delivery.
  \<^item> Session (\<^verbatim>\<open>src/src/session.rs\<close>, \<^verbatim>\<open>src/src/multitouch.rs\<close>): \<^verbatim>\<open>Session\<close>, \<^verbatim>\<open>Gestures\<close>, \<^verbatim>\<open>Multitouch\<close> are the operations;
    \<^verbatim>\<open>Session_Stream\<close> (the calculus \<open>wp\<close> of what an operation sends), \<^verbatim>\<open>Session_Safety\<close> (the invariant \<open>session_inv\<close>),
    \<^verbatim>\<open>Session_Life\<close> (whole lives, creates and destroys paired), \<^verbatim>\<open>Session_Input\<close> (typing, chords, gamepad setters),
    \<^verbatim>\<open>Gesture_Stream\<close> (touch paths), \<^verbatim>\<open>Multitouch_Track\<close> (the handle against its specification).
  \<^item> Ring (\<^verbatim>\<open>src/src/gamepad_ring.rs\<close>): \<^verbatim>\<open>Gamepad_Ring\<close>, a bounded queue, and two threads on a memory with
    release and acquire orderings, where frames are copied field by field and loads may be stale.
  \<^item> Client (\<^verbatim>\<open>src/src/client.rs\<close>): \<^verbatim>\<open>Client_Command\<close> (frames, chords, commands, one command on the session),
    \<^verbatim>\<open>Client_Dispatch\<close> (the dispatcher thread), \<^verbatim>\<open>Client\<close> (the methods, over the locale \<open>command_channel\<close>), \<^verbatim>\<open>Client_Batch\<close> and
    \<^verbatim>\<open>Client_Batch_Exact\<close> (batchers), \<^verbatim>\<open>Client_Channel\<close>, \<^verbatim>\<open>Client_Gesture\<close>, \<^verbatim>\<open>Client_Runtime\<close> (the channel runtime under every
    schedule), \<^verbatim>\<open>Client_Ring\<close> (the ring runtime).
  \<^item> Reading (\<^verbatim>\<open>src/src/device.rs\<close>, \<^verbatim>\<open>src/src/async_device.rs\<close>, \<^verbatim>\<open>src/src/ai/mod.rs\<close>): \<^verbatim>\<open>Ai\<close>, \<^verbatim>\<open>Device\<close>, \<^verbatim>\<open>Device_Stream\<close> (exact readers, loops that end
    and deliver, the latest-frame cache and its waiters), \<^verbatim>\<open>Device_Async\<close> (the Tokio receivers agree with them).
  \<^item> Textual protocol (\<^verbatim>\<open>src/android-hid-protocol/src\<close>): \<^verbatim>\<open>Verbs\<close>, \<^verbatim>\<open>Kvs\<close>, \<^verbatim>\<open>Protocol\<close>.
  \<^item> Kernel (\<^verbatim>\<open>src/ai-device-kernel/src\<close>): \<^verbatim>\<open>Kernel_Types\<close> (observations, predicates, actions, plans), \<^verbatim>\<open>Kernel_State\<close> (bounded
    logs, task memory, capabilities), \<^verbatim>\<open>Kernel_Stream\<close> (subscriptions with replay), \<^verbatim>\<open>Kernel_Predicates\<close> (registration
    and waiting), \<^verbatim>\<open>Kernel_Plan\<close> (the executor), \<^verbatim>\<open>Kernel_Memory\<close> (an LRU cache), \<^verbatim>\<open>Kernel_Policy\<close> (chunks, egress), \<^verbatim>\<open>Kernel_Wire\<close>
    (\<^verbatim>\<open>protocol.rs\<close>), \<^verbatim>\<open>Kernel_Bridge\<close> (\<^verbatim>\<open>bridge.rs\<close>), \<^verbatim>\<open>Kernel_Ui\<close> (\<^verbatim>\<open>ui_repr.rs\<close>), \<^verbatim>\<open>Kernel_Request\<close> (\<^verbatim>\<open>bin/adk.rs\<close>, the parts without
    shared state).

  Conventions. A function that may fail returns a sum with the error on the left; a panic is the fault
  \<open>Panicked\<close>, so that a theorem that a call returns a value also excludes panics. Stateful code is an action
  \<open>('s, 'a) act\<close> that returns its result and the state it leaves, also when it fails. Integers are words of their
  width and wrap around as in the release profile, which turns overflow checks off; a length or an index is a
  natural number, except where the code computes with lengths from the wire (\<^verbatim>\<open>Kernel_Wire\<close>, 64 bits) and for the
  counters of the ring. A hash map is an association list with distinct keys, so that results do not depend
  on its order unless the code makes them. Strings are byte lists where the code sends them and lists of scalar
  values where it walks over them.

  Loops and fuel. Loops over data are structural recursion or have a measure. A loop that waits is a
  \<open>partial_function (option)\<close> or a function on the list of states its wake-ups see: \<open>None\<close> is a wait that does not end, and
  that it ends is stated as such (\<open>wait_for_returns\<close>, \<open>plan_executed\<close>, \<open>flush_wait_exact\<close>, \<open>async_receivers_agree\<close>). The
  consumer of the ring runs as many steps as its schedule says, and \<open>ring_delivers\<close> gives a number that suffices to end it:
  two for each frame and three more.
  Bounds of the code (300 bytes of text, 256 KiB messages, eight gamepads and ring slots, ten pointers, a channel of
  4096 commands, 512 observations of history, 256 per subscriber, 1024 screens) are constants of the model; the
  theorems on the channel hold for every positive bound.

  What is outside and how it is modelled. The operating system and third-party code are parameters: the transport and
  its clock (\<open>transport_ops\<close>), a plan's host, the digest of a screen id, postcard, Tokio's \<open>read_exact\<close>. Their documented
  behaviour is a locale or a hypothesis with an instance from the sources or from the standard library's contract.
  Threads are schedules: between two calls of a client the dispatcher runs as far as an arbitrary list of numbers
  says, and the consumer of the ring makes the steps of an arbitrary list, so that a call falls between any two of its
  accesses to shared state; the ring itself is interleaved at its loads and stores, on histories of stored values and views
  that an acquire load of a released store extends. A thread's accesses take effect in program order: a store that overtakes
  an earlier load is outside the model. Mutexes and condition variables are atomic steps. Spawning a thread succeeds.

  Not modelled. The daemon of \<^verbatim>\<open>bin/adk.rs\<close> runs adb, accepts sockets and spawns threads; its handlers pass on what the modelled parts
  compute. The Debug and serde implementations are derived code. The scenario library, the cold-start
  strategy and the language-model adapters (\<^verbatim>\<open>scenario_library.rs\<close>, \<^verbatim>\<open>cold_start.rs\<close>, \<^verbatim>\<open>mock_llm.rs\<close>, \<^verbatim>\<open>cloud_llm.rs\<close>,
  \<^verbatim>\<open>on_device_llm.rs\<close>, \<^verbatim>\<open>llm_deployment.rs\<close>) are statistics, configuration and stubs that nothing else in the crate calls;
  \<^verbatim>\<open>json.rs\<close> and \<^verbatim>\<open>memory_sqlite.rs\<close> only call serde, schemars and SQLite. Benchmarks, examples, tests and the Java server
  under \<^verbatim>\<open>src/scrcpy-server\<close> are not part of the library.
\<close>

end
